(* ===== verification/Heap_Order.thy ===== *)
theory Heap_Order
  imports Main "HOL-Library.Multiset"
begin

text \<open>
  The binary heap as an algorithm on lists: sifting up and down, over any strict weak order.  The
  component \<^verbatim>\<open>store/min_max_heap\<close> runs these steps on its storages; what it promises is proved here
  once.
\<close>

definition hparent :: "nat \<Rightarrow> nat" where
  "hparent i = (if i = 0 then 0 else (i - 1) div 2)"

definition list_swap :: "nat \<Rightarrow> nat \<Rightarrow> 'a list \<Rightarrow> 'a list" where
  "list_swap i j xs = xs[i := xs ! j, j := xs ! i]"

lemma length_list_swap [simp]: "length (list_swap i j xs) = length xs"
  by (simp add: list_swap_def)

lemma mset_list_swap: "i < length xs \<Longrightarrow> j < length xs \<Longrightarrow> mset (list_swap i j xs) = mset xs"
  unfolding list_swap_def by (rule mset_swap)

lemma nth_list_swap:
  "i < length xs \<Longrightarrow> j < length xs \<Longrightarrow> k < length xs \<Longrightarrow>
   list_swap i j xs ! k = (if k = j then xs ! i else if k = i then xs ! j else xs ! k)"
  by (auto simp: list_swap_def nth_list_update)

lemma hparent_less: "0 < i \<Longrightarrow> hparent i < i"
  by (simp add: hparent_def)

lemma hparent_le: "hparent i \<le> i"
  using hparent_less[of i] by (cases "i = 0") (simp_all add: hparent_def)

lemma hparent_child: "0 < j \<Longrightarrow> hparent j = i \<longleftrightarrow> j = 2 * i + 1 \<or> j = 2 * i + 2"
  by (auto simp: hparent_def)

text \<open>The two sifting loops; the recursion of the first ends at the root, that of the second at a
  leaf.\<close>

function sift_up :: "('a \<Rightarrow> 'a \<Rightarrow> bool) \<Rightarrow> nat \<Rightarrow> 'a list \<Rightarrow> 'a list" where
  "sift_up lt i xs =
     (if 0 < i \<and> i < length xs \<and> lt (xs ! i) (xs ! hparent i)
      then sift_up lt (hparent i) (list_swap i (hparent i) xs) else xs)"
  by pat_completeness auto
termination by (relation "measure (\<lambda>(lt, i, xs). i)") (auto simp: hparent_less)

declare sift_up.simps [simp del]

definition pick_child :: "('a \<Rightarrow> 'a \<Rightarrow> bool) \<Rightarrow> 'a list \<Rightarrow> nat \<Rightarrow> nat \<Rightarrow> nat" where
  "pick_child lt xs smallest child =
     (if child < length xs \<and> lt (xs ! child) (xs ! smallest) then child else smallest)"

definition smallest_of :: "('a \<Rightarrow> 'a \<Rightarrow> bool) \<Rightarrow> 'a list \<Rightarrow> nat \<Rightarrow> nat" where
  "smallest_of lt xs i = pick_child lt xs (pick_child lt xs i (2 * i + 1)) (2 * i + 2)"

lemma smallest_of_cases:
  "smallest_of lt xs i = i \<or>
   (smallest_of lt xs i = 2 * i + 1 \<and> 2 * i + 1 < length xs) \<or>
   (smallest_of lt xs i = 2 * i + 2 \<and> 2 * i + 2 < length xs)"
  by (auto simp: smallest_of_def pick_child_def)

function sift_down :: "('a \<Rightarrow> 'a \<Rightarrow> bool) \<Rightarrow> nat \<Rightarrow> 'a list \<Rightarrow> 'a list" where
  "sift_down lt i xs =
     (if i < length xs div 2 \<and> smallest_of lt xs i \<noteq> i
      then sift_down lt (smallest_of lt xs i) (list_swap i (smallest_of lt xs i) xs) else xs)"
  by pat_completeness auto
termination
proof (relation "measure (\<lambda>(lt, i, xs). length xs - i)", simp)
  fix lt :: "'a \<Rightarrow> 'a \<Rightarrow> bool" and i xs
  assume "i < length xs div 2 \<and> smallest_of lt xs i \<noteq> i"
  then show "((lt, smallest_of lt xs i, list_swap i (smallest_of lt xs i) xs), lt, i, xs)
      \<in> measure (\<lambda>(lt, i, xs). length xs - i)"
    using smallest_of_cases[of lt xs i] by auto
qed

declare sift_down.simps [simp del]

lemma mset_sift_up: "mset (sift_up lt i xs) = mset xs"
proof (induction lt i xs rule: sift_up.induct)
  case (1 lt i xs)
  then show ?case
    using hparent_le[of i] by (subst sift_up.simps) (simp add: mset_list_swap)
qed

lemma length_sift_up [simp]: "length (sift_up lt i xs) = length xs"
  using mset_sift_up[of lt i xs] by (metis size_mset)

lemma mset_sift_down: "mset (sift_down lt i xs) = mset xs"
proof (induction lt i xs rule: sift_down.induct)
  case (1 lt i xs)
  then show ?case
    using smallest_of_cases[of lt xs i] by (subst sift_down.simps) (auto simp: mset_list_swap)
qed

lemma length_sift_down [simp]: "length (sift_down lt i xs) = length xs"
  using mset_sift_down[of lt i xs] by (metis size_mset)

text \<open>The order: \<open>lt\<close> is a strict weak order on the elements in play (\<open>ok\<close>).\<close>

locale weak_order =
  fixes lt :: "'a \<Rightarrow> 'a \<Rightarrow> bool" and ok :: "'a \<Rightarrow> bool"
  assumes irrefl: "\<not> lt x x"
    and asym: "ok x \<Longrightarrow> ok y \<Longrightarrow> lt x y \<Longrightarrow> \<not> lt y x"
    and neg_trans: "ok x \<Longrightarrow> ok y \<Longrightarrow> ok z \<Longrightarrow> \<not> lt x y \<Longrightarrow> \<not> lt y z \<Longrightarrow> \<not> lt x z"
begin

definition heap_at :: "'a list \<Rightarrow> nat \<Rightarrow> bool" where
  "heap_at xs j \<longleftrightarrow> (0 < j \<longrightarrow> \<not> lt (xs ! j) (xs ! hparent j))"

definition is_heap :: "'a list \<Rightarrow> bool" where
  "is_heap xs \<longleftrightarrow> (\<forall>j < length xs. heap_at xs j)"

text \<open>A heap but for position \<open>i\<close>, whose children are in order with its parent.\<close>

definition grand_ok :: "'a list \<Rightarrow> nat \<Rightarrow> bool" where
  "grand_ok xs i \<longleftrightarrow> (\<forall>j < length xs. 0 < j \<longrightarrow> hparent j = i \<longrightarrow> 0 < i \<longrightarrow> \<not> lt (xs ! j) (xs ! hparent i))"

definition up_inv :: "'a list \<Rightarrow> nat \<Rightarrow> bool" where
  "up_inv xs i \<longleftrightarrow> (\<forall>j < length xs. j \<noteq> i \<longrightarrow> heap_at xs j) \<and> grand_ok xs i"

definition down_inv :: "'a list \<Rightarrow> nat \<Rightarrow> bool" where
  "down_inv xs i \<longleftrightarrow> (\<forall>j < length xs. (0 < j \<and> hparent j = i) \<or> heap_at xs j) \<and> grand_ok xs i"

lemma up_step:
  assumes inv: "up_inv xs i" and i: "0 < i" "i < length xs" and lt: "lt (xs ! i) (xs ! hparent i)"
    and ok: "\<forall>x \<in> set xs. ok x"
  shows "up_inv (list_swap i (hparent i) xs) (hparent i)"
proof -
  let ?p = "hparent i" and ?ys = "list_swap i (hparent i) xs"
  have p: "?p < i" using i(1) by (rule hparent_less)
  then have pl: "?p < length xs" using i(2) by simp
  have okn: "ok (xs ! j)" if "j < length xs" for j using ok that by simp
  have nlt: "\<not> lt (xs ! ?p) (xs ! i)" using asym[OF okn okn lt] i(2) pl by simp
  note nth = nth_list_swap[OF i(2) pl]
  have old: "\<not> lt (xs ! j) (xs ! hparent j)" if "j < length xs" "j \<noteq> i" "0 < j" for j
    using inv that by (auto simp: up_inv_def heap_at_def)
  have grand: "\<not> lt (xs ! j) (xs ! ?p)" if "j < length xs" "0 < j" "hparent j = i" for j
    using inv that i(1) by (auto simp: up_inv_def grand_ok_def)
  have sib: "\<not> lt (xs ! j) (xs ! i)" if "j < length xs" "j \<noteq> i" "0 < j" "hparent j = ?p" for j
    using neg_trans[OF okn okn okn _ nlt, of j] old[of j] that pl i(2) by simp
  have "heap_at ?ys j" if j: "j < length ?ys" "j \<noteq> ?p" for j
  proof (cases "j = 0")
    case False
    then have hp: "hparent j < j" "hparent j < length xs" using hparent_less[of j] j by auto
    show ?thesis
      unfolding heap_at_def
      using j hp nlt grand[of j] sib[of j] old[of j] by (auto simp: nth)
  qed (simp add: heap_at_def)
  moreover have "grand_ok ?ys ?p"
    unfolding grand_ok_def
  proof (intro allI impI)
    fix j assume j: "j < length ?ys" "0 < j" "hparent j = ?p" "0 < ?p"
    have pp: "hparent ?p < ?p" "hparent ?p < length xs" using hparent_less[OF j(4)] pl by auto
    have jp: "j \<noteq> ?p" using hparent_less[OF j(2)] j(3) by simp
    have top: "\<not> lt (xs ! ?p) (xs ! hparent ?p)" using old[of ?p] pl p j(4) by simp
    show "\<not> lt (?ys ! j) (?ys ! hparent ?p)"
    proof (cases "j = i")
      case True
      then show ?thesis using top pp p i(2) by (simp add: nth)
    next
      case False
      then have "\<not> lt (xs ! j) (xs ! hparent ?p)"
        using neg_trans[OF okn okn okn _ top, of j] old[of j] j pl pp by simp
      then show ?thesis using False jp pp p j(1) by (simp add: nth)
    qed
  qed
  ultimately show ?thesis by (simp add: up_inv_def)
qed

lemma set_list_swap: "i < length xs \<Longrightarrow> j < length xs \<Longrightarrow> set (list_swap i j xs) = set xs"
  using mset_list_swap[of i xs j] by (metis set_mset_mset)

lemma sift_up_heap:
  assumes "up_inv xs i" "i < length xs" "\<forall>x \<in> set xs. ok x"
  shows "is_heap (sift_up lt i xs)"
  using assms
proof (induction i arbitrary: xs rule: less_induct)
  case (less i)
  show ?case
  proof (cases "0 < i \<and> lt (xs ! i) (xs ! hparent i)")
    case True
    then have p: "hparent i < i" "hparent i < length xs" using hparent_less[of i] less.prems(2) by auto
    have "is_heap (sift_up lt (hparent i) (list_swap i (hparent i) xs))"
      using True less.prems p up_step[OF less.prems(1) _ less.prems(2)]
      by (intro less.IH) (simp_all add: set_list_swap)
    then show ?thesis using True less.prems(2) by (subst sift_up.simps) simp
  next
    case False
    then have "heap_at xs j" if "j < length xs" for j
      using less.prems(1) that by (cases "j = i") (auto simp: up_inv_def heap_at_def)
    then show ?thesis using False by (subst sift_up.simps) (auto simp: is_heap_def)
  qed
qed

text \<open>The child that moves up is below the element that moves down and not above its sibling.\<close>

lemma smallest_of_least:
  assumes "\<forall>x \<in> set xs. ok x" "i < length xs" "smallest_of lt xs i \<noteq> i"
  shows "lt (xs ! smallest_of lt xs i) (xs ! i)"
    and "\<And>c. c < length xs \<Longrightarrow> c = 2 * i + 1 \<or> c = 2 * i + 2 \<Longrightarrow> \<not> lt (xs ! c) (xs ! smallest_of lt xs i)"
proof -
  let ?l = "2 * i + 1" and ?r = "2 * i + 2"
  have okn: "ok (xs ! j)" if "j < length xs" for j using assms(1) that by simp
  have cases: "lt (xs ! smallest_of lt xs i) (xs ! i) \<and>
      (\<forall>c. c < length xs \<longrightarrow> c = ?l \<or> c = ?r \<longrightarrow> \<not> lt (xs ! c) (xs ! smallest_of lt xs i))"
  proof (cases "?l < length xs \<and> lt (xs ! ?l) (xs ! i)")
    case True
    show ?thesis
    proof (cases "?r < length xs \<and> lt (xs ! ?r) (xs ! ?l)")
      case r: True
      then have m: "smallest_of lt xs i = ?r" using True by (simp add: smallest_of_def pick_child_def)
      have nl: "\<not> lt (xs ! ?l) (xs ! ?r)" using asym[OF okn okn] r True by blast
      have "lt (xs ! ?r) (xs ! i)"
        using neg_trans[OF okn okn okn nl, of i] True r assms(2) by blast
      then show ?thesis using m nl irrefl by (metis)
    next
      case r: False
      then have m: "smallest_of lt xs i = ?l" using True by (simp add: smallest_of_def pick_child_def)
      then show ?thesis using True r irrefl by metis
    qed
  next
    case False
    then have r: "?r < length xs" "lt (xs ! ?r) (xs ! i)" and m: "smallest_of lt xs i = ?r"
      using assms(3) by (auto simp: smallest_of_def pick_child_def split: if_splits)
    have "\<not> lt (xs ! i) (xs ! ?r)" using asym[OF okn okn r(2)] r(1) assms(2) by blast
    then have "\<not> lt (xs ! ?l) (xs ! ?r)"
      using neg_trans[OF okn okn okn, of ?l i ?r] False r(1) assms(2) by auto
    then show ?thesis using r m irrefl by metis
  qed
  then show "lt (xs ! smallest_of lt xs i) (xs ! i)"
    and "\<And>c. c < length xs \<Longrightarrow> c = ?l \<or> c = ?r \<Longrightarrow> \<not> lt (xs ! c) (xs ! smallest_of lt xs i)" by blast+
qed

lemma down_step:
  assumes inv: "down_inv xs i" and i: "i < length xs" and m: "smallest_of lt xs i \<noteq> i"
    and ok: "\<forall>x \<in> set xs. ok x"
  shows "down_inv (list_swap i (smallest_of lt xs i) xs) (smallest_of lt xs i)"
proof -
  let ?m = "smallest_of lt xs i" and ?ys = "list_swap i (smallest_of lt xs i) xs"
  have okn: "ok (xs ! j)" if "j < length xs" for j using ok that by simp
  have mc: "?m = 2 * i + 1 \<or> ?m = 2 * i + 2" "?m < length xs" using smallest_of_cases[of lt xs i] m by auto
  then have pm: "hparent ?m = i" "0 < ?m" "i < ?m" by (auto simp: hparent_def)
  note least = smallest_of_least[OF ok i m]
  have nlt: "\<not> lt (xs ! i) (xs ! ?m)" using asym[OF okn okn least(1)] i mc(2) by simp
  note nth = nth_list_swap[OF i mc(2)]
  have old: "\<not> lt (xs ! j) (xs ! hparent j)" if "j < length xs" "hparent j \<noteq> i" "0 < j" for j
    using inv that by (auto simp: down_inv_def heap_at_def)
  have sib: "\<not> lt (xs ! j) (xs ! ?m)" if "j < length xs" "0 < j" "hparent j = i" for j
    using least(2)[of j] hparent_child[OF that(2), of i] that by blast
  have grand: "\<not> lt (xs ! ?m) (xs ! hparent i)" if "0 < i"
    using inv that mc(2) pm by (auto simp: down_inv_def grand_ok_def)
  have "(0 < j \<and> hparent j = ?m) \<or> heap_at ?ys j" if j: "j < length ?ys" for j
  proof (cases "j = 0 \<or> hparent j = ?m")
    case False
    then have hp: "hparent j < j" "hparent j < length xs" using hparent_less[of j] j by auto
    show ?thesis
      using False j hp nlt sib[of j] old[of j] grand pm by (auto simp: heap_at_def nth)
  qed (auto simp: heap_at_def)
  moreover have "grand_ok ?ys ?m"
    unfolding grand_ok_def
  proof (intro allI impI)
    fix j assume j: "j < length ?ys" "0 < j" "hparent j = ?m" "0 < ?m"
    then have "?m < j" using hparent_less[of j] by simp
    then show "\<not> lt (?ys ! j) (?ys ! hparent ?m)"
      using old[of j] j pm i by (simp add: nth)
  qed
  ultimately show ?thesis by (simp add: down_inv_def)
qed

lemma sift_down_heap:
  assumes "down_inv xs i" "i < length xs" "\<forall>x \<in> set xs. ok x"
  shows "is_heap (sift_down lt i xs)"
  using assms
proof (induction "length xs - i" arbitrary: i xs rule: less_induct)
  case less
  let ?m = "smallest_of lt xs i"
  show ?case
  proof (cases "i < length xs div 2 \<and> ?m \<noteq> i")
    case True
    then have m: "i < ?m" "?m < length xs" using smallest_of_cases[of lt xs i] by auto
    have "is_heap (sift_down lt ?m (list_swap i ?m xs))"
      using True less.prems m down_step[OF less.prems(1,2) _ less.prems(3)]
      by (intro less.hyps) (simp_all add: set_list_swap)
    then show ?thesis using True by (subst sift_down.simps) simp
  next
    case False
    have "\<not> lt (xs ! j) (xs ! i)" if j: "j < length xs" "0 < j" "hparent j = i" for j
    proof -
      have c: "j = 2 * i + 1 \<or> j = 2 * i + 2" using hparent_child[OF j(2), of i] j(3) by blast
      then have "?m = i" using False j(1) by auto
      then show ?thesis using c j(1) by (auto simp: smallest_of_def pick_child_def split: if_splits)
    qed
    then have "heap_at xs j" if "j < length xs" for j
      using less.prems(1) that by (auto simp: down_inv_def heap_at_def)
    then show ?thesis using False by (subst sift_down.simps) (auto simp: is_heap_def)
  qed
qed

text \<open>The first element of a heap is not above any other.\<close>

lemma heap_top:
  assumes "is_heap xs" "i < length xs" "\<forall>x \<in> set xs. ok x"
  shows "\<not> lt (xs ! i) (xs ! 0)"
  using assms(2)
proof (induction i rule: less_induct)
  case (less i)
  show ?case
  proof (cases "i = 0")
    case False
    then have p: "hparent i < i" "hparent i < length xs" using hparent_less[of i] less.prems by auto
    have "\<not> lt (xs ! i) (xs ! hparent i)"
      using assms(1) False less.prems by (auto simp: is_heap_def heap_at_def)
    moreover have "\<not> lt (xs ! hparent i) (xs ! 0)" using less.IH[OF p] .
    ultimately show ?thesis
      using neg_trans[of "xs ! i" "xs ! hparent i" "xs ! 0"] assms(3) less.prems p by (metis nth_mem less_trans not_gr_zero)
  qed (simp add: irrefl)
qed

lemma is_heap_prefix: "is_heap (xs @ ys) \<Longrightarrow> is_heap xs"
  unfolding is_heap_def heap_at_def
proof (intro allI impI)
  fix j
  assume h: "\<forall>j < length (xs @ ys). 0 < j \<longrightarrow> \<not> lt ((xs @ ys) ! j) ((xs @ ys) ! hparent j)"
    and j: "j < length xs" "0 < j"
  have "hparent j < length xs" using hparent_less[OF j(2)] j(1) by simp
  then show "\<not> lt (xs ! j) (xs ! hparent j)" using h[rule_format, of j] j by (simp add: nth_append)
qed

lemma is_heap_butlast: "is_heap xs \<Longrightarrow> is_heap (butlast xs)"
  using is_heap_prefix[of "butlast xs" "[last xs]"] by (cases "xs = []") auto

definition heap_insert :: "'a \<Rightarrow> 'a list \<Rightarrow> 'a list" where
  "heap_insert x xs = sift_up lt (length xs) (xs @ [x])"

definition heap_delete :: "nat \<Rightarrow> 'a list \<Rightarrow> 'a list" where
  "heap_delete i xs =
     (if i = length xs - 1 then butlast xs
      else let l = last xs; ys = (butlast xs)[i := l]
           in if 0 < i \<and> lt l (ys ! hparent i) then sift_up lt i ys
              else if i < length ys div 2 then sift_down lt i ys else ys)"

definition heap_pop :: "'a list \<Rightarrow> 'a list" where
  "heap_pop xs = sift_down lt 0 (butlast (list_swap 0 (length xs - 1) xs))"

lemma heap_insert_heap:
  assumes "is_heap xs" "\<forall>x \<in> set xs. ok x" "ok x"
  shows "is_heap (heap_insert x xs)" "mset (heap_insert x xs) = add_mset x (mset xs)"
proof -
  have "heap_at (xs @ [x]) j" if "j < length xs" for j
    using assms(1) that hparent_le[of j] by (auto simp: is_heap_def heap_at_def nth_append)
  moreover have "hparent j \<noteq> length xs" if "j < Suc (length xs)" "0 < j" for j
    using hparent_less[OF that(2)] that by simp
  ultimately have "up_inv (xs @ [x]) (length xs)"
    by (auto simp: up_inv_def grand_ok_def less_Suc_eq)
  then show "is_heap (heap_insert x xs)"
    unfolding heap_insert_def using assms by (intro sift_up_heap) auto
qed (simp add: heap_insert_def mset_sift_up)

lemma heap_delete_heap:
  assumes "is_heap xs" "\<forall>x \<in> set xs. ok x" "i < length xs"
  shows "is_heap (heap_delete i xs)"
proof (cases "i = length xs - 1")
  case True
  then show ?thesis using assms(1) by (simp add: heap_delete_def is_heap_butlast)
next
  case False
  let ?l = "last xs" and ?zs = "butlast xs"
  let ?ys = "?zs[i := ?l]"
  have i: "i < length ?zs" using assms(3) False by simp
  have zs: "is_heap ?zs" using assms(1) by (rule is_heap_butlast)
  have okz: "ok (?zs ! j)" if "j < length ?zs" for j
    using assms(2) that by (metis in_set_butlastD nth_mem)
  have okl: "ok ?l" using assms(2,3) by (cases xs) auto
  have oky: "\<forall>x \<in> set ?ys. ok x"
    using okl assms(2) by (metis in_set_butlastD set_update_subset_insert insertE subsetD)
  have old: "\<not> lt (?zs ! j) (?zs ! hparent j)" if "j < length ?zs" "0 < j" for j
    using zs that by (auto simp: is_heap_def heap_at_def)
  have grand0: "\<not> lt (?zs ! j) (?zs ! hparent i)" if "j < length ?zs" "0 < j" "hparent j = i" "0 < i" for j
  proof -
    have "hparent i < length ?zs" using hparent_less[OF that(4)] i by simp
    then show ?thesis using neg_trans[OF okz okz okz, of j i "hparent i"] old[of j] old[of i] that i by simp
  qed
  have grand: "grand_ok ?ys i"
    unfolding grand_ok_def
  proof (intro allI impI)
    fix j assume j: "j < length ?ys" "0 < j" "hparent j = i" "0 < i"
    have "j \<noteq> i" "hparent i \<noteq> i" using hparent_less[OF j(2)] hparent_less[OF j(4)] j(3) by auto
    then show "\<not> lt (?ys ! j) (?ys ! hparent i)" using grand0[of j] j by simp
  qed
  have rest: "heap_at ?ys j" if "j < length ?ys" "j \<noteq> i" "hparent j \<noteq> i" for j
    using old[of j] that by (auto simp: heap_at_def)
  show ?thesis
  proof (cases "0 < i \<and> lt ?l (?ys ! hparent i)")
    case True
    have pi: "hparent i < i" "hparent i < length ?zs" using hparent_less[of i] True i by auto
    have l: "lt ?l (?zs ! hparent i)" using True pi by simp
    have np: "\<not> lt (?zs ! hparent i) ?l" using asym[OF okl okz[OF pi(2)] l] .
    have "heap_at ?ys j" if j: "j < length ?ys" "j \<noteq> i" "hparent j = i" for j
    proof (cases "j = 0")
      case False
      then have "\<not> lt (?zs ! j) ?l"
        using neg_trans[OF okz okz okl _ np, of j] grand0[of j] j True pi by simp
      then show ?thesis using j i by (simp add: heap_at_def)
    qed (simp add: heap_at_def)
    then have "up_inv ?ys i" using rest grand by (auto simp: up_inv_def)
    then have "is_heap (sift_up lt i ?ys)" using i oky by (intro sift_up_heap) auto
    then show ?thesis using False True by (simp add: heap_delete_def Let_def)
  next
    case down: False
    have "heap_at ?ys i" using down i by (auto simp: heap_at_def)
    then have "down_inv ?ys i" using rest grand unfolding down_inv_def
      by (metis hparent_def heap_at_def not_gr_zero)
    then have "is_heap (sift_down lt i ?ys)" using i oky by (intro sift_down_heap) auto
    moreover have "sift_down lt i ?ys = ?ys" if "\<not> i < length ?ys div 2"
      using that by (subst sift_down.simps) simp
    ultimately show ?thesis using False down by (auto simp: heap_delete_def Let_def)
  qed
qed

lemma mset_heap_delete:
  assumes "i < length xs"
  shows "mset (heap_delete i xs) = mset xs - {#xs ! i#}"
proof (cases "i = length xs - 1")
  case True
  then have "xs ! i = last xs" using assms by (cases xs) (simp_all add: last_conv_nth)
  moreover have "mset xs = add_mset (last xs) (mset (butlast xs))"
    using assms by (metis append_butlast_last_id length_greater_0_conv less_nat_zero_code list.size(3)
        mset.simps(1) mset.simps(2) mset_append union_mset_add_mset_right add.right_neutral)
  ultimately show ?thesis using True by (simp add: heap_delete_def)
next
  case False
  then have i: "i < length (butlast xs)" using assms by simp
  have ne: "xs \<noteq> []" using assms by auto
  have e: "mset ((butlast xs)[i := last xs]) = add_mset (last xs) (mset (butlast xs) - {#butlast xs ! i#})"
    by (rule mset_update[OF i])
  have "mset xs = add_mset (last xs) (mset (butlast xs))"
    using ne by (metis append_butlast_last_id mset.simps(1) mset.simps(2) mset_append
        union_mset_add_mset_right add.right_neutral)
  moreover have "butlast xs ! i = xs ! i" using i by (simp add: nth_butlast)
  moreover have "xs ! i \<in># mset (butlast xs)" using i by (metis nth_butlast nth_mem set_mset_mset)
  ultimately have "mset ((butlast xs)[i := last xs]) = mset xs - {#xs ! i#}" using e by simp
  then show ?thesis using False by (auto simp: heap_delete_def Let_def mset_sift_up mset_sift_down)
qed

lemma heap_pop_heap:
  assumes "is_heap xs" "\<forall>x \<in> set xs. ok x" "xs \<noteq> []"
  shows "is_heap (heap_pop xs)" "mset (heap_pop xs) = mset xs - {#xs ! 0#}"
proof -
  let ?n = "length xs - 1"
  let ?ys = "butlast (list_swap 0 ?n xs)"
  have n: "0 < length xs" "?n < length xs" using assms(3) by auto
  have nth: "?ys ! j = xs ! j" if "j < ?n" "j \<noteq> 0" for j
    using that n by (simp add: nth_butlast nth_list_swap)
  have ms: "mset (list_swap 0 ?n xs) = mset xs" using n by (simp add: mset_list_swap)
  have last: "last (list_swap 0 ?n xs) = xs ! 0"
    using n by (subst last_conv_nth) (auto simp: nth_list_swap list_swap_def)
  have "list_swap 0 ?n xs \<noteq> []" using assms(3) by (metis length_list_swap length_0_conv)
  then have "mset (list_swap 0 ?n xs) = add_mset (xs ! 0) (mset ?ys)"
    using last by (metis append_butlast_last_id mset.simps(1) mset.simps(2) mset_append
        union_mset_add_mset_right add.right_neutral)
  then have my: "mset ?ys = mset xs - {#xs ! 0#}" using ms by (metis add_mset_remove_trivial)
  then show "mset (heap_pop xs) = mset xs - {#xs ! 0#}" by (simp add: heap_pop_def mset_sift_down)
  have oky: "\<forall>x \<in> set ?ys. ok x"
    using assms(2) ms by (metis in_set_butlastD set_mset_mset)
  show "is_heap (heap_pop xs)"
  proof (cases "length xs = 1")
    case True
    then have "?ys = []" by (cases xs) (simp_all add: list_swap_def)
    then show ?thesis unfolding heap_pop_def by (subst sift_down.simps) (simp add: is_heap_def)
  next
    case False
    have "heap_at ?ys j" if "j < ?n" "hparent j \<noteq> 0" for j
    proof -
      have "0 < j" using that(2) by (metis hparent_def not_gr_zero)
      then show ?thesis
        using assms(1) that nth[of j] nth[of "hparent j"] hparent_less[of j] by (auto simp: is_heap_def heap_at_def)
    qed
    then have "down_inv ?ys 0" by (auto simp: down_inv_def grand_ok_def heap_at_def)
    moreover have "1 < length xs" using n(1) False by linarith
    ultimately show ?thesis unfolding heap_pop_def using oky by (intro sift_down_heap) auto
  qed
qed

end

end
