(* ===== verification/Go_Prelude.thy ===== *)
theory Go_Prelude
  imports Main "HOL-Library.Word"
begin

text \<open>
  The language layer shared by every component: Go's machine integers and byte slices as words
  and lists of words, Go's \<^verbatim>\<open>error\<close> results and run-time panics as values, a state-passing
  monad in which a Go statement sequence with early returns is written, the \<^verbatim>\<open>for ... range\<close>
  loop, and the part of \<^verbatim>\<open>strconv\<close> the program uses.  The lemmas are generic facts on lists
  and words, and the calculus of the monad, collected in \<open>go_simps\<close>.
\<close>

section \<open>Machine types\<close>

type_synonym byte = "8 word"
type_synonym bytes = "8 word list"
type_synonym uint64 = "64 word"

text \<open>A Go string literal as the byte sequence it denotes.\<close>

definition lit :: "string \<Rightarrow> bytes" where
  "lit s = map of_char s"

definition MaxUint64 :: uint64 where
  "MaxUint64 = 18446744073709551615"

text \<open>\<^verbatim>\<open>int(x)\<close> for a \<^verbatim>\<open>uint64\<close>: the same 64 bits read as two's complement.\<close>

definition int_of_uint64 :: "uint64 \<Rightarrow> int" where
  "int_of_uint64 x = (if unat x < 2 ^ 63 then int (unat x) else int (unat x) - 2 ^ 64)"

section \<open>Errors, panics and state\<close>

text \<open>
  \<open>Error\<close> is a non-nil \<^verbatim>\<open>error\<close> value with its message; \<open>Panic\<close> a run-time panic (an index
  out of range, a division by zero, an explicit \<^verbatim>\<open>panic\<close>).  \<open>Timeout\<close> is no Go value: it is the
  result of a loop that has not returned when the fuel of its model is spent.
\<close>

datatype go_error = Error string | Panic string | Timeout

type_synonym 'a result = "go_error + 'a"

text \<open>
  A Go function that reads and writes the state \<open>'s\<close> and returns an \<open>'a\<close> or fails.  The state
  after a failure is kept: the effects made before an early return remain.
\<close>

type_synonym ('s, 'a) go = "'s \<Rightarrow> 'a result \<times> 's"

definition gret :: "'a \<Rightarrow> ('s, 'a) go" where
  "gret x = (\<lambda>s. (Inr x, s))"

definition gerr :: "string \<Rightarrow> ('s, 'a) go" where
  "gerr m = (\<lambda>s. (Inl (Error m), s))"

definition gpanic :: "string \<Rightarrow> ('s, 'a) go" where
  "gpanic m = (\<lambda>s. (Inl (Panic m), s))"

definition gtimeout :: "('s, 'a) go" where
  "gtimeout = (\<lambda>s. (Inl Timeout, s))"

definition gbind :: "('s, 'a) go \<Rightarrow> ('a \<Rightarrow> ('s, 'b) go) \<Rightarrow> ('s, 'b) go" where
  "gbind m f = (\<lambda>s. case m s of (Inl e, s') \<Rightarrow> (Inl e, s') | (Inr x, s') \<Rightarrow> f x s')"

definition gget :: "('s \<Rightarrow> 'a) \<Rightarrow> ('s, 'a) go" where
  "gget f = (\<lambda>s. (Inr (f s), s))"

definition gmod :: "('s \<Rightarrow> 's) \<Rightarrow> ('s, unit) go" where
  "gmod f = (\<lambda>s. (Inr (), f s))"

text \<open>A computation without state, run where a stateful one is expected.\<close>

definition glift :: "'a result \<Rightarrow> ('s, 'a) go" where
  "glift r = (\<lambda>s. (r, s))"

text \<open>\<^verbatim>\<open>if cond { return errors.New(m) }\<close>.\<close>

definition gcheck :: "bool \<Rightarrow> string \<Rightarrow> ('s, unit) go" where
  "gcheck bad m = (if bad then gerr m else gret ())"

text \<open>\<^verbatim>\<open>for _, x := range xs { body }\<close>, left at the first failure, and the loop that collects
  the results of the body.\<close>

fun gfor :: "'a list \<Rightarrow> ('a \<Rightarrow> ('s, unit) go) \<Rightarrow> ('s, unit) go" where
  "gfor [] f = gret ()"
| "gfor (x # xs) f = gbind (f x) (\<lambda>_. gfor xs f)"

fun grepeat :: "nat \<Rightarrow> ('s, 'a) go \<Rightarrow> ('s, 'a list) go" where
  "grepeat 0 m = gret []"
| "grepeat (Suc n) m = gbind m (\<lambda>x. gbind (grepeat n m) (\<lambda>xs. gret (x # xs)))"

named_theorems go_simps \<open>evaluation rules of the monad\<close>

lemma gret_apply [simp, go_simps]: "gret x s = (Inr x, s)"
  by (simp add: gret_def)

lemma gerr_apply [simp, go_simps]: "gerr m s = (Inl (Error m), s)"
  by (simp add: gerr_def)

lemma gpanic_apply [simp, go_simps]: "gpanic m s = (Inl (Panic m), s)"
  by (simp add: gpanic_def)

lemma gtimeout_apply [simp, go_simps]: "gtimeout s = (Inl Timeout, s)"
  by (simp add: gtimeout_def)

lemma gget_apply [simp, go_simps]: "gget f s = (Inr (f s), s)"
  by (simp add: gget_def)

lemma gmod_apply [simp, go_simps]: "gmod f s = (Inr (), f s)"
  by (simp add: gmod_def)

lemma glift_apply [simp, go_simps]: "glift r s = (r, s)"
  by (simp add: glift_def)

lemma gcheck_apply [simp, go_simps]:
  "gcheck bad m s = (if bad then (Inl (Error m), s) else (Inr (), s))"
  by (simp add: gcheck_def)

lemma gbind_Inr [go_simps]: "m s = (Inr x, s') \<Longrightarrow> gbind m f s = f x s'"
  by (simp add: gbind_def)

lemma gbind_Inl [go_simps]: "m s = (Inl e, s') \<Longrightarrow> gbind m f s = (Inl e, s')"
  by (simp add: gbind_def)

lemma gbind_Inr_iff:
  "gbind m f s = (Inr y, t) \<longleftrightarrow> (\<exists>x s'. m s = (Inr x, s') \<and> f x s' = (Inr y, t))"
  by (auto simp: gbind_def split: prod.splits sum.splits)

lemma gbind_InrE:
  assumes "gbind m f s = (Inr y, t)"
  obtains x s' where "m s = (Inr x, s')" and "f x s' = (Inr y, t)"
  using assms by (auto simp: gbind_Inr_iff)

lemma gbind_gret [simp]: "gbind (gret x) f = f x"
  by (rule ext) (simp add: gbind_def)

lemma gbind_gerr [simp]: "gbind (gerr m) f = gerr m"
  by (rule ext) (simp add: gbind_def)

lemma gbind_gpanic [simp]: "gbind (gpanic m) f = gpanic m"
  by (rule ext) (simp add: gbind_def)

lemma gbind_gtimeout [simp]: "gbind gtimeout f = gtimeout"
  by (rule ext) (simp add: gbind_def)

text \<open>A use of the value a pointer points to.\<close>

definition deref :: "'a option \<Rightarrow> ('a \<Rightarrow> ('s, 'b) go) \<Rightarrow> ('s, 'b) go" where
  "deref p f = (case p of None \<Rightarrow> gpanic ''invalid memory address or nil pointer dereference'' | Some x \<Rightarrow> f x)"

lemma deref_simps [simp]:
  "deref None f = gpanic ''invalid memory address or nil pointer dereference''" "deref (Some x) f = f x"
  by (simp_all add: deref_def)

text \<open>Functions without state that may fail: sequencing, and a pointer that must not be nil.\<close>

definition rbind :: "'a result \<Rightarrow> ('a \<Rightarrow> 'b result) \<Rightarrow> 'b result" where
  "rbind r f = (case r of Inl e \<Rightarrow> Inl e | Inr x \<Rightarrow> f x)"

definition rderef :: "'a option \<Rightarrow> 'a result" where
  "rderef p = (case p of None \<Rightarrow> Inl (Panic ''invalid memory address or nil pointer dereference'') | Some x \<Rightarrow> Inr x)"

fun rmap :: "('a \<Rightarrow> 'b result) \<Rightarrow> 'a list \<Rightarrow> 'b list result" where
  "rmap f [] = Inr []"
| "rmap f (x # xs) = rbind (f x) (\<lambda>y. rbind (rmap f xs) (\<lambda>ys. Inr (y # ys)))"

text \<open>\<^verbatim>\<open>xs[i]\<close>, with the range check.\<close>

definition rnth :: "'a list \<Rightarrow> nat \<Rightarrow> 'a result" where
  "rnth xs i = (if i < length xs then Inr (xs ! i) else Inl (Panic ''index out of range''))"

lemma rbind_simps [simp]: "rbind (Inr x) f = f x" "rbind (Inl e) f = Inl e"
  by (simp_all add: rbind_def)

lemma rbind_Inr_iff: "rbind r f = Inr y \<longleftrightarrow> (\<exists>x. r = Inr x \<and> f x = Inr y)"
  by (cases r) auto

lemma rbind_assoc: "rbind (rbind r f) g = rbind r (\<lambda>x. rbind (f x) g)"
  by (cases r) simp_all

lemma rbind_cong: "(\<And>x. r = Inr x \<Longrightarrow> f x = g x) \<Longrightarrow> rbind r f = rbind r g"
  by (cases r) auto

lemma rderef_simps [simp]: "rderef (Some x) = Inr x"
  by (simp add: rderef_def)

lemma rnth_ok [simp]: "i < length xs \<Longrightarrow> rnth xs i = Inr (xs ! i)"
  by (simp add: rnth_def)

lemma rmap_Inr: "rmap (\<lambda>x. Inr (f x)) xs = Inr (map f xs)"
  by (induction xs) simp_all

lemma rmap_rnth: "(\<And>i. i \<in> set ks \<Longrightarrow> i < length xs) \<Longrightarrow> rmap (rnth xs) ks = Inr (map ((!) xs) ks)"
  by (induction ks) simp_all

lemma gbind_Pair [simp]: "gbind (Pair (Inr x)) f = f x" "gbind (Pair (Inl e)) f = Pair (Inl e)"
  by (rule ext, simp add: gbind_def)+

lemma gbind_assoc: "gbind (gbind m f) g = gbind m (\<lambda>x. gbind (f x) g)"
  by (rule ext) (simp add: gbind_def split: prod.splits sum.splits)

lemma gbind_gget [simp]: "gbind (gget f) g s = g (f s) s"
  by (simp add: gbind_def)

lemma gbind_gmod [simp]: "gbind (gmod f) g s = g () (f s)"
  by (simp add: gbind_def)

lemma gbind_glift [simp]: "gbind (glift (Inr x)) f = f x" "gbind (glift (Inl e)) f = glift (Inl e)"
  by (rule ext, simp add: gbind_def)+

lemma gbind_gcheck [simp]: "gbind (gcheck b m) g s = (if b then (Inl (Error m), s) else g () s)"
  by (simp add: gbind_def)

lemma gfor_append: "gfor (xs @ ys) f = gbind (gfor xs f) (\<lambda>_. gfor ys f)"
  by (induction xs) (simp_all add: gbind_assoc)

text \<open>An invariant of the body is an invariant of the loop.\<close>

lemma gfor_invariant:
  assumes "\<And>x s r t. x \<in> set xs \<Longrightarrow> P s \<Longrightarrow> f x s = (r, t) \<Longrightarrow> P t"
    and "P s" and "gfor xs f s = (r, t)"
  shows "P t"
  using assms
proof (induction xs arbitrary: s)
  case Nil
  then show ?case by simp
next
  case (Cons x xs)
  obtain r1 s1 where fx: "f x s = (r1, s1)" by (cases "f x s")
  have P1: "P s1" using Cons.prems(1)[OF _ Cons.prems(2) fx] by simp
  show ?case
  proof (cases r1)
    case (Inl e)
    with fx Cons.prems(3) P1 show ?thesis by (simp add: gbind_def)
  next
    case (Inr u)
    with fx Cons.prems(3) have "gfor xs f s1 = (r, t)" by (simp add: gbind_def)
    then show ?thesis using Cons.IH[OF _ P1] Cons.prems(1) by (meson list.set_intros(2))
  qed
qed

lemma unat_less_2_64 [simp]: "unat (x :: uint64) < 18446744073709551616"
proof -
  have "unat x < 2 ^ LENGTH(64)" by (rule unsigned_less)
  then show ?thesis by simp
qed

lemma fits_uint64: "n \<le> unat (x :: uint64) \<Longrightarrow> n < 2 ^ 64"
  using le_less_trans[OF _ unat_less_2_64[of x]] by simp

section \<open>Decimal text\<close>

text \<open>\<^verbatim>\<open>strconv.FormatUint(n, 10)\<close> and \<^verbatim>\<open>strconv.ParseUint(s, 10, 64)\<close>: ASCII digits, most
  significant first; parsing fails on an empty string, on a byte that is not a digit and on a
  number that needs more than 64 bits.\<close>

fun format_dec :: "nat \<Rightarrow> bytes" where
  "format_dec n =
     (if n < 10 then [48 + of_nat n] else format_dec (n div 10) @ [48 + of_nat (n mod 10)])"

declare format_dec.simps [simp del]

definition FormatUint :: "uint64 \<Rightarrow> bytes" where
  "FormatUint x = format_dec (unat x)"

definition is_digit :: "byte \<Rightarrow> bool" where
  "is_digit b \<longleftrightarrow> 48 \<le> b \<and> b \<le> 57"

definition parse_dec :: "bytes \<Rightarrow> nat" where
  "parse_dec s = foldl (\<lambda>n b. 10 * n + (unat b - 48)) 0 s"

definition ParseUint :: "bytes \<Rightarrow> uint64 result" where
  "ParseUint s =
     (if s = [] \<or> \<not> list_all is_digit s then Inl (Error ''strconv.ParseUint: invalid syntax'')
      else if parse_dec s \<ge> 2 ^ 64 then Inl (Error ''strconv.ParseUint: value out of range'')
      else Inr (of_nat (parse_dec s)))"

lemma format_dec_nonempty [simp]: "format_dec n \<noteq> []"
  by (subst format_dec.simps) simp

lemma unat_digit: "d < 10 \<Longrightarrow> unat (48 + of_nat d :: byte) = 48 + d"
  by (simp add: unat_word_ariths unat_of_nat)

lemma is_digit_digit: "d < 10 \<Longrightarrow> is_digit (48 + of_nat d)"
  by (simp add: is_digit_def word_le_nat_alt unat_digit)

lemma parse_dec_snoc: "parse_dec (xs @ [b]) = 10 * parse_dec xs + (unat b - 48)"
  by (simp add: parse_dec_def)

lemma parse_dec_format: "parse_dec (format_dec n) = n"
proof (induction n rule: format_dec.induct)
  case (1 n)
  show ?case
  proof (cases "n < 10")
    case True
    then show ?thesis by (subst format_dec.simps) (simp add: parse_dec_def unat_digit)
  next
    case False
    with 1 show ?thesis
      by (subst format_dec.simps) (simp add: parse_dec_snoc unat_digit)
  qed
qed

lemma format_dec_digits: "list_all is_digit (format_dec n)"
proof (induction n rule: format_dec.induct)
  case (1 n)
  then show ?case
    by (subst format_dec.simps) (simp add: is_digit_digit)
qed

lemma format_dec_inj: "format_dec m = format_dec n \<longleftrightarrow> m = n"
  by (metis parse_dec_format)

lemma FormatUint_inj [simp]: "FormatUint x = FormatUint y \<longleftrightarrow> x = y"
  by (simp add: FormatUint_def format_dec_inj word_unat_eq_iff)

lemma FormatUint_nonempty [simp]: "FormatUint x \<noteq> []"
  by (simp add: FormatUint_def)

lemma ParseUint_FormatUint [simp]: "ParseUint (FormatUint x) = Inr x"
  by (simp add: ParseUint_def FormatUint_def format_dec_digits parse_dec_format not_le)

section \<open>Words and lists\<close>

lemma lit_Nil [simp]: "lit [] = []"
  by (simp add: lit_def)

lemma lit_Cons [simp]: "lit (c # s) = of_char c # lit s"
  by (simp add: lit_def)

lemma lit_append: "lit (s @ t) = lit s @ lit t"
  by (simp add: lit_def)

lemma unat_MaxUint64 [simp]: "unat MaxUint64 = 2 ^ 64 - 1"
  by (simp add: MaxUint64_def)

lemma unat_of_nat_uint64: "n < 2 ^ 64 \<Longrightarrow> unat (of_nat n :: uint64) = n"
  by (simp add: unat_of_nat)

lemma unat_add_uint64:
  "unat (a :: uint64) + unat b < 2 ^ 64 \<Longrightarrow> unat (a + b) = unat a + unat b"
  by (simp add: unat_word_ariths)

lemma unat_sub_uint64: "(b :: uint64) \<le> a \<Longrightarrow> unat (a - b) = unat a - unat b"
  by (simp add: unat_sub)

lemma unat_drop_bit_div: "unat (drop_bit n (x :: 'a::len word)) = unat x div 2 ^ n"
  by (subst unat_drop_bit_eq) (rule drop_bit_eq_div)

lemma int_of_uint64_small: "unat x < 2 ^ 63 \<Longrightarrow> int_of_uint64 x = int (unat x)"
  by (simp add: int_of_uint64_def)

lemma int_of_uint64_large: "2 ^ 63 \<le> unat x \<Longrightarrow> int_of_uint64 x < 0"
proof -
  have "int (unat x) < 18446744073709551616"
    using unat_less_2_64[of x] by linarith
  moreover assume "2 ^ 63 \<le> unat x"
  ultimately show ?thesis by (simp add: int_of_uint64_def)
qed

section \<open>Integers and bytes\<close>

text \<open>\<^verbatim>\<open>big.Int.SetBytes\<close> and \<^verbatim>\<open>Bytes\<close>: big endian, without leading zeros, of the absolute value.\<close>

definition SetBytes :: "bytes \<Rightarrow> int" where
  "SetBytes bs = foldl (\<lambda>n b. n * 256 + uint b) 0 bs"

function abs_Bytes :: "int \<Rightarrow> bytes" where
  "abs_Bytes n = (if n \<le> 0 then [] else abs_Bytes (n div 256) @ [word_of_int (n mod 256)])"
  by auto
termination by (relation "measure nat") auto

declare abs_Bytes.simps [simp del]

definition int_Bytes :: "int \<Rightarrow> bytes" where
  "int_Bytes n = abs_Bytes \<bar>n\<bar>"

lemma SetBytes_snoc: "SetBytes (bs @ [b]) = SetBytes bs * 256 + uint b"
  by (simp add: SetBytes_def)

lemma SetBytes_nonneg [simp]: "0 \<le> SetBytes bs"
  by (induction bs rule: rev_induct) (simp_all add: SetBytes_snoc, simp add: SetBytes_def)

lemma SetBytes_less: "SetBytes bs < 256 ^ length bs"
proof (induction bs rule: rev_induct)
  case (snoc b bs)
  have "uint b < 256" using uint_lt2p[of b] by simp
  then show ?case using snoc by (simp add: SetBytes_snoc)
qed (simp add: SetBytes_def)

lemma SetBytes_abs_Bytes: "0 \<le> n \<Longrightarrow> SetBytes (abs_Bytes n) = n"
proof (induction n rule: abs_Bytes.induct)
  case (1 n)
  show ?case
  proof (cases "n = 0")
    case False
    then have "SetBytes (abs_Bytes (n div 256)) = n div 256" using 1 by simp
    moreover have "uint (word_of_int (n mod 256) :: byte) = n mod 256" by (simp add: uint_word_of_int_eq take_bit_eq_mod)
    ultimately show ?thesis using False 1(2) by (subst abs_Bytes.simps) (simp add: SetBytes_snoc)
  qed (simp add: abs_Bytes.simps SetBytes_def)
qed

lemma length_abs_Bytes: "n < 256 ^ k \<Longrightarrow> length (abs_Bytes n) \<le> k"
proof (induction n arbitrary: k rule: abs_Bytes.induct)
  case (1 n)
  show ?case
  proof (cases "n \<le> 0")
    case True
    then show ?thesis by (simp add: abs_Bytes.simps)
  next
    case False
    then obtain j where k: "k = Suc j" using 1(2) by (cases k) auto
    have "n div 256 < 256 ^ j" using 1(2) k by (simp add: div_less_iff_less_mult mult.commute)
    then have "length (abs_Bytes (n div 256)) \<le> j" using 1(1) False by simp
    then show ?thesis using False k by (subst abs_Bytes.simps) simp
  qed
qed

lemma SetBytes_int_Bytes: "0 \<le> n \<Longrightarrow> SetBytes (int_Bytes n) = n"
  by (simp add: int_Bytes_def SetBytes_abs_Bytes)

lemma length_int_Bytes: "0 \<le> n \<Longrightarrow> n < 256 ^ k \<Longrightarrow> length (int_Bytes n) \<le> k"
  by (simp add: int_Bytes_def length_abs_Bytes)

lemma SetBytes_append: "SetBytes (xs @ ys) = SetBytes xs * 256 ^ length ys + SetBytes ys"
  by (induction ys rule: rev_induct) (simp_all add: SetBytes_snoc append.assoc[symmetric] algebra_simps del: append_assoc, simp_all add: SetBytes_def)

lemma SetBytes_zeros: "SetBytes (replicate n 0 @ bs) = SetBytes bs"
proof -
  have "SetBytes (replicate n 0) = 0"
    by (induction n) (simp_all add: SetBytes_def replicate_append_same[symmetric] del: replicate.simps, simp_all add: SetBytes_def)
  then show ?thesis by (simp add: SetBytes_append)
qed

end
