(* ===== verification/Buffers.thy ===== *)
theory Buffers
  imports Go_Prelude
begin

unbundle bit_operations_syntax

text \<open>
  The serialisation buffers of \<^verbatim>\<open>helpers/advanced_buffers\<close>: \<open>BufferWriter\<close>, which collects byte
  slices, and \<open>BufferReader\<close>, which walks over one.  A value of Go's \<^verbatim>\<open>float64\<close> is its 64-bit
  IEEE pattern, which is all that reading and writing it uses.

  A Go slice has a length and a capacity, and \<^verbatim>\<open>b[i:j]\<close> is bounded by the capacity.  The reader
  therefore keeps, beside \<open>Buf\<close>, the bytes \<open>Spare\<close> of the backing array that lie between its
  length and its capacity.

  The two judgements \<open>writes\<close> and \<open>reads\<close> state what a serialiser appends and what a deserialiser
  consumes; they compose along the program text, and every round trip of the development is an
  instance of them.
\<close>

section \<open>The writer\<close>

record BufferWriter =
  bw_array :: "bytes list"
  bw_len :: nat
  bw_temp :: bytes

definition MaxVarintLen64 :: nat where
  "MaxVarintLen64 = 10"

definition NewBufferWriter :: BufferWriter where
  "NewBufferWriter = \<lparr>bw_array = [], bw_len = 0, bw_temp = replicate MaxVarintLen64 0\<rparr>"

definition Write :: "bytes \<Rightarrow> BufferWriter \<Rightarrow> BufferWriter" where
  "Write v w = w\<lparr>bw_array := bw_array w @ [v], bw_len := bw_len w + length v\<rparr>"

text \<open>\<^verbatim>\<open>binary.PutUvarint\<close>: seven bits per byte, least significant group first, the top bit set
  on every byte but the last.\<close>

function PutUvarint :: "uint64 \<Rightarrow> bytes" where
  "PutUvarint x = (if x < 0x80 then [ucast x] else (ucast x OR 0x80) # PutUvarint (drop_bit 7 x))"
  by pat_completeness auto
termination
proof (relation "measure unat", simp)
  fix x :: uint64
  assume "\<not> x < 0x80"
  then have "0x80 \<le> unat x" by (simp add: word_less_nat_alt)
  moreover have "unat (drop_bit 7 x) = unat x div 128"
    by (simp only: unat_drop_bit_div) simp
  ultimately show "(drop_bit 7 x, x) \<in> measure unat" by simp
qed

declare PutUvarint.simps [simp del]

text \<open>The scratch array \<^verbatim>\<open>temp\<close> keeps the encoding; a fresh copy of its first \<open>n\<close> bytes is
  appended.\<close>

definition WriteUvarint :: "uint64 \<Rightarrow> BufferWriter \<Rightarrow> BufferWriter" where
  "WriteUvarint x w =
     (let enc = PutUvarint x; n = length enc; tmp = enc @ drop n (bw_temp w); buf = take n tmp
      in w\<lparr>bw_temp := tmp, bw_array := bw_array w @ [buf], bw_len := bw_len w + n\<rparr>)"

definition WriteVariableBytes :: "bytes \<Rightarrow> BufferWriter \<Rightarrow> BufferWriter" where
  "WriteVariableBytes v w =
     (let w' = WriteUvarint (of_nat (length v)) w
      in w'\<lparr>bw_array := bw_array w' @ [v], bw_len := bw_len w' + length v\<rparr>)"

definition WriteString :: "bytes \<Rightarrow> BufferWriter \<Rightarrow> BufferWriter" where
  "WriteString s w = WriteVariableBytes s w"

definition WriteBool :: "bool \<Rightarrow> BufferWriter \<Rightarrow> BufferWriter" where
  "WriteBool v w =
     (let value2 = (if v then 1 else 0)
      in w\<lparr>bw_array := bw_array w @ [[value2]], bw_len := bw_len w + 1\<rparr>)"

definition WriteByte :: "byte \<Rightarrow> BufferWriter \<Rightarrow> BufferWriter" where
  "WriteByte v w = w\<lparr>bw_array := bw_array w @ [[v]], bw_len := bw_len w + 1\<rparr>"

text \<open>\<^verbatim>\<open>binary.LittleEndian.PutUint64\<close> and \<^verbatim>\<open>Uint64\<close>.\<close>

definition LittleEndian_PutUint64 :: "uint64 \<Rightarrow> bytes" where
  "LittleEndian_PutUint64 x = map (\<lambda>i. ucast (drop_bit (8 * i) x)) [0..<8]"

definition LittleEndian_Uint64 :: "bytes \<Rightarrow> uint64" where
  "LittleEndian_Uint64 bs =
     foldr (OR) (map (\<lambda>i. push_bit (8 * i) (ucast (bs ! i))) [0..<8]) 0"

definition WriteFloat64 :: "uint64 \<Rightarrow> BufferWriter \<Rightarrow> BufferWriter" where
  "WriteFloat64 bits w =
     w\<lparr>bw_array := bw_array w @ [LittleEndian_PutUint64 bits], bw_len := bw_len w + 8\<rparr>"

definition ASSET_LENGTH :: nat where
  "ASSET_LENGTH = 20"

definition NATIVE_ASSET_FULL :: bytes where
  "NATIVE_ASSET_FULL = replicate 20 0"

definition WriteAsset :: "bytes \<Rightarrow> BufferWriter \<Rightarrow> BufferWriter" where
  "WriteAsset asset w =
     (if asset = NATIVE_ASSET_FULL then WriteByte 0 w else Write asset (WriteByte 1 w))"

text \<open>\<^verbatim>\<open>copy(out[c:], src)\<close> and the loop of \<^verbatim>\<open>Bytes\<close>, which copies every collected slice into an
  array of \<^verbatim>\<open>len\<close> bytes.\<close>

definition copy_at :: "bytes \<Rightarrow> nat \<Rightarrow> bytes \<Rightarrow> bytes" where
  "copy_at out c src = take c out @ take (length out - c) src @ drop (c + length src) out"

fun Bytes_loop :: "bytes list \<Rightarrow> nat \<Rightarrow> bytes \<Rightarrow> bytes" where
  "Bytes_loop [] c out = out"
| "Bytes_loop (v # vs) c out = Bytes_loop vs (c + length v) (copy_at out c v)"

definition Bytes :: "BufferWriter \<Rightarrow> bytes" where
  "Bytes w = Bytes_loop (bw_array w) 0 (replicate (bw_len w) 0)"

definition Length :: "BufferWriter \<Rightarrow> nat" where
  "Length w = bw_len w"

text \<open>\<^verbatim>\<open>helpers.SerializeToBytes\<close>.\<close>

definition SerializeToBytes :: "(BufferWriter \<Rightarrow> BufferWriter) \<Rightarrow> bytes" where
  "SerializeToBytes ser = Bytes (ser NewBufferWriter)"

section \<open>The reader\<close>

record BufferReader =
  Buf :: bytes
  Spare :: bytes
  Position :: nat

text \<open>The slice is one whose capacity is its length, as the buffers read from the network and the database.\<close>

definition NewBufferReader :: "bytes \<Rightarrow> BufferReader" where
  "NewBufferReader buf = \<lparr>Buf = buf, Spare = [], Position = 0\<rparr>"

definition advance :: "nat \<Rightarrow> (BufferReader, unit) go" where
  "advance n = gmod (\<lambda>r. r\<lparr>Position := Position r + n\<rparr>)"

text \<open>\<^verbatim>\<open>reader.Buf[reader.Position]\<close>: an index is bounded by the length.\<close>

definition index_buf :: "(BufferReader, byte) go" where
  "index_buf = (\<lambda>r. if Position r < length (Buf r) then (Inr (Buf r ! Position r), r)
                    else (Inl (Panic ''index out of range''), r))"

text \<open>\<^verbatim>\<open>reader.Buf[reader.Position : reader.Position+count]\<close>: a slice is bounded by the
  capacity.\<close>

definition slice_buf :: "int \<Rightarrow> (BufferReader, bytes) go" where
  "slice_buf count = (\<lambda>r.
     if 0 \<le> count \<and> Position r + nat count \<le> length (Buf r) + length (Spare r)
     then (Inr (take (nat count) (drop (Position r) (Buf r @ Spare r))), r)
     else (Inl (Panic ''slice bounds out of range''), r))"

definition ReadBool :: "(BufferReader, bool) go" where
  "ReadBool =
     gbind (gget (\<lambda>r. length (Buf r) > 0)) (\<lambda>nonempty.
     if nonempty then
       gbind index_buf (\<lambda>b.
       gbind (gcheck (b > 1) ''buf[0] is invalid'') (\<lambda>_.
       gbind (advance 1) (\<lambda>_. gret (b = 1))))
     else gerr ''Error reading bool'')"

definition ReadByte :: "(BufferReader, byte) go" where
  "ReadByte =
     gbind (gget (\<lambda>r. length (Buf r) > 0)) (\<lambda>nonempty.
     if nonempty then gbind index_buf (\<lambda>out. gbind (advance 1) (\<lambda>_. gret out))
     else gerr ''Error reading byte'')"

definition ReadBytes :: "int \<Rightarrow> (BufferReader, bytes) go" where
  "ReadBytes count =
     gbind (gget (\<lambda>r. int (length (Buf r)) \<ge> count)) (\<lambda>enough.
     if enough then gbind (slice_buf count) (\<lambda>out. gbind (advance (nat count)) (\<lambda>_. gret out))
     else gerr ''Error reading bytes'')"

definition HashSize :: nat where "HashSize = 32"
definition PublicKeySize :: nat where "PublicKeySize = 33"

definition ReadHash :: "(BufferReader, bytes) go" where
  "ReadHash =
     gbind (gget (\<lambda>r. length (Buf r) \<ge> HashSize)) (\<lambda>enough.
     if enough then gbind (slice_buf (int HashSize)) (\<lambda>out.
                    gbind (advance HashSize) (\<lambda>_. gret out))
     else gerr ''Error reading hash'')"

definition ReadBigInt :: "(BufferReader, int) go" where
  "ReadBigInt = gbind (ReadBytes 32) (\<lambda>bufp. gret (SetBytes bufp))"

text \<open>The loop of \<^verbatim>\<open>ReadUvarint\<close> over the bytes from the position on; \<^verbatim>\<open>s\<close> is a \<^verbatim>\<open>uint\<close> and the
  counter \<^verbatim>\<open>c\<close> a \<^verbatim>\<open>byte\<close>.\<close>

fun ReadUvarint_loop :: "bytes \<Rightarrow> uint64 \<Rightarrow> uint64 \<Rightarrow> byte \<Rightarrow> nat \<Rightarrow> (uint64 \<times> nat) result" where
  "ReadUvarint_loop [] x s c i = Inl (Error ''Error reading value'')"
| "ReadUvarint_loop (b # bs) x s c i =
     (if b < 0x80 then
        if c \<ge> 10 \<or> (c = 9 \<and> b > 1) then Inl (Error ''Overflow'')
        else Inr (x OR push_bit (unat s) (ucast b), i + 1)
      else ReadUvarint_loop bs (x OR push_bit (unat s) (ucast (b AND 0x7f))) (s + 7) (c + 1) (i + 1))"

definition ReadUvarint :: "(BufferReader, uint64) go" where
  "ReadUvarint = (\<lambda>r.
     case ReadUvarint_loop (drop (Position r) (Buf r)) 0 0 0 (Position r) of
       Inl e \<Rightarrow> (Inl e, r)
     | Inr (x, i) \<Rightarrow> (Inr x, r\<lparr>Position := i\<rparr>))"

definition ReadVariableBytes :: "uint64 \<Rightarrow> (BufferReader, bytes) go" where
  "ReadVariableBytes limit =
     gbind ReadUvarint (\<lambda>length'.
     gbind (gcheck (length' > limit) ''Variable bytes exceeding maximum length'') (\<lambda>_.
     ReadBytes (int_of_uint64 length')))"

definition ReadString :: "uint64 \<Rightarrow> (BufferReader, bytes) go" where
  "ReadString limit = ReadVariableBytes limit"

definition ReadAsset :: "(BufferReader, bytes) go" where
  "ReadAsset =
     gbind ReadByte (\<lambda>assetType.
     if assetType = 0 then gret NATIVE_ASSET_FULL
     else if assetType = 1 then
       gbind (ReadBytes (int ASSET_LENGTH)) (\<lambda>buff.
       gbind (gcheck (buff = NATIVE_ASSET_FULL) ''NATIVE_ASSET_FULL should be written as short'')
         (\<lambda>_. gret buff))
     else gerr ''invalid asset type'')"

definition ReadFloat64 :: "(BufferReader, uint64) go" where
  "ReadFloat64 = gbind (ReadBytes 8) (\<lambda>data. gret (LittleEndian_Uint64 data))"

section \<open>What a serialiser appends\<close>

definition writer_wf :: "BufferWriter \<Rightarrow> bool" where
  "writer_wf w \<longleftrightarrow> bw_len w = length (concat (bw_array w)) \<and> length (bw_temp w) = MaxVarintLen64"

definition writes :: "(BufferWriter \<Rightarrow> BufferWriter) \<Rightarrow> bytes \<Rightarrow> bool" where
  "writes ser bs \<longleftrightarrow>
     (\<forall>w. writer_wf w \<longrightarrow> writer_wf (ser w) \<and> concat (bw_array (ser w)) = concat (bw_array w) @ bs)"

section \<open>What a deserialiser consumes\<close>

definition reads :: "(BufferReader, 'a) go \<Rightarrow> bytes \<Rightarrow> 'a \<Rightarrow> bool" where
  "reads m bs x \<longleftrightarrow>
     (\<forall>r suf. Position r \<le> length (Buf r) \<longrightarrow> drop (Position r) (Buf r) = bs @ suf \<longrightarrow>
        m r = (Inr x, r\<lparr>Position := Position r + length bs\<rparr>))"

named_theorems codec \<open>what the serialisers append and the deserialisers consume\<close>

lemma Bytes_loop_concat:
  "c + length (concat vs) \<le> length out \<Longrightarrow>
   Bytes_loop vs c out = take c out @ concat vs @ drop (c + length (concat vs)) out"
proof (induction vs arbitrary: c out)
  case Nil
  then show ?case by simp
next
  case (Cons v vs)
  have cp: "copy_at out c v = take c out @ v @ drop (c + length v) out"
    using Cons.prems by (simp add: copy_at_def)
  moreover have tk: "take (c + length v) (copy_at out c v) = take c out @ v"
    using Cons.prems by (simp add: cp)
  moreover have "drop (c + length v + length (concat vs)) (copy_at out c v) =
      drop (c + length v + length (concat vs)) out"
    using Cons.prems by (simp add: cp min_absorb2 add.commute add.left_commute)
  moreover have "c + length v + length (concat vs) \<le> length (copy_at out c v)"
    using Cons.prems by (simp add: cp)
  ultimately show ?case using Cons.IH by (simp add: add.assoc)
qed

lemma Bytes_concat: "writer_wf w \<Longrightarrow> Bytes w = concat (bw_array w)"
  by (simp add: Bytes_def writer_wf_def Bytes_loop_concat)

lemma writer_wf_New [simp]: "writer_wf NewBufferWriter"
  by (simp add: writer_wf_def NewBufferWriter_def)

lemma writes_SerializeToBytes: "writes ser bs \<Longrightarrow> SerializeToBytes ser = bs"
  by (auto simp: SerializeToBytes_def writes_def Bytes_concat) (simp add: NewBufferWriter_def)

lemma length_PutUvarint_le: "unat x < 2 ^ (7 * Suc k) \<Longrightarrow> length (PutUvarint x) \<le> Suc k"
proof (induction k arbitrary: x)
  case 0
  then show ?case by (subst PutUvarint.simps) (simp add: word_less_nat_alt)
next
  case (Suc k)
  have "unat (drop_bit 7 x) < 2 ^ (7 * Suc k)"
    unfolding unat_drop_bit_div
    by (rule less_mult_imp_div_less) (use Suc.prems in \<open>simp add: power_add mult.commute\<close>)
  from Suc.IH[OF this] show ?case by (subst PutUvarint.simps) simp
qed

lemma length_PutUvarint: "length (PutUvarint x) \<le> MaxVarintLen64"
  using length_PutUvarint_le[of x 9] unat_less_2_64[of x] by (simp add: MaxVarintLen64_def)

lemma writes_id [codec]: "writes (\<lambda>w. w) []"
  by (simp add: writes_def)

lemma writes_comp: "writes f a \<Longrightarrow> writes g b \<Longrightarrow> writes (\<lambda>w. g (f w)) (a @ b)"
  by (simp add: writes_def)

lemma writes_Write [codec]: "writes (Write v) v"
  by (simp add: writes_def writer_wf_def Write_def)

lemma writes_WriteByte [codec]: "writes (WriteByte v) [v]"
  by (simp add: writes_def writer_wf_def WriteByte_def)

lemma writes_WriteBool [codec]: "writes (WriteBool v) [if v then 1 else 0]"
  by (simp add: writes_def writer_wf_def WriteBool_def)

lemma writes_WriteUvarint [codec]: "writes (WriteUvarint x) (PutUvarint x)"
  using length_PutUvarint[of x]
  by (simp add: writes_def writer_wf_def WriteUvarint_def Let_def)

lemma writes_WriteVariableBytes [codec]:
  "writes (WriteVariableBytes v) (PutUvarint (of_nat (length v)) @ v)"
  using writes_WriteUvarint[of "of_nat (length v)"]
  by (simp add: writes_def writer_wf_def WriteVariableBytes_def Let_def)

lemma writes_WriteString [codec]: "writes (WriteString v) (PutUvarint (of_nat (length v)) @ v)"
  using writes_WriteVariableBytes[of v] by (simp add: writes_def WriteString_def)

lemma writes_WriteFloat64 [codec]: "writes (WriteFloat64 x) (LittleEndian_PutUint64 x)"
  by (simp add: writes_def writer_wf_def WriteFloat64_def LittleEndian_PutUint64_def)

lemma writes_WriteAsset [codec]:
  "writes (WriteAsset a) (if a = NATIVE_ASSET_FULL then [0] else 1 # a)"
  using writes_WriteByte[of 0] writes_comp[OF writes_WriteByte[of 1] writes_Write[of a]]
  by (simp add: writes_def WriteAsset_def)

text \<open>A sequence of writer calls.\<close>

definition ser_seq :: "(BufferWriter \<Rightarrow> BufferWriter) list \<Rightarrow> BufferWriter \<Rightarrow> BufferWriter" where
  "ser_seq fs w = fold (\<lambda>f. f) fs w"

lemma writes_seq_Nil [codec]: "writes (ser_seq []) []"
  by (simp add: ser_seq_def[abs_def] writes_def)

lemma writes_seq_Cons [codec]:
  assumes "writes f a" "writes (ser_seq fs) b"
  shows "writes (ser_seq (f # fs)) (a @ b)"
proof -
  have "writes (\<lambda>w. ser_seq fs (f w)) (a @ b)" using assms by (rule writes_comp)
  then show ?thesis by (simp add: ser_seq_def[abs_def] comp_def)
qed

text \<open>A serialiser that runs over a list.\<close>

lemma writes_fold:
  assumes "\<And>x. x \<in> set xs \<Longrightarrow> writes (ser x) (enc x)"
  shows "writes (fold ser xs) (concat (map enc xs))"
  using assms
proof (induction xs)
  case Nil
  then show ?case by (simp add: writes_def)
next
  case (Cons x xs)
  then have "writes (\<lambda>w. fold ser xs (ser x w)) (enc x @ concat (map enc xs))"
    by (intro writes_comp) auto
  then show ?case by (simp add: comp_def)
qed

lemma readsD:
  "reads m bs x \<Longrightarrow> Position r \<le> length (Buf r) \<Longrightarrow> drop (Position r) (Buf r) = bs @ suf \<Longrightarrow>
   m r = (Inr x, r\<lparr>Position := Position r + length bs\<rparr>)"
  by (auto simp: reads_def)

lemma reads_gret [codec]: "reads (gret x) [] x"
  by (simp add: reads_def)

lemma reads_glift_eq: "m = Inr y \<Longrightarrow> reads (glift m) [] y"
  by (simp add: reads_def)

lemma reads_gret_eq: "x = y \<Longrightarrow> reads (gret x) [] y"
  by (simp add: reads_def)

lemma reads_Pair [simp]: "reads (Pair (Inr x)) [] x"
  by (simp add: reads_def)

lemma reads_bind:
  assumes "reads m bs x" and "reads (f x) bs' y"
  shows "reads (gbind m f) (bs @ bs') y"
  unfolding reads_def
proof (intro allI impI)
  fix r :: BufferReader and suf
  assume pos: "Position r \<le> length (Buf r)" and inp: "drop (Position r) (Buf r) = (bs @ bs') @ suf"
  let ?r = "r\<lparr>Position := Position r + length bs\<rparr>"
  have m: "m r = (Inr x, ?r)"
    using readsD[OF assms(1) pos, of "bs' @ suf"] inp by simp
  have "length (Buf r) - Position r = length bs + length bs' + length suf"
    using arg_cong[OF inp, of length] by simp
  then have pos': "Position ?r \<le> length (Buf ?r)" using pos by simp
  have "drop (Position ?r) (Buf ?r) = drop (length bs) (drop (Position r) (Buf r))"
    by (simp add: add.commute)
  then have "drop (Position ?r) (Buf ?r) = bs' @ suf" using inp by simp
  from readsD[OF assms(2) pos' this] m
  show "gbind m f r = (Inr y, r\<lparr>Position := Position r + length (bs @ bs')\<rparr>)"
    by (simp add: gbind_Inr add.assoc)
qed

lemma reads_gcheck: "\<not> b \<Longrightarrow> reads f bs x \<Longrightarrow> reads (gbind (gcheck b m) (\<lambda>_. f)) bs x"
  by (simp add: reads_def)

text \<open>A deserialiser that consumes what a serialiser appended, read back from a fresh reader.\<close>

lemma reads_NewBufferReader:
  "reads m bs x \<Longrightarrow> m (NewBufferReader bs) = (Inr x, (NewBufferReader bs)\<lparr>Position := length bs\<rparr>)"
  using readsD[of m bs x "NewBufferReader bs" "[]"] by (simp add: NewBufferReader_def)

lemma drop_eq_lengthD: "drop p xs = ys \<Longrightarrow> p \<le> length xs \<Longrightarrow> length xs = p + length ys"
  by auto

lemma reads_ReadByte [codec]: "reads ReadByte [b] b"
proof -
  have "ReadByte r = (Inr b, r\<lparr>Position := Suc (Position r)\<rparr>)"
    if "Position r \<le> length (Buf r)" "drop (Position r) (Buf r) = b # suf" for r suf
    using drop_eq_lengthD[OF that(2,1)] nth_drop[of "Position r" "Buf r" 0] that
    by (auto simp: ReadByte_def index_buf_def advance_def gbind_def)
  then show ?thesis by (simp add: reads_def)
qed

lemma reads_ReadBool [codec]: "reads ReadBool [if b then 1 else 0] b"
proof -
  have "ReadBool r = (Inr b, r\<lparr>Position := Suc (Position r)\<rparr>)"
    if "Position r \<le> length (Buf r)" "drop (Position r) (Buf r) = (if b then 1 else 0) # suf" for r suf
    using drop_eq_lengthD[OF that(2,1)] nth_drop[of "Position r" "Buf r" 0] that
    by (cases b) (auto simp: ReadBool_def index_buf_def advance_def gbind_def)
  then show ?thesis by (simp add: reads_def)
qed

lemma slice_buf_ok:
  assumes "Position r \<le> length (Buf r)" and "drop (Position r) (Buf r) = bs @ suf"
  shows "slice_buf (int (length bs)) r = (Inr bs, r)"
  using drop_eq_lengthD[OF assms(2,1)] assms by (simp add: slice_buf_def)

lemma reads_ReadBytes: "n = int (length bs) \<Longrightarrow> reads (ReadBytes n) bs bs"
proof -
  have "ReadBytes (int (length bs)) r = (Inr bs, r\<lparr>Position := Position r + length bs\<rparr>)"
    if "Position r \<le> length (Buf r)" "drop (Position r) (Buf r) = bs @ suf" for r suf
    using drop_eq_lengthD[OF that(2,1)] slice_buf_ok[OF that]
    by (simp add: ReadBytes_def advance_def gbind_def)
  then show "n = int (length bs) \<Longrightarrow> ?thesis" by (simp add: reads_def)
qed

lemma reads_ReadHash: "length bs = HashSize \<Longrightarrow> reads ReadHash bs bs"
proof -
  assume len: "length bs = HashSize"
  have "ReadHash r = (Inr bs, r\<lparr>Position := Position r + length bs\<rparr>)"
    if "Position r \<le> length (Buf r)" "drop (Position r) (Buf r) = bs @ suf" for r suf
    using drop_eq_lengthD[OF that(2,1)] slice_buf_ok[OF that] len
    by (simp add: ReadHash_def advance_def gbind_def)
  then show ?thesis by (simp add: reads_def)
qed

subsection \<open>Variable-length integers\<close>

lemma unat_byte_less: "unat (b :: byte) < 256"
proof -
  have "unat b < 2 ^ LENGTH(8)" by (rule unsigned_less)
  then show ?thesis by simp
qed

lemma unat_ucast_byte: "unat (ucast (y :: uint64) :: byte) = unat y mod 256"
  by (subst unsigned_ucast_eq, subst take_bit_eq_mod) simp

lemma unat_ucast_uint64: "unat (ucast (b :: byte) :: uint64) = unat b"
  by (subst unsigned_ucast_eq, subst take_bit_eq_mod)
    (use unat_byte_less[of b] in simp)

lemma uvarint_low_group:
  "ucast ((ucast (y :: uint64) OR 0x80 :: byte) AND 0x7f) = take_bit 7 y"
proof -
  have m: "(0x7f :: byte) = mask 7" by (simp add: mask_eq_exp_minus_1)
  have "((ucast y OR 0x80 :: byte) AND 0x7f) = ucast y AND 0x7f"
    by (simp add: bit.conj_disj_distrib2)
  also have "\<dots> = take_bit 7 (ucast y)"
    by (simp only: m take_bit_eq_mask)
  finally show ?thesis
    by (simp only:) (rule bit_word_eqI, auto simp: bit_take_bit_iff bit_ucast_iff)
qed

lemma uvarint_combine:
  "push_bit s (take_bit 7 (y :: uint64)) OR push_bit (s + 7) (drop_bit 7 y) = push_bit s y"
proof (rule bit_word_eqI)
  fix n assume "n < LENGTH(64)"
  moreover have "s + 7 \<le> n \<Longrightarrow> 7 + (n - (s + 7)) = n - s" by simp
  ultimately show "bit (push_bit s (take_bit 7 y) OR push_bit (s + 7) (drop_bit 7 y)) n = bit (push_bit s y) n"
    by (cases "s + 7 \<le> n") (auto simp: bit_or_iff bit_push_bit_iff bit_take_bit_iff bit_drop_bit_eq)
qed

lemma uvarint_continuation: "\<not> (ucast (y :: uint64) OR 0x80 :: byte) < 0x80"
proof
  let ?w = "ucast y OR 0x80 :: byte"
  assume "?w < 0x80"
  then have "unat ?w div 2 ^ 7 = 0" by (simp add: word_less_nat_alt)
  then have "\<not> bit (unat ?w) 7" by (simp add: bit_iff_odd)
  moreover have "bit (0x80 :: byte) 7"
    by (simp add: bit_iff_odd)
  then have "bit ?w 7" by (simp only: bit_or_iff simp_thms)
  ultimately show False by (simp only: bit_unsigned_iff possible_bit_nat simp_thms)
qed

lemma ReadUvarint_loop_PutUvarint:
  assumes "unat s = 7 * unat c" and "unat c \<le> 9" and "unat y < 2 ^ (64 - unat s)"
  shows "ReadUvarint_loop (PutUvarint y @ suf) x s c i =
         Inr (x OR push_bit (unat s) y, i + length (PutUvarint y))"
  using assms
proof (induction y arbitrary: x s c i rule: PutUvarint.induct)
  case (1 y)
  show ?case
  proof (cases "y < 0x80")
    case True
    have "\<not> (c = 9 \<and> 1 < (ucast y :: byte))"
    proof
      assume c9: "c = 9 \<and> 1 < (ucast y :: byte)"
      then have "unat y < 2" using "1.prems" by simp
      then have "unat (ucast y :: byte) < 2" by (simp add: unat_ucast_byte)
      with c9 show False by (simp add: word_less_nat_alt)
    qed
    moreover have "\<not> 10 \<le> c" using "1.prems"(2) by (simp add: word_le_nat_alt)
    moreover have "unat (ucast y :: byte) = unat y"
      using True by (simp add: unat_ucast_byte word_less_nat_alt)
    then have "(ucast y :: byte) < 0x80" "ucast (ucast y :: byte) = y"
      using True by (simp_all add: word_less_nat_alt word_unat_eq_iff unat_ucast_uint64)
    ultimately show ?thesis using True by (simp add: PutUvarint.simps[of y])
  next
    case False
    then have y128: "128 \<le> unat y" by (simp add: word_less_nat_alt)
    have "unat c \<noteq> 9"
      using "1.prems"(1,3) y128 by auto
    then have c8: "unat c \<le> 8" using "1.prems"(2) by simp
    then have c1: "unat (c + 1) = unat c + 1" by (simp add: unat_word_ariths)
    have s7: "unat (s + 7) = unat s + 7"
      using "1.prems"(1) c8 by (simp add: unat_word_ariths)
    have "64 - unat s = (64 - unat (s + 7)) + 7"
      using "1.prems"(1) c8 by (simp add: s7)
    then have "(2 :: nat) ^ (64 - unat s) = 2 ^ (64 - unat (s + 7)) * 2 ^ 7"
      by (simp only: power_add)
    then have "unat (drop_bit 7 y) < 2 ^ (64 - unat (s + 7))"
      using "1.prems"(3) unfolding unat_drop_bit_div by (simp add: less_mult_imp_div_less)
    with "1.IH"[OF False] "1.prems" c8 c1 s7
    have "ReadUvarint_loop (PutUvarint (drop_bit 7 y) @ suf) x' (s + 7) (c + 1) j =
        Inr (x' OR push_bit (unat s + 7) (drop_bit 7 y), j + length (PutUvarint (drop_bit 7 y)))"
      for x' j by (simp add: add.commute)
    then show ?thesis
      using False uvarint_continuation[of y]
      by (simp add: PutUvarint.simps[of y] uvarint_low_group or.assoc uvarint_combine)
  qed
qed

lemma reads_ReadUvarint [codec]: "reads ReadUvarint (PutUvarint x) x"
  by (simp add: reads_def ReadUvarint_def ReadUvarint_loop_PutUvarint)

lemma reads_ReadVariableBytes [codec]:
  assumes "length bs \<le> unat limit" and "length bs < 2 ^ 63"
  shows "reads (ReadVariableBytes limit) (PutUvarint (of_nat (length bs)) @ bs) bs"
proof -
  have len: "unat (of_nat (length bs) :: uint64) = length bs"
    using assms(2) by (simp add: unat_of_nat_uint64)
  have "reads (ReadBytes (int_of_uint64 (of_nat (length bs)))) bs bs"
    using assms(2) by (intro reads_ReadBytes) (simp add: int_of_uint64_small len)
  then show ?thesis
    unfolding ReadVariableBytes_def
    by (intro reads_bind[OF reads_ReadUvarint] reads_gcheck)
      (simp_all add: word_less_nat_alt len assms(1) not_less)
qed

lemma reads_ReadString [codec]:
  "length bs \<le> unat limit \<Longrightarrow> length bs < 2 ^ 63 \<Longrightarrow>
   reads (ReadString limit) (PutUvarint (of_nat (length bs)) @ bs) bs"
  by (simp add: ReadString_def reads_ReadVariableBytes)

subsection \<open>Assets and floating-point numbers\<close>

lemma reads_ReadAsset [codec]:
  assumes "length a = ASSET_LENGTH"
  shows "reads ReadAsset (if a = NATIVE_ASSET_FULL then [0] else 1 # a) a"
proof (cases "a = NATIVE_ASSET_FULL")
  case True
  have "reads ReadAsset ([0] @ []) NATIVE_ASSET_FULL"
    unfolding ReadAsset_def by (intro reads_bind[OF reads_ReadByte]) (simp add: reads_gret)
  with True show ?thesis by simp
next
  case False
  have "reads (gbind (ReadBytes (int ASSET_LENGTH)) (\<lambda>buff.
       gbind (gcheck (buff = NATIVE_ASSET_FULL) ''NATIVE_ASSET_FULL should be written as short'')
         (\<lambda>_. gret buff))) (a @ []) a"
    using assms False by (intro reads_bind[OF reads_ReadBytes] reads_gcheck reads_gret) simp_all
  then have "reads ReadAsset ([1] @ (a @ [])) a"
    unfolding ReadAsset_def by (intro reads_bind[OF reads_ReadByte]) simp
  with False show ?thesis by simp
qed

lemma bit_foldr_or: "bit (foldr (OR) ws (0 :: uint64)) n \<longleftrightarrow> (\<exists>w \<in> set ws. bit w n)"
  by (induction ws) (auto simp: bit_or_iff)

lemma LittleEndian_roundtrip: "LittleEndian_Uint64 (LittleEndian_PutUint64 x) = x"
proof (rule bit_word_eqI)
  fix n assume n: "n < LENGTH(64)"
  have nth: "LittleEndian_PutUint64 x ! i = ucast (drop_bit (8 * i) x)" if "i < 8" for i
    using that by (simp add: LittleEndian_PutUint64_def)
  have "bit (LittleEndian_Uint64 (LittleEndian_PutUint64 x)) n \<longleftrightarrow>
      (\<exists>i<8. bit (push_bit (8 * i) (ucast (LittleEndian_PutUint64 x ! i)) :: uint64) n)"
    by (auto simp: LittleEndian_Uint64_def bit_foldr_or)
  also have "\<dots> \<longleftrightarrow> (\<exists>i<8. 8 * i \<le> n \<and> n - 8 * i < 8 \<and> bit x n)"
    using n by (auto simp: nth bit_push_bit_iff bit_ucast_iff bit_drop_bit_eq)
  also have "\<dots> \<longleftrightarrow> bit x n"
    using n by (auto intro!: exI[of _ "n div 8"])
  finally show "bit (LittleEndian_Uint64 (LittleEndian_PutUint64 x)) n = bit x n" .
qed

lemma reads_ReadFloat64 [codec]: "reads ReadFloat64 (LittleEndian_PutUint64 x) x"
proof -
  have "reads (ReadBytes 8) (LittleEndian_PutUint64 x) (LittleEndian_PutUint64 x)"
    by (rule reads_ReadBytes) (simp add: LittleEndian_PutUint64_def)
  then have "reads ReadFloat64 (LittleEndian_PutUint64 x @ []) x"
    unfolding ReadFloat64_def
    by (rule reads_bind) (simp add: LittleEndian_roundtrip reads_gret)
  then show ?thesis by simp
qed

text \<open>A loop that reads as many items as a list has.\<close>

lemma reads_grepeat:
  assumes "\<And>x. x \<in> set xs \<Longrightarrow> reads m (enc x) x"
  shows "reads (grepeat (length xs) m) (concat (map enc xs)) xs"
  using assms
proof (induction xs)
  case Nil
  then show ?case by (simp add: reads_gret)
next
  case (Cons x xs)
  then have "reads (grepeat (length xs) m) (concat (map enc xs)) xs" by simp
  then have "reads (gbind (grepeat (length xs) m) (\<lambda>xs. gret (x # xs))) (concat (map enc xs) @ []) (x # xs)"
    by (rule reads_bind) (rule reads_gret)
  with Cons.prems have "reads (grepeat (Suc (length xs)) m) (enc x @ (concat (map enc xs) @ [])) (x # xs)"
    unfolding grepeat.simps by (intro reads_bind[of m]) auto
  then show ?case by simp
qed

text \<open>\<^verbatim>\<open>make([]T, n)\<close> for items of \<open>sz\<close> bytes panics when the slice would exceed the address space
  of the allocator, \<open>2 ^ 48\<close> bytes on the supported platforms.\<close>

definition make_slice :: "nat \<Rightarrow> uint64 \<Rightarrow> ('s, unit) go" where
  "make_slice sz n = (if unat n * sz > 2 ^ 48 then gpanic ''makeslice: len out of range'' else gret ())"

lemma reads_make_slice:
  "unat n * sz \<le> 2 ^ 48 \<Longrightarrow> reads f bs x \<Longrightarrow> reads (gbind (make_slice sz n) (\<lambda>_. f)) bs x"
  by (simp add: make_slice_def)

section \<open>The bytes a read has consumed\<close>

text \<open>\<^verbatim>\<open>first := r.Position\<close>, a sequence of reads, \<^verbatim>\<open>r.Buf[first:r.Position]\<close>.\<close>

definition with_bytes :: "(BufferReader, 'a) go \<Rightarrow> (BufferReader, 'a \<times> bytes) go" where
  "with_bytes m =
     gbind (gget Position) (\<lambda>first.
     gbind m (\<lambda>x.
     gbind (gget (\<lambda>r. take (Position r - first) (drop first (Buf r)))) (\<lambda>b. gret (x, b))))"

lemma reads_with_bytes: "reads m bs x \<Longrightarrow> reads (with_bytes m) bs (x, bs)"
  by (auto simp: reads_def with_bytes_def gbind_Inr)

end
