(* ===== verification/Float64.thy ===== *)
theory Float64
  imports Go_Prelude
begin

text \<open>
  Go's \<^verbatim>\<open>float64\<close>, kept as its 64 bits: comparison, the conversion from \<^verbatim>\<open>uint64\<close>, multiplication
  and division of non-negative finite numbers, and \<^verbatim>\<open>math.Pow10\<close>.  An operation computes the exact
  rational result and rounds it once, to nearest with ties to even.
\<close>

section \<open>Comparison\<close>

definition float64_isNaN :: "uint64 \<Rightarrow> bool" where
  "float64_isNaN x \<longleftrightarrow> take_bit 63 x > 0x7FF0000000000000"

text \<open>The order of the finite numbers and infinities: the magnitude, negated under the sign bit; both
  zeros are equal.\<close>

definition float64_rank :: "uint64 \<Rightarrow> int" where
  "float64_rank x = (if bit x 63 then - uint (take_bit 63 x) else uint (take_bit 63 x))"

definition float64_less :: "uint64 \<Rightarrow> uint64 \<Rightarrow> bool" where
  "float64_less a b \<longleftrightarrow> \<not> float64_isNaN a \<and> \<not> float64_isNaN b \<and> float64_rank a < float64_rank b"

section \<open>Rounding\<close>

text \<open>The number of bits of a positive number.\<close>

function int_bits :: "int \<Rightarrow> int" where
  "int_bits n = (if n \<le> 0 then 0 else 1 + int_bits (n div 2))"
  by auto
termination by (relation "measure nat") auto

declare int_bits.simps [simp del]

text \<open>The greatest \<open>e\<close> with \<open>2 ^ e \<le> p / q\<close>.\<close>

definition ratio_log :: "int \<Rightarrow> int \<Rightarrow> int" where
  "ratio_log p q =
     (let e = int_bits p - int_bits q in
      if (if e \<ge> 0 then q * 2 ^ nat e \<le> p else q \<le> p * 2 ^ nat (- e)) then e else e - 1)"

text \<open>The bits of a non-negative number, or infinity when the exponent does not fit.\<close>

definition float64_clamp :: "int \<Rightarrow> uint64" where
  "float64_clamp w = (if w < 0 \<or> w > 0x7FF0000000000000 then 0x7FF0000000000000 else word_of_int w)"

text \<open>The number nearest to \<open>p / q\<close>, for \<open>p \<ge> 0\<close> and \<open>q > 0\<close>.  The exponent is at least that of the subnormal
  numbers; a significand rounded up to the next power of two carries into the exponent bits.\<close>

definition float64_round :: "int \<Rightarrow> int \<Rightarrow> uint64" where
  "float64_round p q =
     (if p = 0 then 0
      else
        (let e = max (ratio_log p q) (- 1022);
             a = (if e \<le> 52 then p * 2 ^ nat (52 - e) else p);
             b = (if e \<le> 52 then q else q * 2 ^ nat (e - 52));
             m = a div b; r = a mod b;
             m' = (if 2 * r > b \<or> (2 * r = b \<and> odd m) then m + 1 else m)
         in float64_clamp ((e + 1023) * 2 ^ 52 + (m' - 2 ^ 52))))"

text \<open>The value of a non-negative finite number as a fraction.\<close>

definition float64_ratio :: "uint64 \<Rightarrow> int \<times> int" where
  "float64_ratio x =
     (let e = uint x div 2 ^ 52; f = uint x mod 2 ^ 52;
          m = (if e = 0 then f else f + 2 ^ 52);
          k = (if e = 0 then - 1074 else e - 1075)
      in if k \<ge> 0 then (m * 2 ^ nat k, 1) else (m, 2 ^ nat (- k)))"

definition float64_of_uint64 :: "uint64 \<Rightarrow> uint64" where
  "float64_of_uint64 x = float64_round (uint x) 1"

definition float64_mul :: "uint64 \<Rightarrow> uint64 \<Rightarrow> uint64" where
  "float64_mul x y = (case (float64_ratio x, float64_ratio y) of ((a, b), (c, d)) \<Rightarrow> float64_round (a * c) (b * d))"

definition float64_div :: "uint64 \<Rightarrow> uint64 \<Rightarrow> uint64" where
  "float64_div x y = (case (float64_ratio x, float64_ratio y) of ((a, b), (c, d)) \<Rightarrow> float64_round (a * d) (b * c))"

text \<open>\<^verbatim>\<open>math.Pow10(n)\<close> for \<open>0 \<le> n \<le> 308\<close>: the product of two entries of tables of rounded powers.\<close>

definition math_Pow10 :: "nat \<Rightarrow> uint64" where
  "math_Pow10 n = float64_mul (float64_round (10 ^ (32 * (n div 32))) 1) (float64_round (10 ^ (n mod 32)) 1)"

section \<open>Facts\<close>

lemma float64_order:
  "\<not> float64_less a a"
  "float64_less a b \<Longrightarrow> \<not> float64_less b a"
  "\<not> float64_isNaN a \<Longrightarrow> \<not> float64_isNaN b \<Longrightarrow> \<not> float64_isNaN c \<Longrightarrow>
   \<not> float64_less a b \<Longrightarrow> \<not> float64_less b c \<Longrightarrow> \<not> float64_less a c"
  by (auto simp: float64_less_def)

lemma float64_clamp_not_NaN: "\<not> float64_isNaN (float64_clamp w)"
proof -
  have n: "\<not> float64_isNaN (word_of_int w)" if "0 \<le> w" "w \<le> 0x7FF0000000000000" for w
  proof -
    have "uint (take_bit 63 (word_of_int w :: uint64)) = uint (word_of_int w :: uint64)"
      using that by (simp add: unsigned_take_bit_eq uint_word_of_int_eq) (simp add: take_bit_eq_mod)
    then have "take_bit 63 (word_of_int w :: uint64) = word_of_int w" by (simp only: word_uint_eq_iff)
    moreover have "word_of_int w \<le> (0x7FF0000000000000 :: uint64)"
      using that by (simp add: word_le_def uint_word_of_int_eq take_bit_eq_mod)
    ultimately show ?thesis by (simp add: float64_isNaN_def not_less)
  qed
  from n[where w = 0] n[where w = "0x7FF0000000000000"] n[where w = w] show ?thesis
    by (simp add: float64_clamp_def not_less)
qed

lemma float64_round_not_NaN: "\<not> float64_isNaN (float64_round p q)"
  by (simp add: float64_round_def Let_def float64_clamp_not_NaN) (simp add: float64_isNaN_def)

lemma float64_div_not_NaN: "\<not> float64_isNaN (float64_div x y)"
  by (simp add: float64_div_def float64_round_not_NaN split: prod.split)

end
