(* ===== verification/Heap.thy ===== *)
theory Heap
  imports Heap_Order Buffers Float64
begin

text \<open>
  The priority queue of \<^verbatim>\<open>store/min_max_heap\<close>.  \<open>HeapOps\<close> is the Go struct \<^verbatim>\<open>Heap\<close>, whose fields are
  the closures of a storage; the heap operations run on any of them.  The locale \<open>heap_storage\<close>
  is the contract of a storage: an array of elements and a dictionary from keys to positions.
  In it the operations are shown to return, to keep the heap order and the dictionary, and to
  change the collection of elements as they should, for every storage at once.

  A score is a \<^verbatim>\<open>float64\<close>.
\<close>

section \<open>Elements and storages\<close>

record HeapElement =
  he_HashmapKey :: bytes
  he_Key :: bytes
  he_Score :: uint64

record HeapDictElement =
  hd_HashmapKey :: bytes
  hd_Position :: uint64

record 's HeapOps =
  hp_getElement :: "uint64 \<Rightarrow> ('s, HeapElement option) go"
  hp_updateElement :: "uint64 \<Rightarrow> HeapElement option \<Rightarrow> ('s, unit) go"
  hp_addElement :: "HeapElement \<Rightarrow> ('s, unit) go"
  hp_removeElement :: "('s, HeapElement option) go"
  hp_GetSize :: "'s \<Rightarrow> uint64"
  hp_compare :: "uint64 \<Rightarrow> uint64 \<Rightarrow> bool"

section \<open>The heap operations\<close>

text \<open>The loops are given fuel.  A position and a size are below \<open>2 ^ 64\<close>, and each turn halves the
  position or doubles it, so 65 turns are enough; the theorems below show that the fuel is
  never spent.\<close>

definition heap_fuel :: nat where "heap_fuel = 65"

definition leaf :: "'s HeapOps \<Rightarrow> uint64 \<Rightarrow> 's \<Rightarrow> bool" where
  "leaf H index s \<longleftrightarrow> index \<ge> hp_GetSize H s div 2 \<and> index \<le> hp_GetSize H s"

definition parent :: "uint64 \<Rightarrow> uint64" where
  "parent index = (if index = 0 then 0 else (index - 1) div 2)"

definition leftchild :: "uint64 \<Rightarrow> uint64" where
  "leftchild index = 2 * index + 1"

definition rightchild :: "uint64 \<Rightarrow> uint64" where
  "rightchild index = 2 * index + 2"

definition heap_swap :: "'s HeapOps \<Rightarrow> uint64 \<Rightarrow> uint64 \<Rightarrow> ('s, unit) go" where
  "heap_swap H first second =
     gbind (hp_getElement H first) (\<lambda>firstEl.
     gbind (hp_getElement H second) (\<lambda>secondEl.
     gbind (hp_updateElement H first secondEl) (\<lambda>_.
     hp_updateElement H second firstEl)))"

fun upHeapify :: "nat \<Rightarrow> 's HeapOps \<Rightarrow> uint64 \<Rightarrow> ('s, unit) go" where
  "upHeapify 0 H index = gtimeout"
| "upHeapify (Suc fuel) H index =
     gbind (hp_getElement H index) (\<lambda>a.
     gbind (hp_getElement H (parent index)) (\<lambda>b.
     deref a (\<lambda>a. deref b (\<lambda>b.
     if \<not> hp_compare H (he_Score a) (he_Score b) then gret ()
     else gbind (heap_swap H index (parent index)) (\<lambda>_. upHeapify fuel H (parent index))))))"

text \<open>One of the two tests of \<^verbatim>\<open>downHeapify\<close>: the child replaces \<^verbatim>\<open>smallest\<close> if it compares below it.\<close>

definition down_pick :: "'s HeapOps \<Rightarrow> uint64 \<Rightarrow> uint64 \<Rightarrow> ('s, uint64) go" where
  "down_pick H smallest child =
     gbind (gget (hp_GetSize H)) (\<lambda>size.
     if child < size then
       gbind (hp_getElement H child) (\<lambda>a.
       gbind (hp_getElement H smallest) (\<lambda>b.
       deref a (\<lambda>a. deref b (\<lambda>b.
       gret (if hp_compare H (he_Score a) (he_Score b) then child else smallest)))))
     else gret smallest)"

fun downHeapify :: "nat \<Rightarrow> 's HeapOps \<Rightarrow> uint64 \<Rightarrow> ('s, unit) go" where
  "downHeapify 0 H current = gtimeout"
| "downHeapify (Suc fuel) H current =
     gbind (gget (leaf H current)) (\<lambda>is_leaf.
     if is_leaf then gret ()
     else
       gbind (down_pick H current (leftchild current)) (\<lambda>smallest1.
       gbind (down_pick H smallest1 (rightchild current)) (\<lambda>smallest.
       if smallest \<noteq> current then
         gbind (heap_swap H current smallest) (\<lambda>_. downHeapify fuel H smallest)
       else gret ())))"

definition Heap_Insert :: "'s HeapOps \<Rightarrow> uint64 \<Rightarrow> bytes \<Rightarrow> ('s, unit) go" where
  "Heap_Insert H score key =
     gbind (hp_addElement H \<lparr>he_HashmapKey = [], he_Key = key, he_Score = score\<rparr>) (\<lambda>_.
     gbind (gget (hp_GetSize H)) (\<lambda>size. upHeapify heap_fuel H (size - 1)))"

text \<open>The end of \<^verbatim>\<open>Delete\<close>, after the last element has been put in the place of the deleted one.\<close>

definition Heap_Delete_down :: "'s HeapOps \<Rightarrow> uint64 \<Rightarrow> ('s, unit) go" where
  "Heap_Delete_down H index =
     gbind (gget (hp_GetSize H)) (\<lambda>size.
     if index < size div 2 then downHeapify heap_fuel H index else gret ())"

definition Heap_Delete :: "'s HeapOps \<Rightarrow> uint64 \<Rightarrow> ('s, unit) go" where
  "Heap_Delete H index =
     gbind (gget (hp_GetSize H)) (\<lambda>size.
     if size = 0 then gret ()
     else if index = size - 1 then gbind (hp_removeElement H) (\<lambda>_. gret ())
     else
       gbind (hp_removeElement H) (\<lambda>element.
       gbind (hp_updateElement H index element) (\<lambda>_.
       if index > 0 then
         gbind (hp_getElement H (parent index)) (\<lambda>p.
         deref element (\<lambda>e. deref p (\<lambda>p.
         if hp_compare H (he_Score e) (he_Score p) then upHeapify heap_fuel H index
         else Heap_Delete_down H index)))
       else Heap_Delete_down H index)))"

definition Heap_RemoveTop :: "'s HeapOps \<Rightarrow> ('s, HeapElement option) go" where
  "Heap_RemoveTop H =
     gbind (gget (hp_GetSize H)) (\<lambda>size.
     gbind (heap_swap H 0 (size - 1)) (\<lambda>_.
     gbind (hp_removeElement H) (\<lambda>top.
     gbind (downHeapify heap_fuel H 0) (\<lambda>_. gret top))))"

definition Heap_GetTop :: "'s HeapOps \<Rightarrow> ('s, HeapElement option) go" where
  "Heap_GetTop H = hp_getElement H 0"

section \<open>Positions as words\<close>

lemma of_nat_less_uint64: "a < 2 ^ 64 \<Longrightarrow> b < 2 ^ 64 \<Longrightarrow> (of_nat a :: uint64) < of_nat b \<longleftrightarrow> a < b"
  by (simp add: word_less_nat_alt unat_of_nat_uint64)

lemma of_nat_le_uint64: "a < 2 ^ 64 \<Longrightarrow> b < 2 ^ 64 \<Longrightarrow> (of_nat a :: uint64) \<le> of_nat b \<longleftrightarrow> a \<le> b"
  by (simp add: word_le_nat_alt unat_of_nat_uint64)

lemma of_nat_eq_uint64: "a < 2 ^ 64 \<Longrightarrow> b < 2 ^ 64 \<Longrightarrow> (of_nat a :: uint64) = of_nat b \<longleftrightarrow> a = b"
  by (metis unat_of_nat_uint64)

lemma of_nat_div_uint64: "a < 2 ^ 64 \<Longrightarrow> (of_nat a :: uint64) div 2 = of_nat (a div 2)"
  by (simp add: word_unat_eq_iff unat_div unat_of_nat_uint64)

lemma of_nat_diff_uint64: "0 < a \<Longrightarrow> (of_nat a :: uint64) - 1 = of_nat (a - 1)"
  by (simp add: of_nat_diff)

lemma parent_of_nat:
  assumes "i < 2 ^ 63"
  shows "parent (of_nat i) = of_nat (hparent i)"
proof (cases "i = 0")
  case False
  then have "(of_nat i :: uint64) \<noteq> 0" using of_nat_eq_uint64[of i 0] assms by simp
  then have "parent (of_nat i) = of_nat (i - 1) div 2"
    using of_nat_diff_uint64[of i] False unfolding parent_def by (simp only: if_False gr0I)
  also have "\<dots> = of_nat ((i - 1) div 2)" using assms by (intro of_nat_div_uint64) simp
  finally show ?thesis using False by (simp add: hparent_def)
qed (simp add: parent_def hparent_def)

lemma children_of_nat: "leftchild (of_nat i) = of_nat (2 * i + 1)" "rightchild (of_nat i) = of_nat (2 * i + 2)"
  by (simp_all add: leftchild_def rightchild_def)

lemma map_of_eqI_set:
  "distinct (map fst xs) \<Longrightarrow> distinct (map fst ys) \<Longrightarrow> set xs = set ys \<Longrightarrow> map_of xs = map_of ys"
  by (rule ext) (metis map_of_SomeD map_of_is_SomeI not_Some_eq)

lemma length_add_mset: "mset xs = add_mset x (mset ys) \<Longrightarrow> length xs = Suc (length ys)"
  by (metis size_add_mset size_mset)

lemma map_of_remove:
  assumes "mset xs = add_mset x (mset ys)" "distinct (map fst xs)"
  shows "map_of ys = (map_of xs)(fst x := None)"
proof -
  have "mset xs = mset (x # ys)" using assms(1) by simp
  then have p: "mset (map fst xs) = mset (map fst (x # ys))" by (metis mset_map)
  then have d: "distinct (map fst (x # ys))" using assms(2) by (metis mset_eq_imp_distinct_iff)
  have "set xs = set (x # ys)" using assms(1) by (metis \<open>mset xs = mset (x # ys)\<close> set_mset_mset)
  then have "map_of xs = map_of (x # ys)" using d assms(2) by (intro map_of_eqI_set)
  moreover have "map_of ys (fst x) = None" using d by (auto simp: map_of_eq_None_iff)
  ultimately show ?thesis by (auto simp: fun_eq_iff)
qed

section \<open>The contract of a storage\<close>

text \<open>What a storage holds of an element: its key and its score.\<close>

definition kv :: "HeapElement \<Rightarrow> bytes \<times> uint64" where
  "kv e = (he_Key e, he_Score e)"

locale heap_storage =
  fixes H :: "'s HeapOps"
    and elems :: "'s \<Rightarrow> (bytes \<times> uint64) list"
    and dict :: "'s \<Rightarrow> bytes \<Rightarrow> uint64 option"
    and inv :: "'s \<Rightarrow> bool"
    and okk :: "bytes \<Rightarrow> bool"
  assumes size: "inv s \<Longrightarrow> hp_GetSize H s = of_nat (length (elems s))"
    and bound: "inv s \<Longrightarrow> length (elems s) < 2 ^ 63"
    and keys: "inv s \<Longrightarrow> x \<in> set (elems s) \<Longrightarrow> okk (fst x)"
    and get: "inv s \<Longrightarrow> i < length (elems s) \<Longrightarrow>
      \<exists>e t. hp_getElement H (of_nat i) s = (Inr (Some e), t) \<and> kv e = elems s ! i \<and>
        inv t \<and> elems t = elems s \<and> dict t = dict s"
    and update: "inv s \<Longrightarrow> i < length (elems s) \<Longrightarrow> okk (he_Key e) \<Longrightarrow>
      \<exists>t. hp_updateElement H (of_nat i) (Some e) s = (Inr (), t) \<and> inv t \<and>
        elems t = (elems s)[i := kv e] \<and> dict t = (dict s)(he_Key e \<mapsto> of_nat i)"
    and add: "inv s \<Longrightarrow> Suc (length (elems s)) < 2 ^ 63 \<Longrightarrow> okk (he_Key e) \<Longrightarrow>
      \<exists>t. hp_addElement H e s = (Inr (), t) \<and> inv t \<and>
        elems t = elems s @ [kv e] \<and> dict t = (dict s)(he_Key e \<mapsto> of_nat (length (elems s)))"
    and remove: "inv s \<Longrightarrow> elems s \<noteq> [] \<Longrightarrow>
      \<exists>e t. hp_removeElement H s = (Inr (Some e), t) \<and> kv e = last (elems s) \<and> inv t \<and>
        elems t = butlast (elems s) \<and> dict t = (dict s)(fst (last (elems s)) := None)"
begin

definition lt :: "bytes \<times> uint64 \<Rightarrow> bytes \<times> uint64 \<Rightarrow> bool" where
  "lt x y \<longleftrightarrow> hp_compare H (snd x) (snd y)"

text \<open>The dictionary gives the position of every key; an entry of another key is one of the stale
  keys \<open>K\<close>.\<close>

definition dict_exact :: "bytes set \<Rightarrow> (bytes \<times> uint64) list \<Rightarrow> (bytes \<Rightarrow> uint64 option) \<Rightarrow> bool" where
  "dict_exact K xs d \<longleftrightarrow>
     (\<forall>i < length xs. d (fst (xs ! i)) = Some (of_nat i)) \<and> (\<forall>k. d k \<noteq> None \<longrightarrow> k \<in> fst ` set xs \<union> K)"

lemma dict_exact_distinct:
  assumes "dict_exact K xs d" "length xs < 2 ^ 63"
  shows "distinct (map fst xs)"
proof -
  have "i = j" if "i < length xs" "j < length xs" "fst (xs ! i) = fst (xs ! j)" for i j
  proof -
    have "(of_nat i :: uint64) = of_nat j" using assms(1) that by (metis dict_exact_def option.inject)
    moreover have "unat (of_nat i :: uint64) = i" "unat (of_nat j :: uint64) = j"
      using assms(2) that by (simp_all add: unat_of_nat_uint64)
    ultimately show ?thesis by metis
  qed
  then show ?thesis by (auto simp: distinct_conv_nth)
qed

lemma dict_exact_swap:
  assumes d: "dict_exact K xs d" and i: "i < length xs" and j: "j < length xs" and b: "length xs < 2 ^ 63"
  shows "dict_exact K (list_swap i j xs)
    (d(fst (xs ! j) \<mapsto> of_nat i, fst (xs ! i) \<mapsto> of_nat j))"
proof -
  have dis: "fst (xs ! k) = fst (xs ! l) \<longleftrightarrow> k = l" if "k < length xs" "l < length xs" for k l
    using dict_exact_distinct[OF d b] that by (metis distinct_map inj_on_eq_iff nth_eq_iff_index_eq nth_mem)
  have "set (list_swap i j xs) = set xs" using mset_list_swap[OF i j] by (metis set_mset_mset)
  then show ?thesis
    using d i j dis unfolding dict_exact_def
    by (auto simp: nth_list_swap dis)
qed

definition good :: "bytes set \<Rightarrow> 's \<Rightarrow> bool" where
  "good K s \<longleftrightarrow> inv s \<and> dict_exact K (elems s) (dict s)"

lemma okk_elem: "inv s \<Longrightarrow> i < length (elems s) \<Longrightarrow> kv e = elems s ! i \<Longrightarrow> okk (he_Key e)"
  using keys[of s "elems s ! i"] by (simp add: kv_def) (metis fst_conv nth_mem)

lemma heap_swap_ok:
  assumes "good K s" "i < length (elems s)" "j < length (elems s)"
  shows "\<exists>t. heap_swap H (of_nat i) (of_nat j) s = (Inr (), t) \<and> good K t \<and>
           elems t = list_swap i j (elems s)"
proof -
  let ?xs = "elems s"
  have inv: "inv s" and d: "dict_exact K ?xs (dict s)" using assms(1) by (auto simp: good_def)
  obtain a t1 where 1: "hp_getElement H (of_nat i) s = (Inr (Some a), t1)" "kv a = ?xs ! i" "inv t1"
    "elems t1 = ?xs" "dict t1 = dict s" using get[OF inv assms(2)] by blast
  obtain b t2 where 2: "hp_getElement H (of_nat j) t1 = (Inr (Some b), t2)" "kv b = ?xs ! j" "inv t2"
    "elems t2 = ?xs" "dict t2 = dict s" using get[OF 1(3), of j] assms(3) 1(4,5) by auto
  have oka: "okk (he_Key a)" "okk (he_Key b)" using okk_elem[OF inv] assms 1(2) 2(2) by blast+
  obtain t3 where 3: "hp_updateElement H (of_nat i) (Some b) t2 = (Inr (), t3)" "inv t3"
    "elems t3 = ?xs[i := ?xs ! j]" "dict t3 = (dict s)(fst (?xs ! j) \<mapsto> of_nat i)"
    using update[OF 2(3), of i b] assms(2) oka 2 by (auto simp: kv_def) (metis fst_conv)
  obtain t4 where 4: "hp_updateElement H (of_nat j) (Some a) t3 = (Inr (), t4)" "inv t4"
    "elems t4 = ?xs[i := ?xs ! j, j := ?xs ! i]"
    "dict t4 = (dict s)(fst (?xs ! j) \<mapsto> of_nat i, fst (?xs ! i) \<mapsto> of_nat j)"
    using update[OF 3(2), of j a] assms(3) oka 1(2) 3 by (auto simp: kv_def) (metis fst_conv)
  have "good K t4"
    using dict_exact_swap[OF d assms(2,3) bound[OF inv]] 4 by (simp add: good_def list_swap_def)
  then show ?thesis using 1 2 3 4 by (auto simp: heap_swap_def gbind_Inr list_swap_def)
qed

lemma get_good:
  assumes "good K s" "i < length (elems s)"
  obtains e t where "hp_getElement H (of_nat i) s = (Inr (Some e), t)" "kv e = elems s ! i" "good K t"
    "elems t = elems s"
  using get[of s i] assms by (auto simp: good_def)

lemma lt_kv: "kv a = x \<Longrightarrow> kv b = y \<Longrightarrow> hp_compare H (he_Score a) (he_Score b) \<longleftrightarrow> lt x y"
  by (auto simp: lt_def kv_def)

lemma hparent_length: "i < length xs \<Longrightarrow> hparent i < length xs"
  using hparent_le[of i] by simp

lemma upHeapify_ok:
  assumes irrefl: "\<And>a. \<not> hp_compare H a a"
    and "good K s" "i < length (elems s)" "i + 1 < 2 ^ fuel"
  shows "\<exists>t. upHeapify fuel H (of_nat i) s = (Inr (), t) \<and> good K t \<and> elems t = sift_up lt i (elems s)"
  using assms(2-)
proof (induction fuel arbitrary: s i)
  case 0
  then show ?case by simp
next
  case (Suc fuel)
  have i63: "i < 2 ^ 63" using Suc.prems(1,2) bound[of s] by (simp add: good_def)
  have p: "hparent i < length (elems s)" using Suc.prems(2) by (rule hparent_length)
  obtain a t1 where 1: "hp_getElement H (of_nat i) s = (Inr (Some a), t1)" "kv a = elems s ! i" "good K t1"
    "elems t1 = elems s" using get_good[OF Suc.prems(1,2)] .
  obtain b t2 where 2: "hp_getElement H (of_nat (hparent i)) t1 = (Inr (Some b), t2)"
    "kv b = elems s ! hparent i" "good K t2" "elems t2 = elems s"
    using get_good[OF 1(3), of "hparent i"] p 1(4) by auto
  have cmp: "hp_compare H (he_Score a) (he_Score b) \<longleftrightarrow> lt (elems s ! i) (elems s ! hparent i)"
    by (rule lt_kv[OF 1(2) 2(2)])
  show ?case
  proof (cases "lt (elems s ! i) (elems s ! hparent i)")
    case False
    then have "sift_up lt i (elems s) = elems s" by (subst sift_up.simps) simp
    then show ?thesis using 1 2 False cmp i63 by (simp add: gbind_Inr parent_of_nat)
  next
    case True
    then have i0: "0 < i" using irrefl by (cases "i = 0") (auto simp: lt_def hparent_def)
    obtain t3 where 3: "heap_swap H (of_nat i) (of_nat (hparent i)) t2 = (Inr (), t3)" "good K t3"
      "elems t3 = list_swap i (hparent i) (elems s)"
      using heap_swap_ok[OF 2(3), of i "hparent i"] Suc.prems(2) p 2(4) by auto
    have "hparent i + 1 < 2 ^ fuel" using Suc.prems(3) i0 by (simp add: hparent_def)
    then obtain t4 where "upHeapify fuel H (of_nat (hparent i)) t3 = (Inr (), t4)" "good K t4"
      "elems t4 = sift_up lt (hparent i) (list_swap i (hparent i) (elems s))"
      using Suc.IH[OF 3(2), of "hparent i"] 3(3) p by auto
    then show ?thesis using 1 2 3 True cmp i63 i0 Suc.prems(2)
      by (subst sift_up.simps) (simp add: gbind_Inr parent_of_nat)
  qed
qed

lemma down_pick_ok:
  assumes "good K s" "m < length (elems s)" "c < 2 ^ 64"
  shows "\<exists>t. down_pick H (of_nat m) (of_nat c) s = (Inr (of_nat (pick_child lt (elems s) m c)), t) \<and>
           good K t \<and> elems t = elems s"
proof -
  have inv: "inv s" using assms(1) by (simp add: good_def)
  have len: "length (elems s) < 2 ^ 64" using bound[OF inv] by simp
  have sz: "of_nat c < hp_GetSize H s \<longleftrightarrow> c < length (elems s)"
    using size[OF inv] of_nat_less_uint64[OF assms(3) len] by simp
  show ?thesis
  proof (cases "c < length (elems s)")
    case True
    obtain a t1 where 1: "hp_getElement H (of_nat c) s = (Inr (Some a), t1)" "kv a = elems s ! c" "good K t1"
      "elems t1 = elems s" using get_good[OF assms(1) True] .
    obtain b t2 where 2: "hp_getElement H (of_nat m) t1 = (Inr (Some b), t2)" "kv b = elems s ! m" "good K t2"
      "elems t2 = elems s" using get_good[OF 1(3), of m] assms(2) 1(4) by auto
    show ?thesis using 1 2 sz True lt_kv[OF 1(2) 2(2)]
      by (simp add: down_pick_def gbind_Inr pick_child_def)
  next
    case False
    then show ?thesis using sz assms(1) by (simp add: down_pick_def pick_child_def)
  qed
qed

lemma downHeapify_ok:
  assumes "good K s" "i \<le> length (elems s)" "length (elems s) < (i + 1) * 2 ^ fuel" "0 < fuel"
  shows "\<exists>t. downHeapify fuel H (of_nat i) s = (Inr (), t) \<and> good K t \<and> elems t = sift_down lt i (elems s)"
  using assms
proof (induction fuel arbitrary: s i)
  case 0
  then show ?case by simp
next
  case (Suc fuel)
  let ?xs = "elems s"
  have inv: "inv s" using Suc.prems(1) by (simp add: good_def)
  have b: "length ?xs < 2 ^ 63" by (rule bound[OF inv])
  have lf: "leaf H (of_nat i) s \<longleftrightarrow> length ?xs div 2 \<le> i"
    using size[OF inv] b Suc.prems(2)
    by (simp add: leaf_def of_nat_div_uint64 of_nat_le_uint64)
  show ?case
  proof (cases "length ?xs div 2 \<le> i")
    case True
    then have "sift_down lt i ?xs = ?xs" by (subst sift_down.simps) simp
    then show ?thesis using lf True Suc.prems(1) by simp
  next
    case False
    then have il: "i < length ?xs" by linarith
    let ?m1 = "pick_child lt ?xs i (2 * i + 1)"
    let ?m = "smallest_of lt ?xs i"
    have m1: "?m1 < length ?xs" using il by (simp add: pick_child_def)
    obtain t1 where 1: "down_pick H (of_nat i) (of_nat (2 * i + 1)) s = (Inr (of_nat ?m1), t1)" "good K t1"
      "elems t1 = ?xs" using down_pick_ok[OF Suc.prems(1) il, of "2 * i + 1"] il b by auto
    obtain t2 where 2: "down_pick H (of_nat ?m1) (of_nat (2 * i + 2)) t1 = (Inr (of_nat ?m), t2)" "good K t2"
      "elems t2 = ?xs" using down_pick_ok[OF 1(2), of ?m1 "2 * i + 2"] 1(3) m1 il b by (auto simp: smallest_of_def)
    have ml: "?m < length ?xs" using smallest_of_cases[of lt ?xs i] il by auto
    have ne: "(of_nat ?m :: uint64) = of_nat i \<longleftrightarrow> ?m = i"
      using of_nat_eq_uint64[of ?m i] ml il b by simp
    show ?thesis
    proof (cases "?m = i")
      case True
      then have "sift_down lt i ?xs = ?xs" by (subst sift_down.simps) simp
      then show ?thesis using lf False 1 2 True by (simp add: gbind_Inr children_of_nat)
    next
      case m: False
      obtain t3 where 3: "heap_swap H (of_nat i) (of_nat ?m) t2 = (Inr (), t3)" "good K t3"
        "elems t3 = list_swap i ?m ?xs" using heap_swap_ok[OF 2(2), of i ?m] il ml 2(3) by auto
      have mc: "2 * (i + 1) \<le> ?m + 1" using smallest_of_cases[of lt ?xs i] m by auto
      have "(i + 1) * 2 ^ Suc fuel \<le> (?m + 1) * 2 ^ fuel"
        using mult_le_mono1[OF mc, of "2 ^ fuel"] by (simp add: algebra_simps)
      then have f: "length (list_swap i ?m ?xs) < (?m + 1) * 2 ^ fuel" using Suc.prems(3) by simp
      have "0 < fuel"
      proof (rule ccontr)
        assume "\<not> 0 < fuel"
        then have "length ?xs < ?m + 1" using f by simp
        then show False using ml by simp
      qed
      then obtain t4 where "downHeapify fuel H (of_nat ?m) t3 = (Inr (), t4)" "good K t4"
        "elems t4 = sift_down lt ?m (list_swap i ?m ?xs)"
        using Suc.IH[OF 3(2), of ?m] 3(3) f ml by auto
      then show ?thesis using lf False 1 2 3 m ne
        by (subst sift_down.simps) (simp add: gbind_Inr children_of_nat)
    qed
  qed
qed

lemma size_good: "good K s \<Longrightarrow> hp_GetSize H s = of_nat (length (elems s))" "good K s \<Longrightarrow> length (elems s) < 2 ^ 63"
  using size bound by (auto simp: good_def)

lemma dict_exact_append:
  assumes "dict_exact K xs d" "k \<notin> fst ` set xs"
  shows "dict_exact K (xs @ [(k, v)]) (d(k \<mapsto> of_nat (length xs)))"
proof -
  have "fst (xs ! i) \<noteq> k" if "i < length xs" for i using assms(2) that by (metis image_eqI nth_mem)
  then show ?thesis using assms(1) by (auto simp: dict_exact_def nth_append less_Suc_eq)
qed

lemma dict_exact_butlast:
  assumes "dict_exact K xs d" "length xs < 2 ^ 63" "xs \<noteq> []"
  shows "dict_exact K (butlast xs) (d(fst (last xs) := None))"
proof -
  obtain ys y where xs: "xs = ys @ [y]" using assms(3) by (metis rev_exhaust)
  have dis: "distinct (map fst xs)" by (rule dict_exact_distinct[OF assms(1,2)])
  then have notin: "fst (last xs) \<notin> fst ` set (butlast xs)" using xs by auto
  have set: "set xs = set (butlast xs) \<union> {last xs}" using xs by auto
  have "fst (butlast xs ! i) \<noteq> fst (last xs)" if "i < length (butlast xs)" for i
    using notin that by (metis image_eqI nth_mem)
  moreover have "d (fst (butlast xs ! i)) = Some (of_nat i)" if "i < length (butlast xs)" for i
    using assms(1) that by (simp add: dict_exact_def nth_butlast)
  moreover have "k \<in> fst ` set (butlast xs) \<union> K" if "d k \<noteq> None" "k \<noteq> fst (last xs)" for k
    using assms(1) that set by (auto simp: dict_exact_def)
  ultimately show ?thesis by (auto simp: dict_exact_def)
qed

lemma dict_exact_replace:
  assumes "dict_exact K xs d" "length xs < 2 ^ 63" "i < length xs" "k \<notin> fst ` set xs"
  shows "dict_exact (insert (fst (xs ! i)) K) (xs[i := (k, v)]) (d(k \<mapsto> of_nat i))"
proof -
  have "fst (xs ! j) \<noteq> k" if "j < length xs" for j using assms(4) that by (metis image_eqI nth_mem)
  then have "(d(k \<mapsto> of_nat i)) (fst (xs[i := (k, v)] ! j)) = Some (of_nat j)" if "j < length xs" for j
    using assms(1,3) that by (cases "j = i") (auto simp: dict_exact_def)
  moreover have "j \<in> fst ` set (xs[i := (k, v)]) \<union> insert (fst (xs ! i)) K" if dj: "d j \<noteq> None" for j
  proof (cases "j \<in> K")
    case False
    then have "j \<in> fst ` set xs" using assms(1) dj by (auto simp: dict_exact_def)
    then obtain m where m: "m < length xs" "fst (xs ! m) = j" by (auto simp: in_set_conv_nth)
    show ?thesis
    proof (cases "m = i")
      case False
      then have "xs[i := (k, v)] ! m = xs ! m" by simp
      then have "xs ! m \<in> set (xs[i := (k, v)])" using m(1) by (metis length_list_update nth_mem)
      then show ?thesis using m(2) by (metis UnI1 image_eqI)
    qed (use m in auto)
  qed auto
  moreover have "k \<in> fst ` set (xs[i := (k, v)])" using assms(3) set_update_memI[of i xs "(k, v)"] by force
  ultimately show ?thesis unfolding dict_exact_def by auto
qed

lemma Heap_Insert_ok:
  assumes irrefl: "\<And>a. \<not> hp_compare H a a" and "good K s" "okk key" "key \<notin> fst ` set (elems s)"
    and "Suc (length (elems s)) < 2 ^ 63"
  shows "\<exists>t. Heap_Insert H score key s = (Inr (), t) \<and> good K t \<and>
           elems t = sift_up lt (length (elems s)) (elems s @ [(key, score)])"
proof -
  let ?e = "\<lparr>he_HashmapKey = [], he_Key = key, he_Score = score\<rparr>" and ?n = "length (elems s)"
  have inv: "inv s" using assms(2) by (simp add: good_def)
  obtain t1 where 1: "hp_addElement H ?e s = (Inr (), t1)" "inv t1" "elems t1 = elems s @ [(key, score)]"
    "dict t1 = (dict s)(key \<mapsto> of_nat ?n)"
    using add[OF inv assms(5), of ?e] assms(3) by (auto simp: kv_def)
  have g1: "good K t1" using dict_exact_append[OF _ assms(4)] assms(2) 1 by (simp add: good_def)
  have sz: "hp_GetSize H t1 - 1 = of_nat ?n" using size_good(1)[OF g1] 1(3) by simp
  have "?n + 1 < 2 ^ heap_fuel" using assms(5) by (simp add: heap_fuel_def)
  then obtain t2 where "upHeapify heap_fuel H (of_nat ?n) t1 = (Inr (), t2)" "good K t2"
    "elems t2 = sift_up lt ?n (elems t1)"
    using upHeapify_ok[OF irrefl g1, of ?n heap_fuel] 1(3) by auto
  then show ?thesis using 1 sz by (auto simp: Heap_Insert_def gbind_Inr)
qed

lemma Heap_Delete_down_ok:
  assumes "good K s" "i < length (elems s)"
  shows "\<exists>t. Heap_Delete_down H (of_nat i) s = (Inr (), t) \<and> good K t \<and> elems t = sift_down lt i (elems s)"
proof -
  let ?n = "length (elems s)"
  have n: "?n < 2 ^ 63" by (rule size_good(2)[OF assms(1)])
  have c: "of_nat i < hp_GetSize H s div 2 \<longleftrightarrow> i < ?n div 2"
    unfolding size_good(1)[OF assms(1)] using n assms(2)
    by (simp add: of_nat_div_uint64 of_nat_less_uint64)
  have "?n < (i + 1) * 2 ^ heap_fuel" using n by (simp add: heap_fuel_def)
  then obtain t where t: "downHeapify heap_fuel H (of_nat i) s = (Inr (), t)" "good K t"
    "elems t = sift_down lt i (elems s)"
    using downHeapify_ok[OF assms(1), of i heap_fuel] assms(2) by (auto simp: heap_fuel_def)
  show ?thesis
  proof (cases "i < ?n div 2")
    case True
    then show ?thesis using t c by (simp add: Heap_Delete_down_def)
  next
    case False
    then have "sift_down lt i (elems s) = elems s" by (subst sift_down.simps) simp
    then show ?thesis using False c assms(1) by (simp add: Heap_Delete_down_def)
  qed
qed

text \<open>Deletion at a position leaves the dictionary entry of the deleted key behind, except when it is
  the last element: the callers remove it.\<close>

lemma Heap_Delete_ok:
  assumes irrefl: "\<And>a. \<not> hp_compare H a a" and "good K s" "i < length (elems s)"
  shows "\<exists>t. Heap_Delete H (of_nat i) s = (Inr (), t) \<and> good (insert (fst (elems s ! i)) K) t \<and>
    elems t = (let xs = elems s in
      if i = length xs - 1 then butlast xs
      else let l = last xs; ys = (butlast xs)[i := l]
           in if 0 < i \<and> lt l (ys ! hparent i) then sift_up lt i ys else sift_down lt i ys)"
proof -
  let ?xs = "elems s" and ?n = "length (elems s)"
  let ?K = "insert (fst (?xs ! i)) K"
  have inv: "inv s" and d: "dict_exact K ?xs (dict s)" using assms(2) by (auto simp: good_def)
  have n: "?n < 2 ^ 63" "?xs \<noteq> []" using size_good(2)[OF assms(2)] assms(3) by auto
  have sz0: "hp_GetSize H s \<noteq> 0"
    using size_good(1)[OF assms(2)] n of_nat_eq_uint64[of ?n 0] by simp
  have "(of_nat i :: uint64) = of_nat (?n - 1) \<longleftrightarrow> i = ?n - 1"
    using of_nat_eq_uint64[of i "?n - 1"] n(1) assms(3) by simp
  then have sz1: "of_nat i = hp_GetSize H s - 1 \<longleftrightarrow> i = ?n - 1"
    using size_good(1)[OF assms(2)] of_nat_diff_uint64[of ?n] n(2) by simp
  obtain e t1 where 1: "hp_removeElement H s = (Inr (Some e), t1)" "kv e = last ?xs" "inv t1"
    "elems t1 = butlast ?xs" "dict t1 = (dict s)(fst (last ?xs) := None)"
    using remove[OF inv n(2)] by blast
  have g1: "good K t1" using dict_exact_butlast[OF d n] 1 by (simp add: good_def)
  show ?thesis
  proof (cases "i = ?n - 1")
    case True
    have "good ?K t1" using g1 by (auto simp: good_def dict_exact_def)
    then show ?thesis using True 1 sz0 sz1 by (auto simp: Heap_Delete_def gbind_Inr Let_def)
  next
    case False
    let ?ys = "(butlast ?xs)[i := last ?xs]"
    have il: "i < length (butlast ?xs)" using assms(3) False by simp
    have last: "last ?xs = (he_Key e, he_Score e)" using 1(2) by (simp add: kv_def)
    have okk: "okk (he_Key e)" using keys[OF inv last_in_set[OF n(2)]] last by simp
    obtain t2 where 2: "hp_updateElement H (of_nat i) (Some e) t1 = (Inr (), t2)" "inv t2"
      "elems t2 = ?ys" "dict t2 = (dict t1)(he_Key e \<mapsto> of_nat i)"
      using update[OF 1(3), of i e] il okk 1(2,4) by auto
    have "he_Key e \<notin> fst ` set (butlast ?xs)"
    proof -
      have "distinct (map fst (butlast ?xs @ [last ?xs]))" using dict_exact_distinct[OF d n(1)] n(2) by simp
      then show ?thesis using last by auto
    qed
    moreover have "dict_exact K (butlast ?xs) (dict t1)" using g1 1(4) by (simp add: good_def)
    ultimately have "dict_exact (insert (fst (butlast ?xs ! i)) K) ?ys (dict t2)"
      using dict_exact_replace[of K "butlast ?xs" "dict t1" i "he_Key e" "he_Score e"] il n(1) 2(4) last by simp
    then have g2: "good ?K t2" using 2(2,3) il by (simp add: good_def nth_butlast)
    obtain t3 where 3: "Heap_Delete_down H (of_nat i) t2 = (Inr (), t3)" "good ?K t3"
      "elems t3 = sift_down lt i ?ys" using Heap_Delete_down_ok[OF g2, of i] 2(3) il by auto
    show ?thesis
    proof (cases "i = 0")
      case True
      then show ?thesis using 1 2 3 False sz0 sz1 by (auto simp: Heap_Delete_def gbind_Inr Let_def)
    next
      case i0: False
      have i63: "i < 2 ^ 63" using il n(1) by simp
      then have w0: "(0 :: uint64) < of_nat i" using of_nat_less_uint64[of 0 i] i0 by simp
      have pl: "hparent i < length (elems t2)" using hparent_le[of i] il 2(3) by simp
      obtain p t4 where 4: "hp_getElement H (of_nat (hparent i)) t2 = (Inr (Some p), t4)"
        "kv p = ?ys ! hparent i" "good ?K t4" "elems t4 = ?ys"
        using get_good[OF g2 pl] 2(3) by metis
      have cmp: "hp_compare H (he_Score e) (he_Score p) \<longleftrightarrow> lt (last ?xs) (?ys ! hparent i)"
        by (rule lt_kv[OF 1(2) 4(2)])
      obtain t5 where 5: "upHeapify heap_fuel H (of_nat i) t4 = (Inr (), t5)" "good ?K t5"
        "elems t5 = sift_up lt i ?ys"
        using upHeapify_ok[OF irrefl 4(3), of i heap_fuel] 4(4) il i63 by (auto simp: heap_fuel_def)
      obtain t6 where 6: "Heap_Delete_down H (of_nat i) t4 = (Inr (), t6)" "good ?K t6"
        "elems t6 = sift_down lt i ?ys" using Heap_Delete_down_ok[OF 4(3), of i] 4(4) il by auto
      have run: "Heap_Delete H (of_nat i) s =
          (if lt (last ?xs) (?ys ! hparent i) then upHeapify heap_fuel H (of_nat i) t4
           else Heap_Delete_down H (of_nat i) t4)"
        using 1(1) 2(1) 4(1) False sz0 sz1 w0 cmp
        by (simp add: Heap_Delete_def gbind_Inr parent_of_nat[OF i63])
      show ?thesis
      proof (cases "lt (last ?xs) (?ys ! hparent i)")
        case True
        with run 5 False i0 show ?thesis unfolding Let_def by simp
      next
        case nlt: False
        with run 6 False show ?thesis unfolding Let_def by simp
      qed
    qed
  qed
qed

lemma Heap_RemoveTop_ok:
  assumes "good K s" "elems s \<noteq> []"
  shows "\<exists>e t. Heap_RemoveTop H s = (Inr (Some e), t) \<and> kv e = elems s ! 0 \<and> good K t \<and>
    elems t = sift_down lt 0 (butlast (list_swap 0 (length (elems s) - 1) (elems s)))"
proof -
  let ?xs = "elems s" and ?n = "length (elems s)"
  let ?ys = "list_swap 0 (?n - 1) ?xs"
  have n: "0 < ?n" "?n < 2 ^ 63" using assms size_good(2) by auto
  have sz: "hp_GetSize H s - 1 = of_nat (?n - 1)"
    using size_good(1)[OF assms(1)] of_nat_diff_uint64[OF n(1)] by simp
  obtain t1 where 1: "heap_swap H (of_nat 0) (of_nat (?n - 1)) s = (Inr (), t1)" "good K t1" "elems t1 = ?ys"
    using heap_swap_ok[OF assms(1), of 0 "?n - 1"] n by auto
  have ne: "?ys \<noteq> []" using n by (metis length_list_swap length_greater_0_conv)
  have inv1: "inv t1" using 1(2) by (simp add: good_def)
  obtain e t2 where 2: "hp_removeElement H t1 = (Inr (Some e), t2)" "kv e = last ?ys" "inv t2"
    "elems t2 = butlast ?ys" "dict t2 = (dict t1)(fst (last ?ys) := None)"
    using remove[OF inv1] 1(3) ne by auto
  have "dict_exact K ?ys (dict t1)" using 1(2,3) by (simp add: good_def)
  then have g2: "good K t2" using dict_exact_butlast[of K ?ys "dict t1"] 2 ne n by (simp add: good_def)
  have last: "last ?ys = ?xs ! 0"
    using n ne by (subst last_conv_nth) (auto simp: nth_list_swap)
  have "length (elems t2) < (0 + 1) * 2 ^ heap_fuel" using size_good(2)[OF g2] by (simp add: heap_fuel_def)
  then obtain t3 where "downHeapify heap_fuel H (of_nat 0) t2 = (Inr (), t3)" "good K t3"
    "elems t3 = sift_down lt 0 (butlast ?ys)"
    using downHeapify_ok[OF g2, of 0 heap_fuel] 2(4) by (auto simp: heap_fuel_def)
  then show ?thesis using 1 2 sz last by (auto simp: Heap_RemoveTop_def gbind_Inr)
qed

end

section \<open>Storages with an order on the scores\<close>

text \<open>The comparison is a strict weak order on the scores in use (\<open>oks\<close>).\<close>

locale ordered_heap_storage = heap_storage H elems dict inv okk
  for H :: "'s HeapOps" and elems dict inv okk +
  fixes oks :: "uint64 \<Rightarrow> bool"
  assumes cmp_irrefl: "\<not> hp_compare H a a"
    and cmp_asym: "oks a \<Longrightarrow> oks b \<Longrightarrow> hp_compare H a b \<Longrightarrow> \<not> hp_compare H b a"
    and cmp_neg_trans: "oks a \<Longrightarrow> oks b \<Longrightarrow> oks c \<Longrightarrow> \<not> hp_compare H a b \<Longrightarrow> \<not> hp_compare H b c \<Longrightarrow>
      \<not> hp_compare H a c"

sublocale ordered_heap_storage \<subseteq> ord: weak_order lt "\<lambda>x. oks (snd x)"
  by unfold_locales (auto simp: lt_def cmp_irrefl dest: cmp_asym cmp_neg_trans)

context ordered_heap_storage
begin

definition heap_inv :: "bytes set \<Rightarrow> 's \<Rightarrow> bool" where
  "heap_inv K s \<longleftrightarrow> good K s \<and> ord.is_heap (elems s) \<and> (\<forall>x \<in> set (elems s). oks (snd x))"

lemma oks_mset:
  assumes "mset ys \<subseteq># add_mset x (mset xs)" "\<forall>y \<in> set xs. oks (snd y)" "oks (snd x)"
  shows "\<forall>y \<in> set ys. oks (snd y)"
  using set_mset_mono[OF assms(1)] assms(2,3) by auto

lemma Insert_spec:
  assumes "heap_inv K s" "okk key" "oks score" "key \<notin> fst ` set (elems s)" "Suc (length (elems s)) < 2 ^ 63"
  shows "\<exists>t. Heap_Insert H score key s = (Inr (), t) \<and> heap_inv K t \<and>
           mset (elems t) = add_mset (key, score) (mset (elems s))"
proof -
  have g: "good K s" "ord.is_heap (elems s)" "\<forall>x \<in> set (elems s). oks (snd x)"
    using assms(1) by (auto simp: heap_inv_def)
  obtain t where t: "Heap_Insert H score key s = (Inr (), t)" "good K t"
    "elems t = ord.heap_insert (key, score) (elems s)"
    using Heap_Insert_ok[OF cmp_irrefl g(1) assms(2,4,5)] by (auto simp: ord.heap_insert_def)
  have "ord.is_heap (elems t)" "mset (elems t) = add_mset (key, score) (mset (elems s))"
    using ord.heap_insert_heap[OF g(2,3)] t(3) assms(3) by simp_all
  with t g oks_mset[of "elems t" "(key, score)" "elems s"] assms(3) show ?thesis
    by (auto simp: heap_inv_def)
qed

lemma Delete_spec:
  assumes "heap_inv K s" "i < length (elems s)"
  shows "\<exists>t. Heap_Delete H (of_nat i) s = (Inr (), t) \<and> heap_inv (insert (fst (elems s ! i)) K) t \<and>
           mset (elems t) = mset (elems s) - {#elems s ! i#}"
proof -
  let ?xs = "elems s"
  have g: "good K s" "ord.is_heap ?xs" "\<forall>x \<in> set ?xs. oks (snd x)"
    using assms(1) by (auto simp: heap_inv_def)
  obtain t where t: "Heap_Delete H (of_nat i) s = (Inr (), t)" "good (insert (fst (?xs ! i)) K) t"
    "elems t = (if i = length ?xs - 1 then butlast ?xs
      else let l = last ?xs; ys = (butlast ?xs)[i := l]
           in if 0 < i \<and> lt l (ys ! hparent i) then sift_up lt i ys else sift_down lt i ys)"
    using Heap_Delete_ok[OF cmp_irrefl g(1) assms(2)] unfolding Let_def by blast
  have "sift_down lt i ys = ys" if "\<not> i < length ys div 2" for ys
    using that by (subst sift_down.simps) simp
  from this[of "(butlast ?xs)[i := last ?xs]"] have e: "elems t = ord.heap_delete i ?xs"
    using t(3) by (auto simp: ord.heap_delete_def Let_def)
  have "mset (elems t) = mset ?xs - {#?xs ! i#}" unfolding e by (rule ord.mset_heap_delete[OF assms(2)])
  moreover from this have "set (elems t) \<subseteq> set ?xs" by (metis diff_subset_eq_self set_mset_mono set_mset_mset)
  moreover have "ord.is_heap (elems t)" unfolding e by (rule ord.heap_delete_heap[OF g(2,3) assms(2)])
  ultimately show ?thesis using t(1,2) g(3) by (auto simp: heap_inv_def)
qed

lemma RemoveTop_spec:
  assumes "heap_inv K s" "elems s \<noteq> []"
  shows "\<exists>e t. Heap_RemoveTop H s = (Inr (Some e), t) \<and> heap_inv K t \<and> kv e \<in> set (elems s) \<and>
           mset (elems t) = mset (elems s) - {#kv e#} \<and> (\<forall>x \<in> set (elems s). \<not> lt x (kv e))"
proof -
  let ?xs = "elems s"
  have g: "good K s" "ord.is_heap ?xs" "\<forall>x \<in> set ?xs. oks (snd x)"
    using assms(1) by (auto simp: heap_inv_def)
  obtain e t where t: "Heap_RemoveTop H s = (Inr (Some e), t)" "kv e = ?xs ! 0" "good K t"
    "elems t = ord.heap_pop ?xs"
    using Heap_RemoveTop_ok[OF g(1) assms(2)] by (auto simp: ord.heap_pop_def)
  have m: "mset (elems t) = mset ?xs - {#kv e#}" using ord.heap_pop_heap(2)[OF g(2,3) assms(2)] t by simp
  then have "set (elems t) \<subseteq> set ?xs" by (metis diff_subset_eq_self set_mset_mono set_mset_mset)
  moreover have "ord.is_heap (elems t)" using ord.heap_pop_heap(1)[OF g(2,3) assms(2)] t by simp
  moreover have "\<forall>x \<in> set ?xs. \<not> lt x (kv e)"
    using ord.heap_top[OF g(2) _ g(3)] t(2) by (metis in_set_conv_nth)
  ultimately show ?thesis using t m g(3) assms(2) by (auto simp: heap_inv_def)
qed

lemma GetTop_spec:
  assumes "heap_inv K s" "elems s \<noteq> []"
  shows "\<exists>e t. Heap_GetTop H s = (Inr (Some e), t) \<and> heap_inv K t \<and> elems t = elems s \<and>
           kv e \<in> set (elems s) \<and> (\<forall>x \<in> set (elems s). \<not> lt x (kv e))"
proof -
  have g: "good K s" "ord.is_heap (elems s)" "\<forall>x \<in> set (elems s). oks (snd x)"
    using assms(1) by (auto simp: heap_inv_def)
  obtain e t where t: "hp_getElement H (of_nat 0) s = (Inr (Some e), t)" "kv e = elems s ! 0" "good K t"
    "elems t = elems s" using get_good[OF g(1), of 0] assms(2) by auto
  have "\<forall>x \<in> set (elems s). \<not> lt x (kv e)"
    using ord.heap_top[OF g(2) _ g(3)] t(2) by (metis in_set_conv_nth)
  with t g assms(2) show ?thesis by (auto simp: Heap_GetTop_def heap_inv_def)
qed

text \<open>The position the dictionary gives is that of the key.\<close>

lemma dict_position:
  assumes "heap_inv K s" "dict s k = Some p" "k \<notin> K"
  shows "\<exists>i < length (elems s). p = of_nat i \<and> fst (elems s ! i) = k"
proof -
  have d: "dict_exact K (elems s) (dict s)" using assms(1) by (simp add: heap_inv_def good_def)
  then have "k \<in> fst ` set (elems s)" using assms(2,3) by (auto simp: dict_exact_def)
  then obtain i where "i < length (elems s)" "fst (elems s ! i) = k" by (auto simp: in_set_conv_nth)
  moreover from this d have "dict s k = Some (of_nat i)" by (auto simp: dict_exact_def)
  ultimately show ?thesis using assms(2) by auto
qed

lemma dict_absent:
  assumes "heap_inv K s" "dict s k = None"
  shows "k \<notin> fst ` set (elems s)"
proof
  assume "k \<in> fst ` set (elems s)"
  then obtain i where "i < length (elems s)" "fst (elems s ! i) = k" by (auto simp: in_set_conv_nth)
  then show False using assms by (auto simp: heap_inv_def good_def dict_exact_def)
qed

text \<open>The heap seen as a map from keys to scores.\<close>

lemma heap_inv_distinct: "heap_inv K s \<Longrightarrow> distinct (map fst (elems s))"
  using dict_exact_distinct bound by (auto simp: heap_inv_def good_def)

lemma heap_inv_keys: "heap_inv K s \<Longrightarrow> k \<notin> K \<Longrightarrow> map_of (elems s) k = None \<longleftrightarrow> dict s k = None"
  using dict_absent dict_position by (metis map_of_eq_None_iff nth_mem image_eqI option.exhaust)

lemma heap_inv_drop: "heap_inv (insert k K) s \<Longrightarrow> map_of (elems s) k \<noteq> None \<or> dict s k = None \<Longrightarrow> heap_inv K s"
  unfolding heap_inv_def good_def dict_exact_def
  by (metis Un_iff insertE map_of_eq_None_iff)

lemma Insert_map:
  assumes "heap_inv K s" "okk key" "oks score" "map_of (elems s) key = None" "Suc (length (elems s)) < 2 ^ 63"
  shows "\<exists>t. Heap_Insert H score key s = (Inr (), t) \<and> heap_inv K t \<and>
    map_of (elems t) = (map_of (elems s))(key \<mapsto> score) \<and> length (elems t) = Suc (length (elems s))"
proof -
  obtain t where t: "Heap_Insert H score key s = (Inr (), t)" "heap_inv K t"
    "mset (elems t) = add_mset (key, score) (mset (elems s))"
    using Insert_spec[OF assms(1-3) _ assms(5)] assms(4) by (auto simp: map_of_eq_None_iff)
  have "set (elems t) = insert (key, score) (set (elems s))" using arg_cong[OF t(3), of set_mset] by simp
  then have "map_of (elems t) = map_of ((key, score) # elems s)"
    using heap_inv_distinct[OF t(2)] heap_inv_distinct[OF assms(1)] assms(4)
    by (intro map_of_eqI_set) (auto simp: map_of_eq_None_iff)
  then show ?thesis using t length_add_mset[OF t(3)] by simp
qed

lemma Delete_map:
  assumes "heap_inv {} s" "dict s k = Some p"
  shows "\<exists>t. Heap_Delete H p s = (Inr (), t) \<and> heap_inv {k} t \<and>
    map_of (elems t) = (map_of (elems s))(k := None) \<and> Suc (length (elems t)) = length (elems s)"
proof -
  obtain i where i: "i < length (elems s)" "p = of_nat i" "fst (elems s ! i) = k"
    using dict_position[OF assms] by auto
  obtain t where t: "Heap_Delete H p s = (Inr (), t)" "heap_inv {k} t"
    "mset (elems t) = mset (elems s) - {#elems s ! i#}"
    using Delete_spec[OF assms(1) i(1)] i by auto
  then have "mset (elems s) = add_mset (elems s ! i) (mset (elems t))" using i(1) by simp
  from map_of_remove[OF this heap_inv_distinct[OF assms(1)]] length_add_mset[OF this] t i
  show ?thesis by simp
qed

lemma RemoveTop_map:
  assumes "heap_inv K s" "elems s \<noteq> []"
  shows "\<exists>e t. Heap_RemoveTop H s = (Inr (Some e), t) \<and> heap_inv K t \<and>
    map_of (elems s) (he_Key e) = Some (he_Score e) \<and>
    (\<forall>k sc. map_of (elems s) k = Some sc \<longrightarrow> \<not> hp_compare H sc (he_Score e)) \<and>
    map_of (elems t) = (map_of (elems s))(he_Key e := None) \<and> Suc (length (elems t)) = length (elems s)"
proof -
  obtain e t where t: "Heap_RemoveTop H s = (Inr (Some e), t)" "heap_inv K t" "kv e \<in> set (elems s)"
    "mset (elems t) = mset (elems s) - {#kv e#}" "\<forall>x \<in> set (elems s). \<not> lt x (kv e)"
    using RemoveTop_spec[OF assms] by blast
  have d: "distinct (map fst (elems s))" by (rule heap_inv_distinct[OF assms(1)])
  have m: "mset (elems s) = add_mset (kv e) (mset (elems t))" using t(3,4) by simp
  have "map_of (elems s) (he_Key e) = Some (he_Score e)"
    using map_of_is_SomeI[OF d, of "he_Key e" "he_Score e"] t(3) by (simp add: kv_def)
  moreover have "\<not> hp_compare H sc (he_Score e)" if "map_of (elems s) k = Some sc" for k sc
    using t(5) map_of_SomeD[OF that] by (auto simp: lt_def kv_def)
  ultimately show ?thesis
    using t(1,2) map_of_remove[OF m d] length_add_mset[OF m] by (auto simp: kv_def)
qed

end

section \<open>The heap in memory\<close>

text \<open>The array holds pointers.\<close>

record HeapMemory =
  mh_size :: uint64
  mh_array :: "HeapElement option list"
  mh_dict :: "bytes \<Rightarrow> uint64 option"

text \<open>A nil element is put into the array before \<^verbatim>\<open>x.Key\<close> panics.\<close>

definition mh_updateElement :: "uint64 \<Rightarrow> HeapElement option \<Rightarrow> (HeapMemory, unit) go" where
  "mh_updateElement index x =
     gbind (gmod (\<lambda>s. s\<lparr>mh_array := (if unat index < length (mh_array s) then (mh_array s)[unat index := x]
                                    else mh_array s @ [x])\<rparr>)) (\<lambda>_.
     deref x (\<lambda>x. gmod (\<lambda>s. s\<lparr>mh_dict := (mh_dict s)(he_Key x \<mapsto> index)\<rparr>)))"

definition mh_addElement :: "HeapElement \<Rightarrow> (HeapMemory, unit) go" where
  "mh_addElement x =
     gmod (\<lambda>s. s\<lparr>mh_array := mh_array s @ [Some x], mh_dict := (mh_dict s)(he_Key x \<mapsto> mh_size s),
                 mh_size := mh_size s + 1\<rparr>)"

definition mh_removeElement :: "(HeapMemory, HeapElement option) go" where
  "mh_removeElement =
     gbind (gget id) (\<lambda>s.
     if mh_size s = 0 then gret None
     else
       (let size = mh_size s - 1 in
        gbind (gmod (\<lambda>s. s\<lparr>mh_size := size\<rparr>)) (\<lambda>_.
        if unat size < length (mh_array s) then
          (let x = mh_array s ! unat size in
           gbind (gmod (\<lambda>s. s\<lparr>mh_array := take (unat size) (mh_array s)\<rparr>)) (\<lambda>_.
           deref x (\<lambda>e. gbind (gmod (\<lambda>s. s\<lparr>mh_dict := (mh_dict s)(he_Key e := None)\<rparr>)) (\<lambda>_. gret x))))
        else gpanic ''index out of range'')))"

definition mh_getElement :: "uint64 \<Rightarrow> (HeapMemory, HeapElement option) go" where
  "mh_getElement index =
     gget (\<lambda>s. if unat index \<ge> length (mh_array s) then None else mh_array s ! unat index)"

definition NewHeapMemory_ops :: "(uint64 \<Rightarrow> uint64 \<Rightarrow> bool) \<Rightarrow> HeapMemory HeapOps" where
  "NewHeapMemory_ops compare = \<lparr>
     hp_getElement = mh_getElement,
     hp_updateElement = mh_updateElement,
     hp_addElement = mh_addElement,
     hp_removeElement = mh_removeElement,
     hp_GetSize = mh_size,
     hp_compare = compare\<rparr>"

definition NewHeapMemory :: HeapMemory where
  "NewHeapMemory = \<lparr>mh_size = 0, mh_array = [], mh_dict = Map.empty\<rparr>"

definition NewMinMemoryHeap :: "HeapMemory HeapOps" where
  "NewMinMemoryHeap = NewHeapMemory_ops (\<lambda>a b. float64_less a b)"

definition NewMaxMemoryHeap :: "HeapMemory HeapOps" where
  "NewMaxMemoryHeap = NewHeapMemory_ops (\<lambda>a b. float64_less b a)"

definition HeapMemory_Reset :: "(HeapMemory, unit) go" where
  "HeapMemory_Reset = gmod (\<lambda>s. s\<lparr>mh_array := [], mh_dict := Map.empty, mh_size := 0\<rparr>)"

definition HeapMemory_DeleteByKey :: "HeapMemory HeapOps \<Rightarrow> bytes \<Rightarrow> (HeapMemory, unit) go" where
  "HeapMemory_DeleteByKey H key =
     gbind (gget (\<lambda>s. mh_dict s key)) (\<lambda>value.
     case value of
       None \<Rightarrow> gerr ''Key is not found''
     | Some v \<Rightarrow>
         gbind (Heap_Delete H v) (\<lambda>_.
         gmod (\<lambda>s. s\<lparr>mh_dict := (mh_dict s)(key := None)\<rparr>)))"

definition HeapMemory_Update :: "HeapMemory HeapOps \<Rightarrow> uint64 \<Rightarrow> bytes \<Rightarrow> (HeapMemory, unit) go" where
  "HeapMemory_Update H score key =
     gbind (gget (\<lambda>s. mh_dict s key)) (\<lambda>value.
     gbind (case value of None \<Rightarrow> gret () | Some v \<Rightarrow> Heap_Delete H v) (\<lambda>_.
     Heap_Insert H score key))"

text \<open>The elements the pointers lead to, when none is nil.\<close>

definition mh_items :: "HeapMemory \<Rightarrow> HeapElement list" where
  "mh_items s = map the (mh_array s)"

definition mh_elems :: "HeapMemory \<Rightarrow> (bytes \<times> uint64) list" where
  "mh_elems s = map kv (mh_items s)"

definition mh_wf :: "HeapMemory \<Rightarrow> bool" where
  "mh_wf s \<longleftrightarrow> mh_size s = of_nat (length (mh_array s)) \<and> length (mh_array s) < 2 ^ 63 \<and> None \<notin> set (mh_array s)"

lemma unat_index: "i < length xs \<Longrightarrow> length xs < 2 ^ 63 \<Longrightarrow> unat (of_nat i :: uint64) = i"
  by (simp add: unat_of_nat_uint64)

lemma mh_array_items:
  assumes "None \<notin> set (mh_array s)"
  shows "mh_array s = map Some (mh_items s)"
proof -
  have "Some (the x) = x" if "x \<in> set (mh_array s)" for x using assms that by (cases x) auto
  then show ?thesis unfolding mh_items_def by (simp add: map_idI)
qed

lemma mh_items_Some: "mh_array s = map Some xs \<Longrightarrow> mh_items s = xs"
  by (simp add: mh_items_def comp_def)

lemma mh_wf_Some: "mh_array s = map Some xs \<Longrightarrow> mh_wf s \<longleftrightarrow> mh_size s = of_nat (length xs) \<and> length xs < 2 ^ 63"
  by (auto simp: mh_wf_def)

lemma HeapMemory_storage: "heap_storage (NewHeapMemory_ops compare) mh_elems mh_dict mh_wf (\<lambda>_. True)"
proof
  fix s i and e :: HeapElement
  assume s: "mh_wf s"
  define xs where "xs = mh_items s"
  have ar: "mh_array s = map Some xs" using s mh_array_items[of s] by (simp add: mh_wf_def xs_def)
  have sz: "mh_size s = of_nat (length xs)" "length xs < 2 ^ 63" using s ar by (simp_all add: mh_wf_def)
  have el: "mh_elems s = map kv xs" by (simp add: mh_elems_def xs_def)
  show "hp_GetSize (NewHeapMemory_ops compare) s = of_nat (length (mh_elems s))" "length (mh_elems s) < 2 ^ 63"
    using sz by (simp_all add: NewHeapMemory_ops_def el)
  show "\<exists>e t. hp_getElement (NewHeapMemory_ops compare) (of_nat i) s = (Inr (Some e), t) \<and>
      kv e = mh_elems s ! i \<and> mh_wf t \<and> mh_elems t = mh_elems s \<and> mh_dict t = mh_dict s"
    if "i < length (mh_elems s)"
    using that s sz by (auto simp: NewHeapMemory_ops_def mh_getElement_def el ar unat_of_nat_uint64)
  show "\<exists>t. hp_updateElement (NewHeapMemory_ops compare) (of_nat i) (Some e) s = (Inr (), t) \<and> mh_wf t \<and>
      mh_elems t = (mh_elems s)[i := kv e] \<and> mh_dict t = (mh_dict s)(he_Key e \<mapsto> of_nat i)"
    if "i < length (mh_elems s)"
  proof -
    let ?t = "s\<lparr>mh_array := map Some (xs[i := e]), mh_dict := (mh_dict s)(he_Key e \<mapsto> of_nat i)\<rparr>"
    have "hp_updateElement (NewHeapMemory_ops compare) (of_nat i) (Some e) s = (Inr (), ?t)"
      using that sz by (simp add: NewHeapMemory_ops_def mh_updateElement_def el ar unat_of_nat_uint64 map_update)
    moreover have "mh_wf ?t" "mh_elems ?t = (mh_elems s)[i := kv e]"
      using sz mh_wf_Some[of ?t "xs[i := e]"] mh_items_Some[of ?t "xs[i := e]"] by (simp_all add: mh_elems_def xs_def map_update)
    ultimately show ?thesis by auto
  qed
  show "\<exists>t. hp_addElement (NewHeapMemory_ops compare) e s = (Inr (), t) \<and> mh_wf t \<and>
      mh_elems t = mh_elems s @ [kv e] \<and> mh_dict t = (mh_dict s)(he_Key e \<mapsto> of_nat (length (mh_elems s)))"
    if "Suc (length (mh_elems s)) < 2 ^ 63"
  proof -
    let ?t = "s\<lparr>mh_array := map Some (xs @ [e]), mh_dict := (mh_dict s)(he_Key e \<mapsto> mh_size s), mh_size := mh_size s + 1\<rparr>"
    have "hp_addElement (NewHeapMemory_ops compare) e s = (Inr (), ?t)"
      by (simp add: NewHeapMemory_ops_def mh_addElement_def ar)
    moreover have "mh_wf ?t" "mh_elems ?t = mh_elems s @ [kv e]"
      using that sz mh_wf_Some[of ?t "xs @ [e]"] mh_items_Some[of ?t "xs @ [e]"] by (simp_all add: mh_elems_def xs_def)
    ultimately show ?thesis using sz(1) el by auto
  qed
  show "\<exists>e t. hp_removeElement (NewHeapMemory_ops compare) s = (Inr (Some e), t) \<and> kv e = last (mh_elems s) \<and>
      mh_wf t \<and> mh_elems t = butlast (mh_elems s) \<and>
      mh_dict t = (mh_dict s)(fst (last (mh_elems s)) := None)"
    if "mh_elems s \<noteq> []"
  proof -
    let ?n = "length xs"
    have n: "0 < ?n" "xs \<noteq> []" using that by (auto simp: el)
    have u: "unat (mh_size s - 1) = ?n - 1" "mh_size s \<noteq> 0" "mh_size s - 1 = of_nat (?n - 1)"
      using sz n of_nat_diff_uint64[of ?n] of_nat_eq_uint64[of ?n 0] by (auto simp: unat_of_nat_uint64)
    have l: "xs ! (?n - 1) = last xs" "take (?n - 1) xs = butlast xs"
      using n by (simp_all add: last_conv_nth butlast_conv_take)
    let ?t = "s\<lparr>mh_size := of_nat (?n - 1), mh_array := map Some (butlast xs),
          mh_dict := (mh_dict s)(he_Key (last xs) := None)\<rparr>"
    have lt: "?n - 1 < ?n" using n by simp
    then have "mh_removeElement s = (Inr (Some (last xs)), ?t)"
      using u l by (simp add: mh_removeElement_def Let_def ar take_map)
    moreover have "mh_wf ?t" "mh_elems ?t = butlast (mh_elems s)"
      using n sz mh_wf_Some[of ?t "butlast xs"] mh_items_Some[of ?t "butlast xs"] by (simp_all add: mh_elems_def xs_def map_butlast)
    ultimately show ?thesis using n
      by (auto simp: NewHeapMemory_ops_def el last_map kv_def)
  qed
qed simp

lemma HeapMemory_min_ops: "ordered_heap_storage NewMinMemoryHeap mh_elems mh_dict mh_wf (\<lambda>_. True) (\<lambda>x. \<not> float64_isNaN x)"
  unfolding NewMinMemoryHeap_def
  by (intro ordered_heap_storage.intro HeapMemory_storage ordered_heap_storage_axioms.intro)
    (auto simp: NewHeapMemory_ops_def float64_less_def)

lemma HeapMemory_max_ops: "ordered_heap_storage NewMaxMemoryHeap mh_elems mh_dict mh_wf (\<lambda>_. True) (\<lambda>x. \<not> float64_isNaN x)"
  unfolding NewMaxMemoryHeap_def
  by (intro ordered_heap_storage.intro HeapMemory_storage ordered_heap_storage_axioms.intro)
    (auto simp: NewHeapMemory_ops_def float64_less_def)

interpretation min_mh: ordered_heap_storage NewMinMemoryHeap mh_elems mh_dict mh_wf "\<lambda>_. True"
  "\<lambda>x. \<not> float64_isNaN x"
  by (rule HeapMemory_min_ops)

interpretation max_mh: ordered_heap_storage NewMaxMemoryHeap mh_elems mh_dict mh_wf "\<lambda>_. True"
  "\<lambda>x. \<not> float64_isNaN x"
  by (rule HeapMemory_max_ops)

section \<open>The heap in memory as a priority queue\<close>

text \<open>The state every sequence of calls keeps: the size is the length of the array, the dictionary gives
  exactly the positions of the keys, no element compares below its parent, no score is a NaN.\<close>

definition mh_valid :: "(uint64 \<Rightarrow> uint64 \<Rightarrow> bool) \<Rightarrow> HeapMemory \<Rightarrow> bool" where
  "mh_valid compare s \<longleftrightarrow> mh_wf s \<and>
     (\<forall>i < length (mh_items s). mh_dict s (he_Key (mh_items s ! i)) = Some (of_nat i)) \<and>
     (\<forall>k. mh_dict s k \<noteq> None \<longrightarrow> k \<in> he_Key ` set (mh_items s)) \<and>
     (\<forall>i < length (mh_items s). 0 < i \<longrightarrow>
        \<not> compare (he_Score (mh_items s ! i)) (he_Score (mh_items s ! ((i - 1) div 2)))) \<and>
     (\<forall>e \<in> set (mh_items s). \<not> float64_isNaN (he_Score e))"

definition mh_abs :: "HeapMemory \<Rightarrow> bytes \<Rightarrow> uint64 option" where
  "mh_abs s = map_of (mh_elems s)"

datatype heap_request = CallUpdate uint64 bytes | CallDeleteByKey bytes | CallRemoveTop

fun heap_call :: "HeapMemory HeapOps \<Rightarrow> heap_request \<Rightarrow> (HeapMemory, HeapElement option) go" where
  "heap_call H (CallUpdate score key) = gbind (HeapMemory_Update H score key) (\<lambda>_. gret None)"
| "heap_call H (CallDeleteByKey key) = gbind (HeapMemory_DeleteByKey H key) (\<lambda>_. gret None)"
| "heap_call H CallRemoveTop = Heap_RemoveTop H"

text \<open>A sequence of calls; a panic unwinds the caller and ends it.\<close>

fun heap_calls :: "HeapMemory HeapOps \<Rightarrow> heap_request list \<Rightarrow> HeapMemory \<Rightarrow> HeapElement option result list \<times> HeapMemory"
where
  "heap_calls H [] s = ([], s)"
| "heap_calls H (c # cs) s =
     (case heap_call H c s of
        (Inl (Panic m), t) \<Rightarrow> ([Inl (Panic m)], t)
      | (r, t) \<Rightarrow> (case heap_calls H cs t of (rs, u) \<Rightarrow> (r # rs, u)))"

text \<open>The specification: a map from keys to scores.  \<^verbatim>\<open>RemoveTop\<close> takes some key of least score out of it.  On the
  empty map it panics, which ends the sequence without a map.\<close>

inductive pq_call :: "(uint64 \<Rightarrow> uint64 \<Rightarrow> bool) \<Rightarrow> heap_request \<Rightarrow> (bytes \<Rightarrow> uint64 option) \<Rightarrow>
    HeapElement option result \<Rightarrow> (bytes \<Rightarrow> uint64 option) \<Rightarrow> bool" where
  pq_update: "pq_call cmp (CallUpdate score key) m (Inr None) (m(key \<mapsto> score))"
| pq_delete: "m key = Some score \<Longrightarrow> pq_call cmp (CallDeleteByKey key) m (Inr None) (m(key := None))"
| pq_delete_missing: "m key = None \<Longrightarrow>
    pq_call cmp (CallDeleteByKey key) m (Inl (Error ''Key is not found'')) m"
| pq_top: "m (he_Key e) = Some (he_Score e) \<Longrightarrow> (\<And>k sc. m k = Some sc \<Longrightarrow> \<not> cmp sc (he_Score e)) \<Longrightarrow>
    pq_call cmp CallRemoveTop m (Inr (Some e)) (m(he_Key e := None))"

inductive pq_calls :: "(uint64 \<Rightarrow> uint64 \<Rightarrow> bool) \<Rightarrow> heap_request list \<Rightarrow> (bytes \<Rightarrow> uint64 option) \<Rightarrow>
    HeapElement option result list \<Rightarrow> (bytes \<Rightarrow> uint64 option) option \<Rightarrow> bool" for cmp where
  pq_nil: "pq_calls cmp [] m [] (Some m)"
| pq_panic: "pq_calls cmp (CallRemoveTop # cs) Map.empty
    [Inl (Panic ''invalid memory address or nil pointer dereference'')] None"
| pq_cons: "pq_call cmp c m r m' \<Longrightarrow> pq_calls cmp cs m' rs m'' \<Longrightarrow> pq_calls cmp (c # cs) m (r # rs) m''"

text \<open>How a heap in memory stands for the outcome.  After the panic the array holds a nil pointer that
  \<^verbatim>\<open>size\<close> does not count.\<close>

definition mh_outcome :: "(uint64 \<Rightarrow> uint64 \<Rightarrow> bool) \<Rightarrow> HeapMemory \<Rightarrow> (bytes \<Rightarrow> uint64 option) option \<Rightarrow> bool" where
  "mh_outcome compare s out \<longleftrightarrow>
     (case out of Some m \<Rightarrow> mh_valid compare s \<and> mh_abs s = m | None \<Rightarrow> mh_array s = [None] \<and> mh_size s = 0)"

fun call_isNaN :: "heap_request \<Rightarrow> bool" where
  "call_isNaN (CallUpdate score key) = float64_isNaN score"
| "call_isNaN c = False"

locale memory_heap =
  fixes compare :: "uint64 \<Rightarrow> uint64 \<Rightarrow> bool"
  assumes c_irrefl: "\<not> compare a a"
    and c_asym: "\<not> float64_isNaN a \<Longrightarrow> \<not> float64_isNaN b \<Longrightarrow> compare a b \<Longrightarrow> \<not> compare b a"
    and c_neg_trans: "\<not> float64_isNaN a \<Longrightarrow> \<not> float64_isNaN b \<Longrightarrow> \<not> float64_isNaN c \<Longrightarrow>
      \<not> compare a b \<Longrightarrow> \<not> compare b c \<Longrightarrow> \<not> compare a c"

sublocale memory_heap \<subseteq> mh: ordered_heap_storage "NewHeapMemory_ops compare" mh_elems mh_dict mh_wf "\<lambda>_. True"
  "\<lambda>x. \<not> float64_isNaN x"
  by (intro ordered_heap_storage.intro HeapMemory_storage ordered_heap_storage_axioms.intro)
    (auto simp: NewHeapMemory_ops_def c_irrefl dest: c_asym c_neg_trans)

context memory_heap
begin

abbreviation H where "H \<equiv> NewHeapMemory_ops compare"

lemma ops_compare: "hp_compare H = compare"
  by (simp add: NewHeapMemory_ops_def)

lemma mh_valid_iff: "mh_valid compare s \<longleftrightarrow> mh.heap_inv {} s"
proof -
  have h: "hparent i < length xs" if "i < length xs" for i and xs :: "HeapElement list"
    using hparent_le[of i] that by simp
  have "mh.ord.is_heap (mh_elems s) \<longleftrightarrow> (\<forall>i < length (mh_items s). 0 < i \<longrightarrow>
        \<not> compare (he_Score (mh_items s ! i)) (he_Score (mh_items s ! ((i - 1) div 2))))"
    using h[of _ "mh_items s"] unfolding mh.ord.is_heap_def mh.ord.heap_at_def mh.lt_def ops_compare
    by (auto simp: mh_elems_def kv_def hparent_def)
  then show ?thesis
    unfolding mh_valid_def mh.heap_inv_def mh.good_def mh.dict_exact_def
    by (auto simp: mh_elems_def kv_def image_image)
qed

lemma set_dict [simp]: "mh_elems (s\<lparr>mh_dict := d\<rparr>) = mh_elems s" "mh_wf (s\<lparr>mh_dict := d\<rparr>) = mh_wf s"
  by (simp_all add: mh_elems_def mh_items_def mh_wf_def)

lemma heap_inv_forget:
  assumes "mh.heap_inv {k} s" "map_of (mh_elems s) k = None"
  shows "mh.heap_inv {} (s\<lparr>mh_dict := (mh_dict s)(k := None)\<rparr>)"
  using assms unfolding mh.heap_inv_def mh.good_def mh.dict_exact_def
  by (auto simp: map_of_eq_None_iff)

lemma DeleteByKey_call:
  assumes "mh.heap_inv {} s"
  shows "\<exists>r t. heap_call H (CallDeleteByKey key) s = (r, t) \<and> mh.heap_inv {} t \<and>
    pq_call compare (CallDeleteByKey key) (mh_abs s) r (mh_abs t) \<and> length (mh_elems t) \<le> length (mh_elems s)"
proof (cases "mh_dict s key")
  case None
  then have "mh_abs s key = None" using mh.heap_inv_keys[OF assms] by (simp add: mh_abs_def)
  then show ?thesis using None assms
    by (auto simp: HeapMemory_DeleteByKey_def gbind_def intro!: pq_delete_missing)
next
  case (Some p)
  obtain t where t: "Heap_Delete H p s = (Inr (), t)" "mh.heap_inv {key} t"
    "map_of (mh_elems t) = (map_of (mh_elems s))(key := None)" "Suc (length (mh_elems t)) = length (mh_elems s)"
    using mh.Delete_map[OF assms Some] by blast
  let ?t = "t\<lparr>mh_dict := (mh_dict t)(key := None)\<rparr>"
  have "heap_call H (CallDeleteByKey key) s = (Inr None, ?t)"
    using t(1) Some by (simp add: HeapMemory_DeleteByKey_def gbind_Inr gbind_assoc)
  moreover have "mh.heap_inv {} ?t" using heap_inv_forget[OF t(2)] t(3) by simp
  moreover obtain sc where "mh_abs s key = Some sc"
    using mh.heap_inv_keys[OF assms, of key] Some by (auto simp: mh_abs_def)
  ultimately show ?thesis using t(3,4) pq_delete[of "mh_abs s" key sc] by (auto simp: mh_abs_def)
qed

lemma Update_call:
  assumes "mh.heap_inv {} s" "\<not> float64_isNaN score" "Suc (length (mh_elems s)) < 2 ^ 63"
  shows "\<exists>r t. heap_call H (CallUpdate score key) s = (r, t) \<and> mh.heap_inv {} t \<and>
    pq_call compare (CallUpdate score key) (mh_abs s) r (mh_abs t) \<and> length (mh_elems t) \<le> Suc (length (mh_elems s))"
proof -
  obtain t1 where 1: "(case mh_dict s key of None \<Rightarrow> gret () | Some v \<Rightarrow> Heap_Delete H v) s = (Inr (), t1)"
    "mh.heap_inv {key} t1" "map_of (mh_elems t1) = (map_of (mh_elems s))(key := None)"
    "length (mh_elems t1) \<le> length (mh_elems s)"
  proof (cases "mh_dict s key")
    case None
    then have "map_of (mh_elems s) key = None" using mh.heap_inv_keys[OF assms(1)] by simp
    then have "map_of (mh_elems s) = (map_of (mh_elems s))(key := None)" by auto
    moreover have "mh.heap_inv {key} s"
      using assms(1) unfolding mh.heap_inv_def mh.good_def mh.dict_exact_def by auto
    ultimately show thesis using that None by simp
  next
    case (Some p)
    then show thesis using that mh.Delete_map[OF assms(1) Some] by auto
  qed
  obtain t where t: "Heap_Insert H score key t1 = (Inr (), t)" "mh.heap_inv {key} t"
    "map_of (mh_elems t) = (map_of (mh_elems t1))(key \<mapsto> score)" "length (mh_elems t) = Suc (length (mh_elems t1))"
    using mh.Insert_map[OF 1(2) _ assms(2), of key] 1(3,4) assms(3) by auto
  have "mh.heap_inv {} t" using mh.heap_inv_drop[OF t(2)] t(3) by simp
  moreover have "heap_call H (CallUpdate score key) s = (Inr None, t)"
    using 1(1) t(1) by (simp add: HeapMemory_Update_def gbind_Inr gbind_assoc)
  moreover have "mh_abs t = (mh_abs s)(key \<mapsto> score)" using t(3) 1(3) by (simp add: mh_abs_def)
  ultimately show ?thesis using t(4) 1(4) pq_update by auto
qed

lemma RemoveTop_empty:
  assumes "mh.heap_inv {} s" "mh_elems s = []"
  shows "\<exists>t. heap_call H CallRemoveTop s = (Inl (Panic ''invalid memory address or nil pointer dereference''), t) \<and>
    mh_array t = [None] \<and> mh_size t = 0"
proof -
  have "mh_array s = []" "mh_size s = 0"
    using assms unfolding mh.heap_inv_def mh.good_def by (simp_all add: mh_elems_def mh_items_def mh_wf_def)
  then show ?thesis
    by (simp add: Heap_RemoveTop_def heap_swap_def NewHeapMemory_ops_def mh_getElement_def mh_updateElement_def gbind_def)
qed

lemma RemoveTop_call:
  assumes "mh.heap_inv {} s" "mh_elems s \<noteq> []"
  shows "\<exists>r t. heap_call H CallRemoveTop s = (Inr r, t) \<and> mh.heap_inv {} t \<and>
    pq_call compare CallRemoveTop (mh_abs s) (Inr r) (mh_abs t) \<and> length (mh_elems t) \<le> length (mh_elems s)"
proof -
  obtain e t where t: "Heap_RemoveTop H s = (Inr (Some e), t)" "mh.heap_inv {} t"
    "mh_abs s (he_Key e) = Some (he_Score e)"
    "\<forall>k sc. mh_abs s k = Some sc \<longrightarrow> \<not> compare sc (he_Score e)"
    "mh_abs t = (mh_abs s)(he_Key e := None)" "Suc (length (mh_elems t)) = length (mh_elems s)"
    using mh.RemoveTop_map[OF assms] unfolding mh_abs_def ops_compare by blast
  then have "pq_call compare CallRemoveTop (mh_abs s) (Inr (Some e)) (mh_abs t)" by (auto intro: pq_top)
  then show ?thesis using t by auto
qed

lemma call_refines:
  assumes "mh.heap_inv {} s" "\<not> call_isNaN c" "Suc (length (mh_elems s)) < 2 ^ 63" "c = CallRemoveTop \<Longrightarrow> mh_elems s \<noteq> []"
  shows "\<exists>r t. heap_call H c s = (r, t) \<and> mh.heap_inv {} t \<and> pq_call compare c (mh_abs s) r (mh_abs t) \<and>
    length (mh_elems t) \<le> Suc (length (mh_elems s))"
proof (cases c)
  case (CallUpdate score key)
  then show ?thesis using Update_call[OF assms(1) _ assms(3)] assms(2) by simp
next
  case (CallDeleteByKey key)
  then show ?thesis using DeleteByKey_call[OF assms(1), of key] by (metis le_SucI)
next
  case CallRemoveTop
  then show ?thesis using RemoveTop_call[OF assms(1,4)] by (metis le_SucI)
qed

lemma pq_call_no_panic: "pq_call compare c m r m' \<Longrightarrow> r \<noteq> Inl (Panic msg)"
  by (auto elim: pq_call.cases)

lemma calls_refine:
  assumes "mh.heap_inv {} s" "\<not> list_ex call_isNaN cs" "length (mh_elems s) + length cs < 2 ^ 63"
  shows "\<exists>rs t out. heap_calls H cs s = (rs, t) \<and> pq_calls compare cs (mh_abs s) rs out \<and> mh_outcome compare t out"
  using assms
proof (induction cs arbitrary: s)
  case Nil
  then show ?case by (auto simp: mh_outcome_def mh_valid_iff intro!: exI[of _ "Some (mh_abs s)"] pq_nil)
next
  case (Cons c cs)
  show ?case
  proof (cases "c = CallRemoveTop \<and> mh_elems s = []")
    case True
    then obtain t where t: "heap_call H c s = (Inl (Panic ''invalid memory address or nil pointer dereference''), t)"
      "mh_array t = [None]" "mh_size t = 0"
      using RemoveTop_empty[OF Cons.prems(1)] by auto
    have "mh_abs s = Map.empty" using True by (simp add: mh_abs_def)
    then show ?thesis using t True by (auto simp: mh_outcome_def intro!: exI[of _ None] pq_panic)
  next
    case False
    then obtain r t where t: "heap_call H c s = (r, t)" "mh.heap_inv {} t" "pq_call compare c (mh_abs s) r (mh_abs t)"
      "length (mh_elems t) \<le> Suc (length (mh_elems s))"
      using call_refines[of s c] Cons.prems by auto
    then obtain rs u out where u: "heap_calls H cs t = (rs, u)" "pq_calls compare cs (mh_abs t) rs out" "mh_outcome compare u out"
      using Cons.IH[of t] Cons.prems by auto
    have "heap_calls H (c # cs) s = (r # rs, u)"
      using t(1) u(1) pq_call_no_panic[OF t(3)] by (auto split: sum.split go_error.split)
    then show ?thesis using pq_cons[OF t(3) u(2)] u(3) by blast
  qed
qed

lemma NewHeapMemory_valid: "mh.heap_inv {} NewHeapMemory" "mh_abs NewHeapMemory = Map.empty" "mh_elems NewHeapMemory = []"
  by (auto simp: mh_valid_iff[symmetric] mh_valid_def mh_wf_def NewHeapMemory_def mh_abs_def mh_elems_def mh_items_def)

lemma run_refines:
  assumes "\<not> list_ex call_isNaN cs" "length cs < 2 ^ 63" "heap_calls H cs NewHeapMemory = (rs, t)"
  shows "\<exists>out. pq_calls compare cs Map.empty rs out \<and> mh_outcome compare t out"
  using calls_refine[OF NewHeapMemory_valid(1) assms(1)] assms(2,3) NewHeapMemory_valid(2,3) by auto

end

interpretation min_heap: memory_heap "\<lambda>a b. float64_less a b"
  by unfold_locales (auto simp: float64_less_def)

interpretation max_heap: memory_heap "\<lambda>a b. float64_less b a"
  by unfold_locales (auto simp: float64_less_def)

text \<open>C6: Every sequence of \<^verbatim>\<open>Update\<close>, \<^verbatim>\<open>DeleteByKey\<close> and \<^verbatim>\<open>RemoveTop\<close> calls on a new min heap in memory
  behaves as a map from keys to scores: \<^verbatim>\<open>RemoveTop\<close> returns an element of least score, an unknown
  key is refused, every call returns (the loops end), and the array stays a heap whose dictionary holds
  exactly the positions of the keys.  Only \<^verbatim>\<open>RemoveTop\<close> on the empty heap panics, and it leaves a nil pointer in
  the array behind.  The scores are not NaN.\<close>

theorem min_memory_heap_refines:
  assumes "\<not> list_ex call_isNaN cs" "length cs < 2 ^ 63"
    and "heap_calls NewMinMemoryHeap cs NewHeapMemory = (rs, t)"
  shows "\<exists>out. pq_calls float64_less cs Map.empty rs out \<and> mh_outcome float64_less t out"
  using min_heap.run_refines[OF assms(1,2)] assms(3) by (simp add: NewMinMemoryHeap_def)

theorem min_memory_heap_refines_witness:
  "let cs = [CallUpdate 7 [1], CallUpdate 5 [2], CallDeleteByKey [3], CallRemoveTop] in
   fst (heap_calls NewMinMemoryHeap cs NewHeapMemory) =
     [Inr None, Inr None, Inl (Error ''Key is not found''), Inr (Some \<lparr>he_HashmapKey = [], he_Key = [2], he_Score = 5\<rparr>)] \<and>
   (\<exists>out. pq_calls float64_less cs Map.empty (fst (heap_calls NewMinMemoryHeap cs NewHeapMemory)) out \<and>
      mh_outcome float64_less (snd (heap_calls NewMinMemoryHeap cs NewHeapMemory)) out) \<and>
   fst (heap_calls NewMinMemoryHeap [CallRemoveTop, CallUpdate 5 [2]] NewHeapMemory) =
     [Inl (Panic ''invalid memory address or nil pointer dereference'')] \<and>
   mh_array (snd (heap_calls NewMinMemoryHeap [CallRemoveTop, CallUpdate 5 [2]] NewHeapMemory)) = [None]"
proof -
  let ?cs = "[CallUpdate 7 [1], CallUpdate 5 [2], CallDeleteByKey [3], CallRemoveTop]"
  have "fst (heap_calls NewMinMemoryHeap ?cs NewHeapMemory) =
     [Inr None, Inr None, Inl (Error ''Key is not found''), Inr (Some \<lparr>he_HashmapKey = [], he_Key = [2], he_Score = 5\<rparr>)]"
    by code_simp
  moreover have "fst (heap_calls NewMinMemoryHeap [CallRemoveTop, CallUpdate 5 [2]] NewHeapMemory) =
     [Inl (Panic ''invalid memory address or nil pointer dereference'')]"
    "mh_array (snd (heap_calls NewMinMemoryHeap [CallRemoveTop, CallUpdate 5 [2]] NewHeapMemory)) = [None]"
    using min_heap.RemoveTop_empty[OF min_heap.NewHeapMemory_valid(1,3)] by (auto simp: NewMinMemoryHeap_def)
  moreover have "\<not> list_ex call_isNaN ?cs" "length ?cs < 2 ^ 63" by (simp_all add: float64_isNaN_def)
  note min_memory_heap_refines[OF this prod.collapse[symmetric]]
  ultimately show ?thesis unfolding Let_def by blast
qed

end
