(* ===== verification/Store_DB.thy ===== *)
theory Store_DB
  imports Go_Prelude
begin

text \<open>
  The key-value store.  \<open>StoreTx\<close> is the Go interface \<^verbatim>\<open>StoreDBTransactionInterface\<close> as a record of
  operations over the state \<open>'x\<close> of a transaction; a nil slice is \<open>None\<close>.  The locale
  \<open>store_tx\<close> is the contract its clients rely on: every operation acts on a map from keys to
  values.  The in-memory store of \<^verbatim>\<open>store/store_db/store_db_memory\<close> implements it with a local
  write cache in front of the shared map, and the interpretation \<open>mem_tx\<close> proves the contract.
\<close>

section \<open>The transaction interface\<close>

record 'x StoreTx =
  tx_Put :: "bytes \<Rightarrow> bytes option \<Rightarrow> ('x, unit) go"
  tx_Get :: "bytes \<Rightarrow> ('x, bytes option) go"
  tx_Exists :: "bytes \<Rightarrow> ('x, bool) go"
  tx_Delete :: "bytes \<Rightarrow> ('x, unit) go"
  tx_IsWritable :: "'x \<Rightarrow> bool"

locale store_tx =
  fixes ops :: "'x StoreTx"
    and view :: "'x \<Rightarrow> bytes \<Rightarrow> bytes option"
  assumes Get_result: "fst (tx_Get ops k x) = Inr (view x k)"
    and Get_view: "view (snd (tx_Get ops k x)) = view x"
    and Get_writable: "tx_IsWritable ops (snd (tx_Get ops k x)) = tx_IsWritable ops x"
    and Exists_result: "fst (tx_Exists ops k x) = Inr (view x k \<noteq> None)"
    and Exists_view: "view (snd (tx_Exists ops k x)) = view x"
    and Exists_writable: "tx_IsWritable ops (snd (tx_Exists ops k x)) = tx_IsWritable ops x"
    and Put_result: "tx_IsWritable ops x \<Longrightarrow> fst (tx_Put ops k v x) = Inr ()"
    and Put_view: "tx_IsWritable ops x \<Longrightarrow> view (snd (tx_Put ops k v x)) = (view x)(k := v)"
    and Put_writable: "tx_IsWritable ops (snd (tx_Put ops k v x)) = tx_IsWritable ops x"
    and Delete_result: "tx_IsWritable ops x \<Longrightarrow> fst (tx_Delete ops k x) = Inr ()"
    and Delete_view: "tx_IsWritable ops x \<Longrightarrow> view (snd (tx_Delete ops k x)) = (view x)(k := None)"
    and Delete_writable: "tx_IsWritable ops (snd (tx_Delete ops k x)) = tx_IsWritable ops x"
begin

lemmas tx_laws =
  Get_result Get_view Get_writable Exists_result Exists_view Exists_writable
  Put_result Put_view Put_writable Delete_result Delete_view Delete_writable

text \<open>The same laws in the form in which a client's statement sequence is unfolded.\<close>

lemma Get_run:
  obtains x' where "tx_Get ops k x = (Inr (view x k), x')" and "view x' = view x"
    and "tx_IsWritable ops x' = tx_IsWritable ops x"
  using Get_result Get_view Get_writable by (metis surjective_pairing)

lemma Exists_run:
  obtains x' where "tx_Exists ops k x = (Inr (view x k \<noteq> None), x')" and "view x' = view x"
    and "tx_IsWritable ops x' = tx_IsWritable ops x"
  using Exists_result Exists_view Exists_writable by (metis surjective_pairing)

lemma Put_run:
  assumes "tx_IsWritable ops x"
  obtains x' where "tx_Put ops k v x = (Inr (), x')" and "view x' = (view x)(k := v)"
    and "tx_IsWritable ops x'"
  using assms Put_result Put_view Put_writable by (metis surjective_pairing)

lemma Delete_run:
  assumes "tx_IsWritable ops x"
  obtains x' where "tx_Delete ops k x = (Inr (), x')" and "view x' = (view x)(k := None)"
    and "tx_IsWritable ops x'"
  using assms Delete_result Delete_view Delete_writable by (metis surjective_pairing)

end

section \<open>The in-memory transaction\<close>

datatype tx_operation = Op_put | Op_get | Op_del

record StoreDBMemoryTransactionData =
  td_value :: "bytes option"
  td_operation :: tx_operation

record StoreDBMemoryTransaction =
  mt_store :: "bytes \<Rightarrow> bytes option"
  mt_write :: bool
  mt_local :: "bytes \<rightharpoonup> StoreDBMemoryTransactionData"

definition mem_IsWritable :: "StoreDBMemoryTransaction \<Rightarrow> bool" where
  "mem_IsWritable tx = mt_write tx"

definition mem_store_local ::
  "bytes \<Rightarrow> bytes option \<Rightarrow> tx_operation \<Rightarrow> StoreDBMemoryTransaction \<Rightarrow> StoreDBMemoryTransaction" where
  "mem_store_local key v oper tx =
     tx\<lparr>mt_local := (mt_local tx)(key \<mapsto> \<lparr>td_value = v, td_operation = oper\<rparr>)\<rparr>"

definition mem_Put :: "bytes \<Rightarrow> bytes option \<Rightarrow> (StoreDBMemoryTransaction, unit) go" where
  "mem_Put key v =
     gbind (gget mt_write) (\<lambda>w.
     if \<not> w then gpanic ''Transaction is not writeable''
     else gmod (mem_store_local key v Op_put))"

definition mem_Get :: "bytes \<Rightarrow> (StoreDBMemoryTransaction, bytes option) go" where
  "mem_Get key = (\<lambda>tx.
     case mt_local tx key of
       Some data \<Rightarrow> if td_operation data = Op_del then (Inr None, tx) else (Inr (td_value data), tx)
     | None \<Rightarrow> let resp = mt_store tx key in (Inr resp, mem_store_local key resp Op_get tx))"

definition mem_Exists :: "bytes \<Rightarrow> (StoreDBMemoryTransaction, bool) go" where
  "mem_Exists key = gbind (mem_Get key) (\<lambda>data. gret (data \<noteq> None))"

definition mem_Delete :: "bytes \<Rightarrow> (StoreDBMemoryTransaction, unit) go" where
  "mem_Delete key =
     gbind (gget mt_write) (\<lambda>w.
     if \<not> w then gpanic ''Transaction is not writeable''
     else gmod (mem_store_local key None Op_del))"

text \<open>\<^verbatim>\<open>Range\<close> visits the entries of the local map in an order Go does not fix: \<open>ord\<close> is the sequence
  of keys it visits.\<close>

fun writeTx_range :: "bytes list \<Rightarrow> StoreDBMemoryTransaction \<Rightarrow> StoreDBMemoryTransaction" where
  "writeTx_range [] tx = tx"
| "writeTx_range (key # ks) tx =
     writeTx_range ks
       (case mt_local tx key of
          None \<Rightarrow> tx
        | Some data \<Rightarrow>
            if td_operation data = Op_del then tx\<lparr>mt_store := (mt_store tx)(key := None)\<rparr>
            else if td_operation data = Op_put
              then tx\<lparr>mt_store := (mt_store tx)(key := td_value data)\<rparr>
            else tx)"

definition writeTx :: "bytes list \<Rightarrow> (StoreDBMemoryTransaction, unit) go" where
  "writeTx ord =
     gbind (gget mt_write) (\<lambda>w.
     gbind (gcheck (\<not> w) ''Transaction is not writeable'') (\<lambda>_.
     gmod (writeTx_range ord)))"

section \<open>The in-memory database\<close>

definition mem_View ::
  "(StoreDBMemoryTransaction, unit) go \<Rightarrow> (bytes \<Rightarrow> bytes option, unit) go" where
  "mem_View callback = (\<lambda>store.
     case callback \<lparr>mt_store = store, mt_write = False, mt_local = Map.empty\<rparr> of
       (r, tx) \<Rightarrow> (r, mt_store tx))"

definition mem_Update ::
  "(StoreDBMemoryTransaction \<Rightarrow> bytes list) \<Rightarrow> (StoreDBMemoryTransaction, unit) go \<Rightarrow>
   (bytes \<Rightarrow> bytes option, unit) go" where
  "mem_Update ord callback = (\<lambda>store.
     case callback \<lparr>mt_store = store, mt_write = True, mt_local = Map.empty\<rparr> of
       (Inl (Error m), tx) \<Rightarrow> (Inr (), mt_store tx)
     | (Inl e, tx) \<Rightarrow> (Inl e, mt_store tx)
     | (Inr u, tx) \<Rightarrow> (case writeTx (ord tx) tx of
          (Inl e, tx') \<Rightarrow> (Inl e, mt_store tx')
        | (Inr u', tx') \<Rightarrow> (Inr (), mt_store tx')))"

section \<open>The contract holds\<close>

definition mem_ops :: "StoreDBMemoryTransaction StoreTx" where
  "mem_ops = \<lparr>tx_Put = mem_Put, tx_Get = mem_Get, tx_Exists = mem_Exists, tx_Delete = mem_Delete,
     tx_IsWritable = mem_IsWritable\<rparr>"

text \<open>What a transaction sees: its own writes, then the shared map.\<close>

definition mem_view :: "StoreDBMemoryTransaction \<Rightarrow> bytes \<Rightarrow> bytes option" where
  "mem_view tx key =
     (case mt_local tx key of
        None \<Rightarrow> mt_store tx key
      | Some data \<Rightarrow> if td_operation data = Op_del then None else td_value data)"

lemma mem_view_store_local:
  "mem_view (mem_store_local key v oper tx) =
     (mem_view tx)(key := if oper = Op_del then None else v)"
  by (rule ext) (simp add: mem_view_def mem_store_local_def split: option.split)

lemma mem_Get_run:
  "fst (mem_Get k tx) = Inr (mem_view tx k)"
  "mem_view (snd (mem_Get k tx)) = mem_view tx"
  "mt_write (snd (mem_Get k tx)) = mt_write tx"
  "mt_store (snd (mem_Get k tx)) = mt_store tx"
  by (auto simp: mem_Get_def Let_def mem_view_store_local fun_eq_iff mem_view_def mem_store_local_def
      split: option.splits)

lemma mem_Exists_run:
  "fst (mem_Exists k tx) = Inr (mem_view tx k \<noteq> None)"
  "snd (mem_Exists k tx) = snd (mem_Get k tx)"
  using mem_Get_run(1)[of k tx] by (cases "mem_Get k tx"; simp add: mem_Exists_def gbind_def)+

interpretation mem_tx: store_tx mem_ops mem_view
  by unfold_locales
    (simp_all add: mem_ops_def mem_Get_run mem_Exists_run mem_Put_def mem_Delete_def
      mem_IsWritable_def mem_view_store_local, simp_all add: mem_store_local_def)

section \<open>What a transaction writes back\<close>

text \<open>A cached read agrees with the shared map: the local entries of a transaction that started
  empty never shadow the store with anything but their own writes.\<close>

definition mem_cache_ok :: "StoreDBMemoryTransaction \<Rightarrow> bool" where
  "mem_cache_ok tx \<longleftrightarrow>
     (\<forall>k d. mt_local tx k = Some d \<longrightarrow> td_operation d = Op_get \<longrightarrow> td_value d = mt_store tx k)"

lemma mem_cache_ok_ops:
  "mem_cache_ok tx \<Longrightarrow> mem_cache_ok (snd (mem_Get k tx))"
  "mem_cache_ok tx \<Longrightarrow> mem_cache_ok (snd (mem_Exists k tx))"
  "mem_cache_ok tx \<Longrightarrow> mem_cache_ok (snd (mem_Put k v tx))"
  "mem_cache_ok tx \<Longrightarrow> mem_cache_ok (snd (mem_Delete k tx))"
  by (auto simp: mem_cache_ok_def mem_Exists_run mem_Get_def mem_Put_def mem_Delete_def Let_def
      mem_store_local_def split: option.splits)

lemma mt_local_writeTx_range [simp]: "mt_local (writeTx_range ks tx) = mt_local tx"
  by (induction ks arbitrary: tx) (simp_all split: option.splits)

lemma mt_store_writeTx_range:
  "mt_store (writeTx_range ks tx) k =
     (case mt_local tx k of
        Some d \<Rightarrow> if k \<in> set ks \<and> td_operation d \<noteq> Op_get then mem_view tx k else mt_store tx k
      | None \<Rightarrow> mt_store tx k)"
proof (induction ks arbitrary: tx)
  case Nil
  then show ?case by (simp split: option.splits)
next
  case (Cons key ks)
  then show ?case
    using tx_operation.exhaust
    by (auto simp: mem_view_def split: option.splits)
qed

lemma writeTx_view:
  assumes "mem_cache_ok tx" and "set ord = dom (mt_local tx)"
  shows "mt_store (writeTx_range ord tx) = mem_view tx"
proof (rule ext)
  fix k
  show "mt_store (writeTx_range ord tx) k = mem_view tx k"
    using assms by (auto simp: mt_store_writeTx_range mem_view_def mem_cache_ok_def split: option.splits)
qed

end
