(* ===== verification/Hash_Map.thy ===== *)
theory Hash_Map
  imports Buffers Store_DB "HOL-Library.AList"
begin

text \<open>
  The transactional hash map of \<^verbatim>\<open>store/hash_map\<close>, the container in which every consensus object of
  the chain lives.  It keeps the uncommitted \<open>Changes\<close> of the running block in front of the
  \<open>Committed\<close> elements of the running database transaction, in front of the database itself.

  Go maps are association lists with distinct keys.  Where the code ranges over a map, the order
  of the visit is an argument (\<open>ord\<close>) of the model, and the theorems hold for every order.  The
  entries of \<open>Changes\<close> and \<open>changesSize\<close> are pointers to shared cells, and the code relies on the
  sharing; the cells are an explicit store \<open>hm_cells\<close>, with \<open>hm_next\<close> the next unused address.
  The element type \<open>'t\<close> is a pointer type in Go: nil is \<open>None\<close>.  A method that writes through its
  receiver returns the new element.
\<close>

section \<open>Elements and entries\<close>

text \<open>\<^verbatim>\<open>HashMapElementSerializableInterface\<close>.  \<^verbatim>\<open>Serialize\<close> gives the writes it makes, or the panic it ends with.\<close>

record 't ElemOps =
  el_Validate :: "'t \<Rightarrow> unit result"
  el_Serialize :: "'t \<Rightarrow> (BufferWriter \<Rightarrow> BufferWriter) result"
  el_Deserialize :: "'t \<Rightarrow> (BufferReader, 't) go"
  el_SetIndex :: "uint64 \<Rightarrow> 't \<Rightarrow> 't"
  el_SetKey :: "bytes \<Rightarrow> 't \<Rightarrow> 't"
  el_GetIndex :: "'t \<Rightarrow> uint64"
  el_IsDeletable :: "'t \<Rightarrow> bool"

datatype status = St_none | St_view | St_update | St_del

record 't ChangesMapElement =
  ch_Element :: "'t option"
  ch_Status :: status
  ch_index :: uint64
  ch_indexProcess :: bool

record 't CommittedMapElement =
  cm_Element :: "'t option"
  cm_Status :: status
  cm_Stored :: status
  cm_serialized :: "bytes option"
  cm_size :: nat

definition new_change :: "'t ChangesMapElement" where
  "new_change = \<lparr>ch_Element = None, ch_Status = St_none, ch_index = 0, ch_indexProcess = False\<rparr>"

definition new_committed :: "'t CommittedMapElement" where
  "new_committed = \<lparr>cm_Element = None, cm_Status = St_none, cm_Stored = St_none,
     cm_serialized = None, cm_size = 0\<rparr>"

record ('t, 'x) HashMap =
  hm_name :: bytes
  hm_Count :: uint64
  hm_countCommitted :: uint64
  hm_Changes :: "(bytes \<times> nat) list"
  hm_changed :: bool
  hm_changesSize :: "(bytes \<times> nat) list"
  hm_Committed :: "(bytes \<times> 't CommittedMapElement) list"
  hm_keyLength :: nat
  hm_CreateObject :: "bytes \<Rightarrow> uint64 \<Rightarrow> 't result"
  hm_DeletedEvent :: "(bytes \<Rightarrow> ('x, unit) go) option"
  hm_StoredEvent :: "(bytes \<Rightarrow> 't CommittedMapElement \<Rightarrow> uint64 \<Rightarrow> ('x, unit) go) option"
  hm_Indexable :: bool
  hm_cells :: "nat \<Rightarrow> 't ChangesMapElement"
  hm_next :: nat

text \<open>A hash map method runs on the map and on the state of its transaction \<^verbatim>\<open>Tx\<close>.\<close>

type_synonym ('t, 'x, 'a) hm_go = "(('t, 'x) HashMap \<times> 'x, 'a) go"

definition on_tx :: "('x, 'a) go \<Rightarrow> ('t, 'x, 'a) hm_go" where
  "on_tx m = (\<lambda>(h, x). case m x of (r, x') \<Rightarrow> (r, (h, x')))"

definition on_hm :: "(('t, 'x) HashMap \<Rightarrow> ('t, 'x) HashMap) \<Rightarrow> ('t, 'x, unit) hm_go" where
  "on_hm f = gmod (\<lambda>(h, x). (f h, x))"

definition get_hm :: "(('t, 'x) HashMap \<Rightarrow> 'a) \<Rightarrow> ('t, 'x, 'a) hm_go" where
  "get_hm f = gget (\<lambda>(h, x). f h)"

text \<open>The keys under which a map named \<open>n\<close> stores its data.\<close>

definition key_map :: "bytes \<Rightarrow> bytes \<Rightarrow> bytes" where
  "key_map n k = n @ lit '':map:'' @ k"

definition key_exists :: "bytes \<Rightarrow> bytes \<Rightarrow> bytes" where
  "key_exists n k = n @ lit '':exists:'' @ k"

definition key_list :: "bytes \<Rightarrow> uint64 \<Rightarrow> bytes" where
  "key_list n i = n @ lit '':list:'' @ FormatUint i"

definition key_listKeys :: "bytes \<Rightarrow> bytes \<Rightarrow> bytes" where
  "key_listKeys n k = n @ lit '':listKeys:'' @ k"

definition key_count :: "bytes \<Rightarrow> bytes" where
  "key_count n = n @ lit '':count''"

definition key_transitions :: "bytes \<Rightarrow> bytes \<Rightarrow> bytes" where
  "key_transitions n p = n @ lit '':transitions:'' @ p"

text \<open>\<^verbatim>\<open>hashMap.Changes[key]\<close>, and a write through the pointer stored there.\<close>

definition change_at :: "('t, 'x) HashMap \<Rightarrow> bytes \<Rightarrow> 't ChangesMapElement option" where
  "change_at h k = map_option (hm_cells h) (map_of (hm_Changes h) k)"

definition write_change ::
  "bytes \<Rightarrow> ('t ChangesMapElement \<Rightarrow> 't ChangesMapElement) \<Rightarrow> ('t, 'x) HashMap \<Rightarrow> ('t, 'x) HashMap" where
  "write_change k f h =
     (case map_of (hm_Changes h) k of
        None \<Rightarrow> h
      | Some a \<Rightarrow> h\<lparr>hm_cells := (hm_cells h)(a := f (hm_cells h a))\<rparr>)"

text \<open>\<^verbatim>\<open>hashMap.Changes[key] = &ChangesMapElement\<close>, with the pointer also put into \<^verbatim>\<open>changesSize\<close>
  when \<open>tracked\<close>.\<close>

definition alloc_change :: "bytes \<Rightarrow> 't ChangesMapElement \<Rightarrow> bool \<Rightarrow> ('t, 'x) HashMap \<Rightarrow> ('t, 'x) HashMap" where
  "alloc_change k c tracked h =
     h\<lparr>hm_cells := (hm_cells h)(hm_next h := c), hm_next := Suc (hm_next h),
       hm_Changes := AList.update k (hm_next h) (hm_Changes h),
       hm_changesSize := (if tracked then AList.update k (hm_next h) (hm_changesSize h)
                          else hm_changesSize h)\<rparr>"

section \<open>Reading\<close>

definition hm_deserialize ::
  "'t ElemOps \<Rightarrow> ('t, 'x) HashMap \<Rightarrow> bytes \<Rightarrow> bytes \<Rightarrow> uint64 \<Rightarrow> 't result" where
  "hm_deserialize E h key data index =
     (case hm_CreateObject h key index of
        Inl e \<Rightarrow> Inl e
      | Inr out \<Rightarrow> fst (el_Deserialize E out (NewBufferReader data)))"

definition bad_key :: "('t, 'x) HashMap \<Rightarrow> bytes \<Rightarrow> bool" where
  "bad_key h key \<longleftrightarrow> hm_keyLength h \<noteq> 0 \<and> length key \<noteq> hm_keyLength h"

definition GetIndexByKey :: "'x StoreTx \<Rightarrow> bytes \<Rightarrow> ('t, 'x, uint64) hm_go" where
  "GetIndexByKey X key =
     gbind (get_hm id) (\<lambda>h.
     gbind (gcheck (\<not> hm_Indexable h) ''HashMap is not Indexable'') (\<lambda>_.
     gbind (gcheck (hm_changed h) ''GetIndexByKey is supported only when is committed'') (\<lambda>_.
     gbind (on_tx (tx_Get X (key_listKeys (hm_name h) key))) (\<lambda>data.
     case data of None \<Rightarrow> gerr ''Key not found'' | Some s \<Rightarrow> glift (ParseUint s)))))"

definition GetKeyByIndex :: "'x StoreTx \<Rightarrow> uint64 \<Rightarrow> ('t, 'x, bytes) hm_go" where
  "GetKeyByIndex X index =
     gbind (get_hm id) (\<lambda>h.
     gbind (gcheck (\<not> hm_Indexable h) ''HashMap is not Indexable'') (\<lambda>_.
     gbind (gcheck (hm_changed h) ''GetIndexByKey is supported only when is committed'') (\<lambda>_.
     gbind (gcheck (index \<ge> hm_Count h) ''Index exceeds count'') (\<lambda>_.
     gbind (on_tx (tx_Get X (key_list (hm_name h) index))) (\<lambda>key.
     case key of None \<Rightarrow> gerr ''Not found'' | Some k \<Rightarrow> gret k)))))"

text \<open>The data and the index \<^verbatim>\<open>Get\<close> loads for a key that is not in \<^verbatim>\<open>Changes\<close>.\<close>

definition Get_load :: "'t ElemOps \<Rightarrow> 'x StoreTx \<Rightarrow> bytes \<Rightarrow> ('t, 'x, bytes option \<times> uint64) hm_go" where
  "Get_load E X key =
     gbind (get_hm id) (\<lambda>h.
     case map_of (hm_Committed h) key of
       Some c \<Rightarrow>
         (case cm_Element c of
            Some e \<Rightarrow> gret (cm_serialized c, if hm_Indexable h then el_GetIndex E e else 0)
          | None \<Rightarrow> gret (None, 0))
     | None \<Rightarrow>
         gbind (on_tx (tx_Get X (key_map (hm_name h) key))) (\<lambda>outData.
         if outData \<noteq> None \<and> hm_Indexable h then
           gbind (on_tx (tx_Get X (key_listKeys (hm_name h) key))) (\<lambda>data.
           case data of
             None \<Rightarrow> gerr ''Key not found''
           | Some s \<Rightarrow> gbind (glift (ParseUint s)) (\<lambda>index. gret (outData, index)))
         else gret (outData, 0)))"

definition Get :: "'t ElemOps \<Rightarrow> 'x StoreTx \<Rightarrow> bytes \<Rightarrow> ('t, 'x, 't option) hm_go" where
  "Get E X key =
     gbind (get_hm id) (\<lambda>h.
     gbind (gcheck (bad_key h key) ''key length is invalid'') (\<lambda>_.
     case change_at h key of
       Some c \<Rightarrow> gret (ch_Element c)
     | None \<Rightarrow>
         gbind (Get_load E X key) (\<lambda>(outData, index).
         gbind (case outData of
                  None \<Rightarrow> gret None
                | Some d \<Rightarrow> gbind (glift (hm_deserialize E h key d index)) (\<lambda>out. gret (Some out)))
           (\<lambda>out.
         gbind (on_hm (alloc_change key
                  \<lparr>ch_Element = out, ch_Status = St_view, ch_index = 0, ch_indexProcess = False\<rparr> False))
           (\<lambda>_. gret out)))))"

definition GetByIndex :: "'t ElemOps \<Rightarrow> 'x StoreTx \<Rightarrow> uint64 \<Rightarrow> ('t, 'x, 't option) hm_go" where
  "GetByIndex E X index = gbind (GetKeyByIndex X index) (\<lambda>key. Get E X key)"

text \<open>\<open>rnd\<close> is the value \<^verbatim>\<open>rand.Uint64()\<close> returns.\<close>

definition GetRandom :: "'t ElemOps \<Rightarrow> 'x StoreTx \<Rightarrow> uint64 \<Rightarrow> ('t, 'x, 't option) hm_go" where
  "GetRandom E X rnd =
     gbind (get_hm id) (\<lambda>h.
     gbind (gcheck (\<not> hm_Indexable h) ''HashMap is not Indexable'') (\<lambda>_.
     if hm_Count h = 0 then gpanic ''integer divide by zero''
     else GetByIndex E X (rnd mod hm_Count h)))"

definition Exists :: "'x StoreTx \<Rightarrow> bytes \<Rightarrow> ('t, 'x, bool) hm_go" where
  "Exists X key =
     gbind (get_hm id) (\<lambda>h.
     gbind (gcheck (bad_key h key) ''key length is invalid'') (\<lambda>_.
     case change_at h key of
       Some c \<Rightarrow> gret (ch_Element c \<noteq> None)
     | None \<Rightarrow>
         (case map_of (hm_Committed h) key of
            Some c \<Rightarrow> gret (cm_Element c \<noteq> None)
          | None \<Rightarrow> on_tx (tx_Exists X (key_exists (hm_name h) key)))))"

section \<open>Writing\<close>

text \<open>The inner loop of \<^verbatim>\<open>Delete\<close>: every entry of \<^verbatim>\<open>Changes\<close> with a larger index moves down by one.\<close>

definition shift_index :: "'t ElemOps \<Rightarrow> uint64 \<Rightarrow> 't ChangesMapElement \<Rightarrow> 't ChangesMapElement" where
  "shift_index E i v =
     (if ch_index v > i
      then v\<lparr>ch_index := ch_index v - 1,
             ch_Element := map_option (el_SetIndex E (ch_index v - 1)) (ch_Element v)\<rparr>
      else v)"

definition shift_indexes :: "'t ElemOps \<Rightarrow> uint64 \<Rightarrow> ('t, 'x) HashMap \<Rightarrow> ('t, 'x) HashMap" where
  "shift_indexes E i h =
     h\<lparr>hm_cells := (\<lambda>a. if a \<in> set (map snd (hm_Changes h)) then shift_index E i (hm_cells h a)
                        else hm_cells h a)\<rparr>"

text \<open>Whether \<^verbatim>\<open>key\<close> holds an element, as \<^verbatim>\<open>Update\<close> and \<^verbatim>\<open>Delete\<close> decide it.\<close>

definition key_present :: "'x StoreTx \<Rightarrow> bytes \<Rightarrow> ('t, 'x, bool) hm_go" where
  "key_present X key =
     gbind (get_hm id) (\<lambda>h.
     case change_at h key of
       Some c \<Rightarrow> gret (ch_Element c \<noteq> None)
     | None \<Rightarrow> on_tx (tx_Exists X (key_exists (hm_name h) key)))"

definition ensure_change :: "bytes \<Rightarrow> ('t, 'x) HashMap \<Rightarrow> ('t, 'x) HashMap" where
  "ensure_change key h =
     (case map_of (hm_Changes h) key of
        None \<Rightarrow> alloc_change key new_change True h
      | Some _ \<Rightarrow> h)"

definition Delete_index :: "'t ElemOps \<Rightarrow> bytes \<Rightarrow> ('t, 'x) HashMap \<Rightarrow> ('t, 'x) HashMap" where
  "Delete_index E key h =
     (case change_at h key of
        None \<Rightarrow> h
      | Some v \<Rightarrow>
          if ch_indexProcess v
          then write_change key (\<lambda>c. c\<lparr>ch_indexProcess := False\<rparr>) (shift_indexes E (ch_index v) h)
          else write_change key (\<lambda>c. c\<lparr>ch_index := hm_Count h, ch_indexProcess := True\<rparr>) h)"

definition Delete :: "'t ElemOps \<Rightarrow> 'x StoreTx \<Rightarrow> bytes \<Rightarrow> ('t, 'x, unit) hm_go" where
  "Delete E X key =
     gbind (key_present X key) (\<lambda>decrease.
     gbind (on_hm (ensure_change key)) (\<lambda>_.
     gbind (on_hm (write_change key (\<lambda>c. c\<lparr>ch_Status := St_del, ch_Element := None\<rparr>))) (\<lambda>_.
     gbind (on_hm (\<lambda>h. h\<lparr>hm_changed := True\<rparr>)) (\<lambda>_.
     if decrease then
       gbind (on_hm (\<lambda>h. h\<lparr>hm_Count := hm_Count h - 1\<rparr>)) (\<lambda>_.
       on_hm (\<lambda>h. if hm_Indexable h then Delete_index E key h else h))
     else gret ()))))"

text \<open>\<^verbatim>\<open>Update\<close> writes through the pointer it is given (\<^verbatim>\<open>SetKey\<close>, \<^verbatim>\<open>SetIndex\<close>); the model returns the
  element as it is afterwards.\<close>

definition Update_store :: "'t ElemOps \<Rightarrow> bytes \<Rightarrow> 't \<Rightarrow> bool \<Rightarrow> ('t, 'x) HashMap \<Rightarrow> ('t, 'x) HashMap" where
  "Update_store E key data increase h =
     (let h1 = ensure_change key h;
          h2 = write_change key (\<lambda>c. c\<lparr>ch_Status := St_update, ch_Element := Some data\<rparr>) h1;
          h3 = h2\<lparr>hm_changed := True\<rparr>
      in if increase then
           (let h4 = (if hm_Indexable h3
                      then write_change key (\<lambda>c. c\<lparr>ch_index := hm_Count h3,
                             ch_Element := map_option (el_SetIndex E (hm_Count h3)) (ch_Element c),
                             ch_indexProcess := True\<rparr>) h3
                      else h3)
            in h4\<lparr>hm_Count := hm_Count h4 + 1\<rparr>)
         else h3)"

definition Update :: "'t ElemOps \<Rightarrow> 'x StoreTx \<Rightarrow> bytes \<Rightarrow> 't option \<Rightarrow> ('t, 'x, 't) hm_go" where
  "Update E X key data =
     gbind (get_hm id) (\<lambda>h.
     gbind (gcheck (bad_key h key) ''key length is invalid'') (\<lambda>_.
     case data of
       None \<Rightarrow> gerr ''Data is null and it should not be''
     | Some d0 \<Rightarrow>
         (let d = el_SetKey E key d0 in
          gbind (glift (el_Validate E d)) (\<lambda>_.
          if el_IsDeletable E d then gbind (Delete E X key) (\<lambda>_. gret d)
          else
            gbind (key_present X key) (\<lambda>present.
            gbind (on_hm (Update_store E key d (\<not> present))) (\<lambda>_.
            gret (if \<not> present \<and> hm_Indexable h then el_SetIndex E (hm_Count h) d else d)))))))"

definition Create :: "'t ElemOps \<Rightarrow> 'x StoreTx \<Rightarrow> bytes \<Rightarrow> 't option \<Rightarrow> ('t, 'x, 't) hm_go" where
  "Create E X key data =
     gbind (Exists X key) (\<lambda>exists.
     gbind (gcheck exists ''Element already exists in Hashmap'') (\<lambda>_.
     Update E X key data))"

definition UpdateOrDelete :: "'t ElemOps \<Rightarrow> 'x StoreTx \<Rightarrow> bytes \<Rightarrow> 't option \<Rightarrow> ('t, 'x, unit) hm_go" where
  "UpdateOrDelete E X key data =
     (case data of None \<Rightarrow> Delete E X key | Some d \<Rightarrow> gbind (Update E X key (Some d)) (\<lambda>_. gret ()))"

section \<open>The size of the changes\<close>

definition size_at :: "('t, 'x) HashMap \<Rightarrow> bytes \<Rightarrow> 't ChangesMapElement option" where
  "size_at h k = map_option (hm_cells h) (map_of (hm_changesSize h) k)"

text \<open>The old size of an element and whether it is new.\<close>

definition old_size :: "'x StoreTx \<Rightarrow> bytes \<Rightarrow> ('t, 'x, nat \<times> bool) hm_go" where
  "old_size X k =
     gbind (get_hm id) (\<lambda>h.
     case map_of (hm_Committed h) k of
       Some c \<Rightarrow> gret (cm_size c, cm_Element c = None)
     | None \<Rightarrow>
         gbind (on_tx (tx_Get X (key_map (hm_name h) k))) (\<lambda>data.
         gret (case data of Some d \<Rightarrow> (length d, False) | None \<Rightarrow> (0, True))))"

definition change_size :: "'t ElemOps \<Rightarrow> 'x StoreTx \<Rightarrow> bytes \<Rightarrow> ('t, 'x, uint64) hm_go" where
  "change_size E X k =
     gbind (get_hm id) (\<lambda>h.
     case size_at h k of
       None \<Rightarrow> gret 0
     | Some v \<Rightarrow>
         if ch_Status v = St_update then
           (case ch_Element v of
              None \<Rightarrow> gpanic ''invalid memory address or nil pointer dereference''
            | Some e \<Rightarrow>
                gbind (glift (el_Serialize E e)) (\<lambda>w.
                let newSize = length (SerializeToBytes w) in
                gbind (old_size X k) (\<lambda>(oldSize, isNew).
                gret (if newSize > oldSize
                      then of_nat (newSize - oldSize) + (if isNew then of_nat (length k) else 0)
                      else 0))))
         else gret 0)"

fun ComputeChangesSize_loop ::
  "'t ElemOps \<Rightarrow> 'x StoreTx \<Rightarrow> bytes list \<Rightarrow> uint64 \<Rightarrow> ('t, 'x, uint64) hm_go" where
  "ComputeChangesSize_loop E X [] out = gret out"
| "ComputeChangesSize_loop E X (k # ks) out =
     gbind (change_size E X k) (\<lambda>n. ComputeChangesSize_loop E X ks (out + n))"

definition ComputeChangesSize :: "'t ElemOps \<Rightarrow> 'x StoreTx \<Rightarrow> bytes list \<Rightarrow> ('t, 'x, uint64) hm_go" where
  "ComputeChangesSize E X ord = ComputeChangesSize_loop E X ord 0"

definition ResetChangesSize :: "('t, 'x, unit) hm_go" where
  "ResetChangesSize = on_hm (\<lambda>h. h\<lparr>hm_changesSize := []\<rparr>)"

section \<open>Commit and rollback\<close>

definition when_writable :: "'x StoreTx \<Rightarrow> ('t, 'x, unit) hm_go \<Rightarrow> ('t, 'x, unit) hm_go" where
  "when_writable X m =
     gbind (gget (\<lambda>(h, x). tx_IsWritable X x)) (\<lambda>w. if w then m else gret ())"

definition committed_at :: "('t, 'x) HashMap \<Rightarrow> bytes \<Rightarrow> 't CommittedMapElement" where
  "committed_at h k = (case map_of (hm_Committed h) k of None \<Rightarrow> new_committed | Some c \<Rightarrow> c)"

definition write_committed ::
  "bytes \<Rightarrow> ('t CommittedMapElement \<Rightarrow> 't CommittedMapElement) \<Rightarrow> ('t, 'x) HashMap \<Rightarrow> ('t, 'x) HashMap" where
  "write_committed k f h = h\<lparr>hm_Committed := AList.update k (f (committed_at h k)) (hm_Committed h)\<rparr>"

text \<open>The database writes for a deleted and for a new entry; \<open>indexed\<close> is
  \<^verbatim>\<open>hashMap.Indexable && v.indexProcess\<close>.\<close>

definition delete_entry :: "'x StoreTx \<Rightarrow> bytes \<Rightarrow> bytes \<Rightarrow> bool \<Rightarrow> uint64 \<Rightarrow> ('t, 'x, unit) hm_go" where
  "delete_entry X n k indexed i =
     gbind (on_tx (tx_Delete X (key_map n k))) (\<lambda>_.
     gbind (on_tx (tx_Delete X (key_exists n k))) (\<lambda>_.
     if indexed then
       gbind (on_tx (tx_Delete X (key_list n i))) (\<lambda>_. on_tx (tx_Delete X (key_listKeys n k)))
     else gret ()))"

definition insert_entry :: "'x StoreTx \<Rightarrow> bytes \<Rightarrow> bytes \<Rightarrow> bool \<Rightarrow> uint64 \<Rightarrow> ('t, 'x, unit) hm_go" where
  "insert_entry X n k indexed i =
     gbind (on_tx (tx_Put X (key_exists n k) (Some [1]))) (\<lambda>_.
     if indexed then
       gbind (on_tx (tx_Put X (key_list n i) (Some k))) (\<lambda>_.
       on_tx (tx_Put X (key_listKeys n k) (Some (FormatUint i))))
     else gret ())"

text \<open>The body of the loop of \<^verbatim>\<open>CommitChanges\<close> over the deleted entries.\<close>

definition commit_del :: "'x StoreTx \<Rightarrow> bytes \<Rightarrow> ('t, 'x, unit) hm_go" where
  "commit_del X k =
     gbind (get_hm id) (\<lambda>h.
     case change_at h k of
       None \<Rightarrow> gret ()
     | Some v \<Rightarrow>
       if ch_Status v \<noteq> St_del then gret ()
       else
         gbind (on_hm (write_change k (\<lambda>c. c\<lparr>ch_Status := St_view\<rparr>))) (\<lambda>_.
         gbind (on_hm (write_committed k (\<lambda>c. c\<lparr>cm_Status := St_view, cm_Element := None,
                  cm_size := 0, cm_serialized := None\<rparr>))) (\<lambda>_.
         gbind (on_tx (tx_Exists X (key_exists (hm_name h) k))) (\<lambda>stored.
         gbind
           (if stored then
              gbind (when_writable X (delete_entry X (hm_name h) k
                (hm_Indexable h \<and> ch_indexProcess v) (ch_index v))) (\<lambda>_.
              gbind (case hm_DeletedEvent h of None \<Rightarrow> gret () | Some ev \<Rightarrow> on_tx (ev k)) (\<lambda>_.
              on_hm (write_committed k (\<lambda>c. c\<lparr>cm_Stored := St_del\<rparr>))))
            else on_hm (write_committed k (\<lambda>c. c\<lparr>cm_Stored := St_view\<rparr>))) (\<lambda>_.
         on_hm (write_change k (\<lambda>c. c\<lparr>ch_indexProcess := False\<rparr>)))))))"

text \<open>An updated entry that is not in the database yet: its flag, its index and the event.\<close>

definition commit_new ::
  "'x StoreTx \<Rightarrow> bytes \<Rightarrow> ('t, 'x) HashMap \<Rightarrow> 't ChangesMapElement \<Rightarrow> ('t, 'x, unit) hm_go" where
  "commit_new X k h v =
     gbind (when_writable X (insert_entry X (hm_name h) k
       (hm_Indexable h \<and> ch_indexProcess v) (ch_index v))) (\<lambda>_.
     gbind (get_hm (\<lambda>h'. committed_at h' k)) (\<lambda>committed.
     case hm_StoredEvent h of
       None \<Rightarrow> gret ()
     | Some ev \<Rightarrow> on_tx (ev k committed (ch_index v))))"

text \<open>The body of the loop over the updated entries.\<close>

definition commit_update :: "'t ElemOps \<Rightarrow> 'x StoreTx \<Rightarrow> bytes \<Rightarrow> ('t, 'x, unit) hm_go" where
  "commit_update E X k =
     gbind (get_hm id) (\<lambda>h.
     case change_at h k of
       None \<Rightarrow> gret ()
     | Some v \<Rightarrow>
       if ch_Status v \<noteq> St_update then gret ()
       else
         gbind (on_hm (write_committed k (\<lambda>c. c\<lparr>cm_Element := ch_Element v\<rparr>))) (\<lambda>_.
         gbind (on_tx (tx_Exists X (key_exists (hm_name h) k))) (\<lambda>stored.
         gbind
           (if \<not> stored then commit_new X k h v else gret ()) (\<lambda>_.
         case ch_Element v of
           None \<Rightarrow> gpanic ''invalid memory address or nil pointer dereference''
         | Some e \<Rightarrow>
             gbind (glift (el_Serialize E e)) (\<lambda>w.
             let ser = SerializeToBytes w in
             gbind (on_hm (write_committed k (\<lambda>c. c\<lparr>cm_serialized := Some ser, cm_size := length ser\<rparr>))) (\<lambda>_.
             gbind (when_writable X (on_tx (tx_Put X (key_map (hm_name h) k) (Some ser)))) (\<lambda>_.
             gbind (on_hm (write_committed k (\<lambda>c. c\<lparr>cm_Status := St_view, cm_Stored := St_update\<rparr>))) (\<lambda>_.
             on_hm (write_change k (\<lambda>c. c\<lparr>ch_indexProcess := False\<rparr>))))))))))"

text \<open>The first loop checks the keys and collects the updated ones, \<^verbatim>\<open>removed\<close>.\<close>

definition commit_removed :: "('t, 'x) HashMap \<Rightarrow> bytes list \<Rightarrow> bytes list" where
  "commit_removed h ord =
     filter (\<lambda>k. case change_at h k of Some v \<Rightarrow> ch_Status v = St_update | None \<Rightarrow> False) ord"

definition remove_change :: "bytes \<Rightarrow> ('t, 'x) HashMap \<Rightarrow> ('t, 'x) HashMap" where
  "remove_change k h = h\<lparr>hm_Changes := AList.delete k (hm_Changes h)\<rparr>"

text \<open>\<open>ord0\<close>, \<open>ord1\<close> and \<open>ord2\<close> are the orders in which the three loops range over \<^verbatim>\<open>Changes\<close>.\<close>

definition CommitChanges ::
  "'t ElemOps \<Rightarrow> 'x StoreTx \<Rightarrow> bytes list \<Rightarrow> bytes list \<Rightarrow> bytes list \<Rightarrow> ('t, 'x, unit) hm_go" where
  "CommitChanges E X ord0 ord1 ord2 =
     gbind (get_hm id) (\<lambda>h0.
     gbind (gfor ord0 (\<lambda>k. gcheck (bad_key h0 k) ''key length is invalid'')) (\<lambda>_.
     gbind (gfor ord1 (commit_del X)) (\<lambda>_.
     gbind (gfor ord2 (commit_update E X)) (\<lambda>_.
     gbind (gfor (commit_removed h0 ord0) (\<lambda>k. on_hm (remove_change k))) (\<lambda>_.
     gbind (on_hm (\<lambda>h. h\<lparr>hm_countCommitted := hm_Count h\<rparr>)) (\<lambda>_.
     gbind (get_hm id) (\<lambda>h.
     gbind (when_writable X (on_tx (tx_Put X (key_count (hm_name h)) (Some (PutUvarint (hm_Count h)))))) (\<lambda>_.
     on_hm (\<lambda>h. h\<lparr>hm_changed := False\<rparr>)))))))))"

definition Rollback :: "('t, 'x, unit) hm_go" where
  "Rollback = on_hm (\<lambda>h. h\<lparr>hm_Changes := [], hm_changesSize := [],
                          hm_Count := hm_countCommitted h, hm_changed := False\<rparr>)"

definition Reset :: "('t, 'x, unit) hm_go" where
  "Reset = on_hm (\<lambda>h. h\<lparr>hm_Committed := [], hm_Changes := [], hm_changesSize := [],
                       hm_changed := False\<rparr>)"

text \<open>\<^verbatim>\<open>binary.Uvarint\<close>: the value and the number of bytes read, zero or negative on failure.\<close>

fun Uvarint_loop :: "bytes \<Rightarrow> uint64 \<Rightarrow> uint64 \<Rightarrow> nat \<Rightarrow> uint64 \<times> int" where
  "Uvarint_loop [] x s i = (0, 0)"
| "Uvarint_loop (b # bs) x s i =
     (if i = MaxVarintLen64 then (0, - int (i + 1))
      else if b < 0x80 then
        if i = MaxVarintLen64 - 1 \<and> b > 1 then (0, - int (i + 1))
        else (or x (push_bit (unat s) (ucast b)), int i + 1)
      else Uvarint_loop bs (or x (push_bit (unat s) (ucast (and b 0x7f)))) (s + 7) (i + 1))"

definition Uvarint :: "bytes \<Rightarrow> uint64 \<times> int" where
  "Uvarint buf = Uvarint_loop buf 0 0 0"

text \<open>The constructor; \<^verbatim>\<open>CreateObject\<close> and the events are nil in Go and are set by the callers, who
  hand them over here.\<close>

definition CreateNewHashMap ::
  "'x StoreTx \<Rightarrow> bytes \<Rightarrow> nat \<Rightarrow> bool \<Rightarrow> (bytes \<Rightarrow> uint64 \<Rightarrow> 't result) \<Rightarrow>
   (bytes \<Rightarrow> ('x, unit) go) option \<Rightarrow>
   (bytes \<Rightarrow> 't CommittedMapElement \<Rightarrow> uint64 \<Rightarrow> ('x, unit) go) option \<Rightarrow>
   ('x, ('t, 'x) HashMap) go" where
  "CreateNewHashMap X name keyLength indexable create deleted stored =
     (if length name \<le> 4 then gpanic ''Invalid name''
      else
        gbind (tx_Get X (key_count name)) (\<lambda>buffer.
        gbind (case buffer of
                 None \<Rightarrow> gret 0
               | Some b \<Rightarrow> (case Uvarint b of (count, p) \<Rightarrow>
                   if p \<le> 0 then gpanic ''Error reading'' else gret count)) (\<lambda>count.
        gret \<lparr>hm_name = name, hm_Count = count, hm_countCommitted = count, hm_Changes = [],
          hm_changed = False, hm_changesSize = [], hm_Committed = [], hm_keyLength = keyLength,
          hm_CreateObject = create, hm_DeletedEvent = deleted, hm_StoredEvent = stored,
          hm_Indexable = indexable, hm_cells = (\<lambda>_. new_change), hm_next = 0\<rparr>)))"

section \<open>Transitional changes\<close>

text \<open>\<^verbatim>\<open>transactionChange\<close>: a key and the serialisation it had before the block, nil if it had none.
  \<^verbatim>\<open>msgpack.Marshal\<close> and \<^verbatim>\<open>Unmarshal\<close> belong to an external package: they are parameters.\<close>

record transactionChange =
  tc_Key :: bytes
  tc_Transition :: "bytes option"

definition transition_of :: "'t ElemOps \<Rightarrow> 'x StoreTx \<Rightarrow> bytes \<Rightarrow> ('t, 'x, transactionChange) hm_go" where
  "transition_of E X k =
     gbind (get_hm id) (\<lambda>h.
     case map_of (hm_Committed h) k of
       Some c \<Rightarrow>
         (case cm_Element c of
            None \<Rightarrow> gret \<lparr>tc_Key = k, tc_Transition = None\<rparr>
          | Some e \<Rightarrow>
              gbind (glift (el_Serialize E e)) (\<lambda>w.
              gret \<lparr>tc_Key = k, tc_Transition = Some (SerializeToBytes w)\<rparr>))
     | None \<Rightarrow>
         gbind (on_tx (tx_Get X (key_map (hm_name h) k))) (\<lambda>data.
         gret \<lparr>tc_Key = k, tc_Transition = data\<rparr>))"

fun collect_transitions ::
  "'t ElemOps \<Rightarrow> 'x StoreTx \<Rightarrow> bytes list \<Rightarrow> ('t, 'x, transactionChange list) hm_go" where
  "collect_transitions E X [] = gret []"
| "collect_transitions E X (k # ks) =
     gbind (get_hm (\<lambda>h. change_at h k)) (\<lambda>v.
     if (case v of Some c \<Rightarrow> ch_Status c = St_del \<or> ch_Status c = St_update | None \<Rightarrow> False) then
       gbind (transition_of E X k) (\<lambda>t.
       gbind (collect_transitions E X ks) (\<lambda>ts. gret (t # ts)))
     else collect_transitions E X ks)"

definition WriteTransitionalChangesToStore ::
  "'t ElemOps \<Rightarrow> 'x StoreTx \<Rightarrow> (transactionChange list \<Rightarrow> bytes result) \<Rightarrow> bytes list \<Rightarrow> bytes \<Rightarrow>
   ('t, 'x, bool) hm_go" where
  "WriteTransitionalChangesToStore E X Marshal ord prefix =
     gbind (collect_transitions E X ord) (\<lambda>changes.
     if changes = [] then gret False
     else
       (case Marshal changes of
          Inl e \<Rightarrow> gret False
        | Inr data \<Rightarrow>
            gbind (get_hm id) (\<lambda>h.
            gbind (on_tx (tx_Put X (key_transitions (hm_name h) prefix) (Some data))) (\<lambda>_.
            gret True))))"

definition DeleteTransitionalChangesFromStore :: "'x StoreTx \<Rightarrow> bytes \<Rightarrow> ('t, 'x, unit) hm_go" where
  "DeleteTransitionalChangesFromStore X prefix =
     gbind (get_hm id) (\<lambda>h. on_tx (tx_Delete X (key_transitions (hm_name h) prefix)))"

definition apply_transition :: "'t ElemOps \<Rightarrow> 'x StoreTx \<Rightarrow> transactionChange \<Rightarrow> ('t, 'x, unit) hm_go" where
  "apply_transition E X change =
     (case tc_Transition change of
        None \<Rightarrow> Delete E X (tc_Key change)
      | Some data \<Rightarrow>
          gbind (get_hm id) (\<lambda>h.
          gbind (glift (hm_deserialize E h (tc_Key change) data 0)) (\<lambda>element.
          gbind (Update E X (tc_Key change) (Some element)) (\<lambda>_. gret ()))))"

definition ReadTransitionalChangesFromStore ::
  "'t ElemOps \<Rightarrow> 'x StoreTx \<Rightarrow> (bytes \<Rightarrow> transactionChange list result) \<Rightarrow> bytes \<Rightarrow>
   ('t, 'x, unit) hm_go" where
  "ReadTransitionalChangesFromStore E X Unmarshal prefix =
     gbind (get_hm id) (\<lambda>h.
     gbind (on_tx (tx_Get X (key_transitions (hm_name h) prefix))) (\<lambda>data.
     case data of
       None \<Rightarrow> gret ()
     | Some d \<Rightarrow>
         gbind (glift (Unmarshal d)) (\<lambda>changes. gfor (rev changes) (apply_transition E X))))"

end
