(* ===== verification/Hash_Map_Laws.thy ===== *)
theory Hash_Map_Laws
  imports Hash_Map
begin

text \<open>
  What the hash map promises: under the invariant \<open>hm_inv\<close> it behaves, for every operation, as a
  finite map from keys to serialised elements (\<open>contents\<close>) over the last committed map, the part
  of the database under its name.
\<close>

section \<open>The cells behind the changes\<close>

definition cells_wf :: "('t, 'x) HashMap \<Rightarrow> bool" where
  "cells_wf h \<longleftrightarrow>
     distinct (map fst (hm_Changes h)) \<and>
     (\<forall>k k' a. map_of (hm_Changes h) k = Some a \<longrightarrow> map_of (hm_Changes h) k' = Some a \<longrightarrow> k = k') \<and>
     (\<forall>k a. map_of (hm_Changes h) k = Some a \<longrightarrow> a < hm_next h)"

lemma cells_wfD:
  assumes "cells_wf h" and "map_of (hm_Changes h) k = Some a"
  shows "a < hm_next h" and "map_of (hm_Changes h) k' = Some a \<Longrightarrow> k' = k"
  using assms by (auto simp: cells_wf_def simp del: map_of_eq_Some_iff)

lemma change_at_alloc [simp]:
  assumes "cells_wf h"
  shows "change_at (alloc_change k c t h) = (change_at h)(k \<mapsto> c)"
proof (rule ext)
  fix j
  show "change_at (alloc_change k c t h) j = ((change_at h)(k \<mapsto> c)) j"
    using cells_wfD(1)[OF assms, of j]
    by (cases "map_of (hm_Changes h) j") (auto simp: change_at_def alloc_change_def update_conv')
qed

lemma cells_wf_alloc [simp]:
  assumes "cells_wf h"
  shows "cells_wf (alloc_change k c t h)"
proof -
  have d: "distinct (map fst (hm_Changes h))" using assms by (simp add: cells_wf_def)
  show ?thesis
    unfolding cells_wf_def
  proof (intro conjI allI impI)
    show "distinct (map fst (hm_Changes (alloc_change k c t h)))"
      using d by (simp add: alloc_change_def distinct_update)
  next
    fix i j a
    assume "map_of (hm_Changes (alloc_change k c t h)) i = Some a"
      "map_of (hm_Changes (alloc_change k c t h)) j = Some a"
    then show "i = j"
      using cells_wfD[OF assms]
      by (auto simp: alloc_change_def update_conv' simp del: map_of_eq_Some_iff split: if_splits)
  next
    fix j a
    assume "map_of (hm_Changes (alloc_change k c t h)) j = Some a"
    then show "a < hm_next (alloc_change k c t h)"
      using cells_wfD(1)[OF assms, of j a]
      by (auto simp: alloc_change_def update_conv' simp del: map_of_eq_Some_iff split: if_splits)
  qed
qed

lemma change_at_write [simp]:
  assumes "cells_wf h"
  shows "change_at (write_change k f h) = (change_at h)(k := map_option f (change_at h k))"
proof (rule ext)
  fix j
  show "change_at (write_change k f h) j = ((change_at h)(k := map_option f (change_at h k))) j"
    using cells_wfD(2)[OF assms, of k _ j]
    by (cases "map_of (hm_Changes h) k"; cases "map_of (hm_Changes h) j")
      (auto simp: change_at_def write_change_def)
qed

lemma cells_wf_write [simp]: "cells_wf h \<Longrightarrow> cells_wf (write_change k f h)"
  by (simp add: cells_wf_def write_change_def split: option.split)

lemma change_at_ensure [simp]:
  assumes "cells_wf h"
  shows "change_at (ensure_change k h) =
     (change_at h)(k \<mapsto> (case change_at h k of None \<Rightarrow> new_change | Some c \<Rightarrow> c))"
proof (cases "map_of (hm_Changes h) k")
  case None
  then have "change_at h k = None" by (simp add: change_at_def)
  with None show ?thesis using assms by (simp add: ensure_change_def)
next
  case (Some a)
  then have "change_at h k = Some (hm_cells h a)" by (simp add: change_at_def)
  with Some show ?thesis by (auto simp: ensure_change_def fun_eq_iff)
qed

lemma cells_wf_ensure [simp]: "cells_wf h \<Longrightarrow> cells_wf (ensure_change k h)"
  by (simp add: ensure_change_def split: option.split)

lemma change_at_shift [simp]:
  "change_at (shift_indexes E i h) = (\<lambda>k. map_option (shift_index E i) (change_at h k))"
proof (rule ext)
  fix k
  show "change_at (shift_indexes E i h) k = map_option (shift_index E i) (change_at h k)"
    using map_of_SomeD[of "hm_Changes h" k]
    by (cases "map_of (hm_Changes h) k") (force simp: change_at_def shift_indexes_def)+
qed

lemma cells_wf_shift [simp]: "cells_wf (shift_indexes E i h) = cells_wf h"
  by (simp add: cells_wf_def shift_indexes_def)

lemma change_at_simps [simp]:
  "change_at (h\<lparr>hm_changed := b\<rparr>) = change_at h"
  "change_at (h\<lparr>hm_Count := n\<rparr>) = change_at h"
  "change_at (h\<lparr>hm_countCommitted := n\<rparr>) = change_at h"
  "change_at (h\<lparr>hm_Committed := cs\<rparr>) = change_at h"
  "change_at (h\<lparr>hm_changesSize := zs\<rparr>) = change_at h"
  by (rule ext, simp add: change_at_def)+

lemma cells_wf_simps [simp]:
  "cells_wf (h\<lparr>hm_changed := b\<rparr>) = cells_wf h"
  "cells_wf (h\<lparr>hm_Count := n\<rparr>) = cells_wf h"
  "cells_wf (h\<lparr>hm_countCommitted := n\<rparr>) = cells_wf h"
  "cells_wf (h\<lparr>hm_Committed := cs\<rparr>) = cells_wf h"
  "cells_wf (h\<lparr>hm_changesSize := zs\<rparr>) = cells_wf h"
  by (simp_all add: cells_wf_def)

text \<open>The fields an operation on the cells leaves alone.\<close>

lemma alloc_fields [simp]:
  "hm_name (alloc_change k c t h) = hm_name h" "hm_Count (alloc_change k c t h) = hm_Count h"
  "hm_countCommitted (alloc_change k c t h) = hm_countCommitted h"
  "hm_Committed (alloc_change k c t h) = hm_Committed h" "hm_changed (alloc_change k c t h) = hm_changed h"
  "hm_keyLength (alloc_change k c t h) = hm_keyLength h"
  "hm_CreateObject (alloc_change k c t h) = hm_CreateObject h"
  "hm_DeletedEvent (alloc_change k c t h) = hm_DeletedEvent h"
  "hm_StoredEvent (alloc_change k c t h) = hm_StoredEvent h"
  "hm_Indexable (alloc_change k c t h) = hm_Indexable h"
  by (simp_all add: alloc_change_def)

lemma write_fields [simp]:
  "hm_name (write_change k f h) = hm_name h" "hm_Count (write_change k f h) = hm_Count h"
  "hm_countCommitted (write_change k f h) = hm_countCommitted h"
  "hm_Committed (write_change k f h) = hm_Committed h" "hm_changed (write_change k f h) = hm_changed h"
  "hm_keyLength (write_change k f h) = hm_keyLength h"
  "hm_CreateObject (write_change k f h) = hm_CreateObject h"
  "hm_DeletedEvent (write_change k f h) = hm_DeletedEvent h"
  "hm_StoredEvent (write_change k f h) = hm_StoredEvent h"
  "hm_Indexable (write_change k f h) = hm_Indexable h"
  "map fst (hm_Changes (write_change k f h)) = map fst (hm_Changes h)"
  by (simp_all add: write_change_def split: option.split)

lemma shift_fields [simp]:
  "hm_name (shift_indexes E i h) = hm_name h" "hm_Count (shift_indexes E i h) = hm_Count h"
  "hm_countCommitted (shift_indexes E i h) = hm_countCommitted h"
  "hm_Committed (shift_indexes E i h) = hm_Committed h" "hm_changed (shift_indexes E i h) = hm_changed h"
  "hm_keyLength (shift_indexes E i h) = hm_keyLength h"
  "hm_CreateObject (shift_indexes E i h) = hm_CreateObject h"
  "hm_DeletedEvent (shift_indexes E i h) = hm_DeletedEvent h"
  "hm_StoredEvent (shift_indexes E i h) = hm_StoredEvent h"
  "hm_Indexable (shift_indexes E i h) = hm_Indexable h"
  by (simp_all add: shift_indexes_def)

lemma ensure_fields [simp]:
  "hm_name (ensure_change k h) = hm_name h" "hm_Count (ensure_change k h) = hm_Count h"
  "hm_countCommitted (ensure_change k h) = hm_countCommitted h"
  "hm_Committed (ensure_change k h) = hm_Committed h" "hm_changed (ensure_change k h) = hm_changed h"
  "hm_keyLength (ensure_change k h) = hm_keyLength h"
  "hm_CreateObject (ensure_change k h) = hm_CreateObject h"
  "hm_DeletedEvent (ensure_change k h) = hm_DeletedEvent h"
  "hm_StoredEvent (ensure_change k h) = hm_StoredEvent h"
  "hm_Indexable (ensure_change k h) = hm_Indexable h"
  by (simp_all add: ensure_change_def split: option.split)

lemma card_dom_update:
  assumes "finite (dom m)"
  shows "of_nat (card (dom (m(k := None)))) =
           (if m k = None then of_nat (card (dom m)) else of_nat (card (dom m)) - (1 :: uint64))"
    and "of_nat (card (dom (m(k \<mapsto> v)))) =
           (if m k = None then of_nat (card (dom m)) + (1 :: uint64) else of_nat (card (dom m)))"
proof -
  show "of_nat (card (dom (m(k \<mapsto> v)))) =
          (if m k = None then of_nat (card (dom m)) + (1 :: uint64) else of_nat (card (dom m)))"
    using assms by (auto simp: card_insert_if)
  have "m k \<noteq> None \<Longrightarrow> card (dom m) = Suc (card (dom m - {k}))"
    using assms by (metis card_Suc_Diff1 domIff)
  then show "of_nat (card (dom (m(k := None)))) =
          (if m k = None then of_nat (card (dom m)) else of_nat (card (dom m)) - (1 :: uint64))"
    by (auto simp: domIff)
qed

definition failed :: "('s, 'a) go \<Rightarrow> 's \<Rightarrow> bool" where
  "failed m s \<longleftrightarrow> (\<exists>e t. m s = (Inl e, t))"

lemma failed_bind: "failed m s \<Longrightarrow> failed (gbind m f) s"
  by (auto simp: failed_def gbind_def)

text \<open>A loop whose body, where it succeeds, keeps \<open>P\<close> and makes \<open>Q x\<close> true for its element; \<open>T\<close> says
  that the body cannot fail.\<close>

lemma gfor_establish:
  assumes step: "\<And>x s. x \<in> set xs \<Longrightarrow> P s \<Longrightarrow> T \<or> \<not> failed (f x) s \<Longrightarrow>
      \<exists>t. f x s = (Inr (), t) \<and> P t \<and> Q x t \<and> (\<forall>y. Q y s \<longrightarrow> Q y t)"
    and "P s" and "T \<or> \<not> failed (gfor xs f) s"
  shows "\<exists>t. gfor xs f s = (Inr (), t) \<and> P t \<and> (\<forall>x \<in> set xs. Q x t) \<and> (\<forall>y. Q y s \<longrightarrow> Q y t)"
  using assms
proof (induction xs arbitrary: s)
  case Nil
  then show ?case by simp
next
  case (Cons x xs)
  have "T \<or> \<not> failed (f x) s" using Cons.prems(3) failed_bind[of "f x" s] by auto
  then obtain t where t: "f x s = (Inr (), t)" "P t" "Q x t" "\<forall>y. Q y s \<longrightarrow> Q y t"
    using Cons.prems(1)[of x s] Cons.prems(2) by auto
  have "T \<or> \<not> failed (gfor xs f) t" using Cons.prems(3) t(1) by (auto simp: failed_def gbind_Inr)
  then obtain u where "gfor xs f t = (Inr (), u)" "P u" "\<forall>x \<in> set xs. Q x u" "\<forall>y. Q y t \<longrightarrow> Q y u"
    using Cons.IH[of t] Cons.prems(1) t(2) by (metis list.set_intros(2))
  with t show ?case by (auto simp: gbind_Inr)
qed

section \<open>The names of the stored entries do not overlap\<close>

lemma key_inj [simp]:
  "key_map n k = key_map n k' \<longleftrightarrow> k = k'"
  "key_exists n k = key_exists n k' \<longleftrightarrow> k = k'"
  "key_listKeys n k = key_listKeys n k' \<longleftrightarrow> k = k'"
  "key_list n i = key_list n i' \<longleftrightarrow> i = i'"
  by (simp_all add: key_map_def key_exists_def key_listKeys_def key_list_def)

lemma key_map_neq [simp]:
  "key_map n k \<noteq> key_exists n k'" "key_map n k \<noteq> key_list n i"
  "key_map n k \<noteq> key_listKeys n k'" "key_map n k \<noteq> key_count n"
  "key_map n k \<noteq> key_transitions n p"
  "key_exists n k' \<noteq> key_map n k" "key_list n i \<noteq> key_map n k"
  "key_listKeys n k' \<noteq> key_map n k" "key_count n \<noteq> key_map n k"
  "key_transitions n p \<noteq> key_map n k"
  by (simp_all add: key_map_def key_exists_def key_list_def key_listKeys_def key_count_def
      key_transitions_def)

lemma key_exists_neq [simp]:
  "key_exists n k \<noteq> key_list n i" "key_exists n k \<noteq> key_listKeys n k'"
  "key_exists n k \<noteq> key_count n" "key_exists n k \<noteq> key_transitions n p"
  "key_list n i \<noteq> key_exists n k" "key_listKeys n k' \<noteq> key_exists n k"
  "key_count n \<noteq> key_exists n k" "key_transitions n p \<noteq> key_exists n k"
  by (simp_all add: key_exists_def key_list_def key_listKeys_def key_count_def key_transitions_def)

lemma key_list_neq [simp]:
  "key_list n i \<noteq> key_listKeys n k" "key_list n i \<noteq> key_count n"
  "key_list n i \<noteq> key_transitions n p" "key_listKeys n k \<noteq> key_count n"
  "key_listKeys n k \<noteq> key_transitions n p" "key_count n \<noteq> key_transitions n p"
  "key_listKeys n k \<noteq> key_list n i" "key_count n \<noteq> key_list n i"
  "key_transitions n p \<noteq> key_list n i" "key_count n \<noteq> key_listKeys n k"
  "key_transitions n p \<noteq> key_listKeys n k" "key_transitions n p \<noteq> key_count n"
  by (simp_all add: key_list_def key_listKeys_def key_count_def key_transitions_def)

section \<open>The stored count\<close>

lemma Uvarint_loop_Read:
  assumes "ReadUvarint_loop bs x s c i = Inr (v, j)" "unat c + length bs \<le> MaxVarintLen64"
  shows "\<exists>p > 0. Uvarint_loop bs x s (unat c) = (v, p)"
  using assms
proof (induction bs arbitrary: x s c i)
  case Nil
  then show ?case by simp
next
  case (Cons b bs)
  have c9: "unat c \<le> 9" using Cons.prems(2) by (simp add: MaxVarintLen64_def)
  then have c1: "unat (c + 1) = unat c + 1" by (simp add: unat_word_ariths)
  have is9: "c = 9 \<longleftrightarrow> unat c = 9" by (simp add: word_unat_eq_iff)
  show ?case
  proof (cases "b < 0x80")
    case True
    then show ?thesis using Cons.prems(1) c9 is9
      by (auto simp: MaxVarintLen64_def split: if_splits)
  next
    case False
    then have "ReadUvarint_loop bs (x OR push_bit (unat s) (ucast (b AND 0x7f))) (s + 7) (c + 1) (i + 1) = Inr (v, j)"
      using Cons.prems(1) by simp
    from Cons.IH[OF this] obtain p where "p > 0"
      "Uvarint_loop bs (x OR push_bit (unat s) (ucast (b AND 0x7f))) (s + 7) (unat c + 1) = (v, p)"
      using Cons.prems(2) c1 by auto
    then show ?thesis using False c9 by (simp add: MaxVarintLen64_def)
  qed
qed

lemma Uvarint_PutUvarint: "\<exists>p > 0. Uvarint (PutUvarint v) = (v, p)"
proof -
  have "ReadUvarint_loop (PutUvarint v @ []) 0 0 0 0 = Inr (v, length (PutUvarint v))"
    using ReadUvarint_loop_PutUvarint[of 0 0 v "[]" 0 0] by simp
  from Uvarint_loop_Read[of "PutUvarint v" 0 0 0 0 v] this show ?thesis
    using length_PutUvarint[of v] by (simp add: Uvarint_def)
qed

section \<open>Evaluation on the pair of map and transaction\<close>

lemma get_hm_run [simp]: "gbind (get_hm f) g (h, x) = g (f h) (h, x)"
  by (simp add: get_hm_def)

lemma on_hm_run [simp]: "on_hm f (h, x) = (Inr (), (f h, x))" "gbind (on_hm f) g (h, x) = g () (f h, x)"
  by (simp_all add: on_hm_def)

lemma on_tx_run:
  "m x = (Inr r, x') \<Longrightarrow> on_tx m (h, x) = (Inr r, (h, x'))"
  "m x = (Inr r, x') \<Longrightarrow> gbind (on_tx m) g (h, x) = g r (h, x')"
  by (simp_all add: on_tx_def gbind_def)

lemma when_writable_run:
  "tx_IsWritable X x \<Longrightarrow> when_writable X m (h, x) = m (h, x)"
  "tx_IsWritable X x \<Longrightarrow> gbind (when_writable X m) g (h, x) = gbind m g (h, x)"
  by (simp_all add: when_writable_def gbind_def)

section \<open>The abstract map and the invariant\<close>

text \<open>
  \<open>view\<close> is what the transaction sees of the database, \<open>ok\<close> says which elements a key may hold.
  \<open>hm_stored\<close> is the committed map, \<open>hm_contents\<close> the current one.
\<close>

definition el_bytes :: "'t ElemOps \<Rightarrow> 't \<Rightarrow> bytes" where
  "el_bytes E e = (case el_Serialize E e of Inr w \<Rightarrow> SerializeToBytes w | Inl _ \<Rightarrow> [])"

definition hm_stored :: "('x \<Rightarrow> bytes \<Rightarrow> bytes option) \<Rightarrow> ('t, 'x) HashMap \<times> 'x \<Rightarrow> bytes \<Rightarrow> bytes option" where
  "hm_stored view s k = view (snd s) (key_map (hm_name (fst s)) k)"

definition hm_contents ::
  "'t ElemOps \<Rightarrow> ('x \<Rightarrow> bytes \<Rightarrow> bytes option) \<Rightarrow> ('t, 'x) HashMap \<times> 'x \<Rightarrow> bytes \<Rightarrow> bytes option" where
  "hm_contents E view s k =
     (case change_at (fst s) k of
        Some c \<Rightarrow> map_option (el_bytes E) (ch_Element c)
      | None \<Rightarrow> hm_stored view s k)"

definition change_ok ::
  "'t ElemOps \<Rightarrow> (bytes \<Rightarrow> 't \<Rightarrow> bool) \<Rightarrow> ('t, 'x) HashMap \<Rightarrow> bytes option \<Rightarrow> bytes \<Rightarrow>
   't ChangesMapElement \<Rightarrow> bool" where
  "change_ok E ok h d k c \<longleftrightarrow>
     \<not> bad_key h k \<and> (\<forall>e. ch_Element c = Some e \<longrightarrow> ok k e) \<and>
     (case ch_Status c of
        St_none \<Rightarrow> False
      | St_view \<Rightarrow> map_option (el_bytes E) (ch_Element c) = d
      | St_update \<Rightarrow> ch_Element c \<noteq> None \<and> (hm_Indexable h \<and> d = None \<longrightarrow> ch_indexProcess c)
      | St_del \<Rightarrow> ch_Element c = None)"

definition committed_ok ::
  "'t ElemOps \<Rightarrow> (bytes \<Rightarrow> 't \<Rightarrow> bool) \<Rightarrow> bytes option \<Rightarrow> bytes \<Rightarrow> 't CommittedMapElement \<Rightarrow> bool" where
  "committed_ok E ok d k c \<longleftrightarrow>
     map_option (el_bytes E) (cm_Element c) = d \<and> cm_serialized c = d \<and>
     (\<forall>e. cm_Element c = Some e \<longrightarrow> ok k e) \<and>
     cm_size c = (case d of None \<Rightarrow> 0 | Some b \<Rightarrow> length b)"

text \<open>The object a key is loaded into reads the bytes of an element back as that element, with the index given.\<close>

definition loads :: "'t ElemOps \<Rightarrow> (bytes \<Rightarrow> uint64 \<Rightarrow> 't result) \<Rightarrow> bytes \<Rightarrow> 't \<Rightarrow> bool" where
  "loads E create k e \<longleftrightarrow> (\<forall>i. \<exists>out. create k i = Inr out \<and>
     fst (el_Deserialize E out (NewBufferReader (el_bytes E e))) = Inr (el_SetIndex E i e))"

text \<open>A stored entry: its existence flag, its data, which can be read, and, in an indexable map, its index.\<close>

definition stored_ok ::
  "'t ElemOps \<Rightarrow> (bytes \<Rightarrow> 't \<Rightarrow> bool) \<Rightarrow> (bytes \<Rightarrow> bytes option) \<Rightarrow> ('t, 'x) HashMap \<Rightarrow> bytes \<Rightarrow> bool" where
  "stored_ok E ok db h k \<longleftrightarrow>
     (db (key_exists (hm_name h) k) = None \<longleftrightarrow> db (key_map (hm_name h) k) = None) \<and>
     (\<forall>d. db (key_map (hm_name h) k) = Some d \<longrightarrow>
        \<not> bad_key h k \<and> (\<exists>e. ok k e \<and> loads E (hm_CreateObject h) k e \<and> el_bytes E e = d) \<and>
        (hm_Indexable h \<longrightarrow> (\<exists>i. db (key_listKeys (hm_name h) k) = Some (FormatUint i))))"

text \<open>An event that succeeds leaves the entries of this map alone.\<close>

definition quiet_event ::
  "'x StoreTx \<Rightarrow> ('x \<Rightarrow> bytes \<Rightarrow> bytes option) \<Rightarrow> bytes \<Rightarrow> ('x, unit) go \<Rightarrow> bool" where
  "quiet_event X view n m \<longleftrightarrow>
     (\<forall>x x'. tx_IsWritable X x \<longrightarrow> m x = (Inr (), x') \<longrightarrow>
        tx_IsWritable X x' \<and>
        (\<forall>j. view x' (key_map n j) = view x (key_map n j) \<and>
             view x' (key_exists n j) = view x (key_exists n j) \<and>
             view x' (key_listKeys n j) = view x (key_listKeys n j) \<and>
             view x' (key_transitions n j) = view x (key_transitions n j)))"

definition quiet_events :: "'x StoreTx \<Rightarrow> ('x \<Rightarrow> bytes \<Rightarrow> bytes option) \<Rightarrow> ('t, 'x) HashMap \<Rightarrow> bool" where
  "quiet_events X view h \<longleftrightarrow>
     (\<forall>ev k. hm_DeletedEvent h = Some ev \<longrightarrow> quiet_event X view (hm_name h) (ev k)) \<and>
     (\<forall>ev k c i. hm_StoredEvent h = Some ev \<longrightarrow> quiet_event X view (hm_name h) (ev k c i))"

definition events_total :: "'x StoreTx \<Rightarrow> ('t, 'x) HashMap \<Rightarrow> bool" where
  "events_total X h \<longleftrightarrow>
     (\<forall>ev k x. hm_DeletedEvent h = Some ev \<longrightarrow> tx_IsWritable X x \<longrightarrow> \<not> failed (ev k) x) \<and>
     (\<forall>ev k c i x. hm_StoredEvent h = Some ev \<longrightarrow> tx_IsWritable X x \<longrightarrow> \<not> failed (ev k c i) x)"

text \<open>What holds at every moment, inside \<^verbatim>\<open>CommitChanges\<close> too, and between the operations.\<close>

definition hm_core ::
  "'t ElemOps \<Rightarrow> 'x StoreTx \<Rightarrow> ('x \<Rightarrow> bytes \<Rightarrow> bytes option) \<Rightarrow> (bytes \<Rightarrow> uint64 \<Rightarrow> 't result) \<Rightarrow>
   (bytes \<Rightarrow> 't \<Rightarrow> bool) \<Rightarrow> ('t, 'x) HashMap \<times> 'x \<Rightarrow> bool" where
  "hm_core E X view create ok s \<longleftrightarrow>
     tx_IsWritable X (snd s) \<and> hm_CreateObject (fst s) = create \<and> quiet_events X view (fst s) \<and>
     cells_wf (fst s) \<and> finite (dom (hm_stored view s)) \<and>
     hm_Count (fst s) = of_nat (card (dom (hm_contents E view s))) \<and>
     (\<forall>k. stored_ok E ok (view (snd s)) (fst s) k) \<and>
     (\<forall>k c. change_at (fst s) k = Some c \<longrightarrow> change_ok E ok (fst s) (hm_stored view s k) k c) \<and>
     (\<forall>k c. map_of (hm_Committed (fst s)) k = Some c \<longrightarrow> committed_ok E ok (hm_stored view s k) k c)"

definition hm_inv ::
  "'t ElemOps \<Rightarrow> 'x StoreTx \<Rightarrow> ('x \<Rightarrow> bytes \<Rightarrow> bytes option) \<Rightarrow> (bytes \<Rightarrow> uint64 \<Rightarrow> 't result) \<Rightarrow>
   (bytes \<Rightarrow> 't \<Rightarrow> bool) \<Rightarrow> ('t, 'x) HashMap \<times> 'x \<Rightarrow> bool" where
  "hm_inv E X view create ok s \<longleftrightarrow>
     hm_core E X view create ok s \<and>
     hm_countCommitted (fst s) = of_nat (card (dom (hm_stored view s)))"

text \<open>
  The contract of an element type.  Between two commits a map needs of its elements, those that are \<open>ok\<close> for
  their key, that the index is not serialised and that they are stored as they are (\<open>hash_map_entry\<close>).  A
  commit needs of them in addition that they come back from their serialisation, with the index they are
  loaded under (\<open>hash_map_element\<close>).
\<close>

locale hash_map_entry =
  fixes E :: "'t ElemOps"
    and create :: "bytes \<Rightarrow> uint64 \<Rightarrow> 't result"
    and ok :: "bytes \<Rightarrow> 't \<Rightarrow> bool"
  assumes ok_SetIndex: "ok k e \<Longrightarrow> ok k (el_SetIndex E i e)"
    and Serialize_ok: "ok k e \<Longrightarrow> \<exists>w. el_Serialize E e = Inr w"
    and Serialize_SetIndex: "el_Serialize E (el_SetIndex E i e) = el_Serialize E e"
    and SetKey_ok: "ok k e \<Longrightarrow> el_SetKey E k e = e"
    and Validate_ok: "ok k e \<Longrightarrow> el_Validate E e = Inr ()"
    and not_deletable: "ok k e \<Longrightarrow> \<not> el_IsDeletable E e"
begin

lemma ser_SetIndex [simp]: "el_bytes E (el_SetIndex E i e) = el_bytes E e"
  by (simp add: el_bytes_def Serialize_SetIndex)

lemma Serialize_bytes:
  assumes "ok k e"
  obtains w where "el_Serialize E e = Inr w" "el_bytes E e = SerializeToBytes w"
  using Serialize_ok[OF assms] by (auto simp: el_bytes_def)

end

locale hash_map_element = hash_map_entry E create ok
  for E :: "'t ElemOps" and create :: "bytes \<Rightarrow> uint64 \<Rightarrow> 't result" and ok :: "bytes \<Rightarrow> 't \<Rightarrow> bool" +
  assumes roundtrip: "ok k e \<Longrightarrow> \<exists>out. create k i = Inr out \<and>
      fst (el_Deserialize E out (NewBufferReader (el_bytes E e))) = Inr (el_SetIndex E i e)"
begin

lemma loads: "ok k e \<Longrightarrow> loads E create k e"
  using roundtrip by (simp add: loads_def)

lemma ser_inj:
  assumes "ok k e" "ok k e'" "el_bytes E e = el_bytes E e'"
  shows "el_SetIndex E i e = el_SetIndex E i e'"
  using roundtrip[OF assms(1), of i] roundtrip[OF assms(2), of i] assms(3) by auto

end

locale hash_map_block = store_tx ops view + hash_map_entry E create ok
  for ops :: "'x StoreTx" and view :: "'x \<Rightarrow> bytes \<Rightarrow> bytes option"
  and E :: "'t ElemOps" and create :: "bytes \<Rightarrow> uint64 \<Rightarrow> 't result" and ok :: "bytes \<Rightarrow> 't \<Rightarrow> bool"
begin

abbreviation "ser \<equiv> el_bytes E"
abbreviation "stored \<equiv> hm_stored view"
abbreviation "contents \<equiv> hm_contents E view"
abbreviation "core \<equiv> hm_core E ops view create ok"
abbreviation "invar \<equiv> hm_inv E ops view create ok"

lemma coreD:
  assumes "core s"
  shows "tx_IsWritable ops (snd s)" "hm_CreateObject (fst s) = create" "quiet_events ops view (fst s)"
    "cells_wf (fst s)" "finite (dom (stored s))"
    "hm_Count (fst s) = of_nat (card (dom (contents s)))"
    "stored_ok E ok (view (snd s)) (fst s) k"
    "change_at (fst s) k = Some c \<Longrightarrow> change_ok E ok (fst s) (stored s k) k c"
    "map_of (hm_Committed (fst s)) k = Some c' \<Longrightarrow> committed_ok E ok (stored s k) k c'"
  using assms by (auto simp: hm_core_def)

lemma invD: "invar s \<Longrightarrow> core s"
  by (simp add: hm_inv_def)

lemma dom_change_at: "finite (dom (change_at h))"
proof -
  have "dom (change_at h) \<subseteq> dom (map_of (hm_Changes h))" by (auto simp: change_at_def)
  then show ?thesis using finite_dom_map_of finite_subset by blast
qed

lemma finite_contents:
  assumes "core s"
  shows "finite (dom (contents s))"
proof -
  have "dom (contents s) \<subseteq> dom (stored s) \<union> dom (change_at (fst s))"
    by (auto simp: hm_contents_def split: option.splits)
  then show ?thesis
    using coreD(5)[OF assms] dom_change_at[of "fst s"] finite_subset by blast
qed

text \<open>A step that only reads the database keeps everything.\<close>

lemma core_view:
  assumes "core (h, x)" "view x' = view x" "tx_IsWritable ops x' = tx_IsWritable ops x"
  shows "core (h, x')" "contents (h, x') = contents (h, x)" "stored (h, x') = stored (h, x)"
proof -
  show st: "stored (h, x') = stored (h, x)" using assms(2) by (auto simp: hm_stored_def)
  then show co: "contents (h, x') = contents (h, x)"
    by (simp add: hm_contents_def fun_eq_iff split: option.split)
  show "core (h, x')" using assms st co by (simp add: hm_core_def)
qed

text \<open>The parts of the map no operation of a block changes.\<close>

definition static :: "('t, 'x) HashMap \<Rightarrow> ('t, 'x) HashMap \<Rightarrow> bool" where
  "static h h' \<longleftrightarrow>
     hm_name h' = hm_name h \<and> hm_keyLength h' = hm_keyLength h \<and>
     hm_CreateObject h' = hm_CreateObject h \<and> hm_DeletedEvent h' = hm_DeletedEvent h \<and>
     hm_StoredEvent h' = hm_StoredEvent h \<and> hm_Indexable h' = hm_Indexable h"

definition keeps :: "('t, 'x) HashMap \<times> 'x \<Rightarrow> ('t, 'x) HashMap \<times> 'x \<Rightarrow> bool" where
  "keeps s t \<longleftrightarrow>
     static (fst s) (fst t) \<and> view (snd t) = view (snd s) \<and>
     hm_Committed (fst t) = hm_Committed (fst s) \<and>
     hm_countCommitted (fst t) = hm_countCommitted (fst s)"

lemma static_simps:
  "static h h' \<Longrightarrow> bad_key h' = bad_key h"
  "static h h' \<Longrightarrow> quiet_events ops view h' = quiet_events ops view h"
  "static h h' \<Longrightarrow> stored_ok E ok db h' = stored_ok E ok db h"
  "static h h' \<Longrightarrow> change_ok E ok h' = change_ok E ok h"
  "static h h' \<Longrightarrow> stored (h', x) = stored (h, x)"
  "static h h' \<Longrightarrow> events_total ops h' = events_total ops h"
proof -
  assume s: "static h h'"
  show b: "bad_key h' = bad_key h" using s by (simp add: static_def bad_key_def fun_eq_iff)
  show "stored_ok E ok db h' = stored_ok E ok db h"
    by (rule ext) (use s in \<open>simp only: stored_ok_def b, simp add: static_def\<close>)
qed (simp_all add: static_def bad_key_def quiet_events_def events_total_def change_ok_def hm_stored_def
      fun_eq_iff split: status.split)

lemma keeps_stored: "keeps s t \<Longrightarrow> stored t = stored s"
  by (auto simp: keeps_def static_def hm_stored_def fun_eq_iff)

lemma keeps_invar: "keeps s t \<Longrightarrow> invar s \<Longrightarrow> core t \<Longrightarrow> invar t"
  by (simp add: hm_inv_def keeps_stored) (simp add: keeps_def)

lemma core_step:
  assumes "core (h, x)" "static h h'" "view x' = view x" "hm_Committed h' = hm_Committed h"
    and "tx_IsWritable ops x'" "cells_wf h'"
    and "hm_Count h' = of_nat (card (dom (contents (h', x'))))"
    and "\<And>k c. change_at h' k = Some c \<Longrightarrow> change_ok E ok h (stored (h, x) k) k c"
  shows "core (h', x')"
proof -
  have cr: "hm_CreateObject h' = create"
    using assms(2) coreD(2)[OF assms(1)] by (simp add: static_def)
  have st: "stored (h', x') = stored (h, x)"
    using assms(2,3) by (auto simp: hm_stored_def static_def)
  show ?thesis
    unfolding hm_core_def st fst_conv snd_conv assms(3,4) static_simps(2-4)[OF assms(2)]
    using assms(5-8) cr coreD[OF assms(1), unfolded fst_conv snd_conv] by blast
qed

lemma keeps_core:
  assumes "core s" "keeps s t" "tx_IsWritable ops (snd t)" "cells_wf (fst t)"
    and "hm_Count (fst t) = of_nat (card (dom (contents t)))"
    and "\<And>k c. change_at (fst t) k = Some c \<Longrightarrow> change_ok E ok (fst s) (stored s k) k c"
  shows "core t"
  using core_step[of "fst s" "snd s" "fst t" "snd t"] assms by (simp add: keeps_def)

lemma static_refl [simp]: "static h h"
  by (simp add: static_def)

lemma static_cells [simp]:
  "static h (alloc_change k c t h') = static h h'"
  "static h (write_change k f h') = static h h'"
  "static h (ensure_change k h') = static h h'"
  "static h (shift_indexes E i h') = static h h'"
  "static h (h'\<lparr>hm_changed := b\<rparr>) = static h h'"
  "static h (h'\<lparr>hm_Count := n\<rparr>) = static h h'"
  "static h (h'\<lparr>hm_countCommitted := n\<rparr>) = static h h'"
  "static h (h'\<lparr>hm_Committed := cs\<rparr>) = static h h'"
  "static h (h'\<lparr>hm_Changes := ch\<rparr>) = static h h'"
  by (simp_all add: static_def)

text \<open>Reading.\<close>

lemma deserialize_ok:
  assumes "loads E (hm_CreateObject h) k e"
  shows "hm_deserialize E h k (ser e) i = Inr (el_SetIndex E i e)"
proof -
  obtain out where "hm_CreateObject h k i = Inr out"
    "fst (el_Deserialize E out (NewBufferReader (ser e))) = Inr (el_SetIndex E i e)"
    using assms unfolding loads_def by blast
  then show ?thesis by (simp add: hm_deserialize_def)
qed

lemma Get_load_ok:
  assumes "core (h, x)"
  shows "\<exists>i x'. Get_load E ops k (h, x) = (Inr (stored (h, x) k, i), (h, x')) \<and>
           view x' = view x \<and> tx_IsWritable ops x'"
proof (cases "map_of (hm_Committed h) k")
  case (Some c)
  then have c: "committed_ok E ok (stored (h, x) k) k c" using coreD(9)[OF assms] by simp
  with Some show ?thesis using coreD(1)[OF assms]
    by (auto simp: Get_load_def committed_ok_def split: option.split)
next
  case None
  obtain x1 where x1: "tx_Get ops (key_map (hm_name h) k) x = (Inr (stored (h, x) k), x1)"
    "view x1 = view x" "tx_IsWritable ops x1"
    using Get_run[of "key_map (hm_name h) k" x] coreD(1)[OF assms] by (auto simp: hm_stored_def)
  obtain x2 where x2: "tx_Get ops (key_listKeys (hm_name h) k) x1 =
      (Inr (view x (key_listKeys (hm_name h) k)), x2)" "view x2 = view x" "tx_IsWritable ops x2"
    using Get_run[of "key_listKeys (hm_name h) k" x1] x1 by auto
  show ?thesis
  proof (cases "stored (h, x) k \<noteq> None \<and> hm_Indexable h")
    case True
    then obtain i where "view x (key_listKeys (hm_name h) k) = Some (FormatUint i)"
      using coreD(7)[OF assms, of k] by (auto simp: stored_ok_def hm_stored_def)
    then show ?thesis using True None x1 x2
      by (auto simp: Get_load_def on_tx_run)
  next
    case False
    then show ?thesis using None x1 by (auto simp: Get_load_def on_tx_run)
  qed
qed

lemma Get_ok:
  assumes "core (h, x)" "\<not> bad_key h k"
  shows "\<exists>eo h' x'. Get E ops k (h, x) = (Inr eo, (h', x')) \<and> core (h', x') \<and>
           keeps (h, x) (h', x') \<and> contents (h', x') = contents (h, x) \<and>
           map_option ser eo = contents (h, x) k \<and> (\<forall>e. eo = Some e \<longrightarrow> ok k e)"
proof (cases "change_at h k")
  case (Some c)
  then show ?thesis using assms coreD(8)[OF assms(1), of k c]
    by (auto simp: Get_def hm_contents_def keeps_def change_ok_def)
next
  case None
  obtain i x1 where l: "Get_load E ops k (h, x) = (Inr (stored (h, x) k, i), (h, x1))"
    "view x1 = view x" "tx_IsWritable ops x1"
    using Get_load_ok[OF assms(1)] by blast
  have c1: "core (h, x1)" "contents (h, x1) = contents (h, x)" "stored (h, x1) = stored (h, x)"
    using core_view[OF assms(1) l(2)] l(3) coreD(1)[OF assms(1)] by auto
  obtain eo where eo: "map_option ser eo = stored (h, x) k" "\<forall>e. eo = Some e \<longrightarrow> ok k e"
    and run: "Get E ops k (h, x) =
      (Inr eo, (alloc_change k \<lparr>ch_Element = eo, ch_Status = St_view, ch_index = 0, ch_indexProcess = False\<rparr> False h, x1))"
  proof (cases "stored (h, x) k")
    case None1: None
    then show ?thesis using that[of None] None assms(2) l(1)
      by (simp add: Get_def gbind_Inr)
  next
    case (Some d)
    then obtain e where e: "ok k e" "ser e = d" "loads E (hm_CreateObject h) k e"
      using coreD(7)[OF assms(1), of k] by (auto simp: stored_ok_def hm_stored_def)
    then show ?thesis
      using that[of "Some (el_SetIndex E i e)"] Some None assms(2) l(1) deserialize_ok[OF e(3)]
      by (simp add: Get_def gbind_Inr ok_SetIndex)
  qed
  let ?c = "\<lparr>ch_Element = eo, ch_Status = St_view, ch_index = 0, ch_indexProcess = False\<rparr>"
  let ?t = "(alloc_change k ?c False h, x1)"
  have k: "keeps (h, x) ?t" using l(2) by (simp add: keeps_def)
  have ct: "contents ?t = contents (h, x)"
    using None eo(1) keeps_stored[OF k] coreD(4)[OF assms(1)]
    by (auto simp: hm_contents_def fun_eq_iff split: option.split)
  have "core ?t"
    by (rule keeps_core[OF assms(1) k])
      (use coreD[OF assms(1)] eo l(3) ct assms(2) in
        \<open>auto simp: change_ok_def split: if_splits\<close>)
  with run k ct eo None show ?thesis by (auto simp: hm_contents_def)
qed

lemma db_exists:
  assumes "core (h, x)"
  shows "\<exists>x'. tx_Exists ops (key_exists (hm_name h) k) x = (Inr (stored (h, x) k \<noteq> None), x') \<and>
           view x' = view x \<and> tx_IsWritable ops x'"
proof -
  have "view x (key_exists (hm_name h) k) \<noteq> None \<longleftrightarrow> stored (h, x) k \<noteq> None"
    using coreD(7)[OF assms, of k] by (simp add: stored_ok_def hm_stored_def)
  moreover obtain x' where "tx_Exists ops (key_exists (hm_name h) k) x =
      (Inr (view x (key_exists (hm_name h) k) \<noteq> None), x')" "view x' = view x" "tx_IsWritable ops x'"
    using Exists_run[of "key_exists (hm_name h) k" x] coreD(1)[OF assms] by auto
  ultimately show ?thesis by auto
qed

lemma Exists_ok:
  assumes "core (h, x)" "\<not> bad_key h k"
  shows "\<exists>x'. Exists ops k (h, x) = (Inr (contents (h, x) k \<noteq> None), (h, x')) \<and>
           view x' = view x \<and> tx_IsWritable ops x'"
proof -
  obtain x1 where x1: "tx_Exists ops (key_exists (hm_name h) k) x =
      (Inr (stored (h, x) k \<noteq> None), x1)" "view x1 = view x" "tx_IsWritable ops x1"
    using db_exists[OF assms(1)] by blast
  show ?thesis
  proof (cases "change_at h k")
    case None
    show ?thesis
    proof (cases "map_of (hm_Committed h) k")
      case N: None
      show ?thesis using None N x1 assms(2) by (auto simp: Exists_def hm_contents_def on_tx_run)
    next
      case (Some c)
      then have "committed_ok E ok (stored (h, x) k) k c" using coreD(9)[OF assms(1)] by simp
      then have "cm_Element c = None \<longleftrightarrow> stored (h, x) k = None"
        by (metis committed_ok_def map_option_is_None)
      then show ?thesis using None Some assms(2) coreD(1)[OF assms(1)]
        by (simp add: Exists_def hm_contents_def)
    qed
  qed (use assms coreD(1)[OF assms(1)] in \<open>auto simp: Exists_def hm_contents_def\<close>)
qed

text \<open>Writing.\<close>

lemma key_present_ok:
  assumes "core (h, x)"
  shows "\<exists>x'. key_present ops k (h, x) = (Inr (contents (h, x) k \<noteq> None), (h, x')) \<and>
           view x' = view x \<and> tx_IsWritable ops x'"
  using db_exists[OF assms, of k] coreD(1)[OF assms]
  by (auto simp: key_present_def hm_contents_def on_tx_run split: option.split)

lemma shift_index_ok [simp]:
  "map_option ser (ch_Element (shift_index E i c)) = map_option ser (ch_Element c)"
  "ch_Status (shift_index E i c) = ch_Status c"
  "ch_indexProcess (shift_index E i c) = ch_indexProcess c"
  "change_ok E ok h d k c \<Longrightarrow> change_ok E ok h d k (shift_index E i c)"
proof -
  show m: "map_option ser (ch_Element (shift_index E i c)) = map_option ser (ch_Element c)"
    by (cases "ch_Element c") (simp_all add: shift_index_def)
  show s: "ch_Status (shift_index E i c) = ch_Status c"
    and p: "ch_indexProcess (shift_index E i c) = ch_indexProcess c"
    by (simp_all add: shift_index_def)
  have n: "ch_Element (shift_index E i c) = None \<longleftrightarrow> ch_Element c = None"
    by (simp add: shift_index_def)
  assume c: "change_ok E ok h d k c"
  then have "\<forall>e. ch_Element (shift_index E i c) = Some e \<longrightarrow> ok k e"
    by (auto simp: shift_index_def change_ok_def ok_SetIndex)
  then show "change_ok E ok h d k (shift_index E i c)"
    using c unfolding change_ok_def m s p n by blast
qed

text \<open>The changes of a map after its entry \<open>k\<close> is set to \<open>c\<close>, up to the indexes of the others.\<close>

definition sets :: "bytes \<Rightarrow> 't ChangesMapElement \<Rightarrow> ('t, 'x) HashMap \<Rightarrow> ('t, 'x) HashMap \<Rightarrow> bool" where
  "sets k c h h' \<longleftrightarrow>
     change_at h' k = Some c \<and>
     (\<forall>j. j \<noteq> k \<longrightarrow> change_at h' j = change_at h j \<or>
        (\<exists>i. change_at h' j = map_option (shift_index E i) (change_at h j)))"

lemma sets_contents:
  assumes "sets k c h h'" "stored (h', x') = stored (h, x)"
  shows "contents (h', x') = (contents (h, x))(k := map_option ser (ch_Element c))"
proof (rule ext)
  fix j
  show "contents (h', x') j = ((contents (h, x))(k := map_option ser (ch_Element c))) j"
  proof (cases "j = k")
    case True
    then show ?thesis using assms by (simp add: sets_def hm_contents_def)
  next
    case False
    then consider "change_at h' j = change_at h j"
      | i where "change_at h' j = map_option (shift_index E i) (change_at h j)"
      using assms(1) by (auto simp: sets_def)
    then show ?thesis
      by cases (use False assms(2) in \<open>auto simp: hm_contents_def split: option.split\<close>)
  qed
qed

lemma sets_core:
  assumes "core (h, x)" "keeps (h, x) (h', x')" "tx_IsWritable ops x'" "cells_wf h'"
    and "sets k c h h'" "change_ok E ok h (stored (h, x) k) k c"
    and "hm_Count h' = of_nat (card (dom ((contents (h, x))(k := map_option ser (ch_Element c)))))"
  shows "core (h', x')"
proof (rule keeps_core[OF assms(1,2)])
  fix j d assume "change_at (fst (h', x')) j = Some d"
  then show "change_ok E ok (fst (h, x)) (stored (h, x) j) j d"
    using assms(5,6) coreD(8)[OF assms(1), of j] by (cases "j = k") (force simp: sets_def)+
qed (use assms sets_contents[OF assms(5) keeps_stored[OF assms(2)]] in simp_all)

lemma Delete_ok:
  assumes "core (h, x)" "\<not> bad_key h k"
  shows "\<exists>h' x'. Delete E ops k (h, x) = (Inr (), (h', x')) \<and> core (h', x') \<and>
           keeps (h, x) (h', x') \<and> contents (h', x') = (contents (h, x))(k := None)"
proof -
  obtain x1 where p: "key_present ops k (h, x) = (Inr (contents (h, x) k \<noteq> None), (h, x1))"
    "view x1 = view x" "tx_IsWritable ops x1"
    using key_present_ok[OF assms(1)] by blast
  have wf: "cells_wf h" using coreD(4)[OF assms(1)] by simp
  let ?h2 = "write_change k (\<lambda>c. c\<lparr>ch_Status := St_del, ch_Element := None\<rparr>) (ensure_change k h)
    \<lparr>hm_changed := True\<rparr>"
  let ?h3 = "?h2\<lparr>hm_Count := hm_Count h - 1\<rparr>"
  let ?h' = "if contents (h, x) k \<noteq> None
             then if hm_Indexable h then Delete_index E k ?h3 else ?h3 else ?h2"
  have run: "Delete E ops k (h, x) = (Inr (), (?h', x1))"
    using p(1) by (simp add: Delete_def gbind_Inr)
  have "\<exists>c. sets k c h ?h' \<and> ch_Status c = St_del \<and> ch_Element c = None"
    using wf by (auto simp: sets_def Delete_index_def Let_def shift_index_def split: option.split)
  then obtain c where c: "sets k c h ?h'" "ch_Status c = St_del" "ch_Element c = None" by blast
  have k: "keeps (h, x) (?h', x1)" using p(2)
    by (simp add: keeps_def Delete_index_def split: option.split)
  have "core (?h', x1)"
    by (rule sets_core[OF assms(1) k p(3) _ c(1)])
      (use wf c assms coreD(6)[OF assms(1)] card_dom_update(1)[OF finite_contents[OF assms(1)]] in
        \<open>simp_all add: change_ok_def Delete_index_def split: option.split\<close>)
  then show ?thesis using run k c sets_contents[OF c(1) keeps_stored[OF k]] by auto
qed

lemma Update_ok:
  assumes "core (h, x)" "\<not> bad_key h k" "ok k (el_SetKey E k d)"
  shows "\<exists>d' h' x'. Update E ops k (Some d) (h, x) = (Inr d', (h', x')) \<and> core (h', x') \<and>
           keeps (h, x) (h', x') \<and>
           contents (h', x') = (contents (h, x))(k \<mapsto> ser (el_SetKey E k d)) \<and>
           ser d' = ser (el_SetKey E k d) \<and> ok k d'"
proof -
  let ?d = "el_SetKey E k d" and ?p = "contents (h, x) k \<noteq> None"
  obtain x1 where p: "key_present ops k (h, x) = (Inr ?p, (h, x1))"
    "view x1 = view x" "tx_IsWritable ops x1"
    using key_present_ok[OF assms(1)] by blast
  have wf: "cells_wf h" using coreD(4)[OF assms(1)] by simp
  let ?h' = "Update_store E k ?d (\<not> ?p) h"
  let ?d' = "if \<not> ?p \<and> hm_Indexable h then el_SetIndex E (hm_Count h) ?d else ?d"
  have run: "Update E ops k (Some d) (h, x) = (Inr ?d', (?h', x1))"
    using assms(2) Validate_ok[OF assms(3)] not_deletable[OF assms(3)]
    by (simp add: Update_def Let_def gbind_Inr[of "key_present ops k", OF p(1)])
  have d': "ser ?d' = ser ?d" "ok k ?d'" using assms(3) ok_SetIndex by auto
  have old: "change_ok E ok h (stored (h, x) k) k c" if "change_at h k = Some c" for c
    using coreD(8)[OF assms(1)] that by simp
  have ip: "ch_indexProcess c" if "change_at h k = Some c" "?p" "hm_Indexable h" "stored (h, x) k = None" for c
    using old[OF that(1)] that
    by (auto simp: change_ok_def hm_contents_def split: status.splits)
  obtain c where c: "sets k c h ?h'" "ch_Status c = St_update" "ch_Element c = Some ?d'"
    "hm_Indexable h \<and> stored (h, x) k = None \<longrightarrow> ch_indexProcess c"
  proof (cases ?p)
    case True
    let ?c = "(case change_at h k of None \<Rightarrow> new_change | Some c \<Rightarrow> c)
      \<lparr>ch_Status := St_update, ch_Element := Some ?d\<rparr>"
    show ?thesis
      by (rule that[of ?c])
        (use True ip wf in \<open>auto simp: sets_def Update_store_def Let_def hm_contents_def split: option.splits\<close>)
  next
    case False
    let ?c0 = "(case change_at h k of None \<Rightarrow> new_change | Some c \<Rightarrow> c)
      \<lparr>ch_Status := St_update, ch_Element := Some ?d'\<rparr>"
    let ?c = "if hm_Indexable h then ?c0\<lparr>ch_index := hm_Count h, ch_indexProcess := True\<rparr> else ?c0"
    show ?thesis
      by (rule that[of ?c]) (use False wf in \<open>auto simp: sets_def Update_store_def Let_def\<close>)
  qed
  have k: "keeps (h, x) (?h', x1)" using p(2)
    by (simp add: keeps_def Update_store_def Let_def)
  have n: "hm_Count ?h' = hm_Count h + (if ?p then 0 else 1)"
    by (simp add: Update_store_def Let_def)
  have w: "cells_wf ?h'" using wf by (simp add: Update_store_def Let_def)
  have "core (?h', x1)"
    by (rule sets_core[OF assms(1) k p(3) w c(1)])
      (use n c d' assms coreD(6)[OF assms(1)] card_dom_update(2)[OF finite_contents[OF assms(1)]] in
        \<open>simp_all add: change_ok_def\<close>)
  then show ?thesis using run k c d' sets_contents[OF c(1) keeps_stored[OF k]] by auto
qed

lemma Create_ok:
  assumes "core (h, x)" "\<not> bad_key h k" "ok k (el_SetKey E k d)"
  shows "\<exists>x'. Create E ops k (Some d) (h, x) =
           (if contents (h, x) k = None then Update E ops k (Some d) (h, x')
            else (Inl (Error ''Element already exists in Hashmap''), (h, x'))) \<and>
         core (h, x') \<and> view x' = view x"
proof -
  obtain x' where x': "Exists ops k (h, x) = (Inr (contents (h, x) k \<noteq> None), (h, x'))"
    "view x' = view x" "tx_IsWritable ops x'"
    using Exists_ok[OF assms(1,2)] by blast
  then have "core (h, x')" using core_view(1)[OF assms(1)] coreD(1)[OF assms(1)] by simp
  then show ?thesis by (intro exI[of _ x']) (simp add: Create_def gbind_Inr[of "Exists ops k", OF x'(1)] x'(2))
qed

end

text \<open>With elements that can all be read back the changes can be committed.\<close>

locale hash_map_laws = hash_map_block ops view E create ok + hash_map_element E create ok
  for ops :: "'x StoreTx" and view :: "'x \<Rightarrow> bytes \<Rightarrow> bytes option"
  and E :: "'t ElemOps" and create :: "bytes \<Rightarrow> uint64 \<Rightarrow> 't result" and ok :: "bytes \<Rightarrow> 't \<Rightarrow> bool"
begin

lemma core_loads: "core (h, x) \<Longrightarrow> ok k e \<Longrightarrow> loads E (hm_CreateObject h) k e"
  using loads coreD(2) by fastforce

text \<open>
  Committing one key.  \<open>db_set\<close>: the database after the entry of \<open>k\<close> became \<open>d\<close>, the entries of the
  other keys and the transitions untouched.
\<close>

definition db_set :: "bytes \<Rightarrow> bytes \<Rightarrow> bytes option \<Rightarrow> 'x \<Rightarrow> 'x \<Rightarrow> bool" where
  "db_set n k d x x' \<longleftrightarrow>
     (\<forall>j. view x' (key_map n j) = (if j = k then d else view x (key_map n j))) \<and>
     (\<forall>j. view x' (key_exists n j) = None \<longleftrightarrow>
        (if j = k then d = None else view x (key_exists n j) = None)) \<and>
     (\<forall>j. j \<noteq> k \<longrightarrow> view x' (key_listKeys n j) = view x (key_listKeys n j)) \<and>
     (\<forall>p. view x' (key_transitions n p) = view x (key_transitions n p))"

lemma db_set_core:
  assumes "core (h, x)" "change_at h k = Some c" "db_set (hm_name h) k (map_option ser (ch_Element c)) x x'"
    and "tx_IsWritable ops x'" "static h h'" "cells_wf h'" "hm_Count h' = hm_Count h"
    and "change_at h' = (change_at h)(k \<mapsto> c')" "ch_Element c' = ch_Element c"
    and "change_ok E ok h (map_option ser (ch_Element c)) k c'"
    and "map_of (hm_Committed h') = (map_of (hm_Committed h))(k \<mapsto> cm)"
    and "committed_ok E ok (map_option ser (ch_Element c)) k cm"
    and "hm_Indexable h \<Longrightarrow> ch_Element c \<noteq> None \<Longrightarrow>
           \<exists>i. view x' (key_listKeys (hm_name h) k) = Some (FormatUint i)"
  shows "core (h', x')" "contents (h', x') = contents (h, x)"
    "stored (h', x') = (stored (h, x))(k := map_option ser (ch_Element c))"
proof -
  let ?d = "map_option ser (ch_Element c)"
  show st: "stored (h', x') = (stored (h, x))(k := ?d)"
    using assms(3,5) by (auto simp: hm_stored_def db_set_def static_def)
  show co: "contents (h', x') = contents (h, x)"
    using st assms(2,8,9) by (auto simp: hm_contents_def fun_eq_iff split: option.split)
  have so: "stored_ok E ok (view x') h j" for j
  proof (cases "j = k")
    case True
    then show ?thesis using assms(3,13) coreD(8)[OF assms(1), of k c] assms(2) core_loads[OF assms(1)]
      by (auto simp: stored_ok_def db_set_def change_ok_def)
  next
    case False
    then show ?thesis using assms(3) coreD(7)[OF assms(1), of j]
      by (simp add: stored_ok_def db_set_def)
  qed
  have ch: "change_ok E ok h (stored (h', x') j) j a" if "change_at h' j = Some a" for j a
    using that assms(8,10) coreD(8)[OF assms(1), of j a] st by (auto split: if_splits)
  have cm: "committed_ok E ok (stored (h', x') j) j a" if "map_of (hm_Committed h') j = Some a" for j a
    using that assms(11,12) coreD(9)[OF assms(1), of j a] st by (auto split: if_splits)
  have fin: "finite (dom (stored (h', x')))"
    using coreD(5)[OF assms(1)] st by simp
  have cr: "hm_CreateObject h' = create"
    using assms(5) coreD(2)[OF assms(1)] by (simp add: static_def)
  show "core (h', x')"
    unfolding hm_core_def co fst_conv snd_conv static_simps(2-4)[OF assms(5)]
    using assms(4,6,7) so ch cm fin cr coreD(3,6)[OF assms(1)] by auto
qed

text \<open>Two states of the database with the same entries of the map named \<open>n\<close>.\<close>

definition agree_entries :: "bytes \<Rightarrow> 'x \<Rightarrow> 'x \<Rightarrow> bool" where
  "agree_entries n x x' \<longleftrightarrow>
     (\<forall>j. view x' (key_map n j) = view x (key_map n j) \<and>
          view x' (key_exists n j) = view x (key_exists n j) \<and>
          view x' (key_listKeys n j) = view x (key_listKeys n j))"

definition agree :: "bytes \<Rightarrow> 'x \<Rightarrow> 'x \<Rightarrow> bool" where
  "agree n x x' \<longleftrightarrow> agree_entries n x x' \<and>
     (\<forall>p. view x' (key_transitions n p) = view x (key_transitions n p))"

lemma agree_db_set: "db_set n k d x0 x \<Longrightarrow> agree n x x' \<Longrightarrow> db_set n k d x0 x'"
  by (simp add: db_set_def agree_def agree_entries_def)

lemma event_ok:
  assumes "quiet_event ops view n m" "tx_IsWritable ops x" "\<not> failed m x"
  shows "\<exists>x'. m x = (Inr (), x') \<and> tx_IsWritable ops x' \<and> agree n x x'"
proof -
  obtain r x' where m: "m x = (r, x')" by (cases "m x")
  with assms(3) obtain u where "r = Inr u" by (cases r) (auto simp: failed_def)
  with m have "m x = (Inr (), x')" by simp
  with assms(1,2) show ?thesis by (simp add: quiet_event_def agree_def agree_entries_def)
qed

lemma core_quiet:
  assumes "core (h, x)"
  shows "hm_DeletedEvent h = Some ev \<Longrightarrow> quiet_event ops view (hm_name h) (ev k)"
    and "hm_StoredEvent h = Some ev' \<Longrightarrow> quiet_event ops view (hm_name h) (ev' k c i)"
  using coreD(3)[OF assms] by (auto simp: quiet_events_def)

lemma db_delete_ok:
  assumes "tx_IsWritable ops x"
  shows "\<exists>x'. delete_entry ops n k b i (h, x) = (Inr (), (h, x')) \<and>
           tx_IsWritable ops x' \<and> db_set n k None x x'"
proof -
  obtain x1 where 1: "tx_Delete ops (key_map n k) x = (Inr (), x1)"
    "view x1 = (view x)(key_map n k := None)" "tx_IsWritable ops x1"
    using Delete_run[OF assms] .
  obtain x2 where 2: "tx_Delete ops (key_exists n k) x1 = (Inr (), x2)"
    "view x2 = (view x1)(key_exists n k := None)" "tx_IsWritable ops x2"
    using Delete_run[OF 1(3)] .
  obtain x3 where 3: "tx_Delete ops (key_list n i) x2 = (Inr (), x3)"
    "view x3 = (view x2)(key_list n i := None)" "tx_IsWritable ops x3"
    using Delete_run[OF 2(3)] .
  obtain x4 where 4: "tx_Delete ops (key_listKeys n k) x3 = (Inr (), x4)"
    "view x4 = (view x3)(key_listKeys n k := None)" "tx_IsWritable ops x4"
    using Delete_run[OF 3(3)] .
  show ?thesis
    by (rule exI[of _ "if b then x4 else x2"]) (use 1 2 3 4 in \<open>simp add: delete_entry_def on_tx_run db_set_def\<close>)
qed

lemma db_insert_ok:
  assumes "tx_IsWritable ops x"
  shows "\<exists>x'. insert_entry ops n k b i (h, x) = (Inr (), (h, x')) \<and> tx_IsWritable ops x' \<and>
           (\<forall>j. view x' (key_map n j) = view x (key_map n j)) \<and>
           (\<forall>j. view x' (key_exists n j) = (if j = k then Some [1] else view x (key_exists n j))) \<and>
           (\<forall>j. view x' (key_listKeys n j) =
              (if j = k \<and> b then Some (FormatUint i) else view x (key_listKeys n j))) \<and>
           (\<forall>p. view x' (key_transitions n p) = view x (key_transitions n p))"
proof -
  obtain x1 where 1: "tx_Put ops (key_exists n k) (Some [1]) x = (Inr (), x1)"
    "view x1 = (view x)(key_exists n k \<mapsto> [1])" "tx_IsWritable ops x1"
    using Put_run[OF assms] .
  obtain x2 where 2: "tx_Put ops (key_list n i) (Some k) x1 = (Inr (), x2)"
    "view x2 = (view x1)(key_list n i \<mapsto> k)" "tx_IsWritable ops x2"
    using Put_run[OF 1(3)] .
  obtain x3 where 3: "tx_Put ops (key_listKeys n k) (Some (FormatUint i)) x2 = (Inr (), x3)"
    "view x3 = (view x2)(key_listKeys n k \<mapsto> FormatUint i)" "tx_IsWritable ops x3"
    using Put_run[OF 2(3)] .
  show ?thesis
    by (rule exI[of _ "if b then x3 else x1"]) (use 1 2 3 in \<open>simp add: insert_entry_def on_tx_run\<close>)
qed

text \<open>What the loops of \<^verbatim>\<open>CommitChanges\<close> keep.\<close>

definition commits :: "('t, 'x) HashMap \<times> 'x \<Rightarrow> ('t, 'x) HashMap \<times> 'x \<Rightarrow> bool" where
  "commits s t \<longleftrightarrow>
     core t \<and> static (fst s) (fst t) \<and> contents t = contents s \<and> hm_Count (fst t) = hm_Count (fst s) \<and>
     dom (change_at (fst t)) = dom (change_at (fst s)) \<and>
     (\<forall>p. view (snd t) (key_transitions (hm_name (fst s)) p) =
          view (snd s) (key_transitions (hm_name (fst s)) p))"

lemma commits_refl: "core s \<Longrightarrow> commits s s"
  by (simp add: commits_def)

lemma commits_trans: "commits s t \<Longrightarrow> commits t u \<Longrightarrow> commits s u"
  by (auto simp: commits_def static_def)

lemma committed_simps [simp]:
  "change_at (write_committed k f h) = change_at h" "cells_wf (write_committed k f h) = cells_wf h"
  "hm_Count (write_committed k f h) = hm_Count h" "hm_name (write_committed k f h) = hm_name h"
  "static h' (write_committed k f h) = static h' h"
  "map_of (hm_Committed (write_committed k f h)) = (map_of (hm_Committed h))(k \<mapsto> f (committed_at h k))"
  "committed_at (write_committed k f h) k = f (committed_at h k)"
  "committed_at (write_change j g h) k = committed_at h k"
  by (simp_all add: write_committed_def update_conv' committed_at_def static_def)

lemma commit_del_ok:
  assumes "core (h, x)" "events_total ops h \<or> \<not> failed (commit_del ops k) (h, x)"
  shows "\<exists>h' x'. commit_del ops k (h, x) = (Inr (), (h', x')) \<and> commits (h, x) (h', x') \<and>
           (\<forall>c. change_at h' k = Some c \<longrightarrow> ch_Status c \<noteq> St_del) \<and>
           (\<forall>j. j \<noteq> k \<longrightarrow> change_at h' j = change_at h j)"
proof (cases "\<exists>c. change_at h k = Some c \<and> ch_Status c = St_del")
  case False
  then show ?thesis using commits_refl[OF assms(1)]
    by (auto simp: commit_del_def split: option.split)
next
  case True
  then obtain c where c: "change_at h k = Some c" "ch_Status c = St_del" "ch_Element c = None"
    "\<not> bad_key h k"
    using coreD(8)[OF assms(1), of k] by (auto simp: change_ok_def)
  obtain x1 where x1: "tx_Exists ops (key_exists (hm_name h) k) x = (Inr (stored (h, x) k \<noteq> None), x1)"
    "view x1 = view x" "tx_IsWritable ops x1"
    using db_exists[OF assms(1)] by blast
  let ?f = "\<lambda>c. c\<lparr>cm_Status := St_view, cm_Element := None, cm_size := 0, cm_serialized := None\<rparr>"
  let ?h1 = "write_committed k ?f (write_change k (\<lambda>c. c\<lparr>ch_Status := St_view\<rparr>) h)"
  let ?h2 = "\<lambda>st. write_change k (\<lambda>c. c\<lparr>ch_indexProcess := False\<rparr>) (write_committed k (\<lambda>c. c\<lparr>cm_Stored := st\<rparr>) ?h1)"
  have "\<exists>st x'. commit_del ops k (h, x) = (Inr (), (?h2 st, x')) \<and> tx_IsWritable ops x' \<and>
          db_set (hm_name h) k None x x'"
  proof (cases "stored (h, x) k")
    case None
    then have "db_set (hm_name h) k None x x1"
      using x1(2) coreD(7)[OF assms(1), of k] by (auto simp: db_set_def hm_stored_def stored_ok_def)
    with None c x1 show ?thesis by (auto simp: commit_del_def on_tx_run)
  next
    case (Some d)
    obtain x2 where x2: "delete_entry ops (hm_name h) k (hm_Indexable h \<and> ch_indexProcess c) (ch_index c)
        (?h1, x1) = (Inr (), (?h1, x2))" "tx_IsWritable ops x2" "db_set (hm_name h) k None x1 x2"
      using db_delete_ok[OF x1(3)] by blast
    then have x2': "db_set (hm_name h) k None x x2" using x1(2) by (simp add: db_set_def)
    obtain x3 where x3: "(case hm_DeletedEvent h of None \<Rightarrow> gret () | Some ev \<Rightarrow> on_tx (ev k)) (?h1, x2) =
        (Inr (), (?h1, x3))" "tx_IsWritable ops x3" "db_set (hm_name h) k None x x3"
    proof (cases "hm_DeletedEvent h")
      case (Some ev)
      have "failed (ev k) x2 \<Longrightarrow> failed (commit_del ops k) (h, x)"
        using \<open>stored (h, x) k = Some d\<close> Some c x1(1) x1(3) x2(1)
        by (auto simp: failed_def commit_del_def on_tx_run when_writable_run gbind_Inr gbind_Inl on_tx_def)
      then have nf: "\<not> failed (ev k) x2"
        using assms(2) Some x2(2) by (auto simp: events_total_def)
      obtain x3 where "ev k x2 = (Inr (), x3)" "tx_IsWritable ops x3" "agree (hm_name h) x2 x3"
        using event_ok[OF core_quiet(1)[OF assms(1) Some] x2(2) nf] by blast
      with Some x2' that show ?thesis by (simp add: on_tx_run agree_db_set)
    qed (use x2 x2' that in simp)
    have "commit_del ops k (h, x) = (Inr (), (?h2 St_del, x3))"
      using Some c x1(1) x1(3) x2(1) x3(1)
      by (simp add: commit_del_def on_tx_run when_writable_run gbind_Inr)
    with x3 show ?thesis by blast
  qed
  then obtain st x' where run: "commit_del ops k (h, x) = (Inr (), (?h2 st, x'))"
    "tx_IsWritable ops x'" "db_set (hm_name h) k None x x'" by blast
  let ?c = "c\<lparr>ch_Status := St_view, ch_indexProcess := False\<rparr>"
  let ?m = "(?f (committed_at h k))\<lparr>cm_Stored := st\<rparr>"
  note core' = db_set_core[OF assms(1) c(1) _ run(2), of "?h2 st" ?c ?m]
  have "core (?h2 st, x')" "contents (?h2 st, x') = contents (h, x)"
    by (rule core'; use coreD(4)[OF assms(1)] run(3) c in \<open>simp add: change_ok_def committed_ok_def\<close>)+
  then have "commits (h, x) (?h2 st, x')"
    using c(1) run(3) coreD(4)[OF assms(1)] by (auto simp: commits_def db_set_def)
  with run(1) show ?thesis using coreD(4)[OF assms(1)] c by auto
qed

definition db_like ::
  "(bytes \<Rightarrow> bytes option) \<Rightarrow> (bytes \<Rightarrow> bytes option) \<Rightarrow> bytes \<Rightarrow> bytes \<Rightarrow> bytes option \<Rightarrow> bool \<Rightarrow> bool" where
  "db_like v v' n k d indexable \<longleftrightarrow>
     (\<forall>j. v' (key_map n j) = (if j = k then d else v (key_map n j))) \<and>
     (\<forall>j. v' (key_exists n j) = None \<longleftrightarrow> (if j = k then d = None else v (key_exists n j) = None)) \<and>
     (\<forall>j. j \<noteq> k \<longrightarrow> v' (key_listKeys n j) = v (key_listKeys n j)) \<and>
     (\<forall>p. v' (key_transitions n p) = v (key_transitions n p)) \<and>
     (indexable \<longrightarrow> (\<exists>i. v' (key_listKeys n k) = Some (FormatUint i)))"

lemma commit_update_ok:
  assumes "core (h, x)" "\<forall>c. change_at h k = Some c \<longrightarrow> ch_Status c \<noteq> St_del"
    and "events_total ops h \<or> \<not> failed (commit_update E ops k) (h, x)"
  shows "\<exists>h' x'. commit_update E ops k (h, x) = (Inr (), (h', x')) \<and> commits (h, x) (h', x') \<and>
           stored (h', x') = (stored (h, x))(k := contents (h, x) k) \<and>
           (\<forall>j. map_option ch_Status (change_at h' j) = map_option ch_Status (change_at h j))"
proof (cases "\<exists>c. change_at h k = Some c \<and> ch_Status c = St_update")
  case False
  have "contents (h, x) k = stored (h, x) k"
  proof (cases "change_at h k")
    case (Some c)
    then have ch: "change_ok E ok h (stored (h, x) k) k c" using coreD(8)[OF assms(1)] by simp
    moreover have "ch_Status c \<noteq> St_none" using ch by (auto simp: change_ok_def)
    then have "ch_Status c = St_view" using False assms(2) Some by (cases "ch_Status c") auto
    ultimately show ?thesis using Some by (simp add: hm_contents_def change_ok_def)
  qed (simp add: hm_contents_def)
  then show ?thesis using False commits_refl[OF assms(1)]
    by (auto simp: commit_update_def split: option.split)
next
  case True
  then obtain c where c0: "change_at h k = Some c" "ch_Status c = St_update" by blast
  moreover have "change_ok E ok h (stored (h, x) k) k c" using coreD(8)[OF assms(1)] c0 by simp
  ultimately obtain e where c: "change_at h k = Some c" "ch_Status c = St_update"
    "ch_Element c = Some e" "ok k e" "\<not> bad_key h k"
    "hm_Indexable h \<and> stored (h, x) k = None \<longrightarrow> ch_indexProcess c"
    by (auto simp: change_ok_def)
  obtain x1 where x1: "tx_Exists ops (key_exists (hm_name h) k) x = (Inr (stored (h, x) k \<noteq> None), x1)"
    "view x1 = view x" "tx_IsWritable ops x1"
    using db_exists[OF assms(1)] by blast
  let ?h1 = "write_committed k (\<lambda>m. m\<lparr>cm_Element := Some e\<rparr>) h"
  let ?h2 = "write_committed k (\<lambda>m. m\<lparr>cm_serialized := Some (ser e), cm_size := length (ser e)\<rparr>) ?h1"
  let ?h3 = "write_committed k (\<lambda>m. m\<lparr>cm_Status := St_view, cm_Stored := St_update\<rparr>) ?h2"
  let ?h4 = "write_change k (\<lambda>v. v\<lparr>ch_indexProcess := False\<rparr>) ?h3"
  let ?n = "hm_name h"
  let ?new = "commit_new ops k h c"
  have "\<exists>x3. (if stored (h, x) k = None then ?new else gret ()) (?h1, x1) = (Inr (), (?h1, x3)) \<and>
          tx_IsWritable ops x3 \<and>
          (\<forall>v. v = (view x3)(key_map ?n k \<mapsto> ser e) \<longrightarrow>
             db_like (view x) v ?n k (Some (ser e)) (hm_Indexable h))"
  proof (cases "stored (h, x) k")
    case (Some d)
    then show ?thesis
      using x1 coreD(7)[OF assms(1), of k] by (auto simp: db_like_def stored_ok_def hm_stored_def)
  next
    case None
    obtain x2 where x2: "insert_entry ops ?n k (hm_Indexable h \<and> ch_indexProcess c) (ch_index c)
        (?h1, x1) = (Inr (), (?h1, x2))" "tx_IsWritable ops x2"
      "\<And>j. view x2 (key_map ?n j) = view x (key_map ?n j)"
      "\<And>j. view x2 (key_exists ?n j) = (if j = k then Some [1] else view x (key_exists ?n j))"
      "\<And>j. view x2 (key_listKeys ?n j) = (if j = k \<and> hm_Indexable h \<and> ch_indexProcess c
          then Some (FormatUint (ch_index c)) else view x (key_listKeys ?n j))"
      "\<And>p. view x2 (key_transitions ?n p) = view x (key_transitions ?n p)"
      using db_insert_ok[OF x1(3), of ?n k "hm_Indexable h \<and> ch_indexProcess c" "ch_index c" ?h1] x1(2)
      by auto
    obtain x3 where x3: "(case hm_StoredEvent h of None \<Rightarrow> gret ()
          | Some ev \<Rightarrow> on_tx (ev k (committed_at ?h1 k) (ch_index c))) (?h1, x2) = (Inr (), (?h1, x3))"
      "tx_IsWritable ops x3" "agree ?n x2 x3"
    proof (cases "hm_StoredEvent h")
      case (Some ev)
      let ?ev = "ev k (committed_at ?h1 k) (ch_index c)"
      have "failed ?new (?h1, x1)" if "failed ?ev x2"
        using that Some x1(3) x2(1)
        by (auto simp: failed_def commit_new_def when_writable_run gbind_Inr on_tx_def)
      moreover have "failed (commit_update E ops k) (h, x)" if "failed ?new (?h1, x1)"
        using that None c(1-3)
        by (auto simp: failed_def commit_update_def gbind_Inl
            on_tx_run(2)[where m = "tx_Exists ops (key_exists ?n k)", OF x1(1)])
      ultimately have nf: "\<not> failed ?ev x2"
        using assms(3) Some x2(2) by (auto simp: events_total_def)
      obtain x3 where "ev k (committed_at ?h1 k) (ch_index c) x2 = (Inr (), x3)" "tx_IsWritable ops x3"
        "agree ?n x2 x3"
        using event_ok[OF core_quiet(2)[OF assms(1) Some] x2(2) nf] by blast
      with Some that show ?thesis by (simp add: on_tx_run)
    qed (use x2(2) that in \<open>simp add: agree_def agree_entries_def\<close>)
    have "?new (?h1, x1) = (Inr (), (?h1, x3))"
      using x1(3) x2(1) x3(1) by (simp add: commit_new_def when_writable_run gbind_Inr)
    moreover have "db_like (view x) ((view x3)(key_map ?n k \<mapsto> ser e)) ?n k (Some (ser e)) (hm_Indexable h)"
      using x2(3-6) x3(3) c(6) None by (auto simp: db_like_def agree_def agree_entries_def)
    ultimately show ?thesis using None x3(2) by simp
  qed
  then obtain x3 where x3:
    "(if stored (h, x) k = None then ?new else gret ()) (?h1, x1) = (Inr (), (?h1, x3))"
    "tx_IsWritable ops x3"
    "db_like (view x) ((view x3)(key_map ?n k \<mapsto> ser e)) ?n k (Some (ser e)) (hm_Indexable h)" by blast
  obtain x4 where x4: "tx_Put ops (key_map ?n k) (Some (ser e)) x3 = (Inr (), x4)"
    "view x4 = (view x3)(key_map ?n k \<mapsto> ser e)" "tx_IsWritable ops x4"
    using Put_run[OF x3(2)] by blast
  obtain w where w: "el_Serialize E e = Inr w" "SerializeToBytes w = ser e" by (rule Serialize_bytes[OF c(4)]) simp
  have run: "commit_update E ops k (h, x) = (Inr (), (?h4, x4))"
  proof (cases "stored (h, x) k")
    case None
    then show ?thesis using x3(1,2) c(1-3)
      by (simp add: commit_update_def on_tx_run(2)[where m = "tx_Exists ops (key_exists ?n k)", OF x1(1)]
          on_tx_run(2)[where m = "tx_Put ops (key_map ?n k) (Some (ser e))", OF x4(1)]
          gbind_Inr Let_def w when_writable_run)
  next
    case (Some d)
    then have "x3 = x1" using x3(1) by simp
    with Some show ?thesis using x1(1,3) x4(1) c(1-3)
      by (simp add: commit_update_def on_tx_run when_writable_run Let_def w gbind_Inr)
  qed
  have db: "db_set ?n k (map_option ser (ch_Element c)) x x4"
    "hm_Indexable h \<Longrightarrow> \<exists>i. view x4 (key_listKeys ?n k) = Some (FormatUint i)"
    using x3(3) x4(2) c(3) by (auto simp: db_like_def db_set_def)
  let ?m = "(committed_at h k)\<lparr>cm_Element := Some e, cm_serialized := Some (ser e),
    cm_size := length (ser e), cm_Status := St_view, cm_Stored := St_update\<rparr>"
  let ?c = "c\<lparr>ch_indexProcess := False\<rparr>"
  note core' = db_set_core[OF assms(1) c(1) db(1) x4(3), of ?h4 ?c ?m]
  have "core (?h4, x4)" "contents (?h4, x4) = contents (h, x)"
    "stored (?h4, x4) = (stored (h, x))(k := map_option ser (ch_Element c))"
    by (rule core'; use coreD(4)[OF assms(1)] db(2) c in \<open>simp add: change_ok_def committed_ok_def\<close>)+
  moreover from this have "commits (h, x) (?h4, x4)"
    using c(1) db(1) coreD(4)[OF assms(1)] by (auto simp: commits_def db_set_def)
  ultimately show ?thesis using run coreD(4)[OF assms(1)] c(1)
    by (intro exI[of _ ?h4] exI[of _ x4]) (simp add: hm_contents_def)
qed

text \<open>The loops over all keys.\<close>

lemma commit_del_loop:
  assumes "core s0" "events_total ops (fst s0) \<or> \<not> failed (gfor ord (commit_del ops)) s0"
  shows "\<exists>t. gfor ord (commit_del ops) s0 = (Inr (), t) \<and> commits s0 t \<and>
           (\<forall>k \<in> set ord. \<forall>c. change_at (fst t) k = Some c \<longrightarrow> ch_Status c \<noteq> St_del)"
proof -
  have "\<exists>t. gfor ord (commit_del ops) s0 = (Inr (), t) \<and> commits s0 t \<and>
          (\<forall>k \<in> set ord. \<forall>c. change_at (fst t) k = Some c \<longrightarrow> ch_Status c \<noteq> St_del) \<and>
          (\<forall>k. (\<forall>c. change_at (fst s0) k = Some c \<longrightarrow> ch_Status c \<noteq> St_del) \<longrightarrow>
               (\<forall>c. change_at (fst t) k = Some c \<longrightarrow> ch_Status c \<noteq> St_del))"
  proof (rule gfor_establish[where T = "events_total ops (fst s0)"])
    fix k s assume "commits s0 s" "events_total ops (fst s0) \<or> \<not> failed (commit_del ops k) s"
    moreover obtain h x where s: "s = (h, x)" by (cases s)
    moreover have "events_total ops h = events_total ops (fst s0)"
      using \<open>commits s0 s\<close> s static_simps(6) by (auto simp: commits_def)
    ultimately obtain h' x' where "commit_del ops k s = (Inr (), (h', x'))" "commits s (h', x')"
      "\<forall>c. change_at h' k = Some c \<longrightarrow> ch_Status c \<noteq> St_del" "\<forall>j. j \<noteq> k \<longrightarrow> change_at h' j = change_at h j"
      using commit_del_ok[of h x k] by (auto simp: commits_def)
    then show "\<exists>t. commit_del ops k s = (Inr (), t) \<and> commits s0 t \<and>
        (\<forall>c. change_at (fst t) k = Some c \<longrightarrow> ch_Status c \<noteq> St_del) \<and>
        (\<forall>y. (\<forall>c. change_at (fst s) y = Some c \<longrightarrow> ch_Status c \<noteq> St_del) \<longrightarrow>
             (\<forall>c. change_at (fst t) y = Some c \<longrightarrow> ch_Status c \<noteq> St_del))"
      using \<open>commits s0 s\<close> s commits_trans by (metis fst_conv)
  qed (use assms commits_refl in auto)
  then show ?thesis by blast
qed

lemma commit_update_loop:
  assumes "core s0" "\<forall>k c. change_at (fst s0) k = Some c \<longrightarrow> ch_Status c \<noteq> St_del"
    and "events_total ops (fst s0) \<or> \<not> failed (gfor ord (commit_update E ops)) s0"
  shows "\<exists>t. gfor ord (commit_update E ops) s0 = (Inr (), t) \<and> commits s0 t \<and>
           (\<forall>k \<in> set ord. stored t k = contents t k)"
proof -
  let ?P = "\<lambda>s. commits s0 s \<and> (\<forall>k c. change_at (fst s) k = Some c \<longrightarrow> ch_Status c \<noteq> St_del)"
  have "\<exists>t. gfor ord (commit_update E ops) s0 = (Inr (), t) \<and> ?P t \<and>
          (\<forall>k \<in> set ord. stored t k = contents t k) \<and>
          (\<forall>k. stored s0 k = contents s0 k \<longrightarrow> stored t k = contents t k)"
  proof (rule gfor_establish[where T = "events_total ops (fst s0)"])
    fix k s assume P: "?P s" and T: "events_total ops (fst s0) \<or> \<not> failed (commit_update E ops k) s"
    obtain h x where s: "s = (h, x)" by (cases s)
    have "events_total ops h = events_total ops (fst s0)"
      using P s static_simps(6) by (auto simp: commits_def)
    with P T s obtain h' x' where r: "commit_update E ops k s = (Inr (), (h', x'))" "commits s (h', x')"
      "stored (h', x') = (stored s)(k := contents s k)"
      "\<forall>j. map_option ch_Status (change_at h' j) = map_option ch_Status (change_at h j)"
      using commit_update_ok[of h x k] by (auto simp: commits_def)
    have "ch_Status c \<noteq> St_del" if "change_at h' j = Some c" for j c
      using r(4)[rule_format, of j] that P s by (cases "change_at h j") auto
    moreover have "contents (h', x') = contents s" using r(2) by (simp add: commits_def)
    ultimately show "\<exists>t. commit_update E ops k s = (Inr (), t) \<and> ?P t \<and> stored t k = contents t k \<and>
        (\<forall>y. stored s y = contents s y \<longrightarrow> stored t y = contents t y)"
      using r(1,2,3) P commits_trans[of s0 s "(h', x')"] by (intro exI[of _ "(h', x')"]) auto
  qed (use assms commits_refl in auto)
  then show ?thesis by blast
qed

lemma gfor_on_hm:
  "gfor ks (\<lambda>k. on_hm (f k)) (h, x) = (Inr (), (fold f ks h, x))"
  by (induction ks arbitrary: h) simp_all

lemma remove_change_one:
  "change_at (remove_change k h) = (change_at h)(k := None)"
  "cells_wf h \<Longrightarrow> cells_wf (remove_change k h)"
  "static h' (remove_change k h) = static h' h"
  "hm_Count (remove_change k h) = hm_Count h" "hm_Committed (remove_change k h) = hm_Committed h"
  "hm_countCommitted (remove_change k h) = hm_countCommitted h"
  by (auto simp: remove_change_def change_at_def delete_conv' fun_eq_iff cells_wf_def distinct_delete
      simp del: map_of_eq_Some_iff split: if_splits)

lemma remove_changes:
  assumes "cells_wf h"
  shows "change_at (fold remove_change ks h) = (\<lambda>j. if j \<in> set ks then None else change_at h j)"
    and "cells_wf (fold remove_change ks h) \<and> static h (fold remove_change ks h) \<and>
      hm_Count (fold remove_change ks h) = hm_Count h \<and>
      hm_Committed (fold remove_change ks h) = hm_Committed h \<and>
      hm_countCommitted (fold remove_change ks h) = hm_countCommitted h"
proof -
  show "change_at (fold remove_change ks h) = (\<lambda>j. if j \<in> set ks then None else change_at h j)"
    by (induction ks arbitrary: h) (auto simp: remove_change_one fun_eq_iff)
  have "static h g \<and> cells_wf g \<Longrightarrow>
      cells_wf (fold remove_change ks g) \<and> static h (fold remove_change ks g) \<and>
      hm_Count (fold remove_change ks g) = hm_Count g \<and>
      hm_Committed (fold remove_change ks g) = hm_Committed g \<and>
      hm_countCommitted (fold remove_change ks g) = hm_countCommitted g" for g
    by (induction ks arbitrary: g) (simp_all add: remove_change_one)
  then show "cells_wf (fold remove_change ks h) \<and> static h (fold remove_change ks h) \<and>
      hm_Count (fold remove_change ks h) = hm_Count h \<and>
      hm_Committed (fold remove_change ks h) = hm_Committed h \<and>
      hm_countCommitted (fold remove_change ks h) = hm_countCommitted h"
    using assms by simp
qed

lemma core_agree:
  assumes "core (h, x)" "agree_entries (hm_name h) x x'" "tx_IsWritable ops x'"
  shows "core (h, x')" "contents (h, x') = contents (h, x)" "stored (h, x') = stored (h, x)"
proof -
  show st: "stored (h, x') = stored (h, x)" using assms(2) by (auto simp: hm_stored_def agree_entries_def)
  then show co: "contents (h, x') = contents (h, x)"
    by (simp add: hm_contents_def fun_eq_iff split: option.split)
  have "stored_ok E ok (view x') h k" for k
    using coreD(7)[OF assms(1), of k] assms(2) by (simp add: stored_ok_def agree_entries_def)
  then show "core (h, x')"
    using coreD(2-6)[OF assms(1)] coreD(8,9)[OF assms(1)] assms(3)
    unfolding hm_core_def co st by auto
qed

text \<open>Forgetting changes that are written.\<close>

lemma clean_core:
  assumes "core (h, x)" "stored (h, x) = contents (h, x)" "static h h'" "cells_wf h'"
    and "hm_Committed h' = hm_Committed h" "hm_Count h' = hm_Count h"
    and "\<And>k. change_at h' k = change_at h k \<or> change_at h' k = None"
  shows "core (h', x)" "contents (h', x) = contents (h, x)" "stored (h', x) = stored (h, x)"
proof -
  show st: "stored (h', x) = stored (h, x)" by (rule static_simps(5)[OF assms(3)])
  show con: "contents (h', x) = contents (h, x)"
  proof (rule ext)
    fix k
    show "contents (h', x) k = contents (h, x) k"
    proof (cases "change_at h' k = change_at h k")
      case True
      then show ?thesis using st by (simp add: hm_contents_def split: option.split)
    next
      case False
      then have "contents (h', x) k = stored (h, x) k"
        using assms(7)[of k] st by (simp add: hm_contents_def)
      then show ?thesis using assms(2) by simp
    qed
  qed
  show "core (h', x)"
  proof (rule core_step[OF assms(1,3)])
    show "hm_Count h' = of_nat (card (dom (contents (h', x))))"
      using coreD(6)[OF assms(1)] assms(6) con by simp
    show "\<And>k c. change_at h' k = Some c \<Longrightarrow> change_ok E ok h (stored (h, x) k) k c"
      using coreD(8)[OF assms(1)] assms(7) by (metis fst_conv option.distinct(1))
  qed (use coreD(1)[OF assms(1)] assms(4,5) in simp_all)
qed

lemma check_loop:
  assumes "\<And>k. k \<in> set ord \<Longrightarrow> \<not> bad_key h k"
  shows "gfor ord (\<lambda>k. gcheck (bad_key h k) m) s = (Inr (), s)"
  using assms by (induction ord) simp_all

lemma CommitChanges_ok:
  assumes "core (h, x)" "set ord0 = dom (change_at h)" "set ord1 = dom (change_at h)"
    "set ord2 = dom (change_at h)"
    and nf: "events_total ops h \<or> \<not> failed (CommitChanges E ops ord0 ord1 ord2) (h, x)"
  shows "\<exists>h' x'. CommitChanges E ops ord0 ord1 ord2 (h, x) = (Inr (), (h', x')) \<and> invar (h', x') \<and>
           static h h' \<and> contents (h', x') = contents (h, x) \<and> stored (h', x') = contents (h, x) \<and>
           view x' (key_count (hm_name h)) = Some (PutUvarint (hm_Count h')) \<and>
           (\<forall>p. view x' (key_transitions (hm_name h) p) = view x (key_transitions (hm_name h) p))"
proof -
  have ck: "gfor ord0 (\<lambda>k. gcheck (bad_key h k) m) s = (Inr (), s)" for m s
    by (rule check_loop) (use assms(2) coreD(8)[OF assms(1)] in \<open>auto simp: change_ok_def\<close>)
  have "failed (gfor ord1 (commit_del ops)) (h, x) \<Longrightarrow> failed (CommitChanges E ops ord0 ord1 ord2) (h, x)"
    by (auto simp: failed_def CommitChanges_def ck gbind_Inr gbind_Inl)
  then have nf1: "events_total ops (fst (h, x)) \<or> \<not> failed (gfor ord1 (commit_del ops)) (h, x)"
    using nf by auto
  obtain h1 x1 where 1: "gfor ord1 (commit_del ops) (h, x) = (Inr (), (h1, x1))" "commits (h, x) (h1, x1)"
    "\<forall>k \<in> set ord1. \<forall>c. change_at h1 k = Some c \<longrightarrow> ch_Status c \<noteq> St_del"
    using commit_del_loop[OF assms(1) nf1] by auto
  have "core (h1, x1)" "\<forall>k c. change_at h1 k = Some c \<longrightarrow> ch_Status c \<noteq> St_del"
    using 1(2,3) assms(3) unfolding commits_def by (simp, metis domI fst_conv)
  moreover have "failed (gfor ord2 (commit_update E ops)) (h1, x1) \<Longrightarrow>
      failed (CommitChanges E ops ord0 ord1 ord2) (h, x)"
    using 1(1) by (auto simp: failed_def CommitChanges_def ck gbind_Inr gbind_Inl)
  then have "events_total ops (fst (h1, x1)) \<or> \<not> failed (gfor ord2 (commit_update E ops)) (h1, x1)"
    using nf 1(2) static_simps(6) by (auto simp: commits_def)
  ultimately obtain h2 x2 where 2: "gfor ord2 (commit_update E ops) (h1, x1) = (Inr (), (h2, x2))"
    "commits (h1, x1) (h2, x2)" "\<forall>k \<in> set ord2. stored (h2, x2) k = contents (h2, x2) k"
    using commit_update_loop[of "(h1, x1)" ord2] by auto
  have c2: "commits (h, x) (h2, x2)" using commits_trans 1(2) 2(2) by blast
  then have core2: "core (h2, x2)" and st2: "static h h2" and con2: "contents (h2, x2) = contents (h, x)"
    and n2: "hm_Count h2 = hm_Count h" by (auto simp: commits_def)
  have clean: "stored (h2, x2) = contents (h2, x2)"
  proof (rule ext)
    fix k
    show "stored (h2, x2) k = contents (h2, x2) k"
    proof (cases "k \<in> dom (change_at h)")
      case True
      then show ?thesis using 2(3) assms(4) by blast
    next
      case False
      then have "change_at h2 k = None" using c2 by (auto simp: commits_def)
      then show ?thesis by (simp add: hm_contents_def)
    qed
  qed
  let ?h3 = "fold remove_change (commit_removed h ord0) h2"
  let ?h4 = "?h3\<lparr>hm_countCommitted := hm_Count ?h3\<rparr>"
  note r3 = remove_changes[OF coreD(4)[OF core2, simplified], of "commit_removed h ord0"]
  obtain x3 where x3: "tx_Put ops (key_count (hm_name h)) (Some (PutUvarint (hm_Count ?h3))) x2 = (Inr (), x3)"
    "view x3 = (view x2)(key_count (hm_name h) \<mapsto> PutUvarint (hm_Count ?h3))" "tx_IsWritable ops x3"
    using Put_run[of x2] coreD(1)[OF core2] by (metis snd_conv)
  let ?h' = "?h4\<lparr>hm_changed := False\<rparr>"
  have nm: "hm_name ?h3 = hm_name h" using r3(2) st2 by (simp add: static_def)
  have run: "CommitChanges E ops ord0 ord1 ord2 (h, x) = (Inr (), (?h', x3))"
    using 1(1) 2(1) x3(1) nm coreD(1)[OF core2]
    by (simp add: CommitChanges_def ck gbind_Inr gfor_on_hm on_tx_run when_writable_run)
  have c': "core (?h', x2)" "contents (?h', x2) = contents (h2, x2)" "stored (?h', x2) = stored (h2, x2)"
    by (rule clean_core[OF core2 clean]; use r3 in simp)+
  have "agree_entries (hm_name ?h') x2 x3" using x3(2) nm by (simp add: agree_entries_def)
  note c3 = core_agree[OF c'(1) this x3(3)]
  have "invar (?h', x3)"
    using c3 c' clean coreD(6)[OF c3(1)] by (simp add: hm_inv_def)
  moreover have "static h ?h'" using r3(2) st2 by (simp add: static_def)
  ultimately show ?thesis
    using run c3 c' clean con2 x3(2) c2
    by (intro exI[of _ ?h'] exI[of _ x3]) (simp add: commits_def)
qed

lemma Rollback_ok:
  assumes "invar (h, x)"
  shows "\<exists>h'. Rollback (h, x) = (Inr (), (h', x)) \<and> invar (h', x) \<and> static h h' \<and>
           contents (h', x) = stored (h, x) \<and> stored (h', x) = stored (h, x)"
proof -
  let ?h' = "h\<lparr>hm_Changes := [], hm_changesSize := [], hm_Count := hm_countCommitted h, hm_changed := False\<rparr>"
  have core: "core (h, x)" and n: "hm_countCommitted h = of_nat (card (dom (stored (h, x))))"
    using assms by (simp_all add: hm_inv_def)
  have k: "keeps (h, x) (?h', x)" by (simp add: keeps_def static_def)
  have co: "contents (?h', x) = stored (h, x)"
    by (auto simp: hm_contents_def change_at_def hm_stored_def)
  have "core (?h', x)"
    by (rule keeps_core[OF core k])
      (use coreD(1)[OF core] n co in \<open>simp_all add: cells_wf_def change_at_def\<close>)
  then show ?thesis using keeps_invar[OF k assms] keeps_stored[OF k] co
    by (auto simp: Rollback_def keeps_def static_def)
qed

text \<open>A map opened on the database of a committed one holds the same elements.\<close>

lemma CreateNewHashMap_ok:
  assumes "invar (h, x)" "stored (h, x) = contents (h, x)"
    and "view x (key_count (hm_name h)) = Some (PutUvarint (hm_Count h))"
    and "4 < length (hm_name h)"
  shows "\<exists>h' x'. CreateNewHashMap ops (hm_name h) (hm_keyLength h) (hm_Indexable h) create
            (hm_DeletedEvent h) (hm_StoredEvent h) x = (Inr h', x') \<and>
          invar (h', x') \<and> static h h' \<and> contents (h', x') = contents (h, x) \<and>
          stored (h', x') = contents (h, x) \<and> view x' = view x"
proof -
  have core: "core (h, x)" by (rule invD[OF assms(1)])
  obtain p where p: "p > 0" "Uvarint (PutUvarint (hm_Count h)) = (hm_Count h, p)"
    using Uvarint_PutUvarint by blast
  obtain x' where x': "tx_Get ops (key_count (hm_name h)) x = (Inr (Some (PutUvarint (hm_Count h))), x')"
    "view x' = view x" "tx_IsWritable ops x'"
    using Get_run[of "key_count (hm_name h)" x] assms(3) coreD(1)[OF core] by (metis snd_conv)
  let ?h' = "\<lparr>hm_name = hm_name h, hm_Count = hm_Count h, hm_countCommitted = hm_Count h,
     hm_Changes = [], hm_changed = False, hm_changesSize = [], hm_Committed = [],
     hm_keyLength = hm_keyLength h, hm_CreateObject = create, hm_DeletedEvent = hm_DeletedEvent h,
     hm_StoredEvent = hm_StoredEvent h, hm_Indexable = hm_Indexable h, hm_cells = (\<lambda>_. new_change),
     hm_next = 0\<rparr>"
  have run: "CreateNewHashMap ops (hm_name h) (hm_keyLength h) (hm_Indexable h) create
      (hm_DeletedEvent h) (hm_StoredEvent h) x = (Inr ?h', x')"
    using assms(4) x'(1) p by (simp add: CreateNewHashMap_def gbind_def)
  have st: "static h ?h'" using coreD(2)[OF core] by (simp add: static_def)
  have sto: "stored (?h', x') = stored (h, x)" using x'(2) by (auto simp: hm_stored_def)
  have con: "contents (?h', x') = stored (h, x)"
    using sto by (simp add: hm_contents_def change_at_def fun_eq_iff)
  have "core (?h', x')"
    unfolding hm_core_def con sto fst_conv snd_conv x'(2) static_simps(2,3)[OF st]
    using x'(3) coreD(3,5,6)[OF core] coreD(7)[OF core] assms(2)
    by (auto simp: cells_wf_def change_at_def)
  then have "invar (?h', x')"
    using coreD(6)[OF core] assms(2) sto by (simp add: hm_inv_def)
  with run st con sto assms(2) x'(2) show ?thesis by auto
qed

lemma CreateNewHashMap_empty:
  assumes "tx_IsWritable ops x" "\<And>k. view x k = None" "4 < length n"
    and quiet: "\<And>ev k. del = Some ev \<Longrightarrow> quiet_event ops view n (ev k)"
      "\<And>ev k c i. sto = Some ev \<Longrightarrow> quiet_event ops view n (ev k c i)"
  shows "\<exists>h' x'. CreateNewHashMap ops n kl idx create del sto x = (Inr h', x') \<and> invar (h', x') \<and>
          contents (h', x') = (\<lambda>_. None) \<and> stored (h', x') = (\<lambda>_. None) \<and> view x' = view x \<and>
          hm_name h' = n \<and> hm_keyLength h' = kl \<and> hm_Indexable h' = idx \<and> hm_Changes h' = [] \<and>
          hm_DeletedEvent h' = del \<and> hm_StoredEvent h' = sto"
proof -
  obtain x' where x': "tx_Get ops (key_count n) x = (Inr None, x')" "view x' = view x" "tx_IsWritable ops x'"
    using Get_run[of "key_count n" x] assms(1,2) by metis
  let ?h' = "\<lparr>hm_name = n, hm_Count = 0, hm_countCommitted = 0, hm_Changes = [], hm_changed = False,
     hm_changesSize = [], hm_Committed = [], hm_keyLength = kl, hm_CreateObject = create,
     hm_DeletedEvent = del, hm_StoredEvent = sto, hm_Indexable = idx, hm_cells = (\<lambda>_. new_change),
     hm_next = 0\<rparr>"
  have run: "CreateNewHashMap ops n kl idx create del sto x = (Inr ?h', x')"
    using assms(3) x'(1) by (simp add: CreateNewHashMap_def gbind_def)
  have st: "stored (?h', x') = (\<lambda>_. None)" using assms(2) x'(2) by (simp add: hm_stored_def fun_eq_iff)
  have co: "contents (?h', x') = (\<lambda>_. None)"
    using st by (simp add: hm_contents_def change_at_def fun_eq_iff)
  have "invar (?h', x')"
    unfolding hm_inv_def hm_core_def st co
    using assms(2) x'(2,3) quiet
    by (auto simp: quiet_events_def cells_wf_def stored_ok_def change_at_def)
  with run st co x'(2) show ?thesis by simp
qed

text \<open>
  Undoing a block: the transitions written before the commit, read back after it, restore the
  elements the map had before the block.
\<close>

definition dirty :: "('t, 'x) HashMap \<Rightarrow> bytes \<Rightarrow> bool" where
  "dirty h k \<longleftrightarrow> (\<exists>c. change_at h k = Some c \<and> (ch_Status c = St_del \<or> ch_Status c = St_update))"

lemma not_dirty:
  assumes "core (h, x)" "\<not> dirty h k"
  shows "contents (h, x) k = stored (h, x) k"
proof (cases "change_at h k")
  case (Some c)
  then have "change_ok E ok h (stored (h, x) k) k c" using coreD(8)[OF assms(1)] by simp
  with Some assms(2) show ?thesis
    by (cases "ch_Status c") (auto simp: dirty_def hm_contents_def change_ok_def)
qed (simp add: hm_contents_def)

lemma transition_of_ok:
  assumes "core (h, x)"
  shows "\<exists>x'. transition_of E ops k (h, x) = (Inr \<lparr>tc_Key = k, tc_Transition = stored (h, x) k\<rparr>, (h, x')) \<and>
           view x' = view x \<and> tx_IsWritable ops x'"
proof (cases "map_of (hm_Committed h) k")
  case None
  then show ?thesis using Get_run[of "key_map (hm_name h) k" x] coreD(1)[OF assms]
    by (force simp: transition_of_def on_tx_run hm_stored_def)
next
  case (Some c)
  then have c: "committed_ok E ok (stored (h, x) k) k c" using coreD(9)[OF assms] by simp
  show ?thesis
  proof (cases "cm_Element c")
    case None
    with Some c show ?thesis using coreD(1)[OF assms] by (simp add: transition_of_def committed_ok_def)
  next
    case (Some e)
    then have "ok k e" using c by (simp add: committed_ok_def)
    then obtain w where "el_Serialize E e = Inr w" "ser e = SerializeToBytes w" by (rule Serialize_bytes)
    then show ?thesis using Some \<open>map_of (hm_Committed h) k = Some c\<close> c coreD(1)[OF assms]
      by (simp add: transition_of_def committed_ok_def gbind_Inr)
  qed
qed

lemma collect_transitions_ok:
  assumes "core (h, x)"
  shows "\<exists>x'. collect_transitions E ops ord (h, x) =
           (Inr (map (\<lambda>k. \<lparr>tc_Key = k, tc_Transition = stored (h, x) k\<rparr>) (filter (dirty h) ord)), (h, x')) \<and>
           view x' = view x \<and> tx_IsWritable ops x'"
  using assms
proof (induction ord arbitrary: x)
  case Nil
  then show ?case using coreD(1)[OF Nil.prems] by simp
next
  case (Cons k ord)
  have d: "dirty h k \<longleftrightarrow> (case change_at h k of Some c \<Rightarrow> ch_Status c = St_del \<or> ch_Status c = St_update | None \<Rightarrow> False)"
    by (auto simp: dirty_def split: option.split)
  show ?case
  proof (cases "dirty h k")
    case False
    then show ?thesis using Cons.IH[OF Cons.prems] d by simp
  next
    case True
    obtain x1 where x1: "transition_of E ops k (h, x) = (Inr \<lparr>tc_Key = k, tc_Transition = stored (h, x) k\<rparr>, (h, x1))"
      "view x1 = view x" "tx_IsWritable ops x1"
      using transition_of_ok[OF Cons.prems] by blast
    have "core (h, x1)" "stored (h, x1) = stored (h, x)"
      using core_view[OF Cons.prems x1(2)] x1(3) coreD(1)[OF Cons.prems] by auto
    with Cons.IH[of x1] x1 True d show ?thesis by (auto simp: gbind_Inr)
  qed
qed

definition restore :: "transactionChange \<Rightarrow> (bytes \<Rightarrow> bytes option) \<Rightarrow> bytes \<Rightarrow> bytes option" where
  "restore t m = m(tc_Key t := tc_Transition t)"

lemma restore_entry [simp]: "restore \<lparr>tc_Key = k, tc_Transition = d\<rparr> m = m(k := d)"
  by (simp add: restore_def)

lemma apply_transition_ok:
  assumes "core (h, x)" "\<not> bad_key h k" "\<forall>b. d = Some b \<longrightarrow> (\<exists>e. ok k e \<and> ser e = b)"
  shows "\<exists>h' x'. apply_transition E ops \<lparr>tc_Key = k, tc_Transition = d\<rparr> (h, x) = (Inr (), (h', x')) \<and>
           core (h', x') \<and> keeps (h, x) (h', x') \<and> contents (h', x') = (contents (h, x))(k := d)"
proof (cases d)
  case None
  then show ?thesis using Delete_ok[OF assms(1,2)] by (simp add: apply_transition_def)
next
  case (Some b)
  then obtain e where e: "ok k e" "ser e = b" using assms(3) by blast
  let ?e = "el_SetIndex E 0 e"
  have k: "el_SetKey E k ?e = ?e" using ok_SetIndex[OF e(1)] by (rule SetKey_ok)
  then have "ok k (el_SetKey E k ?e)" using ok_SetIndex[OF e(1)] by simp
  then obtain d' h' x' where u: "Update E ops k (Some ?e) (h, x) = (Inr d', (h', x'))" "core (h', x')"
    "keeps (h, x) (h', x')" "contents (h', x') = (contents (h, x))(k \<mapsto> ser (el_SetKey E k ?e))"
    using Update_ok[OF assms(1,2)] by blast
  have "apply_transition E ops \<lparr>tc_Key = k, tc_Transition = d\<rparr> (h, x) = (Inr (), (h', x'))"
    using Some e(2) deserialize_ok[OF core_loads[OF assms(1) e(1)], of 0] u(1)
    by (simp add: apply_transition_def gbind_Inr)
  with u(2-4) Some e(2) k show ?thesis by simp
qed

lemma apply_transitions_ok:
  assumes "core (h, x)" "\<And>k d. \<lparr>tc_Key = k, tc_Transition = d\<rparr> \<in> set ts \<Longrightarrow>
      \<not> bad_key h k \<and> (\<forall>b. d = Some b \<longrightarrow> (\<exists>e. ok k e \<and> ser e = b))"
  shows "\<exists>h' x'. gfor ts (apply_transition E ops) (h, x) = (Inr (), (h', x')) \<and>
           core (h', x') \<and> keeps (h, x) (h', x') \<and>
           contents (h', x') = fold restore ts (contents (h, x))"
  using assms
proof (induction ts arbitrary: h x)
  case Nil
  then show ?case by (auto simp: keeps_def)
next
  case (Cons t ts)
  obtain k d where t: "t = \<lparr>tc_Key = k, tc_Transition = d\<rparr>" by (cases t) auto
  obtain h1 x1 where 1: "apply_transition E ops t (h, x) = (Inr (), (h1, x1))" "core (h1, x1)"
    "keeps (h, x) (h1, x1)" "contents (h1, x1) = (contents (h, x))(k := d)"
    using apply_transition_ok[OF Cons.prems(1), of k d] Cons.prems(2)[of k d] t by auto
  have "bad_key h1 = bad_key h" using 1(3) static_simps(1) by (simp add: keeps_def)
  then have "\<not> bad_key h1 j \<and> (\<forall>b. a = Some b \<longrightarrow> (\<exists>e. ok j e \<and> ser e = b))"
    if "\<lparr>tc_Key = j, tc_Transition = a\<rparr> \<in> set ts" for j a
    using Cons.prems(2)[of j a] that by simp
  from Cons.IH[OF 1(2) this] obtain h2 x2 where
    "gfor ts (apply_transition E ops) (h1, x1) = (Inr (), (h2, x2))" "core (h2, x2)"
    "keeps (h1, x1) (h2, x2)"
    "contents (h2, x2) = fold restore ts (contents (h1, x1))"
    by blast
  moreover from this 1(3) have "keeps (h, x) (h2, x2)" by (auto simp: keeps_def static_def)
  ultimately show ?case using 1 t by (auto simp: gbind_Inr)
qed

lemma fold_updates:
  "fold restore (map (\<lambda>k. \<lparr>tc_Key = k, tc_Transition = f k\<rparr>) ks) m =
     (\<lambda>j. if j \<in> set ks then f j else m j)"
  by (induction ks arbitrary: m) (auto simp: fun_eq_iff)

lemma WriteTransitionalChanges_ok:
  assumes "core (h, x)" "\<And>cs. \<exists>d. Marshal cs = Inr d"
  shows "\<exists>b x'. WriteTransitionalChangesToStore E ops Marshal ord p (h, x) = (Inr b, (h, x')) \<and>
           core (h, x') \<and> contents (h, x') = contents (h, x) \<and> stored (h, x') = stored (h, x) \<and>
           (let cs = map (\<lambda>k. \<lparr>tc_Key = k, tc_Transition = stored (h, x) k\<rparr>) (filter (dirty h) ord) in
            view x' (key_transitions (hm_name h) p) =
              (if cs = [] then view x (key_transitions (hm_name h) p)
               else case Marshal cs of Inr d \<Rightarrow> Some d | Inl e \<Rightarrow> None))"
proof -
  let ?cs = "map (\<lambda>k. \<lparr>tc_Key = k, tc_Transition = stored (h, x) k\<rparr>) (filter (dirty h) ord)"
  obtain x1 where x1: "collect_transitions E ops ord (h, x) = (Inr ?cs, (h, x1))"
    "view x1 = view x" "tx_IsWritable ops x1"
    using collect_transitions_ok[OF assms(1)] by blast
  have c1: "core (h, x1)" "contents (h, x1) = contents (h, x)" "stored (h, x1) = stored (h, x)"
    using core_view[OF assms(1) x1(2)] x1(3) coreD(1)[OF assms(1)] by auto
  obtain d where d: "Marshal ?cs = Inr d" using assms(2) by blast
  obtain x2 where x2: "tx_Put ops (key_transitions (hm_name h) p) (Some d) x1 = (Inr (), x2)"
    "view x2 = (view x1)(key_transitions (hm_name h) p \<mapsto> d)" "tx_IsWritable ops x2"
    using Put_run[OF x1(3)] by blast
  let ?g = "gbind (get_hm id) (\<lambda>h. gbind (on_tx (tx_Put ops (key_transitions (hm_name h) p) (Some d))) (\<lambda>_. gret True))"
  show ?thesis
  proof (cases "?cs = []")
    case True
    then show ?thesis using x1 c1
      by (intro exI[of _ False] exI[of _ x1])
        (simp add: WriteTransitionalChangesToStore_def gbind_Inr[of "collect_transitions E ops ord", OF x1(1)])
  next
    case False
    have "WriteTransitionalChangesToStore E ops Marshal ord p (h, x) = ?g (h, x1)"
      unfolding WriteTransitionalChangesToStore_def gbind_Inr[of "collect_transitions E ops ord", OF x1(1)]
      using False d by (simp only: if_False sum.case)
    then have "WriteTransitionalChangesToStore E ops Marshal ord p (h, x) = (Inr True, (h, x2))"
      using x2(1) by (simp add: on_tx_run)
    moreover have "view x2 (key_transitions (hm_name h) p) = Some d" using x2(2) by simp
    moreover have "core (h, x2)" "contents (h, x2) = contents (h, x)" "stored (h, x2) = stored (h, x)"
      using core_agree[OF c1(1) _ x2(3)] c1(2,3) x2(2) by (simp_all add: agree_entries_def)
    ultimately show ?thesis using False d by (intro exI[of _ True] exI[of _ x2]) (simp only: Let_def if_False sum.case simp_thms)
  qed
qed

lemma undo_block:
  assumes "core (h, x)" "set ord = dom (change_at h)"
    and "view x (key_transitions (hm_name h) p) = None"
    and marshal: "\<And>cs. \<exists>d. Marshal cs = Inr d" "\<And>cs d. Marshal cs = Inr d \<Longrightarrow> Unmarshal d = Inr cs"
    and ords: "set ord0 = dom (change_at h)" "set ord1 = dom (change_at h)" "set ord2 = dom (change_at h)"
    and total: "events_total ops h"
  shows "\<exists>b s1 s2 s3.
    WriteTransitionalChangesToStore E ops Marshal ord p (h, x) = (Inr b, s1) \<and>
    CommitChanges E ops ord0 ord1 ord2 s1 = (Inr (), s2) \<and>
    ReadTransitionalChangesFromStore E ops Unmarshal p s2 = (Inr (), s3) \<and>
    stored s2 = contents (h, x) \<and> contents s3 = stored (h, x) \<and> invar s3"
proof -
  let ?ks = "filter (dirty h) ord"
  let ?cs = "map (\<lambda>k. \<lparr>tc_Key = k, tc_Transition = stored (h, x) k\<rparr>) ?ks"
  obtain b x1 where w: "WriteTransitionalChangesToStore E ops Marshal ord p (h, x) = (Inr b, (h, x1))"
    "core (h, x1)" "contents (h, x1) = contents (h, x)" "stored (h, x1) = stored (h, x)"
    "view x1 (key_transitions (hm_name h) p) =
       (if ?cs = [] then None else case Marshal ?cs of Inr d \<Rightarrow> Some d | Inl e \<Rightarrow> None)"
    using WriteTransitionalChanges_ok[where Marshal = Marshal, OF assms(1) marshal(1), where ord = ord and p = p] assms(3) unfolding Let_def by auto
  obtain h2 x2 where c: "CommitChanges E ops ord0 ord1 ord2 (h, x1) = (Inr (), (h2, x2))"
    "invar (h2, x2)" "static h h2" "contents (h2, x2) = contents (h, x)" "stored (h2, x2) = contents (h, x)"
    "view x2 (key_transitions (hm_name h) p) = view x1 (key_transitions (hm_name h) p)"
    using CommitChanges_ok[OF w(2) ords] total w(3) by auto
  have n2: "hm_name h2 = hm_name h" using c(3) by (simp add: static_def)
  obtain x3 where x3: "tx_Get ops (key_transitions (hm_name h2) p) x2 =
      (Inr (view x1 (key_transitions (hm_name h) p)), x3)" "view x3 = view x2" "tx_IsWritable ops x3"
    using Get_run[of "key_transitions (hm_name h2) p" x2] c(6) n2 coreD(1)[OF invD[OF c(2)]] by auto
  have c3: "core (h2, x3)" "contents (h2, x3) = contents (h, x)"
    using core_view[OF invD[OF c(2)] x3(2)] x3(3) coreD(1)[OF invD[OF c(2)]] c(4) by auto
  have ok_ts: "\<not> bad_key h2 k \<and> (\<forall>b. d = Some b \<longrightarrow> (\<exists>e. ok k e \<and> ser e = b))"
    if "\<lparr>tc_Key = k, tc_Transition = d\<rparr> \<in> set (rev ?cs)" for k d
  proof -
    have "d = stored (h, x) k" "\<exists>c. change_at h k = Some c" using that by (auto simp: dirty_def)
    then show ?thesis
      using coreD(7)[OF assms(1), of k] coreD(8)[OF assms(1), of k] static_simps(1)[OF c(3)]
      by (auto simp: stored_ok_def hm_stored_def change_ok_def)
  qed
  obtain h4 x4 where a: "gfor (rev ?cs) (apply_transition E ops) (h2, x3) = (Inr (), (h4, x4))"
    "core (h4, x4)" "keeps (h2, x3) (h4, x4)"
    "contents (h4, x4) = fold restore (rev ?cs) (contents (h2, x3))"
    using apply_transitions_ok[OF c3(1) ok_ts] by blast
  have con: "contents (h4, x4) = stored (h, x)"
    unfolding a(4) rev_map fold_updates c3(2)
    using not_dirty[OF assms(1)] assms(2) by (auto simp: dirty_def fun_eq_iff) 
  have k2: "keeps (h2, x2) (h4, x4)" using a(3) x3(2) by (simp add: keeps_def)
  have inv4: "invar (h4, x4)" by (rule keeps_invar[OF k2 c(2) a(2)])
  have "ReadTransitionalChangesFromStore E ops Unmarshal p (h2, x2) = (Inr (), (h4, x4))"
  proof (cases "?cs = []")
    case True
    then have "ReadTransitionalChangesFromStore E ops Unmarshal p (h2, x2) = (Inr (), (h2, x3))"
      using x3(1) w(5) by (simp add: ReadTransitionalChangesFromStore_def on_tx_run)
    then show ?thesis using a(1) True by simp
  next
    case False
    obtain d where d: "Marshal ?cs = Inr d" using marshal(1) by blast
    have "view x1 (key_transitions (hm_name h) p) = Some d"
      using w(5) False d by (simp only: if_False sum.case)
    then show ?thesis using x3(1) marshal(2)[OF d] a(1)
      by (simp add: ReadTransitionalChangesFromStore_def on_tx_run del: set_rev)
  qed
  with w(1) c(1) c(5) con inv4 show ?thesis by blast
qed

end

section \<open>Refinement: the hash map implements a transactional map\<close>

text \<open>
  The observable steps of a hash map, and the same steps of the abstract map: a pair of the current
  and the last committed map from keys to serialised elements.
\<close>

datatype hm_event =
    E_get bytes "bytes option"
  | E_exists bytes bool
  | E_update bytes bytes
  | E_delete bytes
  | E_commit
  | E_rollback

inductive hm_step ::
  "'t ElemOps \<Rightarrow> 'x StoreTx \<Rightarrow> (bytes \<Rightarrow> 't \<Rightarrow> bool) \<Rightarrow>
   ('t, 'x) HashMap \<times> 'x \<Rightarrow> hm_event \<Rightarrow> ('t, 'x) HashMap \<times> 'x \<Rightarrow> bool"
  for E :: "'t ElemOps" and X :: "'x StoreTx" and ok :: "bytes \<Rightarrow> 't \<Rightarrow> bool" where
  step_get: "Get E X k s = (Inr eo, t) \<Longrightarrow> hm_step E X ok s (E_get k (map_option (el_bytes E) eo)) t"
| step_exists: "Exists X k s = (Inr b, t) \<Longrightarrow> hm_step E X ok s (E_exists k b) t"
| step_update: "ok k (el_SetKey E k d) \<Longrightarrow> Update E X k (Some d) s = (Inr d', t) \<Longrightarrow>
    hm_step E X ok s (E_update k (el_bytes E d')) t"
| step_delete: "\<not> bad_key (fst s) k \<Longrightarrow> Delete E X k s = (Inr (), t) \<Longrightarrow> hm_step E X ok s (E_delete k) t"
| step_commit: "set ord0 = dom (change_at (fst s)) \<Longrightarrow> set ord1 = dom (change_at (fst s)) \<Longrightarrow>
    set ord2 = dom (change_at (fst s)) \<Longrightarrow> CommitChanges E X ord0 ord1 ord2 s = (Inr (), t) \<Longrightarrow>
    hm_step E X ok s E_commit t"
| step_rollback: "Rollback s = (Inr (), t) \<Longrightarrow> hm_step E X ok s E_rollback t"

type_synonym amap = "(bytes \<Rightarrow> bytes option) \<times> (bytes \<Rightarrow> bytes option)"

inductive map_step :: "amap \<Rightarrow> hm_event \<Rightarrow> amap \<Rightarrow> bool" where
  "map_step (cur, com) (E_get k (cur k)) (cur, com)"
| "map_step (cur, com) (E_exists k (cur k \<noteq> None)) (cur, com)"
| "map_step (cur, com) (E_update k b) (cur(k \<mapsto> b), com)"
| "map_step (cur, com) (E_delete k) (cur(k := None), com)"
| "map_step (cur, com) E_commit (cur, cur)"
| "map_step (cur, com) E_rollback (com, com)"

inductive steps :: "('s \<Rightarrow> 'e \<Rightarrow> 's \<Rightarrow> bool) \<Rightarrow> 's \<Rightarrow> 'e list \<Rightarrow> 's \<Rightarrow> bool"
  for R :: "'s \<Rightarrow> 'e \<Rightarrow> 's \<Rightarrow> bool" where
  steps_Nil: "steps R s [] s"
| steps_Cons: "R s e t \<Longrightarrow> steps R t es u \<Longrightarrow> steps R s (e # es) u"

inductive_cases steps_NilE: "steps R s [] t"
inductive_cases steps_ConsE: "steps R s (e # es) t"

definition hm_abs ::
  "'t ElemOps \<Rightarrow> ('x \<Rightarrow> bytes \<Rightarrow> bytes option) \<Rightarrow> ('t, 'x) HashMap \<times> 'x \<Rightarrow> amap" where
  "hm_abs E view s = (hm_contents E view s, hm_stored view s)"

context hash_map_laws
begin

lemma sim_step:
  assumes "hm_step E ops ok s e t" "invar s"
  shows "map_step (hm_abs E view s) e (hm_abs E view t) \<and> invar t"
proof -
  obtain h x where s: "s = (h, x)" by (cases s)
  have core: "core (h, x)" using assms(2) s by (simp add: hm_inv_def)
  note inv' = assms(2)[unfolded s]
  show ?thesis using assms(1)
  proof cases
    case (step_get k eo)
    then have "\<not> bad_key h k" using s by (auto simp: Get_def)
    from Get_ok[OF core this] step_get s obtain h' x' where
      "t = (h', x')" "core (h', x')" "keeps (h, x) (h', x')" "contents (h', x') = contents (h, x)"
      "map_option ser eo = contents (h, x) k" by auto
    with step_get(1) s keeps_stored keeps_invar[OF _ inv'] map_step.intros(1)[of "contents (h, x)"]
    show ?thesis by (simp add: hm_abs_def)
  next
    case (step_exists k b)
    then have "\<not> bad_key h k" using s by (auto simp: Exists_def)
    from Exists_ok[OF core this] obtain x' where x': "b = (contents (h, x) k \<noteq> None)" "t = (h, x')"
      "view x' = view x" "tx_IsWritable ops x'" using step_exists s by auto
    have w: "tx_IsWritable ops x' = tx_IsWritable ops x" using x'(4) coreD(1)[OF core] by simp
    note v = core_view[OF core x'(3) w]
    have "map_step (hm_abs E view (h, x)) (E_exists k b) (hm_abs E view (h, x'))"
      unfolding hm_abs_def v(2,3) x'(1) by (rule map_step.intros)
    moreover have "invar (h, x')" using inv' v(1,3) by (simp add: hm_inv_def)
    ultimately show ?thesis using step_exists(1) s x'(2) by simp
  next
    case (step_update k d d')
    then have "\<not> bad_key h k" using s by (auto simp: Update_def)
    from Update_ok[OF core this step_update(2)] step_update(3) s obtain h' x' where
      "t = (h', x')" "core (h', x')" "keeps (h, x) (h', x')"
      "contents (h', x') = (contents (h, x))(k \<mapsto> ser d')" by auto
    with step_update(1) s keeps_stored keeps_invar[OF _ inv'] show ?thesis
      by (auto simp: hm_abs_def intro: map_step.intros)
  next
    case (step_delete k)
    then have "\<not> bad_key h k" using s by simp
    from Delete_ok[OF core this] step_delete s obtain h' x' where
      "t = (h', x')" "core (h', x')" "keeps (h, x) (h', x')"
      "contents (h', x') = (contents (h, x))(k := None)" by auto
    with step_delete(1) s keeps_stored keeps_invar[OF _ inv'] show ?thesis
      by (auto simp: hm_abs_def intro: map_step.intros)
  next
    case (step_commit ord0 ord1 ord2)
    then have "set ord0 = dom (change_at h)" "set ord1 = dom (change_at h)" "set ord2 = dom (change_at h)"
      using s by simp_all
    from CommitChanges_ok[OF core this] step_commit s show ?thesis unfolding failed_def
      by (auto simp: hm_abs_def intro: map_step.intros)
  next
    case step_rollback
    from Rollback_ok[OF inv'] step_rollback s show ?thesis
      by (auto simp: hm_abs_def intro: map_step.intros)
  qed
qed

lemma sim_steps:
  assumes "steps (hm_step E ops ok) s es t" "invar s"
  shows "steps map_step (hm_abs E view s) es (hm_abs E view t) \<and> invar t"
  using assms
proof (induction rule: steps.induct)
  case (steps_Cons s e t es u)
  then show ?case using sim_step by (blast intro: steps.intros)
qed (auto intro: steps.intros)

end

end
