(* ===== verification/Heap_Store.thy ===== *)
theory Heap_Store
  imports Heap Hash_Map_Laws
begin

text \<open>
  The heap kept in two transactional hash maps (\<^verbatim>\<open>heap_store_hash_map.go\<close>): the elements under the
  decimal text of their positions, and the dictionary from keys to positions.  Both maps share
  the database transaction.  It is shown to be a \<open>heap_storage\<close>, so the heap theorems hold of it.
\<close>

section \<open>Elements\<close>

definition HeapElement_Serialize :: "HeapElement \<Rightarrow> BufferWriter \<Rightarrow> BufferWriter" where
  "HeapElement_Serialize e = ser_seq
     [WriteByte (of_nat (length (he_Key e))), Write (he_Key e), WriteFloat64 (he_Score e)]"

definition HeapElement_Deserialize :: "HeapElement \<Rightarrow> (BufferReader, HeapElement) go" where
  "HeapElement_Deserialize e =
     gbind ReadByte (\<lambda>count.
     gbind (ReadBytes (int (unat count))) (\<lambda>key.
     gbind ReadFloat64 (\<lambda>score.
     gret (e\<lparr>he_Key := key, he_Score := score\<rparr>))))"

definition HeapElement_ops :: "HeapElement ElemOps" where
  "HeapElement_ops = \<lparr>
     el_Validate = (\<lambda>_. Inr ()),
     el_Serialize = (\<lambda>e. Inr (HeapElement_Serialize e)),
     el_Deserialize = HeapElement_Deserialize,
     el_SetIndex = (\<lambda>_ e. e),
     el_SetKey = (\<lambda>k e. e\<lparr>he_HashmapKey := k\<rparr>),
     el_GetIndex = (\<lambda>_. 0),
     el_IsDeletable = (\<lambda>_. False)\<rparr>"

definition HeapDictElement_Serialize :: "HeapDictElement \<Rightarrow> BufferWriter \<Rightarrow> BufferWriter" where
  "HeapDictElement_Serialize e = WriteUvarint (hd_Position e)"

definition HeapDictElement_Deserialize :: "HeapDictElement \<Rightarrow> (BufferReader, HeapDictElement) go" where
  "HeapDictElement_Deserialize e = gbind ReadUvarint (\<lambda>p. gret (e\<lparr>hd_Position := p\<rparr>))"

definition HeapDictElement_ops :: "HeapDictElement ElemOps" where
  "HeapDictElement_ops = \<lparr>
     el_Validate = (\<lambda>_. Inr ()),
     el_Serialize = (\<lambda>e. Inr (HeapDictElement_Serialize e)),
     el_Deserialize = HeapDictElement_Deserialize,
     el_SetIndex = (\<lambda>_ e. e),
     el_SetKey = (\<lambda>k e. e\<lparr>hd_HashmapKey := k\<rparr>),
     el_GetIndex = (\<lambda>_. 0),
     el_IsDeletable = (\<lambda>_. False)\<rparr>"

definition HeapElement_create :: "bytes \<Rightarrow> uint64 \<Rightarrow> HeapElement result" where
  "HeapElement_create key index = Inr \<lparr>he_HashmapKey = key, he_Key = [], he_Score = 0\<rparr>"

definition HeapDictElement_create :: "bytes \<Rightarrow> uint64 \<Rightarrow> HeapDictElement result" where
  "HeapDictElement_create key index = Inr \<lparr>hd_HashmapKey = key, hd_Position = 0\<rparr>"

text \<open>The length of the key is written as one byte.\<close>

definition HeapElement_ok :: "bytes \<Rightarrow> HeapElement \<Rightarrow> bool" where
  "HeapElement_ok k e \<longleftrightarrow> he_HashmapKey e = k \<and> length (he_Key e) \<le> 255"

definition HeapDictElement_ok :: "bytes \<Rightarrow> HeapDictElement \<Rightarrow> bool" where
  "HeapDictElement_ok k e \<longleftrightarrow> hd_HashmapKey e = k"

section \<open>The storage\<close>

record 'x HeapStore =
  hs_HashMap :: "(HeapElement, 'x) HashMap"
  hs_DictMap :: "(HeapDictElement, 'x) HashMap"
  hs_Tx :: 'x

definition on_HashMap :: "(HeapElement, 'x, 'a) hm_go \<Rightarrow> ('x HeapStore, 'a) go" where
  "on_HashMap m = (\<lambda>s. case m (hs_HashMap s, hs_Tx s) of
     (r, (h, x)) \<Rightarrow> (r, s\<lparr>hs_HashMap := h, hs_Tx := x\<rparr>))"

definition on_DictMap :: "(HeapDictElement, 'x, 'a) hm_go \<Rightarrow> ('x HeapStore, 'a) go" where
  "on_DictMap m = (\<lambda>s. case m (hs_DictMap s, hs_Tx s) of
     (r, (h, x)) \<Rightarrow> (r, s\<lparr>hs_DictMap := h, hs_Tx := x\<rparr>))"

definition hs_getElement :: "'x StoreTx \<Rightarrow> uint64 \<Rightarrow> ('x HeapStore, HeapElement option) go" where
  "hs_getElement X index = on_HashMap (Get HeapElement_ops X (FormatUint index))"

definition hs_setPosition :: "'x StoreTx \<Rightarrow> bytes \<Rightarrow> uint64 \<Rightarrow> ('x HeapStore, unit) go" where
  "hs_setPosition X key index =
     gbind (on_DictMap (Update HeapDictElement_ops X key (Some \<lparr>hd_HashmapKey = key, hd_Position = index\<rparr>)))
       (\<lambda>_. gret ())"

definition hs_updateElement :: "'x StoreTx \<Rightarrow> uint64 \<Rightarrow> HeapElement option \<Rightarrow> ('x HeapStore, unit) go" where
  "hs_updateElement X index x =
     gbind (on_HashMap (Update HeapElement_ops X (FormatUint index) x)) (\<lambda>_.
     deref x (\<lambda>x. hs_setPosition X (he_Key x) index))"

definition hs_addElement :: "'x StoreTx \<Rightarrow> HeapElement \<Rightarrow> ('x HeapStore, unit) go" where
  "hs_addElement X x =
     gbind (gget (\<lambda>s. hm_Count (hs_HashMap s))) (\<lambda>index.
     gbind (on_HashMap (Update HeapElement_ops X (FormatUint index) (Some x))) (\<lambda>_.
     hs_setPosition X (he_Key x) index))"

definition hs_removeElement :: "'x StoreTx \<Rightarrow> ('x HeapStore, HeapElement option) go" where
  "hs_removeElement X =
     gbind (gget (\<lambda>s. hm_Count (hs_HashMap s))) (\<lambda>count.
     if count = 0 then gret None
     else
       gbind (hs_getElement X (count - 1)) (\<lambda>x.
       gbind (on_HashMap (Delete HeapElement_ops X (FormatUint (count - 1)))) (\<lambda>_.
       deref x (\<lambda>e.
       gbind (on_DictMap (Delete HeapDictElement_ops X (he_Key e))) (\<lambda>_. gret x)))))"

definition NewHeapStore_ops :: "'x StoreTx \<Rightarrow> (uint64 \<Rightarrow> uint64 \<Rightarrow> bool) \<Rightarrow> 'x HeapStore HeapOps" where
  "NewHeapStore_ops X compare = \<lparr>
     hp_getElement = hs_getElement X,
     hp_updateElement = hs_updateElement X,
     hp_addElement = hs_addElement X,
     hp_removeElement = hs_removeElement X,
     hp_GetSize = (\<lambda>s. hm_Count (hs_HashMap s)),
     hp_compare = compare\<rparr>"

definition NewHeapStoreHashMap ::
  "'x StoreTx \<Rightarrow> bytes \<Rightarrow> ('x, (HeapElement, 'x) HashMap \<times> (HeapDictElement, 'x) HashMap) go" where
  "NewHeapStoreHashMap X name =
     gbind (CreateNewHashMap X name 0 False HeapElement_create None None) (\<lambda>hashMap.
     gbind (CreateNewHashMap X (name @ lit ''_dict'') 0 False HeapDictElement_create None None) (\<lambda>dictMap.
     gret (hashMap, dictMap)))"

definition NewMinHeapStoreHashMap :: "'x StoreTx \<Rightarrow> 'x HeapStore HeapOps" where
  "NewMinHeapStoreHashMap X = NewHeapStore_ops X (\<lambda>a b. float64_less a b)"

definition NewMaxHeapStoreHashMap :: "'x StoreTx \<Rightarrow> 'x HeapStore HeapOps" where
  "NewMaxHeapStoreHashMap X = NewHeapStore_ops X (\<lambda>a b. float64_less b a)"

definition HeapStore_DeleteByKey :: "'x StoreTx \<Rightarrow> 'x HeapStore HeapOps \<Rightarrow> bytes \<Rightarrow> ('x HeapStore, unit) go" where
  "HeapStore_DeleteByKey X H key =
     gbind (on_DictMap (Get HeapDictElement_ops X key)) (\<lambda>found.
     case found of
       None \<Rightarrow> gerr ''Key is not found''
     | Some d \<Rightarrow>
         gbind (Heap_Delete H (hd_Position d)) (\<lambda>_.
         on_DictMap (Delete HeapDictElement_ops X key)))"

section \<open>The codecs\<close>

definition HeapElement_enc :: "HeapElement \<Rightarrow> bytes" where
  "HeapElement_enc e = [of_nat (length (he_Key e))] @ he_Key e @ LittleEndian_PutUint64 (he_Score e) @ []"

lemma writes_HeapElement: "writes (HeapElement_Serialize e) (HeapElement_enc e)"
  unfolding HeapElement_Serialize_def HeapElement_enc_def by (intro codec)

lemma reads_HeapElement:
  assumes "HeapElement_ok k e"
  shows "reads (HeapElement_Deserialize \<lparr>he_HashmapKey = k, he_Key = [], he_Score = 0\<rparr>) (HeapElement_enc e) e"
  unfolding HeapElement_Deserialize_def HeapElement_enc_def
  by (intro reads_bind[OF reads_ReadByte] reads_bind[OF reads_ReadBytes] reads_bind[OF reads_ReadFloat64] reads_gret_eq)
    (use assms in \<open>simp_all add: HeapElement_ok_def unat_of_nat\<close>)

lemma HeapElement_bytes: "el_bytes HeapElement_ops e = HeapElement_enc e"
  using writes_SerializeToBytes[OF writes_HeapElement] by (simp add: el_bytes_def HeapElement_ops_def)

lemma HeapDictElement_bytes: "el_bytes HeapDictElement_ops e = PutUvarint (hd_Position e)"
  using writes_SerializeToBytes[OF writes_WriteUvarint]
  by (simp add: el_bytes_def HeapDictElement_ops_def HeapDictElement_Serialize_def)

interpretation hel: hash_map_element HeapElement_ops HeapElement_create HeapElement_ok
proof
  fix k i and e :: HeapElement
  assume ok: "HeapElement_ok k e"
  show "\<exists>out. HeapElement_create k i = Inr out \<and>
      fst (el_Deserialize HeapElement_ops out (NewBufferReader (el_bytes HeapElement_ops e))) =
        Inr (el_SetIndex HeapElement_ops i e)"
    using reads_NewBufferReader[OF reads_HeapElement[OF ok]]
    by (simp add: HeapElement_create_def HeapElement_bytes) (simp add: HeapElement_ops_def)
qed (auto simp: HeapElement_ops_def HeapElement_ok_def)

interpretation hdel: hash_map_element HeapDictElement_ops HeapDictElement_create HeapDictElement_ok
proof
  fix k i and e :: HeapDictElement
  assume ok: "HeapDictElement_ok k e"
  have "reads (HeapDictElement_Deserialize \<lparr>hd_HashmapKey = k, hd_Position = 0\<rparr>) (PutUvarint (hd_Position e) @ []) e"
    unfolding HeapDictElement_Deserialize_def
    by (intro reads_bind[OF reads_ReadUvarint] reads_gret_eq) (use ok in \<open>simp_all add: HeapDictElement_ok_def\<close>)
  from reads_NewBufferReader[OF this]
  show "\<exists>out. HeapDictElement_create k i = Inr out \<and>
      fst (el_Deserialize HeapDictElement_ops out (NewBufferReader (el_bytes HeapDictElement_ops e))) =
        Inr (el_SetIndex HeapDictElement_ops i e)"
    by (simp add: HeapDictElement_create_def HeapDictElement_bytes) (simp add: HeapDictElement_ops_def)
qed (auto simp: HeapDictElement_ops_def HeapDictElement_ok_def)

section \<open>The two maps as an array and a dictionary\<close>

definition hs_key :: "nat \<Rightarrow> bytes" where
  "hs_key i = FormatUint (of_nat i)"

definition HeapElement_kv :: "bytes \<Rightarrow> bytes \<times> uint64" where
  "HeapElement_kv b =
     (case fst (HeapElement_Deserialize \<lparr>he_HashmapKey = [], he_Key = [], he_Score = 0\<rparr> (NewBufferReader b)) of
        Inl _ \<Rightarrow> ([], 0) | Inr e \<Rightarrow> kv e)"

definition HeapDictElement_position :: "bytes \<Rightarrow> uint64" where
  "HeapDictElement_position b =
     (case fst (ReadUvarint (NewBufferReader b)) of Inl _ \<Rightarrow> 0 | Inr p \<Rightarrow> p)"

definition hs_contents :: "('x \<Rightarrow> bytes \<Rightarrow> bytes option) \<Rightarrow> 'x HeapStore \<Rightarrow> bytes \<Rightarrow> bytes option" where
  "hs_contents view s = hm_contents HeapElement_ops view (hs_HashMap s, hs_Tx s)"

definition hs_positions :: "('x \<Rightarrow> bytes \<Rightarrow> bytes option) \<Rightarrow> 'x HeapStore \<Rightarrow> bytes \<Rightarrow> bytes option" where
  "hs_positions view s = hm_contents HeapDictElement_ops view (hs_DictMap s, hs_Tx s)"

definition hs_array :: "nat \<Rightarrow> (bytes \<Rightarrow> bytes option) \<Rightarrow> (bytes \<times> uint64) list" where
  "hs_array n A = map (\<lambda>i. HeapElement_kv (the (A (hs_key i)))) [0..<n]"

definition hs_elems :: "('x \<Rightarrow> bytes \<Rightarrow> bytes option) \<Rightarrow> 'x HeapStore \<Rightarrow> (bytes \<times> uint64) list" where
  "hs_elems view s = hs_array (unat (hm_Count (hs_HashMap s))) (hs_contents view s)"

definition hs_dict :: "('x \<Rightarrow> bytes \<Rightarrow> bytes option) \<Rightarrow> 'x HeapStore \<Rightarrow> bytes \<Rightarrow> uint64 option" where
  "hs_dict view s k = map_option HeapDictElement_position (hs_positions view s k)"

definition hs_core :: "'x StoreTx \<Rightarrow> ('x \<Rightarrow> bytes \<Rightarrow> bytes option) \<Rightarrow> 'x HeapStore \<Rightarrow> bool" where
  "hs_core X view s \<longleftrightarrow>
     hm_core HeapElement_ops X view HeapElement_create HeapElement_ok (hs_HashMap s, hs_Tx s) \<and>
     hm_core HeapDictElement_ops X view HeapDictElement_create HeapDictElement_ok (hs_DictMap s, hs_Tx s) \<and>
     hm_keyLength (hs_HashMap s) = 0 \<and> hm_keyLength (hs_DictMap s) = 0"

text \<open>The elements are stored exactly under the positions below \<^verbatim>\<open>Count\<close>.\<close>

definition hs_inv :: "'x StoreTx \<Rightarrow> ('x \<Rightarrow> bytes \<Rightarrow> bytes option) \<Rightarrow> 'x HeapStore \<Rightarrow> bool" where
  "hs_inv X view s \<longleftrightarrow> hs_core X view s \<and> unat (hm_Count (hs_HashMap s)) < 2 ^ 63 \<and>
     dom (hs_contents view s) = hs_key ` {..<unat (hm_Count (hs_HashMap s))}"

lemma hs_key_eq: "i < 2 ^ 64 \<Longrightarrow> j < 2 ^ 64 \<Longrightarrow> hs_key i = hs_key j \<longleftrightarrow> i = j"
  by (simp add: hs_key_def of_nat_eq_uint64)

lemma card_hs_key: "n < 2 ^ 63 \<Longrightarrow> card (hs_key ` {..<n}) = n"
  by (subst card_image) (auto simp: inj_on_def hs_key_eq)

lemma HeapElement_kv_enc: "length (he_Key e) \<le> 255 \<Longrightarrow> HeapElement_kv (HeapElement_enc e) = kv e"
  using reads_NewBufferReader[OF reads_HeapElement[of "[]" "e\<lparr>he_HashmapKey := []\<rparr>"]]
  by (simp add: HeapElement_ok_def HeapElement_kv_def HeapElement_enc_def kv_def)

lemma HeapDictElement_position_enc: "HeapDictElement_position (PutUvarint p) = p"
  using reads_NewBufferReader[OF reads_ReadUvarint[of p]] by (simp add: HeapDictElement_position_def)

lemma length_hs_array [simp]: "length (hs_array n A) = n"
  by (simp add: hs_array_def)

lemma nth_hs_array: "i < n \<Longrightarrow> hs_array n A ! i = HeapElement_kv (the (A (hs_key i)))"
  by (simp add: hs_array_def)

lemma hs_array_update:
  "i < n \<Longrightarrow> n < 2 ^ 63 \<Longrightarrow> hs_array n (A(hs_key i \<mapsto> b)) = (hs_array n A)[i := HeapElement_kv b]"
  by (rule nth_equalityI) (auto simp: nth_hs_array nth_list_update hs_key_eq)

lemma hs_array_append: "n < 2 ^ 63 \<Longrightarrow> hs_array (Suc n) (A(hs_key n \<mapsto> b)) = hs_array n A @ [HeapElement_kv b]"
  by (rule nth_equalityI) (auto simp: nth_hs_array nth_append hs_key_eq less_Suc_eq)

lemma hs_array_butlast:
  "0 < n \<Longrightarrow> n < 2 ^ 63 \<Longrightarrow> hs_array (n - 1) (A(hs_key (n - 1) := None)) = butlast (hs_array n A)"
  by (rule nth_equalityI) (auto simp: nth_hs_array nth_butlast hs_key_eq)

section \<open>It is a heap storage\<close>

locale heap_store = store_tx X view for X :: "'x StoreTx" and view

sublocale heap_store \<subseteq> em: hash_map_laws X view HeapElement_ops HeapElement_create HeapElement_ok ..

sublocale heap_store \<subseteq> dm: hash_map_laws X view HeapDictElement_ops HeapDictElement_create HeapDictElement_ok ..

context heap_store
begin

text \<open>A step of one map leaves the other one as it is.\<close>

lemma HashMap_step:
  assumes "hs_core X view s" "em.core (h, x)" "em.keeps (hs_HashMap s, hs_Tx s) (h, x)"
  defines "t \<equiv> s\<lparr>hs_HashMap := h, hs_Tx := x\<rparr>"
  shows "hs_core X view t" "hs_contents view t = hm_contents HeapElement_ops view (h, x)"
    "hs_positions view t = hs_positions view s"
proof -
  have v: "view x = view (hs_Tx s)" "hm_keyLength h = hm_keyLength (hs_HashMap s)"
    using assms(3) by (auto simp: em.keeps_def em.static_def)
  have w: "tx_IsWritable X x = tx_IsWritable X (hs_Tx s)"
    using assms(1,2) by (auto simp: hs_core_def hm_core_def)
  note d = dm.core_view[OF _ v(1) w, of "hs_DictMap s"]
  show "hs_core X view t" "hs_contents view t = hm_contents HeapElement_ops view (h, x)"
    "hs_positions view t = hs_positions view s"
    using assms(1,2) v d by (auto simp: hs_core_def t_def hs_contents_def hs_positions_def)
qed

lemma DictMap_step:
  assumes "hs_core X view s" "dm.core (h, x)" "dm.keeps (hs_DictMap s, hs_Tx s) (h, x)"
  defines "t \<equiv> s\<lparr>hs_DictMap := h, hs_Tx := x\<rparr>"
  shows "hs_core X view t" "hs_positions view t = hm_contents HeapDictElement_ops view (h, x)"
    "hs_contents view t = hs_contents view s"
proof -
  have v: "view x = view (hs_Tx s)" "hm_keyLength h = hm_keyLength (hs_DictMap s)"
    using assms(3) by (auto simp: dm.keeps_def dm.static_def)
  have w: "tx_IsWritable X x = tx_IsWritable X (hs_Tx s)"
    using assms(1,2) by (auto simp: hs_core_def hm_core_def)
  note d = em.core_view[OF _ v(1) w, of "hs_HashMap s"]
  show "hs_core X view t" "hs_positions view t = hm_contents HeapDictElement_ops view (h, x)"
    "hs_contents view t = hs_contents view s"
    using assms(1,2) v d by (auto simp: hs_core_def t_def hs_contents_def hs_positions_def)
qed

lemma count: "hs_core X view s \<Longrightarrow> hm_Count (hs_HashMap s) = of_nat (card (dom (hs_contents view s)))"
  using em.coreD(6)[of "(hs_HashMap s, hs_Tx s)"] by (simp add: hs_core_def hs_contents_def)

lemma no_bad_key: "hs_core X view s \<Longrightarrow> \<not> bad_key (hs_HashMap s) k" "hs_core X view s \<Longrightarrow> \<not> bad_key (hs_DictMap s) k"
  by (simp_all add: hs_core_def bad_key_def)

lemma Get_element:
  assumes "hs_core X view s"
  shows "\<exists>eo t. on_HashMap (Get HeapElement_ops X k) s = (Inr eo, t) \<and> hs_core X view t \<and>
    hs_contents view t = hs_contents view s \<and> hs_positions view t = hs_positions view s \<and>
    map_option HeapElement_enc eo = hs_contents view s k \<and> (\<forall>e. eo = Some e \<longrightarrow> HeapElement_ok k e)"
proof -
  have c: "em.core (hs_HashMap s, hs_Tx s)" using assms by (simp add: hs_core_def)
  obtain eo h x where g: "Get HeapElement_ops X k (hs_HashMap s, hs_Tx s) = (Inr eo, (h, x))" "em.core (h, x)"
    "em.keeps (hs_HashMap s, hs_Tx s) (h, x)" "em.contents (h, x) = em.contents (hs_HashMap s, hs_Tx s)"
    "map_option em.ser eo = em.contents (hs_HashMap s, hs_Tx s) k" "\<forall>e. eo = Some e \<longrightarrow> HeapElement_ok k e"
    using em.Get_ok[OF c no_bad_key(1)[OF assms]] by blast
  have "em.ser = HeapElement_enc" by (rule ext) (rule HeapElement_bytes)
  then show ?thesis using g HashMap_step[OF assms g(2,3)]
    by (auto simp: on_HashMap_def hs_contents_def)
qed

lemma Update_element:
  assumes "hs_core X view s" "length (he_Key e) \<le> 255"
  shows "\<exists>d t. on_HashMap (Update HeapElement_ops X k (Some e)) s = (Inr d, t) \<and> hs_core X view t \<and>
    hs_contents view t = (hs_contents view s)(k \<mapsto> HeapElement_enc e) \<and> hs_positions view t = hs_positions view s"
proof -
  have c: "em.core (hs_HashMap s, hs_Tx s)" using assms(1) by (simp add: hs_core_def)
  let ?e = "el_SetKey HeapElement_ops k e"
  have e: "HeapElement_ok k ?e" "HeapElement_enc ?e = HeapElement_enc e"
    using assms(2) by (simp_all add: HeapElement_ops_def HeapElement_ok_def HeapElement_enc_def)
  obtain d h x where g: "Update HeapElement_ops X k (Some e) (hs_HashMap s, hs_Tx s) = (Inr d, (h, x))" "em.core (h, x)"
    "em.keeps (hs_HashMap s, hs_Tx s) (h, x)"
    "em.contents (h, x) = (em.contents (hs_HashMap s, hs_Tx s))(k \<mapsto> em.ser ?e)"
    using em.Update_ok[OF c no_bad_key(1)[OF assms(1)] e(1)] by blast
  then show ?thesis using HashMap_step[OF assms(1) g(2,3)] e(2)
    by (auto simp: on_HashMap_def hs_contents_def HeapElement_bytes)
qed

lemma Delete_element:
  assumes "hs_core X view s"
  shows "\<exists>t. on_HashMap (Delete HeapElement_ops X k) s = (Inr (), t) \<and> hs_core X view t \<and>
    hs_contents view t = (hs_contents view s)(k := None) \<and> hs_positions view t = hs_positions view s"
proof -
  have c: "em.core (hs_HashMap s, hs_Tx s)" using assms(1) by (simp add: hs_core_def)
  obtain h x where g: "Delete HeapElement_ops X k (hs_HashMap s, hs_Tx s) = (Inr (), (h, x))" "em.core (h, x)"
    "em.keeps (hs_HashMap s, hs_Tx s) (h, x)"
    "em.contents (h, x) = (em.contents (hs_HashMap s, hs_Tx s))(k := None)"
    using em.Delete_ok[OF c no_bad_key(1)[OF assms(1)]] by blast
  then show ?thesis using HashMap_step[OF assms(1) g(2,3)] by (auto simp: on_HashMap_def hs_contents_def)
qed

lemma Set_position:
  assumes "hs_core X view s"
  shows "\<exists>t. hs_setPosition X k p s = (Inr (), t) \<and> hs_core X view t \<and>
    hs_positions view t = (hs_positions view s)(k \<mapsto> PutUvarint p) \<and> hs_contents view t = hs_contents view s"
proof -
  have c: "dm.core (hs_DictMap s, hs_Tx s)" using assms(1) by (simp add: hs_core_def)
  let ?e = "\<lparr>hd_HashmapKey = k, hd_Position = p\<rparr>"
  have e: "el_SetKey HeapDictElement_ops k ?e = ?e" by (simp add: HeapDictElement_ops_def)
  obtain d h x where g: "Update HeapDictElement_ops X k (Some ?e) (hs_DictMap s, hs_Tx s) = (Inr d, (h, x))" "dm.core (h, x)"
    "dm.keeps (hs_DictMap s, hs_Tx s) (h, x)"
    "dm.contents (h, x) = (dm.contents (hs_DictMap s, hs_Tx s))(k \<mapsto> dm.ser ?e)"
    using dm.Update_ok[OF c no_bad_key(2)[OF assms(1)], of k ?e] by (auto simp: HeapDictElement_ok_def e)
  then show ?thesis using DictMap_step[OF assms(1) g(2,3)]
    by (auto simp: hs_setPosition_def on_DictMap_def hs_positions_def HeapDictElement_bytes gbind_def)
qed

lemma Delete_position:
  assumes "hs_core X view s"
  shows "\<exists>t. on_DictMap (Delete HeapDictElement_ops X k) s = (Inr (), t) \<and> hs_core X view t \<and>
    hs_positions view t = (hs_positions view s)(k := None) \<and> hs_contents view t = hs_contents view s"
proof -
  have c: "dm.core (hs_DictMap s, hs_Tx s)" using assms(1) by (simp add: hs_core_def)
  obtain h x where g: "Delete HeapDictElement_ops X k (hs_DictMap s, hs_Tx s) = (Inr (), (h, x))" "dm.core (h, x)"
    "dm.keeps (hs_DictMap s, hs_Tx s) (h, x)"
    "dm.contents (h, x) = (dm.contents (hs_DictMap s, hs_Tx s))(k := None)"
    using dm.Delete_ok[OF c no_bad_key(2)[OF assms(1)]] by blast
  then show ?thesis using DictMap_step[OF assms(1) g(2,3)] by (auto simp: on_DictMap_def hs_positions_def)
qed

lemma hs_inv_dom:
  assumes "hs_core X view s" "dom (hs_contents view s) = hs_key ` {..<n}" "n < 2 ^ 63"
  shows "hs_inv X view s" "unat (hm_Count (hs_HashMap s)) = n" "hs_elems view s = hs_array n (hs_contents view s)"
proof -
  show n: "unat (hm_Count (hs_HashMap s)) = n"
    using count[OF assms(1)] assms(2,3) by (simp add: card_hs_key unat_of_nat_uint64)
  show "hs_inv X view s" "hs_elems view s = hs_array n (hs_contents view s)"
    using assms n by (simp_all add: hs_inv_def hs_elems_def)
qed

lemma hs_inv_step:
  assumes "hs_inv X view s" "hs_core X view t" "hs_contents view t = hs_contents view s"
  shows "hs_inv X view t" "hs_elems view t = hs_elems view s"
    "hm_Count (hs_HashMap t) = hm_Count (hs_HashMap s)"
  using assms count[of s] count[OF assms(2)] by (auto simp: hs_inv_def hs_elems_def)

lemma element_at:
  assumes "hs_inv X view s" "i < length (hs_elems view s)"
  shows "\<exists>e t. hs_getElement X (of_nat i) s = (Inr (Some e), t) \<and> kv e = hs_elems view s ! i \<and>
    length (he_Key e) \<le> 255 \<and> hs_inv X view t \<and> hs_contents view t = hs_contents view s \<and>
    hs_positions view t = hs_positions view s"
proof -
  have c: "hs_core X view s" using assms(1) by (simp add: hs_inv_def)
  have i: "i < unat (hm_Count (hs_HashMap s))" using assms(2) by (simp add: hs_elems_def)
  obtain eo t where t: "on_HashMap (Get HeapElement_ops X (hs_key i)) s = (Inr eo, t)" "hs_core X view t"
    "hs_contents view t = hs_contents view s" "hs_positions view t = hs_positions view s"
    "map_option HeapElement_enc eo = hs_contents view s (hs_key i)" "\<forall>e. eo = Some e \<longrightarrow> HeapElement_ok (hs_key i) e"
    using Get_element[OF c] by blast
  have "hs_key i \<in> dom (hs_contents view s)" using assms(1) i by (auto simp: hs_inv_def)
  then obtain e where e: "eo = Some e" "hs_contents view s (hs_key i) = Some (HeapElement_enc e)"
    using t(5) by (cases eo) auto
  then have l: "length (he_Key e) \<le> 255" using t(6) by (simp add: HeapElement_ok_def)
  then have "kv e = hs_elems view s ! i"
    using e i by (simp add: hs_elems_def nth_hs_array HeapElement_kv_enc)
  then show ?thesis using t e l hs_inv_step(1)[OF assms(1) t(2,3)] by (auto simp: hs_getElement_def hs_key_def)
qed

lemma update_element_ok:
  assumes "hs_inv X view s" "i < length (hs_elems view s)" "length (he_Key e) \<le> 255"
  shows "\<exists>t. hs_updateElement X (of_nat i) (Some e) s = (Inr (), t) \<and> hs_inv X view t \<and>
    hs_elems view t = (hs_elems view s)[i := kv e] \<and> hs_dict view t = (hs_dict view s)(he_Key e \<mapsto> of_nat i)"
proof -
  let ?n = "unat (hm_Count (hs_HashMap s))"
  have s: "hs_core X view s" "?n < 2 ^ 63" "dom (hs_contents view s) = hs_key ` {..<?n}" "i < ?n"
    using assms by (auto simp: hs_inv_def hs_elems_def)
  obtain d t1 where 1: "on_HashMap (Update HeapElement_ops X (hs_key i) (Some e)) s = (Inr d, t1)" "hs_core X view t1"
    "hs_contents view t1 = (hs_contents view s)(hs_key i \<mapsto> HeapElement_enc e)" "hs_positions view t1 = hs_positions view s"
    using Update_element[OF s(1) assms(3)] by blast
  obtain t2 where 2: "hs_setPosition X (he_Key e) (of_nat i) t1 = (Inr (), t2)" "hs_core X view t2"
    "hs_positions view t2 = (hs_positions view t1)(he_Key e \<mapsto> PutUvarint (of_nat i))"
    "hs_contents view t2 = hs_contents view t1" using Set_position[OF 1(2)] by blast
  have "dom (hs_contents view t2) = hs_key ` {..<?n}" using 1(3) 2(4) s(3,4) by auto
  note t2 = hs_inv_dom[OF 2(2) this s(2)]
  have "hs_elems view t2 = (hs_elems view s)[i := kv e]"
    using t2(3) 2(4) 1(3) hs_array_update[OF s(4,2)] HeapElement_kv_enc[OF assms(3)] by (simp add: hs_elems_def)
  moreover have "hs_dict view t2 = (hs_dict view s)(he_Key e \<mapsto> of_nat i)"
    using 2(3) 1(4) by (auto simp: hs_dict_def fun_eq_iff HeapDictElement_position_enc)
  ultimately show ?thesis using 1(1) 2(1) t2(1) by (simp add: hs_updateElement_def hs_key_def gbind_Inr)
qed

lemma add_element_ok:
  assumes "hs_inv X view s" "Suc (length (hs_elems view s)) < 2 ^ 63" "length (he_Key e) \<le> 255"
  shows "\<exists>t. hs_addElement X e s = (Inr (), t) \<and> hs_inv X view t \<and> hs_elems view t = hs_elems view s @ [kv e] \<and>
    hs_dict view t = (hs_dict view s)(he_Key e \<mapsto> of_nat (length (hs_elems view s)))"
proof -
  let ?n = "unat (hm_Count (hs_HashMap s))"
  have s: "hs_core X view s" "Suc ?n < 2 ^ 63" "dom (hs_contents view s) = hs_key ` {..<?n}"
    using assms by (auto simp: hs_inv_def hs_elems_def)
  have k: "FormatUint (hm_Count (hs_HashMap s)) = hs_key ?n" by (simp add: hs_key_def)
  obtain d t1 where 1: "on_HashMap (Update HeapElement_ops X (hs_key ?n) (Some e)) s = (Inr d, t1)" "hs_core X view t1"
    "hs_contents view t1 = (hs_contents view s)(hs_key ?n \<mapsto> HeapElement_enc e)" "hs_positions view t1 = hs_positions view s"
    using Update_element[OF s(1) assms(3)] by blast
  obtain t2 where 2: "hs_setPosition X (he_Key e) (hm_Count (hs_HashMap s)) t1 = (Inr (), t2)" "hs_core X view t2"
    "hs_positions view t2 = (hs_positions view t1)(he_Key e \<mapsto> PutUvarint (hm_Count (hs_HashMap s)))"
    "hs_contents view t2 = hs_contents view t1" using Set_position[OF 1(2)] by blast
  have "dom (hs_contents view t2) = hs_key ` {..<Suc ?n}" using 1(3) 2(4) s(3) by (auto simp: lessThan_Suc)
  note t2 = hs_inv_dom[OF 2(2) this s(2)]
  have "hs_elems view t2 = hs_elems view s @ [kv e]"
    using t2(3) 2(4) 1(3) hs_array_append[of ?n] s(2) HeapElement_kv_enc[OF assms(3)] by (simp add: hs_elems_def)
  moreover have "hs_dict view t2 = (hs_dict view s)(he_Key e \<mapsto> of_nat (length (hs_elems view s)))"
    using 2(3) 1(4) by (auto simp: hs_dict_def hs_elems_def fun_eq_iff HeapDictElement_position_enc)
  ultimately show ?thesis using 1(1) 2(1) t2(1) k by (simp add: hs_addElement_def gbind_Inr)
qed

lemma remove_element_ok:
  assumes "hs_inv X view s" "hs_elems view s \<noteq> []"
  shows "\<exists>e t. hs_removeElement X s = (Inr (Some e), t) \<and> kv e = last (hs_elems view s) \<and> hs_inv X view t \<and>
    hs_elems view t = butlast (hs_elems view s) \<and> hs_dict view t = (hs_dict view s)(fst (last (hs_elems view s)) := None)"
proof -
  let ?c = "hm_Count (hs_HashMap s)" and ?n = "unat (hm_Count (hs_HashMap s))"
  have l: "length (hs_elems view s) = ?n" by (simp add: hs_elems_def)
  have s: "hs_core X view s" "?n < 2 ^ 63" "dom (hs_contents view s) = hs_key ` {..<?n}" "0 < ?n"
    using assms l by (auto simp: hs_inv_def)
  have c: "?c \<noteq> 0" "of_nat (?n - 1) = ?c - 1" using s(4) of_nat_diff_uint64[of ?n] by auto
  obtain e t0 where 0: "hs_getElement X (of_nat (?n - 1)) s = (Inr (Some e), t0)" "kv e = hs_elems view s ! (?n - 1)"
    "hs_inv X view t0" "hs_contents view t0 = hs_contents view s" "hs_positions view t0 = hs_positions view s"
    using element_at[OF assms(1), of "?n - 1"] l s(4) by auto
  have c0: "hs_core X view t0" using 0(3) by (simp add: hs_inv_def)
  obtain t1 where 1: "on_HashMap (Delete HeapElement_ops X (hs_key (?n - 1))) t0 = (Inr (), t1)" "hs_core X view t1"
    "hs_contents view t1 = (hs_contents view t0)(hs_key (?n - 1) := None)" "hs_positions view t1 = hs_positions view t0"
    using Delete_element[OF c0] by blast
  obtain t2 where 2: "on_DictMap (Delete HeapDictElement_ops X (he_Key e)) t1 = (Inr (), t2)" "hs_core X view t2"
    "hs_positions view t2 = (hs_positions view t1)(he_Key e := None)" "hs_contents view t2 = hs_contents view t1"
    using Delete_position[OF 1(2)] by blast
  have "{..<?n} = insert (?n - 1) {..<?n - 1}" using s(4) by auto
  then have "dom (hs_contents view t2) = hs_key ` {..<?n - 1}"
    using s(2) 2(4) 1(3) 0(4) s(3) by (auto simp: hs_key_eq)
  moreover have "?n - 1 < 2 ^ 63" using s(2) by simp
  ultimately have t2: "hs_inv X view t2" "hs_elems view t2 = hs_array (?n - 1) (hs_contents view t2)"
    using hs_inv_dom[OF 2(2)] by blast+
  have "hs_elems view t2 = butlast (hs_elems view s)"
    using t2(2) 2(4) 1(3) 0(4) hs_array_butlast[OF s(4,2)] by (simp add: hs_elems_def)
  moreover have k: "kv e = last (hs_elems view s)" using 0(2) l assms(2) by (simp add: last_conv_nth)
  moreover have "hs_dict view t2 = (hs_dict view s)(fst (last (hs_elems view s)) := None)"
    unfolding k[symmetric] using 2(3) 1(4) 0(5) by (auto simp: hs_dict_def fun_eq_iff kv_def)
  ultimately show ?thesis
    using 0(1) 1(1) 2(1) t2(1) c by (simp add: hs_removeElement_def hs_key_def gbind_Inr)
qed

lemma storage: "heap_storage (NewHeapStore_ops X compare) (hs_elems view) (hs_dict view) (hs_inv X view) (\<lambda>k. length k \<le> 255)"
proof
  fix s i and e :: HeapElement and x
  assume s: "hs_inv X view s"
  show "hp_GetSize (NewHeapStore_ops X compare) s = of_nat (length (hs_elems view s))" "length (hs_elems view s) < 2 ^ 63"
    using s by (simp_all add: NewHeapStore_ops_def hs_elems_def hs_inv_def)
  show "length (fst x) \<le> 255" if "x \<in> set (hs_elems view s)"
    using that element_at[OF s] by (metis fst_conv in_set_conv_nth kv_def)
  show "\<exists>e t. hp_getElement (NewHeapStore_ops X compare) (of_nat i) s = (Inr (Some e), t) \<and> kv e = hs_elems view s ! i \<and>
      hs_inv X view t \<and> hs_elems view t = hs_elems view s \<and> hs_dict view t = hs_dict view s"
    if i: "i < length (hs_elems view s)"
  proof -
    obtain e t where t: "hs_getElement X (of_nat i) s = (Inr (Some e), t)" "kv e = hs_elems view s ! i"
      "hs_inv X view t" "hs_contents view t = hs_contents view s" "hs_positions view t = hs_positions view s"
      using element_at[OF s i] by blast
    moreover have "hs_elems view t = hs_elems view s"
      using hs_inv_step(2)[OF s _ t(4)] t(3) by (simp add: hs_inv_def)
    ultimately show ?thesis by (auto simp: NewHeapStore_ops_def hs_dict_def fun_eq_iff)
  qed
  show "\<exists>t. hp_updateElement (NewHeapStore_ops X compare) (of_nat i) (Some e) s = (Inr (), t) \<and> hs_inv X view t \<and>
      hs_elems view t = (hs_elems view s)[i := kv e] \<and> hs_dict view t = (hs_dict view s)(he_Key e \<mapsto> of_nat i)"
    if "i < length (hs_elems view s)" "length (he_Key e) \<le> 255"
    using update_element_ok[OF s that] by (simp add: NewHeapStore_ops_def)
  show "\<exists>t. hp_addElement (NewHeapStore_ops X compare) e s = (Inr (), t) \<and> hs_inv X view t \<and>
      hs_elems view t = hs_elems view s @ [kv e] \<and>
      hs_dict view t = (hs_dict view s)(he_Key e \<mapsto> of_nat (length (hs_elems view s)))"
    if "Suc (length (hs_elems view s)) < 2 ^ 63" "length (he_Key e) \<le> 255"
    using add_element_ok[OF s that] by (simp add: NewHeapStore_ops_def)
  show "\<exists>e t. hp_removeElement (NewHeapStore_ops X compare) s = (Inr (Some e), t) \<and> kv e = last (hs_elems view s) \<and>
      hs_inv X view t \<and> hs_elems view t = butlast (hs_elems view s) \<and>
      hs_dict view t = (hs_dict view s)(fst (last (hs_elems view s)) := None)"
    if "hs_elems view s \<noteq> []"
    using remove_element_ok[OF s that] by (simp add: NewHeapStore_ops_def)
qed

end

sublocale heap_store \<subseteq> minh: ordered_heap_storage "NewMinHeapStoreHashMap X" "hs_elems view" "hs_dict view" "hs_inv X view"
  "\<lambda>k. length k \<le> 255" "\<lambda>x. \<not> float64_isNaN x"
  unfolding NewMinHeapStoreHashMap_def
  by (intro ordered_heap_storage.intro storage ordered_heap_storage_axioms.intro)
    (auto simp: NewHeapStore_ops_def float64_less_def)

sublocale heap_store \<subseteq> maxh: ordered_heap_storage "NewMaxHeapStoreHashMap X" "hs_elems view" "hs_dict view" "hs_inv X view"
  "\<lambda>k. length k \<le> 255" "\<lambda>x. \<not> float64_isNaN x"
  unfolding NewMaxHeapStoreHashMap_def
  by (intro ordered_heap_storage.intro storage ordered_heap_storage_axioms.intro)
    (auto simp: NewHeapStore_ops_def float64_less_def)

context heap_store
begin

abbreviation "maxH \<equiv> NewMaxHeapStoreHashMap X"

lemma Get_position:
  assumes "hs_inv X view s"
  shows "\<exists>eo t. on_DictMap (Get HeapDictElement_ops X k) s = (Inr eo, t) \<and> hs_inv X view t \<and>
    hs_elems view t = hs_elems view s \<and> hs_dict view t = hs_dict view s \<and> map_option hd_Position eo = hs_dict view s k"
proof -
  have c: "hs_core X view s" "dm.core (hs_DictMap s, hs_Tx s)" using assms by (simp_all add: hs_inv_def hs_core_def)
  obtain eo h x where g: "Get HeapDictElement_ops X k (hs_DictMap s, hs_Tx s) = (Inr eo, (h, x))" "dm.core (h, x)"
    "dm.keeps (hs_DictMap s, hs_Tx s) (h, x)" "dm.contents (h, x) = dm.contents (hs_DictMap s, hs_Tx s)"
    "map_option dm.ser eo = dm.contents (hs_DictMap s, hs_Tx s) k"
    using dm.Get_ok[OF c(2) no_bad_key(2)[OF c(1)]] by blast
  have "map_option HeapDictElement_position (map_option dm.ser eo) = map_option hd_Position eo"
    by (cases eo) (simp_all add: HeapDictElement_bytes HeapDictElement_position_enc)
  then have "map_option hd_Position eo = hs_dict view s k"
    using g(5) by (simp add: hs_dict_def hs_positions_def)
  moreover note t = DictMap_step[OF c(1) g(2,3)]
  moreover note hs_inv_step[OF assms t(1,3)]
  moreover from t(2) g(4) have "hs_positions view (s\<lparr>hs_DictMap := h, hs_Tx := x\<rparr>) = hs_positions view s"
    by (simp add: hs_positions_def)
  ultimately show ?thesis using g(1) by (auto simp: on_DictMap_def hs_dict_def fun_eq_iff)
qed

lemma maxh_inv_transfer:
  assumes "maxh.heap_inv K s" "hs_inv X view t" "hs_elems view t = hs_elems view s"
    "maxh.dict_exact K' (hs_elems view s) (hs_dict view t)"
  shows "maxh.heap_inv K' t"
  using assms by (simp add: maxh.heap_inv_def maxh.good_def)

lemma DeleteByKey_missing:
  assumes "maxh.heap_inv {} s" "map_of (hs_elems view s) k = None"
  shows "\<exists>t. HeapStore_DeleteByKey X maxH k s = (Inl (Error ''Key is not found''), t) \<and> maxh.heap_inv {} t \<and>
    hs_elems view t = hs_elems view s"
proof -
  have inv: "hs_inv X view s" "maxh.dict_exact {} (hs_elems view s) (hs_dict view s)"
    using assms(1) by (simp_all add: maxh.heap_inv_def maxh.good_def)
  obtain eo t where t: "on_DictMap (Get HeapDictElement_ops X k) s = (Inr eo, t)" "hs_inv X view t"
    "hs_elems view t = hs_elems view s" "hs_dict view t = hs_dict view s" "map_option hd_Position eo = hs_dict view s k"
    using Get_position[OF inv(1)] by blast
  moreover have "hs_dict view s k = None" using maxh.heap_inv_keys[OF assms(1)] assms(2) by simp
  ultimately show ?thesis using maxh_inv_transfer[OF assms(1) t(2,3)] inv(2)
    by (auto simp: HeapStore_DeleteByKey_def gbind_Inr)
qed

lemma DeleteByKey_present:
  assumes "maxh.heap_inv {} s" "map_of (hs_elems view s) k \<noteq> None"
  shows "\<exists>t. HeapStore_DeleteByKey X maxH k s = (Inr (), t) \<and> maxh.heap_inv {} t \<and>
    map_of (hs_elems view t) = (map_of (hs_elems view s))(k := None) \<and>
    Suc (length (hs_elems view t)) = length (hs_elems view s)"
proof -
  have inv: "hs_inv X view s" "maxh.dict_exact {} (hs_elems view s) (hs_dict view s)"
    using assms(1) by (simp_all add: maxh.heap_inv_def maxh.good_def)
  obtain eo t where t: "on_DictMap (Get HeapDictElement_ops X k) s = (Inr eo, t)" "hs_inv X view t"
    "hs_elems view t = hs_elems view s" "hs_dict view t = hs_dict view s" "map_option hd_Position eo = hs_dict view s k"
    using Get_position[OF inv(1)] by blast
  have i1: "maxh.heap_inv {} t" using maxh_inv_transfer[OF assms(1) t(2,3)] inv(2) t(4) by simp
  have "hs_dict view s k \<noteq> None" using maxh.heap_inv_keys[OF assms(1)] assms(2) by simp
  then obtain d where d: "eo = Some d" "hs_dict view t k = Some (hd_Position d)" using t(4,5) by (cases eo) auto
  obtain u where u: "Heap_Delete maxH (hd_Position d) t = (Inr (), u)" "maxh.heap_inv {k} u"
    "map_of (hs_elems view u) = (map_of (hs_elems view t))(k := None)" "Suc (length (hs_elems view u)) = length (hs_elems view t)"
    using maxh.Delete_map[OF i1 d(2)] by blast
  have uinv: "hs_inv X view u" "maxh.dict_exact {k} (hs_elems view u) (hs_dict view u)"
    using u(2) by (simp_all add: maxh.heap_inv_def maxh.good_def)
  obtain v where v: "on_DictMap (Delete HeapDictElement_ops X k) u = (Inr (), v)" "hs_core X view v"
    "hs_positions view v = (hs_positions view u)(k := None)" "hs_contents view v = hs_contents view u"
    using Delete_position[of u k] uinv(1) by (auto simp: hs_inv_def)
  note vi = hs_inv_step[OF uinv(1) v(2,4)]
  have "hs_dict view v = (hs_dict view u)(k := None)" using v(3) by (auto simp: hs_dict_def fun_eq_iff)
  moreover have "k \<notin> fst ` set (hs_elems view u)" using u(3) by (auto simp: map_of_eq_None_iff[symmetric])
  ultimately have "maxh.dict_exact {} (hs_elems view u) (hs_dict view v)"
    using uinv(2) by (auto simp: maxh.dict_exact_def)
  then have "maxh.heap_inv {} v" using maxh_inv_transfer[OF u(2) vi(1,2)] by simp
  then show ?thesis using t(1,3) d(1) u v(1) vi(2) by (auto simp: HeapStore_DeleteByKey_def gbind_Inr)
qed

end

interpretation mem_heap: heap_store mem_ops mem_view ..

end
