(* ===== verification/Amounts.thy ===== *)
theory Amounts
  imports Go_Prelude
begin

text \<open>
  Checked 64-bit arithmetic (\<^verbatim>\<open>helpers/safe_uint64.go\<close>) and the monetary constants and schedules
  of \<^verbatim>\<open>config/\<close> that need no floating point.  A Go function that takes \<^verbatim>\<open>a *uint64\<close> is a computation
  over the state \<open>*a\<close>: a failure leaves the pointed-to value as it was.
\<close>

section \<open>Checked arithmetic\<close>

definition SafeUint64Add :: "uint64 \<Rightarrow> (uint64, unit) go" where
  "SafeUint64Add v = (\<lambda>a.
     if MaxUint64 - a < v then (Inl (Error ''Uint64 would exceed''), a) else (Inr (), a + v))"

definition SafeUint64Sub :: "uint64 \<Rightarrow> (uint64, unit) go" where
  "SafeUint64Sub v = (\<lambda>a.
     if a < v then (Inl (Error ''Uint64 would become negative''), a) else (Inr (), a - v))"

definition SafeUint64Mul :: "uint64 \<Rightarrow> (uint64, unit) go" where
  "SafeUint64Mul v = (\<lambda>a.
     if v = 0 then (Inl (Panic ''integer divide by zero''), a)
     else if MaxUint64 div v < a then (Inl (Error ''Uint64 would exceed''), a)
     else (Inr (), a * v))"

definition SafeUint64Update :: "bool \<Rightarrow> uint64 \<Rightarrow> (uint64, unit) go" where
  "SafeUint64Update sign v = (\<lambda>a.
     if sign then
       (if MaxUint64 - a \<le> v then (Inl (Error ''Uint64 would exceed''), a) else (Inr (), a + v))
     else
       (if a < v then (Inl (Error ''Uint64 would become negative''), a) else (Inr (), a - v)))"

definition powsOf10 :: "uint64 list" where
  "powsOf10 =
     [1, 10, 100, 1000, 10000, 100000, 1000000, 10000000, 100000000, 1000000000, 10000000000,
      100000000000, 1000000000000, 10000000000000, 100000000000000, 1000000000000000,
      10000000000000000, 100000000000000000, 1000000000000000000, 10000000000000000000]"

definition Pow10 :: "byte \<Rightarrow> uint64 result" where
  "Pow10 e = (if unat e < length powsOf10 then Inr (powsOf10 ! unat e)
              else Inl (Panic ''index out of range''))"

section \<open>Coins, fees and stakes\<close>

definition COIN_DENOMINATION :: uint64 where
  "COIN_DENOMINATION = 1000000"

definition MAX_SUPPLY_COINS :: uint64 where
  "MAX_SUPPLY_COINS = 42000000000"

definition ConvertToUnitsUint64 :: "uint64 \<Rightarrow> uint64 result" where
  "ConvertToUnitsUint64 n =
     (if n < MaxUint64 div COIN_DENOMINATION then Inr (n * COIN_DENOMINATION)
      else Inl (Error ''Error converting to units''))"

definition ConvertToUnitsUint64Forced :: "uint64 \<Rightarrow> uint64 result" where
  "ConvertToUnitsUint64Forced n =
     (case ConvertToUnitsUint64 n of
        Inl (Error m) \<Rightarrow> Inl (Panic m) | Inl e \<Rightarrow> Inl e | Inr out \<Rightarrow> Inr out)"

definition FEE_PER_BYTE :: uint64 where "FEE_PER_BYTE = 10"
definition FEE_PER_BYTE_ZETHER :: uint64 where "FEE_PER_BYTE_ZETHER = 20"
definition FEE_PER_BYTE_EXTRA_SPACE :: uint64 where "FEE_PER_BYTE_EXTRA_SPACE = 100"

definition ComputeTxFee :: "uint64 \<Rightarrow> uint64 \<Rightarrow> uint64 \<Rightarrow> uint64 \<Rightarrow> uint64" where
  "ComputeTxFee size' feePerByte extraSpace feePerByeExtraSpace =
     size' * feePerByte + extraSpace * feePerByeExtraSpace"

definition GetRequiredAssetFee :: "uint64 \<Rightarrow> uint64 result" where
  "GetRequiredAssetFee blockHeight =
     (case ConvertToUnitsUint64 100 of
        Inl (Error m) \<Rightarrow> Inl (Panic m) | Inl e \<Rightarrow> Inl e | Inr out \<Rightarrow> Inr out)"

definition GetRequiredStake :: "uint64 \<Rightarrow> uint64 result" where
  "GetRequiredStake blockHeight =
     (case ConvertToUnitsUint64 100 of
        Inl (Error m) \<Rightarrow> Inl (Panic m) | Inl e \<Rightarrow> Inl e | Inr out \<Rightarrow> Inr out)"

text \<open>\<open>new_devnet\<close> is whether the node was started with \<^verbatim>\<open>--new-devnet\<close>.\<close>

definition GetPendingStakeWindow :: "bool \<Rightarrow> uint64 \<Rightarrow> uint64" where
  "GetPendingStakeWindow new_devnet blockHeight =
     (if new_devnet then (if blockHeight = 0 then 1 else 10) else 60)"

section \<open>The arithmetic is exact or refused\<close>

lemma MaxUint64_minus: "unat (MaxUint64 - a) = 2 ^ 64 - 1 - unat a"
  by (simp add: unat_sub_uint64 MaxUint64_def word_le_nat_alt less_Suc_eq_le[symmetric])

lemma MaxUint64_minus_less: "MaxUint64 - a < v \<longleftrightarrow> \<not> unat a + unat v < 2 ^ 64"
proof -
  have "unat a < 2 ^ 64" by simp
  then show ?thesis unfolding word_less_nat_alt MaxUint64_minus by linarith
qed

lemma MaxUint64_minus_le: "MaxUint64 - a \<le> v \<longleftrightarrow> \<not> unat a + unat v < 2 ^ 64 - 1"
proof -
  have "unat a < 2 ^ 64" by simp
  then show ?thesis unfolding word_le_nat_alt MaxUint64_minus by linarith
qed

lemma SafeUint64Add_ok_iff:
  "SafeUint64Add v a = (Inr (), b) \<longleftrightarrow> unat a + unat v < 2 ^ 64 \<and> unat b = unat a + unat v"
  by (auto simp: SafeUint64Add_def MaxUint64_minus_less unat_add_uint64 word_unat_eq_iff)

lemma SafeUint64Sub_ok_iff:
  "SafeUint64Sub v a = (Inr (), b) \<longleftrightarrow> unat v \<le> unat a \<and> unat b = unat a - unat v"
  by (auto simp: SafeUint64Sub_def word_less_nat_alt word_le_nat_alt unat_sub_uint64 word_unat_eq_iff
      split: if_splits)

lemma unat_mult_uint64:
  "unat (a :: uint64) * unat b < 2 ^ 64 \<Longrightarrow> unat (a * b) = unat a * unat b"
  by (simp add: unat_word_ariths)

lemma SafeUint64Mul_ok_iff:
  assumes "v \<noteq> 0"
  shows "SafeUint64Mul v a = (Inr (), b) \<longleftrightarrow> unat a * unat v < 2 ^ 64 \<and> unat b = unat a * unat v"
proof -
  have v: "0 < unat v" using assms by (simp add: unat_gt_0)
  have "MaxUint64 div v < a \<longleftrightarrow> (2 ^ 64 - 1) div unat v < unat a"
    by (simp add: word_less_nat_alt unat_div)
  also have "\<dots> \<longleftrightarrow> \<not> unat a * unat v < 2 ^ 64"
    using v by (simp add: div_less_iff_less_mult not_less less_Suc_eq_le[symmetric])
  finally show ?thesis
    using assms by (auto simp: SafeUint64Mul_def word_unat_eq_iff unat_mult_uint64)
qed

lemma SafeUint64Update_ok_iff:
  "SafeUint64Update sign v a = (Inr (), b) \<longleftrightarrow>
     (if sign then unat a + unat v < 2 ^ 64 - 1 \<and> unat b = unat a + unat v
      else unat v \<le> unat a \<and> unat b = unat a - unat v)"
proof (cases sign)
  case True
  then show ?thesis
    by (auto simp: SafeUint64Update_def MaxUint64_minus_le unat_add_uint64 word_unat_eq_iff)
next
  case False
  then show ?thesis
    using SafeUint64Sub_ok_iff[of v a b] by (simp add: SafeUint64Update_def SafeUint64Sub_def)
qed

end
