(* ===== verification/Elements.thy ===== *)
theory Elements
  imports Hash_Map_Laws Amounts
begin

text \<open>
  The consensus objects of \<^verbatim>\<open>blockchain/data_storage\<close> that live in hash maps: registrations, plain
  accounts with their asset-fee liquidities, pending stakes and conditional payments.  A Go method
  with a pointer receiver returns the new receiver; the receiver is unchanged where the code fails
  before writing it.  For every type the serialisation round trip is proved and the contract
  \<open>hash_map_element\<close> is discharged, so that each of the maps is a transactional map of its objects.
\<close>

section \<open>Registrations\<close>

record Registration =
  reg_PublicKey :: bytes
  reg_Index :: uint64
  reg_Version :: uint64
  reg_Staked :: bool
  reg_SpendPublicKey :: bytes

definition Registration_Validate :: "Registration \<Rightarrow> unit result" where
  "Registration_Validate r =
     (if reg_Version r \<noteq> 0 then Inl (Error ''Registration Version is invalid'')
      else if length (reg_SpendPublicKey r) \<noteq> PublicKeySize \<and> length (reg_SpendPublicKey r) \<noteq> 0
        then Inl (Error ''Spend Public Key length must be 33'')
      else Inr ())"

definition Registration_Serialize :: "Registration \<Rightarrow> BufferWriter \<Rightarrow> BufferWriter" where
  "Registration_Serialize r = ser_seq
     [WriteUvarint (reg_Version r),
      WriteBool (reg_Staked r),
      WriteBool (length (reg_SpendPublicKey r) > 0),
      Write (reg_SpendPublicKey r)]"

definition Registration_Deserialize :: "Registration \<Rightarrow> (BufferReader, Registration) go" where
  "Registration_Deserialize r =
     gbind ReadUvarint (\<lambda>version.
     gbind ReadBool (\<lambda>staked.
     gbind ReadBool (\<lambda>hasSpendPublicKey.
     if hasSpendPublicKey then
       gbind (ReadBytes (int PublicKeySize)) (\<lambda>spend.
       gret (r\<lparr>reg_Version := version, reg_Staked := staked, reg_SpendPublicKey := spend\<rparr>))
     else gret (r\<lparr>reg_Version := version, reg_Staked := staked\<rparr>))))"

definition NewRegistration :: "bytes \<Rightarrow> uint64 \<Rightarrow> Registration" where
  "NewRegistration publicKey index =
     \<lparr>reg_PublicKey = publicKey, reg_Index = index, reg_Version = 0, reg_Staked = False,
      reg_SpendPublicKey = []\<rparr>"

definition Registration_ops :: "Registration ElemOps" where
  "Registration_ops = \<lparr>
     el_Validate = Registration_Validate,
     el_Serialize = (\<lambda>e. Inr (Registration_Serialize e)),
     el_Deserialize = Registration_Deserialize,
     el_SetIndex = (\<lambda>v r. r\<lparr>reg_Index := v\<rparr>),
     el_SetKey = (\<lambda>k r. r\<lparr>reg_PublicKey := k\<rparr>),
     el_GetIndex = reg_Index,
     el_IsDeletable = (\<lambda>_. False)\<rparr>"

definition Registration_create :: "bytes \<Rightarrow> uint64 \<Rightarrow> Registration result" where
  "Registration_create key index = Inr (NewRegistration key index)"

text \<open>The registrations a key may hold: its own key, and whatever \<^verbatim>\<open>Validate\<close> accepts.\<close>

definition Registration_ok :: "bytes \<Rightarrow> Registration \<Rightarrow> bool" where
  "Registration_ok k r \<longleftrightarrow> reg_PublicKey r = k \<and> Registration_Validate r = Inr ()"

lemma Registration_Validate_iff:
  "Registration_Validate r = Inr () \<longleftrightarrow>
     reg_Version r = 0 \<and> (length (reg_SpendPublicKey r) = 0 \<or> length (reg_SpendPublicKey r) = PublicKeySize)"
  by (auto simp: Registration_Validate_def PublicKeySize_def)

definition Registration_enc :: "Registration \<Rightarrow> bytes" where
  "Registration_enc r = PutUvarint (reg_Version r) @ [if reg_Staked r then 1 else 0] @
     [if length (reg_SpendPublicKey r) > 0 then 1 else 0] @ reg_SpendPublicKey r @ []"

lemma writes_Registration [codec]: "writes (Registration_Serialize r) (Registration_enc r)"
  unfolding Registration_Serialize_def Registration_enc_def by (intro codec)

lemma reads_Registration:
  assumes "length (reg_SpendPublicKey r) = 0 \<or> length (reg_SpendPublicKey r) = PublicKeySize"
    and "reg_SpendPublicKey r0 = []"
  shows "reads (Registration_Deserialize r0) (Registration_enc r)
    (r\<lparr>reg_PublicKey := reg_PublicKey r0, reg_Index := reg_Index r0\<rparr>)"
proof (cases "reg_SpendPublicKey r = []")
  case True
  then have "r0\<lparr>reg_Version := reg_Version r, reg_Staked := reg_Staked r\<rparr> =
      r\<lparr>reg_PublicKey := reg_PublicKey r0, reg_Index := reg_Index r0\<rparr>"
    using assms(2) by (cases r; cases r0) simp
  with True show ?thesis
    unfolding Registration_Deserialize_def Registration_enc_def
    by (intro reads_bind[OF reads_ReadUvarint] reads_bind[OF reads_ReadBool])
      (simp add: reads_gret_eq)
next
  case False
  then have "r0\<lparr>reg_Version := reg_Version r, reg_Staked := reg_Staked r,
        reg_SpendPublicKey := reg_SpendPublicKey r\<rparr> =
      r\<lparr>reg_PublicKey := reg_PublicKey r0, reg_Index := reg_Index r0\<rparr>"
    by (cases r; cases r0) simp
  then have "reads (gbind (ReadBytes (int PublicKeySize)) (\<lambda>spend.
       gret (r0\<lparr>reg_Version := reg_Version r, reg_Staked := reg_Staked r, reg_SpendPublicKey := spend\<rparr>)))
      (reg_SpendPublicKey r @ []) (r\<lparr>reg_PublicKey := reg_PublicKey r0, reg_Index := reg_Index r0\<rparr>)"
    using False assms(1) by (intro reads_bind[OF reads_ReadBytes] reads_gret_eq) auto
  with False show ?thesis
    unfolding Registration_Deserialize_def Registration_enc_def
    by (intro reads_bind[OF reads_ReadUvarint] reads_bind[OF reads_ReadBool]) simp
qed

interpretation reg: hash_map_element Registration_ops Registration_create Registration_ok
proof
  fix k i and r :: Registration
  assume ok: "Registration_ok k r"
  have "SerializeToBytes (Registration_Serialize r) = Registration_enc r"
    by (rule writes_SerializeToBytes[OF writes_Registration])
  then show "\<exists>out. Registration_create k i = Inr out \<and>
      fst (el_Deserialize Registration_ops out (NewBufferReader (el_bytes Registration_ops r))) =
        Inr (el_SetIndex Registration_ops i r)"
    using reads_NewBufferReader[OF reads_Registration, of r "NewRegistration k i"] ok
    by (simp add: Registration_create_def Registration_ops_def el_bytes_def NewRegistration_def
        Registration_ok_def Registration_Validate_iff)
qed (auto simp: Registration_ops_def Registration_ok_def Registration_Validate_iff
      Registration_Serialize_def)

section \<open>Asset-fee liquidities\<close>

record AssetFeeLiquidity =
  al_Asset :: bytes
  al_Rate :: uint64
  al_LeadingZeros :: byte

definition ASSETS_DECIMAL_SEPARATOR_MAX_BYTE :: byte where
  "ASSETS_DECIMAL_SEPARATOR_MAX_BYTE = 10"

definition AssetFeeLiquidity_Validate :: "AssetFeeLiquidity \<Rightarrow> unit result" where
  "AssetFeeLiquidity_Validate l =
     (if length (al_Asset l) \<noteq> ASSET_LENGTH then Inl (Error ''AssetId length is invalid'')
      else if al_Asset l = NATIVE_ASSET_FULL then Inl (Error ''AssetId NATIVE_ASSET_FULL is not allowed'')
      else if al_LeadingZeros l > ASSETS_DECIMAL_SEPARATOR_MAX_BYTE then Inl (Error ''Invalid Leading Zeros'')
      else Inr ())"

definition AssetFeeLiquidity_Serialize :: "AssetFeeLiquidity \<Rightarrow> BufferWriter \<Rightarrow> BufferWriter" where
  "AssetFeeLiquidity_Serialize l = ser_seq
     [Write (al_Asset l), WriteUvarint (al_Rate l), WriteByte (al_LeadingZeros l)]"

definition AssetFeeLiquidity_Deserialize :: "(BufferReader, AssetFeeLiquidity) go" where
  "AssetFeeLiquidity_Deserialize =
     gbind (ReadBytes (int ASSET_LENGTH)) (\<lambda>asset.
     gbind ReadUvarint (\<lambda>rate.
     gbind ReadByte (\<lambda>zeros.
     gret \<lparr>al_Asset = asset, al_Rate = rate, al_LeadingZeros = zeros\<rparr>)))"

record AssetFeeLiquidities =
  afl_Version :: uint64
  afl_List :: "AssetFeeLiquidity list"
  afl_Collector :: bytes

definition afl_NONE :: uint64 where "afl_NONE = 0"
definition afl_SIMPLE :: uint64 where "afl_SIMPLE = 1"

datatype UpdateLiquidityStatus =
    UPDATE_LIQUIDITY_NOTHING
  | UPDATE_LIQUIDITY_OVERWRITTEN
  | UPDATE_LIQUIDITY_INSERTED
  | UPDATE_LIQUIDITY_DELETED

definition HasAssetFeeLiquidities :: "AssetFeeLiquidities \<Rightarrow> bool" where
  "HasAssetFeeLiquidities s \<longleftrightarrow> afl_Version s = afl_SIMPLE"

definition AssetFeeLiquidities_Clear :: "AssetFeeLiquidities \<Rightarrow> AssetFeeLiquidities" where
  "AssetFeeLiquidities_Clear s = s\<lparr>afl_List := [], afl_Collector := [], afl_Version := afl_NONE\<rparr>"

definition AssetFeeLiquidities_Validate :: "AssetFeeLiquidities \<Rightarrow> unit result" where
  "AssetFeeLiquidities_Validate s =
     (if afl_Version s = afl_NONE then
        if length (afl_List s) \<noteq> 0 \<or> length (afl_Collector s) \<noteq> 0
        then Inl (Error ''Collector can not be set while there is no liquidity set'') else Inr ()
      else if afl_Version s = afl_SIMPLE then
        if length (afl_List s) = 0 \<or> length (afl_Collector s) \<noteq> PublicKeySize
        then Inl (Error ''Collector need to be set when there is at least one liquidity provided'')
        else if length (afl_List s) > 255 then Inl (Error ''Invalid List length'') else Inr ()
      else Inl (Error ''Invalid Version''))"

fun GetLiquidity_loop :: "bytes \<Rightarrow> AssetFeeLiquidity list \<Rightarrow> AssetFeeLiquidity option" where
  "GetLiquidity_loop a [] = None"
| "GetLiquidity_loop a (it # its) = (if al_Asset it = a then Some it else GetLiquidity_loop a its)"

definition GetLiquidity :: "bytes \<Rightarrow> AssetFeeLiquidities \<Rightarrow> AssetFeeLiquidity option" where
  "GetLiquidity a s = GetLiquidity_loop a (afl_List s)"

text \<open>The two loops of \<^verbatim>\<open>UpdateLiquidity\<close>: the list after the first item of the asset is removed or
  rewritten, \<open>None\<close> if there is none.\<close>

fun delete_first :: "bytes \<Rightarrow> AssetFeeLiquidity list \<Rightarrow> AssetFeeLiquidity list option" where
  "delete_first a [] = None"
| "delete_first a (it # its) =
     (if al_Asset it = a then Some its else map_option (Cons it) (delete_first a its))"

fun overwrite_first :: "AssetFeeLiquidity \<Rightarrow> AssetFeeLiquidity list \<Rightarrow> AssetFeeLiquidity list option" where
  "overwrite_first u [] = None"
| "overwrite_first u (it # its) =
     (if al_Asset it = al_Asset u
      then Some (it\<lparr>al_Rate := al_Rate u, al_LeadingZeros := al_LeadingZeros u\<rparr> # its)
      else map_option (Cons it) (overwrite_first u its))"

definition UpdateLiquidity ::
  "AssetFeeLiquidity \<Rightarrow> (AssetFeeLiquidities, UpdateLiquidityStatus) go" where
  "UpdateLiquidity u = (\<lambda>s.
     if al_Rate u = 0 then
       (case delete_first (al_Asset u) (afl_List s) of
          Some l \<Rightarrow>
            let s1 = s\<lparr>afl_List := l\<rparr>
            in (Inr UPDATE_LIQUIDITY_DELETED, if length l = 0 then AssetFeeLiquidities_Clear s1 else s1)
        | None \<Rightarrow> (Inr UPDATE_LIQUIDITY_NOTHING, s))
     else
       (case overwrite_first u (afl_List s) of
          Some l \<Rightarrow> (Inr UPDATE_LIQUIDITY_OVERWRITTEN, s\<lparr>afl_List := l\<rparr>)
        | None \<Rightarrow>
            if length (afl_List s) > 255 then (Inl (Error ''AssetFeeLiquidityList will exceed the max''), s)
            else (Inr UPDATE_LIQUIDITY_INSERTED,
                  s\<lparr>afl_List := afl_List s @
                    [\<lparr>al_Asset = al_Asset u, al_Rate = al_Rate u, al_LeadingZeros = al_LeadingZeros u\<rparr>]\<rparr>)))"

definition AssetFeeLiquidities_Serialize :: "AssetFeeLiquidities \<Rightarrow> BufferWriter \<Rightarrow> BufferWriter" where
  "AssetFeeLiquidities_Serialize s = ser_seq
     [WriteUvarint (afl_Version s),
      (if afl_Version s = afl_SIMPLE then ser_seq
         [WriteByte (of_nat (length (afl_List s))),
          fold AssetFeeLiquidity_Serialize (afl_List s),
          Write (afl_Collector s)]
       else (\<lambda>w. w))]"

definition AssetFeeLiquidities_Deserialize ::
  "AssetFeeLiquidities \<Rightarrow> (BufferReader, AssetFeeLiquidities) go" where
  "AssetFeeLiquidities_Deserialize s =
     gbind ReadUvarint (\<lambda>n.
     if n = afl_NONE then gret (s\<lparr>afl_Version := n\<rparr>)
     else if n = afl_SIMPLE then
       gbind ReadByte (\<lambda>count.
       gbind (grepeat (unat count) AssetFeeLiquidity_Deserialize) (\<lambda>l.
       gbind (ReadBytes (int PublicKeySize)) (\<lambda>collector.
       gret (s\<lparr>afl_Version := n, afl_List := l, afl_Collector := collector\<rparr>))))
     else gerr ''Invalid Version'')"

subsection \<open>What an update does\<close>

lemma GetLiquidity_loop_notin [simp]: "a \<notin> al_Asset ` set l \<Longrightarrow> GetLiquidity_loop a l = None"
  by (induction l) auto

lemma delete_first_sub: "delete_first a l = Some l' \<Longrightarrow> set l' \<subseteq> set l"
  by (induction l arbitrary: l') (fastforce split: if_splits)+

lemma delete_first_length: "delete_first a l = Some l' \<Longrightarrow> length l = Suc (length l')"
  by (induction l arbitrary: l') (auto split: if_splits)

lemma delete_first_None: "delete_first a l = None \<longleftrightarrow> a \<notin> al_Asset ` set l"
  by (induction l) auto

lemma delete_first_distinct:
  "distinct (map al_Asset l) \<Longrightarrow> delete_first a l = Some l' \<Longrightarrow> distinct (map al_Asset l')"
proof (induction l arbitrary: l')
  case (Cons it l)
  then show ?case using delete_first_sub[of a l] by (fastforce split: if_splits)
qed simp

lemma GetLiquidity_delete_first:
  "distinct (map al_Asset l) \<Longrightarrow> delete_first a l = Some l' \<Longrightarrow>
   GetLiquidity_loop b l' = (if b = a then None else GetLiquidity_loop b l)"
  by (induction l arbitrary: l') (auto split: if_splits)

lemma overwrite_first_None: "overwrite_first u l = None \<longleftrightarrow> al_Asset u \<notin> al_Asset ` set l"
  by (induction l) auto

lemma overwrite_first_assets: "overwrite_first u l = Some l' \<Longrightarrow> map al_Asset l' = map al_Asset l"
  by (induction l arbitrary: l') (auto split: if_splits)

lemma GetLiquidity_overwrite_first:
  "overwrite_first u l = Some l' \<Longrightarrow>
   GetLiquidity_loop b l' = (if b = al_Asset u then Some u else GetLiquidity_loop b l)"
  by (induction l arbitrary: l') (auto split: if_splits)

lemma GetLiquidity_snoc:
  "GetLiquidity_loop b (l @ [u]) =
     (case GetLiquidity_loop b l of Some it \<Rightarrow> Some it | None \<Rightarrow> if al_Asset u = b then Some u else None)"
  by (induction l) auto

text \<open>An update is a map update: the liquidity of the asset becomes the new one, or disappears with a
  zero rate, and no other asset is touched.\<close>

lemma UpdateLiquidity_lookup:
  assumes "distinct (map al_Asset (afl_List s))" "UpdateLiquidity u s = (Inr st, s')"
  shows "GetLiquidity b s' =
      (if b = al_Asset u then (if al_Rate u = 0 then None else Some u) else GetLiquidity b s)"
    and "distinct (map al_Asset (afl_List s'))"
proof -
  have "distinct (map al_Asset (afl_List s')) \<and> GetLiquidity b s' =
      (if b = al_Asset u then (if al_Rate u = 0 then None else Some u) else GetLiquidity b s)"
  proof (cases "al_Rate u = 0")
    case True
    show ?thesis
    proof (cases "delete_first (al_Asset u) (afl_List s)")
      case None
      with True assms show ?thesis
        by (auto simp: UpdateLiquidity_def GetLiquidity_def delete_first_None[symmetric])
    next
      case (Some l)
      then have "afl_List s' = l"
        using True assms(2) by (auto simp: UpdateLiquidity_def AssetFeeLiquidities_Clear_def Let_def split: if_splits)
      then show ?thesis
        using True assms(1) Some
        by (simp add: GetLiquidity_def GetLiquidity_delete_first delete_first_distinct)
    qed
  next
    case False
    show ?thesis
    proof (cases "overwrite_first u (afl_List s)")
      case None
      then have n: "al_Asset u \<notin> al_Asset ` set (afl_List s)" by (simp add: overwrite_first_None)
      have "afl_List s' = afl_List s @ [u]"
        using False None assms(2) by (auto simp: UpdateLiquidity_def split: if_splits)
      then show ?thesis using n False assms(1)
        by (auto simp: GetLiquidity_def GetLiquidity_snoc split: option.split)
    next
      case (Some l)
      then have "afl_List s' = l" using False assms(2) by (auto simp: UpdateLiquidity_def)
      then show ?thesis using False assms(1) Some overwrite_first_assets[OF Some]
        by (simp add: GetLiquidity_def GetLiquidity_overwrite_first)
    qed
  qed
  then show "GetLiquidity b s' =
      (if b = al_Asset u then (if al_Rate u = 0 then None else Some u) else GetLiquidity b s)"
    and "distinct (map al_Asset (afl_List s'))" by auto
qed

subsection \<open>Round trip\<close>

definition AssetFeeLiquidity_enc :: "AssetFeeLiquidity \<Rightarrow> bytes" where
  "AssetFeeLiquidity_enc l = al_Asset l @ PutUvarint (al_Rate l) @ [al_LeadingZeros l] @ []"

lemma writes_AssetFeeLiquidity [codec]: "writes (AssetFeeLiquidity_Serialize l) (AssetFeeLiquidity_enc l)"
  unfolding AssetFeeLiquidity_Serialize_def AssetFeeLiquidity_enc_def by (intro codec)

lemma reads_AssetFeeLiquidity:
  "length (al_Asset l) = ASSET_LENGTH \<Longrightarrow>
   reads AssetFeeLiquidity_Deserialize (AssetFeeLiquidity_enc l) l"
  unfolding AssetFeeLiquidity_Deserialize_def AssetFeeLiquidity_enc_def
  by (intro reads_bind[OF reads_ReadBytes] reads_bind[OF reads_ReadUvarint] reads_bind[OF reads_ReadByte]
      reads_gret_eq) simp_all

text \<open>What the wire format can carry.\<close>

definition afl_wire :: "AssetFeeLiquidities \<Rightarrow> bool" where
  "afl_wire s \<longleftrightarrow>
     AssetFeeLiquidities_Validate s = Inr () \<and> (\<forall>l \<in> set (afl_List s). length (al_Asset l) = ASSET_LENGTH)"

definition AssetFeeLiquidities_enc :: "AssetFeeLiquidities \<Rightarrow> bytes" where
  "AssetFeeLiquidities_enc s = PutUvarint (afl_Version s) @
     (if afl_Version s = afl_SIMPLE
      then [of_nat (length (afl_List s))] @ concat (map AssetFeeLiquidity_enc (afl_List s)) @ afl_Collector s @ []
      else []) @ []"

lemma writes_AssetFeeLiquidities [codec]:
  "writes (AssetFeeLiquidities_Serialize s) (AssetFeeLiquidities_enc s)"
proof -
  have "writes (ser_seq [WriteByte (of_nat (length (afl_List s))),
          fold AssetFeeLiquidity_Serialize (afl_List s), Write (afl_Collector s)])
      ([of_nat (length (afl_List s))] @ concat (map AssetFeeLiquidity_enc (afl_List s)) @ afl_Collector s @ [])"
    by (intro codec writes_fold)
  then show ?thesis unfolding AssetFeeLiquidities_Serialize_def AssetFeeLiquidities_enc_def
    by (intro codec) (simp add: writes_id)
qed

lemma reads_AssetFeeLiquidities:
  assumes "afl_wire s"
  shows "reads (AssetFeeLiquidities_Deserialize \<lparr>afl_Version = v, afl_List = [], afl_Collector = []\<rparr>)
    (AssetFeeLiquidities_enc s) s"
proof (cases "afl_Version s = afl_SIMPLE")
  case True
  then have len: "unat (of_nat (length (afl_List s)) :: byte) = length (afl_List s)"
    "length (afl_Collector s) = PublicKeySize" "(1 :: uint64) \<noteq> 0"
    using assms
    by (auto simp: afl_wire_def AssetFeeLiquidities_Validate_def afl_SIMPLE_def afl_NONE_def unat_of_nat
        split: if_splits)
  have eq: "\<lparr>afl_Version = v, afl_List = [], afl_Collector = []\<rparr>
      \<lparr>afl_Version := afl_SIMPLE, afl_List := afl_List s, afl_Collector := afl_Collector s\<rparr> = s"
    using True by simp
  have l: "reads (grepeat (length (afl_List s)) AssetFeeLiquidity_Deserialize)
      (concat (map AssetFeeLiquidity_enc (afl_List s))) (afl_List s)"
    by (rule reads_grepeat) (use assms in \<open>simp add: afl_wire_def reads_AssetFeeLiquidity\<close>)
  have "reads (gbind ReadByte (\<lambda>count.
       gbind (grepeat (unat count) AssetFeeLiquidity_Deserialize) (\<lambda>l.
       gbind (ReadBytes (int PublicKeySize)) (\<lambda>collector.
       gret (\<lparr>afl_Version = v, afl_List = [], afl_Collector = []\<rparr>
         \<lparr>afl_Version := afl_SIMPLE, afl_List := l, afl_Collector := collector\<rparr>)))))
     ([of_nat (length (afl_List s))] @ concat (map AssetFeeLiquidity_enc (afl_List s)) @ afl_Collector s @ []) s"
    by (intro reads_bind[OF reads_ReadByte], unfold len(1),
        intro reads_bind[OF l] reads_bind[OF reads_ReadBytes] reads_gret_eq) (use len(2) eq in simp_all)
  then show ?thesis
    unfolding AssetFeeLiquidities_Deserialize_def AssetFeeLiquidities_enc_def
    using True by (intro reads_bind[OF reads_ReadUvarint]) (simp add: afl_SIMPLE_def afl_NONE_def)
next
  case False
  then have "afl_Version s = afl_NONE" "afl_List s = []" "afl_Collector s = []"
    using assms by (auto simp: afl_wire_def AssetFeeLiquidities_Validate_def split: if_splits)
  then show ?thesis
    unfolding AssetFeeLiquidities_Deserialize_def AssetFeeLiquidities_enc_def
    by (intro reads_bind[OF reads_ReadUvarint]) (simp add: False afl_SIMPLE_def afl_NONE_def reads_gret_eq)
qed

section \<open>Plain accounts\<close>

record PlainAccount =
  pa_Key :: bytes
  pa_Index :: uint64
  pa_Nonce :: uint64
  pa_Unclaimed :: uint64
  pa_AssetFeeLiquidities :: AssetFeeLiquidities

definition PlainAccount_IsDeletable :: "PlainAccount \<Rightarrow> bool" where
  "PlainAccount_IsDeletable p \<longleftrightarrow>
     pa_Unclaimed p = 0 \<and> pa_Nonce p = 0 \<and> \<not> HasAssetFeeLiquidities (pa_AssetFeeLiquidities p)"

definition PlainAccount_Validate :: "PlainAccount \<Rightarrow> unit result" where
  "PlainAccount_Validate p = AssetFeeLiquidities_Validate (pa_AssetFeeLiquidities p)"

text \<open>\<^verbatim>\<open>helpers.SafeUint64Update(sign, &plainAccount.Nonce, 1)\<close> and the same on \<^verbatim>\<open>Unclaimed\<close>.\<close>

definition IncrementNonce :: "bool \<Rightarrow> (PlainAccount, unit) go" where
  "IncrementNonce sign = (\<lambda>p.
     case SafeUint64Update sign 1 (pa_Nonce p) of (r, n) \<Rightarrow> (r, p\<lparr>pa_Nonce := n\<rparr>))"

definition AddUnclaimed :: "bool \<Rightarrow> uint64 \<Rightarrow> (PlainAccount, unit) go" where
  "AddUnclaimed sign amount = (\<lambda>p.
     case SafeUint64Update sign amount (pa_Unclaimed p) of (r, n) \<Rightarrow> (r, p\<lparr>pa_Unclaimed := n\<rparr>))"

definition PlainAccount_Serialize :: "PlainAccount \<Rightarrow> BufferWriter \<Rightarrow> BufferWriter" where
  "PlainAccount_Serialize p = ser_seq
     [WriteUvarint (pa_Nonce p), WriteUvarint (pa_Unclaimed p),
      AssetFeeLiquidities_Serialize (pa_AssetFeeLiquidities p)]"

definition PlainAccount_Deserialize :: "PlainAccount \<Rightarrow> (BufferReader, PlainAccount) go" where
  "PlainAccount_Deserialize p =
     gbind ReadUvarint (\<lambda>nonce.
     gbind ReadUvarint (\<lambda>unclaimed.
     gbind (AssetFeeLiquidities_Deserialize (pa_AssetFeeLiquidities p)) (\<lambda>liquidities.
     gret (p\<lparr>pa_Nonce := nonce, pa_Unclaimed := unclaimed, pa_AssetFeeLiquidities := liquidities\<rparr>))))"

definition NewPlainAccount :: "bytes \<Rightarrow> uint64 \<Rightarrow> PlainAccount" where
  "NewPlainAccount key index =
     \<lparr>pa_Key = key, pa_Index = index, pa_Nonce = 0, pa_Unclaimed = 0,
      pa_AssetFeeLiquidities = \<lparr>afl_Version = afl_NONE, afl_List = [], afl_Collector = []\<rparr>\<rparr>"

definition PlainAccount_ops :: "PlainAccount ElemOps" where
  "PlainAccount_ops = \<lparr>
     el_Validate = PlainAccount_Validate,
     el_Serialize = (\<lambda>e. Inr (PlainAccount_Serialize e)),
     el_Deserialize = PlainAccount_Deserialize,
     el_SetIndex = (\<lambda>v p. p\<lparr>pa_Index := v\<rparr>),
     el_SetKey = (\<lambda>k p. p\<lparr>pa_Key := k\<rparr>),
     el_GetIndex = pa_Index,
     el_IsDeletable = PlainAccount_IsDeletable\<rparr>"

definition PlainAccount_create :: "bytes \<Rightarrow> uint64 \<Rightarrow> PlainAccount result" where
  "PlainAccount_create key index = Inr (NewPlainAccount key index)"

definition PlainAccount_ok :: "bytes \<Rightarrow> PlainAccount \<Rightarrow> bool" where
  "PlainAccount_ok k p \<longleftrightarrow>
     pa_Key p = k \<and> afl_wire (pa_AssetFeeLiquidities p) \<and> \<not> PlainAccount_IsDeletable p"

definition PlainAccount_enc :: "PlainAccount \<Rightarrow> bytes" where
  "PlainAccount_enc p = PutUvarint (pa_Nonce p) @ PutUvarint (pa_Unclaimed p) @
     AssetFeeLiquidities_enc (pa_AssetFeeLiquidities p) @ []"

lemma writes_PlainAccount [codec]: "writes (PlainAccount_Serialize p) (PlainAccount_enc p)"
  unfolding PlainAccount_Serialize_def PlainAccount_enc_def by (intro codec)

lemma reads_PlainAccount:
  assumes "afl_wire (pa_AssetFeeLiquidities p)"
  shows "reads (PlainAccount_Deserialize (NewPlainAccount k i)) (PlainAccount_enc p)
    (p\<lparr>pa_Key := k, pa_Index := i\<rparr>)"
  unfolding PlainAccount_Deserialize_def PlainAccount_enc_def NewPlainAccount_def PlainAccount.select_convs
  by (intro reads_bind[OF reads_ReadUvarint] reads_bind[OF reads_AssetFeeLiquidities[OF assms]] reads_gret_eq)
    simp

interpretation pacc: hash_map_element PlainAccount_ops PlainAccount_create PlainAccount_ok
proof
  fix k i and p :: PlainAccount
  assume ok: "PlainAccount_ok k p"
  have "SerializeToBytes (PlainAccount_Serialize p) = PlainAccount_enc p"
    by (rule writes_SerializeToBytes[OF writes_PlainAccount])
  then show "\<exists>out. PlainAccount_create k i = Inr out \<and>
      fst (el_Deserialize PlainAccount_ops out (NewBufferReader (el_bytes PlainAccount_ops p))) =
        Inr (el_SetIndex PlainAccount_ops i p)"
    using reads_NewBufferReader[OF reads_PlainAccount, of p k i] ok
    by (simp add: PlainAccount_create_def PlainAccount_ops_def el_bytes_def PlainAccount_ok_def)
qed (auto simp: PlainAccount_ops_def PlainAccount_ok_def PlainAccount_Validate_def afl_wire_def
      PlainAccount_Serialize_def PlainAccount_IsDeletable_def)

section \<open>Pending stakes\<close>

record PendingStake =
  ps_PublicKey :: bytes
  ps_PendingAmount :: bytes

definition PendingStake_Validate :: "PendingStake \<Rightarrow> unit result" where
  "PendingStake_Validate d =
     (if length (ps_PublicKey d) \<noteq> PublicKeySize then Inl (Error ''PendingStake PublicKey size is invalid'')
      else Inr ())"

definition PendingStake_Serialize :: "PendingStake \<Rightarrow> BufferWriter \<Rightarrow> BufferWriter" where
  "PendingStake_Serialize d = ser_seq [Write (ps_PublicKey d), Write (ps_PendingAmount d)]"

definition PendingStake_Deserialize :: "(BufferReader, PendingStake) go" where
  "PendingStake_Deserialize =
     gbind (ReadBytes (int PublicKeySize)) (\<lambda>pk.
     gbind (ReadBytes 66) (\<lambda>amount.
     gret \<lparr>ps_PublicKey = pk, ps_PendingAmount = amount\<rparr>))"

record PendingStakes =
  pst_Key :: bytes
  pst_Height :: uint64
  pst_Pending :: "PendingStake list"

fun validate_all :: "('a \<Rightarrow> unit result) \<Rightarrow> 'a list \<Rightarrow> unit result" where
  "validate_all v [] = Inr ()"
| "validate_all v (x # xs) = (case v x of Inl e \<Rightarrow> Inl e | Inr _ \<Rightarrow> validate_all v xs)"

definition PendingStakes_Validate :: "PendingStakes \<Rightarrow> unit result" where
  "PendingStakes_Validate d = validate_all PendingStake_Validate (pst_Pending d)"

definition PendingStakes_Serialize :: "PendingStakes \<Rightarrow> BufferWriter \<Rightarrow> BufferWriter" where
  "PendingStakes_Serialize d = ser_seq
     [WriteUvarint (pst_Height d),
      WriteUvarint (of_nat (length (pst_Pending d))),
      fold PendingStake_Serialize (pst_Pending d)]"

definition PendingStakes_Deserialize :: "PendingStakes \<Rightarrow> (BufferReader, PendingStakes) go" where
  "PendingStakes_Deserialize d =
     gbind ReadUvarint (\<lambda>height.
     gbind ReadUvarint (\<lambda>n.
     gbind (make_slice 8 n) (\<lambda>_.
     gbind (grepeat (unat n) PendingStake_Deserialize) (\<lambda>pending.
     gret (d\<lparr>pst_Height := height, pst_Pending := pending\<rparr>)))))"

definition NewPendingStakes :: "bytes \<Rightarrow> uint64 \<Rightarrow> PendingStakes" where
  "NewPendingStakes key index = \<lparr>pst_Key = key, pst_Height = 0, pst_Pending = []\<rparr>"

definition PendingStakes_ops :: "PendingStakes ElemOps" where
  "PendingStakes_ops = \<lparr>
     el_Validate = PendingStakes_Validate,
     el_Serialize = (\<lambda>e. Inr (PendingStakes_Serialize e)),
     el_Deserialize = PendingStakes_Deserialize,
     el_SetIndex = (\<lambda>v d. d),
     el_SetKey = (\<lambda>k d. d\<lparr>pst_Key := k\<rparr>),
     el_GetIndex = (\<lambda>_. 0),
     el_IsDeletable = (\<lambda>_. False)\<rparr>"

definition PendingStakes_create :: "bytes \<Rightarrow> uint64 \<Rightarrow> PendingStakes result" where
  "PendingStakes_create key index = Inr (NewPendingStakes key index)"

definition PendingStakes_ok :: "bytes \<Rightarrow> PendingStakes \<Rightarrow> bool" where
  "PendingStakes_ok k d \<longleftrightarrow>
     pst_Key d = k \<and> PendingStakes_Validate d = Inr () \<and> length (pst_Pending d) * 8 \<le> 2 ^ 48 \<and>
     (\<forall>p \<in> set (pst_Pending d). length (ps_PendingAmount p) = 66)"

lemma validate_all_iff: "validate_all v xs = Inr () \<longleftrightarrow> (\<forall>x \<in> set xs. v x = Inr ())"
  by (induction xs) (auto split: sum.splits)

lemma PendingStakes_Validate_iff:
  "PendingStakes_Validate d = Inr () \<longleftrightarrow>
     (\<forall>p \<in> set (pst_Pending d). length (ps_PublicKey p) = PublicKeySize)"
  by (auto simp: PendingStakes_Validate_def validate_all_iff PendingStake_Validate_def)

definition PendingStake_enc :: "PendingStake \<Rightarrow> bytes" where
  "PendingStake_enc d = ps_PublicKey d @ ps_PendingAmount d @ []"

definition PendingStakes_enc :: "PendingStakes \<Rightarrow> bytes" where
  "PendingStakes_enc d = PutUvarint (pst_Height d) @ PutUvarint (of_nat (length (pst_Pending d))) @
     concat (map PendingStake_enc (pst_Pending d)) @ []"

lemma writes_PendingStake [codec]: "writes (PendingStake_Serialize d) (PendingStake_enc d)"
  unfolding PendingStake_Serialize_def PendingStake_enc_def by (intro codec)

lemma writes_PendingStakes [codec]: "writes (PendingStakes_Serialize d) (PendingStakes_enc d)"
  unfolding PendingStakes_Serialize_def PendingStakes_enc_def by (intro codec writes_fold)

lemma reads_PendingStake:
  "length (ps_PublicKey d) = PublicKeySize \<Longrightarrow> length (ps_PendingAmount d) = 66 \<Longrightarrow>
   reads PendingStake_Deserialize (PendingStake_enc d) d"
  unfolding PendingStake_Deserialize_def PendingStake_enc_def
  by (intro reads_bind[OF reads_ReadBytes] reads_gret_eq) simp_all

lemma reads_PendingStakes:
  assumes "PendingStakes_ok k d"
  shows "reads (PendingStakes_Deserialize (NewPendingStakes k i)) (PendingStakes_enc d) d"
proof -
  have len: "unat (of_nat (length (pst_Pending d)) :: uint64) = length (pst_Pending d)"
    using assms by (intro unat_of_nat_uint64) (simp add: PendingStakes_ok_def)
  have l: "reads (grepeat (unat (of_nat (length (pst_Pending d)) :: uint64)) PendingStake_Deserialize)
      (concat (map PendingStake_enc (pst_Pending d))) (pst_Pending d)"
    unfolding len using assms
    by (intro reads_grepeat reads_PendingStake) (auto simp: PendingStakes_ok_def PendingStakes_Validate_iff)
  show ?thesis
    unfolding PendingStakes_Deserialize_def PendingStakes_enc_def
    by (intro reads_bind[OF reads_ReadUvarint] reads_make_slice reads_bind[OF l] reads_gret_eq)
      (use assms len in \<open>simp_all add: PendingStakes_ok_def NewPendingStakes_def\<close>)
qed

interpretation pstakes: hash_map_element PendingStakes_ops PendingStakes_create PendingStakes_ok
proof
  fix k i and d :: PendingStakes
  assume ok: "PendingStakes_ok k d"
  have "SerializeToBytes (PendingStakes_Serialize d) = PendingStakes_enc d"
    by (rule writes_SerializeToBytes[OF writes_PendingStakes])
  then show "\<exists>out. PendingStakes_create k i = Inr out \<and>
      fst (el_Deserialize PendingStakes_ops out (NewBufferReader (el_bytes PendingStakes_ops d))) =
        Inr (el_SetIndex PendingStakes_ops i d)"
    using reads_NewBufferReader[OF reads_PendingStakes[OF ok], of i]
    by (simp add: PendingStakes_create_def PendingStakes_ops_def el_bytes_def)
qed (auto simp: PendingStakes_ops_def PendingStakes_ok_def)

section \<open>Conditional payments\<close>

record ConditionalPayment =
  cp_Key :: bytes
  cp_BlockHeight :: uint64
  cp_Index :: uint64
  cp_Version :: uint64
  cp_TxId :: bytes
  cp_PayloadIndex :: byte
  cp_Processed :: bool
  cp_Asset :: bytes
  cp_DefaultResolution :: bool
  cp_ReceiverPublicKeys :: "bytes list"
  cp_ReceiverAmounts :: "bytes list"
  cp_SenderPublicKeys :: "bytes list"
  cp_SenderAmounts :: "bytes list"
  cp_MultisigThreshold :: byte
  cp_MultisigPublicKeys :: "bytes list"

definition ConditionalPayment_Validate :: "ConditionalPayment \<Rightarrow> unit result" where
  "ConditionalPayment_Validate p =
     (if cp_Version p \<noteq> 0 then Inl (Error ''Invalid Version'')
      else if \<exists>k \<in> set (cp_ReceiverPublicKeys p). length k \<noteq> PublicKeySize
        then Inl (Error ''PendingStake PublicKey size is invalid'')
      else if \<exists>k \<in> set (cp_SenderPublicKeys p). length k \<noteq> PublicKeySize
        then Inl (Error ''PendingStake PublicKey size is invalid'')
      else if cp_MultisigThreshold p = 0 \<or> unat (cp_MultisigThreshold p) > length (cp_MultisigPublicKeys p)
        then Inl (Error ''Invali Multisig threshold'')
      else if card (set (cp_MultisigPublicKeys p)) \<noteq> length (cp_MultisigPublicKeys p)
        then Inl (Error ''Pending Future has duplicate multisig public signatures'')
      else Inr ())"

definition ConditionalPayment_Serialize :: "ConditionalPayment \<Rightarrow> BufferWriter \<Rightarrow> BufferWriter" where
  "ConditionalPayment_Serialize p = ser_seq
     [WriteUvarint (cp_Version p),
      Write (cp_TxId p),
      WriteByte (cp_PayloadIndex p),
      WriteBool (cp_Processed p),
      (if \<not> cp_Processed p then ser_seq
         [WriteAsset (cp_Asset p),
          WriteBool (cp_DefaultResolution p),
          WriteUvarint (of_nat (length (cp_ReceiverPublicKeys p))),
          fold Write (cp_ReceiverPublicKeys p),
          fold Write (cp_ReceiverAmounts p),
          fold Write (cp_SenderPublicKeys p),
          fold Write (cp_SenderAmounts p),
          WriteByte (cp_MultisigThreshold p),
          WriteByte (of_nat (length (cp_MultisigPublicKeys p))),
          fold Write (cp_MultisigPublicKeys p)]
       else (\<lambda>w. w))]"

text \<open>The part of \<^verbatim>\<open>Deserialize\<close> inside \<^verbatim>\<open>if !this.Processed\<close>.\<close>

definition ConditionalPayment_Deserialize_open ::
  "ConditionalPayment \<Rightarrow> (BufferReader, ConditionalPayment) go" where
  "ConditionalPayment_Deserialize_open p =
     gbind ReadAsset (\<lambda>asset.
     gbind ReadBool (\<lambda>resolution.
     gbind ReadUvarint (\<lambda>n.
     gbind (make_slice 24 n) (\<lambda>_.
     gbind (grepeat (unat n) (ReadBytes (int PublicKeySize))) (\<lambda>rk.
     gbind (grepeat (unat n) (ReadBytes 66)) (\<lambda>ra.
     gbind (grepeat (unat n) (ReadBytes (int PublicKeySize))) (\<lambda>sk.
     gbind (grepeat (unat n) (ReadBytes 66)) (\<lambda>sa.
     gbind ReadByte (\<lambda>threshold.
     gbind ReadByte (\<lambda>m.
     gbind (grepeat (unat m) (ReadBytes (int PublicKeySize))) (\<lambda>mk.
     gret (p\<lparr>cp_Asset := asset, cp_DefaultResolution := resolution, cp_ReceiverPublicKeys := rk,
             cp_ReceiverAmounts := ra, cp_SenderPublicKeys := sk, cp_SenderAmounts := sa,
             cp_MultisigThreshold := threshold, cp_MultisigPublicKeys := mk\<rparr>))))))))))))"

definition ConditionalPayment_Deserialize ::
  "ConditionalPayment \<Rightarrow> (BufferReader, ConditionalPayment) go" where
  "ConditionalPayment_Deserialize p =
     gbind ReadUvarint (\<lambda>version.
     gbind (ReadBytes (int HashSize)) (\<lambda>txId.
     gbind ReadByte (\<lambda>payloadIndex.
     gbind ReadBool (\<lambda>processed.
     let p1 = p\<lparr>cp_Version := version, cp_TxId := txId, cp_PayloadIndex := payloadIndex,
                cp_Processed := processed\<rparr>
     in if \<not> processed then ConditionalPayment_Deserialize_open p1 else gret p1))))"

definition NewConditionalPayment :: "bytes \<Rightarrow> uint64 \<Rightarrow> uint64 \<Rightarrow> ConditionalPayment" where
  "NewConditionalPayment key index blockHeight =
     \<lparr>cp_Key = key, cp_BlockHeight = blockHeight, cp_Index = index, cp_Version = 0, cp_TxId = [],
      cp_PayloadIndex = 0, cp_Processed = False, cp_Asset = [], cp_DefaultResolution = False,
      cp_ReceiverPublicKeys = [], cp_ReceiverAmounts = [], cp_SenderPublicKeys = [],
      cp_SenderAmounts = [], cp_MultisigThreshold = 0, cp_MultisigPublicKeys = []\<rparr>"

definition ConditionalPayment_ops :: "ConditionalPayment ElemOps" where
  "ConditionalPayment_ops = \<lparr>
     el_Validate = ConditionalPayment_Validate,
     el_Serialize = (\<lambda>e. Inr (ConditionalPayment_Serialize e)),
     el_Deserialize = ConditionalPayment_Deserialize,
     el_SetIndex = (\<lambda>v p. p\<lparr>cp_Index := v\<rparr>),
     el_SetKey = (\<lambda>k p. p\<lparr>cp_Key := k\<rparr>),
     el_GetIndex = cp_Index,
     el_IsDeletable = (\<lambda>_. False)\<rparr>"

text \<open>The maps of conditional payments are opened per block height.\<close>

definition ConditionalPayment_create :: "uint64 \<Rightarrow> bytes \<Rightarrow> uint64 \<Rightarrow> ConditionalPayment result" where
  "ConditionalPayment_create blockHeight key index = Inr (NewConditionalPayment key index blockHeight)"

text \<open>An open payment: the four lists are parallel, the amounts are ElGamal pairs, and at most 255
  public keys share the multisignature (their number is one byte).\<close>

definition ConditionalPayment_ok :: "uint64 \<Rightarrow> bytes \<Rightarrow> ConditionalPayment \<Rightarrow> bool" where
  "ConditionalPayment_ok height k p \<longleftrightarrow>
     cp_Key p = k \<and> cp_BlockHeight p = height \<and> \<not> cp_Processed p \<and>
     ConditionalPayment_Validate p = Inr () \<and>
     length (cp_TxId p) = HashSize \<and> length (cp_Asset p) = ASSET_LENGTH \<and>
     length (cp_ReceiverPublicKeys p) * 24 \<le> 2 ^ 48 \<and>
     length (cp_ReceiverAmounts p) = length (cp_ReceiverPublicKeys p) \<and>
     length (cp_SenderPublicKeys p) = length (cp_ReceiverPublicKeys p) \<and>
     length (cp_SenderAmounts p) = length (cp_ReceiverPublicKeys p) \<and>
     (\<forall>a \<in> set (cp_ReceiverAmounts p) \<union> set (cp_SenderAmounts p). length a = 66) \<and>
     (\<forall>k \<in> set (cp_MultisigPublicKeys p). length k = PublicKeySize) \<and>
     length (cp_MultisigPublicKeys p) \<le> 255"

definition ConditionalPayment_enc_open :: "ConditionalPayment \<Rightarrow> bytes" where
  "ConditionalPayment_enc_open p =
     (if cp_Asset p = NATIVE_ASSET_FULL then [0] else 1 # cp_Asset p) @
     [if cp_DefaultResolution p then 1 else 0] @ PutUvarint (of_nat (length (cp_ReceiverPublicKeys p))) @
     concat (map id (cp_ReceiverPublicKeys p)) @ concat (map id (cp_ReceiverAmounts p)) @
     concat (map id (cp_SenderPublicKeys p)) @ concat (map id (cp_SenderAmounts p)) @
     [cp_MultisigThreshold p] @ [of_nat (length (cp_MultisigPublicKeys p))] @
     concat (map id (cp_MultisigPublicKeys p)) @ []"

definition ConditionalPayment_enc :: "ConditionalPayment \<Rightarrow> bytes" where
  "ConditionalPayment_enc p = PutUvarint (cp_Version p) @ cp_TxId p @ [cp_PayloadIndex p] @
     [if cp_Processed p then 1 else 0] @
     (if \<not> cp_Processed p then ConditionalPayment_enc_open p else []) @ []"

lemma writes_fold_Write: "writes (fold Write xs) (concat (map id xs))"
  by (rule writes_fold) (simp add: writes_Write)

lemma writes_ConditionalPayment [codec]: "writes (ConditionalPayment_Serialize p) (ConditionalPayment_enc p)"
proof -
  have "writes (ser_seq
         [WriteAsset (cp_Asset p),
          WriteBool (cp_DefaultResolution p),
          WriteUvarint (of_nat (length (cp_ReceiverPublicKeys p))),
          fold Write (cp_ReceiverPublicKeys p),
          fold Write (cp_ReceiverAmounts p),
          fold Write (cp_SenderPublicKeys p),
          fold Write (cp_SenderAmounts p),
          WriteByte (cp_MultisigThreshold p),
          WriteByte (of_nat (length (cp_MultisigPublicKeys p))),
          fold Write (cp_MultisigPublicKeys p)]) (ConditionalPayment_enc_open p)"
    unfolding ConditionalPayment_enc_open_def by (intro codec writes_fold_Write)
  then show ?thesis unfolding ConditionalPayment_Serialize_def ConditionalPayment_enc_def
    by (intro codec) (simp add: writes_id)
qed

lemma ConditionalPayment_Validate_index:
  "ConditionalPayment_Validate (p\<lparr>cp_Index := i\<rparr>) = ConditionalPayment_Validate p"
  by (simp add: ConditionalPayment_Validate_def)

lemma reads_byte_strings:
  "\<forall>x \<in> set xs. int (length x) = n \<Longrightarrow> m = length xs \<Longrightarrow>
   reads (grepeat m (ReadBytes n)) (concat (map id xs)) xs"
  using reads_grepeat[of xs "ReadBytes n" id] by (simp add: reads_ReadBytes)

lemma reads_ConditionalPayment_open:
  assumes "ConditionalPayment_ok h k p"
  shows "reads (ConditionalPayment_Deserialize_open p0) (ConditionalPayment_enc_open p)
    (p\<lparr>cp_Key := cp_Key p0, cp_BlockHeight := cp_BlockHeight p0, cp_Index := cp_Index p0,
       cp_Version := cp_Version p0, cp_TxId := cp_TxId p0, cp_PayloadIndex := cp_PayloadIndex p0,
       cp_Processed := cp_Processed p0\<rparr>)"
proof -
  note ok = assms[unfolded ConditionalPayment_ok_def]
  have n: "unat (of_nat (length (cp_ReceiverPublicKeys p)) :: uint64) = length (cp_ReceiverPublicKeys p)"
    using ok by (intro unat_of_nat_uint64) simp
  have m: "unat (of_nat (length (cp_MultisigPublicKeys p)) :: byte) = length (cp_MultisigPublicKeys p)"
    using ok by (simp add: unat_of_nat)
  have keys: "\<forall>x \<in> set (cp_ReceiverPublicKeys p). length x = PublicKeySize"
    "\<forall>x \<in> set (cp_SenderPublicKeys p). length x = PublicKeySize"
    using ok by (auto simp: ConditionalPayment_Validate_def split: if_splits)
  have rk: "reads (grepeat (unat (of_nat (length (cp_ReceiverPublicKeys p)) :: uint64)) (ReadBytes (int PublicKeySize)))
      (concat (map id (cp_ReceiverPublicKeys p))) (cp_ReceiverPublicKeys p)"
    and sk: "reads (grepeat (unat (of_nat (length (cp_ReceiverPublicKeys p)) :: uint64)) (ReadBytes (int PublicKeySize)))
      (concat (map id (cp_SenderPublicKeys p))) (cp_SenderPublicKeys p)"
    and mk: "reads (grepeat (unat (of_nat (length (cp_MultisigPublicKeys p)) :: byte)) (ReadBytes (int PublicKeySize)))
      (concat (map id (cp_MultisigPublicKeys p))) (cp_MultisigPublicKeys p)"
    and ra: "reads (grepeat (unat (of_nat (length (cp_ReceiverPublicKeys p)) :: uint64)) (ReadBytes 66))
      (concat (map id (cp_ReceiverAmounts p))) (cp_ReceiverAmounts p)"
    and sa: "reads (grepeat (unat (of_nat (length (cp_ReceiverPublicKeys p)) :: uint64)) (ReadBytes 66))
      (concat (map id (cp_SenderAmounts p))) (cp_SenderAmounts p)"
    unfolding n m using keys ok
    by (intro reads_byte_strings; simp)+
  have a: "length (cp_Asset p) = ASSET_LENGTH" and small: "unat (of_nat (length (cp_ReceiverPublicKeys p)) :: uint64) * 24 \<le> 2 ^ 48"
    using ok n by simp_all
  show ?thesis
    unfolding ConditionalPayment_Deserialize_open_def ConditionalPayment_enc_open_def
    by (intro reads_bind[OF reads_ReadAsset[OF a]] reads_bind[OF reads_ReadBool] reads_bind[OF reads_ReadUvarint]
        reads_make_slice[OF small] reads_bind[OF rk] reads_bind[OF ra] reads_bind[OF sk] reads_bind[OF sa]
        reads_bind[OF reads_ReadByte] reads_bind[OF mk] reads_gret_eq) (cases p; cases p0; simp)
qed

interpretation cpay: hash_map_element ConditionalPayment_ops "ConditionalPayment_create h" "ConditionalPayment_ok h"
  for h
proof
  fix k i and p :: ConditionalPayment
  assume ok: "ConditionalPayment_ok h k p"
  let ?p0 = "NewConditionalPayment k i h"
  let ?p1 = "?p0\<lparr>cp_Version := cp_Version p, cp_TxId := cp_TxId p, cp_PayloadIndex := cp_PayloadIndex p,
    cp_Processed := False\<rparr>"
  have open': "reads (ConditionalPayment_Deserialize_open ?p1) (ConditionalPayment_enc_open p) (p\<lparr>cp_Index := i\<rparr>)"
    using reads_ConditionalPayment_open[OF ok, of ?p1] ok
    by (cases p) (simp add: NewConditionalPayment_def ConditionalPayment_ok_def)
  have "reads (ConditionalPayment_Deserialize ?p0) (ConditionalPayment_enc p) (p\<lparr>cp_Index := i\<rparr>)"
    unfolding ConditionalPayment_Deserialize_def ConditionalPayment_enc_def
    by (intro reads_bind[OF reads_ReadUvarint] reads_bind[OF reads_ReadBytes] reads_bind[OF reads_ReadByte]
        reads_bind[OF reads_ReadBool])
      (use ok open' in \<open>simp_all add: ConditionalPayment_ok_def Let_def\<close>)
  moreover have "SerializeToBytes (ConditionalPayment_Serialize p) = ConditionalPayment_enc p"
    by (rule writes_SerializeToBytes[OF writes_ConditionalPayment])
  ultimately show "\<exists>out. ConditionalPayment_create h k i = Inr out \<and>
      fst (el_Deserialize ConditionalPayment_ops out (NewBufferReader (el_bytes ConditionalPayment_ops p))) =
        Inr (el_SetIndex ConditionalPayment_ops i p)"
    using reads_NewBufferReader[of "ConditionalPayment_Deserialize ?p0"]
    by (simp add: ConditionalPayment_create_def ConditionalPayment_ops_def el_bytes_def)
qed (auto simp: ConditionalPayment_ops_def ConditionalPayment_ok_def ConditionalPayment_Validate_index
      ConditionalPayment_Serialize_def)

end
