(* ===== verification/Map_Access.thy ===== *)
theory Map_Access
  imports Hash_Map_Laws
begin

text \<open>
  How the clients of a hash map use the elements they get from it: a write through the pointer held in
  \<^verbatim>\<open>Changes\<close>, and opening a map on a database that already holds its entries.
\<close>

definition set_element :: "bytes \<Rightarrow> 't \<Rightarrow> ('t, 'x, unit) hm_go" where
  "set_element key e = on_hm (write_change key (\<lambda>c. c\<lparr>ch_Element := Some e\<rparr>))"

text \<open>The same for a pointer the map need not hold: an entry without an element stays as it is.\<close>

definition write_held :: "bytes \<Rightarrow> 't \<Rightarrow> ('t, 'x, unit) hm_go" where
  "write_held key e = on_hm (write_change key (\<lambda>c. case ch_Element c of None \<Rightarrow> c | Some _ \<Rightarrow> c\<lparr>ch_Element := Some e\<rparr>))"

text \<open>A database that holds a map of the given name: the entries are valid and their number is stored.\<close>

definition stored_map ::
  "'t ElemOps \<Rightarrow> (bytes \<Rightarrow> 't \<Rightarrow> bool) \<Rightarrow> (bytes \<Rightarrow> bytes option) \<Rightarrow> bytes \<Rightarrow> nat \<Rightarrow> bool \<Rightarrow> bool" where
  "stored_map E ok db n kl idx \<longleftrightarrow>
     finite (dom (\<lambda>k. db (key_map n k))) \<and>
     (db (key_count n) = Some (PutUvarint (of_nat (card (dom (\<lambda>k. db (key_map n k)))))) \<or>
      db (key_count n) = None \<and> dom (\<lambda>k. db (key_map n k)) = {}) \<and>
     (\<forall>k. (db (key_exists n k) = None \<longleftrightarrow> db (key_map n k) = None) \<and>
        (\<forall>d. db (key_map n k) = Some d \<longrightarrow>
           (kl = 0 \<or> length k = kl) \<and> (\<exists>e. ok k e \<and> el_bytes E e = d) \<and>
           (idx \<longrightarrow> (\<exists>i. db (key_listKeys n k) = Some (FormatUint i)))))"

lemma write_write [simp]: "write_change k f (write_change k g h) = write_change k (f \<circ> g) h"
  by (cases "map_of (hm_Changes h) k") (auto simp: write_change_def)

lemma ensure_write:
  "change_at h k \<noteq> None \<Longrightarrow> ensure_change k (write_change k f h) = write_change k f h"
  "change_at h k \<noteq> None \<Longrightarrow> ensure_change k h = h"
  by (auto simp: change_at_def ensure_change_def write_change_def split: option.splits)

context hash_map_block
begin

lemma Get_change:
  assumes "core (h, x)" "Get E ops k (h, x) = (Inr eo, (h', x'))"
  shows "\<exists>c. change_at h' k = Some c \<and> ch_Element c = eo"
proof -
  have wf: "cells_wf h" using coreD(4)[OF assms(1)] by simp
  show ?thesis
  proof (cases "change_at h k")
    case (Some c)
    then show ?thesis using assms(2) by (auto simp: Get_def split: if_splits)
  next
    case None
    obtain i x1 where "Get_load E ops k (h, x) = (Inr (stored (h, x) k, i), (h, x1))"
      using Get_load_ok[OF assms(1)] by blast
    then show ?thesis using assms(2) None wf
      by (auto simp: Get_def gbind_Inr split: if_splits option.splits elim!: gbind_InrE)
  qed
qed

lemma Update_change:
  assumes "core (h, x)" "\<not> bad_key h k" "ok k (el_SetKey E k d)" "Update E ops k (Some d) (h, x) = (Inr d', (h', x'))"
  shows "\<exists>c. change_at h' k = Some c \<and> ch_Element c = Some d'"
proof -
  let ?d = "el_SetKey E k d" and ?p = "contents (h, x) k \<noteq> None"
  obtain x1 where p: "key_present ops k (h, x) = (Inr ?p, (h, x1))"
    using key_present_ok[OF assms(1)] by blast
  have "Update E ops k (Some d) (h, x) =
      (Inr (if \<not> ?p \<and> hm_Indexable h then el_SetIndex E (hm_Count h) ?d else ?d), (Update_store E k ?d (\<not> ?p) h, x1))"
    using assms(2) Validate_ok[OF assms(3)] not_deletable[OF assms(3)]
    by (simp add: Update_def Let_def gbind_Inr[of "key_present ops k", OF p])
  then show ?thesis using assms(4) coreD(4)[OF assms(1)]
    by (auto simp: Update_store_def Let_def split: if_splits)
qed

text \<open>Writing through the pointer and then storing it is storing it.\<close>

lemma set_element_Update:
  assumes "change_at h k = Some c" "ch_Element c \<noteq> None" "cells_wf h"
    and "\<not> bad_key h k" "el_Validate E (el_SetKey E k e) = Inr ()"
  shows "gbind (set_element k e) (\<lambda>_. Update E ops k (Some e)) (h, x) = Update E ops k (Some e) (h, x)"
proof -
  let ?h = "write_change k (\<lambda>c. c\<lparr>ch_Element := Some e\<rparr>) h"
  have p: "key_present ops k (?h, x) = (Inr True, (?h, x))" "key_present ops k (h, x) = (Inr True, (h, x))"
    using assms by (simp_all add: key_present_def)
  have c: "(\<lambda>c. c\<lparr>ch_Status := St_update, ch_Element := Some d\<rparr>) \<circ> (\<lambda>c. c\<lparr>ch_Element := Some e\<rparr>) =
      (\<lambda>c. c\<lparr>ch_Status := St_update, ch_Element := Some d\<rparr>)" for d by (simp add: comp_def)
  have u: "Update_store E k d False ?h = Update_store E k d False h" for d
    using assms(1) by (simp add: Update_store_def Let_def ensure_write c)
  have b: "bad_key ?h k = bad_key h k" "hm_Indexable ?h = hm_Indexable h" by (simp_all add: bad_key_def)
  show ?thesis
  proof (cases "el_IsDeletable E (el_SetKey E k e)")
    case False
    then show ?thesis
      using assms(4,5)
      by (simp add: set_element_def Update_def Let_def b gbind_Inr[of "key_present ops k", OF p(1)]
          gbind_Inr[of "key_present ops k", OF p(2)] u)
  next
    case True
    have d: "ensure_change k ?h = ?h" "ensure_change k h = h" using assms(1) by (auto intro: ensure_write)
    have cc: "(\<lambda>c. c\<lparr>ch_Status := St_del, ch_Element := None\<rparr>) \<circ> (\<lambda>c. c\<lparr>ch_Element := Some e\<rparr>) =
      (\<lambda>c. c\<lparr>ch_Status := St_del, ch_Element := None\<rparr>)" by (simp add: comp_def)
    have "Delete E ops k (?h, x) = Delete E ops k (h, x)"
      by (simp add: Delete_def gbind_Inr[of "key_present ops k", OF p(1)] gbind_Inr[of "key_present ops k", OF p(2)] d cc)
    then have "gbind (Delete E ops k) f (?h, x) = gbind (Delete E ops k) f (h, x)" for f :: "unit \<Rightarrow> ('t, 'x, 't) hm_go"
      by (simp add: gbind_def)
    with True show ?thesis
      using assms(4,5) by (simp add: set_element_def Update_def Let_def b)
  qed
qed

text \<open>Opening a map.\<close>

lemma CreateNewHashMap_view:
  assumes "tx_IsWritable ops x" "stored_map E (\<lambda>k e. ok k e \<and> loads E create k e) (view x) n kl idx" "4 < length n"
    and quiet: "\<And>ev k. del = Some ev \<Longrightarrow> quiet_event ops view n (ev k)"
      "\<And>ev k c i. sto = Some ev \<Longrightarrow> quiet_event ops view n (ev k c i)"
  shows "\<exists>h' x'. CreateNewHashMap ops n kl idx create del sto x = (Inr h', x') \<and> invar (h', x') \<and>
          contents (h', x') = (\<lambda>k. view x (key_map n k)) \<and> view x' = view x \<and>
          hm_name h' = n \<and> hm_keyLength h' = kl"
proof -
  let ?m = "\<lambda>k. view x (key_map n k)"
  let ?count = "of_nat (card (dom ?m)) :: uint64"
  let ?h' = "\<lparr>hm_name = n, hm_Count = ?count, hm_countCommitted = ?count, hm_Changes = [], hm_changed = False,
     hm_changesSize = [], hm_Committed = [], hm_keyLength = kl, hm_CreateObject = create,
     hm_DeletedEvent = del, hm_StoredEvent = sto, hm_Indexable = idx, hm_cells = (\<lambda>_. new_change),
     hm_next = 0\<rparr>"
  obtain x' where x': "tx_Get ops (key_count n) x = (Inr (view x (key_count n)), x')" "view x' = view x"
    "tx_IsWritable ops x'"
    using Get_run[of "key_count n" x] assms(1) by metis
  obtain p where p: "p > 0" "Uvarint (PutUvarint ?count) = (?count, p)" using Uvarint_PutUvarint by blast
  have "view x (key_count n) = None \<Longrightarrow> card (dom ?m) = 0"
    using assms(2) by (auto simp: stored_map_def)
  then have run: "CreateNewHashMap ops n kl idx create del sto x = (Inr ?h', x')"
    using assms(2,3) x'(1) p by (auto simp: CreateNewHashMap_def gbind_def stored_map_def)
  have st: "stored (?h', x') = ?m" using x'(2) by (simp add: hm_stored_def fun_eq_iff)
  have co: "contents (?h', x') = ?m" using st by (simp add: hm_contents_def change_at_def fun_eq_iff)
  have "invar (?h', x')"
    unfolding hm_inv_def hm_core_def st co
    using assms(2) x'(2,3) quiet
    by (auto simp: quiet_events_def cells_wf_def stored_ok_def change_at_def stored_map_def bad_key_def)
  with run co x'(2) show ?thesis by simp
qed

end

text \<open>Code that writes only keys of a given set; an event of this kind is quiet for a map that owns none of them.\<close>

context store_tx
begin

definition writes_only :: "bytes set \<Rightarrow> ('x, 'a) go \<Rightarrow> bool" where
  "writes_only S m \<longleftrightarrow> (\<forall>x r x'. tx_IsWritable ops x \<longrightarrow> m x = (r, x') \<longrightarrow>
     tx_IsWritable ops x' \<and> (\<forall>k. k \<notin> S \<longrightarrow> view x' k = view x k))"

lemma writes_only_pure [intro]:
  "writes_only S (gret v)" "writes_only S (gerr e)" "writes_only S (gpanic e)" "writes_only S (gget f)"
  "writes_only S (glift r)"
  by (auto simp: writes_only_def)

lemma writes_only_bind [intro]:
  assumes "writes_only S m" "\<And>v. writes_only S (f v)"
  shows "writes_only S (gbind m f)"
  unfolding writes_only_def
proof (intro allI impI)
  fix x r x' assume x: "tx_IsWritable ops x" "gbind m f x = (r, x')"
  obtain q y where q: "m x = (q, y)" by force
  then have y: "tx_IsWritable ops y" "\<forall>k. k \<notin> S \<longrightarrow> view y k = view x k"
    using assms(1) x(1) by (auto simp: writes_only_def)
  show "tx_IsWritable ops x' \<and> (\<forall>k. k \<notin> S \<longrightarrow> view x' k = view x k)"
  proof (cases q)
    case (Inl e)
    then show ?thesis using q y x(2) by (simp add: gbind_def)
  next
    case (Inr v)
    then have "f v y = (r, x')" using q x(2) by (simp add: gbind_def)
    then show ?thesis using assms(2)[of v] y by (auto simp: writes_only_def)
  qed
qed

lemma writes_only_tx [intro]:
  "writes_only S (tx_Get ops k)" "k \<in> S \<Longrightarrow> writes_only S (tx_Put ops k v)" "k \<in> S \<Longrightarrow> writes_only S (tx_Delete ops k)"
  unfolding writes_only_def
  by (metis Get_view Get_writable snd_conv,
      metis Put_view Put_writable snd_conv fun_upd_other,
      metis Delete_view Delete_writable snd_conv fun_upd_other)

lemma writes_only_quiet:
  assumes "writes_only S m" "\<And>j. key_map n j \<notin> S" "\<And>j. key_exists n j \<notin> S" "\<And>j. key_listKeys n j \<notin> S"
    "\<And>j. key_transitions n j \<notin> S"
  shows "quiet_event ops view n m"
  using assms unfolding quiet_event_def writes_only_def by blast

end

end
