(* ===== verification/Ledger_Maps.thy ===== *)
theory Ledger_Maps
  imports Elements Map_Access
begin

text \<open>
  The maps of \<^verbatim>\<open>blockchain/data_storage\<close>: how each map is opened (its name, key length, whether it
  is indexable, its events) and the constructors of its objects.  Each map over the in-memory
  store is an instance of \<open>hash_map_laws\<close>.
\<close>

section \<open>Opening the maps\<close>

definition NewRegistrations :: "'x StoreTx \<Rightarrow> ('x, (Registration, 'x) HashMap) go" where
  "NewRegistrations X =
     CreateNewHashMap X (lit ''registrations'') PublicKeySize True Registration_create None None"

definition NewPlainAccounts :: "'x StoreTx \<Rightarrow> ('x, (PlainAccount, 'x) HashMap) go" where
  "NewPlainAccounts X =
     CreateNewHashMap X (lit ''plainAccs'') PublicKeySize False PlainAccount_create None None"

definition NewPendingStakesList :: "'x StoreTx \<Rightarrow> ('x, (PendingStakes, 'x) HashMap) go" where
  "NewPendingStakesList X =
     CreateNewHashMap X (lit ''pendingStakes'') 0 False PendingStakes_create None None"

text \<open>The events of a map of conditional payments keep an index over all heights.\<close>

definition conditionalPayments_all :: "bytes \<Rightarrow> bytes" where
  "conditionalPayments_all key = lit ''conditionalPayments:all:'' @ key"

definition ConditionalPayments_StoredEvent ::
  "'x StoreTx \<Rightarrow> bytes \<Rightarrow> ConditionalPayment CommittedMapElement \<Rightarrow> uint64 \<Rightarrow> ('x, unit) go" where
  "ConditionalPayments_StoredEvent X key committed index =
     gbind (gget (tx_IsWritable X)) (\<lambda>w.
     if \<not> w then gret ()
     else (case cm_Element committed of
        None \<Rightarrow> gpanic ''invalid memory address or nil pointer dereference''
      | Some e \<Rightarrow> tx_Put X (conditionalPayments_all key) (Some (FormatUint (cp_BlockHeight e)))))"

definition ConditionalPayments_DeletedEvent :: "'x StoreTx \<Rightarrow> bytes \<Rightarrow> ('x, unit) go" where
  "ConditionalPayments_DeletedEvent X key =
     gbind (gget (tx_IsWritable X)) (\<lambda>w.
     if \<not> w then gret () else tx_Delete X (conditionalPayments_all key))"

definition NewConditionalPaymentsHashMap ::
  "'x StoreTx \<Rightarrow> uint64 \<Rightarrow> ('x, (ConditionalPayment, 'x) HashMap) go" where
  "NewConditionalPaymentsHashMap X blockHeight =
     CreateNewHashMap X (lit ''conditionalPayments_'' @ FormatUint blockHeight) 0 True
       (ConditionalPayment_create blockHeight)
       (Some (ConditionalPayments_DeletedEvent X)) (Some (ConditionalPayments_StoredEvent X))"

section \<open>Creating objects\<close>

definition CreateNewRegistration ::
  "'x StoreTx \<Rightarrow> bytes \<Rightarrow> bool \<Rightarrow> bytes \<Rightarrow> (Registration, 'x, Registration) hm_go" where
  "CreateNewRegistration X publicKey staked spendPublicKey =
     Create Registration_ops X publicKey
       (Some ((NewRegistration publicKey 0)\<lparr>reg_Staked := staked, reg_SpendPublicKey := spendPublicKey\<rparr>))"

definition CreateNewPlainAccount :: "'x StoreTx \<Rightarrow> bytes \<Rightarrow> (PlainAccount, 'x, PlainAccount) hm_go" where
  "CreateNewPlainAccount X publicKey =
     Create PlainAccount_ops X publicKey (Some (NewPlainAccount publicKey 0))"

definition CreateNewPendingStakes :: "'x StoreTx \<Rightarrow> uint64 \<Rightarrow> (PendingStakes, 'x, PendingStakes) hm_go" where
  "CreateNewPendingStakes X blockHeight =
     Create PendingStakes_ops X (FormatUint blockHeight)
       (Some ((NewPendingStakes (FormatUint blockHeight) 0)\<lparr>pst_Height := blockHeight\<rparr>))"

definition GetPendingStakes :: "'x StoreTx \<Rightarrow> uint64 \<Rightarrow> (PendingStakes, 'x, PendingStakes option) hm_go" where
  "GetPendingStakes X blockHeight = Get PendingStakes_ops X (FormatUint blockHeight)"

section \<open>The laws hold for every map\<close>

interpretation reg_map: hash_map_laws mem_ops mem_view Registration_ops Registration_create Registration_ok
  ..

interpretation pacc_map: hash_map_laws mem_ops mem_view PlainAccount_ops PlainAccount_create PlainAccount_ok
  ..

interpretation pstakes_map: hash_map_laws mem_ops mem_view PendingStakes_ops PendingStakes_create PendingStakes_ok
  ..

interpretation cpay_map: hash_map_laws mem_ops mem_view ConditionalPayment_ops
  "ConditionalPayment_create h" "ConditionalPayment_ok h" for h
  ..

section \<open>A map is a transactional map\<close>

lemma mem_empty_view: "mem_view \<lparr>mt_store = (\<lambda>_. None), mt_write = True, mt_local = Map.empty\<rparr> k = None"
  by (simp add: mem_view_def)

abbreviation "mem_empty \<equiv> \<lparr>mt_store = (\<lambda>_. None), mt_write = True, mt_local = Map.empty\<rparr>"

lemma mem_empty_writable [simp]: "tx_IsWritable mem_ops mem_empty"
  by (simp add: mem_ops_def mem_IsWritable_def)

lemma NewRegistrations_empty:
  "\<exists>h x. NewRegistrations mem_ops mem_empty = (Inr h, x) \<and>
     hm_inv Registration_ops mem_ops mem_view Registration_create Registration_ok (h, x) \<and>
     hm_abs Registration_ops mem_view (h, x) = (\<lambda>_. None, \<lambda>_. None) \<and> hm_keyLength h = PublicKeySize"
  using reg_map.CreateNewHashMap_empty[of mem_empty "lit ''registrations''" None None PublicKeySize True]
  by (auto simp: mem_empty_view NewRegistrations_def hm_abs_def)

text \<open>C1: the registrations map over the in-memory store refines a pair of plain maps, the current one
  and the committed one.  Every run of the code's operations (Get, Exists, Update, Delete,
  CommitChanges with any visiting order, Rollback) from a state that satisfies the invariant is
  a run of the abstract map with the same observations, and the invariant holds again at its
  end.\<close>

theorem registrations_refine:
  assumes "steps (hm_step Registration_ops mem_ops Registration_ok) s es t"
    and "hm_inv Registration_ops mem_ops mem_view Registration_create Registration_ok s"
  shows "steps map_step (hm_abs Registration_ops mem_view s) es (hm_abs Registration_ops mem_view t) \<and>
    hm_inv Registration_ops mem_ops mem_view Registration_create Registration_ok t"
  using reg_map.sim_steps[OF assms] .

theorem registrations_refine_witness:
  "\<exists>s t b. hm_inv Registration_ops mem_ops mem_view Registration_create Registration_ok s \<and>
     hm_inv Registration_ops mem_ops mem_view Registration_create Registration_ok t \<and>
     steps (hm_step Registration_ops mem_ops Registration_ok) s [E_update (replicate 33 7) b] t \<and>
     steps map_step (\<lambda>_. None, \<lambda>_. None) [E_update (replicate 33 7) b] (hm_abs Registration_ops mem_view t)"
proof -
  let ?k = "replicate 33 (7 :: byte)"
  let ?r = "NewRegistration ?k 0"
  obtain h x where s: "hm_inv Registration_ops mem_ops mem_view Registration_create Registration_ok (h, x)"
    "hm_abs Registration_ops mem_view (h, x) = (\<lambda>_. None, \<lambda>_. None)" "hm_keyLength h = PublicKeySize"
    using NewRegistrations_empty by blast
  have core: "hm_core Registration_ops mem_ops mem_view Registration_create Registration_ok (h, x)"
    using s(1) by (simp add: hm_inv_def)
  have ok: "\<not> bad_key h ?k" "Registration_ok ?k (el_SetKey Registration_ops ?k ?r)"
    using s(3) by (auto simp: bad_key_def PublicKeySize_def Registration_ok_def Registration_ops_def
        NewRegistration_def Registration_Validate_iff)
  obtain d t where t: "Update Registration_ops mem_ops ?k (Some ?r) (h, x) = (Inr d, t)"
    using reg_map.Update_ok[OF core ok] by auto
  have run: "steps (hm_step Registration_ops mem_ops Registration_ok) (h, x)
      [E_update ?k (el_bytes Registration_ops d)] t"
    by (rule steps_Cons, rule hm_step.step_update[where ok = Registration_ok, OF ok(2) t], rule steps_Nil)
  from registrations_refine[OF run s(1)] s(1,2) run show ?thesis by metis
qed

text \<open>C2: undoing a block.  If the transitions of the plain-accounts map are written before its changes
  are committed, then reading them back after the commit succeeds and restores exactly the
  accounts that were stored before the block, whatever the block did and in whatever order the
  maps are visited.  \<open>Marshal\<close> and \<open>Unmarshal\<close> stand for msgpack, of which only the round trip is
  assumed; the slot of the transitions is free, and the map has no events.\<close>

theorem plain_accounts_undo:
  assumes "hm_inv PlainAccount_ops mem_ops mem_view PlainAccount_create PlainAccount_ok (h, x)"
    and "set ord = dom (change_at h)" "set ord0 = dom (change_at h)" "set ord1 = dom (change_at h)"
      "set ord2 = dom (change_at h)"
    and "mem_view x (key_transitions (hm_name h) p) = None"
    and "\<And>cs. \<exists>d. Marshal cs = Inr d" "\<And>cs d. Marshal cs = Inr d \<Longrightarrow> Unmarshal d = Inr cs"
    and "hm_DeletedEvent h = None" "hm_StoredEvent h = None"
  shows "\<exists>b s1 s2 s3.
    WriteTransitionalChangesToStore PlainAccount_ops mem_ops Marshal ord p (h, x) = (Inr b, s1) \<and>
    CommitChanges PlainAccount_ops mem_ops ord0 ord1 ord2 s1 = (Inr (), s2) \<and>
    ReadTransitionalChangesFromStore PlainAccount_ops mem_ops Unmarshal p s2 = (Inr (), s3) \<and>
    hm_stored mem_view s2 = hm_contents PlainAccount_ops mem_view (h, x) \<and>
    hm_contents PlainAccount_ops mem_view s3 = hm_stored mem_view (h, x) \<and>
    hm_inv PlainAccount_ops mem_ops mem_view PlainAccount_create PlainAccount_ok s3"
proof (rule pacc_map.undo_block[OF _ assms(2,6,7,8,3,4,5)])
  show "hm_core PlainAccount_ops mem_ops mem_view PlainAccount_create PlainAccount_ok (h, x)"
    using assms(1) by (simp add: hm_inv_def)
  show "events_total mem_ops h" using assms(9,10) by (simp add: events_total_def)
qed

lemma NewPlainAccounts_empty:
  "\<exists>h x. NewPlainAccounts mem_ops mem_empty = (Inr h, x) \<and>
     hm_inv PlainAccount_ops mem_ops mem_view PlainAccount_create PlainAccount_ok (h, x) \<and>
     hm_abs PlainAccount_ops mem_view (h, x) = (\<lambda>_. None, \<lambda>_. None) \<and> hm_keyLength h = PublicKeySize \<and>
     mem_view x = (\<lambda>_. None) \<and> hm_DeletedEvent h = None \<and> hm_StoredEvent h = None"
  using pacc_map.CreateNewHashMap_empty[of mem_empty "lit ''plainAccs''" None None PublicKeySize False]
  by (auto simp: mem_empty_view NewPlainAccounts_def hm_abs_def fun_eq_iff)

text \<open>A map with one pending change: the account of a key has been given a nonce.\<close>

lemma plain_accounts_one_update:
  fixes k :: bytes
  assumes "length k = PublicKeySize"
  shows "\<exists>h x. hm_inv PlainAccount_ops mem_ops mem_view PlainAccount_create PlainAccount_ok (h, x) \<and>
    hm_contents PlainAccount_ops mem_view (h, x) k \<noteq> None \<and> hm_stored mem_view (h, x) = (\<lambda>_. None) \<and>
    mem_view x = (\<lambda>_. None) \<and> hm_DeletedEvent h = None \<and> hm_StoredEvent h = None"
proof -
  let ?p = "(NewPlainAccount k 0)\<lparr>pa_Nonce := 1\<rparr>"
  obtain h x where s: "hm_inv PlainAccount_ops mem_ops mem_view PlainAccount_create PlainAccount_ok (h, x)"
    "hm_abs PlainAccount_ops mem_view (h, x) = (\<lambda>_. None, \<lambda>_. None)" "hm_keyLength h = PublicKeySize"
    "mem_view x = (\<lambda>_. None)" "hm_DeletedEvent h = None" "hm_StoredEvent h = None"
    using NewPlainAccounts_empty by blast
  have ok: "\<not> bad_key h k" "PlainAccount_ok k (el_SetKey PlainAccount_ops k ?p)"
    using s(3) assms by (auto simp: bad_key_def PlainAccount_ok_def PlainAccount_ops_def NewPlainAccount_def
        afl_wire_def AssetFeeLiquidities_Validate_def PlainAccount_IsDeletable_def)
  obtain h' x' where "hm_core PlainAccount_ops mem_ops mem_view PlainAccount_create PlainAccount_ok (h', x')"
    "pacc_map.keeps (h, x) (h', x')"
    "hm_contents PlainAccount_ops mem_view (h', x') k \<noteq> None"
    using pacc_map.Update_ok[OF pacc_map.invD[OF s(1)] ok] by auto
  moreover from this have "mem_view x' = (\<lambda>_. None)" "hm_DeletedEvent h' = None" "hm_StoredEvent h' = None"
    using s(4-6) by (auto simp: pacc_map.keeps_def pacc_map.static_def)
  moreover from calculation have "hm_inv PlainAccount_ops mem_ops mem_view PlainAccount_create PlainAccount_ok (h', x')"
    using pacc_map.keeps_invar[OF _ s(1)] by blast
  moreover from calculation have "hm_stored mem_view (h', x') = (\<lambda>_. None)"
    using pacc_map.keeps_stored s(2) by (auto simp: hm_abs_def)
  ultimately show ?thesis by blast
qed

text \<open>A self-delimiting encoding of transitions, a concrete codec with the round trip assumed of
  msgpack: every byte of a string is preceded by one, its end marked by zero.\<close>

fun mark_bytes :: "bytes \<Rightarrow> bytes" where
  "mark_bytes [] = [0]"
| "mark_bytes (b # bs) = 1 # b # mark_bytes bs"

fun unmark_bytes :: "bytes \<Rightarrow> bytes \<times> bytes" where
  "unmark_bytes (m # b # r) = (if m = 0 then ([], b # r) else case unmark_bytes r of (bs, r') \<Rightarrow> (b # bs, r'))"
| "unmark_bytes [m] = ([], [])"
| "unmark_bytes [] = ([], [])"

fun mark_changes :: "transactionChange list \<Rightarrow> bytes" where
  "mark_changes [] = [0]"
| "mark_changes (c # cs) = 1 # mark_bytes (tc_Key c) @
     (case tc_Transition c of None \<Rightarrow> [0] | Some d \<Rightarrow> 1 # mark_bytes d) @ mark_changes cs"

fun unmark_changes :: "nat \<Rightarrow> bytes \<Rightarrow> transactionChange list" where
  "unmark_changes (Suc n) (m # r) =
     (if m = 0 then [] else
      case unmark_bytes r of
        (k, []) \<Rightarrow> []
      | (k, t # r') \<Rightarrow>
          if t = 0 then \<lparr>tc_Key = k, tc_Transition = None\<rparr> # unmark_changes n r'
          else case unmark_bytes r' of (d, r'') \<Rightarrow> \<lparr>tc_Key = k, tc_Transition = Some d\<rparr> # unmark_changes n r'')"
| "unmark_changes _ _ = []"

lemma unmark_mark_bytes: "unmark_bytes (mark_bytes bs @ r) = (bs, r)"
  by (induction bs) (cases r; simp)+

lemma length_mark_changes: "length cs < length (mark_changes cs)"
  by (induction cs) auto

lemma unmark_mark_changes: "length cs < n \<Longrightarrow> unmark_changes n (mark_changes cs) = cs"
proof (induction cs arbitrary: n)
  case Nil
  then show ?case by (cases n) auto
next
  case (Cons c cs)
  then show ?case by (cases n; cases c) (auto simp: unmark_mark_bytes split: option.split)
qed

theorem plain_accounts_undo_witness:
  "\<exists>(h :: (PlainAccount, StoreDBMemoryTransaction) HashMap) x ord b s1 s2 s3.
    hm_contents PlainAccount_ops mem_view (h, x) (replicate 33 7) \<noteq> None \<and>
    WriteTransitionalChangesToStore PlainAccount_ops mem_ops (\<lambda>cs. Inr (mark_changes cs)) ord [49] (h, x) = (Inr b, s1) \<and>
    CommitChanges PlainAccount_ops mem_ops ord ord ord s1 = (Inr (), s2) \<and>
    hm_stored mem_view s2 (replicate 33 7) \<noteq> None \<and>
    ReadTransitionalChangesFromStore PlainAccount_ops mem_ops
      (\<lambda>d. Inr (unmark_changes (length d) d)) [49] s2 = (Inr (), s3) \<and>
    hm_contents PlainAccount_ops mem_view s3 = (\<lambda>_. None)"
proof -
  let ?M = "\<lambda>cs. Inr (mark_changes cs) :: bytes result"
  let ?U = "\<lambda>d. Inr (unmark_changes (length d) d) :: transactionChange list result"
  obtain h :: "(PlainAccount, StoreDBMemoryTransaction) HashMap" and x where s:
    "hm_inv PlainAccount_ops mem_ops mem_view PlainAccount_create PlainAccount_ok (h, x)"
    "hm_contents PlainAccount_ops mem_view (h, x) (replicate 33 7) \<noteq> None"
    "hm_stored mem_view (h, x) = (\<lambda>_. None)" "mem_view x = (\<lambda>_. None)"
    "hm_DeletedEvent h = None" "hm_StoredEvent h = None"
    using plain_accounts_one_update[of "replicate 33 7"] by (auto simp: PublicKeySize_def)
  obtain ord where o: "set ord = dom (change_at h)" using finite_list[OF pacc_map.dom_change_at[of h]] by blast
  have u: "\<And>cs d. ?M cs = Inr d \<Longrightarrow> ?U d = Inr cs"
    by (auto simp: unmark_mark_changes length_mark_changes)
  have m: "\<And>cs. \<exists>d. ?M cs = Inr d" by blast
  have f: "mem_view x (key_transitions (hm_name h) [49]) = None" using s(4) by simp
  obtain b s1 s2 s3 where r:
    "WriteTransitionalChangesToStore PlainAccount_ops mem_ops ?M ord [49] (h, x) = (Inr b, s1)"
    "CommitChanges PlainAccount_ops mem_ops ord ord ord s1 = (Inr (), s2)"
    "ReadTransitionalChangesFromStore PlainAccount_ops mem_ops ?U [49] s2 = (Inr (), s3)"
    "hm_stored mem_view s2 = hm_contents PlainAccount_ops mem_view (h, x)"
    "hm_contents PlainAccount_ops mem_view s3 = hm_stored mem_view (h, x)"
    using plain_accounts_undo[of h x ord ord ord ord "[49]" ?M ?U, OF s(1) o o o o f m u s(5,6)] by blast
  have "hm_stored mem_view s2 (replicate 33 7) \<noteq> None" using r(4) s(2) by simp
  moreover have "hm_contents PlainAccount_ops mem_view s3 = (\<lambda>_. None)" using r(5) s(3) by simp
  ultimately show ?thesis using r(1-3) s(2) by blast
qed

end
