(* ===== verification/Assets.thy ===== *)
theory Assets
  imports Heap_Store Ledger_Maps
begin

text \<open>
  The assets of \<^verbatim>\<open>blockchain/data_storage/assets\<close>: the asset record with its validation, supply
  changes and codec, the map of assets with the events that keep the tickers unique, and the
  collection that keeps, per asset, a max heap of the accounts offering liquidity for its fees.
\<close>

section \<open>Assets\<close>

definition PublicKeyHashSize :: nat where "PublicKeyHashSize = 20"

definition BURN_PUBLIC_KEY :: bytes where
  "BURN_PUBLIC_KEY = replicate 29 0 @ [0xd, 0xe, 0xa, 0xd]"

definition NATIVE_ASSET_NAME :: bytes where "NATIVE_ASSET_NAME = lit ''NATIVE''"
definition NATIVE_ASSET_TICKER :: bytes where "NATIVE_ASSET_TICKER = lit ''NATIVE''"
definition NATIVE_ASSET_IDENTIFICATION :: bytes where "NATIVE_ASSET_IDENTIFICATION = lit ''NATIVE''"

record Asset =
  as_PublicKeyHash :: bytes
  as_Index :: uint64
  as_Version :: uint64
  as_CanUpgrade :: bool
  as_CanMint :: bool
  as_CanBurn :: bool
  as_CanChangeUpdatePublicKey :: bool
  as_CanChangeSupplyPublicKey :: bool
  as_CanPause :: bool
  as_CanFreeze :: bool
  as_DecimalSeparator :: byte
  as_MaxSupply :: uint64
  as_Supply :: uint64
  as_UpdatePublicKey :: bytes
  as_SupplyPublicKey :: bytes
  as_Name :: bytes
  as_Ticker :: bytes
  as_Identification :: bytes
  as_Description :: bytes
  as_Data :: bytes

definition is_upper :: "byte \<Rightarrow> bool" where "is_upper b \<longleftrightarrow> 65 \<le> b \<and> b \<le> 90"
definition is_lower :: "byte \<Rightarrow> bool" where "is_lower b \<longleftrightarrow> 97 \<le> b \<and> b \<le> 122"
definition is_alnum :: "byte \<Rightarrow> bool" where "is_alnum b \<longleftrightarrow> is_upper b \<or> is_lower b \<or> is_digit b"

text \<open>The words of a text, separated by single spaces.\<close>

fun split_space :: "bytes \<Rightarrow> bytes list" where
  "split_space [] = [[]]"
| "split_space (b # bs) =
     (if b = 32 then [] # split_space bs
      else (case split_space bs of [] \<Rightarrow> [[b]] | w # ws \<Rightarrow> (b # w) # ws))"

text \<open>\<^verbatim>\<open>^([a-zA-Z0-9]+ )+[a-zA-Z0-9]+$|^[a-zA-Z0-9]+\<close>: the second alternative has no end anchor.\<close>

definition regexAssetName :: "bytes \<Rightarrow> bool" where
  "regexAssetName s \<longleftrightarrow>
     (length (split_space s) \<ge> 2 \<and> list_all (\<lambda>w. w \<noteq> [] \<and> list_all is_alnum w) (split_space s)) \<or>
     (case s of [] \<Rightarrow> False | b # _ \<Rightarrow> is_alnum b)"

text \<open>\<^verbatim>\<open>^[A-Z0-9]+$\<close> and \<^verbatim>\<open>[\w|\W]+\<close>.\<close>

definition regexAssetTicker :: "bytes \<Rightarrow> bool" where
  "regexAssetTicker s \<longleftrightarrow> s \<noteq> [] \<and> list_all (\<lambda>b. is_upper b \<or> is_digit b) s"

definition regexAssetDescription :: "bytes \<Rightarrow> bool" where
  "regexAssetDescription s \<longleftrightarrow> s \<noteq> []"

text \<open>\<^verbatim>\<open>strings.ToUpper\<close> as far as the result is ASCII: the ASCII letters, and the two other characters
  whose capital is an ASCII letter, the dotless i and the long s.\<close>

fun ToUpper :: "bytes \<Rightarrow> bytes" where
  "ToUpper (a # b # bs) =
     (if a = 0xC4 \<and> b = 0xB1 then 73 # ToUpper bs
      else if a = 0xC5 \<and> b = 0xBF then 83 # ToUpper bs
      else (if is_lower a then a - 32 else a) # ToUpper (b # bs))"
| "ToUpper [a] = [if is_lower a then a - 32 else a]"
| "ToUpper [] = []"

definition hex_digit :: "byte \<Rightarrow> byte" where
  "hex_digit d = (if d < 10 then 48 + d else 87 + d)"

definition EncodeToString :: "bytes \<Rightarrow> bytes" where
  "EncodeToString bs = concat (map (\<lambda>b. [hex_digit (b div 16), hex_digit (b mod 16)]) bs)"

text \<open>\<^verbatim>\<open>PublicKeyHash[:3]\<close> panics on a shorter hash.\<close>

definition asset_identification :: "bytes \<Rightarrow> bytes \<Rightarrow> bytes result" where
  "asset_identification ticker hash =
     (if length hash < 3 then Inl (Panic ''slice bounds out of range'')
      else Inr (ticker @ lit ''-'' @ EncodeToString (take 3 hash)))"

definition setIdentification :: "Asset \<Rightarrow> Asset result" where
  "setIdentification a =
     rbind (if as_PublicKeyHash a = NATIVE_ASSET_FULL then Inr NATIVE_ASSET_IDENTIFICATION
            else asset_identification (as_Ticker a) (as_PublicKeyHash a)) (\<lambda>identification.
     Inr (a\<lparr>as_Identification := identification\<rparr>))"

text \<open>The maps call \<^verbatim>\<open>SetKey\<close> with keys whose length they have checked: the keys of the assets have twenty bytes,
  and the slice is never out of bounds.\<close>

definition Asset_SetKey :: "bytes \<Rightarrow> Asset \<Rightarrow> Asset" where
  "Asset_SetKey key a =
     (if key \<noteq> as_PublicKeyHash a then
        (case setIdentification (a\<lparr>as_PublicKeyHash := key\<rparr>) of Inr a \<Rightarrow> a | Inl _ \<Rightarrow> a\<lparr>as_PublicKeyHash := key\<rparr>)
      else a)"

fun first_error :: "(bool \<times> string) list \<Rightarrow> unit result" where
  "first_error [] = Inr ()"
| "first_error ((bad, m) # cs) = (if bad then Inl (Error m) else first_error cs)"

definition Asset_Validate :: "Asset \<Rightarrow> unit result" where
  "Asset_Validate a = first_error
     ([(as_DecimalSeparator a > ASSETS_DECIMAL_SEPARATOR_MAX_BYTE, ''asset decimal separator is invalid''),
       (length (as_Name a) > 15 \<or> length (as_Name a) < 3, ''asset name length is invalid''),
       (length (as_Ticker a) > 10 \<or> length (as_Ticker a) < 2, ''asset ticker length is invalid''),
       (length (as_Description a) > 1024, ''asset description length is invalid''),
       (length (as_Data a) > 5120, ''asset data length is invalid''),
       (\<not> regexAssetName (as_Name a), ''Asset name is invalid''),
       (\<not> regexAssetTicker (as_Ticker a), ''Asset ticker is invalid''),
       (\<not> regexAssetDescription (as_Description a), ''Asset description is invalid''),
       (length (as_PublicKeyHash a) \<noteq> PublicKeyHashSize, ''Asset Public key is invalid'')] @
      (if as_PublicKeyHash a \<noteq> NATIVE_ASSET_FULL then
         [(ToUpper (as_Name a) = NATIVE_ASSET_NAME, ''Asset can not contain same name''),
          (as_Ticker a = NATIVE_ASSET_TICKER, ''Asset can not contain same ticker''),
          (asset_identification (as_Ticker a) (as_PublicKeyHash a) \<noteq> Inr (as_Identification a),
             ''Asset identification is not matching'')]
       else
         [(as_Identification a \<noteq> NATIVE_ASSET_IDENTIFICATION, ''Asset native identification is not matching''),
          (as_Ticker a \<noteq> NATIVE_ASSET_TICKER, ''Asset ticker is not matching'')]))"

text \<open>A field of a record updated by an operation on its value.\<close>

definition on_Supply :: "(uint64, unit) go \<Rightarrow> (Asset, unit) go" where
  "on_Supply m = (\<lambda>a. case m (as_Supply a) of (r, v) \<Rightarrow> (r, a\<lparr>as_Supply := v\<rparr>))"

definition AddNativeSupply :: "bool \<Rightarrow> uint64 \<Rightarrow> (Asset, unit) go" where
  "AddNativeSupply sign amount =
     gbind (gget id) (\<lambda>a.
     if sign then
       gbind (gcheck (as_MaxSupply a - as_Supply a < amount) ''Supply exceeded max supply'') (\<lambda>_.
       on_Supply (SafeUint64Add amount))
     else
       gbind (gcheck (as_Supply a < amount) ''Supply would become negative'') (\<lambda>_.
       on_Supply (SafeUint64Sub amount)))"

definition AddSupply :: "bool \<Rightarrow> uint64 \<Rightarrow> (Asset, unit) go" where
  "AddSupply sign amount =
     gbind (gget id) (\<lambda>a.
     gbind (gcheck (as_SupplyPublicKey a = BURN_PUBLIC_KEY) ''BURN PUBLIC KEY'') (\<lambda>_.
     if sign then
       gbind (gcheck (\<not> as_CanMint a) ''Can't mint'') (\<lambda>_.
       gbind (gcheck (as_MaxSupply a - as_Supply a < amount) ''Supply exceeded max supply'') (\<lambda>_.
       on_Supply (SafeUint64Add amount)))
     else
       gbind (gcheck (\<not> as_CanBurn a) ''Can't burn'') (\<lambda>_.
       gbind (gcheck (as_Supply a < amount) ''Supply would become negative'') (\<lambda>_.
       on_Supply (SafeUint64Sub amount)))))"

definition Asset_Serialize :: "Asset \<Rightarrow> BufferWriter \<Rightarrow> BufferWriter" where
  "Asset_Serialize a = ser_seq
     [WriteUvarint (as_Version a),
      WriteBool (as_CanUpgrade a), WriteBool (as_CanMint a), WriteBool (as_CanBurn a),
      WriteBool (as_CanChangeUpdatePublicKey a), WriteBool (as_CanChangeSupplyPublicKey a),
      WriteBool (as_CanPause a), WriteBool (as_CanFreeze a),
      WriteByte (as_DecimalSeparator a),
      WriteUvarint (as_MaxSupply a), WriteUvarint (as_Supply a),
      Write (as_UpdatePublicKey a), Write (as_SupplyPublicKey a),
      WriteString (as_Name a), WriteString (as_Ticker a), WriteString (as_Description a),
      WriteVariableBytes (as_Data a)]"

definition Asset_Deserialize :: "Asset \<Rightarrow> (BufferReader, Asset) go" where
  "Asset_Deserialize a =
     gbind ReadUvarint (\<lambda>version.
     gbind ReadBool (\<lambda>canUpgrade. gbind ReadBool (\<lambda>canMint. gbind ReadBool (\<lambda>canBurn.
     gbind ReadBool (\<lambda>canUpd. gbind ReadBool (\<lambda>canSup.
     gbind ReadBool (\<lambda>canPause. gbind ReadBool (\<lambda>canFreeze.
     gbind ReadByte (\<lambda>dec.
     gbind ReadUvarint (\<lambda>maxSupply. gbind ReadUvarint (\<lambda>supply.
     gbind (ReadBytes (int PublicKeySize)) (\<lambda>upk. gbind (ReadBytes (int PublicKeySize)) (\<lambda>spk.
     gbind (ReadString 15) (\<lambda>name. gbind (ReadString 10) (\<lambda>ticker.
     gbind (ReadString 1024) (\<lambda>descr. gbind (ReadVariableBytes 5120) (\<lambda>data.
     glift (setIdentification (a\<lparr>
       as_Version := version, as_CanUpgrade := canUpgrade, as_CanMint := canMint, as_CanBurn := canBurn,
       as_CanChangeUpdatePublicKey := canUpd, as_CanChangeSupplyPublicKey := canSup,
       as_CanPause := canPause, as_CanFreeze := canFreeze, as_DecimalSeparator := dec,
       as_MaxSupply := maxSupply, as_Supply := supply,
       as_UpdatePublicKey := upk, as_SupplyPublicKey := spk,
       as_Name := name, as_Ticker := ticker, as_Description := descr, as_Data := data\<rparr>)))))))))))))))))))"

definition NewAsset :: "bytes \<Rightarrow> uint64 \<Rightarrow> Asset" where
  "NewAsset publicKeyHash index = \<lparr>
     as_PublicKeyHash = publicKeyHash, as_Index = index, as_Version = 0, as_CanUpgrade = False, as_CanMint = False,
     as_CanBurn = False, as_CanChangeUpdatePublicKey = False, as_CanChangeSupplyPublicKey = False,
     as_CanPause = False, as_CanFreeze = False, as_DecimalSeparator = 0, as_MaxSupply = 0, as_Supply = 0,
     as_UpdatePublicKey = [], as_SupplyPublicKey = [], as_Name = [], as_Ticker = [], as_Identification = [],
     as_Description = [], as_Data = []\<rparr>"

definition Asset_ops :: "Asset ElemOps" where
  "Asset_ops = \<lparr>
     el_Validate = Asset_Validate,
     el_Serialize = (\<lambda>e. Inr (Asset_Serialize e)),
     el_Deserialize = Asset_Deserialize,
     el_SetIndex = (\<lambda>v a. a\<lparr>as_Index := v\<rparr>),
     el_SetKey = Asset_SetKey,
     el_GetIndex = as_Index,
     el_IsDeletable = (\<lambda>_. False)\<rparr>"

definition Asset_create :: "bytes \<Rightarrow> uint64 \<Rightarrow> Asset result" where
  "Asset_create key index = Inr (NewAsset key index)"

section \<open>The map of assets\<close>

definition tickers_used :: "bytes \<Rightarrow> bytes" where
  "tickers_used identification = lit ''assets:tickers:used:'' @ identification"

definition tickers_by :: "bytes \<Rightarrow> bytes" where
  "tickers_by key = lit ''assets:tickers:by:'' @ key"

definition Assets_StoredEvent :: "'x StoreTx \<Rightarrow> bytes \<Rightarrow> Asset CommittedMapElement \<Rightarrow> uint64 \<Rightarrow> ('x, unit) go" where
  "Assets_StoredEvent X key committed index =
     gbind (gget (tx_IsWritable X)) (\<lambda>w.
     if \<not> w then gret ()
     else deref (cm_Element committed) (\<lambda>e.
       gbind (tx_Get X (tickers_used (as_Identification e))) (\<lambda>usedBy.
       gbind (gcheck (usedBy \<noteq> None) ''tokenIdentification already! Try again'') (\<lambda>_.
       gbind (tx_Put X (tickers_by key) (Some (as_Identification e))) (\<lambda>_.
       tx_Put X (tickers_used (as_Identification e)) (Some [1]))))))"

text \<open>\<^verbatim>\<open>string(nil)\<close> is the empty string.\<close>

definition Assets_DeletedEvent :: "'x StoreTx \<Rightarrow> bytes \<Rightarrow> ('x, unit) go" where
  "Assets_DeletedEvent X key =
     gbind (gget (tx_IsWritable X)) (\<lambda>w.
     if \<not> w then gret ()
     else
       gbind (tx_Get X (tickers_by key)) (\<lambda>tokenIdentification.
       gbind (tx_Delete X (tickers_by key)) (\<lambda>_.
       tx_Delete X (tickers_used (case tokenIdentification of None \<Rightarrow> [] | Some t \<Rightarrow> t)))))"

definition NewAssets :: "'x StoreTx \<Rightarrow> ('x, (Asset, 'x) HashMap) go" where
  "NewAssets X =
     CreateNewHashMap X (lit ''assets'') ASSET_LENGTH True Asset_create
       (Some (Assets_DeletedEvent X)) (Some (Assets_StoredEvent X))"

definition CreateAsset :: "'x StoreTx \<Rightarrow> bytes \<Rightarrow> Asset option \<Rightarrow> (Asset, 'x, Asset) hm_go" where
  "CreateAsset X key ast =
     gbind (Exists X key) (\<lambda>exists.
     gbind (gcheck exists ''Asset already exists'') (\<lambda>_.
     Update Asset_ops X key ast))"

section \<open>Codec and contract\<close>

definition Asset_enc :: "Asset \<Rightarrow> bytes" where
  "Asset_enc a =
     PutUvarint (as_Version a) @ [if as_CanUpgrade a then 1 else 0] @ [if as_CanMint a then 1 else 0] @
     [if as_CanBurn a then 1 else 0] @ [if as_CanChangeUpdatePublicKey a then 1 else 0] @
     [if as_CanChangeSupplyPublicKey a then 1 else 0] @ [if as_CanPause a then 1 else 0] @
     [if as_CanFreeze a then 1 else 0] @ [as_DecimalSeparator a] @
     PutUvarint (as_MaxSupply a) @ PutUvarint (as_Supply a) @ as_UpdatePublicKey a @ as_SupplyPublicKey a @
     (PutUvarint (of_nat (length (as_Name a))) @ as_Name a) @
     (PutUvarint (of_nat (length (as_Ticker a))) @ as_Ticker a) @
     (PutUvarint (of_nat (length (as_Description a))) @ as_Description a) @
     (PutUvarint (of_nat (length (as_Data a))) @ as_Data a) @ []"

definition Asset_ok :: "bytes \<Rightarrow> Asset \<Rightarrow> bool" where
  "Asset_ok k a \<longleftrightarrow> as_PublicKeyHash a = k \<and> Asset_Validate a = Inr () \<and>
     length (as_UpdatePublicKey a) = PublicKeySize \<and> length (as_SupplyPublicKey a) = PublicKeySize"

lemma first_error_ok: "first_error cs = Inr () \<longleftrightarrow> (\<forall>(bad, m) \<in> set cs. \<not> bad)"
  by (induction cs rule: first_error.induct) auto

lemma Asset_Validate_ok:
  assumes "Asset_Validate a = Inr ()"
  shows "length (as_Name a) \<le> 15" "length (as_Ticker a) \<le> 10" "length (as_Description a) \<le> 1024"
    "length (as_Data a) \<le> 5120" "length (as_PublicKeyHash a) = PublicKeyHashSize" "setIdentification a = Inr a"
proof -
  note v = assms[unfolded Asset_Validate_def first_error_ok]
  show "length (as_Name a) \<le> 15" "length (as_Ticker a) \<le> 10" "length (as_Description a) \<le> 1024"
    "length (as_Data a) \<le> 5120" "length (as_PublicKeyHash a) = PublicKeyHashSize" using v by auto
  have i: "(if as_PublicKeyHash a = NATIVE_ASSET_FULL then Inr NATIVE_ASSET_IDENTIFICATION
      else asset_identification (as_Ticker a) (as_PublicKeyHash a)) = Inr (as_Identification a)"
    using v by (auto split: if_splits)
  show "setIdentification a = Inr a" unfolding setIdentification_def i by simp
qed

lemma writes_Asset: "writes (Asset_Serialize a) (Asset_enc a)"
  unfolding Asset_Serialize_def Asset_enc_def by (intro codec)

text \<open>The assets whose parts fit their fields on the wire.\<close>

definition Asset_wire :: "bytes \<Rightarrow> Asset \<Rightarrow> bool" where
  "Asset_wire k a \<longleftrightarrow> as_PublicKeyHash a = k \<and> setIdentification a = Inr a \<and>
     length (as_UpdatePublicKey a) = PublicKeySize \<and> length (as_SupplyPublicKey a) = PublicKeySize \<and>
     length (as_Name a) \<le> 15 \<and> length (as_Ticker a) \<le> 10 \<and> length (as_Description a) \<le> 1024 \<and> length (as_Data a) \<le> 5120"

lemma reads_Asset_wire:
  assumes w: "Asset_wire k a"
  shows "reads (Asset_Deserialize (NewAsset k i)) (Asset_enc a) (a\<lparr>as_Index := i\<rparr>)"
proof -
  have i: "(if as_PublicKeyHash a = NATIVE_ASSET_FULL then Inr NATIVE_ASSET_IDENTIFICATION
      else asset_identification (as_Ticker a) (as_PublicKeyHash a)) = Inr (as_Identification a)"
  proof -
    from w obtain x where x: "(if as_PublicKeyHash a = NATIVE_ASSET_FULL then Inr NATIVE_ASSET_IDENTIFICATION
      else asset_identification (as_Ticker a) (as_PublicKeyHash a)) = Inr x" "a\<lparr>as_Identification := x\<rparr> = a"
      by (auto simp: Asset_wire_def setIdentification_def rbind_Inr_iff)
    have "as_Identification (a\<lparr>as_Identification := x\<rparr>) = as_Identification a" using x(2) by simp
    then show ?thesis using x(1) by simp
  qed
  have k: "as_PublicKeyHash a = k" using w by (simp add: Asset_wire_def)
  have s: "setIdentification b = Inr (b\<lparr>as_Identification := as_Identification a\<rparr>)"
    if "as_PublicKeyHash b = k" "as_Ticker b = as_Ticker a" for b
    using i unfolding k setIdentification_def that by simp
  have "setIdentification (NewAsset k i\<lparr>
       as_Version := as_Version a, as_CanUpgrade := as_CanUpgrade a, as_CanMint := as_CanMint a, as_CanBurn := as_CanBurn a,
       as_CanChangeUpdatePublicKey := as_CanChangeUpdatePublicKey a, as_CanChangeSupplyPublicKey := as_CanChangeSupplyPublicKey a,
       as_CanPause := as_CanPause a, as_CanFreeze := as_CanFreeze a, as_DecimalSeparator := as_DecimalSeparator a,
       as_MaxSupply := as_MaxSupply a, as_Supply := as_Supply a,
       as_UpdatePublicKey := as_UpdatePublicKey a, as_SupplyPublicKey := as_SupplyPublicKey a,
       as_Name := as_Name a, as_Ticker := as_Ticker a, as_Description := as_Description a, as_Data := as_Data a\<rparr>)
      = Inr (a\<lparr>as_Index := i\<rparr>)"
    using k by (subst s; simp add: NewAsset_def)
  then show ?thesis
    unfolding Asset_Deserialize_def Asset_enc_def
    by (intro reads_bind[OF reads_ReadUvarint] reads_bind[OF reads_ReadBool] reads_bind[OF reads_ReadByte]
        reads_bind[OF reads_ReadBytes] reads_bind[OF reads_ReadString] reads_bind[OF reads_ReadVariableBytes] reads_glift_eq)
      (use w in \<open>simp_all add: Asset_wire_def\<close>)
qed

lemma reads_Asset:
  assumes "Asset_ok k a"
  shows "reads (Asset_Deserialize (NewAsset k i)) (Asset_enc a) (a\<lparr>as_Index := i\<rparr>)"
  using assms Asset_Validate_ok[of a] by (intro reads_Asset_wire) (simp add: Asset_wire_def Asset_ok_def)

lemma Asset_Index:
  "Asset_Validate (a\<lparr>as_Index := i\<rparr>) = Asset_Validate a" "Asset_Serialize (a\<lparr>as_Index := i\<rparr>) = Asset_Serialize a"
  by (simp_all add: Asset_Validate_def Asset_Serialize_def)

interpretation asset: hash_map_element Asset_ops Asset_create Asset_ok
proof
  fix k i and a :: Asset
  assume ok: "Asset_ok k a"
  have "SerializeToBytes (Asset_Serialize a) = Asset_enc a" by (rule writes_SerializeToBytes[OF writes_Asset])
  then show "\<exists>out. Asset_create k i = Inr out \<and>
      fst (el_Deserialize Asset_ops out (NewBufferReader (el_bytes Asset_ops a))) = Inr (el_SetIndex Asset_ops i a)"
    using reads_NewBufferReader[OF reads_Asset[OF ok], of i]
    by (simp add: Asset_create_def Asset_ops_def el_bytes_def)
qed (simp_all add: Asset_ops_def Asset_ok_def Asset_SetKey_def Asset_Index)

interpretation asset_map: hash_map_laws mem_ops mem_view Asset_ops Asset_create Asset_ok ..

section \<open>Properties of the assets\<close>

lemma below_max: "unat (s :: uint64) \<le> unat m \<Longrightarrow> m - s < v \<longleftrightarrow> \<not> unat s + unat v \<le> unat m"
  by (auto simp: word_less_nat_alt unat_sub_uint64 word_le_nat_alt)

lemma on_Supply_Add:
  assumes "unat (as_Supply a) + unat v < 2 ^ 64"
  shows "on_Supply (SafeUint64Add v) a = (Inr (), a\<lparr>as_Supply := as_Supply a + v\<rparr>)"
  using assms by (simp add: on_Supply_def SafeUint64Add_def MaxUint64_minus_less)

lemma on_Supply_Sub:
  assumes "unat v \<le> unat (as_Supply a)"
  shows "on_Supply (SafeUint64Sub v) a = (Inr (), a\<lparr>as_Supply := as_Supply a - v\<rparr>)"
  using assms by (simp add: on_Supply_def SafeUint64Sub_def word_less_nat_alt)

lemma AddSupply_cases:
  assumes "unat (as_Supply a) \<le> unat (as_MaxSupply a)"
  shows "AddSupply True v a =
      (if as_SupplyPublicKey a = BURN_PUBLIC_KEY then (Inl (Error ''BURN PUBLIC KEY''), a)
       else if \<not> as_CanMint a then (Inl (Error ''Can't mint''), a)
       else if unat (as_Supply a) + unat v \<le> unat (as_MaxSupply a) then (Inr (), a\<lparr>as_Supply := as_Supply a + v\<rparr>)
       else (Inl (Error ''Supply exceeded max supply''), a))"
    "AddSupply False v a =
      (if as_SupplyPublicKey a = BURN_PUBLIC_KEY then (Inl (Error ''BURN PUBLIC KEY''), a)
       else if \<not> as_CanBurn a then (Inl (Error ''Can't burn''), a)
       else if unat v \<le> unat (as_Supply a) then (Inr (), a\<lparr>as_Supply := as_Supply a - v\<rparr>)
       else (Inl (Error ''Supply would become negative''), a))"
proof -
  have "unat (as_Supply a) + unat v < 2 ^ 64" if "unat (as_Supply a) + unat v \<le> unat (as_MaxSupply a)"
    using that by (rule fits_uint64)
  then show "AddSupply True v a =
      (if as_SupplyPublicKey a = BURN_PUBLIC_KEY then (Inl (Error ''BURN PUBLIC KEY''), a)
       else if \<not> as_CanMint a then (Inl (Error ''Can't mint''), a)
       else if unat (as_Supply a) + unat v \<le> unat (as_MaxSupply a) then (Inr (), a\<lparr>as_Supply := as_Supply a + v\<rparr>)
       else (Inl (Error ''Supply exceeded max supply''), a))"
    by (simp add: AddSupply_def below_max[OF assms] on_Supply_Add)
qed (simp add: AddSupply_def word_less_nat_alt on_Supply_Sub)

text \<open>C7: minting and burning are exact.  An amount is added to the supply exactly when the supply key is
  not burnt, the asset may be minted and the new supply stays within the maximum; it is removed
  exactly when the asset may be burnt and the supply covers it.  A refused change leaves the asset
  as it was, and the supply never passes the maximum.\<close>

theorem AddSupply_exact:
  assumes "unat (as_Supply a) \<le> unat (as_MaxSupply a)" and "AddSupply sign v a = (r, b)"
  shows "(r = Inr () \<longleftrightarrow>
      as_SupplyPublicKey a \<noteq> BURN_PUBLIC_KEY \<and>
      (if sign then as_CanMint a \<and> unat (as_Supply a) + unat v \<le> unat (as_MaxSupply a)
       else as_CanBurn a \<and> unat v \<le> unat (as_Supply a))) \<and>
    (r = Inr () \<longrightarrow> unat (as_Supply b) = (if sign then unat (as_Supply a) + unat v else unat (as_Supply a) - unat v)) \<and>
    (r \<noteq> Inr () \<longrightarrow> b = a) \<and> unat (as_Supply b) \<le> unat (as_MaxSupply b)"
proof (cases sign)
  case True
  have "unat (as_Supply a + v) = unat (as_Supply a) + unat v"
    if "unat (as_Supply a) + unat v \<le> unat (as_MaxSupply a)"
    using that by (intro unat_add_uint64 fits_uint64)
  with True assms AddSupply_cases(1)[OF assms(1), of v] show ?thesis by (auto split: if_splits)
next
  case False
  have "unat (as_Supply a - v) = unat (as_Supply a) - unat v" if "unat v \<le> unat (as_Supply a)"
    using that by (intro unat_sub_uint64) (simp add: word_le_nat_alt)
  with False assms AddSupply_cases(2)[OF assms(1), of v] show ?thesis by (auto split: if_splits)
qed

theorem AddSupply_exact_witness:
  "let a = (NewAsset [] 0)\<lparr>as_CanMint := True, as_MaxSupply := 10, as_Supply := 4\<rparr> in
   fst (AddSupply True 6 a) = Inr () \<and> as_Supply (snd (AddSupply True 6 a)) = 10 \<and>
   unat (as_Supply (snd (AddSupply True 6 a))) \<le> unat (as_MaxSupply (snd (AddSupply True 6 a))) \<and>
   fst (AddSupply True 7 a) \<noteq> Inr ()"
  using AddSupply_exact[of "(NewAsset [] 0)\<lparr>as_CanMint := True, as_MaxSupply := 10, as_Supply := 4\<rparr>" True 6]
    AddSupply_exact[of "(NewAsset [] 0)\<lparr>as_CanMint := True, as_MaxSupply := 10, as_Supply := 4\<rparr>" True 7]
  by (simp add: AddSupply_def NewAsset_def BURN_PUBLIC_KEY_def on_Supply_def SafeUint64Add_def MaxUint64_def)

end
