(* ===== verification/Fee_Liquidity.thy ===== *)
theory Fee_Liquidity
  imports Assets
begin

text \<open>
  The collection of \<^verbatim>\<open>assets_fee_liquidity_collection.go\<close>: per asset a max heap, in the store, of the
  accounts that exchange the asset for fees, ordered by their rate.
\<close>

section \<open>The collection\<close>

text \<open>The heaps share the transaction of the collection.  \<^verbatim>\<open>listMaps\<close> holds the two maps of each heap in the
  order of creation; the model lists the assets.\<close>

record 'x AssetsFeeLiquidityCollection =
  lc_tx :: 'x
  lc_liquidityMaxHeaps :: "(bytes \<times> ((HeapElement, 'x) HashMap \<times> (HeapDictElement, 'x) HashMap)) list"
  lc_listMaps :: "bytes list"

definition NewAssetsFeeLiquidityCollection :: "'x \<Rightarrow> 'x AssetsFeeLiquidityCollection" where
  "NewAssetsFeeLiquidityCollection tx = \<lparr>lc_tx = tx, lc_liquidityMaxHeaps = [], lc_listMaps = []\<rparr>"

definition GetMaxHeap :: "'x StoreTx \<Rightarrow> bytes \<Rightarrow> ('x AssetsFeeLiquidityCollection, unit) go" where
  "GetMaxHeap X assetId =
     gbind (gcheck (length assetId \<noteq> ASSET_LENGTH) ''Asset was not found'') (\<lambda>_.
     gbind (gget (\<lambda>s. map_of (lc_liquidityMaxHeaps s) assetId)) (\<lambda>maxheap.
     case maxheap of
       Some _ \<Rightarrow> gret ()
     | None \<Rightarrow>
         (\<lambda>s. case NewHeapStoreHashMap X assetId (lc_tx s) of
            (Inl e, x) \<Rightarrow> (Inl e, s\<lparr>lc_tx := x\<rparr>)
          | (Inr maps, x) \<Rightarrow>
              (Inr (), s\<lparr>lc_tx := x, lc_listMaps := lc_listMaps s @ [assetId],
                        lc_liquidityMaxHeaps := AList.update assetId maps (lc_liquidityMaxHeaps s)\<rparr>))))"

text \<open>A method call on the heap of an asset.\<close>

definition on_heap ::
  "bytes \<Rightarrow> ('x HeapStore, 'a) go \<Rightarrow> ('x AssetsFeeLiquidityCollection, 'a) go" where
  "on_heap assetId m = (\<lambda>s.
     case map_of (lc_liquidityMaxHeaps s) assetId of
       None \<Rightarrow> (Inl (Panic ''invalid memory address or nil pointer dereference''), s)
     | Some (h, d) \<Rightarrow>
         (case m \<lparr>hs_HashMap = h, hs_DictMap = d, hs_Tx = lc_tx s\<rparr> of
            (r, t) \<Rightarrow> (r, s\<lparr>lc_tx := hs_Tx t,
                       lc_liquidityMaxHeaps := AList.update assetId (hs_HashMap t, hs_DictMap t) (lc_liquidityMaxHeaps s)\<rparr>)))"

definition liquidity_score :: "uint64 \<Rightarrow> byte \<Rightarrow> uint64" where
  "liquidity_score rate leadingZeros = float64_div (float64_of_uint64 rate) (math_Pow10 (unat leadingZeros))"

definition Collection_UpdateLiquidity ::
  "'x StoreTx \<Rightarrow> bytes \<Rightarrow> uint64 \<Rightarrow> byte \<Rightarrow> bytes \<Rightarrow> UpdateLiquidityStatus \<Rightarrow>
   ('x AssetsFeeLiquidityCollection, unit) go" where
  "Collection_UpdateLiquidity X publicKey rate leadingZeros assetId status =
     gbind (GetMaxHeap X assetId) (\<lambda>_.
     case status of
       UPDATE_LIQUIDITY_OVERWRITTEN \<Rightarrow>
         gbind (on_heap assetId (HeapStore_DeleteByKey X (NewMaxHeapStoreHashMap X) publicKey)) (\<lambda>_.
         on_heap assetId (Heap_Insert (NewMaxHeapStoreHashMap X) (liquidity_score rate leadingZeros) publicKey))
     | UPDATE_LIQUIDITY_INSERTED \<Rightarrow>
         on_heap assetId (Heap_Insert (NewMaxHeapStoreHashMap X) (liquidity_score rate leadingZeros) publicKey)
     | UPDATE_LIQUIDITY_DELETED \<Rightarrow>
         on_heap assetId (HeapStore_DeleteByKey X (NewMaxHeapStoreHashMap X) publicKey)
     | UPDATE_LIQUIDITY_NOTHING \<Rightarrow> gerr ''Invalid status'')"

definition GetTopLiquidity :: "'x StoreTx \<Rightarrow> bytes \<Rightarrow> ('x AssetsFeeLiquidityCollection, bytes option) go" where
  "GetTopLiquidity X assetId =
     gbind (GetMaxHeap X assetId) (\<lambda>_.
     gbind (on_heap assetId (Heap_GetTop (NewMaxHeapStoreHashMap X))) (\<lambda>top.
     case top of None \<Rightarrow> gret None | Some e \<Rightarrow> gret (Some (he_Key e))))"

section \<open>The heap of an asset\<close>

text \<open>The scores of an asset whose heap is open, and what holds of an open heap.\<close>

definition lc_store :: "bytes \<Rightarrow> 'x AssetsFeeLiquidityCollection \<Rightarrow> 'x HeapStore option" where
  "lc_store assetId s =
     map_option (\<lambda>(h, d). \<lparr>hs_HashMap = h, hs_DictMap = d, hs_Tx = lc_tx s\<rparr>) (map_of (lc_liquidityMaxHeaps s) assetId)"

definition lc_scores :: "('x \<Rightarrow> bytes \<Rightarrow> bytes option) \<Rightarrow> bytes \<Rightarrow> 'x AssetsFeeLiquidityCollection \<Rightarrow> bytes \<Rightarrow> uint64 option" where
  "lc_scores view assetId s =
     (case lc_store assetId s of None \<Rightarrow> (\<lambda>_. None) | Some t \<Rightarrow> map_of (hs_elems view t))"

text \<open>A heap is valid when the array in the first map is a heap, the second map gives exactly the positions
  of the keys, and no score is a NaN.\<close>

definition hs_valid :: "'x StoreTx \<Rightarrow> ('x \<Rightarrow> bytes \<Rightarrow> bytes option) \<Rightarrow> 'x HeapStore \<Rightarrow> bool" where
  "hs_valid X view t \<longleftrightarrow> hs_inv X view t \<and>
     (\<forall>i < length (hs_elems view t). hs_dict view t (fst (hs_elems view t ! i)) = Some (of_nat i)) \<and>
     (\<forall>k. hs_dict view t k \<noteq> None \<longrightarrow> k \<in> fst ` set (hs_elems view t)) \<and>
     (\<forall>i < length (hs_elems view t). 0 < i \<longrightarrow>
        \<not> float64_less (snd (hs_elems view t ! ((i - 1) div 2))) (snd (hs_elems view t ! i))) \<and>
     (\<forall>x \<in> set (hs_elems view t). \<not> float64_isNaN (snd x))"

definition lc_inv :: "'x StoreTx \<Rightarrow> ('x \<Rightarrow> bytes \<Rightarrow> bytes option) \<Rightarrow> bytes \<Rightarrow> nat \<Rightarrow> 'x AssetsFeeLiquidityCollection \<Rightarrow> bool" where
  "lc_inv X view assetId n s \<longleftrightarrow>
     (\<exists>t. lc_store assetId s = Some t \<and> hs_valid X view t \<and> length (hs_elems view t) \<le> n)"

context heap_store
begin

lemma max_lt: "maxh.lt x y \<longleftrightarrow> float64_less (snd y) (snd x)"
  unfolding maxh.lt_def by (simp add: NewMaxHeapStoreHashMap_def NewHeapStore_ops_def)

lemma hs_valid_iff: "hs_valid X view t \<longleftrightarrow> maxh.heap_inv {} t"
proof -
  have "hparent i = (i - 1) div 2" if "0 < i" for i using that by (simp add: hparent_def)
  then have "maxh.ord.is_heap (hs_elems view t) \<longleftrightarrow> (\<forall>i < length (hs_elems view t). 0 < i \<longrightarrow>
        \<not> float64_less (snd (hs_elems view t ! ((i - 1) div 2))) (snd (hs_elems view t ! i)))"
    unfolding maxh.ord.is_heap_def maxh.ord.heap_at_def max_lt by auto
  then show ?thesis
    unfolding hs_valid_def maxh.heap_inv_def maxh.good_def maxh.dict_exact_def by auto
qed

lemma on_heap_run:
  assumes "lc_store assetId s = Some t" "m t = (r, t')"
  shows "\<exists>s'. on_heap assetId m s = (r, s') \<and> lc_store assetId s' = Some t'"
  using assms by (auto simp: lc_store_def on_heap_def update_conv')

lemma GetMaxHeap_open:
  assumes "lc_store assetId s = Some t" "length assetId = ASSET_LENGTH"
  shows "GetMaxHeap X assetId s = (Inr (), s)"
  using assms by (auto simp: GetMaxHeap_def lc_store_def)

lemma heap_insert_run:
  assumes "lc_store assetId s = Some t" "hs_valid X view t" "length publicKey \<le> 255" "\<not> float64_isNaN score"
    "map_of (hs_elems view t) publicKey = None" "Suc (length (hs_elems view t)) < 2 ^ 63"
  shows "\<exists>s' t'. on_heap assetId (Heap_Insert maxH score publicKey) s = (Inr (), s') \<and> lc_store assetId s' = Some t' \<and>
    hs_valid X view t' \<and> map_of (hs_elems view t') = (map_of (hs_elems view t))(publicKey \<mapsto> score) \<and>
    length (hs_elems view t') = Suc (length (hs_elems view t))"
proof -
  have i: "maxh.heap_inv {} t" using assms(2) by (simp add: hs_valid_iff)
  obtain t' where "Heap_Insert maxH score publicKey t = (Inr (), t')" "hs_valid X view t'"
    "map_of (hs_elems view t') = (map_of (hs_elems view t))(publicKey \<mapsto> score)"
    "length (hs_elems view t') = Suc (length (hs_elems view t))"
    using maxh.Insert_map[OF i assms(3,4,5,6)] unfolding hs_valid_iff by blast
  then show ?thesis using on_heap_run[OF assms(1)] by metis
qed

lemma heap_delete_run:
  assumes "lc_store assetId s = Some t" "hs_valid X view t" "map_of (hs_elems view t) publicKey \<noteq> None"
  shows "\<exists>s' t'. on_heap assetId (HeapStore_DeleteByKey X maxH publicKey) s = (Inr (), s') \<and> lc_store assetId s' = Some t' \<and>
    hs_valid X view t' \<and> map_of (hs_elems view t') = (map_of (hs_elems view t))(publicKey := None) \<and>
    Suc (length (hs_elems view t')) = length (hs_elems view t)"
proof -
  have i: "maxh.heap_inv {} t" using assms(2) by (simp add: hs_valid_iff)
  obtain t' where "HeapStore_DeleteByKey X maxH publicKey t = (Inr (), t')" "hs_valid X view t'"
    "map_of (hs_elems view t') = (map_of (hs_elems view t))(publicKey := None)"
    "Suc (length (hs_elems view t')) = length (hs_elems view t)"
    using DeleteByKey_present[OF i assms(3)] unfolding hs_valid_iff by blast
  then show ?thesis using on_heap_run[OF assms(1)] by metis
qed

lemma heap_delete_missing_run:
  assumes "lc_store assetId s = Some t" "hs_valid X view t" "map_of (hs_elems view t) publicKey = None"
  shows "\<exists>s' t'. on_heap assetId (HeapStore_DeleteByKey X maxH publicKey) s = (Inl (Error ''Key is not found''), s') \<and>
    lc_store assetId s' = Some t' \<and> hs_valid X view t' \<and> hs_elems view t' = hs_elems view t"
proof -
  have i: "maxh.heap_inv {} t" using assms(2) by (simp add: hs_valid_iff)
  obtain t' where "HeapStore_DeleteByKey X maxH publicKey t = (Inl (Error ''Key is not found''), t')" "hs_valid X view t'"
    "hs_elems view t' = hs_elems view t"
    using DeleteByKey_missing[OF i assms(3)] unfolding hs_valid_iff by blast
  then show ?thesis using on_heap_run[OF assms(1)] by metis
qed

lemma heap_top_run:
  assumes "lc_store assetId s = Some t" "hs_valid X view t"
  shows "\<exists>s' t' eo. on_heap assetId (Heap_GetTop maxH) s = (Inr eo, s') \<and> lc_store assetId s' = Some t' \<and>
    hs_valid X view t' \<and> hs_elems view t' = hs_elems view t \<and>
    (case eo of None \<Rightarrow> hs_elems view t = []
     | Some e \<Rightarrow> kv e \<in> set (hs_elems view t) \<and> (\<forall>x \<in> set (hs_elems view t). \<not> float64_less (he_Score e) (snd x)))"
proof -
  have i: "maxh.heap_inv {} t" using assms(2) by (simp add: hs_valid_iff)
  have "\<exists>eo t'. Heap_GetTop maxH t = (Inr eo, t') \<and> hs_valid X view t' \<and> hs_elems view t' = hs_elems view t \<and>
    (case eo of None \<Rightarrow> hs_elems view t = []
     | Some e \<Rightarrow> kv e \<in> set (hs_elems view t) \<and> (\<forall>x \<in> set (hs_elems view t). \<not> float64_less (he_Score e) (snd x)))"
  proof (cases "hs_elems view t = []")
    case True
    have c: "hs_core X view t" using assms(2) by (simp add: hs_valid_def hs_inv_def)
    obtain eo t' where g: "on_HashMap (Get HeapElement_ops X (FormatUint 0)) t = (Inr eo, t')" "hs_core X view t'"
      "hs_contents view t' = hs_contents view t" "hs_positions view t' = hs_positions view t"
      "map_option HeapElement_enc eo = hs_contents view t (FormatUint 0)"
      using Get_element[OF c] by blast
    have inv: "hs_inv X view t" using assms(2) by (simp add: hs_valid_def)
    have n: "unat (hm_Count (hs_HashMap t)) = 0" using arg_cong[OF True, of length] by (simp add: hs_elems_def)
    then have "dom (hs_contents view t) = {}" using inv by (simp add: hs_inv_def)
    then have "eo = None" using g(5) by (cases eo) auto
    moreover have "hs_inv X view t'" "hs_elems view t' = hs_elems view t" using hs_inv_step[OF inv g(2,3)] by auto
    moreover have "hs_dict view t' = hs_dict view t" using g(4) by (auto simp: hs_dict_def fun_eq_iff)
    ultimately show ?thesis using g(1) assms(2) True
      by (auto simp: Heap_GetTop_def NewMaxHeapStoreHashMap_def NewHeapStore_ops_def hs_getElement_def hs_valid_def)
  next
    case False
    obtain e t' where "Heap_GetTop maxH t = (Inr (Some e), t')" "hs_valid X view t'" "hs_elems view t' = hs_elems view t"
      "kv e \<in> set (hs_elems view t)" "\<forall>x \<in> set (hs_elems view t). \<not> maxh.lt x (kv e)"
      using maxh.GetTop_spec[OF i False] unfolding hs_valid_iff by blast
    then show ?thesis unfolding max_lt by (auto simp: kv_def)
  qed
  then obtain eo t' where t': "Heap_GetTop maxH t = (Inr eo, t')" "hs_valid X view t'" "hs_elems view t' = hs_elems view t"
    "case eo of None \<Rightarrow> hs_elems view t = []
     | Some e \<Rightarrow> kv e \<in> set (hs_elems view t) \<and> (\<forall>x \<in> set (hs_elems view t). \<not> float64_less (he_Score e) (snd x))"
    by blast
  obtain s' where "on_heap assetId (Heap_GetTop maxH) s = (Inr eo, s')" "lc_store assetId s' = Some t'"
    using on_heap_run[where m = "Heap_GetTop maxH", OF assms(1) t'(1)] by blast
  with t' show ?thesis by blast
qed

end

section \<open>The collection follows its specification\<close>

text \<open>What a status asks of the scores of an asset.\<close>

fun liquidity_step ::
  "UpdateLiquidityStatus \<Rightarrow> bytes \<Rightarrow> uint64 \<Rightarrow> (bytes \<Rightarrow> uint64 option) \<Rightarrow> unit result \<times> (bytes \<Rightarrow> uint64 option)" where
  "liquidity_step UPDATE_LIQUIDITY_INSERTED key score m = (Inr (), m(key \<mapsto> score))"
| "liquidity_step UPDATE_LIQUIDITY_OVERWRITTEN key score m =
     (if m key = None then (Inl (Error ''Key is not found''), m) else (Inr (), m(key \<mapsto> score)))"
| "liquidity_step UPDATE_LIQUIDITY_DELETED key score m =
     (if m key = None then (Inl (Error ''Key is not found''), m) else (Inr (), m(key := None)))"
| "liquidity_step UPDATE_LIQUIDITY_NOTHING key score m = (Inl (Error ''Invalid status''), m)"

lemma liquidity_score_not_NaN: "\<not> float64_isNaN (liquidity_score rate z)"
  by (simp add: liquidity_score_def float64_div_not_NaN)

context heap_store
begin

lemma UpdateLiquidity_ok:
  assumes "lc_inv X view assetId n s" "Suc n < 2 ^ 63" "length assetId = ASSET_LENGTH" "length publicKey \<le> 255"
    and "status = UPDATE_LIQUIDITY_INSERTED \<Longrightarrow> lc_scores view assetId s publicKey = None"
  shows "\<exists>s'. Collection_UpdateLiquidity X publicKey rate z assetId status s =
      (fst (liquidity_step status publicKey (liquidity_score rate z) (lc_scores view assetId s)), s') \<and>
    lc_inv X view assetId (Suc n) s' \<and>
    lc_scores view assetId s' = snd (liquidity_step status publicKey (liquidity_score rate z) (lc_scores view assetId s))"
proof -
  let ?k = publicKey and ?v = "liquidity_score rate z"
  obtain t where t: "lc_store assetId s = Some t" "hs_valid X view t" "length (hs_elems view t) \<le> n"
    using assms(1) by (auto simp: lc_inv_def)
  have m: "lc_scores view assetId s = map_of (hs_elems view t)" using t(1) by (simp add: lc_scores_def)
  have l: "Suc (length (hs_elems view t)) < 2 ^ 63" using t(3) assms(2) by simp
  note opened = GetMaxHeap_open[OF t(1) assms(3)]
  show ?thesis
  proof (cases status)
    case UPDATE_LIQUIDITY_NOTHING
    then show ?thesis using opened t by (auto simp: Collection_UpdateLiquidity_def gbind_Inr lc_inv_def)
  next
    case UPDATE_LIQUIDITY_OVERWRITTEN
    show ?thesis
    proof (cases "map_of (hs_elems view t) ?k = None")
      case True
      then obtain s' t' where "on_heap assetId (HeapStore_DeleteByKey X maxH ?k) s = (Inl (Error ''Key is not found''), s')"
        "lc_store assetId s' = Some t'" "hs_valid X view t'" "hs_elems view t' = hs_elems view t"
        using heap_delete_missing_run[OF t(1,2)] by blast
      then show ?thesis using UPDATE_LIQUIDITY_OVERWRITTEN opened t(3) True m
        by (auto simp: Collection_UpdateLiquidity_def gbind_Inr gbind_Inl lc_inv_def lc_scores_def)
    next
      case False
      then obtain s1 t1 where 1: "on_heap assetId (HeapStore_DeleteByKey X maxH ?k) s = (Inr (), s1)"
        "lc_store assetId s1 = Some t1" "hs_valid X view t1"
        "map_of (hs_elems view t1) = (map_of (hs_elems view t))(?k := None)"
        "Suc (length (hs_elems view t1)) = length (hs_elems view t)"
        using heap_delete_run[OF t(1,2)] by blast
      have l1: "Suc (length (hs_elems view t1)) < 2 ^ 63" "map_of (hs_elems view t1) ?k = None" using 1(4,5) l by simp_all
      obtain s' t' where 2: "on_heap assetId (Heap_Insert maxH ?v ?k) s1 = (Inr (), s')" "lc_store assetId s' = Some t'"
        "hs_valid X view t'" "map_of (hs_elems view t') = (map_of (hs_elems view t1))(?k \<mapsto> ?v)"
        "length (hs_elems view t') = Suc (length (hs_elems view t1))"
        using heap_insert_run[OF 1(2,3) assms(4) liquidity_score_not_NaN l1(2,1)] by blast
      then show ?thesis using UPDATE_LIQUIDITY_OVERWRITTEN opened t(3) False m 1
        by (auto simp: Collection_UpdateLiquidity_def gbind_Inr lc_inv_def lc_scores_def)
    qed
  next
    case UPDATE_LIQUIDITY_INSERTED
    then have k: "map_of (hs_elems view t) ?k = None" using assms(5) m by simp
    obtain s' t' where "on_heap assetId (Heap_Insert maxH ?v ?k) s = (Inr (), s')" "lc_store assetId s' = Some t'"
      "hs_valid X view t'" "map_of (hs_elems view t') = (map_of (hs_elems view t))(?k \<mapsto> ?v)"
      "length (hs_elems view t') = Suc (length (hs_elems view t))"
      using heap_insert_run[OF t(1,2) assms(4) liquidity_score_not_NaN k l] by blast
    then show ?thesis using UPDATE_LIQUIDITY_INSERTED opened t(3) m
      by (auto simp: Collection_UpdateLiquidity_def gbind_Inr lc_inv_def lc_scores_def)
  next
    case UPDATE_LIQUIDITY_DELETED
    show ?thesis
    proof (cases "map_of (hs_elems view t) ?k = None")
      case True
      then obtain s' t' where "on_heap assetId (HeapStore_DeleteByKey X maxH ?k) s = (Inl (Error ''Key is not found''), s')"
        "lc_store assetId s' = Some t'" "hs_valid X view t'" "hs_elems view t' = hs_elems view t"
        using heap_delete_missing_run[OF t(1,2)] by blast
      then show ?thesis using UPDATE_LIQUIDITY_DELETED opened t(3) True m
        by (auto simp: Collection_UpdateLiquidity_def gbind_Inr gbind_Inl lc_inv_def lc_scores_def)
    next
      case False
      then obtain s' t' where "on_heap assetId (HeapStore_DeleteByKey X maxH ?k) s = (Inr (), s')"
        "lc_store assetId s' = Some t'" "hs_valid X view t'"
        "map_of (hs_elems view t') = (map_of (hs_elems view t))(?k := None)"
        "Suc (length (hs_elems view t')) = length (hs_elems view t)"
        using heap_delete_run[OF t(1,2)] by blast
      then show ?thesis using UPDATE_LIQUIDITY_DELETED opened t(3) False m
        by (auto simp: Collection_UpdateLiquidity_def gbind_Inr lc_inv_def lc_scores_def)
    qed
  qed
qed

lemma GetTopLiquidity_ok:
  assumes "lc_inv X view assetId n s" "length assetId = ASSET_LENGTH"
  shows "\<exists>ko s'. GetTopLiquidity X assetId s = (Inr ko, s') \<and> lc_inv X view assetId n s' \<and>
    lc_scores view assetId s' = lc_scores view assetId s \<and>
    (case ko of None \<Rightarrow> lc_scores view assetId s = (\<lambda>_. None)
     | Some k \<Rightarrow> \<exists>v. lc_scores view assetId s k = Some v \<and>
         (\<forall>k' v'. lc_scores view assetId s k' = Some v' \<longrightarrow> \<not> float64_less v v'))"
proof -
  obtain t where t: "lc_store assetId s = Some t" "hs_valid X view t" "length (hs_elems view t) \<le> n"
    using assms(1) by (auto simp: lc_inv_def)
  have m: "lc_scores view assetId s = map_of (hs_elems view t)" using t(1) by (simp add: lc_scores_def)
  obtain s' t' eo where u: "on_heap assetId (Heap_GetTop maxH) s = (Inr eo, s')" "lc_store assetId s' = Some t'"
    "hs_valid X view t'" "hs_elems view t' = hs_elems view t"
    "case eo of None \<Rightarrow> hs_elems view t = []
     | Some e \<Rightarrow> kv e \<in> set (hs_elems view t) \<and> (\<forall>x \<in> set (hs_elems view t). \<not> float64_less (he_Score e) (snd x))"
    using heap_top_run[OF t(1,2)] by blast
  have run: "GetTopLiquidity X assetId s = (Inr (map_option he_Key eo), s')"
    using u(1) GetMaxHeap_open[OF t(1) assms(2)] by (cases eo) (simp_all add: GetTopLiquidity_def gbind_Inr)
  have d: "distinct (map fst (hs_elems view t))"
    using maxh.heap_inv_distinct t(2) by (auto simp: hs_valid_iff)
  have "case map_option he_Key eo of None \<Rightarrow> lc_scores view assetId s = (\<lambda>_. None)
     | Some k \<Rightarrow> \<exists>v. lc_scores view assetId s k = Some v \<and>
         (\<forall>k' v'. lc_scores view assetId s k' = Some v' \<longrightarrow> \<not> float64_less v v')"
  proof (cases eo)
    case None
    then show ?thesis using u(5) by (simp add: m)
  next
    case (Some e)
    then have "map_of (hs_elems view t) (he_Key e) = Some (he_Score e)"
      using u(5) map_of_is_SomeI[OF d] by (simp add: kv_def)
    moreover have "\<not> float64_less (he_Score e) v'" if "map_of (hs_elems view t) k' = Some v'" for k' v'
      using map_of_SomeD[OF that] u(5) Some by auto
    ultimately show ?thesis using Some by (simp add: m)
  qed
  then show ?thesis using run u(2-4) t(3) m by (auto simp: lc_inv_def lc_scores_def)
qed

lemma NewHeapStore_empty:
  assumes "tx_IsWritable X x" "\<And>k. view x k = None" "4 < length n"
  shows "\<exists>h d x'. NewHeapStoreHashMap X n x = (Inr (h, d), x') \<and> hs_valid X view \<lparr>hs_HashMap = h, hs_DictMap = d, hs_Tx = x'\<rparr> \<and>
    hs_elems view \<lparr>hs_HashMap = h, hs_DictMap = d, hs_Tx = x'\<rparr> = []"
proof -
  have q: "(None :: (bytes \<Rightarrow> ('x, unit) go) option) = Some ev \<Longrightarrow> quiet_event X view n' (ev k)" for ev k n' by simp
  obtain h x1 where 1: "CreateNewHashMap X n 0 False HeapElement_create None None x = (Inr h, x1)" "em.invar (h, x1)"
    "em.contents (h, x1) = (\<lambda>_. None)" "view x1 = view x" "hm_keyLength h = 0"
    using em.CreateNewHashMap_empty[OF assms, of None None 0 False] by auto
  have w1: "tx_IsWritable X x1" using em.coreD(1)[OF em.invD[OF 1(2)]] by simp
  obtain d x2 where 2: "CreateNewHashMap X (n @ lit ''_dict'') 0 False HeapDictElement_create None None x1 = (Inr d, x2)"
    "dm.invar (d, x2)" "dm.contents (d, x2) = (\<lambda>_. None)" "view x2 = view x1" "hm_keyLength d = 0"
    using dm.CreateNewHashMap_empty[OF w1, of "n @ lit ''_dict''" None None 0 False] assms(2,3) 1(4) by auto
  have w2: "tx_IsWritable X x2 = tx_IsWritable X x1" using dm.coreD(1)[OF dm.invD[OF 2(2)]] w1 by simp
  let ?s = "\<lparr>hs_HashMap = h, hs_DictMap = d, hs_Tx = x2\<rparr>"
  note e = em.core_view[OF em.invD[OF 1(2)] 2(4) w2]
  have c: "hs_core X view ?s" using e(1) dm.invD[OF 2(2)] 1(5) 2(5) by (simp add: hs_core_def)
  have "hs_contents view ?s = (\<lambda>_. None)" "hs_positions view ?s = (\<lambda>_. None)"
    using e(2) 1(3) 2(3) by (simp_all add: hs_contents_def hs_positions_def)
  then have "hs_inv X view ?s" "hs_elems view ?s = []" "hs_dict view ?s = (\<lambda>_. None)"
    using hs_inv_dom[OF c, of 0] by (auto simp: hs_array_def hs_dict_def)
  then show ?thesis using 1(1) 2(1) by (auto simp: NewHeapStoreHashMap_def gbind_Inr hs_valid_def)
qed

end

text \<open>C4: an update of the liquidity offers of an asset changes the scores of exactly that account, as
  its status says; an overwrite or a deletion of an account without an offer is refused and
  changes nothing.  The heap stays valid: its order, its dictionary of positions, no NaN.  An
  insertion requires that the account has no offer, which is what the status means.\<close>

theorem UpdateLiquidity_follows_spec:
  assumes "lc_inv mem_ops mem_view assetId n s" "Suc n < 2 ^ 63" "length assetId = ASSET_LENGTH" "length publicKey = PublicKeySize"
    and "status = UPDATE_LIQUIDITY_INSERTED \<Longrightarrow> lc_scores mem_view assetId s publicKey = None"
  shows "\<exists>s'. Collection_UpdateLiquidity mem_ops publicKey rate z assetId status s =
      (fst (liquidity_step status publicKey (liquidity_score rate z) (lc_scores mem_view assetId s)), s') \<and>
    lc_inv mem_ops mem_view assetId (Suc n) s' \<and>
    lc_scores mem_view assetId s' = snd (liquidity_step status publicKey (liquidity_score rate z) (lc_scores mem_view assetId s))"
  using mem_heap.UpdateLiquidity_ok[OF assms(1-3) _ assms(5)] assms(4) by (simp add: PublicKeySize_def)

text \<open>C5: the account returned as the best liquidity offer of an asset has the highest score of all, and
  none is returned only when there is no offer; the query changes nothing.\<close>

theorem GetTopLiquidity_highest:
  assumes "lc_inv mem_ops mem_view assetId n s" "length assetId = ASSET_LENGTH"
  shows "\<exists>ko s'. GetTopLiquidity mem_ops assetId s = (Inr ko, s') \<and> lc_inv mem_ops mem_view assetId n s' \<and>
    lc_scores mem_view assetId s' = lc_scores mem_view assetId s \<and>
    (case ko of None \<Rightarrow> lc_scores mem_view assetId s = (\<lambda>_. None)
     | Some k \<Rightarrow> \<exists>v. lc_scores mem_view assetId s k = Some v \<and>
         (\<forall>k' v'. lc_scores mem_view assetId s k' = Some v' \<longrightarrow> \<not> float64_less v v'))"
  by (rule mem_heap.GetTopLiquidity_ok[OF assms])

text \<open>A collection in which the heap of an asset has just been opened.\<close>

lemma GetMaxHeap_new:
  assumes "length assetId = ASSET_LENGTH"
  shows "\<exists>s. GetMaxHeap mem_ops assetId (NewAssetsFeeLiquidityCollection mem_empty) = (Inr (), s) \<and>
    lc_inv mem_ops mem_view assetId 0 s \<and> lc_scores mem_view assetId s = (\<lambda>_. None)"
proof -
  have "4 < length assetId" using assms by (simp add: ASSET_LENGTH_def)
  then obtain h d x where "NewHeapStoreHashMap mem_ops assetId mem_empty = (Inr (h, d), x)"
    "hs_valid mem_ops mem_view \<lparr>hs_HashMap = h, hs_DictMap = d, hs_Tx = x\<rparr>"
    "hs_elems mem_view \<lparr>hs_HashMap = h, hs_DictMap = d, hs_Tx = x\<rparr> = []"
    using mem_heap.NewHeapStore_empty[of mem_empty assetId] by (auto simp: mem_empty_view)
  then show ?thesis using assms
    by (auto simp: GetMaxHeap_def NewAssetsFeeLiquidityCollection_def lc_inv_def lc_scores_def lc_store_def)
qed

theorem UpdateLiquidity_follows_spec_witness:
  "\<exists>s s'. lc_inv mem_ops mem_view (replicate 20 1) 0 s \<and>
     Collection_UpdateLiquidity mem_ops (replicate 33 7) 5 2 (replicate 20 1) UPDATE_LIQUIDITY_INSERTED s = (Inr (), s') \<and>
     lc_inv mem_ops mem_view (replicate 20 1) 1 s' \<and>
     lc_scores mem_view (replicate 20 1) s' = [replicate 33 7 \<mapsto> liquidity_score 5 2]"
proof -
  have l: "length (replicate 20 1 :: bytes) = ASSET_LENGTH" "length (replicate 33 7 :: bytes) = PublicKeySize"
    by (simp_all add: ASSET_LENGTH_def PublicKeySize_def)
  obtain s where s: "lc_inv mem_ops mem_view (replicate 20 1) 0 s" "lc_scores mem_view (replicate 20 1) s = (\<lambda>_. None)"
    using GetMaxHeap_new[OF l(1)] by blast
  show ?thesis
    using UpdateLiquidity_follows_spec[OF s(1) _ l, of UPDATE_LIQUIDITY_INSERTED 5 2] s by auto
qed

theorem GetTopLiquidity_highest_witness:
  "\<exists>s s' n. lc_inv mem_ops mem_view (replicate 20 1) n s \<and> lc_scores mem_view (replicate 20 1) s = [replicate 33 7 \<mapsto> liquidity_score 5 2] \<and>
     GetTopLiquidity mem_ops (replicate 20 1) s = (Inr (Some (replicate 33 7)), s')"
proof -
  have l: "length (replicate 20 1 :: bytes) = ASSET_LENGTH" "length (replicate 33 7 :: bytes) = 33" by (simp_all add: ASSET_LENGTH_def)
  obtain s0 where s0: "lc_inv mem_ops mem_view (replicate 20 1) 0 s0" "lc_scores mem_view (replicate 20 1) s0 = (\<lambda>_. None)"
    using GetMaxHeap_new[OF l(1)] by blast
  obtain s where s: "lc_inv mem_ops mem_view (replicate 20 1) (Suc 0) s"
    "lc_scores mem_view (replicate 20 1) s = [replicate 33 7 \<mapsto> liquidity_score 5 2]"
    using mem_heap.UpdateLiquidity_ok[OF s0(1) _ l(1), of "replicate 33 7" UPDATE_LIQUIDITY_INSERTED 5 2] s0(2) by auto
  show ?thesis
    using GetTopLiquidity_highest[OF s(1) l(1)] s by (auto split: option.splits if_splits simp: fun_eq_iff)
qed

end
