(* ===== verification/Big_Numbers.thy ===== *)
theory Big_Numbers
  imports Complex_Main Float64
begin

text \<open>
  The parts of \<^verbatim>\<open>math/big\<close> the consensus rules use.  A \<^verbatim>\<open>big.Int\<close> is an integer.  A finite \<^verbatim>\<open>big.Float\<close> is a fraction with the precision it
  carries: an operation takes the larger precision of its operands and rounds once, to nearest
  with ties to even.
\<close>

section \<open>Floating point\<close>

text \<open>The integer nearest to \<open>p * 2 ^ s / q\<close>, ties to even, for \<open>p \<ge> 0\<close> and \<open>q > 0\<close>.\<close>

definition round_ratio :: "int \<Rightarrow> int \<Rightarrow> int \<Rightarrow> int" where
  "round_ratio s p q =
     (let a = (if s \<ge> 0 then p * 2 ^ nat s else p);
          b = (if s \<ge> 0 then q else q * 2 ^ nat (- s));
          m = a div b; r = a mod b
      in if 2 * r > b \<or> (2 * r = b \<and> odd m) then m + 1 else m)"

record BigFloat =
  bf_prec :: int
  bf_num :: int
  bf_den :: int

definition bf_round :: "int \<Rightarrow> int \<Rightarrow> int \<Rightarrow> BigFloat" where
  "bf_round prec p q =
     (if p = 0 then \<lparr>bf_prec = prec, bf_num = 0, bf_den = 1\<rparr>
      else
        (let s = prec - 1 - ratio_log \<bar>p\<bar> q; m = sgn p * round_ratio s \<bar>p\<bar> q
         in if s \<ge> 0 then \<lparr>bf_prec = prec, bf_num = m, bf_den = 2 ^ nat s\<rparr>
            else \<lparr>bf_prec = prec, bf_num = m * 2 ^ nat (- s), bf_den = 1\<rparr>))"

definition bf_SetUint64 :: "uint64 \<Rightarrow> BigFloat" where
  "bf_SetUint64 x = \<lparr>bf_prec = 64, bf_num = uint x, bf_den = 1\<rparr>"

definition bf_SetInt :: "int \<Rightarrow> BigFloat" where
  "bf_SetInt x = \<lparr>bf_prec = max (int_bits \<bar>x\<bar>) 64, bf_num = x, bf_den = 1\<rparr>"

text \<open>\<^verbatim>\<open>Quo\<close>; \<open>None\<close> is an infinity, the quotient of a non-zero number by zero.\<close>

definition bf_Quo :: "BigFloat \<Rightarrow> BigFloat \<Rightarrow> BigFloat option result" where
  "bf_Quo x y =
     (if bf_num y = 0 then
        (if bf_num x = 0 then Inl (Panic ''division of zero by zero or infinity by infinity'') else Inr None)
      else Inr (Some (bf_round (max (bf_prec x) (bf_prec y))
        (bf_num x * bf_den y * sgn (bf_num y)) (bf_den x * \<bar>bf_num y\<bar>))))"

definition bf_Mul :: "BigFloat \<Rightarrow> BigFloat \<Rightarrow> BigFloat" where
  "bf_Mul x y = bf_round (max (bf_prec x) (bf_prec y)) (bf_num x * bf_num y) (bf_den x * bf_den y)"

text \<open>\<open>x < y\<close>.\<close>

definition bf_less :: "BigFloat \<Rightarrow> BigFloat \<Rightarrow> bool" where
  "bf_less x y \<longleftrightarrow> bf_num x * bf_den y < bf_num y * bf_den x"

text \<open>A finite number over an infinity is zero.\<close>

definition bf_Quo_ext :: "BigFloat \<Rightarrow> BigFloat option \<Rightarrow> BigFloat option result" where
  "bf_Quo_ext x y = (case y of None \<Rightarrow> Inr (Some (x\<lparr>bf_num := 0, bf_den := 1\<rparr>)) | Some y \<Rightarrow> bf_Quo x y)"

text \<open>The decimal text \<^verbatim>\<open>fmt.Sprintf\<close> gives for \<^verbatim>\<open>%.0f\<close>: rounded to nearest, ties to even, and \<^verbatim>\<open>+Inf\<close> for the infinity.\<close>

definition bf_Sprintf :: "BigFloat option \<Rightarrow> bytes" where
  "bf_Sprintf x =
     (case x of
        None \<Rightarrow> lit ''+Inf''
      | Some x \<Rightarrow> (if bf_num x < 0 then lit ''-'' else []) @ format_dec (nat (round_ratio 0 \<bar>bf_num x\<bar> (bf_den x))))"

text \<open>\<^verbatim>\<open>big.Int.SetString\<close> in base ten: an optional sign and at least one digit, nothing else.\<close>

definition big_SetString :: "bytes \<Rightarrow> int option" where
  "big_SetString s =
     (let neg = (s \<noteq> [] \<and> hd s = 45);
          digits = (if s \<noteq> [] \<and> (hd s = 45 \<or> hd s = 43) then tl s else s)
      in if digits = [] \<or> \<not> list_all is_digit digits then None
         else Some (if neg then - int (parse_dec digits) else int (parse_dec digits)))"

text \<open>The integer that is read back from the text.\<close>

definition bf_to_int :: "BigFloat \<Rightarrow> int" where
  "bf_to_int x = sgn (bf_num x) * round_ratio 0 \<bar>bf_num x\<bar> (bf_den x)"

lemma big_SetString_Sprintf:
  assumes "0 < bf_den x"
  shows "big_SetString (bf_Sprintf (Some x)) = Some (bf_to_int x)"
proof -
  let ?n = "round_ratio 0 \<bar>bf_num x\<bar> (bf_den x)"
  have n: "0 \<le> ?n" using assms by (simp add: round_ratio_def Let_def pos_imp_zdiv_nonneg_iff)
  have z: "bf_num x = 0 \<Longrightarrow> ?n = 0" using assms by (simp add: round_ratio_def Let_def)
  have "is_digit (hd (format_dec (nat ?n)))"
    using format_dec_digits[of "nat ?n"] format_dec_nonempty[of "nat ?n"] by (cases "format_dec (nat ?n)") auto
  then have "hd (format_dec (nat ?n)) \<noteq> 45" "hd (format_dec (nat ?n)) \<noteq> 43" by (auto simp: is_digit_def)
  moreover have "lit ''-'' = [45]" by (simp add: lit_def)
  ultimately show ?thesis
    using n z by (auto simp: big_SetString_def bf_Sprintf_def bf_to_int_def format_dec_digits parse_dec_format sgn_if Let_def)
qed

section \<open>Rounding\<close>

lemma int_bits_bounds: "0 < n \<Longrightarrow> 0 < int_bits n \<and> 2 ^ nat (int_bits n - 1) \<le> n \<and> n < 2 ^ nat (int_bits n)"
proof (induction n rule: int_bits.induct)
  case (1 n)
  show ?case
  proof (cases "n = 1")
    case True
    have "int_bits 1 = 1" by (subst int_bits.simps, subst int_bits.simps) simp
    then show ?thesis using True by simp
  next
    case False
    let ?m = "n div 2"
    have "0 < ?m" using 1(2) False by linarith
    then have IH: "0 < int_bits ?m" "2 ^ nat (int_bits ?m - 1) \<le> ?m" "?m < 2 ^ nat (int_bits ?m)"
      using 1 by auto
    have b: "int_bits n = 1 + int_bits ?m" using 1(2) by (subst int_bits.simps) simp
    have e: "nat (int_bits ?m) = Suc (nat (int_bits ?m - 1))" "nat (1 + int_bits ?m) = Suc (nat (int_bits ?m))"
      using IH(1) by auto
    have "2 * ?m \<le> n" "n < 2 * ?m + 2" by presburger+
    then have "2 ^ nat (int_bits ?m) \<le> n" "n < 2 * 2 ^ nat (int_bits ?m)" using IH(2,3) e(1) by auto
    then show ?thesis using b e(2) IH(1) by simp
  qed
qed

text \<open>\<open>ratio_log p q\<close> is the exponent of the leading bit of \<open>p / q\<close>.\<close>

lemma powi_nat_cases: "(2 :: real) powi e = (if 0 \<le> e then 2 ^ nat e else 1 / 2 ^ nat (- e))"
  by (simp add: power_int_def divide_simps)

lemma ratio_le: "0 < q \<Longrightarrow> (if 0 \<le> e then q * 2 ^ nat e \<le> p else q \<le> p * 2 ^ nat (- e)) \<longleftrightarrow> 2 powi e \<le> real_of_int p / real_of_int q"
proof (cases "0 \<le> e")
  case True
  assume q: "0 < q"
  have "q * 2 ^ nat e \<le> p \<longleftrightarrow> real_of_int (q * 2 ^ nat e) \<le> real_of_int p" by (simp only: of_int_le_iff)
  also have "\<dots> \<longleftrightarrow> 2 ^ nat e \<le> real_of_int p / real_of_int q"
    using q by (simp add: pos_le_divide_eq mult.commute)
  finally show ?thesis using True by (simp add: powi_nat_cases)
next
  case False
  assume q: "0 < q"
  have "q \<le> p * 2 ^ nat (- e) \<longleftrightarrow> real_of_int q \<le> real_of_int (p * 2 ^ nat (- e))" by (simp only: of_int_le_iff)
  also have "\<dots> \<longleftrightarrow> 1 / 2 ^ nat (- e) \<le> real_of_int p / real_of_int q"
    using q by (simp add: divide_simps mult.commute)
  finally show ?thesis using False by (simp add: powi_nat_cases)
qed

lemma int_bits_powi:
  assumes "0 < n"
  shows "2 powi (int_bits n - 1) \<le> real_of_int n" "real_of_int n < 2 powi int_bits n"
proof -
  have b: "0 < int_bits n" "2 ^ nat (int_bits n - 1) \<le> n" "n < 2 ^ nat (int_bits n)"
    using int_bits_bounds[OF assms] by auto
  have "real_of_int (2 ^ nat (int_bits n - 1)) \<le> real_of_int n" "real_of_int n < real_of_int (2 ^ nat (int_bits n))"
    using b(2,3) by (simp_all only: of_int_le_iff of_int_less_iff)
  then show "2 powi (int_bits n - 1) \<le> real_of_int n" "real_of_int n < 2 powi int_bits n"
    using b(1) by (simp_all add: powi_nat_cases)
qed

lemma ratio_log_bounds:
  assumes "0 < p" "0 < q"
  shows "2 powi (ratio_log p q) \<le> real_of_int p / real_of_int q"
    "real_of_int p / real_of_int q < 2 powi (ratio_log p q + 1)"
proof -
  let ?e = "int_bits p - int_bits q" and ?x = "real_of_int p / real_of_int q"
  have b: "2 powi (int_bits p - 1) \<le> real_of_int p" "real_of_int p < 2 powi int_bits p"
    "2 powi (int_bits q - 1) \<le> real_of_int q" "real_of_int q < 2 powi int_bits q"
    using int_bits_powi assms by auto
  have lo: "2 powi (?e - 1) \<le> ?x"
  proof -
    have "(2 :: real) powi (?e - 1) = 2 powi (int_bits p - 1) / 2 powi (int_bits q)" by (simp add: power_int_diff)
    also have "\<dots> \<le> ?x" using b assms by (intro frac_le) auto
    finally show ?thesis .
  qed
  have hi: "?x < 2 powi (?e + 1)"
  proof -
    have "?x < 2 powi int_bits p / 2 powi (int_bits q - 1)" using b assms by (intro frac_less) auto
    also have "\<dots> = 2 powi (?e + 1)" by (simp add: power_int_diff power_int_add)
    finally show ?thesis .
  qed
  show "2 powi (ratio_log p q) \<le> ?x" "?x < 2 powi (ratio_log p q + 1)"
    using lo hi ratio_le[OF assms(2), of ?e p] by (auto simp: ratio_log_def Let_def not_le)
qed

text \<open>\<open>round_ratio\<close> gives a nearest integer.\<close>

lemma round_div_near:
  fixes a b :: int
  assumes "0 < b"
  shows "\<bar>real_of_int (if 2 * (a mod b) > b \<or> (2 * (a mod b) = b \<and> odd (a div b)) then a div b + 1 else a div b) - a / b\<bar> \<le> 1 / 2"
proof -
  have m: "a = a div b * b + a mod b" "0 \<le> a mod b" "a mod b < b" using assms by auto
  have "real_of_int a = real_of_int (a div b) * real_of_int b + real_of_int (a mod b)"
    using m(1) by (metis of_int_add of_int_mult)
  then have x: "real_of_int a / real_of_int b = real_of_int (a div b) + real_of_int (a mod b) / real_of_int b"
    using assms by (simp add: field_simps)
  have r: "0 \<le> real_of_int (a mod b) / real_of_int b" "real_of_int (a mod b) / real_of_int b \<le> 1"
    using assms by (simp_all add: divide_simps less_imp_le)
  have "2 * (a mod b) \<ge> b \<longleftrightarrow> real_of_int (a mod b) / real_of_int b \<ge> 1 / 2"
    "2 * (a mod b) \<le> b \<longleftrightarrow> real_of_int (a mod b) / real_of_int b \<le> 1 / 2"
    using assms by (simp_all add: divide_simps) linarith+
  then show ?thesis using x r by auto
qed

lemma round_ratio_near:
  assumes "0 < q"
  shows "\<bar>real_of_int (round_ratio s p q) - real_of_int p / real_of_int q * 2 powi s\<bar> \<le> 1 / 2"
proof -
  let ?a = "if s \<ge> 0 then p * 2 ^ nat s else p" and ?b = "if s \<ge> 0 then q else q * 2 ^ nat (- s)"
  have b: "0 < ?b" using assms by simp
  have "real_of_int ?a / real_of_int ?b = real_of_int p / real_of_int q * 2 powi s"
    by (simp add: powi_nat_cases)
  then show ?thesis using round_div_near[OF b, of ?a] unfolding round_ratio_def Let_def by simp
qed

lemma round_ratio_le: "0 < q \<Longrightarrow> real_of_int p / real_of_int q * 2 powi s \<le> real_of_int n \<Longrightarrow> round_ratio s p q \<le> n"
  using round_ratio_near[of q s p] by linarith

lemma round_ratio_ge: "0 < q \<Longrightarrow> real_of_int n \<le> real_of_int p / real_of_int q * 2 powi s \<Longrightarrow> n \<le> round_ratio s p q"
  using round_ratio_near[of q s p] by linarith

definition bf_val :: "BigFloat \<Rightarrow> real" where
  "bf_val x = real_of_int (bf_num x) / real_of_int (bf_den x)"

definition representable :: "int \<Rightarrow> real \<Rightarrow> bool" where
  "representable prec y \<longleftrightarrow> (\<exists>m k. y = real_of_int m * 2 powi k \<and> real_of_int m \<le> 2 powi prec)"

lemma bf_round_den: "0 < bf_den (bf_round prec p q)" "bf_prec (bf_round prec p q) = prec"
  by (simp_all add: bf_round_def Let_def)

lemma bf_round_val:
  assumes "0 < p"
  shows "bf_val (bf_round prec p q) =
    real_of_int (round_ratio (prec - 1 - ratio_log p q) p q) * 2 powi (ratio_log p q + 1 - prec)"
  using assms by (auto simp: bf_round_def bf_val_def Let_def powi_nat_cases divide_simps)

lemma bf_round_props:
  assumes "0 < p" "0 < q" "1 \<le> prec"
  defines "x \<equiv> real_of_int p / real_of_int q" and "v \<equiv> bf_val (bf_round prec p q)"
  shows "representable prec v" "0 < v"
    "representable prec y \<Longrightarrow> x \<le> y \<Longrightarrow> v \<le> y" "representable prec y \<Longrightarrow> y \<le> x \<Longrightarrow> y \<le> v"
proof -
  define e s R where d: "e = ratio_log p q" "s = prec - 1 - e" "R = round_ratio s p q"
  have v: "v = real_of_int R * 2 powi (- s)" using bf_round_val[OF assms(1)] by (simp add: v_def d algebra_simps)
  have x: "2 powi e \<le> x" "x < 2 powi (e + 1)" using ratio_log_bounds[OF assms(1,2)] by (simp_all add: x_def d)
  have inv: "(2 :: real) powi s * 2 powi (- s) = 1" by (simp flip: power_int_add)
  have sc: "x * 2 powi s < 2 powi prec" "2 powi (prec - 1) \<le> x * 2 powi s"
  proof -
    have "x * 2 powi s < 2 powi (e + 1) * 2 powi s" using x(2) by simp
    also have "\<dots> = 2 powi prec" by (simp add: d flip: power_int_add)
    finally show "x * 2 powi s < 2 powi prec" .
    have "2 powi (prec - 1) = 2 powi e * (2 :: real) powi s" by (simp add: d flip: power_int_add)
    also have "\<dots> \<le> x * 2 powi s" using x(1) by simp
    finally show "2 powi (prec - 1) \<le> x * 2 powi s" .
  qed
  have ii: "(2 :: real) powi n = real_of_int (2 ^ nat n)" if "0 \<le> n" for n using that by (simp add: powi_nat_cases)
  have Rle: "real_of_int R \<le> 2 powi prec"
    using round_ratio_le[OF assms(2), of p s "2 ^ nat prec"] sc(1) assms(3) ii[of prec] by (simp add: d x_def)
  have Rge: "2 powi (prec - 1) \<le> real_of_int R"
    using round_ratio_ge[OF assms(2), of "2 ^ nat (prec - 1)" p s] sc(2) assms(3) ii[of "prec - 1"] by (simp add: d x_def)
  show "representable prec v" using v Rle by (auto simp: representable_def)
  have "0 < real_of_int R" using Rge by (rule less_le_trans[rotated]) simp
  then show "0 < v" using v by simp
  have grid: "(x \<le> y \<longrightarrow> v \<le> y) \<and> (y \<le> x \<longrightarrow> y \<le> v)" if y: "y = real_of_int m * 2 powi k" "- s \<le> k" for y m k
  proof -
    let ?Y = "m * 2 ^ nat (k + s)"
    have Y2: "y * 2 powi s = real_of_int ?Y" using y ii[of "k + s"] by (simp add: power_int_add)
    moreover from this have "real_of_int ?Y * 2 powi (- s) = y * (2 powi s * 2 powi (- s))" by simp
    ultimately have Y: "real_of_int ?Y * 2 powi (- s) = y" "y * 2 powi s = real_of_int ?Y" using inv by simp_all
    have "R \<le> ?Y" if "x \<le> y"
    proof -
      have "x * 2 powi s \<le> real_of_int ?Y" unfolding Y(2)[symmetric] using that by simp
      then show ?thesis unfolding d(3) x_def by (rule round_ratio_le[OF assms(2)])
    qed
    moreover have "?Y \<le> R" if "y \<le> x"
    proof -
      have "real_of_int ?Y \<le> x * 2 powi s" unfolding Y(2)[symmetric] using that by simp
      then show ?thesis unfolding d(3) x_def by (rule round_ratio_ge[OF assms(2)])
    qed
    ultimately show ?thesis unfolding v Y(1)[symmetric] by (simp del: of_int_mult of_int_power)
  qed
  have pe: "2 powi e = real_of_int (2 ^ nat (prec - 1)) * 2 powi (- s)"
  proof -
    have "real_of_int (2 ^ nat (prec - 1)) * 2 powi (- s) = 2 powi (prec - 1) * (2 :: real) powi (- s)"
      using ii[of "prec - 1"] assms(3) by simp
    also have "\<dots> = 2 powi e" by (simp add: d flip: power_int_add)
    finally show ?thesis ..
  qed
  have small: "y \<le> 2 powi e" if y: "y = real_of_int m * 2 powi k" "real_of_int m \<le> 2 powi prec" "k < - s" for y m k
  proof -
    have "y \<le> 2 powi prec * 2 powi k" using y by (simp add: mult_right_mono)
    also have "\<dots> = 2 powi (prec + k)" by (simp add: power_int_add)
    also have "\<dots> \<le> 2 powi e" using y(3) by (intro power_int_increasing) (simp_all add: d)
    finally show ?thesis .
  qed
  show "v \<le> y" if r: "representable prec y" and le: "x \<le> y"
  proof -
    obtain m k where y: "y = real_of_int m * 2 powi k" "real_of_int m \<le> 2 powi prec" using r by (auto simp: representable_def)
    show ?thesis
    proof (cases "- s \<le> k")
      case True
      then show ?thesis using grid y(1) le by blast
    next
      case False
      then have "y = 2 powi e" using small[OF y] x(1) le by simp
      then show ?thesis using grid[OF pe] le by simp
    qed
  qed
  show "y \<le> v" if r: "representable prec y" and ge: "y \<le> x"
  proof -
    obtain m k where y: "y = real_of_int m * 2 powi k" "real_of_int m \<le> 2 powi prec" using r by (auto simp: representable_def)
    show ?thesis
    proof (cases "- s \<le> k")
      case True
      then show ?thesis using grid y(1) ge by blast
    next
      case False
      then show ?thesis using small[OF y] grid[OF pe] x(1) by (auto intro: order_trans)
    qed
  qed
qed

lemma bf_round_zero: "bf_val (bf_round prec 0 q) = 0"
  by (simp add: bf_round_def bf_val_def)

lemma bf_less_val: "0 < bf_den x \<Longrightarrow> 0 < bf_den y \<Longrightarrow> bf_less x y \<longleftrightarrow> bf_val x < bf_val y"
proof -
  assume d: "0 < bf_den x" "0 < bf_den y"
  have "bf_less x y \<longleftrightarrow> real_of_int (bf_num x * bf_den y) < real_of_int (bf_num y * bf_den x)"
    unfolding bf_less_def by (simp only: of_int_less_iff)
  then show ?thesis using d by (simp add: bf_val_def divide_simps mult.commute)
qed

lemma representable_power: "representable prec y \<Longrightarrow> representable prec (y * 2 powi j)"
  unfolding representable_def by (metis mult.assoc power_int_add zero_neq_numeral)

lemma representable_powi: "0 \<le> prec \<Longrightarrow> representable prec (2 powi j)"
  unfolding representable_def by (intro exI[of _ 1] exI[of _ j]) (simp add: powi_nat_cases)

lemma bf_to_int_near: "0 \<le> bf_num x \<Longrightarrow> 0 < bf_den x \<Longrightarrow> \<bar>real_of_int (bf_to_int x) - bf_val x\<bar> \<le> 1 / 2"
  using round_ratio_near[of "bf_den x" 0 "bf_num x"]
  by (cases "bf_num x = 0") (simp_all add: bf_to_int_def bf_val_def)

lemma bf_val_pos: "0 < bf_den x \<Longrightarrow> 0 < bf_val x \<longleftrightarrow> 0 < bf_num x"
  by (simp add: bf_val_def zero_less_divide_iff)

end
