(* ===== verification/Merkle_Tree.thy ===== *)
theory Merkle_Tree
  imports Go_Prelude
begin

text \<open>
  The Merkle root of \<^verbatim>\<open>cryptography/merkle_tree\<close>, over any hash function (\<^verbatim>\<open>SHA3\<close> is a parameter).
  The code fills one array of all the levels, padded with nil up to a power of two; the theorems
  relate it to the usual recursive construction and show what the root binds.
\<close>

section \<open>The program\<close>

text \<open>\<^verbatim>\<open>uint(math.Log2(float64(number))) + 1\<close> is the number of bits; the floating-point logarithm is
  exact enough for lengths below \<open>2 ^ 47\<close>.  The test \<^verbatim>\<open>number & (number-1) == 0\<close> holds of the powers of
  two, and of 0.\<close>

fun bit_count :: "nat \<Rightarrow> nat" where
  "bit_count n = (if n = 0 then 0 else Suc (bit_count (n div 2)))"

declare bit_count.simps [simp del]

definition roundNextPowerOfTwo :: "nat \<Rightarrow> nat" where
  "roundNextPowerOfTwo number =
     (if number = 0 \<or> number = 2 ^ (bit_count number - 1) then number else 2 ^ bit_count number)"

type_synonym hasher = "bytes \<Rightarrow> bytes"

definition hashMerkleNode :: "hasher \<Rightarrow> bytes \<Rightarrow> bytes \<Rightarrow> bytes" where
  "hashMerkleNode SHA3 left right = SHA3 (left @ right)"

text \<open>The three cases of the switch.  A nil node is \<open>None\<close>.\<close>

definition merkle_node :: "hasher \<Rightarrow> bytes option \<Rightarrow> bytes option \<Rightarrow> bytes option" where
  "merkle_node SHA3 a b =
     (case a of
        None \<Rightarrow> None
      | Some x \<Rightarrow> (case b of None \<Rightarrow> Some (hashMerkleNode SHA3 x x) | Some y \<Rightarrow> Some (hashMerkleNode SHA3 x y)))"

text \<open>The loop: \<open>i\<close> takes the even numbers below \<^verbatim>\<open>arraySize-1\<close>, of which \<open>turns\<close> are left.\<close>

fun merkle_loop :: "hasher \<Rightarrow> nat \<Rightarrow> nat \<Rightarrow> nat \<Rightarrow> bytes option list \<Rightarrow> bytes option list" where
  "merkle_loop SHA3 0 i offset nodes = nodes"
| "merkle_loop SHA3 (Suc turns) i offset nodes =
     merkle_loop SHA3 turns (i + 2) (Suc offset)
       (nodes[offset := merkle_node SHA3 (nodes ! i) (nodes ! (i + 1))])"

definition buildMerkleTree :: "hasher \<Rightarrow> bytes list \<Rightarrow> bytes option list" where
  "buildMerkleTree SHA3 hashes =
     (if hashes = [] then []
      else
        (let p = roundNextPowerOfTwo (length hashes); arraySize = p * 2 - 1;
             nodes = map Some hashes @ replicate (arraySize - length hashes) None
         in merkle_loop SHA3 (p - 1) 0 p nodes))"

definition MerkleRoot :: "hasher \<Rightarrow> bytes list \<Rightarrow> bytes option result" where
  "MerkleRoot SHA3 hashes =
     (let merkles = buildMerkleTree SHA3 hashes in
      if merkles = [] then Inl (Panic ''index out of range'') else Inr (merkles ! (length merkles - 1)))"

section \<open>Reference: level by level\<close>

text \<open>One level from the level below it: neighbours are hashed together, an odd last one with itself.\<close>

fun merkle_level :: "hasher \<Rightarrow> bytes list \<Rightarrow> bytes list" where
  "merkle_level SHA3 (x # y # xs) = SHA3 (x @ y) # merkle_level SHA3 xs"
| "merkle_level SHA3 [x] = [SHA3 (x @ x)]"
| "merkle_level SHA3 [] = []"

lemma length_merkle_level [simp]: "length (merkle_level SHA3 xs) = (length xs + 1) div 2"
  by (induction SHA3 xs rule: merkle_level.induct) auto

function merkle_root :: "hasher \<Rightarrow> bytes list \<Rightarrow> bytes" where
  "merkle_root SHA3 xs = (case xs of [] \<Rightarrow> [] | [x] \<Rightarrow> x | _ \<Rightarrow> merkle_root SHA3 (merkle_level SHA3 xs))"
  by auto
termination by (relation "measure (\<lambda>(h, xs). length xs)") (auto split: list.splits)

declare merkle_root.simps [simp del]

lemma merkle_root_single: "merkle_root SHA3 [x] = x"
  by (subst merkle_root.simps) simp

lemma merkle_root_more: "2 \<le> length xs \<Longrightarrow> merkle_root SHA3 xs = merkle_root SHA3 (merkle_level SHA3 xs)"
  by (subst merkle_root.simps) (auto split: list.splits)

section \<open>Powers of two\<close>

lemma bit_count_bounds: "0 < n \<Longrightarrow> 2 ^ (bit_count n - 1) \<le> n \<and> n < 2 ^ bit_count n \<and> 0 < bit_count n"
proof (induction n rule: bit_count.induct)
  case (1 n)
  show ?case
  proof (cases "n = 1")
    case True
    then show ?thesis by (simp add: bit_count.simps)
  next
    case False
    let ?m = "n div 2"
    have m: "0 < ?m" using 1(2) False by auto
    have IH: "2 ^ (bit_count ?m - 1) \<le> ?m" "?m < 2 ^ bit_count ?m" "0 < bit_count ?m"
      using "1.IH" 1(2) m by auto
    have b: "bit_count n = Suc (bit_count ?m)" using 1(2) by (subst bit_count.simps) simp
    have "(2 :: nat) ^ bit_count ?m = 2 * 2 ^ (bit_count ?m - 1)" using IH(3) by (cases "bit_count ?m") auto
    moreover have "2 * ?m \<le> n" "n < 2 * ?m + 2" by presburger+
    ultimately have "2 ^ bit_count ?m \<le> n" "n < 2 * 2 ^ bit_count ?m" using IH by linarith+
    then show ?thesis using b by simp
  qed
qed

lemma roundNextPowerOfTwo_bounds:
  assumes "0 < n"
  shows "\<exists>d. roundNextPowerOfTwo n = 2 ^ d \<and> n \<le> 2 ^ d \<and> 2 ^ d < 2 * n"
proof -
  let ?b = "bit_count n"
  have b: "2 ^ (?b - 1) \<le> n" "n < 2 ^ ?b" "0 < ?b" using bit_count_bounds[OF assms] by auto
  have d: "(2::nat) ^ ?b = 2 * 2 ^ (?b - 1)" using b(3) by (cases ?b) auto
  show ?thesis
  proof (cases "n = 2 ^ (?b - 1)")
    case True
    then show ?thesis using assms by (intro exI[of _ "?b - 1"]) (simp add: roundNextPowerOfTwo_def)
  next
    case False
    then have "2 ^ (?b - 1) < n" using b(1) by simp
    then show ?thesis using False assms b d by (intro exI[of _ ?b]) (simp add: roundNextPowerOfTwo_def)
  qed
qed

section \<open>The array holds all the levels\<close>

fun node_level :: "hasher \<Rightarrow> bytes option list \<Rightarrow> bytes option list" where
  "node_level SHA3 (x # y # xs) = merkle_node SHA3 x y # node_level SHA3 xs"
| "node_level SHA3 xs = []"

text \<open>An array is closed when every node after the first \<open>p\<close> is that of its two children.\<close>

definition closed :: "hasher \<Rightarrow> nat \<Rightarrow> bytes option list \<Rightarrow> bool" where
  "closed SHA3 p n \<longleftrightarrow> length n = 2 * p - 1 \<and>
     (\<forall>j < p - 1. n ! (p + j) = merkle_node SHA3 (n ! (2 * j)) (n ! (2 * j + 1)))"

lemma merkle_loop_inv:
  assumes "k + turns = p - 1" "length n = 2 * p - 1"
    and "\<forall>j < k. n ! (p + j) = merkle_node SHA3 (n ! (2 * j)) (n ! (2 * j + 1))"
  shows "closed SHA3 p (merkle_loop SHA3 turns (2 * k) (p + k) n) \<and>
    take p (merkle_loop SHA3 turns (2 * k) (p + k) n) = take p n"
  using assms
proof (induction turns arbitrary: k n)
  case 0
  then show ?case by (simp add: closed_def)
next
  case (Suc turns)
  let ?n = "n[p + k := merkle_node SHA3 (n ! (2 * k)) (n ! (2 * k + 1))]"
  have "\<forall>j < Suc k. ?n ! (p + j) = merkle_node SHA3 (?n ! (2 * j)) (?n ! (2 * j + 1))"
  proof (intro allI impI)
    fix j assume j: "j < Suc k"
    have s: "2 * j < p + k" "2 * j + 1 < p + k" "p + k < length n" using j Suc.prems(1,2) by auto
    then show "?n ! (p + j) = merkle_node SHA3 (?n ! (2 * j)) (?n ! (2 * j + 1))"
      using j Suc.prems(3) by (cases "j = k") auto
  qed
  then have "closed SHA3 p (merkle_loop SHA3 turns (2 * Suc k) (p + Suc k) ?n) \<and>
    take p (merkle_loop SHA3 turns (2 * Suc k) (p + Suc k) ?n) = take p ?n"
    using Suc.prems by (intro Suc.IH) auto
  then show ?case by simp
qed

lemma node_level_nth:
  "even (length xs) \<Longrightarrow> length (node_level SHA3 xs) = length xs div 2 \<and>
   (\<forall>j < length xs div 2. node_level SHA3 xs ! j = merkle_node SHA3 (xs ! (2 * j)) (xs ! (2 * j + 1)))"
proof (induction SHA3 xs rule: node_level.induct)
  case (1 SHA3 x y xs)
  then show ?case by (auto simp: nth_Cons split: nat.splits)
qed auto

lemma closed_drop:
  assumes "closed SHA3 (2 * q) n" "0 < q"
  shows "closed SHA3 q (drop (2 * q) n)" "take q (drop (2 * q) n) = node_level SHA3 (take (2 * q) n)"
proof -
  have l: "length n = 4 * q - 1" and c: "n ! (2 * q + j) = merkle_node SHA3 (n ! (2 * j)) (n ! (2 * j + 1))"
    if "j < 2 * q - 1" for j using assms that by (auto simp: closed_def)
  have ln: "length n = 4 * q - 1" using assms by (simp add: closed_def)
  show "closed SHA3 q (drop (2 * q) n)"
    unfolding closed_def
  proof (intro conjI allI impI)
    show "length (drop (2 * q) n) = 2 * q - 1" using ln assms(2) by simp
    fix j assume j: "j < q - 1"
    have "n ! (2 * q + (q + j)) = merkle_node SHA3 (n ! (2 * (q + j))) (n ! (2 * (q + j) + 1))"
      by (rule c) (use j in simp)
    then show "drop (2 * q) n ! (q + j) = merkle_node SHA3 (drop (2 * q) n ! (2 * j)) (drop (2 * q) n ! (2 * j + 1))"
      using ln j by (simp add: algebra_simps)
  qed
  have e: "length (node_level SHA3 (take (2 * q) n)) = q"
    "\<And>j. j < q \<Longrightarrow> node_level SHA3 (take (2 * q) n) ! j = merkle_node SHA3 (n ! (2 * j)) (n ! (2 * j + 1))"
    using node_level_nth[of "take (2 * q) n" SHA3] ln assms(2) by auto
  show "take q (drop (2 * q) n) = node_level SHA3 (take (2 * q) n)"
    using e ln assms(2) c by (intro nth_equalityI) auto
qed

lemma node_level_None: "even m \<Longrightarrow> node_level SHA3 (replicate m None) = replicate (m div 2) None"
proof (induction m rule: less_induct)
  case (less m)
  show ?case
  proof (cases "m < 2")
    case True
    then have "m = 0" using less.prems by (auto simp: less_2_cases_iff)
    then show ?thesis by simp
  next
    case False
    then obtain k where m: "m = Suc (Suc k)" by (metis add_2_eq_Suc less_eqE not_less)
    then show ?thesis using less.IH[of k] less.prems by (simp add: merkle_node_def)
  qed
qed

lemma node_level_pad:
  "even (length xs + m) \<Longrightarrow>
   node_level SHA3 (map Some xs @ replicate m None) =
     map Some (merkle_level SHA3 xs) @ replicate ((length xs + m) div 2 - length (merkle_level SHA3 xs)) None"
proof (induction SHA3 xs rule: merkle_level.induct)
  case (1 SHA3 x y xs)
  then show ?case by (simp add: merkle_node_def hashMerkleNode_def)
next
  case (2 SHA3 x)
  then obtain k where m: "m = Suc k" "even k" by (cases m) auto
  then show ?case using node_level_None[of k] by (auto simp: merkle_node_def hashMerkleNode_def elim!: evenE)
next
  case (3 SHA3)
  then show ?case by (simp add: node_level_None)
qed

lemma closed_root:
  assumes "closed SHA3 (2 ^ d) n" "take (2 ^ d) n = map Some xs @ replicate (2 ^ d - length xs) None"
    and "xs \<noteq> []" "length xs \<le> 2 ^ d" "2 ^ d < 2 * length xs"
  shows "n ! (length n - 1) = Some (merkle_root SHA3 xs)"
  using assms
proof (induction d arbitrary: n xs)
  case 0
  then obtain x where "xs = [x]" by (cases xs) auto
  moreover from this 0 have "n = [Some x]" by (auto simp: closed_def length_Suc_conv)
  ultimately show ?case by (simp add: merkle_root_single)
next
  case (Suc d)
  let ?q = "(2 :: nat) ^ d" and ?m = "drop (2 ^ Suc d) n" and ?ys = "merkle_level SHA3 xs"
  have q: "0 < ?q" "(2 :: nat) ^ Suc d = 2 * ?q" by simp_all
  have ln: "length n = 4 * ?q - 1" using Suc.prems(1) by (simp add: closed_def)
  have c: "closed SHA3 ?q ?m" "take ?q ?m = node_level SHA3 (take (2 ^ Suc d) n)"
    using closed_drop[of SHA3 ?q n] Suc.prems(1) by simp_all
  have "length xs + (2 ^ Suc d - length xs) = 2 * ?q" using Suc.prems(4) by simp
  then have t: "take ?q ?m = map Some ?ys @ replicate (?q - length ?ys) None"
    using c(2) node_level_pad[of xs "2 ^ Suc d - length xs" SHA3] Suc.prems(2) by simp
  have two: "2 \<le> length xs" using Suc.prems(5) q(2) one_le_power[of "2 :: nat" d] by linarith
  then have root: "merkle_root SHA3 xs = merkle_root SHA3 ?ys"
    by (rule merkle_root_more)
  have "?m ! (length ?m - 1) = Some (merkle_root SHA3 ?ys)"
  proof (rule Suc.IH[OF c(1) t])
    have "0 < length ?ys" using two by simp
    then show "?ys \<noteq> []" by (metis length_greater_0_conv)
    show "length ?ys \<le> ?q" "?q < 2 * length ?ys" using Suc.prems(4,5) by simp_all
  qed
  moreover have "?m ! (length ?m - 1) = n ! (length n - 1)"
  proof -
    have "1 \<le> ?q" by simp
    then have "2 ^ Suc d \<le> length n" "2 ^ Suc d + (length ?m - 1) = length n - 1"
      using ln q(2) unfolding length_drop by linarith+
    then show ?thesis by (metis nth_drop)
  qed
  ultimately show ?case using root by simp
qed

lemma MerkleRoot_ref:
  assumes "hashes \<noteq> []"
  shows "MerkleRoot SHA3 hashes = Inr (Some (merkle_root SHA3 hashes))"
proof -
  obtain d where d: "roundNextPowerOfTwo (length hashes) = 2 ^ d" "length hashes \<le> 2 ^ d" "2 ^ d < 2 * length hashes"
    using roundNextPowerOfTwo_bounds[of "length hashes"] assms by auto
  let ?p = "(2 :: nat) ^ d"
  let ?n = "map Some hashes @ replicate (?p * 2 - 1 - length hashes) None"
  let ?m = "merkle_loop SHA3 (?p - 1) 0 ?p ?n"
  have p: "0 < ?p" by simp
  have ln: "length ?n = 2 * ?p - 1" using d(2) p by simp
  have c: "closed SHA3 ?p ?m" "take ?p ?m = take ?p ?n"
    using merkle_loop_inv[of 0 "?p - 1" ?p ?n SHA3] ln by simp_all
  have "min (?p - length hashes) (?p * 2 - 1 - length hashes) = ?p - length hashes" using p by simp
  then have "take ?p ?m = map Some hashes @ replicate (?p - length hashes) None" using c(2) d(2) by simp
  then have "?m ! (length ?m - 1) = Some (merkle_root SHA3 hashes)"
    using closed_root[OF c(1)] assms d(2,3) by blast
  moreover have "?m \<noteq> []"
  proof -
    have "length ?m = 2 * ?p - 1" "1 \<le> ?p" using c(1) by (simp_all add: closed_def)
    then have "0 < length ?m" by linarith
    then show ?thesis by (metis length_greater_0_conv)
  qed
  ultimately show ?thesis using assms d(1) by (simp add: MerkleRoot_def buildMerkleTree_def Let_def)
qed

section \<open>Properties\<close>

text \<open>C14: the array construction computes the recursive Merkle root: neighbours are hashed together
  level by level, an odd last node with itself, until one hash is left.  Without hashes it panics.\<close>

theorem MerkleRoot_equals_reference:
  "MerkleRoot SHA3 hashes =
     (if hashes = [] then Inl (Panic ''index out of range'') else Inr (Some (merkle_root SHA3 hashes)))"
  using MerkleRoot_ref[of hashes SHA3] by (simp add: MerkleRoot_def buildMerkleTree_def)

text \<open>What is hashed on the way from a list of hashes to its root.\<close>

fun level_inputs :: "bytes list \<Rightarrow> bytes list" where
  "level_inputs (x # y # xs) = (x @ y) # level_inputs xs"
| "level_inputs [x] = [x @ x]"
| "level_inputs [] = []"

function merkle_inputs :: "hasher \<Rightarrow> bytes list \<Rightarrow> bytes list" where
  "merkle_inputs SHA3 xs = (if length xs < 2 then [] else level_inputs xs @ merkle_inputs SHA3 (merkle_level SHA3 xs))"
  by auto
termination by (relation "measure (\<lambda>(h, xs). length xs)") auto

declare merkle_inputs.simps [simp del]

definition collision_between :: "hasher \<Rightarrow> bytes list \<Rightarrow> bytes list \<Rightarrow> bool" where
  "collision_between SHA3 as bs \<longleftrightarrow> (\<exists>a \<in> set as. \<exists>b \<in> set bs. a \<noteq> b \<and> SHA3 a = SHA3 b)"

lemma merkle_level_inj:
  assumes "length xs = length ys" "\<forall>x \<in> set xs \<union> set ys. length x = n" "merkle_level SHA3 xs = merkle_level SHA3 ys" "xs \<noteq> ys"
  shows "collision_between SHA3 (level_inputs xs) (level_inputs ys)"
  using assms
proof (induction SHA3 xs arbitrary: ys rule: merkle_level.induct)
  case (1 SHA3 x y xs)
  obtain x' y' ys' where ys: "ys = x' # y' # ys'" using 1(2) by (cases ys; cases "tl ys") auto
  show ?case
  proof (cases "x @ y = x' @ y'")
    case True
    then have "xs \<noteq> ys'" using 1(3,5) ys by auto
    then have "collision_between SHA3 (level_inputs xs) (level_inputs ys')" using 1 ys by auto
    then show ?thesis by (auto simp: ys collision_between_def)
  next
    case False
    then show ?thesis using 1(4) ys by (auto simp: collision_between_def)
  qed
next
  case (2 SHA3 x)
  then obtain y where ys: "ys = [y]" by (cases ys) auto
  then have "x @ x \<noteq> y @ y" using 2 by auto
  then show ?case using 2(3) ys by (auto simp: collision_between_def)
qed simp

lemma set_merkle_level: "z \<in> set (merkle_level SHA3 xs) \<Longrightarrow> \<exists>a. z = SHA3 a"
  by (induction SHA3 xs rule: merkle_level.induct) auto

lemma merkle_root_binding:
  assumes "\<forall>b. length (SHA3 b) = n" "length xs = length ys" "\<forall>x \<in> set xs \<union> set ys. length x = n"
    and "merkle_root SHA3 xs = merkle_root SHA3 ys" "xs \<noteq> ys"
  shows "collision_between SHA3 (merkle_inputs SHA3 xs) (merkle_inputs SHA3 ys)"
  using assms
proof (induction "length xs" arbitrary: xs ys rule: less_induct)
  case less
  show ?case
  proof (cases "length xs < 2")
    case True
    then obtain x y where "xs = [x]" "ys = [y]" using less.prems(2,5) by (cases xs; cases ys) auto
    then show ?thesis using less.prems(4,5) by (simp add: merkle_root_single)
  next
    case False
    have ins: "merkle_inputs SHA3 xs = level_inputs xs @ merkle_inputs SHA3 (merkle_level SHA3 xs)"
      "merkle_inputs SHA3 ys = level_inputs ys @ merkle_inputs SHA3 (merkle_level SHA3 ys)"
      using False less.prems(2) by (simp_all add: merkle_inputs.simps[of SHA3 xs] merkle_inputs.simps[of SHA3 ys])
    have "collision_between SHA3 (level_inputs xs) (level_inputs ys) \<or>
        collision_between SHA3 (merkle_inputs SHA3 (merkle_level SHA3 xs)) (merkle_inputs SHA3 (merkle_level SHA3 ys))"
    proof (cases "merkle_level SHA3 xs = merkle_level SHA3 ys")
      case True
      then show ?thesis using merkle_level_inj less.prems by blast
    next
      case neq: False
      have "merkle_root SHA3 (merkle_level SHA3 xs) = merkle_root SHA3 (merkle_level SHA3 ys)"
        using merkle_root_more[of xs SHA3] merkle_root_more[of ys SHA3] False less.prems(2,4) by simp
      moreover have "\<forall>x \<in> set (merkle_level SHA3 xs) \<union> set (merkle_level SHA3 ys). length x = n"
        using set_merkle_level less.prems(1) by fastforce
      ultimately show ?thesis
        using less.hyps[of "merkle_level SHA3 xs" "merkle_level SHA3 ys"] False less.prems(1,2) neq by simp
    qed
    then show ?thesis unfolding ins collision_between_def by auto
  qed
qed

text \<open>C15: the root binds the hashes.  Two different lists of hashes, of the same length, with the same
  root give a collision of the hash function among the inputs hashed for the two roots.\<close>

theorem MerkleRoot_binding:
  assumes "\<forall>b. length (SHA3 b) = n" "length xs = length ys" "\<forall>x \<in> set xs \<union> set ys. length x = n"
    and "MerkleRoot SHA3 xs = MerkleRoot SHA3 ys" "xs \<noteq> ys"
  shows "collision_between SHA3 (merkle_inputs SHA3 xs) (merkle_inputs SHA3 ys)"
proof (cases "xs = []")
  case True
  then show ?thesis using assms(2,5) by simp
next
  case False
  then have "ys \<noteq> []" using assms(2) by auto
  with False assms(4) have "merkle_root SHA3 xs = merkle_root SHA3 ys" by (simp add: MerkleRoot_ref)
  from merkle_root_binding[OF assms(1-3) this assms(5)] show ?thesis .
qed

theorem MerkleRoot_binding_witness:
  "MerkleRoot (\<lambda>b. take 1 b @ replicate (1 - length b) 0) [[1], [2]] = MerkleRoot (\<lambda>b. take 1 b @ replicate (1 - length b) 0) [[1], [3]] \<and>
   collision_between (\<lambda>b. take 1 b @ replicate (1 - length b) 0)
     (merkle_inputs (\<lambda>b. take 1 b @ replicate (1 - length b) 0) [[1], [2]]) (merkle_inputs (\<lambda>b. take 1 b @ replicate (1 - length b) 0) [[1], [3]])"
proof
  let ?h = "\<lambda>b :: bytes. take 1 b @ replicate (1 - length b) (0 :: byte)"
  show e: "MerkleRoot ?h [[1], [2]] = MerkleRoot ?h [[1], [3]]"
    by (simp add: MerkleRoot_ref merkle_root_more merkle_root_single)
  show "collision_between ?h (merkle_inputs ?h [[1], [2]]) (merkle_inputs ?h [[1], [3]])"
    by (rule MerkleRoot_binding[OF _ _ _ e, of 1]) (auto simp: min_def)
qed

lemma merkle_level_repeat: "odd (length xs) \<Longrightarrow> merkle_level SHA3 (xs @ [last xs]) = merkle_level SHA3 xs"
  by (induction SHA3 xs rule: merkle_level.induct) auto

text \<open>C16: the root does not bind the number of hashes.  Repeating the last of an odd number of hashes
  (more than one) leaves the root as it is, so a block with its last transaction twice has the
  Merkle hash of the block without the repetition.\<close>

theorem MerkleRoot_repeated_last:
  assumes "odd (length xs)" "1 < length xs"
  shows "MerkleRoot SHA3 (xs @ [last xs]) = MerkleRoot SHA3 xs"
proof -
  have "merkle_root SHA3 (xs @ [last xs]) = merkle_root SHA3 xs"
    using assms merkle_root_more[of xs SHA3] merkle_root_more[of "xs @ [last xs]" SHA3] merkle_level_repeat[OF assms(1), of SHA3] by simp
  moreover have "xs \<noteq> []" using assms(2) by auto
  ultimately show ?thesis by (simp add: MerkleRoot_ref)
qed

theorem MerkleRoot_repeated_last_witness:
  "MerkleRoot (\<lambda>b. b) [[1], [2], [3], [3]] = MerkleRoot (\<lambda>b. b) [[1], [2], [3]]"
  using MerkleRoot_repeated_last[of "[[1], [2], [3]]" "\<lambda>b. b"] by simp

end
