(* ===== verification/Blocks.thy ===== *)
theory Blocks
  imports Buffers Amounts Big_Numbers Merkle_Tree
begin

text \<open>
  The block of \<^verbatim>\<open>blockchain/blocks/block\<close>: header, serialisations, hashes and the cache of them
  (\<^verbatim>\<open>Bloom\<close>), the staked kernel hash of \<^verbatim>\<open>cryptography/crypto.go\<close>, the target rule of
  \<^verbatim>\<open>blocks/block/difficulty\<close>.  \<^verbatim>\<open>SHA3\<close> is a parameter.
\<close>

section \<open>Kernel hashes and targets\<close>

definition BIG_INT_MAX_256 :: int where "BIG_INT_MAX_256 = 2 ^ 256"
definition BIG_FLOAT_MAX_256 :: BigFloat where "BIG_FLOAT_MAX_256 = bf_SetInt BIG_INT_MAX_256"
definition BLOCK_TIME :: uint64 where "BLOCK_TIME = 90"
definition DIFFICULTY_BLOCK_WINDOW :: uint64 where "DIFFICULTY_BLOCK_WINDOW = 10"
definition BLOCK_MAX_SIZE :: uint64 where "BLOCK_MAX_SIZE = 1024 * 1024"

text \<open>\<^verbatim>\<open>out[HashSize-len(buf):]\<close> panics when the number needs more than 32 bytes.\<close>

definition ComputeKernelHash :: "bytes \<Rightarrow> uint64 \<Rightarrow> bytes result" where
  "ComputeKernelHash hash stakingAmount =
     (if stakingAmount = 0 then Inl (Error ''Staking Amount can not be zero'')
      else
        (let buf = int_Bytes (SetBytes hash div uint stakingAmount) in
         if length buf > HashSize then Inl (Panic ''slice bounds out of range'')
         else Inr (replicate (HashSize - length buf) 0 @ buf)))"

text \<open>\<^verbatim>\<open>big.Int.Div\<close> by zero panics.\<close>

definition big_Div :: "int \<Rightarrow> int \<Rightarrow> int result" where
  "big_Div a b = (if b = 0 then Inl (Panic ''division by zero'') else Inr (if b > 0 then a div b else - (a div (- b))))"

definition ConvertHashToDifficulty :: "bytes \<Rightarrow> int result" where
  "ConvertHashToDifficulty hash = big_Div BIG_INT_MAX_256 (SetBytes hash)"

definition ConvertTargetToDifficulty :: "int \<Rightarrow> int result" where
  "ConvertTargetToDifficulty target = big_Div BIG_INT_MAX_256 target"

definition ConvertDifficultyToBig :: "uint64 \<Rightarrow> int result" where
  "ConvertDifficultyToBig difficulty =
     (if difficulty = 0 then Inl (Panic ''difficulty can never be zero'')
      else big_Div BIG_INT_MAX_256 (uint difficulty))"

definition CheckKernelHashBig :: "bytes \<Rightarrow> int \<Rightarrow> bool" where
  "CheckKernelHashBig kernelHash difficulty \<longleftrightarrow> SetBytes kernelHash \<le> difficulty"

definition DIFFICULTY_MIN_CHANGE_FACTOR :: BigFloat where
  "DIFFICULTY_MIN_CHANGE_FACTOR = \<lparr>bf_prec = 53, bf_num = 1, bf_den = 2\<rparr>"

definition DIFFICULTY_MAX_CHANGE_FACTOR :: BigFloat where
  "DIFFICULTY_MAX_CHANGE_FACTOR = \<lparr>bf_prec = 53, bf_num = 2, bf_den = 1\<rparr>"

text \<open>The change of the target: the time the last blocks took over the time they should have taken, kept
  between one half and two.\<close>

definition target_change :: "uint64 \<Rightarrow> BigFloat" where
  "target_change deltaTime =
     (let change = bf_round 64 (uint deltaTime) (uint (BLOCK_TIME * DIFFICULTY_BLOCK_WINDOW));
          change1 = (if bf_less change DIFFICULTY_MIN_CHANGE_FACTOR then DIFFICULTY_MIN_CHANGE_FACTOR else change)
      in if bf_less DIFFICULTY_MAX_CHANGE_FACTOR change1 then DIFFICULTY_MAX_CHANGE_FACTOR else change1)"

definition clamp_target :: "int \<Rightarrow> int" where
  "clamp_target final =
     (let final1 = (if final < 0 then 1 else final) in if final1 > BIG_INT_MAX_256 then BIG_INT_MAX_256 else final1)"

text \<open>The target goes through its decimal text, where an infinite one fails.\<close>

definition NextTargetBig :: "int \<Rightarrow> uint64 \<Rightarrow> int result" where
  "NextTargetBig deltaTotalDifficulty deltaTime =
     (let change = target_change deltaTime in
      rbind (bf_Quo (bf_SetInt deltaTotalDifficulty) (bf_SetUint64 DIFFICULTY_BLOCK_WINDOW)) (\<lambda>averageDifficulty.
      rbind (bf_Quo_ext BIG_FLOAT_MAX_256 averageDifficulty) (\<lambda>averageTarget.
      (let newTarget = map_option (\<lambda>a. bf_Mul a change) averageTarget;
           str = bf_Sprintf newTarget
       in case big_SetString str of
            None \<Rightarrow> Inl (Error ''Error rounding new target'')
          | Some final \<Rightarrow> Inr (clamp_target final)))))"

section \<open>Blocks\<close>

record BlockHeader =
  bh_Version :: uint64
  bh_Height :: uint64

definition BlockHeader_Validate :: "BlockHeader \<Rightarrow> unit result" where
  "BlockHeader_Validate h = (if bh_Version h \<noteq> 0 then Inl (Error ''Invalid Block'') else Inr ())"

definition BlockHeader_Serialize :: "BlockHeader \<Rightarrow> BufferWriter \<Rightarrow> BufferWriter" where
  "BlockHeader_Serialize h = ser_seq [WriteUvarint (bh_Version h), WriteUvarint (bh_Height h)]"

definition BlockHeader_Deserialize :: "(BufferReader, BlockHeader) go" where
  "BlockHeader_Deserialize =
     gbind ReadUvarint (\<lambda>version.
     gbind ReadUvarint (\<lambda>height.
     gret \<lparr>bh_Version = version, bh_Height = height\<rparr>))"

record BlockBloom =
  bb_Serialized :: bytes
  bb_Hash :: bytes
  bb_KernelHash :: bytes
  bb_KernelHashStaked :: bytes
  bb_bloomedHash :: bool
  bb_bloomedKernelHash :: bool

definition new_BlockBloom :: BlockBloom where
  "new_BlockBloom = \<lparr>bb_Serialized = [], bb_Hash = [], bb_KernelHash = [], bb_KernelHashStaked = [],
     bb_bloomedHash = False, bb_bloomedKernelHash = False\<rparr>"

record Block =
  blk_BlockHeader :: BlockHeader
  blk_MerkleHash :: bytes
  blk_PrevHash :: bytes
  blk_PrevKernelHash :: bytes
  blk_Timestamp :: uint64
  blk_StakingAmount :: uint64
  blk_StakingNonce :: bytes
  blk_Bloom :: "BlockBloom option"

definition CreateEmptyBlock :: Block where
  "CreateEmptyBlock = \<lparr>blk_BlockHeader = \<lparr>bh_Version = 0, bh_Height = 0\<rparr>, blk_MerkleHash = [], blk_PrevHash = [],
     blk_PrevKernelHash = [], blk_Timestamp = 0, blk_StakingAmount = 0, blk_StakingNonce = [], blk_Bloom = None\<rparr>"

definition Block_Validate :: "Block \<Rightarrow> unit result" where
  "Block_Validate blk = BlockHeader_Validate (blk_BlockHeader blk)"

definition Block_AdvancedSerialization :: "Block \<Rightarrow> bool \<Rightarrow> bool \<Rightarrow> BufferWriter \<Rightarrow> BufferWriter" where
  "Block_AdvancedSerialization blk kernelHash inclSignature = ser_seq
     ([BlockHeader_Serialize (blk_BlockHeader blk)] @
      (if \<not> kernelHash then [Write (blk_MerkleHash blk), Write (blk_PrevHash blk)] else []) @
      [Write (blk_PrevKernelHash blk)] @
      (if \<not> kernelHash then [WriteUvarint (blk_StakingAmount blk)] else []) @
      [WriteUvarint (blk_Timestamp blk), Write (blk_StakingNonce blk)])"

definition Block_ComputeKernelHash :: "hasher \<Rightarrow> Block \<Rightarrow> bytes" where
  "Block_ComputeKernelHash SHA3 blk = SHA3 (SerializeToBytes (Block_AdvancedSerialization blk True False))"

definition Block_SerializeForSigning :: "hasher \<Rightarrow> Block \<Rightarrow> bytes" where
  "Block_SerializeForSigning SHA3 blk = SHA3 (SerializeToBytes (Block_AdvancedSerialization blk False False))"

definition Block_SerializeForForging :: "Block \<Rightarrow> BufferWriter \<Rightarrow> BufferWriter" where
  "Block_SerializeForForging blk = Block_AdvancedSerialization blk True False"

definition Block_SerializeManualToBytes :: "Block \<Rightarrow> bytes" where
  "Block_SerializeManualToBytes blk = SerializeToBytes (Block_AdvancedSerialization blk False True)"

definition nil_panic :: "go_error" where
  "nil_panic = Panic ''invalid memory address or nil pointer dereference''"

definition Block_Serialize :: "Block \<Rightarrow> BufferWriter \<Rightarrow> BufferWriter result" where
  "Block_Serialize blk w =
     (case blk_Bloom blk of None \<Rightarrow> Inl nil_panic | Some b \<Rightarrow> Inr (Write (bb_Serialized b) w))"

definition Block_computeHash :: "hasher \<Rightarrow> Block \<Rightarrow> bytes result" where
  "Block_computeHash SHA3 blk =
     (case blk_Bloom blk of
        None \<Rightarrow> Inl nil_panic
      | Some b \<Rightarrow> Inr (SHA3 (SerializeToBytes (Write (bb_Serialized b)))))"

definition BloomSerializedNow :: "hasher \<Rightarrow> bytes \<Rightarrow> Block \<Rightarrow> Block" where
  "BloomSerializedNow SHA3 serialized blk =
     blk\<lparr>blk_Bloom := Some (new_BlockBloom\<lparr>bb_Serialized := serialized, bb_Hash := SHA3 serialized, bb_bloomedHash := True\<rparr>)\<rparr>"

definition Block_Deserialize :: "hasher \<Rightarrow> Block \<Rightarrow> (BufferReader, Block) go" where
  "Block_Deserialize SHA3 blk =
     gbind (with_bytes (
       gbind BlockHeader_Deserialize (\<lambda>header.
       gbind ReadHash (\<lambda>merkle.
       gbind ReadHash (\<lambda>prev.
       gbind ReadHash (\<lambda>prevKernel.
       gbind ReadUvarint (\<lambda>staking.
       gbind ReadUvarint (\<lambda>timestamp.
       gbind (ReadBytes 32) (\<lambda>nonce.
       gret (blk\<lparr>blk_BlockHeader := header, blk_MerkleHash := merkle, blk_PrevHash := prev,
         blk_PrevKernelHash := prevKernel, blk_StakingAmount := staking, blk_Timestamp := timestamp,
         blk_StakingNonce := nonce\<rparr>))))))))))
     (\<lambda>(blk, serialized). gret (BloomSerializedNow SHA3 serialized blk))"

text \<open>The two stages of \<^verbatim>\<open>BloomNow\<close>, each done once.  A refused staking amount leaves nil in \<^verbatim>\<open>KernelHashStaked\<close>.\<close>

definition bloom_hash :: "hasher \<Rightarrow> Block \<Rightarrow> BlockBloom \<Rightarrow> BlockBloom" where
  "bloom_hash SHA3 blk b =
     (if bb_bloomedHash b then b
      else b\<lparr>bb_Serialized := Block_SerializeManualToBytes blk,
             bb_Hash := SHA3 (Block_SerializeManualToBytes blk), bb_bloomedHash := True\<rparr>)"

definition bloom_kernel :: "hasher \<Rightarrow> Block \<Rightarrow> (BlockBloom, unit) go" where
  "bloom_kernel SHA3 blk =
     gbind (gget bb_bloomedKernelHash) (\<lambda>done.
     if done then gret ()
     else
       gbind (gmod (\<lambda>b. b\<lparr>bb_KernelHash := Block_ComputeKernelHash SHA3 blk\<rparr>)) (\<lambda>_.
       gbind (gget bb_KernelHash) (\<lambda>kernel.
       (case ComputeKernelHash kernel (blk_StakingAmount blk) of
          Inr staked \<Rightarrow> gmod (\<lambda>b. b\<lparr>bb_KernelHashStaked := staked, bb_bloomedKernelHash := True\<rparr>)
        | Inl (Error m) \<Rightarrow> gbind (gmod (\<lambda>b. b\<lparr>bb_KernelHashStaked := []\<rparr>)) (\<lambda>_. gerr m)
        | Inl e \<Rightarrow> glift (Inl e)))))"

definition Block_BloomNow :: "hasher \<Rightarrow> (Block, unit) go" where
  "Block_BloomNow SHA3 = (\<lambda>blk.
     case Block_Validate blk of
       Inl e \<Rightarrow> (Inl e, blk)
     | Inr _ \<Rightarrow>
         (let b = bloom_hash SHA3 blk (case blk_Bloom blk of None \<Rightarrow> new_BlockBloom | Some b \<Rightarrow> b) in
          case bloom_kernel SHA3 blk b of (r, b') \<Rightarrow> (r, blk\<lparr>blk_Bloom := Some b'\<rparr>)))"

definition BlockBloom_verifyIfBloomed :: "BlockBloom \<Rightarrow> unit result" where
  "BlockBloom_verifyIfBloomed b =
     (if \<not> bb_bloomedHash b then Inl (Error ''Bloom was not validated'')
      else if \<not> bb_bloomedKernelHash b then Inl (Error ''Bloom KernelHash was not validated'')
      else Inr ())"

definition Block_Verify :: "Block \<Rightarrow> unit result" where
  "Block_Verify blk = (case blk_Bloom blk of None \<Rightarrow> Inl nil_panic | Some b \<Rightarrow> BlockBloom_verifyIfBloomed b)"

section \<open>Properties of the kernel hash and the target\<close>

lemma int_div_less:
  fixes m q n :: int
  assumes "0 < q"
  shows "m div q < n \<longleftrightarrow> m < n * q"
proof
  have m: "m = m div q * q + m mod q" "0 \<le> m mod q" "m mod q < q" using assms by auto
  show "m < n * q" if "m div q < n"
  proof -
    have "(m div q + 1) * q \<le> n * q" using that assms by (intro mult_right_mono) auto
    then have "m div q * q + q \<le> n * q" by (simp add: distrib_right)
    then show ?thesis using m(1,3) by linarith
  qed
  show "m div q < n" if "m < n * q"
  proof (rule ccontr)
    assume "\<not> m div q < n"
    then have "n * q \<le> m div q * q" using assms by (intro mult_right_mono) auto
    then show False using that m by linarith
  qed
qed

lemma ComputeKernelHash_value:
  assumes "length hash = HashSize" "stakingAmount \<noteq> 0"
  shows "\<exists>out. ComputeKernelHash hash stakingAmount = Inr out \<and> length out = HashSize \<and>
    SetBytes out = SetBytes hash div uint stakingAmount"
proof -
  let ?n = "SetBytes hash div uint stakingAmount"
  have p: "0 < uint stakingAmount" using assms(2) by (metis uint_0_iff uint_ge_0 order_le_less)
  have "?n \<le> SetBytes hash" using zdiv_mono2[of "SetBytes hash" 1 "uint stakingAmount"] p by simp
  also have "\<dots> < 256 ^ HashSize" using SetBytes_less[of hash] assms(1) by simp
  finally have l: "?n < 256 ^ HashSize" .
  have nn: "0 \<le> ?n" using p by (simp add: pos_imp_zdiv_nonneg_iff)
  have "length (int_Bytes ?n) \<le> HashSize" by (rule length_int_Bytes[OF nn l])
  with nn show ?thesis using assms(2) by (simp add: ComputeKernelHash_def Let_def SetBytes_zeros SetBytes_int_Bytes)
qed

text \<open>C18: the chance of a block grows linearly with the stake.  The staked kernel hash is the kernel hash
  divided by the staking amount, in 32 bytes, and it meets a target exactly when the kernel hash is
  below the staking amount times the target plus one.  A staking amount of zero is refused.\<close>

theorem kernel_hash_stake:
  assumes "length hash = HashSize"
  shows "if stakingAmount = 0 then ComputeKernelHash hash stakingAmount = Inl (Error ''Staking Amount can not be zero'')
    else \<exists>out. ComputeKernelHash hash stakingAmount = Inr out \<and> length out = HashSize \<and>
      (\<forall>target. CheckKernelHashBig out target \<longleftrightarrow> SetBytes hash < (target + 1) * uint stakingAmount)"
proof (cases "stakingAmount = 0")
  case True
  then show ?thesis by (simp add: ComputeKernelHash_def)
next
  case False
  have p: "0 < uint stakingAmount" using False by (metis uint_0_iff uint_ge_0 order_le_less)
  have "SetBytes hash div uint stakingAmount \<le> t \<longleftrightarrow> SetBytes hash < (t + 1) * uint stakingAmount" for t
    using int_div_less[OF p, of "SetBytes hash" "t + 1"] by linarith
  then show ?thesis using ComputeKernelHash_value[OF assms False] False by (auto simp: CheckKernelHashBig_def)
qed

theorem kernel_hash_stake_witness:
  "\<exists>out. ComputeKernelHash (replicate 31 0 @ [9]) 4 = Inr out \<and> length out = 32 \<and> CheckKernelHashBig out 2"
  using kernel_hash_stake[of "replicate 31 0 @ [9]" 4]
  by (auto simp: HashSize_def SetBytes_zeros) (simp add: SetBytes_def)

lemma clamp_target_bounds: "0 \<le> clamp_target n \<and> clamp_target n \<le> BIG_INT_MAX_256"
  by (simp add: clamp_target_def BIG_INT_MAX_256_def Let_def)

lemma target_change_factor:
  "0 < bf_den (target_change t)" "bf_prec (target_change t) \<le> 64"
  "1 / 2 \<le> bf_val (target_change t)" "bf_val (target_change t) \<le> 2"
  "uint t \<le> 450 \<Longrightarrow> bf_val (target_change t) = 1 / 2" "1800 \<le> uint t \<Longrightarrow> bf_val (target_change t) = 2"
proof -
  let ?c = "bf_round 64 (uint t) 900"
  have e: "uint (BLOCK_TIME * DIFFICULTY_BLOCK_WINDOW) = 900" by (simp add: BLOCK_TIME_def DIFFICULTY_BLOCK_WINDOW_def)
  have c: "0 < bf_den ?c" "bf_prec ?c = 64" by (simp_all add: bf_round_den)
  have half: "bf_val ?c \<le> 1 / 2" if "uint t \<le> 450"
  proof (cases "uint t = 0")
    case True
    then show ?thesis by (simp add: bf_round_zero)
  next
    case False
    then have "0 < uint t" using uint_ge_0[of t] by linarith
    moreover have "representable 64 (1 / 2)" using representable_powi[of 64 "- 1"] by (simp add: powi_nat_cases)
    moreover have "real_of_int (uint t) \<le> 450" using that by linarith
    ultimately show ?thesis using bf_round_props(3)[of "uint t" 900 64 "1 / 2"] by simp
  qed
  have two: "2 \<le> bf_val ?c" if "1800 \<le> uint t"
  proof -
    have "representable 64 2" using representable_powi[of 64 1] by simp
    moreover have "1800 \<le> real_of_int (uint t)" using that by linarith
    ultimately show ?thesis using bf_round_props(4)[of "uint t" 900 64 2] that by simp
  qed
  have m: "0 < bf_den DIFFICULTY_MIN_CHANGE_FACTOR" "bf_val DIFFICULTY_MIN_CHANGE_FACTOR = 1 / 2"
    "bf_prec DIFFICULTY_MIN_CHANGE_FACTOR = 53"
    "0 < bf_den DIFFICULTY_MAX_CHANGE_FACTOR" "bf_val DIFFICULTY_MAX_CHANGE_FACTOR = 2" "bf_prec DIFFICULTY_MAX_CHANGE_FACTOR = 53"
    by (simp_all add: DIFFICULTY_MIN_CHANGE_FACTOR_def DIFFICULTY_MAX_CHANGE_FACTOR_def bf_val_def)
  show "0 < bf_den (target_change t)" "bf_prec (target_change t) \<le> 64"
    "1 / 2 \<le> bf_val (target_change t)" "bf_val (target_change t) \<le> 2"
    "uint t \<le> 450 \<Longrightarrow> bf_val (target_change t) = 1 / 2" "1800 \<le> uint t \<Longrightarrow> bf_val (target_change t) = 2"
    using c m half two unfolding target_change_def Let_def e by (auto simp: bf_less_val)
qed

text \<open>The average target of the window, as the code computes it for a positive difference of difficulties.\<close>

definition average_target :: "int \<Rightarrow> BigFloat" where
  "average_target d =
     (let ad = bf_round (max (max (int_bits d) 64) 64) d 10
      in bf_round (max 257 (bf_prec ad)) (2 ^ 256 * bf_den ad) (bf_num ad))"

lemma BIG_FLOAT_MAX_256_val: "BIG_FLOAT_MAX_256 = \<lparr>bf_prec = 257, bf_num = 2 ^ 256, bf_den = 1\<rparr>"
proof -
  have "int_bits (2 ^ 256) = 257" by code_simp
  then show ?thesis by (simp add: BIG_FLOAT_MAX_256_def bf_SetInt_def BIG_INT_MAX_256_def)
qed

lemma average_target_props:
  assumes "0 < d"
  shows "0 < bf_den (average_target d)" "0 < bf_val (average_target d)" "257 \<le> bf_prec (average_target d)"
    "representable (bf_prec (average_target d)) (bf_val (average_target d))"
    "NextTargetBig d t = Inr (clamp_target (bf_to_int (bf_Mul (average_target d) (target_change t))))"
proof -
  define ad where "ad = bf_round (max (max (int_bits d) 64) 64) d 10"
  have ad: "0 < bf_den ad" "0 < bf_val ad" using bf_round_den bf_round_props(2)[of d 10] assms by (auto simp: ad_def)
  then have n: "0 < bf_num ad" by (simp add: bf_val_pos)
  have at: "average_target d = bf_round (max 257 (bf_prec ad)) (2 ^ 256 * bf_den ad) (bf_num ad)"
    by (simp add: average_target_def ad_def Let_def)
  show "0 < bf_den (average_target d)" "257 \<le> bf_prec (average_target d)" unfolding at by (simp_all add: bf_round_den)
  show "0 < bf_val (average_target d)" "representable (bf_prec (average_target d)) (bf_val (average_target d))"
    using bf_round_props(1,2)[of "2 ^ 256 * bf_den ad" "bf_num ad" "max 257 (bf_prec ad)"] n ad(1)
    unfolding at bf_round_den by simp_all
  have "bf_Quo (bf_SetInt d) (bf_SetUint64 DIFFICULTY_BLOCK_WINDOW) = Inr (Some ad)"
    using assms by (simp add: bf_Quo_def bf_SetInt_def bf_SetUint64_def DIFFICULTY_BLOCK_WINDOW_def ad_def)
  moreover have "bf_Quo_ext BIG_FLOAT_MAX_256 (Some ad) = Inr (Some (average_target d))"
    using n by (simp add: bf_Quo_ext_def bf_Quo_def BIG_FLOAT_MAX_256_val at)
  moreover have "big_SetString (bf_Sprintf (Some (bf_Mul (average_target d) (target_change t)))) =
      Some (bf_to_int (bf_Mul (average_target d) (target_change t)))"
    by (rule big_SetString_Sprintf) (simp add: bf_Mul_def bf_round_den)
  ultimately show "NextTargetBig d t = Inr (clamp_target (bf_to_int (bf_Mul (average_target d) (target_change t))))"
    by (simp add: NextTargetBig_def Let_def)
qed

text \<open>C17: the target rule.  For a window of positive total difficulty the next target exists and lies
  between 0 and \<open>2 ^ 256\<close>; before this clamp it is, up to rounding to an integer, between half and
  twice the average target of the window, exactly half when the blocks took at most half of the
  expected time and exactly twice when they took at least twice as long.\<close>

theorem NextTargetBig_bounded:
  assumes "0 < d"
  shows "\<exists>n. NextTargetBig d t = Inr (clamp_target n) \<and>
    0 \<le> clamp_target n \<and> clamp_target n \<le> BIG_INT_MAX_256 \<and>
    bf_val (average_target d) / 2 - 1 / 2 \<le> n \<and> n \<le> 2 * bf_val (average_target d) + 1 / 2 \<and>
    (uint t \<le> 450 \<longrightarrow> \<bar>n - bf_val (average_target d) / 2\<bar> \<le> 1 / 2) \<and>
    (1800 \<le> uint t \<longrightarrow> \<bar>n - 2 * bf_val (average_target d)\<bar> \<le> 1 / 2)"
proof -
  let ?a = "average_target d" and ?c = "target_change t"
  let ?A = "bf_val ?a" and ?C = "bf_val ?c" and ?N = "bf_Mul ?a ?c"
  note a = average_target_props[OF assms] and c = target_change_factor[of t]
  have pos: "0 < bf_num ?a" "0 < bf_num ?c" using a(1,2) c(1,3) bf_val_pos by fastforce+
  have prec: "max (bf_prec ?a) (bf_prec ?c) = bf_prec ?a" using a(3) c(2) by simp
  have x: "real_of_int (bf_num ?a * bf_num ?c) / real_of_int (bf_den ?a * bf_den ?c) = ?A * ?C"
    by (simp add: bf_val_def)
  have N: "bf_val ?N \<le> y" if "representable (bf_prec ?a) y" "?A * ?C \<le> y" for y
    using bf_round_props(3)[of "bf_num ?a * bf_num ?c" "bf_den ?a * bf_den ?c" "bf_prec ?a" y] pos a(1,3) c(1) that x
    by (simp add: bf_Mul_def prec)
  have N': "y \<le> bf_val ?N" if "representable (bf_prec ?a) y" "y \<le> ?A * ?C" for y
    using bf_round_props(4)[of "bf_num ?a * bf_num ?c" "bf_den ?a * bf_den ?c" "bf_prec ?a" y] pos a(1,3) c(1) that x
    by (simp add: bf_Mul_def prec)
  have h: "representable (bf_prec ?a) (?A / 2)" "representable (bf_prec ?a) (2 * ?A)"
    using representable_power[OF a(4), of "- 1"] representable_power[OF a(4), of 1]
    by (simp_all add: powi_nat_cases mult.commute)
  have "?A / 2 \<le> ?A * ?C" "?A * ?C \<le> 2 * ?A"
    using mult_left_mono[of "1 / 2" ?C ?A] mult_left_mono[of ?C 2 ?A] c(3,4) a(2) by simp_all
  then have b: "?A / 2 \<le> bf_val ?N" "bf_val ?N \<le> 2 * ?A" using N[OF h(2)] N'[OF h(1)] by blast+
  have ex: "uint t \<le> 450 \<longrightarrow> bf_val ?N = ?A / 2" "1800 \<le> uint t \<longrightarrow> bf_val ?N = 2 * ?A"
  proof -
    show "uint t \<le> 450 \<longrightarrow> bf_val ?N = ?A / 2"
    proof
      assume "uint t \<le> 450"
      then have "?A * ?C = ?A / 2" using c(5) by simp
      then show "bf_val ?N = ?A / 2" using N[OF h(1)] N'[OF h(1)] by (intro antisym) (simp_all only: order_refl)
    qed
    show "1800 \<le> uint t \<longrightarrow> bf_val ?N = 2 * ?A"
    proof
      assume "1800 \<le> uint t"
      then have "?A * ?C = 2 * ?A" using c(6) by simp
      then show "bf_val ?N = 2 * ?A" using N[OF h(2)] N'[OF h(2)] by (intro antisym) (simp_all only: order_refl)
    qed
  qed
  have "0 < bf_den ?N" by (simp add: bf_Mul_def bf_round_den)
  moreover have "0 < bf_val ?N" using b(1) a(2) by linarith
  ultimately have r: "\<bar>real_of_int (bf_to_int ?N) - bf_val ?N\<bar> \<le> 1 / 2"
    by (intro bf_to_int_near) (auto simp: bf_val_pos)
  then have "?A / 2 - 1 / 2 \<le> bf_to_int ?N" "bf_to_int ?N \<le> 2 * ?A + 1 / 2" using b by linarith+
  moreover have "uint t \<le> 450 \<longrightarrow> \<bar>bf_to_int ?N - ?A / 2\<bar> \<le> 1 / 2" "1800 \<le> uint t \<longrightarrow> \<bar>bf_to_int ?N - 2 * ?A\<bar> \<le> 1 / 2"
    using r ex by metis+
  ultimately show ?thesis using a(5)[of t] clamp_target_bounds[of "bf_to_int ?N"]
    by (intro exI[of _ "bf_to_int ?N"] conjI) (simp_all only: simp_thms)
qed

theorem NextTargetBig_bounded_witness:
  "\<exists>n. NextTargetBig 20 450 = Inr (clamp_target n) \<and> clamp_target n \<le> BIG_INT_MAX_256"
  using NextTargetBig_bounded[of 20 450] by auto

section \<open>Properties of the block\<close>

definition Block_enc :: "Block \<Rightarrow> bytes" where
  "Block_enc blk =
     (PutUvarint (bh_Version (blk_BlockHeader blk)) @ PutUvarint (bh_Height (blk_BlockHeader blk)) @ []) @
     blk_MerkleHash blk @ blk_PrevHash blk @ blk_PrevKernelHash blk @ PutUvarint (blk_StakingAmount blk) @
     PutUvarint (blk_Timestamp blk) @ blk_StakingNonce blk @ []"

definition Block_sizes :: "Block \<Rightarrow> bool" where
  "Block_sizes blk \<longleftrightarrow> length (blk_MerkleHash blk) = HashSize \<and> length (blk_PrevHash blk) = HashSize \<and>
     length (blk_PrevKernelHash blk) = HashSize \<and> length (blk_StakingNonce blk) = 32"

lemma writes_BlockHeader [codec]:
  "writes (BlockHeader_Serialize h) (PutUvarint (bh_Version h) @ PutUvarint (bh_Height h) @ [])"
  unfolding BlockHeader_Serialize_def by (intro codec)

lemma reads_BlockHeader: "reads BlockHeader_Deserialize (PutUvarint (bh_Version h) @ PutUvarint (bh_Height h) @ []) h"
  unfolding BlockHeader_Deserialize_def by (intro reads_bind[OF reads_ReadUvarint] reads_gret_eq) simp

lemma Block_SerializeManual_enc: "Block_SerializeManualToBytes blk = Block_enc blk"
proof -
  have "writes (Block_AdvancedSerialization blk False True) (Block_enc blk)"
    unfolding Block_AdvancedSerialization_def Block_enc_def by (simp only: simp_thms if_True append.simps) (intro codec)
  then show ?thesis unfolding Block_SerializeManualToBytes_def by (rule writes_SerializeToBytes)
qed

lemma reads_Block:
  assumes "Block_sizes blk"
  shows "reads (Block_Deserialize SHA3 blk0) (Block_enc blk)
    (BloomSerializedNow SHA3 (Block_enc blk) (blk\<lparr>blk_Bloom := blk_Bloom blk0\<rparr>))"
proof -
  have "reads (Block_Deserialize SHA3 blk0) (Block_enc blk @ [])
    (BloomSerializedNow SHA3 (Block_enc blk) (blk\<lparr>blk_Bloom := blk_Bloom blk0\<rparr>))"
    unfolding Block_Deserialize_def
  proof (rule reads_bind[OF reads_with_bytes])
    show "reads (gbind BlockHeader_Deserialize (\<lambda>header. gbind ReadHash (\<lambda>merkle. gbind ReadHash (\<lambda>prev.
       gbind ReadHash (\<lambda>prevKernel. gbind ReadUvarint (\<lambda>staking. gbind ReadUvarint (\<lambda>timestamp.
       gbind (ReadBytes 32) (\<lambda>nonce.
       gret (blk0\<lparr>blk_BlockHeader := header, blk_MerkleHash := merkle, blk_PrevHash := prev,
         blk_PrevKernelHash := prevKernel, blk_StakingAmount := staking, blk_Timestamp := timestamp,
         blk_StakingNonce := nonce\<rparr>)))))))))
      (Block_enc blk) (blk\<lparr>blk_Bloom := blk_Bloom blk0\<rparr>)"
      unfolding Block_enc_def
      by (intro reads_bind[OF reads_BlockHeader] reads_bind[OF reads_ReadHash] reads_bind[OF reads_ReadUvarint]
          reads_bind[OF reads_ReadBytes] reads_gret_eq) (use assms in \<open>simp_all add: Block_sizes_def\<close>)
  qed (simp add: reads_gret_eq)
  then show ?thesis by simp
qed

text \<open>C19: a block read back from its manual serialisation is the block that was written, and its hash is
  the hash of the bytes read.\<close>

theorem Block_roundtrip:
  assumes "Block_sizes blk"
  shows "fst (Block_Deserialize SHA3 CreateEmptyBlock (NewBufferReader (Block_SerializeManualToBytes blk))) =
    Inr (blk\<lparr>blk_Bloom := Some \<lparr>bb_Serialized = Block_SerializeManualToBytes blk,
      bb_Hash = SHA3 (Block_SerializeManualToBytes blk), bb_KernelHash = [], bb_KernelHashStaked = [],
      bb_bloomedHash = True, bb_bloomedKernelHash = False\<rparr>\<rparr>)"
  using reads_NewBufferReader[OF reads_Block[OF assms, of SHA3 CreateEmptyBlock]]
  by (simp add: Block_SerializeManual_enc BloomSerializedNow_def new_BlockBloom_def)

theorem Block_roundtrip_witness:
  "\<exists>blk. Block_sizes blk \<and> blk_Timestamp blk = 300 \<and>
     map_sum id blk_Timestamp (fst (Block_Deserialize (\<lambda>b. b) CreateEmptyBlock
       (NewBufferReader (Block_SerializeManualToBytes blk)))) = Inr 300"
proof -
  let ?b = "CreateEmptyBlock\<lparr>blk_MerkleHash := replicate 32 1, blk_PrevHash := replicate 32 2,
    blk_PrevKernelHash := replicate 32 3, blk_StakingNonce := replicate 32 4, blk_Timestamp := 300\<rparr>"
  have s: "Block_sizes ?b" by (simp add: Block_sizes_def HashSize_def)
  then show ?thesis using Block_roundtrip[OF s, of "\<lambda>b. b"] by (intro exI[of _ ?b]) simp
qed

text \<open>The cache is right when what it says to hold is what the block's fields give.\<close>

definition bloom_right :: "hasher \<Rightarrow> Block \<Rightarrow> BlockBloom \<Rightarrow> bool" where
  "bloom_right SHA3 blk b \<longleftrightarrow>
     (bb_bloomedHash b \<longrightarrow> bb_Serialized b = Block_SerializeManualToBytes blk \<and> bb_Hash b = SHA3 (bb_Serialized b)) \<and>
     (bb_bloomedKernelHash b \<longrightarrow> bb_KernelHash b = Block_ComputeKernelHash SHA3 blk \<and>
        ComputeKernelHash (bb_KernelHash b) (blk_StakingAmount blk) = Inr (bb_KernelHashStaked b))"

lemma bloom_ignores_Bloom [simp]:
  "Block_SerializeManualToBytes (blk\<lparr>blk_Bloom := x\<rparr>) = Block_SerializeManualToBytes blk"
  "Block_ComputeKernelHash SHA3 (blk\<lparr>blk_Bloom := x\<rparr>) = Block_ComputeKernelHash SHA3 blk"
  "Block_Validate (blk\<lparr>blk_Bloom := x\<rparr>) = Block_Validate blk"
  by (simp_all add: Block_SerializeManualToBytes_def Block_ComputeKernelHash_def Block_Validate_def
      Block_AdvancedSerialization_def)

lemma bloom_kernel_ok:
  assumes "bloom_right SHA3 blk b" "bloom_kernel SHA3 blk b = (r, b')"
  shows "bloom_right SHA3 blk b'" "bb_bloomedHash b' = bb_bloomedHash b"
    "r = Inr () \<Longrightarrow> bb_bloomedKernelHash b'"
  using assms by (auto simp: bloom_kernel_def bloom_right_def gbind_def split: if_splits sum.splits go_error.splits)

text \<open>C20: after a successful \<^verbatim>\<open>BloomNow\<close> the cached serialisation, hash, kernel hash and staked kernel hash are
  those of the block's fields, the block verifies, and a second \<^verbatim>\<open>BloomNow\<close> changes nothing.\<close>

theorem BloomNow_caches:
  assumes "\<forall>b. blk_Bloom blk = Some b \<longrightarrow> bloom_right SHA3 blk b" "Block_BloomNow SHA3 blk = (Inr (), blk')"
  shows "Block_Verify blk' = Inr () \<and> Block_BloomNow SHA3 blk' = (Inr (), blk') \<and>
    (\<exists>b. blk' = blk\<lparr>blk_Bloom := Some b\<rparr> \<and> bloom_right SHA3 blk b \<and>
       bb_Hash b = SHA3 (Block_SerializeManualToBytes blk) \<and> bb_KernelHash b = Block_ComputeKernelHash SHA3 blk)"
proof -
  let ?b0 = "case blk_Bloom blk of None \<Rightarrow> new_BlockBloom | Some b \<Rightarrow> b"
  let ?b1 = "bloom_hash SHA3 blk ?b0"
  have "bloom_right SHA3 blk ?b0"
    using assms(1) by (cases "blk_Bloom blk") (auto simp: bloom_right_def new_BlockBloom_def)
  then have r1: "bloom_right SHA3 blk ?b1" "bb_bloomedHash ?b1" by (auto simp: bloom_hash_def bloom_right_def)
  obtain b where b: "bloom_kernel SHA3 blk ?b1 = (Inr (), b)" "blk' = blk\<lparr>blk_Bloom := Some b\<rparr>" "Block_Validate blk = Inr ()"
    using assms(2) by (auto simp: Block_BloomNow_def Let_def split: sum.splits prod.splits)
  have r: "bloom_right SHA3 blk b" "bb_bloomedHash b" "bb_bloomedKernelHash b"
    using bloom_kernel_ok[OF r1(1) b(1)] r1(2) by auto
  have "Block_BloomNow SHA3 blk' = (Inr (), blk')"
    using r(2,3) b(2,3) by (simp add: Block_BloomNow_def bloom_hash_def bloom_kernel_def Let_def)
  then show ?thesis using r b(2) by (auto simp: Block_Verify_def BlockBloom_verifyIfBloomed_def bloom_right_def)
qed

theorem BloomNow_caches_witness:
  "\<exists>blk'. Block_BloomNow (\<lambda>b. take 1 b) (CreateEmptyBlock\<lparr>blk_StakingAmount := 1\<rparr>) = (Inr (), blk') \<and> Block_Verify blk' = Inr ()"
proof -
  let ?blk = "CreateEmptyBlock\<lparr>blk_StakingAmount := 1\<rparr>"
  let ?k = "take 1 (SerializeToBytes (Block_AdvancedSerialization ?blk True False))"
  have "length (int_Bytes (SetBytes ?k)) \<le> 32"
  proof (rule length_int_Bytes[OF SetBytes_nonneg])
    have "SetBytes ?k < 256 ^ length ?k" by (rule SetBytes_less)
    also have "\<dots> \<le> 256 ^ 32" by (rule power_increasing) auto
    finally show "SetBytes ?k < 256 ^ 32" .
  qed
  then obtain blk' where "Block_BloomNow (\<lambda>b. take 1 b) ?blk = (Inr (), blk')"
    by (auto simp: Block_BloomNow_def Block_Validate_def BlockHeader_Validate_def CreateEmptyBlock_def
        bloom_kernel_def bloom_hash_def new_BlockBloom_def ComputeKernelHash_def HashSize_def Let_def
        Block_ComputeKernelHash_def gbind_def)
  then show ?thesis using BloomNow_caches[of ?blk "\<lambda>b. take 1 b" blk'] by (simp add: CreateEmptyBlock_def)
qed

end
