(* ===== verification/Crypto_Algebra.thy ===== *)
theory Crypto_Algebra
  imports Big_Numbers Buffers
begin

text \<open>
  The algebra under the confidential transactions (\<^verbatim>\<open>cryptography/crypto\<close>): vectors of scalars and of
  curve points, polynomials, ElGamal ciphertexts, and Schnorr signatures.  The curve itself
  (\<^verbatim>\<open>bn256.G1\<close>) is a record of operations, of which \<open>g1_laws\<close> states that it is a group of the
  given order with scalar multiplication.
\<close>

section \<open>The curve\<close>

definition Order :: int where
  "Order = 21888242871839275222246405745257275088548364400416034343698204186575808495617"

record 'p G1Ops =
  g1_Add :: "'p \<Rightarrow> 'p \<Rightarrow> 'p"
  g1_Neg :: "'p \<Rightarrow> 'p"
  g1_ScalarMult :: "'p \<Rightarrow> int \<Rightarrow> 'p"
  g1_Marshal :: "'p \<Rightarrow> bytes"
  g1_EncodeCompressed :: "'p \<Rightarrow> bytes"
  g1_DecodeCompressed :: "bytes \<Rightarrow> 'p result"
  g1_String :: "'p \<Rightarrow> bytes"
  g1_G :: 'p
  g1_H :: 'p

definition g1_laws :: "'p G1Ops \<Rightarrow> bool" where
  "g1_laws P \<longleftrightarrow>
     (\<forall>a b c. g1_Add P (g1_Add P a b) c = g1_Add P a (g1_Add P b c)) \<and>
     (\<forall>a b. g1_Add P a b = g1_Add P b a) \<and>
     (\<forall>a b. g1_Add P a (g1_ScalarMult P b 0) = a) \<and>
     (\<forall>a. g1_ScalarMult P a 1 = a) \<and>
     (\<forall>a m n. g1_ScalarMult P a (m + n) = g1_Add P (g1_ScalarMult P a m) (g1_ScalarMult P a n)) \<and>
     (\<forall>a m n. g1_ScalarMult P (g1_ScalarMult P a m) n = g1_ScalarMult P a (m * n)) \<and>
     (\<forall>a b n. g1_ScalarMult P (g1_Add P a b) n = g1_Add P (g1_ScalarMult P a n) (g1_ScalarMult P b n)) \<and>
     (\<forall>a. g1_Neg P a = g1_ScalarMult P a (- 1)) \<and>
     (\<forall>a. g1_ScalarMult P a Order = g1_ScalarMult P a 0)"

text \<open>The identity, the point at infinity.\<close>

definition g1_zero :: "'p G1Ops \<Rightarrow> 'p" where
  "g1_zero P = g1_ScalarMult P (g1_G P) 0"

text \<open>The compressed form of a point.  \<^verbatim>\<open>Compress\<close> of \<^verbatim>\<open>cryptography/bn256/changes.go\<close> writes 33 bytes for every point,
  zeros for the identity.  \<^verbatim>\<open>Decompress\<close> takes the square root of \<open>x ^ 3 + 3\<close>: it reads back every point but the
  identity, for which 3 has no root modulo the prime of the field.\<close>

definition g1_codec :: "'p G1Ops \<Rightarrow> bool" where
  "g1_codec P \<longleftrightarrow> (\<forall>a. length (g1_EncodeCompressed P a) = 33 \<and>
     g1_DecodeCompressed P (g1_EncodeCompressed P a) =
       (if a = g1_zero P then Inl (Error ''bn256: Cannot decompress'') else Inr a))"

lemma g1_codecD:
  assumes "g1_codec P"
  shows "length (g1_EncodeCompressed P a) = 33"
    "a \<noteq> g1_zero P \<Longrightarrow> g1_DecodeCompressed P (g1_EncodeCompressed P a) = Inr a"
    "g1_DecodeCompressed P (g1_EncodeCompressed P (g1_zero P)) = Inl (Error ''bn256: Cannot decompress'')"
  using assms by (simp_all add: g1_codec_def)

text \<open>Different points have different bytes.\<close>

lemma g1_codec_inj: "g1_codec P \<Longrightarrow> g1_EncodeCompressed P a = g1_EncodeCompressed P b \<longleftrightarrow> a = b"
  by (metis g1_codecD(2,3) Inl_Inr_False sum.inject(2))

section \<open>Vectors of scalars\<close>

type_synonym FieldVector = "int list"

definition slice :: "'a list \<Rightarrow> nat \<Rightarrow> nat \<Rightarrow> 'a list result" where
  "slice xs start stop = rmap (rnth xs) [start..<stop]"

definition fv_Slice :: "FieldVector \<Rightarrow> nat \<Rightarrow> nat \<Rightarrow> FieldVector result" where
  "fv_Slice fv start stop = slice fv start stop"

definition fv_Clone :: "FieldVector \<Rightarrow> FieldVector result" where
  "fv_Clone fv = fv_Slice fv 0 (length fv)"

definition fv_Flip :: "FieldVector \<Rightarrow> FieldVector" where
  "fv_Flip fv = map (\<lambda>i. fv ! ((length fv - i) mod length fv)) [0..<length fv]"

definition fv_Sum :: "FieldVector \<Rightarrow> int" where
  "fv_Sum fv = foldl (\<lambda>acc x. (acc + x) mod Order) 0 fv"

definition mismatch :: "'a result" where
  "mismatch = Inl (Panic ''mismatched number of elements'')"

definition fv_Add :: "FieldVector \<Rightarrow> FieldVector \<Rightarrow> FieldVector result" where
  "fv_Add fv addendum =
     (if length fv \<noteq> length addendum then mismatch
      else Inr (map2 (\<lambda>a b. (a + b) mod Order) fv addendum))"

definition fv_AddConstant :: "FieldVector \<Rightarrow> int \<Rightarrow> FieldVector" where
  "fv_AddConstant gv c = map (\<lambda>a. (a + c) mod Order) gv"

definition fv_Hadamard :: "FieldVector \<Rightarrow> FieldVector \<Rightarrow> FieldVector result" where
  "fv_Hadamard fv exponent =
     (if length fv \<noteq> length exponent then mismatch
      else Inr (map2 (\<lambda>a b. (a * b) mod Order) fv exponent))"

definition fv_InnerProduct :: "FieldVector \<Rightarrow> FieldVector \<Rightarrow> int result" where
  "fv_InnerProduct fv exponent =
     (if length fv \<noteq> length exponent then mismatch
      else Inr (foldl (\<lambda>acc (a, b). (acc + (a * b) mod Order) mod Order) 0 (zip fv exponent)))"

definition fv_Negate :: "FieldVector \<Rightarrow> FieldVector" where
  "fv_Negate fv = map (\<lambda>a. (- a) mod Order) fv"

definition fv_Times :: "FieldVector \<Rightarrow> int \<Rightarrow> FieldVector" where
  "fv_Times fv multiplier = map (\<lambda>a. (a * multiplier) mod Order) fv"

text \<open>\<^verbatim>\<open>big.Int.ModInverse\<close>: nil when there is no inverse.  \<open>egcd a b\<close> gives \<open>(g, x)\<close> with \<open>g = gcd\<close> and
  \<open>a * x \<equiv> g\<close> modulo \<open>b\<close>.\<close>

function egcd :: "int \<Rightarrow> int \<Rightarrow> int \<Rightarrow> int \<Rightarrow> int \<times> int" where
  "egcd r0 s0 r1 s1 = (if r1 \<le> 0 then (r0, s0) else egcd r1 s1 (r0 mod r1) (s0 - (r0 div r1) * s1))"
  by auto
termination by (relation "measure (\<lambda>(r0, s0, r1, s1). nat r1)") auto

declare egcd.simps [simp del]

definition ModInverse :: "int \<Rightarrow> int \<Rightarrow> int option" where
  "ModInverse a n = (case egcd n 0 (a mod n) 1 of (g, x) \<Rightarrow> if g = 1 then Some (x mod n) else None)"

definition fv_Invert :: "FieldVector \<Rightarrow> int option list" where
  "fv_Invert fv = map (\<lambda>a. ModInverse a Order) fv"

definition fv_Concat :: "FieldVector \<Rightarrow> FieldVector \<Rightarrow> FieldVector" where
  "fv_Concat fv addendum = fv @ addendum"

text \<open>The elements at the positions of a parity.\<close>

definition parity_part :: "bool \<Rightarrow> 'a list \<Rightarrow> 'a list" where
  "parity_part parity xs = map ((!) xs) (filter (\<lambda>i. i mod 2 = (if parity then 1 else 0)) [0..<length xs])"

definition fv_Extract :: "FieldVector \<Rightarrow> bool \<Rightarrow> FieldVector" where
  "fv_Extract fv parity = parity_part parity fv"

section \<open>Vectors of points\<close>

definition pv_Slice :: "'p list \<Rightarrow> nat \<Rightarrow> nat \<Rightarrow> 'p list result" where
  "pv_Slice gv start stop = slice gv start stop"

definition pv_Commit :: "'p G1Ops \<Rightarrow> 'p list \<Rightarrow> int list \<Rightarrow> 'p result" where
  "pv_Commit P gv exponent =
     (if length gv \<noteq> length exponent then mismatch
      else Inr (foldl (\<lambda>acc (g, x). g1_Add P acc (g1_ScalarMult P g x)) (g1_zero P) (zip gv exponent)))"

definition pv_Sum :: "'p G1Ops \<Rightarrow> 'p list \<Rightarrow> 'p" where
  "pv_Sum P gv = foldl (g1_Add P) (g1_zero P) gv"

definition pv_Add :: "'p G1Ops \<Rightarrow> 'p list \<Rightarrow> 'p list \<Rightarrow> 'p list result" where
  "pv_Add P gv addendum = (if length gv \<noteq> length addendum then mismatch else Inr (map2 (g1_Add P) gv addendum))"

definition pv_Hadamard :: "'p G1Ops \<Rightarrow> 'p list \<Rightarrow> int list \<Rightarrow> 'p list result" where
  "pv_Hadamard P gv exponent =
     (if length gv \<noteq> length exponent then mismatch else Inr (map2 (g1_ScalarMult P) gv exponent))"

definition pv_Negate :: "'p G1Ops \<Rightarrow> 'p list \<Rightarrow> 'p list" where
  "pv_Negate P gv = map (g1_Neg P) gv"

definition pv_Times :: "'p G1Ops \<Rightarrow> 'p list \<Rightarrow> int \<Rightarrow> 'p list" where
  "pv_Times P gv multiplier = map (\<lambda>g. g1_ScalarMult P g multiplier) gv"

definition pv_Extract :: "'p list \<Rightarrow> bool \<Rightarrow> 'p list" where
  "pv_Extract gv parity = parity_part parity gv"

definition pv_Concat :: "'p list \<Rightarrow> 'p list \<Rightarrow> 'p list" where
  "pv_Concat gv addendum = gv @ addendum"

text \<open>The loop runs over the scalars: a shorter vector of points panics.\<close>

definition pv_MultiExponentiate :: "'p G1Ops \<Rightarrow> 'p list \<Rightarrow> FieldVector \<Rightarrow> 'p result" where
  "pv_MultiExponentiate P pv fv =
     (if length pv < length fv then Inl (Panic ''index out of range'')
      else Inr (foldl (\<lambda>acc (g, x). g1_Add P acc (g1_ScalarMult P g x)) (g1_zero P) (zip pv fv)))"

section \<open>Pedersen commitments\<close>

text \<open>The random scalar drawn is an argument.\<close>

record 'p PedersenCommitmentNew =
  pc_G :: 'p
  pc_H :: 'p
  pc_Randomness :: "int option"
  pc_Result :: "'p option"

definition NewPedersenCommitmentNew :: "'p G1Ops \<Rightarrow> 'p PedersenCommitmentNew" where
  "NewPedersenCommitmentNew P = \<lparr>pc_G = g1_G P, pc_H = g1_H P, pc_Randomness = None, pc_Result = None\<rparr>"

definition PedersenCommitmentNew_Commit :: "'p G1Ops \<Rightarrow> int \<Rightarrow> 'p PedersenCommitmentNew \<Rightarrow> int \<Rightarrow> 'p PedersenCommitmentNew" where
  "PedersenCommitmentNew_Commit P r p value =
     p\<lparr>pc_Randomness := Some r,
       pc_Result := Some (g1_Add P (g1_ScalarMult P (pc_G p) value) (g1_ScalarMult P (pc_H p) r))\<rparr>"

record 'p PedersenVectorCommitment =
  pvc_G :: 'p
  pvc_H :: 'p
  pvc_GSUM :: 'p
  pvc_Gs :: "'p list"
  pvc_Hs :: "'p list"
  pvc_Randomness :: "int option"
  pvc_Result :: "'p option"
  pvc_gvalues :: FieldVector
  pvc_hvalues :: FieldVector

definition PedersenVectorCommitment_Commit ::
  "'p G1Ops \<Rightarrow> int \<Rightarrow> 'p PedersenVectorCommitment \<Rightarrow> FieldVector \<Rightarrow> FieldVector \<Rightarrow> 'p PedersenVectorCommitment result" where
  "PedersenVectorCommitment_Commit P r p gvalues hvalues =
     rbind (pv_MultiExponentiate P (pvc_Gs p) gvalues) (\<lambda>a.
     rbind (pv_MultiExponentiate P (pvc_Hs p) hvalues) (\<lambda>b.
     Inr (p\<lparr>pvc_Randomness := Some r,
            pvc_Result := Some (g1_Add P (g1_Add P (g1_ScalarMult P (pvc_H p) r) a) b)\<rparr>)))"

section \<open>ElGamal ciphertexts\<close>

record 'p ElGamal =
  eg_G :: 'p
  eg_Randomness :: "int option"
  eg_Left :: "'p option"
  eg_Right :: "'p option"

definition NewElGamal :: "'p G1Ops \<Rightarrow> 'p ElGamal" where
  "NewElGamal P = \<lparr>eg_G = g1_G P, eg_Randomness = None, eg_Left = None, eg_Right = None\<rparr>"

definition CommitElGamal :: "'p G1Ops \<Rightarrow> int \<Rightarrow> 'p \<Rightarrow> int \<Rightarrow> 'p ElGamal" where
  "CommitElGamal P r key value =
     (NewElGamal P)\<lparr>eg_Randomness := Some r,
       eg_Left := Some (g1_Add P (g1_ScalarMult P (g1_G P) value) (g1_ScalarMult P key r)),
       eg_Right := Some (g1_ScalarMult P (g1_G P) r)\<rparr>"

text \<open>\<^verbatim>\<open>Set\<close> reads the right point, which must not be nil.\<close>

definition ConstructElGamal :: "'p G1Ops \<Rightarrow> 'p option \<Rightarrow> 'p option \<Rightarrow> 'p ElGamal result" where
  "ConstructElGamal P left right =
     rbind (rderef right) (\<lambda>r. Inr ((NewElGamal P)\<lparr>eg_Left := left, eg_Right := Some r\<rparr>))"

definition ElGamal_Add :: "'p G1Ops \<Rightarrow> 'p ElGamal \<Rightarrow> 'p ElGamal \<Rightarrow> 'p ElGamal result" where
  "ElGamal_Add P e addendum =
     (case eg_Left e of
        None \<Rightarrow>
          rbind (rderef (eg_Right e)) (\<lambda>a. rbind (rderef (eg_Right addendum)) (\<lambda>b.
          ConstructElGamal P None (Some (g1_Add P a b))))
      | Some l \<Rightarrow>
          rbind (rderef (eg_Left addendum)) (\<lambda>l'.
          rbind (rderef (eg_Right e)) (\<lambda>a. rbind (rderef (eg_Right addendum)) (\<lambda>b.
          ConstructElGamal P (Some (g1_Add P l l')) (Some (g1_Add P a b))))))"

definition ElGamal_Mul :: "'p G1Ops \<Rightarrow> 'p ElGamal \<Rightarrow> int \<Rightarrow> 'p ElGamal result" where
  "ElGamal_Mul P e scalar =
     rbind (rderef (eg_Left e)) (\<lambda>l. rbind (rderef (eg_Right e)) (\<lambda>r.
     ConstructElGamal P (Some (g1_ScalarMult P l scalar)) (Some (g1_ScalarMult P r scalar))))"

definition ElGamal_Plus :: "'p G1Ops \<Rightarrow> 'p ElGamal \<Rightarrow> int \<Rightarrow> 'p ElGamal result" where
  "ElGamal_Plus P e value =
     rbind (rderef (eg_Left e)) (\<lambda>l.
     ConstructElGamal P (Some (g1_Add P l (g1_ScalarMult P (eg_G e) value))) (eg_Right e))"

definition ElGamal_Neg :: "'p G1Ops \<Rightarrow> 'p ElGamal \<Rightarrow> 'p ElGamal result" where
  "ElGamal_Neg P e = ConstructElGamal P (map_option (g1_Neg P) (eg_Left e)) (map_option (g1_Neg P) (eg_Right e))"

definition ElGamal_IsZero :: "'p G1Ops \<Rightarrow> 'p ElGamal \<Rightarrow> bool" where
  "ElGamal_IsZero P e =
     (case (eg_Left e, eg_Right e) of
        (Some l, Some r) \<Rightarrow> g1_String P l = g1_String P (g1_zero P) \<and> g1_String P r = g1_String P (g1_zero P)
      | _ \<Rightarrow> False)"

definition ElGamal_Serialize :: "'p G1Ops \<Rightarrow> 'p ElGamal \<Rightarrow> bytes result" where
  "ElGamal_Serialize P e =
     (case (eg_Left e, eg_Right e) of
        (Some l, Some r) \<Rightarrow> Inr (g1_EncodeCompressed P l @ g1_EncodeCompressed P r)
      | _ \<Rightarrow> Inl (Panic ''elgamal has nil pointer''))"

definition ElGamal_Deserialize :: "'p G1Ops \<Rightarrow> bytes \<Rightarrow> 'p ElGamal result" where
  "ElGamal_Deserialize P data =
     (if length data \<noteq> 66 then Inl (Error ''insufficient buffer size'')
      else
        rbind (g1_DecodeCompressed P (take 33 data)) (\<lambda>left.
        rbind (g1_DecodeCompressed P (drop 33 data)) (\<lambda>right.
        ConstructElGamal P (Some left) (Some right))))"

text \<open>\<^verbatim>\<open>ElGamalVector\<close>.\<close>

fun ev_sum :: "'p G1Ops \<Rightarrow> 'p ElGamal \<Rightarrow> 'p ElGamal list \<Rightarrow> 'p ElGamal result" where
  "ev_sum P acc [] = Inr acc"
| "ev_sum P acc (e # es) = rbind (ElGamal_Add P acc e) (\<lambda>acc'. ev_sum P acc' es)"

definition ElGamalVector_Sum :: "'p G1Ops \<Rightarrow> 'p ElGamal list \<Rightarrow> 'p ElGamal result" where
  "ElGamalVector_Sum P v =
     rbind (ConstructElGamal P (Some (g1_zero P)) (Some (g1_zero P))) (\<lambda>r. ev_sum P r v)"

fun ev_multiexp :: "'p G1Ops \<Rightarrow> 'p ElGamal \<Rightarrow> 'p ElGamal list \<Rightarrow> int list \<Rightarrow> 'p ElGamal result" where
  "ev_multiexp P acc v [] = Inr acc"
| "ev_multiexp P acc [] (x # xs) = Inl (Panic ''index out of range'')"
| "ev_multiexp P acc (e # v) (x # xs) =
     rbind (ElGamal_Mul P e x) (\<lambda>m. rbind (ElGamal_Add P acc m) (\<lambda>acc'. ev_multiexp P acc' v xs))"

definition ElGamalVector_MultiExponentiate :: "'p G1Ops \<Rightarrow> 'p ElGamal list \<Rightarrow> FieldVector \<Rightarrow> 'p ElGamal result" where
  "ElGamalVector_MultiExponentiate P v exponents =
     rbind (ConstructElGamal P (Some (g1_zero P)) (Some (g1_zero P))) (\<lambda>r. ev_multiexp P r v exponents)"

fun ev_zip :: "('p ElGamal \<Rightarrow> 'a \<Rightarrow> 'p ElGamal result) \<Rightarrow> 'p ElGamal list \<Rightarrow> 'a list \<Rightarrow> 'p ElGamal list result" where
  "ev_zip f v [] = Inr v"
| "ev_zip f [] (x # xs) = Inl (Panic ''index out of range'')"
| "ev_zip f (e # v) (x # xs) = rbind (f e x) (\<lambda>e'. rbind (ev_zip f v xs) (\<lambda>v'. Inr (e' # v')))"

definition ElGamalVector_Add :: "'p G1Ops \<Rightarrow> 'p ElGamal list \<Rightarrow> 'p ElGamal list \<Rightarrow> 'p ElGamal list result" where
  "ElGamalVector_Add P v other =
     rbind (rmap (\<lambda>e. ConstructElGamal P (eg_Left e) (eg_Right e)) v) (\<lambda>r. ev_zip (ElGamal_Add P) r other)"

definition ElGamalVector_Hadamard :: "'p G1Ops \<Rightarrow> 'p ElGamal list \<Rightarrow> FieldVector \<Rightarrow> 'p ElGamal list result" where
  "ElGamalVector_Hadamard P v exponents =
     rbind (rmap (\<lambda>e. ConstructElGamal P (eg_Left e) (eg_Right e)) v) (\<lambda>r. ev_zip (ElGamal_Mul P) r exponents)"

definition ElGamalVector_Times :: "'p G1Ops \<Rightarrow> 'p ElGamal list \<Rightarrow> int \<Rightarrow> 'p ElGamal list result" where
  "ElGamalVector_Times P v scalar = rmap (\<lambda>e. ElGamal_Mul P e scalar) v"

section \<open>The laws of the curve\<close>

lemma g1_assoc: "g1_laws P \<Longrightarrow> g1_Add P (g1_Add P a b) c = g1_Add P a (g1_Add P b c)"
  and g1_comm: "g1_laws P \<Longrightarrow> g1_Add P a b = g1_Add P b a"
  and g1_mul_1: "g1_laws P \<Longrightarrow> g1_ScalarMult P a 1 = a"
  and g1_mul_add: "g1_laws P \<Longrightarrow> g1_ScalarMult P a (m + n) = g1_Add P (g1_ScalarMult P a m) (g1_ScalarMult P a n)"
  and g1_mul_mul: "g1_laws P \<Longrightarrow> g1_ScalarMult P (g1_ScalarMult P a m) n = g1_ScalarMult P a (m * n)"
  and g1_add_mul: "g1_laws P \<Longrightarrow> g1_ScalarMult P (g1_Add P a b) n = g1_Add P (g1_ScalarMult P a n) (g1_ScalarMult P b n)"
  and g1_neg: "g1_laws P \<Longrightarrow> g1_Neg P a = g1_ScalarMult P a (- 1)"
  and g1_neutral: "g1_laws P \<Longrightarrow> g1_Add P a (g1_ScalarMult P b 0) = a"
  unfolding g1_laws_def by blast+

lemma g1_left_comm: "g1_laws P \<Longrightarrow> g1_Add P a (g1_Add P b c) = g1_Add P b (g1_Add P a c)"
  by (metis g1_assoc g1_comm)

lemmas g1_ac = g1_assoc g1_comm g1_left_comm

lemma g1_mul_0: "g1_laws P \<Longrightarrow> g1_ScalarMult P a 0 = g1_zero P"
proof -
  assume L: "g1_laws P"
  show ?thesis
    unfolding g1_zero_def by (metis g1_neutral[OF L] g1_comm[OF L])
qed

lemma g1_add_0: "g1_laws P \<Longrightarrow> g1_Add P a (g1_zero P) = a"
  and g1_0_add: "g1_laws P \<Longrightarrow> g1_Add P (g1_zero P) a = a"
  unfolding g1_zero_def by (metis g1_neutral, metis g1_neutral g1_comm)

lemma g1_zero_mul: "g1_laws P \<Longrightarrow> g1_ScalarMult P (g1_zero P) n = g1_zero P"
  by (metis g1_mul_0 g1_mul_mul mult_zero_left)

lemma g1_mul_Order: "g1_laws P \<Longrightarrow> g1_ScalarMult P a (n * Order) = g1_zero P"
proof -
  assume L: "g1_laws P"
  have "g1_ScalarMult P (g1_ScalarMult P a n) Order = g1_ScalarMult P (g1_ScalarMult P a n) 0"
    using L unfolding g1_laws_def by blast
  then show ?thesis
    by (simp add: g1_mul_mul[OF L] g1_mul_0[OF L])
qed

lemma g1_mul_mod: "g1_laws P \<Longrightarrow> g1_ScalarMult P a (n mod Order) = g1_ScalarMult P a n"
proof -
  assume L: "g1_laws P"
  have "g1_ScalarMult P a n = g1_ScalarMult P a (n div Order * Order + n mod Order)"
    by simp
  also have "\<dots> = g1_ScalarMult P a (n mod Order)"
    by (simp only: g1_mul_add[OF L] g1_mul_Order[OF L] g1_0_add[OF L])
  finally show ?thesis by simp
qed

lemma g1_mul_cong: "g1_laws P \<Longrightarrow> m mod Order = n mod Order \<Longrightarrow> g1_ScalarMult P a m = g1_ScalarMult P a n"
  by (metis g1_mul_mod)

lemma g1_add_neg: "g1_laws P \<Longrightarrow> g1_Add P a (g1_Neg P a) = g1_zero P"
proof -
  assume L: "g1_laws P"
  have "g1_Add P (g1_ScalarMult P a 1) (g1_ScalarMult P a (- 1)) = g1_ScalarMult P a (1 + - 1)"
    by (simp only: g1_mul_add[OF L])
  then show ?thesis
    by (simp add: g1_neg[OF L] g1_mul_1[OF L] g1_mul_0[OF L])
qed

section \<open>Sums of multiples\<close>

text \<open>The reference: the sum of the points, each times its scalar.\<close>

fun msm :: "'p G1Ops \<Rightarrow> 'p list \<Rightarrow> int list \<Rightarrow> 'p" where
  "msm P (g # gs) (x # xs) = g1_Add P (g1_ScalarMult P g x) (msm P gs xs)"
| "msm P _ _ = g1_zero P"

lemma msm_Nil [simp]: "msm P gs [] = g1_zero P"
  by (cases gs) simp_all

lemma foldl_msm:
  assumes L: "g1_laws P"
  shows "foldl (\<lambda>acc (g, x). g1_Add P acc (g1_ScalarMult P g x)) acc (zip gs xs) = g1_Add P acc (msm P gs xs)"
proof (induction gs xs arbitrary: acc rule: list_induct2')
  case (4 g gs x xs)
  then show ?case by (simp add: g1_assoc[OF L])
qed (simp_all add: g1_add_0[OF L])

lemma pv_Commit_msm: "g1_laws P \<Longrightarrow> length gs = length xs \<Longrightarrow> pv_Commit P gs xs = Inr (msm P gs xs)"
  by (simp add: pv_Commit_def foldl_msm g1_0_add)

lemma pv_MultiExponentiate_msm:
  "g1_laws P \<Longrightarrow> length xs \<le> length gs \<Longrightarrow> pv_MultiExponentiate P gs xs = Inr (msm P gs xs)"
  by (simp add: pv_MultiExponentiate_def foldl_msm g1_0_add)

lemma msm_append:
  "g1_laws P \<Longrightarrow> length gs = length xs \<Longrightarrow> msm P (gs @ hs) (xs @ ys) = g1_Add P (msm P gs xs) (msm P hs ys)"
  by (induction gs xs rule: list_induct2') (simp_all add: g1_assoc g1_0_add)

lemma msm_add:
  assumes L: "g1_laws P"
  shows "length xs = length ys \<Longrightarrow>
    msm P gs (map2 (\<lambda>a b. (a + b) mod Order) xs ys) = g1_Add P (msm P gs xs) (msm P gs ys)"
proof (induction gs xs arbitrary: ys rule: list_induct2')
  case (4 g gs x xs)
  then show ?case
    by (cases ys) (simp_all add: g1_mul_mod[OF L] g1_mul_add[OF L] g1_ac[OF L])
qed (simp_all add: g1_add_0[OF L])

lemma msm_times:
  assumes L: "g1_laws P"
  shows "msm P gs (map (\<lambda>a. (a * k) mod Order) xs) = g1_ScalarMult P (msm P gs xs) k"
  by (induction gs xs rule: list_induct2')
    (simp_all add: g1_mul_mod[OF L] g1_mul_mul[OF L] g1_add_mul[OF L] g1_zero_mul[OF L])

lemma msm_points_add:
  assumes L: "g1_laws P"
  shows "length gs = length hs \<Longrightarrow> msm P (map2 (g1_Add P) gs hs) xs = g1_Add P (msm P gs xs) (msm P hs xs)"
proof (induction gs xs arbitrary: hs rule: list_induct2')
  case (4 g gs x xs)
  then show ?case
    by (cases hs) (simp_all add: g1_add_mul[OF L] g1_ac[OF L])
qed (simp_all add: g1_add_0[OF L])

lemma msm_points_times:
  assumes L: "g1_laws P"
  shows "msm P (map (\<lambda>g. g1_ScalarMult P g k) gs) xs = g1_ScalarMult P (msm P gs xs) k"
  by (induction gs xs rule: list_induct2')
    (simp_all add: g1_mul_mul[OF L] g1_add_mul[OF L] g1_zero_mul[OF L] mult.commute)

section \<open>The modular inverse\<close>

lemma egcd_spec:
  assumes "0 \<le> r0" "0 \<le> r1" "n dvd r0 - a * s0" "n dvd r1 - a * s1"
  shows "\<exists>x. egcd r0 s0 r1 s1 = (gcd r0 r1, x) \<and> n dvd gcd r0 r1 - a * x"
  using assms
proof (induction r0 s0 r1 s1 rule: egcd.induct)
  case (1 r0 s0 r1 s1)
  show ?case
  proof (cases "r1 \<le> 0")
    case True
    then show ?thesis using 1(2-) by (simp add: egcd.simps)
  next
    case False
    have "r0 mod r1 - a * (s0 - (r0 div r1) * s1) = (r0 - a * s0) - (r0 div r1) * (r1 - a * s1)"
      by (simp add: minus_div_mult_eq_mod[symmetric] algebra_simps)
    then have "n dvd r0 mod r1 - a * (s0 - (r0 div r1) * s1)"
      using 1(4,5) by (metis dvd_diff dvd_mult)
    then have "\<exists>x. egcd r1 s1 (r0 mod r1) (s0 - (r0 div r1) * s1) = (gcd r1 (r0 mod r1), x) \<and> n dvd gcd r1 (r0 mod r1) - a * x"
      using False 1(3,5) by (intro 1(1)) auto
    moreover have "gcd r1 (r0 mod r1) = gcd r0 r1"
      by (metis gcd.commute gcd_red_int)
    ultimately show ?thesis
      using False by (subst egcd.simps) simp
  qed
qed

lemma ModInverse_spec:
  assumes "1 < n"
  shows "if coprime a n then \<exists>y. ModInverse a n = Some y \<and> 0 \<le> y \<and> y < n \<and> (a * y) mod n = 1 else ModInverse a n = None"
proof -
  have "n dvd a mod n - a * 1"
    by (metis mod_0_imp_dvd mod_diff_left_eq mult.right_neutral cancel_comm_monoid_add_class.diff_cancel mod_0)
  then obtain x where e: "egcd n 0 (a mod n) 1 = (gcd n (a mod n), x)" and c: "n dvd gcd n (a mod n) - a * x"
    using egcd_spec[of n "a mod n" n a 0 1] assms by auto
  have g: "gcd n (a mod n) = gcd a n"
    by (metis gcd.commute gcd_red_int)
  show ?thesis
  proof (cases "coprime a n")
    case True
    then have "gcd a n = 1" by simp
    then have "(a * (x mod n)) mod n = 1"
      using c assms by (simp add: g mod_mult_right_eq mod_eq_dvd_iff[symmetric])
    then show ?thesis
      using True assms by (simp add: ModInverse_def e g)
  next
    case False
    then have "gcd a n \<noteq> 1" using coprime_iff_gcd_eq_1 by blast
    then show ?thesis using False by (simp add: ModInverse_def e g)
  qed
qed

section \<open>A model of the laws\<close>

text \<open>The residues modulo the order satisfy the laws; they serve as the concrete input of the witnesses.\<close>

lemma Order_pos [simp]: "0 < Order" "1 < Order" "0 \<le> Order" "Order \<noteq> 0"
  by (simp_all add: Order_def)

typedef residue = "{0..<Order}"
  by (rule exI[of _ 0]) simp

setup_lifting type_definition_residue

lift_definition residue :: "int \<Rightarrow> residue" is "\<lambda>n. n mod Order"
  by simp

lift_definition residue_int :: "residue \<Rightarrow> int" is "\<lambda>n. n" .

lemma residue_int_range: "0 \<le> residue_int a" "residue_int a < Order"
  by (transfer, simp)+

lemma residue_int_residue: "residue_int (residue n) = n mod Order"
  by transfer simp

lemma residue_residue_int: "residue (residue_int a) = a"
  by transfer simp

lemma residue_eq: "residue m = residue n \<longleftrightarrow> m mod Order = n mod Order"
  by transfer simp

definition encode33 :: "int \<Rightarrow> bytes" where
  "encode33 n = replicate (33 - length (int_Bytes n)) 0 @ int_Bytes n"

definition residue_curve :: "residue G1Ops" where
  "residue_curve =
     \<lparr>g1_Add = \<lambda>a b. residue (residue_int a + residue_int b),
      g1_Neg = \<lambda>a. residue (- residue_int a),
      g1_ScalarMult = \<lambda>a n. residue (residue_int a * n),
      g1_Marshal = \<lambda>a. replicate 31 0 @ encode33 (residue_int a),
      g1_EncodeCompressed = \<lambda>a. encode33 (residue_int a),
      g1_DecodeCompressed = \<lambda>bs. if SetBytes bs mod Order = 0 then Inl (Error ''bn256: Cannot decompress'') else Inr (residue (SetBytes bs)),
      g1_String = \<lambda>a. encode33 (residue_int a),
      g1_G = residue 1, g1_H = residue 2\<rparr>"

lemma residue_laws: "g1_laws residue_curve"
proof -
  have "residue (residue_int (residue (residue_int a + residue_int b)) + residue_int c) =
        residue (residue_int a + residue_int (residue (residue_int b + residue_int c)))" for a b c
    by (simp add: residue_eq residue_int_residue mod_simps add.assoc)
  moreover have "residue (residue_int a * (m + n)) =
     residue (residue_int (residue (residue_int a * m)) + residue_int (residue (residue_int a * n)))" for a m n
    by (simp add: residue_eq residue_int_residue mod_simps distrib_left)
  moreover have "residue (residue_int (residue (residue_int a * m)) * n) = residue (residue_int a * (m * n))" for a m n
    by (simp add: residue_eq residue_int_residue mod_simps mult.assoc)
  moreover have "residue (residue_int (residue (residue_int a + residue_int b)) * n) =
     residue (residue_int (residue (residue_int a * n)) + residue_int (residue (residue_int b * n)))" for a b n
    by (simp add: residue_eq residue_int_residue mod_simps distrib_right)
  ultimately show ?thesis
    by (simp add: g1_laws_def residue_curve_def residue_int_residue residue_residue_int add.commute residue_eq)
qed

lemma encode33: "0 \<le> n \<Longrightarrow> n < Order \<Longrightarrow> length (encode33 n) = 33 \<and> SetBytes (encode33 n) = n"
proof -
  assume n: "0 \<le> n" "n < Order"
  then have "n < 256 ^ 33" by (simp add: Order_def)
  then have "length (int_Bytes n) \<le> 33" by (rule length_int_Bytes[OF n(1)])
  then show ?thesis using n by (simp add: encode33_def SetBytes_zeros SetBytes_int_Bytes)
qed

lemma residue_codec: "g1_codec residue_curve"
proof -
  have "residue_int a mod Order = residue_int a" for a using residue_int_range[of a] by simp
  moreover have "residue_int a = 0 \<longleftrightarrow> a = residue 0" for a
    using residue_int_residue[of 0] residue_residue_int[of a] by auto
  ultimately show ?thesis
    by (simp add: g1_codec_def g1_zero_def residue_curve_def encode33 residue_int_range residue_residue_int residue_int_residue)
qed

lemma residue_zero: "residue n = g1_zero residue_curve \<longleftrightarrow> n mod Order = 0"
  by (simp add: g1_zero_def residue_curve_def residue_int_residue residue_eq)

end
