(* ===== verification/Signatures.thy ===== *)
theory Signatures
  imports Crypto_Algebra
begin

text \<open>
  Hashing to scalars (\<^verbatim>\<open>hashtopoint.go\<close>, \<^verbatim>\<open>const.go\<close>), Schnorr signatures (\<^verbatim>\<open>utils.go\<close>), the shared secret
  of \<^verbatim>\<open>userdata.go\<close>, and the trial decryption of a balance (\<^verbatim>\<open>balance_decryptor.go\<close>).  The hash
  functions are arguments; so are the random scalars drawn.
\<close>

section \<open>Scalars and bytes\<close>

definition ConvertBigIntToByte :: "int \<Rightarrow> bytes" where
  "ConvertBigIntToByte x = (let joined = replicate 128 0 @ int_Bytes x in drop (length joined - 32) joined)"

definition HashtoNumber :: "(bytes \<Rightarrow> bytes) \<Rightarrow> bytes \<Rightarrow> int" where
  "HashtoNumber keccak inp = SetBytes (keccak inp)"

definition reducedhash :: "(bytes \<Rightarrow> bytes) \<Rightarrow> bytes \<Rightarrow> int" where
  "reducedhash keccak inp = HashtoNumber keccak inp mod Order"

definition ReducedHash :: "(bytes \<Rightarrow> bytes) \<Rightarrow> bytes \<Rightarrow> int" where
  "ReducedHash keccak inp = HashtoNumber keccak inp mod Order"

text \<open>The loops of \<^verbatim>\<open>const.go\<close>.\<close>

function IsPowerOf2 :: "int \<Rightarrow> bool" where
  "IsPowerOf2 num = (if num \<ge> 2 then (if num mod 2 \<noteq> 0 then False else IsPowerOf2 (num div 2)) else num = 1)"
  by auto
termination by (relation "measure nat") auto

declare IsPowerOf2.simps [simp del]

text \<open>The doubling loop ends when it meets \<open>num\<close>; it would not for a number it never meets, which
  the guard before it excludes.\<close>

fun GetPowerof2_loop :: "nat \<Rightarrow> int \<Rightarrow> int \<Rightarrow> int \<Rightarrow> int result" where
  "GetPowerof2_loop 0 num calculated pow = Inl Timeout"
| "GetPowerof2_loop (Suc fuel) num calculated pow =
     (if calculated = num then Inr pow else GetPowerof2_loop fuel num (calculated * 2) (pow + 1))"

definition GetPowerof2 :: "nat \<Rightarrow> int \<Rightarrow> int result" where
  "GetPowerof2 fuel num =
     (if num \<le> 0 then Inl (Error ''number cannot be less than 0'')
      else if \<not> IsPowerOf2 num then Inl (Error ''number must be power of 2'')
      else GetPowerof2_loop fuel num 1 0)"

section \<open>Schnorr signatures\<close>

text \<open>\<open>copy(out[32-len(b):32], b)\<close> into a zeroed half of the signature.\<close>

definition right_align32 :: "bytes \<Rightarrow> bytes result" where
  "right_align32 b =
     (if length b > 32 then Inl (Panic ''slice bounds out of range'') else Inr (replicate (32 - length b) 0 @ b))"

definition SignMessage :: "'p G1Ops \<Rightarrow> (bytes \<Rightarrow> bytes) \<Rightarrow> int \<Rightarrow> bytes \<Rightarrow> bytes \<Rightarrow> bytes result" where
  "SignMessage P keccak tmpsecret message key =
     (let tmppoint = g1_ScalarMult P (g1_G P) tmpsecret;
          priv = SetBytes key;
          pubKey = g1_ScalarMult P (g1_G P) priv;
          serialize = g1_String P pubKey @ g1_String P tmppoint @ message;
          c = ReducedHash keccak serialize;
          s = ((c * priv) mod Order + tmpsecret) mod Order
      in rbind (right_align32 (int_Bytes s)) (\<lambda>a. rbind (right_align32 (int_Bytes c)) (\<lambda>b. Inr (a @ b))))"

text \<open>\<open>None\<close> is the nil signature; a slice expression past the capacity panics.\<close>

definition VerifySignaturePoint :: "'p G1Ops \<Rightarrow> (bytes \<Rightarrow> bytes) \<Rightarrow> bytes \<Rightarrow> bytes option \<Rightarrow> 'p \<Rightarrow> bool result" where
  "VerifySignaturePoint P keccak message signature u =
     (case signature of
        None \<Rightarrow> Inr False
      | Some sig \<Rightarrow>
          if length sig < 64 then Inl (Panic ''slice bounds out of range'')
          else
            (let s = SetBytes (take 32 sig);
                 c = SetBytes (take 32 (drop 32 sig));
                 tmppoint = g1_Add P (g1_ScalarMult P (g1_G P) s) (g1_ScalarMult P u (- c));
                 serialize = g1_String P u @ g1_String P tmppoint @ message;
                 cCalculated = ReducedHash keccak serialize
             in Inr (int_Bytes c = int_Bytes cCalculated)))"

definition VerifySignature :: "'p G1Ops \<Rightarrow> (bytes \<Rightarrow> bytes) \<Rightarrow> bytes \<Rightarrow> bytes option \<Rightarrow> bytes \<Rightarrow> bool result" where
  "VerifySignature P keccak message signature publicKey =
     (case g1_DecodeCompressed P publicKey of
        Inl (Error _) \<Rightarrow> Inr False
      | Inl f \<Rightarrow> Inl f
      | Inr u \<Rightarrow> VerifySignaturePoint P keccak message signature u)"

definition GenerateSharedSecret :: "'p G1Ops \<Rightarrow> (bytes \<Rightarrow> bytes) \<Rightarrow> int \<Rightarrow> 'p \<Rightarrow> bytes result" where
  "GenerateSharedSecret P sha3 secret peer_publickey =
     (let compressed = g1_EncodeCompressed P (g1_ScalarMult P peer_publickey secret) in
      if length compressed \<noteq> 33 then Inl (Error ''point compression needs to be fixed'')
      else Inr (sha3 compressed))"

section \<open>Reading a balance with a private key\<close>

definition TryDecryptBalance :: "'p G1Ops \<Rightarrow> 'p \<Rightarrow> uint64 \<Rightarrow> bool" where
  "TryDecryptBalance P p matchBalance \<longleftrightarrow> g1_String P (g1_ScalarMult P (g1_G P) (uint matchBalance)) = g1_String P p"

definition balancePoint :: "'p G1Ops \<Rightarrow> bytes \<Rightarrow> 'p ElGamal \<Rightarrow> 'p result" where
  "balancePoint P key balance =
     rbind (rderef (eg_Right balance)) (\<lambda>r. rbind (rderef (eg_Left balance)) (\<lambda>l.
     Inr (g1_Add P l (g1_Neg P (g1_ScalarMult P r (SetBytes key))))))"

definition PrivateKey_TryDecryptBalance :: "'p G1Ops \<Rightarrow> bytes \<Rightarrow> 'p ElGamal \<Rightarrow> uint64 \<Rightarrow> bool result" where
  "PrivateKey_TryDecryptBalance P key balance matchValue =
     rbind (balancePoint P key balance) (\<lambda>p. Inr (TryDecryptBalance P p matchValue))"

section \<open>Properties\<close>

lemma int_Bytes_inj: "0 \<le> m \<Longrightarrow> 0 \<le> n \<Longrightarrow> int_Bytes m = int_Bytes n \<longleftrightarrow> m = n"
  by (metis SetBytes_int_Bytes)

lemma scalar_bytes_le: "length (int_Bytes (n mod Order)) \<le> 32"
proof -
  have "n mod Order < Order" by simp
  also have "Order < 256 ^ 32" by (simp add: Order_def)
  finally show ?thesis by (intro length_int_Bytes) (simp_all add: Order_def)
qed

lemma right_align32_scalar:
  "right_align32 (int_Bytes (n mod Order)) = Inr (replicate (32 - length (int_Bytes (n mod Order))) 0 @ int_Bytes (n mod Order))"
  using scalar_bytes_le[of n] by (simp add: right_align32_def)

lemma ConvertBigIntToByte_scalar:
  "length (ConvertBigIntToByte (n mod Order)) = 32 \<and> SetBytes (ConvertBigIntToByte (n mod Order)) = n mod Order"
proof -
  let ?b = "int_Bytes (n mod Order)"
  have "ConvertBigIntToByte (n mod Order) = replicate (32 - length ?b) 0 @ ?b"
    using scalar_bytes_le[of n] by (simp add: ConvertBigIntToByte_def drop_append Let_def)
  then show ?thesis
    using scalar_bytes_le[of n] by (simp add: SetBytes_zeros SetBytes_int_Bytes)
qed

lemma schnorr_mod: "((c * x mod m + k) mod m + x * - c) mod m = (k :: int) mod m"
proof -
  have "((c * x mod m + k) mod m + x * - c) mod m = (c * x + k + x * - c) mod m"
    by (metis mod_add_left_eq)
  then show ?thesis by (simp add: mult.commute)
qed

lemma VerifySignaturePoint_halves:
  assumes "length a = 32" "length b = 32"
  shows "VerifySignaturePoint P keccak message (Some (a @ b)) u =
    Inr (SetBytes b = ReducedHash keccak (g1_String P u @
      g1_String P (g1_Add P (g1_ScalarMult P (g1_G P) (SetBytes a)) (g1_ScalarMult P u (- SetBytes b))) @ message))"
  using assms by (simp add: VerifySignaturePoint_def Let_def int_Bytes_inj ReducedHash_def)

text \<open>The private keys of points other than the identity, the multiples of the order being excluded.\<close>

definition key_ok :: "'p G1Ops \<Rightarrow> bytes \<Rightarrow> bool" where
  "key_ok P key \<longleftrightarrow> g1_ScalarMult P (g1_G P) (SetBytes key) \<noteq> g1_zero P"

lemma SignMessage_sound:
  assumes L: "g1_laws P" and K: "g1_codec P"
  shows "\<exists>sig. SignMessage P keccak tmpsecret message key = Inr sig \<and> length sig = 64 \<and>
    VerifySignature P keccak message (Some sig) (g1_EncodeCompressed P (g1_ScalarMult P (g1_G P) (SetBytes key))) = Inr (key_ok P key)"
proof -
  let ?x = "SetBytes key" and ?G = "g1_G P"
  let ?u = "g1_ScalarMult P ?G ?x"
  let ?h = "HashtoNumber keccak (g1_String P ?u @ g1_String P (g1_ScalarMult P ?G tmpsecret) @ message)"
  let ?c = "?h mod Order"
  let ?t = "?c * ?x mod Order + tmpsecret"
  let ?a = "replicate (32 - length (int_Bytes (?t mod Order))) 0 @ int_Bytes (?t mod Order)"
  let ?b = "replicate (32 - length (int_Bytes ?c)) 0 @ int_Bytes ?c"
  have len: "length ?a = 32" "length ?b = 32"
    using scalar_bytes_le[of ?t] scalar_bytes_le[of ?h] by simp_all
  have sign: "SignMessage P keccak tmpsecret message key = Inr (?a @ ?b)"
    by (simp add: SignMessage_def ReducedHash_def Let_def right_align32_scalar)
  have s: "SetBytes ?a = ?t mod Order" and c: "SetBytes ?b = ?c"
    by (simp_all add: SetBytes_zeros SetBytes_int_Bytes)
  have "(?t mod Order + ?x * - ?c) mod Order = tmpsecret mod Order"
    by (rule schnorr_mod)
  then have "g1_Add P (g1_ScalarMult P ?G (?t mod Order)) (g1_ScalarMult P ?u (- ?c)) = g1_ScalarMult P ?G tmpsecret"
    unfolding g1_mul_mul[OF L] g1_mul_add[OF L, symmetric] by (rule g1_mul_cong[OF L])
  then have "VerifySignaturePoint P keccak message (Some (?a @ ?b)) ?u = Inr True"
    unfolding VerifySignaturePoint_halves[OF len] s c by (simp add: ReducedHash_def)
  then have "VerifySignature P keccak message (Some (?a @ ?b)) (g1_EncodeCompressed P ?u) = Inr (key_ok P key)"
    using K by (simp add: VerifySignature_def g1_codec_def key_ok_def)
  then show ?thesis
    using sign len by simp
qed

lemma key_ok_residue: "key_ok residue_curve key \<longleftrightarrow> SetBytes key mod Order \<noteq> 0"
  using residue_zero[of "SetBytes key"] by (simp add: key_ok_def residue_curve_def residue_int_residue)

text \<open>C10: A signature made with a private key is 64 bytes long and verifies against the public key of that
  private key, for every message, every random scalar drawn and every hash function, exactly when the public
  key is not the identity: the 33 bytes of the identity are no public key, and every signature is refused for them.\<close>

theorem SignMessage_verifies:
  assumes L: "g1_laws P" and K: "g1_codec P"
  shows "\<exists>sig. SignMessage P keccak tmpsecret message key = Inr sig \<and> length sig = 64 \<and>
    VerifySignature P keccak message (Some sig) (g1_EncodeCompressed P (g1_ScalarMult P (g1_G P) (SetBytes key))) =
      Inr (g1_ScalarMult P (g1_G P) (SetBytes key) \<noteq> g1_zero P)"
  using SignMessage_sound[OF assms] by (simp only: key_ok_def)

theorem SignMessage_verifies_witness:
  "\<exists>sig. SignMessage residue_curve (take 32) 5 [1, 2] [7] = Inr sig \<and> length sig = 64 \<and>
    VerifySignature residue_curve (take 32) [1, 2] (Some sig)
      (g1_EncodeCompressed residue_curve (g1_ScalarMult residue_curve (g1_G residue_curve) (SetBytes [7]))) = Inr True"
proof -
  have "g1_ScalarMult residue_curve (g1_G residue_curve) (SetBytes [7]) \<noteq> g1_zero residue_curve"
    using key_ok_residue[of "[7]"] by (simp only: key_ok_def) (simp add: SetBytes_def Order_def)
  then show ?thesis
    using SignMessage_verifies[OF residue_laws residue_codec, of "take 32" 5 "[1, 2]" "[7]"] by simp
qed

text \<open>The value a private key reads off a ciphertext.\<close>

definition opens :: "'p G1Ops \<Rightarrow> bytes \<Rightarrow> 'p ElGamal \<Rightarrow> int \<Rightarrow> bool" where
  "opens P key e v \<longleftrightarrow> eg_G e = g1_G P \<and> balancePoint P key e = Inr (g1_ScalarMult P (g1_G P) v)"

lemma opensE:
  assumes "opens P key e v"
  obtains l r where "eg_G e = g1_G P" "eg_Left e = Some l" "eg_Right e = Some r"
    "g1_Add P l (g1_Neg P (g1_ScalarMult P r (SetBytes key))) = g1_ScalarMult P (g1_G P) v"
  using assms
  by (cases "eg_Left e"; cases "eg_Right e") (auto simp: opens_def balancePoint_def rderef_def)

lemma opens_pair:
  "opens P key \<lparr>eg_G = g1_G P, eg_Randomness = k, eg_Left = Some l, eg_Right = Some r\<rparr> v \<longleftrightarrow>
     g1_Add P l (g1_Neg P (g1_ScalarMult P r (SetBytes key))) = g1_ScalarMult P (g1_G P) v"
  by (simp add: opens_def balancePoint_def)

lemmas eg_construct = ConstructElGamal_def NewElGamal_def rderef_def

lemma opens_commit:
  assumes L: "g1_laws P"
  shows "opens P key (CommitElGamal P r (g1_ScalarMult P (g1_G P) (SetBytes key)) v) v"
proof -
  have "g1_Add P (g1_Add P a (g1_ScalarMult P b (x * r))) (g1_Neg P (g1_ScalarMult P b (r * x))) = a" for a b x
    by (simp add: g1_assoc[OF L] g1_add_neg[OF L] g1_add_0[OF L] mult.commute)
  then show ?thesis
    by (simp add: CommitElGamal_def NewElGamal_def opens_pair g1_mul_mul[OF L])
qed

lemma opens_Add:
  assumes L: "g1_laws P" and "opens P key e v" "opens P key e' v'"
  shows "\<exists>s. ElGamal_Add P e e' = Inr s \<and> opens P key s (v + v')"
proof -
  from assms(2) obtain l r where e: "eg_Left e = Some l" "eg_Right e = Some r"
    and v: "g1_Add P l (g1_Neg P (g1_ScalarMult P r (SetBytes key))) = g1_ScalarMult P (g1_G P) v" by (rule opensE)
  from assms(3) obtain l' r' where e': "eg_Left e' = Some l'" "eg_Right e' = Some r'"
    and v': "g1_Add P l' (g1_Neg P (g1_ScalarMult P r' (SetBytes key))) = g1_ScalarMult P (g1_G P) v'" by (rule opensE)
  show ?thesis
    by (simp add: ElGamal_Add_def e e' eg_construct opens_pair)
      (simp add: g1_mul_add[OF L] v[symmetric] v'[symmetric] g1_neg[OF L] g1_add_mul[OF L] g1_ac[OF L])
qed

lemma opens_Plus:
  assumes L: "g1_laws P" and "opens P key e v"
  shows "\<exists>s. ElGamal_Plus P e n = Inr s \<and> opens P key s (v + n)"
proof -
  from assms(2) obtain l r where e: "eg_G e = g1_G P" "eg_Left e = Some l" "eg_Right e = Some r"
    and v: "g1_Add P l (g1_Neg P (g1_ScalarMult P r (SetBytes key))) = g1_ScalarMult P (g1_G P) v" by (rule opensE)
  show ?thesis
    by (simp add: ElGamal_Plus_def e eg_construct opens_pair)
      (simp add: g1_mul_add[OF L] v[symmetric] g1_ac[OF L])
qed

lemma opens_Mul:
  assumes L: "g1_laws P" and "opens P key e v"
  shows "\<exists>s. ElGamal_Mul P e n = Inr s \<and> opens P key s (v * n)"
proof -
  from assms(2) obtain l r where e: "eg_Left e = Some l" "eg_Right e = Some r"
    and v: "g1_Add P l (g1_Neg P (g1_ScalarMult P r (SetBytes key))) = g1_ScalarMult P (g1_G P) v" by (rule opensE)
  have "g1_Add P (g1_ScalarMult P l n) (g1_Neg P (g1_ScalarMult P (g1_ScalarMult P r n) (SetBytes key))) =
     g1_ScalarMult P (g1_Add P l (g1_Neg P (g1_ScalarMult P r (SetBytes key)))) n"
    by (simp add: g1_neg[OF L] g1_add_mul[OF L] g1_mul_mul[OF L] mult.commute mult.left_commute)
  then show ?thesis
    by (simp add: ElGamal_Mul_def e eg_construct opens_pair v g1_mul_mul[OF L])
qed

lemma opens_Neg:
  assumes L: "g1_laws P" and "opens P key e v"
  shows "\<exists>s. ElGamal_Neg P e = Inr s \<and> opens P key s (- v)"
proof -
  from assms(2) obtain l r where e: "eg_Left e = Some l" "eg_Right e = Some r"
    and v: "g1_Add P l (g1_Neg P (g1_ScalarMult P r (SetBytes key))) = g1_ScalarMult P (g1_G P) v" by (rule opensE)
  have "g1_Add P (g1_Neg P l) (g1_Neg P (g1_ScalarMult P (g1_Neg P r) (SetBytes key))) =
     g1_Neg P (g1_Add P l (g1_Neg P (g1_ScalarMult P r (SetBytes key))))"
    by (simp add: g1_neg[OF L] g1_add_mul[OF L] g1_mul_mul[OF L])
  then show ?thesis
    by (simp add: ElGamal_Neg_def e eg_construct opens_pair v) (simp add: g1_neg[OF L] g1_mul_mul[OF L])
qed

text \<open>C9: The operations on ciphertexts are homomorphic for every holder of the private key: what is read
  off a sum, a sum with a public amount, a multiple or a negation is the sum, the multiple or the
  negation of what is read off the operands; none of them panics on such ciphertexts.\<close>

theorem ElGamal_homomorphic:
  assumes "g1_laws P" "opens P key e v" "opens P key e' v'"
  shows "\<exists>sum plus mul neg.
    ElGamal_Add P e e' = Inr sum \<and> opens P key sum (v + v') \<and>
    ElGamal_Plus P e n = Inr plus \<and> opens P key plus (v + n) \<and>
    ElGamal_Mul P e n = Inr mul \<and> opens P key mul (v * n) \<and>
    ElGamal_Neg P e = Inr neg \<and> opens P key neg (- v)"
  using opens_Add[OF assms] opens_Plus[OF assms(1,2), of n] opens_Mul[OF assms(1,2), of n] opens_Neg[OF assms(1,2)]
  by blast

theorem ElGamal_homomorphic_witness:
  "\<exists>sum plus mul neg.
    ElGamal_Add residue_curve (CommitElGamal residue_curve 11 (g1_ScalarMult residue_curve (g1_G residue_curve) (SetBytes [9])) 3)
      (CommitElGamal residue_curve 12 (g1_ScalarMult residue_curve (g1_G residue_curve) (SetBytes [9])) 4) = Inr sum \<and>
    opens residue_curve [9] sum (3 + 4) \<and>
    ElGamal_Plus residue_curve (CommitElGamal residue_curve 11 (g1_ScalarMult residue_curve (g1_G residue_curve) (SetBytes [9])) 3) 5 = Inr plus \<and>
    opens residue_curve [9] plus (3 + 5) \<and>
    ElGamal_Mul residue_curve (CommitElGamal residue_curve 11 (g1_ScalarMult residue_curve (g1_G residue_curve) (SetBytes [9])) 3) 5 = Inr mul \<and>
    opens residue_curve [9] mul (3 * 5) \<and>
    ElGamal_Neg residue_curve (CommitElGamal residue_curve 11 (g1_ScalarMult residue_curve (g1_G residue_curve) (SetBytes [9])) 3) = Inr neg \<and>
    opens residue_curve [9] neg (- 3)"
  by (rule ElGamal_homomorphic[OF residue_laws opens_commit[OF residue_laws] opens_commit[OF residue_laws]])

text \<open>C28: A ciphertext is serialised to 66 bytes.  Reading them back gives the two points again when neither is the
  identity, and is refused when one is; any other length than 66 bytes is refused.\<close>

theorem ElGamal_roundtrip:
  assumes K: "g1_codec P" and "eg_Left e = Some l" "eg_Right e = Some r"
  shows "\<exists>bs. ElGamal_Serialize P e = Inr bs \<and> length bs = 66 \<and>
    (if l \<noteq> g1_zero P \<and> r \<noteq> g1_zero P
     then ElGamal_Deserialize P bs = Inr \<lparr>eg_G = g1_G P, eg_Randomness = None, eg_Left = Some l, eg_Right = Some r\<rparr>
     else ElGamal_Deserialize P bs = Inl (Error ''bn256: Cannot decompress'')) \<and>
    (\<forall>ds. length ds \<noteq> 66 \<longrightarrow> (\<exists>m. ElGamal_Deserialize P ds = Inl (Error m)))"
  using assms by (simp add: ElGamal_Serialize_def ElGamal_Deserialize_def g1_codec_def eg_construct)

theorem ElGamal_roundtrip_witness:
  "\<exists>bs. ElGamal_Serialize residue_curve (CommitElGamal residue_curve 11 (g1_G residue_curve) 3) = Inr bs \<and> length bs = 66 \<and>
    ElGamal_Deserialize residue_curve bs = Inr \<lparr>eg_G = g1_G residue_curve, eg_Randomness = None,
      eg_Left = Some (g1_Add residue_curve (g1_ScalarMult residue_curve (g1_G residue_curve) 3) (g1_ScalarMult residue_curve (g1_G residue_curve) 11)),
      eg_Right = Some (g1_ScalarMult residue_curve (g1_G residue_curve) 11)\<rparr> \<and>
    (\<forall>ds. length ds \<noteq> 66 \<longrightarrow> (\<exists>m. ElGamal_Deserialize residue_curve ds = Inl (Error m)))"
proof -
  let ?P = residue_curve
  let ?l = "g1_Add ?P (g1_ScalarMult ?P (g1_G ?P) 3) (g1_ScalarMult ?P (g1_G ?P) 11)" and ?r = "g1_ScalarMult ?P (g1_G ?P) 11"
  have n: "?l \<noteq> g1_zero ?P" "?r \<noteq> g1_zero ?P"
    by (simp_all add: residue_curve_def g1_zero_def residue_int_residue residue_eq) (simp_all add: Order_def)
  have "eg_Left (CommitElGamal ?P 11 (g1_G ?P) 3) = Some ?l" "eg_Right (CommitElGamal ?P 11 (g1_G ?P) 3) = Some ?r"
    by (simp_all add: CommitElGamal_def NewElGamal_def)
  from ElGamal_roundtrip[OF residue_codec this] show ?thesis using n by simp
qed

section \<open>Powers of two\<close>

lemma small_power_of_2: "n \<le> 1 \<Longrightarrow> (\<exists>k. n = 2 ^ k) \<longleftrightarrow> (n :: int) = 1"
proof -
  assume "n \<le> 1"
  moreover have "(1 :: int) \<le> 2 ^ k" for k by simp
  ultimately have "n = 2 ^ k \<Longrightarrow> n = 1" for k by (metis order.antisym)
  then show ?thesis by (metis power_0)
qed

lemma IsPowerOf2_iff: "IsPowerOf2 n \<longleftrightarrow> (\<exists>k. n = 2 ^ k)"
proof (induction n rule: IsPowerOf2.induct)
  case (1 n)
  consider "n \<le> 1" | "2 \<le> n" "odd n" | "2 \<le> n" "even n" by linarith
  then show ?case
  proof cases
    case 1
    then show ?thesis
      by (subst IsPowerOf2.simps) (simp add: small_power_of_2)
  next
    case 2
    have "n \<noteq> 2 ^ k" for k
      using 2 by (cases k) auto
    then have "\<nexists>k. n = 2 ^ k" by blast
    then show ?thesis
      using 2 by (subst IsPowerOf2.simps) (simp add: odd_iff_mod_2_eq_one)
  next
    case 3
    then have "(\<exists>k. n div 2 = 2 ^ k) \<longleftrightarrow> (\<exists>k. n = 2 ^ k)"
    proof (intro iffI; elim exE)
      fix k assume "n = 2 ^ k"
      then obtain j where "k = Suc j" using 3 by (cases k) auto
      then show "\<exists>k. n div 2 = 2 ^ k" using \<open>n = 2 ^ k\<close> by auto
    qed (metis 3(2) dvd_mult_div_cancel power_Suc)
    then show ?thesis
      using 3 1 by (subst IsPowerOf2.simps) (simp add: even_iff_mod_2_eq_zero)
  qed
qed

lemma GetPowerof2_loop_steps: "k \<le> j \<Longrightarrow> j < k + fuel \<Longrightarrow> GetPowerof2_loop fuel (2 ^ j) (2 ^ k) (int k) = Inr (int j)"
proof (induction fuel arbitrary: k)
  case (Suc fuel)
  show ?case
  proof (cases "k = j")
    case False
    then have "GetPowerof2_loop fuel (2 ^ j) (2 ^ Suc k) (int (Suc k)) = Inr (int j)"
      using Suc by (intro Suc.IH) auto
    then show ?thesis using False by (simp add: mult.commute add.commute)
  qed simp
qed simp

text \<open>C29: The exponent of a power of two is found by the doubling loop in at most as many rounds as the exponent
  plus one, and every other number is refused before the loop, which would not end on it.\<close>

theorem GetPowerof2_terminates:
  "(GetPowerof2 (Suc k) (2 ^ k) = Inr (int k)) \<and>
   ((\<nexists>j. n = 2 ^ j) \<longrightarrow> (\<exists>m. GetPowerof2 fuel n = Inl (Error m)))"
proof -
  have "IsPowerOf2 (2 ^ k)" by (auto simp: IsPowerOf2_iff)
  then have "GetPowerof2 (Suc k) (2 ^ k) = Inr (int k)"
    using GetPowerof2_loop_steps[of 0 k "Suc k"] by (simp add: GetPowerof2_def)
  moreover have "(\<nexists>j. n = 2 ^ j) \<longrightarrow> (\<exists>m. GetPowerof2 fuel n = Inl (Error m))"
    by (simp add: GetPowerof2_def IsPowerOf2_iff)
  ultimately show ?thesis by blast
qed

theorem GetPowerof2_terminates_witness:
  "GetPowerof2 (Suc 7) (2 ^ 7) = Inr (int 7) \<and> (\<exists>m. GetPowerof2 100 (- 6) = Inl (Error m))"
proof -
  have "(- 6 :: int) \<noteq> 2 ^ j" for j
  proof -
    have "(0 :: int) < 2 ^ j" by simp
    then show ?thesis by linarith
  qed
  then have "\<nexists>j. (- 6 :: int) = 2 ^ j" by blast
  then show ?thesis using GetPowerof2_terminates[of 7 "- 6" 100] by blast
qed

end
