(* ===== verification/Addresses.thy ===== *)
theory Addresses
  imports Signatures
begin

text \<open>
  Keys and addresses (\<^verbatim>\<open>addresses/\<close>): private keys and seeds in their short and their checksummed
  form, and addresses with the data integrated in them.  The network selected by the configuration,
  RIPEMD-160 and Base58 are arguments.
\<close>

unbundle bit_operations_syntax

section \<open>Constants\<close>

definition ChecksumSize :: nat where "ChecksumSize = 4"
definition PrivateKeySize :: nat where "PrivateKeySize = 32"
definition SeedSize :: nat where "SeedSize = 64"
definition SignatureSize :: nat where "SignatureSize = 64"

definition MAIN_NET_NETWORK_BYTE :: uint64 where "MAIN_NET_NETWORK_BYTE = 0"
definition TEST_NET_NETWORK_BYTE :: uint64 where "TEST_NET_NETWORK_BYTE = 1033"
definition DEV_NET_NETWORK_BYTE :: uint64 where "DEV_NET_NETWORK_BYTE = 4255"
definition MAIN_NET_NETWORK_BYTE_PREFIX :: bytes where "MAIN_NET_NETWORK_BYTE_PREFIX = lit ''PANDORA''"
definition TEST_NET_NETWORK_BYTE_PREFIX :: bytes where "TEST_NET_NETWORK_BYTE_PREFIX = lit ''PANTEST''"
definition DEV_NET_NETWORK_BYTE_PREFIX :: bytes where "DEV_NET_NETWORK_BYTE_PREFIX = lit ''PANDDEV''"
definition NETWORK_BYTE_PREFIX_LENGTH :: nat where "NETWORK_BYTE_PREFIX_LENGTH = 7"

definition SIMPLE_PUBLIC_KEY :: uint64 where "SIMPLE_PUBLIC_KEY = 0"
definition SIMPLE_PRIVATE_KEY :: uint64 where "SIMPLE_PRIVATE_KEY = 0"
definition SIMPLE_PRIVATE_KEY_WIF :: uint64 where "SIMPLE_PRIVATE_KEY_WIF = 1"

definition GetChecksum :: "(bytes \<Rightarrow> bytes) \<Rightarrow> bytes \<Rightarrow> bytes" where
  "GetChecksum ripemd b = take ChecksumSize (ripemd b)"

section \<open>Keys\<close>

record KeyWIF =
  kw_Version :: uint64
  kw_Network :: uint64
  kw_Key :: bytes
  kw_Checksum :: bytes

definition computeCheckSum :: "(bytes \<Rightarrow> bytes) \<Rightarrow> KeyWIF \<Rightarrow> bytes" where
  "computeCheckSum ripemd pk =
     GetChecksum ripemd (SerializeToBytes (ser_seq
       [WriteUvarint (kw_Version pk), WriteUvarint (kw_Network pk), Write (kw_Key pk)]))"

text \<open>The fields of the receiver are set while the input is read.\<close>

definition KeyWIF_read :: "nat \<Rightarrow> (BufferReader, uint64 \<times> uint64 \<times> bytes \<times> bytes) go" where
  "KeyWIF_read keySize =
     gbind ReadUvarint (\<lambda>version.
     gbind ReadUvarint (\<lambda>network.
     gbind (ReadBytes (int keySize)) (\<lambda>key.
     gbind (ReadBytes (int ChecksumSize)) (\<lambda>checksum.
     gret (version, network, key, checksum)))))"

definition KeyWIF_deserialize :: "(bytes \<Rightarrow> bytes) \<Rightarrow> bytes \<Rightarrow> nat \<Rightarrow> KeyWIF result" where
  "KeyWIF_deserialize ripemd buffer keySize =
     (if length buffer = keySize then
        (let pk = \<lparr>kw_Version = SIMPLE_PRIVATE_KEY, kw_Network = MAIN_NET_NETWORK_BYTE, kw_Key = buffer, kw_Checksum = []\<rparr>
         in Inr (pk\<lparr>kw_Checksum := computeCheckSum ripemd pk\<rparr>))
      else if length buffer \<ge> 1 + 1 + keySize + ChecksumSize then
        (let checksum = GetChecksum ripemd (take (length buffer - ChecksumSize) buffer) in
         rbind (fst (KeyWIF_read keySize (NewBufferReader buffer))) (\<lambda>(version, network, key, sum).
         if sum \<noteq> checksum then Inl (Error ''Private Key WIF Checksum is not matching'')
         else Inr \<lparr>kw_Version = version, kw_Network = network, kw_Key = key, kw_Checksum = sum\<rparr>))
      else Inl (Error ''Private Key length is invalid''))"

definition KeyWIF_Serialize :: "KeyWIF \<Rightarrow> bytes" where
  "KeyWIF_Serialize pk =
     SerializeToBytes
       (if kw_Version pk = SIMPLE_PRIVATE_KEY then Write (kw_Key pk)
        else if kw_Version pk = SIMPLE_PRIVATE_KEY_WIF then
          ser_seq [WriteUvarint (kw_Version pk), WriteUvarint (kw_Network pk), Write (kw_Key pk), Write (kw_Checksum pk)]
        else (\<lambda>w. w))"

definition new_key :: "(bytes \<Rightarrow> bytes) \<Rightarrow> uint64 \<Rightarrow> nat \<Rightarrow> bytes \<Rightarrow> KeyWIF result" where
  "new_key ripemd NETWORK_SELECTED keySize key =
     (if length key \<noteq> keySize then Inl (Error ''Private Key length is invalid'')
      else
        (let pk = \<lparr>kw_Version = SIMPLE_PRIVATE_KEY_WIF, kw_Network = NETWORK_SELECTED, kw_Key = key, kw_Checksum = []\<rparr>
         in Inr (pk\<lparr>kw_Checksum := computeCheckSum ripemd pk\<rparr>)))"

definition NewPrivateKey :: "(bytes \<Rightarrow> bytes) \<Rightarrow> uint64 \<Rightarrow> bytes \<Rightarrow> KeyWIF result" where
  "NewPrivateKey ripemd NETWORK_SELECTED key = new_key ripemd NETWORK_SELECTED PrivateKeySize key"

definition NewSeedExtended :: "(bytes \<Rightarrow> bytes) \<Rightarrow> uint64 \<Rightarrow> bytes \<Rightarrow> KeyWIF result" where
  "NewSeedExtended ripemd NETWORK_SELECTED key = new_key ripemd NETWORK_SELECTED SeedSize key"

definition PrivateKey_Deserialize :: "(bytes \<Rightarrow> bytes) \<Rightarrow> bytes \<Rightarrow> KeyWIF result" where
  "PrivateKey_Deserialize ripemd buffer = KeyWIF_deserialize ripemd buffer PrivateKeySize"

definition SeedExtended_Deserialize :: "(bytes \<Rightarrow> bytes) \<Rightarrow> bytes \<Rightarrow> KeyWIF result" where
  "SeedExtended_Deserialize ripemd buffer = KeyWIF_deserialize ripemd buffer SeedSize"

definition GeneratePublicKeyPoint :: "'p G1Ops \<Rightarrow> KeyWIF \<Rightarrow> 'p" where
  "GeneratePublicKeyPoint P pk = g1_ScalarMult P (g1_G P) (SetBytes (kw_Key pk))"

definition GeneratePublicKey :: "'p G1Ops \<Rightarrow> KeyWIF \<Rightarrow> bytes" where
  "GeneratePublicKey P pk = g1_EncodeCompressed P (g1_ScalarMult P (g1_G P) (SetBytes (kw_Key pk)))"

definition PrivateKey_Sign :: "'p G1Ops \<Rightarrow> (bytes \<Rightarrow> bytes) \<Rightarrow> int \<Rightarrow> KeyWIF \<Rightarrow> bytes \<Rightarrow> bytes result" where
  "PrivateKey_Sign P keccak tmpsecret pk message = SignMessage P keccak tmpsecret message (kw_Key pk)"

definition registration_message :: "bool \<Rightarrow> bytes \<Rightarrow> bytes" where
  "registration_message staked spendPublicKey = lit ''registration'' @ [if staked then 1 else 0] @ spendPublicKey"

definition GetRegistration :: "'p G1Ops \<Rightarrow> (bytes \<Rightarrow> bytes) \<Rightarrow> int \<Rightarrow> KeyWIF \<Rightarrow> bool \<Rightarrow> bytes \<Rightarrow> bytes result" where
  "GetRegistration P keccak tmpsecret pk staked spendPublicKey =
     PrivateKey_Sign P keccak tmpsecret pk (registration_message staked spendPublicKey)"

section \<open>Addresses\<close>

record Address =
  ad_Network :: uint64
  ad_Version :: uint64
  ad_PublicKey :: bytes
  ad_Staked :: bool
  ad_SpendPublicKey :: bytes
  ad_Registration :: bytes
  ad_PaymentID :: bytes
  ad_PaymentAmount :: uint64
  ad_PaymentAsset :: bytes

definition newAddr :: "uint64 \<Rightarrow> uint64 \<Rightarrow> bytes \<Rightarrow> bool \<Rightarrow> bytes \<Rightarrow> bytes \<Rightarrow> bytes \<Rightarrow> uint64 \<Rightarrow> bytes \<Rightarrow> Address result" where
  "newAddr network version publicKey staked spendPublicKey registration paymentID paymentAmount paymentAsset =
     (if version \<noteq> SIMPLE_PUBLIC_KEY then Inl (Error ''invalid version'')
      else if length publicKey \<noteq> PublicKeySize then Inl (Error ''Invalid PublicKey size'')
      else if length spendPublicKey \<noteq> 0 \<and> length spendPublicKey \<noteq> PublicKeySize then Inl (Error ''Invalid Spend Public Key size'')
      else if length registration \<noteq> 0 \<and> length registration \<noteq> SignatureSize then Inl (Error ''Invalid Registration size'')
      else if length paymentID \<noteq> 8 \<and> length paymentID \<noteq> 0 then Inl (Error ''Invalid PaymentID. It must be an 8 byte'')
      else if length paymentAsset \<noteq> 0 \<and> length paymentAsset \<noteq> ASSET_LENGTH then Inl (Error ''Invalid PaymentAsset size'')
      else Inr \<lparr>ad_Network = network, ad_Version = version, ad_PublicKey = publicKey, ad_Staked = staked,
                ad_SpendPublicKey = spendPublicKey, ad_Registration = registration, ad_PaymentID = paymentID,
                ad_PaymentAmount = paymentAmount, ad_PaymentAsset = paymentAsset\<rparr>)"

definition CreateAddr :: "uint64 \<Rightarrow> bytes \<Rightarrow> bool \<Rightarrow> bytes \<Rightarrow> bytes \<Rightarrow> bytes \<Rightarrow> uint64 \<Rightarrow> bytes \<Rightarrow> Address result" where
  "CreateAddr NETWORK_SELECTED publicKey staked spendPublicKey registration paymentID paymentAmount paymentAsset =
     newAddr NETWORK_SELECTED SIMPLE_PUBLIC_KEY publicKey staked spendPublicKey registration paymentID paymentAmount paymentAsset"

definition IsIntegratedRegistration :: "Address \<Rightarrow> bool" where
  "IsIntegratedRegistration a \<longleftrightarrow> length (ad_Registration a) > 0"

definition IsIntegratedSpendPublicKey :: "Address \<Rightarrow> bool" where
  "IsIntegratedSpendPublicKey a \<longleftrightarrow> length (ad_SpendPublicKey a) > 0"

definition IsIntegratedAmount :: "Address \<Rightarrow> bool" where
  "IsIntegratedAmount a \<longleftrightarrow> ad_PaymentAmount a > 0"

definition IsIntegratedPaymentID :: "Address \<Rightarrow> bool" where
  "IsIntegratedPaymentID a \<longleftrightarrow> length (ad_PaymentID a) > 0"

definition IsIntegratedPaymentAsset :: "Address \<Rightarrow> bool" where
  "IsIntegratedPaymentAsset a \<longleftrightarrow> length (ad_PaymentAsset a) > 0"

definition IntegrationBytes :: "Address \<Rightarrow> uint64" where
  "IntegrationBytes a =
     (let out = 0;
          out = (if ad_Staked a then out OR 1 else out);
          out = (if length (ad_SpendPublicKey a) > 0 then out OR push_bit 1 1 else out);
          out = (if length (ad_Registration a) > 0 then out OR push_bit 2 1 else out);
          out = (if length (ad_PaymentID a) > 0 then out OR push_bit 3 1 else out);
          out = (if ad_PaymentAmount a > 0 then out OR push_bit 4 1 else out)
      in if length (ad_PaymentAsset a) > 0 then out OR push_bit 5 1 else out)"

definition network_prefix :: "uint64 \<Rightarrow> bytes result" where
  "network_prefix network =
     (if network = MAIN_NET_NETWORK_BYTE then Inr MAIN_NET_NETWORK_BYTE_PREFIX
      else if network = TEST_NET_NETWORK_BYTE then Inr TEST_NET_NETWORK_BYTE_PREFIX
      else if network = DEV_NET_NETWORK_BYTE then Inr DEV_NET_NETWORK_BYTE_PREFIX
      else Inl (Panic ''Invalid network''))"

definition when_write :: "bool \<Rightarrow> (BufferWriter \<Rightarrow> BufferWriter) \<Rightarrow> BufferWriter \<Rightarrow> BufferWriter" where
  "when_write b f = (if b then f else (\<lambda>w. w))"

definition Address_payload :: "Address \<Rightarrow> bytes" where
  "Address_payload a = SerializeToBytes (ser_seq
     [WriteUvarint (ad_Version a), Write (ad_PublicKey a), WriteUvarint (IntegrationBytes a),
      when_write (IsIntegratedSpendPublicKey a) (Write (ad_SpendPublicKey a)),
      when_write (IsIntegratedRegistration a) (Write (ad_Registration a)),
      when_write (IsIntegratedPaymentID a) (Write (ad_PaymentID a)),
      when_write (IsIntegratedAmount a) (WriteUvarint (ad_PaymentAmount a)),
      when_write (IsIntegratedPaymentAsset a) (Write (ad_PaymentAsset a))])"

text \<open>\<open>None\<close> is the nil address.\<close>

definition EncodeAddr :: "(bytes \<Rightarrow> bytes) \<Rightarrow> (bytes \<Rightarrow> bytes) \<Rightarrow> Address option \<Rightarrow> bytes result" where
  "EncodeAddr ripemd base58_Encode addr =
     (case addr of
        None \<Rightarrow> Inr []
      | Some a \<Rightarrow>
          rbind (network_prefix (ad_Network a)) (\<lambda>prefix.
          (let buffer = Address_payload a; checksum = GetChecksum ripemd buffer
           in Inr (prefix @ base58_Encode (buffer @ checksum)))))"

definition prefix_network :: "bytes \<Rightarrow> uint64 result" where
  "prefix_network prefix =
     (if prefix = MAIN_NET_NETWORK_BYTE_PREFIX then Inr MAIN_NET_NETWORK_BYTE
      else if prefix = TEST_NET_NETWORK_BYTE_PREFIX then Inr TEST_NET_NETWORK_BYTE
      else if prefix = DEV_NET_NETWORK_BYTE_PREFIX then Inr DEV_NET_NETWORK_BYTE
      else Inl (Error ''Invalid Address Network PREFIX!''))"

definition when_read :: "bool \<Rightarrow> 'a \<Rightarrow> (BufferReader, 'a) go \<Rightarrow> (BufferReader, 'a) go" where
  "when_read b unset m = (if b then m else gret unset)"

definition Address_read :: "uint64 \<Rightarrow> (BufferReader, Address) go" where
  "Address_read network =
     gbind ReadUvarint (\<lambda>version.
     gbind (if version = SIMPLE_PUBLIC_KEY then ReadBytes (int PublicKeySize) else gerr ''Invalid Address Version'') (\<lambda>publicKey.
     gbind ReadUvarint (\<lambda>integrationBytes.
     gbind (when_read (integrationBytes AND push_bit 1 1 \<noteq> 0) [] (ReadBytes (int PublicKeySize))) (\<lambda>spendPublicKey.
     gbind (when_read (integrationBytes AND push_bit 2 1 \<noteq> 0) [] (ReadBytes (int SignatureSize))) (\<lambda>registration.
     gbind (when_read (integrationBytes AND push_bit 3 1 \<noteq> 0) [] (ReadBytes 8)) (\<lambda>paymentID.
     gbind (when_read (integrationBytes AND push_bit 4 1 \<noteq> 0) 0 ReadUvarint) (\<lambda>paymentAmount.
     gbind (when_read (integrationBytes AND push_bit 5 1 \<noteq> 0) [] (ReadBytes (int ASSET_LENGTH))) (\<lambda>paymentAsset.
     gret \<lparr>ad_Network = network, ad_Version = version, ad_PublicKey = publicKey,
           ad_Staked = (integrationBytes AND 1 \<noteq> 0), ad_SpendPublicKey = spendPublicKey,
           ad_Registration = registration, ad_PaymentID = paymentID, ad_PaymentAmount = paymentAmount,
           ad_PaymentAsset = paymentAsset\<rparr>))))))))"

definition DecodeAddr :: "(bytes \<Rightarrow> bytes) \<Rightarrow> (bytes \<Rightarrow> bytes result) \<Rightarrow> uint64 \<Rightarrow> bytes \<Rightarrow> Address result" where
  "DecodeAddr ripemd base58_Decode NETWORK_SELECTED inp =
     (if length inp < NETWORK_BYTE_PREFIX_LENGTH then Inl (Error ''Invalid Address length'')
      else
        rbind (prefix_network (take NETWORK_BYTE_PREFIX_LENGTH inp)) (\<lambda>network.
        if network \<noteq> NETWORK_SELECTED then Inl (Error ''Address network is invalid'')
        else
          rbind (base58_Decode (drop NETWORK_BYTE_PREFIX_LENGTH inp)) (\<lambda>buf.
          if length buf < ChecksumSize then Inl (Panic ''slice bounds out of range'')
          else
            (let cut = length buf - ChecksumSize; checksum = GetChecksum ripemd (take cut buf) in
             if checksum \<noteq> drop cut buf then Inl (Error ''Invalid Checksum'')
             else fst (Address_read network (NewBufferReader (take cut buf)))))))"

definition VerifySignedMessage :: "'p G1Ops \<Rightarrow> (bytes \<Rightarrow> bytes) \<Rightarrow> Address \<Rightarrow> bytes \<Rightarrow> bytes option \<Rightarrow> bool result" where
  "VerifySignedMessage P keccak a message signature = VerifySignature P keccak message signature (ad_PublicKey a)"

definition GetPoint :: "'p G1Ops \<Rightarrow> Address \<Rightarrow> 'p result" where
  "GetPoint P a = g1_DecodeCompressed P (ad_PublicKey a)"

definition GenerateAddress ::
  "'p G1Ops \<Rightarrow> (bytes \<Rightarrow> bytes) \<Rightarrow> int \<Rightarrow> uint64 \<Rightarrow> KeyWIF \<Rightarrow> bool \<Rightarrow> bytes \<Rightarrow> bool \<Rightarrow> bytes \<Rightarrow> uint64 \<Rightarrow> bytes \<Rightarrow> Address result" where
  "GenerateAddress P keccak tmpsecret NETWORK_SELECTED pk staked spendPublicKey registration paymentID paymentAmount paymentAsset =
     (let publicKey = GeneratePublicKey P pk in
      rbind (if registration then GetRegistration P keccak tmpsecret pk staked spendPublicKey else Inr []) (\<lambda>reg.
      CreateAddr NETWORK_SELECTED publicKey staked spendPublicKey reg paymentID paymentAmount paymentAsset))"

section \<open>Properties\<close>

lemma writes_when [codec]: "writes f bs \<Longrightarrow> writes (when_write b f) (if b then bs else [])"
  by (simp add: when_write_def writes_id)

lemma reads_when [codec]: "reads m bs x \<Longrightarrow> reads (when_read b unset m) (if b then bs else []) (if b then x else unset)"
  by (simp add: when_read_def reads_gret)

lemma length_PutUvarint_pos: "0 < length (PutUvarint x)"
  by (subst PutUvarint.simps) simp

lemma computeCheckSum_bytes:
  "computeCheckSum ripemd pk = GetChecksum ripemd (PutUvarint (kw_Version pk) @ PutUvarint (kw_Network pk) @ kw_Key pk)"
proof -
  have "writes (ser_seq [WriteUvarint (kw_Version pk), WriteUvarint (kw_Network pk), Write (kw_Key pk)])
     (PutUvarint (kw_Version pk) @ PutUvarint (kw_Network pk) @ kw_Key pk @ [])"
    by (intro codec)
  then show ?thesis by (simp add: computeCheckSum_def writes_SerializeToBytes)
qed

lemma KeyWIF_Serialize_bytes:
  "kw_Version pk = SIMPLE_PRIVATE_KEY_WIF \<Longrightarrow>
   KeyWIF_Serialize pk = PutUvarint (kw_Version pk) @ PutUvarint (kw_Network pk) @ kw_Key pk @ kw_Checksum pk"
proof -
  assume v: "kw_Version pk = SIMPLE_PRIVATE_KEY_WIF"
  have "writes (ser_seq [WriteUvarint (kw_Version pk), WriteUvarint (kw_Network pk), Write (kw_Key pk), Write (kw_Checksum pk)])
     (PutUvarint (kw_Version pk) @ PutUvarint (kw_Network pk) @ kw_Key pk @ kw_Checksum pk @ [])"
    by (intro codec)
  then show ?thesis
    using v by (simp add: KeyWIF_Serialize_def writes_SerializeToBytes SIMPLE_PRIVATE_KEY_def SIMPLE_PRIVATE_KEY_WIF_def)
qed

lemma reads_KeyWIF_read:
  assumes "length key = keySize" "length csum = ChecksumSize"
  shows "reads (KeyWIF_read keySize) (PutUvarint v @ PutUvarint n @ key @ csum) (v, n, key, csum)"
proof -
  have "reads (KeyWIF_read keySize) (PutUvarint v @ PutUvarint n @ key @ csum @ []) (v, n, key, csum)"
    unfolding KeyWIF_read_def
    by (intro reads_bind[OF reads_ReadUvarint] reads_bind[OF reads_ReadBytes] reads_gret) (simp_all add: assms)
  then show ?thesis by simp
qed

lemma new_key_roundtrip:
  assumes "new_key ripemd net keySize key = Inr pk" "\<forall>b. length (ripemd b) = 20"
  shows "KeyWIF_deserialize ripemd (KeyWIF_Serialize pk) keySize = Inr pk"
proof -
  let ?v = "PutUvarint SIMPLE_PRIVATE_KEY_WIF" and ?n = "PutUvarint net"
  let ?sum = "GetChecksum ripemd (?v @ ?n @ key)"
  have k: "length key = keySize"
    and pk: "pk = \<lparr>kw_Version = SIMPLE_PRIVATE_KEY_WIF, kw_Network = net, kw_Key = key, kw_Checksum = ?sum\<rparr>"
    using assms(1) by (auto simp: new_key_def Let_def computeCheckSum_bytes split: if_splits)
  have sum: "length ?sum = ChecksumSize"
    using assms(2) by (simp add: GetChecksum_def ChecksumSize_def)
  define buf where "buf = ?v @ ?n @ key @ ?sum"
  have ser: "KeyWIF_Serialize pk = buf"
    by (simp add: pk KeyWIF_Serialize_bytes buf_def)
  have read: "fst (KeyWIF_read keySize (NewBufferReader buf)) = Inr (SIMPLE_PRIVATE_KEY_WIF, net, key, ?sum)"
    unfolding buf_def using reads_NewBufferReader[OF reads_KeyWIF_read[OF k sum]] by simp
  have cut: "take (length buf - ChecksumSize) buf = ?v @ ?n @ key"
    using sum by (simp add: buf_def)
  have "1 + 1 + keySize + ChecksumSize \<le> length buf"
    using length_PutUvarint_pos[of SIMPLE_PRIVATE_KEY_WIF] length_PutUvarint_pos[of net] k sum unfolding buf_def length_append by linarith
  then show ?thesis
    unfolding ser KeyWIF_deserialize_def by (simp add: cut read Let_def pk)
qed

text \<open>C13: A private key or a seed written with its network and checksum reads back as the same key; the bare
  key or seed is read as one of the main network and is written back unchanged; any other input that is too short
  for the version, the network, the key and the checksum is refused.\<close>

theorem keys_roundtrip:
  assumes "\<forall>b. length (ripemd b) = 20"
  shows "(NewPrivateKey ripemd net key = Inr pk \<longrightarrow> PrivateKey_Deserialize ripemd (KeyWIF_Serialize pk) = Inr pk) \<and>
    (NewSeedExtended ripemd net key = Inr seed \<longrightarrow> SeedExtended_Deserialize ripemd (KeyWIF_Serialize seed) = Inr seed) \<and>
    (length key = PrivateKeySize \<longrightarrow>
       (\<exists>bare. PrivateKey_Deserialize ripemd key = Inr bare \<and> kw_Network bare = MAIN_NET_NETWORK_BYTE \<and>
          kw_Key bare = key \<and> KeyWIF_Serialize bare = key)) \<and>
    (length key = SeedSize \<longrightarrow>
       (\<exists>bare. SeedExtended_Deserialize ripemd key = Inr bare \<and> kw_Network bare = MAIN_NET_NETWORK_BYTE \<and>
          kw_Key bare = key \<and> KeyWIF_Serialize bare = key)) \<and>
    (length key \<noteq> PrivateKeySize \<and> length key < 1 + 1 + PrivateKeySize + ChecksumSize \<longrightarrow>
       PrivateKey_Deserialize ripemd key = Inl (Error ''Private Key length is invalid'')) \<and>
    (length key \<noteq> SeedSize \<and> length key < 1 + 1 + SeedSize + ChecksumSize \<longrightarrow>
       SeedExtended_Deserialize ripemd key = Inl (Error ''Private Key length is invalid''))"
  using assms
  by (auto simp: NewPrivateKey_def NewSeedExtended_def PrivateKey_Deserialize_def SeedExtended_Deserialize_def
      new_key_roundtrip)
    (auto simp: KeyWIF_deserialize_def KeyWIF_Serialize_def Let_def writes_SerializeToBytes[OF writes_Write])

theorem keys_roundtrip_witness:
  "\<exists>pk. NewPrivateKey (\<lambda>b. replicate 20 (of_nat (length b))) 1033 (replicate 32 7) = Inr pk \<and>
     PrivateKey_Deserialize (\<lambda>b. replicate 20 (of_nat (length b))) (KeyWIF_Serialize pk) = Inr pk \<and>
   (\<exists>seed. NewSeedExtended (\<lambda>b. replicate 20 (of_nat (length b))) 1033 (replicate 64 7) = Inr seed \<and>
     SeedExtended_Deserialize (\<lambda>b. replicate 20 (of_nat (length b))) (KeyWIF_Serialize seed) = Inr seed)"
proof -
  let ?r = "\<lambda>b :: bytes. replicate 20 (of_nat (length b)) :: bytes"
  obtain pk where pk: "NewPrivateKey ?r 1033 (replicate 32 7) = Inr pk"
    by (simp add: NewPrivateKey_def new_key_def PrivateKeySize_def Let_def)
  obtain seed where seed: "NewSeedExtended ?r 1033 (replicate 64 7) = Inr seed"
    by (simp add: NewSeedExtended_def new_key_def SeedSize_def Let_def)
  show ?thesis
    using keys_roundtrip[of ?r 1033 "replicate 32 7" pk] keys_roundtrip[of ?r 1033 "replicate 64 7" undefined seed] pk seed
    by auto
qed

lemma or_when: "(if c then x OR y else x) = (x OR (if c then y else 0) :: uint64)"
  by simp

lemma bit_when: "bit (if c then push_bit k 1 else 0 :: uint64) n \<longleftrightarrow> c \<and> n = k \<and> k < 64"
  by (auto simp: bit_simps)

lemma IntegrationBytes_bit:
  "bit (IntegrationBytes a) n \<longleftrightarrow>
     ad_Staked a \<and> n = 0 \<or> IsIntegratedSpendPublicKey a \<and> n = 1 \<or> IsIntegratedRegistration a \<and> n = 2 \<or>
     IsIntegratedPaymentID a \<and> n = 3 \<or> IsIntegratedAmount a \<and> n = 4 \<or> IsIntegratedPaymentAsset a \<and> n = 5"
proof -
  have one: "(1 :: uint64) = push_bit 0 1" by simp
  show ?thesis
    unfolding IntegrationBytes_def Let_def or_when IsIntegratedSpendPublicKey_def IsIntegratedRegistration_def
      IsIntegratedPaymentID_def IsIntegratedAmount_def IsIntegratedPaymentAsset_def
    by (subst (1) one) (simp only: bit_or_iff bit_when, auto)
qed

lemma IntegrationBytes_bits:
  "IntegrationBytes a AND 1 \<noteq> 0 \<longleftrightarrow> ad_Staked a"
  "IntegrationBytes a AND push_bit 1 1 \<noteq> 0 \<longleftrightarrow> IsIntegratedSpendPublicKey a"
  "IntegrationBytes a AND push_bit 2 1 \<noteq> 0 \<longleftrightarrow> IsIntegratedRegistration a"
  "IntegrationBytes a AND push_bit 3 1 \<noteq> 0 \<longleftrightarrow> IsIntegratedPaymentID a"
  "IntegrationBytes a AND push_bit 4 1 \<noteq> 0 \<longleftrightarrow> IsIntegratedAmount a"
  "IntegrationBytes a AND push_bit 5 1 \<noteq> 0 \<longleftrightarrow> IsIntegratedPaymentAsset a"
  unfolding bit_iff_and_push_bit_not_eq_0[symmetric] IntegrationBytes_bit
  using IntegrationBytes_bit[of a 0] by (simp_all add: bit_iff_and_push_bit_not_eq_0)

definition Address_enc :: "Address \<Rightarrow> bytes" where
  "Address_enc a =
     PutUvarint (ad_Version a) @ ad_PublicKey a @ PutUvarint (IntegrationBytes a) @
     (if IsIntegratedSpendPublicKey a then ad_SpendPublicKey a else []) @
     (if IsIntegratedRegistration a then ad_Registration a else []) @
     (if IsIntegratedPaymentID a then ad_PaymentID a else []) @
     (if IsIntegratedAmount a then PutUvarint (ad_PaymentAmount a) else []) @
     (if IsIntegratedPaymentAsset a then ad_PaymentAsset a else []) @ []"

lemma Address_payload_enc: "Address_payload a = Address_enc a"
proof -
  have "writes (ser_seq
     [WriteUvarint (ad_Version a), Write (ad_PublicKey a), WriteUvarint (IntegrationBytes a),
      when_write (IsIntegratedSpendPublicKey a) (Write (ad_SpendPublicKey a)),
      when_write (IsIntegratedRegistration a) (Write (ad_Registration a)),
      when_write (IsIntegratedPaymentID a) (Write (ad_PaymentID a)),
      when_write (IsIntegratedAmount a) (WriteUvarint (ad_PaymentAmount a)),
      when_write (IsIntegratedPaymentAsset a) (Write (ad_PaymentAsset a))]) (Address_enc a)"
    unfolding Address_enc_def by (intro codec)
  then show ?thesis by (simp add: Address_payload_def writes_SerializeToBytes)
qed

text \<open>The sizes \<^verbatim>\<open>newAddr\<close> admits.\<close>

definition Address_ok :: "Address \<Rightarrow> bool" where
  "Address_ok a \<longleftrightarrow> ad_Version a = SIMPLE_PUBLIC_KEY \<and> length (ad_PublicKey a) = PublicKeySize \<and>
     length (ad_SpendPublicKey a) \<in> {0, PublicKeySize} \<and> length (ad_Registration a) \<in> {0, SignatureSize} \<and>
     length (ad_PaymentID a) \<in> {0, 8} \<and> length (ad_PaymentAsset a) \<in> {0, ASSET_LENGTH}"

lemma newAddr_ok: "newAddr n v pk st sp reg pid am as = Inr a \<Longrightarrow> Address_ok a"
  by (auto simp: newAddr_def Address_ok_def split: if_splits)

lemma newAddr_network: "newAddr n v pk st sp reg pid am as = Inr a \<Longrightarrow> ad_Network a = n"
  by (auto simp: newAddr_def split: if_splits)

lemma reads_when_bytes:
  "c = b \<Longrightarrow> (b \<Longrightarrow> n = int (length bs)) \<Longrightarrow> (\<not> b \<Longrightarrow> bs = []) \<Longrightarrow>
   reads (when_read c [] (ReadBytes n)) (if b then bs else []) bs"
  by (simp add: when_read_def reads_gret reads_ReadBytes)

lemma reads_when_uvarint:
  "c = b \<Longrightarrow> (\<not> b \<Longrightarrow> x = 0) \<Longrightarrow> reads (when_read c 0 ReadUvarint) (if b then PutUvarint x else []) x"
  by (simp add: when_read_def reads_gret reads_ReadUvarint)

lemma reads_version: "v = k \<Longrightarrow> reads m bs x \<Longrightarrow> reads (if v = k then m else e) bs x"
  by simp

lemma reads_Address:
  assumes "Address_ok a"
  shows "reads (Address_read (ad_Network a)) (Address_enc a) a"
  unfolding Address_read_def Address_enc_def
  by (intro reads_bind[OF reads_ReadUvarint] reads_bind[OF reads_version[OF _ reads_ReadBytes]]
      reads_bind[OF reads_when_bytes] reads_bind[OF reads_when_uvarint] reads_gret_eq IntegrationBytes_bits)
    (use assms in \<open>auto simp: Address_ok_def IntegrationBytes_bits(1) IsIntegratedSpendPublicKey_def IsIntegratedRegistration_def
      IsIntegratedPaymentID_def IsIntegratedAmount_def IsIntegratedPaymentAsset_def word_gt_0\<close>)

lemma network_prefix_inverse:
  assumes "network \<in> {MAIN_NET_NETWORK_BYTE, TEST_NET_NETWORK_BYTE, DEV_NET_NETWORK_BYTE}"
  shows "\<exists>p. network_prefix network = Inr p \<and> length p = NETWORK_BYTE_PREFIX_LENGTH \<and> prefix_network p = Inr network"
proof -
  have "MAIN_NET_NETWORK_BYTE_PREFIX \<noteq> TEST_NET_NETWORK_BYTE_PREFIX"
    "MAIN_NET_NETWORK_BYTE_PREFIX \<noteq> DEV_NET_NETWORK_BYTE_PREFIX"
    "TEST_NET_NETWORK_BYTE_PREFIX \<noteq> DEV_NET_NETWORK_BYTE_PREFIX"
    by code_simp+
  moreover have "length MAIN_NET_NETWORK_BYTE_PREFIX = NETWORK_BYTE_PREFIX_LENGTH"
    "length TEST_NET_NETWORK_BYTE_PREFIX = NETWORK_BYTE_PREFIX_LENGTH"
    "length DEV_NET_NETWORK_BYTE_PREFIX = NETWORK_BYTE_PREFIX_LENGTH"
    by code_simp+
  ultimately show ?thesis
    using assms by (auto simp: network_prefix_def prefix_network_def)
qed

text \<open>C11: An address made by \<^verbatim>\<open>CreateAddr\<close>, with any of the optional parts, is encoded and decodes to the same
  address on the network it was made for; on another network it is refused.\<close>

theorem address_roundtrip:
  assumes "CreateAddr net pk st sp reg pid am as = Inr a"
    and net: "net \<in> {MAIN_NET_NETWORK_BYTE, TEST_NET_NETWORK_BYTE, DEV_NET_NETWORK_BYTE}"
    and b58: "\<forall>b. b \<noteq> [] \<longrightarrow> base58_Decode (base58_Encode b) = Inr b"
    and rip: "\<forall>b. length (ripemd b) = 20"
  shows "\<exists>s. EncodeAddr ripemd base58_Encode (Some a) = Inr s \<and> DecodeAddr ripemd base58_Decode net s = Inr a \<and>
    (\<forall>other. other \<noteq> net \<longrightarrow> (\<exists>m. DecodeAddr ripemd base58_Decode other s = Inl (Error m)))"
proof -
  have ok: "Address_ok a" and n: "ad_Network a = net"
    using assms(1) newAddr_ok newAddr_network unfolding CreateAddr_def by blast+
  obtain p where p: "network_prefix net = Inr p" "length p = NETWORK_BYTE_PREFIX_LENGTH" "prefix_network p = Inr net"
    using network_prefix_inverse[OF net] by blast
  let ?c = "GetChecksum ripemd (Address_enc a)"
  have c: "length ?c = ChecksumSize" using rip by (simp add: GetChecksum_def ChecksumSize_def)
  have ne: "Address_enc a @ ?c \<noteq> []" using c by (auto simp: ChecksumSize_def)
  have "fst (Address_read net (NewBufferReader (Address_enc a))) = Inr a"
    using reads_NewBufferReader[OF reads_Address[OF ok]] n by simp
  then have "DecodeAddr ripemd base58_Decode net (p @ base58_Encode (Address_enc a @ ?c)) = Inr a"
    using p c b58[rule_format, of "Address_enc a @ ?c"] ne by (simp add: DecodeAddr_def Let_def)
  moreover have "\<exists>m. DecodeAddr ripemd base58_Decode other (p @ base58_Encode (Address_enc a @ ?c)) = Inl (Error m)"
    if "other \<noteq> net" for other
    using p that by (auto simp: DecodeAddr_def)
  ultimately show ?thesis
    using p n by (simp add: EncodeAddr_def Address_payload_enc Let_def)
qed

theorem address_roundtrip_witness:
  "\<exists>a s. CreateAddr 1033 (replicate 33 5) True (replicate 33 6) [] (replicate 8 9) 1000 (replicate 20 3) = Inr a \<and>
    EncodeAddr (\<lambda>b. replicate 20 (of_nat (length b))) rev (Some a) = Inr s \<and>
    DecodeAddr (\<lambda>b. replicate 20 (of_nat (length b))) (Inr \<circ> rev) 1033 s = Inr a"
proof -
  let ?rip = "\<lambda>b :: bytes. replicate 20 (of_nat (length b)) :: bytes"
  obtain a where a: "CreateAddr 1033 (replicate 33 5) True (replicate 33 6) [] (replicate 8 9) 1000 (replicate 20 3) = Inr a"
    by (simp add: CreateAddr_def newAddr_def SIMPLE_PUBLIC_KEY_def PublicKeySize_def ASSET_LENGTH_def)
  show ?thesis
    using address_roundtrip[OF a, of "Inr \<circ> rev" rev ?rip] a by (auto simp: TEST_NET_NETWORK_BYTE_def)
qed

text \<open>C12: The registration a private key puts into its address is a signature over the staking flag and the spend key
  of the same address.  It verifies against the public key of the address exactly when that key is not the
  identity; a private key that is a multiple of the order gives an address whose registration is refused.\<close>

theorem registration_verifies:
  assumes L: "g1_laws P" and K: "g1_codec P"
    and "GenerateAddress P keccak tmpsecret net key staked spend True pid am as = Inr a"
  shows "VerifySignedMessage P keccak a (registration_message (ad_Staked a) (ad_SpendPublicKey a)) (Some (ad_Registration a)) =
    Inr (g1_ScalarMult P (g1_G P) (SetBytes (kw_Key key)) \<noteq> g1_zero P)"
proof -
  obtain reg where reg: "SignMessage P keccak tmpsecret (registration_message staked spend) (kw_Key key) = Inr reg"
    "VerifySignature P keccak (registration_message staked spend) (Some reg) (GeneratePublicKey P key) = Inr (key_ok P (kw_Key key))"
    using SignMessage_sound[OF L K] unfolding GeneratePublicKey_def by blast
  then have "newAddr net SIMPLE_PUBLIC_KEY (GeneratePublicKey P key) staked spend reg pid am as = Inr a"
    using assms(3) by (simp add: GenerateAddress_def GetRegistration_def PrivateKey_Sign_def Let_def CreateAddr_def)
  then have "ad_PublicKey a = GeneratePublicKey P key" "ad_Staked a = staked" "ad_SpendPublicKey a = spend" "ad_Registration a = reg"
    by (auto simp: newAddr_def split: if_splits)
  then show ?thesis using reg by (simp add: VerifySignedMessage_def key_ok_def)
qed

theorem registration_verifies_witness:
  "\<exists>a. GenerateAddress residue_curve (take 32) 5 0 \<lparr>kw_Version = 0, kw_Network = 0, kw_Key = [7], kw_Checksum = []\<rparr>
        True [] True [] 0 [] = Inr a \<and>
    VerifySignedMessage residue_curve (take 32) a (registration_message (ad_Staked a) (ad_SpendPublicKey a)) (Some (ad_Registration a)) = Inr True"
proof -
  let ?k = "\<lparr>kw_Version = 0, kw_Network = 0, kw_Key = [7], kw_Checksum = []\<rparr> :: KeyWIF"
  obtain reg where "SignMessage residue_curve (take 32) 5 (registration_message True []) [7] = Inr reg" "length reg = 64"
    using SignMessage_sound[OF residue_laws residue_codec] by blast
  moreover have "length (GeneratePublicKey residue_curve ?k) = 33"
    using residue_codec by (simp add: GeneratePublicKey_def g1_codec_def)
  ultimately obtain a where "GenerateAddress residue_curve (take 32) 5 0 ?k True [] True [] 0 [] = Inr a"
    by (simp add: GenerateAddress_def GetRegistration_def PrivateKey_Sign_def CreateAddr_def newAddr_def Let_def
        SignatureSize_def PublicKeySize_def)
  moreover have "g1_ScalarMult residue_curve (g1_G residue_curve) (SetBytes [7]) \<noteq> g1_zero residue_curve"
    using key_ok_residue[of "[7]"] by (simp only: key_ok_def) (simp add: SetBytes_def Order_def)
  ultimately show ?thesis
    using registration_verifies[OF residue_laws residue_codec, where key = ?k] by fastforce
qed

end
