(* ===== verification/Inner_Product.thy ===== *)
theory Inner_Product
  imports Signatures
begin

text \<open>
  The inner product argument of the range proofs (\<^verbatim>\<open>proof_innerproduct.go\<close>) with the generator
  parameters it runs on (\<^verbatim>\<open>generatorparams.go\<close>): prover, verifier and wire format.
\<close>

section \<open>Generator parameters\<close>

record 'p GeneratorParams =
  gp_G :: 'p
  gp_H :: 'p
  gp_GSUM :: "'p option"
  gp_Gs :: "'p list"
  gp_Hs :: "'p list"

definition NewGeneratorParams3 :: "'p G1Ops \<Rightarrow> 'p \<Rightarrow> 'p list \<Rightarrow> 'p list \<Rightarrow> 'p GeneratorParams" where
  "NewGeneratorParams3 P h gs hs = \<lparr>gp_G = g1_G P, gp_H = h, gp_GSUM = None, gp_Gs = gs, gp_Hs = hs\<rparr>"

text \<open>The loop over the exponents; the vector of points may be longer.\<close>

fun commit_loop :: "'p G1Ops \<Rightarrow> 'p \<Rightarrow> 'p list \<Rightarrow> int list \<Rightarrow> 'p result" where
  "commit_loop P acc gs [] = Inr acc"
| "commit_loop P acc [] (x # xs) = Inl (Panic ''index out of range'')"
| "commit_loop P acc (g # gs) (x # xs) = commit_loop P (g1_Add P acc (g1_ScalarMult P g x)) gs xs"

definition GeneratorParams_Commit :: "'p G1Ops \<Rightarrow> 'p GeneratorParams \<Rightarrow> int \<Rightarrow> FieldVector \<Rightarrow> FieldVector option \<Rightarrow> 'p result" where
  "GeneratorParams_Commit P gp blind gexps hexps =
     rbind (commit_loop P (g1_ScalarMult P (gp_H gp) blind) (gp_Gs gp) gexps) (\<lambda>r.
     case hexps of None \<Rightarrow> Inr r | Some hs \<Rightarrow> commit_loop P r (gp_Hs gp) hs)"

section \<open>The proof and its wire format\<close>

definition FIELDELEMENT_SIZE :: nat where "FIELDELEMENT_SIZE = 32"
definition POINT_SIZE :: nat where "POINT_SIZE = 33"

record 'p InnerProduct =
  ip_a :: int
  ip_b :: int
  ip_ls :: "'p list"
  ip_rs :: "'p list"

definition InnerProduct_Size :: "'p InnerProduct \<Rightarrow> nat" where
  "InnerProduct_Size ip =
     FIELDELEMENT_SIZE + FIELDELEMENT_SIZE + 1 + length (ip_ls ip) * POINT_SIZE + length (ip_rs ip) * POINT_SIZE"

text \<open>The loop runs over \<^verbatim>\<open>ls\<close> and indexes \<^verbatim>\<open>rs\<close>.\<close>

definition InnerProduct_Serialize :: "'p G1Ops \<Rightarrow> 'p InnerProduct \<Rightarrow> (BufferWriter \<Rightarrow> BufferWriter) result" where
  "InnerProduct_Serialize P ip =
     (if length (ip_rs ip) < length (ip_ls ip) then Inl (Panic ''index out of range'')
      else Inr (ser_seq
        [Write (ConvertBigIntToByte (ip_a ip)), Write (ConvertBigIntToByte (ip_b ip)),
         fold (\<lambda>(l, r) w. Write (g1_EncodeCompressed P r) (Write (g1_EncodeCompressed P l) w)) (zip (ip_ls ip) (ip_rs ip))]))"

definition ReadBN256G1 :: "'p G1Ops \<Rightarrow> (BufferReader, 'p) go" where
  "ReadBN256G1 P = gbind (ReadBytes 33) (\<lambda>bufp. glift (g1_DecodeCompressed P bufp))"

definition InnerProduct_Deserialize :: "'p G1Ops \<Rightarrow> (BufferReader, 'p InnerProduct) go" where
  "InnerProduct_Deserialize P =
     gbind ReadBigInt (\<lambda>a.
     gbind ReadBigInt (\<lambda>b.
     gbind (grepeat 7 (gbind (ReadBN256G1 P) (\<lambda>l. gbind (ReadBN256G1 P) (\<lambda>r. gret (l, r))))) (\<lambda>lr.
     gret \<lparr>ip_a = a, ip_b = b, ip_ls = map fst lr, ip_rs = map snd lr\<rparr>)))"

section \<open>The prover\<close>

text \<open>The challenge of a round, from the challenge before it and the two points of the round.\<close>

definition ip_challenge :: "'p G1Ops \<Rightarrow> (bytes \<Rightarrow> bytes) \<Rightarrow> int \<Rightarrow> 'p \<Rightarrow> 'p \<Rightarrow> int" where
  "ip_challenge P keccak prev L R =
     reducedhash keccak (ConvertBigIntToByte prev @ g1_Marshal P L @ g1_Marshal P R)"

text \<open>One round: the points \<^verbatim>\<open>L\<close> and \<^verbatim>\<open>R\<close>, the challenge, its inverse and the four folded vectors.  The
  inverse of a challenge that has none is a nil pointer, on which the next call panics.\<close>

fun generateInnerProductProofNew ::
  "'p G1Ops \<Rightarrow> (bytes \<Rightarrow> bytes) \<Rightarrow> nat \<Rightarrow> 'p PedersenVectorCommitment \<Rightarrow> FieldVector \<Rightarrow> FieldVector \<Rightarrow> int \<Rightarrow> 'p list \<Rightarrow> 'p list \<Rightarrow>
   'p InnerProduct result" where
  "generateInnerProductProofNew P keccak 0 p as bs prev_challenge ls rs = Inl Timeout"
| "generateInnerProductProofNew P keccak (Suc fuel) p as bs prev_challenge ls rs =
     (let n = length as in
      if n = 1 then
        rbind (rnth as 0) (\<lambda>a. rbind (rnth bs 0) (\<lambda>b. Inr \<lparr>ip_a = a, ip_b = b, ip_ls = ls, ip_rs = rs\<rparr>))
      else
        (let nPrime = n div 2 in
         rbind (fv_Slice as 0 nPrime) (\<lambda>asLeft.
         rbind (fv_Slice as nPrime n) (\<lambda>asRight.
         rbind (fv_Slice bs 0 nPrime) (\<lambda>bsLeft.
         rbind (fv_Slice bs nPrime n) (\<lambda>bsRight.
         rbind (pv_Slice (pvc_Gs p) 0 nPrime) (\<lambda>gsLeft.
         rbind (pv_Slice (pvc_Gs p) nPrime n) (\<lambda>gsRight.
         rbind (pv_Slice (pvc_Hs p) 0 nPrime) (\<lambda>hsLeft.
         rbind (pv_Slice (pvc_Hs p) nPrime n) (\<lambda>hsRight.
         rbind (fv_InnerProduct asLeft bsRight) (\<lambda>cL.
         rbind (fv_InnerProduct asRight bsLeft) (\<lambda>cR.
         rbind (pv_MultiExponentiate P gsRight asLeft) (\<lambda>l1.
         rbind (pv_MultiExponentiate P hsLeft bsRight) (\<lambda>l2.
         rbind (pv_MultiExponentiate P gsLeft asRight) (\<lambda>r1.
         rbind (pv_MultiExponentiate P hsRight bsLeft) (\<lambda>r2.
         (let L = g1_Add P (g1_Add P l1 l2) (g1_ScalarMult P (pvc_H p) cL);
              R = g1_Add P (g1_Add P r1 r2) (g1_ScalarMult P (pvc_H p) cR);
              x = ip_challenge P keccak prev_challenge L R
          in
          rbind (rderef (ModInverse x Order)) (\<lambda>xInv.
          rbind (pv_Add P (pv_Times P gsLeft xInv) (pv_Times P gsRight x)) (\<lambda>Gs'.
          rbind (pv_Add P (pv_Times P hsLeft x) (pv_Times P hsRight xInv)) (\<lambda>Hs'.
          rbind (fv_Add (fv_Times asLeft x) (fv_Times asRight xInv)) (\<lambda>asPrime.
          rbind (fv_Add (fv_Times bsLeft xInv) (fv_Times bsRight x)) (\<lambda>bsPrime.
          generateInnerProductProofNew P keccak fuel (p\<lparr>pvc_Gs := Gs', pvc_Hs := Hs'\<rparr>) asPrime bsPrime x
            (ls @ [L]) (rs @ [R])))))))))))))))))))))))"

definition NewInnerProductProofNew ::
  "'p G1Ops \<Rightarrow> (bytes \<Rightarrow> bytes) \<Rightarrow> nat \<Rightarrow> 'p PedersenVectorCommitment \<Rightarrow> int \<Rightarrow> 'p InnerProduct result" where
  "NewInnerProductProofNew P keccak fuel p salt =
     generateInnerProductProofNew P keccak fuel p (pvc_gvalues p) (pvc_hvalues p) salt [] []"

text \<open>The variant on generator parameters, which also carries the commitment along.\<close>

fun generateInnerProductProof ::
  "'p G1Ops \<Rightarrow> (bytes \<Rightarrow> bytes) \<Rightarrow> nat \<Rightarrow> 'p GeneratorParams \<Rightarrow> 'p \<Rightarrow> FieldVector \<Rightarrow> FieldVector \<Rightarrow> int \<Rightarrow> 'p list \<Rightarrow> 'p list \<Rightarrow>
   'p InnerProduct result" where
  "generateInnerProductProof P keccak 0 base Q as bs prev_challenge ls rs = Inl Timeout"
| "generateInnerProductProof P keccak (Suc fuel) base Q as bs prev_challenge ls rs =
     (let n = length as in
      if n = 1 then
        rbind (rnth as 0) (\<lambda>a. rbind (rnth bs 0) (\<lambda>b. Inr \<lparr>ip_a = a, ip_b = b, ip_ls = ls, ip_rs = rs\<rparr>))
      else
        (let nPrime = n div 2 in
         rbind (fv_Slice as 0 nPrime) (\<lambda>asLeft.
         rbind (fv_Slice as nPrime n) (\<lambda>asRight.
         rbind (fv_Slice bs 0 nPrime) (\<lambda>bsLeft.
         rbind (fv_Slice bs nPrime n) (\<lambda>bsRight.
         rbind (pv_Slice (gp_Gs base) 0 nPrime) (\<lambda>gLeft.
         rbind (pv_Slice (gp_Gs base) nPrime n) (\<lambda>gRight.
         rbind (pv_Slice (gp_Hs base) 0 nPrime) (\<lambda>hLeft.
         rbind (pv_Slice (gp_Hs base) nPrime n) (\<lambda>hRight.
         rbind (fv_InnerProduct asLeft bsRight) (\<lambda>cL.
         rbind (fv_InnerProduct asRight bsLeft) (\<lambda>cR.
         rbind (pv_Commit P gRight asLeft) (\<lambda>l1.
         rbind (pv_Commit P hLeft bsRight) (\<lambda>l2.
         rbind (pv_Commit P gLeft asRight) (\<lambda>r1.
         rbind (pv_Commit P hRight bsLeft) (\<lambda>r2.
         (let u = gp_H base;
              L = g1_Add P (g1_Add P l1 l2) (g1_ScalarMult P u cL);
              R = g1_Add P (g1_Add P r1 r2) (g1_ScalarMult P u cR);
              x = ip_challenge P keccak prev_challenge L R
          in
          rbind (rderef (ModInverse x Order)) (\<lambda>xinv.
          rbind (pv_Add P (pv_Times P gLeft xinv) (pv_Times P gRight x)) (\<lambda>gPrime.
          rbind (pv_Add P (pv_Times P hLeft x) (pv_Times P hRight xinv)) (\<lambda>hPrime.
          rbind (fv_Add (fv_Times asLeft x) (fv_Times asRight xinv)) (\<lambda>aPrime.
          rbind (fv_Add (fv_Times bsLeft xinv) (fv_Times bsRight x)) (\<lambda>bPrime.
          (let PPrimeL = g1_ScalarMult P L ((x * x) mod Order);
               PPrimeR = g1_ScalarMult P R ((xinv * xinv) mod Order);
               PPrime = g1_Add P (g1_Add P PPrimeL PPrimeR) Q
           in generateInnerProductProof P keccak fuel (NewGeneratorParams3 P u gPrime hPrime) PPrime aPrime bPrime x
                (ls @ [L]) (rs @ [R]))))))))))))))))))))))))"

section \<open>The verifier\<close>

fun ip_verify_rounds :: "'p G1Ops \<Rightarrow> (bytes \<Rightarrow> bytes) \<Rightarrow> int \<Rightarrow> 'p \<Rightarrow> ('p \<times> 'p) list \<Rightarrow> (int list \<times> 'p) result" where
  "ip_verify_rounds P keccak oo Q [] = Inr ([], Q)"
| "ip_verify_rounds P keccak oo Q ((l, r) # lr) =
     (let x = ip_challenge P keccak oo l r in
      rbind (rderef (ModInverse x Order)) (\<lambda>o_inv.
      (let PPrimeL = g1_ScalarMult P l ((x * x) mod Order);
           PPrimeR = g1_ScalarMult P r ((o_inv * o_inv) mod Order);
           Q' = g1_Add P (g1_Add P PPrimeL PPrimeR) Q
       in rbind (ip_verify_rounds P keccak x Q' lr) (\<lambda>(challenges, Q''). Inr (x # challenges, Q'')))))"

text \<open>The table of exponents: entry \<open>2 ^ j + i\<close> is filled once, from entry \<open>i\<close>.\<close>

definition ip_exponent_step :: "int list \<Rightarrow> nat \<Rightarrow> nat \<Rightarrow> int option list \<times> bool list \<Rightarrow> (int option list \<times> bool list) result" where
  "ip_exponent_step challenges i j = (\<lambda>(exponents, bits).
     (let i1 = 2 ^ j + i; log_n = length challenges in
      rbind (rnth bits i1) (\<lambda>done.
      if done then Inr (exponents, bits)
      else
        rbind (rnth challenges (log_n - 1 - j)) (\<lambda>c.
        rbind (rnth exponents i) (\<lambda>e. rbind (rderef e) (\<lambda>v.
        (let temp = (c * c) mod Order
         in Inr (exponents[i1 := Some ((v * temp) mod Order)], bits[i1 := True]))))))))"

function ip_exponent_inner :: "int list \<Rightarrow> nat \<Rightarrow> nat \<Rightarrow> nat \<Rightarrow> int option list \<times> bool list \<Rightarrow> (int option list \<times> bool list) result" where
  "ip_exponent_inner challenges n i j st =
     (if 2 ^ j + i < n then rbind (ip_exponent_step challenges i j st) (ip_exponent_inner challenges n i (Suc j))
      else Inr st)"
  by pat_completeness auto
termination
proof (relation "measure (\<lambda>(challenges, n, i, j, st). n - j)")
  fix challenges :: "int list" and n i j :: nat and st st' :: "int option list \<times> bool list"
  assume "2 ^ j + i < n"
  then have "j < n" using less_exp[of j] by linarith
  then show "((challenges, n, i, Suc j, st'), challenges, n, i, j, st) \<in> measure (\<lambda>(challenges, n, i, j, st). n - j)"
    by auto
qed simp

declare ip_exponent_inner.simps [simp del]

fun ip_exponent_outer :: "int list \<Rightarrow> nat \<Rightarrow> nat list \<Rightarrow> int option list \<times> bool list \<Rightarrow> (int option list \<times> bool list) result" where
  "ip_exponent_outer challenges n [] st = Inr st"
| "ip_exponent_outer challenges n (i # ks) st =
     rbind (ip_exponent_inner challenges n i 0 st) (ip_exponent_outer challenges n ks)"

definition ip_exponents :: "int list \<Rightarrow> nat \<Rightarrow> int option list result" where
  "ip_exponents challenges n =
     (let ex = foldl (\<lambda>acc c. (acc * c) mod Order) 1 challenges;
          exp_inv = ModInverse ex Order
      in rbind (ip_exponent_outer challenges n [0..<n div 2] ((replicate n None)[0 := exp_inv], replicate n False)) (\<lambda>(exponents, _).
         Inr exponents))"

fun ip_verify_sums :: "'p G1Ops \<Rightarrow> 'p list \<Rightarrow> 'p list \<Rightarrow> int option list \<Rightarrow> nat \<Rightarrow> nat list \<Rightarrow> 'p \<times> 'p \<Rightarrow> ('p \<times> 'p) result" where
  "ip_verify_sums P gs hs exponents n [] acc = Inr acc"
| "ip_verify_sums P gs hs exponents n (i # ks) (gtemp, htemp) =
     rbind (rnth gs i) (\<lambda>g. rbind (rnth exponents i) (\<lambda>e. rbind (rderef e) (\<lambda>x.
     rbind (rnth hs i) (\<lambda>h. rbind (rnth exponents (n - 1 - i)) (\<lambda>e'. rbind (rderef e') (\<lambda>y.
     ip_verify_sums P gs hs exponents n ks
       (g1_Add P gtemp (g1_ScalarMult P g x), g1_Add P htemp (g1_ScalarMult P h y))))))))"

text \<open>\<^verbatim>\<open>uint(math.Pow(2, float64(log_n)))\<close> is exact for every list of fewer than 64 points.\<close>

definition InnerProduct_Verify ::
  "'p G1Ops \<Rightarrow> (bytes \<Rightarrow> bytes) \<Rightarrow> 'p InnerProduct \<Rightarrow> 'p list \<Rightarrow> 'p \<Rightarrow> 'p \<Rightarrow> int \<Rightarrow> 'p GeneratorParams \<Rightarrow> bool result" where
  "InnerProduct_Verify P keccak ip hs u Q salt gp =
     (if length (ip_ls ip) \<noteq> length (ip_rs ip) then Inr False
      else
        (let log_n = length (ip_ls ip); n = 2 ^ log_n in
         rbind (ip_verify_rounds P keccak salt Q (zip (ip_ls ip) (ip_rs ip))) (\<lambda>(challenges, Q').
         rbind (ip_exponents challenges n) (\<lambda>exponents.
         rbind (ip_verify_sums P (gp_Gs gp) hs exponents n [0..<n] (g1_zero P, g1_zero P)) (\<lambda>(gtemp, htemp).
         (let gtemp = g1_ScalarMult P gtemp (ip_a ip);
              htemp = g1_ScalarMult P htemp (ip_b ip);
              utemp = g1_ScalarMult P u ((ip_a ip * ip_b ip) mod Order);
              P_calculated = g1_Add P (g1_Add P gtemp htemp) utemp
          in Inr (g1_String P P_calculated = g1_String P Q')))))))"

section \<open>A round of the prover folds the statement\<close>

definition dot :: "int list \<Rightarrow> int list \<Rightarrow> int" where
  "dot xs ys = sum_list (map2 (*) xs ys)"

definition fold_points :: "'p G1Ops \<Rightarrow> int \<Rightarrow> int \<Rightarrow> 'p list \<Rightarrow> 'p list \<Rightarrow> 'p list" where
  "fold_points P k l gs hs = map2 (g1_Add P) (pv_Times P gs k) (pv_Times P hs l)"

definition fold_scalars :: "int \<Rightarrow> int \<Rightarrow> int list \<Rightarrow> int list \<Rightarrow> int list" where
  "fold_scalars k l xs ys = map2 (\<lambda>a b. (a + b) mod Order) (fv_Times xs k) (fv_Times ys l)"

lemma length_fold [simp]:
  "length (fold_points P k l gs hs) = min (length gs) (length hs)"
  "length (fold_scalars k l xs ys) = min (length xs) (length ys)"
  by (simp_all add: fold_points_def fold_scalars_def pv_Times_def fv_Times_def)

lemma msm_fold_scalars:
  assumes L: "g1_laws P" and "length xs = length ys"
  shows "msm P gs (fold_scalars k l xs ys) = g1_Add P (g1_ScalarMult P (msm P gs xs) k) (g1_ScalarMult P (msm P gs ys) l)"
  using assms by (simp add: fold_scalars_def fv_Times_def msm_add[OF L] msm_times[OF L])

lemma msm_fold_points:
  assumes L: "g1_laws P" and "length gs = length hs"
  shows "msm P (fold_points P k l gs hs) xs = g1_Add P (g1_ScalarMult P (msm P gs xs) k) (g1_ScalarMult P (msm P hs xs) l)"
  using assms by (simp add: fold_points_def pv_Times_def msm_points_add[OF L] msm_points_times[OF L])

text \<open>The cross terms a round moves into its two points.\<close>

lemma msm_fold_both:
  assumes L: "g1_laws P" and inv: "(k * l) mod Order = 1"
    and len: "length gs = length hs" "length xs = length ys"
  shows "msm P (fold_points P l k gs hs) (fold_scalars k l xs ys) =
    g1_Add P (g1_Add P (msm P gs xs) (msm P hs ys))
      (g1_Add P (g1_ScalarMult P (msm P hs xs) (k * k)) (g1_ScalarMult P (msm P gs ys) (l * l)))"
proof -
  have one: "g1_ScalarMult P a (k * l) = a" "g1_ScalarMult P a (l * k) = a" for a
    using g1_mul_mod[OF L, of a "k * l"] inv g1_mul_1[OF L] by (simp_all add: mult.commute)
  show ?thesis
    by (simp add: msm_fold_points[OF L len(1)] msm_fold_scalars[OF L len(2)] g1_add_mul[OF L] g1_mul_mul[OF L] one)
      (simp add: g1_ac[OF L])
qed

lemma msm_multiples:
  "g1_laws P \<Longrightarrow> msm P (map (g1_ScalarMult P u) ys) xs = g1_ScalarMult P u (dot xs ys)"
  by (induction ys xs rule: list_induct2') (simp_all add: dot_def g1_mul_mul g1_mul_add g1_mul_0 mult.commute)

lemma fold_multiples:
  assumes L: "g1_laws P"
  shows "length xs = length ys \<Longrightarrow>
    map (g1_ScalarMult P u) (fold_scalars k l xs ys) = fold_points P k l (map (g1_ScalarMult P u) xs) (map (g1_ScalarMult P u) ys)"
  by (induction xs ys rule: list_induct2)
    (simp_all add: fold_scalars_def fold_points_def fv_Times_def pv_Times_def g1_mul_mod[OF L] g1_mul_add[OF L] g1_mul_mul[OF L])

text \<open>The statement \<open>Gs * as + Hs * bs + u * \<langle>as, bs\<rangle>\<close>.\<close>

definition ip_statement :: "'p G1Ops \<Rightarrow> 'p \<Rightarrow> 'p list \<Rightarrow> 'p list \<Rightarrow> int list \<Rightarrow> int list \<Rightarrow> 'p" where
  "ip_statement P u gs hs as bs =
     g1_Add P (g1_Add P (msm P gs as) (msm P hs bs)) (g1_ScalarMult P u (dot as bs))"

definition cross_point :: "'p G1Ops \<Rightarrow> 'p \<Rightarrow> 'p list \<Rightarrow> 'p list \<Rightarrow> int list \<Rightarrow> int list \<Rightarrow> 'p" where
  "cross_point P u gs hs as bs =
     g1_Add P (g1_Add P (msm P gs as) (msm P hs bs)) (g1_ScalarMult P u (dot as bs mod Order))"

lemma dot_append: "length xs = length ys \<Longrightarrow> dot (xs @ xs') (ys @ ys') = dot xs ys + dot xs' ys'"
  by (simp add: dot_def)

lemma ip_statement_fold:
  assumes L: "g1_laws P" and inv: "(x * xi) mod Order = 1"
    and len: "length gl = m" "length gr = m" "length hl = m" "length hr = m"
      "length al = m" "length ar = m" "length bl = m" "length br = m"
  shows "ip_statement P u (fold_points P xi x gl gr) (fold_points P x xi hl hr) (fold_scalars x xi al ar) (fold_scalars xi x bl br) =
    g1_Add P (g1_Add P (g1_ScalarMult P (cross_point P u gr hl al br) (x * x)) (g1_ScalarMult P (cross_point P u gl hr ar bl) (xi * xi)))
      (ip_statement P u (gl @ gr) (hl @ hr) (al @ ar) (bl @ br))"
proof -
  let ?ub = "\<lambda>ys. map (g1_ScalarMult P u) ys"
  have inv': "(xi * x) mod Order = 1" using inv by (simp add: mult.commute)
  have G: "msm P (fold_points P xi x gl gr) (fold_scalars x xi al ar) =
    g1_Add P (g1_Add P (msm P gl al) (msm P gr ar))
      (g1_Add P (g1_ScalarMult P (msm P gr al) (x * x)) (g1_ScalarMult P (msm P gl ar) (xi * xi)))"
    using len by (intro msm_fold_both[OF L inv]) simp_all
  have H: "msm P (fold_points P x xi hl hr) (fold_scalars xi x bl br) =
    g1_Add P (g1_Add P (msm P hl bl) (msm P hr br))
      (g1_Add P (g1_ScalarMult P (msm P hr bl) (xi * xi)) (g1_ScalarMult P (msm P hl br) (x * x)))"
    using len by (intro msm_fold_both[OF L inv']) simp_all
  have "msm P (?ub (fold_scalars xi x bl br)) (fold_scalars x xi al ar) =
    g1_Add P (g1_Add P (msm P (?ub bl) al) (msm P (?ub br) ar))
      (g1_Add P (g1_ScalarMult P (msm P (?ub br) al) (x * x)) (g1_ScalarMult P (msm P (?ub bl) ar) (xi * xi)))"
    unfolding fold_multiples[OF L len(7)[unfolded len(8)[symmetric]]]
    using len by (intro msm_fold_both[OF L inv]) simp_all
  then have U: "g1_ScalarMult P u (dot (fold_scalars x xi al ar) (fold_scalars xi x bl br)) =
    g1_Add P (g1_Add P (g1_ScalarMult P u (dot al bl)) (g1_ScalarMult P u (dot ar br)))
      (g1_Add P (g1_ScalarMult P (g1_ScalarMult P u (dot al br)) (x * x)) (g1_ScalarMult P (g1_ScalarMult P u (dot ar bl)) (xi * xi)))"
    by (simp only: msm_multiples[OF L])
  have S: "ip_statement P u (gl @ gr) (hl @ hr) (al @ ar) (bl @ br) =
    g1_Add P (g1_Add P (g1_Add P (msm P gl al) (msm P gr ar)) (g1_Add P (msm P hl bl) (msm P hr br)))
      (g1_Add P (g1_ScalarMult P u (dot al bl)) (g1_ScalarMult P u (dot ar br)))"
    using len by (simp add: ip_statement_def msm_append[OF L] dot_append g1_mul_add[OF L])
  show ?thesis
    unfolding S by (simp add: ip_statement_def cross_point_def G H U g1_mul_mod[OF L] g1_add_mul[OF L] del: g1_mul_mul)
      (simp add: g1_ac[OF L])
qed

lemma foldl_dot: "foldl (\<lambda>acc (a, b). (acc + (a * b) mod Order) mod Order) (c mod Order) (zip xs ys) = (c + dot xs ys) mod Order"
  by (induction xs ys arbitrary: c rule: list_induct2') (simp_all add: dot_def mod_simps add.assoc[symmetric])

lemma fv_InnerProduct_dot: "length xs = length ys \<Longrightarrow> fv_InnerProduct xs ys = Inr (dot xs ys mod Order)"
  using foldl_dot[of 0 xs ys] by (simp add: fv_InnerProduct_def)

lemma map_nth_upt: "a \<le> b \<Longrightarrow> b \<le> length xs \<Longrightarrow> map ((!) xs) [a..<b] = take (b - a) (drop a xs)"
  by (rule nth_equalityI) auto

lemma slice_ok: "a \<le> b \<Longrightarrow> b \<le> length xs \<Longrightarrow> slice xs a b = Inr (take (b - a) (drop a xs))"
  unfolding slice_def by (subst rmap_rnth) (auto simp: map_nth_upt)

lemma slice_halves:
  "length xs = m \<Longrightarrow> length ys = m \<Longrightarrow> slice (xs @ ys) 0 m = Inr xs \<and> slice (xs @ ys) m (m + m) = Inr ys"
  by (simp add: slice_ok)

lemma generate_round:
  assumes L: "g1_laws P" and p: "pvc_Gs p = gl @ gr" "pvc_Hs p = hl @ hr" "pvc_H p = u" and m: "0 < m"
    and len: "length gl = m" "length gr = m" "length hl = m" "length hr = m"
      "length al = m" "length ar = m" "length bl = m" "length br = m"
    and L': "lp = cross_point P u gr hl al br" and R': "rp = cross_point P u gl hr ar bl"
    and x: "x = ip_challenge P keccak prev lp rp"
  shows "generateInnerProductProofNew P keccak (Suc fuel) p (al @ ar) (bl @ br) prev ls rs =
    rbind (rderef (ModInverse x Order)) (\<lambda>xi.
      generateInnerProductProofNew P keccak fuel
        (p\<lparr>pvc_Gs := fold_points P xi x gl gr, pvc_Hs := fold_points P x xi hl hr\<rparr>)
        (fold_scalars x xi al ar) (fold_scalars xi x bl br) x (ls @ [lp]) (rs @ [rp]))"
proof -
  have n: "length al + length ar = m + m" "(m + m) div 2 = m" "m + m \<noteq> 1" using len m by auto
  have sl: "slice (al @ ar) 0 m = Inr al" "slice (al @ ar) m (m + m) = Inr ar"
    "slice (bl @ br) 0 m = Inr bl" "slice (bl @ br) m (m + m) = Inr br"
    "slice (gl @ gr) 0 m = Inr gl" "slice (gl @ gr) m (m + m) = Inr gr"
    "slice (hl @ hr) 0 m = Inr hl" "slice (hl @ hr) m (m + m) = Inr hr"
    using slice_halves len by blast+
  have pts: "pv_MultiExponentiate P gr al = Inr (msm P gr al)" "pv_MultiExponentiate P hl br = Inr (msm P hl br)"
    "pv_MultiExponentiate P gl ar = Inr (msm P gl ar)" "pv_MultiExponentiate P hr bl = Inr (msm P hr bl)"
    "fv_InnerProduct al br = Inr (dot al br mod Order)" "fv_InnerProduct ar bl = Inr (dot ar bl mod Order)"
    using len by (simp_all add: pv_MultiExponentiate_msm[OF L] fv_InnerProduct_dot)
  have fold: "pv_Add P (pv_Times P gl k) (pv_Times P gr l) = Inr (fold_points P k l gl gr)"
    "pv_Add P (pv_Times P hl k) (pv_Times P hr l) = Inr (fold_points P k l hl hr)"
    "fv_Add (fv_Times al k) (fv_Times ar l) = Inr (fold_scalars k l al ar)"
    "fv_Add (fv_Times bl k) (fv_Times br l) = Inr (fold_scalars k l bl br)" for k l
    using len by (simp_all add: pv_Add_def fv_Add_def fold_points_def fold_scalars_def pv_Times_def fv_Times_def)
  show ?thesis
    using m by (simp add: n p fv_Slice_def pv_Slice_def sl pts fold cross_point_def[symmetric] L'[symmetric] R'[symmetric] x[symmetric])
qed

section \<open>The folded exponents\<close>

fun svec :: "(int \<times> int) list \<Rightarrow> int list" where
  "svec [] = [1]"
| "svec ((x, xi) # cs) = map (\<lambda>s. s * xi) (svec cs) @ map (\<lambda>s. s * x) (svec cs)"

lemma length_svec [simp]: "length (svec cs) = 2 ^ length cs"
  by (induction cs rule: svec.induct) simp_all

definition inverse_pair :: "int \<times> int \<Rightarrow> bool" where
  "inverse_pair c \<longleftrightarrow> (fst c * snd c) mod Order = 1"

lemma msm_scale:
  assumes L: "g1_laws P"
  shows "msm P gs (map (\<lambda>s. s * k) xs) = g1_ScalarMult P (msm P gs xs) k"
  by (induction gs xs rule: list_induct2')
    (simp_all add: g1_mul_mul[OF L] g1_add_mul[OF L] g1_zero_mul[OF L])

lemma msm_svec_Cons:
  assumes L: "g1_laws P" and len: "length gl = 2 ^ length cs" "length gr = 2 ^ length cs"
  shows "msm P (fold_points P xi x gl gr) (svec cs) = msm P (gl @ gr) (svec ((x, xi) # cs))"
    and "msm P (fold_points P x xi gl gr) (rev (svec cs)) = msm P (gl @ gr) (rev (svec ((x, xi) # cs)))"
  using len by (simp_all add: msm_fold_points[OF L] msm_append[OF L] msm_scale[OF L] rev_map)

text \<open>What the rounds of a proof are for the verifier.\<close>

definition proof_rounds ::
  "'p G1Ops \<Rightarrow> (bytes \<Rightarrow> bytes) \<Rightarrow> int \<Rightarrow> 'p \<Rightarrow> 'p list \<Rightarrow> 'p list \<Rightarrow> int list \<Rightarrow> int list \<Rightarrow> 'p list \<Rightarrow> 'p list \<Rightarrow> int \<Rightarrow> int \<Rightarrow> bool" where
  "proof_rounds P keccak prev u gs hs as bs ls rs a b \<longleftrightarrow>
     (\<exists>cs. list_all inverse_pair cs \<and> length cs = length ls \<and> length rs = length ls \<and>
        ip_verify_rounds P keccak prev (ip_statement P u gs hs as bs) (zip ls rs) =
          Inr (map fst cs,
            g1_Add P (g1_Add P (g1_ScalarMult P (msm P gs (svec cs)) a) (g1_ScalarMult P (msm P hs (rev (svec cs))) b))
              (g1_ScalarMult P u (a * b))))"

lemma proof_rounds_Nil:
  assumes L: "g1_laws P"
  shows "proof_rounds P keccak prev u [g] [h] [a] [b] [] [] a b"
  by (simp add: proof_rounds_def ip_statement_def dot_def g1_mul_1[OF L] g1_add_0[OF L])

lemma proof_rounds_Cons:
  assumes L: "g1_laws P" and inv: "ModInverse x Order = Some xi" "(x * xi) mod Order = 1"
    and len: "length gl = 2 ^ length ls" "length gr = 2 ^ length ls" "length hl = 2 ^ length ls" "length hr = 2 ^ length ls"
      "length al = 2 ^ length ls" "length ar = 2 ^ length ls" "length bl = 2 ^ length ls" "length br = 2 ^ length ls"
    and L': "lp = cross_point P u gr hl al br" and R': "rp = cross_point P u gl hr ar bl"
    and x: "x = ip_challenge P keccak prev lp rp"
    and rest: "proof_rounds P keccak x u (fold_points P xi x gl gr) (fold_points P x xi hl hr)
      (fold_scalars x xi al ar) (fold_scalars xi x bl br) ls rs a b"
  shows "proof_rounds P keccak prev u (gl @ gr) (hl @ hr) (al @ ar) (bl @ br) (lp # ls) (rp # rs) a b"
proof -
  obtain cs where cs: "list_all inverse_pair cs" "length cs = length ls" "length rs = length ls"
    and run: "ip_verify_rounds P keccak x (ip_statement P u (fold_points P xi x gl gr) (fold_points P x xi hl hr)
        (fold_scalars x xi al ar) (fold_scalars xi x bl br)) (zip ls rs) =
      Inr (map fst cs, g1_Add P (g1_Add P (g1_ScalarMult P (msm P (fold_points P xi x gl gr) (svec cs)) a)
        (g1_ScalarMult P (msm P (fold_points P x xi hl hr) (rev (svec cs))) b)) (g1_ScalarMult P u (a * b)))"
    using rest unfolding proof_rounds_def by blast
  have st: "g1_Add P (g1_Add P (g1_ScalarMult P lp (x * x mod Order)) (g1_ScalarMult P rp (xi * xi mod Order)))
      (ip_statement P u (gl @ gr) (hl @ hr) (al @ ar) (bl @ br)) =
    ip_statement P u (fold_points P xi x gl gr) (fold_points P x xi hl hr) (fold_scalars x xi al ar) (fold_scalars xi x bl br)"
    unfolding g1_mul_mod[OF L] L' R' using ip_statement_fold[OF L inv(2) len] by simp
  have "msm P (fold_points P xi x gl gr) (svec cs) = msm P (gl @ gr) (svec ((x, xi) # cs))"
    "msm P (fold_points P x xi hl hr) (rev (svec cs)) = msm P (hl @ hr) (rev (svec ((x, xi) # cs)))"
    using msm_svec_Cons[OF L] len cs(2) by metis+
  then have "ip_verify_rounds P keccak prev (ip_statement P u (gl @ gr) (hl @ hr) (al @ ar) (bl @ br)) (zip (lp # ls) (rp # rs)) =
      Inr (map fst ((x, xi) # cs), g1_Add P (g1_Add P (g1_ScalarMult P (msm P (gl @ gr) (svec ((x, xi) # cs))) a)
        (g1_ScalarMult P (msm P (hl @ hr) (rev (svec ((x, xi) # cs)))) b)) (g1_ScalarMult P u (a * b)))"
    by (simp add: x[symmetric] inv(1) st run del: svec.simps)
  moreover have "list_all inverse_pair ((x, xi) # cs)"
    using cs inv by (simp add: inverse_pair_def)
  ultimately show ?thesis
    unfolding proof_rounds_def using cs by (intro exI[of _ "(x, xi) # cs"]) (simp del: svec.simps)
qed

lemma split_halves:
  assumes "length xs = 2 ^ Suc k"
  obtains l r where "xs = l @ r" "length l = 2 ^ k" "length r = 2 ^ k"
  using assms that[of "take (2 ^ k) xs" "drop (2 ^ k) xs"] by simp

lemma length_one:
  assumes "length xs = 1"
  obtains x where "xs = [x]"
  using assms by (metis One_nat_def length_0_conv length_Suc_conv)

definition nil_challenge :: "go_error" where
  "nil_challenge = Panic ''invalid memory address or nil pointer dereference''"

lemma generate_rounds:
  assumes L: "g1_laws P"
  shows "length (pvc_Gs p) = 2 ^ k \<Longrightarrow> length (pvc_Hs p) = 2 ^ k \<Longrightarrow> length as = 2 ^ k \<Longrightarrow> length bs = 2 ^ k \<Longrightarrow> k < fuel \<Longrightarrow>
    (\<exists>ls' rs' a b. generateInnerProductProofNew P keccak fuel p as bs prev ls rs =
        Inr \<lparr>ip_a = a, ip_b = b, ip_ls = ls @ ls', ip_rs = rs @ rs'\<rparr> \<and> length ls' = k \<and>
        proof_rounds P keccak prev (pvc_H p) (pvc_Gs p) (pvc_Hs p) as bs ls' rs' a b) \<or>
    (\<exists>inp. \<not> coprime (reducedhash keccak inp) Order \<and>
       generateInnerProductProofNew P keccak fuel p as bs prev ls rs = Inl nil_challenge)"
proof (induction k arbitrary: fuel p as bs prev ls rs)
  case 0
  then obtain g h a b where "pvc_Gs p = [g]" "pvc_Hs p = [h]" "as = [a]" "bs = [b]"
    by (metis length_one power_0)
  moreover obtain f where "fuel = Suc f" using 0 by (cases fuel) auto
  ultimately show ?case using proof_rounds_Nil[OF L] by auto
next
  case (Suc k)
  obtain f where f: "fuel = Suc f" "k < f" using Suc.prems(5) by (cases fuel) auto
  obtain gl gr where g: "pvc_Gs p = gl @ gr" "length gl = 2 ^ k" "length gr = 2 ^ k" using Suc.prems(1) by (rule split_halves)
  obtain hl hr where h: "pvc_Hs p = hl @ hr" "length hl = 2 ^ k" "length hr = 2 ^ k" using Suc.prems(2) by (rule split_halves)
  obtain al ar where a: "as = al @ ar" "length al = 2 ^ k" "length ar = 2 ^ k" using Suc.prems(3) by (rule split_halves)
  obtain bl br where b: "bs = bl @ br" "length bl = 2 ^ k" "length br = 2 ^ k" using Suc.prems(4) by (rule split_halves)
  define lp where "lp = cross_point P (pvc_H p) gr hl al br"
  define rp where "rp = cross_point P (pvc_H p) gl hr ar bl"
  define inp where "inp = ConvertBigIntToByte prev @ g1_Marshal P lp @ g1_Marshal P rp"
  define x where "x = ip_challenge P keccak prev lp rp"
  have x: "x = reducedhash keccak inp" by (simp add: x_def ip_challenge_def inp_def)
  note round = generate_round[OF L g(1) h(1) refl _ g(2,3) h(2,3) a(2,3) b(2,3) lp_def rp_def x_def, of f ls rs,
      folded a(1) b(1) f(1)]
  show ?case
  proof (cases "coprime x Order")
    case False
    then have "ModInverse x Order = None" using ModInverse_spec[of Order x] by simp
    then have "generateInnerProductProofNew P keccak fuel p as bs prev ls rs = Inl nil_challenge"
      using round by (simp add: rderef_def nil_challenge_def)
    then show ?thesis using False x by blast
  next
    case True
    then obtain xi where xi: "ModInverse x Order = Some xi" "(x * xi) mod Order = 1"
      using ModInverse_spec[of Order x] by auto
    let ?p = "p\<lparr>pvc_Gs := fold_points P xi x gl gr, pvc_Hs := fold_points P x xi hl hr\<rparr>"
    let ?as = "fold_scalars x xi al ar" and ?bs = "fold_scalars xi x bl br"
    have step: "generateInnerProductProofNew P keccak fuel p as bs prev ls rs =
        generateInnerProductProofNew P keccak f ?p ?as ?bs x (ls @ [lp]) (rs @ [rp])"
      using round xi by simp
    have "(\<exists>ls' rs' a b. generateInnerProductProofNew P keccak f ?p ?as ?bs x (ls @ [lp]) (rs @ [rp]) =
        Inr \<lparr>ip_a = a, ip_b = b, ip_ls = (ls @ [lp]) @ ls', ip_rs = (rs @ [rp]) @ rs'\<rparr> \<and> length ls' = k \<and>
        proof_rounds P keccak x (pvc_H ?p) (pvc_Gs ?p) (pvc_Hs ?p) ?as ?bs ls' rs' a b) \<or>
      (\<exists>inp. \<not> coprime (reducedhash keccak inp) Order \<and>
        generateInnerProductProofNew P keccak f ?p ?as ?bs x (ls @ [lp]) (rs @ [rp]) = Inl nil_challenge)"
      using g h a b f by (intro Suc.IH) simp_all
    then show ?thesis
    proof (elim disjE exE conjE)
      fix ls' rs' aa bb
      assume run: "generateInnerProductProofNew P keccak f ?p ?as ?bs x (ls @ [lp]) (rs @ [rp]) =
          Inr \<lparr>ip_a = aa, ip_b = bb, ip_ls = (ls @ [lp]) @ ls', ip_rs = (rs @ [rp]) @ rs'\<rparr>" and k: "length ls' = k"
        and rest: "proof_rounds P keccak x (pvc_H ?p) (pvc_Gs ?p) (pvc_Hs ?p) ?as ?bs ls' rs' aa bb"
      have "proof_rounds P keccak prev (pvc_H p) (gl @ gr) (hl @ hr) (al @ ar) (bl @ br) (lp # ls') (rp # rs') aa bb"
        using rest k g h a b by (intro proof_rounds_Cons[OF L xi _ _ _ _ _ _ _ _ lp_def rp_def x_def]) simp_all
      then show ?thesis
        using run k step g(1) h(1) a(1) b(1) by (intro disjI1 exI[of _ "lp # ls'"] exI[of _ "rp # rs'"] exI[of _ aa] exI[of _ bb]) simp
    qed (use step in auto)
  qed
qed

section \<open>The table of exponents\<close>

lemma mult_mod_cong: "a mod m = b mod m \<Longrightarrow> c mod m = d mod m \<Longrightarrow> (a * c) mod m = (b * d :: int) mod m"
  by (metis mod_mult_eq)

lemma nth_svec_step:
  "list_all inverse_pair cs \<Longrightarrow> i < 2 ^ j \<Longrightarrow> j < length cs \<Longrightarrow>
   svec cs ! (2 ^ j + i) mod Order = (svec cs ! i * (fst (cs ! (length cs - 1 - j)) * fst (cs ! (length cs - 1 - j)))) mod Order"
proof (induction cs rule: svec.induct)
  case (2 x xi cs)
  let ?s = "svec cs"
  have inv: "(x * xi) mod Order = 1" using "2.prems"(1) by (simp add: inverse_pair_def)
  show ?case
  proof (cases "j = length cs")
    case True
    have "(?s ! i * xi * (x * x)) mod Order = (?s ! i * x * (x * xi)) mod Order"
      by (simp add: algebra_simps)
    also have "\<dots> = (?s ! i * x) mod Order"
      using mult_mod_cong[of "?s ! i * x" Order "?s ! i * x" "x * xi" 1] inv by simp
    finally show ?thesis using True "2.prems"(2) by (simp add: nth_append)
  next
    case False
    then have j: "j < length cs" using "2.prems"(3) by simp
    have "(2 :: nat) ^ j + i < 2 ^ Suc j" using "2.prems"(2) by simp
    also have "(2 :: nat) ^ Suc j \<le> 2 ^ length cs" using j by (intro power_increasing) auto
    finally have i: "2 ^ j + i < 2 ^ length cs" "i < 2 ^ length cs" by auto
    have "cs ! (length cs - 1 - j) = ((x, xi) # cs) ! (length cs - j)"
      using j by (simp add: nth_Cons')
    moreover have "?s ! (2 ^ j + i) mod Order = (?s ! i * (fst (cs ! (length cs - 1 - j)) * fst (cs ! (length cs - 1 - j)))) mod Order"
      using "2.IH"(1) "2.prems" j by auto
    ultimately show ?thesis
      using i mult_mod_cong[of "?s ! (2 ^ j + i)" Order _ xi xi] by (simp add: nth_append mult.assoc mult.commute mult.left_commute)
  qed
qed simp

text \<open>The entries filled so far agree with the folded exponents.\<close>

definition table_ok :: "(int \<times> int) list \<Rightarrow> int option list \<times> bool list \<Rightarrow> bool" where
  "table_ok cs = (\<lambda>(exponents, bits).
     length exponents = 2 ^ length cs \<and> length bits = 2 ^ length cs \<and>
     (\<forall>m < 2 ^ length cs. m = 0 \<or> bits ! m \<longrightarrow> (\<exists>v. exponents ! m = Some v \<and> v mod Order = svec cs ! m mod Order)))"

text \<open>Every entry whose index without its leading bit is below \<open>i\<close> is filled.\<close>

definition filled_below :: "nat \<Rightarrow> int option list \<times> bool list \<Rightarrow> bool" where
  "filled_below i = (\<lambda>(exponents, bits). \<forall>m t. m < length bits \<longrightarrow> 2 ^ t \<le> m \<longrightarrow> m < 2 ^ Suc t \<longrightarrow> m - 2 ^ t < i \<longrightarrow> bits ! m)"

definition filled_at :: "nat \<Rightarrow> nat \<Rightarrow> int option list \<times> bool list \<Rightarrow> bool" where
  "filled_at i j = (\<lambda>(exponents, bits). \<forall>t < j. i < 2 ^ t \<longrightarrow> 2 ^ t + i < length bits \<longrightarrow> bits ! (2 ^ t + i))"

lemma leading_bit: "0 < (m :: nat) \<Longrightarrow> \<exists>t. 2 ^ t \<le> m \<and> m < 2 ^ Suc t"
  using ex_power_ivl1[of 2 m] by auto

lemma set_bit_keeps: "m < length bits \<Longrightarrow> bits ! m \<Longrightarrow> bits[k := True] ! m"
  by (cases "m = k") simp_all

lemma table_ok_update:
  assumes "v mod Order = svec cs ! k mod Order" "table_ok cs (ex, bits)" "k < 2 ^ length cs"
  shows "table_ok cs (ex[k := Some v], bits[k := True])"
proof -
  have "\<exists>w. ex[k := Some v] ! m = Some w \<and> w mod Order = svec cs ! m mod Order"
    if "m < 2 ^ length cs" "m = 0 \<or> bits[k := True] ! m" for m
    using assms that by (cases "m = k") (auto simp: table_ok_def)
  then show ?thesis using assms(2) by (simp add: table_ok_def)
qed

lemma exponent_step_ok:
  assumes cs: "list_all inverse_pair cs" and ok: "table_ok cs st" and below: "filled_below i st" and at: "filled_at i j st"
    and i: "2 ^ j + i < 2 ^ length cs"
  shows "\<exists>st'. ip_exponent_step (map fst cs) i j st = Inr st' \<and> table_ok cs st' \<and> filled_below i st' \<and> filled_at i (Suc j) st'"
proof -
  obtain ex bits where st: "st = (ex, bits)" by (cases st)
  let ?i1 = "2 ^ j + i"
  have len: "length ex = 2 ^ length cs" "length bits = 2 ^ length cs" using ok by (simp_all add: st table_ok_def)
  have j: "j < length cs"
    using i by (metis add_lessD1 nat_power_less_imp_less zero_less_numeral pos2)
  show ?thesis
  proof (cases "bits ! ?i1")
    case True
    then have "filled_at i (Suc j) st"
      using at by (auto simp: st filled_at_def less_Suc_eq)
    then show ?thesis
      using True i len ok below by (auto simp: st ip_exponent_step_def Let_def)
  next
    case False
    have lt: "i < 2 ^ j"
    proof (rule ccontr)
      assume "\<not> i < 2 ^ j"
      then have ge: "2 ^ Suc j \<le> ?i1" by simp
      obtain t where t: "2 ^ t \<le> ?i1" "?i1 < 2 ^ Suc t" using leading_bit[of ?i1] by auto
      have "j < t" using le_less_trans[OF ge t(2)] by (simp add: power_strict_increasing_iff)
      then have "(2 :: nat) ^ j < 2 ^ t" by simp
      then have "?i1 - 2 ^ t < i" using t(1) by linarith
      then show False using below t i len False by (auto simp: st filled_below_def)
    qed
    have "i < 2 ^ length cs" using i by simp
    moreover have "i = 0 \<or> bits ! i"
    proof (cases "i = 0")
      case False
      then obtain t where t: "2 ^ t \<le> i" "i < 2 ^ Suc t" using leading_bit[of i] by auto
      then have "i - 2 ^ t < i" using False by simp
      then show ?thesis using below t \<open>i < 2 ^ length cs\<close> len by (auto simp: st filled_below_def)
    qed simp
    ultimately obtain v where v: "ex ! i = Some v" "v mod Order = svec cs ! i mod Order"
      using ok by (auto simp: st table_ok_def)
    let ?c = "fst (cs ! (length cs - 1 - j))"
    let ?v = "(v * ((?c * ?c) mod Order)) mod Order"
    have run: "ip_exponent_step (map fst cs) i j st = Inr (ex[?i1 := Some ?v], bits[?i1 := True])"
      using False i len j v \<open>i < 2 ^ length cs\<close> by (simp add: st ip_exponent_step_def Let_def)
    have "?v mod Order = svec cs ! ?i1 mod Order"
      using nth_svec_step[OF cs lt j] mult_mod_cong[OF v(2) refl, of "?c * ?c"] by (simp add: mod_mult_right_eq)
    then have "table_ok cs (ex[?i1 := Some ?v], bits[?i1 := True])"
      using ok i unfolding st by (rule table_ok_update)
    moreover have "filled_below i (ex[?i1 := Some ?v], bits[?i1 := True])"
      using below len by (auto simp: st filled_below_def intro!: set_bit_keeps)
    moreover have "filled_at i (Suc j) (ex[?i1 := Some ?v], bits[?i1 := True])"
      using at len i by (auto simp: st filled_at_def less_Suc_eq intro!: set_bit_keeps)
    ultimately show ?thesis using run by blast
  qed
qed

lemma exponent_inner_ok:
  assumes cs: "list_all inverse_pair cs"
  shows "table_ok cs st \<Longrightarrow> filled_below i st \<Longrightarrow> filled_at i j st \<Longrightarrow>
    \<exists>st'. ip_exponent_inner (map fst cs) (2 ^ length cs) i j st = Inr st' \<and> table_ok cs st' \<and> filled_below (Suc i) st'"
proof (induction "map fst cs" "2 ^ length cs :: nat" i j st rule: ip_exponent_inner.induct)
  case (1 i j st)
  show ?case
  proof (cases "2 ^ j + i < 2 ^ length cs")
    case True
    obtain st1 where st1: "ip_exponent_step (map fst cs) i j st = Inr st1" "table_ok cs st1" "filled_below i st1" "filled_at i (Suc j) st1"
      using exponent_step_ok[OF cs 1(2-4) True] by blast
    then obtain st' where "ip_exponent_inner (map fst cs) (2 ^ length cs) i (Suc j) st1 = Inr st'" "table_ok cs st'" "filled_below (Suc i) st'"
      using 1(1)[OF True st1(2-4)] by blast
    then show ?thesis using st1 True by (subst ip_exponent_inner.simps) simp
  next
    case False
    have "filled_below (Suc i) st"
    proof (clarsimp simp: filled_below_def split: prod.splits)
      fix ex bits m t
      assume st: "st = (ex, bits)" and m: "m < length bits" "2 ^ t \<le> m" "m < 2 * 2 ^ t" "m - 2 ^ t < Suc i"
      show "bits ! m"
      proof (cases "m - 2 ^ t = i")
        case True
        then have e: "m = 2 ^ t + i" "i < 2 ^ t" using m by auto
        have "length bits = 2 ^ length cs" using 1(2) by (simp add: st table_ok_def)
        then have "2 ^ t + i < 2 ^ j + i" using False m(1) e by linarith
        then have "t < j" by (simp add: power_strict_increasing_iff)
        then show ?thesis using 1(4) e m(1) by (auto simp: st filled_at_def)
      next
        case False
        then show ?thesis using 1(3) m by (auto simp: st filled_below_def)
      qed
    qed
    then show ?thesis using False 1(2) by (subst ip_exponent_inner.simps) simp
  qed
qed

lemma exponent_outer_ok:
  assumes cs: "list_all inverse_pair cs"
  shows "table_ok cs st \<Longrightarrow> filled_below a st \<Longrightarrow>
    \<exists>st'. ip_exponent_outer (map fst cs) (2 ^ length cs) [a..<a + d] st = Inr st' \<and> table_ok cs st' \<and> filled_below (a + d) st'"
proof (induction d arbitrary: a st)
  case (Suc d)
  have "filled_at a 0 st" by (simp add: filled_at_def split: prod.splits)
  then obtain st1 where st1: "ip_exponent_inner (map fst cs) (2 ^ length cs) a 0 st = Inr st1" "table_ok cs st1" "filled_below (Suc a) st1"
    using exponent_inner_ok[OF cs Suc.prems] by blast
  moreover obtain st' where "ip_exponent_outer (map fst cs) (2 ^ length cs) [Suc a..<Suc a + d] st1 = Inr st'"
    "table_ok cs st'" "filled_below (Suc a + d) st'"
    using Suc.IH[OF st1(2,3)] by blast
  ultimately show ?case by (simp add: upt_conv_Cons del: upt_Suc)
qed simp

lemma svec_first: "svec cs ! 0 = prod_list (map snd cs)"
  by (induction cs rule: svec.induct) (simp_all add: nth_append mult.commute)

lemma foldl_mod_prod: "foldl (\<lambda>acc c. (acc * c) mod Order) (a mod Order) xs = (a * prod_list xs) mod Order"
  by (induction xs arbitrary: a) (simp_all add: mod_simps mult.assoc[symmetric])

lemma prod_inverse: "list_all inverse_pair cs \<Longrightarrow> (prod_list (map fst cs) * prod_list (map snd cs)) mod Order = 1"
proof (induction cs)
  case (Cons c cs)
  have "(prod_list (map fst (c # cs)) * prod_list (map snd (c # cs))) mod Order =
      ((fst c * snd c) * (prod_list (map fst cs) * prod_list (map snd cs))) mod Order"
    by (simp add: algebra_simps)
  also have "\<dots> = (1 * 1) mod Order"
    using Cons by (intro mult_mod_cong) (simp_all add: inverse_pair_def)
  finally show ?case by simp
qed simp

lemma inverse_of_product:
  assumes "list_all inverse_pair cs"
  shows "\<exists>y. ModInverse (prod_list (map fst cs) mod Order) Order = Some y \<and> y mod Order = prod_list (map snd cs) mod Order"
proof -
  let ?x = "prod_list (map fst cs)" and ?xi = "prod_list (map snd cs)"
  have "coprime (?x mod Order) Order"
    using prod_inverse[OF assms] by (metis coprime_mod_left_iff coprime_mult_left_iff coprime_1_left Order_pos(4))
  then obtain y where y: "ModInverse (?x mod Order) Order = Some y" "(?x mod Order * y) mod Order = 1"
    using ModInverse_spec[of Order "?x mod Order"] by auto
  have "y mod Order = (y * (?x * ?xi)) mod Order"
    using prod_inverse[OF assms] mult_mod_cong[of y Order y "?x * ?xi" 1] by simp
  also have "\<dots> = ((?x * y) * ?xi) mod Order" by (simp add: algebra_simps)
  also have "\<dots> = (1 * ?xi) mod Order"
    using y(2) by (intro mult_mod_cong) (simp_all add: mod_mult_left_eq)
  finally show ?thesis using y(1) by simp
qed

lemma ip_exponents_ok:
  assumes cs: "list_all inverse_pair cs"
  shows "\<exists>es. ip_exponents (map fst cs) (2 ^ length cs) = Inr (map Some es) \<and> length es = 2 ^ length cs \<and>
    (\<forall>m < 2 ^ length cs. es ! m mod Order = svec cs ! m mod Order)"
proof -
  let ?n = "2 ^ length cs :: nat"
  obtain y where y: "ModInverse (prod_list (map fst cs) mod Order) Order = Some y" "y mod Order = svec cs ! 0 mod Order"
    using inverse_of_product[OF cs] svec_first by metis
  let ?st = "((replicate ?n None)[0 := Some y], replicate ?n False)"
  have "table_ok cs ?st" using y(2) by (auto simp: table_ok_def)
  moreover have "filled_below 0 ?st" by (simp add: filled_below_def)
  ultimately obtain ex bits where run: "ip_exponent_outer (map fst cs) ?n [0..<?n div 2] ?st = Inr (ex, bits)"
    and ok: "table_ok cs (ex, bits)" and full: "filled_below (?n div 2) (ex, bits)"
    using exponent_outer_ok[OF cs, of ?st 0 "?n div 2"] by auto
  have entry: "\<exists>v. ex ! m = Some v \<and> v mod Order = svec cs ! m mod Order" if m: "m < ?n" for m
  proof -
    have "m = 0 \<or> bits ! m"
    proof (cases "m = 0")
    case False
    then obtain t where t: "2 ^ t \<le> m" "m < 2 ^ Suc t" using leading_bit[of m] by auto
    have "t < length cs" using le_less_trans[OF t(1) m] by simp
    then have "(2 :: nat) ^ Suc t \<le> ?n" by (intro power_increasing) auto
    then have "m - 2 ^ t < ?n div 2" using t by (simp add: less_eq_div_iff_mult_less_eq)
    then show ?thesis using ok full t m by (auto simp: table_ok_def filled_below_def)
    qed simp
    then show ?thesis using ok m unfolding table_ok_def by blast
  qed
  have len: "length ex = ?n" using ok by (simp add: table_ok_def)
  have sel: "ex ! m = Some (the (ex ! m))" "the (ex ! m) mod Order = svec cs ! m mod Order" if "m < ?n" for m
    using entry[OF that] by auto
  have "ex = map Some (map the ex)"
    by (rule nth_equalityI) (simp_all add: len sel(1)[symmetric])
  moreover have "ip_exponents (map fst cs) ?n = Inr ex"
    using foldl_mod_prod[of 1 "map fst cs"] run y(1) by (simp add: ip_exponents_def Let_def)
  ultimately show ?thesis
    using sel(2) len by (intro exI[of _ "map the ex"]) simp
qed

section \<open>Completeness\<close>

lemma msm_cong:
  assumes L: "g1_laws P" and "length xs = length ys" "\<forall>i < length xs. xs ! i mod Order = ys ! i mod Order"
  shows "msm P gs xs = msm P gs ys"
  using assms(2,3)
proof (induction gs xs arbitrary: ys rule: list_induct2')
  case (4 g gs x xs)
  then obtain y zs where y: "ys = y # zs" by (cases ys) auto
  have "x mod Order = y mod Order" "xs ! i mod Order = zs ! i mod Order" if "i < length xs" for i
    using 4(3)[rule_format, of 0] 4(3)[rule_format, of "Suc i"] that by (simp_all add: y)
  moreover have "x mod Order = y mod Order" using 4(3)[rule_format, of 0] by (simp add: y)
  ultimately show ?case using 4(1)[of zs] 4(2) g1_mul_cong[OF L, of x y g] by (simp add: y)
qed (auto simp: neq_Nil_conv)

lemma ip_verify_sums_ok:
  assumes L: "g1_laws P" and "length gs = n" "length hs = n" "length es = n"
  shows "a \<le> n \<Longrightarrow> ip_verify_sums P gs hs (map Some es) n [a..<n] (g, h) =
    Inr (g1_Add P g (msm P (drop a gs) (drop a es)), g1_Add P h (msm P (drop a hs) (drop a (rev es))))"
proof (induction "n - a" arbitrary: a g h)
  case (Suc d)
  then have a: "a < n" by simp
  have "drop a gs = gs ! a # drop (Suc a) gs" "drop a hs = hs ! a # drop (Suc a) hs"
    "drop a es = es ! a # drop (Suc a) es" "drop a (rev es) = es ! (n - 1 - a) # drop (Suc a) (rev es)"
    using a assms by (simp_all add: Cons_nth_drop_Suc rev_nth flip: Cons_nth_drop_Suc)
  then show ?case
    using a Suc.hyps(1)[of "Suc a"] Suc.hyps(2) assms by (simp add: upt_conv_Cons g1_assoc[OF L])
qed (use assms in \<open>simp add: g1_add_0\<close>)

lemma proof_rounds_verify:
  assumes L: "g1_laws P" and len: "length gs = 2 ^ length ls" "length hs = 2 ^ length ls" and gp: "gp_Gs gp = gs"
    and pr: "proof_rounds P keccak salt u gs hs as bs ls rs a b"
  shows "InnerProduct_Verify P keccak \<lparr>ip_a = a, ip_b = b, ip_ls = ls, ip_rs = rs\<rparr> hs u (ip_statement P u gs hs as bs) salt gp = Inr True"
proof -
  let ?n = "2 ^ length ls :: nat"
  obtain cs where cs: "list_all inverse_pair cs" "length cs = length ls" "length rs = length ls"
    and run: "ip_verify_rounds P keccak salt (ip_statement P u gs hs as bs) (zip ls rs) =
      Inr (map fst cs, g1_Add P (g1_Add P (g1_ScalarMult P (msm P gs (svec cs)) a) (g1_ScalarMult P (msm P hs (rev (svec cs))) b))
        (g1_ScalarMult P u (a * b)))"
    using pr unfolding proof_rounds_def by blast
  obtain es where es: "ip_exponents (map fst cs) ?n = Inr (map Some es)" "length es = ?n"
    "\<forall>m < ?n. es ! m mod Order = svec cs ! m mod Order"
    using ip_exponents_ok[OF cs(1)] cs(2) by auto
  have "msm P gs es = msm P gs (svec cs)"
    using es cs(2) by (intro msm_cong[OF L]) auto
  moreover have "msm P hs (rev es) = msm P hs (rev (svec cs))"
    using es cs(2) by (intro msm_cong[OF L]) (auto simp: rev_nth)
  ultimately have "ip_verify_sums P gs hs (map Some es) ?n [0..<?n] (g1_zero P, g1_zero P) =
      Inr (msm P gs (svec cs), msm P hs (rev (svec cs)))"
    using ip_verify_sums_ok[OF L len es(2), of 0] by (simp add: g1_0_add[OF L])
  then show ?thesis
    using cs es(1) run gp by (simp add: InnerProduct_Verify_def Let_def g1_mul_mod[OF L])
qed

lemma inner_product_accepted:
  assumes L: "g1_laws P" and len: "length (pvc_Gs p) = 2 ^ k" "length (pvc_Hs p) = 2 ^ k"
      "length (pvc_gvalues p) = 2 ^ k" "length (pvc_hvalues p) = 2 ^ k"
    and gp: "gp_Gs gp = pvc_Gs p" and fuel: "k < fuel"
  shows "(\<exists>ip. NewInnerProductProofNew P keccak fuel p salt = Inr ip \<and> length (ip_ls ip) = k \<and>
      InnerProduct_Verify P keccak ip (pvc_Hs p) (pvc_H p)
        (ip_statement P (pvc_H p) (pvc_Gs p) (pvc_Hs p) (pvc_gvalues p) (pvc_hvalues p)) salt gp = Inr True) \<or>
    (\<exists>inp. \<not> coprime (reducedhash keccak inp) Order \<and> NewInnerProductProofNew P keccak fuel p salt = Inl nil_challenge)"
  using generate_rounds[OF L len fuel, of keccak salt "[]" "[]"] proof_rounds_verify[OF L, of "pvc_Gs p" _ "pvc_Hs p" gp] len gp
  unfolding NewInnerProductProofNew_def by fastforce

text \<open>C8: Completeness of the inner product argument: on vectors of length \<open>2 ^ k\<close> the prover returns after \<open>k\<close>
  rounds, and the verifier accepts its proof of the statement \<open>Gs * as + Hs * bs + u * \<langle>as, bs\<rangle>\<close>;
  the only other outcome is the nil-pointer panic of a challenge that has no inverse modulo the order.\<close>

theorem inner_product_complete:
  assumes L: "g1_laws P" and len: "length (pvc_Gs p) = 2 ^ k" "length (pvc_Hs p) = 2 ^ k"
      "length (pvc_gvalues p) = 2 ^ k" "length (pvc_hvalues p) = 2 ^ k"
    and gp: "gp_Gs gp = pvc_Gs p" and fuel: "k < fuel"
  shows "(\<exists>ip. NewInnerProductProofNew P keccak fuel p salt = Inr ip \<and> length (ip_ls ip) = k \<and>
      InnerProduct_Verify P keccak ip (pvc_Hs p) (pvc_H p)
        (ip_statement P (pvc_H p) (pvc_Gs p) (pvc_Hs p) (pvc_gvalues p) (pvc_hvalues p)) salt gp = Inr True) \<or>
    (\<exists>inp. \<not> coprime (reducedhash keccak inp) Order \<and> NewInnerProductProofNew P keccak fuel p salt = Inl nil_challenge)"
  using assms by (rule inner_product_accepted)

theorem inner_product_complete_witness:
  "\<exists>ip. NewInnerProductProofNew residue_curve (\<lambda>_. [2]) 2
      \<lparr>pvc_G = residue 1, pvc_H = residue 2, pvc_GSUM = residue 0, pvc_Gs = [residue 3, residue 4], pvc_Hs = [residue 5, residue 6],
       pvc_Randomness = None, pvc_Result = None, pvc_gvalues = [7, 8], pvc_hvalues = [9, 10]\<rparr> 11 = Inr ip \<and> length (ip_ls ip) = 1 \<and>
    InnerProduct_Verify residue_curve (\<lambda>_. [2]) ip [residue 5, residue 6] (residue 2)
      (ip_statement residue_curve (residue 2) [residue 3, residue 4] [residue 5, residue 6] [7, 8] [9, 10]) 11
      \<lparr>gp_G = residue 1, gp_H = residue 2, gp_GSUM = None, gp_Gs = [residue 3, residue 4], gp_Hs = [residue 5, residue 6]\<rparr> = Inr True"
proof -
  have "coprime (2 :: int) Order" by (simp add: Order_def)
  then have "\<not> (\<exists>inp. \<not> coprime (reducedhash (\<lambda>_. [2]) inp) Order)"
    by (simp add: reducedhash_def HashtoNumber_def SetBytes_def Order_def)
  then show ?thesis
    using inner_product_complete[OF residue_laws, of
        "\<lparr>pvc_G = residue 1, pvc_H = residue 2, pvc_GSUM = residue 0, pvc_Gs = [residue 3, residue 4], pvc_Hs = [residue 5, residue 6],
          pvc_Randomness = None, pvc_Result = None, pvc_gvalues = [7, 8], pvc_hvalues = [9, 10]\<rparr>" 1
        "\<lparr>gp_G = residue 1, gp_H = residue 2, gp_GSUM = None, gp_Gs = [residue 3, residue 4], gp_Hs = [residue 5, residue 6]\<rparr>" 2
        "\<lambda>_. [2]" 11]
    by simp
qed

section \<open>The two provers\<close>

lemma pv_Commit_MultiExponentiate: "length gs = length xs \<Longrightarrow> pv_Commit P gs xs = pv_MultiExponentiate P gs xs"
  by (simp add: pv_Commit_def pv_MultiExponentiate_def)

lemma slice_halves_of:
  "length xs = n \<Longrightarrow> slice xs 0 (n div 2) = Inr (take (n div 2) xs) \<and> slice xs (n div 2) n = Inr (drop (n div 2) xs)"
  by (simp add: slice_ok)

lemma provers_agree:
  "length (gp_Gs base) = length as \<Longrightarrow> length (gp_Hs base) = length as \<Longrightarrow> length bs = length as \<Longrightarrow>
   pvc_Gs p = gp_Gs base \<Longrightarrow> pvc_Hs p = gp_Hs base \<Longrightarrow> pvc_H p = gp_H base \<Longrightarrow>
   generateInnerProductProof P keccak fuel base Q as bs prev ls rs = generateInnerProductProofNew P keccak fuel p as bs prev ls rs"
proof (induction fuel arbitrary: base Q as bs prev ls rs p)
  case (Suc fuel)
  define n where "n = length as"
  define m where "m = n div 2"
  have sl: "slice as 0 m = Inr (take m as)" "slice as m n = Inr (drop m as)"
    "slice bs 0 m = Inr (take m bs)" "slice bs m n = Inr (drop m bs)"
    "slice (gp_Gs base) 0 m = Inr (take m (gp_Gs base))" "slice (gp_Gs base) m n = Inr (drop m (gp_Gs base))"
    "slice (gp_Hs base) 0 m = Inr (take m (gp_Hs base))" "slice (gp_Hs base) m n = Inr (drop m (gp_Hs base))"
    unfolding m_def using slice_halves_of Suc.prems n_def by metis+
  show ?case
  proof (cases "even n")
    case False
    then have "length (take m as) \<noteq> length (drop m bs)"
      using Suc.prems by (auto simp: m_def n_def elim!: oddE)
    then have "fv_InnerProduct (take m as) (drop m bs) = mismatch"
      by (simp add: fv_InnerProduct_def)
    then show ?thesis
      by (simp add: Suc.prems n_def[symmetric] m_def[symmetric] fv_Slice_def pv_Slice_def sl mismatch_def)
  next
    case True
    then have len: "length (take m xs) = m" "length (drop m xs) = m" if "length xs = n" for xs :: "'b list"
      using that by (auto simp: m_def elim!: evenE)
    note lens = len[OF n_def[symmetric]] len[of bs] len[of "gp_Gs base"] len[of "gp_Hs base"]
    have eq: "pv_Commit P (drop m (gp_Gs base)) (take m as) = pv_MultiExponentiate P (drop m (gp_Gs base)) (take m as)"
      "pv_Commit P (take m (gp_Hs base)) (drop m bs) = pv_MultiExponentiate P (take m (gp_Hs base)) (drop m bs)"
      "pv_Commit P (take m (gp_Gs base)) (drop m as) = pv_MultiExponentiate P (take m (gp_Gs base)) (drop m as)"
      "pv_Commit P (drop m (gp_Hs base)) (take m bs) = pv_MultiExponentiate P (drop m (gp_Hs base)) (take m bs)"
      using True Suc.prems by (auto intro!: pv_Commit_MultiExponentiate simp: m_def n_def elim!: evenE)
    have l2: "n - m = m" "m \<le> n" using True by (auto simp: m_def elim!: evenE)
    have fold: "pv_Add P (pv_Times P (take m (gp_Gs base)) k) (pv_Times P (drop m (gp_Gs base)) l) = Inr (fold_points P k l (take m (gp_Gs base)) (drop m (gp_Gs base)))"
      "pv_Add P (pv_Times P (take m (gp_Hs base)) k) (pv_Times P (drop m (gp_Hs base)) l) = Inr (fold_points P k l (take m (gp_Hs base)) (drop m (gp_Hs base)))"
      "fv_Add (fv_Times (take m as) k) (fv_Times (drop m as) l) = Inr (fold_scalars k l (take m as) (drop m as))"
      "fv_Add (fv_Times (take m bs) k) (fv_Times (drop m bs) l) = Inr (fold_scalars k l (take m bs) (drop m bs))" for k l
      using l2 Suc.prems n_def by (simp_all add: pv_Add_def fv_Add_def fold_points_def fold_scalars_def pv_Times_def fv_Times_def)
    show ?thesis
      by (simp add: Suc.prems n_def[symmetric] m_def[symmetric] fv_Slice_def pv_Slice_def sl eq fold Let_def)
        (intro impI rbind_cong Suc.IH; simp add: NewGeneratorParams3_def l2 Suc.prems n_def[symmetric])
  qed
qed simp

text \<open>C26: The two provers, on generator parameters and on a vector commitment, return the same proof or the same
  failure on every input whose four vectors have one length.\<close>

theorem inner_product_provers_equal:
  assumes "length (gp_Gs base) = length as" "length (gp_Hs base) = length as" "length bs = length as"
    and "pvc_Gs p = gp_Gs base" "pvc_Hs p = gp_Hs base" "pvc_H p = gp_H base"
  shows "generateInnerProductProof P keccak fuel base Q as bs prev ls rs = generateInnerProductProofNew P keccak fuel p as bs prev ls rs"
  using assms by (rule provers_agree)

theorem inner_product_provers_equal_witness:
  "generateInnerProductProof residue_curve (take 32) 3
     \<lparr>gp_G = residue 1, gp_H = residue 2, gp_GSUM = None, gp_Gs = [residue 3, residue 4], gp_Hs = [residue 5, residue 6]\<rparr> (residue 9) [7, 8] [9, 10] 11 [] [] =
   generateInnerProductProofNew residue_curve (take 32) 3
     \<lparr>pvc_G = residue 1, pvc_H = residue 2, pvc_GSUM = residue 0, pvc_Gs = [residue 3, residue 4], pvc_Hs = [residue 5, residue 6],
       pvc_Randomness = None, pvc_Result = None, pvc_gvalues = [], pvc_hvalues = []\<rparr> [7, 8] [9, 10] 11 [] []"
  by (rule inner_product_provers_equal) simp_all

section \<open>Wire format\<close>

lemma reads_ReadBN256G1:
  assumes K: "g1_codec P" and g: "g \<noteq> g1_zero P"
  shows "reads (ReadBN256G1 P) (g1_EncodeCompressed P g) g"
proof -
  have "reads (ReadBN256G1 P) (g1_EncodeCompressed P g @ []) g"
    unfolding ReadBN256G1_def using K g
    by (intro reads_bind[OF reads_ReadBytes]) (simp_all add: g1_codec_def glift_def)
  then show ?thesis by simp
qed

lemma reads_ReadBigInt: "reads ReadBigInt (ConvertBigIntToByte (n mod Order)) (n mod Order)"
proof -
  have "reads ReadBigInt (ConvertBigIntToByte (n mod Order) @ []) (n mod Order)"
    unfolding ReadBigInt_def
    by (intro reads_bind[OF reads_ReadBytes] reads_gret_eq) (simp_all add: ConvertBigIntToByte_scalar)
  then show ?thesis by simp
qed

definition lr_enc :: "'p G1Ops \<Rightarrow> 'p \<times> 'p \<Rightarrow> bytes" where
  "lr_enc P lr = g1_EncodeCompressed P (fst lr) @ g1_EncodeCompressed P (snd lr)"

lemma writes_lr: "writes (fold (\<lambda>(l, r) w. Write (g1_EncodeCompressed P r) (Write (g1_EncodeCompressed P l) w)) lrs) (concat (map (lr_enc P) lrs))"
proof (rule writes_fold)
  fix lr :: "'a \<times> 'a"
  show "writes ((\<lambda>(l, r) w. Write (g1_EncodeCompressed P r) (Write (g1_EncodeCompressed P l) w)) lr) (lr_enc P lr)"
    unfolding lr_enc_def split_beta by (intro writes_comp writes_Write)
qed

lemma reads_lr:
  assumes "g1_codec P" "fst lr \<noteq> g1_zero P" "snd lr \<noteq> g1_zero P"
  shows "reads (gbind (ReadBN256G1 P) (\<lambda>l. gbind (ReadBN256G1 P) (\<lambda>r. gret (l, r)))) (lr_enc P lr) lr"
proof -
  have "reads (gbind (ReadBN256G1 P) (\<lambda>l. gbind (ReadBN256G1 P) (\<lambda>r. gret (l, r))))
      (g1_EncodeCompressed P (fst lr) @ g1_EncodeCompressed P (snd lr) @ []) lr"
    by (intro reads_bind[OF reads_ReadBN256G1[OF assms(1,2)]] reads_bind[OF reads_ReadBN256G1[OF assms(1,3)]] reads_gret_eq) simp
  then show ?thesis by (simp add: lr_enc_def)
qed

text \<open>C27: A proof of seven rounds, as the 128-bit range proofs have, none of whose points is the identity, is
  written and read back unchanged.  \<^verbatim>\<open>Size\<close> counts one byte more than is written.\<close>

theorem InnerProduct_roundtrip:
  assumes K: "g1_codec P" and len: "length (ip_ls ip) = 7" "length (ip_rs ip) = 7"
    and pts: "\<forall>g \<in> set (ip_ls ip) \<union> set (ip_rs ip). g \<noteq> g1_zero P"
    and ab: "ip_a ip = n mod Order" "ip_b ip = n' mod Order"
  shows "\<exists>ser. InnerProduct_Serialize P ip = Inr ser \<and>
    InnerProduct_Deserialize P (NewBufferReader (SerializeToBytes ser)) =
      (Inr ip, (NewBufferReader (SerializeToBytes ser))\<lparr>Position := length (SerializeToBytes ser)\<rparr>) \<and>
    length (SerializeToBytes ser) + 1 = InnerProduct_Size ip"
proof -
  let ?lr = "zip (ip_ls ip) (ip_rs ip)"
  let ?enc = "ConvertBigIntToByte (ip_a ip) @ ConvertBigIntToByte (ip_b ip) @ concat (map (lr_enc P) ?lr) @ []"
  have w: "writes (ser_seq [Write (ConvertBigIntToByte (ip_a ip)), Write (ConvertBigIntToByte (ip_b ip)),
      fold (\<lambda>(l, r) w. Write (g1_EncodeCompressed P r) (Write (g1_EncodeCompressed P l) w)) ?lr]) ?enc"
    by (intro codec writes_lr)
  have "reads (grepeat (length ?lr) (gbind (ReadBN256G1 P) (\<lambda>l. gbind (ReadBN256G1 P) (\<lambda>r. gret (l, r))))) (concat (map (lr_enc P) ?lr)) ?lr"
    by (rule reads_grepeat) (use pts in \<open>auto intro!: reads_lr[OF K] dest: set_zip_leftD set_zip_rightD\<close>)
  then have lr: "reads (grepeat 7 (gbind (ReadBN256G1 P) (\<lambda>l. gbind (ReadBN256G1 P) (\<lambda>r. gret (l, r))))) (concat (map (lr_enc P) ?lr)) ?lr"
    using len by simp
  have "reads (InnerProduct_Deserialize P) ?enc ip"
    unfolding InnerProduct_Deserialize_def ab
    by (intro reads_bind[OF reads_ReadBigInt] reads_bind[OF lr] reads_gret_eq) (use len ab in simp)
  then have rd: "InnerProduct_Deserialize P (NewBufferReader ?enc) = (Inr ip, (NewBufferReader ?enc)\<lparr>Position := length ?enc\<rparr>)"
    by (rule reads_NewBufferReader)
  have "length (lr_enc P lr) = 66" for lr
    using K by (simp add: lr_enc_def g1_codec_def)
  then have "length (concat (map (lr_enc P) ?lr)) = 7 * 66"
    using len by (simp add: length_concat comp_def sum_list_triv)
  then have "length ?enc + 1 = InnerProduct_Size ip"
    using len by (simp add: InnerProduct_Size_def FIELDELEMENT_SIZE_def POINT_SIZE_def ab ConvertBigIntToByte_scalar)
  with rd show ?thesis
    unfolding InnerProduct_Serialize_def using len writes_SerializeToBytes[OF w] by auto
qed

theorem InnerProduct_roundtrip_witness:
  "\<exists>ser. InnerProduct_Serialize residue_curve \<lparr>ip_a = 3, ip_b = 4, ip_ls = replicate 7 (residue 5), ip_rs = replicate 7 (residue 6)\<rparr> = Inr ser \<and>
    fst (InnerProduct_Deserialize residue_curve (NewBufferReader (SerializeToBytes ser))) =
      Inr \<lparr>ip_a = 3, ip_b = 4, ip_ls = replicate 7 (residue 5), ip_rs = replicate 7 (residue 6)\<rparr>"
proof -
  have o: "3 mod Order = 3" "4 mod Order = 4" "5 mod Order \<noteq> 0" "6 mod Order \<noteq> 0" by (simp_all add: Order_def)
  show ?thesis
    using InnerProduct_roundtrip[OF residue_codec, of "\<lparr>ip_a = 3, ip_b = 4, ip_ls = replicate 7 (residue 5), ip_rs = replicate 7 (residue 6)\<rparr>" 3 4]
    by (auto simp: o residue_zero)
qed

end
