(* ===== verification/Polynomials.thy ===== *)
theory Polynomials
  imports Inner_Product
begin

text \<open>
  The polynomials of the proofs (\<^verbatim>\<open>polynomial.go\<close>, \<^verbatim>\<open>fieldvector.go\<close>): products of linear factors, polynomials
  with vector coefficients, and the Fourier transforms over scalars and over points.
\<close>

section \<open>Polynomials\<close>

type_synonym Polynomial = "int list"

text \<open>\<open>None\<close> is the nil slice.\<close>

definition NewPolynomial :: "int list option \<Rightarrow> Polynomial" where
  "NewPolynomial inp = (case inp of None \<Rightarrow> [1] | Some cs \<Rightarrow> cs)"

definition Polynomial_Mul :: "Polynomial \<Rightarrow> Polynomial \<Rightarrow> Polynomial result" where
  "Polynomial_Mul p m =
     rbind (if p = [] then Inr 0 else rnth m 0) (\<lambda>m0.
     (let product = map (\<lambda>c. (c * m0) mod Order) p @ [0] in
      rbind (rnth m 1) (\<lambda>m1.
      Inr (if m1 = 1 then map (\<lambda>i. if i > 0 then (product ! i + p ! (i - 1)) mod Order else product ! i) [0..<length product]
           else product))))"

text \<open>The recursion takes the last elements off both lists; the list of results is extended in order.\<close>

function recursivePolynomialsinternal :: "Polynomial \<Rightarrow> int list \<Rightarrow> int list \<Rightarrow> Polynomial list result" where
  "recursivePolynomialsinternal accum a b =
     (if length a = 0 then Inr [accum]
      else if b = [] then Inl (Panic ''index out of range'')
      else
        (let atop = last a; btop = last b;
             left = [(- atop) mod Order, (1 - btop) mod Order];
             right = [atop, btop]
         in
         rbind (Polynomial_Mul accum left) (\<lambda>al.
         rbind (recursivePolynomialsinternal al (butlast a) (butlast b)) (\<lambda>ls.
         rbind (Polynomial_Mul accum right) (\<lambda>ar.
         rbind (recursivePolynomialsinternal ar (butlast a) (butlast b)) (\<lambda>rs.
         Inr (ls @ rs)))))))"
  by auto
termination by (relation "measure (\<lambda>(accum, a, b). length a)") auto

declare recursivePolynomialsinternal.simps [simp del]

definition RecursivePolynomials :: "Polynomial \<Rightarrow> int list \<Rightarrow> int list \<Rightarrow> Polynomial list result" where
  "RecursivePolynomials accum a b = recursivePolynomialsinternal accum a b"

section \<open>Polynomials with vector coefficients\<close>

type_synonym FieldVectorPolynomial = "FieldVector list"

definition NewFieldVectorPolynomial :: "FieldVector list \<Rightarrow> FieldVectorPolynomial result" where
  "NewFieldVectorPolynomial inputs = rmap fv_Clone inputs"

fun fvp_evaluate_loop :: "int \<Rightarrow> FieldVector \<Rightarrow> int \<Rightarrow> FieldVector list \<Rightarrow> FieldVector result" where
  "fvp_evaluate_loop x result accumulator [] = Inr result"
| "fvp_evaluate_loop x result accumulator (c # cs) =
     rbind (fv_Add result (fv_Times c accumulator)) (\<lambda>result'.
     fvp_evaluate_loop x result' ((accumulator * x) mod Order) cs)"

definition FieldVectorPolynomial_Evaluate :: "FieldVectorPolynomial \<Rightarrow> int \<Rightarrow> FieldVector result" where
  "FieldVectorPolynomial_Evaluate fv x =
     rbind (rnth fv 0) (\<lambda>c. rbind (fv_Clone c) (\<lambda>result. fvp_evaluate_loop x result x (tl fv)))"

fun fvp_inner_loop :: "nat \<Rightarrow> FieldVector \<Rightarrow> (nat \<times> FieldVector) list \<Rightarrow> int list \<Rightarrow> int list result" where
  "fvp_inner_loop i f [] result = Inr result"
| "fvp_inner_loop i f ((j, g) # js) result =
     rbind (fv_InnerProduct f g) (\<lambda>ip. fvp_inner_loop i f js (result[i + j := (result ! (i + j) + ip) mod Order]))"

fun fvp_outer_loop :: "FieldVectorPolynomial \<Rightarrow> (nat \<times> FieldVector) list \<Rightarrow> int list \<Rightarrow> int list result" where
  "fvp_outer_loop other [] result = Inr result"
| "fvp_outer_loop other ((i, f) # fs) result =
     rbind (fvp_inner_loop i f (enumerate 0 other) result) (fvp_outer_loop other fs)"

definition FieldVectorPolynomial_InnerProduct :: "FieldVectorPolynomial \<Rightarrow> FieldVectorPolynomial \<Rightarrow> int list result" where
  "FieldVectorPolynomial_InnerProduct fv other =
     fvp_outer_loop other (enumerate 0 fv) (replicate (length fv + length other - 1) 0)"

section \<open>Fourier transforms\<close>

definition unity :: int where
  "unity = 0x14a3074b02521e3b1ed9852e5028452693e87be4e910500c7ba9bbddb2f46edd"

text \<open>\<^verbatim>\<open>big.Int.Exp\<close> with a modulus, by repeated squaring.\<close>

function mod_exp :: "int \<Rightarrow> int \<Rightarrow> int \<Rightarrow> int" where
  "mod_exp b e m =
     (if e \<le> 0 then 1 mod m
      else if odd e then (b * mod_exp ((b * b) mod m) (e div 2) m) mod m
      else mod_exp ((b * b) mod m) (e div 2) m)"
  by auto
termination by (relation "measure (\<lambda>(b, e, m). nat e)") auto

declare mod_exp.simps [simp del]

definition fft_omega :: "nat \<Rightarrow> bool \<Rightarrow> int result" where
  "fft_omega len invs =
     (let omega = mod_exp unity (2 ^ 28 div int len) Order in
      if invs then rderef (ModInverse omega Order) else Inr omega)"

text \<open>The powers of \<open>omega\<close>: 1, then each times \<open>omega\<close>.\<close>

fun fft_omegas :: "nat \<Rightarrow> int \<Rightarrow> int \<Rightarrow> int list" where
  "fft_omegas 0 omega cur = [cur]"
| "fft_omegas (Suc k) omega cur = cur # fft_omegas k omega ((cur * omega) mod Order)"

lemma length_parity_part: "length (parity_part b xs) = (if b then length xs div 2 else (length xs + 1) div 2)"
proof -
  have "length (filter (\<lambda>i. i mod 2 = (1 :: nat)) [0..<n]) = n div 2 \<and> length (filter (\<lambda>i. i mod 2 = (0 :: nat)) [0..<n]) = (n + 1) div 2" for n
    by (induction n) (auto, presburger+)
  then show ?thesis by (simp add: parity_part_def)
qed

text \<open>A length of zero divides by zero; the other even lengths above one are halved.\<close>

function fft_FieldVector :: "FieldVector \<Rightarrow> bool \<Rightarrow> FieldVector result" where
  "fft_FieldVector inp invs =
     (let len = length inp in
      if len = 1 then Inr inp
      else if len mod 2 \<noteq> 0 then Inl (Panic ''length must be multiple of 2'')
      else if len = 0 then Inl (Panic ''integer divide by zero'')
      else
        rbind (fft_omega len invs) (\<lambda>omega.
        rbind (fft_FieldVector (fv_Extract inp False) invs) (\<lambda>ev.
        rbind (fft_FieldVector (fv_Extract inp True) invs) (\<lambda>od.
        (let omegasv = fft_omegas (len div 2 - 1) omega 1 in
         rbind (fv_Hadamard od omegasv) (\<lambda>h.
         rbind (fv_Add ev h) (\<lambda>a.
         rbind (fv_Add ev (fv_Negate h)) (\<lambda>b.
         (let result = fv_Concat a b in
          if invs then rbind (rderef (ModInverse 2 Order)) (\<lambda>half. Inr (fv_Times result half))
          else Inr result)))))))))"
  by pat_completeness auto
termination
  by (relation "measure (\<lambda>(inp, invs). length inp)") (auto simp: fv_Extract_def length_parity_part)

declare fft_FieldVector.simps [simp del]

definition extractbits :: "int list \<Rightarrow> nat \<Rightarrow> int list" where
  "extractbits inp parity = map (\<lambda>i. inp ! (2 * i + parity)) [0..<length inp div 2]"

text \<open>The loop of \<^verbatim>\<open>fftints\<close>: the lower and the upper entries of the result.  With an odd size above one the last
  entry of the result stays nil, and a caller that reads it panics.\<close>

fun fftints_loop :: "int \<Rightarrow> int option list \<Rightarrow> int option list \<Rightarrow> int \<Rightarrow> (int \<times> int) list result" where
  "fftints_loop omega (e # ev) (d # od) omega_run =
     rbind (rderef d) (\<lambda>dv.
     rbind (rderef e) (\<lambda>e1.
     (let temp = (dv * omega_run) mod Order in
      rbind (fftints_loop omega ev od ((omega * omega_run) mod Order)) (\<lambda>rest.
      Inr (((e1 + temp) mod Order, (e1 - temp) mod Order) # rest)))))"
| "fftints_loop omega _ _ omega_run = Inr []"

function fftints :: "int list \<Rightarrow> int option list result" where
  "fftints inp =
     (let size = length inp in
      if size = 1 then Inr (map Some inp)
      else if size = 0 then Inl (Panic ''integer divide by zero'')
      else
        (let omega = mod_exp unity (2 ^ 28 div int size) Order in
         rbind (fftints (extractbits inp 0)) (\<lambda>ev.
         rbind (fftints (extractbits inp 1)) (\<lambda>od.
         rbind (fftints_loop omega ev od 1) (\<lambda>rs.
         Inr (map (Some \<circ> fst) rs @ map (Some \<circ> snd) rs @ (if odd size then [None] else [])))))))"
  by pat_completeness auto
termination by (relation "measure length") (auto simp: extractbits_def)

declare fftints.simps [simp del]

function fft_GeneratorVector :: "'p G1Ops \<Rightarrow> 'p list \<Rightarrow> bool \<Rightarrow> 'p list result" where
  "fft_GeneratorVector P inp invs =
     (let len = length inp in
      if len = 1 then Inr inp
      else if len mod 2 \<noteq> 0 then Inl (Panic ''length must be multiple of 2'')
      else if len = 0 then Inl (Panic ''integer divide by zero'')
      else
        rbind (fft_omega len invs) (\<lambda>omega.
        rbind (fft_GeneratorVector P (pv_Extract inp False) invs) (\<lambda>ev.
        rbind (fft_GeneratorVector P (pv_Extract inp True) invs) (\<lambda>od.
        (let omegasv = fft_omegas (len div 2 - 1) omega 1 in
         rbind (pv_Hadamard P od omegasv) (\<lambda>h.
         rbind (pv_Add P ev h) (\<lambda>a.
         rbind (pv_Add P ev (pv_Negate P h)) (\<lambda>b.
         (let result = pv_Concat a b in
          if invs then rbind (rderef (ModInverse 2 Order)) (\<lambda>half. Inr (pv_Times P result half))
          else Inr result)))))))))"
  by pat_completeness auto
termination
  by (relation "measure (\<lambda>(P, inp, invs). length inp)") (auto simp: pv_Extract_def length_parity_part)

declare fft_GeneratorVector.simps [simp del]

definition Convolution :: "'p G1Ops \<Rightarrow> FieldVector \<Rightarrow> 'p list \<Rightarrow> 'p list result" where
  "Convolution P exponent base =
     (let size = length base in
      rbind (fft_FieldVector (fv_Flip exponent) False) (\<lambda>exponent_fft.
      rbind (fft_GeneratorVector P base False) (\<lambda>base_fft.
      rbind (pv_Hadamard P base_fft exponent_fft) (\<lambda>temp.
      rbind (pv_Slice temp 0 (size div 2)) (\<lambda>lo.
      rbind (pv_Slice temp (size div 2) size) (\<lambda>hi.
      rbind (pv_Add P lo hi) (\<lambda>folded.
      rbind (rderef (ModInverse 2 Order)) (\<lambda>half.
      fft_GeneratorVector P (pv_Times P folded half) True))))))))"

section \<open>Values of polynomials\<close>

definition peval :: "int list \<Rightarrow> int \<Rightarrow> int" where
  "peval p x = foldr (\<lambda>c acc. c + x * acc) p 0"

lemma peval_simps [simp]: "peval [] x = 0" "peval (c # p) x = c + x * peval p x"
  by (simp_all add: peval_def)

lemma peval_add: "length p = length q \<Longrightarrow> peval (map2 (+) p q) x = peval p x + peval q x"
  by (induction p q rule: list_induct2) (simp_all add: algebra_simps)

lemma peval_scale: "peval (map (\<lambda>c. c * k) p) x = peval p x * k"
  by (induction p) (simp_all add: algebra_simps)

lemma peval_snoc0: "peval (p @ [0]) x = peval p x"
  by (induction p) simp_all

lemma add_mult_mod_cong: "a mod m = b mod m \<Longrightarrow> c mod m = d mod m \<Longrightarrow> (a + x * c) mod m = (b + x * d :: int) mod m"
  by (metis mod_add_cong mod_mult_right_eq)

lemma peval_cong:
  "length p = length q \<Longrightarrow> \<forall>i < length p. p ! i mod Order = q ! i mod Order \<Longrightarrow> peval p x mod Order = peval q x mod Order"
proof (induction p q rule: list_induct2)
  case (Cons a p b q)
  have "a mod Order = b mod Order" using Cons(3)[rule_format, of 0] by simp
  moreover have "p ! i mod Order = q ! i mod Order" if "i < length p" for i
    using Cons(3)[rule_format, of "Suc i"] that by simp
  ultimately show ?case using Cons(2) unfolding peval_simps by (intro add_mult_mod_cong) blast+
qed simp

lemma peval_map_mod: "peval (map (\<lambda>c. f c mod Order) p) x mod Order = peval (map f p) x mod Order"
  by (rule peval_cong) simp_all

lemma Polynomial_Mul_eval:
  assumes "m1 = 0 \<or> m1 = 1"
  shows "\<exists>q. Polynomial_Mul p [m0, m1] = Inr q \<and> peval q x mod Order = (peval p x * (m0 + m1 * x)) mod Order"
proof (cases "m1 = 1")
  case True
  let ?prod = "map (\<lambda>c. (c * m0) mod Order) p @ [0]"
  let ?q = "map (\<lambda>i. if i > 0 then (?prod ! i + p ! (i - 1)) mod Order else ?prod ! i) [0..<Suc (length p)]"
  have "Polynomial_Mul p [m0, m1] = Inr ?q"
    using True by (cases p) (simp_all add: Polynomial_Mul_def Let_def rnth_def)
  moreover have "peval ?q x mod Order = peval (map2 (+) (map (\<lambda>c. c * m0) p @ [0]) (0 # p)) x mod Order"
  proof (rule peval_cong)
    show "\<forall>i < length ?q. ?q ! i mod Order = map2 (+) (map (\<lambda>c. c * m0) p @ [0]) (0 # p) ! i mod Order"
      by (auto simp: nth_append nth_Cons' mod_simps simp del: upt_Suc)
  qed simp
  moreover have "peval (map2 (+) (map (\<lambda>c. c * m0) p @ [0]) (0 # p)) x = peval p x * (m0 + m1 * x)"
    using True by (subst peval_add) (simp_all add: peval_snoc0 peval_scale algebra_simps)
  ultimately show ?thesis by (intro exI[of _ ?q]) simp
next
  case False
  have "Polynomial_Mul p [m0, m1] = Inr (map (\<lambda>c. (c * m0) mod Order) p @ [0])"
    using False by (cases p) (simp_all add: Polynomial_Mul_def Let_def rnth_def)
  then show ?thesis
    using False assms by (simp add: peval_snoc0 peval_map_mod peval_scale)
qed

text \<open>The factor a bit of the index selects.\<close>

definition selected :: "int \<Rightarrow> int \<Rightarrow> int \<Rightarrow> bool \<Rightarrow> int" where
  "selected a b x choose_right = (if choose_right then a + b * x else - a + (1 - b) * x)"

definition selected_product :: "int list \<Rightarrow> int list \<Rightarrow> int \<Rightarrow> nat \<Rightarrow> int" where
  "selected_product as bs x i = (\<Prod>k<length as. selected (as ! k) (bs ! k) x (bit i k))"

lemma selected_product_snoc:
  assumes "length as = length bs"
  shows "i < 2 ^ length as \<Longrightarrow> selected_product (as @ [a]) (bs @ [b]) x i = selected_product as bs x i * selected a b x False"
    and "i < 2 ^ length as \<Longrightarrow> selected_product (as @ [a]) (bs @ [b]) x (2 ^ length as + i) = selected_product as bs x i * selected a b x True"
proof -
  have low: "(\<Prod>k<length as. selected ((as @ [a]) ! k) ((bs @ [b]) ! k) x (P k)) = (\<Prod>k<length as. selected (as ! k) (bs ! k) x (P k))" for P
    using assms by (intro prod.cong) (simp_all add: nth_append)
  assume i: "i < 2 ^ length as"
  have "bit i (length as) = False" using i by (simp add: bit_iff_odd)
  then show "selected_product (as @ [a]) (bs @ [b]) x i = selected_product as bs x i * selected a b x False"
    using assms by (simp add: selected_product_def low nth_append)
  have "bit (2 ^ length as + i) (length as)" using i by (simp add: bit_iff_odd)
  moreover have "bit (2 ^ length as + i) k = bit i k" if "k < length as" for k
  proof -
    have "(2 ^ length as + i) div 2 ^ k = 2 ^ (length as - k) + i div 2 ^ k"
    proof -
      have "(2 :: nat) ^ length as = 2 ^ k * 2 ^ (length as - k)" using that by (simp flip: power_add)
      then show ?thesis by (simp add: add.commute)
    qed
    then show ?thesis using that by (simp add: bit_iff_odd)
  qed
  ultimately show "selected_product (as @ [a]) (bs @ [b]) x (2 ^ length as + i) = selected_product as bs x i * selected a b x True"
    using assms low[of "bit (2 ^ length as + i)"] by (simp add: selected_product_def nth_append)
qed

lemma recursive_polynomials_eval:
  "length as = length bs \<Longrightarrow> set bs \<subseteq> {0, 1} \<Longrightarrow>
   \<exists>rs. recursivePolynomialsinternal accum as bs = Inr rs \<and> length rs = 2 ^ length as \<and>
     (\<forall>i < 2 ^ length as. peval (rs ! i) x mod Order = (peval accum x * selected_product as bs x i) mod Order)"
proof (induction as arbitrary: bs accum rule: rev_induct)
  case Nil
  then show ?case by (simp add: recursivePolynomialsinternal.simps selected_product_def)
next
  case (snoc a as)
  obtain bs' b where b: "bs = bs' @ [b]" using snoc.prems(1) by (cases bs rule: rev_cases) auto
  have len: "length as = length bs'" and b01: "b = 0 \<or> b = 1" and bs': "set bs' \<subseteq> {0, 1}"
    using snoc.prems b by auto
  have "(1 - b) mod Order = 0 \<or> (1 - b) mod Order = 1" "(1 - b) mod Order = 1 - b" using b01 by auto
  then obtain al where al: "Polynomial_Mul accum [(- a) mod Order, (1 - b) mod Order] = Inr al"
    "peval al x mod Order = (peval accum x * ((- a) mod Order + (1 - b) * x)) mod Order"
    using Polynomial_Mul_eval[of "(1 - b) mod Order" accum "(- a) mod Order" x] by auto
  have al': "peval al x mod Order = (peval accum x * selected a b x False) mod Order"
  proof -
    have "((- a) mod Order + (1 - b) * x) mod Order = (- a + (1 - b) * x) mod Order" by (rule mod_add_left_eq)
    then have "(peval accum x * ((- a) mod Order + (1 - b) * x)) mod Order = (peval accum x * (- a + (1 - b) * x)) mod Order"
      by (rule mult_mod_cong[OF refl])
    then show ?thesis by (simp only: al(2) selected_def if_False)
  qed
  obtain ar where ar: "Polynomial_Mul accum [a, b] = Inr ar"
    "peval ar x mod Order = (peval accum x * selected a b x True) mod Order"
    using Polynomial_Mul_eval[OF b01, of accum a x] by (auto simp: selected_def)
  obtain ls where ls: "recursivePolynomialsinternal al as bs' = Inr ls" "length ls = 2 ^ length as"
    "\<forall>i < 2 ^ length as. peval (ls ! i) x mod Order = (peval al x * selected_product as bs' x i) mod Order"
    using snoc.IH[OF len bs'] by blast
  obtain rs where rs: "recursivePolynomialsinternal ar as bs' = Inr rs" "length rs = 2 ^ length as"
    "\<forall>i < 2 ^ length as. peval (rs ! i) x mod Order = (peval ar x * selected_product as bs' x i) mod Order"
    using snoc.IH[OF len bs'] by blast
  have run: "recursivePolynomialsinternal accum (as @ [a]) bs = Inr (ls @ rs)"
    by (subst recursivePolynomialsinternal.simps) (simp add: b al(1) ar(1) ls(1) rs(1))
  have "peval ((ls @ rs) ! i) x mod Order = (peval accum x * selected_product (as @ [a]) bs x i) mod Order"
    if i: "i < 2 ^ length (as @ [a])" for i
  proof (cases "i < 2 ^ length as")
    case True
    have "(peval al x * selected_product as bs' x i) mod Order =
        (peval accum x * selected a b x False * selected_product as bs' x i) mod Order"
      using al' by (intro mult_mod_cong) simp_all
    then show ?thesis
      using True ls b selected_product_snoc(1)[OF len True, of a b x] by (simp add: nth_append algebra_simps)
  next
    case False
    then obtain j where j: "i = 2 ^ length as + j" "j < 2 ^ length as"
      using i by (metis add_diff_inverse_nat add_less_cancel_left length_append_singleton mult_2 power_Suc)
    have "(peval ar x * selected_product as bs' x j) mod Order =
        (peval accum x * selected a b x True * selected_product as bs' x j) mod Order"
      using ar(2) by (intro mult_mod_cong) simp_all
    then show ?thesis
      using j rs ls(2) b selected_product_snoc(2)[OF len j(2), of a b x] by (simp add: nth_append algebra_simps)
  qed
  then show ?case using run ls(2) rs(2) by auto
qed

text \<open>C21: The polynomials built from the masked bits are, in the order of the indices, the products of the linear
  factors the bits of the index select: evaluated anywhere, entry \<open>i\<close> is the product over \<open>k\<close> of
  \<open>a k + b k * x\<close> where bit \<open>k\<close> of \<open>i\<close> is set, and of \<open>- a k + (1 - b k) * x\<close> where it is not.\<close>

theorem RecursivePolynomials_products:
  assumes "length as = length bs" "set bs \<subseteq> {0, 1}"
  shows "\<exists>rs. RecursivePolynomials (NewPolynomial None) as bs = Inr rs \<and> length rs = 2 ^ length as \<and>
    (\<forall>i < 2 ^ length as. peval (rs ! i) x mod Order = selected_product as bs x i mod Order)"
  using recursive_polynomials_eval[OF assms, of "[1]" x] by (simp add: RecursivePolynomials_def NewPolynomial_def)

theorem RecursivePolynomials_products_witness:
  "\<exists>rs. RecursivePolynomials (NewPolynomial None) [5, 7] [1, 0] = Inr rs \<and> length rs = 2 ^ length [5, 7 :: int] \<and>
    (\<forall>i < 2 ^ length [5, 7 :: int]. peval (rs ! i) 3 mod Order = selected_product [5, 7] [1, 0] 3 i mod Order)"
  by (rule RecursivePolynomials_products) auto

section \<open>Inner products of vector polynomials\<close>

lemma peval_update: "k < length xs \<Longrightarrow> peval (xs[k := v]) x = peval xs x + x ^ k * (v - xs ! k)"
proof (induction xs arbitrary: k)
  case (Cons c xs)
  show ?case
  proof (cases k)
    case (Suc j)
    then have "peval (xs[j := v]) x = peval xs x + x ^ j * (v - xs ! j)" using Cons by simp
    then show ?thesis using Suc by (simp only: list_update.simps nat.case peval_simps nth_Cons_Suc power_Suc) (simp add: algebra_simps)
  qed simp
qed simp

lemma mod_sub_cancel: "(p + y * ((a + d mod m) mod m - a)) mod m = (p + y * (d :: int)) mod m"
proof -
  have "((a + d mod m) mod m - a) mod m = d mod m" by (simp add: mod_simps)
  then show ?thesis by (metis mod_add_right_eq mod_mult_right_eq)
qed

lemma fvp_inner_loop_eval:
  "\<forall>g \<in> set gs. length g = length f \<Longrightarrow> i + k + length gs \<le> length res \<Longrightarrow>
   \<exists>res'. fvp_inner_loop i f (enumerate k gs) res = Inr res' \<and> length res' = length res \<and>
     peval res' x mod Order = (peval res x + x ^ (i + k) * peval (map (dot f) gs) x) mod Order"
proof (induction gs arbitrary: k res)
  case (Cons g gs)
  let ?r = "res[i + k := (res ! (i + k) + dot f g mod Order) mod Order]"
  obtain res' where r: "fvp_inner_loop i f (enumerate (Suc k) gs) ?r = Inr res'" "length res' = length ?r"
    "peval res' x mod Order = (peval ?r x + x ^ (i + Suc k) * peval (map (dot f) gs) x) mod Order"
    using Cons.IH[of "Suc k" ?r] Cons.prems by auto
  have "peval ?r x mod Order = (peval res x + x ^ (i + k) * dot f g) mod Order"
    using Cons.prems(2) mod_sub_cancel by (simp add: peval_update)
  then have "(peval ?r x + x ^ (i + Suc k) * peval (map (dot f) gs) x) mod Order =
      (peval res x + x ^ (i + k) * dot f g + x ^ (i + Suc k) * peval (map (dot f) gs) x) mod Order"
    by (metis mod_add_left_eq)
  then have "peval res' x mod Order = (peval res x + x ^ (i + k) * peval (map (dot f) (g # gs)) x) mod Order"
    unfolding r(3) by (simp add: algebra_simps)
  moreover have "fvp_inner_loop i f (enumerate k (g # gs)) res = Inr res'"
    using Cons.prems(1) r(1) by (simp add: fv_InnerProduct_dot)
  ultimately show ?case using r(2) by auto
qed simp

lemma fvp_outer_loop_eval:
  "\<forall>f \<in> set fs. length f = d \<Longrightarrow> \<forall>g \<in> set gs. length g = d \<Longrightarrow> k + length fs + length gs \<le> Suc (length res) \<Longrightarrow>
   \<exists>res'. fvp_outer_loop gs (enumerate k fs) res = Inr res' \<and>
     peval res' x mod Order = (peval res x + x ^ k * peval (map (\<lambda>f. peval (map (dot f) gs) x) fs) x) mod Order"
proof (induction fs arbitrary: k res)
  case (Cons f fs)
  obtain r1 where r1: "fvp_inner_loop k f (enumerate 0 gs) res = Inr r1" "length r1 = length res"
    "peval r1 x mod Order = (peval res x + x ^ k * peval (map (dot f) gs) x) mod Order"
    using fvp_inner_loop_eval[of gs f k 0 res x] Cons.prems by auto
  obtain res' where r: "fvp_outer_loop gs (enumerate (Suc k) fs) r1 = Inr res'"
    "peval res' x mod Order = (peval r1 x + x ^ Suc k * peval (map (\<lambda>f. peval (map (dot f) gs) x) fs) x) mod Order"
    using Cons.IH[of "Suc k" r1] Cons.prems r1(2) by auto
  have "(peval r1 x + x ^ Suc k * peval (map (\<lambda>f. peval (map (dot f) gs) x) fs) x) mod Order =
      (peval res x + x ^ k * peval (map (dot f) gs) x + x ^ Suc k * peval (map (\<lambda>f. peval (map (dot f) gs) x) fs) x) mod Order"
    using r1(3) by (metis mod_add_left_eq)
  then show ?case using r1(1) r by (simp add: algebra_simps)
qed simp

text \<open>The exact value of a vector polynomial.\<close>

fun veval :: "nat \<Rightarrow> FieldVectorPolynomial \<Rightarrow> int \<Rightarrow> int list" where
  "veval d [] x = replicate d 0"
| "veval d (c # cs) x = map2 (\<lambda>a b. a + x * b) c (veval d cs x)"

lemma length_veval: "\<forall>c \<in> set cs. length c = d \<Longrightarrow> length (veval d cs x) = d"
  by (induction cs) simp_all

lemma dot_linear: "length c = length v \<Longrightarrow> length v = length w \<Longrightarrow> dot (map2 (\<lambda>a b. a + x * b) c v) w = dot c w + x * dot v w"
  by (induction c v w rule: list_induct3) (simp_all add: dot_def algebra_simps)

lemma dot_Cons: "dot (x # xs) (y # ys) = x * y + dot xs ys"
  by (simp add: dot_def)

lemma dot_commute: "dot xs ys = dot ys xs"
  by (induction xs ys rule: list_induct2') (simp_all add: dot_def mult.commute)

lemma dot_zeros: "dot (replicate d 0) w = 0"
  by (induction d arbitrary: w) (auto simp: dot_def zip_Cons1 split: list.splits)

lemma dot_veval:
  "\<forall>c \<in> set cs. length c = d \<Longrightarrow> length w = d \<Longrightarrow> dot (veval d cs x) w = peval (map (\<lambda>c. dot c w) cs) x"
  by (induction cs) (simp_all add: dot_linear length_veval dot_zeros)

lemma dot_cong:
  "length xs = length ys \<Longrightarrow> length us = length ys \<Longrightarrow> length vs = length ys \<Longrightarrow>
   \<forall>i < length ys. xs ! i mod Order = us ! i mod Order \<and> ys ! i mod Order = vs ! i mod Order \<Longrightarrow>
   dot xs ys mod Order = dot us vs mod Order"
proof (induction xs ys arbitrary: us vs rule: list_induct2)
  case (Cons x xs y ys)
  obtain u us' v vs' where uv: "us = u # us'" "vs = v # vs'" using Cons.prems(1,2) by (cases us; cases vs) auto
  have "xs ! i mod Order = us' ! i mod Order \<and> ys ! i mod Order = vs' ! i mod Order" if "i < length ys" for i
    using Cons.prems(3)[rule_format, of "Suc i"] that by (simp add: uv)
  then have "dot xs ys mod Order = dot us' vs' mod Order"
    using Cons.prems uv by (intro Cons.IH) simp_all
  moreover have "(x * y) mod Order = (u * v) mod Order"
    using Cons.prems(3)[rule_format, of 0] by (intro mult_mod_cong) (simp_all add: uv)
  ultimately have "(x * y + dot xs ys) mod Order = (u * v + dot us' vs') mod Order"
    by (intro mod_add_cong)
  then show ?case by (simp only: uv dot_Cons)
qed (simp add: dot_def)

lemma fvp_evaluate_loop_eval:
  "\<forall>c \<in> set cs. length c = length r \<Longrightarrow>
   \<exists>r'. fvp_evaluate_loop x r acc cs = Inr r' \<and> length r' = length r \<and>
     (\<forall>i < length r. r' ! i mod Order = (r ! i + acc * veval (length r) cs x ! i) mod Order)"
proof (induction cs arbitrary: r acc)
  case (Cons c cs)
  let ?r = "map2 (\<lambda>a b. (a + b) mod Order) r (fv_Times c acc)"
  have len: "length c = length r" "length ?r = length r" using Cons.prems by (simp_all add: fv_Times_def)
  obtain r' where r': "fvp_evaluate_loop x ?r ((acc * x) mod Order) cs = Inr r'" "length r' = length ?r"
    "\<forall>i < length ?r. r' ! i mod Order = (?r ! i + (acc * x) mod Order * veval (length ?r) cs x ! i) mod Order"
    using Cons.IH[of ?r "(acc * x) mod Order"] Cons.prems len(2) by auto
  have "r' ! i mod Order = (r ! i + acc * veval (length r) (c # cs) x ! i) mod Order" if i: "i < length r" for i
  proof -
    have v: "length (veval (length r) cs x) = length r" using Cons.prems by (intro length_veval) simp
    have "r' ! i mod Order = ((r ! i + (c ! i * acc) mod Order) mod Order + (acc * x) mod Order * veval (length r) cs x ! i) mod Order"
      using r'(3) i len by (simp add: fv_Times_def)
    also have "\<dots> = (r ! i + c ! i * acc + acc * x * veval (length r) cs x ! i) mod Order"
      by (intro mod_add_cong mult_mod_cong) (simp_all add: mod_simps)
    finally show ?thesis using i len v by (simp add: algebra_simps)
  qed
  moreover have "fv_Add r (fv_Times c acc) = Inr ?r" using len by (simp add: fv_Add_def fv_Times_def)
  ultimately show ?case using r'(1,2) len(2) by auto
qed simp

lemma fv_Clone_id: "fv_Clone fv = Inr fv"
  by (simp add: fv_Clone_def fv_Slice_def slice_ok)

lemma FieldVectorPolynomial_Evaluate_eval:
  assumes "fs \<noteq> []" "\<forall>f \<in> set fs. length f = d"
  shows "\<exists>l. FieldVectorPolynomial_Evaluate fs x = Inr l \<and> length l = d \<and> (\<forall>i < d. l ! i mod Order = veval d fs x ! i mod Order)"
proof -
  obtain c cs where fs: "fs = c # cs" using assms(1) by (cases fs) auto
  then obtain l where l: "fvp_evaluate_loop x c x cs = Inr l" "length l = d" "\<forall>i < d. l ! i mod Order = (c ! i + x * veval d cs x ! i) mod Order"
    using fvp_evaluate_loop_eval[of cs c x x] assms(2) by auto
  moreover have "length (veval d cs x) = d" "length c = d" using assms(2) fs by (auto intro: length_veval)
  ultimately show ?thesis
    by (simp add: FieldVectorPolynomial_Evaluate_def fs fv_Clone_id)
qed

text \<open>C22: The coefficients of the inner product of two vector polynomials are those of the polynomial whose value at
  every point is the inner product of the values of the two.\<close>

theorem vector_polynomial_product:
  assumes "fs \<noteq> []" "gs \<noteq> []" "\<forall>f \<in> set fs. length f = d" "\<forall>g \<in> set gs. length g = d"
  shows "\<exists>ts l r. FieldVectorPolynomial_InnerProduct fs gs = Inr ts \<and>
    FieldVectorPolynomial_Evaluate fs x = Inr l \<and> FieldVectorPolynomial_Evaluate gs x = Inr r \<and>
    fv_InnerProduct l r = Inr (peval ts x mod Order)"
proof -
  let ?n = "length fs + length gs - 1"
  have zero: "peval (replicate n 0) x = 0" for n by (induction n) simp_all
  have n: "0 + length fs + length gs \<le> Suc (length (replicate ?n 0))" by simp
  obtain ts where ts: "FieldVectorPolynomial_InnerProduct fs gs = Inr ts"
    "peval ts x mod Order = peval (map (\<lambda>f. peval (map (dot f) gs) x) fs) x mod Order"
    using fvp_outer_loop_eval[OF assms(3,4) n, of x] by (auto simp: FieldVectorPolynomial_InnerProduct_def zero)
  obtain l where l: "FieldVectorPolynomial_Evaluate fs x = Inr l" "length l = d" "\<forall>i < d. l ! i mod Order = veval d fs x ! i mod Order"
    using FieldVectorPolynomial_Evaluate_eval[OF assms(1,3)] by blast
  obtain r where r: "FieldVectorPolynomial_Evaluate gs x = Inr r" "length r = d" "\<forall>i < d. r ! i mod Order = veval d gs x ! i mod Order"
    using FieldVectorPolynomial_Evaluate_eval[OF assms(2,4)] by blast
  have "dot f (veval d gs x) = peval (map (dot f) gs) x" if "f \<in> set fs" for f
  proof -
    have "(\<lambda>g. dot g f) = dot f" by (rule ext) (rule dot_commute)
    then show ?thesis using dot_veval[OF assms(4), of f x] that assms(3) by (simp add: dot_commute[of f])
  qed
  then have "dot (veval d fs x) (veval d gs x) = peval (map (\<lambda>f. peval (map (dot f) gs) x) fs) x"
    using dot_veval[OF assms(3) length_veval[OF assms(4)], of x] by (simp cong: map_cong)
  moreover have "dot l r mod Order = dot (veval d fs x) (veval d gs x) mod Order"
    using l r length_veval[OF assms(3)] length_veval[OF assms(4)] by (intro dot_cong) simp_all
  ultimately show ?thesis
    using ts l r by (simp add: fv_InnerProduct_dot)
qed

theorem vector_polynomial_product_witness:
  "\<exists>ts l r. FieldVectorPolynomial_InnerProduct [[1, 2], [3, 4]] [[5, 6], [7, 8]] = Inr ts \<and>
    FieldVectorPolynomial_Evaluate [[1, 2], [3, 4]] 9 = Inr l \<and> FieldVectorPolynomial_Evaluate [[5, 6], [7, 8]] 9 = Inr r \<and>
    fv_InnerProduct l r = Inr (peval ts 9 mod Order)"
  by (rule vector_polynomial_product[where d = 2]) auto

section \<open>The Fourier transforms\<close>

lemma filter_parity:
  "filter (\<lambda>i. i mod 2 = 0) [0..<2 * n] = map (\<lambda>i. 2 * i) [0..<n]"
  "filter (\<lambda>i. i mod 2 = 1) [0..<2 * n] = map (\<lambda>i. 2 * i + 1) [0..<n :: nat]"
  by (induction n) simp_all

lemma extractbits_parity_part:
  "even (length xs) \<Longrightarrow> extractbits xs 0 = parity_part False xs \<and> extractbits xs 1 = parity_part True xs"
  by (auto simp: extractbits_def parity_part_def filter_parity filter_parity(2)[simplified] elim!: evenE)

lemma length_fft_omegas [simp]: "length (fft_omegas k omega cur) = Suc k"
  by (induction k arbitrary: cur) simp_all

lemma fftints_loop_butterfly:
  "length ev = Suc k \<Longrightarrow> length od = Suc k \<Longrightarrow>
   fftints_loop omega (map Some ev) (map Some od) cur =
     Inr (map2 (\<lambda>e t. ((e + t) mod Order, (e - t) mod Order)) ev (map2 (\<lambda>a b. (a * b) mod Order) od (fft_omegas k omega cur)))"
proof (induction k arbitrary: ev od cur)
  case 0
  then obtain e d where "ev = [e]" "od = [d]" by (metis One_nat_def length_one)
  then show ?case by (simp add: Let_def)
next
  case (Suc k)
  then obtain e ev' d od' where e: "ev = e # ev'" "od = d # od'" "length ev' = Suc k" "length od' = Suc k"
    by (metis length_Suc_conv)
  then show ?case using Suc.IH[of ev' od' "(cur * omega) mod Order"] by (simp add: mult.commute[of omega] Let_def)
qed

lemma fft_step:
  assumes "length inp = 2 ^ Suc k" "fft_FieldVector (parity_part False inp) False = Inr ev" "length ev = 2 ^ k"
    "fft_FieldVector (parity_part True inp) False = Inr od" "length od = 2 ^ k"
  shows "fft_FieldVector inp False =
    (let h = map2 (\<lambda>a b. (a * b) mod Order) od (fft_omegas (2 ^ k - 1) (mod_exp unity (2 ^ 28 div int (length inp)) Order) 1)
     in Inr (map2 (\<lambda>e t. (e + t) mod Order) ev h @ map2 (\<lambda>e t. (e - t) mod Order) ev h))"
proof -
  have "map2 (\<lambda>a b. (a + b) mod Order) ev (map (\<lambda>a. (- a) mod Order) h) = map2 (\<lambda>e t. (e - t) mod Order) ev h" for h
    by (induction ev h rule: list_induct2') (simp_all add: mod_simps)
  then show ?thesis
    using assms
    by (subst fft_FieldVector.simps)
      (simp add: fft_omega_def fv_Extract_def fv_Hadamard_def fv_Add_def fv_Negate_def fv_Concat_def Let_def del: map_map)
qed

lemma fftints_agrees:
  "length inp = 2 ^ k \<Longrightarrow> \<exists>ys. fft_FieldVector inp False = Inr ys \<and> length ys = 2 ^ k \<and> fftints inp = Inr (map Some ys)"
proof (induction k arbitrary: inp)
  case 0
  then show ?case by (simp add: fft_FieldVector.simps fftints.simps)
next
  case (Suc k)
  let ?om = "mod_exp unity (2 ^ 28 div int (length inp)) Order"
  have half: "length (parity_part b inp) = 2 ^ k" for b using Suc.prems by (simp add: length_parity_part)
  have ex: "extractbits inp 0 = parity_part False inp" "extractbits inp 1 = parity_part True inp"
    using extractbits_parity_part[of inp] Suc.prems by simp_all
  obtain ev where ev: "fft_FieldVector (parity_part False inp) False = Inr ev" "length ev = 2 ^ k" "fftints (extractbits inp 0) = Inr (map Some ev)"
    using Suc.IH[OF half] unfolding ex by blast
  obtain od where od: "fft_FieldVector (parity_part True inp) False = Inr od" "length od = 2 ^ k" "fftints (extractbits inp 1) = Inr (map Some od)"
    using Suc.IH[OF half] unfolding ex by blast
  define h where "h = map2 (\<lambda>a b. (a * b) mod Order) od (fft_omegas (2 ^ k - 1) ?om 1)"
  have "fft_FieldVector inp False = Inr (map2 (\<lambda>e t. (e + t) mod Order) ev h @ map2 (\<lambda>e t. (e - t) mod Order) ev h)"
    using fft_step[OF Suc.prems ev(1,2) od(1,2)] by (simp add: h_def Let_def)
  moreover have "fftints_loop ?om (map Some ev) (map Some od) 1 = Inr (map2 (\<lambda>e t. ((e + t) mod Order, (e - t) mod Order)) ev h)"
    using fftints_loop_butterfly[of ev "2 ^ k - 1" od ?om 1] ev(2) od(2) by (simp add: h_def)
  then have "fftints inp = Inr (map Some (map2 (\<lambda>e t. (e + t) mod Order) ev h @ map2 (\<lambda>e t. (e - t) mod Order) ev h))"
    using ev(3) od(3) Suc.prems
    by (subst fftints.simps) (simp add: Let_def comp_def split_beta)
  moreover have "length h = 2 ^ k" using od(2) by (simp add: h_def)
  ultimately show ?case using ev(2) by simp
qed

text \<open>C24: The two transforms over scalars, \<^verbatim>\<open>fft_FieldVector\<close> and \<^verbatim>\<open>fftints\<close>, return the same vector on every input whose length is a
  power of two, without a panic.\<close>

theorem fft_implementations_agree:
  assumes "length inp = 2 ^ k"
  shows "\<exists>ys. fft_FieldVector inp False = Inr ys \<and> length ys = 2 ^ k \<and> fftints inp = Inr (map Some ys)"
  using assms by (rule fftints_agrees)

theorem fft_implementations_agree_witness:
  "\<exists>ys. fft_FieldVector [1, 2, 3, 4] False = Inr ys \<and> length ys = 2 ^ 2 \<and> fftints [1, 2, 3, 4] = Inr (map Some ys)"
  by (rule fft_implementations_agree) simp

section \<open>The transform over points\<close>

lemma parity_part_map: "parity_part b (map f xs) = map f (parity_part b xs)"
  by (simp add: parity_part_def)

definition multiples :: "'p G1Ops \<Rightarrow> 'p \<Rightarrow> int list \<Rightarrow> 'p list" where
  "multiples P Q xs = map (g1_ScalarMult P Q) xs"

lemma length_multiples [simp]: "length (multiples P Q xs) = length xs"
  by (simp add: multiples_def)

lemma multiples_ops:
  assumes L: "g1_laws P"
  shows "pv_Hadamard P (multiples P Q xs) es = rbind (fv_Hadamard xs es) (\<lambda>ys. Inr (multiples P Q ys))"
    and "pv_Add P (multiples P Q xs) (multiples P Q ys) = rbind (fv_Add xs ys) (\<lambda>zs. Inr (multiples P Q zs))"
    and "pv_Negate P (multiples P Q xs) = multiples P Q (fv_Negate xs)"
    and "pv_Times P (multiples P Q xs) k = multiples P Q (fv_Times xs k)"
    and "pv_Concat (multiples P Q xs) (multiples P Q ys) = multiples P Q (fv_Concat xs ys)"
    and "pv_Extract (multiples P Q xs) b = multiples P Q (fv_Extract xs b)"
  by (auto simp: multiples_def pv_Hadamard_def fv_Hadamard_def pv_Add_def fv_Add_def pv_Negate_def fv_Negate_def
      pv_Times_def fv_Times_def pv_Concat_def fv_Concat_def pv_Extract_def fv_Extract_def parity_part_map mismatch_def
      g1_mul_mod[OF L] g1_mul_mul[OF L] g1_mul_add[OF L] g1_neg[OF L] zip_map1 zip_map2 split_beta)

lemma fft_points:
  assumes L: "g1_laws P"
  shows "fft_GeneratorVector P (multiples P Q xs) invs = rbind (fft_FieldVector xs invs) (\<lambda>ys. Inr (multiples P Q ys))"
proof (induction xs rule: length_induct)
  case (1 xs)
  consider "length xs = 1" | "length xs \<noteq> 1" "length xs mod 2 \<noteq> 0" | "length xs = 0" | "length xs \<noteq> 1" "length xs mod 2 = 0" "length xs \<noteq> 0"
    by blast
  then show ?case
  proof cases
    case 4
    then obtain n where "length xs = 2 * n" "0 < n" by auto
    then have "length (fv_Extract xs b) < length xs" for b
      by (simp add: fv_Extract_def length_parity_part)
    then have IH: "fft_GeneratorVector P (multiples P Q (fv_Extract xs b)) invs =
        rbind (fft_FieldVector (fv_Extract xs b) invs) (\<lambda>ys. Inr (multiples P Q ys))" for b
      using 1 by blast
    show ?thesis
      using 4
      by (subst fft_FieldVector.simps, subst fft_GeneratorVector.simps)
        (simp add: multiples_ops[OF L] IH rbind_assoc if_distrib[of "\<lambda>r. rbind r _"] Let_def cong: if_cong)
  qed (simp_all add: fft_FieldVector.simps fft_GeneratorVector.simps Let_def)
qed

text \<open>C25: The transform over points is the transform over scalars: on multiples of a point it returns the same multiples
  of the transformed scalars, forwards and backwards, and panics exactly when the other one does.\<close>

theorem fft_GeneratorVector_lifts:
  assumes "g1_laws P"
  shows "fft_GeneratorVector P (map (g1_ScalarMult P Q) xs) invs =
    (case fft_FieldVector xs invs of Inl e \<Rightarrow> Inl e | Inr ys \<Rightarrow> Inr (map (g1_ScalarMult P Q) ys))"
  using fft_points[OF assms, of Q xs invs] by (simp add: multiples_def rbind_def)

theorem fft_GeneratorVector_lifts_witness:
  "fft_GeneratorVector residue_curve (map (g1_ScalarMult residue_curve (residue 5)) [1, 2, 3, 4]) True =
    (case fft_FieldVector [1, 2, 3, 4] True of Inl e \<Rightarrow> Inl e | Inr ys \<Rightarrow> Inr (map (g1_ScalarMult residue_curve (residue 5)) ys))"
  by (rule fft_GeneratorVector_lifts[OF residue_laws])

end
