(* ===== verification/Accounts.thy ===== *)
theory Accounts
  imports Assets Signatures
begin

text \<open>
  The homomorphic accounts of \<^verbatim>\<open>blockchain/data_storage/accounts\<close>: the encrypted balance, the account,
  the map of the accounts of one asset with the events that keep the list of the assets of a
  public key, and the collection of these maps.  The curve is a parameter \<open>P\<close>.
\<close>

section \<open>Balances\<close>

text \<open>\<^verbatim>\<open>Amount\<close> is a pointer; \<^verbatim>\<open>Add\<close> and \<^verbatim>\<open>Plus\<close> of a ciphertext build a new one, so that assigning the field
  is the only write.\<close>

record 'p BalanceHomomorphic =
  ba_Amount :: "'p ElGamal option"

definition AddBalanceUint :: "'p G1Ops \<Rightarrow> uint64 \<Rightarrow> 'p BalanceHomomorphic \<Rightarrow> 'p BalanceHomomorphic result" where
  "AddBalanceUint P amount balance =
     rbind (rderef (ba_Amount balance)) (\<lambda>a.
     rbind (ElGamal_Plus P a (uint amount)) (\<lambda>a'. Inr (balance\<lparr>ba_Amount := Some a'\<rparr>)))"

definition AddEchanges :: "'p G1Ops \<Rightarrow> 'p ElGamal \<Rightarrow> 'p BalanceHomomorphic \<Rightarrow> 'p BalanceHomomorphic result" where
  "AddEchanges P amount balance =
     rbind (rderef (ba_Amount balance)) (\<lambda>a.
     rbind (ElGamal_Add P a amount) (\<lambda>a'. Inr (balance\<lparr>ba_Amount := Some a'\<rparr>)))"

text \<open>Serialising a balance without points panics.\<close>

definition BalanceHomomorphic_Serialize :: "'p G1Ops \<Rightarrow> 'p BalanceHomomorphic \<Rightarrow> (BufferWriter \<Rightarrow> BufferWriter) result" where
  "BalanceHomomorphic_Serialize P balance =
     rbind (rderef (ba_Amount balance)) (\<lambda>a.
     rbind (ElGamal_Serialize P a) (\<lambda>bs. Inr (Write bs)))"

definition BalanceHomomorphic_Deserialize :: "'p G1Ops \<Rightarrow> 'p BalanceHomomorphic \<Rightarrow> (BufferReader, 'p BalanceHomomorphic) go" where
  "BalanceHomomorphic_Deserialize P balance =
     gbind (ReadBytes 66) (\<lambda>amount.
     gbind (glift (ElGamal_Deserialize P amount)) (\<lambda>a. gret (balance\<lparr>ba_Amount := Some a\<rparr>)))"

text \<open>\<^verbatim>\<open>ElGamal_BASE_G\<close> is the base point.\<close>

definition NewBalanceHomomorphicEmptyBalance :: "'p G1Ops \<Rightarrow> bytes \<Rightarrow> 'p BalanceHomomorphic result" where
  "NewBalanceHomomorphicEmptyBalance P publicKey =
     rbind (g1_DecodeCompressed P publicKey) (\<lambda>acckey.
     rbind (ConstructElGamal P (Some acckey) (Some (g1_G P))) (\<lambda>a. Inr \<lparr>ba_Amount = Some a\<rparr>))"

definition NewBalanceHomomorphic :: "'p G1Ops \<Rightarrow> 'p ElGamal \<Rightarrow> 'p BalanceHomomorphic result" where
  "NewBalanceHomomorphic P amount =
     rbind (ElGamal_Serialize P amount) (\<lambda>bs.
     rbind (ElGamal_Deserialize P bs) (\<lambda>el. Inr \<lparr>ba_Amount = Some el\<rparr>))"

section \<open>Accounts\<close>

record 'p Account =
  acc_Key :: bytes
  acc_Asset :: bytes
  acc_Index :: uint64
  acc_Version :: uint64
  acc_Balance :: "'p BalanceHomomorphic"

definition Account_Validate :: "'p Account \<Rightarrow> unit result" where
  "Account_Validate a = (if acc_Version a \<noteq> 0 then Inl (Error ''Version is invalid'') else Inr ())"

definition Account_GetBalance :: "'p Account \<Rightarrow> 'p ElGamal option" where
  "Account_GetBalance a = ba_Amount (acc_Balance a)"

definition Account_Serialize :: "'p G1Ops \<Rightarrow> 'p Account \<Rightarrow> (BufferWriter \<Rightarrow> BufferWriter) result" where
  "Account_Serialize P a =
     rbind (BalanceHomomorphic_Serialize P (acc_Balance a)) (\<lambda>balance.
     Inr (ser_seq [WriteUvarint (acc_Version a), balance]))"

definition Account_Deserialize :: "'p G1Ops \<Rightarrow> 'p Account \<Rightarrow> (BufferReader, 'p Account) go" where
  "Account_Deserialize P a =
     gbind ReadUvarint (\<lambda>n.
     gbind (gcheck (n \<noteq> 0) ''Invalid Account Version'') (\<lambda>_.
     gbind (BalanceHomomorphic_Deserialize P (acc_Balance a)) (\<lambda>b.
     gret (a\<lparr>acc_Version := n, acc_Balance := b\<rparr>))))"

definition NewAccount :: "'p G1Ops \<Rightarrow> bytes \<Rightarrow> uint64 \<Rightarrow> bytes \<Rightarrow> 'p Account result" where
  "NewAccount P key index asset =
     rbind (NewBalanceHomomorphicEmptyBalance P key) (\<lambda>balance.
     Inr \<lparr>acc_Key = key, acc_Asset = asset, acc_Index = index, acc_Version = 0, acc_Balance = balance\<rparr>)"

definition NewAccountClear :: "bytes \<Rightarrow> uint64 \<Rightarrow> bytes \<Rightarrow> 'p Account" where
  "NewAccountClear key index asset =
     \<lparr>acc_Key = key, acc_Asset = asset, acc_Index = index, acc_Version = 0, acc_Balance = \<lparr>ba_Amount = None\<rparr>\<rparr>"

definition Account_ops :: "'p G1Ops \<Rightarrow> 'p Account ElemOps" where
  "Account_ops P = \<lparr>
     el_Validate = Account_Validate,
     el_Serialize = Account_Serialize P,
     el_Deserialize = Account_Deserialize P,
     el_SetIndex = (\<lambda>v a. a\<lparr>acc_Index := v\<rparr>),
     el_SetKey = (\<lambda>k a. a\<lparr>acc_Key := k\<rparr>),
     el_GetIndex = acc_Index,
     el_IsDeletable = (\<lambda>_. False)\<rparr>"

definition Account_create :: "bytes \<Rightarrow> bytes \<Rightarrow> uint64 \<Rightarrow> 'p Account result" where
  "Account_create asset key index = Inr (NewAccountClear key index asset)"

section \<open>The accounts of an asset\<close>

definition assetsCount_key :: "bytes \<Rightarrow> bytes" where
  "assetsCount_key key = lit ''accounts:assetsCount:'' @ key"

definition assetByIndex_key :: "bytes \<Rightarrow> uint64 \<Rightarrow> bytes" where
  "assetByIndex_key key i = lit ''accounts:assetByIndex:'' @ key @ lit '':'' @ FormatUint i"

definition accounts_name :: "bytes \<Rightarrow> bytes" where
  "accounts_name asset = lit ''accounts_'' @ asset"

definition CreateNewAccount :: "'p G1Ops \<Rightarrow> 'x StoreTx \<Rightarrow> bytes \<Rightarrow> bytes \<Rightarrow> ('p Account, 'x, 'p Account) hm_go" where
  "CreateNewAccount P X asset publicKey =
     gbind (glift (NewAccount P publicKey 0 asset)) (\<lambda>acc. Create (Account_ops P) X publicKey (Some acc))"

definition stored_count :: "'x StoreTx \<Rightarrow> bytes \<Rightarrow> ('x, uint64) go" where
  "stored_count X key =
     gbind (tx_Get X (assetsCount_key key)) (\<lambda>data.
     case data of None \<Rightarrow> gret 0 | Some d \<Rightarrow> glift (fst (ReadUvarint (NewBufferReader d))))"

definition saveAssetsCount :: "'x StoreTx \<Rightarrow> bytes \<Rightarrow> bool \<Rightarrow> ('x, uint64) go" where
  "saveAssetsCount X key sign =
     gbind (stored_count X key) (\<lambda>count.
     (let count' = (if sign then count + 1 else count - 1);
          countOriginal = (if sign then count else count')
      in gbind (if count' > 0 then tx_Put X (assetsCount_key key) (Some (SerializeToBytes (WriteUvarint count')))
                else tx_Delete X (assetsCount_key key)) (\<lambda>_. gret countOriginal)))"

definition Accounts_StoredEvent :: "'x StoreTx \<Rightarrow> bytes \<Rightarrow> 'p Account CommittedMapElement \<Rightarrow> uint64 \<Rightarrow> ('x, unit) go" where
  "Accounts_StoredEvent X key committed index =
     gbind (gget (tx_IsWritable X)) (\<lambda>w.
     if \<not> w then gret ()
     else
       gbind (saveAssetsCount X key True) (\<lambda>count.
       deref (cm_Element committed) (\<lambda>e. tx_Put X (assetByIndex_key key count) (Some (acc_Asset e)))))"

definition Accounts_DeletedEvent :: "'x StoreTx \<Rightarrow> bytes \<Rightarrow> ('x, unit) go" where
  "Accounts_DeletedEvent X key =
     gbind (gget (tx_IsWritable X)) (\<lambda>w.
     if \<not> w then gret ()
     else gbind (saveAssetsCount X key False) (\<lambda>count. tx_Delete X (assetByIndex_key key count)))"

definition NewAccounts :: "'p G1Ops \<Rightarrow> 'x StoreTx \<Rightarrow> bytes \<Rightarrow> ('x, ('p Account, 'x) HashMap) go" where
  "NewAccounts P X AssetId =
     gbind (gcheck (length AssetId \<noteq> PublicKeyHashSize) ''Asset length is invalid'') (\<lambda>_.
     CreateNewHashMap X (accounts_name AssetId) PublicKeySize True (Account_create AssetId)
       (Some (Accounts_DeletedEvent X)) (Some (Accounts_StoredEvent X)))"

section \<open>The collection\<close>

text \<open>The maps share the transaction of the collection.  The field \<^verbatim>\<open>Asset\<close> of a map is its key in \<^verbatim>\<open>maps\<close>;
  \<^verbatim>\<open>list\<close> holds the maps in the order of creation, and the model lists their assets.\<close>

record ('p, 'x) AccountsCollection =
  ac_tx :: 'x
  ac_maps :: "(bytes \<times> ('p Account, 'x) HashMap) list"
  ac_list :: "bytes list"

definition NewAccountsCollection :: "'x \<Rightarrow> ('p, 'x) AccountsCollection" where
  "NewAccountsCollection tx = \<lparr>ac_tx = tx, ac_maps = [], ac_list = []\<rparr>"

definition Accounts_GetMap :: "'p G1Ops \<Rightarrow> 'x StoreTx \<Rightarrow> bytes \<Rightarrow> (('p, 'x) AccountsCollection, unit) go" where
  "Accounts_GetMap P X assetId =
     gbind (gcheck (length assetId \<noteq> ASSET_LENGTH) ''Asset was not found'') (\<lambda>_.
     gbind (gget (\<lambda>c. map_of (ac_maps c) assetId)) (\<lambda>accs.
     case accs of
       Some _ \<Rightarrow> gret ()
     | None \<Rightarrow>
         (\<lambda>c. case NewAccounts P X assetId (ac_tx c) of
            (Inl e, x) \<Rightarrow> (Inl e, c\<lparr>ac_tx := x\<rparr>)
          | (Inr h, x) \<Rightarrow>
              (Inr (), c\<lparr>ac_tx := x, ac_list := ac_list c @ [assetId],
                        ac_maps := AList.update assetId h (ac_maps c)\<rparr>))))"

definition Accounts_GetMapIfExists :: "('p, 'x) AccountsCollection \<Rightarrow> bytes \<Rightarrow> ('p Account, 'x) HashMap option" where
  "Accounts_GetMapIfExists c assetId = map_of (ac_maps c) assetId"

text \<open>A method call on the map of an asset.\<close>

definition on_accs :: "bytes \<Rightarrow> ('p Account, 'x, 'a) hm_go \<Rightarrow> (('p, 'x) AccountsCollection, 'a) go" where
  "on_accs assetId m = (\<lambda>c.
     case map_of (ac_maps c) assetId of
       None \<Rightarrow> (Inl (Panic ''invalid memory address or nil pointer dereference''), c)
     | Some h \<Rightarrow>
         (case m (h, ac_tx c) of
            (r, (h', x)) \<Rightarrow> (r, c\<lparr>ac_tx := x, ac_maps := AList.update assetId h' (ac_maps c)\<rparr>)))"

definition on_ac_tx :: "('x, 'a) go \<Rightarrow> (('p, 'x) AccountsCollection, 'a) go" where
  "on_ac_tx m = (\<lambda>c. case m (ac_tx c) of (r, x) \<Rightarrow> (r, c\<lparr>ac_tx := x\<rparr>))"

definition GetAccountAssetsCount :: "'x StoreTx \<Rightarrow> bytes \<Rightarrow> (('p, 'x) AccountsCollection, uint64) go" where
  "GetAccountAssetsCount X key = on_ac_tx (stored_count X key)"

fun GetAccountAssets_loop :: "'x StoreTx \<Rightarrow> bytes \<Rightarrow> nat list \<Rightarrow> ('x, bytes list) go" where
  "GetAccountAssets_loop X key [] = gret []"
| "GetAccountAssets_loop X key (i # is') =
     gbind (tx_Get X (assetByIndex_key key (of_nat i))) (\<lambda>assetId.
     case assetId of
       None \<Rightarrow> gerr ''Error reading AssetId''
     | Some a \<Rightarrow> gbind (GetAccountAssets_loop X key is') (\<lambda>out. gret (a # out)))"

definition GetAccountAssets :: "'x StoreTx \<Rightarrow> bytes \<Rightarrow> (('p, 'x) AccountsCollection, bytes list) go" where
  "GetAccountAssets X key =
     gbind (GetAccountAssetsCount X key) (\<lambda>count.
     gbind (make_slice 24 count) (\<lambda>_.
     on_ac_tx (GetAccountAssets_loop X key [0..<unat count])))"

section \<open>The accounts of a map\<close>

text \<open>The accounts a key may hold: version zero and a balance of two points, as it comes out of the decoder.\<close>

definition amount_ok :: "'p G1Ops \<Rightarrow> 'p ElGamal \<Rightarrow> bool" where
  "amount_ok P e \<longleftrightarrow> eg_G e = g1_G P \<and> eg_Randomness e = None \<and> eg_Left e \<noteq> None \<and> eg_Right e \<noteq> None"

definition Account_ok :: "'p G1Ops \<Rightarrow> bytes \<Rightarrow> bytes \<Rightarrow> 'p Account \<Rightarrow> bool" where
  "Account_ok P asset k a \<longleftrightarrow> acc_Key a = k \<and> acc_Asset a = asset \<and> acc_Version a = 0 \<and>
     (\<exists>e. ba_Amount (acc_Balance a) = Some e \<and> amount_ok P e)"

text \<open>The bytes of a ciphertext and of an account, and what is read off the bytes of an account.\<close>

definition amount_bytes :: "'p G1Ops \<Rightarrow> 'p ElGamal \<Rightarrow> bytes" where
  "amount_bytes P e = (case ElGamal_Serialize P e of Inr bs \<Rightarrow> bs | Inl _ \<Rightarrow> [])"

text \<open>The balance is read as a value, the identity included.  \<^verbatim>\<open>Deserialize\<close> refuses a ciphertext with the identity;
  the map of the running block still holds it as an object.\<close>

definition total_codec :: "'p G1Ops \<Rightarrow> 'p G1Ops" where
  "total_codec P = P\<lparr>g1_DecodeCompressed :=
     (\<lambda>bs. if bs = g1_EncodeCompressed P (g1_zero P) then Inr (g1_zero P) else g1_DecodeCompressed P bs)\<rparr>"

definition decode_balance :: "'p G1Ops \<Rightarrow> bytes \<Rightarrow> 'p ElGamal option" where
  "decode_balance P bs =
     (case fst (Account_Deserialize (total_codec P) (NewAccountClear [] 0 []) (NewBufferReader bs)) of
        Inr a \<Rightarrow> Account_GetBalance a
      | Inl _ \<Rightarrow> None)"

lemma amount_okE:
  assumes "amount_ok P e"
  obtains l r where "e = \<lparr>eg_G = g1_G P, eg_Randomness = None, eg_Left = Some l, eg_Right = Some r\<rparr>"
  using assms by (cases e) (auto simp: amount_ok_def)

text \<open>The ciphertexts that can be read back.\<close>

definition readable :: "'p G1Ops \<Rightarrow> 'p ElGamal \<Rightarrow> bool" where
  "readable P e \<longleftrightarrow> amount_ok P e \<and> eg_Left e \<noteq> Some (g1_zero P) \<and> eg_Right e \<noteq> Some (g1_zero P)"

lemma total_codec:
  assumes "g1_codec P"
  shows "length (g1_EncodeCompressed P a) = 33" "g1_DecodeCompressed (total_codec P) (g1_EncodeCompressed P a) = Inr a"
  using assms g1_codec_inj[OF assms, of a "g1_zero P"] by (simp_all add: g1_codec_def total_codec_def)

lemma amount_Serialize: "amount_ok P e \<Longrightarrow> ElGamal_Serialize P e = Inr (amount_bytes P e)"
  by (erule amount_okE) (simp add: amount_bytes_def ElGamal_Serialize_def eg_construct)

text \<open>The bytes of a ciphertext; what the code reads back, and their value.\<close>

lemma amount_codec:
  assumes "g1_codec P" "amount_ok P e"
  shows "ElGamal_Serialize P e = Inr (amount_bytes P e)" "length (amount_bytes P e) = 66"
    "ElGamal_Deserialize (total_codec P) (amount_bytes P e) = Inr e"
    "readable P e \<Longrightarrow> ElGamal_Deserialize P (amount_bytes P e) = Inr e"
  using total_codec[OF assms(1)] g1_codecD(2)[OF assms(1)]
  by (rule_tac amount_okE[OF assms(2)];
      simp add: amount_bytes_def ElGamal_Serialize_def ElGamal_Deserialize_def readable_def eg_construct;
      simp add: total_codec_def)+

lemma ElGamal_Deserialize_ok:
  "ElGamal_Deserialize P bs = Inr e \<Longrightarrow> amount_ok P e"
  by (auto simp: ElGamal_Deserialize_def rbind_Inr_iff eg_construct amount_ok_def split: if_splits)

lemma amount_ok_Add:
  assumes "amount_ok P a" "amount_ok P b"
  shows "\<exists>s. ElGamal_Add P a b = Inr s \<and> amount_ok P s"
  using assms by (auto simp: ElGamal_Add_def eg_construct amount_ok_def)

lemma amount_ok_Neg: "amount_ok P a \<Longrightarrow> \<exists>s. ElGamal_Neg P a = Inr s \<and> amount_ok P s"
  by (auto simp: ElGamal_Neg_def eg_construct amount_ok_def)

lemma writes_Account:
  assumes "Account_ok P asset k a" "ba_Amount (acc_Balance a) = Some e"
  shows "\<exists>w. Account_Serialize P a = Inr w \<and> writes w (PutUvarint 0 @ amount_bytes P e)"
proof -
  let ?w = "ser_seq [WriteUvarint 0, Write (amount_bytes P e)]"
  have "writes ?w (PutUvarint 0 @ (amount_bytes P e @ []))"
    by (intro writes_seq_Cons writes_seq_Nil writes_WriteUvarint writes_Write)
  moreover have "Account_Serialize P a = Inr ?w"
    using assms amount_Serialize[of P e]
    by (auto simp: Account_Serialize_def BalanceHomomorphic_Serialize_def Account_ok_def)
  ultimately show ?thesis by simp
qed

lemma reads_Account:
  assumes "length (amount_bytes P e) = 66" "ElGamal_Deserialize Q (amount_bytes P e) = Inr e"
  shows "reads (Account_Deserialize Q a) (PutUvarint 0 @ amount_bytes P e) (a\<lparr>acc_Version := 0, acc_Balance := \<lparr>ba_Amount = Some e\<rparr>\<rparr>)"
proof -
  have eq: "b\<lparr>ba_Amount := Some e\<rparr> = \<lparr>ba_Amount = Some e\<rparr>" for b :: "'a BalanceHomomorphic" by (cases b) simp
  have "reads (BalanceHomomorphic_Deserialize Q (acc_Balance a)) (amount_bytes P e @ []) \<lparr>ba_Amount = Some e\<rparr>"
    unfolding BalanceHomomorphic_Deserialize_def
    using assms by (intro reads_bind[OF reads_ReadBytes]) (simp_all add: eq)
  then have b: "reads (BalanceHomomorphic_Deserialize Q (acc_Balance a)) (amount_bytes P e) \<lparr>ba_Amount = Some e\<rparr>" by simp
  have "reads (Account_Deserialize Q a) (PutUvarint 0 @ (amount_bytes P e @ [])) (a\<lparr>acc_Version := 0, acc_Balance := \<lparr>ba_Amount = Some e\<rparr>\<rparr>)"
    unfolding Account_Deserialize_def
    by (intro reads_bind[OF reads_ReadUvarint] reads_gcheck reads_bind[OF b] reads_gret) simp
  then show ?thesis by simp
qed

lemma Account_el_bytes:
  assumes "Account_ok P asset k a" "ba_Amount (acc_Balance a) = Some e"
  shows "el_bytes (Account_ops P) a = PutUvarint 0 @ amount_bytes P e"
  using writes_Account[OF assms] writes_SerializeToBytes by (auto simp: el_bytes_def Account_ops_def)

lemma decode_account:
  assumes "g1_codec P" "amount_ok P e"
  shows "decode_balance P (PutUvarint 0 @ amount_bytes P e) = Some e"
  using reads_NewBufferReader[OF reads_Account[OF amount_codec(2,3)[OF assms]], of "NewAccountClear [] 0 []"]
  by (simp add: decode_balance_def Account_GetBalance_def)

text \<open>An account is read back when its balance is readable.\<close>

lemma Account_loads:
  assumes "g1_codec P" "Account_ok P asset k a" "ba_Amount (acc_Balance a) = Some e" "readable P e"
  shows "loads (Account_ops P) (Account_create asset) k a"
  unfolding loads_def
proof
  fix i
  have ok: "amount_ok P e" using assms(4) by (simp add: readable_def)
  have "(NewAccountClear k i asset)\<lparr>acc_Version := 0, acc_Balance := \<lparr>ba_Amount = Some e\<rparr>\<rparr> = a\<lparr>acc_Index := i\<rparr>"
    using assms(2,3) by (cases a; cases "acc_Balance a") (simp add: NewAccountClear_def Account_ok_def)
  then show "\<exists>out. Account_create asset k i = Inr out \<and>
      fst (el_Deserialize (Account_ops P) out (NewBufferReader (el_bytes (Account_ops P) a))) = Inr (el_SetIndex (Account_ops P) i a)"
    using reads_NewBufferReader[OF reads_Account[OF amount_codec(2,4)[OF assms(1) ok]], of "NewAccountClear k i asset"] assms(4)
    by (simp add: Account_create_def Account_el_bytes[OF assms(2,3)]) (simp add: Account_ops_def)
qed

lemma account_laws: "hash_map_block mem_ops mem_view (Account_ops P) (Account_ok P asset)"
proof (intro hash_map_block.intro hash_map_entry.intro)
  show "store_tx mem_ops mem_view" ..
  show "\<exists>w. el_Serialize (Account_ops P) e = Inr w" if "Account_ok P asset k e" for k e
    using that writes_Account[OF that] by (auto simp: Account_ops_def Account_ok_def)
qed (auto simp: Account_ops_def Account_ok_def Account_Serialize_def Account_Validate_def)

section \<open>The list of the assets of a public key\<close>

definition asset_list_at :: "(bytes \<Rightarrow> bytes option) \<Rightarrow> bytes \<Rightarrow> bytes list \<Rightarrow> bool" where
  "asset_list_at db key assets \<longleftrightarrow>
     db (assetsCount_key key) = (if assets = [] then None else Some (PutUvarint (of_nat (length assets)))) \<and>
     (\<forall>i < length assets. db (assetByIndex_key key (of_nat i)) = Some (assets ! i))"

lemma asset_keys_neq [simp]:
  "assetsCount_key k \<noteq> assetByIndex_key k' i" "assetByIndex_key k' i \<noteq> assetsCount_key k"
  "assetsCount_key k = assetsCount_key k' \<longleftrightarrow> k = k'"
  "length k = length k' \<Longrightarrow> assetByIndex_key k i = assetByIndex_key k' j \<longleftrightarrow> k = k' \<and> i = j"
  by (auto simp: assetsCount_key_def assetByIndex_key_def)

lemma of_nat_uint64_inj: "i < 2 ^ 64 \<Longrightarrow> j < 2 ^ 64 \<Longrightarrow> (of_nat i :: uint64) = of_nat j \<longleftrightarrow> i = j"
  by (metis unat_of_nat_uint64)

lemma of_nat_uint64_pos: "0 < i \<Longrightarrow> i < 2 ^ 64 \<Longrightarrow> (0 :: uint64) < of_nat i"
  by (metis bot_nat_0.not_eq_extremum unat_0 unat_of_nat_uint64 word_neq_0_conv)

lemma asset_list_set:
  assumes "length assets < 2 ^ 64" "n < length assets \<Longrightarrow> v = Some (assets ! n)" "n < 2 ^ 64"
    and "\<forall>i < length assets. i \<noteq> n \<longrightarrow> db (assetByIndex_key key (of_nat i)) = Some (assets ! i)"
    and "c = (if assets = [] then None else Some (PutUvarint (of_nat (length assets))))"
  shows "asset_list_at (db(assetsCount_key key := c, assetByIndex_key key (of_nat n) := v)) key assets"
  using assms by (auto simp: asset_list_at_def of_nat_uint64_inj)

lemma asset_list_other:
  assumes "asset_list_at db k assets" "k \<noteq> key" "length k = length key"
  shows "asset_list_at (db(assetsCount_key key := c, assetByIndex_key key i := v)) k assets"
  using assms by (simp add: asset_list_at_def)

lemma stored_count_run:
  assumes "asset_list_at (mem_view x) key assets"
  shows "\<exists>x'. stored_count mem_ops key x = (Inr (of_nat (length assets)), x') \<and> mem_view x' = mem_view x \<and>
    tx_IsWritable mem_ops x' = tx_IsWritable mem_ops x"
proof -
  obtain x' where x': "tx_Get mem_ops (assetsCount_key key) x = (Inr (mem_view x (assetsCount_key key)), x')"
    "mem_view x' = mem_view x" "tx_IsWritable mem_ops x' = tx_IsWritable mem_ops x"
    by (rule mem_tx.Get_run)
  show ?thesis
    using x' assms reads_NewBufferReader[OF reads_ReadUvarint, of "of_nat (length assets)"]
    by (auto simp: stored_count_def gbind_def asset_list_at_def)
qed

lemma WriteUvarint_bytes: "SerializeToBytes (WriteUvarint v) = PutUvarint v"
  by (rule writes_SerializeToBytes[OF writes_WriteUvarint])

lemma saveAssetsCount_run:
  assumes "tx_IsWritable mem_ops x" "asset_list_at (mem_view x) key assets" "length assets < 2 ^ 63"
    and n: "n = (if sign then Suc (length assets) else length assets - 1)" and "sign \<or> assets \<noteq> []"
  shows "\<exists>x'. saveAssetsCount mem_ops key sign x = (Inr (of_nat (if sign then length assets else n)), x') \<and>
    mem_view x' = (mem_view x)(assetsCount_key key := (if n = 0 then None else Some (PutUvarint (of_nat n)))) \<and>
    tx_IsWritable mem_ops x'"
proof -
  obtain x1 where x1: "stored_count mem_ops key x = (Inr (of_nat (length assets)), x1)" "mem_view x1 = mem_view x"
    "tx_IsWritable mem_ops x1"
    using stored_count_run[OF assms(2)] assms(1) by auto
  obtain x2 where x2: "tx_Put mem_ops (assetsCount_key key) (Some (PutUvarint (of_nat n))) x1 = (Inr (), x2)"
    "mem_view x2 = (mem_view x1)(assetsCount_key key := Some (PutUvarint (of_nat n)))" "tx_IsWritable mem_ops x2"
    by (rule mem_tx.Put_run[OF x1(3)])
  obtain x3 where x3: "tx_Delete mem_ops (assetsCount_key key) x1 = (Inr (), x3)"
    "mem_view x3 = (mem_view x1)(assetsCount_key key := None)" "tx_IsWritable mem_ops x3"
    by (rule mem_tx.Delete_run[OF x1(3)])
  have c: "(if sign then of_nat (length assets) + 1 else of_nat (length assets) - 1 :: uint64) = of_nat n"
    using n assms(5) by (cases assets) auto
  have p: "(0 :: uint64) < of_nat n \<longleftrightarrow> n \<noteq> 0"
    using n assms(3) of_nat_uint64_pos[of n] by (cases "n = 0") auto
  have run: "saveAssetsCount mem_ops key sign x =
      (Inr (of_nat (if sign then length assets else n)), if n = 0 then x3 else x2)"
    using x1(1) x2(1) x3(1) c p
    by (simp add: saveAssetsCount_def gbind_Inr WriteUvarint_bytes Let_def del: of_nat_Suc) auto
  show ?thesis using run x1 x2 x3 by (cases "n = 0") auto
qed

lemma Accounts_StoredEvent_run:
  assumes "tx_IsWritable mem_ops x" "asset_list_at (mem_view x) key assets" "length assets < 2 ^ 62"
    and "cm_Element c = Some e"
  shows "\<exists>x'. Accounts_StoredEvent mem_ops key c i x = (Inr (), x') \<and> tx_IsWritable mem_ops x' \<and>
    asset_list_at (mem_view x') key (assets @ [acc_Asset e]) \<and>
    (\<forall>k as. k \<noteq> key \<longrightarrow> length k = length key \<longrightarrow> asset_list_at (mem_view x) k as \<longrightarrow> asset_list_at (mem_view x') k as)"
proof -
  obtain x1 where x1: "saveAssetsCount mem_ops key True x = (Inr (of_nat (length assets)), x1)"
    "mem_view x1 = (mem_view x)(assetsCount_key key := Some (PutUvarint (of_nat (Suc (length assets)))))"
    "tx_IsWritable mem_ops x1"
    using saveAssetsCount_run[OF assms(1,2) _ refl, of True] assms(3) by auto
  obtain x2 where x2: "tx_Put mem_ops (assetByIndex_key key (of_nat (length assets))) (Some (acc_Asset e)) x1 = (Inr (), x2)"
    "mem_view x2 = (mem_view x1)(assetByIndex_key key (of_nat (length assets)) := Some (acc_Asset e))"
    "tx_IsWritable mem_ops x2"
    by (rule mem_tx.Put_run[OF x1(3)])
  have run: "Accounts_StoredEvent mem_ops key c i x = (Inr (), x2)"
    using assms(1,4) x1(1) x2(1) by (simp add: Accounts_StoredEvent_def gbind_Inr)
  have "asset_list_at (mem_view x2) key (assets @ [acc_Asset e])"
    unfolding x2(2) x1(2)
    by (rule asset_list_set) (use assms(2,3) in \<open>auto simp: asset_list_at_def nth_append\<close>)
  then show ?thesis using run x2(3) asset_list_other by (auto simp: x2(2) x1(2))
qed

lemma Accounts_DeletedEvent_run:
  assumes "tx_IsWritable mem_ops x" "asset_list_at (mem_view x) key (assets @ [a])" "length assets < 2 ^ 62"
  shows "\<exists>x'. Accounts_DeletedEvent mem_ops key x = (Inr (), x') \<and> tx_IsWritable mem_ops x' \<and>
    asset_list_at (mem_view x') key assets"
proof -
  obtain x1 where x1: "saveAssetsCount mem_ops key False x = (Inr (of_nat (length assets)), x1)"
    "mem_view x1 = (mem_view x)(assetsCount_key key :=
       (if assets = [] then None else Some (PutUvarint (of_nat (length assets)))))"
    "tx_IsWritable mem_ops x1"
    using saveAssetsCount_run[OF assms(1,2) _ refl, of False] assms(3) by auto
  obtain x2 where x2: "tx_Delete mem_ops (assetByIndex_key key (of_nat (length assets))) x1 = (Inr (), x2)"
    "mem_view x2 = (mem_view x1)(assetByIndex_key key (of_nat (length assets)) := None)"
    "tx_IsWritable mem_ops x2"
    by (rule mem_tx.Delete_run[OF x1(3)])
  have run: "Accounts_DeletedEvent mem_ops key x = (Inr (), x2)"
    using assms(1) x1(1) x2(1) by (simp add: Accounts_DeletedEvent_def gbind_Inr)
  have "asset_list_at (mem_view x2) key assets"
    unfolding x2(2) x1(2)
    by (rule asset_list_set) (use assms(2,3) in \<open>auto simp: asset_list_at_def nth_append\<close>)
  then show ?thesis using run x2(3) by blast
qed

lemma GetAccountAssets_loop_run:
  assumes "\<forall>i \<in> set ns. mem_view x (assetByIndex_key key (of_nat i)) = Some (f i)"
  shows "fst (GetAccountAssets_loop mem_ops key ns x) = Inr (map f ns)"
  using assms
proof (induction ns arbitrary: x)
  case (Cons i ns)
  obtain x' where x': "tx_Get mem_ops (assetByIndex_key key (of_nat i)) x = (Inr (mem_view x (assetByIndex_key key (of_nat i))), x')"
    "mem_view x' = mem_view x"
    by (rule mem_tx.Get_run)
  obtain x'' where "GetAccountAssets_loop mem_ops key ns x' = (Inr (map f ns), x'')"
    using Cons.IH[of x'] Cons.prems x'(2) by (metis list.set_intros(2) prod.collapse)
  then show ?case using x'(1) Cons.prems by (simp add: gbind_Inr)
qed simp

lemma GetAccountAssets_run:
  assumes "asset_list_at (mem_view (ac_tx c)) key assets" "length assets \<le> 2 ^ 43"
  shows "fst (GetAccountAssets mem_ops key c) = Inr assets"
proof -
  have u: "unat (of_nat (length assets) :: uint64) = length assets"
    using assms(2) by (intro unat_of_nat_uint64) simp
  obtain x' where x': "stored_count mem_ops key (ac_tx c) = (Inr (of_nat (length assets)), x')"
    "mem_view x' = mem_view (ac_tx c)"
    using stored_count_run[OF assms(1)] by blast
  have "fst (GetAccountAssets_loop mem_ops key [0..<length assets] x') = Inr (map ((!) assets) [0..<length assets])"
    by (rule GetAccountAssets_loop_run) (use assms(1) x'(2) in \<open>simp add: asset_list_at_def\<close>)
  then show ?thesis
    using x'(1) u assms(2)
    by (simp add: GetAccountAssets_def GetAccountAssetsCount_def on_ac_tx_def gbind_def make_slice_def map_nth
        split: prod.split) auto
qed

text \<open>C30: The list of the assets of a public key.  Storing the first account of a key in the map of an asset
  appends the asset to the list \<^verbatim>\<open>GetAccountAssets\<close> returns for the key and leaves the lists of the
  other keys alone; deleting takes the asset at the end off the list again, whichever asset the
  deleted account had.\<close>

theorem account_assets_index:
  assumes "tx_IsWritable mem_ops x" "asset_list_at (mem_view x) key assets" "length assets < 2 ^ 43"
    and "cm_Element c = Some e"
  shows "\<exists>x1 x2. Accounts_StoredEvent mem_ops key c i x = (Inr (), x1) \<and>
    fst (GetAccountAssets mem_ops key (NewAccountsCollection x1)) = Inr (assets @ [acc_Asset e]) \<and>
    (\<forall>k as. k \<noteq> key \<longrightarrow> length k = length key \<longrightarrow> asset_list_at (mem_view x) k as \<longrightarrow> asset_list_at (mem_view x1) k as) \<and>
    Accounts_DeletedEvent mem_ops key x1 = (Inr (), x2) \<and>
    fst (GetAccountAssets mem_ops key (NewAccountsCollection x2)) = Inr assets"
proof -
  have n: "length assets < 2 ^ 62" using assms(3) by simp
  obtain x1 where x1: "Accounts_StoredEvent mem_ops key c i x = (Inr (), x1)" "tx_IsWritable mem_ops x1"
    "asset_list_at (mem_view x1) key (assets @ [acc_Asset e])"
    "\<forall>k as. k \<noteq> key \<longrightarrow> length k = length key \<longrightarrow> asset_list_at (mem_view x) k as \<longrightarrow> asset_list_at (mem_view x1) k as"
    using Accounts_StoredEvent_run[OF assms(1,2) n assms(4)] by blast
  obtain x2 where x2: "Accounts_DeletedEvent mem_ops key x1 = (Inr (), x2)" "asset_list_at (mem_view x2) key assets"
    using Accounts_DeletedEvent_run[OF x1(2,3) n] by blast
  show ?thesis
    using x1 x2 GetAccountAssets_run[of "NewAccountsCollection x1" key "assets @ [acc_Asset e]"]
      GetAccountAssets_run[of "NewAccountsCollection x2" key assets] assms(3)
    by (simp add: NewAccountsCollection_def)
qed

theorem account_assets_index_witness:
  "\<exists>x1 x2. Accounts_StoredEvent mem_ops [7] (new_committed\<lparr>cm_Element := Some (NewAccountClear [7] 0 [9] :: residue Account)\<rparr>) 0 mem_empty = (Inr (), x1) \<and>
    fst (GetAccountAssets mem_ops [7] (NewAccountsCollection x1)) = Inr [[9]] \<and>
    Accounts_DeletedEvent mem_ops [7] x1 = (Inr (), x2) \<and>
    fst (GetAccountAssets mem_ops [7] (NewAccountsCollection x2)) = Inr []"
proof -
  have a: "asset_list_at (mem_view mem_empty) [7] []" by (simp add: asset_list_at_def mem_empty_view)
  let ?c = "new_committed\<lparr>cm_Element := Some (NewAccountClear [7] 0 [9] :: residue Account)\<rparr>"
  have "cm_Element ?c = Some (NewAccountClear [7] 0 [9])" by simp
  from account_assets_index[OF mem_empty_writable a _ this, of 0] show ?thesis
    by (auto simp: NewAccountClear_def)
qed

end
