(* ===== verification/Data_Storage.thy ===== *)
theory Data_Storage
  imports Fee_Liquidity Accounts
begin

text \<open>
  The ledger state of \<^verbatim>\<open>blockchain/data_storage\<close>: the maps and collections a block works on, which all share
  one database transaction, and the operations on them.  A pointer returned by \<^verbatim>\<open>Get\<close> is the one held
  in the \<^verbatim>\<open>Changes\<close> of its map; a write through it is \<open>set_element\<close> on the map.
\<close>

section \<open>The conditional payments of all heights\<close>

text \<open>\<^verbatim>\<open>string(n)\<close> for an integer \<^verbatim>\<open>n\<close> is the UTF-8 encoding of the character \<^verbatim>\<open>n\<close>, and of U+FFFD when there is
  none.\<close>

definition rune_valid :: "nat \<Rightarrow> bool" where
  "rune_valid n \<longleftrightarrow> n < 0xD800 \<or> (0xE000 \<le> n \<and> n < 0x110000)"

definition utf8 :: "nat \<Rightarrow> bytes" where
  "utf8 n =
     (if n < 0x80 then [of_nat n]
      else if n < 0x800 then [of_nat (0xC0 + n div 64), of_nat (0x80 + n mod 64)]
      else if n < 0x10000 then [of_nat (0xE0 + n div 4096), of_nat (0x80 + n div 64 mod 64), of_nat (0x80 + n mod 64)]
      else [of_nat (0xF0 + n div 262144), of_nat (0x80 + n div 4096 mod 64), of_nat (0x80 + n div 64 mod 64), of_nat (0x80 + n mod 64)])"

definition rune_string :: "uint64 \<Rightarrow> bytes" where
  "rune_string v = utf8 (if rune_valid (unat v) then unat v else 0xFFFD)"

record 'x ConditionalPaymentsCollection =
  cc_tx :: 'x
  cc_maps :: "(bytes \<times> (uint64 \<times> (ConditionalPayment, 'x) HashMap)) list"
  cc_list :: "bytes list"

definition NewConditionalPaymentsCollection :: "'x \<Rightarrow> 'x ConditionalPaymentsCollection" where
  "NewConditionalPaymentsCollection tx = \<lparr>cc_tx = tx, cc_maps = [], cc_list = []\<rparr>"

definition ConditionalPayments_GetMap :: "'x StoreTx \<Rightarrow> uint64 \<Rightarrow> ('x ConditionalPaymentsCollection, unit) go" where
  "ConditionalPayments_GetMap X blockHeight =
     gbind (gget (\<lambda>c. map_of (cc_maps c) (rune_string blockHeight))) (\<lambda>it.
     case it of
       Some _ \<Rightarrow> gret ()
     | None \<Rightarrow>
         (\<lambda>c. case NewConditionalPaymentsHashMap X blockHeight (cc_tx c) of
            (Inl e, x) \<Rightarrow> (Inl e, c\<lparr>cc_tx := x\<rparr>)
          | (Inr h, x) \<Rightarrow>
              (Inr (), c\<lparr>cc_tx := x, cc_list := cc_list c @ [rune_string blockHeight],
                        cc_maps := AList.update (rune_string blockHeight) (blockHeight, h) (cc_maps c)\<rparr>)))"

text \<open>A method call on the map found under a key of \<^verbatim>\<open>maps\<close>, and on the map of a height.\<close>

definition on_cpay_key :: "bytes \<Rightarrow> (ConditionalPayment, 'x, 'a) hm_go \<Rightarrow> ('x ConditionalPaymentsCollection, 'a) go" where
  "on_cpay_key key m = (\<lambda>c.
     case map_of (cc_maps c) key of
       None \<Rightarrow> (Inl (Panic ''invalid memory address or nil pointer dereference''), c)
     | Some (height, h) \<Rightarrow>
         (case m (h, cc_tx c) of
            (r, (h', x)) \<Rightarrow> (r, c\<lparr>cc_tx := x, cc_maps := AList.update key (height, h') (cc_maps c)\<rparr>)))"

definition on_cpay :: "uint64 \<Rightarrow> (ConditionalPayment, 'x, 'a) hm_go \<Rightarrow> ('x ConditionalPaymentsCollection, 'a) go" where
  "on_cpay blockHeight m = on_cpay_key (rune_string blockHeight) m"

section \<open>The ledger state\<close>

record ('p, 'x) DataStorage =
  ds_DBTx :: 'x
  ds_Regs :: "(Registration, 'x) HashMap"
  ds_PlainAccs :: "(PlainAccount, 'x) HashMap"
  ds_AccsCollection :: "('p, 'x) AccountsCollection"
  ds_PendingStakes :: "(PendingStakes, 'x) HashMap"
  ds_ConditionalPayments :: "'x ConditionalPaymentsCollection"
  ds_Asts :: "(Asset, 'x) HashMap"
  ds_AstsFeeLiquidity :: "'x AssetsFeeLiquidityCollection"

type_synonym ('p, 'x, 'a) ds_go = "(('p, 'x) DataStorage, 'a) go"

text \<open>A call on one of the parts; each works on the shared transaction.\<close>

definition on_regs :: "(Registration, 'x, 'a) hm_go \<Rightarrow> ('p, 'x, 'a) ds_go" where
  "on_regs m = (\<lambda>s. case m (ds_Regs s, ds_DBTx s) of (r, (h, x)) \<Rightarrow> (r, s\<lparr>ds_Regs := h, ds_DBTx := x\<rparr>))"

definition on_plain :: "(PlainAccount, 'x, 'a) hm_go \<Rightarrow> ('p, 'x, 'a) ds_go" where
  "on_plain m = (\<lambda>s. case m (ds_PlainAccs s, ds_DBTx s) of (r, (h, x)) \<Rightarrow> (r, s\<lparr>ds_PlainAccs := h, ds_DBTx := x\<rparr>))"

definition on_pending :: "(PendingStakes, 'x, 'a) hm_go \<Rightarrow> ('p, 'x, 'a) ds_go" where
  "on_pending m = (\<lambda>s. case m (ds_PendingStakes s, ds_DBTx s) of (r, (h, x)) \<Rightarrow> (r, s\<lparr>ds_PendingStakes := h, ds_DBTx := x\<rparr>))"

definition on_asts :: "(Asset, 'x, 'a) hm_go \<Rightarrow> ('p, 'x, 'a) ds_go" where
  "on_asts m = (\<lambda>s. case m (ds_Asts s, ds_DBTx s) of (r, (h, x)) \<Rightarrow> (r, s\<lparr>ds_Asts := h, ds_DBTx := x\<rparr>))"

definition on_accounts :: "(('p, 'x) AccountsCollection, 'a) go \<Rightarrow> ('p, 'x, 'a) ds_go" where
  "on_accounts m = (\<lambda>s. case m ((ds_AccsCollection s)\<lparr>ac_tx := ds_DBTx s\<rparr>) of
     (r, c) \<Rightarrow> (r, s\<lparr>ds_AccsCollection := c, ds_DBTx := ac_tx c\<rparr>))"

definition on_conditional :: "('x ConditionalPaymentsCollection, 'a) go \<Rightarrow> ('p, 'x, 'a) ds_go" where
  "on_conditional m = (\<lambda>s. case m ((ds_ConditionalPayments s)\<lparr>cc_tx := ds_DBTx s\<rparr>) of
     (r, c) \<Rightarrow> (r, s\<lparr>ds_ConditionalPayments := c, ds_DBTx := cc_tx c\<rparr>))"

definition on_liquidity :: "('x AssetsFeeLiquidityCollection, 'a) go \<Rightarrow> ('p, 'x, 'a) ds_go" where
  "on_liquidity m = (\<lambda>s. case m ((ds_AstsFeeLiquidity s)\<lparr>lc_tx := ds_DBTx s\<rparr>) of
     (r, c) \<Rightarrow> (r, s\<lparr>ds_AstsFeeLiquidity := c, ds_DBTx := lc_tx c\<rparr>))"

definition on_db :: "('x, 'a) go \<Rightarrow> ('p, 'x, 'a) ds_go" where
  "on_db m = (\<lambda>s. case m (ds_DBTx s) of (r, x) \<Rightarrow> (r, s\<lparr>ds_DBTx := x\<rparr>))"

definition on_accs_of :: "bytes \<Rightarrow> ('p Account, 'x, 'a) hm_go \<Rightarrow> ('p, 'x, 'a) ds_go" where
  "on_accs_of asset m = on_accounts (on_accs asset m)"

definition accs_GetMap :: "'p G1Ops \<Rightarrow> 'x StoreTx \<Rightarrow> bytes \<Rightarrow> ('p, 'x, unit) ds_go" where
  "accs_GetMap P X asset = on_accounts (Accounts_GetMap P X asset)"

section \<open>Accounts and registrations\<close>

definition require_registered :: "'x StoreTx \<Rightarrow> bytes \<Rightarrow> bool \<Rightarrow> ('p, 'x, unit) ds_go" where
  "require_registered X publicKey validateRegistration =
     (if validateRegistration then
        gbind (on_regs (Exists X publicKey)) (\<lambda>exists.
        gcheck (\<not> exists) ''Can't create Account as it is not Registered'')
      else gret ())"

text \<open>The map and the account are returned; the model returns the account, whose map is that of the asset.\<close>

definition GetOrCreateAccount :: "'p G1Ops \<Rightarrow> 'x StoreTx \<Rightarrow> bytes \<Rightarrow> bytes \<Rightarrow> bool \<Rightarrow> ('p, 'x, 'p Account) ds_go" where
  "GetOrCreateAccount P X assetId publicKey validateRegistration =
     gbind (require_registered X publicKey validateRegistration) (\<lambda>_.
     gbind (accs_GetMap P X assetId) (\<lambda>_.
     gbind (on_accs_of assetId (Get (Account_ops P) X publicKey)) (\<lambda>acc.
     case acc of
       Some a \<Rightarrow> gret a
     | None \<Rightarrow> on_accs_of assetId (CreateNewAccount P X assetId publicKey))))"

definition CreateAccount :: "'p G1Ops \<Rightarrow> 'x StoreTx \<Rightarrow> bytes \<Rightarrow> bytes \<Rightarrow> bool \<Rightarrow> ('p, 'x, 'p Account) ds_go" where
  "CreateAccount P X assetId publicKey validateRegistration =
     gbind (require_registered X publicKey validateRegistration) (\<lambda>_.
     gbind (accs_GetMap P X assetId) (\<lambda>_.
     gbind (on_accs_of assetId (Exists X publicKey)) (\<lambda>exists.
     gbind (gcheck exists ''Account already exists'') (\<lambda>_.
     on_accs_of assetId (CreateNewAccount P X assetId publicKey)))))"

definition CreatePlainAccount :: "'x StoreTx \<Rightarrow> bytes \<Rightarrow> bool \<Rightarrow> ('p, 'x, PlainAccount) ds_go" where
  "CreatePlainAccount X publicKey validateRegistration =
     gbind (if validateRegistration then
              gbind (on_regs (Exists X publicKey)) (\<lambda>exists.
              gcheck exists ''PlainAccount should not have been registered before'')
            else gret ()) (\<lambda>_.
     on_plain (CreateNewPlainAccount X publicKey))"

definition GetOrCreatePlainAccount :: "'x StoreTx \<Rightarrow> bytes \<Rightarrow> bool \<Rightarrow> ('p, 'x, PlainAccount) ds_go" where
  "GetOrCreatePlainAccount X publicKey validateRegistration =
     gbind (on_plain (Get PlainAccount_ops X publicKey)) (\<lambda>plainAcc.
     case plainAcc of
       Some p \<Rightarrow> gret p
     | None \<Rightarrow> CreatePlainAccount X publicKey validateRegistration)"

definition CreateRegistration :: "'x StoreTx \<Rightarrow> bytes \<Rightarrow> bool \<Rightarrow> bytes \<Rightarrow> ('p, 'x, Registration) ds_go" where
  "CreateRegistration X publicKey staked spendPublicKey =
     gbind (on_plain (Exists X publicKey)) (\<lambda>exists.
     gbind (gcheck exists ''Can't register as a plain Account already exists'') (\<lambda>_.
     on_regs (CreateNewRegistration X publicKey staked spendPublicKey)))"

section \<open>Pending stakes\<close>

text \<open>The entry obtained from the map (or just created there) is written through before \<^verbatim>\<open>Update\<close>.\<close>

definition AddPendingStake :: "'p G1Ops \<Rightarrow> 'x StoreTx \<Rightarrow> bytes \<Rightarrow> 'p ElGamal \<Rightarrow> uint64 \<Rightarrow> ('p, 'x, unit) ds_go" where
  "AddPendingStake P X publicKey amount blockHeight =
     gbind (on_regs (Get Registration_ops X publicKey)) (\<lambda>reg.
     case reg of
       None \<Rightarrow> gerr ''Account was not registered''
     | Some reg \<Rightarrow>
         gbind (gcheck (\<not> reg_Staked reg) ''reg.Staked is false'') (\<lambda>_.
         gbind (on_pending (GetPendingStakes X blockHeight)) (\<lambda>found.
         gbind (case found of Some p \<Rightarrow> gret p | None \<Rightarrow> on_pending (CreateNewPendingStakes X blockHeight)) (\<lambda>pendingStakes.
         gbind (glift (ElGamal_Serialize P amount)) (\<lambda>bs.
         (let pendingStakes' = pendingStakes\<lparr>pst_Pending := pst_Pending pendingStakes @
                [\<lparr>ps_PublicKey = publicKey, ps_PendingAmount = bs\<rparr>]\<rparr> in
          gbind (on_pending (set_element (FormatUint blockHeight) pendingStakes')) (\<lambda>_.
          gbind (on_pending (Update PendingStakes_ops X (FormatUint blockHeight) (Some pendingStakes'))) (\<lambda>_.
          gret ()))))))))"

text \<open>\<^verbatim>\<open>acc.Balance.AddEchanges(amount)\<close> followed by \<^verbatim>\<open>accs.Update\<close>.\<close>

definition credit_account :: "'p G1Ops \<Rightarrow> 'x StoreTx \<Rightarrow> bytes \<Rightarrow> 'p Account \<Rightarrow> 'p ElGamal \<Rightarrow> ('p Account, 'x, unit) hm_go" where
  "credit_account P X key acc amount =
     gbind (glift (AddEchanges P amount (acc_Balance acc))) (\<lambda>balance.
     gbind (set_element key (acc\<lparr>acc_Balance := balance\<rparr>)) (\<lambda>_.
     gbind (Update (Account_ops P) X key (Some (acc\<lparr>acc_Balance := balance\<rparr>))) (\<lambda>_. gret ())))"

definition process_stake :: "'p G1Ops \<Rightarrow> 'x StoreTx \<Rightarrow> PendingStake \<Rightarrow> ('p Account, 'x, unit) hm_go" where
  "process_stake P X pending =
     gbind (Get (Account_ops P) X (ps_PublicKey pending)) (\<lambda>acc.
     case acc of
       None \<Rightarrow> gerr ''Account doesn't exist''
     | Some acc \<Rightarrow>
         gbind (glift (ElGamal_Deserialize P (ps_PendingAmount pending))) (\<lambda>pendingAmount.
         credit_account P X (ps_PublicKey pending) acc pendingAmount))"

definition ProcessPendingStakes :: "'p G1Ops \<Rightarrow> 'x StoreTx \<Rightarrow> uint64 \<Rightarrow> ('p, 'x, unit) ds_go" where
  "ProcessPendingStakes P X blockHeight =
     gbind (accs_GetMap P X NATIVE_ASSET_FULL) (\<lambda>_.
     gbind (on_pending (GetPendingStakes X blockHeight)) (\<lambda>found.
     case found of
       None \<Rightarrow> gret ()
     | Some pendingStakes \<Rightarrow>
         gbind (on_accs_of NATIVE_ASSET_FULL (gfor (pst_Pending pendingStakes) (process_stake P X))) (\<lambda>_.
         on_pending (Delete PendingStakes_ops X (FormatUint blockHeight)))))"

section \<open>Conditional payments\<close>

definition conditional_key :: "bytes \<Rightarrow> byte \<Rightarrow> bytes" where
  "conditional_key txId payloadIndex = txId @ lit ''_'' @ FormatUint (ucast payloadIndex)"

text \<open>The four lists, each of half the length of \<^verbatim>\<open>publicKeyList\<close>, filled by position: with \<^verbatim>\<open>parity\<close> the senders
  are at the even positions.  An odd number of keys runs out of the lists.\<close>

fun assign_rings ::
  "'p G1Ops \<Rightarrow> bool \<Rightarrow> bytes list \<Rightarrow> 'p ElGamal list \<Rightarrow> nat list \<Rightarrow> ConditionalPayment \<Rightarrow> ConditionalPayment result" where
  "assign_rings P parity keys echanges [] p = Inr p"
| "assign_rings P parity keys echanges (i # js) p =
     (if i div 2 \<ge> length keys div 2 then Inl (Panic ''index out of range'')
      else
        rbind (rnth keys i) (\<lambda>key. rbind (rnth echanges i) (\<lambda>e. rbind (ElGamal_Serialize P e) (\<lambda>bs.
        assign_rings P parity keys echanges js
          (if even i = parity
           then p\<lparr>cp_SenderPublicKeys := (cp_SenderPublicKeys p)[i div 2 := key],
                  cp_SenderAmounts := (cp_SenderAmounts p)[i div 2 := bs]\<rparr>
           else p\<lparr>cp_ReceiverPublicKeys := (cp_ReceiverPublicKeys p)[i div 2 := key],
                  cp_ReceiverAmounts := (cp_ReceiverAmounts p)[i div 2 := bs]\<rparr>)))))"

definition check_unstaked :: "'x StoreTx \<Rightarrow> bytes \<Rightarrow> ('p, 'x, unit) ds_go" where
  "check_unstaked X publicKey =
     gbind (on_regs (Get Registration_ops X publicKey)) (\<lambda>reg.
     case reg of
       None \<Rightarrow> gerr ''Account was not registered''
     | Some reg \<Rightarrow> gcheck (reg_Staked reg) ''reg.Staked should not be true'')"

definition AddConditionalPayment ::
  "'p G1Ops \<Rightarrow> 'x StoreTx \<Rightarrow> uint64 \<Rightarrow> bytes \<Rightarrow> byte \<Rightarrow> bytes \<Rightarrow> bool \<Rightarrow> bool \<Rightarrow> bytes list \<Rightarrow> 'p ElGamal list \<Rightarrow>
   byte \<Rightarrow> bytes list \<Rightarrow> ('p, 'x, unit) ds_go" where
  "AddConditionalPayment P X blockHeight txId payloadIndex asset defaultResolution parity publicKeyList echangesAll
     multisigThreshold multisigPublicKeys =
     gbind (gfor publicKeyList (check_unstaked X)) (\<lambda>_.
     gbind (on_conditional (ConditionalPayments_GetMap X blockHeight)) (\<lambda>_.
     (let key = conditional_key txId payloadIndex; half = replicate (length publicKeyList div 2) [] in
      gbind (on_conditional (on_cpay blockHeight (Get ConditionalPayment_ops X key))) (\<lambda>found.
      gbind (gcheck (found \<noteq> None) ''Conditional Payment Already exists'') (\<lambda>_.
      gbind (glift (assign_rings P parity publicKeyList echangesAll [0..<length publicKeyList]
               ((NewConditionalPayment key 0 blockHeight)
                  \<lparr>cp_TxId := txId, cp_Asset := asset, cp_DefaultResolution := defaultResolution,
                   cp_PayloadIndex := payloadIndex, cp_ReceiverPublicKeys := half, cp_ReceiverAmounts := half,
                   cp_SenderPublicKeys := half, cp_SenderAmounts := half\<rparr>))) (\<lambda>condPayment.
      gbind (on_conditional (on_cpay blockHeight (Update ConditionalPayment_ops X key
               (Some (condPayment\<lparr>cp_MultisigThreshold := multisigThreshold,
                                  cp_MultisigPublicKeys := multisigPublicKeys\<rparr>))))) (\<lambda>_. gret ())))))))"

text \<open>One turn of the loop: the receiver is credited when the payment is resolved in its favour, the sender with
  the negated amount otherwise.\<close>

definition resolve_one :: "'p G1Ops \<Rightarrow> 'x StoreTx \<Rightarrow> bool \<Rightarrow> ConditionalPayment \<Rightarrow> nat \<Rightarrow> ('p Account, 'x, unit) hm_go" where
  "resolve_one P X resolution condPayment i =
     gbind (glift (rnth (if resolution then cp_ReceiverPublicKeys condPayment else cp_SenderPublicKeys condPayment) i)) (\<lambda>key.
     gbind (glift (rnth (if resolution then cp_ReceiverAmounts condPayment else cp_SenderAmounts condPayment) i)) (\<lambda>amount.
     gbind (Get (Account_ops P) X key) (\<lambda>found.
     gbind (case found of Some a \<Rightarrow> gret a | None \<Rightarrow> CreateNewAccount P X (cp_Asset condPayment) key) (\<lambda>acc.
     gbind (glift (ElGamal_Deserialize P amount)) (\<lambda>e.
     gbind (glift (if resolution then Inr e else ElGamal_Neg P e)) (\<lambda>pendingAmount.
     credit_account P X key acc pendingAmount))))))"

text \<open>\<^verbatim>\<open>condPayment.Processed = true\<close> writes through the pointer; the map of its height, when it is open, holds the
  same pointer.\<close>

definition mark_processed :: "ConditionalPayment \<Rightarrow> ('p, 'x, unit) ds_go" where
  "mark_processed condPayment =
     gbind (gget (\<lambda>s. map_of (cc_maps (ds_ConditionalPayments s)) (rune_string (cp_BlockHeight condPayment)))) (\<lambda>map.
     case map of
       None \<Rightarrow> gret ()
     | Some _ \<Rightarrow>
         on_conditional (on_cpay (cp_BlockHeight condPayment)
           (set_element (cp_Key condPayment) (condPayment\<lparr>cp_Processed := True\<rparr>))))"

definition ProceedConditionalPayment :: "'p G1Ops \<Rightarrow> 'x StoreTx \<Rightarrow> bool \<Rightarrow> ConditionalPayment \<Rightarrow> ('p, 'x, unit) ds_go" where
  "ProceedConditionalPayment P X resolution condPayment =
     gbind (gcheck (cp_Processed condPayment) ''pending Future already processed'') (\<lambda>_.
     gbind (mark_processed condPayment) (\<lambda>_.
     gbind (accs_GetMap P X (cp_Asset condPayment)) (\<lambda>_.
     on_accs_of (cp_Asset condPayment)
       (gfor [0..<length (cp_ReceiverPublicKeys condPayment)] (resolve_one P X resolution condPayment)))))"

text \<open>The loop over the indexes returns the keys to delete.  \<^verbatim>\<open>Count\<close> of the map does not change in the loop.\<close>

fun process_conditional_loop :: "'p G1Ops \<Rightarrow> 'x StoreTx \<Rightarrow> uint64 \<Rightarrow> nat list \<Rightarrow> ('p, 'x, bytes list) ds_go" where
  "process_conditional_loop P X blockHeight [] = gret []"
| "process_conditional_loop P X blockHeight (i # js) =
     gbind (on_conditional (on_cpay blockHeight (GetByIndex ConditionalPayment_ops X (of_nat i)))) (\<lambda>found.
     deref found (\<lambda>condPayment.
     gbind (if cp_Processed condPayment then gret ()
            else ProceedConditionalPayment P X (cp_DefaultResolution condPayment) condPayment) (\<lambda>_.
     gbind (process_conditional_loop P X blockHeight js) (\<lambda>keys.
     gret (conditional_key (cp_TxId condPayment) (cp_PayloadIndex condPayment) # keys)))))"

definition ProcessConditionalPayments :: "'p G1Ops \<Rightarrow> 'x StoreTx \<Rightarrow> uint64 \<Rightarrow> ('p, 'x, unit) ds_go" where
  "ProcessConditionalPayments P X blockHeight =
     gbind (on_conditional (ConditionalPayments_GetMap X blockHeight)) (\<lambda>_.
     gbind (on_conditional (on_cpay blockHeight (get_hm hm_Count))) (\<lambda>count.
     gbind (make_slice 16 count) (\<lambda>_.
     gbind (process_conditional_loop P X blockHeight [0..<unat count]) (\<lambda>deleteKeys.
     gfor deleteKeys (\<lambda>key. on_conditional (on_cpay blockHeight (Delete ConditionalPayment_ops X key)))))))"

section \<open>Fees\<close>

text \<open>\<^verbatim>\<open>plainAcc\<close> is changed in place, through the pointer the map of the plain accounts holds: the change is there
  even when a later step fails.  The model returns the account as well, for the caller that stores it with \<^verbatim>\<open>Update\<close>.\<close>

definition write_plain :: "PlainAccount \<Rightarrow> ('p, 'x, PlainAccount) ds_go" where
  "write_plain plainAcc = gbind (on_plain (write_held (pa_Key plainAcc) plainAcc)) (\<lambda>_. gret plainAcc)"

definition SubtractUnclaimed :: "'x StoreTx \<Rightarrow> PlainAccount \<Rightarrow> uint64 \<Rightarrow> uint64 \<Rightarrow> ('p, 'x, PlainAccount) ds_go" where
  "SubtractUnclaimed X plainAcc amount blockHeight =
     (case AddUnclaimed False amount plainAcc of
        (Inl e, _) \<Rightarrow> glift (Inl e)
      | (Inr _, p) \<Rightarrow>
          gbind (write_plain p) (\<lambda>_.
          if \<not> HasAssetFeeLiquidities (pa_AssetFeeLiquidities p) then gret p
          else
            gbind (glift (GetRequiredAssetFee blockHeight)) (\<lambda>required.
            if pa_Unclaimed p < required then
              gbind (gfor (afl_List (pa_AssetFeeLiquidities p)) (\<lambda>al.
                 on_liquidity (Collection_UpdateLiquidity X (pa_Key p) 0 0 (al_Asset al) UPDATE_LIQUIDITY_DELETED))) (\<lambda>_.
              write_plain (p\<lparr>pa_AssetFeeLiquidities := AssetFeeLiquidities_Clear (pa_AssetFeeLiquidities p)\<rparr>))
            else gret p)))"

definition GetWhoHasAssetTopLiquidity :: "'x StoreTx \<Rightarrow> bytes \<Rightarrow> ('p, 'x, PlainAccount option) ds_go" where
  "GetWhoHasAssetTopLiquidity X assetId =
     gbind (on_liquidity (GetTopLiquidity X assetId)) (\<lambda>key.
     case key of None \<Rightarrow> gret None | Some k \<Rightarrow> on_plain (Get PlainAccount_ops X k))"

definition GetAssetFeeLiquidityTop :: "'x StoreTx \<Rightarrow> bytes \<Rightarrow> ('p, 'x, AssetFeeLiquidity option) ds_go" where
  "GetAssetFeeLiquidityTop X assetId =
     gbind (GetWhoHasAssetTopLiquidity X assetId) (\<lambda>plainAcc.
     gret (case plainAcc of None \<Rightarrow> None | Some p \<Rightarrow> GetLiquidity assetId (pa_AssetFeeLiquidities p)))"

section \<open>Opening the ledger\<close>

text \<open>The constructors run in the order of the fields.\<close>

definition NewDataStorage :: "'x StoreTx \<Rightarrow> ('x, ('p, 'x) DataStorage) go" where
  "NewDataStorage X =
     gbind (NewRegistrations X) (\<lambda>regs.
     gbind (NewPlainAccounts X) (\<lambda>plainAccs.
     gbind (NewPendingStakesList X) (\<lambda>pending.
     gbind (NewAssets X) (\<lambda>asts.
     gbind (gget id) (\<lambda>tx.
     gret \<lparr>ds_DBTx = tx, ds_Regs = regs, ds_PlainAccs = plainAccs, ds_AccsCollection = NewAccountsCollection tx,
           ds_PendingStakes = pending, ds_ConditionalPayments = NewConditionalPaymentsCollection tx,
           ds_Asts = asts, ds_AstsFeeLiquidity = NewAssetsFeeLiquidityCollection tx\<rparr>)))))"

end
