(* ===== verification/Data_Storage_Blocks.thy ===== *)
theory Data_Storage_Blocks
  imports Data_Storage
begin

text \<open>
  The operations of \<^verbatim>\<open>data_storage_extra.go\<close> over all maps of the ledger: the size of the changes, rollback,
  commit, and the transitional changes that undo a block.  The loops over the list of maps call
  the same method of maps of eight element types; the model takes the method once per type.  Where
  the code ranges over a Go map the order of the visit is an argument.
\<close>

section \<open>The list of maps\<close>

fun gcollect :: "'a list \<Rightarrow> ('a \<Rightarrow> ('s, 'b) go) \<Rightarrow> ('s, 'b list) go" where
  "gcollect [] f = gret []"
| "gcollect (x # xs) f = gbind (f x) (\<lambda>y. gbind (gcollect xs f) (\<lambda>ys. gret (y # ys)))"

record ('p, 'x, 'b) map_methods =
  mm_Regs :: "(Registration, 'x, 'b) hm_go"
  mm_PlainAccs :: "(PlainAccount, 'x, 'b) hm_go"
  mm_PendingStakes :: "(PendingStakes, 'x, 'b) hm_go"
  mm_Asts :: "(Asset, 'x, 'b) hm_go"
  mm_Accs :: "('p Account, 'x, 'b) hm_go"
  mm_Heap :: "(HeapElement, 'x, 'b) hm_go"
  mm_Dict :: "(HeapDictElement, 'x, 'b) hm_go"
  mm_Conditional :: "(ConditionalPayment, 'x, 'b) hm_go"

definition GetListWithoutCollections :: "('p, 'x, 'b) map_methods \<Rightarrow> ('p, 'x, 'b list) ds_go" where
  "GetListWithoutCollections M =
     gbind (on_regs (mm_Regs M)) (\<lambda>a.
     gbind (on_plain (mm_PlainAccs M)) (\<lambda>b.
     gbind (on_pending (mm_PendingStakes M)) (\<lambda>c.
     gbind (on_asts (mm_Asts M)) (\<lambda>d. gret [a, b, c, d]))))"

definition on_heap_maps :: "bytes \<Rightarrow> (HeapElement, 'x, 'b) hm_go \<Rightarrow> (HeapDictElement, 'x, 'b) hm_go \<Rightarrow> ('p, 'x, 'b list) ds_go" where
  "on_heap_maps asset f g =
     on_liquidity (on_heap asset (gbind (on_HashMap f) (\<lambda>a. gbind (on_DictMap g) (\<lambda>b. gret [a, b]))))"

definition GetList :: "('p, 'x, 'b) map_methods \<Rightarrow> bool \<Rightarrow> ('p, 'x, 'b list) ds_go" where
  "GetList M computeChangesSize =
     gbind (GetListWithoutCollections M) (\<lambda>base.
     gbind (gget (\<lambda>s. ac_list (ds_AccsCollection s))) (\<lambda>assets.
     gbind (gcollect assets (\<lambda>asset. on_accs_of asset (mm_Accs M))) (\<lambda>accs.
     if computeChangesSize then gret (base @ accs)
     else
       gbind (gget (\<lambda>s. lc_listMaps (ds_AstsFeeLiquidity s))) (\<lambda>heaps.
       gbind (gcollect heaps (\<lambda>asset. on_heap_maps asset (mm_Heap M) (mm_Dict M))) (\<lambda>liq.
       gbind (gget (\<lambda>s. cc_list (ds_ConditionalPayments s))) (\<lambda>keys.
       gbind (gcollect keys (\<lambda>key. on_conditional (on_cpay_key key (mm_Conditional M)))) (\<lambda>cond.
       gret (base @ accs @ concat liq @ cond))))))))"

text \<open>\<open>ord n\<close> is an order in which the changes of the map named \<open>n\<close> are visited.\<close>

definition by_name :: "(bytes \<Rightarrow> ('t, 'x, 'b) hm_go) \<Rightarrow> ('t, 'x, 'b) hm_go" where
  "by_name f = gbind (get_hm hm_name) f"

definition ComputeChangesSize_methods :: "'p G1Ops \<Rightarrow> 'x StoreTx \<Rightarrow> (bytes \<Rightarrow> bytes list) \<Rightarrow> ('p, 'x, uint64) map_methods" where
  "ComputeChangesSize_methods P X ord =
     \<lparr>mm_Regs = by_name (\<lambda>n. ComputeChangesSize Registration_ops X (ord n)),
      mm_PlainAccs = by_name (\<lambda>n. ComputeChangesSize PlainAccount_ops X (ord n)),
      mm_PendingStakes = by_name (\<lambda>n. ComputeChangesSize PendingStakes_ops X (ord n)),
      mm_Asts = by_name (\<lambda>n. ComputeChangesSize Asset_ops X (ord n)),
      mm_Accs = by_name (\<lambda>n. ComputeChangesSize (Account_ops P) X (ord n)),
      mm_Heap = by_name (\<lambda>n. ComputeChangesSize HeapElement_ops X (ord n)),
      mm_Dict = by_name (\<lambda>n. ComputeChangesSize HeapDictElement_ops X (ord n)),
      mm_Conditional = by_name (\<lambda>n. ComputeChangesSize ConditionalPayment_ops X (ord n))\<rparr>"

definition DataStorage_ComputeChangesSize :: "'p G1Ops \<Rightarrow> 'x StoreTx \<Rightarrow> (bytes \<Rightarrow> bytes list) \<Rightarrow> ('p, 'x, uint64) ds_go" where
  "DataStorage_ComputeChangesSize P X ord =
     gbind (GetList (ComputeChangesSize_methods P X ord) True) (\<lambda>sizes. gret (sum_list sizes))"

definition DataStorage_ResetChangesSize :: "('p, 'x, unit) ds_go" where
  "DataStorage_ResetChangesSize =
     gbind (GetList \<lparr>mm_Regs = ResetChangesSize, mm_PlainAccs = ResetChangesSize, mm_PendingStakes = ResetChangesSize,
       mm_Asts = ResetChangesSize, mm_Accs = ResetChangesSize, mm_Heap = ResetChangesSize, mm_Dict = ResetChangesSize,
       mm_Conditional = ResetChangesSize\<rparr> False) (\<lambda>_. gret ())"

definition DataStorage_Rollback :: "('p, 'x, unit) ds_go" where
  "DataStorage_Rollback =
     gbind (GetList \<lparr>mm_Regs = Rollback, mm_PlainAccs = Rollback, mm_PendingStakes = Rollback,
       mm_Asts = Rollback, mm_Accs = Rollback, mm_Heap = Rollback, mm_Dict = Rollback,
       mm_Conditional = Rollback\<rparr> False) (\<lambda>_. gret ())"

definition CommitChanges_methods ::
  "'p G1Ops \<Rightarrow> 'x StoreTx \<Rightarrow> (bytes \<Rightarrow> bytes list) \<Rightarrow> (bytes \<Rightarrow> bytes list) \<Rightarrow> (bytes \<Rightarrow> bytes list) \<Rightarrow> ('p, 'x, unit) map_methods" where
  "CommitChanges_methods P X ord0 ord1 ord2 =
     \<lparr>mm_Regs = by_name (\<lambda>n. CommitChanges Registration_ops X (ord0 n) (ord1 n) (ord2 n)),
      mm_PlainAccs = by_name (\<lambda>n. CommitChanges PlainAccount_ops X (ord0 n) (ord1 n) (ord2 n)),
      mm_PendingStakes = by_name (\<lambda>n. CommitChanges PendingStakes_ops X (ord0 n) (ord1 n) (ord2 n)),
      mm_Asts = by_name (\<lambda>n. CommitChanges Asset_ops X (ord0 n) (ord1 n) (ord2 n)),
      mm_Accs = by_name (\<lambda>n. CommitChanges (Account_ops P) X (ord0 n) (ord1 n) (ord2 n)),
      mm_Heap = by_name (\<lambda>n. CommitChanges HeapElement_ops X (ord0 n) (ord1 n) (ord2 n)),
      mm_Dict = by_name (\<lambda>n. CommitChanges HeapDictElement_ops X (ord0 n) (ord1 n) (ord2 n)),
      mm_Conditional = by_name (\<lambda>n. CommitChanges ConditionalPayment_ops X (ord0 n) (ord1 n) (ord2 n))\<rparr>"

definition DataStorage_CommitChanges ::
  "'p G1Ops \<Rightarrow> 'x StoreTx \<Rightarrow> (bytes \<Rightarrow> bytes list) \<Rightarrow> (bytes \<Rightarrow> bytes list) \<Rightarrow> (bytes \<Rightarrow> bytes list) \<Rightarrow> ('p, 'x, unit) ds_go" where
  "DataStorage_CommitChanges P X ord0 ord1 ord2 =
     gbind (GetList (CommitChanges_methods P X ord0 ord1 ord2) False) (\<lambda>_. gret ())"

text \<open>All parts point to the new transaction: the model keeps it once.\<close>

definition DataStorage_SetTx :: "'x \<Rightarrow> ('p, 'x, unit) ds_go" where
  "DataStorage_SetTx dbTx = gmod (\<lambda>s. s\<lparr>ds_DBTx := dbTx,
     ds_AccsCollection := (ds_AccsCollection s)\<lparr>ac_tx := dbTx\<rparr>,
     ds_AstsFeeLiquidity := (ds_AstsFeeLiquidity s)\<lparr>lc_tx := dbTx\<rparr>,
     ds_ConditionalPayments := (ds_ConditionalPayments s)\<lparr>cc_tx := dbTx\<rparr>\<rparr>)"

section \<open>Transitional changes\<close>

record dataStorageTransitionCollectionsKeys =
  tk_Accounts :: "bytes list"
  tk_AssetsFeeLiquidities :: "bytes list"
  tk_ConditionalPayments :: "uint64 list"

text \<open>msgpack for the changes of a map and for the keys of the collections.\<close>

record msgpack =
  mp_Marshal :: "transactionChange list \<Rightarrow> bytes result"
  mp_Unmarshal :: "bytes \<Rightarrow> transactionChange list result"
  mp_MarshalKeys :: "dataStorageTransitionCollectionsKeys \<Rightarrow> bytes result"
  mp_UnmarshalKeys :: "bytes \<Rightarrow> dataStorageTransitionCollectionsKeys result"

definition transitionsCollectionsKeys :: "bytes \<Rightarrow> bytes" where
  "transitionsCollectionsKeys prefix = lit ''dataStorage:transitionsCollectionsKeys:'' @ prefix"

definition WriteTransitional_methods ::
  "'p G1Ops \<Rightarrow> 'x StoreTx \<Rightarrow> msgpack \<Rightarrow> (bytes \<Rightarrow> bytes list) \<Rightarrow> bytes \<Rightarrow> ('p, 'x, bool) map_methods" where
  "WriteTransitional_methods P X C ord prefix =
     \<lparr>mm_Regs = by_name (\<lambda>n. WriteTransitionalChangesToStore Registration_ops X (mp_Marshal C) (ord n) prefix),
      mm_PlainAccs = by_name (\<lambda>n. WriteTransitionalChangesToStore PlainAccount_ops X (mp_Marshal C) (ord n) prefix),
      mm_PendingStakes = by_name (\<lambda>n. WriteTransitionalChangesToStore PendingStakes_ops X (mp_Marshal C) (ord n) prefix),
      mm_Asts = by_name (\<lambda>n. WriteTransitionalChangesToStore Asset_ops X (mp_Marshal C) (ord n) prefix),
      mm_Accs = by_name (\<lambda>n. WriteTransitionalChangesToStore (Account_ops P) X (mp_Marshal C) (ord n) prefix),
      mm_Heap = by_name (\<lambda>n. WriteTransitionalChangesToStore HeapElement_ops X (mp_Marshal C) (ord n) prefix),
      mm_Dict = by_name (\<lambda>n. WriteTransitionalChangesToStore HeapDictElement_ops X (mp_Marshal C) (ord n) prefix),
      mm_Conditional = by_name (\<lambda>n. WriteTransitionalChangesToStore ConditionalPayment_ops X (mp_Marshal C) (ord n) prefix)\<rparr>"

text \<open>The keys whose visit reports data, in the order of the visit.\<close>

fun with_data :: "'k list \<Rightarrow> ('k \<Rightarrow> ('s, bool) go) \<Rightarrow> ('s, 'k list) go" where
  "with_data [] f = gret []"
| "with_data (k # ks) f =
     gbind (f k) (\<lambda>hasData. gbind (with_data ks f) (\<lambda>keys. gret (if hasData then k # keys else keys)))"

definition cpay_height :: "bytes \<Rightarrow> ('p, 'x) DataStorage \<Rightarrow> uint64" where
  "cpay_height key s = (case map_of (cc_maps (ds_ConditionalPayments s)) key of Some (height, _) \<Rightarrow> height | None \<Rightarrow> 0)"

text \<open>\<open>accs\<close>, \<open>heaps\<close> and \<open>conds\<close> are the keys of the three collections in the order of the visits.\<close>

definition DataStorage_WriteTransitionalChangesToStore ::
  "'p G1Ops \<Rightarrow> 'x StoreTx \<Rightarrow> msgpack \<Rightarrow> (bytes \<Rightarrow> bytes list) \<Rightarrow> bytes list \<Rightarrow> bytes list \<Rightarrow> bytes list \<Rightarrow> bytes \<Rightarrow> ('p, 'x, unit) ds_go" where
  "DataStorage_WriteTransitionalChangesToStore P X C ord accs heaps conds prefix =
     (let M = WriteTransitional_methods P X C ord prefix in
      gbind (GetListWithoutCollections M) (\<lambda>_.
      gbind (with_data accs (\<lambda>asset. on_accs_of asset (mm_Accs M))) (\<lambda>accounts.
      gbind (with_data heaps (\<lambda>asset. gbind (on_heap_maps asset (mm_Heap M) (mm_Dict M)) (\<lambda>bs. gret (\<exists>b \<in> set bs. b)))) (\<lambda>liquidities.
      gbind (with_data conds (\<lambda>key. on_conditional (on_cpay_key key (mm_Conditional M)))) (\<lambda>payments.
      gbind (gget (\<lambda>s. map (\<lambda>key. cpay_height key s) payments)) (\<lambda>heights.
      gbind (glift (mp_MarshalKeys C \<lparr>tk_Accounts = accounts, tk_AssetsFeeLiquidities = liquidities, tk_ConditionalPayments = heights\<rparr>)) (\<lambda>bytes.
      on_db (tx_Put X (transitionsCollectionsKeys prefix) (Some bytes)))))))))"

definition read_collection_keys ::
  "'x StoreTx \<Rightarrow> msgpack \<Rightarrow> bytes \<Rightarrow> ('p, 'x, dataStorageTransitionCollectionsKeys) ds_go" where
  "read_collection_keys X C prefix =
     gbind (on_db (tx_Get X (transitionsCollectionsKeys prefix))) (\<lambda>bytes.
     case bytes of
       None \<Rightarrow> gerr ''transitionsCollectionsKeys is null''
     | Some b \<Rightarrow> glift (mp_UnmarshalKeys C b))"

text \<open>The loops over the keys of the collections, which open the maps they visit.\<close>

definition for_collections ::
  "'p G1Ops \<Rightarrow> 'x StoreTx \<Rightarrow> ('p, 'x, unit) map_methods \<Rightarrow> dataStorageTransitionCollectionsKeys \<Rightarrow> ('p, 'x, unit) ds_go" where
  "for_collections P X M keys =
     gbind (gfor (tk_Accounts keys) (\<lambda>key. gbind (accs_GetMap P X key) (\<lambda>_. on_accs_of key (mm_Accs M)))) (\<lambda>_.
     gbind (gfor (tk_AssetsFeeLiquidities keys) (\<lambda>key.
        gbind (on_liquidity (GetMaxHeap X key)) (\<lambda>_. gbind (on_heap_maps key (mm_Heap M) (mm_Dict M)) (\<lambda>_. gret ())))) (\<lambda>_.
     gfor (tk_ConditionalPayments keys) (\<lambda>height.
        gbind (on_conditional (ConditionalPayments_GetMap X height)) (\<lambda>_.
        on_conditional (on_cpay height (mm_Conditional M))))))"

definition ReadTransitional_methods :: "'p G1Ops \<Rightarrow> 'x StoreTx \<Rightarrow> msgpack \<Rightarrow> bytes \<Rightarrow> ('p, 'x, unit) map_methods" where
  "ReadTransitional_methods P X C prefix =
     \<lparr>mm_Regs = ReadTransitionalChangesFromStore Registration_ops X (mp_Unmarshal C) prefix,
      mm_PlainAccs = ReadTransitionalChangesFromStore PlainAccount_ops X (mp_Unmarshal C) prefix,
      mm_PendingStakes = ReadTransitionalChangesFromStore PendingStakes_ops X (mp_Unmarshal C) prefix,
      mm_Asts = ReadTransitionalChangesFromStore Asset_ops X (mp_Unmarshal C) prefix,
      mm_Accs = ReadTransitionalChangesFromStore (Account_ops P) X (mp_Unmarshal C) prefix,
      mm_Heap = ReadTransitionalChangesFromStore HeapElement_ops X (mp_Unmarshal C) prefix,
      mm_Dict = ReadTransitionalChangesFromStore HeapDictElement_ops X (mp_Unmarshal C) prefix,
      mm_Conditional = ReadTransitionalChangesFromStore ConditionalPayment_ops X (mp_Unmarshal C) prefix\<rparr>"

definition DataStorage_ReadTransitionalChangesFromStore ::
  "'p G1Ops \<Rightarrow> 'x StoreTx \<Rightarrow> msgpack \<Rightarrow> bytes \<Rightarrow> ('p, 'x, unit) ds_go" where
  "DataStorage_ReadTransitionalChangesFromStore P X C prefix =
     (let M = ReadTransitional_methods P X C prefix in
      gbind (GetListWithoutCollections M) (\<lambda>_.
      gbind (read_collection_keys X C prefix) (\<lambda>keys. for_collections P X M keys)))"

definition DeleteTransitional_methods :: "'x StoreTx \<Rightarrow> bytes \<Rightarrow> ('p, 'x, unit) map_methods" where
  "DeleteTransitional_methods X prefix =
     \<lparr>mm_Regs = DeleteTransitionalChangesFromStore X prefix, mm_PlainAccs = DeleteTransitionalChangesFromStore X prefix,
      mm_PendingStakes = DeleteTransitionalChangesFromStore X prefix, mm_Asts = DeleteTransitionalChangesFromStore X prefix,
      mm_Accs = DeleteTransitionalChangesFromStore X prefix, mm_Heap = DeleteTransitionalChangesFromStore X prefix,
      mm_Dict = DeleteTransitionalChangesFromStore X prefix, mm_Conditional = DeleteTransitionalChangesFromStore X prefix\<rparr>"

definition DataStorage_DeleteTransitionalChangesFromStore ::
  "'p G1Ops \<Rightarrow> 'x StoreTx \<Rightarrow> msgpack \<Rightarrow> bytes \<Rightarrow> ('p, 'x, unit) ds_go" where
  "DataStorage_DeleteTransitionalChangesFromStore P X C prefix =
     (let M = DeleteTransitional_methods X prefix in
      gbind (GetListWithoutCollections M) (\<lambda>_.
      gbind (read_collection_keys X C prefix) (\<lambda>keys.
      gbind (for_collections P X M keys) (\<lambda>_.
      on_db (tx_Delete X (transitionsCollectionsKeys prefix))))))"

end
