(* ===== verification/Ledger.thy ===== *)
theory Ledger
  imports Data_Storage_Blocks
begin

text \<open>
  What the operations of \<^verbatim>\<open>data_storage.go\<close> do to the ledger.  The abstract ledger is the contents of its
  maps; \<open>ds_abs\<close> reads it off the state and \<open>ds_inv\<close> is the invariant under which every operation
  is a function of the abstract ledger.
\<close>

section \<open>The abstract ledger\<close>

record ledger =
  lg_regs :: "bytes \<Rightarrow> bytes option"
  lg_plain :: "bytes \<Rightarrow> bytes option"
  lg_pending :: "bytes \<Rightarrow> bytes option"
  lg_accounts :: "bytes \<Rightarrow> bytes \<Rightarrow> bytes option"

abbreviation "reg_core \<equiv> hm_core Registration_ops mem_ops mem_view Registration_create Registration_ok"
abbreviation "plain_core \<equiv> hm_core PlainAccount_ops mem_ops mem_view PlainAccount_create PlainAccount_ok"
abbreviation "pend_core \<equiv> hm_core PendingStakes_ops mem_ops mem_view PendingStakes_create PendingStakes_ok"
abbreviation "acc_core P asset \<equiv> hm_core (Account_ops P) mem_ops mem_view (Account_create asset) (Account_ok P asset)"

type_synonym 'p mem_ledger = "('p, StoreDBMemoryTransaction) DataStorage"

definition acc_contents ::
  "'p G1Ops \<Rightarrow> ('p Account, StoreDBMemoryTransaction) HashMap option \<Rightarrow> StoreDBMemoryTransaction \<Rightarrow> bytes \<Rightarrow> bytes \<Rightarrow> bytes option" where
  "acc_contents P m x asset =
     (case m of
        Some h \<Rightarrow> hm_contents (Account_ops P) mem_view (h, x)
      | None \<Rightarrow> (\<lambda>k. mem_view x (key_map (accounts_name asset) k)))"

definition ds_abs :: "'p G1Ops \<Rightarrow> 'p mem_ledger \<Rightarrow> ledger" where
  "ds_abs P s =
     \<lparr>lg_regs = hm_contents Registration_ops mem_view (ds_Regs s, ds_DBTx s),
      lg_plain = hm_contents PlainAccount_ops mem_view (ds_PlainAccs s, ds_DBTx s),
      lg_pending = hm_contents PendingStakes_ops mem_view (ds_PendingStakes s, ds_DBTx s),
      lg_accounts = (\<lambda>asset. acc_contents P (map_of (ac_maps (ds_AccsCollection s)) asset) (ds_DBTx s) asset)\<rparr>"

definition acc_map_ok ::
  "'p G1Ops \<Rightarrow> bytes \<Rightarrow> ('p Account, StoreDBMemoryTransaction) HashMap \<Rightarrow> StoreDBMemoryTransaction \<Rightarrow> bool" where
  "acc_map_ok P asset h x \<longleftrightarrow>
     acc_core P asset (h, x) \<and> hm_name h = accounts_name asset \<and> hm_keyLength h = PublicKeySize"

definition accounts_db :: "'p G1Ops \<Rightarrow> (bytes \<Rightarrow> bytes option) \<Rightarrow> bool" where
  "accounts_db P db \<longleftrightarrow> (\<forall>asset. length asset = ASSET_LENGTH \<longrightarrow>
     stored_map (Account_ops P) (\<lambda>k e. Account_ok P asset k e \<and> loads (Account_ops P) (Account_create asset) k e)
       db (accounts_name asset) PublicKeySize True)"

definition ds_inv :: "'p G1Ops \<Rightarrow> 'p mem_ledger \<Rightarrow> bool" where
  "ds_inv P s \<longleftrightarrow>
     reg_core (ds_Regs s, ds_DBTx s) \<and> hm_keyLength (ds_Regs s) = PublicKeySize \<and>
     plain_core (ds_PlainAccs s, ds_DBTx s) \<and> hm_keyLength (ds_PlainAccs s) = PublicKeySize \<and>
     pend_core (ds_PendingStakes s, ds_DBTx s) \<and> hm_keyLength (ds_PendingStakes s) = 0 \<and>
     (\<forall>asset h. map_of (ac_maps (ds_AccsCollection s)) asset = Some h \<longrightarrow> acc_map_ok P asset h (ds_DBTx s)) \<and>
     accounts_db P (mem_view (ds_DBTx s))"

lemma ds_invD:
  assumes "ds_inv P s"
  shows "reg_core (ds_Regs s, ds_DBTx s)" "plain_core (ds_PlainAccs s, ds_DBTx s)"
    "pend_core (ds_PendingStakes s, ds_DBTx s)" "tx_IsWritable mem_ops (ds_DBTx s)"
    "length k = PublicKeySize \<Longrightarrow> \<not> bad_key (ds_Regs s) k"
    "length k = PublicKeySize \<Longrightarrow> \<not> bad_key (ds_PlainAccs s) k"
    "\<not> bad_key (ds_PendingStakes s) n"
    "map_of (ac_maps (ds_AccsCollection s)) asset = Some h \<Longrightarrow> acc_map_ok P asset h (ds_DBTx s)"
    "accounts_db P (mem_view (ds_DBTx s))"
  using assms by (auto simp: ds_inv_def bad_key_def hm_core_def)

section \<open>Changing one part\<close>

text \<open>Another transaction state with the same view changes nothing.\<close>

lemma acc_map_ok_view:
  assumes "g1_codec P" "acc_map_ok P asset h x" "mem_view x' = mem_view x" "tx_IsWritable mem_ops x'"
  shows "acc_map_ok P asset h x'" "hm_contents (Account_ops P) mem_view (h, x') = hm_contents (Account_ops P) mem_view (h, x)"
proof -
  have c: "acc_core P asset (h, x)" using assms(2) by (simp add: acc_map_ok_def)
  then have "tx_IsWritable mem_ops x" by (simp add: hm_core_def)
  then have w: "tx_IsWritable mem_ops x' = tx_IsWritable mem_ops x" using assms(4) by simp
  show "acc_map_ok P asset h x'"
    using hash_map_block.core_view(1)[OF account_laws c assms(3) w] assms(2) by (simp add: acc_map_ok_def)
  show "hm_contents (Account_ops P) mem_view (h, x') = hm_contents (Account_ops P) mem_view (h, x)"
    by (rule hash_map_block.core_view(2)[OF account_laws c assms(3) w])
qed

lemma hm_contents_view:
  assumes "mem_view x' = mem_view x"
  shows "hm_contents E mem_view (h, x') = hm_contents E mem_view (h, x)"
  using assms by (simp add: hm_contents_def hm_stored_def fun_eq_iff split: option.split)

lemma acc_contents_view:
  assumes "mem_view x' = mem_view x"
  shows "acc_contents P m x' asset = acc_contents P m x asset"
  using assms by (simp add: acc_contents_def hm_contents_view[OF assms] split: option.split)

lemma ds_abs_view:
  assumes "mem_view x' = mem_view (ds_DBTx s)"
  shows "ds_abs P (s\<lparr>ds_DBTx := x'\<rparr>) = ds_abs P s"
  by (simp add: ds_abs_def acc_contents_view[OF assms] hm_contents_view[OF assms])

lemma ds_inv_view:
  assumes "g1_codec P" "ds_inv P s" "mem_view x' = mem_view (ds_DBTx s)" "tx_IsWritable mem_ops x'"
  shows "ds_inv P (s\<lparr>ds_DBTx := x'\<rparr>)"
proof -
  have w: "tx_IsWritable mem_ops x' = tx_IsWritable mem_ops (ds_DBTx s)" using ds_invD(4)[OF assms(2)] assms(4) by simp
  show ?thesis
    using reg_map.core_view(1)[OF ds_invD(1)[OF assms(2)] assms(3) w] pacc_map.core_view(1)[OF ds_invD(2)[OF assms(2)] assms(3) w]
      pstakes_map.core_view(1)[OF ds_invD(3)[OF assms(2)] assms(3) w] acc_map_ok_view(1)[OF assms(1) ds_invD(8)[OF assms(2)] assms(3,4)]
      assms(2,3)
    by (simp add: ds_inv_def)
qed

lemma on_regs_run:
  assumes "g1_codec P" "ds_inv P s" "m (ds_Regs s, ds_DBTx s) = (r, (h, x))" "reg_core (h, x)"
    and "reg_map.keeps (ds_Regs s, ds_DBTx s) (h, x)"
  shows "\<exists>t. on_regs m s = (r, t) \<and> ds_inv P t \<and> ds_abs P t = (ds_abs P s)\<lparr>lg_regs := hm_contents Registration_ops mem_view (h, x)\<rparr>"
proof -
  have v: "mem_view x = mem_view (ds_DBTx s)" "hm_keyLength h = hm_keyLength (ds_Regs s)"
    using assms(5) by (simp_all add: reg_map.keeps_def reg_map.static_def)
  have w: "tx_IsWritable mem_ops x" using assms(4) by (simp add: hm_core_def)
  have "ds_inv P (s\<lparr>ds_DBTx := x, ds_Regs := h\<rparr>)"
    using ds_inv_view[OF assms(1,2) v(1) w] assms(4) v(2) by (simp add: ds_inv_def)
  moreover have "ds_abs P (s\<lparr>ds_DBTx := x, ds_Regs := h\<rparr>) = (ds_abs P s)\<lparr>lg_regs := hm_contents Registration_ops mem_view (h, x)\<rparr>"
    using ds_abs_view[OF v(1), of P] by (simp add: ds_abs_def)
  moreover have "s\<lparr>ds_DBTx := x, ds_Regs := h\<rparr> = s\<lparr>ds_Regs := h, ds_DBTx := x\<rparr>" by (cases s) simp
  ultimately show ?thesis using assms(3) by (simp add: on_regs_def)
qed

lemma on_plain_run:
  assumes "g1_codec P" "ds_inv P s" "m (ds_PlainAccs s, ds_DBTx s) = (r, (h, x))" "plain_core (h, x)"
    and "pacc_map.keeps (ds_PlainAccs s, ds_DBTx s) (h, x)"
  shows "\<exists>t. on_plain m s = (r, t) \<and> ds_inv P t \<and> ds_abs P t = (ds_abs P s)\<lparr>lg_plain := hm_contents PlainAccount_ops mem_view (h, x)\<rparr>"
proof -
  have v: "mem_view x = mem_view (ds_DBTx s)" "hm_keyLength h = hm_keyLength (ds_PlainAccs s)"
    using assms(5) by (simp_all add: pacc_map.keeps_def pacc_map.static_def)
  have w: "tx_IsWritable mem_ops x" using assms(4) by (simp add: hm_core_def)
  have "ds_inv P (s\<lparr>ds_DBTx := x, ds_PlainAccs := h\<rparr>)"
    using ds_inv_view[OF assms(1,2) v(1) w] assms(4) v(2) by (simp add: ds_inv_def)
  moreover have "ds_abs P (s\<lparr>ds_DBTx := x, ds_PlainAccs := h\<rparr>) = (ds_abs P s)\<lparr>lg_plain := hm_contents PlainAccount_ops mem_view (h, x)\<rparr>"
    using ds_abs_view[OF v(1), of P] by (simp add: ds_abs_def)
  moreover have "s\<lparr>ds_DBTx := x, ds_PlainAccs := h\<rparr> = s\<lparr>ds_PlainAccs := h, ds_DBTx := x\<rparr>" by (cases s) simp
  ultimately show ?thesis using assms(3) by (simp add: on_plain_def)
qed

lemma on_pending_run:
  assumes "g1_codec P" "ds_inv P s" "m (ds_PendingStakes s, ds_DBTx s) = (r, (h, x))" "pend_core (h, x)"
    and "pstakes_map.keeps (ds_PendingStakes s, ds_DBTx s) (h, x)"
  shows "\<exists>t. on_pending m s = (r, t) \<and> ds_inv P t \<and> ds_abs P t = (ds_abs P s)\<lparr>lg_pending := hm_contents PendingStakes_ops mem_view (h, x)\<rparr>"
proof -
  have v: "mem_view x = mem_view (ds_DBTx s)" "hm_keyLength h = hm_keyLength (ds_PendingStakes s)"
    using assms(5) by (simp_all add: pstakes_map.keeps_def pstakes_map.static_def)
  have w: "tx_IsWritable mem_ops x" using assms(4) by (simp add: hm_core_def)
  have "ds_inv P (s\<lparr>ds_DBTx := x, ds_PendingStakes := h\<rparr>)"
    using ds_inv_view[OF assms(1,2) v(1) w] assms(4) v(2) by (simp add: ds_inv_def)
  moreover have "ds_abs P (s\<lparr>ds_DBTx := x, ds_PendingStakes := h\<rparr>) = (ds_abs P s)\<lparr>lg_pending := hm_contents PendingStakes_ops mem_view (h, x)\<rparr>"
    using ds_abs_view[OF v(1), of P] by (simp add: ds_abs_def)
  moreover have "s\<lparr>ds_DBTx := x, ds_PendingStakes := h\<rparr> = s\<lparr>ds_PendingStakes := h, ds_DBTx := x\<rparr>" by (cases s) simp
  ultimately show ?thesis using assms(3) by (simp add: on_pending_def)
qed

text \<open>A call on the open map of an asset.\<close>

lemma on_accs_run:
  assumes "g1_codec P" "ds_inv P s" "map_of (ac_maps (ds_AccsCollection s)) asset = Some h0"
    and "m (h0, ds_DBTx s) = (r, (h, x))" "acc_map_ok P asset h x" "mem_view x = mem_view (ds_DBTx s)"
  shows "\<exists>t. on_accs_of asset m s = (r, t) \<and> ds_inv P t \<and> map_of (ac_maps (ds_AccsCollection t)) asset = Some h \<and> ds_DBTx t = x \<and>
    ds_abs P t = (ds_abs P s)\<lparr>lg_accounts := (lg_accounts (ds_abs P s))(asset := hm_contents (Account_ops P) mem_view (h, x))\<rparr>"
proof -
  have w: "tx_IsWritable mem_ops x" using assms(5) by (simp add: acc_map_ok_def hm_core_def)
  let ?c = "(ds_AccsCollection s)\<lparr>ac_tx := x, ac_maps := AList.update asset h (ac_maps (ds_AccsCollection s))\<rparr>"
  let ?t = "s\<lparr>ds_AccsCollection := ?c, ds_DBTx := x\<rparr>"
  have run: "on_accs_of asset m s = (r, ?t)"
    using assms(3,4) by (simp add: on_accs_of_def on_accounts_def on_accs_def)
  have i: "ds_inv P (s\<lparr>ds_DBTx := x\<rparr>)" by (rule ds_inv_view[OF assms(1,2,6) w])
  have inv: "ds_inv P ?t"
    using i assms(5) by (auto simp: ds_inv_def update_conv' split: if_splits)
  have "acc_contents P (((map_of (ac_maps (ds_AccsCollection s)))(asset \<mapsto> h)) a) x a =
      ((\<lambda>b. acc_contents P (map_of (ac_maps (ds_AccsCollection s)) b) (ds_DBTx s) b)
         (asset := hm_contents (Account_ops P) mem_view (h, x))) a" for a
    using acc_contents_view[OF assms(6)] by (auto simp: acc_contents_def)
  then have "ds_abs P ?t = (ds_abs P s)\<lparr>lg_accounts := (lg_accounts (ds_abs P s))(asset := hm_contents (Account_ops P) mem_view (h, x))\<rparr>"
    using ds_abs_view[OF assms(6), of P] by (simp add: ds_abs_def update_conv' fun_eq_iff)
  then show ?thesis using run inv by (simp add: update_conv')
qed

text \<open>Opening the map of an asset changes nothing of the ledger.\<close>

lemma account_events_write:
  "mem_tx.writes_only ({assetsCount_key k} \<union> range (assetByIndex_key k)) (Accounts_DeletedEvent mem_ops k)"
  "mem_tx.writes_only ({assetsCount_key k} \<union> range (assetByIndex_key k)) (Accounts_StoredEvent mem_ops k c i)"
proof -
  let ?S = "{assetsCount_key k} \<union> range (assetByIndex_key k)"
  have n: "mem_tx.writes_only ?S (stored_count mem_ops k)"
    unfolding stored_count_def by (rule mem_tx.writes_only_bind[OF mem_tx.writes_only_tx(1)]) (auto split: option.split)
  have a: "mem_tx.writes_only ?S (saveAssetsCount mem_ops k b)" for b
    unfolding saveAssetsCount_def Let_def by (intro mem_tx.writes_only_bind n) auto
  have e: "mem_tx.writes_only ?S (deref o' (\<lambda>e. tx_Put mem_ops (assetByIndex_key k count) (f e)))" for o' count f
    by (cases o') (auto simp: deref_def)
  show "mem_tx.writes_only ?S (Accounts_DeletedEvent mem_ops k)"
    unfolding Accounts_DeletedEvent_def using a by (intro mem_tx.writes_only_bind) auto
  have "mem_tx.writes_only ?S (gbind (saveAssetsCount mem_ops k True) (\<lambda>count.
       deref (cm_Element c) (\<lambda>e. tx_Put mem_ops (assetByIndex_key k count) (Some (acc_Asset e)))))"
    by (intro mem_tx.writes_only_bind a e)
  then show "mem_tx.writes_only ?S (Accounts_StoredEvent mem_ops k c i)"
    unfolding Accounts_StoredEvent_def by (intro mem_tx.writes_only_bind) auto
qed

lemma account_events_quiet:
  "quiet_event mem_ops mem_view (accounts_name asset) (Accounts_DeletedEvent mem_ops k)"
  "quiet_event mem_ops mem_view (accounts_name asset) (Accounts_StoredEvent mem_ops k c i)"
  by (rule mem_tx.writes_only_quiet[OF account_events_write(1)] mem_tx.writes_only_quiet[OF account_events_write(2)],
      (auto simp: accounts_name_def key_map_def key_exists_def key_listKeys_def key_transitions_def
        assetsCount_key_def assetByIndex_key_def)[4])+

lemma NewAccounts_run:
  assumes "g1_codec P" "accounts_db P (mem_view x)" "tx_IsWritable mem_ops x" "length asset = ASSET_LENGTH"
  shows "\<exists>h x'. NewAccounts P mem_ops asset x = (Inr h, x') \<and> acc_map_ok P asset h x' \<and> mem_view x' = mem_view x \<and>
    hm_contents (Account_ops P) mem_view (h, x') = (\<lambda>k. mem_view x (key_map (accounts_name asset) k))"
proof -
  have st: "stored_map (Account_ops P) (\<lambda>k e. Account_ok P asset k e \<and> loads (Account_ops P) (Account_create asset) k e) (mem_view x) (accounts_name asset) PublicKeySize True"
    using assms(2,4) by (simp add: accounts_db_def)
  have n: "4 < length (accounts_name asset)" by (simp add: accounts_name_def)
  have "length asset = PublicKeyHashSize" using assms(4) by (simp add: ASSET_LENGTH_def PublicKeyHashSize_def)
  then have "NewAccounts P mem_ops asset x = CreateNewHashMap mem_ops (accounts_name asset) PublicKeySize True
      (Account_create asset) (Some (Accounts_DeletedEvent mem_ops)) (Some (Accounts_StoredEvent mem_ops)) x"
    by (simp add: NewAccounts_def)
  then show ?thesis
    using hash_map_block.CreateNewHashMap_view[OF account_laws assms(3) st n,
        of "Some (Accounts_DeletedEvent mem_ops)" "Some (Accounts_StoredEvent mem_ops)"] account_events_quiet
    by (fastforce simp: acc_map_ok_def hm_inv_def)
qed

lemma accs_GetMap_run:
  assumes "g1_codec P" "ds_inv P s" "length asset = ASSET_LENGTH"
  shows "\<exists>t h. accs_GetMap P mem_ops asset s = (Inr (), t) \<and> ds_inv P t \<and> ds_abs P t = ds_abs P s \<and>
    map_of (ac_maps (ds_AccsCollection t)) asset = Some h \<and> ds_ConditionalPayments t = ds_ConditionalPayments s"
proof (cases "map_of (ac_maps (ds_AccsCollection s)) asset")
  case (Some h)
  have "accs_GetMap P mem_ops asset s = (Inr (), s\<lparr>ds_AccsCollection := (ds_AccsCollection s)\<lparr>ac_tx := ds_DBTx s\<rparr>\<rparr>)"
    using Some assms(3) by (simp add: accs_GetMap_def on_accounts_def Accounts_GetMap_def)
  then show ?thesis using Some assms(2) by (simp add: ds_inv_def ds_abs_def)
next
  case None
  obtain h x where h: "NewAccounts P mem_ops asset (ds_DBTx s) = (Inr h, x)" "acc_map_ok P asset h x"
    "mem_view x = mem_view (ds_DBTx s)"
    "hm_contents (Account_ops P) mem_view (h, x) = (\<lambda>k. mem_view (ds_DBTx s) (key_map (accounts_name asset) k))"
    using NewAccounts_run[OF assms(1) ds_invD(9,4)[OF assms(2)] assms(3)] by blast
  let ?c = "(ds_AccsCollection s)\<lparr>ac_tx := x, ac_list := ac_list (ds_AccsCollection s) @ [asset],
    ac_maps := AList.update asset h (ac_maps (ds_AccsCollection s))\<rparr>"
  let ?t = "s\<lparr>ds_AccsCollection := ?c, ds_DBTx := x\<rparr>"
  have run: "accs_GetMap P mem_ops asset s = (Inr (), ?t)"
    using None assms(3) h(1) by (simp add: accs_GetMap_def on_accounts_def Accounts_GetMap_def)
  have w: "tx_IsWritable mem_ops x" using h(2) by (simp add: acc_map_ok_def hm_core_def)
  have "ds_inv P ?t"
    using ds_inv_view[OF assms(1,2) h(3) w] h(2) by (auto simp: ds_inv_def update_conv' split: if_splits)
  moreover have "acc_contents P (((map_of (ac_maps (ds_AccsCollection s)))(asset \<mapsto> h)) a) x a =
      acc_contents P (map_of (ac_maps (ds_AccsCollection s)) a) (ds_DBTx s) a" for a
    using acc_contents_view[OF h(3)] None h(4) by (auto simp: acc_contents_def)
  then have "ds_abs P ?t = ds_abs P s"
    using ds_abs_view[OF h(3), of P] by (simp add: ds_abs_def update_conv' fun_eq_iff)
  ultimately show ?thesis using run by (simp add: update_conv')
qed

section \<open>Calls on the maps\<close>

lemma reg_Exists_run:
  assumes "g1_codec P" "ds_inv P s" "length k = PublicKeySize"
  shows "\<exists>t. on_regs (Exists mem_ops k) s = (Inr (lg_regs (ds_abs P s) k \<noteq> None), t) \<and> ds_inv P t \<and> ds_abs P t = ds_abs P s"
proof -
  obtain x where x: "Exists mem_ops k (ds_Regs s, ds_DBTx s) = (Inr (lg_regs (ds_abs P s) k \<noteq> None), (ds_Regs s, x))"
    "mem_view x = mem_view (ds_DBTx s)" "tx_IsWritable mem_ops x"
    using reg_map.Exists_ok[OF ds_invD(1)[OF assms(2)] ds_invD(5)[OF assms(2,3)]] by (auto simp: ds_abs_def)
  have "on_regs (Exists mem_ops k) s = (Inr (lg_regs (ds_abs P s) k \<noteq> None), s\<lparr>ds_DBTx := x\<rparr>)"
    using x(1) by (simp add: on_regs_def)
  then show ?thesis using ds_inv_view[OF assms(1,2) x(2,3)] ds_abs_view[OF x(2), of P] by blast
qed

lemma plain_Exists_run:
  assumes "g1_codec P" "ds_inv P s" "length k = PublicKeySize"
  shows "\<exists>t. on_plain (Exists mem_ops k) s = (Inr (lg_plain (ds_abs P s) k \<noteq> None), t) \<and> ds_inv P t \<and> ds_abs P t = ds_abs P s"
proof -
  obtain x where x: "Exists mem_ops k (ds_PlainAccs s, ds_DBTx s) = (Inr (lg_plain (ds_abs P s) k \<noteq> None), (ds_PlainAccs s, x))"
    "mem_view x = mem_view (ds_DBTx s)" "tx_IsWritable mem_ops x"
    using pacc_map.Exists_ok[OF ds_invD(2)[OF assms(2)] ds_invD(6)[OF assms(2,3)]] by (auto simp: ds_abs_def)
  have "on_plain (Exists mem_ops k) s = (Inr (lg_plain (ds_abs P s) k \<noteq> None), s\<lparr>ds_DBTx := x\<rparr>)"
    using x(1) by (simp add: on_plain_def)
  then show ?thesis using ds_inv_view[OF assms(1,2) x(2,3)] ds_abs_view[OF x(2), of P] by blast
qed

lemma reg_Get_run:
  assumes "g1_codec P" "ds_inv P s" "length k = PublicKeySize"
  shows "\<exists>eo t. on_regs (Get Registration_ops mem_ops k) s = (Inr eo, t) \<and> ds_inv P t \<and> ds_abs P t = ds_abs P s \<and>
    map_option (el_bytes Registration_ops) eo = lg_regs (ds_abs P s) k"
proof -
  obtain eo h x where g: "Get Registration_ops mem_ops k (ds_Regs s, ds_DBTx s) = (Inr eo, (h, x))" "reg_core (h, x)"
    "reg_map.keeps (ds_Regs s, ds_DBTx s) (h, x)"
    "hm_contents Registration_ops mem_view (h, x) = hm_contents Registration_ops mem_view (ds_Regs s, ds_DBTx s)"
    "map_option (el_bytes Registration_ops) eo = hm_contents Registration_ops mem_view (ds_Regs s, ds_DBTx s) k"
    using reg_map.Get_ok[OF ds_invD(1)[OF assms(2)] ds_invD(5)[OF assms(2,3)]] by blast
  show ?thesis using on_regs_run[where m = "Get Registration_ops mem_ops k", OF assms(1,2) g(1-3)] g(4,5) by (auto simp: ds_abs_def)
qed

lemma plain_Get_run:
  assumes "g1_codec P" "ds_inv P s" "length k = PublicKeySize"
  shows "\<exists>eo t. on_plain (Get PlainAccount_ops mem_ops k) s = (Inr eo, t) \<and> ds_inv P t \<and> ds_abs P t = ds_abs P s \<and>
    map_option (el_bytes PlainAccount_ops) eo = lg_plain (ds_abs P s) k"
proof -
  obtain eo h x where g: "Get PlainAccount_ops mem_ops k (ds_PlainAccs s, ds_DBTx s) = (Inr eo, (h, x))" "plain_core (h, x)"
    "pacc_map.keeps (ds_PlainAccs s, ds_DBTx s) (h, x)"
    "hm_contents PlainAccount_ops mem_view (h, x) = hm_contents PlainAccount_ops mem_view (ds_PlainAccs s, ds_DBTx s)"
    "map_option (el_bytes PlainAccount_ops) eo = hm_contents PlainAccount_ops mem_view (ds_PlainAccs s, ds_DBTx s) k"
    using pacc_map.Get_ok[OF ds_invD(2)[OF assms(2)] ds_invD(6)[OF assms(2,3)]] by blast
  show ?thesis using on_plain_run[where m = "Get PlainAccount_ops mem_ops k", OF assms(1,2) g(1-3)] g(4,5) by (auto simp: ds_abs_def)
qed

lemma pend_Get_run:
  assumes "g1_codec P" "ds_inv P s"
  shows "\<exists>eo t. on_pending (GetPendingStakes mem_ops n) s = (Inr eo, t) \<and> ds_inv P t \<and> ds_abs P t = ds_abs P s \<and>
    map_option (el_bytes PendingStakes_ops) eo = lg_pending (ds_abs P s) (FormatUint n) \<and>
    (\<forall>e. eo = Some e \<longrightarrow> PendingStakes_ok (FormatUint n) e) \<and>
    (\<exists>c. change_at (ds_PendingStakes t) (FormatUint n) = Some c \<and> ch_Element c = eo)"
proof -
  obtain eo h x where g: "Get PendingStakes_ops mem_ops (FormatUint n) (ds_PendingStakes s, ds_DBTx s) = (Inr eo, (h, x))" "pend_core (h, x)"
    "pstakes_map.keeps (ds_PendingStakes s, ds_DBTx s) (h, x)"
    "hm_contents PendingStakes_ops mem_view (h, x) = hm_contents PendingStakes_ops mem_view (ds_PendingStakes s, ds_DBTx s)"
    "map_option (el_bytes PendingStakes_ops) eo = hm_contents PendingStakes_ops mem_view (ds_PendingStakes s, ds_DBTx s) (FormatUint n)"
    "\<forall>e. eo = Some e \<longrightarrow> PendingStakes_ok (FormatUint n) e"
    using pstakes_map.Get_ok[OF ds_invD(3)[OF assms(2)] ds_invD(7)[OF assms(2)]] by blast
  note c = pstakes_map.Get_change[OF ds_invD(3)[OF assms(2)] g(1)]
  obtain t where t: "on_pending (GetPendingStakes mem_ops n) s = (Inr eo, t)" "ds_inv P t" "ds_PendingStakes t = h"
    "ds_abs P t = (ds_abs P s)\<lparr>lg_pending := hm_contents PendingStakes_ops mem_view (h, x)\<rparr>"
    using on_pending_run[where m = "Get PendingStakes_ops mem_ops (FormatUint n)", OF assms(1,2) g(1-3)] g(1)
    by (auto simp: GetPendingStakes_def on_pending_def)
  then show ?thesis using g(4-6) c by (auto simp: ds_abs_def)
qed

section \<open>Registrations and plain accounts\<close>

lemma NewRegistration_ok:
  assumes "length sp = 0 \<or> length sp = PublicKeySize"
  shows "Registration_ok k (el_SetKey Registration_ops k ((NewRegistration k 0)\<lparr>reg_Staked := st, reg_SpendPublicKey := sp\<rparr>))"
  using assms by (simp add: Registration_ok_def Registration_ops_def NewRegistration_def Registration_Validate_iff)

text \<open>Registering a key: refused when the key has a plain account or is registered, and otherwise the
  registration is the only thing that changes.\<close>

lemma CreateRegistration_run:
  assumes "g1_codec P" "ds_inv P s" "length k = PublicKeySize" "length sp = 0 \<or> length sp = PublicKeySize"
  shows "\<exists>res t. CreateRegistration mem_ops k st sp s = (res, t) \<and> ds_inv P t \<and>
    (if lg_plain (ds_abs P s) k \<noteq> None then res = Inl (Error ''Can't register as a plain Account already exists'') \<and> ds_abs P t = ds_abs P s
     else if lg_regs (ds_abs P s) k \<noteq> None then res = Inl (Error ''Element already exists in Hashmap'') \<and> ds_abs P t = ds_abs P s
     else (\<exists>r. res = Inr r \<and> reg_Staked r = st \<and> reg_SpendPublicKey r = sp \<and> Registration_ok k r \<and>
            ds_abs P t = (ds_abs P s)\<lparr>lg_regs := (lg_regs (ds_abs P s))(k \<mapsto> el_bytes Registration_ops r)\<rparr>))"
proof -
  obtain s1 where s1: "on_plain (Exists mem_ops k) s = (Inr (lg_plain (ds_abs P s) k \<noteq> None), s1)" "ds_inv P s1" "ds_abs P s1 = ds_abs P s"
    using plain_Exists_run[OF assms(1-3)] by blast
  let ?r = "(NewRegistration k 0)\<lparr>reg_Staked := st, reg_SpendPublicKey := sp\<rparr>"
  note ok = NewRegistration_ok[OF assms(4), of k st] and bk = ds_invD(5)[OF s1(2) assms(3)] and core = ds_invD(1)[OF s1(2)]
  have run: "CreateRegistration mem_ops k st sp s =
      (if lg_plain (ds_abs P s) k \<noteq> None then (Inl (Error ''Can't register as a plain Account already exists''), s1)
       else on_regs (Create Registration_ops mem_ops k (Some ?r)) s1)"
    using s1(1) by (simp add: CreateRegistration_def CreateNewRegistration_def gbind_Inr)
  obtain x where x: "Create Registration_ops mem_ops k (Some ?r) (ds_Regs s1, ds_DBTx s1) =
       (if lg_regs (ds_abs P s) k = None then Update Registration_ops mem_ops k (Some ?r) (ds_Regs s1, x)
        else (Inl (Error ''Element already exists in Hashmap''), (ds_Regs s1, x)))" "reg_core (ds_Regs s1, x)" "mem_view x = mem_view (ds_DBTx s1)"
    using reg_map.Create_ok[OF core bk ok] s1(3)[symmetric] by (auto simp: ds_abs_def)
  have w: "tx_IsWritable mem_ops x" using x(2) by (simp add: hm_core_def)
  show ?thesis
  proof (cases "lg_plain (ds_abs P s) k \<noteq> None \<or> lg_regs (ds_abs P s) k \<noteq> None")
    case True
    then show ?thesis
      using run x(1) s1(2,3) ds_inv_view[OF assms(1) s1(2) x(3) w] ds_abs_view[OF x(3), of P]
      by (cases "lg_plain (ds_abs P s) k \<noteq> None") (auto simp: on_regs_def)
  next
    case False
    obtain d h' x' where u: "Update Registration_ops mem_ops k (Some ?r) (ds_Regs s1, x) = (Inr d, (h', x'))" "reg_core (h', x')"
      "reg_map.keeps (ds_Regs s1, x) (h', x')"
      "hm_contents Registration_ops mem_view (h', x') =
         (hm_contents Registration_ops mem_view (ds_Regs s1, x))(k \<mapsto> el_bytes Registration_ops (el_SetKey Registration_ops k ?r))"
      "el_bytes Registration_ops d = el_bytes Registration_ops (el_SetKey Registration_ops k ?r)" "Registration_ok k d"
      using reg_map.Update_ok[OF x(2) bk ok] by blast
    have k: "reg_map.keeps (ds_Regs s1, ds_DBTx s1) (h', x')" using u(3) x(3) by (simp add: reg_map.keeps_def)
    have c: "Create Registration_ops mem_ops k (Some ?r) (ds_Regs s1, ds_DBTx s1) = (Inr d, (h', x'))" using x(1) u(1) False by simp
    obtain t where t: "on_regs (Create Registration_ops mem_ops k (Some ?r)) s1 = (Inr d, t)" "ds_inv P t"
      "ds_abs P t = (ds_abs P s1)\<lparr>lg_regs := hm_contents Registration_ops mem_view (h', x')\<rparr>"
      using on_regs_run[where m = "Create Registration_ops mem_ops k (Some ?r)", OF assms(1) s1(2) c u(2) k] by blast
    have "el_SetIndex Registration_ops 0 d = el_SetIndex Registration_ops 0 (el_SetKey Registration_ops k ?r)"
      by (rule reg.ser_inj[OF u(6) ok u(5)])
    then have "reg_Staked d = st" "reg_SpendPublicKey d = sp"
      by (cases d; simp add: Registration_ops_def NewRegistration_def)+
    moreover have "hm_contents Registration_ops mem_view (h', x') = (lg_regs (ds_abs P s))(k \<mapsto> el_bytes Registration_ops d)"
      using u(4,5) s1(3)[symmetric] by (simp add: ds_abs_def hm_contents_view[OF x(3)])
    ultimately show ?thesis using run t False s1(3) u(6) by (auto simp: on_regs_def)
  qed
qed

text \<open>A new plain account is deletable, so that creating one only reserves it: the ledger is unchanged.\<close>

lemma NewPlainAccount_deletable:
  "PlainAccount_Validate (el_SetKey PlainAccount_ops k (NewPlainAccount k 0)) = Inr ()"
  "el_IsDeletable PlainAccount_ops (el_SetKey PlainAccount_ops k (NewPlainAccount k 0))"
  by (simp_all add: PlainAccount_ops_def NewPlainAccount_def PlainAccount_Validate_def AssetFeeLiquidities_Validate_def
      PlainAccount_IsDeletable_def HasAssetFeeLiquidities_def afl_NONE_def afl_SIMPLE_def)

lemma plain_Update_deletable:
  assumes "\<not> bad_key h k" "el_Validate PlainAccount_ops (el_SetKey PlainAccount_ops k p) = Inr ()"
    "el_IsDeletable PlainAccount_ops (el_SetKey PlainAccount_ops k p)" "plain_core (h, x)"
  shows "\<exists>d h' x'. Update PlainAccount_ops mem_ops k (Some p) (h, x) = (Inr d, (h', x')) \<and> plain_core (h', x') \<and>
    pacc_map.keeps (h, x) (h', x') \<and>
    hm_contents PlainAccount_ops mem_view (h', x') = (hm_contents PlainAccount_ops mem_view (h, x))(k := None) \<and>
    d = el_SetKey PlainAccount_ops k p"
proof -
  obtain h' x' where "Delete PlainAccount_ops mem_ops k (h, x) = (Inr (), (h', x'))" "plain_core (h', x')"
    "pacc_map.keeps (h, x) (h', x')"
    "hm_contents PlainAccount_ops mem_view (h', x') = (hm_contents PlainAccount_ops mem_view (h, x))(k := None)"
    using pacc_map.Delete_ok[OF assms(4,1)] by blast
  then show ?thesis using assms(1-3) by (simp add: Update_def Let_def gbind_Inr)
qed

text \<open>What an update of a plain account leaves in the ledger: nothing for a deletable one.\<close>

definition plain_entry :: "bytes \<Rightarrow> PlainAccount \<Rightarrow> bytes option" where
  "plain_entry k p =
     (if PlainAccount_IsDeletable (p\<lparr>pa_Key := k\<rparr>) then None else Some (el_bytes PlainAccount_ops (p\<lparr>pa_Key := k\<rparr>)))"

definition plain_update_ok :: "bytes \<Rightarrow> PlainAccount \<Rightarrow> bool" where
  "plain_update_ok k p \<longleftrightarrow>
     PlainAccount_ok k (p\<lparr>pa_Key := k\<rparr>) \<or>
     PlainAccount_IsDeletable (p\<lparr>pa_Key := k\<rparr>) \<and> PlainAccount_Validate (p\<lparr>pa_Key := k\<rparr>) = Inr ()"

lemma plain_Update_run:
  assumes "g1_codec P" "ds_inv P s" "length k = PublicKeySize" "plain_update_ok k p"
  shows "\<exists>d t. on_plain (Update PlainAccount_ops mem_ops k (Some p)) s = (Inr d, t) \<and> ds_inv P t \<and>
    ds_abs P t = (ds_abs P s)\<lparr>lg_plain := (lg_plain (ds_abs P s))(k := plain_entry k p)\<rparr>"
proof -
  note bk = ds_invD(6)[OF assms(2,3)] and core = ds_invD(2)[OF assms(2)]
  have del: "PlainAccount_ok k (p\<lparr>pa_Key := k\<rparr>) \<Longrightarrow> \<not> PlainAccount_IsDeletable (p\<lparr>pa_Key := k\<rparr>)"
    using pacc.not_deletable by (simp add: PlainAccount_ops_def)
  obtain d h x where u: "Update PlainAccount_ops mem_ops k (Some p) (ds_PlainAccs s, ds_DBTx s) = (Inr d, (h, x))"
    "plain_core (h, x)" "pacc_map.keeps (ds_PlainAccs s, ds_DBTx s) (h, x)"
    "hm_contents PlainAccount_ops mem_view (h, x) =
       (hm_contents PlainAccount_ops mem_view (ds_PlainAccs s, ds_DBTx s))(k := plain_entry k p)"
  proof (cases "PlainAccount_IsDeletable (p\<lparr>pa_Key := k\<rparr>)")
    case True
    then have "PlainAccount_Validate (p\<lparr>pa_Key := k\<rparr>) = Inr ()" using assms(4) del by (auto simp: plain_update_ok_def)
    then show ?thesis using plain_Update_deletable[OF bk _ _ core, of p] True that
      by (auto simp: PlainAccount_ops_def plain_entry_def)
  next
    case False
    then have "PlainAccount_ok k (el_SetKey PlainAccount_ops k p)" using assms(4) by (auto simp: plain_update_ok_def PlainAccount_ops_def)
    from pacc_map.Update_ok[OF core bk this] show ?thesis using False that
      by (auto simp: plain_entry_def PlainAccount_ops_def)
  qed
  show ?thesis
    using on_plain_run[where m = "Update PlainAccount_ops mem_ops k (Some p)", OF assms(1,2) u(1-3)] u(4) by (auto simp: ds_abs_def)
qed

lemma CreatePlainAccount_run:
  assumes "g1_codec P" "ds_inv P s" "length k = PublicKeySize"
  shows "\<exists>res t. CreatePlainAccount mem_ops k v s = (res, t) \<and> ds_inv P t \<and> ds_abs P t = ds_abs P s \<and>
    res = (if v \<and> lg_regs (ds_abs P s) k \<noteq> None then Inl (Error ''PlainAccount should not have been registered before'')
           else if lg_plain (ds_abs P s) k \<noteq> None then Inl (Error ''Element already exists in Hashmap'')
           else Inr (NewPlainAccount k 0))"
proof -
  obtain s1 where s1: "on_regs (Exists mem_ops k) s = (Inr (lg_regs (ds_abs P s) k \<noteq> None), s1)" "ds_inv P s1" "ds_abs P s1 = ds_abs P s"
    using reg_Exists_run[OF assms] by blast
  obtain s2 where s2: "ds_inv P s2" "ds_abs P s2 = ds_abs P s" and
    guard: "(if v then gbind (on_regs (Exists mem_ops k)) (\<lambda>exists. gcheck exists ''PlainAccount should not have been registered before'')
      else gret ()) s = (if v \<and> lg_regs (ds_abs P s) k \<noteq> None then Inl (Error ''PlainAccount should not have been registered before'') else Inr (), s2)"
    using s1 assms(2) by (cases v) (auto simp: gbind_Inr)
  note bk = ds_invD(6)[OF s2(1) assms(3)] and core = ds_invD(2)[OF s2(1)]
  obtain x where x: "Exists mem_ops k (ds_PlainAccs s2, ds_DBTx s2) = (Inr (lg_plain (ds_abs P s) k \<noteq> None), (ds_PlainAccs s2, x))"
    "mem_view x = mem_view (ds_DBTx s2)" "tx_IsWritable mem_ops x"
    using pacc_map.Exists_ok[OF core bk] s2(2)[symmetric] by (auto simp: ds_abs_def)
  have core': "plain_core (ds_PlainAccs s2, x)"
    using pacc_map.core_view(1)[OF core x(2)] x(3) ds_invD(4)[OF s2(1)] by simp
  obtain h' x' where u: "Update PlainAccount_ops mem_ops k (Some (NewPlainAccount k 0)) (ds_PlainAccs s2, x) = (Inr (NewPlainAccount k 0), (h', x'))"
    "plain_core (h', x')" "pacc_map.keeps (ds_PlainAccs s2, x) (h', x')"
    "hm_contents PlainAccount_ops mem_view (h', x') = (hm_contents PlainAccount_ops mem_view (ds_PlainAccs s2, x))(k := None)"
    using plain_Update_deletable[OF bk _ NewPlainAccount_deletable(2) core'] NewPlainAccount_deletable(1)[of k]
    by (auto simp: PlainAccount_ops_def NewPlainAccount_def)
  let ?m = "CreateNewPlainAccount mem_ops k"
  have m: "?m (ds_PlainAccs s2, ds_DBTx s2) =
      (if lg_plain (ds_abs P s) k \<noteq> None then (Inl (Error ''Element already exists in Hashmap''), (ds_PlainAccs s2, x))
       else (Inr (NewPlainAccount k 0), (h', x')))"
    using u(1) by (simp add: CreateNewPlainAccount_def Create_def gbind_Inr[of "Exists mem_ops k", OF x(1)])
  have "\<exists>t. on_plain ?m s2 = (if lg_plain (ds_abs P s) k \<noteq> None then Inl (Error ''Element already exists in Hashmap'')
      else Inr (NewPlainAccount k 0), t) \<and> ds_inv P t \<and> ds_abs P t = ds_abs P s"
  proof (cases "lg_plain (ds_abs P s) k")
    case None
    have c: "hm_contents PlainAccount_ops mem_view (h', x') = lg_plain (ds_abs P s)"
      using u(4) None s2(2)[symmetric] by (simp add: ds_abs_def hm_contents_view[OF x(2)] fun_upd_idem)
    have k: "pacc_map.keeps (ds_PlainAccs s2, ds_DBTx s2) (h', x')" using u(3) x(2) by (simp add: pacc_map.keeps_def)
    have m': "?m (ds_PlainAccs s2, ds_DBTx s2) = (Inr (NewPlainAccount k 0), (h', x'))" using m None by simp
    show ?thesis
      using on_plain_run[where m = ?m, OF assms(1) s2(1) m' u(2) k] None c s2(2) by auto
  next
    case (Some b)
    then show ?thesis
      using m ds_inv_view[OF assms(1) s2(1) x(2,3)] ds_abs_view[OF x(2), of P] s2(2) by (simp add: on_plain_def)
  qed
  then show ?thesis
    using guard s2 unfolding CreatePlainAccount_def gbind_def by (auto split: if_splits)
qed

lemma GetOrCreatePlainAccount_run:
  assumes "g1_codec P" "ds_inv P s" "length k = PublicKeySize"
  shows "\<exists>res t. GetOrCreatePlainAccount mem_ops k v s = (res, t) \<and> ds_inv P t \<and> ds_abs P t = ds_abs P s \<and>
    (case lg_plain (ds_abs P s) k of
       Some b \<Rightarrow> \<exists>p. res = Inr p \<and> el_bytes PlainAccount_ops p = b
     | None \<Rightarrow> res = (if v \<and> lg_regs (ds_abs P s) k \<noteq> None then Inl (Error ''PlainAccount should not have been registered before'')
                      else Inr (NewPlainAccount k 0)))"
proof -
  obtain eo s1 where g: "on_plain (Get PlainAccount_ops mem_ops k) s = (Inr eo, s1)" "ds_inv P s1" "ds_abs P s1 = ds_abs P s"
    "map_option (el_bytes PlainAccount_ops) eo = lg_plain (ds_abs P s) k"
    using plain_Get_run[OF assms] by blast
  show ?thesis
  proof (cases eo)
    case (Some p)
    then show ?thesis using g by (auto simp: GetOrCreatePlainAccount_def gbind_Inr split: option.split)
  next
    case None
    then show ?thesis using g CreatePlainAccount_run[OF assms(1) g(2) assms(3), of v]
      by (auto simp: GetOrCreatePlainAccount_def gbind_Inr split: option.split)
  qed
qed

end
