(* ===== verification/Ledger_Balances.thy ===== *)
theory Ledger_Balances
  imports Ledger
begin

text \<open>
  What the ledger operations do to the encrypted balances: creating accounts, crediting pending stakes
  and resolving conditional payments.
\<close>

section \<open>The accounts of one map\<close>

definition account_bytes :: "'p G1Ops \<Rightarrow> 'p ElGamal \<Rightarrow> bytes" where
  "account_bytes P e = PutUvarint 0 @ amount_bytes P e"

abbreviation "acc_of P h x \<equiv> hm_contents (Account_ops P) mem_view (h, x)"

lemma acc_map_okD:
  assumes "acc_map_ok P asset h x"
  shows "acc_core P asset (h, x)" "length k = PublicKeySize \<Longrightarrow> \<not> bad_key h k" "cells_wf h" "tx_IsWritable mem_ops x"
  using assms by (auto simp: acc_map_ok_def bad_key_def hm_core_def)

lemma acc_keeps_ok:
  assumes "acc_map_ok P asset h x" "acc_core P asset (h', x')" "hash_map_block.keeps mem_view (h, x) (h', x')" "g1_codec P"
  shows "acc_map_ok P asset h' x'" "mem_view x' = mem_view x"
  using assms(1-3)
  by (simp_all add: acc_map_ok_def hash_map_block.keeps_def[OF account_laws[of P asset]]
      hash_map_block.static_def[OF account_laws[of P asset]])

lemma Account_ok_bytes:
  assumes "Account_ok P asset k a"
  obtains e where "ba_Amount (acc_Balance a) = Some e" "amount_ok P e" "el_bytes (Account_ops P) a = account_bytes P e"
  using assms Account_el_bytes[OF assms] by (auto simp: Account_ok_def account_bytes_def)

lemma acc_Get_run:
  assumes K: "g1_codec P" and "acc_map_ok P asset h x" "length k = PublicKeySize"
  shows "\<exists>ao h' x'. Get (Account_ops P) mem_ops k (h, x) = (Inr ao, (h', x')) \<and> acc_map_ok P asset h' x' \<and>
    mem_view x' = mem_view x \<and> acc_of P h' x' = acc_of P h x \<and>
    map_option (el_bytes (Account_ops P)) ao = acc_of P h x k \<and> (\<forall>a. ao = Some a \<longrightarrow> Account_ok P asset k a) \<and>
    (\<exists>c. change_at h' k = Some c \<and> ch_Element c = ao)"
proof -
  note L = account_laws[of P asset] and D = acc_map_okD[OF assms(2)]
  obtain ao h' x' where g: "Get (Account_ops P) mem_ops k (h, x) = (Inr ao, (h', x'))" "acc_core P asset (h', x')"
    "hash_map_block.keeps mem_view (h, x) (h', x')" "acc_of P h' x' = acc_of P h x"
    "map_option (el_bytes (Account_ops P)) ao = acc_of P h x k" "\<forall>a. ao = Some a \<longrightarrow> Account_ok P asset k a"
    using hash_map_block.Get_ok[OF L D(1) D(2)[OF assms(3)]] by blast
  show ?thesis
    using g acc_keeps_ok[OF assms(2) g(2,3) K] hash_map_block.Get_change[OF L D(1) g(1)] by blast
qed

text \<open>Storing an account under its key.\<close>

lemma acc_Update_run:
  assumes K: "g1_codec P" and "acc_map_ok P asset h x" "length k = PublicKeySize" "Account_ok P asset k a"
  shows "\<exists>a' h' x'. Update (Account_ops P) mem_ops k (Some a) (h, x) = (Inr a', (h', x')) \<and> acc_map_ok P asset h' x' \<and>
    mem_view x' = mem_view x \<and> acc_of P h' x' = (acc_of P h x)(k \<mapsto> el_bytes (Account_ops P) a) \<and>
    el_bytes (Account_ops P) a' = el_bytes (Account_ops P) a \<and> Account_ok P asset k a' \<and>
    (\<exists>c. change_at h' k = Some c \<and> ch_Element c = Some a')"
proof -
  note L = account_laws[of P asset] and D = acc_map_okD[OF assms(2)]
  have sk: "el_SetKey (Account_ops P) k a = a" using assms(4) by (simp add: Account_ops_def Account_ok_def)
  then have ok: "Account_ok P asset k (el_SetKey (Account_ops P) k a)" using assms(4) by simp
  obtain a' h' x' where u: "Update (Account_ops P) mem_ops k (Some a) (h, x) = (Inr a', (h', x'))" "acc_core P asset (h', x')"
    "hash_map_block.keeps mem_view (h, x) (h', x')" "acc_of P h' x' = (acc_of P h x)(k \<mapsto> el_bytes (Account_ops P) a)"
    "el_bytes (Account_ops P) a' = el_bytes (Account_ops P) a" "Account_ok P asset k a'"
    using hash_map_block.Update_ok[OF L D(1) D(2)[OF assms(3)] ok] unfolding sk by blast
  show ?thesis
    using u acc_keeps_ok[OF assms(2) u(2,3) K] hash_map_block.Update_change[OF L D(1) D(2)[OF assms(3)] ok u(1)] by blast
qed

lemma credit_account_run:
  assumes K: "g1_codec P" and "acc_map_ok P asset h x" "length k = PublicKeySize" "Account_ok P asset k a"
    and "change_at h k = Some c" "ch_Element c = Some a" "ba_Amount (acc_Balance a) = Some e0"
    and "amount_ok P e" "ElGamal_Add P e0 e = Inr e1"
  shows "\<exists>h' x'. credit_account P mem_ops k a e (h, x) = (Inr (), (h', x')) \<and> acc_map_ok P asset h' x' \<and>
    mem_view x' = mem_view x \<and> acc_of P h' x' = (acc_of P h x)(k \<mapsto> account_bytes P e1)"
proof -
  note L = account_laws[of P asset] and D = acc_map_okD[OF assms(2)]
  let ?a = "a\<lparr>acc_Balance := (acc_Balance a)\<lparr>ba_Amount := Some e1\<rparr>\<rparr>"
  have e1: "amount_ok P e1"
    using amount_ok_Add[of P e0 e] assms(4,7-9) by (auto simp: Account_ok_def)
  then have ok: "Account_ok P asset k ?a" using assms(4) by (simp add: Account_ok_def)
  have b: "el_bytes (Account_ops P) ?a = account_bytes P e1"
    using Account_el_bytes[OF ok] by (simp add: account_bytes_def)
  have v: "el_Validate (Account_ops P) (el_SetKey (Account_ops P) k ?a) = Inr ()"
    using ok by (simp add: Account_ops_def Account_ok_def Account_Validate_def)
  obtain a' h' x' where u: "Update (Account_ops P) mem_ops k (Some ?a) (h, x) = (Inr a', (h', x'))" "acc_map_ok P asset h' x'"
    "mem_view x' = mem_view x" "acc_of P h' x' = (acc_of P h x)(k \<mapsto> account_bytes P e1)"
    using acc_Update_run[OF K assms(2,3) ok] b by auto
  have "gbind (set_element k ?a) (\<lambda>_. Update (Account_ops P) mem_ops k (Some ?a)) (h, x) = (Inr a', (h', x'))"
    using hash_map_block.set_element_Update[OF L assms(5) _ D(3) D(2)[OF assms(3)] v] assms(6) u(1) by simp
  then have "credit_account P mem_ops k a e (h, x) = (Inr (), (h', x'))"
    using assms(7,9) by (simp add: credit_account_def AddEchanges_def set_element_def gbind_Inr)
  with u show ?thesis by blast
qed

text \<open>What crediting \<open>e\<close> to a key does to the contents of the map.\<close>

definition credit :: "'p G1Ops \<Rightarrow> bytes \<Rightarrow> 'p ElGamal \<Rightarrow> (bytes \<Rightarrow> bytes option) \<Rightarrow> bytes \<Rightarrow> bytes option" where
  "credit P k e m =
     (case Option.bind (m k) (decode_balance P) of
        None \<Rightarrow> m
      | Some e0 \<Rightarrow> (case ElGamal_Add P e0 e of Inl _ \<Rightarrow> m | Inr e1 \<Rightarrow> m(k \<mapsto> account_bytes P e1)))"

lemma decode_account_bytes: "g1_codec P \<Longrightarrow> amount_ok P e \<Longrightarrow> decode_balance P (account_bytes P e) = Some e"
  by (simp add: account_bytes_def decode_account)

lemma process_stake_run:
  assumes K: "g1_codec P" and "acc_map_ok P asset h x" "length (ps_PublicKey p) = PublicKeySize"
    and "acc_of P h x (ps_PublicKey p) \<noteq> None" "ElGamal_Deserialize P (ps_PendingAmount p) = Inr e"
  shows "\<exists>h' x'. process_stake P mem_ops p (h, x) = (Inr (), (h', x')) \<and> acc_map_ok P asset h' x' \<and>
    mem_view x' = mem_view x \<and> acc_of P h' x' = credit P (ps_PublicKey p) e (acc_of P h x)"
proof -
  let ?k = "ps_PublicKey p"
  obtain ao h1 x1 c where g: "Get (Account_ops P) mem_ops ?k (h, x) = (Inr ao, (h1, x1))" "acc_map_ok P asset h1 x1"
    "mem_view x1 = mem_view x" "acc_of P h1 x1 = acc_of P h x" "map_option (el_bytes (Account_ops P)) ao = acc_of P h x ?k"
    "\<forall>a. ao = Some a \<longrightarrow> Account_ok P asset ?k a" "change_at h1 ?k = Some c" "ch_Element c = ao"
    using acc_Get_run[OF assms(1-3)] by blast
  obtain a where a: "ao = Some a" using g(5) assms(4) by (cases ao) auto
  then have ok: "Account_ok P asset ?k a" using g(6) by blast
  obtain e0 where e0: "ba_Amount (acc_Balance a) = Some e0" "amount_ok P e0" "el_bytes (Account_ops P) a = account_bytes P e0"
    using Account_ok_bytes[OF ok] by blast
  note eok = ElGamal_Deserialize_ok[OF assms(5)]
  obtain e1 where e1: "ElGamal_Add P e0 e = Inr e1" using amount_ok_Add[OF e0(2) eok] by blast
  have "acc_of P h x ?k = Some (account_bytes P e0)" using g(5) a e0(3) by simp
  then have "credit P ?k e (acc_of P h x) = (acc_of P h x)(?k \<mapsto> account_bytes P e1)"
    using e1 decode_account_bytes[OF K e0(2)] by (simp add: credit_def)
  then show ?thesis
    using credit_account_run[OF K g(2) assms(3) ok g(7) _ e0(1) eok e1] g(1,3,4,8) a assms(5)
    by (auto simp: process_stake_def gbind_Inr)
qed

lemma credit_dom: "(credit P k e m j = None) = (m j = None)"
  by (auto simp: credit_def Option.bind_eq_Some_conv split: option.split sum.split)

definition pending_amount :: "'p G1Ops \<Rightarrow> PendingStake \<Rightarrow> 'p ElGamal" where
  "pending_amount P p = (case ElGamal_Deserialize P (ps_PendingAmount p) of Inr e \<Rightarrow> e | Inl _ \<Rightarrow> NewElGamal P)"

lemma process_stakes_run:
  assumes K: "g1_codec P" and "acc_map_ok P asset h x"
    and "\<forall>p \<in> set ps. length (ps_PublicKey p) = PublicKeySize \<and> acc_of P h x (ps_PublicKey p) \<noteq> None \<and>
           ElGamal_Deserialize P (ps_PendingAmount p) = Inr (pending_amount P p)"
  shows "\<exists>h' x'. gfor ps (process_stake P mem_ops) (h, x) = (Inr (), (h', x')) \<and> acc_map_ok P asset h' x' \<and>
    mem_view x' = mem_view x \<and> acc_of P h' x' = fold (\<lambda>p. credit P (ps_PublicKey p) (pending_amount P p)) ps (acc_of P h x)"
  using assms(2,3)
proof (induction ps arbitrary: h x)
  case Nil
  then show ?case by auto
next
  case (Cons p ps)
  obtain h1 x1 where 1: "process_stake P mem_ops p (h, x) = (Inr (), (h1, x1))" "acc_map_ok P asset h1 x1"
    "mem_view x1 = mem_view x" "acc_of P h1 x1 = credit P (ps_PublicKey p) (pending_amount P p) (acc_of P h x)"
    using process_stake_run[OF K Cons.prems(1), of p "pending_amount P p"] Cons.prems(2) by auto
  have "\<forall>q \<in> set ps. length (ps_PublicKey q) = PublicKeySize \<and> acc_of P h1 x1 (ps_PublicKey q) \<noteq> None \<and>
           ElGamal_Deserialize P (ps_PendingAmount q) = Inr (pending_amount P q)"
    using Cons.prems(2) by (simp add: 1(4) credit_dom del: not_None_eq)
  from Cons.IH[OF 1(2) this] show ?case using 1 by (auto simp: gbind_Inr)
qed

text \<open>The balance a private key reads after a series of credits.\<close>

definition balance_of :: "'p G1Ops \<Rightarrow> (bytes \<Rightarrow> bytes option) \<Rightarrow> bytes \<Rightarrow> 'p ElGamal option" where
  "balance_of P m k = Option.bind (m k) (decode_balance P)"

definition accounts_wf :: "'p G1Ops \<Rightarrow> (bytes \<Rightarrow> bytes option) \<Rightarrow> bool" where
  "accounts_wf P m \<longleftrightarrow> (\<forall>k b. m k = Some b \<longrightarrow> (\<exists>e. amount_ok P e \<and> b = account_bytes P e))"

lemma credit_balance:
  assumes L: "g1_laws P" and K: "g1_codec P" and "accounts_wf P m" "amount_ok P e"
    and "balance_of P m k = Some b" "opens P key b v" "j = k \<Longrightarrow> opens P key e w"
  shows "\<exists>b'. balance_of P (credit P j e m) k = Some b' \<and> opens P key b' (v + (if j = k then w else 0))"
proof (cases "j = k")
  case False
  then show ?thesis using assms(5,6)
    by (auto simp: credit_def balance_of_def split: option.split sum.split)
next
  case True
  obtain b0 where b0: "m k = Some b0" "decode_balance P b0 = Some b" using assms(5) by (auto simp: balance_of_def Option.bind_eq_Some_conv)
  then have bok: "amount_ok P b" using assms(3) decode_account_bytes[OF K] by (fastforce simp: accounts_wf_def)
  obtain b' where b': "ElGamal_Add P b e = Inr b'" "opens P key b' (v + w)"
    using opens_Add[OF L assms(6)] assms(7) True by blast
  moreover have "amount_ok P b'" using amount_ok_Add[OF bok assms(4)] b'(1) by auto
  ultimately show ?thesis
    using True b0 decode_account_bytes[OF K] by (auto simp: credit_def balance_of_def)
qed

lemma credit_wf:
  assumes "g1_codec P" "accounts_wf P m" "amount_ok P e"
  shows "accounts_wf P (credit P k e m)"
proof -
  have "amount_ok P e1" if "m k = Some b" "decode_balance P b = Some e0" "ElGamal_Add P e0 e = Inr e1" for b e0 e1
    using assms that decode_account_bytes[OF assms(1)] amount_ok_Add[of P e0 e] by (fastforce simp: accounts_wf_def)
  then show ?thesis using assms(2)
    by (auto simp: credit_def accounts_wf_def Option.bind_eq_Some_conv split: option.split sum.split)
qed

lemma credits_balance:
  assumes L: "g1_laws P" and K: "g1_codec P" and "accounts_wf P m"
    and "\<forall>(j, e, w) \<in> set cs. amount_ok P e \<and> (j = k \<longrightarrow> opens P key e w)"
    and "balance_of P m k = Some b" "opens P key b v"
  shows "\<exists>b'. balance_of P (fold (\<lambda>(j, e, w). credit P j e) cs m) k = Some b' \<and>
    opens P key b' (v + sum_list (map (\<lambda>(j, e, w). if j = k then w else 0) cs))"
  using assms(3-)
proof (induction cs arbitrary: m b v)
  case (Cons c cs)
  obtain j e w where c: "c = (j, e, w)" by (cases c)
  have e: "amount_ok P e" "j = k \<Longrightarrow> opens P key e w" using Cons.prems(2) c by auto
  obtain b1 where b1: "balance_of P (credit P j e m) k = Some b1" "opens P key b1 (v + (if j = k then w else 0))"
    using credit_balance[OF L K Cons.prems(1) e(1) Cons.prems(3,4) e(2)] by blast
  have "\<forall>(j, e, w) \<in> set cs. amount_ok P e \<and> (j = k \<longrightarrow> opens P key e w)" using Cons.prems(2) by simp
  from Cons.IH[OF credit_wf[OF K Cons.prems(1) e(1)] this b1] show ?case using c by (simp add: add.assoc)
qed simp

section \<open>Pending stakes\<close>

lemma lg_accounts_wf:
  assumes "g1_codec P" "acc_map_ok P asset h x"
  shows "accounts_wf P (acc_of P h x)"
  unfolding accounts_wf_def
proof (intro allI impI)
  fix k b assume b: "acc_of P h x k = Some b"
  note L = account_laws[of P asset] and D = acc_map_okD[OF assms(2)]
  have "\<exists>a. Account_ok P asset k a \<and> el_bytes (Account_ops P) a = b"
  proof (cases "change_at h k")
    case (Some c)
    then show ?thesis
      using b hash_map_block.coreD(8)[OF L D(1), of k c] by (auto simp: hm_contents_def change_ok_def)
  next
    case None
    then show ?thesis
      using b hash_map_block.coreD(7)[OF L D(1), of k] by (auto simp: hm_contents_def stored_ok_def hm_stored_def)
  qed
  then show "\<exists>e. amount_ok P e \<and> b = account_bytes P e" using Account_ok_bytes by metis
qed

lemma ProcessPendingStakes_run:
  assumes K: "g1_codec P" and "ds_inv P s"
    and "lg_pending (ds_abs P s) (FormatUint n) = Some (el_bytes PendingStakes_ops ps)" "PendingStakes_ok (FormatUint n) ps"
    and "\<forall>p \<in> set (pst_Pending ps). lg_accounts (ds_abs P s) NATIVE_ASSET_FULL (ps_PublicKey p) \<noteq> None \<and>
           ElGamal_Deserialize P (ps_PendingAmount p) = Inr (pending_amount P p)"
  shows "\<exists>t. ProcessPendingStakes P mem_ops n s = (Inr (), t) \<and> ds_inv P t \<and>
    accounts_wf P (lg_accounts (ds_abs P s) NATIVE_ASSET_FULL) \<and>
    ds_abs P t = (ds_abs P s)\<lparr>lg_pending := (lg_pending (ds_abs P s))(FormatUint n := None),
      lg_accounts := (lg_accounts (ds_abs P s))(NATIVE_ASSET_FULL :=
        fold (\<lambda>p. credit P (ps_PublicKey p) (pending_amount P p)) (pst_Pending ps) (lg_accounts (ds_abs P s) NATIVE_ASSET_FULL))\<rparr>"
proof -
  have n: "length NATIVE_ASSET_FULL = ASSET_LENGTH" by (simp add: NATIVE_ASSET_FULL_def ASSET_LENGTH_def)
  obtain s1 where s1: "accs_GetMap P mem_ops NATIVE_ASSET_FULL s = (Inr (), s1)" "ds_inv P s1" "ds_abs P s1 = ds_abs P s"
    "map_of (ac_maps (ds_AccsCollection s1)) NATIVE_ASSET_FULL \<noteq> None"
    using accs_GetMap_run[OF K assms(2) n] by auto
  obtain eo s2 where s2: "on_pending (GetPendingStakes mem_ops n) s1 = (Inr eo, s2)" "ds_inv P s2" "ds_abs P s2 = ds_abs P s"
    "map_option (el_bytes PendingStakes_ops) eo = lg_pending (ds_abs P s) (FormatUint n)" "\<forall>e. eo = Some e \<longrightarrow> PendingStakes_ok (FormatUint n) e"
    using pend_Get_run[OF K s1(2), of n] s1(3) by auto
  have same: "ds_AccsCollection s2 = ds_AccsCollection s1" using s2(1) by (auto simp: on_pending_def split: prod.splits)
  then obtain h where h: "map_of (ac_maps (ds_AccsCollection s2)) NATIVE_ASSET_FULL = Some h" using s1(4) by auto
  obtain e where e: "eo = Some e" "el_bytes PendingStakes_ops e = el_bytes PendingStakes_ops ps" using s2(4) assms(3) by (cases eo) auto
  have "el_SetIndex PendingStakes_ops 0 e = el_SetIndex PendingStakes_ops 0 ps"
    by (rule pstakes.ser_inj[OF _ assms(4) e(2)]) (use s2(5) e(1) in blast)
  then have eq: "e = ps" by (simp add: PendingStakes_ops_def)
  note hok = ds_invD(8)[OF s2(2) h]
  have c: "lg_accounts (ds_abs P s) NATIVE_ASSET_FULL = acc_of P h (ds_DBTx s2)"
    using s2(3)[symmetric] h by (simp add: ds_abs_def acc_contents_def)
  have "\<forall>p \<in> set (pst_Pending ps). length (ps_PublicKey p) = PublicKeySize \<and> acc_of P h (ds_DBTx s2) (ps_PublicKey p) \<noteq> None \<and>
           ElGamal_Deserialize P (ps_PendingAmount p) = Inr (pending_amount P p)"
    using assms(4,5) c by (auto simp: PendingStakes_ok_def PendingStakes_Validate_iff)
  from process_stakes_run[OF K hok this] obtain h' x' where f:
    "gfor (pst_Pending ps) (process_stake P mem_ops) (h, ds_DBTx s2) = (Inr (), (h', x'))" "acc_map_ok P NATIVE_ASSET_FULL h' x'"
    "mem_view x' = mem_view (ds_DBTx s2)"
    "acc_of P h' x' = fold (\<lambda>p. credit P (ps_PublicKey p) (pending_amount P p)) (pst_Pending ps) (acc_of P h (ds_DBTx s2))"
    by blast
  obtain s3 where s3: "on_accs_of NATIVE_ASSET_FULL (gfor (pst_Pending ps) (process_stake P mem_ops)) s2 = (Inr (), s3)" "ds_inv P s3"
    "ds_abs P s3 = (ds_abs P s)\<lparr>lg_accounts := (lg_accounts (ds_abs P s))(NATIVE_ASSET_FULL := acc_of P h' x')\<rparr>"
    using on_accs_run[where m = "gfor (pst_Pending ps) (process_stake P mem_ops)", OF K s2(2) h f(1-3)] s2(3) by auto
  obtain h2 x2 where d: "Delete PendingStakes_ops mem_ops (FormatUint n) (ds_PendingStakes s3, ds_DBTx s3) = (Inr (), (h2, x2))" "pend_core (h2, x2)"
    "pstakes_map.keeps (ds_PendingStakes s3, ds_DBTx s3) (h2, x2)"
    "hm_contents PendingStakes_ops mem_view (h2, x2) = (hm_contents PendingStakes_ops mem_view (ds_PendingStakes s3, ds_DBTx s3))(FormatUint n := None)"
    using pstakes_map.Delete_ok[OF ds_invD(3)[OF s3(2)] ds_invD(7)[OF s3(2)]] by blast
  obtain t where t: "on_pending (Delete PendingStakes_ops mem_ops (FormatUint n)) s3 = (Inr (), t)" "ds_inv P t"
    "ds_abs P t = (ds_abs P s3)\<lparr>lg_pending := hm_contents PendingStakes_ops mem_view (h2, x2)\<rparr>"
    using on_pending_run[where m = "Delete PendingStakes_ops mem_ops (FormatUint n)", OF K s3(2) d(1-3)] by blast
  have "ProcessPendingStakes P mem_ops n s = (Inr (), t)"
    using s1(1) s2(1) e(1) eq s3(1) t(1) by (simp add: ProcessPendingStakes_def gbind_Inr)
  moreover have "hm_contents PendingStakes_ops mem_view (h2, x2) = (lg_pending (ds_abs P s))(FormatUint n := None)"
    using d(4) s3(3) by (simp add: ds_abs_def)
  ultimately show ?thesis using t(2,3) s3(3) f(4) c lg_accounts_wf[OF K hok] by simp
qed

end
