(* ===== verification/Ledger_Steps.thy ===== *)
theory Ledger_Steps
  imports Ledger_Balances
begin

text \<open>
  The ledger as a state machine: the operations of \<^verbatim>\<open>data_storage.go\<close> as steps, with the failing
  calls included, and the invariants of the reachable ledgers.
\<close>

section \<open>Creating accounts\<close>

definition zero_amount :: "'p G1Ops \<Rightarrow> 'p \<Rightarrow> 'p ElGamal" where
  "zero_amount P pt = \<lparr>eg_G = g1_G P, eg_Randomness = None, eg_Left = Some pt, eg_Right = Some (g1_G P)\<rparr>"

lemma acc_Exists_run:
  assumes K: "g1_codec P" and "acc_map_ok P asset h x" "length k = PublicKeySize"
  shows "\<exists>x'. Exists mem_ops k (h, x) = (Inr (acc_of P h x k \<noteq> None), (h, x')) \<and> mem_view x' = mem_view x \<and>
    tx_IsWritable mem_ops x' \<and> acc_map_ok P asset h x' \<and> acc_of P h x' = acc_of P h x"
proof -
  note L = account_laws[of P asset] and D = acc_map_okD[OF assms(2)]
  obtain x' where "Exists mem_ops k (h, x) = (Inr (acc_of P h x k \<noteq> None), (h, x'))" "mem_view x' = mem_view x" "tx_IsWritable mem_ops x'"
    using hash_map_block.Exists_ok[OF L D(1) D(2)[OF assms(3)]] by blast
  then show ?thesis using acc_map_ok_view[OF K assms(2)] by blast
qed

lemma CreateNewAccount_run:
  assumes K: "g1_codec P" and "acc_map_ok P asset h x" "length k = PublicKeySize" "acc_of P h x k = None"
    and "g1_DecodeCompressed P k = Inr pt"
  shows "\<exists>a h' x'. CreateNewAccount P mem_ops asset k (h, x) = (Inr a, (h', x')) \<and> acc_map_ok P asset h' x' \<and>
    mem_view x' = mem_view x \<and> acc_of P h' x' = (acc_of P h x)(k \<mapsto> account_bytes P (zero_amount P pt)) \<and>
    ba_Amount (acc_Balance a) = Some (zero_amount P pt) \<and> Account_ok P asset k a \<and>
    (\<exists>c. change_at h' k = Some c \<and> ch_Element c = Some a)"
proof -
  let ?a = "\<lparr>acc_Key = k, acc_Asset = asset, acc_Index = 0, acc_Version = 0, acc_Balance = \<lparr>ba_Amount = Some (zero_amount P pt)\<rparr>\<rparr>"
  have new: "NewAccount P k 0 asset = Inr ?a"
    using assms(5) by (simp add: NewAccount_def NewBalanceHomomorphicEmptyBalance_def eg_construct zero_amount_def)
  have ok: "Account_ok P asset k ?a" by (simp add: Account_ok_def amount_ok_def zero_amount_def)
  have b: "el_bytes (Account_ops P) ?a = account_bytes P (zero_amount P pt)"
    using Account_el_bytes[OF ok] by (simp add: account_bytes_def)
  obtain x1 where x1: "Exists mem_ops k (h, x) = (Inr False, (h, x1))" "mem_view x1 = mem_view x" "acc_map_ok P asset h x1"
    "acc_of P h x1 = acc_of P h x"
    using acc_Exists_run[OF assms(1-3)] assms(4) by auto
  obtain a h' x' where u: "Update (Account_ops P) mem_ops k (Some ?a) (h, x1) = (Inr a, (h', x'))" "acc_map_ok P asset h' x'"
    "mem_view x' = mem_view x1" "acc_of P h' x' = (acc_of P h x1)(k \<mapsto> account_bytes P (zero_amount P pt))"
    "el_bytes (Account_ops P) a = account_bytes P (zero_amount P pt)" "Account_ok P asset k a"
    "\<exists>c. change_at h' k = Some c \<and> ch_Element c = Some a"
    using acc_Update_run[OF K x1(3) assms(3) ok] b by auto
  obtain e where e: "ba_Amount (acc_Balance a) = Some e" "amount_ok P e" "account_bytes P e = account_bytes P (zero_amount P pt)"
    using Account_ok_bytes[OF u(6)] u(5) by metis
  have "e = zero_amount P pt"
    using e(2,3) decode_account_bytes[OF K e(2)] decode_account_bytes[OF K, of "zero_amount P pt"]
    by (simp add: amount_ok_def zero_amount_def)
  moreover have "CreateNewAccount P mem_ops asset k (h, x) = (Inr a, (h', x'))"
    using new u(1) by (simp add: CreateNewAccount_def Create_def gbind_Inr[of "Exists mem_ops k", OF x1(1)])
  ultimately show ?thesis using u x1 e by auto
qed

lemma CreateNewAccount_fails:
  "g1_DecodeCompressed P k = Inl e \<Longrightarrow> CreateNewAccount P X asset k s = (Inl e, s)"
  by (simp add: CreateNewAccount_def NewAccount_def NewBalanceHomomorphicEmptyBalance_def)

text \<open>What creating an account does to the ledger; \<open>None\<close> when the key is not a point.\<close>

definition with_account :: "'p G1Ops \<Rightarrow> bytes \<Rightarrow> bytes \<Rightarrow> ledger \<Rightarrow> ledger" where
  "with_account P asset k L =
     (case g1_DecodeCompressed P k of
        Inl _ \<Rightarrow> L
      | Inr pt \<Rightarrow> L\<lparr>lg_accounts := (lg_accounts L)(asset := (lg_accounts L asset)(k \<mapsto> account_bytes P (zero_amount P pt)))\<rparr>)"

lemma on_accs_create_run:
  assumes K: "g1_codec P" and "ds_inv P s" "map_of (ac_maps (ds_AccsCollection s)) asset = Some h" "length k = PublicKeySize"
    and "lg_accounts (ds_abs P s) asset k = None"
  shows "\<exists>res t. on_accs_of asset (CreateNewAccount P mem_ops asset k) s = (res, t) \<and> ds_inv P t \<and>
    ds_abs P t = with_account P asset k (ds_abs P s) \<and> (\<forall>pt. g1_DecodeCompressed P k = Inr pt \<longrightarrow>
      (\<exists>a. res = Inr a \<and> ba_Amount (acc_Balance a) = Some (zero_amount P pt))) \<and> (\<forall>e. g1_DecodeCompressed P k = Inl e \<longrightarrow> res = Inl e)"
proof -
  let ?m = "CreateNewAccount P mem_ops asset k"
  note hok = ds_invD(8)[OF assms(2,3)]
  have c: "lg_accounts (ds_abs P s) asset = acc_of P h (ds_DBTx s)" using assms(3) by (simp add: ds_abs_def acc_contents_def)
  show ?thesis
  proof (cases "g1_DecodeCompressed P k")
    case (Inl e)
    have m: "?m (h, ds_DBTx s) = (Inl e, (h, ds_DBTx s))" by (rule CreateNewAccount_fails[OF Inl])
    obtain t where t: "on_accs_of asset ?m s = (Inl e, t)" "ds_inv P t"
      "ds_abs P t = (ds_abs P s)\<lparr>lg_accounts := (lg_accounts (ds_abs P s))(asset := acc_of P h (ds_DBTx s))\<rparr>"
      using on_accs_run[where m = ?m, OF K assms(2,3) m hok refl] by blast
    have "(lg_accounts (ds_abs P s))(asset := acc_of P h (ds_DBTx s)) = lg_accounts (ds_abs P s)"
      using c[symmetric] by (simp add: fun_upd_idem_iff)
    then show ?thesis using t Inl by (simp add: with_account_def)
  next
    case (Inr pt)
    have "acc_of P h (ds_DBTx s) k = None" using assms(5) c by simp
    then obtain a h' x' where u: "?m (h, ds_DBTx s) = (Inr a, (h', x'))" "acc_map_ok P asset h' x'" "mem_view x' = mem_view (ds_DBTx s)"
      "acc_of P h' x' = (acc_of P h (ds_DBTx s))(k \<mapsto> account_bytes P (zero_amount P pt))" "ba_Amount (acc_Balance a) = Some (zero_amount P pt)"
      using CreateNewAccount_run[OF K hok assms(4) _ Inr] by blast
    show ?thesis
      using on_accs_run[where m = ?m, OF K assms(2,3) u(1-3)] u(4,5) Inr c by (auto simp: with_account_def)
  qed
qed

lemma require_registered_run:
  assumes "g1_codec P" "ds_inv P s" "length k = PublicKeySize"
  shows "\<exists>t. require_registered mem_ops k v s =
     (if v \<and> lg_regs (ds_abs P s) k = None then Inl (Error ''Can't create Account as it is not Registered'') else Inr (), t) \<and>
    ds_inv P t \<and> ds_abs P t = ds_abs P s"
proof -
  obtain t where t: "on_regs (Exists mem_ops k) s = (Inr (lg_regs (ds_abs P s) k \<noteq> None), t)" "ds_inv P t" "ds_abs P t = ds_abs P s"
    using reg_Exists_run[OF assms] by blast
  show ?thesis
    using t assms(2) by (cases v) (simp_all add: require_registered_def gbind_Inr[of "on_regs (Exists mem_ops k)", OF t(1)])
qed

lemma GetOrCreateAccount_run:
  assumes K: "g1_codec P" and "ds_inv P s" "length k = PublicKeySize" "length asset = ASSET_LENGTH"
  shows "\<exists>res t. GetOrCreateAccount P mem_ops asset k v s = (res, t) \<and> ds_inv P t \<and>
    (if v \<and> lg_regs (ds_abs P s) k = None
     then res = Inl (Error ''Can't create Account as it is not Registered'') \<and> ds_abs P t = ds_abs P s
     else (case lg_accounts (ds_abs P s) asset k of
         Some b \<Rightarrow> (\<exists>a. res = Inr a \<and> el_bytes (Account_ops P) a = b) \<and> ds_abs P t = ds_abs P s
       | None \<Rightarrow> ds_abs P t = with_account P asset k (ds_abs P s) \<and>
           (\<forall>pt. g1_DecodeCompressed P k = Inr pt \<longrightarrow> (\<exists>a. res = Inr a \<and> ba_Amount (acc_Balance a) = Some (zero_amount P pt))) \<and>
           (\<forall>e. g1_DecodeCompressed P k = Inl e \<longrightarrow> res = Inl e)))"
proof -
  obtain s1 where s1: "require_registered mem_ops k v s =
     (if v \<and> lg_regs (ds_abs P s) k = None then Inl (Error ''Can't create Account as it is not Registered'') else Inr (), s1)"
    "ds_inv P s1" "ds_abs P s1 = ds_abs P s"
    using require_registered_run[OF assms(1-3)] by blast
  obtain s2 h where s2: "accs_GetMap P mem_ops asset s1 = (Inr (), s2)" "ds_inv P s2" "ds_abs P s2 = ds_abs P s"
    "map_of (ac_maps (ds_AccsCollection s2)) asset = Some h"
    using accs_GetMap_run[OF K s1(2) assms(4)] s1(3) by auto
  note hok = ds_invD(8)[OF s2(2,4)]
  have c: "lg_accounts (ds_abs P s) asset = acc_of P h (ds_DBTx s2)" using s2(3)[symmetric] s2(4) by (simp add: ds_abs_def acc_contents_def)
  let ?m = "Get (Account_ops P) mem_ops k"
  obtain ao h' x' where g: "?m (h, ds_DBTx s2) = (Inr ao, (h', x'))" "acc_map_ok P asset h' x'" "mem_view x' = mem_view (ds_DBTx s2)"
    "acc_of P h' x' = acc_of P h (ds_DBTx s2)" "map_option (el_bytes (Account_ops P)) ao = acc_of P h (ds_DBTx s2) k"
    using acc_Get_run[OF K hok assms(3)] by blast
  obtain s3 where s3: "on_accs_of asset ?m s2 = (Inr ao, s3)" "ds_inv P s3" "map_of (ac_maps (ds_AccsCollection s3)) asset = Some h'"
    "ds_abs P s3 = (ds_abs P s2)\<lparr>lg_accounts := (lg_accounts (ds_abs P s2))(asset := acc_of P h' x')\<rparr>"
    using on_accs_run[where m = ?m, OF K s2(2,4) g(1-3)] by blast
  have "(lg_accounts (ds_abs P s))(asset := acc_of P h (ds_DBTx s2)) = lg_accounts (ds_abs P s)"
    using c[symmetric] by (simp add: fun_upd_idem_iff)
  then have a3: "ds_abs P s3 = ds_abs P s" using s3(4) g(4) s2(3) by simp
  show ?thesis
  proof (cases "v \<and> lg_regs (ds_abs P s) k = None")
    case True
    then show ?thesis using s1 by (auto simp: GetOrCreateAccount_def gbind_Inl)
  next
    case False
    show ?thesis
    proof (cases ao)
      case (Some a)
      then show ?thesis using False s1(1) s2(1) s3(1,2) a3 g(5) c by (auto simp: GetOrCreateAccount_def gbind_Inr split: option.split)
    next
      case None
      then have n: "lg_accounts (ds_abs P s3) asset k = None" using a3 g(5) c by simp
      from on_accs_create_run[OF K s3(2,3) assms(3) n] show ?thesis
        using False None s1(1) s2(1) s3(1) a3 g(5) c n by (auto simp: GetOrCreateAccount_def gbind_Inr split: option.split)
    qed
  qed
qed

lemma CreateAccount_run:
  assumes K: "g1_codec P" and "ds_inv P s" "length k = PublicKeySize" "length asset = ASSET_LENGTH"
  shows "\<exists>res t. CreateAccount P mem_ops asset k v s = (res, t) \<and> ds_inv P t \<and>
    (if v \<and> lg_regs (ds_abs P s) k = None
     then res = Inl (Error ''Can't create Account as it is not Registered'') \<and> ds_abs P t = ds_abs P s
     else if lg_accounts (ds_abs P s) asset k \<noteq> None then res = Inl (Error ''Account already exists'') \<and> ds_abs P t = ds_abs P s
     else ds_abs P t = with_account P asset k (ds_abs P s) \<and>
       (\<forall>pt. g1_DecodeCompressed P k = Inr pt \<longrightarrow> (\<exists>a. res = Inr a \<and> ba_Amount (acc_Balance a) = Some (zero_amount P pt))) \<and>
       (\<forall>e. g1_DecodeCompressed P k = Inl e \<longrightarrow> res = Inl e))"
proof -
  obtain s1 where s1: "require_registered mem_ops k v s =
     (if v \<and> lg_regs (ds_abs P s) k = None then Inl (Error ''Can't create Account as it is not Registered'') else Inr (), s1)"
    "ds_inv P s1" "ds_abs P s1 = ds_abs P s"
    using require_registered_run[OF assms(1-3)] by blast
  obtain s2 h where s2: "accs_GetMap P mem_ops asset s1 = (Inr (), s2)" "ds_inv P s2" "ds_abs P s2 = ds_abs P s"
    "map_of (ac_maps (ds_AccsCollection s2)) asset = Some h"
    using accs_GetMap_run[OF K s1(2) assms(4)] s1(3) by auto
  note hok = ds_invD(8)[OF s2(2,4)]
  have c: "lg_accounts (ds_abs P s) asset = acc_of P h (ds_DBTx s2)" using s2(3)[symmetric] s2(4) by (simp add: ds_abs_def acc_contents_def)
  let ?m = "Exists mem_ops k :: ('a Account, StoreDBMemoryTransaction, bool) hm_go"
  obtain x' where g: "?m (h, ds_DBTx s2) = (Inr (acc_of P h (ds_DBTx s2) k \<noteq> None), (h, x'))" "acc_map_ok P asset h x'"
    "mem_view x' = mem_view (ds_DBTx s2)" "acc_of P h x' = acc_of P h (ds_DBTx s2)"
    using acc_Exists_run[OF K hok assms(3)] by blast
  obtain s3 where s3: "on_accs_of asset ?m s2 = (Inr (acc_of P h (ds_DBTx s2) k \<noteq> None), s3)" "ds_inv P s3"
    "map_of (ac_maps (ds_AccsCollection s3)) asset = Some h"
    "ds_abs P s3 = (ds_abs P s2)\<lparr>lg_accounts := (lg_accounts (ds_abs P s2))(asset := acc_of P h x')\<rparr>"
    using on_accs_run[where m = ?m, OF K s2(2,4) g(1-3)] by blast
  have "(lg_accounts (ds_abs P s))(asset := acc_of P h (ds_DBTx s2)) = lg_accounts (ds_abs P s)"
    using c[symmetric] by (simp add: fun_upd_idem_iff)
  then have a3: "ds_abs P s3 = ds_abs P s" using s3(4) g(4) s2(3) by simp
  consider "v \<and> lg_regs (ds_abs P s) k = None" | "\<not> (v \<and> lg_regs (ds_abs P s) k = None)" "lg_accounts (ds_abs P s) asset k \<noteq> None"
    | "\<not> (v \<and> lg_regs (ds_abs P s) k = None)" "lg_accounts (ds_abs P s) asset k = None" by blast
  then show ?thesis
  proof cases
    case 1
    then show ?thesis using s1 by (auto simp: CreateAccount_def gbind_Inl)
  next
    case 2
    then show ?thesis using s1(1) s2(1) s3(1,2) a3 c by (auto simp: CreateAccount_def gbind_Inr)
  next
    case 3
    then have n: "lg_accounts (ds_abs P s3) asset k = None" using a3 by simp
    from on_accs_create_run[OF K s3(2,3) assms(3) n] show ?thesis
      using 3 s1(1) s2(1) a3 c by (auto simp: CreateAccount_def gbind_Inr gbind_Inr[of "on_accs_of asset ?m", OF s3(1)])
  qed
qed

section \<open>Adding a pending stake\<close>

lemma on_pending_bind: "gbind (on_pending m) (\<lambda>v. on_pending (f v)) = on_pending (gbind m f)"
  by (rule ext) (auto simp: on_pending_def gbind_def split: prod.split sum.split)

text \<open>The entry of a height, found or created.\<close>

definition pending_list :: "ledger \<Rightarrow> uint64 \<Rightarrow> PendingStake list \<Rightarrow> bool" where
  "pending_list L n ps \<longleftrightarrow>
     (case lg_pending L (FormatUint n) of
        None \<Rightarrow> ps = []
      | Some b \<Rightarrow> (\<exists>e. PendingStakes_ok (FormatUint n) e \<and> el_bytes PendingStakes_ops e = b \<and> pst_Pending e = ps))"

lemma pending_same: "\<exists>b. L = L\<lparr>lg_pending := (lg_pending L)(k := b)\<rparr>"
  by (rule exI[of _ "lg_pending L k"]) simp

lemma pending_entry_run:
  assumes K: "g1_codec P" and "ds_inv P s"
  shows "\<exists>e t. gbind (on_pending (GetPendingStakes mem_ops n)) (\<lambda>found.
       case found of Some p \<Rightarrow> gret p | None \<Rightarrow> on_pending (CreateNewPendingStakes mem_ops n)) s = (Inr e, t) \<and>
     ds_inv P t \<and> PendingStakes_ok (FormatUint n) e \<and> pending_list (ds_abs P s) n (pst_Pending e) \<and>
     (\<exists>b. ds_abs P t = (ds_abs P s)\<lparr>lg_pending := (lg_pending (ds_abs P s))(FormatUint n := b)\<rparr>) \<and>
     (\<exists>c. change_at (ds_PendingStakes t) (FormatUint n) = Some c \<and> ch_Element c = Some e)"
proof -
  let ?k = "FormatUint n"
  obtain eo s1 c where s1: "on_pending (GetPendingStakes mem_ops n) s = (Inr eo, s1)" "ds_inv P s1" "ds_abs P s1 = ds_abs P s"
    "map_option (el_bytes PendingStakes_ops) eo = lg_pending (ds_abs P s) ?k" "\<forall>e. eo = Some e \<longrightarrow> PendingStakes_ok ?k e"
    "change_at (ds_PendingStakes s1) ?k = Some c" "ch_Element c = eo"
    using pend_Get_run[OF assms, of n] by blast
  show ?thesis
  proof (cases eo)
    case (Some e)
    have "pending_list (ds_abs P s) n (pst_Pending e)"
      using s1(4,5) Some by (auto simp: pending_list_def split: option.split)
    then show ?thesis using s1 Some pending_same[of "ds_abs P s" ?k] by (auto simp: gbind_Inr)
  next
    case None
    let ?e = "(NewPendingStakes ?k 0)\<lparr>pst_Height := n\<rparr>"
    have ok: "PendingStakes_ok ?k (el_SetKey PendingStakes_ops ?k ?e)"
      by (simp add: PendingStakes_ok_def PendingStakes_ops_def NewPendingStakes_def PendingStakes_Validate_iff)
    note core = ds_invD(3)[OF s1(2)] and bk = ds_invD(7)[OF s1(2), of ?k]
    have no: "hm_contents PendingStakes_ops mem_view (ds_PendingStakes s1, ds_DBTx s1) ?k = None"
      using s1(3,4) None by (simp add: ds_abs_def)
    obtain x where x: "Create PendingStakes_ops mem_ops ?k (Some ?e) (ds_PendingStakes s1, ds_DBTx s1) =
        Update PendingStakes_ops mem_ops ?k (Some ?e) (ds_PendingStakes s1, x)" "pend_core (ds_PendingStakes s1, x)" "mem_view x = mem_view (ds_DBTx s1)"
      using pstakes_map.Create_ok[OF core bk ok] no by auto
    obtain d h' x' where u: "Update PendingStakes_ops mem_ops ?k (Some ?e) (ds_PendingStakes s1, x) = (Inr d, (h', x'))" "pend_core (h', x')"
      "pstakes_map.keeps (ds_PendingStakes s1, x) (h', x')"
      "hm_contents PendingStakes_ops mem_view (h', x') =
         (hm_contents PendingStakes_ops mem_view (ds_PendingStakes s1, x))(?k \<mapsto> el_bytes PendingStakes_ops (el_SetKey PendingStakes_ops ?k ?e))"
      "PendingStakes_ok ?k d" "el_bytes PendingStakes_ops d = el_bytes PendingStakes_ops (el_SetKey PendingStakes_ops ?k ?e)"
      using pstakes_map.Update_ok[OF x(2) bk ok] by blast
    have "el_SetIndex PendingStakes_ops 0 d = el_SetIndex PendingStakes_ops 0 (el_SetKey PendingStakes_ops ?k ?e)"
      by (rule pstakes.ser_inj[OF u(5) ok u(6)])
    then have nil: "pst_Pending d = []" by (simp add: PendingStakes_ops_def NewPendingStakes_def)
    have k: "pstakes_map.keeps (ds_PendingStakes s1, ds_DBTx s1) (h', x')" using u(3) x(3) by (simp add: pstakes_map.keeps_def)
    have cr: "CreateNewPendingStakes mem_ops n (ds_PendingStakes s1, ds_DBTx s1) = (Inr d, (h', x'))"
      using x(1) u(1) by (simp add: CreateNewPendingStakes_def)
    obtain t where t: "on_pending (CreateNewPendingStakes mem_ops n) s1 = (Inr d, t)" "ds_inv P t"
      "ds_abs P t = (ds_abs P s1)\<lparr>lg_pending := hm_contents PendingStakes_ops mem_view (h', x')\<rparr>"
      using on_pending_run[where m = "CreateNewPendingStakes mem_ops n", OF K s1(2) cr u(2) k] by blast
    moreover have "ds_PendingStakes t = h'" using t(1) cr by (auto simp: on_pending_def)
    moreover have "hm_contents PendingStakes_ops mem_view (h', x') =
        (lg_pending (ds_abs P s))(?k \<mapsto> el_bytes PendingStakes_ops (el_SetKey PendingStakes_ops ?k ?e))"
      using u(4) s1(3)[symmetric] by (simp add: ds_abs_def hm_contents_view[OF x(3)])
    moreover have "pending_list (ds_abs P s) n (pst_Pending d)"
      using nil s1(4) None by (simp add: pending_list_def)
    moreover note pstakes_map.Update_change[OF x(2) bk ok u(1)] u(5)
    ultimately show ?thesis
      using s1(1,3) None by (auto simp: gbind_Inr[of "on_pending (GetPendingStakes mem_ops n)", OF s1(1)])
  qed
qed

text \<open>Adding a stake appends it to the entry of the height.\<close>

lemma AddPendingStake_run:
  assumes K: "g1_codec P" and "ds_inv P s" "length k = PublicKeySize" "amount_ok P e"
    and room: "\<And>ps. pending_list (ds_abs P s) n ps \<Longrightarrow> Suc (length ps) * 8 \<le> 2 ^ 48"
  shows "\<exists>res t. AddPendingStake P mem_ops k e n s = (res, t) \<and> ds_inv P t \<and>
    (\<exists>b. ds_abs P t = (ds_abs P s)\<lparr>lg_pending := (lg_pending (ds_abs P s))(FormatUint n := b)\<rparr>) \<and>
    (lg_regs (ds_abs P s) k = None \<longrightarrow> res = Inl (Error ''Account was not registered'') \<and> ds_abs P t = ds_abs P s) \<and>
    (\<forall>r. Registration_ok k r \<longrightarrow> lg_regs (ds_abs P s) k = Some (el_bytes Registration_ops r) \<longrightarrow>
       (if reg_Staked r then res = Inr () \<and> (\<exists>ps. pending_list (ds_abs P s) n ps \<and>
            pending_list (ds_abs P t) n (ps @ [\<lparr>ps_PublicKey = k, ps_PendingAmount = amount_bytes P e\<rparr>]))
        else res = Inl (Error ''reg.Staked is false'') \<and> ds_abs P t = ds_abs P s))"
proof -
  let ?n = "FormatUint n" and ?st = "\<lparr>ps_PublicKey = k, ps_PendingAmount = amount_bytes P e\<rparr>"
  note ser = amount_codec[OF K assms(4)]
  note triv = pending_same[of "ds_abs P s" ?n]
  obtain ro s1 where s1: "on_regs (Get Registration_ops mem_ops k) s = (Inr ro, s1)" "ds_inv P s1" "ds_abs P s1 = ds_abs P s"
    "map_option (el_bytes Registration_ops) ro = lg_regs (ds_abs P s) k" "\<forall>r. ro = Some r \<longrightarrow> Registration_ok k r"
    using reg_Get_run[OF assms(1-3)] reg_map.Get_ok[OF ds_invD(1)[OF assms(2)] ds_invD(5)[OF assms(2,3)]]
    by (auto simp: on_regs_def split: prod.splits)
  show ?thesis
  proof (cases "\<exists>r. ro = Some r \<and> reg_Staked r")
    case False
    then show ?thesis
    proof (cases ro)
      case None
      then have "AddPendingStake P mem_ops k e n s = (Inl (Error ''Account was not registered''), s1)"
        using s1(1) by (simp add: AddPendingStake_def gbind_Inr)
      then show ?thesis using s1 None triv by auto
    next
      case (Some r)
      then have "AddPendingStake P mem_ops k e n s = (Inl (Error ''reg.Staked is false''), s1)"
        using s1(1) False by (simp add: AddPendingStake_def gbind_Inr)
      moreover have "\<not> reg_Staked r'"
        if "Registration_ok k r'" "lg_regs (ds_abs P s) k = Some (el_bytes Registration_ops r')" for r'
        using reg.ser_inj[OF that(1), of r 0] that(2) s1(4,5) Some False by (cases r; cases r') (auto simp: Registration_ops_def)
      moreover have "lg_regs (ds_abs P s) k \<noteq> None" using s1(4) Some by (metis option.discI option.simps(9))
      ultimately show ?thesis
        using s1(2,3) triv by (intro exI[of _ "Inl (Error ''reg.Staked is false'')"] exI[of _ s1]) simp
    qed
  next
    case True
    then obtain r where r: "ro = Some r" "reg_Staked r" by blast
    obtain p s2 b c where s2: "gbind (on_pending (GetPendingStakes mem_ops n)) (\<lambda>found.
       case found of Some p \<Rightarrow> gret p | None \<Rightarrow> on_pending (CreateNewPendingStakes mem_ops n)) s1 = (Inr p, s2)"
      "ds_inv P s2" "PendingStakes_ok ?n p" "pending_list (ds_abs P s) n (pst_Pending p)"
      "ds_abs P s2 = (ds_abs P s)\<lparr>lg_pending := (lg_pending (ds_abs P s))(?n := b)\<rparr>"
      "change_at (ds_PendingStakes s2) ?n = Some c" "ch_Element c = Some p"
      using pending_entry_run[OF K s1(2), of n] s1(3) by auto
    let ?p = "p\<lparr>pst_Pending := pst_Pending p @ [?st]\<rparr>"
    let ?get = "gbind (on_pending (GetPendingStakes mem_ops n)) (\<lambda>found.
       case found of Some p \<Rightarrow> gret p | None \<Rightarrow> on_pending (CreateNewPendingStakes mem_ops n))"
    have ok: "PendingStakes_ok ?n (el_SetKey PendingStakes_ops ?n ?p)"
      using s2(3) room[OF s2(4)] ser(2) assms(3)
      by (simp add: PendingStakes_ok_def PendingStakes_ops_def PendingStakes_Validate_iff PendingStake_Validate_def)
    note core = ds_invD(3)[OF s2(2)] and bk = ds_invD(7)[OF s2(2), of ?n]
    obtain d h' x' where u: "Update PendingStakes_ops mem_ops ?n (Some ?p) (ds_PendingStakes s2, ds_DBTx s2) = (Inr d, (h', x'))" "pend_core (h', x')"
      "pstakes_map.keeps (ds_PendingStakes s2, ds_DBTx s2) (h', x')"
      "hm_contents PendingStakes_ops mem_view (h', x') =
         (hm_contents PendingStakes_ops mem_view (ds_PendingStakes s2, ds_DBTx s2))(?n \<mapsto> el_bytes PendingStakes_ops (el_SetKey PendingStakes_ops ?n ?p))"
      using pstakes_map.Update_ok[OF core bk ok] by blast
    let ?m = "gbind (set_element ?n ?p) (\<lambda>_. Update PendingStakes_ops mem_ops ?n (Some ?p))"
    have m: "?m (ds_PendingStakes s2, ds_DBTx s2) = (Inr d, (h', x'))"
      using pstakes_map.set_element_Update[OF s2(6) _ _ bk pstakes.Validate_ok[OF ok]] s2(7) u(1) pstakes_map.coreD(4)[OF core] by simp
    obtain t where t: "on_pending ?m s2 = (Inr d, t)" "ds_inv P t" "ds_abs P t = (ds_abs P s2)\<lparr>lg_pending := hm_contents PendingStakes_ops mem_view (h', x')\<rparr>"
      using on_pending_run[where m = ?m, OF K s2(2) m u(2,3)] by blast
    have run: "AddPendingStake P mem_ops k e n s = (Inr (), t)"
    proof -
      have "AddPendingStake P mem_ops k e n s = gbind (gbind (on_pending (GetPendingStakes mem_ops n)) (\<lambda>found.
          case found of Some p \<Rightarrow> gret p | None \<Rightarrow> on_pending (CreateNewPendingStakes mem_ops n))) (\<lambda>pendingStakes.
          gbind (on_pending (set_element ?n (pendingStakes\<lparr>pst_Pending := pst_Pending pendingStakes @ [?st]\<rparr>))) (\<lambda>_.
          gbind (on_pending (Update PendingStakes_ops mem_ops ?n (Some (pendingStakes\<lparr>pst_Pending := pst_Pending pendingStakes @ [?st]\<rparr>)))) (\<lambda>_.
          gret ()))) s1"
        using s1(1) r ser(1) by (simp add: AddPendingStake_def gbind_Inr gbind_assoc Let_def)
      also have "\<dots> = gbind (gbind (on_pending (set_element ?n ?p)) (\<lambda>_. on_pending (Update PendingStakes_ops mem_ops ?n (Some ?p)))) (\<lambda>_. gret ()) s2"
        by (subst gbind_Inr[of ?get s1 p s2, OF s2(1)]) (simp only: gbind_assoc)
      also have "\<dots> = (Inr (), t)" using t(1) by (simp add: on_pending_bind gbind_Inr)
      finally show ?thesis .
    qed
    have L: "ds_abs P t = (ds_abs P s)\<lparr>lg_pending := (lg_pending (ds_abs P s))(?n \<mapsto> el_bytes PendingStakes_ops (el_SetKey PendingStakes_ops ?n ?p))\<rparr>"
      using t(3) u(4) s2(5) by (simp add: ds_abs_def)
    then have "pending_list (ds_abs P t) n (pst_Pending p @ [?st])"
      using ok by (auto simp: pending_list_def PendingStakes_ops_def intro!: exI[of _ "el_SetKey PendingStakes_ops ?n ?p"])
    moreover have "reg_Staked r'" if "Registration_ok k r'" "lg_regs (ds_abs P s) k = Some (el_bytes Registration_ops r')" for r'
      using reg.ser_inj[OF that(1), of r 0] that(2) s1(4,5) r by (cases r; cases r') (auto simp: Registration_ops_def)
    ultimately show ?thesis using run t(2) L s2(4) s1(4)[symmetric] r by auto
  qed
qed

section \<open>Processing keeps the invariant whatever it meets\<close>

lemma process_stake_inv:
  assumes K: "g1_codec P" and "acc_map_ok P asset h x" "length (ps_PublicKey p) = PublicKeySize"
  shows "\<exists>res h' x'. process_stake P mem_ops p (h, x) = (res, (h', x')) \<and> acc_map_ok P asset h' x' \<and> mem_view x' = mem_view x"
proof (cases "acc_of P h x (ps_PublicKey p) \<noteq> None \<and> (\<exists>e. ElGamal_Deserialize P (ps_PendingAmount p) = Inr e)")
  case True
  then show ?thesis using process_stake_run[OF assms] by blast
next
  case False
  obtain ao h1 x1 where g: "Get (Account_ops P) mem_ops (ps_PublicKey p) (h, x) = (Inr ao, (h1, x1))" "acc_map_ok P asset h1 x1"
    "mem_view x1 = mem_view x" "map_option (el_bytes (Account_ops P)) ao = acc_of P h x (ps_PublicKey p)"
    using acc_Get_run[OF assms] by blast
  obtain e where "process_stake P mem_ops p (h, x) = (Inl e, (h1, x1))"
    using False g(1) g(4)[symmetric] by (cases ao; cases "ElGamal_Deserialize P (ps_PendingAmount p)") (auto simp: process_stake_def gbind_Inr)
  then show ?thesis using g by blast
qed

lemma process_stakes_inv:
  assumes K: "g1_codec P" and "acc_map_ok P asset h x" "\<forall>p \<in> set ps. length (ps_PublicKey p) = PublicKeySize"
  shows "\<exists>res h' x'. gfor ps (process_stake P mem_ops) (h, x) = (res, (h', x')) \<and> acc_map_ok P asset h' x' \<and> mem_view x' = mem_view x"
  using assms(2,3)
proof (induction ps arbitrary: h x)
  case (Cons p ps)
  obtain res h1 x1 where 1: "process_stake P mem_ops p (h, x) = (res, (h1, x1))" "acc_map_ok P asset h1 x1" "mem_view x1 = mem_view x"
    using process_stake_inv[OF K Cons.prems(1), of p] Cons.prems(2) by (auto simp del: split_paired_Ex)
  show ?case
  proof (cases res)
    case (Inl e)
    then show ?thesis using 1 by (auto simp: gbind_Inl)
  next
    case (Inr u)
    then show ?thesis using 1 Cons.IH[OF 1(2)] Cons.prems(2) by (auto simp: gbind_Inr)
  qed
qed auto

lemma ProcessPendingStakes_inv:
  assumes K: "g1_codec P" and "ds_inv P s"
  shows "\<exists>res t. ProcessPendingStakes P mem_ops n s = (res, t) \<and> ds_inv P t \<and>
    lg_regs (ds_abs P t) = lg_regs (ds_abs P s) \<and> lg_plain (ds_abs P t) = lg_plain (ds_abs P s)"
proof -
  have len: "length NATIVE_ASSET_FULL = ASSET_LENGTH" by (simp add: NATIVE_ASSET_FULL_def ASSET_LENGTH_def)
  obtain s1 where s1: "accs_GetMap P mem_ops NATIVE_ASSET_FULL s = (Inr (), s1)" "ds_inv P s1" "ds_abs P s1 = ds_abs P s"
    "map_of (ac_maps (ds_AccsCollection s1)) NATIVE_ASSET_FULL \<noteq> None"
    using accs_GetMap_run[OF K assms(2) len] by auto
  obtain eo s2 where s2: "on_pending (GetPendingStakes mem_ops n) s1 = (Inr eo, s2)" "ds_inv P s2" "ds_abs P s2 = ds_abs P s"
    "\<forall>e. eo = Some e \<longrightarrow> PendingStakes_ok (FormatUint n) e"
    using pend_Get_run[OF K s1(2), of n] s1(3) by auto
  have "ds_AccsCollection s2 = ds_AccsCollection s1" using s2(1) by (auto simp: on_pending_def split: prod.splits)
  then obtain h where h: "map_of (ac_maps (ds_AccsCollection s2)) NATIVE_ASSET_FULL = Some h" using s1(4) by auto
  show ?thesis
  proof (cases eo)
    case None
    then show ?thesis using s1(1) s2 by (auto simp: ProcessPendingStakes_def gbind_Inr)
  next
    case (Some ps)
    let ?m = "gfor (pst_Pending ps) (process_stake P mem_ops)"
    have "\<forall>p \<in> set (pst_Pending ps). length (ps_PublicKey p) = PublicKeySize"
      using s2(4) Some by (auto simp: PendingStakes_ok_def PendingStakes_Validate_iff)
    then obtain res h' x' where f: "?m (h, ds_DBTx s2) = (res, (h', x'))" "acc_map_ok P NATIVE_ASSET_FULL h' x'" "mem_view x' = mem_view (ds_DBTx s2)"
      using process_stakes_inv[OF K ds_invD(8)[OF s2(2) h]] by blast
    obtain s3 where s3: "on_accs_of NATIVE_ASSET_FULL ?m s2 = (res, s3)" "ds_inv P s3"
      "ds_abs P s3 = (ds_abs P s)\<lparr>lg_accounts := (lg_accounts (ds_abs P s))(NATIVE_ASSET_FULL := acc_of P h' x')\<rparr>"
      using on_accs_run[where m = ?m, OF K s2(2) h f] s2(3) by auto
    obtain h2 x2 where d: "Delete PendingStakes_ops mem_ops (FormatUint n) (ds_PendingStakes s3, ds_DBTx s3) = (Inr (), (h2, x2))" "pend_core (h2, x2)"
      "pstakes_map.keeps (ds_PendingStakes s3, ds_DBTx s3) (h2, x2)"
      using pstakes_map.Delete_ok[OF ds_invD(3)[OF s3(2)] ds_invD(7)[OF s3(2)]] by blast
    obtain t where t: "on_pending (Delete PendingStakes_ops mem_ops (FormatUint n)) s3 = (Inr (), t)" "ds_inv P t"
      "ds_abs P t = (ds_abs P s3)\<lparr>lg_pending := hm_contents PendingStakes_ops mem_view (h2, x2)\<rparr>"
      using on_pending_run[where m = "Delete PendingStakes_ops mem_ops (FormatUint n)", OF K s3(2) d] by blast
    show ?thesis
      using s1(1) s2(1) Some s3 t by (cases res) (auto simp: ProcessPendingStakes_def gbind_Inr gbind_Inl)
  qed
qed

section \<open>The ledger as a state machine\<close>

text \<open>The steps; a call may succeed or fail.  The last two rules are how transactions change a plain account:
  the account is fetched, with the registration check, and an account with other contents is stored.\<close>

inductive ledger_step :: "'p G1Ops \<Rightarrow> 'p mem_ledger \<Rightarrow> 'p mem_ledger \<Rightarrow> bool" for P where
  step_CreateRegistration: "CreateRegistration mem_ops k staked sp s = (res, t) \<Longrightarrow> length k = PublicKeySize \<Longrightarrow>
    length sp = 0 \<or> length sp = PublicKeySize \<Longrightarrow> ledger_step P s t"
| step_GetOrCreateAccount: "GetOrCreateAccount P mem_ops asset k v s = (res, t) \<Longrightarrow> length k = PublicKeySize \<Longrightarrow>
    length asset = ASSET_LENGTH \<Longrightarrow> ledger_step P s t"
| step_CreateAccount: "CreateAccount P mem_ops asset k v s = (res, t) \<Longrightarrow> length k = PublicKeySize \<Longrightarrow>
    length asset = ASSET_LENGTH \<Longrightarrow> ledger_step P s t"
| step_AddPendingStake: "AddPendingStake P mem_ops k e n s = (res, t) \<Longrightarrow> length k = PublicKeySize \<Longrightarrow> amount_ok P e \<Longrightarrow>
    \<forall>ps. pending_list (ds_abs P s) n ps \<longrightarrow> Suc (length ps) * 8 \<le> 2 ^ 48 \<Longrightarrow> ledger_step P s t"
| step_ProcessPendingStakes: "ProcessPendingStakes P mem_ops n s = (res, t) \<Longrightarrow> ledger_step P s t"
| step_CreatePlainAccount: "CreatePlainAccount mem_ops k v s = (res, t) \<Longrightarrow> length k = PublicKeySize \<Longrightarrow> ledger_step P s t"
| step_plain_fails: "GetOrCreatePlainAccount mem_ops k True s = (Inl e, t) \<Longrightarrow> length k = PublicKeySize \<Longrightarrow> ledger_step P s t"
| step_plain_update: "GetOrCreatePlainAccount mem_ops k True s = (Inr p, s1) \<Longrightarrow> length k = PublicKeySize \<Longrightarrow>
    plain_update_ok k p' \<Longrightarrow> on_plain (Update PlainAccount_ops mem_ops k (Some p')) s1 = (res, t) \<Longrightarrow> ledger_step P s t"

text \<open>No key is registered and has a plain account at the same time.\<close>

definition exclusive :: "ledger \<Rightarrow> bool" where
  "exclusive L \<longleftrightarrow> (\<forall>k. lg_regs L k = None \<or> lg_plain L k = None)"

lemma exclusive_updates:
  "exclusive L \<Longrightarrow> lg_plain L k = None \<Longrightarrow> exclusive (L\<lparr>lg_regs := (lg_regs L)(k \<mapsto> b)\<rparr>)"
  "exclusive L \<Longrightarrow> lg_regs L k = None \<Longrightarrow> exclusive (L\<lparr>lg_plain := (lg_plain L)(k := e)\<rparr>)"
  by (auto simp: exclusive_def)

lemma with_account_fields [simp]:
  "lg_regs (with_account P asset k L) = lg_regs L" "lg_plain (with_account P asset k L) = lg_plain L"
  by (simp_all add: with_account_def split: sum.split)

lemma ledger_step_inv:
  assumes "ledger_step P s t" "g1_codec P" "ds_inv P s" "exclusive (ds_abs P s)"
  shows "ds_inv P t \<and> exclusive (ds_abs P t)"
  using assms(1)
proof cases
  case (step_CreateRegistration k staked sp res)
  then show ?thesis using CreateRegistration_run[OF assms(2,3), of k sp staked] assms(4)
    by (auto intro: exclusive_updates split: if_splits)
next
  case (step_GetOrCreateAccount asset k v res)
  then have "ds_inv P t" "lg_regs (ds_abs P t) = lg_regs (ds_abs P s)" "lg_plain (ds_abs P t) = lg_plain (ds_abs P s)"
    using GetOrCreateAccount_run[OF assms(2,3), of k asset v] by (auto split: if_splits option.splits)
  then show ?thesis using assms(4) by (simp add: exclusive_def)
next
  case (step_CreateAccount asset k v res)
  then have "ds_inv P t" "lg_regs (ds_abs P t) = lg_regs (ds_abs P s)" "lg_plain (ds_abs P t) = lg_plain (ds_abs P s)"
    using CreateAccount_run[OF assms(2,3), of k asset v] by (auto split: if_splits)
  then show ?thesis using assms(4) by (simp add: exclusive_def)
next
  case (step_AddPendingStake k e n res)
  then have "ds_inv P t" "lg_regs (ds_abs P t) = lg_regs (ds_abs P s)" "lg_plain (ds_abs P t) = lg_plain (ds_abs P s)"
    using AddPendingStake_run[OF assms(2,3), of k e n] by auto
  then show ?thesis using assms(4) by (simp add: exclusive_def)
next
  case (step_ProcessPendingStakes n res)
  then show ?thesis using ProcessPendingStakes_inv[OF assms(2,3), of n] assms(4) by (auto simp: exclusive_def)
next
  case (step_CreatePlainAccount k v res)
  then show ?thesis using CreatePlainAccount_run[OF assms(2,3), of k v] assms(4) by auto
next
  case (step_plain_fails k e)
  then show ?thesis using GetOrCreatePlainAccount_run[OF assms(2,3), of k True] assms(4) by auto
next
  case (step_plain_update k p s1 p' res)
  have g: "ds_inv P s1" "ds_abs P s1 = ds_abs P s" "lg_plain (ds_abs P s) k \<noteq> None \<or> lg_regs (ds_abs P s) k = None"
    using GetOrCreatePlainAccount_run[OF assms(2,3) step_plain_update(2), of True] step_plain_update(1)
    by (auto split: option.splits if_splits)
  then have "lg_regs (ds_abs P s) k = None" using assms(4) by (auto simp: exclusive_def)
  then show ?thesis
    using plain_Update_run[OF assms(2) g(1) step_plain_update(2,3)] step_plain_update(4) g(2) assms(4)
    by (auto intro: exclusive_updates)
qed

text \<open>C31: In every ledger reached from a well-formed one by the operations of the data storage, failing ones
  included, the maps are well formed and no public key is both registered and the owner of a plain
  account.  These are the operations inside a block: what the database holds can be read back, and an encrypted
  balance that reaches the identity is well formed as an object of its map, though it could not be read
  back once it is written.\<close>

theorem ledger_exclusive:
  assumes "(ledger_step P)\<^sup>*\<^sup>* s t" "g1_codec P" "ds_inv P s" "exclusive (ds_abs P s)"
  shows "ds_inv P t \<and> exclusive (ds_abs P t)"
  using assms(1,3,4)
  by (induction rule: rtranclp_induct) (auto dest: ledger_step_inv[OF _ assms(2)])

section \<open>A fresh ledger\<close>

lemma CreateNewHashMap_fresh:
  assumes "mem_view x = (\<lambda>_. None)" "tx_IsWritable mem_ops x" "4 < length n"
  shows "\<exists>h x'. CreateNewHashMap mem_ops n kl idx create del sto x = (Inr h, x') \<and> mem_view x' = (\<lambda>_. None) \<and> tx_IsWritable mem_ops x'"
proof -
  obtain x' where "tx_Get mem_ops (key_count n) x = (Inr (mem_view x (key_count n)), x')" "mem_view x' = mem_view x"
    "tx_IsWritable mem_ops x' = tx_IsWritable mem_ops x"
    by (rule mem_tx.Get_run)
  then show ?thesis using assms by (simp add: CreateNewHashMap_def gbind_Inr)
qed

lemma NewDataStorage_fresh:
  assumes K: "g1_codec P"
  shows "\<exists>s x. NewDataStorage mem_ops mem_empty = (Inr s, x) \<and> ds_inv P s \<and>
    ds_abs P s = \<lparr>lg_regs = (\<lambda>_. None), lg_plain = (\<lambda>_. None), lg_pending = (\<lambda>_. None), lg_accounts = (\<lambda>_ _. None)\<rparr>"
proof -
  have v0: "mem_view mem_empty = (\<lambda>_. None)" by (simp add: fun_eq_iff mem_empty_view)
  obtain regs x1 where 1: "NewRegistrations mem_ops mem_empty = (Inr regs, x1)" "reg_core (regs, x1)" "hm_keyLength regs = PublicKeySize"
    "hm_contents Registration_ops mem_view (regs, x1) = (\<lambda>_. None)" "mem_view x1 = (\<lambda>_. None)"
    using reg_map.CreateNewHashMap_empty[of mem_empty "lit ''registrations''" None None PublicKeySize True]
    by (auto simp: mem_empty_view NewRegistrations_def hm_inv_def v0)
  have w1: "tx_IsWritable mem_ops x1" using 1(2) by (simp add: hm_core_def)
  obtain pl x2 where 2: "NewPlainAccounts mem_ops x1 = (Inr pl, x2)" "plain_core (pl, x2)" "hm_keyLength pl = PublicKeySize"
    "hm_contents PlainAccount_ops mem_view (pl, x2) = (\<lambda>_. None)" "mem_view x2 = (\<lambda>_. None)"
    using pacc_map.CreateNewHashMap_empty[of x1 "lit ''plainAccs''" None None PublicKeySize False] w1
    by (auto simp: 1(5) NewPlainAccounts_def hm_inv_def)
  have w2: "tx_IsWritable mem_ops x2" using 2(2) by (simp add: hm_core_def)
  obtain pd x3 where 3: "NewPendingStakesList mem_ops x2 = (Inr pd, x3)" "pend_core (pd, x3)" "hm_keyLength pd = 0"
    "hm_contents PendingStakes_ops mem_view (pd, x3) = (\<lambda>_. None)" "mem_view x3 = (\<lambda>_. None)"
    using pstakes_map.CreateNewHashMap_empty[of x2 "lit ''pendingStakes''" None None 0 False] w2
    by (auto simp: 2(5) NewPendingStakesList_def hm_inv_def)
  have w3: "tx_IsWritable mem_ops x3" using 3(2) by (simp add: hm_core_def)
  obtain asts x4 where 4: "NewAssets mem_ops x3 = (Inr asts, x4)" "mem_view x4 = (\<lambda>_. None)" "tx_IsWritable mem_ops x4"
    using CreateNewHashMap_fresh[OF 3(5) w3, of "lit ''assets''"] by (fastforce simp: NewAssets_def)
  let ?s = "\<lparr>ds_DBTx = x4, ds_Regs = regs, ds_PlainAccs = pl, ds_AccsCollection = NewAccountsCollection x4, ds_PendingStakes = pd,
     ds_ConditionalPayments = NewConditionalPaymentsCollection x4, ds_Asts = asts, ds_AstsFeeLiquidity = NewAssetsFeeLiquidityCollection x4\<rparr>"
  have run: "NewDataStorage mem_ops mem_empty = (Inr ?s, x4)"
    using 1(1) 2(1) 3(1) 4(1) by (simp add: NewDataStorage_def gbind_Inr)
  have v: "mem_view x4 = mem_view x1" "mem_view x4 = mem_view x2" "mem_view x4 = mem_view x3" using 1(5) 2(5) 3(5) 4(2) by simp_all
  have r: "reg_core (regs, x4)" "hm_contents Registration_ops mem_view (regs, x4) = (\<lambda>_. None)"
    using reg_map.core_view[OF 1(2) v(1)] w1 4(3) 1(4) by simp_all
  have p: "plain_core (pl, x4)" "hm_contents PlainAccount_ops mem_view (pl, x4) = (\<lambda>_. None)"
    using pacc_map.core_view[OF 2(2) v(2)] w2 4(3) 2(4) by simp_all
  have d: "pend_core (pd, x4)" "hm_contents PendingStakes_ops mem_view (pd, x4) = (\<lambda>_. None)"
    using pstakes_map.core_view[OF 3(2) v(3)] w3 4(3) 3(4) by simp_all
  have "accounts_db P (mem_view x4)" using 4(2) by (simp add: accounts_db_def stored_map_def)
  then have "ds_inv P ?s" using r p d 1(3) 2(3) 3(3) by (simp add: ds_inv_def NewAccountsCollection_def)
  moreover have "ds_abs P ?s = \<lparr>lg_regs = (\<lambda>_. None), lg_plain = (\<lambda>_. None), lg_pending = (\<lambda>_. None), lg_accounts = (\<lambda>_ _. None)\<rparr>"
    using r p d 4(2) by (simp add: ds_abs_def acc_contents_def NewAccountsCollection_def)
  ultimately show ?thesis using run by blast
qed

theorem ledger_exclusive_witness:
  "\<exists>s x t r. NewDataStorage mem_ops mem_empty = (Inr s, x) \<and>
     CreateRegistration mem_ops (replicate 33 7) True [] s = (Inr r, t) \<and>
     lg_regs (ds_abs residue_curve t) (replicate 33 7) \<noteq> None \<and>
     ds_inv residue_curve t \<and> exclusive (ds_abs residue_curve t)"
proof -
  let ?k = "replicate 33 (7 :: byte)"
  obtain s x where s: "NewDataStorage mem_ops mem_empty = (Inr s, x)" "ds_inv residue_curve s"
    "ds_abs residue_curve s = \<lparr>lg_regs = (\<lambda>_. None), lg_plain = (\<lambda>_. None), lg_pending = (\<lambda>_. None), lg_accounts = (\<lambda>_ _. None)\<rparr>"
    using NewDataStorage_fresh[OF residue_codec] by blast
  have len: "length ?k = PublicKeySize" by (simp add: PublicKeySize_def)
  obtain r t where t: "CreateRegistration mem_ops ?k True [] s = (Inr r, t)" "lg_regs (ds_abs residue_curve t) ?k \<noteq> None"
    using CreateRegistration_run[OF residue_codec s(2) len, of "[]" True] s(3) by auto
  have "(ledger_step residue_curve)\<^sup>*\<^sup>* s t"
    using ledger_step.step_CreateRegistration[OF t(1) len, of residue_curve] by simp
  from ledger_exclusive[OF this residue_codec s(2)] show ?thesis using s t by (auto simp: exclusive_def)
qed

section \<open>Pending stakes reach the balances\<close>

text \<open>A key and a ciphertext of the residues, for the witnesses.\<close>

lemma residue_nine: "g1_ScalarMult residue_curve (g1_G residue_curve) (SetBytes [9]) = residue 9"
  by (simp add: residue_curve_def residue_int_residue residue_eq SetBytes_def mod_simps)

lemma readable_nine:
  assumes "ElGamal_Plus residue_curve (zero_amount residue_curve (residue 9)) 5 = Inr e"
  shows "readable residue_curve e"
proof -
  have "residue 14 \<noteq> g1_zero residue_curve" "residue 1 \<noteq> g1_zero residue_curve" by (simp_all add: residue_zero Order_def)
  moreover have "g1_Add residue_curve (residue 9) (g1_ScalarMult residue_curve (g1_G residue_curve) 5) = residue 14"
    by (simp add: residue_curve_def residue_int_residue residue_eq mod_simps)
  moreover have "g1_G residue_curve = residue 1" by (simp add: residue_curve_def)
  ultimately show ?thesis
    using assms by (auto simp: ElGamal_Plus_def zero_amount_def eg_construct readable_def amount_ok_def)
qed

text \<open>C32: Processing the pending stakes of a height ends without error when the accounts exist and the amounts
  can be read as ciphertexts, which those with an identity component cannot.  It removes the entry of the height, touches nothing else but the accounts of the
  native coin, and adds to what every private key reads off every account exactly the amounts
  pending for that account, each as often as it is listed.\<close>

theorem ProcessPendingStakes_credits:
  assumes "g1_laws P" "g1_codec P" "ds_inv P s"
    and "lg_pending (ds_abs P s) (FormatUint n) = Some (el_bytes PendingStakes_ops ps)" "PendingStakes_ok (FormatUint n) ps"
    and "\<forall>p \<in> set (pst_Pending ps). lg_accounts (ds_abs P s) NATIVE_ASSET_FULL (ps_PublicKey p) \<noteq> None \<and>
           ElGamal_Deserialize P (ps_PendingAmount p) = Inr (pending_amount P p)"
  shows "\<exists>t accs. ProcessPendingStakes P mem_ops n s = (Inr (), t) \<and> ds_inv P t \<and>
    ds_abs P t = (ds_abs P s)\<lparr>lg_pending := (lg_pending (ds_abs P s))(FormatUint n := None),
      lg_accounts := (lg_accounts (ds_abs P s))(NATIVE_ASSET_FULL := accs)\<rparr> \<and>
    (\<forall>key k val b v.
       balance_of P (lg_accounts (ds_abs P s) NATIVE_ASSET_FULL) k = Some b \<longrightarrow> opens P key b v \<longrightarrow>
       (\<forall>p \<in> set (pst_Pending ps). ps_PublicKey p = k \<longrightarrow> opens P key (pending_amount P p) (val p)) \<longrightarrow>
       (\<exists>b'. balance_of P accs k = Some b' \<and>
          opens P key b' (v + sum_list (map val (filter (\<lambda>p. ps_PublicKey p = k) (pst_Pending ps))))))"
proof -
  let ?m = "lg_accounts (ds_abs P s) NATIVE_ASSET_FULL"
  let ?accs = "fold (\<lambda>p. credit P (ps_PublicKey p) (pending_amount P p)) (pst_Pending ps) ?m"
  obtain t where t: "ProcessPendingStakes P mem_ops n s = (Inr (), t)" "ds_inv P t" "accounts_wf P ?m"
    "ds_abs P t = (ds_abs P s)\<lparr>lg_pending := (lg_pending (ds_abs P s))(FormatUint n := None),
      lg_accounts := (lg_accounts (ds_abs P s))(NATIVE_ASSET_FULL := ?accs)\<rparr>"
    using ProcessPendingStakes_run[OF assms(2-)] by blast
  have "\<exists>b'. balance_of P ?accs k = Some b' \<and>
      opens P key b' (v + sum_list (map val (filter (\<lambda>p. ps_PublicKey p = k) (pst_Pending ps))))"
    if "balance_of P ?m k = Some b" "opens P key b v"
      "\<forall>p \<in> set (pst_Pending ps). ps_PublicKey p = k \<longrightarrow> opens P key (pending_amount P p) (val p)" for key k val b v
  proof -
    let ?cs = "map (\<lambda>p. (ps_PublicKey p, pending_amount P p, val p)) (pst_Pending ps)"
    have a: "\<forall>(j, e, w) \<in> set ?cs. amount_ok P e \<and> (j = k \<longrightarrow> opens P key e w)"
      using that(3) assms(6) ElGamal_Deserialize_ok by fastforce
    have f: "fold (\<lambda>(j, e, w). credit P j e) ?cs ?m = ?accs" by (simp add: fold_map comp_def)
    have "sum_list (map (\<lambda>(j, e, w). if j = k then w else 0) ?cs) =
        sum_list (map val (filter (\<lambda>p. ps_PublicKey p = k) (pst_Pending ps)))"
      by (induction "pst_Pending ps") (simp_all add: comp_def sum_list_map_filter')
    then show ?thesis using credits_balance[OF assms(1,2) t(3) a that(1,2)] unfolding f by simp
  qed
  then show ?thesis using t by blast
qed

theorem ProcessPendingStakes_credits_witness:
  "\<exists>s t b. ProcessPendingStakes residue_curve mem_ops 10 s = (Inr (), t) \<and>
     balance_of residue_curve (lg_accounts (ds_abs residue_curve t) NATIVE_ASSET_FULL)
       (g1_EncodeCompressed residue_curve (g1_ScalarMult residue_curve (g1_G residue_curve) (SetBytes [9]))) = Some b \<and>
     opens residue_curve [9] b 5"
proof -
  let ?P = residue_curve
  let ?pt = "g1_ScalarMult ?P (g1_G ?P) (SetBytes [9])"
  let ?k = "g1_EncodeCompressed ?P ?pt"
  have len: "length ?k = PublicKeySize" "length NATIVE_ASSET_FULL = ASSET_LENGTH" and dec: "g1_DecodeCompressed ?P ?k = Inr ?pt"
    using g1_codecD(1)[OF residue_codec] g1_codecD(2)[OF residue_codec, of "residue 9"] residue_zero[of 9]
    by (simp_all add: residue_nine Order_def PublicKeySize_def NATIVE_ASSET_FULL_def ASSET_LENGTH_def)
  have zok: "amount_ok ?P (zero_amount ?P ?pt)" by (simp add: amount_ok_def zero_amount_def)
  have z: "opens ?P [9] (zero_amount ?P ?pt) 0"
    by (simp add: zero_amount_def opens_pair g1_add_neg[OF residue_laws] g1_mul_0[OF residue_laws])
  obtain e where e: "ElGamal_Plus ?P (zero_amount ?P ?pt) 5 = Inr e" "opens ?P [9] e 5"
    using opens_Plus[OF residue_laws z, of 5] by auto
  then have eok: "amount_ok ?P e" by (auto simp: ElGamal_Plus_def zero_amount_def eg_construct amount_ok_def)
  obtain s0 x where s0: "NewDataStorage mem_ops mem_empty = (Inr s0, x)" "ds_inv ?P s0"
    "ds_abs ?P s0 = \<lparr>lg_regs = (\<lambda>_. None), lg_plain = (\<lambda>_. None), lg_pending = (\<lambda>_. None), lg_accounts = (\<lambda>_ _. None)\<rparr>"
    using NewDataStorage_fresh[OF residue_codec] by blast
  obtain r s1 where s1: "ds_inv ?P s1" "reg_Staked r" "Registration_ok ?k r"
    "ds_abs ?P s1 = (ds_abs ?P s0)\<lparr>lg_regs := (lg_regs (ds_abs ?P s0))(?k \<mapsto> el_bytes Registration_ops r)\<rparr>"
    using CreateRegistration_run[OF residue_codec s0(2) len(1), of "[]" True] s0(3) by auto
  obtain s2 where s2: "ds_inv ?P s2" "ds_abs ?P s2 = with_account ?P NATIVE_ASSET_FULL ?k (ds_abs ?P s1)"
    using CreateAccount_run[OF residue_codec s1(1) len, of False] s1(4) s0(3) by auto
  have p0: "pending_list (ds_abs ?P s2) 10 ps \<Longrightarrow> ps = []" for ps
    using s2(2) s1(4) s0(3) dec by (simp add: pending_list_def with_account_def)
  have rg: "lg_regs (ds_abs ?P s2) ?k = Some (el_bytes Registration_ops r)" using s2(2) s1(4) by simp
  obtain s3 bb where s3: "ds_inv ?P s3" "pending_list (ds_abs ?P s3) 10 [\<lparr>ps_PublicKey = ?k, ps_PendingAmount = amount_bytes ?P e\<rparr>]"
    "ds_abs ?P s3 = (ds_abs ?P s2)\<lparr>lg_pending := (lg_pending (ds_abs ?P s2))(FormatUint 10 := bb)\<rparr>"
    using AddPendingStake_run[OF residue_codec s2(1) len(1) eok, of 10] p0 rg s1(2,3) by fastforce
  have acc: "lg_accounts (ds_abs ?P s3) NATIVE_ASSET_FULL ?k = Some (account_bytes ?P (zero_amount ?P ?pt))"
    using s3(3) s2(2) dec by (simp add: with_account_def)
  then have bal: "balance_of ?P (lg_accounts (ds_abs ?P s3) NATIVE_ASSET_FULL) ?k = Some (zero_amount ?P ?pt)"
    using decode_account_bytes[OF residue_codec zok] by (simp add: balance_of_def)
  obtain ps where ps: "lg_pending (ds_abs ?P s3) (FormatUint 10) = Some (el_bytes PendingStakes_ops ps)" "PendingStakes_ok (FormatUint 10) ps"
    "pst_Pending ps = [\<lparr>ps_PublicKey = ?k, ps_PendingAmount = amount_bytes ?P e\<rparr>]"
    using s3(2) by (auto simp: pending_list_def split: option.splits)
  have am: "ElGamal_Deserialize ?P (amount_bytes ?P e) = Inr e" using amount_codec(4)[OF residue_codec eok] readable_nine e(1) by (simp add: residue_nine)
  have pend: "pending_amount ?P \<lparr>ps_PublicKey = ?k, ps_PendingAmount = amount_bytes ?P e\<rparr> = e" using am by (simp add: pending_amount_def)
  have h: "\<forall>p \<in> set (pst_Pending ps). lg_accounts (ds_abs ?P s3) NATIVE_ASSET_FULL (ps_PublicKey p) \<noteq> None \<and>
      ElGamal_Deserialize ?P (ps_PendingAmount p) = Inr (pending_amount ?P p)"
    using ps(3) acc am pend by simp
  obtain t accs where t: "ProcessPendingStakes ?P mem_ops 10 s3 = (Inr (), t)"
    "ds_abs ?P t = (ds_abs ?P s3)\<lparr>lg_pending := (lg_pending (ds_abs ?P s3))(FormatUint 10 := None),
      lg_accounts := (lg_accounts (ds_abs ?P s3))(NATIVE_ASSET_FULL := accs)\<rparr>"
    and c: "\<forall>key k val b v. balance_of ?P (lg_accounts (ds_abs ?P s3) NATIVE_ASSET_FULL) k = Some b \<longrightarrow> opens ?P key b v \<longrightarrow>
       (\<forall>p \<in> set (pst_Pending ps). ps_PublicKey p = k \<longrightarrow> opens ?P key (pending_amount ?P p) (val p)) \<longrightarrow>
       (\<exists>b'. balance_of ?P accs k = Some b' \<and>
          opens ?P key b' (v + sum_list (map val (filter (\<lambda>p. ps_PublicKey p = k) (pst_Pending ps)))))"
    using ProcessPendingStakes_credits[OF residue_laws residue_codec s3(1) ps(1,2) h] by blast
  have "\<exists>b'. balance_of ?P accs ?k = Some b' \<and> opens ?P [9] b' 5"
    using c[rule_format, OF bal z, of "\<lambda>_. 5"] ps(3) pend e(2) by simp
  moreover have "lg_accounts (ds_abs ?P t) NATIVE_ASSET_FULL = accs" using t(2) by simp
  ultimately show ?thesis using t(1) by blast
qed

end
