(* ===== verification/Ledger_Conditional.thy ===== *)
theory Ledger_Conditional
  imports Ledger_Steps
begin

text \<open>
  Conditional payments: what resolving one does to the balances, and the maps the payments of different
  heights are kept in.
\<close>

section \<open>Resolving a payment\<close>

text \<open>An account that is missing is created with a balance of zero before it is credited.\<close>

definition open_account :: "'p G1Ops \<Rightarrow> bytes \<Rightarrow> (bytes \<Rightarrow> bytes option) \<Rightarrow> bytes \<Rightarrow> bytes option" where
  "open_account P k m =
     (case m k of
        Some _ \<Rightarrow> m
      | None \<Rightarrow> (case g1_DecodeCompressed P k of Inl _ \<Rightarrow> m | Inr pt \<Rightarrow> m(k \<mapsto> account_bytes P (zero_amount P pt))))"

definition credit_open :: "'p G1Ops \<Rightarrow> bytes \<Rightarrow> 'p ElGamal \<Rightarrow> (bytes \<Rightarrow> bytes option) \<Rightarrow> bytes \<Rightarrow> bytes option" where
  "credit_open P k e m = credit P k e (open_account P k m)"

definition start_balance :: "'p G1Ops \<Rightarrow> (bytes \<Rightarrow> bytes option) \<Rightarrow> bytes \<Rightarrow> 'p ElGamal option" where
  "start_balance P m k = balance_of P (open_account P k m) k"

definition payment_keys :: "bool \<Rightarrow> ConditionalPayment \<Rightarrow> bytes list" where
  "payment_keys resolution p = (if resolution then cp_ReceiverPublicKeys p else cp_SenderPublicKeys p)"

definition payment_amounts :: "bool \<Rightarrow> ConditionalPayment \<Rightarrow> bytes list" where
  "payment_amounts resolution p = (if resolution then cp_ReceiverAmounts p else cp_SenderAmounts p)"

text \<open>The amount credited: the one stored, negated when the payment goes back to the senders.\<close>

definition resolved_amount :: "'p G1Ops \<Rightarrow> bool \<Rightarrow> bytes \<Rightarrow> 'p ElGamal result" where
  "resolved_amount P resolution bs =
     rbind (ElGamal_Deserialize P bs) (\<lambda>e. if resolution then Inr e else ElGamal_Neg P e)"

lemma resolved_amount_ok: "resolved_amount P b bs = Inr e \<Longrightarrow> amount_ok P e"
  using ElGamal_Deserialize_ok amount_ok_Neg by (fastforce simp: resolved_amount_def rbind_Inr_iff split: if_splits)

lemma resolve_one_run:
  assumes K: "g1_codec P" and "acc_map_ok P (cp_Asset p) h x"
    and "i < length (payment_keys b p)" "i < length (payment_amounts b p)"
    and "length (payment_keys b p ! i) = PublicKeySize" "g1_DecodeCompressed P (payment_keys b p ! i) = Inr pt"
    and "resolved_amount P b (payment_amounts b p ! i) = Inr e"
  shows "\<exists>h' x'. resolve_one P mem_ops b p i (h, x) = (Inr (), (h', x')) \<and> acc_map_ok P (cp_Asset p) h' x' \<and>
    mem_view x' = mem_view x \<and> acc_of P h' x' = credit_open P (payment_keys b p ! i) e (acc_of P h x)"
proof -
  let ?k = "payment_keys b p ! i" and ?a = "cp_Asset p"
  note eok = resolved_amount_ok[OF assms(7)]
  obtain e0 where am: "ElGamal_Deserialize P (payment_amounts b p ! i) = Inr e0" "(if b then Inr e0 else ElGamal_Neg P e0) = Inr e"
    using assms(7) by (auto simp: resolved_amount_def rbind_Inr_iff)
  obtain ao h1 x1 c where g: "Get (Account_ops P) mem_ops ?k (h, x) = (Inr ao, (h1, x1))" "acc_map_ok P ?a h1 x1"
    "mem_view x1 = mem_view x" "acc_of P h1 x1 = acc_of P h x" "map_option (el_bytes (Account_ops P)) ao = acc_of P h x ?k"
    "\<forall>a. ao = Some a \<longrightarrow> Account_ok P ?a ?k a" "change_at h1 ?k = Some c" "ch_Element c = ao"
    using acc_Get_run[OF K assms(2,5)] by blast
  obtain a h2 x2 c' where a: "(case ao of Some a \<Rightarrow> gret a | None \<Rightarrow> CreateNewAccount P mem_ops ?a ?k) (h1, x1) = (Inr a, (h2, x2))"
    "acc_map_ok P ?a h2 x2" "mem_view x2 = mem_view x" "acc_of P h2 x2 = open_account P ?k (acc_of P h x)" "Account_ok P ?a ?k a"
    "change_at h2 ?k = Some c'" "ch_Element c' = Some a" "acc_of P h2 x2 ?k = Some (el_bytes (Account_ops P) a)"
  proof (cases ao)
    case (Some a)
    have "open_account P ?k (acc_of P h x) = acc_of P h x" using g(5)[symmetric] Some by (simp add: open_account_def)
    then show ?thesis using that[of a h1 x1 c] g Some by (simp flip: g(5))
  next
    case None
    have n: "acc_of P h1 x1 ?k = None" using g(4) g(5)[symmetric] None by simp
    obtain a h2 x2 where "CreateNewAccount P mem_ops ?a ?k (h1, x1) = (Inr a, (h2, x2))" "acc_map_ok P ?a h2 x2" "mem_view x2 = mem_view x1"
      "acc_of P h2 x2 = (acc_of P h1 x1)(?k \<mapsto> account_bytes P (zero_amount P pt))" "Account_ok P ?a ?k a"
      "ba_Amount (acc_Balance a) = Some (zero_amount P pt)" "\<exists>c. change_at h2 ?k = Some c \<and> ch_Element c = Some a"
      using CreateNewAccount_run[OF K g(2) assms(5) n assms(6)] by blast
    moreover from this have "el_bytes (Account_ops P) a = account_bytes P (zero_amount P pt)"
      using Account_el_bytes by (simp add: account_bytes_def)
    ultimately show ?thesis using that[of a h2 x2] None n g(3,4) assms(6) by (auto simp: open_account_def)
  qed
  obtain e1 where e1: "ba_Amount (acc_Balance a) = Some e1" "amount_ok P e1" "el_bytes (Account_ops P) a = account_bytes P e1"
    using Account_ok_bytes[OF a(5)] by blast
  obtain e2 where e2: "ElGamal_Add P e1 e = Inr e2" using amount_ok_Add[OF e1(2) eok] by blast
  obtain h' x' where cr: "credit_account P mem_ops ?k a e (h2, x2) = (Inr (), (h', x'))" "acc_map_ok P ?a h' x'"
    "mem_view x' = mem_view x2" "acc_of P h' x' = (acc_of P h2 x2)(?k \<mapsto> account_bytes P e2)"
    using credit_account_run[OF K a(2) assms(5) a(5,6,7) e1(1) eok e2] by blast
  have "credit_open P ?k e (acc_of P h x) = (acc_of P h2 x2)(?k \<mapsto> account_bytes P e2)"
    unfolding credit_open_def a(4)[symmetric] using a(8) e1 e2 decode_account_bytes[OF K e1(2)] by (simp add: credit_def)
  moreover have "resolve_one P mem_ops b p i (h, x) = credit_account P mem_ops ?k a e (h2, x2)"
  proof -
    have "resolve_one P mem_ops b p i (h, x) = gbind (Get (Account_ops P) mem_ops ?k) (\<lambda>found.
        gbind (case found of Some a \<Rightarrow> gret a | None \<Rightarrow> CreateNewAccount P mem_ops ?a ?k) (\<lambda>acc. credit_account P mem_ops ?k acc e)) (h, x)"
      using assms(3,4) am by (cases b) (simp_all add: resolve_one_def payment_keys_def payment_amounts_def cong: option.case_cong)
    also have "\<dots> = gbind (case ao of Some a \<Rightarrow> gret a | None \<Rightarrow> CreateNewAccount P mem_ops ?a ?k) (\<lambda>acc. credit_account P mem_ops ?k acc e) (h1, x1)"
      by (rule gbind_Inr[of "Get (Account_ops P) mem_ops ?k" "(h, x)" ao "(h1, x1)", OF g(1)])
    also have "\<dots> = credit_account P mem_ops ?k a e (h2, x2)"
      by (rule gbind_Inr[of "case ao of Some a \<Rightarrow> gret a | None \<Rightarrow> CreateNewAccount P mem_ops ?a ?k" "(h1, x1)" a "(h2, x2)", OF a(1)])
    finally show ?thesis .
  qed
  ultimately show ?thesis using cr a(3) by simp
qed

text \<open>All turns of the loop.\<close>

definition resolution_credits :: "'p G1Ops \<Rightarrow> bool \<Rightarrow> ConditionalPayment \<Rightarrow> nat \<Rightarrow> 'p ElGamal" where
  "resolution_credits P b p i = (case resolved_amount P b (payment_amounts b p ! i) of Inr e \<Rightarrow> e | Inl _ \<Rightarrow> NewElGamal P)"

definition payment_ok :: "'p G1Ops \<Rightarrow> bool \<Rightarrow> ConditionalPayment \<Rightarrow> bool" where
  "payment_ok P b p \<longleftrightarrow>
     length (cp_ReceiverPublicKeys p) \<le> length (payment_keys b p) \<and> length (cp_ReceiverPublicKeys p) \<le> length (payment_amounts b p) \<and>
     (\<forall>i < length (cp_ReceiverPublicKeys p). length (payment_keys b p ! i) = PublicKeySize \<and>
        (\<exists>pt. g1_DecodeCompressed P (payment_keys b p ! i) = Inr pt) \<and>
        (\<exists>e. ElGamal_Deserialize P (payment_amounts b p ! i) = Inr e))"

lemma payment_okD:
  assumes "payment_ok P b p" "i < length (cp_ReceiverPublicKeys p)"
  shows "resolved_amount P b (payment_amounts b p ! i) = Inr (resolution_credits P b p i)" "amount_ok P (resolution_credits P b p i)"
proof -
  obtain e where e: "ElGamal_Deserialize P (payment_amounts b p ! i) = Inr e" using assms by (auto simp: payment_ok_def)
  then obtain n where n: "ElGamal_Neg P e = Inr n" using amount_ok_Neg[OF ElGamal_Deserialize_ok] by blast
  show r: "resolved_amount P b (payment_amounts b p ! i) = Inr (resolution_credits P b p i)"
    using e n by (cases b) (simp_all add: resolution_credits_def resolved_amount_def)
  show "amount_ok P (resolution_credits P b p i)" by (rule resolved_amount_ok[OF r])
qed

lemma resolve_all_run:
  assumes K: "g1_codec P" and "acc_map_ok P (cp_Asset p) h x" "payment_ok P b p" "\<forall>i \<in> set js. i < length (cp_ReceiverPublicKeys p)"
  shows "\<exists>h' x'. gfor js (resolve_one P mem_ops b p) (h, x) = (Inr (), (h', x')) \<and> acc_map_ok P (cp_Asset p) h' x' \<and>
    mem_view x' = mem_view x \<and>
    acc_of P h' x' = fold (\<lambda>i. credit_open P (payment_keys b p ! i) (resolution_credits P b p i)) js (acc_of P h x)"
  using assms(2,4)
proof (induction js arbitrary: h x)
  case Nil
  then show ?case by auto
next
  case (Cons i js)
  have i: "i < length (cp_ReceiverPublicKeys p)" using Cons.prems(2) by simp
  then obtain pt where q: "i < length (payment_keys b p)" "i < length (payment_amounts b p)" "length (payment_keys b p ! i) = PublicKeySize"
    "g1_DecodeCompressed P (payment_keys b p ! i) = Inr pt"
    using assms(3) by (fastforce simp: payment_ok_def)
  obtain h1 x1 where 1: "resolve_one P mem_ops b p i (h, x) = (Inr (), (h1, x1))" "acc_map_ok P (cp_Asset p) h1 x1"
    "mem_view x1 = mem_view x" "acc_of P h1 x1 = credit_open P (payment_keys b p ! i) (resolution_credits P b p i) (acc_of P h x)"
    using resolve_one_run[OF K Cons.prems(1) q payment_okD(1)[OF assms(3) i]] by blast
  from Cons.IH[OF 1(2)] show ?case using 1 Cons.prems(2) by (auto simp: gbind_Inr)
qed

text \<open>Crediting with creation, on the balances.\<close>

lemma open_account_other: "j \<noteq> k \<Longrightarrow> open_account P j m k = m k"
  by (simp add: open_account_def split: option.split sum.split)

lemma zero_amount_ok: "amount_ok P (zero_amount P pt)"
  by (simp add: amount_ok_def zero_amount_def)

lemma open_account_wf:
  assumes "accounts_wf P m"
  shows "accounts_wf P (open_account P k m)"
  using assms zero_amount_ok[of P] by (auto simp: open_account_def accounts_wf_def split: option.split sum.split)

lemma open_account_idem: "m k \<noteq> None \<Longrightarrow> open_account P k m = m"
  by (auto simp: open_account_def)

lemma credit_open_balance:
  assumes L: "g1_laws P" and K: "g1_codec P" and "accounts_wf P m" "amount_ok P e"
    and "start_balance P m k = Some b" "opens P key b v" "j = k \<Longrightarrow> opens P key e w"
  shows "\<exists>b'. start_balance P (credit_open P j e m) k = Some b' \<and> opens P key b' (v + (if j = k then w else 0)) \<and>
    (j = k \<longrightarrow> credit_open P j e m k \<noteq> None)"
proof (cases "j = k")
  case True
  have s: "balance_of P (open_account P k m) k = Some b" using assms(5) by (simp add: start_balance_def)
  then have n: "open_account P k m k \<noteq> None" by (auto simp: balance_of_def Option.bind_eq_Some_conv)
  obtain b' where b': "balance_of P (credit P k e (open_account P k m)) k = Some b'" "opens P key b' (v + w)"
    using credit_balance[OF L K open_account_wf[OF assms(3)] assms(4) s assms(6), of k w] assms(7) True by auto
  have c: "credit P k e (open_account P k m) k \<noteq> None" using n by (simp add: credit_dom)
  then show ?thesis using b' True open_account_idem[where m = "credit P k e (open_account P k m)", OF c, of P] by (simp add: start_balance_def credit_open_def)
next
  case False
  have "credit_open P j e m k = m k"
    using False open_account_other[OF False, of P m]
    by (auto simp: credit_open_def credit_def split: option.split sum.split)
  then have "start_balance P (credit_open P j e m) k = start_balance P m k"
    by (auto simp: start_balance_def open_account_def balance_of_def split: option.split sum.split)
  then show ?thesis using False assms(5,6) by simp
qed

lemma credits_open_balance:
  assumes L: "g1_laws P" and K: "g1_codec P" and "accounts_wf P m"
    and "\<forall>(j, e, w) \<in> set cs. amount_ok P e \<and> (j = k \<longrightarrow> opens P key e w)"
    and "start_balance P m k = Some b" "opens P key b v"
  shows "\<exists>b'. start_balance P (fold (\<lambda>(j, e, w). credit_open P j e) cs m) k = Some b' \<and>
    opens P key b' (v + sum_list (map (\<lambda>(j, e, w). if j = k then w else 0) cs))"
  using assms(3-)
proof (induction cs arbitrary: m b v)
  case (Cons c cs)
  obtain j e w where c: "c = (j, e, w)" by (cases c)
  have e: "amount_ok P e" "j = k \<Longrightarrow> opens P key e w" using Cons.prems(2) c by auto
  obtain b1 where b1: "start_balance P (credit_open P j e m) k = Some b1" "opens P key b1 (v + (if j = k then w else 0))"
    using credit_open_balance[OF L K Cons.prems(1) e(1) Cons.prems(3,4) e(2)] by blast
  have "\<forall>(j, e, w) \<in> set cs. amount_ok P e \<and> (j = k \<longrightarrow> opens P key e w)" using Cons.prems(2) by simp
  from Cons.IH[OF _ this b1] show ?case
    using c credit_wf[OF K open_account_wf[OF Cons.prems(1)] e(1)] by (simp add: add.assoc credit_open_def)
qed simp

text \<open>The flag is written through the pointer and nothing else of the ledger changes.\<close>

lemma mark_processed_run:
  assumes "ds_inv P s"
  shows "\<exists>t. mark_processed p s = (Inr (), t) \<and> ds_inv P t \<and> ds_abs P t = ds_abs P s"
proof (cases "map_of (cc_maps (ds_ConditionalPayments s)) (rune_string (cp_BlockHeight p))")
  case None
  then show ?thesis using assms by (simp add: mark_processed_def gbind_def gget_def)
next
  case (Some nh)
  then obtain n h where h: "map_of (cc_maps (ds_ConditionalPayments s)) (rune_string (cp_BlockHeight p)) = Some (n, h)" by (cases nh) auto
  obtain h' where m: "set_element (cp_Key p) (p\<lparr>cp_Processed := True\<rparr>) (h, ds_DBTx s) = (Inr (), (h', ds_DBTx s))" by (simp add: set_element_def)
  obtain c where "mark_processed p s = (Inr (), s\<lparr>ds_ConditionalPayments := c, ds_DBTx := ds_DBTx s\<rparr>)"
    using h m by (simp add: mark_processed_def on_conditional_def on_cpay_def on_cpay_key_def)
  then show ?thesis using assms by (simp add: ds_inv_def ds_abs_def)
qed

lemma ProceedConditionalPayment_run:
  assumes K: "g1_codec P" and "ds_inv P s" "\<not> cp_Processed p" "length (cp_Asset p) = ASSET_LENGTH" "payment_ok P b p"
  shows "\<exists>t. ProceedConditionalPayment P mem_ops b p s = (Inr (), t) \<and> ds_inv P t \<and>
    accounts_wf P (lg_accounts (ds_abs P s) (cp_Asset p)) \<and>
    ds_abs P t = (ds_abs P s)\<lparr>lg_accounts := (lg_accounts (ds_abs P s))(cp_Asset p :=
      fold (\<lambda>i. credit_open P (payment_keys b p ! i) (resolution_credits P b p i)) [0..<length (cp_ReceiverPublicKeys p)]
        (lg_accounts (ds_abs P s) (cp_Asset p)))\<rparr>"
proof -
  obtain s1 where s1: "mark_processed p s = (Inr (), s1)" "ds_inv P s1" "ds_abs P s1 = ds_abs P s"
    using mark_processed_run[OF assms(2)] by blast
  obtain s2 h where s2: "accs_GetMap P mem_ops (cp_Asset p) s1 = (Inr (), s2)" "ds_inv P s2" "ds_abs P s2 = ds_abs P s"
    "map_of (ac_maps (ds_AccsCollection s2)) (cp_Asset p) = Some h"
    using accs_GetMap_run[OF K s1(2) assms(4)] s1(3) by auto
  note hok = ds_invD(8)[OF s2(2,4)]
  have c: "lg_accounts (ds_abs P s) (cp_Asset p) = acc_of P h (ds_DBTx s2)" using s2(3)[symmetric] s2(4) by (simp add: ds_abs_def acc_contents_def)
  let ?m = "gfor [0..<length (cp_ReceiverPublicKeys p)] (resolve_one P mem_ops b p)"
  obtain h' x' where f: "?m (h, ds_DBTx s2) = (Inr (), (h', x'))" "acc_map_ok P (cp_Asset p) h' x'" "mem_view x' = mem_view (ds_DBTx s2)"
    "acc_of P h' x' = fold (\<lambda>i. credit_open P (payment_keys b p ! i) (resolution_credits P b p i)) [0..<length (cp_ReceiverPublicKeys p)] (acc_of P h (ds_DBTx s2))"
    using resolve_all_run[OF K hok assms(5), of "[0..<length (cp_ReceiverPublicKeys p)]"] by auto
  obtain t where t: "on_accs_of (cp_Asset p) ?m s2 = (Inr (), t)" "ds_inv P t"
    "ds_abs P t = (ds_abs P s2)\<lparr>lg_accounts := (lg_accounts (ds_abs P s2))(cp_Asset p := acc_of P h' x')\<rparr>"
    using on_accs_run[where m = ?m, OF K s2(2,4) f(1-3)] by blast
  have "ProceedConditionalPayment P mem_ops b p s = (Inr (), t)"
    using assms(3) s1(1) s2(1) t(1) by (simp add: ProceedConditionalPayment_def gbind_Inr)
  then show ?thesis using t(2,3) s2(3) f(4) c lg_accounts_wf[OF K hok] by simp
qed

text \<open>C33: Resolving a conditional payment ends without error when its keys can be read as points and its amounts as
  ciphertexts, which the identity cannot, whether the map of its height is open or not.  Only accounts of its asset change, missing ones are created with a balance of zero,
  and every private key reads off every account what it read before plus the amounts stored for the
  receivers, or, when the payment is not resolved in their favour, minus the amounts stored for the
  senders.  A payment that is marked as processed is refused.\<close>

theorem ProceedConditionalPayment_credits:
  assumes "g1_laws P" "g1_codec P" "ds_inv P s" "length (cp_Asset p) = ASSET_LENGTH" "payment_ok P b p"
  shows "if cp_Processed p then fst (ProceedConditionalPayment P mem_ops b p s) = Inl (Error ''pending Future already processed'')
    else \<exists>t accs. ProceedConditionalPayment P mem_ops b p s = (Inr (), t) \<and> ds_inv P t \<and>
      ds_abs P t = (ds_abs P s)\<lparr>lg_accounts := (lg_accounts (ds_abs P s))(cp_Asset p := accs)\<rparr> \<and>
      (\<forall>key k val bal v.
         start_balance P (lg_accounts (ds_abs P s) (cp_Asset p)) k = Some bal \<longrightarrow> opens P key bal v \<longrightarrow>
         (\<forall>i < length (cp_ReceiverPublicKeys p). \<forall>e. payment_keys b p ! i = k \<longrightarrow>
            ElGamal_Deserialize P (payment_amounts b p ! i) = Inr e \<longrightarrow> opens P key e (val i)) \<longrightarrow>
         (\<exists>bal'. start_balance P accs k = Some bal' \<and>
            opens P key bal' (v + (if b then 1 else - 1) *
              sum_list (map val (filter (\<lambda>i. payment_keys b p ! i = k) [0..<length (cp_ReceiverPublicKeys p)])))))"
proof (cases "cp_Processed p")
  case True
  then show ?thesis by (simp add: ProceedConditionalPayment_def)
next
  case False
  let ?m = "lg_accounts (ds_abs P s) (cp_Asset p)" and ?js = "[0..<length (cp_ReceiverPublicKeys p)]"
  let ?accs = "fold (\<lambda>i. credit_open P (payment_keys b p ! i) (resolution_credits P b p i)) ?js ?m"
  obtain t where t: "ProceedConditionalPayment P mem_ops b p s = (Inr (), t)" "ds_inv P t" "accounts_wf P ?m"
    "ds_abs P t = (ds_abs P s)\<lparr>lg_accounts := (lg_accounts (ds_abs P s))(cp_Asset p := ?accs)\<rparr>"
    using ProceedConditionalPayment_run[OF assms(2,3) False assms(4,5)] by blast
  have "\<exists>bal'. start_balance P ?accs k = Some bal' \<and>
      opens P key bal' (v + (if b then 1 else - 1) * sum_list (map val (filter (\<lambda>i. payment_keys b p ! i = k) ?js)))"
    if s: "start_balance P ?m k = Some bal" "opens P key bal v" and
      a: "\<And>i e. i < length (cp_ReceiverPublicKeys p) \<Longrightarrow> payment_keys b p ! i = k \<Longrightarrow>
        ElGamal_Deserialize P (payment_amounts b p ! i) = Inr e \<Longrightarrow> opens P key e (val i)" for key k val bal v
  proof -
    let ?w = "\<lambda>i. (if b then 1 else - 1) * val i :: int"
    let ?cs = "map (\<lambda>i. (payment_keys b p ! i, resolution_credits P b p i, ?w i)) ?js"
    have o: "opens P key (resolution_credits P b p i) (?w i)" if i: "i < length (cp_ReceiverPublicKeys p)" "payment_keys b p ! i = k" for i
    proof -
      obtain e where e: "ElGamal_Deserialize P (payment_amounts b p ! i) = Inr e" using assms(5) i(1) by (auto simp: payment_ok_def)
      obtain n where n: "ElGamal_Neg P e = Inr n" "opens P key n (- val i)" using opens_Neg[OF assms(1) a[OF i e]] by blast
      show ?thesis using e n a[OF i e] by (cases b) (simp_all add: resolution_credits_def resolved_amount_def)
    qed
    have c: "\<forall>(j, e, w) \<in> set ?cs. amount_ok P e \<and> (j = k \<longrightarrow> opens P key e w)"
      using o payment_okD(2)[OF assms(5)] by auto
    have f: "fold (\<lambda>(j, e, w). credit_open P j e) ?cs ?m = ?accs" by (simp add: fold_map comp_def)
    have "sum_list (map (\<lambda>(j, e, w). if j = k then w else 0) ?cs) = sum_list (map ?w (filter (\<lambda>i. payment_keys b p ! i = k) ?js))"
      by (simp add: comp_def sum_list_map_filter')
    also have "\<dots> = (if b then 1 else - 1) * sum_list (map val (filter (\<lambda>i. payment_keys b p ! i = k) ?js))"
      by (simp add: sum_list_const_mult)
    finally show ?thesis using credits_open_balance[OF assms(1,2) t(3) c s] unfolding f by simp
  qed
  then show ?thesis using False t by (auto intro!: exI[of _ t] exI[of _ ?accs])
qed

text \<open>Opening the map of a height on a fresh ledger.\<close>

lemma conditional_GetMap_fresh:
  assumes K: "g1_codec P" and "ds_inv P s" "mem_view (ds_DBTx s) = (\<lambda>_. None)" "cc_maps (ds_ConditionalPayments s) = []"
  shows "\<exists>t. on_conditional (ConditionalPayments_GetMap mem_ops n) s = (Inr (), t) \<and> ds_inv P t \<and> ds_abs P t = ds_abs P s \<and>
    map_of (cc_maps (ds_ConditionalPayments t)) (rune_string n) \<noteq> None"
proof -
  obtain h x where h: "NewConditionalPaymentsHashMap mem_ops n (ds_DBTx s) = (Inr h, x)" "mem_view x = (\<lambda>_. None)" "tx_IsWritable mem_ops x"
    using CreateNewHashMap_fresh[OF assms(3) ds_invD(4)[OF assms(2)], of "lit ''conditionalPayments_'' @ FormatUint n"]
    by (fastforce simp: NewConditionalPaymentsHashMap_def)
  have v: "mem_view x = mem_view (ds_DBTx s)" using h(2) assms(3) by simp
  let ?c = "(ds_ConditionalPayments s)\<lparr>cc_tx := x, cc_list := cc_list (ds_ConditionalPayments s) @ [rune_string n],
    cc_maps := AList.update (rune_string n) (n, h) (cc_maps (ds_ConditionalPayments s))\<rparr>"
  have run: "on_conditional (ConditionalPayments_GetMap mem_ops n) s = (Inr (), s\<lparr>ds_ConditionalPayments := ?c, ds_DBTx := x\<rparr>)"
    using h(1) assms(4) by (simp add: on_conditional_def ConditionalPayments_GetMap_def)
  have i: "ds_inv P (s\<lparr>ds_ConditionalPayments := ?c, ds_DBTx := x\<rparr>)"
    using ds_inv_view[OF K assms(2) v h(3)] by (simp add: ds_inv_def)
  have a: "ds_abs P (s\<lparr>ds_ConditionalPayments := ?c, ds_DBTx := x\<rparr>) = ds_abs P s"
    using ds_abs_view[OF v, of P] by (simp add: ds_abs_def)
  show ?thesis using run i a by (simp add: update_conv')
qed

lemma NewDataStorage_no_payments:
  assumes "NewDataStorage mem_ops mem_empty = (Inr s, x)"
  shows "mem_view (ds_DBTx s) = (\<lambda>_. None)" "cc_maps (ds_ConditionalPayments s) = []"
proof -
  have v0: "mem_view mem_empty = (\<lambda>_. None)" "tx_IsWritable mem_ops mem_empty" by (simp_all add: fun_eq_iff mem_empty_view)
  obtain h1 x1 where 1: "NewRegistrations mem_ops mem_empty = (Inr h1, x1)" "mem_view x1 = (\<lambda>_. None)" "tx_IsWritable mem_ops x1"
    using CreateNewHashMap_fresh[OF v0, of "lit ''registrations''"] by (fastforce simp: NewRegistrations_def)
  obtain h2 x2 where 2: "NewPlainAccounts mem_ops x1 = (Inr h2, x2)" "mem_view x2 = (\<lambda>_. None)" "tx_IsWritable mem_ops x2"
    using CreateNewHashMap_fresh[OF 1(2,3), of "lit ''plainAccs''"] by (fastforce simp: NewPlainAccounts_def)
  obtain h3 x3 where 3: "NewPendingStakesList mem_ops x2 = (Inr h3, x3)" "mem_view x3 = (\<lambda>_. None)" "tx_IsWritable mem_ops x3"
    using CreateNewHashMap_fresh[OF 2(2,3), of "lit ''pendingStakes''"] by (fastforce simp: NewPendingStakesList_def)
  obtain h4 x4 where 4: "NewAssets mem_ops x3 = (Inr h4, x4)" "mem_view x4 = (\<lambda>_. None)"
    using CreateNewHashMap_fresh[OF 3(2,3), of "lit ''assets''"] by (fastforce simp: NewAssets_def)
  show "mem_view (ds_DBTx s) = (\<lambda>_. None)" "cc_maps (ds_ConditionalPayments s) = []"
    using assms 1(1) 2(1) 3(1) 4
    by (auto simp: NewDataStorage_def gbind_Inr NewConditionalPaymentsCollection_def)
qed

theorem ProceedConditionalPayment_credits_witness:
  "\<exists>s t p b. cp_ReceiverPublicKeys p = [g1_EncodeCompressed residue_curve (g1_ScalarMult residue_curve (g1_G residue_curve) (SetBytes [9]))] \<and>
     ProceedConditionalPayment residue_curve mem_ops True p s = (Inr (), t) \<and>
     start_balance residue_curve (lg_accounts (ds_abs residue_curve t) (cp_Asset p))
       (g1_EncodeCompressed residue_curve (g1_ScalarMult residue_curve (g1_G residue_curve) (SetBytes [9]))) = Some b \<and>
     opens residue_curve [9] b 5"
proof -
  let ?P = residue_curve
  let ?pt = "g1_ScalarMult ?P (g1_G ?P) (SetBytes [9])"
  let ?k = "g1_EncodeCompressed ?P ?pt"
  have len: "length ?k = PublicKeySize" and dec: "g1_DecodeCompressed ?P ?k = Inr ?pt"
    using g1_codecD(1)[OF residue_codec] g1_codecD(2)[OF residue_codec, of "residue 9"] residue_zero[of 9]
    by (simp_all add: residue_nine Order_def PublicKeySize_def)
  have z: "opens ?P [9] (zero_amount ?P ?pt) 0"
    by (simp add: zero_amount_def opens_pair g1_add_neg[OF residue_laws] g1_mul_0[OF residue_laws])
  obtain e where e: "ElGamal_Plus ?P (zero_amount ?P ?pt) 5 = Inr e" "opens ?P [9] e 5"
    using opens_Plus[OF residue_laws z, of 5] by auto
  then have eok: "amount_ok ?P e" by (auto simp: ElGamal_Plus_def zero_amount_def eg_construct amount_ok_def)
  have am: "ElGamal_Deserialize ?P (amount_bytes ?P e) = Inr e"
    using amount_codec(4)[OF residue_codec eok] readable_nine e(1) by (simp add: residue_nine)
  obtain s0 x where s0: "NewDataStorage mem_ops mem_empty = (Inr s0, x)" "ds_inv ?P s0"
    "ds_abs ?P s0 = \<lparr>lg_regs = (\<lambda>_. None), lg_plain = (\<lambda>_. None), lg_pending = (\<lambda>_. None), lg_accounts = (\<lambda>_ _. None)\<rparr>"
    using NewDataStorage_fresh[OF residue_codec] by blast
  obtain s where s: "ds_inv ?P s" "ds_abs ?P s = ds_abs ?P s0" "map_of (cc_maps (ds_ConditionalPayments s)) (rune_string 10) \<noteq> None"
    using conditional_GetMap_fresh[OF residue_codec s0(2) NewDataStorage_no_payments[OF s0(1)], of 10] by blast
  let ?p = "(NewConditionalPayment [] 0 10)\<lparr>cp_Asset := NATIVE_ASSET_FULL, cp_ReceiverPublicKeys := [?k], cp_ReceiverAmounts := [amount_bytes ?P e]\<rparr>"
  have ok: "payment_ok ?P True ?p" using len dec am by (simp add: payment_ok_def payment_keys_def payment_amounts_def)
  have l: "length (cp_Asset ?p) = ASSET_LENGTH" by (simp add: NATIVE_ASSET_FULL_def ASSET_LENGTH_def)
  have np: "\<not> cp_Processed ?p" by (simp add: NewConditionalPayment_def)
  have st: "start_balance ?P (lg_accounts (ds_abs ?P s) (cp_Asset ?p)) ?k = Some (zero_amount ?P ?pt)"
    using s(2) s0(3) dec decode_account_bytes[OF residue_codec zero_amount_ok]
    by (simp add: start_balance_def open_account_def balance_of_def)
  have o: "\<forall>i < length (cp_ReceiverPublicKeys ?p). \<forall>e. payment_keys True ?p ! i = ?k \<longrightarrow>
      ElGamal_Deserialize ?P (payment_amounts True ?p ! i) = Inr e \<longrightarrow> opens ?P [9] e 5"
    using am e(2) by (simp add: payment_amounts_def)
  from ProceedConditionalPayment_credits[OF residue_laws residue_codec s(1) l ok] np
  obtain t accs where t: "ProceedConditionalPayment ?P mem_ops True ?p s = (Inr (), t)"
    "ds_abs ?P t = (ds_abs ?P s)\<lparr>lg_accounts := (lg_accounts (ds_abs ?P s))(cp_Asset ?p := accs)\<rparr>"
    and c: "\<forall>key k val bal v.
         start_balance ?P (lg_accounts (ds_abs ?P s) (cp_Asset ?p)) k = Some bal \<longrightarrow> opens ?P key bal v \<longrightarrow>
         (\<forall>i < length (cp_ReceiverPublicKeys ?p). \<forall>e. payment_keys True ?p ! i = k \<longrightarrow>
            ElGamal_Deserialize ?P (payment_amounts True ?p ! i) = Inr e \<longrightarrow> opens ?P key e (val i)) \<longrightarrow>
         (\<exists>bal'. start_balance ?P accs k = Some bal' \<and>
            opens ?P key bal' (v + (if True then 1 else - 1) *
              sum_list (map val (filter (\<lambda>i. payment_keys True ?p ! i = k) [0..<length (cp_ReceiverPublicKeys ?p)]))))"
    unfolding if_not_P[OF np] by blast
  have "\<exists>b. start_balance ?P accs ?k = Some b \<and> opens ?P [9] b 5"
    using c[rule_format, OF st z, of "\<lambda>_. 5"] o by (simp add: payment_keys_def)
  moreover have "lg_accounts (ds_abs ?P t) (cp_Asset ?p) = accs" using t(2) by simp
  moreover have "cp_ReceiverPublicKeys ?p = [?k]" by simp
  ultimately show ?thesis using t(1) by blast
qed

end
