(* ===== verification/Conditional_Maps.thy ===== *)
theory Conditional_Maps
  imports Ledger_Steps
begin

text \<open>
  How the collection of conditional payments (\<^verbatim>\<open>conditional_payments_collection.go\<close>) finds the map of a
  height. The key of the Go map is \<^verbatim>\<open>string(blockHeight)\<close>, the UTF-8 text of the character with that
  number: the theory shows the encoding injective on characters, and what the collection does with the
  heights that are no characters.
\<close>

lemma unat_of_nat_byte: "a < 256 \<Longrightarrow> unat (of_nat a :: byte) = a"
  by (simp add: unat_of_nat take_bit_nat_eq_self)

lemma byte_eq: "a < 256 \<Longrightarrow> b < 256 \<Longrightarrow> (of_nat a :: byte) = of_nat b \<longleftrightarrow> a = b"
  by (metis (no_types, lifting) unat_of_nat_byte)

lemma split64: "(m :: nat) mod 64 = n mod 64 \<Longrightarrow> m div 64 = n div 64 \<Longrightarrow> m = n"
  by (metis div_mult_mod_eq)

lemma split4096:
  "(m :: nat) mod 64 = n mod 64 \<Longrightarrow> m div 64 mod 64 = n div 64 mod 64 \<Longrightarrow> m div 4096 = n div 4096 \<Longrightarrow> m = n"
  by (rule split64, assumption, rule split64, simp_all add: div_mult2_eq [symmetric])

lemma split262144:
  "(m :: nat) mod 64 = n mod 64 \<Longrightarrow> m div 64 mod 64 = n div 64 mod 64 \<Longrightarrow>
   m div 4096 mod 64 = n div 4096 mod 64 \<Longrightarrow> m div 262144 = n div 262144 \<Longrightarrow> m = n"
  by (rule split4096, assumption, assumption, rule split64, simp_all add: div_mult2_eq [symmetric])

lemma lead_byte:
  "(n :: nat) < 0x80 \<Longrightarrow> n < 256" "n < 0x800 \<Longrightarrow> 0xC0 + n div 64 < 256" "n < 0x10000 \<Longrightarrow> 0xE0 + n div 4096 < 256"
  "n < 0x110000 \<Longrightarrow> 0xF0 + n div 262144 < 256" "0x80 + n mod 64 < 256"
proof -
  have m: "n mod 64 < 64" by simp
  show "0x80 + n mod 64 < 256" using m by linarith
qed (auto simp: div_less_iff_less_mult less_diff_conv2)

lemma utf8_length: 
  "length (utf8 n) = (if n < 0x80 then 1 else if n < 0x800 then 2 else if n < 0x10000 then 3 else 4)"
  by (simp add: utf8_def)

lemma utf8_inj:
  assumes b: "m < 0x110000" "n < 0x110000" and eq: "utf8 m = utf8 n"
  shows "m = n"
proof -
  have l: "length (utf8 m) = length (utf8 n)" using eq by simp
  consider "m < 0x80" "n < 0x80" | "\<not> m < 0x80" "m < 0x800" "\<not> n < 0x80" "n < 0x800"
    | "\<not> m < 0x800" "m < 0x10000" "\<not> n < 0x800" "n < 0x10000" | "\<not> m < 0x10000" "\<not> n < 0x10000"
    using l unfolding utf8_length by (auto split: if_splits)
  then show ?thesis
  proof cases
    case 1
    then show ?thesis using eq by (simp add: utf8_def byte_eq)
  next
    case 2
    then have "m div 64 = n div 64" "m mod 64 = n mod 64"
      using eq by (simp_all add: utf8_def byte_eq lead_byte)
    then show ?thesis by (metis split64)
  next
    case 3
    then have "m div 4096 = n div 4096" "m div 64 mod 64 = n div 64 mod 64" "m mod 64 = n mod 64"
      using eq by (simp_all add: utf8_def byte_eq lead_byte)
    then show ?thesis by (metis split4096)
  next
    case 4
    then have "m div 262144 = n div 262144" "m div 4096 mod 64 = n div 4096 mod 64"
      "m div 64 mod 64 = n div 64 mod 64" "m mod 64 = n mod 64"
      using eq b by (simp_all add: utf8_def byte_eq lead_byte)
    then show ?thesis by (metis split262144)
  qed
qed

definition rune_of :: "nat \<Rightarrow> nat" where
  "rune_of n = (if rune_valid n then n else 0xFFFD)"

lemma rune_of_less: "rune_of n < 0x110000"
  by (simp add: rune_of_def rune_valid_def)

lemma rune_string_eq: "rune_string m = rune_string n \<longleftrightarrow> rune_of (unat m) = rune_of (unat n)"
  using utf8_inj [OF rune_of_less rune_of_less] by (auto simp: rune_string_def rune_of_def [symmetric])

lemma unat_large: "0x110000 \<le> m \<Longrightarrow> \<not> rune_valid (unat m)" for m :: uint64
  by (simp add: rune_valid_def word_le_nat_alt)

text \<open>C34: The map the payments of a height are kept in is found under the character with the number of the height.
  Heights that are characters, other than the replacement character U+FFFD, have maps of their own; all others
  share the map of U+FFFD. In particular from height 1114112 on, once the map of one height is open the collection
  returns it for every other height, and the payments of different heights are mixed.\<close>

theorem conditional_maps:
  fixes m n :: uint64
  shows "(rune_string m = rune_string n \<longleftrightarrow>
           m = n \<or> (\<not> rune_valid (unat m) \<or> unat m = 0xFFFD) \<and> (\<not> rune_valid (unat n) \<or> unat n = 0xFFFD)) \<and>
         (0x110000 \<le> m \<and> 0x110000 \<le> n \<and> ConditionalPayments_GetMap X m c = (Inr (), c') \<longrightarrow>
           ConditionalPayments_GetMap X n c' = (Inr (), c') \<and> on_cpay n f c' = on_cpay m f c')"
proof (intro conjI impI; (elim conjE)?)
  show "rune_string m = rune_string n \<longleftrightarrow>
     m = n \<or> (\<not> rune_valid (unat m) \<or> unat m = 0xFFFD) \<and> (\<not> rune_valid (unat n) \<or> unat n = 0xFFFD)"
    by (auto simp: rune_string_eq rune_of_def rune_valid_def word_unat_eq_iff)
next
  assume a: "0x110000 \<le> m" "0x110000 \<le> n" "ConditionalPayments_GetMap X m c = (Inr (), c')"
  have k: "rune_string n = rune_string m" using a by (simp add: rune_string_eq rune_of_def unat_large)
  have "map_of (cc_maps c') (rune_string m) \<noteq> None"
    using a(3) by (auto simp: ConditionalPayments_GetMap_def gbind_def gget_def gret_def update_conv' split: option.splits prod.splits sum.splits)
  then show "ConditionalPayments_GetMap X n c' = (Inr (), c')"
    by (auto simp: ConditionalPayments_GetMap_def gbind_def gget_def gret_def k)
  show "on_cpay n f c' = on_cpay m f c'" by (simp add: on_cpay_def k)
qed

theorem conditional_maps_witness:
  "\<exists>c'. ConditionalPayments_GetMap mem_ops 0x110000 (NewConditionalPaymentsCollection mem_empty) = (Inr (), c') \<and>
     ConditionalPayments_GetMap mem_ops 0x110001 c' = (Inr (), c') \<and> on_cpay 0x110001 (gget (\<lambda>s. hm_Count (fst s))) c' = on_cpay 0x110000 (gget (\<lambda>s. hm_Count (fst s))) c'"
proof -
  let ?c = "NewConditionalPaymentsCollection mem_empty"
  have v0: "mem_view mem_empty = (\<lambda>_. None)" "tx_IsWritable mem_ops mem_empty" by (simp_all add: fun_eq_iff mem_empty_view)
  obtain h x where h: "NewConditionalPaymentsHashMap mem_ops 0x110000 mem_empty = (Inr h, x)"
    using CreateNewHashMap_fresh [OF v0, of "lit ''conditionalPayments_'' @ FormatUint 0x110000"]
    by (fastforce simp: NewConditionalPaymentsHashMap_def)
  obtain c' where c': "ConditionalPayments_GetMap mem_ops 0x110000 ?c = (Inr (), c')"
    using h by (simp add: ConditionalPayments_GetMap_def NewConditionalPaymentsCollection_def)
  show ?thesis
    using c' conditional_maps [of "0x110000" "0x110001" mem_ops ?c c' "gget (\<lambda>s. hm_Count (fst s))"] by auto
qed

end
