(* ===== verification/Tx_Simple.thy ===== *)
theory Tx_Simple
  imports Data_Storage Addresses
begin

text \<open>
  Simple transactions (\<^verbatim>\<open>blockchain/transactions/transaction/transaction_simple\<close>): the input, the two extras
  (offers of fee liquidity, resolution of a conditional payment) and the transaction itself, with its
  validation, its signatures, its wire format and its inclusion in the ledger.
  The plain account that pays is changed in place and stored with \<^verbatim>\<open>Update\<close> at the end; the model passes it
  along and stores it there.  The difference shows only in the uncommitted state after an error, which
  every caller discards.
\<close>

section \<open>The input\<close>

record TransactionSimpleInput =
  vin_PublicKey :: bytes
  vin_Signature :: bytes

definition Vin_Validate :: "TransactionSimpleInput \<Rightarrow> unit result" where
  "Vin_Validate vin =
     (if vin_PublicKey vin = BURN_PUBLIC_KEY then Inl (Error ''Input includes BURN ADDR'')
      else if length (vin_PublicKey vin) \<noteq> PublicKeySize then Inl (Error ''Vin.PublicKey length is invalid'')
      else if length (vin_Signature vin) \<noteq> SignatureSize then Inl (Error ''Vin.Signature length is invalid'')
      else Inr ())"

definition Vin_Serialize :: "TransactionSimpleInput \<Rightarrow> bool \<Rightarrow> BufferWriter \<Rightarrow> BufferWriter" where
  "Vin_Serialize vin inclSignature = ser_seq
     [Write (vin_PublicKey vin),
      (if inclSignature then Write (vin_Signature vin) else (\<lambda>w. w))]"

definition Vin_Deserialize :: "(BufferReader, TransactionSimpleInput) go" where
  "Vin_Deserialize =
     gbind (ReadBytes (int PublicKeySize)) (\<lambda>publicKey.
     gbind (ReadBytes (int SignatureSize)) (\<lambda>signature.
     gret \<lparr>vin_PublicKey = publicKey, vin_Signature = signature\<rparr>))"

text \<open>The signature handed to the verifier: an empty slice stands for the nil one.\<close>

definition slice_arg :: "bytes \<Rightarrow> bytes option" where
  "slice_arg b = (if b = [] then None else Some b)"

section \<open>Offers of fee liquidity\<close>

record TransactionSimpleExtraUpdateAssetFeeLiquidity =
  xl_Liquidities :: "AssetFeeLiquidity list"
  xl_NewCollector :: bool
  xl_Collector :: bytes

text \<open>The loop over the liquidities: the list of the account and the heap of the asset are updated together.\<close>

fun update_liquidities :: "'x StoreTx \<Rightarrow> AssetFeeLiquidity list \<Rightarrow> PlainAccount \<Rightarrow> ('p, 'x, PlainAccount) ds_go" where
  "update_liquidities X [] plainAcc = gret plainAcc"
| "update_liquidities X (liquidity # ls) plainAcc =
     (case UpdateLiquidity liquidity (pa_AssetFeeLiquidities plainAcc) of
        (Inl e, _) \<Rightarrow> glift (Inl e)
      | (Inr status, l) \<Rightarrow>
          gbind (write_plain (plainAcc\<lparr>pa_AssetFeeLiquidities := l\<rparr>)) (\<lambda>plainAcc.
          gbind (on_liquidity (Collection_UpdateLiquidity X (pa_Key plainAcc) (al_Rate liquidity)
                   (al_LeadingZeros liquidity) (al_Asset liquidity) status)) (\<lambda>_.
          update_liquidities X ls plainAcc)))"

definition UpdateExtra_Include ::
  "'x StoreTx \<Rightarrow> TransactionSimpleExtraUpdateAssetFeeLiquidity \<Rightarrow> uint64 \<Rightarrow> PlainAccount \<Rightarrow> ('p, 'x, PlainAccount) ds_go" where
  "UpdateExtra_Include X txExtra blockHeight plainAcc =
     gbind (glift (GetRequiredAssetFee blockHeight)) (\<lambda>required.
     gbind (gcheck (pa_Unclaimed plainAcc < required) ''Unclaimed must be greater'') (\<lambda>_.
     gbind (if xl_NewCollector txExtra then
              gbind (on_regs (Exists X (xl_Collector txExtra))) (\<lambda>isReg.
              gbind (gcheck (\<not> isReg) ''Collector must be registered before!'') (\<lambda>_.
              write_plain (plainAcc\<lparr>pa_AssetFeeLiquidities :=
                      (pa_AssetFeeLiquidities plainAcc)\<lparr>afl_Collector := xl_Collector txExtra\<rparr>\<rparr>)))
            else gret plainAcc) (\<lambda>plainAcc.
     gbind (update_liquidities X (xl_Liquidities txExtra) plainAcc) (\<lambda>plainAcc.
     write_plain (plainAcc\<lparr>pa_AssetFeeLiquidities :=
             (if length (afl_List (pa_AssetFeeLiquidities plainAcc)) = 0
              then (pa_AssetFeeLiquidities plainAcc)\<lparr>afl_Collector := [], afl_Version := afl_NONE\<rparr>
              else (pa_AssetFeeLiquidities plainAcc)\<lparr>afl_Version := afl_SIMPLE\<rparr>)\<rparr>)))))"

definition UpdateExtra_Validate :: "TransactionSimpleExtraUpdateAssetFeeLiquidity \<Rightarrow> uint64 \<Rightarrow> unit result" where
  "UpdateExtra_Validate txExtra fee =
     rbind (rmap AssetFeeLiquidity_Validate (xl_Liquidities txExtra)) (\<lambda>_. Inr ())"

definition UpdateExtra_Serialize ::
  "TransactionSimpleExtraUpdateAssetFeeLiquidity \<Rightarrow> bool \<Rightarrow> BufferWriter \<Rightarrow> BufferWriter" where
  "UpdateExtra_Serialize txExtra inclSignature = ser_seq
     [WriteBool (xl_NewCollector txExtra),
      Write (xl_Collector txExtra),
      WriteByte (of_nat (length (xl_Liquidities txExtra))),
      fold AssetFeeLiquidity_Serialize (xl_Liquidities txExtra)]"

definition UpdateExtra_Deserialize :: "(BufferReader, TransactionSimpleExtraUpdateAssetFeeLiquidity) go" where
  "UpdateExtra_Deserialize =
     gbind ReadBool (\<lambda>newCollector.
     gbind (when_read newCollector [] (ReadBytes (int PublicKeySize))) (\<lambda>collector.
     gbind ReadByte (\<lambda>count.
     gbind (grepeat (unat count) AssetFeeLiquidity_Deserialize) (\<lambda>liquidities.
     gret \<lparr>xl_Liquidities = liquidities, xl_NewCollector = newCollector, xl_Collector = collector\<rparr>))))"

section \<open>Resolution of a conditional payment\<close>

record TransactionSimpleExtraResolutionConditionalPayment =
  xr_TxId :: bytes
  xr_PayloadIndex :: byte
  xr_Resolution :: bool
  xr_MultisigPublicKeys :: "bytes list"
  xr_Signatures :: "bytes list"

text \<open>The index over all heights is read from the database, so a payment of the same block is not found.\<close>

definition ResolutionExtra_Include ::
  "'p G1Ops \<Rightarrow> 'x StoreTx \<Rightarrow> TransactionSimpleExtraResolutionConditionalPayment \<Rightarrow> uint64 \<Rightarrow> ('p, 'x, unit) ds_go" where
  "ResolutionExtra_Include P X this blockHeight =
     (let key = conditional_key (xr_TxId this) (xr_PayloadIndex this) in
      gbind (on_db (tx_Get X (conditionalPayments_all key))) (\<lambda>val.
      case val of
        None \<Rightarrow> gerr ''Pending Future not found by key''
      | Some v \<Rightarrow>
          gbind (glift (ParseUint v)) (\<lambda>txBlockHeight.
          gbind (gcheck (txBlockHeight < blockHeight + 1) ''Pending Future Expired'') (\<lambda>_.
          gbind (on_conditional (ConditionalPayments_GetMap X txBlockHeight)) (\<lambda>_.
          gbind (on_conditional (on_cpay txBlockHeight (Get ConditionalPayment_ops X key))) (\<lambda>found.
          case found of
            None \<Rightarrow> gerr ''Pending Future not found''
          | Some condPayment \<Rightarrow>
              gbind (gcheck (cp_Processed condPayment) ''Pending Future was already processed'') (\<lambda>_.
              gbind (gcheck (unat (cp_MultisigThreshold condPayment) > length (xr_MultisigPublicKeys this))
                       ''Threshold not met'') (\<lambda>_.
              gbind (gcheck (\<exists>k \<in> set (xr_MultisigPublicKeys this). k \<notin> set (cp_MultisigPublicKeys condPayment))
                       ''Invalid multisig public key'') (\<lambda>_.
              gbind (ProceedConditionalPayment P X (xr_Resolution this) condPayment) (\<lambda>_.
              gbind (on_conditional (on_cpay txBlockHeight
                       (Update ConditionalPayment_ops X key (Some (condPayment\<lparr>cp_Processed := True\<rparr>))))) (\<lambda>_.
              gret ())))))))))))"

definition MessageForSigning :: "(bytes \<Rightarrow> bytes) \<Rightarrow> TransactionSimpleExtraResolutionConditionalPayment \<Rightarrow> bytes" where
  "MessageForSigning sha3 this = sha3 (SerializeToBytes (ser_seq
     [Write (xr_TxId this), WriteByte (xr_PayloadIndex this), WriteBool (xr_Resolution this)]))"

text \<open>The loop over the keys, from position \<open>i\<close>; a missing signature is an index out of range.\<close>

fun verify_multisig ::
  "'p G1Ops \<Rightarrow> (bytes \<Rightarrow> bytes) \<Rightarrow> bytes \<Rightarrow> bytes list \<Rightarrow> nat \<Rightarrow> bytes list \<Rightarrow> bool result" where
  "verify_multisig P keccak msg signatures i [] = Inr True"
| "verify_multisig P keccak msg signatures i (k # ks) =
     rbind (rnth signatures i) (\<lambda>sig.
     rbind (VerifySignature P keccak msg (slice_arg sig) k) (\<lambda>ok.
     if \<not> ok then Inr False else verify_multisig P keccak msg signatures (Suc i) ks))"

definition ResolutionExtra_VerifySignature ::
  "'p G1Ops \<Rightarrow> (bytes \<Rightarrow> bytes) \<Rightarrow> (bytes \<Rightarrow> bytes) \<Rightarrow> TransactionSimpleExtraResolutionConditionalPayment \<Rightarrow> bool result" where
  "ResolutionExtra_VerifySignature P sha3 keccak this =
     verify_multisig P keccak (MessageForSigning sha3 this) (xr_Signatures this) 0 (xr_MultisigPublicKeys this)"

definition ResolutionExtra_Validate :: "TransactionSimpleExtraResolutionConditionalPayment \<Rightarrow> uint64 \<Rightarrow> unit result" where
  "ResolutionExtra_Validate this fee =
     (if length (xr_MultisigPublicKeys this) \<noteq> length (xr_Signatures this)
        then Inl (Error ''Signatures and Public Keys Mismatch'')
      else if length (xr_MultisigPublicKeys this) = 0 \<or> length (xr_MultisigPublicKeys this) > 5
        then Inl (Error ''Invalid number of Public Keys'')
      else if fee \<noteq> 0 then Inl (Error ''Fee should be zero'')
      else if card (set (xr_MultisigPublicKeys this)) \<noteq> length (xr_MultisigPublicKeys this)
        then Inl (Error ''public Keys contain duplicates'')
      else Inr ())"

definition ResolutionExtra_Serialize ::
  "TransactionSimpleExtraResolutionConditionalPayment \<Rightarrow> bool \<Rightarrow> (BufferWriter \<Rightarrow> BufferWriter) result" where
  "ResolutionExtra_Serialize this inclSignature =
     rbind (rmap (\<lambda>i. rbind (rnth (xr_Signatures this) i) (\<lambda>sig. Inr (xr_MultisigPublicKeys this ! i, sig)))
              [0..<length (xr_MultisigPublicKeys this)]) (\<lambda>pairs.
     Inr (ser_seq
       [Write (xr_TxId this),
        WriteByte (xr_PayloadIndex this),
        WriteBool (xr_Resolution this),
        WriteByte (of_nat (length (xr_Signatures this))),
        fold (\<lambda>p. ser_seq [Write (fst p), Write (snd p)]) pairs]))"

definition ResolutionExtra_Deserialize :: "(BufferReader, TransactionSimpleExtraResolutionConditionalPayment) go" where
  "ResolutionExtra_Deserialize =
     gbind (ReadBytes (int HashSize)) (\<lambda>txId.
     gbind ReadByte (\<lambda>payloadIndex.
     gbind ReadBool (\<lambda>resolution.
     gbind ReadByte (\<lambda>n.
     gbind (grepeat (unat n)
       (gbind (ReadBytes (int PublicKeySize)) (\<lambda>k.
        gbind (ReadBytes (int SignatureSize)) (\<lambda>s. gret (k, s))))) (\<lambda>pairs.
     gret \<lparr>xr_TxId = txId, xr_PayloadIndex = payloadIndex, xr_Resolution = resolution,
           xr_MultisigPublicKeys = map fst pairs, xr_Signatures = map snd pairs\<rparr>)))))"

section \<open>The extra\<close>

datatype TransactionSimpleExtra =
    ExtraUpdateAssetFeeLiquidity TransactionSimpleExtraUpdateAssetFeeLiquidity
  | ExtraResolutionConditionalPayment TransactionSimpleExtraResolutionConditionalPayment

text \<open>\<^verbatim>\<open>IncludeTransactionVin0\<close> gets the plain account, nil without an input, and may change it.\<close>

fun SimpleExtra_Include ::
  "'p G1Ops \<Rightarrow> 'x StoreTx \<Rightarrow> TransactionSimpleExtra \<Rightarrow> uint64 \<Rightarrow> PlainAccount option \<Rightarrow> ('p, 'x, PlainAccount option) ds_go" where
  "SimpleExtra_Include P X (ExtraUpdateAssetFeeLiquidity e) blockHeight plainAcc =
     deref plainAcc (\<lambda>p. gbind (UpdateExtra_Include X e blockHeight p) (\<lambda>p. gret (Some p)))"
| "SimpleExtra_Include P X (ExtraResolutionConditionalPayment e) blockHeight plainAcc =
     gbind (ResolutionExtra_Include P X e blockHeight) (\<lambda>_. gret plainAcc)"

fun SimpleExtra_Validate :: "TransactionSimpleExtra \<Rightarrow> uint64 \<Rightarrow> unit result" where
  "SimpleExtra_Validate (ExtraUpdateAssetFeeLiquidity e) fee = UpdateExtra_Validate e fee"
| "SimpleExtra_Validate (ExtraResolutionConditionalPayment e) fee = ResolutionExtra_Validate e fee"

fun SimpleExtra_Serialize :: "TransactionSimpleExtra \<Rightarrow> bool \<Rightarrow> (BufferWriter \<Rightarrow> BufferWriter) result" where
  "SimpleExtra_Serialize (ExtraUpdateAssetFeeLiquidity e) inclSignature = Inr (UpdateExtra_Serialize e inclSignature)"
| "SimpleExtra_Serialize (ExtraResolutionConditionalPayment e) inclSignature = ResolutionExtra_Serialize e inclSignature"

section \<open>The transaction\<close>

definition SCRIPT_UPDATE_ASSET_FEE_LIQUIDITY :: uint64 where "SCRIPT_UPDATE_ASSET_FEE_LIQUIDITY = 0"
definition SCRIPT_RESOLUTION_CONDITIONAL_PAYMENT :: uint64 where "SCRIPT_RESOLUTION_CONDITIONAL_PAYMENT = 1"

definition TX_DATA_NONE :: byte where "TX_DATA_NONE = 0"
definition TX_DATA_PLAIN_TEXT :: byte where "TX_DATA_PLAIN_TEXT = 1"
definition TX_DATA_ENCRYPTED :: byte where "TX_DATA_ENCRYPTED = 2"

definition TRANSACTIONS_MAX_DATA_LENGTH :: uint64 where "TRANSACTIONS_MAX_DATA_LENGTH = 512"

record TransactionSimple =
  ts_Extra :: "TransactionSimpleExtra option"
  ts_TxScript :: uint64
  ts_DataVersion :: byte
  ts_Data :: bytes
  ts_Nonce :: uint64
  ts_Fee :: uint64
  ts_Vin :: "TransactionSimpleInput option"
  ts_Bloom :: "bool option"

definition HasVin :: "TransactionSimple \<Rightarrow> bool" where
  "HasVin tx \<longleftrightarrow> ts_TxScript tx = SCRIPT_UPDATE_ASSET_FEE_LIQUIDITY"

text \<open>An error of the called function is replaced by another one; a panic passes.\<close>

definition replace_error :: "string \<Rightarrow> ('s, 'a) go \<Rightarrow> ('s, 'a) go" where
  "replace_error msg m = (\<lambda>s. case m s of (Inl (Error _), t) \<Rightarrow> (Inl (Error msg), t) | r \<Rightarrow> r)"

definition pay_from_vin ::
  "'x StoreTx \<Rightarrow> TransactionSimple \<Rightarrow> uint64 \<Rightarrow> TransactionSimpleInput \<Rightarrow> ('p, 'x, PlainAccount) ds_go" where
  "pay_from_vin X tx blockHeight vin =
     gbind (on_plain (Get PlainAccount_ops X (vin_PublicKey vin))) (\<lambda>found.
     case found of
       None \<Rightarrow> gerr ''Plain Account was not found''
     | Some plainAcc \<Rightarrow>
         gbind (gcheck (pa_Nonce plainAcc \<noteq> ts_Nonce tx) ''Account nonce doesn't match'') (\<lambda>_.
         (case IncrementNonce True plainAcc of
            (Inl e, _) \<Rightarrow> glift (Inl e)
          | (Inr _, plainAcc) \<Rightarrow>
              gbind (write_plain plainAcc) (\<lambda>plainAcc.
              replace_error ''Not enought Unclaimed funds to substract Tx.Fee''
                (SubtractUnclaimed X plainAcc (ts_Fee tx) blockHeight)))))"

definition TransactionSimple_Include ::
  "'p G1Ops \<Rightarrow> 'x StoreTx \<Rightarrow> uint64 \<Rightarrow> TransactionSimple \<Rightarrow> ('p, 'x, unit) ds_go" where
  "TransactionSimple_Include P X blockHeight tx =
     gbind (if HasVin tx
            then deref (ts_Vin tx) (\<lambda>vin. gbind (pay_from_vin X tx blockHeight vin) (\<lambda>p. gret (Some p)))
            else gret None) (\<lambda>plainAcc.
     gbind (case ts_Extra tx of None \<Rightarrow> gret plainAcc | Some e \<Rightarrow> SimpleExtra_Include P X e blockHeight plainAcc) (\<lambda>plainAcc.
     if HasVin tx
     then deref (ts_Vin tx) (\<lambda>vin.
            gbind (on_plain (Update PlainAccount_ops X (vin_PublicKey vin) plainAcc)) (\<lambda>_. gret ()))
     else gret ()))"

definition TransactionSimple_ComputeFee :: "TransactionSimple \<Rightarrow> uint64 result" where
  "TransactionSimple_ComputeFee tx = Inr (ts_Fee tx)"

definition TransactionSimple_ComputeAllKeys :: "TransactionSimple \<Rightarrow> bytes set \<Rightarrow> bytes set result" where
  "TransactionSimple_ComputeAllKeys tx out =
     (if HasVin tx then rbind (rderef (ts_Vin tx)) (\<lambda>vin. Inr (insert (vin_PublicKey vin) out)) else Inr out)"

text \<open>The assertion \<^verbatim>\<open>tx.Extra.(*...)\<close> panics on any other extra.\<close>

definition TransactionSimple_VerifySignatureManually ::
  "'p G1Ops \<Rightarrow> (bytes \<Rightarrow> bytes) \<Rightarrow> (bytes \<Rightarrow> bytes) \<Rightarrow> TransactionSimple \<Rightarrow> bytes \<Rightarrow> bool result" where
  "TransactionSimple_VerifySignatureManually P sha3 keccak tx hashForSignature =
     rbind (if HasVin tx
            then rbind (rderef (ts_Vin tx)) (\<lambda>vin.
                 VerifySignature P keccak hashForSignature (slice_arg (vin_Signature vin)) (vin_PublicKey vin))
            else Inr True) (\<lambda>ok.
     if \<not> ok then Inr False
     else if ts_TxScript tx = SCRIPT_RESOLUTION_CONDITIONAL_PAYMENT then
       (case ts_Extra tx of
          Some (ExtraResolutionConditionalPayment e) \<Rightarrow> ResolutionExtra_VerifySignature P sha3 keccak e
        | _ \<Rightarrow> Inl (Panic ''interface conversion''))
     else Inr True)"

definition TransactionSimple_Validate :: "TransactionSimple \<Rightarrow> unit result" where
  "TransactionSimple_Validate tx =
     rbind (if HasVin tx then rbind (rderef (ts_Vin tx)) Vin_Validate else Inr ()) (\<lambda>_.
     if ts_TxScript tx = SCRIPT_UPDATE_ASSET_FEE_LIQUIDITY \<or> ts_TxScript tx = SCRIPT_RESOLUTION_CONDITIONAL_PAYMENT then
       (case ts_Extra tx of
          None \<Rightarrow> Inl (Error ''extra is not assigned'')
        | Some e \<Rightarrow> SimpleExtra_Validate e (ts_Fee tx))
     else Inl (Error ''Invalid Simple TxScript''))"

definition TransactionSimple_SerializeAdvanced :: "TransactionSimple \<Rightarrow> bool \<Rightarrow> (BufferWriter \<Rightarrow> BufferWriter) result" where
  "TransactionSimple_SerializeAdvanced tx inclSignature =
     rbind (if HasVin tx
            then rbind (rderef (ts_Vin tx)) (\<lambda>vin.
                 Inr (ser_seq [WriteUvarint (ts_Nonce tx), WriteUvarint (ts_Fee tx), Vin_Serialize vin inclSignature]))
            else Inr (\<lambda>w. w)) (\<lambda>vin_part.
     rbind (case ts_Extra tx of None \<Rightarrow> Inr (\<lambda>w. w) | Some e \<Rightarrow> SimpleExtra_Serialize e inclSignature) (\<lambda>extra_part.
     Inr (ser_seq
       [WriteUvarint (ts_TxScript tx),
        WriteByte (ts_DataVersion tx),
        when_write (ts_DataVersion tx = TX_DATA_PLAIN_TEXT \<or> ts_DataVersion tx = TX_DATA_ENCRYPTED)
          (WriteVariableBytes (ts_Data tx)),
        vin_part,
        extra_part])))"

definition read_simple_extra :: "uint64 \<Rightarrow> (BufferReader, TransactionSimpleExtra) go" where
  "read_simple_extra script =
     (if script = SCRIPT_UPDATE_ASSET_FEE_LIQUIDITY
      then gbind UpdateExtra_Deserialize (\<lambda>e. gret (ExtraUpdateAssetFeeLiquidity e))
      else gbind ResolutionExtra_Deserialize (\<lambda>e. gret (ExtraResolutionConditionalPayment e)))"

definition TransactionSimple_Deserialize :: "(BufferReader, TransactionSimple) go" where
  "TransactionSimple_Deserialize =
     gbind ReadUvarint (\<lambda>script.
     gbind (gcheck (script \<noteq> SCRIPT_UPDATE_ASSET_FEE_LIQUIDITY \<and> script \<noteq> SCRIPT_RESOLUTION_CONDITIONAL_PAYMENT)
              ''INVALID SCRIPT TYPE'') (\<lambda>_.
     gbind ReadByte (\<lambda>dataVersion.
     gbind (gcheck (dataVersion \<noteq> TX_DATA_NONE \<and> dataVersion \<noteq> TX_DATA_PLAIN_TEXT \<and> dataVersion \<noteq> TX_DATA_ENCRYPTED)
              ''Invalid Tx.DataVersion'') (\<lambda>_.
     gbind (when_read (dataVersion \<noteq> TX_DATA_NONE) [] (ReadVariableBytes TRANSACTIONS_MAX_DATA_LENGTH)) (\<lambda>data.
     gbind (when_read (script = SCRIPT_UPDATE_ASSET_FEE_LIQUIDITY) (0, 0, None)
              (gbind ReadUvarint (\<lambda>nonce. gbind ReadUvarint (\<lambda>fee. gbind Vin_Deserialize (\<lambda>vin.
               gret (nonce, fee, Some vin)))))) (\<lambda>(nonce, fee, vin).
     gbind (read_simple_extra script) (\<lambda>extra.
     gret \<lparr>ts_Extra = Some extra, ts_TxScript = script, ts_DataVersion = dataVersion, ts_Data = data,
           ts_Nonce = nonce, ts_Fee = fee, ts_Vin = vin, ts_Bloom = None\<rparr>)))))))"

text \<open>The bloom of a simple transaction: the flag of \<^verbatim>\<open>TransactionSimpleBloom\<close>.\<close>

definition TransactionSimple_BloomNow :: "TransactionSimple \<Rightarrow> TransactionSimple" where
  "TransactionSimple_BloomNow tx = (if ts_Bloom tx \<noteq> None then tx else tx\<lparr>ts_Bloom := Some True\<rparr>)"

definition TransactionSimple_VerifyBloomAll :: "TransactionSimple \<Rightarrow> unit result" where
  "TransactionSimple_VerifyBloomAll tx =
     (case ts_Bloom tx of
        None \<Rightarrow> Inl (Error ''Tx was not bloomed'')
      | Some bloomed \<Rightarrow> if \<not> bloomed then Inl (Error ''TransactionSimpleBloom was not bloomed'') else Inr ())"


section \<open>The wire format is read back\<close>

lemma reads_bind_nil: "reads m [] x \<Longrightarrow> reads (f x) bs y \<Longrightarrow> reads (gbind m f) bs y"
  using reads_bind[of m "[]" x f bs y] by simp

lemma reads_when_read: "(b \<Longrightarrow> reads m bs x) \<Longrightarrow> (\<not> b \<Longrightarrow> bs = [] \<and> x = u) \<Longrightarrow> reads (when_read b u m) bs x"
  by (cases b) (auto simp: when_read_def intro: reads_gret)

lemma writes_when_write: "(b \<Longrightarrow> writes f bs) \<Longrightarrow> (\<not> b \<Longrightarrow> bs = []) \<Longrightarrow> writes (when_write b f) bs"
  by (cases b) (auto simp: when_write_def intro: writes_id)

definition Vin_wire :: "TransactionSimpleInput \<Rightarrow> bool" where
  "Vin_wire vin \<longleftrightarrow> length (vin_PublicKey vin) = PublicKeySize \<and> length (vin_Signature vin) = SignatureSize"

definition Vin_enc :: "TransactionSimpleInput \<Rightarrow> bytes" where
  "Vin_enc vin = vin_PublicKey vin @ vin_Signature vin @ []"

lemma writes_Vin [codec]: "writes (Vin_Serialize vin True) (Vin_enc vin)"
  unfolding Vin_Serialize_def Vin_enc_def if_True by (intro codec)

lemma reads_Vin: "Vin_wire vin \<Longrightarrow> reads Vin_Deserialize (Vin_enc vin) vin"
  unfolding Vin_Deserialize_def Vin_enc_def
  by (intro reads_bind[OF reads_ReadBytes] reads_gret_eq) (simp_all add: Vin_wire_def)

definition UpdateExtra_wire :: "TransactionSimpleExtraUpdateAssetFeeLiquidity \<Rightarrow> bool" where
  "UpdateExtra_wire e \<longleftrightarrow> length (xl_Liquidities e) < 256 \<and> (\<forall>l \<in> set (xl_Liquidities e). length (al_Asset l) = ASSET_LENGTH) \<and>
     length (xl_Collector e) = (if xl_NewCollector e then PublicKeySize else 0)"

definition UpdateExtra_enc :: "TransactionSimpleExtraUpdateAssetFeeLiquidity \<Rightarrow> bytes" where
  "UpdateExtra_enc e = [if xl_NewCollector e then 1 else 0] @ xl_Collector e @ [of_nat (length (xl_Liquidities e))] @
     concat (map AssetFeeLiquidity_enc (xl_Liquidities e)) @ []"

lemma writes_UpdateExtra: "writes (UpdateExtra_Serialize e b) (UpdateExtra_enc e)"
  unfolding UpdateExtra_Serialize_def UpdateExtra_enc_def by (intro codec writes_fold)

lemma reads_UpdateExtra:
  assumes "UpdateExtra_wire e"
  shows "reads UpdateExtra_Deserialize (UpdateExtra_enc e) e"
proof -
  have n: "unat (of_nat (length (xl_Liquidities e)) :: byte) = length (xl_Liquidities e)"
    using assms by (simp add: UpdateExtra_wire_def unat_of_nat take_bit_nat_eq_self)
  have l: "reads (grepeat (length (xl_Liquidities e)) AssetFeeLiquidity_Deserialize)
      (concat (map AssetFeeLiquidity_enc (xl_Liquidities e))) (xl_Liquidities e)"
    using assms by (intro reads_grepeat reads_AssetFeeLiquidity) (simp add: UpdateExtra_wire_def)
  have c: "reads (when_read (xl_NewCollector e) [] (ReadBytes (int PublicKeySize))) (xl_Collector e) (xl_Collector e)"
    using assms by (intro reads_when_read reads_ReadBytes) (auto simp: UpdateExtra_wire_def)
  show ?thesis
    unfolding UpdateExtra_Deserialize_def UpdateExtra_enc_def
    by (intro reads_bind[OF reads_ReadBool] reads_bind[OF c] reads_bind[OF reads_ReadByte], unfold n,
        intro reads_bind[OF l] reads_gret_eq) simp
qed

definition ResolutionExtra_wire :: "TransactionSimpleExtraResolutionConditionalPayment \<Rightarrow> bool" where
  "ResolutionExtra_wire e \<longleftrightarrow> length (xr_TxId e) = HashSize \<and>
     length (xr_MultisigPublicKeys e) = length (xr_Signatures e) \<and> length (xr_Signatures e) < 256 \<and>
     (\<forall>k \<in> set (xr_MultisigPublicKeys e). length k = PublicKeySize) \<and> (\<forall>s \<in> set (xr_Signatures e). length s = SignatureSize)"

definition ResolutionExtra_enc :: "TransactionSimpleExtraResolutionConditionalPayment \<Rightarrow> bytes" where
  "ResolutionExtra_enc e = xr_TxId e @ [xr_PayloadIndex e] @ [if xr_Resolution e then 1 else 0] @
     [of_nat (length (xr_Signatures e))] @
     concat (map (\<lambda>p. fst p @ snd p @ []) (zip (xr_MultisigPublicKeys e) (xr_Signatures e))) @ []"

lemma rmap_all_Inr: "(\<And>x. x \<in> set xs \<Longrightarrow> f x = Inr (g x)) \<Longrightarrow> rmap f xs = Inr (map g xs)"
  by (induction xs) (simp_all add: rbind_def)

lemma ResolutionExtra_Serialize_wire:
  assumes "ResolutionExtra_wire e"
  shows "\<exists>ser. ResolutionExtra_Serialize e b = Inr ser \<and> writes ser (ResolutionExtra_enc e)"
proof -
  have z: "map (\<lambda>i. (xr_MultisigPublicKeys e ! i, xr_Signatures e ! i)) [0..<length (xr_MultisigPublicKeys e)] =
      zip (xr_MultisigPublicKeys e) (xr_Signatures e)"
    using assms by (intro nth_equalityI) (simp_all add: ResolutionExtra_wire_def)
  have r: "rmap (\<lambda>i. rbind (rnth (xr_Signatures e) i) (\<lambda>sig. Inr (xr_MultisigPublicKeys e ! i, sig)))
      [0..<length (xr_MultisigPublicKeys e)] = Inr (zip (xr_MultisigPublicKeys e) (xr_Signatures e))"
    unfolding z [symmetric] using assms
    by (intro rmap_all_Inr) (simp add: ResolutionExtra_wire_def rnth_def)
  show ?thesis
    unfolding ResolutionExtra_Serialize_def r ResolutionExtra_enc_def
    by (simp only: rbind_simps) (intro exI conjI, rule refl, intro codec writes_fold)
qed

lemma reads_ResolutionExtra:
  assumes w: "ResolutionExtra_wire e"
  shows "reads ResolutionExtra_Deserialize (ResolutionExtra_enc e) e"
proof -
  let ?z = "zip (xr_MultisigPublicKeys e) (xr_Signatures e)"
  have n: "unat (of_nat (length (xr_Signatures e)) :: byte) = length ?z"
    using w by (simp add: ResolutionExtra_wire_def unat_of_nat take_bit_nat_eq_self)
  have l: "reads (grepeat (length ?z) (gbind (ReadBytes (int PublicKeySize)) (\<lambda>k.
        gbind (ReadBytes (int SignatureSize)) (\<lambda>s. gret (k, s))))) (concat (map (\<lambda>p. fst p @ snd p @ []) ?z)) ?z"
  proof (rule reads_grepeat)
    fix p assume "p \<in> set ?z"
    then have "length (fst p) = PublicKeySize" "length (snd p) = SignatureSize"
      using w set_zip_leftD[of "fst p" "snd p"] set_zip_rightD[of "fst p" "snd p"]
      by (simp_all add: ResolutionExtra_wire_def)
    then show "reads (gbind (ReadBytes (int PublicKeySize)) (\<lambda>k. gbind (ReadBytes (int SignatureSize)) (\<lambda>s. gret (k, s))))
        (fst p @ snd p @ []) p"
      by (intro reads_bind[OF reads_ReadBytes] reads_gret_eq) simp_all
  qed
  show ?thesis
    unfolding ResolutionExtra_Deserialize_def ResolutionExtra_enc_def
    by (intro reads_bind[OF reads_ReadBytes] reads_bind[OF reads_ReadByte] reads_bind[OF reads_ReadBool], simp_all only: n,
        use w in \<open>simp add: ResolutionExtra_wire_def\<close>, intro reads_bind[OF l] reads_gret_eq,
        use w in \<open>simp add: ResolutionExtra_wire_def\<close>)
qed

fun SimpleExtra_wire :: "uint64 \<Rightarrow> TransactionSimpleExtra \<Rightarrow> bool" where
  "SimpleExtra_wire script (ExtraUpdateAssetFeeLiquidity e) \<longleftrightarrow> script = SCRIPT_UPDATE_ASSET_FEE_LIQUIDITY \<and> UpdateExtra_wire e"
| "SimpleExtra_wire script (ExtraResolutionConditionalPayment e) \<longleftrightarrow>
     script = SCRIPT_RESOLUTION_CONDITIONAL_PAYMENT \<and> ResolutionExtra_wire e"

fun SimpleExtra_enc :: "TransactionSimpleExtra \<Rightarrow> bytes" where
  "SimpleExtra_enc (ExtraUpdateAssetFeeLiquidity e) = UpdateExtra_enc e"
| "SimpleExtra_enc (ExtraResolutionConditionalPayment e) = ResolutionExtra_enc e"

lemma SimpleExtra_Serialize_wire:
  "SimpleExtra_wire script e \<Longrightarrow> \<exists>ser. SimpleExtra_Serialize e b = Inr ser \<and> writes ser (SimpleExtra_enc e)"
  by (cases e) (auto intro: writes_UpdateExtra ResolutionExtra_Serialize_wire)

lemma reads_SimpleExtra: "SimpleExtra_wire script e \<Longrightarrow> reads (read_simple_extra script) (SimpleExtra_enc e) e"
  using reads_bind[OF reads_UpdateExtra reads_gret] reads_bind[OF reads_ResolutionExtra reads_gret]
  by (cases e)
    (fastforce simp: read_simple_extra_def SCRIPT_UPDATE_ASSET_FEE_LIQUIDITY_def SCRIPT_RESOLUTION_CONDITIONAL_PAYMENT_def)+

text \<open>The transactions whose parts fit their fields on the wire.\<close>

definition TransactionSimple_wire :: "TransactionSimple \<Rightarrow> bool" where
  "TransactionSimple_wire tx \<longleftrightarrow>
     (\<exists>e. ts_Extra tx = Some e \<and> SimpleExtra_wire (ts_TxScript tx) e) \<and>
     (if HasVin tx then \<exists>vin. ts_Vin tx = Some vin \<and> Vin_wire vin else ts_Vin tx = None \<and> ts_Nonce tx = 0 \<and> ts_Fee tx = 0) \<and>
     ts_DataVersion tx \<in> {TX_DATA_NONE, TX_DATA_PLAIN_TEXT, TX_DATA_ENCRYPTED} \<and>
     (ts_DataVersion tx = TX_DATA_NONE \<longrightarrow> ts_Data tx = []) \<and> length (ts_Data tx) \<le> 512 \<and> ts_Bloom tx = None"

definition TransactionSimple_enc :: "TransactionSimple \<Rightarrow> bytes" where
  "TransactionSimple_enc tx =
     PutUvarint (ts_TxScript tx) @ [ts_DataVersion tx] @
     (if ts_DataVersion tx \<noteq> TX_DATA_NONE then PutUvarint (of_nat (length (ts_Data tx))) @ ts_Data tx else []) @
     (if HasVin tx then PutUvarint (ts_Nonce tx) @ PutUvarint (ts_Fee tx) @ Vin_enc (the (ts_Vin tx)) @ [] else []) @
     SimpleExtra_enc (the (ts_Extra tx)) @ []"

lemma TransactionSimple_Serialize_wire:
  assumes w: "TransactionSimple_wire tx"
  shows "\<exists>ser. TransactionSimple_SerializeAdvanced tx True = Inr ser \<and> writes ser (TransactionSimple_enc tx)"
proof -
  obtain e where e0: "ts_Extra tx = Some e" "SimpleExtra_wire (ts_TxScript tx) e" using w by (auto simp: TransactionSimple_wire_def)
  obtain ser where e: "ts_Extra tx = Some e" "SimpleExtra_Serialize e True = Inr ser" "writes ser (SimpleExtra_enc e)"
    using e0(1) SimpleExtra_Serialize_wire[OF e0(2)] by blast
  let ?v = "if HasVin tx then ser_seq [WriteUvarint (ts_Nonce tx), WriteUvarint (ts_Fee tx), Vin_Serialize (the (ts_Vin tx)) True]
    else (\<lambda>w. w)"
  have v: "writes ?v (if HasVin tx then PutUvarint (ts_Nonce tx) @ PutUvarint (ts_Fee tx) @ Vin_enc (the (ts_Vin tx)) @ [] else [])"
    by (cases "HasVin tx"; simp only: if_True if_False) (intro codec)+
  have d: "writes (when_write (ts_DataVersion tx = TX_DATA_PLAIN_TEXT \<or> ts_DataVersion tx = TX_DATA_ENCRYPTED) (WriteVariableBytes (ts_Data tx)))
      (if ts_DataVersion tx \<noteq> TX_DATA_NONE then PutUvarint (of_nat (length (ts_Data tx))) @ ts_Data tx else [])"
    using w by (intro writes_when_write)
      (auto simp: TransactionSimple_wire_def TX_DATA_NONE_def TX_DATA_PLAIN_TEXT_def TX_DATA_ENCRYPTED_def intro: codec)
  have "TransactionSimple_SerializeAdvanced tx True = Inr (ser_seq
     [WriteUvarint (ts_TxScript tx), WriteByte (ts_DataVersion tx),
      when_write (ts_DataVersion tx = TX_DATA_PLAIN_TEXT \<or> ts_DataVersion tx = TX_DATA_ENCRYPTED) (WriteVariableBytes (ts_Data tx)),
      ?v, ser])"
    using w e by (auto simp: TransactionSimple_SerializeAdvanced_def TransactionSimple_wire_def rderef_def)
  moreover have "writes (ser_seq
     [WriteUvarint (ts_TxScript tx), WriteByte (ts_DataVersion tx),
      when_write (ts_DataVersion tx = TX_DATA_PLAIN_TEXT \<or> ts_DataVersion tx = TX_DATA_ENCRYPTED) (WriteVariableBytes (ts_Data tx)),
      ?v, ser]) (TransactionSimple_enc tx)"
    unfolding TransactionSimple_enc_def e(1) option.sel by (intro codec v d e(3))
  ultimately show ?thesis by blast
qed

lemma reads_TransactionSimple:
  assumes w: "TransactionSimple_wire tx"
  shows "reads TransactionSimple_Deserialize (TransactionSimple_enc tx) tx"
proof -
  obtain e where e: "ts_Extra tx = Some e" "SimpleExtra_wire (ts_TxScript tx) e" using w by (auto simp: TransactionSimple_wire_def)
  have s: "\<not> (ts_TxScript tx \<noteq> SCRIPT_UPDATE_ASSET_FEE_LIQUIDITY \<and> ts_TxScript tx \<noteq> SCRIPT_RESOLUTION_CONDITIONAL_PAYMENT)"
    using e(2) by (cases e) auto
  have dv: "\<not> (ts_DataVersion tx \<noteq> TX_DATA_NONE \<and> ts_DataVersion tx \<noteq> TX_DATA_PLAIN_TEXT \<and> ts_DataVersion tx \<noteq> TX_DATA_ENCRYPTED)"
    using w by (auto simp: TransactionSimple_wire_def)
  have d: "reads (when_read (ts_DataVersion tx \<noteq> TX_DATA_NONE) [] (ReadVariableBytes TRANSACTIONS_MAX_DATA_LENGTH))
      (if ts_DataVersion tx \<noteq> TX_DATA_NONE then PutUvarint (of_nat (length (ts_Data tx))) @ ts_Data tx else []) (ts_Data tx)"
    using w by (intro reads_when_read) (auto simp: TransactionSimple_wire_def TRANSACTIONS_MAX_DATA_LENGTH_def intro!: reads_ReadVariableBytes)
  have v: "reads (when_read (ts_TxScript tx = SCRIPT_UPDATE_ASSET_FEE_LIQUIDITY) (0, 0, None)
        (gbind ReadUvarint (\<lambda>nonce. gbind ReadUvarint (\<lambda>fee. gbind Vin_Deserialize (\<lambda>vin. gret (nonce, fee, Some vin))))))
      (if HasVin tx then PutUvarint (ts_Nonce tx) @ PutUvarint (ts_Fee tx) @ Vin_enc (the (ts_Vin tx)) @ [] else [])
      (ts_Nonce tx, ts_Fee tx, ts_Vin tx)"
  proof (cases "HasVin tx")
    case True
    then obtain vin where vin: "ts_Vin tx = Some vin" "Vin_wire vin" using w by (auto simp: TransactionSimple_wire_def)
    have "reads (gbind ReadUvarint (\<lambda>nonce. gbind ReadUvarint (\<lambda>fee. gbind Vin_Deserialize (\<lambda>vin. gret (nonce, fee, Some vin)))))
        (PutUvarint (ts_Nonce tx) @ PutUvarint (ts_Fee tx) @ Vin_enc vin @ []) (ts_Nonce tx, ts_Fee tx, ts_Vin tx)"
      using vin by (intro reads_bind[OF reads_ReadUvarint] reads_bind[OF reads_Vin] reads_gret_eq) simp_all
    then show ?thesis using True vin(1) by (simp add: when_read_def HasVin_def)
  next
    case False
    then show ?thesis using w by (simp add: when_read_def HasVin_def TransactionSimple_wire_def reads_gret_eq)
  qed
  have eq: "\<lparr>ts_Extra = Some e, ts_TxScript = ts_TxScript tx, ts_DataVersion = ts_DataVersion tx, ts_Data = ts_Data tx,
      ts_Nonce = ts_Nonce tx, ts_Fee = ts_Fee tx, ts_Vin = ts_Vin tx, ts_Bloom = None\<rparr> = tx"
    using w e by (cases tx) (simp add: TransactionSimple_wire_def)
  show ?thesis
    unfolding TransactionSimple_Deserialize_def TransactionSimple_enc_def e(1) option.sel
    by (intro reads_bind[OF reads_ReadUvarint] reads_gcheck[OF s] reads_bind[OF reads_ReadByte] reads_gcheck[OF dv] reads_bind[OF d]
        reads_bind[OF v], unfold prod.case, intro reads_bind[OF reads_SimpleExtra[OF e(2)]] reads_gret_eq eq)
qed

end
