(* ===== verification/Tx_Replay.thy ===== *)
theory Tx_Replay
  imports Tx_Simple
begin

text \<open>
  The nonce of a plain account: what including a simple transaction does to the account that pays, and that
  a transaction included once is refused ever after.  The proofs follow the paying account through the
  changes of its map, whatever the store below; the other parts of the ledger are framed off.
\<close>

section \<open>Runs that leave the plain accounts alone\<close>

definition keeps_plain :: "('p, 'x, 'a) ds_go \<Rightarrow> bool" where
  "keeps_plain m \<longleftrightarrow> (\<forall>s r t. m s = (r, t) \<longrightarrow> ds_PlainAccs t = ds_PlainAccs s)"

named_theorems frame \<open>runs that leave the plain accounts alone\<close>

lemma keeps_plainD: "keeps_plain m \<Longrightarrow> m s = (r, t) \<Longrightarrow> ds_PlainAccs t = ds_PlainAccs s"
  by (auto simp: keeps_plain_def)

lemma keeps_pure [frame]:
  "keeps_plain (gret x)" "keeps_plain (gget g)" "keeps_plain (gerr m)" "keeps_plain (gpanic m)" "keeps_plain (glift r)" "keeps_plain (gcheck b m)"
  by (simp_all add: keeps_plain_def gget_def split: if_splits)

lemma keeps_gbind [frame]: "keeps_plain m \<Longrightarrow> (\<And>x. keeps_plain (f x)) \<Longrightarrow> keeps_plain (gbind m f)"
  by (fastforce simp: keeps_plain_def gbind_def split: prod.splits sum.splits)

lemma keeps_if [frame]: "(b \<Longrightarrow> keeps_plain m) \<Longrightarrow> (\<not> b \<Longrightarrow> keeps_plain n) \<Longrightarrow> keeps_plain (if b then m else n)"
  by simp

lemma keeps_option [frame]:
  "keeps_plain m \<Longrightarrow> (\<And>x. keeps_plain (f x)) \<Longrightarrow> keeps_plain (case v of None \<Rightarrow> m | Some x \<Rightarrow> f x)"
  by (cases v) simp_all

lemma keeps_deref [frame]: "(\<And>x. keeps_plain (f x)) \<Longrightarrow> keeps_plain (deref v f)"
  by (simp add: deref_def keeps_option keeps_pure)

lemma keeps_gfor [frame]: "(\<And>x. keeps_plain (f x)) \<Longrightarrow> keeps_plain (gfor xs f)"
  by (induction xs) (simp_all add: keeps_pure keeps_gbind)

lemma keeps_parts [frame]:
  "keeps_plain (on_regs m1)" "keeps_plain (on_pending m2)" "keeps_plain (on_asts m3)" "keeps_plain (on_accounts m4)"
  "keeps_plain (on_conditional m5)" "keeps_plain (on_liquidity m6)" "keeps_plain (on_db m7)"
  by (auto simp: keeps_plain_def on_regs_def on_pending_def on_asts_def on_accounts_def on_conditional_def
      on_liquidity_def on_db_def split: prod.splits)

lemma keeps_ResolutionExtra [frame]: "keeps_plain (ResolutionExtra_Include P X e h)"
  unfolding ResolutionExtra_Include_def ProceedConditionalPayment_def mark_processed_def accs_GetMap_def on_accs_of_def Let_def
  by (intro frame)

section \<open>The account along a transaction\<close>

text \<open>Everything but the nonce, the unclaimed funds and the key may change.\<close>

definition same_funds :: "PlainAccount \<Rightarrow> PlainAccount \<Rightarrow> bool" where
  "same_funds p q \<longleftrightarrow> pa_Nonce q = pa_Nonce p \<and> pa_Unclaimed q = pa_Unclaimed p"

definition plain_now :: "('p, 'x) DataStorage \<Rightarrow> bytes \<Rightarrow> PlainAccount option" where
  "plain_now s k = (case change_at (ds_PlainAccs s) k of None \<Rightarrow> None | Some c \<Rightarrow> ch_Element c)"

text \<open>Accounts that the map holds as objects stay there; writes through pointers change them.\<close>

definition keeps_held :: "('p, 'x) DataStorage \<Rightarrow> ('p, 'x) DataStorage \<Rightarrow> bool" where
  "keeps_held s t \<longleftrightarrow> cells_wf (ds_PlainAccs s) \<longrightarrow>
     cells_wf (ds_PlainAccs t) \<and> (\<forall>k. plain_now s k \<noteq> None \<longrightarrow> plain_now t k \<noteq> None)"

lemma keeps_held_trans: "keeps_held s t \<Longrightarrow> keeps_held t u \<Longrightarrow> keeps_held s u"
  by (auto simp: keeps_held_def)

lemma keeps_held_same: "ds_PlainAccs t = ds_PlainAccs s \<Longrightarrow> keeps_held s t"
  by (simp add: keeps_held_def plain_now_def)

lemma write_plain_run:
  assumes "write_plain p s = (r, t)"
  shows "r = Inr p \<and> keeps_held s t"
proof -
  let ?h = "ds_PlainAccs s"
  let ?w = "write_change (pa_Key p) (\<lambda>c. case ch_Element c of None \<Rightarrow> c | Some _ \<Rightarrow> c\<lparr>ch_Element := Some p\<rparr>) ?h"
  have t: "r = Inr p" "ds_PlainAccs t = ?w"
    using assms by (auto simp: write_plain_def write_held_def on_plain_def gbind_def)
  have "keeps_held s t"
    unfolding keeps_held_def plain_now_def t(2) by (auto split: option.splits)
  then show ?thesis using t(1) by simp
qed

lemma update_liquidities_frame:
  "update_liquidities X ls p s = (Inr q, t) \<Longrightarrow> keeps_held s t \<and> same_funds p q"
proof (induction ls arbitrary: p s)
  case (Cons l ls)
  obtain st li p1 s1 s2 where 1: "write_plain (p\<lparr>pa_AssetFeeLiquidities := li\<rparr>) s = (Inr p1, s1)"
    "ds_PlainAccs s2 = ds_PlainAccs s1" "update_liquidities X ls p1 s2 = (Inr q, t)"
    using Cons.prems by (auto simp: gbind_Inr_iff split: prod.splits sum.splits dest!: keeps_plainD[OF keeps_parts(6)])
  show ?case
    using write_plain_run[OF 1(1)] Cons.IH[OF 1(3)] keeps_held_trans[OF keeps_held_trans[OF _ keeps_held_same[OF 1(2)]], of s t]
    by (auto simp: same_funds_def)
qed (simp add: same_funds_def keeps_held_same)

lemma UpdateExtra_frame:
  assumes "UpdateExtra_Include X e h p s = (Inr q, t)"
  shows "keeps_held s t \<and> same_funds p q"
proof -
  obtain p1 s1 p2 s2 l where 1: "keeps_held s s1" "same_funds p p1" and 2: "update_liquidities X (xl_Liquidities e) p1 s1 = (Inr p2, s2)"
    and 3: "write_plain (p2\<lparr>pa_AssetFeeLiquidities := l\<rparr>) s2 = (Inr q, t)"
  proof (cases "xl_NewCollector e")
    case False
    then show thesis using assms that[of s p] by (auto simp: UpdateExtra_Include_def gbind_Inr_iff keeps_held_same same_funds_def split: if_splits)
  next
    case True
    then obtain s0 l0 p1 s1 p2 s2 l where "ds_PlainAccs s0 = ds_PlainAccs s" "write_plain (p\<lparr>pa_AssetFeeLiquidities := l0\<rparr>) s0 = (Inr p1, s1)"
      "update_liquidities X (xl_Liquidities e) p1 s1 = (Inr p2, s2)" "write_plain (p2\<lparr>pa_AssetFeeLiquidities := l\<rparr>) s2 = (Inr q, t)"
      using assms by (auto simp: UpdateExtra_Include_def gbind_Inr_iff split: if_splits dest!: keeps_plainD[OF keeps_parts(1)])
    then show thesis
      using that[of s1 p1 p2 s2 l] write_plain_run keeps_held_same keeps_held_trans by (fastforce simp: same_funds_def)
  qed
  show ?thesis
    using 1 update_liquidities_frame[OF 2] write_plain_run[OF 3] keeps_held_trans[OF keeps_held_trans[OF 1(1)], of s2 t]
    by (auto simp: same_funds_def)
qed

lemma SubtractUnclaimed_frame:
  assumes "SubtractUnclaimed X p fee h s = (Inr q, t)"
  shows "keeps_held s t \<and> pa_Nonce q = pa_Nonce p \<and> unat fee \<le> unat (pa_Unclaimed p) \<and>
    pa_Unclaimed q = pa_Unclaimed p - fee"
proof -
  have a: "AddUnclaimed False fee p = (if pa_Unclaimed p < fee then (Inl (Error ''Uint64 would become negative''), p)
      else (Inr (), p\<lparr>pa_Unclaimed := pa_Unclaimed p - fee\<rparr>))"
    by (simp add: AddUnclaimed_def SafeUint64Update_def)
  let ?p = "p\<lparr>pa_Unclaimed := pa_Unclaimed p - fee\<rparr>"
  have le: "unat fee \<le> unat (pa_Unclaimed p)"
    using assms unfolding SubtractUnclaimed_def a by (auto simp: word_less_nat_alt not_less split: if_splits)
  obtain s1 where 1: "write_plain ?p s = (Inr ?p, s1)" "keeps_held s s1"
    using write_plain_run by (metis prod.exhaust)
  have g: "keeps_held s1 u" if "gfor xs (\<lambda>l. on_liquidity (f l)) s1 = (r, u)" for xs f r u
    using that keeps_plainD[OF keeps_gfor[OF keeps_parts(6)]] keeps_held_same by blast
  have "keeps_held s1 t \<and> pa_Nonce q = pa_Nonce p \<and> pa_Unclaimed q = pa_Unclaimed p - fee"
    using assms le unfolding SubtractUnclaimed_def a
    by (auto simp: gbind_Inr[where m = "write_plain ?p", OF 1(1)] gbind_Inr_iff word_less_nat_alt not_less keeps_held_same split: if_splits
        dest!: g write_plain_run intro: keeps_held_trans)
  then show ?thesis using le 1(2) keeps_held_trans by blast
qed


section \<open>The paying account in the changes of its map\<close>

lemma Get_load_map: "Get_load E X k (h, x) = (r, (h', x')) \<Longrightarrow> h' = h"
  by (auto simp: Get_load_def get_hm_def on_tx_def gbind_def split: option.splits prod.splits sum.splits if_splits)

lemma Get_into_changes:
  assumes "Get E X k (h, x) = (Inr r, (h', x'))" "cells_wf h"
  shows "cells_wf h' \<and> \<not> bad_key h k \<and> \<not> bad_key h' k \<and> (\<exists>c. change_at h' k = Some c \<and> ch_Element c = r)"
proof (cases "change_at h k")
  case (Some c)
  then show ?thesis using assms by (auto simp: Get_def get_hm_def gbind_def split: if_splits)
next
  case None
  let ?c = "\<lambda>out. \<lparr>ch_Element = out, ch_Status = St_view, ch_index = 0, ch_indexProcess = False\<rparr>"
  have "\<not> bad_key h k" using assms(1) by (auto simp: Get_def get_hm_def gbind_def split: if_splits)
  moreover have "h' = alloc_change k (?c r) False h"
    using assms(1) None
    by (auto simp: Get_def get_hm_def on_hm_def gbind_Inr_iff split: if_splits option.splits dest!: Get_load_map)
  moreover have "bad_key (alloc_change k (?c r) False h) = bad_key h"
    by (simp add: fun_eq_iff bad_key_def alloc_change_def)
  ultimately show ?thesis using assms(2) by simp
qed

lemma Update_in_changes:
  assumes "Update E X k (Some d) (h, x) = (Inr d', (h', x'))" "cells_wf h" "\<not> el_IsDeletable E (el_SetKey E k d)"
    and "change_at h k = Some c" "ch_Element c \<noteq> None"
  shows "\<not> bad_key h' k \<and> (\<exists>c'. change_at h' k = Some c' \<and> ch_Element c' = Some (el_SetKey E k d))"
proof -
  have p: "key_present X k (h, x) = (Inr True, (h, x))" using assms(4,5) by (simp add: key_present_def get_hm_def)
  have h': "h' = Update_store E k (el_SetKey E k d) False h" and b: "\<not> bad_key h k"
    using assms(1,3) by (auto simp: Update_def get_hm_def on_hm_def Let_def gbind_Inr_iff p split: if_splits)
  have "hm_keyLength (ensure_change k h) = hm_keyLength h" "hm_keyLength (write_change k f g) = hm_keyLength g" for f g
    by (simp_all add: ensure_change_def alloc_change_def write_change_def split: option.split)
  with b have "\<not> bad_key h' k" unfolding h' by (simp add: Update_store_def Let_def bad_key_def)
  then show ?thesis
    using assms(2,4) unfolding h' by (simp add: Update_store_def Let_def)
qed

lemma replace_error_Inr: "replace_error msg m s = (Inr q, t) \<longleftrightarrow> m s = (Inr q, t)"
  by (auto simp: replace_error_def split: prod.splits sum.splits go_error.splits)

lemma pay_from_vin_frame:
  assumes "pay_from_vin X tx h vin s = (Inr q, t)" "cells_wf (ds_PlainAccs s)"
  shows "cells_wf (ds_PlainAccs t) \<and> plain_now t (vin_PublicKey vin) \<noteq> None \<and> (\<exists>p. pa_Nonce p = ts_Nonce tx \<and>
    unat (pa_Nonce q) = unat (ts_Nonce tx) + 1 \<and> unat (ts_Fee tx) \<le> unat (pa_Unclaimed p) \<and> pa_Unclaimed q = pa_Unclaimed p - ts_Fee tx \<and>
    (\<exists>u. on_plain (Get PlainAccount_ops X (vin_PublicKey vin)) s = (Inr (Some p), u)))"
proof -
  let ?k = "vin_PublicKey vin"
  obtain p s1 where 1: "on_plain (Get PlainAccount_ops X ?k) s = (Inr (Some p), s1)" "pa_Nonce p = ts_Nonce tx"
    and 2: "(case IncrementNonce True p of (Inl e, _) \<Rightarrow> glift (Inl e)
       | (Inr _, p) \<Rightarrow> gbind (write_plain p) (\<lambda>p. replace_error ''Not enought Unclaimed funds to substract Tx.Fee''
           (SubtractUnclaimed X p (ts_Fee tx) h))) s1 = (Inr q, t)"
    using assms(1) by (auto simp: pay_from_vin_def gbind_Inr_iff split: option.splits if_splits)
  have g: "cells_wf (ds_PlainAccs s1) \<and> plain_now s1 ?k \<noteq> None"
    using 1(1) Get_into_changes[OF _ assms(2)] by (fastforce simp: on_plain_def plain_now_def split: prod.splits)
  obtain n p1 s2 where n: "SafeUint64Update True 1 (pa_Nonce p) = (Inr (), n)" and
    w: "write_plain (p\<lparr>pa_Nonce := n\<rparr>) s1 = (Inr p1, s2)" and
    3: "SubtractUnclaimed X p1 (ts_Fee tx) h s2 = (Inr q, t)"
    using 2 by (auto simp: IncrementNonce_def replace_error_Inr gbind_Inr_iff split: prod.splits sum.splits)
  have "unat n = unat (pa_Nonce p) + 1" using n by (simp add: SafeUint64Update_ok_iff)
  then show ?thesis
    using SubtractUnclaimed_frame[OF 3] write_plain_run[OF w] g 1 by (auto simp: keeps_held_def)
qed

lemma SimpleExtra_frame:
  assumes "SimpleExtra_Include P X e h (Some p) s = (Inr q, t)"
  shows "keeps_held s t \<and> (\<exists>q'. q = Some q' \<and> same_funds p q')"
  using assms
  by (cases e) (auto simp: deref_def gbind_Inr_iff same_funds_def
      dest!: UpdateExtra_frame[unfolded same_funds_def] keeps_plainD[OF keeps_ResolutionExtra] keeps_held_same)

text \<open>C35: Including a simple transaction with an input succeeds only when the nonce of the transaction is the
  nonce of the paying account and its unclaimed funds cover the fee.  The account then has the next
  nonce and the fee less, and including the same transaction again, at any height, is refused:
  no transaction with an input is included twice.\<close>

theorem simple_tx_once:
  assumes "TransactionSimple_Include P X h tx s = (Inr (), t)" "HasVin tx" "ts_Vin tx = Some vin" "cells_wf (ds_PlainAccs s)"
  shows "\<exists>p q. plain_now t (vin_PublicKey vin) = Some q \<and> pa_Nonce p = ts_Nonce tx \<and> unat (pa_Nonce q) = unat (ts_Nonce tx) + 1 \<and>
    unat (ts_Fee tx) \<le> unat (pa_Unclaimed p) \<and> pa_Unclaimed q = pa_Unclaimed p - ts_Fee tx \<and>
    (\<exists>u v. on_plain (Get PlainAccount_ops X (vin_PublicKey vin)) s = (Inr (Some p), u) \<and>
       TransactionSimple_Include P X h' tx t = (Inl (Error ''Account nonce doesn't match''), v))"
proof -
  let ?k = "vin_PublicKey vin"
  obtain q0 s1 q s2 d where 1: "pay_from_vin X tx h vin s = (Inr q0, s1)"
    and 2: "(case ts_Extra tx of None \<Rightarrow> gret (Some q0) | Some e \<Rightarrow> SimpleExtra_Include P X e h (Some q0)) s1 = (Inr q, s2)"
    and 3: "on_plain (Update PlainAccount_ops X ?k q) s2 = (Inr d, t)"
    using assms(1-3) by (auto simp: TransactionSimple_Include_def deref_def gbind_Inr_iff)
  obtain p u where p: "cells_wf (ds_PlainAccs s1)" "pa_Nonce p = ts_Nonce tx" "unat (pa_Nonce q0) = unat (ts_Nonce tx) + 1"
    "unat (ts_Fee tx) \<le> unat (pa_Unclaimed p)" "pa_Unclaimed q0 = pa_Unclaimed p - ts_Fee tx"
    "plain_now s1 ?k \<noteq> None" "on_plain (Get PlainAccount_ops X ?k) s = (Inr (Some p), u)"
    using pay_from_vin_frame[OF 1 assms(4)] by blast
  obtain q' where q': "keeps_held s1 s2" "q = Some q'" "same_funds q0 q'"
    using 2 SimpleExtra_frame[of P X _ h q0 s1 q s2] by (cases "ts_Extra tx") (auto simp: same_funds_def keeps_held_same)
  obtain c where c: "cells_wf (ds_PlainAccs s2)" "change_at (ds_PlainAccs s2) ?k = Some c" "ch_Element c \<noteq> None"
  proof -
    have "cells_wf (ds_PlainAccs s2)" "plain_now s2 ?k \<noteq> None" using q'(1) p(1,6) by (auto simp: keeps_held_def)
    then show ?thesis using that by (cases "change_at (ds_PlainAccs s2) ?k") (auto simp: plain_now_def)
  qed
  have n: "pa_Nonce q' \<noteq> 0" using p(3) q'(3) by (auto simp: same_funds_def)
  obtain c' where c': "\<not> bad_key (ds_PlainAccs t) ?k" "change_at (ds_PlainAccs t) ?k = Some c'"
    "ch_Element c' = Some (q'\<lparr>pa_Key := ?k\<rparr>)"
    using 3 q'(2) n Update_in_changes[where E = PlainAccount_ops and h = "ds_PlainAccs s2", OF _ c(1) _ c(2,3)]
    by (fastforce simp: on_plain_def PlainAccount_ops_def PlainAccount_IsDeletable_def split: prod.splits)
  have "on_plain (Get PlainAccount_ops X ?k) t = (Inr (Some (q'\<lparr>pa_Key := ?k\<rparr>)), t)"
    using c' by (simp add: on_plain_def Get_def get_hm_def gbind_def)
  then have "TransactionSimple_Include P X h' tx t = (Inl (Error ''Account nonce doesn't match''), t)"
    using assms(2,3) p(3) q'(3)
    by (auto simp: TransactionSimple_Include_def pay_from_vin_def deref_def same_funds_def gbind_def)
  moreover have "plain_now t ?k = Some (q'\<lparr>pa_Key := ?k\<rparr>)" using c' by (simp add: plain_now_def)
  ultimately show ?thesis using p q'(3) by (fastforce simp: same_funds_def)
qed


theorem simple_tx_once_witness:
  "\<exists>s t q v. ts_Nonce \<lparr>ts_Extra = None, ts_TxScript = 0, ts_DataVersion = 0, ts_Data = [], ts_Nonce = 4, ts_Fee = 30,
       ts_Vin = Some \<lparr>vin_PublicKey = replicate 33 7, vin_Signature = []\<rparr>, ts_Bloom = None\<rparr> = 4 \<and>
     TransactionSimple_Include residue_curve mem_ops 9 \<lparr>ts_Extra = None, ts_TxScript = 0, ts_DataVersion = 0, ts_Data = [], ts_Nonce = 4, ts_Fee = 30,
       ts_Vin = Some \<lparr>vin_PublicKey = replicate 33 7, vin_Signature = []\<rparr>, ts_Bloom = None\<rparr> s = (Inr (), t) \<and>
     plain_now t (replicate 33 7) = Some q \<and> unat (pa_Nonce q) = 5 \<and>
     TransactionSimple_Include residue_curve mem_ops 10 \<lparr>ts_Extra = None, ts_TxScript = 0, ts_DataVersion = 0, ts_Data = [], ts_Nonce = 4, ts_Fee = 30,
       ts_Vin = Some \<lparr>vin_PublicKey = replicate 33 7, vin_Signature = []\<rparr>, ts_Bloom = None\<rparr> t =
       (Inl (Error ''Account nonce doesn't match''), v)"
proof -
  let ?k = "replicate 33 (7 :: byte)"
  let ?vin = "\<lparr>vin_PublicKey = ?k, vin_Signature = []\<rparr>"
  let ?tx = "\<lparr>ts_Extra = None, ts_TxScript = 0, ts_DataVersion = 0, ts_Data = [], ts_Nonce = 4, ts_Fee = 30, ts_Vin = Some ?vin, ts_Bloom = None\<rparr>"
  let ?p = "(NewPlainAccount ?k 0)\<lparr>pa_Nonce := 4, pa_Unclaimed := 100\<rparr>"
  let ?h = "\<lparr>hm_name = lit ''plainAccs'', hm_Count = 1, hm_countCommitted = 1, hm_Changes = [(?k, 0)], hm_changed = False,
    hm_changesSize = [], hm_Committed = [], hm_keyLength = PublicKeySize, hm_CreateObject = PlainAccount_create, hm_DeletedEvent = None,
    hm_StoredEvent = None, hm_Indexable = False,
    hm_cells = (\<lambda>_. \<lparr>ch_Element = Some ?p, ch_Status = St_view, ch_index = 0, ch_indexProcess = False\<rparr>), hm_next = 1\<rparr>"
  obtain s0 :: "(residue, StoreDBMemoryTransaction) DataStorage" where True by simp
  let ?s = "s0\<lparr>ds_PlainAccs := ?h\<rparr>"
  have wf: "cells_wf (ds_PlainAccs ?s)" by (simp add: cells_wf_def)
  have run: "\<exists>t. TransactionSimple_Include residue_curve mem_ops 9 ?tx ?s = (Inr (), t)"
    by (simp add: TransactionSimple_Include_def pay_from_vin_def HasVin_def SCRIPT_UPDATE_ASSET_FEE_LIQUIDITY_def deref_def on_plain_def
        Get_def get_hm_def gbind_def bad_key_def PublicKeySize_def change_at_def IncrementNonce_def SafeUint64Update_def MaxUint64_def
        replace_error_def write_plain_def write_held_def write_change_def SubtractUnclaimed_def AddUnclaimed_def HasAssetFeeLiquidities_def NewPlainAccount_def afl_NONE_def afl_SIMPLE_def
        Update_def PlainAccount_ops_def PlainAccount_Validate_def AssetFeeLiquidities_Validate_def PlainAccount_IsDeletable_def
        key_present_def on_hm_def Let_def word_le_nat_alt)
  have hv: "HasVin ?tx" by (simp add: HasVin_def SCRIPT_UPDATE_ASSET_FEE_LIQUIDITY_def)
  obtain t where t: "TransactionSimple_Include residue_curve mem_ops 9 ?tx ?s = (Inr (), t)" using run by blast
  show ?thesis
    using simple_tx_once[of residue_curve mem_ops 9 ?tx ?s t ?vin 10, OF t hv _ wf] t by auto
qed

end
