(* ===== verification/Tx_Registrations.thy ===== *)
theory Tx_Registrations
  imports Tx_Simple
begin

text \<open>
  Registrations carried by a private transaction (\<^verbatim>\<open>transaction_zether_registrations\<close>) and the check of their
  signatures (\<^verbatim>\<open>registrations.go\<close>).  The list has an entry for every member of the ring, nil where
  the member is registered already.
\<close>

section \<open>Indexed loops\<close>

fun gmap :: "('a \<Rightarrow> ('s, 'b) go) \<Rightarrow> 'a list \<Rightarrow> ('s, 'b list) go" where
  "gmap f [] = gret []"
| "gmap f (x # xs) = gbind (f x) (\<lambda>y. gbind (gmap f xs) (\<lambda>ys. gret (y # ys)))"

lemma reads_gmap:
  assumes "\<And>x. x \<in> set xs \<Longrightarrow> reads (f x) (enc x) (g x)"
  shows "reads (gmap f xs) (concat (map enc xs)) (map g xs)"
  using assms
proof (induction xs)
  case (Cons x xs)
  have "reads (gbind (f x) (\<lambda>y. gbind (gmap f xs) (\<lambda>ys. gret (y # ys)))) (enc x @ concat (map enc xs) @ []) (g x # map g xs)"
    using Cons by (intro reads_bind[of "f x" _ "g x"] reads_bind[of "gmap f xs" _ "map g xs"] reads_gret_eq) auto
  then show ?case by simp
qed (simp add: reads_gret)

section \<open>The signature of a registration\<close>

definition VerifyRegistration ::
  "'p G1Ops \<Rightarrow> (bytes \<Rightarrow> bytes) \<Rightarrow> bytes \<Rightarrow> bool \<Rightarrow> bytes \<Rightarrow> bytes \<Rightarrow> bool result" where
  "VerifyRegistration P keccak publicKey staked spendPublicKey registrationSignature =
     VerifySignature P keccak (registration_message staked spendPublicKey) (slice_arg registrationSignature) publicKey"

definition VerifyRegistrationPoint ::
  "'p G1Ops \<Rightarrow> (bytes \<Rightarrow> bytes) \<Rightarrow> 'p \<Rightarrow> bool \<Rightarrow> bytes \<Rightarrow> bytes \<Rightarrow> bool result" where
  "VerifyRegistrationPoint P keccak publicKey staked spendPublicKey registrationSignature =
     VerifySignaturePoint P keccak (registration_message staked spendPublicKey) (slice_arg registrationSignature) publicKey"

section \<open>One registration\<close>

definition NOT_REGISTERED :: byte where "NOT_REGISTERED = 0"
definition REGISTERED_EMPTY_ACCOUNT :: byte where "REGISTERED_EMPTY_ACCOUNT = 1"
definition REGISTERED_ACCOUNT :: byte where "REGISTERED_ACCOUNT = 2"

record TransactionZetherDataRegistration =
  zr_RegistrationType :: byte
  zr_RegistrationStaked :: bool
  zr_RegistrationSpendPublicKey :: bytes
  zr_RegistrationSignature :: bytes

definition DataRegistration_Serialize :: "TransactionZetherDataRegistration \<Rightarrow> BufferWriter \<Rightarrow> BufferWriter" where
  "DataRegistration_Serialize r = ser_seq
     [WriteByte (zr_RegistrationType r),
      when_write (zr_RegistrationType r = NOT_REGISTERED) (ser_seq
        [WriteBool (zr_RegistrationStaked r),
         WriteBool (length (zr_RegistrationSpendPublicKey r) > 0),
         Write (zr_RegistrationSpendPublicKey r),
         Write (zr_RegistrationSignature r)])]"

definition DataRegistration_Deserialize :: "(BufferReader, TransactionZetherDataRegistration) go" where
  "DataRegistration_Deserialize =
     gbind ReadByte (\<lambda>n.
     if n = NOT_REGISTERED then
       gbind ReadBool (\<lambda>staked.
       gbind ReadBool (\<lambda>hasSpendPublicKey.
       gbind (when_read hasSpendPublicKey [] (ReadBytes (int PublicKeySize))) (\<lambda>spend.
       gbind (ReadBytes (int SignatureSize)) (\<lambda>signature.
       gret \<lparr>zr_RegistrationType = n, zr_RegistrationStaked = staked, zr_RegistrationSpendPublicKey = spend,
             zr_RegistrationSignature = signature\<rparr>))))
     else if n = REGISTERED_EMPTY_ACCOUNT \<or> n = REGISTERED_ACCOUNT
       then gerr ''Registered accounts should not be manually specified''
     else gerr ''Invalid RegistrationType'')"

section \<open>The registrations of a payload\<close>

type_synonym DataRegistrations = "TransactionZetherDataRegistration option list"

definition TRANSACTIONS_ZETHER_RING_MAX :: int where "TRANSACTIONS_ZETHER_RING_MAX = 256"

fun validate_registrations ::
  "'p G1Ops \<Rightarrow> (bytes \<Rightarrow> bytes) \<Rightarrow> 'p list \<Rightarrow> nat \<Rightarrow> DataRegistrations \<Rightarrow> unit result" where
  "validate_registrations P keccak publickeylist i [] = Inr ()"
| "validate_registrations P keccak publickeylist i (reg # regs) =
     rbind (case reg of
              None \<Rightarrow> Inr ()
            | Some r \<Rightarrow>
                rbind (rnth publickeylist i) (\<lambda>pk.
                rbind (VerifyRegistrationPoint P keccak pk (zr_RegistrationStaked r) (zr_RegistrationSpendPublicKey r)
                         (zr_RegistrationSignature r)) (\<lambda>ok.
                if \<not> ok then Inl (Error ''Registration is invalid'') else Inr ()))) (\<lambda>_.
     validate_registrations P keccak publickeylist (Suc i) regs)"

definition ValidateRegistrations ::
  "'p G1Ops \<Rightarrow> (bytes \<Rightarrow> bytes) \<Rightarrow> DataRegistrations \<Rightarrow> 'p list \<Rightarrow> unit result" where
  "ValidateRegistrations P keccak regs publickeylist =
     (if length publickeylist = 0 \<or> int (length publickeylist) > TRANSACTIONS_ZETHER_RING_MAX
      then Inl (Error ''Invalid PublicKeys length'')
      else validate_registrations P keccak publickeylist 0 regs)"

definition RegisterNow ::
  "'p G1Ops \<Rightarrow> 'x StoreTx \<Rightarrow> DataRegistrations \<Rightarrow> bytes \<Rightarrow> bytes list \<Rightarrow> ('p, 'x, unit) ds_go" where
  "RegisterNow P X regs asset publicKeyList =
     gbind (gfor (enumerate 0 regs) (\<lambda>(i, reg).
       case reg of
         None \<Rightarrow> gret ()
       | Some r \<Rightarrow>
           gbind (glift (rnth publicKeyList i)) (\<lambda>k.
           gbind (CreateRegistration X k (zr_RegistrationStaked r) (zr_RegistrationSpendPublicKey r)) (\<lambda>_. gret ())))) (\<lambda>_.
     gfor (enumerate 0 regs) (\<lambda>(i, reg).
       gbind (glift (rnth publicKeyList i)) (\<lambda>k.
       gbind (if (case reg of None \<Rightarrow> False | Some r \<Rightarrow> zr_RegistrationType r = NOT_REGISTERED)
              then CreateAccount P X asset k True
              else GetOrCreateAccount P X asset k True) (\<lambda>_. gret ()))))"

definition Registrations_Serialize :: "DataRegistrations \<Rightarrow> BufferWriter \<Rightarrow> BufferWriter" where
  "Registrations_Serialize regs = ser_seq
     [WriteUvarint (of_nat (length (filter (\<lambda>r. r \<noteq> None) regs))),
      fold (\<lambda>(i, reg). case reg of None \<Rightarrow> (\<lambda>w. w)
            | Some r \<Rightarrow> ser_seq [WriteUvarint (of_nat i), DataRegistration_Serialize r]) (enumerate 0 regs)]"

text \<open>The loop runs \<open>count\<close> times unless it fails before.\<close>

fun read_registrations :: "nat \<Rightarrow> nat \<Rightarrow> DataRegistrations \<Rightarrow> (BufferReader, DataRegistrations) go" where
  "read_registrations ringSize 0 regs = gret regs"
| "read_registrations ringSize (Suc n) regs =
     gbind ReadUvarint (\<lambda>index.
     gbind (gcheck (unat index \<ge> ringSize) ''Registration Index is invalid'') (\<lambda>_.
     gbind (glift (rnth regs (unat index))) (\<lambda>old.
     gbind (gcheck (old \<noteq> None) ''Registration already exists'') (\<lambda>_.
     gbind DataRegistration_Deserialize (\<lambda>r.
     read_registrations ringSize n (regs[unat index := Some r]))))))"

definition Registrations_Deserialize :: "nat \<Rightarrow> (BufferReader, DataRegistrations) go" where
  "Registrations_Deserialize ringSize =
     gbind ReadUvarint (\<lambda>count. read_registrations ringSize (unat count) (replicate ringSize None))"

section \<open>The wire format is read back\<close>

definition DataRegistration_wire :: "TransactionZetherDataRegistration \<Rightarrow> bool" where
  "DataRegistration_wire r \<longleftrightarrow> zr_RegistrationType r = NOT_REGISTERED \<and>
     length (zr_RegistrationSpendPublicKey r) \<in> {0, PublicKeySize} \<and> length (zr_RegistrationSignature r) = SignatureSize"

definition DataRegistration_enc :: "TransactionZetherDataRegistration \<Rightarrow> bytes" where
  "DataRegistration_enc r = [NOT_REGISTERED] @ [if zr_RegistrationStaked r then 1 else 0] @
     [if length (zr_RegistrationSpendPublicKey r) > 0 then 1 else 0] @ zr_RegistrationSpendPublicKey r @
     zr_RegistrationSignature r @ []"

lemma writes_DataRegistration:
  assumes "DataRegistration_wire r"
  shows "writes (DataRegistration_Serialize r) (DataRegistration_enc r)"
proof -
  have "writes (DataRegistration_Serialize r) ([NOT_REGISTERED] @ ([if zr_RegistrationStaked r then 1 else 0] @
     [if length (zr_RegistrationSpendPublicKey r) > 0 then 1 else 0] @ zr_RegistrationSpendPublicKey r @
     zr_RegistrationSignature r @ []) @ [])"
    using assms unfolding DataRegistration_Serialize_def DataRegistration_wire_def when_write_def
    by (simp only: simp_thms if_True) (intro codec)
  then show ?thesis by (simp add: DataRegistration_enc_def)
qed

lemma reads_DataRegistration:
  assumes "DataRegistration_wire r"
  shows "reads DataRegistration_Deserialize (DataRegistration_enc r) r"
proof -
  have c: "reads (when_read (length (zr_RegistrationSpendPublicKey r) > 0) [] (ReadBytes (int PublicKeySize)))
      (zr_RegistrationSpendPublicKey r) (zr_RegistrationSpendPublicKey r)"
    using assms by (intro reads_when_read reads_ReadBytes) (auto simp: DataRegistration_wire_def)
  have g: "reads (ReadBytes (int SignatureSize)) (zr_RegistrationSignature r) (zr_RegistrationSignature r)"
    using assms by (intro reads_ReadBytes) (simp add: DataRegistration_wire_def)
  have "reads (gbind ReadBool (\<lambda>staked. gbind ReadBool (\<lambda>hasSpendPublicKey.
       gbind (when_read hasSpendPublicKey [] (ReadBytes (int PublicKeySize))) (\<lambda>spend.
       gbind (ReadBytes (int SignatureSize)) (\<lambda>signature.
       gret \<lparr>zr_RegistrationType = NOT_REGISTERED, zr_RegistrationStaked = staked, zr_RegistrationSpendPublicKey = spend,
             zr_RegistrationSignature = signature\<rparr>)))))
     ([if zr_RegistrationStaked r then 1 else 0] @ [if length (zr_RegistrationSpendPublicKey r) > 0 then 1 else 0] @
      zr_RegistrationSpendPublicKey r @ zr_RegistrationSignature r @ []) r"
    using assms by (intro reads_bind[OF reads_ReadBool] reads_bind[OF c] reads_bind[OF g] reads_gret_eq)
      (simp add: DataRegistration_wire_def)
  then show ?thesis
    unfolding DataRegistration_Deserialize_def DataRegistration_enc_def
    by (intro reads_bind[OF reads_ReadByte]) simp
qed

definition Registrations_wire :: "nat \<Rightarrow> DataRegistrations \<Rightarrow> bool" where
  "Registrations_wire ringSize regs \<longleftrightarrow> length regs = ringSize \<and> ringSize \<le> 256 \<and>
     (\<forall>r. Some r \<in> set regs \<longrightarrow> DataRegistration_wire r)"

fun slot_enc :: "nat \<times> TransactionZetherDataRegistration option \<Rightarrow> bytes" where
  "slot_enc (i, None) = []"
| "slot_enc (i, Some r) = PutUvarint (of_nat i) @ DataRegistration_enc r @ []"

definition Registrations_enc :: "DataRegistrations \<Rightarrow> bytes" where
  "Registrations_enc regs = PutUvarint (of_nat (length (filter (\<lambda>r. r \<noteq> None) regs))) @
     concat (map slot_enc (enumerate 0 regs)) @ []"

lemma writes_Registrations:
  assumes "Registrations_wire n regs"
  shows "writes (Registrations_Serialize regs) (Registrations_enc regs)"
proof -
  have slot: "writes ((\<lambda>(i, reg). case reg of None \<Rightarrow> (\<lambda>w. w)
      | Some r \<Rightarrow> ser_seq [WriteUvarint (of_nat i), DataRegistration_Serialize r]) x) (slot_enc x)"
    if x: "x \<in> set (enumerate 0 regs)" for x
  proof (cases "snd x")
    case None
    then show ?thesis by (cases x) (simp add: writes_id)
  next
    case (Some r)
    obtain i where xi: "x = (i, Some r)" using Some by (cases x) simp
    then have w: "DataRegistration_wire r"
      using x assms by (auto simp: Registrations_wire_def in_set_enumerate_eq) (metis nth_mem)
    show ?thesis unfolding xi by (simp only: prod.case option.case slot_enc.simps) (intro codec writes_DataRegistration[OF w])
  qed
  show ?thesis
    unfolding Registrations_Serialize_def Registrations_enc_def by (intro codec writes_fold slot)
qed

lemma reads_read_registrations:
  assumes "length pre + length suf = n" "n \<le> 256" "\<And>r. Some r \<in> set suf \<Longrightarrow> DataRegistration_wire r"
  shows "reads (read_registrations n (length (filter (\<lambda>r. r \<noteq> None) suf)) (pre @ replicate (length suf) None))
    (concat (map slot_enc (enumerate (length pre) suf))) (pre @ suf)"
  using assms
proof (induction suf arbitrary: pre)
  case (Cons reg suf)
  have IH: "reads (read_registrations n (length (filter (\<lambda>r. r \<noteq> None) suf)) ((pre @ [reg]) @ replicate (length suf) None))
      (concat (map slot_enc (enumerate (Suc (length pre)) suf))) ((pre @ [reg]) @ suf)"
    using Cons.IH[of "pre @ [reg]"] Cons.prems by simp
  show ?case
  proof (cases reg)
    case None
    then show ?thesis using IH by simp
  next
    case (Some r)
    have u: "unat (of_nat (length pre) :: uint64) = length pre" "length pre < n"
      using Cons.prems(1,2) by (simp_all add: unat_of_nat take_bit_nat_eq_self)
    have "reads (read_registrations n (Suc (length (filter (\<lambda>r. r \<noteq> None) suf))) (pre @ None # replicate (length suf) None))
        (PutUvarint (of_nat (length pre)) @ DataRegistration_enc r @ concat (map slot_enc (enumerate (Suc (length pre)) suf))) (pre @ reg # suf)"
      unfolding read_registrations.simps
      by (intro reads_bind[OF reads_ReadUvarint] reads_gcheck reads_bind_nil[of _ None] reads_bind[OF reads_DataRegistration])
        (use u IH Some Cons.prems in \<open>simp_all add: rnth_def nth_append reads_def list_update_append\<close>)
    then show ?thesis using Some by simp
  qed
qed (simp add: reads_gret)

lemma reads_Registrations:
  assumes "Registrations_wire n regs"
  shows "reads (Registrations_Deserialize n) (Registrations_enc regs) regs"
proof -
  have "length (filter (\<lambda>r. r \<noteq> None) regs) \<le> 256"
    using assms length_filter_le[of "\<lambda>r. r \<noteq> None" regs] by (simp add: Registrations_wire_def)
  then have u: "unat (of_nat (length (filter (\<lambda>r. r \<noteq> None) regs)) :: uint64) = length (filter (\<lambda>r. r \<noteq> None) regs)"
    by (simp add: unat_of_nat take_bit_nat_eq_self)
  have "reads (read_registrations n (length (filter (\<lambda>r. r \<noteq> None) regs)) (replicate n None))
      (concat (map slot_enc (enumerate 0 regs)) @ []) regs"
    using reads_read_registrations[of "[]" regs n] assms by (simp add: Registrations_wire_def)
  then show ?thesis
    unfolding Registrations_Deserialize_def Registrations_enc_def by (intro reads_bind[OF reads_ReadUvarint]) (simp only: u)
qed

end
