(* ===== verification/Proofs.thy ===== *)
theory Proofs
  imports Tx_Registrations Inner_Product Polynomials
begin

text \<open>
  The statement of a private transfer (\<^verbatim>\<open>proofs.go\<close>) and the ring proof as data (\<^verbatim>\<open>proof_generate.go\<close>): their wire
  formats, the nonce and the parity of a proof.
\<close>

section \<open>The scripts of a payload\<close>

definition SCRIPT_TRANSFER :: uint64 where "SCRIPT_TRANSFER = 0"
definition SCRIPT_STAKING :: uint64 where "SCRIPT_STAKING = 1"
definition SCRIPT_STAKING_REWARD :: uint64 where "SCRIPT_STAKING_REWARD = 2"
definition SCRIPT_SPEND :: uint64 where "SCRIPT_SPEND = 3"
definition SCRIPT_ASSET_CREATE :: uint64 where "SCRIPT_ASSET_CREATE = 4"
definition SCRIPT_ASSET_SUPPLY_INCREASE :: uint64 where "SCRIPT_ASSET_SUPPLY_INCREASE = 5"
definition SCRIPT_PLAIN_ACCOUNT_FUND :: uint64 where "SCRIPT_PLAIN_ACCOUNT_FUND = 6"
definition SCRIPT_CONDITIONAL_PAYMENT :: uint64 where "SCRIPT_CONDITIONAL_PAYMENT = 7"

lemmas script_defs = SCRIPT_TRANSFER_def SCRIPT_STAKING_def SCRIPT_STAKING_REWARD_def SCRIPT_SPEND_def SCRIPT_ASSET_CREATE_def
  SCRIPT_ASSET_SUPPLY_INCREASE_def SCRIPT_PLAIN_ACCOUNT_FUND_def SCRIPT_CONDITIONAL_PAYMENT_def

section \<open>The statement\<close>

record 'p Statement =
  st_RingSize :: int
  st_CLn :: "'p list"
  st_CRn :: "'p list"
  st_Publickeylist :: "'p list"
  st_C :: "'p list"
  st_D :: 'p
  st_Fee :: uint64

definition Statement_SerializeRingSize :: "'p Statement \<Rightarrow> (BufferWriter \<Rightarrow> BufferWriter) result" where
  "Statement_SerializeRingSize s =
     (case GetPowerof2 (Suc (length (st_C s))) (int (length (st_C s))) of
        Inl (Error m) \<Rightarrow> Inl (Panic m)
      | Inl f \<Rightarrow> Inl f
      | Inr pow \<Rightarrow> Inr (WriteByte (word_of_int pow)))"

text \<open>Whether the balance of a member is on the wire: a sender with an account, except in a reward.\<close>

definition balance_on_wire :: "DataRegistrations \<Rightarrow> bool \<Rightarrow> uint64 \<Rightarrow> nat \<Rightarrow> bool result" where
  "balance_on_wire regs parity payloadScript i =
     rbind (rnth regs i) (\<lambda>reg. Inr (reg = None \<and> even i = parity \<and> payloadScript \<noteq> SCRIPT_STAKING_REWARD))"

definition Statement_member ::
  "'p G1Ops \<Rightarrow> 'p Statement \<Rightarrow> DataRegistrations \<Rightarrow> bool \<Rightarrow> uint64 \<Rightarrow> nat \<Rightarrow> (BufferWriter \<Rightarrow> BufferWriter) result" where
  "Statement_member P s regs parity payloadScript i =
     rbind (rnth (st_Publickeylist s) i) (\<lambda>pk.
     rbind (rnth (st_C s) i) (\<lambda>c.
     rbind (balance_on_wire regs parity payloadScript i) (\<lambda>b.
     if b then
       rbind (rnth (st_CLn s) i) (\<lambda>cl.
       rbind (rnth (st_CRn s) i) (\<lambda>cr.
       Inr (ser_seq [Write (g1_EncodeCompressed P pk), Write (g1_EncodeCompressed P c),
         Write (g1_EncodeCompressed P cl), Write (g1_EncodeCompressed P cr)])))
     else Inr (ser_seq [Write (g1_EncodeCompressed P pk), Write (g1_EncodeCompressed P c)]))))"

definition Statement_Serialize ::
  "'p G1Ops \<Rightarrow> 'p Statement \<Rightarrow> DataRegistrations \<Rightarrow> bool \<Rightarrow> uint64 \<Rightarrow> (BufferWriter \<Rightarrow> BufferWriter) result" where
  "Statement_Serialize P s regs parity payloadScript =
     rbind (rmap (Statement_member P s regs parity payloadScript) [0..<length (st_C s)]) (\<lambda>members.
     Inr (ser_seq
       [WriteUvarint (st_Fee s),
        Write (g1_EncodeCompressed P (st_D s)),
        ser_seq members]))"

text \<open>A failed read of the byte is reported as a ring of size zero and no error.\<close>

definition Statement_DeserializeRingSize :: "(BufferReader, byte \<times> int) go" where
  "Statement_DeserializeRingSize = (\<lambda>r.
     case ReadByte r of
       (Inl (Error _), r') \<Rightarrow> (Inr (0, 0), r')
     | (Inl f, r') \<Rightarrow> (Inl f, r')
     | (Inr len, r') \<Rightarrow>
         if len > 8 \<or> len < 1 then (Inl (Error ''Invalid Ring Length Power''), r')
         else (Inr (len, 2 ^ unat len), r'))"

text \<open>One turn of the loop: the key, the commitment and the two halves of the balance.  A balance that is not on
  the wire is that of a new account, \<^verbatim>\<open>ConstructElGamal(publicKey, ElGamal_BASE_G)\<close>, plus the change.\<close>

definition read_member ::
  "'p G1Ops \<Rightarrow> DataRegistrations \<Rightarrow> bool \<Rightarrow> uint64 \<Rightarrow> 'p \<Rightarrow> nat \<Rightarrow> (BufferReader, 'p \<times> 'p \<times> 'p \<times> 'p) go" where
  "read_member P regs parity payloadScript d i =
     gbind (ReadBN256G1 P) (\<lambda>pk.
     gbind (ReadBN256G1 P) (\<lambda>c.
     gbind (glift (balance_on_wire regs parity payloadScript i)) (\<lambda>b.
     if b then
       gbind (ReadBN256G1 P) (\<lambda>cl.
       gbind (ReadBN256G1 P) (\<lambda>cr.
       gret (pk, c, cl, cr)))
     else gret (pk, c, g1_Add P pk c, g1_Add P (g1_G P) d))))"

definition Statement_Deserialize ::
  "'p G1Ops \<Rightarrow> int \<Rightarrow> DataRegistrations \<Rightarrow> bool \<Rightarrow> uint64 \<Rightarrow> (BufferReader, 'p Statement) go" where
  "Statement_Deserialize P ringSize regs parity payloadScript =
     gbind ReadUvarint (\<lambda>fee.
     gbind (ReadBN256G1 P) (\<lambda>d.
     gbind (gmap (read_member P regs parity payloadScript d) [0..<nat ringSize]) (\<lambda>ms.
     gret \<lparr>st_RingSize = ringSize, st_CLn = map (\<lambda>(pk, c, cl, cr). cl) ms, st_CRn = map (\<lambda>(pk, c, cl, cr). cr) ms,
           st_Publickeylist = map (\<lambda>(pk, c, cl, cr). pk) ms, st_C = map (\<lambda>(pk, c, cl, cr). c) ms,
           st_D = d, st_Fee = fee\<rparr>)))"

section \<open>The proof\<close>

record 'p Proof =
  pf_BA :: 'p
  pf_BS :: 'p
  pf_A :: 'p
  pf_B :: 'p
  pf_CLnG :: "'p list"
  pf_CRnG :: "'p list"
  pf_C_0G :: "'p list"
  pf_DG :: "'p list"
  pf_y_0G :: "'p list"
  pf_gG :: "'p list"
  pf_C_XG :: "'p list"
  pf_y_XG :: "'p list"
  pf_u :: 'p
  pf_f :: FieldVector
  pf_z_A :: int
  pf_T_1 :: 'p
  pf_T_2 :: 'p
  pf_that :: int
  pf_mu :: int
  pf_c :: int
  pf_s_sk :: int
  pf_s_r :: int
  pf_s_b :: int
  pf_s_tau :: int
  pf_ip :: "'p InnerProduct"

definition Proof_Nonce :: "'p G1Ops \<Rightarrow> (bytes \<Rightarrow> bytes) \<Rightarrow> 'p Proof \<Rightarrow> bytes" where
  "Proof_Nonce P sha3 p = sha3 (g1_EncodeCompressed P (pf_u p))"

definition Proof_Parity :: "'p Proof \<Rightarrow> bool result" where
  "Proof_Parity p = rbind (rnth (pf_f p) 0) (\<lambda>e. Inr (e = 0))"

text \<open>The eight points of a round, indexed by the loop over \<^verbatim>\<open>CLnG\<close>.\<close>

definition proof_row :: "'p Proof \<Rightarrow> nat \<Rightarrow> 'p list result" where
  "proof_row p i = rmap (\<lambda>l. rnth l i)
     [pf_CLnG p, pf_CRnG p, pf_C_0G p, pf_DG p, pf_y_0G p, pf_gG p, pf_C_XG p, pf_y_XG p]"

definition Proof_Serialize :: "'p G1Ops \<Rightarrow> 'p Proof \<Rightarrow> (BufferWriter \<Rightarrow> BufferWriter) result" where
  "Proof_Serialize P p =
     rbind (rmap (proof_row p) [0..<length (pf_CLnG p)]) (\<lambda>rows.
     rbind (InnerProduct_Serialize P (pf_ip p)) (\<lambda>ip.
     Inr (ser_seq
       [Write (g1_EncodeCompressed P (pf_BA p)),
        Write (g1_EncodeCompressed P (pf_BS p)),
        Write (g1_EncodeCompressed P (pf_A p)),
        Write (g1_EncodeCompressed P (pf_B p)),
        fold (\<lambda>q. Write (g1_EncodeCompressed P q)) (concat rows),
        Write (g1_EncodeCompressed P (pf_u p)),
        fold (\<lambda>e. Write (ConvertBigIntToByte e)) (pf_f p),
        Write (ConvertBigIntToByte (pf_z_A p)),
        Write (g1_EncodeCompressed P (pf_T_1 p)),
        Write (g1_EncodeCompressed P (pf_T_2 p)),
        Write (ConvertBigIntToByte (pf_that p)),
        Write (ConvertBigIntToByte (pf_mu p)),
        Write (ConvertBigIntToByte (pf_c p)),
        Write (ConvertBigIntToByte (pf_s_sk p)),
        Write (ConvertBigIntToByte (pf_s_r p)),
        Write (ConvertBigIntToByte (pf_s_b p)),
        Write (ConvertBigIntToByte (pf_s_tau p)),
        ip])))"

definition Proof_Deserialize :: "'p G1Ops \<Rightarrow> nat \<Rightarrow> (BufferReader, 'p Proof) go" where
  "Proof_Deserialize P ringPower =
     gbind (ReadBN256G1 P) (\<lambda>ba. gbind (ReadBN256G1 P) (\<lambda>bs. gbind (ReadBN256G1 P) (\<lambda>a. gbind (ReadBN256G1 P) (\<lambda>b.
     gbind (grepeat ringPower (grepeat 8 (ReadBN256G1 P))) (\<lambda>rows.
     gbind (ReadBN256G1 P) (\<lambda>u.
     gbind (grepeat (ringPower * 2) ReadBigInt) (\<lambda>f.
     gbind ReadBigInt (\<lambda>z_A.
     gbind (ReadBN256G1 P) (\<lambda>t_1. gbind (ReadBN256G1 P) (\<lambda>t_2.
     gbind ReadBigInt (\<lambda>that. gbind ReadBigInt (\<lambda>mu. gbind ReadBigInt (\<lambda>c. gbind ReadBigInt (\<lambda>s_sk.
     gbind ReadBigInt (\<lambda>s_r. gbind ReadBigInt (\<lambda>s_b. gbind ReadBigInt (\<lambda>s_tau.
     gbind (InnerProduct_Deserialize P) (\<lambda>ip.
     gret \<lparr>pf_BA = ba, pf_BS = bs, pf_A = a, pf_B = b,
           pf_CLnG = map (\<lambda>r. r ! 0) rows, pf_CRnG = map (\<lambda>r. r ! 1) rows, pf_C_0G = map (\<lambda>r. r ! 2) rows,
           pf_DG = map (\<lambda>r. r ! 3) rows, pf_y_0G = map (\<lambda>r. r ! 4) rows, pf_gG = map (\<lambda>r. r ! 5) rows,
           pf_C_XG = map (\<lambda>r. r ! 6) rows, pf_y_XG = map (\<lambda>r. r ! 7) rows,
           pf_u = u, pf_f = f, pf_z_A = z_A, pf_T_1 = t_1, pf_T_2 = t_2, pf_that = that, pf_mu = mu, pf_c = c,
           pf_s_sk = s_sk, pf_s_r = s_r, pf_s_b = s_b, pf_s_tau = s_tau, pf_ip = ip\<rparr>))))))))))))))))))"

definition Proof_Size :: "'p Proof \<Rightarrow> nat" where
  "Proof_Size p =
     4 * POINT_SIZE + (length (pf_CLnG p) + length (pf_CRnG p) + length (pf_C_0G p) + length (pf_DG p) + length (pf_y_0G p) +
       length (pf_gG p) + length (pf_C_XG p) + length (pf_y_XG p)) * POINT_SIZE +
     POINT_SIZE + length (pf_f p) * FIELDELEMENT_SIZE + FIELDELEMENT_SIZE + 2 * POINT_SIZE + 7 * FIELDELEMENT_SIZE +
     InnerProduct_Size (pf_ip p)"

definition hashmash1 :: "'p G1Ops \<Rightarrow> (bytes \<Rightarrow> bytes) \<Rightarrow> 'p Proof \<Rightarrow> int \<Rightarrow> int" where
  "hashmash1 P keccak p v = reducedhash keccak (ConvertBigIntToByte v @
     concat (map (\<lambda>l. concat (map (g1_Marshal P) l))
       [pf_CLnG p, pf_CRnG p, pf_C_0G p, pf_DG p, pf_y_0G p, pf_gG p, pf_C_XG p, pf_y_XG p]))"

section \<open>The wire formats are read back\<close>

definition member_ok :: "'p G1Ops \<Rightarrow> 'p Statement \<Rightarrow> DataRegistrations \<Rightarrow> bool \<Rightarrow> uint64 \<Rightarrow> nat \<Rightarrow> bool" where
  "member_ok P s regs parity script i \<longleftrightarrow>
     regs ! i = None \<and> even i = parity \<and> script \<noteq> SCRIPT_STAKING_REWARD \<or>
     st_CLn s ! i = g1_Add P (st_Publickeylist s ! i) (st_C s ! i) \<and> st_CRn s ! i = g1_Add P (g1_G P) (st_D s)"

text \<open>No point on the wire is the identity: the reader refuses it.\<close>

definition member_points :: "'p G1Ops \<Rightarrow> 'p Statement \<Rightarrow> DataRegistrations \<Rightarrow> bool \<Rightarrow> uint64 \<Rightarrow> nat \<Rightarrow> bool" where
  "member_points P s regs parity script i \<longleftrightarrow> st_Publickeylist s ! i \<noteq> g1_zero P \<and> st_C s ! i \<noteq> g1_zero P \<and>
     (regs ! i = None \<and> even i = parity \<and> script \<noteq> SCRIPT_STAKING_REWARD \<longrightarrow>
        st_CLn s ! i \<noteq> g1_zero P \<and> st_CRn s ! i \<noteq> g1_zero P)"

text \<open>The statements that are on the wire in full: a ring of two to 256 members whose omitted balances are those
  the reader computes.\<close>

definition Statement_wire :: "'p G1Ops \<Rightarrow> 'p Statement \<Rightarrow> DataRegistrations \<Rightarrow> bool \<Rightarrow> uint64 \<Rightarrow> nat \<Rightarrow> bool" where
  "Statement_wire P s regs parity script pow \<longleftrightarrow> 1 \<le> pow \<and> pow \<le> 8 \<and> st_RingSize s = 2 ^ pow \<and>
     length (st_C s) = 2 ^ pow \<and> length (st_Publickeylist s) = 2 ^ pow \<and> length (st_CLn s) = 2 ^ pow \<and>
     length (st_CRn s) = 2 ^ pow \<and> length regs = 2 ^ pow \<and> (\<forall>i < 2 ^ pow. member_ok P s regs parity script i) \<and>
     st_D s \<noteq> g1_zero P \<and> (\<forall>i < 2 ^ pow. member_points P s regs parity script i)"

definition member_enc :: "'p G1Ops \<Rightarrow> 'p Statement \<Rightarrow> DataRegistrations \<Rightarrow> bool \<Rightarrow> uint64 \<Rightarrow> nat \<Rightarrow> bytes" where
  "member_enc P s regs parity script i =
     g1_EncodeCompressed P (st_Publickeylist s ! i) @ g1_EncodeCompressed P (st_C s ! i) @
     (if regs ! i = None \<and> even i = parity \<and> script \<noteq> SCRIPT_STAKING_REWARD
      then g1_EncodeCompressed P (st_CLn s ! i) @ g1_EncodeCompressed P (st_CRn s ! i) @ [] else [])"

definition Statement_enc :: "'p G1Ops \<Rightarrow> 'p Statement \<Rightarrow> DataRegistrations \<Rightarrow> bool \<Rightarrow> uint64 \<Rightarrow> bytes" where
  "Statement_enc P s regs parity script = PutUvarint (st_Fee s) @ g1_EncodeCompressed P (st_D s) @
     concat (map (member_enc P s regs parity script) [0..<length (st_C s)]) @ []"

lemma writes_ser_seq_map:
  "(\<And>x. x \<in> set xs \<Longrightarrow> writes (f x) (enc x)) \<Longrightarrow> writes (ser_seq (map f xs)) (concat (map enc xs))"
proof (induction xs)
  case (Cons x xs)
  have "writes (ser_seq (f x # map f xs)) (enc x @ concat (map enc xs))" using Cons by (intro writes_seq_Cons) simp_all
  then show ?case by simp
qed (simp add: writes_seq_Nil)

lemma Statement_Serialize_wire:
  assumes w: "Statement_wire P s regs parity script pow"
  shows "\<exists>ser. Statement_Serialize P s regs parity script = Inr ser \<and> writes ser (Statement_enc P s regs parity script)"
proof -
  let ?b = "\<lambda>i. regs ! i = None \<and> even i = parity \<and> script \<noteq> SCRIPT_STAKING_REWARD"
  let ?m = "\<lambda>i. if ?b i then ser_seq [Write (g1_EncodeCompressed P (st_Publickeylist s ! i)), Write (g1_EncodeCompressed P (st_C s ! i)),
         Write (g1_EncodeCompressed P (st_CLn s ! i)), Write (g1_EncodeCompressed P (st_CRn s ! i))]
     else ser_seq [Write (g1_EncodeCompressed P (st_Publickeylist s ! i)), Write (g1_EncodeCompressed P (st_C s ! i))]"
  have m: "Statement_member P s regs parity script i = Inr (?m i)" if "i < length (st_C s)" for i
    using that w by (simp add: Statement_member_def balance_on_wire_def rnth_def Statement_wire_def)
  have "writes (?m i) (member_enc P s regs parity script i)" for i
    unfolding member_enc_def by (cases "?b i"; simp only: simp_thms if_True if_False) (intro codec)+
  then have "writes (ser_seq (map ?m [0..<length (st_C s)])) (concat (map (member_enc P s regs parity script) [0..<length (st_C s)]))"
    by (intro writes_ser_seq_map)
  then have "writes (ser_seq [WriteUvarint (st_Fee s), Write (g1_EncodeCompressed P (st_D s)), ser_seq (map ?m [0..<length (st_C s)])])
      (Statement_enc P s regs parity script)"
    unfolding Statement_enc_def by (intro codec)
  moreover have "rmap (Statement_member P s regs parity script) [0..<length (st_C s)] = Inr (map ?m [0..<length (st_C s)])"
    by (intro rmap_all_Inr m) simp
  ultimately show ?thesis by (simp add: Statement_Serialize_def)
qed

lemma reads_member:
  assumes K: "g1_codec P" and w: "Statement_wire P s regs parity script pow" and i: "i < 2 ^ pow"
  shows "reads (read_member P regs parity script (st_D s) i) (member_enc P s regs parity script i)
    (st_Publickeylist s ! i, st_C s ! i, st_CLn s ! i, st_CRn s ! i)"
proof -
  let ?b = "regs ! i = None \<and> even i = parity \<and> script \<noteq> SCRIPT_STAKING_REWARD"
  have b: "reads (glift (balance_on_wire regs parity script i)) [] ?b"
    using w i by (simp add: balance_on_wire_def rnth_def Statement_wire_def reads_def)
  have ok: "member_ok P s regs parity script i" and pts: "member_points P s regs parity script i"
    using w i by (simp_all add: Statement_wire_def)
  have pk: "st_Publickeylist s ! i \<noteq> g1_zero P" "st_C s ! i \<noteq> g1_zero P" using pts by (simp_all add: member_points_def)
  show ?thesis
  proof (cases ?b)
    case True
    have cl: "st_CLn s ! i \<noteq> g1_zero P" "st_CRn s ! i \<noteq> g1_zero P" using pts True by (simp_all add: member_points_def)
    have "reads (gbind (ReadBN256G1 P) (\<lambda>cl. gbind (ReadBN256G1 P) (\<lambda>cr. gret (st_Publickeylist s ! i, st_C s ! i, cl, cr))))
        (g1_EncodeCompressed P (st_CLn s ! i) @ g1_EncodeCompressed P (st_CRn s ! i) @ [])
        (st_Publickeylist s ! i, st_C s ! i, st_CLn s ! i, st_CRn s ! i)"
      by (intro reads_bind[OF reads_ReadBN256G1[OF K cl(1)]] reads_bind[OF reads_ReadBN256G1[OF K cl(2)]] reads_gret)
    then show ?thesis
      unfolding read_member_def member_enc_def
      by (intro reads_bind[OF reads_ReadBN256G1[OF K pk(1)]] reads_bind[OF reads_ReadBN256G1[OF K pk(2)]] reads_bind_nil[OF b]) (simp only: True simp_thms if_True)
  next
    case False
    then show ?thesis
      unfolding read_member_def member_enc_def
      by (intro reads_bind[OF reads_ReadBN256G1[OF K pk(1)]] reads_bind[OF reads_ReadBN256G1[OF K pk(2)]] reads_bind_nil[OF b])
        (use False ok in \<open>simp only: simp_thms if_False; simp add: member_ok_def reads_gret_eq\<close>)
  qed
qed

lemma reads_Statement:
  assumes K: "g1_codec P" and w: "Statement_wire P s regs parity script pow"
  shows "reads (Statement_Deserialize P (2 ^ pow) regs parity script) (Statement_enc P s regs parity script) s"
proof -
  let ?m = "\<lambda>i. (st_Publickeylist s ! i, st_C s ! i, st_CLn s ! i, st_CRn s ! i)"
  have n: "nat (2 ^ pow :: int) = length (st_C s)" using w by (simp add: Statement_wire_def nat_power_eq)
  have m: "reads (gmap (read_member P regs parity script (st_D s)) [0..<length (st_C s)])
      (concat (map (member_enc P s regs parity script) [0..<length (st_C s)])) (map ?m [0..<length (st_C s)])"
    using w by (intro reads_gmap reads_member[OF K w]) (simp add: Statement_wire_def)
  have d: "st_D s \<noteq> g1_zero P" using w by (simp add: Statement_wire_def)
  have l: "map ((!) xs) [0..<length (st_C s)] = xs" if "length xs = length (st_C s)" for xs :: "'a list"
    using that by (metis map_nth)
  show ?thesis
    unfolding Statement_Deserialize_def Statement_enc_def n
    by (intro reads_bind[OF reads_ReadUvarint] reads_bind[OF reads_ReadBN256G1[OF K d]] reads_bind[OF m] reads_gret_eq)
      (use w l in \<open>simp add: Statement_wire_def comp_def\<close>)
qed


section \<open>The proof is read back\<close>

definition scalar :: "int \<Rightarrow> bool" where
  "scalar n \<longleftrightarrow> n mod Order = n"

lemma reads_scalar: "scalar n \<Longrightarrow> reads ReadBigInt (ConvertBigIntToByte n) n"
  using reads_ReadBigInt[of n] by (simp add: scalar_def)

definition proof_rows :: "'p Proof \<Rightarrow> 'p list list" where
  "proof_rows p = map (\<lambda>i. map (\<lambda>l. l ! i)
     [pf_CLnG p, pf_CRnG p, pf_C_0G p, pf_DG p, pf_y_0G p, pf_gG p, pf_C_XG p, pf_y_XG p]) [0..<length (pf_CLnG p)]"

definition InnerProduct_wire :: "'p G1Ops \<Rightarrow> 'p InnerProduct \<Rightarrow> bool" where
  "InnerProduct_wire P ip \<longleftrightarrow> length (ip_ls ip) = 7 \<and> length (ip_rs ip) = 7 \<and> scalar (ip_a ip) \<and> scalar (ip_b ip) \<and>
     (\<forall>g \<in> set (ip_ls ip) \<union> set (ip_rs ip). g \<noteq> g1_zero P)"

definition Proof_wire :: "'p G1Ops \<Rightarrow> 'p Proof \<Rightarrow> nat \<Rightarrow> bool" where
  "Proof_wire P p pow \<longleftrightarrow>
     (\<forall>l \<in> {pf_CLnG p, pf_CRnG p, pf_C_0G p, pf_DG p, pf_y_0G p, pf_gG p, pf_C_XG p, pf_y_XG p}. length l = pow) \<and>
     length (pf_f p) = pow * 2 \<and> (\<forall>e \<in> set (pf_f p). scalar e) \<and>
     scalar (pf_z_A p) \<and> scalar (pf_that p) \<and> scalar (pf_mu p) \<and> scalar (pf_c p) \<and> scalar (pf_s_sk p) \<and>
     scalar (pf_s_r p) \<and> scalar (pf_s_b p) \<and> scalar (pf_s_tau p) \<and> InnerProduct_wire P (pf_ip p) \<and>
     (\<forall>g \<in> {pf_BA p, pf_BS p, pf_A p, pf_B p, pf_u p, pf_T_1 p, pf_T_2 p}. g \<noteq> g1_zero P) \<and>
     (\<forall>l \<in> {pf_CLnG p, pf_CRnG p, pf_C_0G p, pf_DG p, pf_y_0G p, pf_gG p, pf_C_XG p, pf_y_XG p}. \<forall>g \<in> set l. g \<noteq> g1_zero P)"

definition InnerProduct_enc :: "'p G1Ops \<Rightarrow> 'p InnerProduct \<Rightarrow> bytes" where
  "InnerProduct_enc P ip = ConvertBigIntToByte (ip_a ip) @ ConvertBigIntToByte (ip_b ip) @
     concat (map (lr_enc P) (zip (ip_ls ip) (ip_rs ip))) @ []"

lemma InnerProduct_Serialize_wire:
  assumes "InnerProduct_wire P ip"
  shows "\<exists>ser. InnerProduct_Serialize P ip = Inr ser \<and> writes ser (InnerProduct_enc P ip)"
proof -
  have "writes (ser_seq [Write (ConvertBigIntToByte (ip_a ip)), Write (ConvertBigIntToByte (ip_b ip)),
      fold (\<lambda>(l, r) w. Write (g1_EncodeCompressed P r) (Write (g1_EncodeCompressed P l) w)) (zip (ip_ls ip) (ip_rs ip))])
      (InnerProduct_enc P ip)"
    unfolding InnerProduct_enc_def by (intro codec writes_lr)
  then show ?thesis using assms by (simp add: InnerProduct_Serialize_def InnerProduct_wire_def)
qed

lemma reads_InnerProduct:
  assumes K: "g1_codec P" and w: "InnerProduct_wire P ip"
  shows "reads (InnerProduct_Deserialize P) (InnerProduct_enc P ip) ip"
proof -
  let ?lr = "zip (ip_ls ip) (ip_rs ip)"
  have "reads (grepeat (length ?lr) (gbind (ReadBN256G1 P) (\<lambda>l. gbind (ReadBN256G1 P) (\<lambda>r. gret (l, r))))) (concat (map (lr_enc P) ?lr)) ?lr"
    by (rule reads_grepeat) (use w in \<open>auto simp: InnerProduct_wire_def intro!: reads_lr[OF K] dest: set_zip_leftD set_zip_rightD\<close>)
  then have lr: "reads (grepeat 7 (gbind (ReadBN256G1 P) (\<lambda>l. gbind (ReadBN256G1 P) (\<lambda>r. gret (l, r))))) (concat (map (lr_enc P) ?lr)) ?lr"
    using w by (simp add: InnerProduct_wire_def)
  show ?thesis
    unfolding InnerProduct_Deserialize_def InnerProduct_enc_def
    by (intro reads_bind[OF reads_scalar] reads_bind[OF lr] reads_gret_eq) (use w in \<open>simp_all add: InnerProduct_wire_def\<close>)
qed

definition Proof_enc :: "'p G1Ops \<Rightarrow> 'p Proof \<Rightarrow> bytes" where
  "Proof_enc P p = (let pt = g1_EncodeCompressed P; sc = ConvertBigIntToByte in
     pt (pf_BA p) @ pt (pf_BS p) @ pt (pf_A p) @ pt (pf_B p) @
     concat (map (\<lambda>r. concat (map pt r)) (proof_rows p)) @ pt (pf_u p) @ concat (map sc (pf_f p)) @ sc (pf_z_A p) @
     pt (pf_T_1 p) @ pt (pf_T_2 p) @ sc (pf_that p) @ sc (pf_mu p) @ sc (pf_c p) @ sc (pf_s_sk p) @ sc (pf_s_r p) @
     sc (pf_s_b p) @ sc (pf_s_tau p) @ InnerProduct_enc P (pf_ip p) @ [])"

lemma proof_row_wire:
  assumes "Proof_wire P p pow"
  shows "rmap (proof_row p) [0..<length (pf_CLnG p)] = Inr (proof_rows p)"
  using assms unfolding proof_rows_def
  by (intro rmap_all_Inr) (simp add: proof_row_def rnth_def Proof_wire_def)

lemma Proof_Serialize_wire:
  assumes w: "Proof_wire P p pow"
  shows "\<exists>ser. Proof_Serialize P p = Inr ser \<and> writes ser (Proof_enc P p)"
proof -
  obtain ip where ip: "InnerProduct_Serialize P (pf_ip p) = Inr ip" "writes ip (InnerProduct_enc P (pf_ip p))"
    using w InnerProduct_Serialize_wire[of P "pf_ip p"] by (auto simp: Proof_wire_def)
  have c: "concat (map (\<lambda>r. concat (map f r)) xs) = concat (map f (concat xs))" for f :: "'a \<Rightarrow> bytes" and xs
    by (induction xs) simp_all
  show ?thesis
    unfolding Proof_Serialize_def proof_row_wire[OF w] ip(1) Proof_enc_def Let_def c
    by (simp only: rbind_simps) (intro exI conjI, rule refl, intro codec writes_fold ip(2))
qed

lemma reads_Proof:
  assumes K: "g1_codec P" and w: "Proof_wire P p pow"
  shows "reads (Proof_Deserialize P pow) (Proof_enc P p) p"
proof -
  let ?pt = "g1_EncodeCompressed P"
  have len: "length (pf_CLnG p) = pow" "length (pf_CRnG p) = pow" "length (pf_C_0G p) = pow" "length (pf_DG p) = pow"
    "length (pf_y_0G p) = pow" "length (pf_gG p) = pow" "length (pf_C_XG p) = pow" "length (pf_y_XG p) = pow"
    using w by (simp_all add: Proof_wire_def)
  have row: "reads (grepeat 8 (ReadBN256G1 P)) (concat (map ?pt r)) r" if "r \<in> set (proof_rows p)" for r
  proof -
    have "length r = 8" using that by (auto simp: proof_rows_def)
    moreover have "g \<noteq> g1_zero P" if g: "g \<in> set r" for g
    proof -
      define Ls where "Ls = [pf_CLnG p, pf_CRnG p, pf_C_0G p, pf_DG p, pf_y_0G p, pf_gG p, pf_C_XG p, pf_y_XG p]"
      have s: "set Ls = {pf_CLnG p, pf_CRnG p, pf_C_0G p, pf_DG p, pf_y_0G p, pf_gG p, pf_C_XG p, pf_y_XG p}" by (simp add: Ls_def)
      have Ls: "length l = pow" "\<forall>g \<in> set l. g \<noteq> g1_zero P" if "l \<in> set Ls" for l
        using w that unfolding s Proof_wire_def by blast+
      have "proof_rows p = map (\<lambda>i. map (\<lambda>l. l ! i) Ls) [0..<pow]" unfolding proof_rows_def Ls_def len(1) ..
      then obtain i where "i < pow" "r = map (\<lambda>l. l ! i) Ls" using \<open>r \<in> set (proof_rows p)\<close> by auto
      then obtain l where "l \<in> set Ls" "g = l ! i" "i < pow" using g by auto
      then show ?thesis using Ls[of l] nth_mem[of i l] by auto
    qed
    ultimately have "reads (ReadBN256G1 P) (?pt g) g" if "g \<in> set r" for g using that reads_ReadBN256G1[OF K] by blast
    from reads_grepeat[of r "ReadBN256G1 P" ?pt, OF this] show ?thesis unfolding \<open>length r = 8\<close> .
  qed
  have rows: "reads (grepeat pow (grepeat 8 (ReadBN256G1 P))) (concat (map (\<lambda>r. concat (map ?pt r)) (proof_rows p))) (proof_rows p)"
    using reads_grepeat[of "proof_rows p" "grepeat 8 (ReadBN256G1 P)" "\<lambda>r. concat (map ?pt r)", OF row] len(1)
    by (simp add: proof_rows_def)
  have f: "reads (grepeat (pow * 2) ReadBigInt) (concat (map ConvertBigIntToByte (pf_f p))) (pf_f p)"
    using reads_grepeat[of "pf_f p" ReadBigInt ConvertBigIntToByte] reads_scalar w by (simp add: Proof_wire_def)
  have pts: "pf_BA p \<noteq> g1_zero P" "pf_BS p \<noteq> g1_zero P" "pf_A p \<noteq> g1_zero P" "pf_B p \<noteq> g1_zero P" "pf_u p \<noteq> g1_zero P"
    "pf_T_1 p \<noteq> g1_zero P" "pf_T_2 p \<noteq> g1_zero P" and ip: "InnerProduct_wire P (pf_ip p)"
    using w by (simp_all add: Proof_wire_def)
  note pt = reads_bind[OF reads_ReadBN256G1[OF K]]
  have nth: "map ((!) xs) [0..<pow] = xs" if "length xs = pow" for xs :: "'a list" using that by (metis map_nth)
  show ?thesis
    unfolding Proof_Deserialize_def Proof_enc_def Let_def
    by (intro pt[OF pts(1)] pt[OF pts(2)] pt[OF pts(3)] pt[OF pts(4)] pt[OF pts(5)] pt[OF pts(6)] pt[OF pts(7)]
        reads_bind[OF rows] reads_bind[OF f] reads_bind[OF reads_scalar] reads_bind[OF reads_InnerProduct[OF K ip]] reads_gret_eq)
      (use w len nth in \<open>simp_all add: Proof_wire_def proof_rows_def comp_def\<close>)
qed

end
