(* ===== verification/Tx_Payload.thy ===== *)
theory Tx_Payload
  imports Proofs
begin

text \<open>
  The payloads of a private transaction (\<^verbatim>\<open>transaction_zether_payload\<close>) and their extras
  (\<^verbatim>\<open>transaction_zether_payload_extra\<close>): validation, wire format, and what including a payload does to the
  ledger.  The accounts are changed through the pointers the maps hold, then stored.
\<close>

section \<open>The extras\<close>

record StakingReward =
  xw_Reward :: uint64
  xw_TemporaryAccountRegistrationIndex :: uint64

record 'p Spend =
  xp_SenderSpendPublicKey :: 'p
  xp_SenderSpendSignature :: bytes

record AssetSupplyIncrease =
  xs_AssetId :: bytes
  xs_ReceiverPublicKey :: bytes
  xs_Value :: uint64
  xs_AssetSupplyPublicKey :: bytes
  xs_AssetSignature :: bytes

record ExtraConditional =
  xc_Deadline :: uint64
  xc_DefaultResolution :: bool
  xc_MultisigThreshold :: byte
  xc_MultisigPublicKeys :: "bytes list"

datatype 'p PayloadExtra =
    ExtraStaking
  | ExtraStakingReward StakingReward
  | ExtraSpend "'p Spend"
  | ExtraAssetCreate Asset
  | ExtraAssetSupplyIncrease AssetSupplyIncrease
  | ExtraPlainAccountFund bytes
  | ExtraConditionalPayment ExtraConditional

subsection \<open>Storing an account\<close>

text \<open>\<^verbatim>\<open>acc\<close> was changed in place; \<^verbatim>\<open>accs.Update\<close> marks it.\<close>

definition store_account :: "'p G1Ops \<Rightarrow> 'x StoreTx \<Rightarrow> bytes \<Rightarrow> bytes \<Rightarrow> 'p Account \<Rightarrow> ('p, 'x, unit) ds_go" where
  "store_account P X asset key acc = on_accs_of asset
     (gbind (set_element key acc) (\<lambda>_. gbind (Update (Account_ops P) X key (Some acc)) (\<lambda>_. gret ())))"

definition credit_uint :: "'p G1Ops \<Rightarrow> 'x StoreTx \<Rightarrow> bytes \<Rightarrow> bytes \<Rightarrow> 'p Account \<Rightarrow> uint64 \<Rightarrow> ('p, 'x, unit) ds_go" where
  "credit_uint P X asset key acc amount =
     gbind (glift (AddBalanceUint P amount (acc_Balance acc))) (\<lambda>balance.
     store_account P X asset key (acc\<lparr>acc_Balance := balance\<rparr>))"

subsection \<open>Staking reward\<close>

definition StakingReward_Before ::
  "'p G1Ops \<Rightarrow> 'x StoreTx \<Rightarrow> StakingReward \<Rightarrow> DataRegistrations \<Rightarrow> bytes list \<Rightarrow> ('p, 'x, unit) ds_go" where
  "StakingReward_Before P X e regs publicKeyList =
     gbind (glift (rnth regs (unat (xw_TemporaryAccountRegistrationIndex e)))) (\<lambda>reg.
     gbind (gcheck (case reg of None \<Rightarrow> True | Some r \<Rightarrow> zr_RegistrationType r \<noteq> NOT_REGISTERED)
              ''Account must not be registered before! It should be a new one'') (\<lambda>_.
     gbind (glift (rnth publicKeyList (unat (xw_TemporaryAccountRegistrationIndex e)))) (\<lambda>newAccountPublicKey.
     gbind (accs_GetMap P X NATIVE_ASSET_FULL) (\<lambda>_.
     gbind (on_accs_of NATIVE_ASSET_FULL (Get (Account_ops P) X newAccountPublicKey)) (\<lambda>tempAcc.
     deref tempAcc (\<lambda>acc. credit_uint P X NATIVE_ASSET_FULL newAccountPublicKey acc (xw_Reward e)))))))"

definition StakingReward_After ::
  "'p G1Ops \<Rightarrow> 'x StoreTx \<Rightarrow> StakingReward \<Rightarrow> bytes list \<Rightarrow> ('p, 'x, unit) ds_go" where
  "StakingReward_After P X e publicKeyList =
     gbind (glift (rnth publicKeyList (unat (xw_TemporaryAccountRegistrationIndex e)))) (\<lambda>newAccountPublicKey.
     gbind (accs_GetMap P X NATIVE_ASSET_FULL) (\<lambda>_.
     gbind (on_accs_of NATIVE_ASSET_FULL (Delete (Account_ops P) X newAccountPublicKey)) (\<lambda>_.
     on_regs (Delete Registration_ops X newAccountPublicKey))))"

definition StakingReward_Validate :: "StakingReward \<Rightarrow> DataRegistrations \<Rightarrow> bytes \<Rightarrow> uint64 \<Rightarrow> 'p Statement \<Rightarrow> bool \<Rightarrow> unit result" where
  "StakingReward_Validate e regs asset burn st parity = first_error
     [(asset \<noteq> NATIVE_ASSET_FULL, ''Payload[0] asset must be a native asset''),
      (burn \<noteq> 0, ''Payload burn value must be zero''),
      (st_Fee st \<noteq> 0, ''Payload Fee should have been zero''),
      (xw_Reward e = 0, ''Payload reward must be greater than zero''),
      (int_of_uint64 (xw_TemporaryAccountRegistrationIndex e) \<ge> int (length regs), ''RegistrationIndex is invalid''),
      (length (st_C st) < 64, ''Payload Extra Reward should had 256 ring members''),
      (\<exists>i \<in> set [0..<length regs]. even i = parity \<and> regs ! i \<noteq> None \<and> of_nat i \<noteq> xw_TemporaryAccountRegistrationIndex e,
         ''Payload Reward should not have new sender account'')]"

definition StakingReward_UpdateStatement :: "'p G1Ops \<Rightarrow> StakingReward \<Rightarrow> 'p Statement \<Rightarrow> 'p Statement result" where
  "StakingReward_UpdateStatement P e st =
     (let i = unat (xw_TemporaryAccountRegistrationIndex e) in
      if i \<ge> length (st_C st) then Inl (Error ''TemporaryAccountRegistrationIndex out of bound'')
      else
        rbind (rnth (st_CLn st) i) (\<lambda>cl. rbind (rnth (st_CRn st) i) (\<lambda>cr.
        rbind (ConstructElGamal P (Some cl) (Some cr)) (\<lambda>balance.
        rbind (ElGamal_Plus P balance (uint (xw_Reward e))) (\<lambda>balance.
        rbind (rderef (eg_Left balance)) (\<lambda>l. rbind (rderef (eg_Right balance)) (\<lambda>r.
        Inr (st\<lparr>st_CLn := (st_CLn st)[i := l], st_CRn := (st_CRn st)[i := r]\<rparr>))))))))"

subsection \<open>Assets\<close>

definition GetAssetId :: "(bytes \<Rightarrow> bytes) \<Rightarrow> (bytes \<Rightarrow> bytes) \<Rightarrow> bytes \<Rightarrow> byte \<Rightarrow> bytes" where
  "GetAssetId sha3 ripemd txHash payloadIndex =
     ripemd (sha3 (SerializeToBytes (ser_seq [WriteByte payloadIndex, Write txHash])))"

definition AssetCreate_After ::
  "'x StoreTx \<Rightarrow> (bytes \<Rightarrow> bytes) \<Rightarrow> (bytes \<Rightarrow> bytes) \<Rightarrow> Asset \<Rightarrow> bytes \<Rightarrow> byte \<Rightarrow> ('p, 'x, unit) ds_go" where
  "AssetCreate_After X sha3 ripemd asset txHash payloadIndex =
     (let hash = GetAssetId sha3 ripemd txHash payloadIndex in
      gbind (gcheck (hash = NATIVE_ASSET_FULL) ''invalid hash'') (\<lambda>_.
      gbind (on_asts (CreateAsset X hash (Some asset))) (\<lambda>_. gret ())))"

definition AssetCreate_Validate :: "Asset \<Rightarrow> bytes \<Rightarrow> unit result" where
  "AssetCreate_Validate a payloadAsset =
     rbind (first_error
       [(as_Supply a \<noteq> 0, ''AssetInfo Supply must be zero''),
        (payloadAsset \<noteq> NATIVE_ASSET_FULL, ''payloadAsset must be NATIVE_ASSET_FULL'')]) (\<lambda>_.
     Asset_Validate a)"

definition SupplyIncrease_After :: "'p G1Ops \<Rightarrow> 'x StoreTx \<Rightarrow> AssetSupplyIncrease \<Rightarrow> ('p, 'x, unit) ds_go" where
  "SupplyIncrease_After P X e =
     gbind (on_asts (Get Asset_ops X (xs_AssetId e))) (\<lambda>found.
     case found of
       None \<Rightarrow> gerr ''Asset was not found''
     | Some ast \<Rightarrow>
         gbind (gcheck (xs_AssetSupplyPublicKey e \<noteq> as_SupplyPublicKey ast) ''Asset SupplyPublicKey is not matching'') (\<lambda>_.
         gbind (GetOrCreateAccount P X (xs_AssetId e) (xs_ReceiverPublicKey e) True) (\<lambda>acc.
         (case AddSupply True (xs_Value e) ast of
            (Inl f, _) \<Rightarrow> glift (Inl f)
          | (Inr _, ast) \<Rightarrow>
              gbind (credit_uint P X (xs_AssetId e) (xs_ReceiverPublicKey e) acc (xs_Value e)) (\<lambda>_.
              gbind (on_asts (Update Asset_ops X (xs_AssetId e) (Some ast))) (\<lambda>_. gret ()))))))"

definition SupplyIncrease_Validate :: "AssetSupplyIncrease \<Rightarrow> bytes \<Rightarrow> unit result" where
  "SupplyIncrease_Validate e payloadAsset = first_error
     [(xs_Value e = 0, ''Asset Supply must be greater than zero''),
      (payloadAsset \<noteq> NATIVE_ASSET_FULL, ''payloadAsset must be NATIVE_ASSET_FULL''),
      (length (xs_ReceiverPublicKey e) \<noteq> PublicKeySize \<or> length (xs_AssetSupplyPublicKey e) \<noteq> PublicKeySize, ''Invalid Public Keys''),
      (length (xs_AssetSignature e) \<noteq> SignatureSize, ''Invalid Signature'')]"

subsection \<open>Funding a plain account, and the others\<close>

definition PlainAccountFund_After :: "'x StoreTx \<Rightarrow> bytes \<Rightarrow> uint64 \<Rightarrow> ('p, 'x, unit) ds_go" where
  "PlainAccountFund_After X key burn =
     gbind (GetOrCreatePlainAccount X key True) (\<lambda>plainAcc.
     (case AddUnclaimed True burn plainAcc of
        (Inl e, _) \<Rightarrow> glift (Inl e)
      | (Inr _, plainAcc) \<Rightarrow> gbind (on_plain (Update PlainAccount_ops X key (Some plainAcc))) (\<lambda>_. gret ())))"

definition PlainAccountFund_Validate :: "bytes \<Rightarrow> bytes \<Rightarrow> uint64 \<Rightarrow> unit result" where
  "PlainAccountFund_Validate key payloadAsset burn = first_error
     [(length key \<noteq> PublicKeySize, ''PlainAccountPublicKey size is invalid''),
      (payloadAsset \<noteq> NATIVE_ASSET_FULL, ''PayloadAsset must be NATIVE_ASSET_FULL''),
      (burn = 0, ''Payload Burn value must be greater than zero'')]"

definition Conditional_Validate :: "ExtraConditional \<Rightarrow> uint64 \<Rightarrow> 'p Statement \<Rightarrow> unit result" where
  "Conditional_Validate e burn st = first_error
     [(xc_Deadline e > 100000, ''Deadline should be smaller than 100000''),
      (xc_Deadline e < 10, ''Deadline should be greater than 10''),
      (burn \<noteq> 0, ''Payload burn value must be zero''),
      (st_Fee st \<noteq> 0, ''Payload Fee must be zero''),
      (length (xc_MultisigPublicKeys e) > 5, ''PublicKeys list is limited to 5 elements''),
      (xc_MultisigThreshold e = 0, ''Threshold should not be zero''),
      (unat (xc_MultisigThreshold e) > length (xc_MultisigPublicKeys e), ''Invalid threshold''),
      (card (set (xc_MultisigPublicKeys e)) \<noteq> length (xc_MultisigPublicKeys e), ''Duplicate Keys detected'')]"

definition Conditional_After :: "'p G1Ops \<Rightarrow> 'x StoreTx \<Rightarrow> bytes \<Rightarrow> bytes list \<Rightarrow> ('p, 'x, unit) ds_go" where
  "Conditional_After P X asset publicKeyList =
     gfor publicKeyList (\<lambda>k. gbind (GetOrCreateAccount P X asset k True) (\<lambda>_. gret ()))"

definition Staking_Validate :: "DataRegistrations \<Rightarrow> bytes \<Rightarrow> uint64 \<Rightarrow> 'p Statement \<Rightarrow> unit result" where
  "Staking_Validate regs asset burn st = first_error
     [(asset \<noteq> NATIVE_ASSET_FULL, ''Payload[0] asset must be a native asset''),
      (burn = 0, ''Payload burn value must be greater than zero''),
      (st_Fee st \<noteq> 0, ''Payload Fee should have been zero''),
      (\<exists>r \<in> set regs. r \<noteq> None, ''Payload Extra Staking should not have any registration''),
      (length (st_C st) < 64, ''Payload Extra Staking should had 256 ring members'')]"

definition Spend_Validate :: "'p Spend \<Rightarrow> bytes \<Rightarrow> unit result" where
  "Spend_Validate e asset = first_error
     [(asset \<noteq> NATIVE_ASSET_FULL, ''payloadAsset must be NATIVE_ASSET_FULL''),
      (length (xp_SenderSpendSignature e) \<noteq> SignatureSize, ''Invalid Signature size'')]"

subsection \<open>The interface\<close>

fun Extra_Before ::
  "'p G1Ops \<Rightarrow> 'x StoreTx \<Rightarrow> 'p PayloadExtra \<Rightarrow> DataRegistrations \<Rightarrow> bytes list \<Rightarrow> ('p, 'x, unit) ds_go" where
  "Extra_Before P X (ExtraStakingReward e) regs publicKeyList = StakingReward_Before P X e regs publicKeyList"
| "Extra_Before P X _ regs publicKeyList = gret ()"

fun Extra_After ::
  "'p G1Ops \<Rightarrow> 'x StoreTx \<Rightarrow> (bytes \<Rightarrow> bytes) \<Rightarrow> (bytes \<Rightarrow> bytes) \<Rightarrow> 'p PayloadExtra \<Rightarrow> bytes \<Rightarrow> byte \<Rightarrow> bytes \<Rightarrow> uint64 \<Rightarrow>
   bytes list \<Rightarrow> ('p, 'x, unit) ds_go" where
  "Extra_After P X sha3 ripemd (ExtraStakingReward e) txHash payloadIndex asset burn publicKeyList =
     StakingReward_After P X e publicKeyList"
| "Extra_After P X sha3 ripemd (ExtraAssetCreate a) txHash payloadIndex asset burn publicKeyList =
     AssetCreate_After X sha3 ripemd a txHash payloadIndex"
| "Extra_After P X sha3 ripemd (ExtraAssetSupplyIncrease e) txHash payloadIndex asset burn publicKeyList =
     SupplyIncrease_After P X e"
| "Extra_After P X sha3 ripemd (ExtraPlainAccountFund k) txHash payloadIndex asset burn publicKeyList =
     PlainAccountFund_After X k burn"
| "Extra_After P X sha3 ripemd (ExtraConditionalPayment e) txHash payloadIndex asset burn publicKeyList =
     Conditional_After P X asset publicKeyList"
| "Extra_After P X sha3 ripemd _ txHash payloadIndex asset burn publicKeyList = gret ()"

fun Extra_Validate ::
  "'p PayloadExtra \<Rightarrow> DataRegistrations \<Rightarrow> bytes \<Rightarrow> uint64 \<Rightarrow> 'p Statement \<Rightarrow> bool \<Rightarrow> unit result" where
  "Extra_Validate ExtraStaking regs asset burn st parity = Staking_Validate regs asset burn st"
| "Extra_Validate (ExtraStakingReward e) regs asset burn st parity = StakingReward_Validate e regs asset burn st parity"
| "Extra_Validate (ExtraSpend e) regs asset burn st parity = Spend_Validate e asset"
| "Extra_Validate (ExtraAssetCreate a) regs asset burn st parity = AssetCreate_Validate a asset"
| "Extra_Validate (ExtraAssetSupplyIncrease e) regs asset burn st parity = SupplyIncrease_Validate e asset"
| "Extra_Validate (ExtraPlainAccountFund k) regs asset burn st parity = PlainAccountFund_Validate k asset burn"
| "Extra_Validate (ExtraConditionalPayment e) regs asset burn st parity = Conditional_Validate e burn st"

definition Spend_VerifyExtraSignature :: "'p G1Ops \<Rightarrow> (bytes \<Rightarrow> bytes) \<Rightarrow> 'p Spend \<Rightarrow> bytes \<Rightarrow> bool result" where
  "Spend_VerifyExtraSignature P keccak e h =
     VerifySignaturePoint P keccak h (slice_arg (xp_SenderSpendSignature e)) (xp_SenderSpendPublicKey e)"

definition SupplyIncrease_VerifyExtraSignature :: "'p G1Ops \<Rightarrow> (bytes \<Rightarrow> bytes) \<Rightarrow> AssetSupplyIncrease \<Rightarrow> bytes \<Rightarrow> bool result" where
  "SupplyIncrease_VerifyExtraSignature P keccak e h =
     VerifySignature P keccak h (slice_arg (xs_AssetSignature e)) (xs_AssetSupplyPublicKey e)"

text \<open>Three of the types leave the method to the embedded nil interface.\<close>

fun VerifyExtraSignature :: "'p G1Ops \<Rightarrow> (bytes \<Rightarrow> bytes) \<Rightarrow> 'p PayloadExtra \<Rightarrow> bytes \<Rightarrow> bool result" where
  "VerifyExtraSignature P keccak (ExtraSpend e) h = Spend_VerifyExtraSignature P keccak e h"
| "VerifyExtraSignature P keccak (ExtraAssetSupplyIncrease e) h = SupplyIncrease_VerifyExtraSignature P keccak e h"
| "VerifyExtraSignature P keccak (ExtraPlainAccountFund k) h = Inr False"
| "VerifyExtraSignature P keccak (ExtraConditionalPayment e) h = Inr False"
| "VerifyExtraSignature P keccak _ h = Inl (Panic ''invalid memory address or nil pointer dereference'')"

fun Extra_ComputeAllKeys :: "'p PayloadExtra \<Rightarrow> bytes set \<Rightarrow> bytes set" where
  "Extra_ComputeAllKeys (ExtraAssetSupplyIncrease e) out = insert (xs_ReceiverPublicKey e) out"
| "Extra_ComputeAllKeys (ExtraPlainAccountFund k) out = insert k out"
| "Extra_ComputeAllKeys _ out = out"

fun Extra_UpdateStatement :: "'p G1Ops \<Rightarrow> 'p PayloadExtra \<Rightarrow> 'p Statement \<Rightarrow> 'p Statement result" where
  "Extra_UpdateStatement P (ExtraStakingReward e) st = StakingReward_UpdateStatement P e st"
| "Extra_UpdateStatement P _ st = Inr st"

definition StakingReward_Serialize :: "StakingReward \<Rightarrow> BufferWriter \<Rightarrow> BufferWriter" where
  "StakingReward_Serialize e = ser_seq [WriteUvarint (xw_Reward e), WriteUvarint (xw_TemporaryAccountRegistrationIndex e)]"

definition Spend_Serialize :: "'p G1Ops \<Rightarrow> 'p Spend \<Rightarrow> bool \<Rightarrow> BufferWriter \<Rightarrow> BufferWriter" where
  "Spend_Serialize P e inclSignature = ser_seq
     [Write (g1_EncodeCompressed P (xp_SenderSpendPublicKey e)), when_write inclSignature (Write (xp_SenderSpendSignature e))]"

definition SupplyIncrease_Serialize :: "AssetSupplyIncrease \<Rightarrow> bool \<Rightarrow> BufferWriter \<Rightarrow> BufferWriter" where
  "SupplyIncrease_Serialize e inclSignature = ser_seq
     [Write (xs_AssetId e), Write (xs_ReceiverPublicKey e), WriteUvarint (xs_Value e), Write (xs_AssetSupplyPublicKey e),
      when_write inclSignature (Write (xs_AssetSignature e))]"

definition Conditional_Serialize :: "ExtraConditional \<Rightarrow> BufferWriter \<Rightarrow> BufferWriter" where
  "Conditional_Serialize e = ser_seq
     [WriteUvarint (xc_Deadline e), WriteBool (xc_DefaultResolution e), WriteByte (xc_MultisigThreshold e),
      WriteByte (of_nat (length (xc_MultisigPublicKeys e))), fold Write (xc_MultisigPublicKeys e)]"

fun Extra_Serialize :: "'p G1Ops \<Rightarrow> 'p PayloadExtra \<Rightarrow> bool \<Rightarrow> BufferWriter \<Rightarrow> BufferWriter" where
  "Extra_Serialize P ExtraStaking inclSignature = (\<lambda>w. w)"
| "Extra_Serialize P (ExtraStakingReward e) inclSignature = StakingReward_Serialize e"
| "Extra_Serialize P (ExtraSpend e) inclSignature = Spend_Serialize P e inclSignature"
| "Extra_Serialize P (ExtraAssetCreate a) inclSignature = Asset_Serialize a"
| "Extra_Serialize P (ExtraAssetSupplyIncrease e) inclSignature = SupplyIncrease_Serialize e inclSignature"
| "Extra_Serialize P (ExtraPlainAccountFund k) inclSignature = Write k"
| "Extra_Serialize P (ExtraConditionalPayment e) inclSignature = Conditional_Serialize e"

lemmas extra_serialize = StakingReward_Serialize_def Spend_Serialize_def SupplyIncrease_Serialize_def Conditional_Serialize_def
  Extra_Serialize.simps

definition StakingReward_Deserialize :: "(BufferReader, StakingReward) go" where
  "StakingReward_Deserialize =
     gbind ReadUvarint (\<lambda>reward. gbind ReadUvarint (\<lambda>index.
     gret \<lparr>xw_Reward = reward, xw_TemporaryAccountRegistrationIndex = index\<rparr>))"

definition Spend_Deserialize :: "'p G1Ops \<Rightarrow> (BufferReader, 'p Spend) go" where
  "Spend_Deserialize P =
     gbind (ReadBN256G1 P) (\<lambda>key. gbind (ReadBytes (int SignatureSize)) (\<lambda>signature.
     gret \<lparr>xp_SenderSpendPublicKey = key, xp_SenderSpendSignature = signature\<rparr>))"

text \<open>The asset is filled in from a new object with an empty hash.\<close>

definition AssetCreate_Deserialize :: "(BufferReader, Asset) go" where
  "AssetCreate_Deserialize = Asset_Deserialize (NewAsset (replicate PublicKeyHashSize 0) 0)"

definition SupplyIncrease_Deserialize :: "(BufferReader, AssetSupplyIncrease) go" where
  "SupplyIncrease_Deserialize =
     gbind (ReadBytes (int ASSET_LENGTH)) (\<lambda>assetId.
     gbind (ReadBytes (int PublicKeySize)) (\<lambda>receiver.
     gbind ReadUvarint (\<lambda>v.
     gbind (ReadBytes (int PublicKeySize)) (\<lambda>supplyKey.
     gbind (ReadBytes (int SignatureSize)) (\<lambda>signature.
     gret \<lparr>xs_AssetId = assetId, xs_ReceiverPublicKey = receiver, xs_Value = v,
           xs_AssetSupplyPublicKey = supplyKey, xs_AssetSignature = signature\<rparr>)))))"

definition PlainAccountFund_Deserialize :: "(BufferReader, bytes) go" where
  "PlainAccountFund_Deserialize = replace_error ''PlainAccountPublicKey was not found'' (ReadBytes (int PublicKeySize))"

definition Conditional_Deserialize :: "(BufferReader, ExtraConditional) go" where
  "Conditional_Deserialize =
     gbind ReadUvarint (\<lambda>deadline.
     gbind ReadBool (\<lambda>resolution.
     gbind ReadByte (\<lambda>threshold.
     gbind ReadByte (\<lambda>n.
     gbind (grepeat (unat n) (ReadBytes (int PublicKeySize))) (\<lambda>ks.
     gret \<lparr>xc_Deadline = deadline, xc_DefaultResolution = resolution, xc_MultisigThreshold = threshold,
           xc_MultisigPublicKeys = ks\<rparr>)))))"

text \<open>The extra of a script: \<open>None\<close> for a plain transfer.\<close>

definition Extra_Deserialize :: "'p G1Ops \<Rightarrow> uint64 \<Rightarrow> (BufferReader, 'p PayloadExtra option) go" where
  "Extra_Deserialize P script =
     (if script = SCRIPT_STAKING then gret (Some ExtraStaking)
      else if script = SCRIPT_STAKING_REWARD then gbind StakingReward_Deserialize (\<lambda>e. gret (Some (ExtraStakingReward e)))
      else if script = SCRIPT_SPEND then gbind (Spend_Deserialize P) (\<lambda>e. gret (Some (ExtraSpend e)))
      else if script = SCRIPT_ASSET_CREATE then gbind AssetCreate_Deserialize (\<lambda>a. gret (Some (ExtraAssetCreate a)))
      else if script = SCRIPT_ASSET_SUPPLY_INCREASE then
        gbind SupplyIncrease_Deserialize (\<lambda>e. gret (Some (ExtraAssetSupplyIncrease e)))
      else if script = SCRIPT_PLAIN_ACCOUNT_FUND then
        gbind PlainAccountFund_Deserialize (\<lambda>k. gret (Some (ExtraPlainAccountFund k)))
      else if script = SCRIPT_CONDITIONAL_PAYMENT then
        gbind Conditional_Deserialize (\<lambda>e. gret (Some (ExtraConditionalPayment e)))
      else gret None)"

section \<open>The payload\<close>

record 'p TransactionZetherPayload =
  pl_PayloadScript :: uint64
  pl_Asset :: bytes
  pl_BurnValue :: uint64
  pl_DataVersion :: byte
  pl_Data :: bytes
  pl_Registrations :: DataRegistrations
  pl_Parity :: bool
  pl_Statement :: "'p Statement"
  pl_WhisperSender :: bytes
  pl_WhisperRecipient :: bytes
  pl_FeeRate :: uint64
  pl_FeeLeadingZeros :: byte
  pl_Proof :: "'p Proof"
  pl_Extra :: "'p PayloadExtra option"

text \<open>\<^verbatim>\<open>SafeUint64Mul(&final, rate); final /= Pow10(zeros)\<close>.\<close>

definition convert_fee :: "uint64 \<Rightarrow> uint64 \<Rightarrow> byte \<Rightarrow> uint64 result" where
  "convert_fee fee rate zeros =
     (case SafeUint64Mul rate fee of
        (Inl e, _) \<Rightarrow> Inl e
      | (Inr _, final) \<Rightarrow> rbind (Pow10 zeros) (\<lambda>p. Inr (final div p)))"

definition processAssetFee ::
  "'p G1Ops \<Rightarrow> 'x StoreTx \<Rightarrow> bytes \<Rightarrow> uint64 \<Rightarrow> uint64 \<Rightarrow> byte \<Rightarrow> uint64 \<Rightarrow> ('p, 'x, unit) ds_go" where
  "processAssetFee P X assetId txFee txFeeRate txFeeLeadingZeros blockHeight =
     gbind (on_liquidity (GetTopLiquidity X assetId)) (\<lambda>top.
     case top of
       None \<Rightarrow> gerr ''There is no Asset Fee Liquidity Available''
     | Some key \<Rightarrow>
         gbind (on_plain (Get PlainAccount_ops X key)) (\<lambda>found.
         case found of
           None \<Rightarrow> gerr ''Plain account doesn't exist''
         | Some plainAcc \<Rightarrow>
             deref (GetLiquidity assetId (pa_AssetFeeLiquidities plainAcc)) (\<lambda>liquidity.
             gbind (gcheck (al_Rate liquidity < txFeeRate) ''assetFeeLiquidity.Rate < txFeeRate'') (\<lambda>_.
             gbind (glift (convert_fee txFee txFeeRate txFeeLeadingZeros)) (\<lambda>final.
             gbind (SubtractUnclaimed X plainAcc final blockHeight) (\<lambda>plainAcc.
             gbind (on_plain (Update PlainAccount_ops X key (Some plainAcc))) (\<lambda>plainAcc.
             gbind (GetOrCreateAccount P X assetId (afl_Collector (pa_AssetFeeLiquidities plainAcc)) True) (\<lambda>acc.
             credit_uint P X assetId (afl_Collector (pa_AssetFeeLiquidities plainAcc)) acc txFee))))))))"

subsection \<open>One member of the ring\<close>

text \<open>The index of the temporary account, from \<^verbatim>\<open>payload.Extra.(*TransactionZetherPayloadExtraStakingReward)\<close>.\<close>

definition reward_index :: "'p PayloadExtra option \<Rightarrow> uint64 result" where
  "reward_index extra =
     (case extra of Some (ExtraStakingReward e) \<Rightarrow> Inr (xw_TemporaryAccountRegistrationIndex e)
      | _ \<Rightarrow> Inl (Panic ''interface conversion''))"

definition check_spend :: "'p G1Ops \<Rightarrow> 'p TransactionZetherPayload \<Rightarrow> Registration \<Rightarrow> unit result" where
  "check_spend P payload reg =
     (if pl_PayloadScript payload \<noteq> SCRIPT_STAKING \<and> pl_PayloadScript payload \<noteq> SCRIPT_STAKING_REWARD \<and>
         length (reg_SpendPublicKey reg) > 0 then
        (if pl_Extra payload = None \<or> pl_PayloadScript payload \<noteq> SCRIPT_SPEND then Inl (Error ''PayloadScript should be spend'')
         else (case pl_Extra payload of
                 Some (ExtraSpend e) \<Rightarrow>
                   if reg_SpendPublicKey reg \<noteq> g1_EncodeCompressed P (xp_SenderSpendPublicKey e)
                   then Inl (Error ''Spend Public Key is not matching'') else Inr ()
               | _ \<Rightarrow> Inl (Panic ''interface conversion'')))
      else Inr ())"

definition check_sender ::
  "'p G1Ops \<Rightarrow> 'p TransactionZetherPayload \<Rightarrow> nat \<Rightarrow> Registration \<Rightarrow> 'p ElGamal \<Rightarrow> unit result" where
  "check_sender P payload i reg balance =
     (if pl_PayloadScript payload = SCRIPT_STAKING \<and> \<not> reg_Staked reg
      then Inl (Error ''Senders used in Staking requires all to be staked'')
      else
        rbind (if pl_PayloadScript payload = SCRIPT_STAKING_REWARD
               then rbind (reward_index (pl_Extra payload)) (\<lambda>j. Inr (of_nat i = j)) else Inr True) (\<lambda>verify.
        rbind (if verify then
                 rbind (rnth (st_CLn (pl_Statement payload)) i) (\<lambda>cl. rbind (rderef (eg_Left balance)) (\<lambda>l.
                 if g1_String P cl \<noteq> g1_String P l then Inl (Error ''CLn or CRn is not matching'')
                 else
                   rbind (rnth (st_CRn (pl_Statement payload)) i) (\<lambda>cr. rbind (rderef (eg_Right balance)) (\<lambda>r.
                   if g1_String P cr \<noteq> g1_String P r then Inl (Error ''CLn or CRn is not matching'') else Inr ()))))
               else Inr ()) (\<lambda>_.
        check_spend P payload reg)))"

definition include_member ::
  "'p G1Ops \<Rightarrow> 'x StoreTx \<Rightarrow> bool \<Rightarrow> 'p TransactionZetherPayload \<Rightarrow> uint64 \<Rightarrow> nat \<times> bytes \<Rightarrow> ('p, 'x, 'p ElGamal) ds_go" where
  "include_member P X new_devnet payload blockHeight = (\<lambda>(i, publicKey).
     gbind (on_accs_of (pl_Asset payload) (Get (Account_ops P) X publicKey)) (\<lambda>found.
     case found of
       None \<Rightarrow> gerr ''Private Account doesn't exist''
     | Some acc \<Rightarrow>
         gbind (on_regs (Get Registration_ops X publicKey)) (\<lambda>found.
         case found of
           None \<Rightarrow> gerr ''Accoun not registered''
         | Some reg \<Rightarrow>
             gbind (glift (rnth (st_C (pl_Statement payload)) i)) (\<lambda>c.
             gbind (glift (ConstructElGamal P (Some c) (Some (st_D (pl_Statement payload))))) (\<lambda>echanges.
             gbind (glift (rbind (rderef (Account_GetBalance acc)) (\<lambda>b. ElGamal_Add P b echanges))) (\<lambda>balance.
             gbind (if even i = pl_Parity payload then glift (check_sender P payload i reg balance) else gret ()) (\<lambda>_.
             gbind (let store = store_account P X (pl_Asset payload) publicKey (acc\<lparr>acc_Balance := \<lparr>ba_Amount = Some balance\<rparr>\<rparr>) in
                    if pl_PayloadScript payload = SCRIPT_STAKING then gret ()
                    else if even i = pl_Parity payload then
                      (if pl_PayloadScript payload \<noteq> SCRIPT_STAKING_REWARD then store else gret ())
                    else if pl_PayloadScript payload = SCRIPT_CONDITIONAL_PAYMENT then gret ()
                    else if pl_Asset payload = NATIVE_ASSET_FULL \<and>
                            (reg_Staked reg \<or> pl_PayloadScript payload = SCRIPT_STAKING_REWARD) then
                      AddPendingStake P X publicKey echanges (blockHeight + GetPendingStakeWindow new_devnet blockHeight)
                    else store) (\<lambda>_.
             gret echanges))))))))"

section \<open>Including a payload\<close>

definition IncludePayload ::
  "'p G1Ops \<Rightarrow> 'x StoreTx \<Rightarrow> (bytes \<Rightarrow> bytes) \<Rightarrow> (bytes \<Rightarrow> bytes) \<Rightarrow> bool \<Rightarrow> 'p TransactionZetherPayload \<Rightarrow> bytes \<Rightarrow> byte \<Rightarrow>
   bytes list \<Rightarrow> uint64 \<Rightarrow> ('p, 'x, unit) ds_go" where
  "IncludePayload P X sha3 ripemd new_devnet payload txHash payloadIndex publicKeyList blockHeight =
     gbind (if pl_Asset payload \<noteq> NATIVE_ASSET_FULL
            then processAssetFee P X (pl_Asset payload) (st_Fee (pl_Statement payload)) (pl_FeeRate payload)
                   (pl_FeeLeadingZeros payload) blockHeight
            else gret ()) (\<lambda>_.
     gbind (RegisterNow P X (pl_Registrations payload) (pl_Asset payload) publicKeyList) (\<lambda>_.
     gbind (case pl_Extra payload of None \<Rightarrow> gret ()
            | Some e \<Rightarrow> Extra_Before P X e (pl_Registrations payload) publicKeyList) (\<lambda>_.
     gbind (accs_GetMap P X (pl_Asset payload)) (\<lambda>_.
     gbind (gcheck (length (st_Publickeylist (pl_Statement payload)) \<noteq> length publicKeyList)
              ''publicKeyList was not precomputed'') (\<lambda>_.
     gbind (gmap (include_member P X new_devnet payload blockHeight) (enumerate 0 publicKeyList)) (\<lambda>echangesAll.
     gbind (if pl_PayloadScript payload = SCRIPT_CONDITIONAL_PAYMENT then
              (case pl_Extra payload of
                 Some (ExtraConditionalPayment e) \<Rightarrow>
                   AddConditionalPayment P X (blockHeight + xc_Deadline e) txHash payloadIndex (pl_Asset payload)
                     (xc_DefaultResolution e) (pl_Parity payload) publicKeyList echangesAll (xc_MultisigThreshold e)
                     (xc_MultisigPublicKeys e)
               | _ \<Rightarrow> gpanic ''interface conversion'')
            else gret ()) (\<lambda>_.
     case pl_Extra payload of None \<Rightarrow> gret ()
     | Some e \<Rightarrow> Extra_After P X sha3 ripemd e txHash payloadIndex (pl_Asset payload) (pl_BurnValue payload) publicKeyList)))))))"

definition Payload_ComputeAllKeys :: "'p TransactionZetherPayload \<Rightarrow> bytes set \<Rightarrow> bytes list \<Rightarrow> bytes set" where
  "Payload_ComputeAllKeys payload out publicKeyList =
     (let out = out \<union> set publicKeyList in
      case pl_Extra payload of None \<Rightarrow> out | Some e \<Rightarrow> Extra_ComputeAllKeys e out)"

section \<open>Validation\<close>

definition Payload_Validate :: "'p G1Ops \<Rightarrow> 'p TransactionZetherPayload \<Rightarrow> unit result" where
  "Payload_Validate P payload =
     (let st = pl_Statement payload; n = st_RingSize st in
      rbind (first_error
        [(pl_Asset payload = NATIVE_ASSET_FULL \<and> (pl_FeeLeadingZeros payload \<noteq> 0 \<or> pl_FeeRate payload \<noteq> 0), '' Leading Zeros must be zero''),
         (pl_Asset payload \<noteq> NATIVE_ASSET_FULL \<and> pl_FeeLeadingZeros payload > ASSETS_DECIMAL_SEPARATOR_MAX_BYTE, ''Invalid Leading Zeros''),
         (n < 2, ''RingSize cannot be less than 2''),
         (n > TRANSACTIONS_ZETHER_RING_MAX, ''RingSize cannot be that big''),
         (\<not> IsPowerOf2 n, ''corrupted key pointers'')]) (\<lambda>_.
      rbind (rmap (rnth (st_Publickeylist st)) [0..<nat n]) (\<lambda>members.
      if int (card (set (map (g1_EncodeCompressed P) members))) \<noteq> n then Inl (Error ''Duplicated ring members'')
      else if pl_PayloadScript payload = SCRIPT_TRANSFER then Inr ()
      else if pl_PayloadScript payload \<le> SCRIPT_CONDITIONAL_PAYMENT then
        (case pl_Extra payload of
           None \<Rightarrow> Inl (Error ''extra is not assigned'')
         | Some e \<Rightarrow> Extra_Validate e (pl_Registrations payload) (pl_Asset payload) (pl_BurnValue payload) st (pl_Parity payload))
      else Inl (Error ''Invalid Zether PayloadScript''))))"

section \<open>Wire format\<close>

definition PAYLOAD_LIMIT :: int where "PAYLOAD_LIMIT = 1 + 144"

definition has_whisper :: "uint64 \<Rightarrow> bool" where
  "has_whisper script \<longleftrightarrow> script \<noteq> SCRIPT_STAKING_REWARD \<and> script \<noteq> SCRIPT_STAKING"

definition Payload_Serialize :: "'p G1Ops \<Rightarrow> 'p TransactionZetherPayload \<Rightarrow> bool \<Rightarrow> (BufferWriter \<Rightarrow> BufferWriter) result" where
  "Payload_Serialize P payload inclSignature =
     rbind (Statement_SerializeRingSize (pl_Statement payload)) (\<lambda>ring.
     rbind (Statement_Serialize P (pl_Statement payload) (pl_Registrations payload) (pl_Parity payload) (pl_PayloadScript payload)) (\<lambda>st.
     rbind (if inclSignature then Proof_Serialize P (pl_Proof payload) else Inr (\<lambda>w. w)) (\<lambda>prf.
     Inr (ser_seq
       [WriteUvarint (pl_PayloadScript payload),
        WriteAsset (pl_Asset payload),
        WriteUvarint (pl_BurnValue payload),
        WriteByte (pl_DataVersion payload),
        (if pl_DataVersion payload = TX_DATA_PLAIN_TEXT then WriteVariableBytes (pl_Data payload)
         else if pl_DataVersion payload = TX_DATA_ENCRYPTED then Write (pl_Data payload) else (\<lambda>w. w)),
        ring,
        WriteBool (pl_Parity payload),
        Registrations_Serialize (pl_Registrations payload),
        st,
        when_write (has_whisper (pl_PayloadScript payload))
          (ser_seq [Write (pl_WhisperSender payload), Write (pl_WhisperRecipient payload)]),
        when_write (pl_Asset payload \<noteq> NATIVE_ASSET_FULL)
          (ser_seq [WriteUvarint (pl_FeeRate payload), WriteByte (pl_FeeLeadingZeros payload)]),
        prf,
        (case pl_Extra payload of None \<Rightarrow> (\<lambda>w. w) | Some e \<Rightarrow> Extra_Serialize P e inclSignature)]))))"

definition read_data :: "byte \<Rightarrow> (BufferReader, bytes) go" where
  "read_data version =
     (if version = TX_DATA_NONE then gret []
      else if version = TX_DATA_PLAIN_TEXT then ReadVariableBytes TRANSACTIONS_MAX_DATA_LENGTH
      else if version = TX_DATA_ENCRYPTED then ReadBytes PAYLOAD_LIMIT
      else gerr ''Invalid Tx.DataVersion'')"

definition Payload_Deserialize :: "'p G1Ops \<Rightarrow> (BufferReader, 'p TransactionZetherPayload) go" where
  "Payload_Deserialize P =
     gbind ReadUvarint (\<lambda>script.
     gbind (gcheck (script > SCRIPT_CONDITIONAL_PAYMENT) ''INVALID SCRIPT TYPE'') (\<lambda>_.
     gbind ReadAsset (\<lambda>asset.
     gbind ReadUvarint (\<lambda>burn.
     gbind ReadByte (\<lambda>dataVersion.
     gbind (read_data dataVersion) (\<lambda>data.
     gbind Statement_DeserializeRingSize (\<lambda>(ringPower, ringSize).
     gbind ReadBool (\<lambda>parity.
     gbind (Registrations_Deserialize (nat ringSize)) (\<lambda>regs.
     gbind (Statement_Deserialize P ringSize regs parity script) (\<lambda>st.
     gbind (when_read (has_whisper script) ([], [])
       (gbind (ReadBytes 32) (\<lambda>sender. gbind (ReadBytes 32) (\<lambda>recipient. gret (sender, recipient))))) (\<lambda>(sender, recipient).
     gbind (when_read (asset \<noteq> NATIVE_ASSET_FULL) (0, 0)
       (gbind ReadUvarint (\<lambda>rate. gbind ReadByte (\<lambda>zeros. gret (rate, zeros))))) (\<lambda>(rate, zeros).
     gbind (Proof_Deserialize P (unat ringPower)) (\<lambda>prf.
     gbind (Extra_Deserialize P script) (\<lambda>extra.
     gbind (glift (case extra of None \<Rightarrow> Inr st | Some e \<Rightarrow> Extra_UpdateStatement P e st)) (\<lambda>st.
     gret \<lparr>pl_PayloadScript = script, pl_Asset = asset, pl_BurnValue = burn, pl_DataVersion = dataVersion, pl_Data = data,
           pl_Registrations = regs, pl_Parity = parity, pl_Statement = st, pl_WhisperSender = sender,
           pl_WhisperRecipient = recipient, pl_FeeRate = rate, pl_FeeLeadingZeros = zeros, pl_Proof = prf,
           pl_Extra = extra\<rparr>)))))))))))))))"

end
