(* ===== verification/Proof_Verify.thy ===== *)
theory Proof_Verify
  imports Proofs
begin

text \<open>
  Hashing to the curve (\<^verbatim>\<open>hashtopoint.go\<close>), the generators (\<^verbatim>\<open>generatorparams.go\<close>) and the verifier of the ring
  proof (\<^verbatim>\<open>proof_verify.go\<close>, \<^verbatim>\<open>proof_verify_extra.go\<close>).  The verifier is cut at the points where the code
  fills its support structures; a nil number or an index out of range is a panic.
\<close>

section \<open>Hashing to the curve\<close>

definition FIELD_ORDER :: int where
  "FIELD_ORDER = 0x30644e72e131a029b85045b68181585d97816a916871ca8d3c208c16d87cfd47"

definition CURVE_B :: int where "CURVE_B = 3"
definition CURVE_A :: int where "CURVE_A = (FIELD_ORDER + 1) div 4"

definition findYforX :: "int \<Rightarrow> int \<times> int" where
  "findYforX x =
     (let beta = (mod_exp x CURVE_B FIELD_ORDER + CURVE_B) mod FIELD_ORDER
      in (beta, mod_exp beta CURVE_A FIELD_ORDER))"

definition isOnCurve :: "int \<Rightarrow> int \<Rightarrow> bool" where
  "isOnCurve x y \<longleftrightarrow> (mod_exp x 3 FIELD_ORDER + CURVE_B) mod FIELD_ORDER = mod_exp y 2 FIELD_ORDER"

text \<open>\<^verbatim>\<open>Unmarshal\<close> of the curve package makes a point from its two coordinates.  The search has no bound in the
  code; the model gives it fuel.\<close>

fun HashToPoint_loop :: "(bytes \<Rightarrow> 'p result) \<Rightarrow> nat \<Rightarrow> int \<Rightarrow> 'p result" where
  "HashToPoint_loop unmarshal 0 x = Inl Timeout"
| "HashToPoint_loop unmarshal (Suc fuel) x =
     (case findYforX x of (beta, y) \<Rightarrow>
        if beta = (y * y) mod FIELD_ORDER then
          (case unmarshal (ConvertBigIntToByte x @ ConvertBigIntToByte y) of
             Inr point \<Rightarrow> Inr point
           | Inl (Error m) \<Rightarrow> Inl (Panic m)
           | Inl f \<Rightarrow> Inl f)
        else HashToPoint_loop unmarshal fuel ((x + 1) mod FIELD_ORDER))"

definition HashToPoint :: "(bytes \<Rightarrow> 'p result) \<Rightarrow> nat \<Rightarrow> int \<Rightarrow> 'p result" where
  "HashToPoint unmarshal fuel seed = HashToPoint_loop unmarshal fuel (seed mod Order)"

section \<open>The generators\<close>

definition PROTOCOL_CRYPTOPGRAPHY_CONSTANT :: string where
  "PROTOCOL_CRYPTOPGRAPHY_CONSTANT = ''PANDORA''"

text \<open>The index is written in 64 hexadecimal digits and decoded: 32 bytes, most significant first.\<close>

definition generator_seed :: "(bytes \<Rightarrow> bytes) \<Rightarrow> string \<Rightarrow> nat \<Rightarrow> int" where
  "generator_seed keccak name i =
     HashtoNumber keccak (lit (PROTOCOL_CRYPTOPGRAPHY_CONSTANT @ name) @ ConvertBigIntToByte (int i))"

definition NewGeneratorParams ::
  "'p G1Ops \<Rightarrow> (bytes \<Rightarrow> bytes) \<Rightarrow> (int \<Rightarrow> 'p result) \<Rightarrow> nat \<Rightarrow> 'p GeneratorParams result" where
  "NewGeneratorParams P keccak hashToPoint num =
     rbind (hashToPoint (HashtoNumber keccak (lit (PROTOCOL_CRYPTOPGRAPHY_CONSTANT @ ''G'')))) (\<lambda>g.
     rbind (hashToPoint (HashtoNumber keccak (lit (PROTOCOL_CRYPTOPGRAPHY_CONSTANT @ ''H'')))) (\<lambda>h.
     rbind (rmap (\<lambda>i. hashToPoint (generator_seed keccak ''G'' i)) [0..<num]) (\<lambda>gs.
     rbind (rmap (\<lambda>i. hashToPoint (generator_seed keccak ''H'' i)) [0..<num]) (\<lambda>hs.
     Inr \<lparr>gp_G = g, gp_H = h, gp_GSUM = Some (foldl (g1_Add P) (g1_zero P) gs), gp_Gs = gs, gp_Hs = hs\<rparr>))))"

section \<open>The polynomials of the ring\<close>

function recursivepolynomials :: "nat \<Rightarrow> nat \<Rightarrow> int \<Rightarrow> (int \<times> int) list \<Rightarrow> int list result" where
  "recursivepolynomials baseline current accum f =
     (if current \<le> baseline then Inr [accum]
      else
        rbind (rnth f (current - 1)) (\<lambda>(f0, f1).
        rbind (recursivepolynomials baseline (current - 1) ((accum * f0) mod Order) f) (\<lambda>left.
        rbind (recursivepolynomials baseline (current - 1) ((accum * f1) mod Order) f) (\<lambda>right.
        Inr (left @ right)))))"
  by pat_completeness auto
termination by (relation "measure (\<lambda>(b, c, a, f). c)") auto

declare recursivepolynomials.simps [simp del]

definition assemblepolynomials :: "(int \<times> int) list \<Rightarrow> (int \<times> int) list result" where
  "assemblepolynomials f =
     (let m = length f div 2 in
      rbind (recursivepolynomials 0 m 1 f) (\<lambda>half0.
      rbind (recursivepolynomials m (2 * m) 1 f) (\<lambda>half1.
      Inr (zip half0 half1))))"

section \<open>The verifier\<close>

subsection \<open>The challenges\<close>

definition verify_v :: "'p G1Ops \<Rightarrow> (bytes \<Rightarrow> bytes) \<Rightarrow> 'p Proof \<Rightarrow> bytes \<Rightarrow> int" where
  "verify_v P keccak proof' txid =
     reducedhash keccak (ConvertBigIntToByte (reducedhash keccak txid) @
       g1_Marshal P (pf_BA proof') @ g1_Marshal P (pf_BS proof') @ g1_Marshal P (pf_A proof') @ g1_Marshal P (pf_B proof'))"

text \<open>\<^verbatim>\<open>anonsupport.f\<close>: for every bit the pair of its two factors.\<close>

definition anon_f :: "int \<Rightarrow> FieldVector \<Rightarrow> (int \<times> int) list" where
  "anon_f w f = map (\<lambda>k. ((w - f ! k) mod Order, f ! k)) [0..<2 * (length f div 2)]"

subsection \<open>The commitment to the bits\<close>

fun bits_commit :: "'p G1Ops \<Rightarrow> 'p GeneratorParams \<Rightarrow> nat \<Rightarrow> (int \<times> int) list \<Rightarrow> 'p \<Rightarrow> 'p result" where
  "bits_commit P gp k [] acc = Inr acc"
| "bits_commit P gp k ((f0, f1) # fs) acc =
     rbind (rnth (gp_Gs gp) k) (\<lambda>g. rbind (rnth (gp_Hs gp) k) (\<lambda>h.
     bits_commit P gp (Suc k) fs
       (g1_Add P (g1_Add P acc (g1_ScalarMult P g f1)) (g1_ScalarMult P h ((f1 * f0) mod Order)))))"

text \<open>Whether \<open>B\<^sup>w * A\<close> is recovered.\<close>

definition check_bits :: "'p G1Ops \<Rightarrow> 'p GeneratorParams \<Rightarrow> 'p Proof \<Rightarrow> int \<Rightarrow> (int \<times> int) list \<Rightarrow> bool result" where
  "check_bits P gp proof' w f =
     (let m = length f div 2 in
      rbind (bits_commit P gp 0 f (g1_zero P)) (\<lambda>temp.
      rbind (rnth f 0) (\<lambda>f0. rbind (rnth f m) (\<lambda>fm.
      rbind (rnth (gp_Hs gp) (2 * m)) (\<lambda>h0. rbind (rnth (gp_Hs gp) (1 + 2 * m)) (\<lambda>h1.
      (let t0 = g1_ScalarMult P h0 ((snd f0 * snd fm) mod Order);
           t1 = g1_ScalarMult P h1 ((fst f0 * fst fm) mod Order);
           temp = g1_Add P (g1_Add P temp t0) t1;
           stored = g1_Add P (g1_ScalarMult P (pf_B proof') w) (pf_A proof');
           computed = g1_Add P temp (g1_ScalarMult P (gp_H gp) (pf_z_A proof'))
       in Inr (g1_String P stored = g1_String P computed))))))))"

subsection \<open>The ring\<close>

record 'p AnonSupport =
  an_CLnR :: 'p
  an_CRnR :: 'p
  an_CR00 :: 'p
  an_yR00 :: 'p
  an_C_XR :: 'p
  an_y_XR :: 'p
  an_gR :: 'p
  an_DR :: 'p
  an_wPow :: int

fun ring_sum :: "'p G1Ops \<Rightarrow> 'p list \<Rightarrow> nat \<Rightarrow> (int \<times> int) list \<Rightarrow> 'p \<Rightarrow> 'p result" where
  "ring_sum P points i [] acc = Inr acc"
| "ring_sum P points i ((r0, _) # rs) acc =
     rbind (rnth points i) (\<lambda>p. ring_sum P points (Suc i) rs (g1_Add P acc (g1_ScalarMult P p r0)))"

text \<open>The sums of the convolutions with the powers of \<open>v\<close>; the power is raised after the second point.\<close>

fun power_sums :: "'p G1Ops \<Rightarrow> int \<Rightarrow> ('p \<times> 'p) list \<Rightarrow> ('p \<times> 'p) list \<Rightarrow> nat list \<Rightarrow> 'p \<times> 'p \<times> int \<Rightarrow> ('p \<times> 'p \<times> int) result" where
  "power_sums P v cr yr [] acc = Inr acc"
| "power_sums P v cr yr (i # js) (c_x, y_x, vPow) =
     rbind (rnth cr (i div 2)) (\<lambda>c. rbind (rnth yr (i div 2)) (\<lambda>y.
     power_sums P v cr yr js
       (g1_Add P c_x (g1_ScalarMult P (if even i then fst c else snd c) vPow),
        g1_Add P y_x (g1_ScalarMult P (if even i then fst y else snd y) vPow),
        if i > 0 then (vPow * v) mod Order else vPow)))"

definition ring_round :: "'p G1Ops \<Rightarrow> 'p Proof \<Rightarrow> int \<Rightarrow> nat \<Rightarrow> 'p AnonSupport \<Rightarrow> 'p AnonSupport result" where
  "ring_round P proof' w i a =
     (let neg = (- an_wPow a) mod Order; add = (\<lambda>p q. g1_Add P p (g1_ScalarMult P q neg)) in
      rbind (rnth (pf_CLnG proof') i) (\<lambda>cLnG. rbind (rnth (pf_CRnG proof') i) (\<lambda>cRnG.
      rbind (rnth (pf_C_0G proof') i) (\<lambda>c_0G. rbind (rnth (pf_DG proof') i) (\<lambda>dG.
      rbind (rnth (pf_y_0G proof') i) (\<lambda>y_0G. rbind (rnth (pf_gG proof') i) (\<lambda>gG.
      rbind (rnth (pf_C_XG proof') i) (\<lambda>c_XG. rbind (rnth (pf_y_XG proof') i) (\<lambda>y_XG.
      Inr \<lparr>an_CLnR = add (an_CLnR a) cLnG, an_CRnR = add (an_CRnR a) cRnG, an_CR00 = add (an_CR00 a) c_0G,
           an_yR00 = add (an_yR00 a) y_0G, an_C_XR = add (an_C_XR a) c_XG, an_y_XR = add (an_y_XR a) y_XG,
           an_gR = add (an_gR a) gG, an_DR = add (an_DR a) dG, an_wPow = (an_wPow a * w) mod Order\<rparr>)))))))))"

fun ring_rounds :: "'p G1Ops \<Rightarrow> 'p Proof \<Rightarrow> int \<Rightarrow> nat list \<Rightarrow> 'p AnonSupport \<Rightarrow> 'p AnonSupport result" where
  "ring_rounds P proof' w [] a = Inr a"
| "ring_rounds P proof' w (i # js) a = rbind (ring_round P proof' w i a) (ring_rounds P proof' w js)"

definition anon_support ::
  "'p G1Ops \<Rightarrow> 'p GeneratorParams \<Rightarrow> 'p Proof \<Rightarrow> 'p Statement \<Rightarrow> uint64 \<Rightarrow> int \<Rightarrow> int \<Rightarrow> (int \<times> int) list \<Rightarrow> 'p AnonSupport result" where
  "anon_support P gp proof' s open_value v w f =
     (let m = length f div 2 in
      rbind (assemblepolynomials f) (\<lambda>r.
      rbind (ring_sum P (st_CLn s) 0 r (g1_zero P)) (\<lambda>cLnR.
      rbind (ring_sum P (st_CRn s) 0 r (g1_zero P)) (\<lambda>cRnR.
      rbind (Convolution P (map fst r) (st_C s)) (\<lambda>c_p.
      rbind (Convolution P (map snd r) (st_C s)) (\<lambda>c_q.
      rbind (Convolution P (map fst r) (st_Publickeylist s)) (\<lambda>y_p.
      rbind (Convolution P (map snd r) (st_Publickeylist s)) (\<lambda>y_q.
      rbind (rmap (\<lambda>i. rbind (rnth c_q i) (\<lambda>q. Inr (c_p ! i, q))) [0..<length c_p]) (\<lambda>cr.
      rbind (rmap (\<lambda>i. rbind (rnth y_p i) (\<lambda>p. rbind (rnth y_q i) (\<lambda>q. Inr (p, q)))) [0..<length c_p]) (\<lambda>yr.
      rbind (power_sums P v cr yr [0..<2 ^ m] (g1_zero P, g1_zero P, 1)) (\<lambda>(c_XR, y_XR, _).
      rbind (rnth cr 0) (\<lambda>cr0. rbind (rnth yr 0) (\<lambda>yr0.
      rbind (ring_rounds P proof' w [0..<m] \<lparr>an_CLnR = cLnR, an_CRnR = cRnR, an_CR00 = fst cr0, an_yR00 = fst yr0,
               an_C_XR = c_XR, an_y_XR = y_XR, an_gR = g1_zero P, an_DR = g1_zero P, an_wPow = 1\<rparr>) (\<lambda>a.
      Inr (a\<lparr>an_DR := g1_Add P (an_DR a) (g1_ScalarMult P (st_D s) (an_wPow a)),
             an_gR := g1_Add P (an_gR a) (g1_ScalarMult P (gp_G gp) (an_wPow a)),
             an_C_XR := g1_Add P (an_C_XR a) (g1_ScalarMult P (gp_G gp) ((uint open_value * an_wPow a) mod Order))\<rparr>))))))))))))))) "

subsection \<open>The range proof\<close>

record ProtocolSupport =
  pr_ys :: "int list"
  pr_z :: int
  pr_z0 :: int
  pr_z1 :: int
  pr_t :: int
  pr_twoTimesZSquared :: "int list"

fun powers_from :: "nat \<Rightarrow> int \<Rightarrow> int \<Rightarrow> int list" where
  "powers_from 0 cur y = []"
| "powers_from (Suc n) cur y = cur # powers_from n ((cur * y) mod Order) y"

definition protocol_support :: "(bytes \<Rightarrow> bytes) \<Rightarrow> int \<Rightarrow> int \<Rightarrow> ProtocolSupport" where
  "protocol_support keccak w that =
     (let y = reducedhash keccak (ConvertBigIntToByte w);
          ys = powers_from 128 1 y;
          k = foldl (\<lambda>k e. (k + e) mod Order) 1 (tl ys);
          z = reducedhash keccak (ConvertBigIntToByte y);
          z0 = mod_exp z 2 Order; z1 = mod_exp z 3 Order;
          zSum = (((z0 + z1) mod Order) * z) mod Order;
          k = (k * ((z - z0) mod Order)) mod Order;
          zsum_pow = (((zSum * 2 ^ 64) mod Order) - zSum) mod Order;
          k = (k - zsum_pow) mod Order
      in \<lparr>pr_ys = ys, pr_z = z, pr_z0 = z0, pr_z1 = z1, pr_t = (that - k) mod Order,
          pr_twoTimesZSquared = map (\<lambda>i. (z0 * 2 ^ i) mod Order) [0..<64] @ map (\<lambda>i. (z1 * 2 ^ i) mod Order) [0..<64]\<rparr>)"

definition challenge_x :: "'p G1Ops \<Rightarrow> (bytes \<Rightarrow> bytes) \<Rightarrow> int \<Rightarrow> 'p Proof \<Rightarrow> int" where
  "challenge_x P keccak z proof' =
     reducedhash keccak (ConvertBigIntToByte z @ g1_Marshal P (pf_T_1 proof') @ g1_Marshal P (pf_T_2 proof'))"

definition t_eval :: "'p G1Ops \<Rightarrow> 'p Proof \<Rightarrow> int \<Rightarrow> 'p" where
  "t_eval P proof' x =
     g1_Add P (g1_ScalarMult P (pf_T_1 proof') x) (g1_ScalarMult P (pf_T_2 proof') ((x * x) mod Order))"

definition sigma_A_t :: "'p G1Ops \<Rightarrow> 'p GeneratorParams \<Rightarrow> 'p Proof \<Rightarrow> int \<Rightarrow> 'p \<Rightarrow> int \<Rightarrow> 'p" where
  "sigma_A_t P gp proof' t tEval wPow =
     (let a = g1_Add P (g1_ScalarMult P (gp_G gp) t) (g1_Neg P tEval);
          a = g1_ScalarMult P a ((pf_c proof' * wPow) mod Order);
          a = g1_Add P a (g1_ScalarMult P (gp_H gp) (pf_s_tau proof'))
      in g1_Add P a (g1_ScalarMult P (gp_G gp) ((- pf_s_b proof') mod Order)))"

subsection \<open>The sigma protocol\<close>

definition sigma_A_b :: "'p G1Ops \<Rightarrow> 'p GeneratorParams \<Rightarrow> 'p Proof \<Rightarrow> 'p AnonSupport \<Rightarrow> ProtocolSupport \<Rightarrow> uint64 \<Rightarrow> 'p" where
  "sigma_A_b P gp proof' a pr open_value =
     (let c_neg = (- pf_c proof') mod Order; z0_neg = (- pr_z0 pr) mod Order;
          left = g1_Add P (g1_ScalarMult P (an_DR a) z0_neg) (g1_ScalarMult P (an_CRnR a) (pr_z1 pr));
          left = g1_ScalarMult P left (pf_s_sk proof');
          mid = g1_Add P (g1_ScalarMult P (g1_G P) ((uint open_value * an_wPow a) mod Order)) (an_CR00 a);
          right = g1_Add P (g1_ScalarMult P mid z0_neg) (g1_ScalarMult P (an_CLnR a) (pr_z1 pr));
          right = g1_ScalarMult P right c_neg
      in g1_Add P (g1_ScalarMult P (gp_G gp) (pf_s_b proof')) (g1_Add P left right))"

definition nonce_seed :: "(bytes \<Rightarrow> bytes) \<Rightarrow> bytes \<Rightarrow> bytes \<Rightarrow> nat \<Rightarrow> int" where
  "nonce_seed keccak chainHash assetId assetIndex =
     HashtoNumber keccak (lit PROTOCOL_CRYPTOPGRAPHY_CONSTANT @ chainHash @ assetId @ format_dec assetIndex)"

definition sigma_challenge ::
  "'p G1Ops \<Rightarrow> (bytes \<Rightarrow> bytes) \<Rightarrow> 'p GeneratorParams \<Rightarrow> 'p Proof \<Rightarrow> 'p Statement \<Rightarrow> 'p AnonSupport \<Rightarrow> ProtocolSupport \<Rightarrow>
   uint64 \<Rightarrow> int \<Rightarrow> 'p \<Rightarrow> int" where
  "sigma_challenge P keccak gp proof' s a pr open_value x point =
     (let c_neg = (- pf_c proof') mod Order;
          a_y = g1_Add P (g1_ScalarMult P (an_gR a) (pf_s_sk proof')) (g1_ScalarMult P (an_yR00 a) c_neg);
          a_D = g1_Add P (g1_ScalarMult P (gp_G gp) (pf_s_r proof')) (g1_ScalarMult P (st_D s) c_neg);
          a_b = sigma_A_b P gp proof' a pr open_value;
          a_X = g1_Add P (g1_ScalarMult P (an_y_XR a) (pf_s_r proof')) (g1_ScalarMult P (an_C_XR a) c_neg);
          a_t = sigma_A_t P gp proof' (pr_t pr) (t_eval P proof' x) (an_wPow a);
          a_u = g1_Add P (g1_ScalarMult P point (pf_s_sk proof')) (g1_ScalarMult P (pf_u proof') c_neg)
      in reducedhash keccak (ConvertBigIntToByte x @ concat (map (g1_Marshal P) [a_y, a_D, a_b, a_X, a_t, a_u])))"

subsection \<open>The inner product\<close>

fun h_primes :: "'p G1Ops \<Rightarrow> 'p GeneratorParams \<Rightarrow> ProtocolSupport \<Rightarrow> nat list \<Rightarrow> ('p list \<times> 'p) \<Rightarrow> ('p list \<times> 'p) result" where
  "h_primes P gp pr [] acc = Inr acc"
| "h_primes P gp pr (i # js) (hs, open_value) =
     rbind (rnth (gp_Hs gp) i) (\<lambda>h. rbind (rnth (pr_ys pr) i) (\<lambda>y.
     rbind (rderef (ModInverse y Order)) (\<lambda>y_inv.
     rbind (rnth (pr_twoTimesZSquared pr) i) (\<lambda>two.
     (let h' = g1_ScalarMult P h y_inv;
          tmp = (((y * pr_z pr) mod Order) + two) mod Order
      in h_primes P gp pr js (hs @ [h'], g1_Add P open_value (g1_ScalarMult P h' tmp)))))))"

definition inner_point :: "'p G1Ops \<Rightarrow> 'p GeneratorParams \<Rightarrow> 'p Proof \<Rightarrow> ProtocolSupport \<Rightarrow> int \<Rightarrow> 'p \<Rightarrow> 'p \<Rightarrow> 'p result" where
  "inner_point P gp proof' pr x u_x hPrimeSum =
     rbind (rderef (gp_GSUM gp)) (\<lambda>gsum.
     (let p = g1_Add P (pf_BA proof') (g1_ScalarMult P (pf_BS proof') x);
          p = g1_Add P p (g1_ScalarMult P gsum ((- pr_z pr) mod Order));
          p = g1_Add P p hPrimeSum;
          p = g1_Add P p (g1_ScalarMult P (gp_H gp) ((- pf_mu proof') mod Order))
      in Inr (g1_Add P p (g1_ScalarMult P u_x (pf_that proof' mod Order)))))"

subsection \<open>Verify\<close>

definition Proof_Verify ::
  "'p G1Ops \<Rightarrow> (bytes \<Rightarrow> bytes) \<Rightarrow> (int \<Rightarrow> 'p result) \<Rightarrow> 'p GeneratorParams \<Rightarrow> 'p Proof \<Rightarrow> bytes \<Rightarrow> nat \<Rightarrow> bytes \<Rightarrow>
   'p Statement \<Rightarrow> bytes \<Rightarrow> uint64 \<Rightarrow> bool result" where
  "Proof_Verify P keccak hashToPoint gp proof' assetId assetIndex chainHash s txid extra_value =
     (let total_open_value = st_Fee s + extra_value in
      if length (st_C s) \<noteq> length (st_Publickeylist s) then Inr False
      else if total_open_value < st_Fee s \<or> total_open_value < extra_value then Inr False
      else
        (let v = verify_v P keccak proof' txid;
             w = hashmash1 P keccak proof' v;
             m = length (pf_f proof') div 2;
             f = anon_f w (pf_f proof')
         in
         rbind (rnth (pf_f proof') 0) (\<lambda>f0. rbind (rnth (pf_f proof') m) (\<lambda>fm.
         if w \<noteq> f0 \<and> w \<noteq> fm then Inr False
         else
           rbind (check_bits P gp proof' w f) (\<lambda>ok.
           if \<not> ok then Inr False
           else
             rbind (anon_support P gp proof' s total_open_value v w f) (\<lambda>a.
             (let pr = protocol_support keccak w (pf_that proof'); x = challenge_x P keccak (pr_z pr) proof' in
              rbind (hashToPoint (nonce_seed keccak chainHash assetId assetIndex)) (\<lambda>point.
              if sigma_challenge P keccak gp proof' s a pr total_open_value x point \<noteq> pf_c proof' then Inr False
              else
                (let o' = reducedhash keccak (ConvertBigIntToByte (pf_c proof')); u_x = g1_ScalarMult P (gp_H gp) o' in
                 rbind (h_primes P gp pr [0..<128] ([], g1_zero P)) (\<lambda>(hPrimes, hPrimeSum).
                 rbind (inner_point P gp proof' pr x u_x hPrimeSum) (\<lambda>q.
                 InnerProduct_Verify P keccak (pf_ip proof') hPrimes u_x q o' gp)))))))))))"

text \<open>\<^verbatim>\<open>GetA_t\<close> recomputes one of the points alone.\<close>

definition GetA_t :: "'p G1Ops \<Rightarrow> (bytes \<Rightarrow> bytes) \<Rightarrow> 'p GeneratorParams \<Rightarrow> 'p Proof \<Rightarrow> bytes \<Rightarrow> bytes" where
  "GetA_t P keccak gp proof' txid =
     (let v = verify_v P keccak proof' txid;
          w = hashmash1 P keccak proof' v;
          pr = protocol_support keccak w (pf_that proof');
          x = challenge_x P keccak (pr_z pr) proof';
          wPow = ((\<lambda>p. (p * w) mod Order) ^^ (length (pf_f proof') div 2)) 1
      in g1_Marshal P (sigma_A_t P gp proof' (pr_t pr) (t_eval P proof' x) wPow))"

end
