(* ===== verification/Transactions.thy ===== *)
theory Transactions
  imports Tx_Payload Proof_Verify Data_Storage_Blocks
begin

text \<open>
  Private transactions (\<^verbatim>\<open>transaction_zether\<close>), the transaction that wraps either kind (\<^verbatim>\<open>transaction.go\<close>,
  \<^verbatim>\<open>transaction_bloom.go\<close>) and the worker that verifies received transactions (\<^verbatim>\<open>txs_validator\<close>).
\<close>

text \<open>What the code takes from elsewhere: the curve, the store, the hash functions, the points and generators made
  of them, the network, the kernel hash of the genesis block and the order in which maps are visited.\<close>

record ('p, 'x) tx_env =
  te_P :: "'p G1Ops"
  te_X :: "'x StoreTx"
  te_keccak :: "bytes \<Rightarrow> bytes"
  te_sha3 :: "bytes \<Rightarrow> bytes"
  te_ripemd :: "bytes \<Rightarrow> bytes"
  te_hashToPoint :: "int \<Rightarrow> 'p result"
  te_gparams :: "'p GeneratorParams"
  te_new_devnet :: bool
  te_genesisPrevKernelHash :: bytes
  te_visit :: "bytes \<Rightarrow> bytes list"

section \<open>Private transactions\<close>

record TransactionZetherBloom =
  zb_Nonces :: "bytes list"
  zb_PublicKeyLists :: "bytes list list"
  zb_parityVerified :: bool
  zb_bloomed :: bool

record 'p TransactionZether =
  tz_ChainHeight :: uint64
  tz_ChainKernelHash :: bytes
  tz_Payloads :: "'p TransactionZetherPayload list"
  tz_Bloom :: "TransactionZetherBloom option"

definition Zether_Include ::
  "('p, 'x) tx_env \<Rightarrow> uint64 \<Rightarrow> bytes \<Rightarrow> 'p TransactionZether \<Rightarrow> ('p, 'x, unit) ds_go" where
  "Zether_Include E blockHeight txHash tx =
     gbind (gcheck (tz_ChainHeight tx > blockHeight) ''Zether ChainHeight is invalid'') (\<lambda>_.
     gbind (if blockHeight > 0
            then gbind (on_db (tx_Get (te_X E) (lit ''blockKernelHash_ByHeight'' @ FormatUint (tz_ChainHeight tx)))) (\<lambda>v.
                 gret (case v of None \<Rightarrow> [] | Some h \<Rightarrow> h))
            else gret (te_genesisPrevKernelHash E)) (\<lambda>chainKernelHash.
     gbind (gcheck (chainKernelHash \<noteq> tz_ChainKernelHash tx) ''Zether ChainKernelHash is invalid'') (\<lambda>_.
     gfor (enumerate 0 (tz_Payloads tx)) (\<lambda>(i, payload).
       deref (tz_Bloom tx) (\<lambda>bloom.
       gbind (glift (rnth (zb_PublicKeyLists bloom) i)) (\<lambda>publicKeyList.
       IncludePayload (te_P E) (te_X E) (te_sha3 E) (te_ripemd E) (te_new_devnet E) payload txHash (of_nat i)
         publicKeyList blockHeight))))))"

fun zether_fee :: "uint64 \<Rightarrow> 'p TransactionZetherPayload list \<Rightarrow> uint64 result" where
  "zether_fee acc [] = Inr acc"
| "zether_fee acc (payload # ps) =
     rbind (if pl_Asset payload = NATIVE_ASSET_FULL then Inr (st_Fee (pl_Statement payload))
            else convert_fee (st_Fee (pl_Statement payload)) (pl_FeeRate payload) (pl_FeeLeadingZeros payload)) (\<lambda>fee.
     (case SafeUint64Add fee acc of (Inl e, _) \<Rightarrow> Inl e | (Inr _, acc) \<Rightarrow> zether_fee acc ps))"

definition Zether_ComputeFee :: "'p TransactionZether \<Rightarrow> uint64 result" where
  "Zether_ComputeFee tx = zether_fee 0 (tz_Payloads tx)"

fun zether_keys :: "bytes list list \<Rightarrow> nat \<Rightarrow> 'p TransactionZetherPayload list \<Rightarrow> bytes set \<Rightarrow> bytes set result" where
  "zether_keys keyLists i [] out = Inr out"
| "zether_keys keyLists i (payload # ps) out =
     rbind (rnth keyLists i) (\<lambda>l. zether_keys keyLists (Suc i) ps (Payload_ComputeAllKeys payload out l))"

definition Zether_ComputeAllKeys :: "'p TransactionZether \<Rightarrow> bytes set \<Rightarrow> bytes set result" where
  "Zether_ComputeAllKeys tx out =
     (if tz_Payloads tx = [] then Inr out
      else rbind (rderef (tz_Bloom tx)) (\<lambda>bloom. zether_keys (zb_PublicKeyLists bloom) 0 (tz_Payloads tx) out))"

definition Zether_Validate :: "'p G1Ops \<Rightarrow> 'p TransactionZether \<Rightarrow> unit result" where
  "Zether_Validate P tx =
     (if length (tz_Payloads tx) = 0 then Inl (Error ''You need at least one payload'')
      else rbind (rmap (Payload_Validate P) (tz_Payloads tx)) (\<lambda>_. Inr ()))"

text \<open>The proofs in turn; \<open>seen\<close> lists the assets of the payloads before, \<^verbatim>\<open>assetMap\<close> of the code counts them.\<close>

fun verify_proofs ::
  "('p, 'x) tx_env \<Rightarrow> bytes \<Rightarrow> bytes \<Rightarrow> bytes list \<Rightarrow> 'p TransactionZetherPayload list \<Rightarrow> bool result" where
  "verify_proofs E chainKernelHash h seen [] = Inr True"
| "verify_proofs E chainKernelHash h seen (payload # ps) =
     rbind (Proof_Verify (te_P E) (te_keccak E) (te_hashToPoint E) (te_gparams E) (pl_Proof payload) (pl_Asset payload)
              (count_list seen (pl_Asset payload)) chainKernelHash (pl_Statement payload) h (pl_BurnValue payload)) (\<lambda>ok.
     if \<not> ok then Inr False else verify_proofs E chainKernelHash h (pl_Asset payload # seen) ps)"

definition Zether_VerifySignatureManually :: "('p, 'x) tx_env \<Rightarrow> 'p TransactionZether \<Rightarrow> bytes \<Rightarrow> bool result" where
  "Zether_VerifySignatureManually E tx txHash = verify_proofs E (tz_ChainKernelHash tx) txHash [] (tz_Payloads tx)"

definition Zether_SerializeAdvanced :: "'p G1Ops \<Rightarrow> 'p TransactionZether \<Rightarrow> bool \<Rightarrow> (BufferWriter \<Rightarrow> BufferWriter) result" where
  "Zether_SerializeAdvanced P tx inclSignature =
     rbind (rmap (\<lambda>p. Payload_Serialize P p inclSignature) (tz_Payloads tx)) (\<lambda>payloads.
     Inr (ser_seq
       [WriteUvarint (tz_ChainHeight tx),
        Write (tz_ChainKernelHash tx),
        WriteByte (of_nat (length (tz_Payloads tx))),
        ser_seq payloads]))"

definition Zether_Deserialize :: "'p G1Ops \<Rightarrow> (BufferReader, 'p TransactionZether) go" where
  "Zether_Deserialize P =
     gbind ReadUvarint (\<lambda>height.
     gbind (ReadBytes (int HashSize)) (\<lambda>kernelHash.
     gbind ReadByte (\<lambda>n.
     gbind (grepeat (unat n) (Payload_Deserialize P)) (\<lambda>payloads.
     gret \<lparr>tz_ChainHeight = height, tz_ChainKernelHash = kernelHash, tz_Payloads = payloads, tz_Bloom = None\<rparr>))))"

subsection \<open>Blooming\<close>

definition bloom_mod :: "(TransactionZetherBloom \<Rightarrow> TransactionZetherBloom) \<Rightarrow> ('p TransactionZether, unit) go" where
  "bloom_mod f = gmod (\<lambda>tx. tx\<lparr>tz_Bloom := map_option f (tz_Bloom tx)\<rparr>)"

definition bloom_payload ::
  "'p G1Ops \<Rightarrow> (bytes \<Rightarrow> bytes) \<Rightarrow> (bytes \<Rightarrow> bytes) \<Rightarrow> nat \<times> 'p TransactionZetherPayload \<Rightarrow> ('p TransactionZether, unit) go" where
  "bloom_payload P keccak sha3 = (\<lambda>(t, payload).
     (let points = st_Publickeylist (pl_Statement payload) in
      gbind (bloom_mod (\<lambda>b. b\<lparr>zb_PublicKeyLists := (zb_PublicKeyLists b)[t := replicate (length points) []]\<rparr>)) (\<lambda>_.
      gbind (gfor (enumerate 0 points) (\<lambda>(i, p).
        (let publicKey = g1_EncodeCompressed P p in
         gbind (gcheck (publicKey = BURN_PUBLIC_KEY) ''Ring member can not be BURN address'') (\<lambda>_.
         bloom_mod (\<lambda>b. b\<lparr>zb_PublicKeyLists := (zb_PublicKeyLists b)[t := (zb_PublicKeyLists b ! t)[i := publicKey]]\<rparr>))))) (\<lambda>_.
      gbind (glift (ValidateRegistrations P keccak (pl_Registrations payload) points)) (\<lambda>_.
      bloom_mod (\<lambda>b. b\<lparr>zb_Nonces := (zb_Nonces b)[t := Proof_Nonce P sha3 (pl_Proof payload)]\<rparr>))))))"

definition bloomLists :: "'p G1Ops \<Rightarrow> (bytes \<Rightarrow> bytes) \<Rightarrow> (bytes \<Rightarrow> bytes) \<Rightarrow> ('p TransactionZether, unit) go" where
  "bloomLists P keccak sha3 =
     gbind (gget tz_Payloads) (\<lambda>payloads.
     gbind (bloom_mod (\<lambda>b. b\<lparr>zb_Nonces := replicate (length payloads) [], zb_PublicKeyLists := replicate (length payloads) []\<rparr>)) (\<lambda>_.
     gfor (enumerate 0 payloads) (bloom_payload P keccak sha3)))"

definition Zether_BloomNow :: "'p G1Ops \<Rightarrow> (bytes \<Rightarrow> bytes) \<Rightarrow> (bytes \<Rightarrow> bytes) \<Rightarrow> ('p TransactionZether, unit) go" where
  "Zether_BloomNow P keccak sha3 =
     gbind (gget id) (\<lambda>tx.
     if tz_Bloom tx \<noteq> None then gret ()
     else
       gbind (gmod (\<lambda>tx. tx\<lparr>tz_Bloom := Some \<lparr>zb_Nonces = [], zb_PublicKeyLists = [], zb_parityVerified = False, zb_bloomed = False\<rparr>\<rparr>)) (\<lambda>_.
       gbind (bloomLists P keccak sha3) (\<lambda>_.
       gbind (gfor (tz_Payloads tx) (\<lambda>payload.
         gbind (glift (Proof_Parity (pl_Proof payload))) (\<lambda>parity.
         gcheck (parity \<noteq> pl_Parity payload) ''Parity check failed''))) (\<lambda>_.
       bloom_mod (\<lambda>b. b\<lparr>zb_parityVerified := True, zb_bloomed := True\<rparr>)))))"

definition Zether_VerifyBloomAll :: "'p TransactionZether \<Rightarrow> unit result" where
  "Zether_VerifyBloomAll tx =
     (case tz_Bloom tx of
        None \<Rightarrow> Inl (Error ''Tx was not bloomed'')
      | Some b \<Rightarrow>
          if \<not> zb_bloomed b then Inl (Error ''TransactionZetherBloom was not bloomed'')
          else if \<not> zb_parityVerified b then Inl (Error ''TransactionZetherBloom did not check the parity'')
          else Inr ())"

section \<open>Transactions\<close>

datatype 'p TransactionBase = TxSimple TransactionSimple | TxZether "'p TransactionZether"

definition TX_SIMPLE :: uint64 where "TX_SIMPLE = 0"
definition TX_ZETHER :: uint64 where "TX_ZETHER = 1"
definition TX_END :: uint64 where "TX_END = 2"

record TransactionBloom =
  tb_Serialized :: bytes
  tb_Size :: uint64
  tb_Hash :: bytes
  tb_HashStr :: bytes
  tb_bloomed :: bool

record 'p Transaction =
  tx_Base :: "'p TransactionBase"
  tx_Version :: uint64
  tx_SpaceExtra :: uint64
  tx_Bloom :: "TransactionBloom option"

fun Base_Include :: "('p, 'x) tx_env \<Rightarrow> uint64 \<Rightarrow> bytes \<Rightarrow> 'p TransactionBase \<Rightarrow> ('p, 'x, unit) ds_go" where
  "Base_Include E blockHeight txHash (TxSimple tx) = TransactionSimple_Include (te_P E) (te_X E) blockHeight tx"
| "Base_Include E blockHeight txHash (TxZether tx) = Zether_Include E blockHeight txHash tx"

definition IncludeTransaction :: "('p, 'x) tx_env \<Rightarrow> uint64 \<Rightarrow> 'p Transaction \<Rightarrow> ('p, 'x, unit) ds_go" where
  "IncludeTransaction E blockHeight tx =
     gbind DataStorage_ResetChangesSize (\<lambda>_.
     deref (tx_Bloom tx) (\<lambda>bloom.
     gbind (Base_Include E blockHeight (tb_Hash bloom) (tx_Base tx)) (\<lambda>_.
     gbind (DataStorage_ComputeChangesSize (te_P E) (te_X E) (te_visit E)) (\<lambda>changesSize.
     gcheck (changesSize > tx_SpaceExtra tx) ''Real.Changes Size is greater than Tx.SpaceExtra''))))"

fun GetAllFee :: "'p TransactionBase \<Rightarrow> uint64 result" where
  "GetAllFee (TxSimple tx) = TransactionSimple_ComputeFee tx"
| "GetAllFee (TxZether tx) = Zether_ComputeFee tx"

fun GetAllKeys :: "'p TransactionBase \<Rightarrow> bytes set result" where
  "GetAllKeys (TxSimple tx) = TransactionSimple_ComputeAllKeys tx {}"
| "GetAllKeys (TxZether tx) = Zether_ComputeAllKeys tx {}"

fun Base_SerializeAdvanced :: "'p G1Ops \<Rightarrow> 'p TransactionBase \<Rightarrow> bool \<Rightarrow> (BufferWriter \<Rightarrow> BufferWriter) result" where
  "Base_SerializeAdvanced P (TxSimple tx) inclSignature = TransactionSimple_SerializeAdvanced tx inclSignature"
| "Base_SerializeAdvanced P (TxZether tx) inclSignature = Zether_SerializeAdvanced P tx inclSignature"

definition Transaction_SerializeAdvanced :: "'p G1Ops \<Rightarrow> 'p Transaction \<Rightarrow> bool \<Rightarrow> (BufferWriter \<Rightarrow> BufferWriter) result" where
  "Transaction_SerializeAdvanced P tx inclSignature =
     rbind (Base_SerializeAdvanced P (tx_Base tx) inclSignature) (\<lambda>base.
     Inr (ser_seq [WriteUvarint (tx_Version tx), WriteUvarint (tx_SpaceExtra tx), base]))"

definition SerializeForSigning :: "'p G1Ops \<Rightarrow> (bytes \<Rightarrow> bytes) \<Rightarrow> 'p Transaction \<Rightarrow> bytes result" where
  "SerializeForSigning P sha3 tx =
     rbind (Transaction_SerializeAdvanced P tx False) (\<lambda>ser. Inr (sha3 (SerializeToBytes ser)))"

definition SerializeManualToBytes :: "'p G1Ops \<Rightarrow> 'p Transaction \<Rightarrow> bytes result" where
  "SerializeManualToBytes P tx = rbind (Transaction_SerializeAdvanced P tx True) (\<lambda>ser. Inr (SerializeToBytes ser))"

definition HashManual :: "'p G1Ops \<Rightarrow> (bytes \<Rightarrow> bytes) \<Rightarrow> 'p Transaction \<Rightarrow> bytes result" where
  "HashManual P sha3 tx = rbind (SerializeManualToBytes P tx) (\<lambda>bs. Inr (sha3 bs))"

text \<open>\<^verbatim>\<open>Serialize\<close> writes the bytes cached by the bloom.\<close>

definition Transaction_Serialize :: "'p Transaction \<Rightarrow> (BufferWriter \<Rightarrow> BufferWriter) result" where
  "Transaction_Serialize tx = rbind (rderef (tx_Bloom tx)) (\<lambda>b. Inr (Write (tb_Serialized b)))"

fun Base_VerifySignatureManually :: "('p, 'x) tx_env \<Rightarrow> 'p TransactionBase \<Rightarrow> bytes \<Rightarrow> bool result" where
  "Base_VerifySignatureManually E (TxSimple tx) h = TransactionSimple_VerifySignatureManually (te_P E) (te_sha3 E) (te_keccak E) tx h"
| "Base_VerifySignatureManually E (TxZether tx) h = Zether_VerifySignatureManually E tx h"

definition Transaction_VerifySignatureManually :: "('p, 'x) tx_env \<Rightarrow> 'p Transaction \<Rightarrow> bool result" where
  "Transaction_VerifySignatureManually E tx =
     rbind (SerializeForSigning (te_P E) (te_sha3 E) tx) (Base_VerifySignatureManually E (tx_Base tx))"

definition Transaction_validate :: "'p G1Ops \<Rightarrow> 'p Transaction \<Rightarrow> unit result" where
  "Transaction_validate P tx =
     (if tx_Version tx \<ge> TX_END then Inl (Error ''VersionType is invalid'')
      else (case tx_Base tx of TxSimple t \<Rightarrow> TransactionSimple_Validate t | TxZether t \<Rightarrow> Zether_Validate P t))"

definition Transaction_Deserialize :: "'p G1Ops \<Rightarrow> (bytes \<Rightarrow> bytes) \<Rightarrow> (BufferReader, 'p Transaction) go" where
  "Transaction_Deserialize P sha3 =
     gbind (with_bytes
       (gbind ReadUvarint (\<lambda>n.
        gbind (gcheck (n \<noteq> TX_SIMPLE \<and> n \<noteq> TX_ZETHER) ''Invalid TxType'') (\<lambda>_.
        gbind ReadUvarint (\<lambda>spaceExtra.
        gbind (if n = TX_SIMPLE then gbind TransactionSimple_Deserialize (\<lambda>t. gret (TxSimple t))
               else gbind (Zether_Deserialize P) (\<lambda>t. gret (TxZether t))) (\<lambda>base.
        gret (n, spaceExtra, base))))))) (\<lambda>((n, spaceExtra, base), serialized).
     gret \<lparr>tx_Base = base, tx_Version = n, tx_SpaceExtra = spaceExtra,
           tx_Bloom = Some \<lparr>tb_Serialized = serialized, tb_Size = of_nat (length serialized), tb_Hash = sha3 serialized,
             tb_HashStr = sha3 serialized, tb_bloomed = True\<rparr>\<rparr>)"

subsection \<open>Blooming\<close>

definition bloomExtraNow :: "('p, 'x) tx_env \<Rightarrow> ('p Transaction, unit) go" where
  "bloomExtraNow E = (\<lambda>tx.
     case tx_Base tx of
       TxSimple t \<Rightarrow> (Inr (), tx\<lparr>tx_Base := TxSimple (TransactionSimple_BloomNow t)\<rparr>)
     | TxZether t \<Rightarrow>
         (case Zether_BloomNow (te_P E) (te_keccak E) (te_sha3 E) t of (r, t) \<Rightarrow> (r, tx\<lparr>tx_Base := TxZether t\<rparr>)))"

definition BloomAll :: "('p, 'x) tx_env \<Rightarrow> ('p Transaction, unit) go" where
  "BloomAll E =
     gbind (gget id) (\<lambda>tx.
     if tx_Bloom tx \<noteq> None then bloomExtraNow E
     else
       gbind (glift (Transaction_validate (te_P E) tx)) (\<lambda>_.
       gbind (glift (SerializeManualToBytes (te_P E) tx)) (\<lambda>bs.
       gbind (gmod (\<lambda>tx. tx\<lparr>tx_Bloom := Some \<lparr>tb_Serialized = bs, tb_Size = of_nat (length bs), tb_Hash = te_sha3 E bs,
                tb_HashStr = te_sha3 E bs, tb_bloomed = True\<rparr>\<rparr>)) (\<lambda>_.
       bloomExtraNow E))))"

definition VerifyBloomAll :: "'p Transaction \<Rightarrow> unit result" where
  "VerifyBloomAll tx =
     (case tx_Bloom tx of
        None \<Rightarrow> Inl (Error ''Tx was not bloomed'')
      | Some b \<Rightarrow>
          if \<not> tb_bloomed b then Inl (Error ''Tx is not bloomed'')
          else (case tx_Base tx of TxSimple t \<Rightarrow> TransactionSimple_VerifyBloomAll t | TxZether t \<Rightarrow> Zether_VerifyBloomAll t))"

section \<open>The validator\<close>

definition verify_extras :: "('p, 'x) tx_env \<Rightarrow> bytes \<Rightarrow> 'p TransactionZetherPayload list \<Rightarrow> unit result" where
  "verify_extras E h payloads =
     rbind (rmap (\<lambda>payload.
       if pl_PayloadScript payload = SCRIPT_ASSET_SUPPLY_INCREASE \<or> pl_PayloadScript payload = SCRIPT_SPEND then
         rbind (rderef (pl_Extra payload)) (\<lambda>e.
         rbind (VerifyExtraSignature (te_P E) (te_keccak E) e h) (\<lambda>ok.
         if \<not> ok then Inl (Error ''Extra signature failed'') else Inr ()))
       else Inr ()) payloads) (\<lambda>_. Inr ())"

definition verifyTx :: "('p, 'x) tx_env \<Rightarrow> 'p Transaction \<Rightarrow> unit result" where
  "verifyTx E tx =
     rbind (VerifyBloomAll tx) (\<lambda>_.
     if tx_Version tx = TX_SIMPLE then
       rbind (Transaction_VerifySignatureManually E tx) (\<lambda>ok.
       if \<not> ok then Inl (Error ''Signature Verification failed'') else Inr ())
     else if tx_Version tx = TX_ZETHER then
       rbind (SerializeForSigning (te_P E) (te_sha3 E) tx) (\<lambda>h.
       (case tx_Base tx of
          TxSimple _ \<Rightarrow> Inl (Panic ''interface conversion'')
        | TxZether t \<Rightarrow>
            rbind (verify_proofs E (tz_ChainKernelHash t) h [] (tz_Payloads t)) (\<lambda>ok.
            if \<not> ok then Inl (Error ''Proof payload failed'') else verify_extras E h (tz_Payloads t))))
     else Inl (Error ''Invalid Tx Version''))"

text \<open>What a worker does with a transaction it is given: bloom it, then verify it.\<close>

definition worker_validate :: "('p, 'x) tx_env \<Rightarrow> ('p Transaction, unit) go" where
  "worker_validate E = gbind (BloomAll E) (\<lambda>_. gbind (gget id) (\<lambda>tx. glift (verifyTx E tx)))"

end
