(* ===== verification/Tx_Codec.thy ===== *)
theory Tx_Codec
  imports Transactions
begin

text \<open>
  The wire format of transactions: a transaction whose parts fit their fields is read back from the bytes it
  is written to, whatever its kind, its payloads, their scripts and extras.
\<close>

section \<open>The extras\<close>

fun Extra_wire :: "'p G1Ops \<Rightarrow> uint64 \<Rightarrow> 'p PayloadExtra option \<Rightarrow> bool" where
  "Extra_wire P script None \<longleftrightarrow> script = SCRIPT_TRANSFER"
| "Extra_wire P script (Some ExtraStaking) \<longleftrightarrow> script = SCRIPT_STAKING"
| "Extra_wire P script (Some (ExtraStakingReward e)) \<longleftrightarrow> script = SCRIPT_STAKING_REWARD"
| "Extra_wire P script (Some (ExtraSpend e)) \<longleftrightarrow> script = SCRIPT_SPEND \<and> length (xp_SenderSpendSignature e) = SignatureSize \<and>
     xp_SenderSpendPublicKey e \<noteq> g1_zero P"
| "Extra_wire P script (Some (ExtraAssetCreate a)) \<longleftrightarrow>
     script = SCRIPT_ASSET_CREATE \<and> Asset_wire (replicate PublicKeyHashSize 0) a \<and> as_Index a = 0"
| "Extra_wire P script (Some (ExtraAssetSupplyIncrease e)) \<longleftrightarrow> script = SCRIPT_ASSET_SUPPLY_INCREASE \<and>
     length (xs_AssetId e) = ASSET_LENGTH \<and> length (xs_ReceiverPublicKey e) = PublicKeySize \<and>
     length (xs_AssetSupplyPublicKey e) = PublicKeySize \<and> length (xs_AssetSignature e) = SignatureSize"
| "Extra_wire P script (Some (ExtraPlainAccountFund k)) \<longleftrightarrow> script = SCRIPT_PLAIN_ACCOUNT_FUND \<and> length k = PublicKeySize"
| "Extra_wire P script (Some (ExtraConditionalPayment e)) \<longleftrightarrow> script = SCRIPT_CONDITIONAL_PAYMENT \<and>
     length (xc_MultisigPublicKeys e) < 256 \<and> (\<forall>k \<in> set (xc_MultisigPublicKeys e). length k = PublicKeySize)"

fun Extra_enc :: "'p G1Ops \<Rightarrow> 'p PayloadExtra option \<Rightarrow> bytes" where
  "Extra_enc P None = []"
| "Extra_enc P (Some ExtraStaking) = []"
| "Extra_enc P (Some (ExtraStakingReward e)) =
     PutUvarint (xw_Reward e) @ PutUvarint (xw_TemporaryAccountRegistrationIndex e) @ []"
| "Extra_enc P (Some (ExtraSpend e)) = g1_EncodeCompressed P (xp_SenderSpendPublicKey e) @ xp_SenderSpendSignature e @ []"
| "Extra_enc P (Some (ExtraAssetCreate a)) = Asset_enc a @ []"
| "Extra_enc P (Some (ExtraAssetSupplyIncrease e)) = xs_AssetId e @ xs_ReceiverPublicKey e @ PutUvarint (xs_Value e) @
     xs_AssetSupplyPublicKey e @ xs_AssetSignature e @ []"
| "Extra_enc P (Some (ExtraPlainAccountFund k)) = k @ []"
| "Extra_enc P (Some (ExtraConditionalPayment e)) = PutUvarint (xc_Deadline e) @ [if xc_DefaultResolution e then 1 else 0] @
     [xc_MultisigThreshold e] @ [of_nat (length (xc_MultisigPublicKeys e))] @ concat (map (\<lambda>k. k) (xc_MultisigPublicKeys e)) @ []"

lemma writes_append_Nil: "writes f bs \<Longrightarrow> writes f (bs @ [])"
  by simp

lemma writes_Extra:
  "writes (case extra of None \<Rightarrow> (\<lambda>w. w) | Some e \<Rightarrow> Extra_Serialize P e True) (Extra_enc P extra)"
proof (cases extra)
  case (Some e)
  then show ?thesis
    by (cases e; simp only: option.case extra_serialize Extra_enc.simps when_write_def if_True)
      (intro codec writes_fold writes_append_Nil[OF writes_Asset] writes_append_Nil[OF writes_Write])+
qed (simp add: writes_id)

lemma reads_replace_error: "reads m bs x \<Longrightarrow> reads (replace_error msg m) bs x"
  by (simp add: reads_def replace_error_def)

lemma reads_StakingReward:
  "reads StakingReward_Deserialize (PutUvarint (xw_Reward e) @ PutUvarint (xw_TemporaryAccountRegistrationIndex e) @ []) e"
  unfolding StakingReward_Deserialize_def by (intro reads_bind[OF reads_ReadUvarint] reads_gret_eq) simp

lemma reads_Spend:
  assumes "g1_codec P" "length (xp_SenderSpendSignature e) = SignatureSize" "xp_SenderSpendPublicKey e \<noteq> g1_zero P"
  shows "reads (Spend_Deserialize P) (g1_EncodeCompressed P (xp_SenderSpendPublicKey e) @ xp_SenderSpendSignature e @ []) e"
  unfolding Spend_Deserialize_def
  by (intro reads_bind[OF reads_ReadBN256G1[OF assms(1,3)]] reads_bind[OF reads_ReadBytes] reads_gret_eq) (simp_all add: assms)

lemma reads_SupplyIncrease:
  assumes "length (xs_AssetId e) = ASSET_LENGTH" "length (xs_ReceiverPublicKey e) = PublicKeySize"
    "length (xs_AssetSupplyPublicKey e) = PublicKeySize" "length (xs_AssetSignature e) = SignatureSize"
  shows "reads SupplyIncrease_Deserialize (xs_AssetId e @ xs_ReceiverPublicKey e @ PutUvarint (xs_Value e) @
     xs_AssetSupplyPublicKey e @ xs_AssetSignature e @ []) e"
  unfolding SupplyIncrease_Deserialize_def
  by (intro reads_bind[OF reads_ReadBytes] reads_bind[OF reads_ReadUvarint] reads_gret_eq) (simp_all add: assms)

lemma reads_AssetCreate:
  assumes "Asset_wire (replicate PublicKeyHashSize 0) a" "as_Index a = 0"
  shows "reads AssetCreate_Deserialize (Asset_enc a) a"
  using reads_Asset_wire[OF assms(1)] assms(2) by (cases a) (simp add: AssetCreate_Deserialize_def)

lemma reads_PlainAccountFund: "length k = PublicKeySize \<Longrightarrow> reads PlainAccountFund_Deserialize k k"
  unfolding PlainAccountFund_Deserialize_def by (intro reads_replace_error reads_ReadBytes) simp

lemma reads_Conditional:
  assumes "length (xc_MultisigPublicKeys e) < 256" "\<forall>k \<in> set (xc_MultisigPublicKeys e). length k = PublicKeySize"
  shows "reads Conditional_Deserialize (Extra_enc P (Some (ExtraConditionalPayment e))) e"
proof -
  have n: "unat (of_nat (length (xc_MultisigPublicKeys e)) :: byte) = length (xc_MultisigPublicKeys e)"
    using assms(1) by (simp add: unat_of_nat take_bit_nat_eq_self)
  have l: "reads (grepeat (length (xc_MultisigPublicKeys e)) (ReadBytes (int PublicKeySize)))
      (concat (map (\<lambda>k. k) (xc_MultisigPublicKeys e))) (xc_MultisigPublicKeys e)"
    using assms(2) by (intro reads_grepeat reads_ReadBytes) simp
  show ?thesis
    unfolding Extra_enc.simps Conditional_Deserialize_def
    by (intro reads_bind[OF reads_ReadUvarint] reads_bind[OF reads_ReadBool] reads_bind[OF reads_ReadByte], unfold n,
        intro reads_bind[OF l] reads_gret_eq) simp
qed

lemma reads_Some: "reads m bs e \<Longrightarrow> reads (gbind m (\<lambda>e. gret (Some (f e)))) bs (Some (f e))"
  using reads_bind[of m bs e "\<lambda>e. gret (Some (f e))" "[]" "Some (f e)", OF _ reads_gret] by simp

lemma reads_Extra:
  assumes K: "g1_codec P" and w: "Extra_wire P script extra"
  shows "reads (Extra_Deserialize P script) (Extra_enc P extra) extra"
proof (cases extra)
  case None
  then show ?thesis using w by (simp add: Extra_Deserialize_def script_defs reads_gret)
next
  case (Some e)
  then show ?thesis
  proof (cases e)
    case (ExtraStakingReward r)
    then show ?thesis using Some w reads_Some[OF reads_StakingReward, of ExtraStakingReward r] by (simp add: Extra_Deserialize_def script_defs)
  next
    case (ExtraSpend r)
    then show ?thesis using Some w reads_Some[OF reads_Spend[OF K], of r ExtraSpend] by (simp add: Extra_Deserialize_def script_defs)
  next
    case (ExtraAssetCreate a)
    then show ?thesis using Some w reads_Some[OF reads_AssetCreate, of a ExtraAssetCreate] by (simp add: Extra_Deserialize_def script_defs)
  next
    case (ExtraAssetSupplyIncrease r)
    then show ?thesis using Some w reads_Some[OF reads_SupplyIncrease, of r ExtraAssetSupplyIncrease] by (simp add: Extra_Deserialize_def script_defs)
  next
    case (ExtraPlainAccountFund k)
    then show ?thesis using Some w reads_Some[OF reads_PlainAccountFund, of k ExtraPlainAccountFund] by (simp add: Extra_Deserialize_def script_defs)
  next
    case (ExtraConditionalPayment r)
    then show ?thesis using Some w reads_Some[OF reads_Conditional, of r ExtraConditionalPayment]
      by (simp add: Extra_Deserialize_def script_defs split del: if_split)
  qed (use Some w in \<open>simp add: Extra_Deserialize_def script_defs reads_gret\<close>)
qed

section \<open>The payload\<close>

definition data_wire :: "byte \<Rightarrow> bytes \<Rightarrow> bool" where
  "data_wire version data \<longleftrightarrow> version = TX_DATA_NONE \<and> data = [] \<or> version = TX_DATA_PLAIN_TEXT \<and> length data \<le> 512 \<or>
     version = TX_DATA_ENCRYPTED \<and> length data = 145"

text \<open>\<open>st\<close> is the statement before the extra has its say on it.\<close>

definition Payload_wire_at :: "'p G1Ops \<Rightarrow> 'p TransactionZetherPayload \<Rightarrow> nat \<Rightarrow> 'p Statement \<Rightarrow> bool" where
  "Payload_wire_at P pl pow st \<longleftrightarrow> pl_PayloadScript pl \<le> SCRIPT_CONDITIONAL_PAYMENT \<and> length (pl_Asset pl) = ASSET_LENGTH \<and>
     data_wire (pl_DataVersion pl) (pl_Data pl) \<and>
     Registrations_wire (2 ^ pow) (pl_Registrations pl) \<and>
     Statement_wire P st (pl_Registrations pl) (pl_Parity pl) (pl_PayloadScript pl) pow \<and>
     (case pl_Extra pl of None \<Rightarrow> Inr st | Some e \<Rightarrow> Extra_UpdateStatement P e st) = Inr (pl_Statement pl) \<and>
     length (pl_WhisperSender pl) = (if has_whisper (pl_PayloadScript pl) then 32 else 0) \<and>
     length (pl_WhisperRecipient pl) = (if has_whisper (pl_PayloadScript pl) then 32 else 0) \<and>
     (pl_Asset pl = NATIVE_ASSET_FULL \<longrightarrow> pl_FeeRate pl = 0 \<and> pl_FeeLeadingZeros pl = 0) \<and>
     Proof_wire P (pl_Proof pl) pow \<and> Extra_wire P (pl_PayloadScript pl) (pl_Extra pl)"

definition Payload_wire :: "'p G1Ops \<Rightarrow> 'p TransactionZetherPayload \<Rightarrow> bool" where
  "Payload_wire P pl \<longleftrightarrow> (\<exists>pow st. Payload_wire_at P pl pow st)"

definition data_enc :: "byte \<Rightarrow> bytes \<Rightarrow> bytes" where
  "data_enc version data = (if version = TX_DATA_PLAIN_TEXT then PutUvarint (of_nat (length data)) @ data
     else if version = TX_DATA_ENCRYPTED then data else [])"

definition Payload_enc :: "'p G1Ops \<Rightarrow> 'p TransactionZetherPayload \<Rightarrow> nat \<Rightarrow> 'p Statement \<Rightarrow> bytes" where
  "Payload_enc P pl pow st =
     PutUvarint (pl_PayloadScript pl) @ (if pl_Asset pl = NATIVE_ASSET_FULL then [0] else 1 # pl_Asset pl) @
     PutUvarint (pl_BurnValue pl) @ [pl_DataVersion pl] @ data_enc (pl_DataVersion pl) (pl_Data pl) @
     [word_of_int (int pow)] @ [if pl_Parity pl then 1 else 0] @ Registrations_enc (pl_Registrations pl) @
     Statement_enc P st (pl_Registrations pl) (pl_Parity pl) (pl_PayloadScript pl) @
     (if has_whisper (pl_PayloadScript pl) then pl_WhisperSender pl @ pl_WhisperRecipient pl @ [] else []) @
     (if pl_Asset pl \<noteq> NATIVE_ASSET_FULL then PutUvarint (pl_FeeRate pl) @ [pl_FeeLeadingZeros pl] @ [] else []) @
     Proof_enc P (pl_Proof pl) @ Extra_enc P (pl_Extra pl) @ []"

text \<open>The reward changes only balances that are not on the wire.\<close>

lemma Statement_Serialize_update:
  assumes "Extra_UpdateStatement P e st = Inr st'" "Extra_wire P script (Some e)"
  shows "Statement_Serialize P st' regs parity script = Statement_Serialize P st regs parity script \<and> length (st_C st') = length (st_C st)"
proof (cases e)
  case (ExtraStakingReward r)
  then have s: "script = SCRIPT_STAKING_REWARD" using assms(2) by simp
  obtain l r where st': "st' = st\<lparr>st_CLn := l, st_CRn := r\<rparr>"
    using assms(1) ExtraStakingReward
    by (auto simp: StakingReward_UpdateStatement_def Let_def rbind_Inr_iff split: if_splits)
  have "Statement_member P st' regs parity script = Statement_member P st regs parity script"
    by (rule ext) (simp add: st' s Statement_member_def balance_on_wire_def rbind_assoc)
  then show ?thesis by (simp add: Statement_Serialize_def st')
qed (use assms in simp_all)

lemma SerializeRingSize_wire:
  assumes "length (st_C st) = 2 ^ pow"
  shows "Statement_SerializeRingSize st = Inr (WriteByte (word_of_int (int pow)))"
proof -
  have "pow < 2 ^ pow" by (rule less_exp)
  then have "GetPowerof2_loop (Suc (2 ^ pow)) (2 ^ pow) (2 ^ 0) (int 0) = Inr (int pow)"
    by (intro GetPowerof2_loop_steps) (simp_all add: less_SucI)
  then have "GetPowerof2 (Suc (2 ^ pow)) (2 ^ pow) = Inr (int pow)"
    by (auto simp: GetPowerof2_def IsPowerOf2_iff simp del: GetPowerof2_loop.simps)
  then show ?thesis using assms by (simp add: Statement_SerializeRingSize_def)
qed

lemma writes_data:
  "writes (if v = TX_DATA_PLAIN_TEXT then WriteVariableBytes d else if v = TX_DATA_ENCRYPTED then Write d else (\<lambda>w. w)) (data_enc v d)"
  by (simp add: data_enc_def writes_WriteVariableBytes writes_Write writes_id)

lemma reads_data: "data_wire v d \<Longrightarrow> reads (read_data v) (data_enc v d) d"
  by (auto simp: data_wire_def read_data_def data_enc_def TX_DATA_NONE_def TX_DATA_PLAIN_TEXT_def TX_DATA_ENCRYPTED_def
      TRANSACTIONS_MAX_DATA_LENGTH_def PAYLOAD_LIMIT_def intro!: reads_gret reads_ReadVariableBytes reads_ReadBytes)

lemma Payload_Serialize_wire:
  assumes w: "Payload_wire_at P pl pow st"
  shows "\<exists>ser. Payload_Serialize P pl True = Inr ser \<and> writes ser (Payload_enc P pl pow st)"
proof -
  note D = w[unfolded Payload_wire_at_def]
  have st: "Statement_wire P st (pl_Registrations pl) (pl_Parity pl) (pl_PayloadScript pl) pow" using D by simp
  have up: "Statement_Serialize P (pl_Statement pl) (pl_Registrations pl) (pl_Parity pl) (pl_PayloadScript pl) =
      Statement_Serialize P st (pl_Registrations pl) (pl_Parity pl) (pl_PayloadScript pl) \<and>
      length (st_C (pl_Statement pl)) = length (st_C st)"
    using D Statement_Serialize_update[of P _ st "pl_Statement pl" "pl_PayloadScript pl"] by (auto split: option.splits)
  obtain f where f: "Statement_Serialize P st (pl_Registrations pl) (pl_Parity pl) (pl_PayloadScript pl) = Inr f"
    "writes f (Statement_enc P st (pl_Registrations pl) (pl_Parity pl) (pl_PayloadScript pl))"
    using Statement_Serialize_wire[OF st] by blast
  obtain g where g: "Proof_Serialize P (pl_Proof pl) = Inr g" "writes g (Proof_enc P (pl_Proof pl))"
    using Proof_Serialize_wire[of P "pl_Proof pl" pow] D by blast
  have ring: "Statement_SerializeRingSize (pl_Statement pl) = Inr (WriteByte (word_of_int (int pow)))"
    using st up by (intro SerializeRingSize_wire) (simp add: Statement_wire_def)
  have r: "writes (Registrations_Serialize (pl_Registrations pl)) (Registrations_enc (pl_Registrations pl))"
    using D writes_Registrations by blast
  have wh: "writes (when_write (has_whisper (pl_PayloadScript pl)) (ser_seq [Write (pl_WhisperSender pl), Write (pl_WhisperRecipient pl)]))
      (if has_whisper (pl_PayloadScript pl) then pl_WhisperSender pl @ pl_WhisperRecipient pl @ [] else [])"
    by (cases "has_whisper (pl_PayloadScript pl)"; simp only: when_write_def if_True if_False) (intro codec)+
  have fe: "writes (when_write (pl_Asset pl \<noteq> NATIVE_ASSET_FULL) (ser_seq [WriteUvarint (pl_FeeRate pl), WriteByte (pl_FeeLeadingZeros pl)]))
      (if pl_Asset pl \<noteq> NATIVE_ASSET_FULL then PutUvarint (pl_FeeRate pl) @ [pl_FeeLeadingZeros pl] @ [] else [])"
    by (cases "pl_Asset pl \<noteq> NATIVE_ASSET_FULL"; simp only: when_write_def simp_thms if_True if_False) (intro codec)+
  show ?thesis
    unfolding Payload_Serialize_def ring conjunct1[OF up] f(1) g(1) if_True Payload_enc_def
    by (simp only: rbind_simps) (intro exI conjI, rule refl, intro codec writes_data r f(2) wh fe g(2) writes_Extra)
qed

lemma reads_RingSize:
  assumes "1 \<le> pow" "pow \<le> 8"
  shows "reads Statement_DeserializeRingSize [word_of_int (int pow)] (word_of_int (int pow), 2 ^ pow)"
proof -
  have u: "unat (word_of_nat pow :: byte) = pow" using assms by (simp add: unat_of_nat take_bit_nat_eq_self)
  have b: "\<not> (word_of_int (int pow) > (8 :: byte) \<or> word_of_int (int pow) < (1 :: byte))"
    using assms by (simp add: word_less_nat_alt u)
  show ?thesis
    using reads_ReadByte[of "word_of_int (int pow)"] b u
    by (simp add: reads_def Statement_DeserializeRingSize_def)
qed

lemma reads_Payload:
  assumes K: "g1_codec P" and w: "Payload_wire_at P pl pow st"
  shows "reads (Payload_Deserialize P) (Payload_enc P pl pow st) pl"
proof -
  note D = w[unfolded Payload_wire_at_def]
  have st: "Statement_wire P st (pl_Registrations pl) (pl_Parity pl) (pl_PayloadScript pl) pow" using D by simp
  have p: "1 \<le> pow" "pow \<le> 8" using st by (simp_all add: Statement_wire_def)
  have u: "unat (word_of_int (int pow) :: byte) = pow" using p by (simp add: unat_of_nat take_bit_nat_eq_self)
  have n: "nat (2 ^ pow :: int) = 2 ^ pow" by (simp add: nat_power_eq)
  have s: "\<not> pl_PayloadScript pl > SCRIPT_CONDITIONAL_PAYMENT" using D by (simp add: not_less)
  have wh: "reads (when_read (has_whisper (pl_PayloadScript pl)) ([], [])
       (gbind (ReadBytes 32) (\<lambda>sender. gbind (ReadBytes 32) (\<lambda>recipient. gret (sender, recipient)))))
      (if has_whisper (pl_PayloadScript pl) then pl_WhisperSender pl @ pl_WhisperRecipient pl @ [] else [])
      (pl_WhisperSender pl, pl_WhisperRecipient pl)"
    using D by (cases "has_whisper (pl_PayloadScript pl)"; simp only: when_read_def if_True if_False)
      (intro reads_bind[OF reads_ReadBytes] reads_gret_eq; simp)+
  have fe: "reads (when_read (pl_Asset pl \<noteq> NATIVE_ASSET_FULL) (0, 0)
       (gbind ReadUvarint (\<lambda>rate. gbind ReadByte (\<lambda>zeros. gret (rate, zeros)))))
      (if pl_Asset pl \<noteq> NATIVE_ASSET_FULL then PutUvarint (pl_FeeRate pl) @ [pl_FeeLeadingZeros pl] @ [] else [])
      (pl_FeeRate pl, pl_FeeLeadingZeros pl)"
    using D by (cases "pl_Asset pl \<noteq> NATIVE_ASSET_FULL"; simp only: when_read_def simp_thms if_True if_False)
      (intro reads_bind[OF reads_ReadUvarint] reads_bind[OF reads_ReadByte] reads_gret_eq; simp)+
  have x: "reads (Extra_Deserialize P (pl_PayloadScript pl)) (Extra_enc P (pl_Extra pl)) (pl_Extra pl)"
    using D reads_Extra[OF K] by blast
  have us: "reads (glift (case pl_Extra pl of None \<Rightarrow> Inr st | Some e \<Rightarrow> Extra_UpdateStatement P e st)) [] (pl_Statement pl)"
    using D by (simp add: reads_def)
  have rg: "reads (Registrations_Deserialize (2 ^ pow)) (Registrations_enc (pl_Registrations pl)) (pl_Registrations pl)"
    using D reads_Registrations by blast
  have pf: "reads (Proof_Deserialize P pow) (Proof_enc P (pl_Proof pl)) (pl_Proof pl)" using D reads_Proof[OF K] by blast
  have as: "reads ReadAsset (if pl_Asset pl = NATIVE_ASSET_FULL then [0] else 1 # pl_Asset pl) (pl_Asset pl)"
    using D by (intro reads_ReadAsset) simp
  have dt: "reads (read_data (pl_DataVersion pl)) (data_enc (pl_DataVersion pl) (pl_Data pl)) (pl_Data pl)"
    using D by (intro reads_data) simp
  show ?thesis
    unfolding Payload_Deserialize_def Payload_enc_def
    by (intro reads_bind[OF reads_ReadUvarint] reads_gcheck[OF s] reads_bind[OF as] reads_bind[OF reads_ReadByte] reads_bind[OF dt]
        reads_bind[OF reads_RingSize[OF p]], unfold prod.case n u,
        intro reads_bind[OF reads_ReadBool] reads_bind[OF rg] reads_bind[OF reads_Statement[OF K st]] reads_bind[OF wh],
        unfold prod.case, intro reads_bind[OF fe], unfold prod.case,
        intro reads_bind[OF pf] reads_bind[OF x] reads_bind_nil[OF us] reads_gret_eq) simp
qed

section \<open>Transactions\<close>

definition Zether_wire :: "'p G1Ops \<Rightarrow> 'p TransactionZether \<Rightarrow> bool" where
  "Zether_wire P tx \<longleftrightarrow> length (tz_ChainKernelHash tx) = HashSize \<and> length (tz_Payloads tx) < 256 \<and>
     (\<forall>pl \<in> set (tz_Payloads tx). Payload_wire P pl) \<and> tz_Bloom tx = None"

lemma Payload_codec:
  assumes "g1_codec P" "Payload_wire P pl"
  shows "\<exists>ser enc. Payload_Serialize P pl True = Inr ser \<and> writes ser enc \<and> reads (Payload_Deserialize P) enc pl"
  using assms Payload_Serialize_wire reads_Payload unfolding Payload_wire_def by blast

lemma Zether_codec:
  assumes K: "g1_codec P" and w: "Zether_wire P tx"
  shows "\<exists>ser enc. Zether_SerializeAdvanced P tx True = Inr ser \<and> writes ser enc \<and> reads (Zether_Deserialize P) enc tx"
proof -
  have "\<forall>pl \<in> set (tz_Payloads tx). \<exists>ser enc. Payload_Serialize P pl True = Inr ser \<and> writes ser enc \<and> reads (Payload_Deserialize P) enc pl"
    using Payload_codec[OF K] w by (simp add: Zether_wire_def)
  then obtain f g where fg: "\<And>pl. pl \<in> set (tz_Payloads tx) \<Longrightarrow> Payload_Serialize P pl True = Inr (f pl)"
    "\<And>pl. pl \<in> set (tz_Payloads tx) \<Longrightarrow> writes (f pl) (g pl)" "\<And>pl. pl \<in> set (tz_Payloads tx) \<Longrightarrow> reads (Payload_Deserialize P) (g pl) pl"
    by metis
  let ?enc = "PutUvarint (tz_ChainHeight tx) @ tz_ChainKernelHash tx @ [of_nat (length (tz_Payloads tx))] @ concat (map g (tz_Payloads tx)) @ []"
  have "rmap (\<lambda>p. Payload_Serialize P p True) (tz_Payloads tx) = Inr (map f (tz_Payloads tx))" by (rule rmap_all_Inr) (rule fg(1))
  then have "Zether_SerializeAdvanced P tx True = Inr (ser_seq [WriteUvarint (tz_ChainHeight tx), Write (tz_ChainKernelHash tx),
      WriteByte (of_nat (length (tz_Payloads tx))), ser_seq (map f (tz_Payloads tx))])"
    by (simp add: Zether_SerializeAdvanced_def)
  moreover have "writes (ser_seq [WriteUvarint (tz_ChainHeight tx), Write (tz_ChainKernelHash tx),
      WriteByte (of_nat (length (tz_Payloads tx))), ser_seq (map f (tz_Payloads tx))]) ?enc"
    by (intro codec writes_ser_seq_map fg(2))
  moreover have "reads (Zether_Deserialize P) ?enc tx"
  proof -
    have n: "unat (of_nat (length (tz_Payloads tx)) :: byte) = length (tz_Payloads tx)"
      using w by (simp add: Zether_wire_def unat_of_nat take_bit_nat_eq_self)
    have l: "reads (grepeat (length (tz_Payloads tx)) (Payload_Deserialize P)) (concat (map g (tz_Payloads tx))) (tz_Payloads tx)"
      by (intro reads_grepeat fg(3))
    show ?thesis
      unfolding Zether_Deserialize_def
      by (intro reads_bind[OF reads_ReadUvarint] reads_bind[OF reads_ReadBytes] reads_bind[OF reads_ReadByte], simp_all only: n,
          use w in \<open>simp add: Zether_wire_def\<close>, intro reads_bind[OF l] reads_gret_eq, use w in \<open>simp add: Zether_wire_def\<close>)
  qed
  ultimately show ?thesis by blast
qed

fun Base_wire :: "'p G1Ops \<Rightarrow> uint64 \<Rightarrow> 'p TransactionBase \<Rightarrow> bool" where
  "Base_wire P version (TxSimple t) \<longleftrightarrow> version = TX_SIMPLE \<and> TransactionSimple_wire t"
| "Base_wire P version (TxZether t) \<longleftrightarrow> version = TX_ZETHER \<and> Zether_wire P t"

lemma Base_codec:
  assumes K: "g1_codec P" and w: "Base_wire P v b"
  shows "\<exists>ser enc. Base_SerializeAdvanced P b True = Inr ser \<and> writes ser enc \<and>
    reads (if v = TX_SIMPLE then gbind TransactionSimple_Deserialize (\<lambda>t. gret (TxSimple t))
           else gbind (Zether_Deserialize P) (\<lambda>t. gret (TxZether t))) enc b"
proof (cases b)
  case (TxSimple t)
  then obtain ser where "TransactionSimple_SerializeAdvanced t True = Inr ser" "writes ser (TransactionSimple_enc t)"
    using w TransactionSimple_Serialize_wire by auto
  moreover have "reads (gbind TransactionSimple_Deserialize (\<lambda>t. gret (TxSimple t))) (TransactionSimple_enc t @ []) (TxSimple t)"
    using w TxSimple by (intro reads_bind[OF reads_TransactionSimple] reads_gret) simp
  ultimately show ?thesis using w TxSimple by auto
next
  case (TxZether t)
  then obtain ser enc where "Zether_SerializeAdvanced P t True = Inr ser" "writes ser enc" "reads (Zether_Deserialize P) enc t"
    using w Zether_codec[OF K] by fastforce
  moreover from this(3) have "reads (gbind (Zether_Deserialize P) (\<lambda>t. gret (TxZether t))) (enc @ []) (TxZether t)"
    by (rule reads_bind) (rule reads_gret)
  ultimately show ?thesis using w TxZether by (auto simp: TX_SIMPLE_def TX_ZETHER_def)
qed

text \<open>The bytes written are read back, with the bloom that the reader caches.\<close>

lemma Transaction_codec:
  assumes "g1_codec P" "Base_wire P (tx_Version tx) (tx_Base tx)"
  shows "\<exists>bs. SerializeManualToBytes P tx = Inr bs \<and>
    Transaction_Deserialize P sha3 (NewBufferReader bs) =
      (Inr (tx\<lparr>tx_Bloom := Some \<lparr>tb_Serialized = bs, tb_Size = of_nat (length bs), tb_Hash = sha3 bs, tb_HashStr = sha3 bs,
        tb_bloomed = True\<rparr>\<rparr>), (NewBufferReader bs)\<lparr>Position := length bs\<rparr>)"
proof -
  obtain ser enc where b: "Base_SerializeAdvanced P (tx_Base tx) True = Inr ser" "writes ser enc"
    "reads (if tx_Version tx = TX_SIMPLE then gbind TransactionSimple_Deserialize (\<lambda>t. gret (TxSimple t))
           else gbind (Zether_Deserialize P) (\<lambda>t. gret (TxZether t))) enc (tx_Base tx)"
    using Base_codec[OF assms] by blast
  let ?enc = "PutUvarint (tx_Version tx) @ PutUvarint (tx_SpaceExtra tx) @ enc @ []"
  have "writes (ser_seq [WriteUvarint (tx_Version tx), WriteUvarint (tx_SpaceExtra tx), ser]) ?enc" by (intro codec b(2))
  then have s: "SerializeManualToBytes P tx = Inr ?enc"
    by (simp only: SerializeManualToBytes_def Transaction_SerializeAdvanced_def b(1) rbind_simps writes_SerializeToBytes)
  have v: "\<not> (tx_Version tx \<noteq> TX_SIMPLE \<and> tx_Version tx \<noteq> TX_ZETHER)" using assms(2) by (cases "tx_Base tx") auto
  have r: "reads (gbind ReadUvarint (\<lambda>n. gbind (gcheck (n \<noteq> TX_SIMPLE \<and> n \<noteq> TX_ZETHER) ''Invalid TxType'') (\<lambda>_.
      gbind ReadUvarint (\<lambda>spaceExtra.
      gbind (if n = TX_SIMPLE then gbind TransactionSimple_Deserialize (\<lambda>t. gret (TxSimple t))
             else gbind (Zether_Deserialize P) (\<lambda>t. gret (TxZether t))) (\<lambda>base.
      gret (n, spaceExtra, base)))))) ?enc (tx_Version tx, tx_SpaceExtra tx, tx_Base tx)"
    by (intro reads_bind[OF reads_ReadUvarint] reads_gcheck[OF v] reads_bind[OF b(3)] reads_gret)
  have "reads (Transaction_Deserialize P sha3) (?enc @ [])
      (tx\<lparr>tx_Bloom := Some \<lparr>tb_Serialized = ?enc, tb_Size = of_nat (length ?enc), tb_Hash = sha3 ?enc, tb_HashStr = sha3 ?enc, tb_bloomed = True\<rparr>\<rparr>)"
    unfolding Transaction_Deserialize_def
    by (rule reads_bind[OF reads_with_bytes[OF r]], unfold prod.case, rule reads_gret_eq) simp
  note this[unfolded append_Nil2[of ?enc]]
  then have "Transaction_Deserialize P sha3 (NewBufferReader ?enc) = (Inr (tx\<lparr>tx_Bloom := Some \<lparr>tb_Serialized = ?enc,
      tb_Size = of_nat (length ?enc), tb_Hash = sha3 ?enc, tb_HashStr = sha3 ?enc, tb_bloomed = True\<rparr>\<rparr>),
      (NewBufferReader ?enc)\<lparr>Position := length ?enc\<rparr>)"
    by (rule reads_NewBufferReader)
  then show ?thesis using s by blast
qed

text \<open>C36: A transaction, simple or private, whose parts fit their fields and none of whose points is the identity
  (\<^verbatim>\<open>Deserialize\<close> refuses its 33 bytes) is written to bytes from which
  \<^verbatim>\<open>Deserialize\<close> reads it back, to the last byte, with the bytes and their hash cached in the bloom.\<close>

theorem transaction_roundtrip:
  assumes "g1_codec P" "Base_wire P (tx_Version tx) (tx_Base tx)"
  shows "\<exists>bs. SerializeManualToBytes P tx = Inr bs \<and>
    Transaction_Deserialize P sha3 (NewBufferReader bs) =
      (Inr (tx\<lparr>tx_Bloom := Some \<lparr>tb_Serialized = bs, tb_Size = of_nat (length bs), tb_Hash = sha3 bs, tb_HashStr = sha3 bs,
        tb_bloomed = True\<rparr>\<rparr>), (NewBufferReader bs)\<lparr>Position := length bs\<rparr>)"
  by (rule Transaction_codec[OF assms])

theorem transaction_roundtrip_witness:
  "\<exists>bs. SerializeManualToBytes residue_curve
      \<lparr>tx_Base = TxSimple \<lparr>ts_Extra = Some (ExtraResolutionConditionalPayment \<lparr>xr_TxId = replicate 32 4, xr_PayloadIndex = 1,
        xr_Resolution = True, xr_MultisigPublicKeys = [replicate 33 2], xr_Signatures = [replicate 64 3]\<rparr>),
        ts_TxScript = 1, ts_DataVersion = 1, ts_Data = [5, 6], ts_Nonce = 0, ts_Fee = 0, ts_Vin = None, ts_Bloom = None\<rparr>,
       tx_Version = 0, tx_SpaceExtra = 300, tx_Bloom = None\<rparr> = Inr bs \<and>
    fst (Transaction_Deserialize residue_curve (take 32) (NewBufferReader bs)) =
      Inr \<lparr>tx_Base = TxSimple \<lparr>ts_Extra = Some (ExtraResolutionConditionalPayment \<lparr>xr_TxId = replicate 32 4, xr_PayloadIndex = 1,
        xr_Resolution = True, xr_MultisigPublicKeys = [replicate 33 2], xr_Signatures = [replicate 64 3]\<rparr>),
        ts_TxScript = 1, ts_DataVersion = 1, ts_Data = [5, 6], ts_Nonce = 0, ts_Fee = 0, ts_Vin = None, ts_Bloom = None\<rparr>,
       tx_Version = 0, tx_SpaceExtra = 300,
       tx_Bloom = Some \<lparr>tb_Serialized = bs, tb_Size = of_nat (length bs), tb_Hash = take 32 bs, tb_HashStr = take 32 bs,
        tb_bloomed = True\<rparr>\<rparr>"
proof -
  let ?tx = "\<lparr>tx_Base = TxSimple \<lparr>ts_Extra = Some (ExtraResolutionConditionalPayment \<lparr>xr_TxId = replicate 32 4, xr_PayloadIndex = 1,
        xr_Resolution = True, xr_MultisigPublicKeys = [replicate 33 2], xr_Signatures = [replicate 64 3]\<rparr>),
        ts_TxScript = 1, ts_DataVersion = 1, ts_Data = [5, 6], ts_Nonce = 0, ts_Fee = 0, ts_Vin = None, ts_Bloom = None\<rparr>,
       tx_Version = 0, tx_SpaceExtra = 300, tx_Bloom = None\<rparr> :: residue Transaction"
  have "Base_wire residue_curve (tx_Version ?tx) (tx_Base ?tx)"
    by (simp add: TX_SIMPLE_def TransactionSimple_wire_def HasVin_def SCRIPT_UPDATE_ASSET_FEE_LIQUIDITY_def
        SCRIPT_RESOLUTION_CONDITIONAL_PAYMENT_def ResolutionExtra_wire_def TX_DATA_PLAIN_TEXT_def TX_DATA_NONE_def HashSize_def
        PublicKeySize_def SignatureSize_def)
  then show ?thesis
    using transaction_roundtrip[of residue_curve ?tx "take 32", OF residue_codec] by auto
qed

end
