(* ===== verification/Tx_Received.thy ===== *)
theory Tx_Received
  imports Tx_Codec
begin

text \<open>
  What happens to a transaction that arrives from the network: it is decoded, bloomed and verified by a worker of
  \<^verbatim>\<open>txs_validator\<close>.  Decoding already fills the bloom in, and \<^verbatim>\<open>BloomAll\<close> validates only transactions
  without one.
\<close>

lemma worker_validate_decoded:
  assumes "tx_Bloom tx = Some b" "tb_bloomed b" "tx_Base tx = TxSimple t" "ts_Bloom t = None" "tx_Version tx = TX_SIMPLE"
    "SerializeForSigning (te_P E) (te_sha3 E) (tx\<lparr>tx_Base := TxSimple (t\<lparr>ts_Bloom := Some True\<rparr>)\<rparr>) = Inr h"
    "TransactionSimple_VerifySignatureManually (te_P E) (te_sha3 E) (te_keccak E) (t\<lparr>ts_Bloom := Some True\<rparr>) h = Inr True"
  shows "worker_validate E tx = (Inr (), tx\<lparr>tx_Base := TxSimple (t\<lparr>ts_Bloom := Some True\<rparr>)\<rparr>)"
  using assms
  by (simp add: worker_validate_def BloomAll_def bloomExtraNow_def verifyTx_def VerifyBloomAll_def
      Transaction_VerifySignatureManually_def TransactionSimple_BloomNow_def TransactionSimple_VerifyBloomAll_def gbind_def gget_def)

lemma verify_multisig_replicate:
  assumes "VerifySignature P keccak msg (slice_arg sig) k = Inr True"
  shows "i + n \<le> m \<Longrightarrow> verify_multisig P keccak msg (replicate m sig) i (replicate n k) = Inr True"
proof (induction n arbitrary: i)
  case (Suc n)
  then show ?case using assms by (simp add: rnth_def)
qed simp

text \<open>A resolution of the payment \<open>(txid, index)\<close> in which one key signs \<open>n\<close> times.\<close>

definition repeated_resolution :: "bytes \<Rightarrow> byte \<Rightarrow> bool \<Rightarrow> nat \<Rightarrow> bytes \<Rightarrow> bytes \<Rightarrow> TransactionSimpleExtraResolutionConditionalPayment" where
  "repeated_resolution txid index resolution n k sig = \<lparr>xr_TxId = txid, xr_PayloadIndex = index, xr_Resolution = resolution,
     xr_MultisigPublicKeys = replicate n k, xr_Signatures = replicate n sig\<rparr>"

definition resolution_tx :: "TransactionSimpleExtraResolutionConditionalPayment \<Rightarrow> uint64 \<Rightarrow> 'p Transaction" where
  "resolution_tx e space = \<lparr>tx_Base = TxSimple \<lparr>ts_Extra = Some (ExtraResolutionConditionalPayment e),
     ts_TxScript = SCRIPT_RESOLUTION_CONDITIONAL_PAYMENT, ts_DataVersion = TX_DATA_NONE, ts_Data = [], ts_Nonce = 0, ts_Fee = 0,
     ts_Vin = None, ts_Bloom = None\<rparr>, tx_Version = TX_SIMPLE, tx_SpaceExtra = space, tx_Bloom = None\<rparr>"

lemmas resolution_defs = resolution_tx_def TX_SIMPLE_def TX_END_def TX_DATA_NONE_def HasVin_def SCRIPT_UPDATE_ASSET_FEE_LIQUIDITY_def
  SCRIPT_RESOLUTION_CONDITIONAL_PAYMENT_def

lemma resolution_wire: "ResolutionExtra_wire e \<Longrightarrow> Base_wire P (tx_Version (resolution_tx e space)) (tx_Base (resolution_tx e space))"
  by (simp add: resolution_defs TransactionSimple_wire_def)

lemma SerializeForSigning_resolution:
  assumes "ResolutionExtra_wire e" "tx_Base tx = TxSimple t" "ts_TxScript t = SCRIPT_RESOLUTION_CONDITIONAL_PAYMENT"
    "ts_Extra t = Some (ExtraResolutionConditionalPayment e)"
  shows "\<exists>h. SerializeForSigning P sha3 tx = Inr h"
  using assms ResolutionExtra_Serialize_wire[OF assms(1), of False]
  by (auto simp: SerializeForSigning_def Transaction_SerializeAdvanced_def TransactionSimple_SerializeAdvanced_def resolution_defs)

text \<open>A resolution whose signatures verify passes the worker, whatever \<^verbatim>\<open>Validate\<close> says of it.\<close>

lemma worker_accepts_resolution:
  assumes w: "ResolutionExtra_wire e" and K: "g1_codec (te_P E)"
    and sig: "ResolutionExtra_VerifySignature (te_P E) (te_sha3 E) (te_keccak E) e = Inr True"
  shows "\<exists>bs tx rest tx'. SerializeManualToBytes (te_P E) (resolution_tx e space) = Inr bs \<and>
    Transaction_Deserialize (te_P E) (te_sha3 E) (NewBufferReader bs) = (Inr tx, rest) \<and>
    tx_Base tx = tx_Base (resolution_tx e space :: 'p Transaction) \<and> tx_Version tx = TX_SIMPLE \<and>
    worker_validate E tx = (Inr (), tx')"
proof -
  let ?t = "resolution_tx e space :: 'p Transaction"
  obtain bs where bs: "SerializeManualToBytes (te_P E) ?t = Inr bs"
    "Transaction_Deserialize (te_P E) (te_sha3 E) (NewBufferReader bs) =
      (Inr (?t\<lparr>tx_Bloom := Some \<lparr>tb_Serialized = bs, tb_Size = of_nat (length bs), tb_Hash = te_sha3 E bs, tb_HashStr = te_sha3 E bs,
        tb_bloomed = True\<rparr>\<rparr>), (NewBufferReader bs)\<lparr>Position := length bs\<rparr>)" (is "_ = (Inr ?tx, _)")
    using Transaction_codec[OF K resolution_wire[OF w]] by blast
  obtain t where t: "tx_Base ?t = TxSimple t" "ts_Bloom t = None" "ts_TxScript t = SCRIPT_RESOLUTION_CONDITIONAL_PAYMENT"
    "ts_Extra t = Some (ExtraResolutionConditionalPayment e)"
    by (simp add: resolution_tx_def)
  have "\<exists>h. SerializeForSigning (te_P E) (te_sha3 E) (?tx\<lparr>tx_Base := TxSimple (t\<lparr>ts_Bloom := Some True\<rparr>)\<rparr>) = Inr h"
    by (rule SerializeForSigning_resolution[OF w, where t = "t\<lparr>ts_Bloom := Some True\<rparr>"]) (simp_all add: t)
  then obtain h where h: "SerializeForSigning (te_P E) (te_sha3 E) (?tx\<lparr>tx_Base := TxSimple (t\<lparr>ts_Bloom := Some True\<rparr>)\<rparr>) = Inr h" ..
  have v: "TransactionSimple_VerifySignatureManually (te_P E) (te_sha3 E) (te_keccak E) (t\<lparr>ts_Bloom := Some True\<rparr>) h = Inr True"
    using t sig by (simp add: TransactionSimple_VerifySignatureManually_def resolution_defs)
  have "worker_validate E ?tx = (Inr (), ?tx\<lparr>tx_Base := TxSimple (t\<lparr>ts_Bloom := Some True\<rparr>)\<rparr>)"
    by (rule worker_validate_decoded[OF _ _ _ t(2) _ h v], simp, simp, simp add: t(1), simp add: resolution_tx_def)
  then show ?thesis using bs by (auto simp: resolution_tx_def)
qed

text \<open>C37: Transactions that arrive over the network are not validated: with a single private key, whose public key is not the identity, anyone makes a
  resolution of a conditional payment that lists the key of that signer \<open>n\<close> times.  Its bytes decode, \<^verbatim>\<open>validate\<close>
  would refuse it for its duplicate keys, and the worker accepts it, so one signer meets any threshold up to \<open>n\<close>.\<close>

theorem one_signer_meets_threshold:
  assumes "g1_laws (te_P E)" "g1_codec (te_P E)" "length txid = HashSize" "2 \<le> n" "n \<le> 5"
    and "g1_ScalarMult (te_P E) (g1_G (te_P E)) (SetBytes key) \<noteq> g1_zero (te_P E)"
  shows "\<exists>sig bs tx rest tx'.
    let k = g1_EncodeCompressed (te_P E) (g1_ScalarMult (te_P E) (g1_G (te_P E)) (SetBytes key));
        e = repeated_resolution txid index resolution n k sig in
    SignMessage (te_P E) (te_keccak E) r (MessageForSigning (te_sha3 E) e) key = Inr sig \<and>
    SerializeManualToBytes (te_P E) (resolution_tx e space) = Inr bs \<and>
    Transaction_Deserialize (te_P E) (te_sha3 E) (NewBufferReader bs) = (Inr tx, rest) \<and>
    Transaction_validate (te_P E) tx = Inl (Error ''public Keys contain duplicates'') \<and>
    worker_validate E tx = (Inr (), tx')"
proof -
  define k where "k = g1_EncodeCompressed (te_P E) (g1_ScalarMult (te_P E) (g1_G (te_P E)) (SetBytes key))"
  let ?e = "repeated_resolution txid index resolution n k"
  have msg: "MessageForSigning (te_sha3 E) (?e s) = MessageForSigning (te_sha3 E) (?e [])" for s
    by (simp add: MessageForSigning_def repeated_resolution_def)
  obtain sig where sig: "SignMessage (te_P E) (te_keccak E) r (MessageForSigning (te_sha3 E) (?e [])) key = Inr sig" "length sig = 64"
    "VerifySignature (te_P E) (te_keccak E) (MessageForSigning (te_sha3 E) (?e [])) (Some sig) k = Inr True"
    using SignMessage_sound[OF assms(1,2), of "te_keccak E" r _ key] assms(6) unfolding k_def key_ok_def by auto
  have w: "ResolutionExtra_wire (?e sig)"
    using assms sig(2) by (simp add: ResolutionExtra_wire_def repeated_resolution_def k_def g1_codecD(1)[OF assms(2)] PublicKeySize_def SignatureSize_def)
  have "VerifySignature (te_P E) (te_keccak E) (MessageForSigning (te_sha3 E) (?e sig)) (slice_arg sig) k = Inr True"
    unfolding msg[of sig] using sig(2,3) by (auto simp: slice_arg_def)
  then have v: "ResolutionExtra_VerifySignature (te_P E) (te_sha3 E) (te_keccak E) (?e sig) = Inr True"
    using verify_multisig_replicate[of "te_P E" "te_keccak E" "MessageForSigning (te_sha3 E) (?e sig)" sig k 0 n n]
    by (simp add: ResolutionExtra_VerifySignature_def repeated_resolution_def)
  have d: "Transaction_validate (te_P E) tx = Inl (Error ''public Keys contain duplicates'')"
    if "tx_Base tx = tx_Base (resolution_tx (?e sig) space)" "tx_Version tx = TX_SIMPLE" for tx
    using that assms(4,5)
    by (auto simp: Transaction_validate_def TransactionSimple_Validate_def ResolutionExtra_Validate_def repeated_resolution_def resolution_defs)
  show ?thesis
    using worker_accepts_resolution[OF w assms(2) v, of space] sig(1)[folded msg[of sig]] d unfolding k_def[symmetric] Let_def by metis
qed

theorem one_signer_meets_threshold_witness:
  "\<exists>sig bs tx rest tx'. \<exists>E :: (residue, StoreDBMemoryTransaction) tx_env. let k = encode33 7; e = repeated_resolution (replicate 32 9) 0 True 3 k sig in
    te_P E = residue_curve \<and> te_keccak E = take 32 \<and> te_sha3 E = take 32 \<and>
    SignMessage residue_curve (take 32) 5 (MessageForSigning (take 32) e) [7] = Inr sig \<and>
    SerializeManualToBytes residue_curve (resolution_tx e 100) = Inr bs \<and>
    Transaction_Deserialize residue_curve (take 32) (NewBufferReader bs) = (Inr tx, rest) \<and>
    Transaction_validate residue_curve tx = Inl (Error ''public Keys contain duplicates'') \<and>
    worker_validate E tx = (Inr (), tx')"
proof -
  obtain E0 :: "(residue, StoreDBMemoryTransaction) tx_env" where True by simp
  let ?E = "E0\<lparr>te_P := residue_curve, te_keccak := take 32, te_sha3 := take 32\<rparr>"
  have k: "g1_EncodeCompressed residue_curve (g1_ScalarMult residue_curve (g1_G residue_curve) (SetBytes [7])) = encode33 7"
    by (simp add: residue_curve_def residue_int_residue SetBytes_def Order_def)
  have nz: "g1_ScalarMult (te_P ?E) (g1_G (te_P ?E)) (SetBytes [7]) \<noteq> g1_zero (te_P ?E)"
    using key_ok_residue[of "[7]"] by (simp only: key_ok_def) (simp add: SetBytes_def Order_def)
  have E: "te_P ?E = residue_curve" "te_keccak ?E = take 32" "te_sha3 ?E = take 32" by simp_all
  have l: "length (replicate 32 (9 :: byte)) = HashSize" by (simp add: HashSize_def)
  obtain sig bs tx rest tx' where
    "SignMessage residue_curve (take 32) 5 (MessageForSigning (take 32) (repeated_resolution (replicate 32 9) 0 True 3 (encode33 7) sig)) [7] = Inr sig"
    "SerializeManualToBytes residue_curve (resolution_tx (repeated_resolution (replicate 32 9) 0 True 3 (encode33 7) sig) 100) = Inr bs"
    "Transaction_Deserialize residue_curve (take 32) (NewBufferReader bs) = (Inr tx, rest)"
    "Transaction_validate residue_curve tx = Inl (Error ''public Keys contain duplicates'')"
    "worker_validate ?E tx = (Inr (), tx')"
    using one_signer_meets_threshold[of ?E "replicate 32 9" 3 "[7]" 0 True 5 100, unfolded E k Let_def, OF residue_laws residue_codec l _ _ nz[unfolded E]]
    by auto
  then show ?thesis
    unfolding Let_def using E by blast
qed

end
