(* ===== verification/Root_Of_Unity.thy ===== *)
theory Root_Of_Unity
  imports Polynomials
begin

text \<open>
  The root of unity of the transforms (\<^verbatim>\<open>unity\<close> of \<^verbatim>\<open>fieldvector.go\<close>) and \<^verbatim>\<open>big.Int.Exp\<close>: repeated squaring computes the
  power, and \<^verbatim>\<open>unity\<close> has order \<open>2 ^ 28\<close>.
\<close>

section \<open>The root of unity\<close>

lemma mod_exp_power: "0 \<le> e \<Longrightarrow> mod_exp b e m = b ^ nat e mod m"
proof (induction b e m rule: mod_exp.induct)
  case (1 b e m)
  show ?case
  proof (cases "e \<le> 0")
    case True
    then show ?thesis using 1(3) by (simp add: mod_exp.simps)
  next
    case False
    have sq: "((b * b) mod m) ^ nat (e div 2) mod m = b ^ (2 * nat (e div 2)) mod m"
      by (simp add: power_mod power_mult power2_eq_square)
    show ?thesis
    proof (cases "odd e")
      case True
      then have "nat e = Suc (2 * nat (e div 2))" using False by (auto elim!: oddE simp: nat_add_distrib nat_mult_distrib)
      then show ?thesis using False True 1(1) sq by (subst mod_exp.simps) (simp add: mod_mult_right_eq)
    next
      case ev: False
      then have "nat e = 2 * nat (e div 2)" using False by (auto elim!: evenE simp: nat_mult_distrib)
      then show ?thesis using False ev 1(2) sq by (subst mod_exp.simps) simp
    qed
  qed
qed

text \<open>The order of \<^verbatim>\<open>unity\<close> is certified by a chain of squares: in every row the quotient and the remainder of the square
  of the remainder before.\<close>

fun square_chain :: "int \<Rightarrow> (int \<times> int) list \<Rightarrow> bool" where
  "square_chain r [] \<longleftrightarrow> True"
| "square_chain r ((q, r') # rows) \<longleftrightarrow> r * r = q * Order + r' \<and> square_chain r' rows"

lemma square_chain_power:
  "square_chain r rows \<Longrightarrow> x mod Order = r mod Order \<Longrightarrow> x ^ (2 ^ length rows) mod Order = last (r # map snd rows) mod Order"
proof (induction r rows arbitrary: x rule: square_chain.induct)
  case (2 r q r' rows)
  have "x\<^sup>2 mod Order = r * r mod Order" using 2(3) by (metis power2_eq_square mod_mult_eq)
  then have "x\<^sup>2 mod Order = r' mod Order" using 2(2) by simp
  then show ?case using 2 by (simp add: power_mult)
qed simp

definition unity_squares :: "(int \<times> int) list" where
  "unity_squares =
    [(3980640202911614097008664481671406742403409282104905929636330169577759670902,
      5386160196654426680587908437466522292546094316449484299324766866127632017491),
     (1325402035873273968688269414783498413491241450749986642231717289142802550954,
      12362307667888646701425312110878689865021595310920166424580800508730201766463),
     (6982134279593561736255752177673507710532251757457831808722179302192179185531,
      5148738231998941919093990236993263532269870972013516935781786344180148212742),
     (1211129899136576468660577509879546614188944964646670746460926801195017154103,
      16643672540115633805563853945723027550993701476449905874677628551579802092013),
     (12655736563440362232617956414065416114570942183769058327301676826973556429687,
      13252703557862788389976730844372645439064911993718389198414587628322210210290),
     (8024132070398139843109032593241045127174293305597661912112519298654904096494,
      4457172912594795098054791682097913048641223487506501713825020529505277817302),
     (907628377896347353366229115902782895152825845757311079102096840612531882612,
      19272091989509091305020350099746195172929790082950684794718832217208730047600),
     (16968631599476148419912876585850403967672965626283342349517586052858265407703,
      5842802100655208202220601494581405077665173309140896317325199079522672222249),
     (1559665460005573288149055268548451069935682863914061836943878158518079266362,
      14884733263770703732945167506469336743140679373875199793905601460445798082647),
     (10122113759010236764394118631771470054338585419596337894192548986792364429390,
      6329356500066760270385320104800041361651069484717522138295268762262921542979),
     (1830240734238117153594265915271996426045266211171158352786073307822233733916,
      11565653466738277530628741220304823612722675405816973185845244591737513948269),
     (6111241587362507280591036534360940736932637946421657583638893088091029117128,
      9660115514202593531100067682393183355657542117565779041330117754511840468385),
     (4263377023643931921474962234941107009092766249320818491273375891706445508385,
      17211102306520970967213052914371369596738459283236387412359684881022575259680),
     (13533386135195047983083411554610070890619657783004943881025573463420659242295,
      14229260808819098486278975467407741759361061425445230391676014495348385181385),
     (9250256603552634879536973549527171515393369043049428363488154177301861373688,
      9090043539319700525180694863088438141526795587596161993289642113491003392729),
     (3775035393683225283266642167480049228606672194942515753539143590023490467447,
      8477717586962391430021390578943454164414648872458158237910335531391429387642),
     (3283575383602824307262602487838412138378230579094818977964729268974166228537,
      6817480751504504562577875582449903316391154748339068687317916541014517497835),
     (2123425076616433814263041656675181556263622921867370699782440027807028584042,
      6531022821848369560014691083010323133201715775564118070701158845247556543311),
     (1948729249271163196521301845264087834681117174623361807130430269940365942217,
      14354781995352964383659700853690011477199945225665817466525863873657499079832),
     (9414175790201032857746471942531715242914008550627334073668264734345342657072,
      13627164367400217852242664780972257485755764801090240218769648540920863094800),
     (8483988860296202894921545168639028888243985257141637834946277885837443774743,
      16492379260617511663525300587171977000640391919984229181494579023045136238569),
     (12426697532034032288678917419061376871622974631588657662849501893991445849931,
      3615280243335670280535781361155813640876625896989570522580498724670629915334),
     (597135700402383483686663474863900574801406196182961006982251894119470846421,
      10550721784764313104495045260998680866741519845912303749987955721122349694799),
     (5085731679390223808973717724777505086063613918536014458768167623586359621171,
      6253536085317186207246464833049627590927251685115435834607356421380913742894),
     (1786653857933825541420999616539741984944760336526628661910619564174393988803,
      2347812377031792896086586148252853002454598368280444936565603590212962918785),
     (251834877290928195414704211818858432601296214394203443131487074305372015819,
      21888242871839275217838484774961031246007050428528088939761107053157389710902),
     (21888242871839275213430563804664787404353416997930879449828600104561791390564,
      21888242871839275222246405745257275088548364400416034343698204186575808495616)]"

lemma unity_minus_1: "unity ^ (2 ^ 27) mod Order = (- 1) mod Order"
proof -
  have "square_chain unity unity_squares"
    by (simp only: unity_squares_def unity_def Order_def square_chain.simps arith_simps rel_simps simp_thms)
  moreover have "length unity_squares = 27" by (simp add: unity_squares_def)
  moreover have "last (unity # map snd unity_squares) mod Order = (- 1) mod Order" by (simp add: unity_squares_def Order_def)
  ultimately show ?thesis using square_chain_power[of unity unity_squares unity] by simp
qed

end
