(* ===== verification/Fourier.thy ===== *)
theory Fourier
  imports Root_Of_Unity
begin

text \<open>
  What the transforms of \<^verbatim>\<open>fieldvector.go\<close> and \<^verbatim>\<open>algebra_pointvector.go\<close> compute: the discrete Fourier transform at
  the powers of a root of unity, forwards and backwards, and with it the convolution that the proofs use,
  as a direct sum over the ring.
\<close>

section \<open>Sums of points\<close>

primrec psum :: "'p G1Ops \<Rightarrow> (nat \<Rightarrow> 'p) \<Rightarrow> nat \<Rightarrow> 'p" where
  "psum P f 0 = g1_zero P"
| "psum P f (Suc n) = g1_Add P (psum P f n) (f n)"

lemma psum_cong: "(\<And>i. i < n \<Longrightarrow> f i = g i) \<Longrightarrow> psum P f n = psum P g n"
  by (induction n) simp_all

lemma psum_zero: "g1_laws P \<Longrightarrow> psum P (\<lambda>_. g1_zero P) n = g1_zero P"
  by (induction n) (simp_all add: g1_add_0)

lemma psum_add: "g1_laws P \<Longrightarrow> psum P (\<lambda>i. g1_Add P (f i) (g i)) n = g1_Add P (psum P f n) (psum P g n)"
proof (induction n)
  case (Suc n)
  then show ?case by (simp add: g1_ac[OF Suc.prems])
qed (simp add: g1_add_0)

lemma psum_mul: "g1_laws P \<Longrightarrow> psum P (\<lambda>i. g1_ScalarMult P (f i) k) n = g1_ScalarMult P (psum P f n) k"
  by (induction n) (simp_all add: g1_zero_mul g1_add_mul)

lemma psum_scalars: "g1_laws P \<Longrightarrow> psum P (\<lambda>i. g1_ScalarMult P Q (c i)) n = g1_ScalarMult P Q (\<Sum>i<n. c i)"
  by (induction n) (simp_all add: g1_mul_0 g1_mul_add)

lemma psum_swap:
  "g1_laws P \<Longrightarrow> psum P (\<lambda>i. psum P (\<lambda>j. f i j) m) n = psum P (\<lambda>j. psum P (\<lambda>i. f i j) n) m"
  by (induction n) (simp_all add: psum_zero psum_add)

lemma psum_split: "g1_laws P \<Longrightarrow> psum P f (m + n) = g1_Add P (psum P f m) (psum P (\<lambda>i. f (m + i)) n)"
  by (induction n) (simp_all add: g1_add_0 g1_assoc)

lemma psum_even_odd:
  "g1_laws P \<Longrightarrow> psum P f (2 * n) = g1_Add P (psum P (\<lambda>i. f (2 * i)) n) (psum P (\<lambda>i. f (2 * i + 1)) n)"
proof (induction n)
  case (Suc n)
  then show ?case by (simp add: g1_ac[OF Suc.prems])
qed (simp add: g1_add_0)

lemma psum_single:
  assumes L: "g1_laws P"
  shows "k < n \<Longrightarrow> (\<And>i. i < n \<Longrightarrow> i \<noteq> k \<Longrightarrow> f i = g1_zero P) \<Longrightarrow> psum P f n = f k"
proof (induction n)
  case (Suc n)
  show ?case
  proof (cases "k = n")
    case True
    then have "psum P f n = psum P (\<lambda>_. g1_zero P) n" using Suc.prems by (intro psum_cong) simp
    then show ?thesis using True by (simp add: psum_zero[OF L] g1_0_add[OF L])
  next
    case False
    then show ?thesis using Suc by (simp add: g1_add_0[OF L])
  qed
qed simp

lemma psum_front: "g1_laws P \<Longrightarrow> psum P f (Suc n) = g1_Add P (f 0) (psum P (\<lambda>i. f (Suc i)) n)"
  using psum_split[of P f 1 n] by (simp add: g1_0_add)

lemma msm_psum:
  assumes L: "g1_laws P" and "length gs = length xs"
  shows "msm P gs xs = psum P (\<lambda>i. g1_ScalarMult P (gs ! i) (xs ! i)) (length gs)"
  using assms(2) by (induction gs xs rule: list_induct2) (simp_all add: psum_front[OF L] del: psum.simps(2))


section \<open>The transform\<close>

text \<open>The root of order \<open>2 ^ k\<close> made from a root \<open>b\<close> of order \<open>2 ^ 28\<close>.\<close>

definition root_of :: "int \<Rightarrow> nat \<Rightarrow> int" where
  "root_of b k = b ^ (2 ^ (28 - k))"

lemma root_of_square: "Suc k \<le> 28 \<Longrightarrow> root_of b k = (root_of b (Suc k))\<^sup>2"
proof -
  assume "Suc k \<le> 28"
  then have "28 - k = Suc (28 - Suc k)" by simp
  then show ?thesis by (simp add: root_of_def power_mult[symmetric] mult.commute)
qed

lemma root_of_half:
  assumes "b ^ (2 ^ 27) mod Order = (- 1) mod Order" "Suc k \<le> 28"
  shows "root_of b (Suc k) ^ (2 ^ k) mod Order = (- 1) mod Order"
proof -
  have "27 = (28 - Suc k) + k" using assms(2) by simp
  then have "root_of b (Suc k) ^ (2 ^ k) = b ^ (2 ^ 27)" by (simp add: root_of_def power_mult[symmetric] power_add[symmetric])
  then show ?thesis using assms(1) by simp
qed

lemma root_of_full:
  assumes "b ^ (2 ^ 27) mod Order = (- 1) mod Order" "Suc k \<le> 28"
  shows "root_of b (Suc k) ^ (2 ^ Suc k) mod Order = 1"
proof -
  have "root_of b (Suc k) ^ (2 ^ Suc k) = (root_of b (Suc k) ^ (2 ^ k)) * (root_of b (Suc k) ^ (2 ^ k))"
    by (simp add: power_mult[symmetric] power_add[symmetric] mult_2)
  then show ?thesis
    using mult_mod_cong[OF root_of_half[OF assms] root_of_half[OF assms]] by (simp add: Order_def)
qed

lemma fft_omegas_power: "i \<le> k \<Longrightarrow> fft_omegas k omega cur ! i mod Order = (cur * omega ^ i) mod Order"
proof (induction k arbitrary: i cur)
  case (Suc k)
  then show ?case
  proof (cases i)
    case (Suc j)
    then have "fft_omegas (Suc k) omega cur ! i mod Order = ((cur * omega) mod Order * omega ^ j) mod Order"
      using Suc.IH[of j "(cur * omega) mod Order"] Suc.prems by simp
    then show ?thesis using Suc by (simp add: mod_mult_left_eq mult.assoc)
  qed simp
qed simp

text \<open>One value of the transform of points.\<close>

definition dft :: "'p G1Ops \<Rightarrow> int \<Rightarrow> 'p list \<Rightarrow> nat \<Rightarrow> 'p" where
  "dft P w xs i = psum P (\<lambda>j. g1_ScalarMult P (xs ! j) (w ^ (i * j))) (length xs)"

lemma parity_part_nth:
  assumes "length xs = 2 * n" "j < n"
  shows "parity_part False xs ! j = xs ! (2 * j)" "parity_part True xs ! j = xs ! (2 * j + 1)"
  using assms by (simp_all add: parity_part_def filter_parity filter_parity(2)[simplified])

lemma dft_split:
  assumes L: "g1_laws P" and n: "length xs = 2 * n" and v: "v mod Order = w\<^sup>2 mod Order"
  shows "dft P w xs i = g1_Add P (dft P v (parity_part False xs) i) (g1_ScalarMult P (dft P v (parity_part True xs) i) (w ^ i))"
proof -
  have len: "length (parity_part c xs) = n" for c using n by (simp add: length_parity_part)
  have pw: "w ^ (i * (2 * j)) mod Order = v ^ (i * j) mod Order" for j
  proof -
    have "w ^ (i * (2 * j)) = (w\<^sup>2) ^ (i * j)" by (simp add: power_mult[symmetric] mult.left_commute)
    then show ?thesis by (metis power_mod v)
  qed
  have ev: "psum P (\<lambda>j. g1_ScalarMult P (xs ! (2 * j)) (w ^ (i * (2 * j)))) n = dft P v (parity_part False xs) i"
    unfolding dft_def len by (intro psum_cong) (simp add: parity_part_nth[OF n] g1_mul_cong[OF L pw])
  have "psum P (\<lambda>j. g1_ScalarMult P (xs ! (2 * j + 1)) (w ^ (i * (2 * j + 1)))) n =
      psum P (\<lambda>j. g1_ScalarMult P (g1_ScalarMult P (parity_part True xs ! j) (v ^ (i * j))) (w ^ i)) n"
  proof (intro psum_cong)
    fix j assume "j < n"
    have c: "w ^ (i * (2 * j + 1)) mod Order = (v ^ (i * j) * w ^ i) mod Order"
      using mult_mod_cong[OF pw[of j] refl, of "w ^ i"] by (simp add: power_add distrib_left mult.commute[of "w ^ i"])
    show "g1_ScalarMult P (xs ! (2 * j + 1)) (w ^ (i * (2 * j + 1))) =
        g1_ScalarMult P (g1_ScalarMult P (parity_part True xs ! j) (v ^ (i * j))) (w ^ i)"
      unfolding parity_part_nth(2)[OF n \<open>j < n\<close>] g1_mul_mul[OF L] by (rule g1_mul_cong[OF L c])
  qed
  then have od: "psum P (\<lambda>j. g1_ScalarMult P (xs ! (2 * j + 1)) (w ^ (i * (2 * j + 1)))) n =
      g1_ScalarMult P (dft P v (parity_part True xs) i) (w ^ i)"
    by (simp add: psum_mul[OF L] dft_def len)
  have "dft P w xs i = psum P (\<lambda>j. g1_ScalarMult P (xs ! j) (w ^ (i * j))) (2 * n)" by (simp add: dft_def n)
  then show ?thesis unfolding psum_even_odd[OF L] ev od .
qed

lemma dft_period:
  assumes L: "g1_laws P" and w: "w ^ n mod Order = 1"
  shows "dft P w xs (i + n) = dft P w xs i"
proof -
  have "w ^ ((i + n) * j) mod Order = w ^ (i * j) mod Order" for j
  proof -
    have "w ^ ((i + n) * j) = w ^ (i * j) * (w ^ n) ^ j" by (simp add: distrib_right power_add power_mult)
    moreover have "(w ^ n) ^ j mod Order = 1 mod Order" using w by (metis power_mod power_one)
    ultimately show ?thesis using mult_mod_cong[OF refl, of "(w ^ n) ^ j" Order 1 "w ^ (i * j)"] by simp
  qed
  then show ?thesis unfolding dft_def by (intro psum_cong) (rule g1_mul_cong[OF L])
qed


text \<open>One step of the recursion: the two halves of the result from the transforms of the two parities.\<close>

lemma dft_butterfly:
  assumes L: "g1_laws P" and n: "length xs = 2 * n" and v: "v mod Order = w\<^sup>2 mod Order"
    and half: "w ^ n mod Order = (- 1) mod Order"
  shows "dft P w xs (n + i) = g1_Add P (dft P v (parity_part False xs) i)
    (g1_Neg P (g1_ScalarMult P (dft P v (parity_part True xs) i) (w ^ i)))"
proof -
  have "v ^ n mod Order = (w ^ n * w ^ n) mod Order"
    by (metis v power_mod power_mult_distrib power2_eq_square)
  also have "\<dots> = 1" using mult_mod_cong[OF half half] by (simp add: Order_def)
  finally have vn: "v ^ n mod Order = 1" .
  have c: "(w ^ (n + i)) mod Order = (w ^ i * - 1) mod Order"
    using mult_mod_cong[OF half refl, of "w ^ i"] by (simp add: power_add)
  have "g1_ScalarMult P Q (w ^ (n + i)) = g1_Neg P (g1_ScalarMult P Q (w ^ i))" for Q
    unfolding g1_neg[OF L] g1_mul_mul[OF L] by (rule g1_mul_cong[OF L c])
  then show ?thesis
    using dft_split[OF L n v, of "n + i"] dft_period[OF L vn, of _ i] by (simp add: add.commute)
qed

lemma dft_pv_Extract: "pv_Extract xs c = parity_part c xs"
  by (simp add: pv_Extract_def)

text \<open>The transform scaled by \<open>sc ^ k\<close>: no scaling forwards, halves backwards.\<close>

lemma fft_dft:
  assumes L: "g1_laws P" and b: "b ^ (2 ^ 27) mod Order = (- 1) mod Order"
    and om: "\<And>k. k \<le> 28 \<Longrightarrow> \<exists>om. fft_omega (2 ^ k) invs = Inr om \<and> om mod Order = root_of b k mod Order"
    and sc: "if invs then ModInverse 2 Order = Some sc else sc = 1"
  shows "length xs = 2 ^ k \<Longrightarrow> k \<le> 28 \<Longrightarrow>
    fft_GeneratorVector P xs invs = Inr (map (\<lambda>i. g1_ScalarMult P (dft P (root_of b k) xs i) (sc ^ k)) [0..<2 ^ k])"
proof (induction k arbitrary: xs)
  case 0
  then obtain x where "xs = [x]" by (auto simp: length_Suc_conv)
  then show ?case by (simp add: fft_GeneratorVector.simps dft_def g1_mul_1[OF L] g1_0_add[OF L])
next
  case (Suc k)
  let ?n = "2 ^ k :: nat" and ?w = "root_of b (Suc k)" and ?v = "root_of b k"
  have n: "length xs = 2 * ?n" using Suc.prems by simp
  have v: "?v mod Order = ?w\<^sup>2 mod Order" using root_of_square[of k b] Suc.prems by simp
  define ev where "ev = map (\<lambda>i. g1_ScalarMult P (dft P ?v (parity_part False xs) i) (sc ^ k)) [0..<?n]"
  define od where "od = map (\<lambda>i. g1_ScalarMult P (dft P ?v (parity_part True xs) i) (sc ^ k)) [0..<?n]"
  have IH: "fft_GeneratorVector P (pv_Extract xs False) invs = Inr ev" "fft_GeneratorVector P (pv_Extract xs True) invs = Inr od"
    unfolding dft_pv_Extract ev_def od_def using n Suc.prems by (intro Suc.IH; simp add: length_parity_part)+
  obtain om where o: "fft_omega (length xs) invs = Inr om" "om mod Order = ?w mod Order"
    using om[OF Suc.prems(2)] Suc.prems(1) by auto
  let ?os = "fft_omegas (?n - 1) om 1"
  define h where "h = map2 (g1_ScalarMult P) od ?os"
  have hn: "length h = ?n" by (simp add: h_def od_def)
  have os: "g1_ScalarMult P Q (?os ! i) = g1_ScalarMult P Q (?w ^ i)" if "i < ?n" for Q i
  proof -
    have "?os ! i mod Order = ?w ^ i mod Order"
      using fft_omegas_power[of i "?n - 1" om 1] that o(2) by (metis Suc_pred' less_Suc_eq_le mult_1 power_mod zero_less_power zero_less_numeral)
    then show ?thesis by (rule g1_mul_cong[OF L])
  qed
  have h: "h ! i = g1_ScalarMult P (g1_ScalarMult P (dft P ?v (parity_part True xs) i) (?w ^ i)) (sc ^ k)" if "i < ?n" for i
    using that os[OF that, of "g1_ScalarMult P (dft P ?v (parity_part True xs) i) (sc ^ k)"]
    by (simp add: h_def od_def) (simp add: g1_mul_mul[OF L] mult.commute)
  let ?res = "map2 (g1_Add P) ev h @ map2 (g1_Add P) ev (map (g1_Neg P) h)"
  have res: "?res = map (\<lambda>i. g1_ScalarMult P (dft P ?w xs i) (sc ^ k)) [0..<2 ^ Suc k]"
  proof (rule nth_equalityI)
    fix i assume "i < length ?res"
    then have i: "i < 2 * ?n" by (simp add: hn ev_def)
    show "?res ! i = map (\<lambda>i. g1_ScalarMult P (dft P ?w xs i) (sc ^ k)) [0..<2 ^ Suc k] ! i"
    proof (cases "i < ?n")
      case True
      then show ?thesis using dft_split[OF L n v, of i] h hn
        by (simp add: nth_append ev_def g1_add_mul[OF L])
    next
      case False
      then obtain j where j: "i = ?n + j" "j < ?n" using i by (metis add_less_cancel_left le_iff_add mult_2 not_le)
      then show ?thesis using dft_butterfly[OF L n v root_of_half[OF b Suc.prems(2)], of j] h hn
        by (simp add: nth_append ev_def g1_add_mul[OF L] g1_neg[OF L] g1_mul_mul[OF L] mult.commute)
    qed
  qed (simp add: hn ev_def)
  have "fft_GeneratorVector P xs invs = (if invs then rbind (rderef (ModInverse 2 Order)) (\<lambda>half. Inr (pv_Times P ?res half)) else Inr ?res)"
  proof -
    have "pv_Hadamard P od (fft_omegas (length xs div 2 - 1) om 1) = Inr h"
      using n by (simp add: pv_Hadamard_def h_def od_def)
    moreover have "pv_Add P ev h = Inr (map2 (g1_Add P) ev h)" "pv_Add P ev (pv_Negate P h) = Inr (map2 (g1_Add P) ev (map (g1_Neg P) h))"
      using hn by (simp_all add: pv_Add_def pv_Negate_def ev_def)
    ultimately show ?thesis
      using n IH o(1) by (subst fft_GeneratorVector.simps) (simp add: pv_Concat_def Let_def)
  qed
  then show ?case
    unfolding res using sc by (cases invs) (simp_all add: pv_Times_def rderef_def g1_mul_mul[OF L] mult.commute)
qed


section \<open>Forwards and backwards\<close>

definition unity_inv :: int where
  "unity_inv = unity ^ (2 ^ 28 - 1)"

lemma unity_full: "unity ^ (2 ^ 28) mod Order = 1"
proof -
  have "unity ^ (2 ^ 28) = unity ^ (2 ^ 27) * unity ^ (2 ^ 27)"
    by (simp only: power_add[symmetric]) simp
  then show ?thesis using mult_mod_cong[OF unity_minus_1 unity_minus_1] by (simp add: Order_def)
qed

lemma unity_inverse: "(unity * unity_inv) mod Order = 1"
proof -
  have "unity * unity_inv = unity ^ (2 ^ 28)"
    unfolding unity_inv_def by (simp only: power_Suc[symmetric]) simp
  then show ?thesis using unity_full by simp
qed

lemma unity_inv_minus_1: "unity_inv ^ (2 ^ 27) mod Order = (- 1) mod Order"
proof -
  have "unity_inv ^ (2 ^ 27) = (unity ^ (2 ^ 27)) ^ (2 ^ 28 - 1)"
    unfolding unity_inv_def by (simp only: power_mult[symmetric] mult.commute)
  also have "\<dots> mod Order = ((- 1) mod Order) ^ (2 ^ 28 - 1) mod Order"
    by (simp only: power_mod[symmetric, of "unity ^ (2 ^ 27)"] unity_minus_1)
  also have "\<dots> = (- 1) ^ (2 ^ 28 - 1) mod Order" by (rule power_mod)
  also have "\<dots> = (- 1) mod Order" by simp
  finally show ?thesis .
qed

lemma inverse_powers: "(a * b) mod Order = 1 \<Longrightarrow> (a ^ n * b ^ n) mod Order = 1"
  by (metis power_mult_distrib power_mod power_one Order_pos(2) mod_pos_pos_trivial zero_le_one)

lemma inverse_unique:
  assumes "(a * x) mod Order = 1" "(a * y) mod Order = 1"
  shows "x mod Order = y mod Order"
proof -
  have "x mod Order = (x * (a * y)) mod Order" using assms(2) by (metis mod_mult_right_eq mult.right_neutral)
  also have "\<dots> = (y * (a * x)) mod Order" by (simp add: ac_simps)
  also have "\<dots> = y mod Order" using assms(1) by (metis mod_mult_right_eq mult.right_neutral)
  finally show ?thesis .
qed

lemma unit_coprime: "(a * b) mod Order = 1 \<Longrightarrow> coprime a Order"
proof (rule coprimeI)
  fix c assume "(a * b) mod Order = 1" "c dvd a" "c dvd Order"
  then have "c dvd 1" by (metis dvd_mod_iff dvd_mult2)
  then show "is_unit c" .
qed

lemma fft_omega_forward: "k \<le> 28 \<Longrightarrow> fft_omega (2 ^ k) False = Inr (root_of unity k mod Order)"
proof -
  assume k: "k \<le> 28"
  have "(2 :: int) ^ 28 div int (2 ^ k) = 2 ^ (28 - k)" using k by (simp add: power_diff)
  then have "mod_exp unity (2 ^ 28 div int (2 ^ k)) Order = root_of unity k mod Order"
    by (simp only: mod_exp_power zero_le_power zero_le_numeral root_of_def nat_power_eq nat_numeral)
  then show ?thesis by (simp add: fft_omega_def Let_def)
qed

lemma fft_omega_backward: "k \<le> 28 \<Longrightarrow> \<exists>om. fft_omega (2 ^ k) True = Inr om \<and> om mod Order = root_of unity_inv k mod Order"
proof -
  assume k: "k \<le> 28"
  have i: "((root_of unity k mod Order) * root_of unity_inv k) mod Order = 1"
    unfolding root_of_def using inverse_powers[OF unity_inverse] by (simp add: mod_mult_left_eq)
  obtain y where y: "ModInverse (root_of unity k mod Order) Order = Some y" "((root_of unity k mod Order) * y) mod Order = 1"
    using ModInverse_spec[of Order "root_of unity k mod Order"] unit_coprime[OF i] by auto
  have "fft_omega (2 ^ k) True = rbind (fft_omega (2 ^ k) False) (\<lambda>om. rderef (ModInverse om Order))"
    by (simp only: fft_omega_def Let_def if_True if_False rbind_simps)
  then have "fft_omega (2 ^ k) True = Inr y" using fft_omega_forward[OF k] y(1) by (simp only: rbind_simps rderef_def option.case)
  then show ?thesis using inverse_unique[OF y(2) i] by blast
qed

lemma fft_forward:
  assumes "g1_laws P" "length xs = 2 ^ k" "k \<le> 28"
  shows "fft_GeneratorVector P xs False = Inr (map (dft P (root_of unity k) xs) [0..<2 ^ k])"
  using fft_dft[OF assms(1) unity_minus_1, of False 1 xs k] fft_omega_forward assms by (simp add: g1_mul_1)

definition half :: int where
  "half = the (ModInverse 2 Order)"

lemma half: "ModInverse 2 Order = Some half" "(2 * half) mod Order = 1"
proof -
  have "coprime (2 :: int) Order" by (simp add: Order_def)
  then show "ModInverse 2 Order = Some half" "(2 * half) mod Order = 1"
    using ModInverse_spec[of Order 2] by (auto simp: half_def)
qed

lemma fft_backward:
  assumes "g1_laws P" "length xs = 2 ^ k" "k \<le> 28"
  shows "fft_GeneratorVector P xs True = Inr (map (\<lambda>i. g1_ScalarMult P (dft P (root_of unity_inv k) xs i) (half ^ k)) [0..<2 ^ k])"
  using fft_dft[OF assms(1) unity_inv_minus_1, of True half xs k] fft_omega_backward half(1) assms by simp

lemma fft_scalars:
  assumes "length xs = 2 ^ k" "k \<le> 28"
  shows "\<exists>ys. fft_FieldVector xs False = Inr ys \<and> length ys = 2 ^ k \<and>
    (\<forall>i < 2 ^ k. ys ! i mod Order = (\<Sum>j<2 ^ k. xs ! j * root_of unity k ^ (i * j)) mod Order)"
proof -
  let ?R = "residue_curve" and ?w = "root_of unity k"
  let ?m = "multiples ?R (residue 1)"
  have mul: "g1_ScalarMult ?R (residue 1) n = residue n" for n
    by (simp add: residue_curve_def residue_int_residue)
  have "fft_GeneratorVector ?R (?m xs) False = Inr (map (dft ?R ?w (?m xs)) [0..<2 ^ k])"
    using assms by (intro fft_forward[OF residue_laws]) simp_all
  then obtain ys where ys: "fft_FieldVector xs False = Inr ys" "?m ys = map (dft ?R ?w (?m xs)) [0..<2 ^ k]"
    using fft_points[OF residue_laws, of "residue 1" xs False] by (cases "fft_FieldVector xs False") auto
  have len: "length ys = 2 ^ k" using arg_cong[OF ys(2), of length] by simp
  have "ys ! i mod Order = (\<Sum>j<2 ^ k. xs ! j * ?w ^ (i * j)) mod Order" if "i < 2 ^ k" for i
  proof -
    have "residue (ys ! i) = dft ?R ?w (?m xs) i"
      using arg_cong[OF ys(2), of "\<lambda>l. l ! i"] that len by (simp add: multiples_def mul)
    also have "\<dots> = psum ?R (\<lambda>j. g1_ScalarMult ?R (residue 1) (xs ! j * ?w ^ (i * j))) (2 ^ k)"
      unfolding dft_def length_multiples assms(1)
      by (intro psum_cong) (use assms(1) in \<open>simp add: multiples_def g1_mul_mul[OF residue_laws]\<close>)
    also have "\<dots> = residue (\<Sum>j<2 ^ k. xs ! j * ?w ^ (i * j))"
      unfolding psum_scalars[OF residue_laws] by (rule mul)
    finally show ?thesis by (simp add: residue_eq)
  qed
  then show ?thesis using ys(1) len by blast
qed


section \<open>Orthogonality\<close>

lemma geometric_double: "(\<Sum>l<2 ^ Suc k. x ^ l) = (1 + x ^ (2 ^ k)) * (\<Sum>l<2 ^ k. (x :: int) ^ l)"
proof -
  have "(\<Sum>l<2 ^ k + 2 ^ k. x ^ l) = (\<Sum>l<2 ^ k. x ^ l) + (\<Sum>l<2 ^ k. x ^ (2 ^ k + l))"
    by (rule sum.nat_group[symmetric, of _ 2, simplified] | simp add: lessThan_atLeast0 sum.atLeastLessThan_concat[symmetric, of 0 "2 ^ k" "2 ^ k + 2 ^ k"] sum.shift_bounds_nat_ivl[of _ 0 "2 ^ k" "2 ^ k", simplified] add.commute)
  then show ?thesis by (simp add: power_add distrib_right sum_distrib_left sum.distrib mult_2)
qed

lemma geometric_root:
  assumes b: "b ^ (2 ^ 27) mod Order = (- 1) mod Order"
  shows "k \<le> 28 \<Longrightarrow> \<not> 2 ^ k dvd e \<Longrightarrow> (\<Sum>l<2 ^ k. (root_of b k ^ e) ^ l) mod Order = 0"
proof (induction k arbitrary: e)
  case (Suc k)
  show ?case
  proof (cases "even e")
    case True
    then obtain d where e: "e = 2 * d" by auto
    then have "root_of b (Suc k) ^ e = root_of b k ^ d" using root_of_square[of k b] Suc.prems by (simp add: power_mult)
    moreover have "(\<Sum>l<2 ^ k. (root_of b k ^ d) ^ l) mod Order = 0" using Suc e by simp
    ultimately show ?thesis unfolding geometric_double by (simp add: mod_eq_0_iff_dvd)
  next
    case False
    have "(root_of b (Suc k) ^ e) ^ (2 ^ k) = (root_of b (Suc k) ^ (2 ^ k)) ^ e"
      by (simp add: power_mult[symmetric] mult.commute)
    also have "\<dots> mod Order = ((- 1) mod Order) ^ e mod Order"
      using root_of_half[OF b Suc.prems(1)] by (metis power_mod)
    also have "\<dots> = (- 1) mod Order" using False by (simp add: power_mod)
    finally have "(1 + (root_of b (Suc k) ^ e) ^ (2 ^ k)) mod Order = 0"
      by (metis add.right_inverse mod_0 mod_add_right_eq)
    then show ?thesis unfolding geometric_double by (simp add: mod_eq_0_iff_dvd)
  qed
qed simp

text \<open>What transforming forwards, multiplying, folding in halves and transforming backwards leaves of one coefficient.\<close>

lemma root_of_inv:
  assumes "k \<le> 28"
  shows "(root_of unity k * root_of unity_inv k) mod Order = 1"
  unfolding root_of_def by (rule inverse_powers[OF unity_inverse])

lemma root_of_power_full: "b ^ (2 ^ 27) mod Order = (- 1) mod Order \<Longrightarrow> k \<le> 28 \<Longrightarrow> root_of b k ^ (2 ^ k) mod Order = 1"
proof (cases k)
  case 0
  assume b: "b ^ (2 ^ 27) mod Order = (- 1) mod Order"
  have "root_of b 0 = root_of b 1 ^ (2 ^ Suc 0)" using root_of_square[of 0 b] by simp
  then show ?thesis using root_of_full[OF b, of 0] 0 by simp
qed (simp only: root_of_full)

lemma root_of_inv_power:
  assumes "k \<le> 28"
  shows "root_of unity_inv k mod Order = root_of unity k ^ (2 ^ k - 1) mod Order"
proof (rule inverse_unique)
  show "(root_of unity k * root_of unity_inv k) mod Order = 1" by (rule root_of_inv[OF assms])
  have "root_of unity k * root_of unity k ^ (2 ^ k - 1) = root_of unity k ^ (2 ^ k)"
    by (metis One_nat_def Suc_pred pos2 power_Suc zero_less_power)
  then show "(root_of unity k * root_of unity k ^ (2 ^ k - 1)) mod Order = 1"
    using root_of_power_full[OF unity_minus_1 assms] by simp
qed

lemma sum_mod_cong:
  "(\<And>i. i \<in> A \<Longrightarrow> f i mod m = g i mod m) \<Longrightarrow> (\<Sum>i\<in>A. f i) mod m = (\<Sum>i\<in>A. g i :: int) mod m"
proof (induction A rule: infinite_finite_induct)
  case (insert x F)
  then show ?case using mod_add_cong[of "f x" m "g x" "\<Sum>i\<in>F. f i" "\<Sum>i\<in>F. g i"] by simp
qed simp_all

lemma mod_shift: "(x + n - y) mod n = (x - y) mod (n :: int)"
  using mod_add_self2[of "x - y" n] by (simp add: algebra_simps)

lemma residue_of_sum:
  assumes "m < n" "j < n" "a \<le> n"
  shows "n dvd (n - 1) * a + j + m \<longleftrightarrow> m = (a + n - j) mod (n :: nat)"
proof -
  have e: "int ((n - 1) * a + j + m) = int n * int a + (int m - (int a - int j))"
    using assms by (cases n) (simp_all add: algebra_simps)
  have "n dvd (n - 1) * a + j + m \<longleftrightarrow> int n dvd int m - (int a - int j)"
    using e by (metis int_dvd_int_iff dvd_add_right_iff dvd_triv_left)
  also have "\<dots> \<longleftrightarrow> int m mod int n = (int a - int j) mod int n" by (rule mod_eq_dvd_iff[symmetric])
  also have "(int a - int j) mod int n = int ((a + n - j) mod n)"
    using assms by (simp add: of_nat_mod of_nat_diff mod_shift)
  finally show ?thesis using assms(1) by simp
qed

lemma flip_index:
  assumes "j < n" "a \<le> n" "0 < n"
  shows "(n - (a + n - j) mod n) mod n = (j + n - a) mod (n :: nat)"
proof -
  have m: "(a + n - j) mod n < n" using assms(3) by simp
  have "int ((n - (a + n - j) mod n) mod n) = (int n - int (a + n - j)) mod int n"
    using m by (simp add: of_nat_mod of_nat_diff mod_minus_eq)
  also have "\<dots> = int ((j + n - a) mod n)" using assms by (simp add: of_nat_mod of_nat_diff mod_shift)
  finally show ?thesis by simp
qed

text \<open>One coefficient of the convolution: of all the products only the one with matching indices remains.\<close>

lemma convolution_coefficient:
  fixes k :: nat
  defines "w \<equiv> root_of unity k" and "u \<equiv> root_of unity_inv k" and "n \<equiv> (2 :: nat) ^ k"
  assumes "k \<le> 28" "j < n" "a \<le> n"
  shows "(half ^ k * (\<Sum>l<n. u ^ (l * a) * w ^ (l * j) * (\<Sum>m<n. x m * w ^ (l * m)))) mod Order = x ((a + n - j) mod n) mod Order"
proof -
  let ?S = "\<lambda>m. \<Sum>l<n. (w ^ ((n - 1) * a + j + m)) ^ l"
  have u: "u mod Order = w ^ (n - 1) mod Order" unfolding u_def w_def n_def by (rule root_of_inv_power[OF assms(4)])
  have s1: "(\<Sum>l<n. u ^ (l * a) * w ^ (l * j) * (\<Sum>m<n. x m * w ^ (l * m))) = (\<Sum>l<n. \<Sum>m<n. u ^ (l * a) * (w ^ (l * j) * (x m * w ^ (l * m))))"
    by (simp add: sum_distrib_left mult.assoc)
  have s2: "(\<Sum>l<n. \<Sum>m<n. u ^ (l * a) * (w ^ (l * j) * (x m * w ^ (l * m)))) mod Order =
      (\<Sum>l<n. \<Sum>m<n. w ^ ((n - 1) * (l * a)) * (w ^ (l * j) * (x m * w ^ (l * m)))) mod Order"
  proof (intro sum_mod_cong mult_mod_cong refl)
    fix l show "u ^ (l * a) mod Order = w ^ ((n - 1) * (l * a)) mod Order" by (metis power_mod power_mult u)
  qed
  have s3: "(\<Sum>l<n. \<Sum>m<n. w ^ ((n - 1) * (l * a)) * (w ^ (l * j) * (x m * w ^ (l * m)))) = (\<Sum>m<n. x m * ?S m)"
    unfolding sum_distrib_left
    by (subst sum.swap) (simp add: power_mult[symmetric] power_add[symmetric] algebra_simps)
  have main: "(\<Sum>l<n. u ^ (l * a) * w ^ (l * j) * (\<Sum>m<n. x m * w ^ (l * m))) mod Order = (\<Sum>m<n. x m * ?S m) mod Order"
    unfolding s1 s2 s3 ..
  let ?m = "(a + n - j) mod n"
  have S: "?S m mod Order = (if m = ?m then int n else 0) mod Order" if mn: "m < n" for m
  proof (cases "m = ?m")
    case True
    then obtain q where "(n - 1) * a + j + m = n * q" using residue_of_sum[OF mn assms(5,6)] by (auto elim: dvdE)
    then have "w ^ ((n - 1) * a + j + m) mod Order = 1"
      using root_of_power_full[OF unity_minus_1 assms(4)] unfolding w_def n_def
      by (metis power_mult power_mod power_one Order_pos(2) mod_pos_pos_trivial zero_le_one)
    then have "(w ^ ((n - 1) * a + j + m)) ^ l mod Order = 1 mod Order" for l by (metis power_mod power_one)
    then have "?S m mod Order = (\<Sum>l<n. 1) mod Order" by (intro sum_mod_cong)
    then show ?thesis using True by simp
  next
    case False
    then show ?thesis using geometric_root[OF unity_minus_1 assms(4), of "(n - 1) * a + j + m"] residue_of_sum[OF mn assms(5,6)]
      by (simp add: w_def n_def)
  qed
  have "(\<Sum>m<n. x m * ?S m) mod Order = (\<Sum>m<n. x m * (if m = ?m then int n else 0)) mod Order"
    by (intro sum_mod_cong mult_mod_cong refl S) simp
  also have "(\<Sum>m<n. x m * (if m = ?m then int n else 0)) = x ?m * int n"
    using assms(5) by (simp add: if_distrib[of "\<lambda>c. _ * c"] cong: if_cong)
  finally have "(half ^ k * (\<Sum>l<n. u ^ (l * a) * w ^ (l * j) * (\<Sum>m<n. x m * w ^ (l * m)))) mod Order = (half ^ k * (x ?m * int n)) mod Order"
    by (intro mult_mod_cong refl trans[OF main])
  also have "half ^ k * (x ?m * int n) = x ?m * (2 ^ k * half ^ k)"
    unfolding n_def of_nat_power of_nat_numeral by (simp only: ac_simps)
  also have "(x ?m * (2 ^ k * half ^ k)) mod Order = x ?m mod Order" using inverse_powers[OF half(2), of k] by (metis mod_mult_right_eq mult.right_neutral)
  finally show ?thesis .
qed

text \<open>Folding the two halves before transforming back at half the size.\<close>

lemma dft_folded:
  assumes L: "g1_laws P" and k: "Suc k \<le> 28" and "length lo = 2 ^ k" "length hi = 2 ^ k"
  shows "dft P (root_of unity_inv k) (map2 (g1_Add P) lo hi) t = dft P (root_of unity_inv (Suc k)) (lo @ hi) (2 * t)"
proof -
  let ?v = "root_of unity_inv k" and ?u = "root_of unity_inv (Suc k)" and ?n = "2 ^ k :: nat"
  have v: "?v = ?u ^ 2" by (rule root_of_square[OF k])
  have lo: "?u ^ (2 * t * j) = ?v ^ (t * j)" for j by (simp add: v power_mult[symmetric] mult.assoc)
  have "?u ^ (2 * t * (?n + j)) mod Order = ?v ^ (t * j) mod Order" for j
  proof -
    have "?u ^ (2 * t * (?n + j)) = (?u ^ (2 ^ Suc k)) ^ t * ?v ^ (t * j)"
      unfolding lo[symmetric] by (simp add: power_mult[symmetric] power_add[symmetric] algebra_simps)
    moreover have "(?u ^ (2 ^ Suc k)) ^ t mod Order = 1 mod Order"
      using root_of_full[OF unity_inv_minus_1 k] by (metis power_mod power_one)
    ultimately show ?thesis using mult_mod_cong[OF _ refl, of "(?u ^ (2 ^ Suc k)) ^ t" Order 1 "?v ^ (t * j)"] by simp
  qed
  then have hi: "g1_ScalarMult P Q (?u ^ (2 * t * (?n + j))) = g1_ScalarMult P Q (?v ^ (t * j))" for Q j
    by (intro g1_mul_cong[OF L])
  have "dft P ?u (lo @ hi) (2 * t) = g1_Add P (psum P (\<lambda>j. g1_ScalarMult P (lo ! j) (?v ^ (t * j))) ?n)
      (psum P (\<lambda>j. g1_ScalarMult P (hi ! j) (?v ^ (t * j))) ?n)"
  proof -
    have "(lo @ hi) ! j = lo ! j" "(lo @ hi) ! (?n + j) = hi ! j" if "j < ?n" for j
      using that assms(3) by (simp_all only: nth_append if_True not_add_less1 if_False diff_add_inverse)
    then have "psum P (\<lambda>j. g1_ScalarMult P ((lo @ hi) ! j) (?v ^ (t * j))) ?n = psum P (\<lambda>j. g1_ScalarMult P (lo ! j) (?v ^ (t * j))) ?n"
      "psum P (\<lambda>j. g1_ScalarMult P ((lo @ hi) ! (?n + j)) (?v ^ (t * j))) ?n = psum P (\<lambda>j. g1_ScalarMult P (hi ! j) (?v ^ (t * j))) ?n"
      by (auto intro!: psum_cong)
    then show ?thesis unfolding dft_def length_append assms(3,4) psum_split[OF L] hi unfolding lo by (simp only:)
  qed
  also have "\<dots> = dft P ?v (map2 (g1_Add P) lo hi) t"
    unfolding dft_def psum_add[OF L, symmetric] length_map length_zip assms(3,4) min.idem
    by (rule psum_cong) (simp only: nth_map nth_zip length_zip assms(3,4) min.idem g1_add_mul[OF L] split)
  finally show ?thesis by simp
qed

lemma dft_times:
  assumes L: "g1_laws P"
  shows "g1_ScalarMult P (dft P u (pv_Times P xs h) t) (h ^ k) = g1_ScalarMult P (dft P u xs t) (h ^ Suc k)"
proof -
  have "dft P u (pv_Times P xs h) t = g1_ScalarMult P (dft P u xs t) h"
    unfolding dft_def psum_mul[OF L, symmetric] pv_Times_def length_map
    by (intro psum_cong) (simp add: g1_mul_mul[OF L] mult.commute)
  then show ?thesis by (simp add: g1_mul_mul[OF L])
qed

lemma dft_products:
  assumes L: "g1_laws P" and "length xs = n" "length ys = n" "\<And>l. l < n \<Longrightarrow> ys ! l mod Order = c l mod Order"
  shows "g1_ScalarMult P (dft P u (map2 (g1_ScalarMult P) (map (dft P w xs) [0..<n]) ys) a) h =
    psum P (\<lambda>j. g1_ScalarMult P (xs ! j) (h * (\<Sum>l<n. u ^ (l * a) * w ^ (l * j) * c l))) n"
proof -
  have "g1_ScalarMult P (dft P u (map2 (g1_ScalarMult P) (map (dft P w xs) [0..<n]) ys) a) h =
      psum P (\<lambda>l. psum P (\<lambda>j. g1_ScalarMult P (xs ! j) (h * (u ^ (l * a) * w ^ (l * j) * c l))) n) n"
    unfolding dft_def psum_mul[OF L, symmetric]
  proof (simp only: length_map length_zip length_upt assms min.idem diff_zero, intro psum_cong)
    fix l assume l: "l < n"
    have "map2 (g1_ScalarMult P) (map (\<lambda>i. psum P (\<lambda>j. g1_ScalarMult P (xs ! j) (w ^ (i * j))) n) [0..<n]) ys ! l =
        psum P (\<lambda>j. g1_ScalarMult P (g1_ScalarMult P (xs ! j) (w ^ (l * j))) (c l)) n"
      using l assms g1_mul_cong[OF L assms(4)[OF l]] by (simp add: psum_mul[OF L])
    then show "g1_ScalarMult P (g1_ScalarMult P
        (map2 (g1_ScalarMult P) (map (\<lambda>i. psum P (\<lambda>j. g1_ScalarMult P (xs ! j) (w ^ (i * j))) n) [0..<n]) ys ! l) (u ^ (a * l))) h =
        psum P (\<lambda>j. g1_ScalarMult P (xs ! j) (h * (u ^ (l * a) * w ^ (l * j) * c l))) n"
      by (simp add: psum_mul[OF L, symmetric] g1_mul_mul[OF L] ac_simps)
  qed
  also have "\<dots> = psum P (\<lambda>j. g1_ScalarMult P (xs ! j) (h * (\<Sum>l<n. u ^ (l * a) * w ^ (l * j) * c l))) n"
    unfolding psum_swap[OF L, of _ n n] psum_scalars[OF L] by (simp add: sum_distrib_left)
  finally show ?thesis .
qed

lemma Convolution_rotates:
  assumes L: "g1_laws P" and p: "length exponent = 2 ^ Suc k" and b: "length points = 2 ^ Suc k" and k: "Suc k \<le> 28"
  shows "Convolution P exponent points = Inr (map (\<lambda>t. psum P (\<lambda>j. g1_ScalarMult P (points ! j)
    (exponent ! ((j + 2 ^ Suc k - 2 * t) mod 2 ^ Suc k))) (2 ^ Suc k)) [0..<2 ^ k])"
proof -
  let ?N = "2 ^ Suc k :: nat" and ?w = "root_of unity (Suc k)" and ?u = "root_of unity_inv (Suc k)"
  let ?x = "\<lambda>m. exponent ! ((?N - m) mod ?N)"
  have flip: "length (fv_Flip exponent) = ?N" "\<And>m. m < ?N \<Longrightarrow> fv_Flip exponent ! m = ?x m" using p by (simp_all add: fv_Flip_def)
  obtain ys where ys: "fft_FieldVector (fv_Flip exponent) False = Inr ys" "length ys = ?N"
    "\<And>l. l < ?N \<Longrightarrow> ys ! l mod Order = (\<Sum>m<?N. fv_Flip exponent ! m * ?w ^ (l * m)) mod Order"
    using fft_scalars[OF flip(1) k] by blast
  have ysx: "ys ! l mod Order = (\<Sum>m<?N. ?x m * ?w ^ (l * m)) mod Order" if "l < ?N" for l
    unfolding ys(3)[OF that] by (intro arg_cong[of _ _ "\<lambda>s. s mod Order"] sum.cong refl) (simp only: flip(2) lessThan_iff)
  define temp where "temp = map2 (g1_ScalarMult P) (map (dft P ?w points) [0..<?N]) ys"
  define lo where "lo = take (2 ^ k) temp"
  define hi where "hi = drop (2 ^ k) temp"
  have len: "length temp = ?N" "length lo = 2 ^ k" "length hi = 2 ^ k" by (simp_all add: temp_def lo_def hi_def ys(2))
  have th: "temp = lo @ hi" by (simp add: lo_def hi_def)
  have row: "g1_ScalarMult P (dft P (root_of unity_inv k) (pv_Times P (map2 (g1_Add P) lo hi) half) t) (half ^ k) =
      psum P (\<lambda>j. g1_ScalarMult P (points ! j) (exponent ! ((j + ?N - 2 * t) mod ?N))) ?N" if "t < 2 ^ k" for t
  proof -
    have "g1_ScalarMult P (dft P (root_of unity_inv k) (pv_Times P (map2 (g1_Add P) lo hi) half) t) (half ^ k) =
        g1_ScalarMult P (dft P (root_of unity_inv k) (map2 (g1_Add P) lo hi) t) (half ^ Suc k)"
      by (rule dft_times[OF L])
    also have "\<dots> = g1_ScalarMult P (dft P ?u temp (2 * t)) (half ^ Suc k)"
      by (simp only: dft_folded[OF L k len(2,3)] th)
    also have "\<dots> = psum P (\<lambda>j. g1_ScalarMult P (points ! j)
        (half ^ Suc k * (\<Sum>l<?N. ?u ^ (l * (2 * t)) * ?w ^ (l * j) * (\<Sum>m<?N. ?x m * ?w ^ (l * m))))) ?N"
      unfolding temp_def by (rule dft_products[OF L b ys(2) ysx])
    also have "\<dots> = psum P (\<lambda>j. g1_ScalarMult P (points ! j) (exponent ! ((j + ?N - 2 * t) mod ?N))) ?N"
    proof (intro psum_cong g1_mul_cong[OF L])
      fix j assume j: "j < ?N"
      have t: "2 * t \<le> ?N" using that by simp
      show "(half ^ Suc k * (\<Sum>l<?N. ?u ^ (l * (2 * t)) * ?w ^ (l * j) * (\<Sum>m<?N. ?x m * ?w ^ (l * m)))) mod Order =
          exponent ! ((j + ?N - 2 * t) mod ?N) mod Order"
        by (rule trans[OF convolution_coefficient[OF k j t]]) (simp only: flip_index[OF j t] zero_less_power zero_less_numeral)
    qed
    finally show ?thesis .
  qed
  have backwards: "fft_GeneratorVector P (pv_Times P (map2 (g1_Add P) lo hi) half) True =
      Inr (map (\<lambda>t. g1_ScalarMult P (dft P (root_of unity_inv k) (pv_Times P (map2 (g1_Add P) lo hi) half) t) (half ^ k)) [0..<2 ^ k])"
    using k len by (intro fft_backward[OF L]) (simp_all add: pv_Times_def)
  have "pv_Slice temp 0 (?N div 2) = Inr lo" "pv_Slice temp (?N div 2) ?N = Inr hi"
    using len by (simp_all add: pv_Slice_def slice_ok lo_def hi_def)
  then have "Convolution P exponent points = fft_GeneratorVector P (pv_Times P (map2 (g1_Add P) lo hi) half) True"
    using fft_forward[OF L b k] ys(1,2) len
    by (simp only: Convolution_def Let_def b rbind_simps half(1) rderef_def option.case pv_Hadamard_def pv_Add_def
        length_map length_upt diff_zero temp_def[symmetric] not_not if_False HOL.simp_thms)
  then show ?thesis unfolding backwards using row by simp
qed

text \<open>C23: \<^verbatim>\<open>Convolution\<close>, which goes through three fast transforms, computes the even rows of the circulant product of the
  points with the exponent: for \<open>2 ^ (k + 1)\<close> points and scalars, \<open>k + 1\<close> at most 28, row \<open>t\<close> is the sum over the ring
  of the points times the exponent rotated by \<open>2 t\<close>. The root of unity and the scalings have cancelled.\<close>

theorem Convolution_direct:
  assumes L: "g1_laws P" and p: "length exponent = 2 ^ Suc k" and b: "length points = 2 ^ Suc k" and k: "Suc k \<le> 28"
  shows "Convolution P exponent points = Inr (map (\<lambda>t. psum P (\<lambda>j. g1_ScalarMult P (points ! j)
    (exponent ! ((j + 2 ^ Suc k - 2 * t) mod 2 ^ Suc k))) (2 ^ Suc k)) [0..<2 ^ k])"
  using assms by (rule Convolution_rotates)

theorem Convolution_direct_witness:
  "Convolution residue_curve [5, 7] [residue 3, residue 11] = Inr [residue 92]"
  using Convolution_direct[OF residue_laws, of "[5, 7]" 0 "[residue 3, residue 11]"]
  by (simp add: numeral_2_eq_2 mod_Suc residue_curve_def residue_int_residue residue_eq g1_zero_def) (simp add: Order_def)

end
