(* ===== verification/Proof_Generate.thy ===== *)
theory Proof_Generate
  imports Proof_Verify
begin

text \<open>
  The prover of the ring proof (\<^verbatim>\<open>GenerateProof\<close> of \<^verbatim>\<open>proof_generate.go\<close>), cut into the steps of the code.  The scalars
  it draws are an argument; \<^verbatim>\<open>params\<close>, \<^verbatim>\<open>gparams\<close> and \<^verbatim>\<open>global_pedersen_values\<close> are built by the same
  calls and are one argument.
\<close>

record Witness =
  wt_SecretKey :: int
  wt_R :: int
  wt_TransferAmount :: uint64
  wt_Balance :: uint64
  wt_Index :: "nat list"

record gen_random =
  gr_BA :: int
  gr_sL :: "nat \<Rightarrow> int"
  gr_sR :: "nat \<Rightarrow> int"
  gr_BS :: int
  gr_aa :: "nat \<Rightarrow> int"
  gr_A :: int
  gr_B :: int
  gr_phi :: "nat \<Rightarrow> int"
  gr_chi :: "nat \<Rightarrow> int"
  gr_psi :: "nat \<Rightarrow> int"
  gr_CX :: "nat \<Rightarrow> int"
  gr_T1 :: int
  gr_T2 :: int
  gr_sk :: int
  gr_r :: int
  gr_b :: int
  gr_tau :: int

definition NewPedersenVectorCommitment :: "'p GeneratorParams \<Rightarrow> 'p PedersenVectorCommitment result" where
  "NewPedersenVectorCommitment gp =
     rbind (rderef (gp_GSUM gp)) (\<lambda>gsum.
     Inr \<lparr>pvc_G = gp_G gp, pvc_H = gp_H gp, pvc_GSUM = gsum, pvc_Gs = gp_Gs gp, pvc_Hs = gp_Hs gp,
          pvc_Randomness = None, pvc_Result = None, pvc_gvalues = [], pvc_hvalues = []\<rparr>)"

text \<open>\<^verbatim>\<open>NewPedersenVectorCommitment().Commit(gs, hs)\<close>, of which the prover keeps the point.\<close>

definition vector_commit :: "'p G1Ops \<Rightarrow> 'p GeneratorParams \<Rightarrow> int \<Rightarrow> FieldVector \<Rightarrow> FieldVector \<Rightarrow> 'p result" where
  "vector_commit P gp r gvalues hvalues =
     rbind (NewPedersenVectorCommitment gp) (\<lambda>p.
     rbind (PedersenVectorCommitment_Commit P r p gvalues hvalues) (\<lambda>p. rderef (pvc_Result p)))"

section \<open>The range proof: the bits of the two amounts\<close>

text \<open>\<^verbatim>\<open>SetInt64(int64(amount))\<close> reads the amounts as signed numbers.  The binary digits of the absolute value are
  taken, least significant first; a minus sign counts as a zero digit.\<close>

definition amount_number :: "uint64 \<Rightarrow> uint64 \<Rightarrow> int" where
  "amount_number transfer balance = sint transfer + sint balance * 2 ^ 64"

definition amount_bits :: "uint64 \<Rightarrow> uint64 \<Rightarrow> bool list" where
  "amount_bits transfer balance = map (bit (nat \<bar>amount_number transfer balance\<bar>)) [0..<128]"

definition gen_aL :: "bool list \<Rightarrow> FieldVector" where
  "gen_aL bs = map (\<lambda>b. if b then 1 else 0) bs"

definition gen_aR :: "bool list \<Rightarrow> FieldVector" where
  "gen_aR bs = map (\<lambda>b. if b then 0 else (- 1) mod Order) bs"

section \<open>The bits of the two positions in the ring\<close>

text \<open>The digits of \<^verbatim>\<open>%0mb\<close>, least significant first.\<close>

fun bin_digits :: "nat \<Rightarrow> int list" where
  "bin_digits n = (if n < 2 then [int n] else int (n mod 2) # bin_digits (n div 2))"

declare bin_digits.simps [simp del]

definition index_digits :: "nat \<Rightarrow> nat \<Rightarrow> int list" where
  "index_digits m n = bin_digits n @ replicate (m - length (bin_digits n)) 0"

text \<open>\<^verbatim>\<open>int(math.Log2(float64(n)))\<close>, exact on powers of two.\<close>

fun ilog2 :: "nat \<Rightarrow> nat" where
  "ilog2 n = (if n < 2 then 0 else Suc (ilog2 (n div 2)))"

declare ilog2.simps [simp del]

text \<open>An empty ring passes both tests of the code and panics at the first access.\<close>

definition ring_power :: "nat \<Rightarrow> nat result" where
  "ring_power n =
     (if n = 0 then Inl (Panic ''index out of range'')
      else if \<not> IsPowerOf2 (int n) then Inl (Error ''we need power of 2'')
      else Inr (ilog2 n))"

record 'p gen_bits =
  gb_a :: FieldVector
  gb_b :: FieldVector
  gb_A :: 'p
  gb_B :: 'p

definition gen_selectors ::
  "'p G1Ops \<Rightarrow> 'p GeneratorParams \<Rightarrow> gen_random \<Rightarrow> nat \<Rightarrow> nat list \<Rightarrow> 'p gen_bits result" where
  "gen_selectors P gp rnd m index =
     rbind (rnth index 1) (\<lambda>i1. rbind (rnth index 0) (\<lambda>i0.
     (let a = map (\<lambda>i. if i = 0 \<or> i = m then 0 else gr_aa rnd i) [0..<2 * m];
          b = index_digits m i0 @ index_digits m i1;
          bspecial = map (\<lambda>d. if d = 1 then (- 1) mod Order else 1 mod Order) b
      in
      rbind (fv_Hadamard a bspecial) (\<lambda>c.
      rbind (fv_Hadamard a a) (\<lambda>aa.
      (let d = fv_Negate aa in
       rbind (rnth a 0) (\<lambda>a0. rbind (rnth a m) (\<lambda>am.
       (let e = [(a0 * am) mod Order, (a0 * am) mod Order] in
        rbind (rnth b m) (\<lambda>bm. rbind (rnth a (nat bm * m)) (\<lambda>second.
        rbind (rnth b 0) (\<lambda>b0. rbind (rnth a (nat b0 * m)) (\<lambda>first.
        (let f = [first, (- second) mod Order] in
         rbind (vector_commit P gp (gr_A rnd) a (fv_Concat d e)) (\<lambda>pA.
         rbind (vector_commit P gp (gr_B rnd) b (fv_Concat c f)) (\<lambda>pB.
         Inr \<lparr>gb_a = a, gb_b = b, gb_A = pA, gb_B = pB\<rparr>))))))))))))))))"

section \<open>The ring polynomials\<close>

text \<open>Coefficient \<open>i\<close> of every polynomial; both matrices are indexed by the first list.\<close>

definition gen_transpose :: "nat \<Rightarrow> nat \<Rightarrow> Polynomial list \<Rightarrow> int list list result" where
  "gen_transpose m n polys = rmap (\<lambda>i. rmap (\<lambda>j. rbind (rnth polys j) (\<lambda>p. rnth p i)) [0..<n]) [0..<m]"

definition gen_polynomials :: "nat \<Rightarrow> FieldVector \<Rightarrow> FieldVector \<Rightarrow> (int list list \<times> int list list) result" where
  "gen_polynomials m a b =
     rbind (fv_Slice a 0 m) (\<lambda>a0. rbind (fv_Slice b 0 m) (\<lambda>b0.
     rbind (RecursivePolynomials (NewPolynomial None) a0 b0) (\<lambda>pi.
     rbind (fv_Slice a m (2 * m)) (\<lambda>a1. rbind (fv_Slice b m (2 * m)) (\<lambda>b1.
     rbind (RecursivePolynomials (NewPolynomial None) a1 b1) (\<lambda>qi.
     rbind (gen_transpose m (length pi) pi) (\<lambda>p.
     rbind (gen_transpose m (length pi) qi) (\<lambda>q.
     Inr (p, q)))))))))"

section \<open>The commitments of the rounds\<close>

text \<open>The three ciphertexts of round \<open>i\<close>.\<close>

definition gen_round ::
  "'p G1Ops \<Rightarrow> gen_random \<Rightarrow> 'p Statement \<Rightarrow> 'p ElGamal list \<Rightarrow> 'p \<Rightarrow> nat \<Rightarrow> int list \<Rightarrow>
   ('p ElGamal \<times> 'p ElGamal \<times> 'p ElGamal) result" where
  "gen_round P rnd s cn key i p =
     (let phi = CommitElGamal P (gr_phi rnd i) key 0;
          chi = CommitElGamal P (gr_chi rnd i) key 0;
          psi = CommitElGamal P (gr_psi rnd i) key 0
      in
      rbind (rbind (ElGamalVector_MultiExponentiate P cn p) (\<lambda>e. ElGamal_Add P e phi)) (\<lambda>cnG.
      rbind (pv_MultiExponentiate P (st_C s) p) (\<lambda>left.
      rbind (rderef (eg_Left chi)) (\<lambda>l. rbind (ConstructElGamal P (Some (g1_Add P left l)) (eg_Right chi)) (\<lambda>c_0G.
      rbind (pv_MultiExponentiate P (st_Publickeylist s) p) (\<lambda>left.
      rbind (rderef (eg_Left psi)) (\<lambda>l. rbind (ConstructElGamal P (Some (g1_Add P left l)) (eg_Right psi)) (\<lambda>y_0G.
      Inr (cnG, c_0G, y_0G)))))))))"

text \<open>\<^verbatim>\<open>C_XG\<close>: in step \<open>i\<close> of the loop over the ring every entry \<open>j\<close> gets its share of the two amounts.\<close>

definition gen_share :: "uint64 \<Rightarrow> uint64 \<Rightarrow> nat \<Rightarrow> nat \<Rightarrow> nat \<Rightarrow> nat \<Rightarrow> int list \<Rightarrow> int result" where
  "gen_share amount fee n i0 i1 i poly =
     rbind (rnth poly ((i0 + n - (i - i mod 2)) mod n)) (\<lambda>p0.
     rbind (rnth poly ((i1 + n - (i - i mod 2)) mod n)) (\<lambda>p1.
     Inr ((((- uint amount - uint fee) * p0) mod Order + (uint amount * p1) mod Order) mod Order)))"

fun gen_CX_loop ::
  "'p G1Ops \<Rightarrow> uint64 \<Rightarrow> uint64 \<Rightarrow> nat \<Rightarrow> nat \<Rightarrow> nat \<Rightarrow> int \<Rightarrow> int list list \<Rightarrow> int list list \<Rightarrow> nat list \<Rightarrow> int \<Rightarrow>
   'p ElGamal list \<Rightarrow> 'p ElGamal list result" where
  "gen_CX_loop P amount fee n i0 i1 v ps qs [] vPow cxs = Inr cxs"
| "gen_CX_loop P amount fee n i0 i1 v ps qs (i # js) vPow cxs =
     rbind (rmap (\<lambda>(j, cx).
        rbind (rnth (if i mod 2 = 0 then ps else qs) j) (\<lambda>poly.
        rbind (gen_share amount fee n i0 i1 i poly) (\<lambda>joined.
        ElGamal_Plus P cx ((vPow * joined) mod Order)))) (enumerate 0 cxs)) (\<lambda>cxs.
     gen_CX_loop P amount fee n i0 i1 v ps qs js (if i \<noteq> 0 then (vPow * v) mod Order else vPow) cxs)"

section \<open>The polynomials of the range proof\<close>

record gen_range =
  ge_ys :: FieldVector
  ge_z :: int
  ge_z0 :: int
  ge_z1 :: int
  ge_l :: FieldVectorPolynomial
  ge_r :: FieldVectorPolynomial
  ge_t :: "int list"

definition gen_range_polys :: "(bytes \<Rightarrow> bytes) \<Rightarrow> gen_random \<Rightarrow> bool list \<Rightarrow> int \<Rightarrow> gen_range result" where
  "gen_range_polys keccak rnd bits w =
     (let aL = gen_aL bits; aR = gen_aR bits;
          sL = map (gr_sL rnd) [0..<length bits]; sR = map (gr_sR rnd) [0..<length bits];
          y = reducedhash keccak (ConvertBigIntToByte w);
          ys = powers_from 128 1 y;
          z = reducedhash keccak (ConvertBigIntToByte y);
          z0 = mod_exp z 2 Order; z1 = mod_exp z 3 Order;
          twoTimesZs = map (\<lambda>i. (z0 * (2 ^ i mod Order)) mod Order) [0..<64] @ map (\<lambda>i. (z1 * (2 ^ i mod Order)) mod Order) [0..<64];
          tmp = fv_AddConstant aL ((- z) mod Order)
      in
      rbind (NewFieldVectorPolynomial [tmp, sL]) (\<lambda>lPoly.
      rbind (fv_Hadamard ys (fv_AddConstant aR z)) (\<lambda>h.
      rbind (fv_Add h twoTimesZs) (\<lambda>r0.
      rbind (fv_Hadamard sR ys) (\<lambda>r1.
      rbind (NewFieldVectorPolynomial [r0, r1]) (\<lambda>rPoly.
      rbind (FieldVectorPolynomial_InnerProduct lPoly rPoly) (\<lambda>ts.
      Inr \<lparr>ge_ys = ys, ge_z = z, ge_z0 = z0, ge_z1 = z1, ge_l = lPoly, ge_r = rPoly, ge_t = ts\<rparr>)))))))"

section \<open>The sigma protocol\<close>

text \<open>The loop over the rounds: \<^verbatim>\<open>CnR\<close>, \<^verbatim>\<open>chi_bigint\<close>, \<^verbatim>\<open>psi_bigint\<close>, \<^verbatim>\<open>C_XR\<close>, \<^verbatim>\<open>p\<close>, \<^verbatim>\<open>q\<close> and \<^verbatim>\<open>wPow\<close>.\<close>

record 'p gen_sigma =
  gs_CnR :: "'p ElGamal"
  gs_chi :: int
  gs_psi :: int
  gs_C_XR :: "'p ElGamal"
  gs_p :: FieldVector
  gs_q :: FieldVector
  gs_wPow :: int

definition gen_sigma_round ::
  "'p G1Ops \<Rightarrow> gen_random \<Rightarrow> 'p \<Rightarrow> int \<Rightarrow> 'p ElGamal list \<Rightarrow> int list list \<Rightarrow> int list list \<Rightarrow> nat \<Rightarrow> 'p gen_sigma \<Rightarrow>
   'p gen_sigma result" where
  "gen_sigma_round P rnd key w cxs ps qs i g =
     rbind (rbind (ElGamal_Neg P (CommitElGamal P (gr_phi rnd i) key 0)) (\<lambda>n. ElGamal_Mul P n (gs_wPow g))) (\<lambda>e.
     rbind (ElGamal_Add P (gs_CnR g) e) (\<lambda>cnR.
     rbind (rnth cxs i) (\<lambda>cx. rbind (rbind (ElGamal_Neg P cx) (\<lambda>n. ElGamal_Mul P n (gs_wPow g))) (\<lambda>e.
     rbind (ElGamal_Add P (gs_C_XR g) e) (\<lambda>c_XR.
     rbind (rnth ps i) (\<lambda>pi. rbind (fv_Add (gs_p g) (fv_Times pi (gs_wPow g))) (\<lambda>p.
     rbind (rnth qs i) (\<lambda>qi. rbind (fv_Add (gs_q g) (fv_Times qi (gs_wPow g))) (\<lambda>q.
     Inr \<lparr>gs_CnR = cnR, gs_chi = (gs_chi g + (gr_chi rnd i * gs_wPow g) mod Order) mod Order,
          gs_psi = (gs_psi g + (gr_psi rnd i * gs_wPow g) mod Order) mod Order, gs_C_XR = c_XR, gs_p = p, gs_q = q,
          gs_wPow = (gs_wPow g * w) mod Order\<rparr>)))))))))"

fun gen_sigma_rounds ::
  "'p G1Ops \<Rightarrow> gen_random \<Rightarrow> 'p \<Rightarrow> int \<Rightarrow> 'p ElGamal list \<Rightarrow> int list list \<Rightarrow> int list list \<Rightarrow> nat list \<Rightarrow> 'p gen_sigma \<Rightarrow>
   'p gen_sigma result" where
  "gen_sigma_rounds P rnd key w cxs ps qs [] g = Inr g"
| "gen_sigma_rounds P rnd key w cxs ps qs (i # js) g =
     rbind (gen_sigma_round P rnd key w cxs ps qs i g) (gen_sigma_rounds P rnd key w cxs ps qs js)"

text \<open>The loop that adds the convolutions to \<^verbatim>\<open>C_XR\<close>; the copy in \<^verbatim>\<open>y_XR\<close> is not used.\<close>

fun gen_XR_loop ::
  "'p G1Ops \<Rightarrow> int \<Rightarrow> 'p list \<Rightarrow> 'p list \<Rightarrow> nat list \<Rightarrow> int \<Rightarrow> 'p ElGamal \<Rightarrow> 'p ElGamal result" where
  "gen_XR_loop P v y_p y_q [] vPow c_XR = Inr c_XR"
| "gen_XR_loop P v y_p y_q (i # js) vPow c_XR =
     rbind (rnth (if i mod 2 = 1 then y_q else y_p) (i div 2)) (\<lambda>y.
     rbind (ConstructElGamal P None (Some (g1_ScalarMult P y vPow))) (\<lambda>e.
     rbind (ElGamal_Add P c_XR e) (\<lambda>c_XR.
     gen_XR_loop P v y_p y_q js (if i > 0 then (vPow * v) mod Order else vPow) c_XR)))"

text \<open>The right points of \<^verbatim>\<open>CnR\<close> and \<^verbatim>\<open>C_XR\<close>, the points \<^verbatim>\<open>DR\<close> and \<^verbatim>\<open>gR\<close>, and \<^verbatim>\<open>wPow\<close>.\<close>

record 'p gen_links =
  gl_CRnR :: 'p
  gl_y_XR :: 'p
  gl_DR :: 'p
  gl_gR :: 'p
  gl_wPow :: int

definition unit_vector :: "nat \<Rightarrow> nat \<Rightarrow> int \<Rightarrow> FieldVector" where
  "unit_vector n k x = map (\<lambda>i. if i = k then x else 0) [0..<n]"

definition gen_links ::
  "'p G1Ops \<Rightarrow> gen_random \<Rightarrow> 'p Statement \<Rightarrow> 'p ElGamal list \<Rightarrow> 'p \<Rightarrow> nat \<Rightarrow> nat \<Rightarrow> nat \<Rightarrow> nat \<Rightarrow> int \<Rightarrow> int \<Rightarrow>
   'p ElGamal list \<Rightarrow> int list list \<Rightarrow> int list list \<Rightarrow> 'p gen_links result" where
  "gen_links P rnd s cn key m n i0 i1 v w cxs ps qs =
     rbind (ConstructElGamal P None (Some (g1_zero P))) (\<lambda>zero.
     rbind (gen_sigma_rounds P rnd key w cxs ps qs [0..<m]
       \<lparr>gs_CnR = zero, gs_chi = 0, gs_psi = 0, gs_C_XR = zero, gs_p = replicate n 0, gs_q = replicate n 0, gs_wPow = 1\<rparr>) (\<lambda>g.
     rbind (rnth cn i0) (\<lambda>c0. rbind (ElGamal_Mul P c0 (gs_wPow g)) (\<lambda>e.
     rbind (ElGamal_Add P (gs_CnR g) e) (\<lambda>cnR.
     (let dR = g1_Add P (g1_ScalarMult P (st_D s) (gs_wPow g)) (g1_ScalarMult P (g1_G P) ((- gs_chi g) mod Order));
          gR = g1_ScalarMult P (g1_G P) ((gs_wPow g - gs_psi g) mod Order)
      in
      rbind (fv_Add (gs_p g) (unit_vector n i0 (gs_wPow g))) (\<lambda>p.
      rbind (fv_Add (gs_q g) (unit_vector n i1 (gs_wPow g))) (\<lambda>q.
      rbind (Convolution P p (st_Publickeylist s)) (\<lambda>y_p.
      rbind (Convolution P q (st_Publickeylist s)) (\<lambda>y_q.
      rbind (gen_XR_loop P v y_p y_q [0..<n] 1 (gs_C_XR g)) (\<lambda>c_XR.
      rbind (rderef (eg_Right cnR)) (\<lambda>crnR. rbind (rderef (eg_Right c_XR)) (\<lambda>y_XR.
      Inr \<lparr>gl_CRnR = crnR, gl_y_XR = y_XR, gl_DR = dR, gl_gR = gR, gl_wPow = gs_wPow g\<rparr>)))))))))))))"

definition gen_A_t :: "'p G1Ops \<Rightarrow> 'p GeneratorParams \<Rightarrow> gen_random \<Rightarrow> 'p" where
  "gen_A_t P gp rnd = g1_Add P (g1_ScalarMult P (gp_G gp) ((- gr_b rnd) mod Order)) (g1_ScalarMult P (gp_H gp) (gr_tau rnd))"

definition gen_challenge ::
  "'p G1Ops \<Rightarrow> (bytes \<Rightarrow> bytes) \<Rightarrow> 'p GeneratorParams \<Rightarrow> gen_random \<Rightarrow> 'p gen_links \<Rightarrow> gen_range \<Rightarrow> int \<Rightarrow> 'p \<Rightarrow> int" where
  "gen_challenge P keccak gp rnd gl ge x point =
     (let a_y = g1_ScalarMult P (gl_gR gl) (gr_sk rnd);
          a_D = g1_ScalarMult P (gp_G gp) (gr_r rnd);
          t1 = g1_ScalarMult P (gl_CRnR gl) (ge_z1 ge);
          d1 = g1_Add P (g1_ScalarMult P (gl_DR gl) ((- ge_z0 ge) mod Order)) t1;
          a_b = g1_Add P (g1_ScalarMult P (gp_G gp) (gr_b rnd)) (g1_ScalarMult P d1 (gr_sk rnd));
          a_X = g1_ScalarMult P (gl_y_XR gl) (gr_r rnd);
          a_u = g1_ScalarMult P point (gr_sk rnd)
      in reducedhash keccak (ConvertBigIntToByte x @ concat (map (g1_Marshal P) [a_y, a_D, a_b, a_X, gen_A_t P gp rnd, a_u])))"

section \<open>GenerateProof\<close>

text \<open>The points of a list of ciphertexts.\<close>

definition left_points :: "'p ElGamal list \<Rightarrow> 'p list result" where
  "left_points es = rmap (\<lambda>e. rderef (eg_Left e)) es"

definition right_points :: "'p ElGamal list \<Rightarrow> 'p list result" where
  "right_points es = rmap (\<lambda>e. rderef (eg_Right e)) es"

text \<open>The commitments up to the challenge \<^verbatim>\<open>w\<close>, entered in the proof.\<close>

definition gen_commitments ::
  "'p G1Ops \<Rightarrow> gen_random \<Rightarrow> 'p Statement \<Rightarrow> Witness \<Rightarrow> uint64 \<Rightarrow> nat \<Rightarrow> nat \<Rightarrow> nat \<Rightarrow> nat \<Rightarrow>
   'p ElGamal list \<Rightarrow> 'p \<Rightarrow> 'p Proof \<Rightarrow> int \<Rightarrow> int list list \<Rightarrow> int list list \<Rightarrow> ('p Proof \<times> 'p ElGamal list) result" where
  "gen_commitments P rnd s wit burn m n i0 i1 cn key pf v ps qs =
     rbind (rmap (\<lambda>i. rbind (rnth ps i) (gen_round P rnd s cn key i)) [0..<m]) (\<lambda>rounds.
     rbind (gen_CX_loop P (wt_TransferAmount wit) (st_Fee s + burn) n i0 i1 v ps qs [0..<n] 1
              (map (\<lambda>i. CommitElGamal P (gr_CX rnd i) (st_D s) 0) [0..<m])) (\<lambda>cxs.
     rbind (left_points cxs) (\<lambda>c_XG. rbind (right_points cxs) (\<lambda>y_XG.
     rbind (left_points (map fst rounds)) (\<lambda>cLnG. rbind (right_points (map fst rounds)) (\<lambda>cRnG.
     rbind (left_points (map (fst \<circ> snd) rounds)) (\<lambda>c_0G. rbind (right_points (map (fst \<circ> snd) rounds)) (\<lambda>dG.
     rbind (left_points (map (snd \<circ> snd) rounds)) (\<lambda>y_0G. rbind (right_points (map (snd \<circ> snd) rounds)) (\<lambda>gG.
     Inr (pf\<lparr>pf_C_XG := c_XG, pf_y_XG := y_XG, pf_CLnG := cLnG, pf_CRnG := cRnG, pf_C_0G := c_0G, pf_DG := dG,
             pf_y_0G := y_0G, pf_gG := gG\<rparr>, cxs)))))))))))"

definition gen_inner_product ::
  "'p G1Ops \<Rightarrow> (bytes \<Rightarrow> bytes) \<Rightarrow> 'p GeneratorParams \<Rightarrow> gen_range \<Rightarrow> int \<Rightarrow> int \<Rightarrow> 'p InnerProduct result" where
  "gen_inner_product P keccak gp ge x o' =
     rbind (NewPedersenVectorCommitment gp) (\<lambda>p.
     rbind (rmap rderef (fv_Invert (ge_ys ge))) (\<lambda>ys_inv.
     rbind (pv_Hadamard P (pvc_Hs p) ys_inv) (\<lambda>hs.
     rbind (FieldVectorPolynomial_Evaluate (ge_l ge) x) (\<lambda>l.
     rbind (FieldVectorPolynomial_Evaluate (ge_r ge) x) (\<lambda>r.
     NewInnerProductProofNew P keccak 8
       (p\<lparr>pvc_H := g1_ScalarMult P (pvc_H p) o', pvc_Hs := hs, pvc_gvalues := l, pvc_hvalues := r\<rparr>) o')))))"

text \<open>The last part: the responses of the range proof and of the sigma protocol.\<close>

definition gen_responses ::
  "'p G1Ops \<Rightarrow> (bytes \<Rightarrow> bytes) \<Rightarrow> (int \<Rightarrow> 'p result) \<Rightarrow> 'p GeneratorParams \<Rightarrow> gen_random \<Rightarrow> bytes \<Rightarrow> nat \<Rightarrow> bytes \<Rightarrow> Witness \<Rightarrow>
   'p gen_links \<Rightarrow> gen_range \<Rightarrow> 'p Proof \<Rightarrow> 'p Proof result" where
  "gen_responses P keccak hashToPoint gp rnd assetId assetIndex chainHash wit gl ge pf =
     rbind (rnth (ge_t ge) 1) (\<lambda>t1. rbind (rnth (ge_t ge) 2) (\<lambda>t2.
     (let pT1 = PedersenCommitmentNew_Commit P (gr_T1 rnd) (NewPedersenCommitmentNew P) t1;
          pT2 = PedersenCommitmentNew_Commit P (gr_T2 rnd) (NewPedersenCommitmentNew P) t2
      in
      rbind (rderef (pc_Result pT1)) (\<lambda>c1. rbind (rderef (pc_Result pT2)) (\<lambda>c2.
      (let pf = pf\<lparr>pf_T_1 := c1, pf_T_2 := c2\<rparr>;
           x = challenge_x P keccak (ge_z ge) pf;
           xsquare = (x * x) mod Order
       in
       rbind (rnth (ge_t ge) 0) (\<lambda>t0.
       (let that = ((t0 + (t1 * x) mod Order) mod Order + (t2 * xsquare) mod Order) mod Order;
            tauX = ((gr_T1 rnd * x) mod Order + (gr_T2 rnd * xsquare) mod Order) mod Order;
            mu = ((gr_BS rnd * x) mod Order + gr_BA rnd) mod Order
        in
        rbind (hashToPoint (nonce_seed keccak chainHash assetId assetIndex)) (\<lambda>point.
        (let c = gen_challenge P keccak gp rnd gl ge x point;
             s_sk = ((c * wt_SecretKey wit) mod Order + gr_sk rnd) mod Order;
             s_r = ((c * wt_R wit) mod Order + gr_r rnd) mod Order;
             w_tmp = ((uint (wt_TransferAmount wit) * ge_z0 ge) mod Order + (uint (wt_Balance wit) * ge_z1 ge) mod Order) mod Order;
             s_b = ((((w_tmp * gl_wPow gl) mod Order) * c) mod Order + gr_b rnd) mod Order;
             s_tau = ((((tauX * gl_wPow gl) mod Order) * c) mod Order + gr_tau rnd) mod Order;
             o' = reducedhash keccak (ConvertBigIntToByte c)
         in
         rbind (gen_inner_product P keccak gp ge x o') (\<lambda>ip.
         Inr (pf\<lparr>pf_that := that, pf_mu := mu, pf_c := c, pf_s_sk := s_sk, pf_s_r := s_r, pf_s_b := s_b, pf_s_tau := s_tau,
                 pf_ip := ip\<rparr>))))))))))))"

text \<open>A proof of which only some fields are set.\<close>

definition empty_proof :: "'p G1Ops \<Rightarrow> 'p Proof" where
  "empty_proof P = \<lparr>pf_BA = g1_zero P, pf_BS = g1_zero P, pf_A = g1_zero P, pf_B = g1_zero P, pf_CLnG = [], pf_CRnG = [],
     pf_C_0G = [], pf_DG = [], pf_y_0G = [], pf_gG = [], pf_C_XG = [], pf_y_XG = [], pf_u = g1_zero P, pf_f = [], pf_z_A = 0,
     pf_T_1 = g1_zero P, pf_T_2 = g1_zero P, pf_that = 0, pf_mu = 0, pf_c = 0, pf_s_sk = 0, pf_s_r = 0, pf_s_b = 0, pf_s_tau = 0,
     pf_ip = \<lparr>ip_a = 0, ip_b = 0, ip_ls = [], ip_rs = []\<rparr>\<rparr>"

definition GenerateProof ::
  "'p G1Ops \<Rightarrow> (bytes \<Rightarrow> bytes) \<Rightarrow> (int \<Rightarrow> 'p result) \<Rightarrow> 'p GeneratorParams \<Rightarrow> gen_random \<Rightarrow> bytes \<Rightarrow> nat \<Rightarrow> bytes \<Rightarrow>
   'p Statement \<Rightarrow> Witness \<Rightarrow> 'p \<Rightarrow> bytes \<Rightarrow> uint64 \<Rightarrow> 'p Proof result" where
  "GenerateProof P keccak hashToPoint gp rnd assetId assetIndex chainHash s wit u txid burn_value =
     rbind (rmap (\<lambda>i. rbind (rnth (st_CLn s) i) (\<lambda>l. rbind (rnth (st_CRn s) i) (\<lambda>r. ConstructElGamal P (Some l) (Some r))))
              [0..<length (st_C s)]) (\<lambda>cn.
     (let bits = amount_bits (wt_TransferAmount wit) (wt_Balance wit) in
      rbind (vector_commit P gp (gr_BA rnd) (gen_aL bits) (gen_aR bits)) (\<lambda>ba.
      rbind (vector_commit P gp (gr_BS rnd) (map (gr_sL rnd) [0..<length bits]) (map (gr_sR rnd) [0..<length bits])) (\<lambda>bs.
      (let n = length (st_Publickeylist s) in
       rbind (ring_power n) (\<lambda>m.
       rbind (gen_selectors P gp rnd m (wt_Index wit)) (\<lambda>gb.
       (let pf = (empty_proof P)\<lparr>pf_u := u, pf_BA := ba, pf_BS := bs, pf_A := gb_A gb, pf_B := gb_B gb\<rparr>;
            v = verify_v P keccak pf txid
        in
        rbind (gen_polynomials m (gb_a gb) (gb_b gb)) (\<lambda>(ps, qs).
        rbind (rnth (wt_Index wit) 0) (\<lambda>i0. rbind (rnth (wt_Index wit) 1) (\<lambda>i1.
        rbind (rnth (st_Publickeylist s) i0) (\<lambda>key.
        rbind (gen_commitments P rnd s wit burn_value m n i0 i1 cn key pf v ps qs) (\<lambda>(pf, cxs).
        (let w = hashmash1 P keccak pf v in
         rbind (fv_Add (fv_Times (gb_b gb) w) (gb_a gb)) (\<lambda>f.
         (let pf = pf\<lparr>pf_f := f, pf_z_A := ((gr_B rnd * w) mod Order + gr_A rnd) mod Order\<rparr> in
          rbind (gen_range_polys keccak rnd bits w) (\<lambda>ge.
          rbind (gen_links P rnd s cn key m n i0 i1 v w cxs ps qs) (\<lambda>gl.
          rbind (gen_responses P keccak hashToPoint gp rnd assetId assetIndex chainHash wit gl ge pf) (\<lambda>pf.
          if g1_Marshal P (gen_A_t P gp rnd) \<noteq> GetA_t P keccak gp pf txid then Inl (Error ''A_t is not matching A_t2'')
          else Inr pf)))))))))))))))))))"

end
