(* ===== verification/Ring_Polynomials.thy ===== *)
theory Ring_Polynomials
  imports Fourier Proof_Generate
begin

text \<open>
  The polynomials of the ring: those the prover builds from the masked bits of a position
  (\<^verbatim>\<open>RecursivePolynomials\<close>) have as value, up to the leading coefficient, the products the verifier computes
  (\<^verbatim>\<open>recursivepolynomials\<close>), and the leading coefficient is one at the position and zero elsewhere.
\<close>

section \<open>The bits of a position\<close>

lemma bin_digits_bits: "\<exists>k. bin_digits n = map (\<lambda>i. if bit n i then 1 else 0) [0..<Suc k] \<and> n < 2 ^ Suc k \<and> (0 < n \<longrightarrow> 2 ^ k \<le> n)"
proof (induction n rule: bin_digits.induct)
  case (1 n)
  show ?case
  proof (cases "n < 2")
    case True
    then have "bin_digits n = map (\<lambda>i. if bit n i then 1 else 0) [0..<Suc 0]"
      by (subst bin_digits.simps) (auto simp: less_2_cases_iff bit_0)
    then show ?thesis using True by (intro exI[of _ 0]) auto
  next
    case False
    obtain k where k: "bin_digits (n div 2) = map (\<lambda>i. if bit (n div 2) i then 1 else 0) [0..<Suc k]"
      "n div 2 < 2 ^ Suc k" "2 ^ k \<le> n div 2"
      using 1 False by auto
    have "bin_digits n = (if bit n 0 then 1 else 0) # map (\<lambda>i. if bit n (Suc i) then 1 else 0) [0..<Suc k]"
      using False k(1) by (subst bin_digits.simps) (simp add: bit_Suc bit_0 mod_2_eq_odd del: upt_Suc)
    also have "\<dots> = map (\<lambda>i. if bit n i then 1 else 0) [0..<Suc (Suc k)]"
      by (subst (2) upt_conv_Cons) (simp_all add: map_Suc_upt[symmetric] del: upt_Suc)
    finally show ?thesis using k False by (intro exI[of _ "Suc k"]) auto
  qed
qed

lemma index_digits_bits:
  assumes "n < 2 ^ m" "0 < m"
  shows "index_digits m n = map (\<lambda>i. if bit n i then 1 else 0) [0..<m]"
proof -
  obtain k where k: "bin_digits n = map (\<lambda>i. if bit n i then 1 else 0) [0..<Suc k]" "n < 2 ^ Suc k" "0 < n \<longrightarrow> 2 ^ k \<le> n"
    using bin_digits_bits by blast
  have "Suc k \<le> m"
  proof (cases "n = 0")
    case True
    then have "bin_digits n = [0]" by (simp add: bin_digits.simps)
    then show ?thesis using k(1) assms(2) arg_cong[OF k(1), of length] by simp
  next
    case False
    then have "(2 :: nat) ^ k < 2 ^ m" using k(3) assms(1) by linarith
    then show ?thesis by (simp add: power_strict_increasing_iff Suc_le_eq)
  qed
  moreover have "\<not> bit n i" if "Suc k \<le> i" for i
  proof -
    have "n < 2 ^ i" using k(2) power_increasing[OF that, of "2 :: nat"] by linarith
    then show ?thesis by (simp add: bit_iff_odd)
  qed
  ultimately show ?thesis unfolding index_digits_def k(1)
    by (intro nth_equalityI) (auto simp: nth_append simp del: upt_Suc)
qed

lemma index_eq_bits:
  assumes "i < 2 ^ m" "n < 2 ^ m"
  shows "(\<forall>k<m. bit i k = bit n k) \<longleftrightarrow> i = (n :: nat)"
proof
  assume "\<forall>k<m. bit i k = bit n k"
  moreover have "\<not> bit i k \<and> \<not> bit n k" if "m \<le> k" for k
  proof -
    have "i < 2 ^ k" "n < 2 ^ k" using assms power_increasing[OF that, of "2 :: nat"] by linarith+
    then show ?thesis by (simp add: bit_iff_odd)
  qed
  ultimately show "i = n" by (intro bit_eqI) (metis not_le_imp_less)
qed simp

lemma bit_high_sum: "k < n \<Longrightarrow> j < 2 ^ n \<Longrightarrow> bit (2 ^ n + j) k = bit (j :: nat) k"
proof -
  assume "k < n" "j < 2 ^ n"
  then have "(2 ^ n + j) div 2 ^ k = 2 ^ (n - k) + j div 2 ^ k"
  proof -
    have "(2 :: nat) ^ n = 2 ^ k * 2 ^ (n - k)" using \<open>k < n\<close> by (simp flip: power_add)
    then show ?thesis by (simp add: add.commute)
  qed
  then show ?thesis using \<open>k < n\<close> by (simp add: bit_iff_odd)
qed

section \<open>Leading coefficients\<close>

lemma Polynomial_Mul_top:
  assumes "p \<noteq> []" "Polynomial_Mul p [m0, m1] = Inr q" "last p = 0 \<or> last p = 1"
  shows "length q = Suc (length p) \<and> last q = (if m1 = 1 then last p else 0)"
proof -
  have "last p = p ! (length p - 1)" using assms(1) by (simp add: last_conv_nth)
  then show ?thesis using assms by (cases "m1 = 1") (auto simp: Polynomial_Mul_def Let_def rnth_def nth_append last_conv_nth)
qed

lemma recursive_polynomials_top:
  "length as = length bs \<Longrightarrow> set bs \<subseteq> {0, 1} \<Longrightarrow> accum \<noteq> [] \<Longrightarrow> last accum = 0 \<or> last accum = 1 \<Longrightarrow>
   recursivePolynomialsinternal accum as bs = Inr rs \<Longrightarrow> i < 2 ^ length as \<Longrightarrow>
   length (rs ! i) = length accum + length as \<and>
   last (rs ! i) = (if \<forall>k<length as. bit i k = (bs ! k = 1) then last accum else 0)"
proof (induction as arbitrary: bs accum rs i rule: rev_induct)
  case Nil
  then show ?case by (auto simp: recursivePolynomialsinternal.simps)
next
  case (snoc a as)
  obtain bs' b where b: "bs = bs' @ [b]" using snoc.prems(1) by (cases bs rule: rev_cases) auto
  have len: "length as = length bs'" and b01: "b = 0 \<or> b = 1" and bs': "set bs' \<subseteq> {0, 1}"
    using snoc.prems b by auto
  obtain al ls ar rs' where run: "Polynomial_Mul accum [(- a) mod Order, (1 - b) mod Order] = Inr al"
    "recursivePolynomialsinternal al as bs' = Inr ls" "Polynomial_Mul accum [a, b] = Inr ar"
    "recursivePolynomialsinternal ar as bs' = Inr rs'" "rs = ls @ rs'"
    using snoc.prems(5) by (subst (asm) recursivePolynomialsinternal.simps) (auto simp: b rbind_Inr_iff Let_def)
  have lens: "length ls = 2 ^ length as" "length rs' = 2 ^ length as"
    using recursive_polynomials_eval[OF len bs', of al 0] recursive_polynomials_eval[OF len bs', of ar 0] run by auto
  have al: "length al = Suc (length accum)" "last al = (if b = 0 then last accum else 0)"
    using Polynomial_Mul_top[OF snoc.prems(3) run(1) snoc.prems(4)] b01 by auto
  have ar: "length ar = Suc (length accum)" "last ar = (if b = 1 then last accum else 0)"
    using Polynomial_Mul_top[OF snoc.prems(3) run(3) snoc.prems(4)] b01 by auto
  have ne: "al \<noteq> []" "ar \<noteq> []" using al(1) ar(1) by auto
  have low: "(\<forall>k<length as. bit n k = (bs ! k = 1)) \<longleftrightarrow> (\<forall>k<length as. bit n k = (bs' ! k = 1))" for n :: nat
    using len b by (simp add: nth_append)
  show ?case
  proof (cases "i < 2 ^ length as")
    case True
    have nb: "\<not> bit i (length as)" using True by (simp add: bit_iff_odd)
    have IH: "length (ls ! i) = length al + length as" "last (ls ! i) = (if \<forall>k<length as. bit i k = (bs' ! k = 1) then last al else 0)"
      using snoc.IH[OF len bs' ne(1) _ run(2) True] al(2) snoc.prems(4) by auto
    show ?thesis
      using IH True lens al nb b01 len b by (auto simp: run(5) nth_append less_Suc_eq)
  next
    case False
    then obtain j where j: "i = 2 ^ length as + j" "j < 2 ^ length as"
      using snoc.prems(6) by (metis add_diff_inverse_nat add_less_cancel_left length_append_singleton mult_2 power_Suc)
    have hb: "bit i (length as)" using j by (simp add: bit_iff_odd)
    have jb: "bit i k = bit j k" if "k < length as" for k
      using j that by (simp add: bit_high_sum)
    have IH: "length (rs' ! j) = length ar + length as" "last (rs' ! j) = (if \<forall>k<length as. bit j k = (bs' ! k = 1) then last ar else 0)"
      using snoc.IH[OF len bs' ne(2) _ run(4) j(2)] ar(2) snoc.prems(4) by auto
    show ?thesis
      using IH j lens ar hb b01 len b jb by (auto simp: run(5) nth_append less_Suc_eq)
  qed
qed

section \<open>The prover's coefficients\<close>

lemma peval_snoc: "peval (p @ [c]) x = peval p x + x ^ length p * c"
  by (induction p) (simp_all add: algebra_simps)

lemma peval_sum: "peval p x = (\<Sum>i<length p. p ! i * x ^ i)"
proof (induction p rule: rev_induct)
  case (snoc c p)
  have "(\<Sum>i<length p. (p @ [c]) ! i * x ^ i) = (\<Sum>i<length p. p ! i * x ^ i)" by (intro sum.cong) (simp_all add: nth_append)
  then show ?case by (simp add: peval_snoc snoc mult.commute)
qed simp

lemma rmap_ok: "(\<And>x. x \<in> set xs \<Longrightarrow> f x = Inr (g x)) \<Longrightarrow> rmap f xs = Inr (map g xs)"
  by (induction xs) simp_all

lemma gen_transpose_ok:
  assumes "length polys = n" "\<And>l. l < n \<Longrightarrow> m \<le> length (polys ! l)"
  shows "gen_transpose m n polys = Inr (map (\<lambda>i. map (\<lambda>l. polys ! l ! i) [0..<n]) [0..<m])"
proof -
  have "rmap (\<lambda>j. rbind (rnth polys j) (\<lambda>p. rnth p i)) [0..<n] = Inr (map (\<lambda>l. polys ! l ! i) [0..<n])" if "i < m" for i
    using assms less_le_trans[OF that] by (intro rmap_ok) auto
  then show ?thesis unfolding gen_transpose_def by (rule rmap_ok) simp
qed

text \<open>The coefficients of one position: with the power of the leading coefficient added at the position they are the
  selected products.\<close>

lemma prover_polynomials:
  assumes "length as = m" "bs = map (\<lambda>k. if bit i0 k then 1 else 0) [0..<m]" "i0 < 2 ^ m"
  shows "\<exists>pi. RecursivePolynomials (NewPolynomial None) as bs = Inr pi \<and> length pi = 2 ^ m \<and>
    (\<forall>l < 2 ^ m. length (pi ! l) = Suc m \<and>
      (\<forall>w. ((\<Sum>i<m. pi ! l ! i * w ^ i) + (if l = i0 then w ^ m else 0)) mod Order = selected_product as bs w l mod Order))"
proof -
  have b: "length as = length bs" "set bs \<subseteq> {0, 1}" using assms by auto
  obtain pi where pi: "recursivePolynomialsinternal [1] as bs = Inr pi" "length pi = 2 ^ m"
    using recursive_polynomials_eval[OF b, of "[1]" 0] assms(1) by auto
  have "length (pi ! l) = Suc m \<and> ((\<Sum>i<m. pi ! l ! i * w ^ i) + (if l = i0 then w ^ m else 0)) mod Order = selected_product as bs w l mod Order"
    if l: "l < 2 ^ m" for l w
  proof -
    have l': "l < 2 ^ length as" using l assms(1) by simp
    have top: "length (pi ! l) = Suc m" "last (pi ! l) = (if \<forall>k<m. bit l k = (bs ! k = 1) then 1 else 0)"
      using recursive_polynomials_top[OF b _ _ pi(1) l'] assms(1) by auto
    have sel: "(\<forall>k<m. bit l k = (bs ! k = 1)) \<longleftrightarrow> l = i0"
      using index_eq_bits[OF l assms(3)] assms(2) by auto
    have "pi ! l = butlast (pi ! l) @ [last (pi ! l)]" using top(1) by (metis append_butlast_last_id length_0_conv nat.distinct(1))
    then have "peval (pi ! l) w = (\<Sum>i<m. butlast (pi ! l) ! i * w ^ i) + w ^ m * last (pi ! l)"
      using top(1) peval_snoc[of "butlast (pi ! l)" "last (pi ! l)" w] peval_sum[of "butlast (pi ! l)" w] by simp
    moreover have "(\<Sum>i<m. butlast (pi ! l) ! i * w ^ i) = (\<Sum>i<m. pi ! l ! i * w ^ i)"
      using top(1) by (intro sum.cong) (simp_all add: nth_butlast)
    moreover have "peval (pi ! l) w mod Order = selected_product as bs w l mod Order"
      using recursive_polynomials_eval[OF b, of "[1]" w] pi(1) l' by auto
    ultimately show ?thesis using top sel by auto
  qed
  then show ?thesis using pi by (auto simp: RecursivePolynomials_def NewPolynomial_def)
qed

section \<open>The verifier's products\<close>

definition bit_factor :: "(int \<times> int) list \<Rightarrow> nat \<Rightarrow> nat \<Rightarrow> nat \<Rightarrow> int" where
  "bit_factor f baseline l k = (if bit l k then snd (f ! (baseline + k)) else fst (f ! (baseline + k)))"

lemma recursivepolynomials_products:
  "baseline + d \<le> length f \<Longrightarrow>
   \<exists>r. recursivepolynomials baseline (baseline + d) accum f = Inr r \<and> length r = 2 ^ d \<and>
     (\<forall>l < 2 ^ d. r ! l mod Order = (accum * (\<Prod>k<d. bit_factor f baseline l k)) mod Order)"
proof (induction d arbitrary: accum)
  case 0
  then show ?case by (simp add: recursivepolynomials.simps)
next
  case (Suc d)
  obtain f0 f1 where f: "f ! (baseline + d) = (f0, f1)" by (cases "f ! (baseline + d)")
  obtain ls where ls: "recursivepolynomials baseline (baseline + d) ((accum * f0) mod Order) f = Inr ls" "length ls = 2 ^ d"
    "\<And>l. l < 2 ^ d \<Longrightarrow> ls ! l mod Order = ((accum * f0) mod Order * (\<Prod>k<d. bit_factor f baseline l k)) mod Order"
    using Suc by fastforce
  obtain rs where rs: "recursivepolynomials baseline (baseline + d) ((accum * f1) mod Order) f = Inr rs" "length rs = 2 ^ d"
    "\<And>l. l < 2 ^ d \<Longrightarrow> rs ! l mod Order = ((accum * f1) mod Order * (\<Prod>k<d. bit_factor f baseline l k)) mod Order"
    using Suc by fastforce
  have "recursivepolynomials baseline (baseline + Suc d) accum f = Inr (ls @ rs)"
    using Suc.prems f ls(1) rs(1) by (subst recursivepolynomials.simps) simp
  moreover have "(ls @ rs) ! l mod Order = (accum * (\<Prod>k<Suc d. bit_factor f baseline l k)) mod Order" if l: "l < 2 ^ Suc d" for l
  proof (cases "l < 2 ^ d")
    case True
    then have "\<not> bit l d" by (simp add: bit_iff_odd)
    then show ?thesis using True ls f by (simp add: nth_append bit_factor_def[of f baseline l d] mod_mult_left_eq ac_simps)
  next
    case False
    then obtain j where j: "l = 2 ^ d + j" "j < 2 ^ d" using l by (metis add_diff_inverse_nat add_less_cancel_left mult_2 power_Suc)
    have "bit_factor f baseline l d = f1" using j f by (simp add: bit_factor_def bit_iff_odd)
    moreover have "(\<Prod>k<d. bit_factor f baseline l k) = (\<Prod>k<d. bit_factor f baseline j k)"
      using j by (intro prod.cong) (simp_all add: bit_factor_def bit_high_sum)
    ultimately show ?thesis using j ls(2) rs by (simp add: nth_append mod_mult_left_eq mult.assoc mult.commute[of f1])
  qed
  ultimately show ?case using ls(2) rs(2) by auto
qed

section \<open>Prover and verifier agree\<close>

lemma prod_mod_cong: "(\<And>i. i \<in> A \<Longrightarrow> f i mod m = g i mod m) \<Longrightarrow> (\<Prod>i\<in>A. f i) mod m = (\<Prod>i\<in>A. g i :: int) mod m"
proof (induction A rule: infinite_finite_induct)
  case (insert x F)
  then show ?case using mult_mod_cong[of "f x" m "g x" "\<Prod>i\<in>F. f i" "\<Prod>i\<in>F. g i"] by simp
qed simp_all

definition ring_values :: "nat \<Rightarrow> nat \<Rightarrow> int \<Rightarrow> int list list \<Rightarrow> int list \<Rightarrow> bool" where
  "ring_values m i0 w ps r \<longleftrightarrow> length r = 2 ^ m \<and> length ps = m \<and> (\<forall>i < m. length (ps ! i) = 2 ^ m) \<and>
     (\<forall>l < 2 ^ m. r ! l mod Order = ((\<Sum>i<m. ps ! i ! l * w ^ i) + (if l = i0 then w ^ m else 0)) mod Order)"

lemma ring_values_agree:
  assumes "length as = m" "bs = map (\<lambda>k. if bit i0 k then 1 else 0) [0..<m]" "i0 < 2 ^ m" "base + m \<le> length f"
    and f: "\<And>k. k < m \<Longrightarrow> \<exists>c. f ! (base + k) = ((w - c) mod Order, c) \<and> c mod Order = (bs ! k * w + as ! k) mod Order"
  shows "\<exists>pi ps r. RecursivePolynomials (NewPolynomial None) as bs = Inr pi \<and> length pi = 2 ^ m \<and> gen_transpose m (2 ^ m) pi = Inr ps \<and>
    recursivepolynomials base (base + m) 1 f = Inr r \<and> ring_values m i0 w ps r"
proof -
  obtain pi where pi: "RecursivePolynomials (NewPolynomial None) as bs = Inr pi" "length pi = 2 ^ m"
    "\<And>l. l < 2 ^ m \<Longrightarrow> length (pi ! l) = Suc m \<and>
      ((\<Sum>i<m. pi ! l ! i * w ^ i) + (if l = i0 then w ^ m else 0)) mod Order = selected_product as bs w l mod Order"
    using prover_polynomials[OF assms(1-3)] by blast
  obtain r where r: "recursivepolynomials base (base + m) 1 f = Inr r" "length r = 2 ^ m"
    "\<And>l. l < 2 ^ m \<Longrightarrow> r ! l mod Order = (1 * (\<Prod>k<m. bit_factor f base l k)) mod Order"
    using recursivepolynomials_products[OF assms(4)] by blast
  let ?ps = "map (\<lambda>i. map (\<lambda>l. pi ! l ! i) [0..<2 ^ m]) [0..<m]"
  have ps: "gen_transpose m (2 ^ m) pi = Inr ?ps" using pi by (intro gen_transpose_ok) auto
  have factor: "bit_factor f base l k mod Order = selected (as ! k) (bs ! k) w (bit l k) mod Order" if k: "k < m" for l k
  proof -
    obtain c where c: "f ! (base + k) = ((w - c) mod Order, c)" "c mod Order = (bs ! k * w + as ! k) mod Order" using f[OF k] by blast
    have "(w - c) mod Order = (w - (bs ! k * w + as ! k)) mod Order" by (rule mod_diff_cong[OF refl c(2)])
    then show ?thesis using c by (simp add: bit_factor_def selected_def algebra_simps)
  qed
  have "r ! l mod Order = ((\<Sum>i<m. ?ps ! i ! l * w ^ i) + (if l = i0 then w ^ m else 0)) mod Order" if l: "l < 2 ^ m" for l
  proof -
    have "(\<Sum>i<m. ?ps ! i ! l * w ^ i) = (\<Sum>i<m. pi ! l ! i * w ^ i)" using l by (intro sum.cong) auto
    moreover have "r ! l mod Order = selected_product as bs w l mod Order"
      unfolding r(3)[OF l] mult_1 selected_product_def assms(1) by (rule prod_mod_cong) (simp add: factor)
    ultimately show ?thesis using pi(3)[OF l] by simp
  qed
  then have "ring_values m i0 w ?ps r" using r(2) by (simp add: ring_values_def)
  then show ?thesis using pi(1,2) ps r(1) by blast
qed

end
