(* ===== verification/Ring_Sums.thy ===== *)
theory Ring_Sums
  imports Ring_Polynomials
begin

text \<open>
  The loops of the ring proof in closed form, over sums of points: the rounds and the convolutions of the verifier
  (\<^verbatim>\<open>proof_verify.go\<close>) and the commitments of the prover (\<^verbatim>\<open>proof_generate.go\<close>).
\<close>

section \<open>The verifier\<close>

lemma ring_sum_psum:
  assumes L: "g1_laws P"
  shows "i + length r \<le> length Q \<Longrightarrow>
    ring_sum P Q i r acc = Inr (g1_Add P acc (psum P (\<lambda>k. g1_ScalarMult P (Q ! (i + k)) (fst (r ! k))) (length r)))"
proof (induction r arbitrary: i acc)
  case (Cons x r)
  then show ?case by (cases x) (simp add: psum_front[OF L] g1_assoc[OF L] del: psum.simps(2))
qed (simp add: g1_add_0[OF L])

text \<open>The sum over the rounds that is taken off.\<close>

definition rounds_sum :: "'p G1Ops \<Rightarrow> int \<Rightarrow> 'p list \<Rightarrow> nat \<Rightarrow> 'p" where
  "rounds_sum P w xs d = psum P (\<lambda>k. g1_ScalarMult P (xs ! k) (- (w ^ k))) d"

lemma rounds_sum_Suc: "rounds_sum P w xs (Suc d) = g1_Add P (rounds_sum P w xs d) (g1_ScalarMult P (xs ! d) (- (w ^ d)))"
  by (simp add: rounds_sum_def)

lemma ring_rounds_append: "ring_rounds P pf w (xs @ ys) a = rbind (ring_rounds P pf w xs a) (ring_rounds P pf w ys)"
  by (induction xs arbitrary: a) (auto simp: rbind_assoc intro: rbind_cong)

lemma g1_mul_neg_mod: "g1_laws P \<Longrightarrow> g1_ScalarMult P Q ((- (n mod Order)) mod Order) = g1_ScalarMult P Q (- n)"
  by (rule g1_mul_cong) (simp_all add: mod_minus_eq)

lemma ring_rounds_sums:
  assumes L: "g1_laws P" and w1: "an_wPow a = 1"
    and len: "\<forall>xs \<in> {pf_CLnG pf, pf_CRnG pf, pf_C_0G pf, pf_DG pf, pf_y_0G pf, pf_gG pf, pf_C_XG pf, pf_y_XG pf}. d \<le> length xs"
  shows "ring_rounds P pf w [0..<d] a = Inr
    \<lparr>an_CLnR = g1_Add P (an_CLnR a) (rounds_sum P w (pf_CLnG pf) d), an_CRnR = g1_Add P (an_CRnR a) (rounds_sum P w (pf_CRnG pf) d),
     an_CR00 = g1_Add P (an_CR00 a) (rounds_sum P w (pf_C_0G pf) d), an_yR00 = g1_Add P (an_yR00 a) (rounds_sum P w (pf_y_0G pf) d),
     an_C_XR = g1_Add P (an_C_XR a) (rounds_sum P w (pf_C_XG pf) d), an_y_XR = g1_Add P (an_y_XR a) (rounds_sum P w (pf_y_XG pf) d),
     an_gR = g1_Add P (an_gR a) (rounds_sum P w (pf_gG pf) d), an_DR = g1_Add P (an_DR a) (rounds_sum P w (pf_DG pf) d),
     an_wPow = w ^ d mod Order\<rparr>"
  using len
proof (induction d)
  case 0
  then show ?case using w1 by (simp add: rounds_sum_def g1_add_0[OF L])
next
  case (Suc d)
  have IH: "\<forall>xs \<in> {pf_CLnG pf, pf_CRnG pf, pf_C_0G pf, pf_DG pf, pf_y_0G pf, pf_gG pf, pf_C_XG pf, pf_y_XG pf}. d \<le> length xs"
    and dl: "d < length (pf_CLnG pf)" "d < length (pf_CRnG pf)" "d < length (pf_C_0G pf)" "d < length (pf_DG pf)"
      "d < length (pf_y_0G pf)" "d < length (pf_gG pf)" "d < length (pf_C_XG pf)" "d < length (pf_y_XG pf)"
    using Suc.prems by (simp_all add: Suc_le_eq less_imp_le)
  have "(w ^ d mod Order * w) mod Order = w ^ Suc d mod Order" by (simp add: mod_mult_right_eq mult.commute)
  then show ?case
    unfolding upt_Suc_append[OF le0] ring_rounds_append Suc.IH[OF IH]
    by (simp add: ring_round_def Let_def dl rounds_sum_Suc g1_mul_neg_mod[OF L] g1_assoc[OF L])
qed

section \<open>Powers\<close>

text \<open>The power of \<open>v\<close> at step \<open>t\<close> of the loops over the ring: the first two steps have power one.\<close>

definition vpow :: "int \<Rightarrow> nat \<Rightarrow> int" where
  "vpow v t = v ^ (t - 1)"

lemma vpow_step:
  assumes "p mod Order = vpow v t mod Order"
  shows "(if 0 < t then (p * v) mod Order else p) mod Order = vpow v (Suc t) mod Order"
proof (cases t)
  case (Suc k)
  then show ?thesis using mult_mod_cong[OF assms refl, of v] by (simp add: vpow_def mult.commute)
qed (use assms in \<open>simp add: vpow_def\<close>)

definition parity_row :: "('p \<times> 'p) list \<Rightarrow> nat \<Rightarrow> 'p" where
  "parity_row cr t = (if even t then fst (cr ! (t div 2)) else snd (cr ! (t div 2)))"

lemma power_sums_psum:
  assumes L: "g1_laws P"
  shows "(a + d) \<le> 2 * length cr \<Longrightarrow> (a + d) \<le> 2 * length yr \<Longrightarrow> p mod Order = vpow v a mod Order \<Longrightarrow>
    \<exists>p'. power_sums P v cr yr [a..<a + d] (c, y, p) =
      Inr (g1_Add P c (psum P (\<lambda>t. g1_ScalarMult P (parity_row cr (a + t)) (vpow v (a + t))) d),
           g1_Add P y (psum P (\<lambda>t. g1_ScalarMult P (parity_row yr (a + t)) (vpow v (a + t))) d), p')"
proof (induction d arbitrary: a c y p)
  case (Suc d)
  have n: "a div 2 < length cr" "a div 2 < length yr" using Suc.prems by auto
  have p: "g1_ScalarMult P Q p = g1_ScalarMult P Q (vpow v a)" for Q by (rule g1_mul_cong[OF L Suc.prems(3)])
  let ?p = "if 0 < a then (p * v) mod Order else p"
  let ?c = "g1_Add P c (g1_ScalarMult P (parity_row cr a) (vpow v a))" and ?y = "g1_Add P y (g1_ScalarMult P (parity_row yr a) (vpow v a))"
  obtain p' where "power_sums P v cr yr [Suc a..<Suc a + d] (?c, ?y, ?p) =
      Inr (g1_Add P ?c (psum P (\<lambda>t. g1_ScalarMult P (parity_row cr (Suc a + t)) (vpow v (Suc a + t))) d),
           g1_Add P ?y (psum P (\<lambda>t. g1_ScalarMult P (parity_row yr (Suc a + t)) (vpow v (Suc a + t))) d), p')"
    using Suc.IH[of "Suc a" ?p ?c ?y] vpow_step[OF Suc.prems(3)] Suc.prems by auto
  then have "power_sums P v cr yr [a..<a + Suc d] (c, y, p) =
      Inr (g1_Add P ?c (psum P (\<lambda>t. g1_ScalarMult P (parity_row cr (Suc a + t)) (vpow v (Suc a + t))) d),
           g1_Add P ?y (psum P (\<lambda>t. g1_ScalarMult P (parity_row yr (Suc a + t)) (vpow v (Suc a + t))) d), p')"
    using n by (simp add: upt_conv_Cons p parity_row_def del: upt_Suc)
  then show ?case by (simp add: psum_front[OF L] g1_assoc[OF L] del: psum.simps(2) upt_Suc)
qed (simp add: g1_add_0[OF L])

section \<open>What the rounds take off\<close>

text \<open>A sum over the ring with the values of the verifier, less the rounds of the prover: only the position remains.\<close>

lemma ring_select:
  assumes L: "g1_laws P" and v: "ring_values m i0 w ps r" and i0: "i0 < 2 ^ m"
    and xs: "\<And>i. i < m \<Longrightarrow> xs ! i = g1_Add P (psum P (\<lambda>l. g1_ScalarMult P (Q l) (ps ! i ! l)) (2 ^ m)) (g1_ScalarMult P K (e i))"
  shows "g1_Add P (psum P (\<lambda>l. g1_ScalarMult P (Q l) (r ! l)) (2 ^ m)) (rounds_sum P w xs m) =
    g1_Add P (g1_ScalarMult P (Q i0) (w ^ m)) (g1_ScalarMult P K (- (\<Sum>i<m. e i * w ^ i)))"
proof -
  let ?N = "2 ^ m :: nat"
  have "rounds_sum P w xs m = psum P (\<lambda>i. g1_Add P (psum P (\<lambda>l. g1_ScalarMult P (Q l) (ps ! i ! l * - (w ^ i))) ?N)
      (g1_ScalarMult P K (- (e i * w ^ i)))) m"
    unfolding rounds_sum_def by (intro psum_cong) (simp add: xs g1_add_mul[OF L] psum_mul[OF L, symmetric] g1_mul_mul[OF L])
  also have "\<dots> = g1_Add P (psum P (\<lambda>l. g1_ScalarMult P (Q l) (\<Sum>i<m. ps ! i ! l * - (w ^ i))) ?N) (g1_ScalarMult P K (- (\<Sum>i<m. e i * w ^ i)))"
    unfolding psum_add[OF L] psum_scalars[OF L] psum_swap[OF L, of _ ?N m] by (simp add: sum_negf)
  finally have rs: "rounds_sum P w xs m = \<dots>" .
  have "psum P (\<lambda>l. g1_Add P (g1_ScalarMult P (Q l) (r ! l)) (g1_ScalarMult P (Q l) (\<Sum>i<m. ps ! i ! l * - (w ^ i)))) ?N =
      psum P (\<lambda>l. g1_ScalarMult P (Q l) (if l = i0 then w ^ m else 0)) ?N"
  proof (intro psum_cong)
    fix l assume "l < ?N"
    then have r: "r ! l mod Order = ((\<Sum>i<m. ps ! i ! l * w ^ i) + (if l = i0 then w ^ m else 0)) mod Order"
      using v by (simp add: ring_values_def)
    have c: "(r ! l + (\<Sum>i<m. ps ! i ! l * - (w ^ i))) mod Order = (if l = i0 then w ^ m else 0) mod Order"
      using mod_add_cong[OF r refl, of "\<Sum>i<m. ps ! i ! l * - (w ^ i)"] by (simp add: sum_negf)
    show "g1_Add P (g1_ScalarMult P (Q l) (r ! l)) (g1_ScalarMult P (Q l) (\<Sum>i<m. ps ! i ! l * - (w ^ i))) =
        g1_ScalarMult P (Q l) (if l = i0 then w ^ m else 0)"
      unfolding g1_mul_add[OF L, symmetric] by (rule g1_mul_cong[OF L c])
  qed
  also have "\<dots> = g1_ScalarMult P (Q i0) (w ^ m)"
    by (subst psum_single[OF L i0]) (simp_all add: g1_mul_0[OF L])
  finally show ?thesis unfolding rs by (simp add: psum_add[OF L] g1_assoc[OF L, symmetric])
qed

text \<open>The rounds of a constant multiple.\<close>

lemma rounds_multiples:
  assumes L: "g1_laws P" and "\<And>i. i < m \<Longrightarrow> xs ! i = g1_ScalarMult P K (e i)"
  shows "rounds_sum P w xs m = g1_ScalarMult P K (- (\<Sum>i<m. e i * w ^ i))"
proof -
  have "rounds_sum P w xs m = psum P (\<lambda>i. g1_ScalarMult P K (- (e i * w ^ i))) m"
    unfolding rounds_sum_def by (intro psum_cong) (simp add: assms(2) g1_mul_mul[OF L])
  then show ?thesis by (simp add: psum_scalars[OF L] sum_negf)
qed

section \<open>The convolutions\<close>

text \<open>The position that entry \<open>j\<close> of the ring reads at step \<open>t\<close>.\<close>

definition ring_shift :: "nat \<Rightarrow> nat \<Rightarrow> nat \<Rightarrow> nat" where
  "ring_shift n t j = (j + n - 2 * (t div 2)) mod n"

definition ring_row :: "'p G1Ops \<Rightarrow> 'p list \<Rightarrow> int list \<Rightarrow> int list \<Rightarrow> nat \<Rightarrow> 'p" where
  "ring_row P Q r0 r1 t = psum P (\<lambda>j. g1_ScalarMult P (Q ! j) ((if even t then r0 else r1) ! ring_shift (length Q) t j)) (length Q)"

lemma Convolution_rows:
  assumes L: "g1_laws P" and "length r = 2 ^ m" "length Q = 2 ^ m" "0 < m" "m \<le> 28"
  shows "Convolution P r Q = Inr (map (\<lambda>t. psum P (\<lambda>j. g1_ScalarMult P (Q ! j) (r ! ring_shift (length Q) (2 * t) j)) (length Q)) [0..<2 ^ (m - 1)])"
proof -
  obtain k where m: "m = Suc k" using assms(4) by (cases m) auto
  show ?thesis using assms Convolution_rotates[OF L, of r k Q] by (simp add: m ring_shift_def)
qed

lemma parity_rows:
  assumes L: "g1_laws P" and "length r0 = 2 ^ m" "length r1 = 2 ^ m" "length Q = 2 ^ m" "0 < m" "m \<le> 28"
  shows "\<exists>p q. Convolution P r0 Q = Inr p \<and> Convolution P r1 Q = Inr q \<and> length p = 2 ^ (m - 1) \<and> length q = 2 ^ (m - 1) \<and>
    (\<forall>t < 2 ^ m. (if even t then p else q) ! (t div 2) = ring_row P Q r0 r1 t)"
proof -
  have "t div 2 < 2 ^ (m - 1)" if "t < 2 ^ m" for t :: nat using that assms(5) by (cases m) auto
  then show ?thesis
    using Convolution_rows[OF L assms(2,4-6)] Convolution_rows[OF L assms(3-6)] by (auto simp: ring_row_def ring_shift_def)
qed

section \<open>The prover\<close>

text \<open>A ciphertext with its two points.\<close>

definition is_eg :: "'p G1Ops \<Rightarrow> 'p ElGamal \<Rightarrow> 'p \<Rightarrow> 'p \<Rightarrow> bool" where
  "is_eg P e l r \<longleftrightarrow> eg_G e = g1_G P \<and> eg_Left e = Some l \<and> eg_Right e = Some r"

definition plain_eg :: "'p G1Ops \<Rightarrow> 'p \<Rightarrow> 'p \<Rightarrow> 'p ElGamal" where
  "plain_eg P l r = (NewElGamal P)\<lparr>eg_Left := Some l, eg_Right := Some r\<rparr>"

lemma eg_simps:
  "ConstructElGamal P (Some l) (Some r) = Inr (plain_eg P l r)"
  "eg_Left (plain_eg P l r) = Some l" "eg_Right (plain_eg P l r) = Some r" "eg_G (plain_eg P l r) = g1_G P"
  "eg_Left (CommitElGamal P k key 0) = Some (g1_Add P (g1_ScalarMult P (g1_G P) 0) (g1_ScalarMult P key k))"
  "eg_Right (CommitElGamal P k key 0) = Some (g1_ScalarMult P (g1_G P) k)"
  "is_eg P (plain_eg P l r) l' r' \<longleftrightarrow> l = l' \<and> r = r'"
  by (simp_all add: ConstructElGamal_def plain_eg_def CommitElGamal_def NewElGamal_def is_eg_def)

lemma Commit_zero: "g1_laws P \<Longrightarrow> is_eg P (CommitElGamal P k key 0) (g1_ScalarMult P key k) (g1_ScalarMult P (g1_G P) k)"
  by (simp add: is_eg_def CommitElGamal_def NewElGamal_def g1_mul_0 g1_0_add)

lemma eg_ops:
  "is_eg P e l r \<Longrightarrow> is_eg P e' l' r' \<Longrightarrow> ElGamal_Add P e e' = Inr (plain_eg P (g1_Add P l l') (g1_Add P r r'))"
  "is_eg P e l r \<Longrightarrow> ElGamal_Mul P e k = Inr (plain_eg P (g1_ScalarMult P l k) (g1_ScalarMult P r k))"
  "is_eg P e l r \<Longrightarrow> ElGamal_Neg P e = Inr (plain_eg P (g1_Neg P l) (g1_Neg P r))"
  "is_eg P e l r \<Longrightarrow> ElGamal_Plus P e k = Inr (plain_eg P (g1_Add P l (g1_ScalarMult P (g1_G P) k)) r)"
  by (simp_all add: is_eg_def ElGamal_Add_def ElGamal_Mul_def ElGamal_Neg_def ElGamal_Plus_def eg_simps)

lemma ev_multiexp_sum:
  assumes L: "g1_laws P"
  shows "length xs \<le> length cn \<Longrightarrow> (\<And>i. i < length cn \<Longrightarrow> is_eg P (cn ! i) (ls ! i) (rs ! i)) \<Longrightarrow> length ls = length cn \<Longrightarrow> length rs = length cn \<Longrightarrow>
    ev_multiexp P (plain_eg P l r) cn xs = Inr (plain_eg P (g1_Add P l (msm P ls xs)) (g1_Add P r (msm P rs xs)))"
proof (induction xs arbitrary: cn ls rs l r)
  case (Cons x xs)
  obtain c cn' where c: "cn = c # cn'" using Cons.prems(1) by (cases cn) auto
  obtain a ls' b rs' where ab: "ls = a # ls'" "rs = b # rs'" using Cons.prems(3,4) c by (cases ls; cases rs) auto
  have e: "is_eg P c a b" "\<And>i. i < length cn' \<Longrightarrow> is_eg P (cn' ! i) (ls' ! i) (rs' ! i)"
    using Cons.prems(2)[of 0] Cons.prems(2)[of "Suc _"] by (simp_all add: c ab)
  have "ElGamal_Mul P c x = Inr (plain_eg P (g1_ScalarMult P a x) (g1_ScalarMult P b x))" by (rule eg_ops(2)[OF e(1)])
  then show ?case
    using Cons.prems Cons.IH[of cn' ls' rs'] e(2) by (simp add: c ab eg_ops(1) eg_simps is_eg_def g1_assoc[OF L])
qed (simp add: g1_add_0[OF L])

lemma multiexp_plain:
  assumes L: "g1_laws P" and "length xs = n" "length ls = n" "length rs = n"
  shows "ElGamalVector_MultiExponentiate P (map2 (plain_eg P) ls rs) xs = Inr (plain_eg P (msm P ls xs) (msm P rs xs))"
  unfolding ElGamalVector_MultiExponentiate_def eg_simps rbind_simps
  using assms by (subst ev_multiexp_sum[OF L, of _ _ ls rs]) (simp_all add: eg_simps g1_0_add)

text \<open>The points of round \<open>i\<close>.\<close>

lemma gen_round_points:
  assumes L: "g1_laws P" and len: "length (st_CLn s) = n" "length (st_CRn s) = n" "length (st_C s) = n" "length (st_Publickeylist s) = n" "length p = n"
  shows "gen_round P rnd s (map2 (plain_eg P) (st_CLn s) (st_CRn s)) key i p = Inr
    (plain_eg P (g1_Add P (msm P (st_CLn s) p) (g1_ScalarMult P key (gr_phi rnd i))) (g1_Add P (msm P (st_CRn s) p) (g1_ScalarMult P (g1_G P) (gr_phi rnd i))),
     plain_eg P (g1_Add P (msm P (st_C s) p) (g1_ScalarMult P key (gr_chi rnd i))) (g1_ScalarMult P (g1_G P) (gr_chi rnd i)),
     plain_eg P (g1_Add P (msm P (st_Publickeylist s) p) (g1_ScalarMult P key (gr_psi rnd i))) (g1_ScalarMult P (g1_G P) (gr_psi rnd i)))"
proof -
  have "is_eg P (plain_eg P (msm P (st_CLn s) p) (msm P (st_CRn s) p)) (msm P (st_CLn s) p) (msm P (st_CRn s) p)" by (simp add: eg_simps)
  then show ?thesis
    using multiexp_plain[OF L len(5,1,2)] len eg_ops(1)[OF _ Commit_zero[OF L]]
    by (simp add: gen_round_def Let_def pv_MultiExponentiate_msm[OF L] eg_simps g1_mul_0[OF L] g1_0_add[OF L])
qed

text \<open>The share of the two amounts at step \<open>t\<close>.\<close>

definition ring_share :: "int \<Rightarrow> int \<Rightarrow> nat \<Rightarrow> nat \<Rightarrow> nat \<Rightarrow> nat \<Rightarrow> int list \<Rightarrow> int" where
  "ring_share amt fee n i0 i1 t poly = (- amt - fee) * poly ! ring_shift n t i0 + amt * poly ! ring_shift n t i1"

lemma gen_share_ok:
  assumes "length poly = n" "0 < n"
  shows "gen_share amount fee n i0 i1 t poly = Inr (ring_share (uint amount) (uint fee) n i0 i1 t poly mod Order)"
  using assms by (simp add: gen_share_def ring_share_def ring_shift_def minus_mod_eq_mult_div mod_add_eq)

lemma gen_CX_step:
  assumes L: "g1_laws P" and len: "length polys = length cxs" "\<And>j. j < length cxs \<Longrightarrow> length (polys ! j) = n" "0 < n"
    and eg: "\<And>j. j < length cxs \<Longrightarrow> is_eg P (cxs ! j) (l j) (r j)" and p: "p mod Order = vpow v t mod Order"
  shows "\<exists>cxs'. rmap (\<lambda>(j, cx). rbind (rnth polys j) (\<lambda>poly. rbind (gen_share amount fee n i0 i1 t poly) (\<lambda>joined.
      ElGamal_Plus P cx ((p * joined) mod Order)))) (enumerate 0 cxs) = Inr cxs' \<and> length cxs' = length cxs \<and>
    (\<forall>j < length cxs. is_eg P (cxs' ! j)
      (g1_Add P (l j) (g1_ScalarMult P (g1_G P) (vpow v t * ring_share (uint amount) (uint fee) n i0 i1 t (polys ! j)))) (r j))"
proof -
  let ?sh = "\<lambda>j. ring_share (uint amount) (uint fee) n i0 i1 t (polys ! j)"
  let ?e = "\<lambda>(j, cx :: 'a ElGamal). plain_eg P (g1_Add P (l j) (g1_ScalarMult P (g1_G P) (vpow v t * ?sh j))) (r j)"
  have sc: "g1_ScalarMult P Q ((p * (x mod Order)) mod Order) = g1_ScalarMult P Q (vpow v t * x)" for Q x
    unfolding g1_mul_mod[OF L] by (rule g1_mul_cong[OF L mult_mod_cong[OF p mod_mod_trivial]])
  have "rmap (\<lambda>(j, cx). rbind (rnth polys j) (\<lambda>poly. rbind (gen_share amount fee n i0 i1 t poly) (\<lambda>joined.
      ElGamal_Plus P cx ((p * joined) mod Order)))) (enumerate 0 cxs) = Inr (map ?e (enumerate 0 cxs))"
    using len by (intro rmap_ok) (auto simp: in_set_enumerate_eq gen_share_ok eg_ops(4)[OF eg] sc)
  then show ?thesis by (auto simp: nth_enumerate_eq eg_simps)
qed

lemma gen_CX_loop_sum:
  assumes L: "g1_laws P" and len: "length ps = length cxs" "length qs = length cxs"
    "\<And>j. j < length cxs \<Longrightarrow> length (ps ! j) = n \<and> length (qs ! j) = n" "0 < n"
    and eg: "\<And>j. j < length cxs \<Longrightarrow> is_eg P (cxs ! j) (l j) (r j)" and p: "p mod Order = vpow v a mod Order"
  shows "\<exists>cxs'. gen_CX_loop P amount fee n i0 i1 v ps qs [a..<a + d] p cxs = Inr cxs' \<and> length cxs' = length cxs \<and>
    (\<forall>j < length cxs. is_eg P (cxs' ! j) (g1_Add P (l j) (g1_ScalarMult P (g1_G P)
      (\<Sum>t<d. vpow v (a + t) * ring_share (uint amount) (uint fee) n i0 i1 (a + t) ((if even (a + t) then ps else qs) ! j)))) (r j))"
  using len eg p
proof (induction d arbitrary: a l p cxs)
  case 0
  then show ?case by (auto simp: g1_mul_0[OF L] g1_add_0[OF L])
next
  case (Suc d)
  let ?polys = "if even a then ps else qs"
  let ?sh = "\<lambda>t j. vpow v t * ring_share (uint amount) (uint fee) n i0 i1 t ((if even t then ps else qs) ! j)"
  let ?l = "\<lambda>j. g1_Add P (l j) (g1_ScalarMult P (g1_G P) (?sh a j))"
  have pl: "length ?polys = length cxs" "\<And>j. j < length cxs \<Longrightarrow> length (?polys ! j) = n" using Suc.prems by auto
  obtain c1 where c1: "rmap (\<lambda>(j, cx). rbind (rnth ?polys j) (\<lambda>poly. rbind (gen_share amount fee n i0 i1 a poly) (\<lambda>joined.
      ElGamal_Plus P cx ((p * joined) mod Order)))) (enumerate 0 cxs) = Inr c1" "length c1 = length cxs"
    "\<And>j. j < length cxs \<Longrightarrow> is_eg P (c1 ! j) (?l j) (r j)"
    using gen_CX_step[OF L pl Suc.prems(4-6)] by blast
  let ?p = "if 0 < a then (p * v) mod Order else p"
  have pl': "length ps = length c1" "length qs = length c1" "\<And>j. j < length c1 \<Longrightarrow> length (ps ! j) = n \<and> length (qs ! j) = n"
    using Suc.prems c1(2) by auto
  obtain c2 where c2: "gen_CX_loop P amount fee n i0 i1 v ps qs [Suc a..<Suc a + d] ?p c1 = Inr c2" "length c2 = length c1"
    "\<And>j. j < length c1 \<Longrightarrow> is_eg P (c2 ! j) (g1_Add P (?l j) (g1_ScalarMult P (g1_G P) (\<Sum>t<d. ?sh (Suc a + t) j))) (r j)"
    using Suc.IH[OF pl' Suc.prems(4) _ vpow_step[OF Suc.prems(6)], of ?l] c1(2,3) by auto
  have "gen_CX_loop P amount fee n i0 i1 v ps qs [a..<a + Suc d] p cxs = Inr c2"
    using c1(1) c2(1) by (simp add: upt_conv_Cons even_iff_mod_2_eq_zero del: upt_Suc)
  moreover have "g1_Add P (?l j) (g1_ScalarMult P (g1_G P) (\<Sum>t<d. ?sh (Suc a + t) j)) =
      g1_Add P (l j) (g1_ScalarMult P (g1_G P) (\<Sum>t<Suc d. ?sh (a + t) j))" for j
    unfolding sum.lessThan_Suc_shift by (simp add: g1_mul_add[OF L] g1_assoc[OF L])
  ultimately show ?case using c1(2) c2 by (intro exI[of _ c2]) (simp del: sum.lessThan_Suc)
qed

section \<open>The sigma protocol of the prover\<close>

definition half_eg :: "'p G1Ops \<Rightarrow> 'p \<Rightarrow> 'p ElGamal" where
  "half_eg P r = (NewElGamal P)\<lparr>eg_Right := Some r\<rparr>"

lemma half_eg_simps:
  "ConstructElGamal P None (Some r) = Inr (half_eg P r)" "eg_Right (half_eg P r) = Some r"
  "is_eg P e l r' \<Longrightarrow> ElGamal_Add P (half_eg P r) e = Inr (half_eg P (g1_Add P r r'))"
  "ElGamal_Add P (half_eg P r) (half_eg P r') = Inr (half_eg P (g1_Add P r r'))"
  by (simp_all add: ConstructElGamal_def half_eg_def NewElGamal_def ElGamal_Add_def is_eg_def)

lemma gen_XR_loop_sum:
  assumes L: "g1_laws P"
  shows "a + d \<le> 2 * length y_p \<Longrightarrow> a + d \<le> 2 * length y_q \<Longrightarrow> p mod Order = vpow v a mod Order \<Longrightarrow>
    gen_XR_loop P v y_p y_q [a..<a + d] p (half_eg P c) =
      Inr (half_eg P (g1_Add P c (psum P (\<lambda>t. g1_ScalarMult P ((if even (a + t) then y_p else y_q) ! ((a + t) div 2)) (vpow v (a + t))) d)))"
proof (induction d arbitrary: a c p)
  case (Suc d)
  have n: "a div 2 < length y_p" "a div 2 < length y_q" using Suc.prems by auto
  have p: "g1_ScalarMult P Q p = g1_ScalarMult P Q (vpow v a)" for Q by (rule g1_mul_cong[OF L Suc.prems(3)])
  let ?c = "g1_Add P c (g1_ScalarMult P ((if even a then y_p else y_q) ! (a div 2)) (vpow v a))"
  have "gen_XR_loop P v y_p y_q [a..<a + Suc d] p (half_eg P c) =
      gen_XR_loop P v y_p y_q [Suc a..<Suc a + d] (if 0 < a then (p * v) mod Order else p) (half_eg P ?c)"
    using n by (auto simp: upt_conv_Cons p half_eg_simps odd_iff_mod_2_eq_one[symmetric] simp del: upt_Suc)
  then show ?case
    using Suc.IH[of "Suc a" "if 0 < a then (p * v) mod Order else p" ?c] vpow_step[OF Suc.prems(3)] Suc.prems
    by (simp add: psum_front[OF L] g1_assoc[OF L] del: psum.simps(2) upt_Suc)
qed (simp add: g1_add_0[OF L])

lemma gen_sigma_rounds_append:
  "gen_sigma_rounds P rnd key w cxs ps qs (xs @ ys) g = rbind (gen_sigma_rounds P rnd key w cxs ps qs xs g) (gen_sigma_rounds P rnd key w cxs ps qs ys)"
  by (induction xs arbitrary: g) (auto simp: rbind_assoc intro: rbind_cong)

lemma add_scaled:
  assumes "length xs = length ys"
  shows "fv_Add xs (fv_Times ys k) = Inr (map2 (\<lambda>x y. (x + (y * k) mod Order) mod Order) xs ys)"
  using assms by (simp add: fv_Add_def fv_Times_def zip_map2 split_def)

text \<open>The values of the ring polynomials without their leading coefficients.\<close>

definition coefficients_at :: "int list list \<Rightarrow> int \<Rightarrow> nat \<Rightarrow> nat \<Rightarrow> int list \<Rightarrow> bool" where
  "coefficients_at ps w n d p \<longleftrightarrow> length p = n \<and> (\<forall>l < n. p ! l mod Order = (\<Sum>i<d. ps ! i ! l * w ^ i) mod Order)"

lemma coefficients_Suc:
  assumes "coefficients_at ps w n d p" "length (ps ! d) = n"
  shows "coefficients_at ps w n (Suc d) (map2 (\<lambda>x y. (x + (y * (w ^ d mod Order)) mod Order) mod Order) p (ps ! d))"
proof -
  have "(p ! l + (ps ! d ! l * (w ^ d mod Order)) mod Order) mod Order = ((\<Sum>i<d. ps ! i ! l * w ^ i) + ps ! d ! l * w ^ d) mod Order"
    if "l < n" for l
    using assms(1) that by (intro mod_add_cong) (simp_all add: coefficients_at_def mod_mult_right_eq)
  then show ?thesis using assms by (simp add: coefficients_at_def)
qed

lemma gen_sigma_rounds_sum:
  assumes L: "g1_laws P" and cx: "\<And>i. i < m \<Longrightarrow> is_eg P (cxs ! i) (l i) (rs ! i)" and len: "length cxs = m" "length ps = m" "length qs = m"
    "\<And>i. i < m \<Longrightarrow> length (ps ! i) = n \<and> length (qs ! i) = n"
  shows "d \<le> m \<Longrightarrow> \<exists>p q. coefficients_at ps w n d p \<and> coefficients_at qs w n d q \<and>
    gen_sigma_rounds P rnd key w cxs ps qs [0..<d]
      \<lparr>gs_CnR = half_eg P (g1_zero P), gs_chi = 0, gs_psi = 0, gs_C_XR = half_eg P (g1_zero P), gs_p = replicate n 0, gs_q = replicate n 0, gs_wPow = 1\<rparr> =
    Inr \<lparr>gs_CnR = half_eg P (g1_ScalarMult P (g1_G P) (- (\<Sum>i<d. gr_phi rnd i * w ^ i))), gs_chi = (\<Sum>i<d. gr_chi rnd i * w ^ i) mod Order,
      gs_psi = (\<Sum>i<d. gr_psi rnd i * w ^ i) mod Order, gs_C_XR = half_eg P (rounds_sum P w rs d), gs_p = p, gs_q = q, gs_wPow = w ^ d mod Order\<rparr>"
proof (induction d)
  case 0
  have "coefficients_at ps w n 0 (replicate n 0)" for ps by (simp add: coefficients_at_def)
  then show ?case by (intro exI[of _ "replicate n 0"]) (simp add: rounds_sum_def g1_mul_0[OF L])
next
  case (Suc d)
  then obtain p q where pq: "coefficients_at ps w n d p" "coefficients_at qs w n d q"
    and run: "gen_sigma_rounds P rnd key w cxs ps qs [0..<d]
      \<lparr>gs_CnR = half_eg P (g1_zero P), gs_chi = 0, gs_psi = 0, gs_C_XR = half_eg P (g1_zero P), gs_p = replicate n 0, gs_q = replicate n 0, gs_wPow = 1\<rparr> =
    Inr \<lparr>gs_CnR = half_eg P (g1_ScalarMult P (g1_G P) (- (\<Sum>i<d. gr_phi rnd i * w ^ i))), gs_chi = (\<Sum>i<d. gr_chi rnd i * w ^ i) mod Order,
      gs_psi = (\<Sum>i<d. gr_psi rnd i * w ^ i) mod Order, gs_C_XR = half_eg P (rounds_sum P w rs d), gs_p = p, gs_q = q, gs_wPow = w ^ d mod Order\<rparr>"
    by auto
  have d: "d < m" using Suc.prems by simp
  have phi: "ElGamal_Neg P (CommitElGamal P (gr_phi rnd d) key 0) = Inr (plain_eg P (g1_Neg P (g1_ScalarMult P key (gr_phi rnd d))) (g1_Neg P (g1_ScalarMult P (g1_G P) (gr_phi rnd d))))"
    by (rule eg_ops(3)[OF Commit_zero[OF L]])
  have cxd: "ElGamal_Neg P (cxs ! d) = Inr (plain_eg P (g1_Neg P (l d)) (g1_Neg P (rs ! d)))" by (rule eg_ops(3)[OF cx[OF d]])
  have mul: "ElGamal_Mul P (plain_eg P a b) k = Inr (plain_eg P (g1_ScalarMult P a k) (g1_ScalarMult P b k))" for a b k
    by (rule eg_ops(2)) (simp add: eg_simps)
  have add: "ElGamal_Add P (half_eg P a) (plain_eg P b c) = Inr (half_eg P (g1_Add P a c))" for a b c
    by (rule half_eg_simps(3)) (simp add: eg_simps)
  have neg: "g1_ScalarMult P (g1_Neg P Q) (w ^ d mod Order) = g1_ScalarMult P Q (- (w ^ d))" for Q
    by (simp add: g1_neg[OF L] g1_mul_mod[OF L] g1_mul_mul[OF L])
  have wd: "(w ^ d mod Order * w) mod Order = w ^ Suc d mod Order" by (simp add: mod_mult_right_eq mult.commute)
  have acc: "(S mod Order + (x * (w ^ d mod Order)) mod Order) mod Order = (S + x * w ^ d) mod Order" for S x
    by (simp add: mod_add_eq mod_mult_right_eq)
  have vec: "length p = length (ps ! d)" "length q = length (qs ! d)" using pq len(4)[OF d] by (simp_all add: coefficients_at_def)
  show ?case
    using coefficients_Suc[OF pq(1)] coefficients_Suc[OF pq(2)] len(4)[OF d]
    unfolding upt_Suc_append[OF le0] gen_sigma_rounds_append run
    by (simp add: gen_sigma_round_def phi cxd mul add neg wd acc vec len d add_scaled rounds_sum_Suc g1_mul_mul[OF L] g1_mul_add[OF L, symmetric])
qed

end
