(* ===== verification/Ring_Complete.thy ===== *)
theory Ring_Complete
  imports Ring_Sums
begin

text \<open>
  The ring part of the proof: on a statement the prover is honest about, the points the verifier computes from the
  proof are the ones the prover used, and the relations between them that the sigma protocol shows hold.
\<close>

section \<open>An honest statement\<close>

text \<open>The amount that entry \<open>j\<close> of the ring gains.\<close>

definition gain :: "'p Statement \<Rightarrow> Witness \<Rightarrow> uint64 \<Rightarrow> nat \<Rightarrow> int" where
  "gain s wit burn j =
     (if j = wt_Index wit ! 0 then - uint (wt_TransferAmount wit) - (uint (st_Fee s) + uint burn)
      else if j = wt_Index wit ! 1 then uint (wt_TransferAmount wit) else 0)"

definition honest :: "'p G1Ops \<Rightarrow> 'p Statement \<Rightarrow> Witness \<Rightarrow> uint64 \<Rightarrow> nat \<Rightarrow> bool" where
  "honest P s wit burn m \<longleftrightarrow>
     0 < m \<and> m \<le> 28 \<and>
     length (st_Publickeylist s) = 2 ^ m \<and> length (st_C s) = 2 ^ m \<and> length (st_CLn s) = 2 ^ m \<and> length (st_CRn s) = 2 ^ m \<and>
     length (wt_Index wit) = 2 \<and> wt_Index wit ! 0 < 2 ^ m \<and> wt_Index wit ! 1 < 2 ^ m \<and> odd (wt_Index wit ! 0 + wt_Index wit ! 1) \<and>
     uint (st_Fee s) + uint burn < 2 ^ 64 \<and>
     st_D s = g1_ScalarMult P (g1_G P) (wt_R wit) \<and>
     st_Publickeylist s ! (wt_Index wit ! 0) = g1_ScalarMult P (g1_G P) (wt_SecretKey wit) \<and>
     (\<forall>j < 2 ^ m. st_C s ! j =
        g1_Add P (g1_ScalarMult P (st_Publickeylist s ! j) (wt_R wit)) (g1_ScalarMult P (g1_G P) (gain s wit burn j))) \<and>
     st_CLn s ! (wt_Index wit ! 0) = g1_Add P (g1_ScalarMult P (st_CRn s ! (wt_Index wit ! 0)) (wt_SecretKey wit))
       (g1_ScalarMult P (g1_G P) (uint (wt_Balance wit)))"

section \<open>The commitments\<close>

lemma points_of:
  assumes "\<And>j. j < length es \<Longrightarrow> is_eg P (es ! j) (l j) (r j)"
  shows "left_points es = Inr (map l [0..<length es])" "right_points es = Inr (map r [0..<length es])"
proof -
  have "rmap (\<lambda>e. rderef (f e)) es = Inr (map g [0..<length es])" if "\<And>j. j < length es \<Longrightarrow> f (es ! j) = Some (g j)" for f :: "'a ElGamal \<Rightarrow> 'a option" and g
  proof -
    have "rmap (\<lambda>e. rderef (f e)) es = Inr (map (\<lambda>e. the (f e)) es)"
      using that by (intro rmap_ok) (metis in_set_conv_nth option.sel rderef_simps)
    also have "map (\<lambda>e. the (f e)) es = map g [0..<length es]" using that by (intro nth_equalityI) simp_all
    finally show ?thesis .
  qed
  then show "left_points es = Inr (map l [0..<length es])" "right_points es = Inr (map r [0..<length es])"
    using assms by (auto simp: left_points_def right_points_def is_eg_def)
qed

definition shares_sum :: "int \<Rightarrow> int \<Rightarrow> int \<Rightarrow> nat \<Rightarrow> nat \<Rightarrow> nat \<Rightarrow> int list list \<Rightarrow> int list list \<Rightarrow> nat \<Rightarrow> int" where
  "shares_sum v amt fee n i0 i1 ps qs j = (\<Sum>t<n. vpow v t * ring_share amt fee n i0 i1 t ((if even t then ps else qs) ! j))"

lemma gen_commitments_points:
  assumes L: "g1_laws P" and n: "length (st_Publickeylist s) = n" "length (st_C s) = n" "length (st_CLn s) = n" "length (st_CRn s) = n" "0 < n"
    and ps: "length ps = m" "length qs = m" "\<And>i. i < m \<Longrightarrow> length (ps ! i) = n \<and> length (qs ! i) = n"
    and cxl_def: "cxl = (\<lambda>i. g1_Add P (g1_ScalarMult P (st_D s) (gr_CX rnd i)) (g1_ScalarMult P (g1_G P)
      (shares_sum v (uint (wt_TransferAmount wit)) (uint (st_Fee s + burn)) n i0 i1 ps qs i)))"
    and cxr_def: "cxr = (\<lambda>i. g1_ScalarMult P (g1_G P) (gr_CX rnd i))"
  shows "\<exists>cxs. gen_commitments P rnd s wit burn m n i0 i1 (map2 (plain_eg P) (st_CLn s) (st_CRn s)) key pf v ps qs =
    Inr (pf\<lparr>pf_C_XG := map cxl [0..<m], pf_y_XG := map cxr [0..<m],
      pf_CLnG := map (\<lambda>i. g1_Add P (msm P (st_CLn s) (ps ! i)) (g1_ScalarMult P key (gr_phi rnd i))) [0..<m],
      pf_CRnG := map (\<lambda>i. g1_Add P (msm P (st_CRn s) (ps ! i)) (g1_ScalarMult P (g1_G P) (gr_phi rnd i))) [0..<m],
      pf_C_0G := map (\<lambda>i. g1_Add P (msm P (st_C s) (ps ! i)) (g1_ScalarMult P key (gr_chi rnd i))) [0..<m],
      pf_DG := map (\<lambda>i. g1_ScalarMult P (g1_G P) (gr_chi rnd i)) [0..<m],
      pf_y_0G := map (\<lambda>i. g1_Add P (msm P (st_Publickeylist s) (ps ! i)) (g1_ScalarMult P key (gr_psi rnd i))) [0..<m],
      pf_gG := map (\<lambda>i. g1_ScalarMult P (g1_G P) (gr_psi rnd i)) [0..<m]\<rparr>, cxs) \<and>
    length cxs = m \<and> (\<forall>i < m. is_eg P (cxs ! i) (cxl i) (cxr i))"
proof -
  let ?cn = "map2 (plain_eg P) (st_CLn s) (st_CRn s)"
  let ?r1 = "\<lambda>i. plain_eg P (g1_Add P (msm P (st_CLn s) (ps ! i)) (g1_ScalarMult P key (gr_phi rnd i))) (g1_Add P (msm P (st_CRn s) (ps ! i)) (g1_ScalarMult P (g1_G P) (gr_phi rnd i)))"
  let ?r2 = "\<lambda>i. plain_eg P (g1_Add P (msm P (st_C s) (ps ! i)) (g1_ScalarMult P key (gr_chi rnd i))) (g1_ScalarMult P (g1_G P) (gr_chi rnd i))"
  let ?r3 = "\<lambda>i. plain_eg P (g1_Add P (msm P (st_Publickeylist s) (ps ! i)) (g1_ScalarMult P key (gr_psi rnd i))) (g1_ScalarMult P (g1_G P) (gr_psi rnd i))"
  have rounds: "rmap (\<lambda>i. rbind (rnth ps i) (gen_round P rnd s ?cn key i)) [0..<m] = Inr (map (\<lambda>i. (?r1 i, ?r2 i, ?r3 i)) [0..<m])"
    using ps gen_round_points[OF L n(3,4,2,1)] by (intro rmap_ok) simp
  let ?c0 = "map (\<lambda>i. CommitElGamal P (gr_CX rnd i) (st_D s) 0) [0..<m]"
  have eg0: "j < length ?c0 \<Longrightarrow> is_eg P (?c0 ! j) (g1_ScalarMult P (st_D s) (gr_CX rnd j)) (cxr j)" for j
    by (simp add: Commit_zero[OF L] cxr_def)
  obtain cxs where cxs: "gen_CX_loop P (wt_TransferAmount wit) (st_Fee s + burn) n i0 i1 v ps qs [0..<n] 1 ?c0 = Inr cxs" "length cxs = m"
    "\<And>i. i < m \<Longrightarrow> is_eg P (cxs ! i) (cxl i) (cxr i)"
    using gen_CX_loop_sum[OF L _ _ _ n(5) eg0, of ps qs 1 v 0 "wt_TransferAmount wit" "st_Fee s + burn" i0 i1 n] ps
    by (auto simp: vpow_def cxl_def shares_sum_def)
  have cxp: "left_points cxs = Inr (map cxl [0..<m])" "right_points cxs = Inr (map cxr [0..<m])"
    using points_of[of cxs P cxl cxr] cxs(2,3) by simp_all
  have pl: "left_points (map (\<lambda>i. plain_eg P (l i) (r i)) [0..<m]) = Inr (map l [0..<m])"
    "right_points (map (\<lambda>i. plain_eg P (l i) (r i)) [0..<m]) = Inr (map r [0..<m])" for l r
    using points_of[of "map (\<lambda>i. plain_eg P (l i) (r i)) [0..<m]" P l r] by (simp_all add: eg_simps)
  show ?thesis
    unfolding gen_commitments_def rounds using cxs cxp by (simp add: comp_def pl)
qed

lemma g1_mul_right_mod: "g1_laws P \<Longrightarrow> g1_ScalarMult P Q (k * (x mod Order)) = g1_ScalarMult P Q (k * x)"
  by (rule g1_mul_cong) (simp_all add: mod_mult_right_eq)

section \<open>The points of the prover\<close>

lemma ring_row_cong:
  assumes L: "g1_laws P" and "length r0 = length Q" "length p = length Q" "length r1 = length Q" "length q = length Q"
    "\<And>l. l < length Q \<Longrightarrow> p ! l mod Order = r0 ! l mod Order" "\<And>l. l < length Q \<Longrightarrow> q ! l mod Order = r1 ! l mod Order"
  shows "ring_row P Q p q t = ring_row P Q r0 r1 t"
  unfolding ring_row_def
proof (intro psum_cong g1_mul_cong[OF L])
  fix j assume "j < length Q"
  then have "ring_shift (length Q) t j < length Q" by (auto simp: ring_shift_def intro: mod_less_divisor)
  then show "(if even t then p else q) ! ring_shift (length Q) t j mod Order = (if even t then r0 else r1) ! ring_shift (length Q) t j mod Order"
    using assms by simp
qed

lemma add_unit_vector:
  assumes "coefficients_at ps w n m p" "ring_values m k w ps r" "n = 2 ^ m"
  shows "\<exists>p'. fv_Add p (unit_vector n k (w ^ m mod Order)) = Inr p' \<and> length p' = n \<and> (\<forall>l < n. p' ! l mod Order = r ! l mod Order)"
proof -
  let ?p = "map2 (\<lambda>a b. (a + b) mod Order) p (unit_vector n k (w ^ m mod Order))"
  have len: "length p = n" "length (unit_vector n k (w ^ m mod Order)) = n"
    using assms(1) by (simp_all add: coefficients_at_def unit_vector_def)
  have "?p ! l mod Order = r ! l mod Order" if l: "l < n" for l
  proof -
    have "?p ! l mod Order = (p ! l + (if l = k then w ^ m mod Order else 0)) mod Order"
      using l len by (simp add: unit_vector_def)
    also have "\<dots> = ((\<Sum>i<m. ps ! i ! l * w ^ i) + (if l = k then w ^ m else 0)) mod Order"
      using assms(1) l by (intro mod_add_cong) (simp_all add: coefficients_at_def)
    finally show ?thesis using assms(2,3) l by (simp add: ring_values_def)
  qed
  then show ?thesis using len by (auto simp: fv_Add_def)
qed

text \<open>The sum over the ring that stands for the second relation.\<close>

definition rows_sum :: "'p G1Ops \<Rightarrow> int \<Rightarrow> 'p list \<Rightarrow> int list \<Rightarrow> int list \<Rightarrow> 'p" where
  "rows_sum P v Q r0 r1 = psum P (\<lambda>t. g1_ScalarMult P (ring_row P Q r0 r1 t) (vpow v t)) (length Q)"

lemma gen_links_points:
  assumes L: "g1_laws P" and n: "n = 2 ^ m" "0 < m" "m \<le> 28"
    "length (st_Publickeylist s) = n" "length (st_CLn s) = n" "length (st_CRn s) = n"
    and i: "i0 < n" "i1 < n"
    and r: "ring_values m i0 w ps r0" "ring_values m i1 w qs r1"
    and cx: "length cxs = m" "\<forall>i < m. is_eg P (cxs ! i) (l i) (rs ! i)"
  shows "gen_links P rnd s (map2 (plain_eg P) (st_CLn s) (st_CRn s)) key m n i0 i1 v w cxs ps qs = Inr
    \<lparr>gl_CRnR = g1_Add P (g1_ScalarMult P (st_CRn s ! i0) (w ^ m)) (g1_ScalarMult P (g1_G P) (- (\<Sum>i<m. gr_phi rnd i * w ^ i))),
     gl_y_XR = g1_Add P (rows_sum P v (st_Publickeylist s) r0 r1) (rounds_sum P w rs m),
     gl_DR = g1_Add P (g1_ScalarMult P (st_D s) (w ^ m)) (g1_ScalarMult P (g1_G P) (- (\<Sum>i<m. gr_chi rnd i * w ^ i))),
     gl_gR = g1_ScalarMult P (g1_G P) (w ^ m - (\<Sum>i<m. gr_psi rnd i * w ^ i)),
     gl_wPow = w ^ m mod Order\<rparr>"
proof -
  have len: "length ps = m" "length qs = m" "\<And>i. i < m \<Longrightarrow> length (ps ! i) = n \<and> length (qs ! i) = n" "length r0 = n" "length r1 = n"
    using r n(1) by (simp_all add: ring_values_def)
  obtain p q where pq: "coefficients_at ps w n m p" "coefficients_at qs w n m q"
    and run: "gen_sigma_rounds P rnd key w cxs ps qs [0..<m]
      \<lparr>gs_CnR = half_eg P (g1_zero P), gs_chi = 0, gs_psi = 0, gs_C_XR = half_eg P (g1_zero P), gs_p = replicate n 0, gs_q = replicate n 0, gs_wPow = 1\<rparr> =
    Inr \<lparr>gs_CnR = half_eg P (g1_ScalarMult P (g1_G P) (- (\<Sum>i<m. gr_phi rnd i * w ^ i))), gs_chi = (\<Sum>i<m. gr_chi rnd i * w ^ i) mod Order,
      gs_psi = (\<Sum>i<m. gr_psi rnd i * w ^ i) mod Order, gs_C_XR = half_eg P (rounds_sum P w rs m), gs_p = p, gs_q = q, gs_wPow = w ^ m mod Order\<rparr>"
    using gen_sigma_rounds_sum[OF L cx(2)[rule_format] cx(1) len(1-3) order.refl, of w rnd key] by blast
  obtain p' where p': "fv_Add p (unit_vector n i0 (w ^ m mod Order)) = Inr p'" "length p' = n" "\<And>l. l < n \<Longrightarrow> p' ! l mod Order = r0 ! l mod Order"
    using add_unit_vector[OF pq(1) r(1) n(1)] by blast
  obtain q' where q': "fv_Add q (unit_vector n i1 (w ^ m mod Order)) = Inr q'" "length q' = n" "\<And>l. l < n \<Longrightarrow> q' ! l mod Order = r1 ! l mod Order"
    using add_unit_vector[OF pq(2) r(2) n(1)] by blast
  let ?pk = "st_Publickeylist s"
  obtain yp yq where y: "Convolution P p' ?pk = Inr yp" "Convolution P q' ?pk = Inr yq" "length yp = 2 ^ (m - 1)" "length yq = 2 ^ (m - 1)"
    "\<And>t. t < n \<Longrightarrow> (if even t then yp else yq) ! (t div 2) = ring_row P ?pk p' q' t"
    using parity_rows[OF L, of p' m q' ?pk] n p'(2) q'(2) by blast
  have n2: "n \<le> 2 * length yp" "n \<le> 2 * length yq" using y(3,4) n(1,2) by (cases m; simp)+
  have "psum P (\<lambda>t. g1_ScalarMult P ((if even t then yp else yq) ! (t div 2)) (vpow v t)) n = rows_sum P v ?pk r0 r1"
    unfolding rows_sum_def n(4) using y(5) ring_row_cong[OF L, of r0 ?pk p' r1 q'] p' q' len n(4) by (intro psum_cong) simp
  then have loop: "gen_XR_loop P v yp yq [0..<n] 1 (half_eg P c) = Inr (half_eg P (g1_Add P c (rows_sum P v ?pk r0 r1)))" for c
    using gen_XR_loop_sum[OF L, of 0 n yp yq 1 v c] n2 by (simp add: vpow_def)
  have c0: "is_eg P (plain_eg P a b) a b" for a b by (simp add: eg_simps)
  have g: "g1_ScalarMult P (g1_G P) ((w ^ m mod Order - x mod Order) mod Order) = g1_ScalarMult P (g1_G P) (w ^ m - x)" for x
    by (simp add: mod_diff_eq g1_mul_mod[OF L])
  show ?thesis
    using i n(4-6) p'(1) q'(1) y(1,2)
    by (simp add: gen_links_def half_eg_simps run eg_ops(2)[OF c0] half_eg_simps(3)[OF c0] Let_def loop g1_mul_neg_mod[OF L] g g1_mul_mod[OF L, of _ "w ^ m"] g1_comm[OF L])
qed

section \<open>The points of the verifier\<close>

lemma ring_shift_0: "j < n \<Longrightarrow> ring_shift n 0 j = j"
  by (simp add: ring_shift_def)

lemma ring_row_0: "ring_row P Q r0 r1 0 = psum P (\<lambda>j. g1_ScalarMult P (Q ! j) (r0 ! j)) (length Q)"
  unfolding ring_row_def by (intro psum_cong) (simp add: ring_shift_0)

lemma anon_support_points:
  assumes L: "g1_laws P" and m: "0 < m" "m \<le> 28" and n: "n = 2 ^ m"
    "length (st_Publickeylist s) = n" "length (st_C s) = n" "length (st_CLn s) = n" "length (st_CRn s) = n"
    and f: "length f = 2 * m" "assemblepolynomials f = Inr (zip r0 r1)" "length r0 = n" "length r1 = n"
    and len: "\<forall>xs \<in> {pf_CLnG pf, pf_CRnG pf, pf_C_0G pf, pf_DG pf, pf_y_0G pf, pf_gG pf, pf_C_XG pf, pf_y_XG pf}. m \<le> length xs"
  shows "anon_support P gp pf s open_value v w f = Inr
    \<lparr>an_CLnR = g1_Add P (psum P (\<lambda>l. g1_ScalarMult P (st_CLn s ! l) (r0 ! l)) n) (rounds_sum P w (pf_CLnG pf) m),
     an_CRnR = g1_Add P (psum P (\<lambda>l. g1_ScalarMult P (st_CRn s ! l) (r0 ! l)) n) (rounds_sum P w (pf_CRnG pf) m),
     an_CR00 = g1_Add P (psum P (\<lambda>l. g1_ScalarMult P (st_C s ! l) (r0 ! l)) n) (rounds_sum P w (pf_C_0G pf) m),
     an_yR00 = g1_Add P (psum P (\<lambda>l. g1_ScalarMult P (st_Publickeylist s ! l) (r0 ! l)) n) (rounds_sum P w (pf_y_0G pf) m),
     an_C_XR = g1_Add P (g1_Add P (rows_sum P v (st_C s) r0 r1) (rounds_sum P w (pf_C_XG pf) m)) (g1_ScalarMult P (gp_G gp) (uint open_value * w ^ m)),
     an_y_XR = g1_Add P (rows_sum P v (st_Publickeylist s) r0 r1) (rounds_sum P w (pf_y_XG pf) m),
     an_gR = g1_Add P (rounds_sum P w (pf_gG pf) m) (g1_ScalarMult P (gp_G gp) (w ^ m)),
     an_DR = g1_Add P (rounds_sum P w (pf_DG pf) m) (g1_ScalarMult P (st_D s) (w ^ m)),
     an_wPow = w ^ m mod Order\<rparr>"
proof -
  let ?pk = "st_Publickeylist s" and ?C = "st_C s" and ?h = "2 ^ (m - 1) :: nat"
  obtain cp cq where c: "Convolution P r0 ?C = Inr cp" "Convolution P r1 ?C = Inr cq" "length cp = ?h" "length cq = ?h"
    "\<And>t. t < n \<Longrightarrow> (if even t then cp else cq) ! (t div 2) = ring_row P ?C r0 r1 t"
    using parity_rows[OF L, of r0 m r1 ?C] m n f(3,4) by blast
  obtain yp yq where y: "Convolution P r0 ?pk = Inr yp" "Convolution P r1 ?pk = Inr yq" "length yp = ?h" "length yq = ?h"
    "\<And>t. t < n \<Longrightarrow> (if even t then yp else yq) ! (t div 2) = ring_row P ?pk r0 r1 t"
    using parity_rows[OF L, of r0 m r1 ?pk] m n f(3,4) by blast
  have zips: "map fst (zip r0 r1) = r0" "map snd (zip r0 r1) = r1" "length (zip r0 r1) = n" using f(3,4) by simp_all
  have cr: "rmap (\<lambda>i. rbind (rnth cq i) (\<lambda>q. Inr (cp ! i, q))) [0..<length cp] = Inr (zip cp cq)"
    using c(3,4) by (subst rmap_ok[where g = "\<lambda>i. (cp ! i, cq ! i)"]) (auto intro!: nth_equalityI)
  have yr: "rmap (\<lambda>i. rbind (rnth yp i) (\<lambda>p. rbind (rnth yq i) (\<lambda>q. Inr (p, q)))) [0..<length cp] = Inr (zip yp yq)"
    using c(3) y(3,4) by (subst rmap_ok[where g = "\<lambda>i. (yp ! i, yq ! i)"]) (auto intro!: nth_equalityI)
  have h: "t div 2 < ?h" if "t < n" for t using that n(1) m(1) by (cases m) auto
  have prow: "parity_row (zip cp cq) t = ring_row P ?C r0 r1 t" "parity_row (zip yp yq) t = ring_row P ?pk r0 r1 t" if "t < n" for t
    using c(3,4) y(3,4) c(5)[OF that] y(5)[OF that] h[OF that] by (simp_all add: parity_row_def split: if_splits)
  have n2: "n \<le> 2 * length (zip cp cq)" "n \<le> 2 * length (zip yp yq)" using c(3,4) y(3,4) n(1) m(1) by (cases m; simp)+
  obtain vp where ps: "power_sums P v (zip cp cq) (zip yp yq) [0..<n] (g1_zero P, g1_zero P, 1) =
      Inr (rows_sum P v ?C r0 r1, rows_sum P v ?pk r0 r1, vp)"
  proof -
    obtain p' where "power_sums P v (zip cp cq) (zip yp yq) [0..<0 + n] (g1_zero P, g1_zero P, 1) =
      Inr (g1_Add P (g1_zero P) (psum P (\<lambda>t. g1_ScalarMult P (parity_row (zip cp cq) (0 + t)) (vpow v (0 + t))) n),
           g1_Add P (g1_zero P) (psum P (\<lambda>t. g1_ScalarMult P (parity_row (zip yp yq) (0 + t)) (vpow v (0 + t))) n), p')"
      using power_sums_psum[OF L, of 0 n "zip cp cq" "zip yp yq" 1 v "g1_zero P" "g1_zero P"] n2 by (auto simp: vpow_def)
    moreover have "psum P (\<lambda>t. g1_ScalarMult P (parity_row (zip cp cq) (0 + t)) (vpow v (0 + t))) n = rows_sum P v ?C r0 r1"
      "psum P (\<lambda>t. g1_ScalarMult P (parity_row (zip yp yq) (0 + t)) (vpow v (0 + t))) n = rows_sum P v ?pk r0 r1"
      unfolding rows_sum_def n(2,3) by (intro psum_cong; simp add: prow)+
    ultimately show ?thesis using that by (simp add: g1_0_add[OF L])
  qed
  have first: "fst (zip cp cq ! 0) = psum P (\<lambda>l. g1_ScalarMult P (?C ! l) (r0 ! l)) n" "fst (zip yp yq ! 0) = psum P (\<lambda>l. g1_ScalarMult P (?pk ! l) (r0 ! l)) n"
    using prow[of 0] ring_row_0[of P ?C r0 r1] ring_row_0[of P ?pk r0 r1] n by (simp_all add: parity_row_def)
  have sums: "ring_sum P Q 0 (zip r0 r1) (g1_zero P) = Inr (psum P (\<lambda>l. g1_ScalarMult P (Q ! l) (r0 ! l)) n)" if "length Q = n" for Q
  proof -
    have "psum P (\<lambda>k. g1_ScalarMult P (Q ! (0 + k)) (fst (zip r0 r1 ! k))) n = psum P (\<lambda>l. g1_ScalarMult P (Q ! l) (r0 ! l)) n"
      using f(3,4) by (intro psum_cong) simp
    then show ?thesis using ring_sum_psum[OF L, of 0 "zip r0 r1" Q "g1_zero P"] that zips(3) by (simp add: g1_0_add[OF L])
  qed
  have m2: "length f div 2 = m" using f(1) by simp
  have ne: "0 < length (zip cp cq)" "0 < length (zip yp yq)" using c(3,4) y(3,4) by simp_all
  show ?thesis
    unfolding anon_support_def Let_def m2 f(2) zips c(1,2) y(1,2) cr yr rbind_simps sums[OF n(4)] sums[OF n(5)] ps[unfolded n(1)] prod.case
      rnth_ok[OF ne(1)] rnth_ok[OF ne(2)] first
    by (subst ring_rounds_sums[OF L _ len]) (simp_all add: g1_mul_mod[OF L] g1_0_add[OF L] g1_mul_right_mod[OF L])
qed

section \<open>The relation of the amounts\<close>

lemma ring_shift_less: "0 < n \<Longrightarrow> ring_shift n t j < n"
  by (simp add: ring_shift_def)

lemma ring_shift_parity:
  assumes "even n" "t < n"
  shows "even (ring_shift n t j) \<longleftrightarrow> even j"
proof -
  have "2 * (t div 2) \<le> j + n" using assms(2) by linarith
  then show ?thesis using assms(1) by (simp add: ring_shift_def dvd_mod_iff)
qed

lemma ring_shift_fixed:
  assumes "t < n" "j < n"
  shows "ring_shift n t j = j \<longleftrightarrow> t < 2"
proof
  assume e: "ring_shift n t j = j"
  show "t < 2"
  proof (rule ccontr)
    assume "\<not> t < 2"
    then have t: "0 < 2 * (t div 2)" "2 * (t div 2) < n" using assms(1) by linarith+
    show False
    proof (cases "2 * (t div 2) \<le> j")
      case True
      then have "ring_shift n t j = j - 2 * (t div 2)" using assms(2)
        unfolding ring_shift_def by (metis Nat.add_diff_assoc2 less_imp_diff_less mod_add_self2 mod_less)
      then show False using e t True by linarith
    next
      case False
      then have "ring_shift n t j = j + n - 2 * (t div 2)" unfolding ring_shift_def using t by (intro mod_less) linarith
      then show False using e t by linarith
    qed
  qed
next
  assume "t < 2"
  then show "ring_shift n t j = j" using assms(2) by (simp add: ring_shift_def)
qed

lemma ring_share_step:
  assumes m: "n = 2 ^ m" "0 < m" and i: "i0 < n" "i1 < n" "odd (i0 + i1)" and r: "ring_values m i0 w ps r0" "ring_values m i1 w qs r1" and t: "t < n"
  shows "(ring_share amt fee n i0 i1 t (if even t then r0 else r1) - (\<Sum>i<m. ring_share amt fee n i0 i1 t ((if even t then ps else qs) ! i) * w ^ i)) mod Order =
    (w ^ m * (if t = 0 then - amt - fee else if t = 1 then amt else 0)) mod Order"
proof -
  let ?r = "if even t then r0 else r1" and ?p = "if even t then ps else qs" and ?k = "if even t then i0 else i1"
  have n: "0 < n" "even n" using m by simp_all
  have diff: "(?r ! l - (\<Sum>i<m. ?p ! i ! l * w ^ i)) mod Order = (if l = ?k then w ^ m else 0) mod Order" if "l < n" for l
  proof -
    have "?r ! l mod Order = ((\<Sum>i<m. ?p ! i ! l * w ^ i) + (if l = ?k then w ^ m else 0)) mod Order"
      using r that m(1) by (simp add: ring_values_def)
    then show ?thesis using mod_diff_cong[OF _ refl, of "?r ! l" Order _ "\<Sum>i<m. ?p ! i ! l * w ^ i"] by simp
  qed
  have ne: "i0 \<noteq> i1" using i(3) by auto
  have a: "ring_shift n t i0 = ?k \<longleftrightarrow> t = 0"
  proof (cases "even t")
    case True
    then have "t < 2 \<longleftrightarrow> t = 0" by (auto simp: less_2_cases_iff)
    then show ?thesis using True ring_shift_fixed[OF t i(1)] by simp
  next
    case False
    then show ?thesis using ring_shift_parity[OF n(2) t, of i0] i(3) by auto
  qed
  have b: "ring_shift n t i1 = ?k \<longleftrightarrow> t = 1"
  proof (cases "even t")
    case False
    then have "t < 2 \<longleftrightarrow> t = 1" by (auto simp: less_2_cases_iff)
    then show ?thesis using False ring_shift_fixed[OF t i(2)] by simp
  next
    case True
    then show ?thesis using ring_shift_parity[OF n(2) t, of i1] i(3) by auto
  qed
  have "ring_share amt fee n i0 i1 t ?r - (\<Sum>i<m. ring_share amt fee n i0 i1 t (?p ! i) * w ^ i) =
      (- amt - fee) * (?r ! ring_shift n t i0 - (\<Sum>i<m. ?p ! i ! ring_shift n t i0 * w ^ i)) +
      amt * (?r ! ring_shift n t i1 - (\<Sum>i<m. ?p ! i ! ring_shift n t i1 * w ^ i))"
    unfolding ring_share_def distrib_right sum.distrib right_diff_distrib sum_distrib_left by (simp only: ac_simps)
  also have "\<dots> mod Order = ((- amt - fee) * (if t = 0 then w ^ m else 0) + amt * (if t = 1 then w ^ m else 0)) mod Order"
    using diff[OF ring_shift_less[OF n(1)]] unfolding a[symmetric] b[symmetric] by (intro mod_add_cong mult_mod_cong refl) blast+
  also have "(- amt - fee) * (if t = 0 then w ^ m else 0) + amt * (if t = 1 then w ^ m else 0) = w ^ m * (if t = 0 then - amt - fee else if t = 1 then amt else 0)"
    by simp
  finally show ?thesis .
qed

lemma ring_shares_cancel:
  assumes m: "n = 2 ^ m" "0 < m" and i: "i0 < n" "i1 < n" "odd (i0 + i1)" and r: "ring_values m i0 w ps r0" "ring_values m i1 w qs r1"
  shows "((\<Sum>t<n. vpow v t * ring_share amt fee n i0 i1 t (if even t then r0 else r1)) - (\<Sum>i<m. shares_sum v amt fee n i0 i1 ps qs i * w ^ i) + fee * w ^ m) mod Order = 0"
proof -
  let ?S = "\<lambda>t i. ring_share amt fee n i0 i1 t ((if even t then ps else qs) ! i)" and ?R = "\<lambda>t. ring_share amt fee n i0 i1 t (if even t then r0 else r1)"
  have "(\<Sum>i<m. shares_sum v amt fee n i0 i1 ps qs i * w ^ i) = (\<Sum>t<n. \<Sum>i<m. vpow v t * ?S t i * w ^ i)"
    unfolding shares_sum_def sum_distrib_right by (rule sum.swap)
  then have e1: "(\<Sum>t<n. vpow v t * ?R t) - (\<Sum>i<m. shares_sum v amt fee n i0 i1 ps qs i * w ^ i) = (\<Sum>t<n. vpow v t * (?R t - (\<Sum>i<m. ?S t i * w ^ i)))"
    by (simp only: sum_subtractf right_diff_distrib sum_distrib_left mult.assoc)
  have e2: "(\<Sum>t<n. vpow v t * (?R t - (\<Sum>i<m. ?S t i * w ^ i))) mod Order =
      (\<Sum>t<n. vpow v t * (w ^ m * (if t = 0 then - amt - fee else if t = 1 then amt else 0))) mod Order"
    by (intro sum_mod_cong mult_mod_cong refl ring_share_step[OF m i r]) simp
  have e3: "(\<Sum>t<n. vpow v t * (w ^ m * (if t = 0 then - amt - fee else if t = 1 then amt else 0))) = - fee * w ^ m"
  proof -
    have "2 \<le> n" using m(2) power_increasing[of 1 m "2 :: nat"] by (simp add: m(1))
    then obtain k where k: "n = Suc (Suc k)" by (metis Suc_diff_le numeral_2_eq_2 le_add_diff_inverse add_Suc plus_nat.add_0)
    show ?thesis unfolding k sum.lessThan_Suc_shift by (simp add: vpow_def algebra_simps)
  qed
  have "((\<Sum>t<n. vpow v t * ?R t) - (\<Sum>i<m. shares_sum v amt fee n i0 i1 ps qs i * w ^ i) + fee * w ^ m) mod Order = (- fee * w ^ m + fee * w ^ m) mod Order"
    by (rule mod_add_cong[OF _ refl]) (simp only: e1 e2 e3)
  then show ?thesis by simp
qed

text \<open>The rows of the commitments, from those of the public keys.\<close>

lemma rows_sum_gain:
  assumes L: "g1_laws P" and len: "length pk = n" "length C = n"
    and C: "\<And>j. j < n \<Longrightarrow> C ! j = g1_Add P (g1_ScalarMult P (pk ! j) R) (g1_ScalarMult P G (d j))"
  shows "rows_sum P v C r0 r1 = g1_Add P (g1_ScalarMult P (rows_sum P v pk r0 r1) R)
    (g1_ScalarMult P G (\<Sum>t<n. vpow v t * (\<Sum>j<n. d j * (if even t then r0 else r1) ! ring_shift n t j)))"
proof -
  have row: "ring_row P C r0 r1 t = g1_Add P (g1_ScalarMult P (ring_row P pk r0 r1 t) R)
      (g1_ScalarMult P G (\<Sum>j<n. d j * (if even t then r0 else r1) ! ring_shift n t j))" for t
  proof -
    let ?x = "\<lambda>j. (if even t then r0 else r1) ! ring_shift n t j"
    have "ring_row P C r0 r1 t = psum P (\<lambda>j. g1_Add P (g1_ScalarMult P (g1_ScalarMult P (pk ! j) (?x j)) R) (g1_ScalarMult P G (d j * ?x j))) n"
      unfolding ring_row_def len by (intro psum_cong) (simp add: C g1_add_mul[OF L] g1_mul_mul[OF L] mult.commute)
    then show ?thesis unfolding psum_add[OF L] psum_mul[OF L] psum_scalars[OF L] by (simp only: ring_row_def len)
  qed
  have "rows_sum P v C r0 r1 = psum P (\<lambda>t. g1_Add P (g1_ScalarMult P (g1_ScalarMult P (ring_row P pk r0 r1 t) (vpow v t)) R)
      (g1_ScalarMult P G (vpow v t * (\<Sum>j<n. d j * (if even t then r0 else r1) ! ring_shift n t j)))) n"
    unfolding rows_sum_def len row by (intro psum_cong) (simp add: g1_add_mul[OF L] g1_mul_mul[OF L] mult.commute)
  then show ?thesis unfolding psum_add[OF L] psum_mul[OF L] psum_scalars[OF L] by (simp only: rows_sum_def len)
qed

lemma gain_share:
  assumes "length (wt_Index wit) = 2" "wt_Index wit ! 0 < n" "wt_Index wit ! 1 < n" "wt_Index wit ! 0 \<noteq> wt_Index wit ! 1"
  shows "(\<Sum>j<n. gain s wit burn j * r ! ring_shift n t j) =
    ring_share (uint (wt_TransferAmount wit)) (uint (st_Fee s) + uint burn) n (wt_Index wit ! 0) (wt_Index wit ! 1) t r"
proof -
  let ?i = "wt_Index wit ! 0" and ?k = "wt_Index wit ! 1"
  have "(\<Sum>j<n. gain s wit burn j * r ! ring_shift n t j) = (\<Sum>j\<in>{?i, ?k}. gain s wit burn j * r ! ring_shift n t j)"
    using assms by (intro sum.mono_neutral_right) (auto simp: gain_def)
  then show ?thesis using assms(4) by (simp add: gain_def ring_share_def)
qed

lemma amounts_relation:
  assumes L: "g1_laws P" and h: "honest P s wit burn m" and n: "n = 2 ^ m" and i: "i0 = wt_Index wit ! 0" "i1 = wt_Index wit ! 1"
    and r: "ring_values m i0 w ps r0" "ring_values m i1 w qs r1"
    and X: "\<And>i. i < m \<Longrightarrow> X ! i = g1_Add P (g1_ScalarMult P (st_D s) (e i)) (g1_ScalarMult P (g1_G P)
      (shares_sum v (uint (wt_TransferAmount wit)) (uint (st_Fee s) + uint burn) n i0 i1 ps qs i))"
    and Y: "\<And>i. i < m \<Longrightarrow> Y ! i = g1_ScalarMult P (g1_G P) (e i)"
  shows "g1_Add P (g1_Add P (rows_sum P v (st_C s) r0 r1) (rounds_sum P w X m)) (g1_ScalarMult P (g1_G P) ((uint (st_Fee s) + uint burn) * w ^ m)) =
    g1_ScalarMult P (g1_Add P (rows_sum P v (st_Publickeylist s) r0 r1) (rounds_sum P w Y m)) (wt_R wit)"
proof -
  let ?G = "g1_G P" and ?fee = "uint (st_Fee s) + uint burn" and ?amt = "uint (wt_TransferAmount wit)" and ?e = "\<Sum>i<m. e i * w ^ i"
  let ?sh = "\<lambda>t. ring_share ?amt ?fee n i0 i1 t (if even t then r0 else r1)" and ?S = "\<lambda>i. shares_sum v ?amt ?fee n i0 i1 ps qs i"
  have H: "0 < m" "length (st_Publickeylist s) = n" "length (st_C s) = n" "length (wt_Index wit) = 2" "i0 < n" "i1 < n" "odd (i0 + i1)"
    "st_D s = g1_ScalarMult P ?G (wt_R wit)"
    "\<And>j. j < n \<Longrightarrow> st_C s ! j = g1_Add P (g1_ScalarMult P (st_Publickeylist s ! j) (wt_R wit)) (g1_ScalarMult P ?G (gain s wit burn j))"
    using h n i by (auto simp: honest_def)
  have ne: "i0 \<noteq> i1" using H(7) by auto
  have "rows_sum P v (st_C s) r0 r1 = g1_Add P (g1_ScalarMult P (rows_sum P v (st_Publickeylist s) r0 r1) (wt_R wit))
      (g1_ScalarMult P ?G (\<Sum>t<n. vpow v t * (\<Sum>j<n. gain s wit burn j * (if even t then r0 else r1) ! ring_shift n t j)))"
    by (rule rows_sum_gain[OF L H(2,3)]) (rule H(9))
  then have rowsC: "rows_sum P v (st_C s) r0 r1 = g1_Add P (g1_ScalarMult P (rows_sum P v (st_Publickeylist s) r0 r1) (wt_R wit)) (g1_ScalarMult P ?G (\<Sum>t<n. vpow v t * ?sh t))"
    by (simp only: gain_share[OF H(4) H(5)[unfolded i] H(6)[unfolded i] ne[unfolded i]] i)
  have "rounds_sum P w X m = psum P (\<lambda>i. g1_Add P (g1_ScalarMult P (st_D s) (- (e i * w ^ i))) (g1_ScalarMult P ?G (- (?S i * w ^ i)))) m"
    unfolding rounds_sum_def by (intro psum_cong) (simp add: X g1_add_mul[OF L] g1_mul_mul[OF L])
  then have "rounds_sum P w X m = g1_Add P (g1_ScalarMult P (st_D s) (- ?e)) (g1_ScalarMult P ?G (- (\<Sum>i<m. ?S i * w ^ i)))"
    by (simp only: psum_add[OF L] psum_scalars[OF L] sum_negf)
  then have rX: "rounds_sum P w X m = g1_Add P (g1_ScalarMult P (g1_ScalarMult P ?G (- ?e)) (wt_R wit)) (g1_ScalarMult P ?G (- (\<Sum>i<m. ?S i * w ^ i)))"
    by (simp only: H(8) g1_mul_mul[OF L] mult.commute)
  have zero: "g1_Add P (g1_Add P (g1_ScalarMult P ?G (\<Sum>t<n. vpow v t * ?sh t)) (g1_ScalarMult P ?G (- (\<Sum>i<m. ?S i * w ^ i)))) (g1_ScalarMult P ?G (?fee * w ^ m)) = g1_zero P"
  proof -
    have "((\<Sum>t<n. vpow v t * ?sh t) + - (\<Sum>i<m. ?S i * w ^ i) + ?fee * w ^ m) mod Order = 0 mod Order"
      using ring_shares_cancel[OF n H(1,5,6,7) r, of v ?amt ?fee] by simp
    then show ?thesis unfolding g1_mul_add[OF L, symmetric] g1_mul_0[OF L, of ?G, symmetric] by (rule g1_mul_cong[OF L])
  qed
  have rY: "rounds_sum P w Y m = g1_ScalarMult P ?G (- ?e)" by (rule rounds_multiples[OF L Y])
  have shuffle: "g1_Add P (g1_Add P (g1_Add P a b) (g1_Add P c d)) f = g1_Add P (g1_Add P a c) (g1_Add P (g1_Add P b d) f)" for a b c d f
    by (simp add: g1_ac[OF L])
  show ?thesis unfolding rowsC rX rY shuffle zero g1_add_mul[OF L] by (simp add: g1_add_0[OF L])
qed

section \<open>The points agree\<close>

lemma position_sums:
  assumes L: "g1_laws P" and v: "ring_values m i0 w ps r" and i0: "i0 < 2 ^ m" and Q: "length Q = 2 ^ m"
    and xs: "xs = map (\<lambda>i. g1_Add P (msm P Q (ps ! i)) (g1_ScalarMult P K (e i))) [0..<m]"
  shows "g1_Add P (psum P (\<lambda>l. g1_ScalarMult P (Q ! l) (r ! l)) (2 ^ m)) (rounds_sum P w xs m) =
    g1_Add P (g1_ScalarMult P (Q ! i0) (w ^ m)) (g1_ScalarMult P K (- (\<Sum>i<m. e i * w ^ i)))"
proof (rule ring_select[OF L v i0])
  fix i assume i: "i < m"
  have "length (ps ! i) = 2 ^ m" using v i by (simp add: ring_values_def)
  then show "xs ! i = g1_Add P (psum P (\<lambda>l. g1_ScalarMult P (Q ! l) (ps ! i ! l)) (2 ^ m)) (g1_ScalarMult P K (e i))"
    using i Q msm_psum[OF L, of Q "ps ! i"] by (simp add: xs)
qed

text \<open>What the verifier finds for the ring, from what the prover used.\<close>

definition ring_agrees :: "'p G1Ops \<Rightarrow> Witness \<Rightarrow> int \<Rightarrow> 'p gen_links \<Rightarrow> 'p AnonSupport \<Rightarrow> bool" where
  "ring_agrees P wit fee gl a \<longleftrightarrow>
     an_DR a = gl_DR gl \<and> an_gR a = gl_gR gl \<and> an_CRnR a = gl_CRnR gl \<and> an_y_XR a = gl_y_XR gl \<and> an_wPow a = gl_wPow gl \<and>
     an_yR00 a = g1_ScalarMult P (gl_gR gl) (wt_SecretKey wit) \<and>
     an_C_XR a = g1_ScalarMult P (gl_y_XR gl) (wt_R wit) \<and>
     g1_Add P (g1_ScalarMult P (g1_G P) (fee * gl_wPow gl)) (an_CR00 a) =
       g1_Add P (g1_ScalarMult P (gl_DR gl) (wt_SecretKey wit)) (g1_ScalarMult P (g1_G P) (- uint (wt_TransferAmount wit) * gl_wPow gl)) \<and>
     an_CLnR a = g1_Add P (g1_ScalarMult P (gl_CRnR gl) (wt_SecretKey wit)) (g1_ScalarMult P (g1_G P) (uint (wt_Balance wit) * gl_wPow gl))"

lemma ring_agreement:
  assumes L: "g1_laws P" and h: "honest P s wit burn m" and n: "n = 2 ^ m" and i: "i0 = wt_Index wit ! 0" "i1 = wt_Index wit ! 1"
    and gp: "gp_G gp = g1_G P" and key: "key = st_Publickeylist s ! i0"
    and r: "ring_values m i0 w ps r0" "ring_values m i1 w qs r1"
    and f: "length f = 2 * m" "assemblepolynomials f = Inr (zip r0 r1)"
    and run: "gen_commitments P rnd s wit burn m n i0 i1 (map2 (plain_eg P) (st_CLn s) (st_CRn s)) key pf0 v ps qs = Inr (pf1, cxs)"
    and pf: "pf_CLnG pf = pf_CLnG pf1" "pf_CRnG pf = pf_CRnG pf1" "pf_C_0G pf = pf_C_0G pf1" "pf_DG pf = pf_DG pf1" "pf_y_0G pf = pf_y_0G pf1"
      "pf_gG pf = pf_gG pf1" "pf_C_XG pf = pf_C_XG pf1" "pf_y_XG pf = pf_y_XG pf1"
  shows "\<exists>gl a. gen_links P rnd s (map2 (plain_eg P) (st_CLn s) (st_CRn s)) key m n i0 i1 v w cxs ps qs = Inr gl \<and>
    anon_support P gp pf s (st_Fee s + burn) v w f = Inr a \<and> ring_agrees P wit (uint (st_Fee s) + uint burn) gl a \<and> gl_wPow gl = w ^ m mod Order"
proof -
  let ?G = "g1_G P" and ?pk = "st_Publickeylist s" and ?fee = "uint (st_Fee s) + uint burn" and ?amt = "uint (wt_TransferAmount wit)"
  have H: "0 < m" "m \<le> 28" "length ?pk = n" "length (st_C s) = n" "length (st_CLn s) = n" "length (st_CRn s) = n" "i0 < n" "i1 < n"
    "st_D s = g1_ScalarMult P ?G (wt_R wit)" "key = g1_ScalarMult P ?G (wt_SecretKey wit)"
    "st_C s ! i0 = g1_Add P (g1_ScalarMult P key (wt_R wit)) (g1_ScalarMult P ?G (- ?amt - ?fee))"
    "st_CLn s ! i0 = g1_Add P (g1_ScalarMult P (st_CRn s ! i0) (wt_SecretKey wit)) (g1_ScalarMult P ?G (uint (wt_Balance wit)))"
    and fee: "uint (st_Fee s + burn) = ?fee"
    using h n i key by (auto simp: honest_def gain_def uint_word_ariths)
  have len: "length ps = m" "length qs = m" "\<And>i. i < m \<Longrightarrow> length (ps ! i) = n \<and> length (qs ! i) = n" "length r0 = n" "length r1 = n" "0 < n"
    using r n by (simp_all add: ring_values_def)
  let ?cxr = "\<lambda>i. g1_ScalarMult P ?G (gr_CX rnd i)"
  let ?cxl = "\<lambda>i. g1_Add P (g1_ScalarMult P (st_D s) (gr_CX rnd i)) (g1_ScalarMult P ?G (shares_sum v ?amt ?fee n i0 i1 ps qs i))"
  have com: "pf_CLnG pf = map (\<lambda>i. g1_Add P (msm P (st_CLn s) (ps ! i)) (g1_ScalarMult P key (gr_phi rnd i))) [0..<m]"
    "pf_CRnG pf = map (\<lambda>i. g1_Add P (msm P (st_CRn s) (ps ! i)) (g1_ScalarMult P ?G (gr_phi rnd i))) [0..<m]"
    "pf_C_0G pf = map (\<lambda>i. g1_Add P (msm P (st_C s) (ps ! i)) (g1_ScalarMult P key (gr_chi rnd i))) [0..<m]"
    "pf_DG pf = map (\<lambda>i. g1_ScalarMult P ?G (gr_chi rnd i)) [0..<m]"
    "pf_y_0G pf = map (\<lambda>i. g1_Add P (msm P ?pk (ps ! i)) (g1_ScalarMult P key (gr_psi rnd i))) [0..<m]"
    "pf_gG pf = map (\<lambda>i. g1_ScalarMult P ?G (gr_psi rnd i)) [0..<m]" "pf_C_XG pf = map ?cxl [0..<m]" "pf_y_XG pf = map ?cxr [0..<m]"
    "length cxs = m" "\<forall>i < m. is_eg P (cxs ! i) (?cxl i) (pf_y_XG pf ! i)"
    using gen_commitments_points[OF L H(3-6) len(6,1-3) refl refl, where rnd = rnd and wit = wit and burn = burn and ?i0.0 = i0 and ?i1.0 = i1
        and key = key and pf = pf0 and v = v] run by (auto simp: pf fee)
  note links = gen_links_points[OF L n H(1,2,3,5,6,7,8) r com(9,10), where rnd = rnd and key = key and v = v]
  have plen: "\<forall>xs \<in> {pf_CLnG pf, pf_CRnG pf, pf_C_0G pf, pf_DG pf, pf_y_0G pf, pf_gG pf, pf_C_XG pf, pf_y_XG pf}. m \<le> length xs"
    by (simp add: com)
  note sup = anon_support_points[OF L H(1,2) n H(3-6) f len(4,5) plen, where gp = gp and open_value = "st_Fee s + burn" and v = v and w = w]
  let ?phi = "\<Sum>i<m. gr_phi rnd i * w ^ i" and ?chi = "\<Sum>i<m. gr_chi rnd i * w ^ i" and ?psi = "\<Sum>i<m. gr_psi rnd i * w ^ i"
  note pos = position_sums[OF L r(1) H(7)[unfolded n], folded n]
  have sums: "rounds_sum P w (pf_DG pf) m = g1_ScalarMult P ?G (- ?chi)" "rounds_sum P w (pf_gG pf) m = g1_ScalarMult P ?G (- ?psi)"
    by (rule rounds_multiples[OF L]; simp add: com)+
  have X: "g1_Add P (g1_Add P (rows_sum P v (st_C s) r0 r1) (rounds_sum P w (pf_C_XG pf) m)) (g1_ScalarMult P ?G (?fee * w ^ m)) =
      g1_ScalarMult P (g1_Add P (rows_sum P v ?pk r0 r1) (rounds_sum P w (pf_y_XG pf) m)) (wt_R wit)"
    by (rule amounts_relation[OF L h n i r]) (simp_all add: com)
  have lin: "g1_Add P (g1_ScalarMult P ?G a) (g1_ScalarMult P ?G b) = g1_ScalarMult P ?G c" if "a + b = c" for a b c
    using that by (simp only: g1_mul_add[OF L, symmetric])
  have C0: "g1_Add P (g1_ScalarMult P ?G (?fee * (w ^ m mod Order))) (g1_Add P (g1_ScalarMult P (st_C s ! i0) (w ^ m)) (g1_ScalarMult P key (- ?chi))) =
      g1_Add P (g1_ScalarMult P (g1_Add P (g1_ScalarMult P (st_D s) (w ^ m)) (g1_ScalarMult P ?G (- ?chi))) (wt_SecretKey wit)) (g1_ScalarMult P ?G (- ?amt * (w ^ m mod Order)))"
    unfolding H(9-11) g1_mul_right_mod[OF L] g1_add_mul[OF L] g1_mul_mul[OF L] g1_mul_add[OF L, symmetric]
    by (rule arg_cong[of _ _ "g1_ScalarMult P ?G"]) (simp add: algebra_simps)
  have Cn: "g1_Add P (g1_ScalarMult P (st_CLn s ! i0) (w ^ m)) (g1_ScalarMult P key (- ?phi)) =
      g1_Add P (g1_ScalarMult P (g1_Add P (g1_ScalarMult P (st_CRn s ! i0) (w ^ m)) (g1_ScalarMult P ?G (- ?phi))) (wt_SecretKey wit)) (g1_ScalarMult P ?G (uint (wt_Balance wit) * (w ^ m mod Order)))"
    unfolding H(10,12) g1_mul_right_mod[OF L] g1_add_mul[OF L] g1_mul_mul[OF L] by (simp add: mult.commute g1_ac[OF L])
  have y0: "g1_Add P (g1_ScalarMult P (?pk ! i0) (w ^ m)) (g1_ScalarMult P key (- ?psi)) = g1_ScalarMult P (g1_ScalarMult P ?G (w ^ m - ?psi)) (wt_SecretKey wit)"
    unfolding key[symmetric] H(10) g1_mul_mul[OF L] by (rule lin) (simp add: algebra_simps)
  have g: "g1_Add P (g1_ScalarMult P ?G (- ?psi)) (g1_ScalarMult P ?G (w ^ m)) = g1_ScalarMult P ?G (w ^ m - ?psi)" by (rule lin) simp
  show ?thesis
    unfolding links sup ring_agrees_def
    by (simp add: gp fee X sums g pos[OF H(5) com(1)] pos[OF H(6) com(2)] pos[OF H(4) com(3)] pos[OF H(3) com(5)] C0 Cn y0 g1_comm[OF L, of "g1_ScalarMult P ?G (- ?chi)"])
qed

end
