(* ===== verification/Range_Complete.thy ===== *)
theory Range_Complete
  imports Ring_Complete
begin

text \<open>
  The range part of the proof: the constant coefficient of the prover's polynomial is what the verifier expects of two
  amounts of 63 bits, and the point the verifier builds for the inner product is the one the prover proves.
\<close>

section \<open>The bits of the amounts\<close>

lemma bits_sum: "n < 2 ^ k \<Longrightarrow> (\<Sum>i<k. (if bit n i then 1 else 0) * 2 ^ i) = int n"
proof -
  assume n: "n < 2 ^ k"
  have "take_bit k n = (\<Sum>i = 0..<k. push_bit i (of_bool (bit n i)))" by (rule take_bit_sum)
  moreover have "take_bit k n = n" using n by (simp add: take_bit_eq_mod)
  ultimately have "int n = int (\<Sum>i = 0..<k. push_bit i (of_bool (bit n i)))" by simp
  also have "\<dots> = (\<Sum>i<k. (if bit n i then 1 else 0) * 2 ^ i)"
    unfolding of_nat_sum lessThan_atLeast0 by (intro sum.cong) (auto simp: push_bit_eq_mult)
  finally show ?thesis by simp
qed

lemma sint_small: "uint (x :: uint64) < 2 ^ 63 \<Longrightarrow> sint x = uint x"
proof -
  assume x: "uint x < 2 ^ 63"
  have "- (2 ^ 63) \<le> uint x" by (rule order_trans[of _ 0]) simp_all
  then show ?thesis using signed_take_bit_int_eq_self[of 63 "uint x"] x by (simp add: sint_uint)
qed

text \<open>Both halves of the bits, as sums of powers of two.\<close>

lemma amount_bits_sum:
  assumes "uint t < 2 ^ 63" "uint b < 2 ^ 63"
  shows "length (amount_bits t b) = 128"
    "(\<Sum>i<64. gen_aL (amount_bits t b) ! i * 2 ^ i) = uint t"
    "(\<Sum>i<64. gen_aL (amount_bits t b) ! (64 + i) * 2 ^ i) = uint b"
proof -
  have num: "nat \<bar>amount_number t b\<bar> = unat t + unat b * 2 ^ 64"
    using assms by (simp add: amount_number_def sint_small nat_add_distrib nat_mult_distrib)
  show "length (amount_bits t b) = 128" by (simp add: amount_bits_def)
  have aL: "gen_aL (amount_bits t b) ! i = (if bit (unat t + unat b * 2 ^ 64) i then 1 else 0)" if "i < 128" for i
    using that by (simp add: gen_aL_def amount_bits_def num)
  have t: "unat t < 2 ^ 64" "unat b < 2 ^ 64" by simp_all
  have lo: "bit (unat t + unat b * 2 ^ 64) i = bit (unat t) i" if "i < 64" for i
  proof -
    have "take_bit 64 (unat t + unat b * 2 ^ 64) = unat t" using t(1) by (simp add: take_bit_eq_mod)
    then show ?thesis using that by (metis bit_take_bit_iff)
  qed
  have hi: "bit (unat t + unat b * 2 ^ 64) (64 + i) = bit (unat b) i" for i
  proof -
    have "drop_bit 64 (unat t + unat b * 2 ^ 64) = unat b" using t(1) by (simp add: drop_bit_eq_div)
    then show ?thesis by (metis bit_drop_bit_eq comp_apply)
  qed
  have "gen_aL (amount_bits t b) ! i * 2 ^ i = (if bit (unat t) i then 1 else 0) * 2 ^ i" if "i < 64" for i
    unfolding lo[OF that, symmetric] using aL[of i] that by simp
  then have "(\<Sum>i<64. gen_aL (amount_bits t b) ! i * 2 ^ i) = (\<Sum>i<64. (if bit (unat t) i then 1 else 0) * 2 ^ i)"
    by (intro sum.cong refl) simp
  then show "(\<Sum>i<64. gen_aL (amount_bits t b) ! i * 2 ^ i) = uint t" using bits_sum[OF t(1)] by simp
  have "gen_aL (amount_bits t b) ! (64 + i) * 2 ^ i = (if bit (unat b) i then 1 else 0) * 2 ^ i" if "i < 64" for i
    unfolding hi[symmetric] using aL[of "64 + i"] that by simp
  then have "(\<Sum>i<64. gen_aL (amount_bits t b) ! (64 + i) * 2 ^ i) = (\<Sum>i<64. (if bit (unat b) i then 1 else 0) * 2 ^ i)"
    by (intro sum.cong refl) simp
  then show "(\<Sum>i<64. gen_aL (amount_bits t b) ! (64 + i) * 2 ^ i) = uint b" using bits_sum[OF t(2)] by simp
qed

lemma bit_vectors:
  assumes "i < length bs"
  shows "gen_aL bs ! i * gen_aR bs ! i = 0" "gen_aR bs ! i mod Order = (gen_aL bs ! i - 1) mod Order"
  using assms by (simp_all add: gen_aL_def gen_aR_def)

section \<open>The constant coefficient\<close>

lemma length_powers_from [simp]: "length (powers_from n cur y) = n"
  by (induction n arbitrary: cur) simp_all

lemma powers_from_nth: "i < n \<Longrightarrow> powers_from n cur y ! i mod Order = (cur * y ^ i) mod Order"
proof (induction n arbitrary: i cur)
  case (Suc n)
  show ?case
  proof (cases i)
    case (Suc j)
    then have "powers_from n ((cur * y) mod Order) y ! j mod Order = ((cur * y) mod Order * y ^ j) mod Order"
      using Suc.IH[of j] Suc.prems by simp
    then show ?thesis using Suc by (simp add: mod_mult_left_eq mult.assoc)
  qed simp
qed simp

lemma foldl_add_mod: "foldl (\<lambda>k e. (k + e) mod Order) (a mod Order) xs = (a + sum_list xs) mod Order"
proof (induction xs arbitrary: a)
  case (Cons x xs)
  then show ?case using Cons[of "a + x"] by (simp add: mod_add_left_eq add.assoc)
qed simp

lemma powers_from_head: "0 < n \<Longrightarrow> powers_from n cur y = cur # tl (powers_from n cur y)"
  by (cases n) simp_all

lemma powers_total: "foldl (\<lambda>k e. (k + e) mod Order) 1 (tl (powers_from 128 1 y)) mod Order = (\<Sum>i<128. powers_from 128 1 y ! i) mod Order"
proof -
  have "powers_from 128 1 y = 1 # tl (powers_from 128 1 y)" by (rule powers_from_head) simp
  then have "sum_list (powers_from 128 1 y) = 1 + sum_list (tl (powers_from 128 1 y))" by (metis sum_list.Cons)
  moreover have "sum_list (powers_from 128 1 y) = (\<Sum>i<128. powers_from 128 1 y ! i)" by (simp add: sum_list_sum_nth lessThan_atLeast0)
  ultimately show ?thesis using foldl_add_mod[of 1 "tl (powers_from 128 1 y)"] by simp
qed

lemma dot_sum: "length xs = length ys \<Longrightarrow> dot xs ys = (\<Sum>i<length xs. xs ! i * ys ! i)"
  by (simp add: dot_def sum_list_sum_nth lessThan_atLeast0)

text \<open>The sum that the constant coefficient is made of.\<close>

lemma range_identity:
  fixes aL aR ys tau :: "nat \<Rightarrow> int"
  assumes "\<And>i. i < n \<Longrightarrow> aL i * aR i = 0" "\<And>i. i < n \<Longrightarrow> aR i mod Order = (aL i - 1) mod Order"
  shows "(\<Sum>i<n. (aL i - z) * (ys i * (aR i + z) + tau i)) mod Order =
    ((z - z * z) * (\<Sum>i<n. ys i) + (\<Sum>i<n. aL i * tau i) - z * (\<Sum>i<n. tau i)) mod Order"
proof -
  have "((aL i - z) * (ys i * (aR i + z) + tau i)) mod Order = ((z - z * z) * ys i + aL i * tau i - z * tau i) mod Order" if i: "i < n" for i
  proof -
    have "(aL i - z) * (ys i * (aR i + z) + tau i) = ys i * (aL i * aR i) + ys i * z * (aL i - z) - ys i * z * aR i + aL i * tau i - z * tau i"
      by (simp add: algebra_simps)
    also have "\<dots> mod Order = (ys i * 0 + ys i * z * (aL i - z) - ys i * z * (aL i - 1) + aL i * tau i - z * tau i) mod Order"
      using assms(2)[OF i] unfolding assms(1)[OF i] by (intro mod_add_cong mod_diff_cong mult_mod_cong refl)
    also have "ys i * 0 + ys i * z * (aL i - z) - ys i * z * (aL i - 1) + aL i * tau i - z * tau i = (z - z * z) * ys i + aL i * tau i - z * tau i"
      by (simp add: algebra_simps)
    finally show ?thesis .
  qed
  then have "(\<Sum>i<n. (aL i - z) * (ys i * (aR i + z) + tau i)) mod Order = (\<Sum>i<n. (z - z * z) * ys i + aL i * tau i - z * tau i) mod Order"
    by (intro sum_mod_cong) simp
  then show ?thesis by (simp only: sum.distrib sum_subtractf sum_distrib_left)
qed

section \<open>The polynomials\<close>

definition tau_vec :: "int \<Rightarrow> int \<Rightarrow> int list" where
  "tau_vec z0 z1 = map (\<lambda>i. (z0 * 2 ^ i) mod Order) [0..<64] @ map (\<lambda>i. (z1 * 2 ^ i) mod Order) [0..<64]"

definition range_l0 :: "bool list \<Rightarrow> int \<Rightarrow> FieldVector" where
  "range_l0 bits z = fv_AddConstant (gen_aL bits) ((- z) mod Order)"

definition range_r0 :: "bool list \<Rightarrow> int \<Rightarrow> int list \<Rightarrow> int list \<Rightarrow> FieldVector" where
  "range_r0 bits z ys tau = map2 (\<lambda>a b. (a + b) mod Order) (map2 (\<lambda>a b. (a * b) mod Order) ys (fv_AddConstant (gen_aR bits) z)) tau"

definition hadamard :: "int list \<Rightarrow> int list \<Rightarrow> int list" where
  "hadamard xs ys = map2 (\<lambda>a b. (a * b) mod Order) xs ys"

lemma length_range [simp]:
  "length (tau_vec z0 z1) = 128" "length (range_l0 bits z) = length bits" "length (gen_aL bits) = length bits" "length (gen_aR bits) = length bits"
  "length (hadamard xs ys) = min (length xs) (length ys)"
  by (simp_all add: tau_vec_def range_l0_def fv_AddConstant_def gen_aL_def gen_aR_def hadamard_def)

lemma product_of_lines:
  assumes "length f0 = d" "length f1 = d" "length g0 = d" "length g1 = d"
  shows "FieldVectorPolynomial_InnerProduct [f0, f1] [g0, g1] =
    Inr [dot f0 g0 mod Order, (dot f0 g1 mod Order + dot f1 g0 mod Order) mod Order, dot f1 g1 mod Order]"
  using assms by (simp add: FieldVectorPolynomial_InnerProduct_def fv_InnerProduct_dot numeral_eq_Suc)

definition gen_ys :: "(bytes \<Rightarrow> bytes) \<Rightarrow> int \<Rightarrow> int list" where
  "gen_ys keccak w = powers_from 128 1 (reducedhash keccak (ConvertBigIntToByte w))"

definition gen_z :: "(bytes \<Rightarrow> bytes) \<Rightarrow> int \<Rightarrow> int" where
  "gen_z keccak w = reducedhash keccak (ConvertBigIntToByte (reducedhash keccak (ConvertBigIntToByte w)))"

lemma gen_range_polys_value:
  assumes "length bits = 128"
    and z_def: "z = gen_z keccak w" and ys_def: "ys = gen_ys keccak w"
    and tau_def: "tau = tau_vec (mod_exp z 2 Order) (mod_exp z 3 Order)"
    and sL_def: "sL = map (gr_sL rnd) [0..<128]" and sR_def: "sR = map (gr_sR rnd) [0..<128]"
    and l0_def: "l0 = range_l0 bits z" and r0_def: "r0 = range_r0 bits z ys tau" and r1_def: "r1 = hadamard sR ys"
  shows "gen_range_polys keccak rnd bits w = Inr \<lparr>ge_ys = ys, ge_z = z, ge_z0 = mod_exp z 2 Order, ge_z1 = mod_exp z 3 Order, ge_l = [l0, sL], ge_r = [r0, r1],
    ge_t = [dot l0 r0 mod Order, (dot l0 r1 mod Order + dot sL r0 mod Order) mod Order, dot sL r1 mod Order]\<rparr>"
proof -
  have len: "length l0 = 128" "length sL = 128" "length r0 = 128" "length r1 = 128" "length ys = 128" "length tau = 128" "length sR = 128"
    using assms(1) by (simp_all add: l0_def sL_def r0_def r1_def ys_def tau_def sR_def gen_ys_def range_r0_def fv_AddConstant_def)
  have tau: "tau = map (\<lambda>i. (mod_exp z 2 Order * (2 ^ i mod Order)) mod Order) [0..<64] @ map (\<lambda>i. (mod_exp z 3 Order * (2 ^ i mod Order)) mod Order) [0..<64]"
    by (simp add: tau_def tau_vec_def mod_mult_right_eq)
  have had: "fv_Hadamard ys (fv_AddConstant (gen_aR bits) z) = Inr (map2 (\<lambda>a b. (a * b) mod Order) ys (fv_AddConstant (gen_aR bits) z))"
    "fv_Hadamard sR ys = Inr r1"
    using assms(1) len by (simp_all add: fv_Hadamard_def fv_AddConstant_def r1_def hadamard_def)
  have add: "fv_Add (map2 (\<lambda>a b. (a * b) mod Order) ys (fv_AddConstant (gen_aR bits) z)) tau = Inr r0"
    using assms(1) len by (simp add: fv_Add_def fv_AddConstant_def r0_def range_r0_def)
  show ?thesis
    unfolding gen_range_polys_def Let_def assms(1) gen_z_def[symmetric] z_def[symmetric] gen_ys_def[symmetric] ys_def[symmetric] tau[symmetric]
      sL_def[symmetric] sR_def[symmetric] range_l0_def[symmetric] l0_def[symmetric] had add NewFieldVectorPolynomial_def rbind_simps
    by (simp add: fv_Clone_id had add product_of_lines[OF len(1-4)])
qed

lemma sum_twice: "(\<Sum>i<128. f i) = (\<Sum>i<64. f i) + (\<Sum>i<64. f (64 + i) :: int)" for f :: "nat \<Rightarrow> int"
proof -
  have "(\<Sum>i<k + d. f i) = (\<Sum>i<k. f i) + (\<Sum>i<d. f (k + i))" for k d by (induction d) simp_all
  from this[of 64 64] show ?thesis by simp
qed

lemma sum_powers_of_2: "(\<Sum>i<k. 2 ^ i) = 2 ^ k - (1 :: int)"
  by (induction k) simp_all

lemma tau_vec_sum:
  "(\<Sum>i<128. c i * tau_vec z0 z1 ! i) mod Order = (z0 * (\<Sum>i<64. c i * 2 ^ i) + z1 * (\<Sum>i<64. c (64 + i) * 2 ^ i)) mod Order"
proof -
  have lo: "(\<Sum>i<64. c i * tau_vec z0 z1 ! i) mod Order = (\<Sum>i<64. z0 * (c i * 2 ^ i)) mod Order"
    by (intro sum_mod_cong) (simp add: tau_vec_def nth_append mod_mult_right_eq mult.left_commute)
  have hi: "(\<Sum>i<64. c (64 + i) * tau_vec z0 z1 ! (64 + i)) mod Order = (\<Sum>i<64. z1 * (c (64 + i) * 2 ^ i)) mod Order"
    by (intro sum_mod_cong) (simp add: tau_vec_def nth_append mod_mult_right_eq mult.left_commute)
  show ?thesis unfolding sum_twice sum_distrib_left by (rule mod_add_cong[OF lo hi])
qed

lemma range_l0_nth: "i < length bits \<Longrightarrow> range_l0 bits z ! i mod Order = (gen_aL bits ! i - z) mod Order"
  by (simp add: range_l0_def fv_AddConstant_def mod_add_right_eq)

lemma range_r0_nth:
  assumes "i < length bits" "length ys = length bits" "length tau = length bits"
  shows "range_r0 bits z ys tau ! i mod Order = (ys ! i * (gen_aR bits ! i + z) + tau ! i) mod Order"
  using assms by (simp add: range_r0_def fv_AddConstant_def mod_add_left_eq mod_mult_right_eq)

lemma range_constant:
  assumes "uint t < 2 ^ 63" "uint b < 2 ^ 63" "length ys = 128"
  shows "dot (range_l0 (amount_bits t b) z) (range_r0 (amount_bits t b) z ys (tau_vec z0 z1)) mod Order =
    ((z - z * z) * (\<Sum>i<128. ys ! i) + (z0 * uint t + z1 * uint b) - z * ((z0 + z1) * (2 ^ 64 - 1))) mod Order"
proof -
  let ?bits = "amount_bits t b" and ?tau = "tau_vec z0 z1"
  note sums = amount_bits_sum[OF assms(1,2)]
  have len: "length (range_r0 ?bits z ys ?tau) = 128" using sums(1) assms(3) by (simp add: range_r0_def fv_AddConstant_def)
  have "dot (range_l0 ?bits z) (range_r0 ?bits z ys ?tau) mod Order = (\<Sum>i<128. range_l0 ?bits z ! i * range_r0 ?bits z ys ?tau ! i) mod Order"
    using len sums(1) by (simp add: dot_sum)
  also have "\<dots> = (\<Sum>i<128. (gen_aL ?bits ! i - z) * (ys ! i * (gen_aR ?bits ! i + z) + ?tau ! i)) mod Order"
    using sums(1) assms(3) by (intro sum_mod_cong mult_mod_cong range_l0_nth range_r0_nth) simp_all
  also have "\<dots> = ((z - z * z) * (\<Sum>i<128. ys ! i) + (\<Sum>i<128. gen_aL ?bits ! i * ?tau ! i) - z * (\<Sum>i<128. ?tau ! i)) mod Order"
    using sums(1) by (intro range_identity bit_vectors) simp_all
  also have "\<dots> = ((z - z * z) * (\<Sum>i<128. ys ! i) + (z0 * uint t + z1 * uint b) - z * ((z0 + z1) * (2 ^ 64 - 1))) mod Order"
  proof (intro mod_diff_cong mod_add_cong mult_mod_cong refl)
    show "(\<Sum>i<128. gen_aL ?bits ! i * ?tau ! i) mod Order = (z0 * uint t + z1 * uint b) mod Order"
      using tau_vec_sum[of "\<lambda>i. gen_aL ?bits ! i" z0 z1] unfolding sums(2,3) .
    show "(\<Sum>i<128. ?tau ! i) mod Order = ((z0 + z1) * (2 ^ 64 - 1)) mod Order"
      using tau_vec_sum[of "\<lambda>_. 1" z0 z1] unfolding mult_1 sum_powers_of_2 by (simp add: distrib_right)
  qed
  finally show ?thesis .
qed

text \<open>What the verifier is left with when it takes its constant off.\<close>

lemma protocol_support_simps:
  "pr_ys (protocol_support keccak w that) = gen_ys keccak w" "pr_z (protocol_support keccak w that) = gen_z keccak w"
  "pr_z0 (protocol_support keccak w that) = mod_exp (gen_z keccak w) 2 Order" "pr_z1 (protocol_support keccak w that) = mod_exp (gen_z keccak w) 3 Order"
  "pr_twoTimesZSquared (protocol_support keccak w that) = tau_vec (mod_exp (gen_z keccak w) 2 Order) (mod_exp (gen_z keccak w) 3 Order)"
  by (simp_all only: protocol_support_def Let_def ProtocolSupport.simps gen_ys_def gen_z_def tau_vec_def)

lemma protocol_support_t:
  assumes "z = gen_z keccak w" "z0 = mod_exp z 2 Order" "z1 = mod_exp z 3 Order"
  shows "pr_t (protocol_support keccak w that) mod Order =
    (that - ((z - z * z) * (\<Sum>i<128. gen_ys keccak w ! i) - z * ((z0 + z1) * (2 ^ 64 - 1)))) mod Order"
proof -
  let ?y = "reducedhash keccak (ConvertBigIntToByte w)" and ?S = "\<Sum>i<128. gen_ys keccak w ! i"
  let ?k = "foldl (\<lambda>k e. (k + e) mod Order) 1 (tl (powers_from 128 1 ?y))" and ?zs = "((z0 + z1) mod Order * z) mod Order"
  have k: "?k mod Order = ?S mod Order" unfolding gen_ys_def by (rule powers_total)
  have z0: "z0 mod Order = (z * z) mod Order" by (simp add: assms(2) mod_exp_power numeral_2_eq_2)
  have zs: "?zs mod Order = (z * (z0 + z1)) mod Order" by (simp add: mod_mult_right_eq mult.commute)
  have a: "(?k * ((z - z0) mod Order)) mod Order mod Order = (?S * (z - z * z)) mod Order"
  proof -
    have "(z - z0) mod Order = (z - z * z) mod Order" by (rule mod_diff_cong[OF refl z0])
    then show ?thesis unfolding mod_mod_trivial by (intro mult_mod_cong[OF k]) (simp only: mod_mod_trivial)
  qed
  have b: "((?zs * 2 ^ 64) mod Order - ?zs) mod Order mod Order = (z * (z0 + z1) * 2 ^ 64 - z * (z0 + z1)) mod Order"
    unfolding mod_mod_trivial by (rule mod_diff_cong[OF _ zs]) (use mult_mod_cong[OF zs refl, of "2 ^ 64"] in simp)
  have "pr_t (protocol_support keccak w that) = (that - ((?k * ((z - z0) mod Order)) mod Order - ((?zs * 2 ^ 64) mod Order - ?zs) mod Order) mod Order) mod Order"
    by (simp only: protocol_support_def Let_def assms gen_z_def ProtocolSupport.simps)
  also have "\<dots> = (that - (?S * (z - z * z) - (z * (z0 + z1) * 2 ^ 64 - z * (z0 + z1)))) mod Order"
    by (rule mod_diff_cong[OF refl]) (simp only: mod_mod_trivial mod_diff_cong[OF a b])
  also have "that - (?S * (z - z * z) - (z * (z0 + z1) * 2 ^ 64 - z * (z0 + z1))) = that - ((z - z * z) * ?S - z * ((z0 + z1) * (2 ^ 64 - 1)))"
    by (simp add: algebra_simps)
  finally show ?thesis by simp
qed

section \<open>The check of the constant term\<close>

text \<open>The commitment to the two amounts that the verifier recomputes is the prover's.\<close>

lemma sigma_A_t_agrees:
  assumes L: "g1_laws P" and gp: "gp_G gp = g1_G P" "gp_H gp = g1_H P"
    and T1: "pf_T_1 pf = g1_Add P (g1_ScalarMult P (g1_G P) t1) (g1_ScalarMult P (g1_H P) (gr_T1 rnd))"
    and T2: "pf_T_2 pf = g1_Add P (g1_ScalarMult P (g1_G P) t2) (g1_ScalarMult P (g1_H P) (gr_T2 rnd))"
    and t: "t mod Order = (amt + t1 * x + t2 * (x * x)) mod Order"
    and s_tau: "pf_s_tau pf mod Order = ((gr_T1 rnd * x + gr_T2 rnd * (x * x)) * wp * pf_c pf + gr_tau rnd) mod Order"
    and s_b: "pf_s_b pf mod Order = (amt * wp * pf_c pf + gr_b rnd) mod Order"
  shows "sigma_A_t P gp pf t (t_eval P pf x) wp = gen_A_t P gp rnd"
proof -
  let ?G = "g1_G P" and ?H = "g1_H P" and ?c = "pf_c pf"
  have ev: "t_eval P pf x = g1_Add P (g1_ScalarMult P ?G (t1 * x + t2 * (x * x))) (g1_ScalarMult P ?H (gr_T1 rnd * x + gr_T2 rnd * (x * x)))"
    unfolding t_eval_def T1 T2 g1_mul_mod[OF L] g1_add_mul[OF L] g1_mul_mul[OF L] g1_mul_add[OF L] by (simp add: g1_ac[OF L])
  have "g1_Add P (g1_ScalarMult P ?G t) (g1_Neg P (t_eval P pf x)) = g1_Add P (g1_ScalarMult P ?G amt) (g1_ScalarMult P ?H (- (gr_T1 rnd * x + gr_T2 rnd * (x * x))))"
  proof -
    have "g1_ScalarMult P ?G t = g1_ScalarMult P ?G (amt + (t1 * x + t2 * (x * x)))"
      by (rule g1_mul_cong[OF L]) (use t in \<open>simp add: add.assoc\<close>)
    then have "g1_Add P (g1_ScalarMult P ?G t) (g1_ScalarMult P ?G (- (t1 * x + t2 * (x * x)))) = g1_ScalarMult P ?G amt"
      by (simp only: g1_mul_add[OF L, symmetric]) simp
    then show ?thesis unfolding ev g1_neg[OF L] g1_add_mul[OF L] g1_mul_mul[OF L] by (simp only: mult_minus_right mult_1_right g1_assoc[OF L, symmetric])
  qed
  then have "sigma_A_t P gp pf t (t_eval P pf x) wp = g1_Add P (g1_Add P (g1_ScalarMult P (g1_Add P (g1_ScalarMult P ?G amt) (g1_ScalarMult P ?H (- (gr_T1 rnd * x + gr_T2 rnd * (x * x))))) (?c * wp))
      (g1_ScalarMult P ?H (pf_s_tau pf))) (g1_ScalarMult P ?G (- pf_s_b pf))"
    by (simp only: sigma_A_t_def Let_def gp g1_mul_mod[OF L])
  also have "\<dots> = g1_Add P (g1_ScalarMult P ?G (amt * (?c * wp) + - pf_s_b pf)) (g1_ScalarMult P ?H (- (gr_T1 rnd * x + gr_T2 rnd * (x * x)) * (?c * wp) + pf_s_tau pf))"
    unfolding g1_add_mul[OF L] g1_mul_mul[OF L] g1_mul_add[OF L] by (simp only: g1_ac[OF L])
  also have "\<dots> = g1_Add P (g1_ScalarMult P ?G (- gr_b rnd)) (g1_ScalarMult P ?H (gr_tau rnd))"
  proof (intro arg_cong2[of _ _ _ _ "g1_Add P"] g1_mul_cong[OF L])
    show "(amt * (?c * wp) + - pf_s_b pf) mod Order = (- gr_b rnd) mod Order"
      using mod_diff_cong[OF refl s_b, of "amt * (?c * wp)"] by (simp add: algebra_simps)
    show "(- (gr_T1 rnd * x + gr_T2 rnd * (x * x)) * (?c * wp) + pf_s_tau pf) mod Order = gr_tau rnd mod Order"
      using mod_add_cong[OF refl s_tau, of "- (gr_T1 rnd * x + gr_T2 rnd * (x * x)) * (?c * wp)"] by (simp add: algebra_simps)
  qed
  finally show ?thesis by (simp only: gen_A_t_def gp g1_mul_mod[OF L])
qed

section \<open>The point of the inner product\<close>

lemma vector_commit_value:
  assumes L: "g1_laws P" and "length gs \<le> length (gp_Gs gp)" "length hs \<le> length (gp_Hs gp)" "gp_GSUM gp = Some gsum"
  shows "vector_commit P gp r gs hs = Inr (g1_Add P (g1_Add P (g1_ScalarMult P (gp_H gp) r) (msm P (gp_Gs gp) gs)) (msm P (gp_Hs gp) hs))"
  using assms by (simp add: vector_commit_def NewPedersenVectorCommitment_def PedersenVectorCommitment_Commit_def pv_MultiExponentiate_msm[OF L])

lemma pv_Sum_psum:
  assumes L: "g1_laws P"
  shows "pv_Sum P gs = psum P (\<lambda>i. gs ! i) (length gs)"
proof -
  have "foldl (g1_Add P) acc gs = g1_Add P acc (psum P (\<lambda>i. gs ! i) (length gs))" for acc
    by (induction gs arbitrary: acc) (simp_all add: g1_add_0[OF L] psum_front[OF L] g1_assoc[OF L] del: psum.simps(2))
  then show ?thesis by (simp add: pv_Sum_def g1_0_add[OF L])
qed

lemma h_primes_append: "h_primes P gp pr (xs @ ys) acc = rbind (h_primes P gp pr xs acc) (h_primes P gp pr ys)"
  by (induction P gp pr xs acc rule: h_primes.induct) (auto simp: rbind_assoc Let_def intro!: rbind_cong)

lemma h_primes_value:
  assumes L: "g1_laws P" and inv: "\<And>i. i < n \<Longrightarrow> ModInverse (pr_ys pr ! i) Order = Some (yi i)"
    and len: "n \<le> length (gp_Hs gp)" "n \<le> length (pr_ys pr)" "n \<le> length (pr_twoTimesZSquared pr)"
  shows "d \<le> n \<Longrightarrow> h_primes P gp pr [0..<d] ([], g1_zero P) = Inr (map (\<lambda>i. g1_ScalarMult P (gp_Hs gp ! i) (yi i)) [0..<d],
    psum P (\<lambda>i. g1_ScalarMult P (g1_ScalarMult P (gp_Hs gp ! i) (yi i)) (pr_ys pr ! i * pr_z pr + pr_twoTimesZSquared pr ! i)) d)"
proof (induction d)
  case (Suc d)
  then have d: "d < length (gp_Hs gp)" "d < length (pr_ys pr)" "d < length (pr_twoTimesZSquared pr)" "d < n" using len by auto
  have sc: "g1_ScalarMult P Q (((a * b) mod Order + c) mod Order) = g1_ScalarMult P Q (a * b + c)" for Q a b c
    by (rule g1_mul_cong[OF L]) (simp add: mod_add_left_eq)
  show ?case
    unfolding upt_Suc_append[OF le0] h_primes_append Suc.IH[OF Suc_leD[OF Suc.prems]] using d inv[OF d(4)]
    by (simp add: Let_def sc)
qed simp

text \<open>The point is the commitment to the two vectors and their inner product.\<close>

lemma inner_point_statement:
  assumes L: "g1_laws P" and len: "length Gs = n" "length Hs = n" "length l = n" "length r = n" "length ys = n"
    and aL: "length aL = n" "length aR = n" "length sL = n" "length sR = n"
    and hs: "\<And>i. i < n \<Longrightarrow> hs ! i = g1_ScalarMult P (Hs ! i) (yi i)" "length hs = n" and yi: "\<And>i. i < n \<Longrightarrow> (ys ! i * yi i) mod Order = 1"
    and l: "\<And>i. i < n \<Longrightarrow> l ! i mod Order = (aL ! i - z + x * sL ! i) mod Order"
    and r: "\<And>i. i < n \<Longrightarrow> r ! i mod Order = (ys ! i * (aR ! i + z) + tau i + x * (sR ! i * ys ! i)) mod Order"
    and BA: "BA = g1_Add P (g1_Add P (g1_ScalarMult P H ra) (msm P Gs aL)) (msm P Hs aR)"
    and BS: "BS = g1_Add P (g1_Add P (g1_ScalarMult P H rb) (msm P Gs sL)) (msm P Hs sR)"
    and mu: "mu mod Order = (rb * x + ra) mod Order" and that: "that mod Order = dot l r mod Order"
  shows "g1_Add P (g1_Add P (g1_Add P (g1_Add P (g1_Add P BA (g1_ScalarMult P BS x)) (g1_ScalarMult P (pv_Sum P Gs) (- z)))
      (psum P (\<lambda>i. g1_ScalarMult P (hs ! i) (ys ! i * z + tau i)) n)) (g1_ScalarMult P H (- mu))) (g1_ScalarMult P u that) = ip_statement P u Gs hs l r"
proof -
  let ?g = "\<lambda>c. psum P (\<lambda>i. g1_ScalarMult P (Gs ! i) (c i)) n" and ?h = "\<lambda>c. psum P (\<lambda>i. g1_ScalarMult P (hs ! i) (c i)) n"
  have H: "g1_ScalarMult P (Hs ! i) a = g1_ScalarMult P (hs ! i) (ys ! i * a)" if "i < n" for i a
  proof -
    have "(yi i * (ys ! i * a)) mod Order = a mod Order"
      using mult_mod_cong[of "ys ! i * yi i" Order 1 a a] yi[OF that] by (simp add: ac_simps)
    then show ?thesis unfolding hs(1)[OF that] g1_mul_mul[OF L] by (intro g1_mul_cong[OF L]) simp
  qed
  have gs: "msm P Gs c = ?g (\<lambda>i. c ! i)" if "length c = n" for c using msm_psum[OF L, of Gs c] len that by simp
  have hsum: "msm P Hs c = ?h (\<lambda>i. ys ! i * c ! i)" if "length c = n" for c
  proof -
    have "msm P Hs c = psum P (\<lambda>i. g1_ScalarMult P (Hs ! i) (c ! i)) n" using msm_psum[OF L, of Hs c] len that by simp
    also have "\<dots> = ?h (\<lambda>i. ys ! i * c ! i)" by (intro psum_cong H)
    finally show ?thesis .
  qed
  have add: "g1_Add P (?g c) (?g d) = ?g (\<lambda>i. c i + d i)" "g1_Add P (?h c) (?h d) = ?h (\<lambda>i. c i + d i)" for c d
    by (simp_all only: psum_add[OF L, symmetric] g1_mul_add[OF L])
  have mul: "g1_ScalarMult P (?g c) k = ?g (\<lambda>i. c i * k)" "g1_ScalarMult P (?h c) k = ?h (\<lambda>i. c i * k)" for c k
    by (simp_all only: psum_mul[OF L, symmetric] g1_mul_mul[OF L])
  have sum1: "pv_Sum P Gs = ?g (\<lambda>_. 1)" by (simp add: pv_Sum_psum[OF L] len g1_mul_1[OF L])
  have shuffle: "g1_Add P (g1_Add P (g1_Add P (g1_Add P (g1_Add P (g1_Add P (g1_Add P a b) c) (g1_Add P (g1_Add P d e) f)) g) h) k) v =
      g1_Add P (g1_Add P (g1_Add P (g1_Add P b e) g) (g1_Add P (g1_Add P c f) h)) (g1_Add P v (g1_Add P (g1_Add P a d) k))" for a b c d e f g h k v
    by (simp add: g1_ac[OF L])
  have gl: "?g (\<lambda>i. aL ! i + sL ! i * x + 1 * - z) = msm P Gs l"
    unfolding gs[OF len(3)] by (intro psum_cong g1_mul_cong[OF L]) (simp add: l algebra_simps)
  have hr: "?h (\<lambda>i. ys ! i * aR ! i + ys ! i * sR ! i * x + (ys ! i * z + tau i)) = msm P hs r"
  proof -
    have "msm P hs r = ?h (\<lambda>i. r ! i)" using msm_psum[OF L, of hs r] hs(2) len by simp
    then show ?thesis by (simp only:) (intro psum_cong g1_mul_cong[OF L]; simp add: r algebra_simps)
  qed
  have zero: "g1_Add P (g1_Add P (g1_ScalarMult P H ra) (g1_ScalarMult P H (rb * x))) (g1_ScalarMult P H (- mu)) = g1_zero P"
    unfolding g1_mul_add[OF L, symmetric] g1_mul_0[OF L, of H, symmetric]
    by (rule g1_mul_cong[OF L]) (use mod_diff_cong[OF refl mu, of "ra + rb * x"] in \<open>simp add: algebra_simps\<close>)
  have dt: "g1_ScalarMult P u that = g1_ScalarMult P u (dot l r)" by (rule g1_mul_cong[OF L that])
  show ?thesis
    unfolding BA BS gs[OF aL(1)] gs[OF aL(3)] hsum[OF aL(2)] hsum[OF aL(4)] sum1 g1_add_mul[OF L] mul g1_mul_mul[OF L] shuffle zero add gl hr dt
    by (simp add: ip_statement_def g1_add_0[OF L])
qed

end
