(* ===== verification/Proof_Complete.thy ===== *)
theory Proof_Complete
  imports Range_Complete
begin

text \<open>
  Completeness of the ring proof: what \<^verbatim>\<open>GenerateProof\<close> returns for an honest statement is accepted by \<^verbatim>\<open>Verify\<close>.
\<close>

section \<open>The commitment to the bits\<close>

definition mask_vec :: "gen_random \<Rightarrow> nat \<Rightarrow> int list" where
  "mask_vec rnd m = map (\<lambda>i. if i = 0 \<or> i = m then 0 else gr_aa rnd i) [0..<2 * m]"

definition bit_vec :: "nat \<Rightarrow> nat \<Rightarrow> nat \<Rightarrow> int list" where
  "bit_vec m i0 i1 = map (\<lambda>k. if bit i0 k then 1 else 0) [0..<m] @ map (\<lambda>k. if bit i1 k then 1 else 0) [0..<m]"

lemma bit_vec_01: "k < 2 * m \<Longrightarrow> bit_vec m i0 i1 ! k = 0 \<or> bit_vec m i0 i1 ! k = 1"
  by (auto simp: bit_vec_def nth_append)

lemma length_selectors [simp]: "length (mask_vec rnd m) = 2 * m" "length (bit_vec m i0 i1) = 2 * m"
  by (simp_all add: mask_vec_def bit_vec_def)

lemma bit_vec_parity:
  assumes "0 < m" "odd (i0 + i1)"
  shows "bit_vec m i0 i1 ! 0 = (if even i0 then 0 else 1)" "bit_vec m i0 i1 ! m = (if even i0 then 1 else 0)"
  using assms by (auto simp: bit_vec_def nth_append bit_0)

text \<open>The values committed to beside the bits.\<close>

definition special_vec :: "int list \<Rightarrow> int list \<Rightarrow> int list" where
  "special_vec a b = map2 (\<lambda>x y. (x * y) mod Order) a (map (\<lambda>d. if d = 1 then (- 1) mod Order else 1 mod Order) b)"

definition square_vec :: "int list \<Rightarrow> int list" where
  "square_vec a = map (\<lambda>x. (- x) mod Order) (map2 (\<lambda>x y. (x * y) mod Order) a a)"

definition commitment :: "'p G1Ops \<Rightarrow> 'p GeneratorParams \<Rightarrow> int \<Rightarrow> int list \<Rightarrow> int list \<Rightarrow> 'p" where
  "commitment P gp r gs hs = g1_Add P (g1_Add P (g1_ScalarMult P (gp_H gp) r) (msm P (gp_Gs gp) gs)) (msm P (gp_Hs gp) hs)"

lemma gen_selectors_value:
  assumes L: "g1_laws P" and m: "0 < m" "m \<le> 28" and i: "i0 < 2 ^ m" "i1 < 2 ^ m" and gp: "length (gp_Gs gp) = 128" "length (gp_Hs gp) = 128" "gp_GSUM gp = Some gsum"
  shows "gen_selectors P gp rnd m [i0, i1] = Inr
    \<lparr>gb_a = mask_vec rnd m, gb_b = bit_vec m i0 i1,
     gb_A = commitment P gp (gr_A rnd) (mask_vec rnd m) (square_vec (mask_vec rnd m) @ [0, 0]),
     gb_B = commitment P gp (gr_B rnd) (bit_vec m i0 i1) (special_vec (mask_vec rnd m) (bit_vec m i0 i1) @ [0, 0])\<rparr>"
proof -
  let ?a = "mask_vec rnd m" and ?b = "bit_vec m i0 i1"
  have b: "index_digits m i0 @ index_digits m i1 = ?b" using m i by (simp add: index_digits_bits bit_vec_def)
  have a0: "?a ! 0 = 0" "?a ! m = 0" using m by (simp_all add: mask_vec_def)
  have ab: "?a ! (nat (?b ! k) * m) = 0" "nat (?b ! k) * m < 2 * m" if "k < 2 * m" for k
    using bit_vec_01[OF that, of i0 i1] a0 m by auto
  have lens: "length (special_vec ?a ?b) = 2 * m" "length (square_vec ?a) = 2 * m" by (simp_all add: special_vec_def square_vec_def)
  have com: "vector_commit P gp r gs (hs @ [0, 0]) = Inr (commitment P gp r gs (hs @ [0, 0]))" if "length gs = 2 * m" "length hs = 2 * m" for r gs hs
    using that m gp unfolding commitment_def by (intro vector_commit_value[OF L]) simp_all
  have ix: "rnth [i0, i1] 1 = Inr i1" "rnth [i0, i1] 0 = Inr i0" by simp_all
  have hc: "fv_Hadamard ?a (map (\<lambda>d. if d = 1 then (- 1) mod Order else 1 mod Order) ?b) = Inr (special_vec ?a ?b)"
    by (simp add: fv_Hadamard_def special_vec_def)
  obtain aa where aa: "fv_Hadamard ?a ?a = Inr aa" "fv_Negate aa = square_vec ?a"
    by (simp add: fv_Hadamard_def square_vec_def fv_Negate_def)
  show ?thesis
    unfolding gen_selectors_def ix rbind_simps Let_def mask_vec_def[symmetric] b hc aa fv_Concat_def
    using m ab(1)[of 0] ab(1)[of m] ab(2)[of 0] ab(2)[of m] by (simp add: a0 com lens)
qed

lemma bits_commit_value:
  assumes L: "g1_laws P"
  shows "k + length f \<le> length (gp_Gs gp) \<Longrightarrow> k + length f \<le> length (gp_Hs gp) \<Longrightarrow> bits_commit P gp k f acc = Inr (g1_Add P acc
    (g1_Add P (psum P (\<lambda>i. g1_ScalarMult P (gp_Gs gp ! (k + i)) (snd (f ! i))) (length f))
      (psum P (\<lambda>i. g1_ScalarMult P (gp_Hs gp ! (k + i)) (snd (f ! i) * fst (f ! i))) (length f))))"
proof (induction f arbitrary: k acc)
  case (Cons p f)
  obtain f0 f1 where p: "p = (f0, f1)" by (cases p)
  show ?case
    using Cons unfolding p by (simp add: psum_front[OF L] g1_mul_mod[OF L] g1_ac[OF L] del: psum.simps(2))
qed (simp add: g1_add_0[OF L])

lemma msm_psum_short:
  assumes L: "g1_laws P"
  shows "length xs \<le> length gs \<Longrightarrow> msm P gs xs = psum P (\<lambda>i. g1_ScalarMult P (gs ! i) (xs ! i)) (length xs)"
proof (induction xs arbitrary: gs)
  case (Cons x xs)
  then show ?case by (cases gs) (simp_all add: psum_front[OF L] del: psum.simps(2))
qed simp

lemma commitment_psum:
  assumes L: "g1_laws P" and "length gs = d" "length hs = d" "d + 2 \<le> length (gp_Gs gp)" "d + 2 \<le> length (gp_Hs gp)"
  shows "commitment P gp r gs (hs @ [0, 0]) = g1_Add P (g1_Add P (g1_ScalarMult P (gp_H gp) r) (psum P (\<lambda>i. g1_ScalarMult P (gp_Gs gp ! i) (gs ! i)) d))
    (psum P (\<lambda>i. g1_ScalarMult P (gp_Hs gp ! i) (hs ! i)) d)"
proof -
  have "psum P (\<lambda>i. g1_ScalarMult P (gp_Hs gp ! i) ((hs @ [0, 0]) ! i)) (d + 2) = psum P (\<lambda>i. g1_ScalarMult P (gp_Hs gp ! i) ((hs @ [0, 0]) ! i)) d"
    using assms(3) by (simp add: numeral_2_eq_2 nth_append g1_mul_0[OF L] g1_add_0[OF L])
  also have "\<dots> = psum P (\<lambda>i. g1_ScalarMult P (gp_Hs gp ! i) (hs ! i)) d" using assms(3) by (intro psum_cong) (simp add: nth_append)
  finally show ?thesis unfolding commitment_def using assms by (simp add: msm_psum_short[OF L] numeral_2_eq_2)
qed

text \<open>One bit: the masked bit times its complement opens what the prover committed to.\<close>

lemma bit_opens:
  assumes "b = 0 \<or> b = (1 :: int)" and f: "f mod Order = (b * w + a) mod Order"
  shows "((a * (if b = 1 then - 1 else 1)) * w + - (a * a)) mod Order = (f * (w - f)) mod Order"
proof -
  have "(f * (w - f)) mod Order = ((b * w + a) * (w - (b * w + a))) mod Order" by (intro mult_mod_cong mod_diff_cong refl f)
  also have "(b * w + a) * (w - (b * w + a)) = (a * (if b = 1 then - 1 else 1)) * w + - (a * a)" using assms(1) by (auto simp: algebra_simps)
  finally show ?thesis by simp
qed

lemma check_bits_accepts:
  assumes L: "g1_laws P" and m: "0 < m" "m \<le> 28" and odd: "odd (i0 + i1)" and gp: "length (gp_Gs gp) = 128" "length (gp_Hs gp) = 128"
    and A: "pf_A pf = commitment P gp rA (mask_vec rnd m) (square_vec (mask_vec rnd m) @ [0, 0])"
    and B: "pf_B pf = commitment P gp rB (bit_vec m i0 i1) (special_vec (mask_vec rnd m) (bit_vec m i0 i1) @ [0, 0])"
    and z: "pf_z_A pf mod Order = (rB * w + rA) mod Order"
    and f: "length f = 2 * m" "\<And>k. k < 2 * m \<Longrightarrow> \<exists>c. f ! k = ((w - c) mod Order, c) \<and> c mod Order = (bit_vec m i0 i1 ! k * w + mask_vec rnd m ! k) mod Order"
  shows "check_bits P gp pf w f = Inr True"
proof -
  let ?a = "mask_vec rnd m" and ?b = "bit_vec m i0 i1" and ?G = "gp_Gs gp" and ?H = "gp_Hs gp"
  let ?g = "\<lambda>c. psum P (\<lambda>i. g1_ScalarMult P (?G ! i) (c i)) (2 * m)" and ?h = "\<lambda>c. psum P (\<lambda>i. g1_ScalarMult P (?H ! i) (c i)) (2 * m)"
  have fk: "snd (f ! k) mod Order = (?b ! k * w + ?a ! k) mod Order" "fst (f ! k) = (w - snd (f ! k)) mod Order" if "k < 2 * m" for k
    using f(2)[OF that] by auto
  have a0: "?a ! 0 = 0" "?a ! m = 0" using m by (simp_all add: mask_vec_def)
  have b0: "?b ! 0 = 0 \<and> ?b ! m = 1 \<or> ?b ! 0 = 1 \<and> ?b ! m = 0" using bit_vec_parity[OF m(1) odd] by auto
  have f0: "snd (f ! 0) mod Order = (?b ! 0 * w) mod Order" "snd (f ! m) mod Order = (?b ! m * w) mod Order"
    using fk(1)[of 0] fk(1)[of m] m a0 by simp_all
  have p0: "(snd (f ! 0) * snd (f ! m)) mod Order = 0" using mult_mod_cong[OF f0] b0 by auto
  have p1: "(fst (f ! 0) * fst (f ! m)) mod Order = 0"
  proof -
    have "(w - snd (f ! 0)) mod Order = (w - ?b ! 0 * w) mod Order" "(w - snd (f ! m)) mod Order = (w - ?b ! m * w) mod Order"
      by (rule mod_diff_cong[OF refl f0(1)], rule mod_diff_cong[OF refl f0(2)])
    from mult_mod_cong[OF this] show ?thesis using b0 fk(2)[of 0] fk(2)[of m] m by (auto simp: mod_mult_eq)
  qed
  have sums: "g1_Add P (g1_ScalarMult P (?g (\<lambda>i. ?b ! i)) w) (?g (\<lambda>i. ?a ! i)) = ?g (\<lambda>i. snd (f ! i))"
    "g1_Add P (g1_ScalarMult P (?h (\<lambda>i. special_vec ?a ?b ! i)) w) (?h (\<lambda>i. square_vec ?a ! i)) = ?h (\<lambda>i. snd (f ! i) * fst (f ! i))"
  proof -
    show "g1_Add P (g1_ScalarMult P (?g (\<lambda>i. ?b ! i)) w) (?g (\<lambda>i. ?a ! i)) = ?g (\<lambda>i. snd (f ! i))"
      unfolding psum_mul[OF L, symmetric] psum_add[OF L, symmetric] g1_mul_mul[OF L] g1_mul_add[OF L, symmetric]
      by (intro psum_cong g1_mul_cong[OF L]) (simp add: fk(1))
    show "g1_Add P (g1_ScalarMult P (?h (\<lambda>i. special_vec ?a ?b ! i)) w) (?h (\<lambda>i. square_vec ?a ! i)) = ?h (\<lambda>i. snd (f ! i) * fst (f ! i))"
      unfolding psum_mul[OF L, symmetric] psum_add[OF L, symmetric] g1_mul_mul[OF L] g1_mul_add[OF L, symmetric]
    proof (intro psum_cong g1_mul_cong[OF L])
      fix k assume k: "k < 2 * m"
      have sp: "special_vec ?a ?b ! k mod Order = (?a ! k * (if ?b ! k = 1 then - 1 else 1)) mod Order"
        using k by (simp add: special_vec_def mod_mult_right_eq)
      have sq: "square_vec ?a ! k mod Order = (- (?a ! k * ?a ! k)) mod Order" using k by (simp add: square_vec_def mod_minus_eq)
      have "(special_vec ?a ?b ! k * w + square_vec ?a ! k) mod Order = ((?a ! k * (if ?b ! k = 1 then - 1 else 1)) * w + - (?a ! k * ?a ! k)) mod Order"
        by (intro mod_add_cong mult_mod_cong sp sq refl)
      also have "\<dots> = (snd (f ! k) * (w - snd (f ! k))) mod Order" by (rule bit_opens[OF bit_vec_01[OF k] fk(1)[OF k]])
      finally show "(special_vec ?a ?b ! k * w + square_vec ?a ! k) mod Order = (snd (f ! k) * fst (f ! k)) mod Order"
        using fk(2)[OF k] by (simp add: mod_mult_right_eq)
    qed
  qed
  have lens: "length (special_vec ?a ?b) = 2 * m" "length (square_vec ?a) = 2 * m" by (simp_all add: special_vec_def square_vec_def)
  have bound: "2 * m + 2 \<le> length ?G" "2 * m + 2 \<le> length ?H" using m gp by simp_all
  have zA: "g1_Add P (g1_ScalarMult P (g1_ScalarMult P (gp_H gp) rB) w) (g1_ScalarMult P (gp_H gp) rA) = g1_ScalarMult P (gp_H gp) (pf_z_A pf)"
    unfolding g1_mul_mul[OF L] g1_mul_add[OF L, symmetric] by (rule g1_mul_cong[OF L z[symmetric]])
  have shuffle: "g1_Add P (g1_Add P (g1_Add P r g) h) (g1_Add P (g1_Add P r' g') h') = g1_Add P (g1_Add P (g1_Add P g g') (g1_Add P h h')) (g1_Add P r r')" for r g h r' g' h'
    by (simp add: g1_ac[OF L])
  have stored: "g1_Add P (g1_ScalarMult P (pf_B pf) w) (pf_A pf) = g1_Add P (g1_Add P (?g (\<lambda>i. snd (f ! i))) (?h (\<lambda>i. snd (f ! i) * fst (f ! i)))) (g1_ScalarMult P (gp_H gp) (pf_z_A pf))"
    unfolding A B commitment_psum[OF L length_selectors(1) lens(2) bound] commitment_psum[OF L length_selectors(2) lens(1) bound] g1_add_mul[OF L] shuffle sums zA ..
  have "bits_commit P gp 0 f (g1_zero P) = Inr (g1_Add P (?g (\<lambda>i. snd (f ! i))) (?h (\<lambda>i. snd (f ! i) * fst (f ! i))))"
    using bits_commit_value[OF L, of 0 f gp "g1_zero P"] f(1) bound by (simp add: g1_0_add[OF L])
  then show ?thesis
    using f(1) m gp bound by (simp add: check_bits_def Let_def stored p0 p1 g1_mul_0[OF L] g1_add_0[OF L])
qed

section \<open>The sigma protocol\<close>

lemma schnorr_opens:
  assumes L: "g1_laws P" and "s mod Order = (c * k + r) mod Order"
  shows "g1_Add P (g1_ScalarMult P Q s) (g1_ScalarMult P (g1_ScalarMult P Q k) ((- c) mod Order)) = g1_ScalarMult P Q r"
proof -
  have "(s + k * - c) mod Order = r mod Order"
    using mod_add_cong[OF assms(2) refl, of "k * - c"] by (simp add: algebra_simps)
  then show ?thesis unfolding g1_mul_mod[OF L] g1_mul_mul[OF L] g1_mul_add[OF L, symmetric] by (rule g1_mul_cong[OF L])
qed

lemma sigma_A_b_opens:
  assumes L: "g1_laws P" and gp: "gp_G gp = g1_G P" and ag: "ring_agrees P wit (uint open_value) gl a"
    and s_sk: "pf_s_sk pf mod Order = (pf_c pf * wt_SecretKey wit + gr_sk rnd) mod Order"
    and s_b: "pf_s_b pf mod Order = ((uint (wt_TransferAmount wit) * pr_z0 pr + uint (wt_Balance wit) * pr_z1 pr) * gl_wPow gl * pf_c pf + gr_b rnd) mod Order"
  shows "sigma_A_b P gp pf a pr open_value = g1_Add P (g1_ScalarMult P (gp_G gp) (gr_b rnd))
    (g1_ScalarMult P (g1_Add P (g1_ScalarMult P (gl_DR gl) ((- pr_z0 pr) mod Order)) (g1_ScalarMult P (gl_CRnR gl) (pr_z1 pr))) (gr_sk rnd))"
proof -
  let ?G = "g1_G P" and ?sk = "wt_SecretKey wit" and ?wp = "gl_wPow gl" and ?c = "pf_c pf" and ?z0 = "pr_z0 pr" and ?z1 = "pr_z1 pr"
  let ?amt = "uint (wt_TransferAmount wit)" and ?bal = "uint (wt_Balance wit)"
  let ?d = "g1_Add P (g1_ScalarMult P (gl_DR gl) (- ?z0)) (g1_ScalarMult P (gl_CRnR gl) ?z1)"
  note A = ag[unfolded ring_agrees_def]
  have mid: "g1_Add P (g1_ScalarMult P (g1_G P) ((uint open_value * an_wPow a) mod Order)) (an_CR00 a) = g1_Add P (g1_ScalarMult P (gl_DR gl) ?sk) (g1_ScalarMult P ?G (- ?amt * ?wp))"
    using A by (simp only: g1_mul_mod[OF L])
  have clnr: "an_CLnR a = g1_Add P (g1_ScalarMult P (gl_CRnR gl) ?sk) (g1_ScalarMult P ?G (?bal * ?wp))" "an_DR a = gl_DR gl" "an_CRnR a = gl_CRnR gl" using A by blast+
  have right: "g1_Add P (g1_ScalarMult P (g1_Add P (g1_ScalarMult P (gl_DR gl) ?sk) (g1_ScalarMult P ?G (- ?amt * ?wp))) (- ?z0))
      (g1_ScalarMult P (g1_Add P (g1_ScalarMult P (gl_CRnR gl) ?sk) (g1_ScalarMult P ?G (?bal * ?wp))) ?z1) =
      g1_Add P (g1_ScalarMult P ?d ?sk) (g1_ScalarMult P ?G ((?amt * ?z0 + ?bal * ?z1) * ?wp))"
  proof -
    have e: "(?amt * ?z0 + ?bal * ?z1) * ?wp = - ?amt * ?wp * - ?z0 + ?bal * ?wp * ?z1" by (simp add: algebra_simps)
    show ?thesis unfolding e g1_mul_add[OF L] g1_add_mul[OF L] g1_mul_mul[OF L] by (simp add: g1_ac[OF L] mult.commute)
  qed
  have "g1_Add P (g1_ScalarMult P ?d (pf_s_sk pf)) (g1_ScalarMult P (g1_ScalarMult P ?d ?sk) ((- ?c) mod Order)) = g1_ScalarMult P ?d (gr_sk rnd)"
    by (rule schnorr_opens[OF L s_sk])
  moreover have "g1_Add P (g1_ScalarMult P ?G (pf_s_b pf)) (g1_ScalarMult P (g1_ScalarMult P ?G ((?amt * ?z0 + ?bal * ?z1) * ?wp)) ((- ?c) mod Order)) = g1_ScalarMult P ?G (gr_b rnd)"
    by (rule schnorr_opens[OF L]) (simp only: s_b mult.commute[of ?c])
  moreover have "g1_Add P x (g1_Add P y (g1_Add P z u)) = g1_Add P (g1_Add P x u) (g1_Add P y z)" for x y z u by (simp add: g1_ac[OF L])
  ultimately show ?thesis
    by (simp only: sigma_A_b_def Let_def gp mid clnr right g1_mul_mod[OF L, of _ "- ?z0"] g1_add_mul[OF L, of "g1_ScalarMult P ?d ?sk"])
qed

lemma sigma_challenge_agrees:
  assumes L: "g1_laws P" and gp: "gp_G gp = g1_G P" and ag: "ring_agrees P wit (uint open_value) gl a"
    and s_sk: "pf_s_sk pf mod Order = (pf_c pf * wt_SecretKey wit + gr_sk rnd) mod Order"
    and s_r: "pf_s_r pf mod Order = (pf_c pf * wt_R wit + gr_r rnd) mod Order"
    and s_b: "pf_s_b pf mod Order = ((uint (wt_TransferAmount wit) * pr_z0 pr + uint (wt_Balance wit) * pr_z1 pr) * gl_wPow gl * pf_c pf + gr_b rnd) mod Order"
    and D: "st_D s = g1_ScalarMult P (g1_G P) (wt_R wit)" and u: "pf_u pf = g1_ScalarMult P point (wt_SecretKey wit)"
    and z: "pr_z0 pr = ge_z0 ge" "pr_z1 pr = ge_z1 ge" and t: "sigma_A_t P gp pf (pr_t pr) (t_eval P pf x) (an_wPow a) = gen_A_t P gp rnd"
  shows "sigma_challenge P keccak gp pf s a pr open_value x point = gen_challenge P keccak gp rnd gl ge x point"
proof -
  have A: "an_gR a = gl_gR gl" "an_yR00 a = g1_ScalarMult P (gl_gR gl) (wt_SecretKey wit)" "an_y_XR a = gl_y_XR gl" "an_C_XR a = g1_ScalarMult P (gl_y_XR gl) (wt_R wit)"
    using ag by (simp_all add: ring_agrees_def)
  show ?thesis
    by (simp only: sigma_challenge_def gen_challenge_def Let_def A D u t sigma_A_b_opens[OF L gp ag s_sk s_b] schnorr_opens[OF L s_sk] schnorr_opens[OF L s_r] gp z)
qed

section \<open>The range responses\<close>

lemma evaluate_line:
  assumes "length f0 = d" "length f1 = d"
  shows "\<exists>l. FieldVectorPolynomial_Evaluate [f0, f1] x = Inr l \<and> length l = d \<and> (\<forall>i < d. l ! i mod Order = (f0 ! i + x * f1 ! i) mod Order)"
  using assms by (auto simp: FieldVectorPolynomial_Evaluate_def fv_Clone_id add_scaled mod_add_right_eq mult.commute)

lemma dot_lines:
  assumes len: "length f0 = d" "length f1 = d" "length g0 = d" "length g1 = d" "length l = d" "length r = d"
    and l: "\<forall>i < d. l ! i mod Order = (f0 ! i + x * f1 ! i) mod Order" and r: "\<forall>i < d. r ! i mod Order = (g0 ! i + x * g1 ! i) mod Order"
  shows "dot l r mod Order = (dot f0 g0 + (dot f0 g1 + dot f1 g0) * x + dot f1 g1 * (x * x)) mod Order"
proof -
  have "dot l r mod Order = (\<Sum>i<d. l ! i * r ! i) mod Order" using len by (simp add: dot_sum)
  also have "\<dots> = (\<Sum>i<d. (f0 ! i + x * f1 ! i) * (g0 ! i + x * g1 ! i)) mod Order"
    using l r by (intro sum_mod_cong mult_mod_cong) simp_all
  also have "(\<Sum>i<d. (f0 ! i + x * f1 ! i) * (g0 ! i + x * g1 ! i)) = dot f0 g0 + (dot f0 g1 + dot f1 g0) * x + dot f1 g1 * (x * x)"
  proof -
    have "(\<Sum>i<d. (f0 ! i + x * f1 ! i) * (g0 ! i + x * g1 ! i)) =
        (\<Sum>i<d. f0 ! i * g0 ! i + (f0 ! i * g1 ! i + f1 ! i * g0 ! i) * x + f1 ! i * g1 ! i * (x * x))"
      by (intro sum.cong refl) (simp add: algebra_simps)
    then show ?thesis using len by (simp only: dot_sum sum.distrib sum_distrib_right[symmetric])
  qed
  finally show ?thesis .
qed

text \<open>The powers of a challenge that has an inverse have inverses; otherwise the prover panics.\<close>

lemma powers_invertible:
  assumes "coprime y Order"
  shows "\<exists>yi. \<forall>i < 128. ModInverse (powers_from 128 1 y ! i) Order = Some (yi i) \<and> (powers_from 128 1 y ! i * yi i) mod Order = 1"
proof -
  have "\<exists>c. ModInverse (powers_from 128 1 y ! i) Order = Some c \<and> (powers_from 128 1 y ! i * c) mod Order = 1" if "i < 128" for i
  proof -
    have "powers_from 128 1 y ! i mod Order = y ^ i mod Order" using powers_from_nth[OF that, of 1 y] by simp
    then have "coprime (powers_from 128 1 y ! i) Order" using assms by (metis coprime_mod_left_iff coprime_power_left_iff Order_pos(4))
    then show ?thesis using ModInverse_spec[of Order "powers_from 128 1 y ! i"] by auto
  qed
  then show ?thesis by metis
qed

lemma powers_no_inverse:
  assumes "\<not> coprime y Order"
  shows "rmap rderef (fv_Invert (powers_from 128 1 y)) = Inl nil_challenge"
proof -
  have p: "powers_from 128 1 y = 1 # ((1 * y) mod Order) # tl (tl (powers_from 128 1 y))"
  proof -
    have "powers_from (Suc (Suc 126)) 1 y = 1 # ((1 * y) mod Order) # tl (tl (powers_from (Suc (Suc 126)) 1 y))" by (simp only: powers_from.simps list.sel)
    then show ?thesis by simp
  qed
  have "ModInverse (y mod Order) Order = None"
    using assms ModInverse_spec[of Order "y mod Order"] by (simp add: coprime_mod_left_iff)
  moreover obtain c where "ModInverse 1 Order = Some c" using ModInverse_spec[of Order 1] by auto
  ultimately show ?thesis by (subst p) (simp add: fv_Invert_def rderef_def nil_challenge_def)
qed

lemma rmap_map_Inr: "rmap rderef (map (\<lambda>i. Some (f i)) xs) = Inr (map f xs)"
  by (induction xs) simp_all

lemma gen_inner_product_outcome:
  assumes L: "g1_laws P" and gp: "length (gp_Gs gp) = 128" "length (gp_Hs gp) = 128" "gp_GSUM gp = Some gsum"
    and ge: "ge_ys ge = powers_from 128 1 (reducedhash keccak yinp)" "ge_l ge = [l0, l1]" "ge_r ge = [r0, r1]"
    and len: "length l0 = 128" "length l1 = 128" "length r0 = 128" "length r1 = 128"
  shows "(\<exists>ip yi l r. gen_inner_product P keccak gp ge x o' = Inr ip \<and>
      (\<forall>i < 128. ModInverse (ge_ys ge ! i) Order = Some (yi i) \<and> (ge_ys ge ! i * yi i) mod Order = 1) \<and> length l = 128 \<and> length r = 128 \<and>
      (\<forall>i < 128. l ! i mod Order = (l0 ! i + x * l1 ! i) mod Order) \<and> (\<forall>i < 128. r ! i mod Order = (r0 ! i + x * r1 ! i) mod Order) \<and>
      InnerProduct_Verify P keccak ip (map (\<lambda>i. g1_ScalarMult P (gp_Hs gp ! i) (yi i)) [0..<128]) (g1_ScalarMult P (gp_H gp) o')
        (ip_statement P (g1_ScalarMult P (gp_H gp) o') (gp_Gs gp) (map (\<lambda>i. g1_ScalarMult P (gp_Hs gp ! i) (yi i)) [0..<128]) l r) o' gp = Inr True) \<or>
    (\<exists>inp. \<not> coprime (reducedhash keccak inp) Order \<and> gen_inner_product P keccak gp ge x o' = Inl nil_challenge)"
proof (cases "coprime (reducedhash keccak yinp) Order")
  case False
  then have "gen_inner_product P keccak gp ge x o' = Inl nil_challenge"
    by (simp add: gen_inner_product_def NewPedersenVectorCommitment_def gp ge powers_no_inverse)
  then show ?thesis using False by blast
next
  case True
  obtain yi where yi: "\<forall>i < 128. ModInverse (ge_ys ge ! i) Order = Some (yi i) \<and> (ge_ys ge ! i * yi i) mod Order = 1"
    using powers_invertible[OF True] ge(1) by auto
  obtain l where l: "FieldVectorPolynomial_Evaluate [l0, l1] x = Inr l" "length l = 128" "\<forall>i < 128. l ! i mod Order = (l0 ! i + x * l1 ! i) mod Order"
    using evaluate_line[OF len(1,2)] by blast
  obtain r where r: "FieldVectorPolynomial_Evaluate [r0, r1] x = Inr r" "length r = 128" "\<forall>i < 128. r ! i mod Order = (r0 ! i + x * r1 ! i) mod Order"
    using evaluate_line[OF len(3,4)] by blast
  have ys: "length (ge_ys ge) = 128" by (simp add: ge)
  have inv: "rmap rderef (fv_Invert (ge_ys ge)) = Inr (map yi [0..<128])"
  proof -
    have "fv_Invert (ge_ys ge) = map (\<lambda>i. Some (yi i)) [0..<128]" using yi ys by (intro nth_equalityI) (simp_all add: fv_Invert_def)
    then show ?thesis by (simp add: comp_def rmap_map_Inr)
  qed
  let ?hs = "map (\<lambda>i. g1_ScalarMult P (gp_Hs gp ! i) (yi i)) [0..<128]" and ?u = "g1_ScalarMult P (gp_H gp) o'"
  have hs: "pv_Hadamard P (gp_Hs gp) (map yi [0..<128]) = Inr ?hs"
    using gp(2) by (simp add: pv_Hadamard_def) (intro nth_equalityI; simp)
  let ?p = "\<lparr>pvc_G = gp_G gp, pvc_H = ?u, pvc_GSUM = gsum, pvc_Gs = gp_Gs gp, pvc_Hs = ?hs, pvc_Randomness = None, pvc_Result = None, pvc_gvalues = l, pvc_hvalues = r\<rparr>"
  have run: "gen_inner_product P keccak gp ge x o' = NewInnerProductProofNew P keccak 8 ?p o'"
    by (simp add: gen_inner_product_def NewPedersenVectorCommitment_def gp(3) inv hs ge(2,3) l(1) r(1))
  have "(\<exists>ip. NewInnerProductProofNew P keccak 8 ?p o' = Inr ip \<and> InnerProduct_Verify P keccak ip ?hs ?u (ip_statement P ?u (gp_Gs gp) ?hs l r) o' gp = Inr True) \<or>
      (\<exists>inp. \<not> coprime (reducedhash keccak inp) Order \<and> NewInnerProductProofNew P keccak 8 ?p o' = Inl nil_challenge)"
    using inner_product_accepted[OF L, of ?p 7 gp 8 keccak o'] l(2) r(2) gp(1) by auto
  then show ?thesis
  proof (elim disjE exE conjE)
    fix ip assume "NewInnerProductProofNew P keccak 8 ?p o' = Inr ip" "InnerProduct_Verify P keccak ip ?hs ?u (ip_statement P ?u (gp_Gs gp) ?hs l r) o' gp = Inr True"
    then show ?thesis unfolding run using yi l(2,3) r(2,3) by (intro disjI1 exI[of _ ip] exI[of _ yi] exI[of _ l] exI[of _ r] conjI)
  next
    fix inp assume "\<not> coprime (reducedhash keccak inp) Order" "NewInnerProductProofNew P keccak 8 ?p o' = Inl nil_challenge"
    then show ?thesis using run by (intro disjI2 exI[of _ inp] conjI) simp_all
  qed
qed

end
