(* ===== verification/Ring_Proof.thy ===== *)
theory Ring_Proof
  imports Proof_Complete
begin

text \<open>
  The parts put together: \<^verbatim>\<open>GenerateProof\<close> on an honest statement returns a proof that \<^verbatim>\<open>Verify\<close> accepts.
\<close>

section \<open>The steps of the prover\<close>

lemma ring_power_value: "ring_power (2 ^ m) = Inr m"
proof -
  have "ilog2 (2 ^ m) = m" by (induction m) (subst ilog2.simps; simp)+
  moreover have "IsPowerOf2 (int (2 ^ m))" unfolding IsPowerOf2_iff by (intro exI[of _ m]) simp
  ultimately show ?thesis by (simp add: ring_power_def)
qed

lemma statement_ciphertexts:
  assumes "length (st_C s) = n" "length (st_CLn s) = n" "length (st_CRn s) = n"
  shows "rmap (\<lambda>i. rbind (rnth (st_CLn s) i) (\<lambda>l. rbind (rnth (st_CRn s) i) (\<lambda>r. ConstructElGamal P (Some l) (Some r)))) [0..<length (st_C s)] =
    Inr (map2 (plain_eg P) (st_CLn s) (st_CRn s))"
proof -
  have "rmap (\<lambda>i. rbind (rnth (st_CLn s) i) (\<lambda>l. rbind (rnth (st_CRn s) i) (\<lambda>r. ConstructElGamal P (Some l) (Some r)))) [0..<length (st_C s)] =
      Inr (map (\<lambda>i. plain_eg P (st_CLn s ! i) (st_CRn s ! i)) [0..<n])"
    unfolding assms(1) using assms by (intro rmap_ok) (simp add: eg_simps)
  also have "map (\<lambda>i. plain_eg P (st_CLn s ! i) (st_CRn s ! i)) [0..<n] = map2 (plain_eg P) (st_CLn s) (st_CRn s)"
    using assms by (intro nth_equalityI) simp_all
  finally show ?thesis .
qed

text \<open>What the verifier's \<^verbatim>\<open>f\<close> is for a challenge.\<close>

definition opens_bits :: "int list \<Rightarrow> int list \<Rightarrow> nat \<Rightarrow> int \<Rightarrow> (int \<times> int) list \<Rightarrow> bool" where
  "opens_bits a b m w f \<longleftrightarrow> length f = 2 * m \<and> (\<forall>k < 2 * m. \<exists>c. f ! k = ((w - c) mod Order, c) \<and> c mod Order = (b ! k * w + a ! k) mod Order)"

lemma gen_polynomials_value:
  assumes m: "0 < m" and i: "i0 < 2 ^ m" "i1 < 2 ^ m"
  shows "\<exists>ps qs. gen_polynomials m (mask_vec rnd m) (bit_vec m i0 i1) = Inr (ps, qs) \<and>
    (\<forall>w f. opens_bits (mask_vec rnd m) (bit_vec m i0 i1) m w f \<longrightarrow>
      (\<exists>r0 r1. assemblepolynomials f = Inr (zip r0 r1) \<and> ring_values m i0 w ps r0 \<and> ring_values m i1 w qs r1))"
proof -
  let ?a = "mask_vec rnd m" and ?b0 = "map (\<lambda>k. if bit i0 k then 1 else (0 :: int)) [0..<m]" and ?b1 = "map (\<lambda>k. if bit i1 k then 1 else (0 :: int)) [0..<m]"
  have sl: "fv_Slice ?a 0 m = Inr (take m ?a)" "fv_Slice ?a m (2 * m) = Inr (drop m ?a)"
    "fv_Slice (bit_vec m i0 i1) 0 m = Inr ?b0" "fv_Slice (bit_vec m i0 i1) m (2 * m) = Inr ?b1"
    by (simp_all add: fv_Slice_def slice_ok bit_vec_def)
  have la: "length (take m ?a) = m" "length (drop m ?a) = m" by simp_all
  obtain pi where pi: "RecursivePolynomials (NewPolynomial None) (take m ?a) ?b0 = Inr pi" "length pi = 2 ^ m" "\<And>l. l < 2 ^ m \<Longrightarrow> length (pi ! l) = Suc m"
    using prover_polynomials[OF la(1) refl i(1)] by blast
  obtain qi where qi: "RecursivePolynomials (NewPolynomial None) (drop m ?a) ?b1 = Inr qi" "length qi = 2 ^ m" "\<And>l. l < 2 ^ m \<Longrightarrow> length (qi ! l) = Suc m"
    using prover_polynomials[OF la(2) refl i(2)] by blast
  obtain ps where ps: "gen_transpose m (2 ^ m) pi = Inr ps" using gen_transpose_ok[of pi "2 ^ m" m] pi(2,3) by auto
  obtain qs where qs: "gen_transpose m (2 ^ m) qi = Inr qs" using gen_transpose_ok[of qi "2 ^ m" m] qi(2,3) by auto
  have run: "gen_polynomials m ?a (bit_vec m i0 i1) = Inr (ps, qs)"
    by (simp add: gen_polynomials_def sl pi qi ps qs)
  have "\<exists>r0 r1. assemblepolynomials f = Inr (zip r0 r1) \<and> ring_values m i0 w ps r0 \<and> ring_values m i1 w qs r1"
    if f: "opens_bits ?a (bit_vec m i0 i1) m w f" for w f
  proof -
    have fl: "length f = 2 * m" and fk: "\<And>k. k < 2 * m \<Longrightarrow> \<exists>c. f ! k = ((w - c) mod Order, c) \<and> c mod Order = (bit_vec m i0 i1 ! k * w + ?a ! k) mod Order"
      using f by (auto simp: opens_bits_def)
    have f0: "\<exists>c. f ! (0 + k) = ((w - c) mod Order, c) \<and> c mod Order = (?b0 ! k * w + take m ?a ! k) mod Order" if "k < m" for k
      using fk[of k] that by (simp add: bit_vec_def nth_append)
    have f1: "\<exists>c. f ! (m + k) = ((w - c) mod Order, c) \<and> c mod Order = (?b1 ! k * w + drop m ?a ! k) mod Order" if "k < m" for k
      using fk[of "m + k"] that by (simp add: bit_vec_def nth_append)
    obtain r0 where r0: "recursivepolynomials 0 (0 + m) 1 f = Inr r0" "ring_values m i0 w ps r0"
      using ring_values_agree[OF la(1) refl i(1) _ f0] fl pi(1) ps by fastforce
    obtain r1 where r1: "recursivepolynomials m (m + m) 1 f = Inr r1" "ring_values m i1 w qs r1"
      using ring_values_agree[OF la(2) refl i(2) _ f1] fl qi(1) qs by fastforce
    show ?thesis using r0 r1 fl by (auto simp: assemblepolynomials_def mult_2)
  qed
  then show ?thesis using run by blast
qed

lemma masked_bits:
  assumes "length a = 2 * m" "length b = 2 * m"
  shows "\<exists>g. fv_Add (fv_Times b w) a = Inr g \<and> length g = 2 * m \<and> (\<forall>k < 2 * m. g ! k = ((b ! k * w) mod Order + a ! k) mod Order)"
  using assms by (auto simp: fv_Add_def fv_Times_def)

lemma anon_f_opens:
  assumes "length a = 2 * m" "length b = 2 * m" "length g = 2 * m" "\<forall>k < 2 * m. g ! k = ((b ! k * w) mod Order + a ! k) mod Order"
  shows "opens_bits a b m w (anon_f w g)"
  using assms by (auto simp: opens_bits_def anon_f_def mod_add_left_eq)

lemma wpow_funpow: "((\<lambda>p. (p * w) mod Order) ^^ m) 1 = w ^ m mod Order"
  by (induction m) (simp_all add: mod_mult_right_eq mult.commute)

section \<open>The verifier accepts\<close>

text \<open>The response of the range proof: the constant that the verifier takes off leaves the two amounts.\<close>

lemma range_response:
  assumes amt: "uint t < 2 ^ 63" "uint b < 2 ^ 63" and z: "z = gen_z keccak w" and tau: "tau = tau_vec (mod_exp z 2 Order) (mod_exp z 3 Order)"
    and l0: "l0 = range_l0 (amount_bits t b) z" and r0: "r0 = range_r0 (amount_bits t b) z (gen_ys keccak w) tau"
    and that: "that mod Order = (dot l0 r0 + t1 * x + t2 * (x * x)) mod Order"
  shows "pr_t (protocol_support keccak w that) mod Order =
    ((uint t * mod_exp z 2 Order + uint b * mod_exp z 3 Order) + t1 * x + t2 * (x * x)) mod Order"
proof -
  let ?z0 = "mod_exp z 2 Order" and ?z1 = "mod_exp z 3 Order"
  define k where "k = (z - z * z) * (\<Sum>i<128. gen_ys keccak w ! i) - z * ((?z0 + ?z1) * (2 ^ 64 - 1))"
  have ys: "length (gen_ys keccak w) = 128" by (simp add: gen_ys_def)
  have c: "dot l0 r0 mod Order = (k + (uint t * ?z0 + uint b * ?z1)) mod Order"
    unfolding l0 r0 tau range_constant[OF amt ys] k_def by (intro arg_cong[of _ _ "\<lambda>n. n mod Order"]) (simp only: algebra_simps)
  have d: "(dot l0 r0 + t1 * x + t2 * (x * x) - k) mod Order = ((uint t * ?z0 + uint b * ?z1) + t1 * x + t2 * (x * x)) mod Order"
    using mod_add_cong[OF c refl, of "t1 * x + t2 * (x * x) - k"] by (simp add: algebra_simps)
  have "pr_t (protocol_support keccak w that) mod Order = (that - k) mod Order" unfolding k_def by (rule protocol_support_t[OF z refl refl])
  also have "\<dots> = (dot l0 r0 + t1 * x + t2 * (x * x) - k) mod Order" by (rule mod_diff_cong[OF that refl])
  finally show ?thesis using d by simp
qed

text \<open>A proof whose parts are the prover's is accepted.\<close>

lemma inner_check:
  assumes L: "g1_laws P" and gp: "gp_H gp = g1_H P" "length (gp_Gs gp) = 128" "length (gp_Hs gp) = 128" "gp_GSUM gp = Some (pv_Sum P (gp_Gs gp))"
    and bits: "length bits = 128" and z: "z = gen_z keccak w" and tau: "tau = tau_vec (mod_exp z 2 Order) (mod_exp z 3 Order)"
    and ys: "ys = gen_ys keccak w" and yi: "\<forall>i < 128. ModInverse (ys ! i) Order = Some (yi i) \<and> (ys ! i * yi i) mod Order = 1"
    and BA: "pf_BA pf = commitment P gp ra (gen_aL bits) (gen_aR bits)" and BS: "pf_BS pf = commitment P gp rb sL sR" "length sL = 128" "length sR = 128"
    and mu: "pf_mu pf mod Order = (rb * x + ra) mod Order" and that: "pf_that pf mod Order = dot l r mod Order"
    and l: "length l = 128" "\<forall>i < 128. l ! i mod Order = (range_l0 bits z ! i + x * sL ! i) mod Order"
    and r: "length r = 128" "\<forall>i < 128. r ! i mod Order = (range_r0 bits z ys tau ! i + x * hadamard sR ys ! i) mod Order"
    and ip: "InnerProduct_Verify P keccak ip (map (\<lambda>i. g1_ScalarMult P (gp_Hs gp ! i) (yi i)) [0..<128]) u
        (ip_statement P u (gp_Gs gp) (map (\<lambda>i. g1_ScalarMult P (gp_Hs gp ! i) (yi i)) [0..<128]) l r) o' gp = Inr True"
  shows "rbind (h_primes P gp (protocol_support keccak w c) [0..<128] ([], g1_zero P)) (\<lambda>(hPrimes, hPrimeSum).
      rbind (inner_point P gp pf (protocol_support keccak w c) x u hPrimeSum) (\<lambda>q. InnerProduct_Verify P keccak ip hPrimes u q o' gp)) = Inr True"
proof -
  let ?pr = "protocol_support keccak w c" and ?hs = "map (\<lambda>i. g1_ScalarMult P (gp_Hs gp ! i) (yi i)) [0..<128]"
  have pr: "pr_ys ?pr = ys" "pr_z ?pr = z" "pr_twoTimesZSquared ?pr = tau" by (simp_all only: protocol_support_simps z tau ys)
  have len: "length ys = 128" "length tau = 128" by (simp_all add: ys gen_ys_def tau)
  let ?sum = "psum P (\<lambda>i. g1_ScalarMult P (g1_ScalarMult P (gp_Hs gp ! i) (yi i)) (ys ! i * z + tau ! i)) 128"
  have hp: "h_primes P gp ?pr [0..<128] ([], g1_zero P) = Inr (?hs, ?sum)"
    using h_primes_value[OF L, of 128 ?pr yi gp 128] yi len gp(3) unfolding pr by simp
  have sum: "?sum = psum P (\<lambda>i. g1_ScalarMult P (?hs ! i) (ys ! i * z + tau ! i)) 128" by (intro psum_cong) simp
  have lz: "l ! i mod Order = (gen_aL bits ! i - z + x * sL ! i) mod Order" if "i < 128" for i
    using l(2) that bits by (simp add: mod_add_cong[OF range_l0_nth refl])
  have rz: "r ! i mod Order = (ys ! i * (gen_aR bits ! i + z) + tau ! i + x * (sR ! i * ys ! i)) mod Order" if i: "i < 128" for i
  proof -
    have "hadamard sR ys ! i mod Order = (sR ! i * ys ! i) mod Order" using i len BS(3) by (simp add: hadamard_def)
    then show ?thesis unfolding r(2)[rule_format, OF i] using i bits len
      by (intro mod_add_cong mult_mod_cong refl range_r0_nth) simp_all
  qed
  have "inner_point P gp pf ?pr x u ?sum = Inr (ip_statement P u (gp_Gs gp) ?hs l r)"
    unfolding inner_point_def gp(4) rderef_simps rbind_simps Let_def pr g1_mul_mod[OF L] sum
    by (intro arg_cong[of _ _ Inr] inner_point_statement[OF L gp(2,3) l(1) r(1) len(1), where aL = "gen_aL bits" and aR = "gen_aR bits" and sL = sL and sR = sR
        and yi = yi and H = "gp_H gp" and ra = ra and rb = rb])
      (use bits BS(2,3) yi lz rz mu that BA BS(1) in \<open>simp_all add: commitment_def\<close>)
  then show ?thesis using ip by (simp only: hp rbind_simps prod.case)
qed

text \<open>The generators the proof is made with.\<close>

definition generators_ok :: "'p G1Ops \<Rightarrow> 'p GeneratorParams \<Rightarrow> bool" where
  "generators_ok P gp \<longleftrightarrow> gp_G gp = g1_G P \<and> gp_H gp = g1_H P \<and> length (gp_Gs gp) = 128 \<and> length (gp_Hs gp) = 128 \<and>
     gp_GSUM gp = Some (pv_Sum P (gp_Gs gp))"

lemma first_bit_shown:
  assumes "0 < m" "odd (i0 + i1)" "\<forall>k < 2 * m. g ! k = ((bit_vec m i0 i1 ! k * w) mod Order + mask_vec rnd m ! k) mod Order" "w mod Order = w"
  shows "\<not> (w \<noteq> g ! 0 \<and> w \<noteq> g ! m)"
proof -
  have "mask_vec rnd m ! 0 = 0" "mask_vec rnd m ! m = 0" using assms(1) by (simp_all add: mask_vec_def)
  then have "g ! 0 = (bit_vec m i0 i1 ! 0 * w) mod Order" "g ! m = (bit_vec m i0 i1 ! m * w) mod Order"
    using assms(1,3) by simp_all
  then show ?thesis using bit_vec_parity[OF assms(1,2)] assms(4) by auto
qed

lemma open_value_fits:
  assumes "uint (fee :: uint64) + uint burn < 2 ^ 64"
  shows "uint (fee + burn) = uint fee + uint burn" "\<not> (fee + burn < fee \<or> fee + burn < burn)"
proof -
  show e: "uint (fee + burn) = uint fee + uint burn" using assms by (simp add: uint_word_ariths)
  show "\<not> (fee + burn < fee \<or> fee + burn < burn)" unfolding word_less_def e by simp
qed

lemma verify_accepts:
  assumes L: "g1_laws P" and gpo: "generators_ok P gp" and h: "honest P s wit burn m" and i: "i0 = wt_Index wit ! 0" "i1 = wt_Index wit ! 1"
    and amt: "uint (wt_TransferAmount wit) < 2 ^ 63" "uint (wt_Balance wit) < 2 ^ 63" and bits: "bits = amount_bits (wt_TransferAmount wit) (wt_Balance wit)"
    and v: "v = verify_v P keccak pf txid" and w: "w = hashmash1 P keccak pf v"
    and g: "length (pf_f pf) = 2 * m" "\<forall>k < 2 * m. pf_f pf ! k = ((bit_vec m i0 i1 ! k * w) mod Order + mask_vec rnd m ! k) mod Order"
    and A: "pf_A pf = commitment P gp (gr_A rnd) (mask_vec rnd m) (square_vec (mask_vec rnd m) @ [0, 0])"
    and B: "pf_B pf = commitment P gp (gr_B rnd) (bit_vec m i0 i1) (special_vec (mask_vec rnd m) (bit_vec m i0 i1) @ [0, 0])"
    and z_A: "pf_z_A pf mod Order = (gr_B rnd * w + gr_A rnd) mod Order"
    and a: "anon_support P gp pf s (st_Fee s + burn) v w (anon_f w (pf_f pf)) = Inr a" "ring_agrees P wit (uint (st_Fee s) + uint burn) gl a" "gl_wPow gl = w ^ m mod Order"
    and z: "z = gen_z keccak w" and tau: "tau = tau_vec (mod_exp z 2 Order) (mod_exp z 3 Order)" and ge: "ge_z0 ge = mod_exp z 2 Order" "ge_z1 ge = mod_exp z 3 Order"
    and ys: "ys = gen_ys keccak w" and yi: "\<forall>i < 128. ModInverse (ys ! i) Order = Some (yi i) \<and> (ys ! i * yi i) mod Order = 1"
    and BA: "pf_BA pf = commitment P gp (gr_BA rnd) (gen_aL bits) (gen_aR bits)" and BS: "pf_BS pf = commitment P gp (gr_BS rnd) sL sR" "length sL = 128" "length sR = 128"
    and l: "length l = 128" "\<forall>i < 128. l ! i mod Order = (range_l0 bits z ! i + x * sL ! i) mod Order"
    and r: "length r = 128" "\<forall>i < 128. r ! i mod Order = (range_r0 bits z ys tau ! i + x * hadamard sR ys ! i) mod Order"
    and x: "x = challenge_x P keccak z pf"
    and T1: "pf_T_1 pf = g1_Add P (g1_ScalarMult P (g1_G P) t1) (g1_ScalarMult P (g1_H P) (gr_T1 rnd))" "t1 mod Order = (dot (range_l0 bits z) (hadamard sR ys) + dot sL (range_r0 bits z ys tau)) mod Order"
    and T2: "pf_T_2 pf = g1_Add P (g1_ScalarMult P (g1_G P) t2) (g1_ScalarMult P (g1_H P) (gr_T2 rnd))" "t2 mod Order = dot sL (hadamard sR ys) mod Order"
    and that: "pf_that pf mod Order = (dot (range_l0 bits z) (range_r0 bits z ys tau) + t1 * x + t2 * (x * x)) mod Order"
    and mu: "pf_mu pf mod Order = (gr_BS rnd * x + gr_BA rnd) mod Order"
    and pt: "hashToPoint (nonce_seed keccak chainHash assetId assetIndex) = Inr point" and u: "pf_u pf = g1_ScalarMult P point (wt_SecretKey wit)"
    and c: "pf_c pf = gen_challenge P keccak gp rnd gl ge x point"
    and s_sk: "pf_s_sk pf mod Order = (pf_c pf * wt_SecretKey wit + gr_sk rnd) mod Order" and s_r: "pf_s_r pf mod Order = (pf_c pf * wt_R wit + gr_r rnd) mod Order"
    and s_b: "pf_s_b pf mod Order = ((uint (wt_TransferAmount wit) * mod_exp z 2 Order + uint (wt_Balance wit) * mod_exp z 3 Order) * gl_wPow gl * pf_c pf + gr_b rnd) mod Order"
    and s_tau: "pf_s_tau pf mod Order = ((gr_T1 rnd * x + gr_T2 rnd * (x * x)) * gl_wPow gl * pf_c pf + gr_tau rnd) mod Order"
    and o': "o' = reducedhash keccak (ConvertBigIntToByte (pf_c pf))"
    and ip: "InnerProduct_Verify P keccak (pf_ip pf) (map (\<lambda>i. g1_ScalarMult P (gp_Hs gp ! i) (yi i)) [0..<128]) (g1_ScalarMult P (gp_H gp) o')
        (ip_statement P (g1_ScalarMult P (gp_H gp) o') (gp_Gs gp) (map (\<lambda>i. g1_ScalarMult P (gp_Hs gp ! i) (yi i)) [0..<128]) l r) o' gp = Inr True"
  shows "Proof_Verify P keccak hashToPoint gp pf assetId assetIndex chainHash s txid burn = Inr True"
    and "GetA_t P keccak gp pf txid = g1_Marshal P (gen_A_t P gp rnd)"
proof -
  have gp: "gp_G gp = g1_G P" "gp_H gp = g1_H P" "length (gp_Gs gp) = 128" "length (gp_Hs gp) = 128" "gp_GSUM gp = Some (pv_Sum P (gp_Gs gp))"
    using gpo by (simp_all add: generators_ok_def)
  have H: "0 < m" "m \<le> 28" "length (st_C s) = length (st_Publickeylist s)" "odd (i0 + i1)" "uint (st_Fee s) + uint burn < 2 ^ 64" "st_D s = g1_ScalarMult P (g1_G P) (wt_R wit)"
    using h i by (simp_all add: honest_def)
  note fee = open_value_fits[OF H(5)]
  let ?pr = "protocol_support keccak w (pf_that pf)" and ?z0 = "mod_exp z 2 Order" and ?z1 = "mod_exp z 3 Order"
  have pr: "pr_z ?pr = z" "pr_z0 ?pr = ?z0" "pr_z1 ?pr = ?z1" by (simp_all only: protocol_support_simps z)
  have m2: "length (pf_f pf) div 2 = m" using g(1) by simp
  have wm: "w mod Order = w" by (simp add: w hashmash1_def reducedhash_def)
  have ob: "opens_bits (mask_vec rnd m) (bit_vec m i0 i1) m w (anon_f w (pf_f pf))" by (rule anon_f_opens) (use g in simp_all)
  have cb: "check_bits P gp pf w (anon_f w (pf_f pf)) = Inr True"
    using ob by (intro check_bits_accepts[OF L H(1,2,4) gp(3,4) A B z_A]) (simp_all add: opens_bits_def)
  have t: "pr_t ?pr mod Order = ((uint (wt_TransferAmount wit) * ?z0 + uint (wt_Balance wit) * ?z1) + t1 * x + t2 * (x * x)) mod Order"
    by (rule range_response[OF amt z tau refl refl]) (use that in \<open>simp only: bits ys\<close>)
  have at: "sigma_A_t P gp pf (pr_t ?pr) (t_eval P pf x) (gl_wPow gl) = gen_A_t P gp rnd"
    by (rule sigma_A_t_agrees[OF L gp(1,2) T1(1) T2(1) t s_tau s_b])
  have an: "an_wPow a = gl_wPow gl" using a(2) by (simp add: ring_agrees_def)
  have ch: "sigma_challenge P keccak gp pf s a ?pr (st_Fee s + burn) x point = pf_c pf"
    unfolding c by (rule sigma_challenge_agrees[OF L gp(1) _ s_sk s_r _ H(6) u]) (use a(2) s_b at in \<open>simp_all only: fee(1) pr ge an\<close>)
  have lb: "length bits = 128" by (simp add: bits amount_bits_def)
  have lens: "length (range_l0 bits z) = 128" "length (range_r0 bits z ys tau) = 128" "length (hadamard sR ys) = 128"
    using lb BS(3) by (simp_all add: range_r0_def fv_AddConstant_def ys gen_ys_def tau)
  have th: "pf_that pf mod Order = dot l r mod Order"
  proof -
    have "(dot (range_l0 bits z) (range_r0 bits z ys tau) + t1 * x + t2 * (x * x)) mod Order =
        (dot (range_l0 bits z) (range_r0 bits z ys tau) + (dot (range_l0 bits z) (hadamard sR ys) + dot sL (range_r0 bits z ys tau)) * x + dot sL (hadamard sR ys) * (x * x)) mod Order"
      by (intro mod_add_cong mult_mod_cong refl T1(2) T2(2))
    then show ?thesis unfolding that dot_lines[OF lens(1) BS(2) lens(2,3) l(1) r(1) l(2) r(2)] .
  qed
  note ic = inner_check[OF L gp(2-5) lb z tau ys yi BA BS mu th l r ip, where c = "pf_that pf"]
  have nth: "rnth (pf_f pf) 0 = Inr (pf_f pf ! 0)" "rnth (pf_f pf) m = Inr (pf_f pf ! m)" using g(1) H(1) by simp_all
  show "Proof_Verify P keccak hashToPoint gp pf assetId assetIndex chainHash s txid burn = Inr True"
    unfolding Proof_Verify_def Let_def v[symmetric] w[symmetric] m2 nth rbind_simps cb a(1) pt pr(1) x[symmetric] ch o'[symmetric]
    using first_bit_shown[OF H(1,4) g(2) wm] fee(2) H(3) ic by simp
  show "GetA_t P keccak gp pf txid = g1_Marshal P (gen_A_t P gp rnd)"
    by (simp only: GetA_t_def Let_def v[symmetric] w[symmetric] m2 wpow_funpow a(3)[symmetric] pr(1) x[symmetric] at)
qed

section \<open>Completeness\<close>

text \<open>The fields of a proof whose responses have been filled in.\<close>

lemma answered_fields:
  assumes "q = p\<lparr>pf_f := a1, pf_z_A := a2\<rparr>" "q' = q\<lparr>pf_T_1 := b1, pf_T_2 := b2\<rparr>"
    "r = q'\<lparr>pf_that := c1, pf_mu := c2, pf_c := c3, pf_s_sk := c4, pf_s_r := c5, pf_s_b := c6, pf_s_tau := c7, pf_ip := c8\<rparr>"
  shows "pf_CLnG r = pf_CLnG p" "pf_CRnG r = pf_CRnG p" "pf_C_0G r = pf_C_0G p" "pf_DG r = pf_DG p" "pf_y_0G r = pf_y_0G p"
    "pf_gG r = pf_gG p" "pf_C_XG r = pf_C_XG p" "pf_y_XG r = pf_y_XG p"
    "pf_u r = pf_u p" "pf_BA r = pf_BA p" "pf_BS r = pf_BS p" "pf_A r = pf_A p" "pf_B r = pf_B p"
    "pf_f r = a1" "pf_z_A r = a2" "pf_c r = c3" "pf_ip r = c8" "pf_T_1 r = b1" "pf_T_2 r = b2"
    "pf_mu r = c2" "pf_s_sk r = c4" "pf_s_r r = c5" "pf_that r = c1" "pf_s_b r = c6" "pf_s_tau r = c7"
    "pf_T_1 q' = b1" "pf_T_2 q' = b2"
  by (simp_all add: assms)

lemma generate_and_verify:
  assumes L: "g1_laws P" and gpo: "generators_ok P gp" and h: "honest P s wit burn m"
    and amt: "uint (wt_TransferAmount wit) < 2 ^ 63" "uint (wt_Balance wit) < 2 ^ 63"
    and pt: "hashToPoint (nonce_seed keccak chainHash assetId assetIndex) = Inr point" and u: "u = g1_ScalarMult P point (wt_SecretKey wit)"
  shows "(\<exists>pf. GenerateProof P keccak hashToPoint gp rnd assetId assetIndex chainHash s wit u txid burn = Inr pf \<and>
      Proof_Verify P keccak hashToPoint gp pf assetId assetIndex chainHash s txid burn = Inr True) \<or>
    (\<exists>inp. \<not> coprime (reducedhash keccak inp) Order \<and>
      GenerateProof P keccak hashToPoint gp rnd assetId assetIndex chainHash s wit u txid burn = Inl nil_challenge)"
proof -
  let ?n = "2 ^ m :: nat"
  obtain i0 i1 where ix: "wt_Index wit = [i0, i1]"
    using h by (auto simp: honest_def numeral_2_eq_2 length_Suc_conv)
  have i: "i0 = wt_Index wit ! 0" "i1 = wt_Index wit ! 1" by (simp_all add: ix)
  have gp: "gp_G gp = g1_G P" "gp_H gp = g1_H P" "length (gp_Gs gp) = 128" "length (gp_Hs gp) = 128" "gp_GSUM gp = Some (pv_Sum P (gp_Gs gp))"
    using gpo by (simp_all add: generators_ok_def)
  have H: "0 < m" "m \<le> 28" "length (st_Publickeylist s) = ?n" "length (st_C s) = ?n" "length (st_CLn s) = ?n" "length (st_CRn s) = ?n" "i0 < ?n" "i1 < ?n"
    using h i by (simp_all add: honest_def)
  define bits where "bits = amount_bits (wt_TransferAmount wit) (wt_Balance wit)"
  have lb: "length bits = 128" by (simp add: bits_def amount_bits_def)
  define sL where "sL = map (gr_sL rnd) [0..<128]"
  define sR where "sR = map (gr_sR rnd) [0..<128]"
  have ls: "length sL = 128" "length sR = 128" by (simp_all add: sL_def sR_def)
  have ba: "vector_commit P gp (gr_BA rnd) (gen_aL bits) (gen_aR bits) = Inr (commitment P gp (gr_BA rnd) (gen_aL bits) (gen_aR bits))"
    "vector_commit P gp (gr_BS rnd) sL sR = Inr (commitment P gp (gr_BS rnd) sL sR)"
    unfolding commitment_def using lb ls gp by (intro vector_commit_value[OF L]; simp)+
  let ?a = "mask_vec rnd m" and ?b = "bit_vec m i0 i1" and ?cn = "map2 (plain_eg P) (st_CLn s) (st_CRn s)" and ?key = "st_Publickeylist s ! i0"
  define cA where "cA = commitment P gp (gr_A rnd) ?a (square_vec ?a @ [0, 0])"
  define cB where "cB = commitment P gp (gr_B rnd) ?b (special_vec ?a ?b @ [0, 0])"
  have gb: "gen_selectors P gp rnd m (wt_Index wit) = Inr \<lparr>gb_a = ?a, gb_b = ?b, gb_A = cA, gb_B = cB\<rparr>"
    unfolding ix cA_def cB_def by (rule gen_selectors_value[OF L H(1,2,7,8) gp(3-5)])
  define pf0 where "pf0 = (empty_proof P)\<lparr>pf_u := u, pf_BA := commitment P gp (gr_BA rnd) (gen_aL bits) (gen_aR bits),
    pf_BS := commitment P gp (gr_BS rnd) sL sR, pf_A := cA, pf_B := cB\<rparr>"
  define v where "v = verify_v P keccak pf0 txid"
  obtain ps qs where ps: "gen_polynomials m ?a ?b = Inr (ps, qs)"
    and vals: "\<And>w f. opens_bits ?a ?b m w f \<Longrightarrow> \<exists>r0 r1. assemblepolynomials f = Inr (zip r0 r1) \<and> ring_values m i0 w ps r0 \<and> ring_values m i1 w qs r1"
    using gen_polynomials_value[OF H(1,7,8)] by blast
  obtain g0 where g0: "length g0 = 2 * m" "\<forall>k < 2 * m. g0 ! k = ((?b ! k * 0) mod Order + ?a ! k) mod Order"
    using masked_bits[OF length_selectors(1)[of rnd m] length_selectors(2)[of m i0 i1], of 0] by blast
  have psl: "length ps = m" "length qs = m" "\<And>i. i < m \<Longrightarrow> length (ps ! i) = ?n \<and> length (qs ! i) = ?n" "0 < ?n"
    using vals[OF anon_f_opens[OF length_selectors g0]] by (auto simp: ring_values_def)
  obtain pf1 cxs where com: "gen_commitments P rnd s wit burn m ?n i0 i1 ?cn ?key pf0 v ps qs = Inr (pf1, cxs)"
    and keep: "pf_u pf1 = pf_u pf0" "pf_BA pf1 = pf_BA pf0" "pf_BS pf1 = pf_BS pf0" "pf_A pf1 = pf_A pf0" "pf_B pf1 = pf_B pf0"
    using gen_commitments_points[OF L H(3-6) psl(4,1-3) refl refl, where rnd = rnd and wit = wit and burn = burn and ?i0.0 = i0 and ?i1.0 = i1
        and key = ?key and pf = pf0 and v = v] by fastforce
  define w where "w = hashmash1 P keccak pf1 v"
  obtain g where g: "fv_Add (fv_Times ?b w) ?a = Inr g" "length g = 2 * m" "\<forall>k < 2 * m. g ! k = ((?b ! k * w) mod Order + ?a ! k) mod Order"
    using masked_bits[OF length_selectors] by blast
  obtain r0 r1 where r: "assemblepolynomials (anon_f w g) = Inr (zip r0 r1)" "ring_values m i0 w ps r0" "ring_values m i1 w qs r1"
    using vals[OF anon_f_opens[OF length_selectors g(2,3)]] by blast
  define pf2 where "pf2 = pf1\<lparr>pf_f := g, pf_z_A := ((gr_B rnd * w) mod Order + gr_A rnd) mod Order\<rparr>"
  have fl: "length (anon_f w g) = 2 * m" using g(2) by (simp add: anon_f_def)
  note agree = ring_agreement[OF L h refl i gp(1) refl r(2,3) fl r(1) com]
  obtain gl where gl: "gen_links P rnd s ?cn ?key m ?n i0 i1 v w cxs ps qs = Inr gl" "gl_wPow gl = w ^ m mod Order"
    using agree[of pf1] by blast
  define z where "z = gen_z keccak w"
  define ys where "ys = gen_ys keccak w"
  define tau where "tau = tau_vec (mod_exp z 2 Order) (mod_exp z 3 Order)"
  define l0 where "l0 = range_l0 bits z"
  define r0' where "r0' = range_r0 bits z ys tau"
  define r1' where "r1' = hadamard sR ys"
  define t1 where "t1 = (dot l0 r1' mod Order + dot sL r0' mod Order) mod Order"
  define t2 where "t2 = dot sL r1' mod Order"
  define ge where "ge = \<lparr>ge_ys = ys, ge_z = z, ge_z0 = mod_exp z 2 Order, ge_z1 = mod_exp z 3 Order, ge_l = [l0, sL], ge_r = [r0', r1'],
    ge_t = [dot l0 r0' mod Order, t1, t2]\<rparr>"
  have ger: "gen_range_polys keccak rnd bits w = Inr ge"
    unfolding ge_def t1_def t2_def by (rule gen_range_polys_value[OF lb z_def ys_def tau_def sL_def sR_def l0_def r0'_def r1'_def])
  have gef: "ge_t ge = [dot l0 r0' mod Order, t1, t2]" "ge_z ge = z" "ge_z0 ge = mod_exp z 2 Order" "ge_z1 ge = mod_exp z 3 Order"
    "ge_ys ge = ys" "ge_l ge = [l0, sL]" "ge_r ge = [r0', r1']"
    by (simp_all add: ge_def)
  define pfT where "pfT = pf2\<lparr>pf_T_1 := g1_Add P (g1_ScalarMult P (g1_G P) t1) (g1_ScalarMult P (g1_H P) (gr_T1 rnd)),
    pf_T_2 := g1_Add P (g1_ScalarMult P (g1_G P) t2) (g1_ScalarMult P (g1_H P) (gr_T2 rnd))\<rparr>"
  define x where "x = challenge_x P keccak z pfT"
  define c where "c = gen_challenge P keccak gp rnd gl ge x point"
  define o' where "o' = reducedhash keccak (ConvertBigIntToByte c)"
  define pf where "pf = (\<lambda>ip. pfT\<lparr>pf_that := ((dot l0 r0' mod Order + (t1 * x) mod Order) mod Order + (t2 * ((x * x) mod Order)) mod Order) mod Order,
    pf_mu := ((gr_BS rnd * x) mod Order + gr_BA rnd) mod Order, pf_c := c,
    pf_s_sk := ((c * wt_SecretKey wit) mod Order + gr_sk rnd) mod Order, pf_s_r := ((c * wt_R wit) mod Order + gr_r rnd) mod Order,
    pf_s_b := (((((uint (wt_TransferAmount wit) * mod_exp z 2 Order) mod Order + (uint (wt_Balance wit) * mod_exp z 3 Order) mod Order) mod Order * gl_wPow gl) mod Order * c) mod Order + gr_b rnd) mod Order,
    pf_s_tau := (((((gr_T1 rnd * x) mod Order + (gr_T2 rnd * ((x * x) mod Order)) mod Order) mod Order * gl_wPow gl) mod Order * c) mod Order + gr_tau rnd) mod Order,
    pf_ip := ip\<rparr>)"
  have nt: "rnth (ge_t ge) 0 = Inr (dot l0 r0' mod Order)" "rnth (ge_t ge) 1 = Inr t1" "rnth (ge_t ge) 2 = Inr t2" by (simp_all add: gef)
  have T: "pc_Result (PedersenCommitmentNew_Commit P k (NewPedersenCommitmentNew P) t) = Some (g1_Add P (g1_ScalarMult P (g1_G P) t) (g1_ScalarMult P (g1_H P) k))" for k t
    by (simp add: PedersenCommitmentNew_Commit_def NewPedersenCommitmentNew_def)
  have resp: "gen_responses P keccak hashToPoint gp rnd assetId assetIndex chainHash wit gl ge pf2 = rbind (gen_inner_product P keccak gp ge x o') (\<lambda>ip. Inr (pf ip))"
    unfolding gen_responses_def Let_def nt T rbind_simps rderef_simps gef(2-4) pfT_def[symmetric] x_def[symmetric] pt c_def[symmetric] o'_def[symmetric] pf_def ..
  have run: "GenerateProof P keccak hashToPoint gp rnd assetId assetIndex chainHash s wit u txid burn =
      rbind (gen_inner_product P keccak gp ge x o') (\<lambda>ip. if g1_Marshal P (gen_A_t P gp rnd) \<noteq> GetA_t P keccak gp (pf ip) txid
        then Inl (Error ''A_t is not matching A_t2'') else Inr (pf ip))"
    unfolding GenerateProof_def statement_ciphertexts[OF H(4-6)] rbind_simps Let_def bits_def[symmetric] lb sL_def[symmetric] sR_def[symmetric] ba H(3) ring_power_value gb gen_bits.simps pf0_def[symmetric] v_def[symmetric] ps prod.case
    using H(3,7) by (simp add: ix com w_def[symmetric] g(1) pf2_def[symmetric] ger gl(1) resp rbind_assoc)
  have lens: "length l0 = 128" "length r0' = 128" "length r1' = 128"
    using lb ls by (simp_all add: l0_def r0'_def r1'_def range_r0_def fv_AddConstant_def ys_def gen_ys_def tau_def)
  have ysp: "ge_ys ge = powers_from 128 1 (reducedhash keccak (ConvertBigIntToByte w))" by (simp add: gef ys_def gen_ys_def)
  from gen_inner_product_outcome[OF L gp(3-5) ysp gef(6,7) lens(1) ls(1) lens(2,3), of x o']
  show ?thesis
  proof (elim disjE exE conjE)
    fix ip yi l r
    assume ip: "gen_inner_product P keccak gp ge x o' = Inr ip"
      and yi: "\<forall>i < 128. ModInverse (ge_ys ge ! i) Order = Some (yi i) \<and> (ge_ys ge ! i * yi i) mod Order = 1" and lr: "length l = 128" "length r = 128"
      and l: "\<forall>i < 128. l ! i mod Order = (l0 ! i + x * sL ! i) mod Order" and r': "\<forall>i < 128. r ! i mod Order = (r0' ! i + x * r1' ! i) mod Order"
      and ok: "InnerProduct_Verify P keccak ip (map (\<lambda>i. g1_ScalarMult P (gp_Hs gp ! i) (yi i)) [0..<128]) (g1_ScalarMult P (gp_H gp) o')
        (ip_statement P (g1_ScalarMult P (gp_H gp) o') (gp_Gs gp) (map (\<lambda>i. g1_ScalarMult P (gp_Hs gp ! i) (yi i)) [0..<128]) l r) o' gp = Inr True"
    let ?pf = "pf ip"
    note fields = answered_fields[OF pf2_def pfT_def pf_def[THEN fun_cong, of ip, unfolded]]
    note lists = fields(1-8)
    have heads: "pf_u ?pf = u" "pf_BA ?pf = commitment P gp (gr_BA rnd) (gen_aL bits) (gen_aR bits)" "pf_BS ?pf = commitment P gp (gr_BS rnd) sL sR" "pf_A ?pf = cA" "pf_B ?pf = cB"
      unfolding fields(9-13) keep by (simp_all add: pf0_def)
    note flds = fields(14-19) and raw = fields(20-25)
    obtain a where sup: "anon_support P gp ?pf s (st_Fee s + burn) v w (anon_f w (pf_f ?pf)) = Inr a" "ring_agrees P wit (uint (st_Fee s) + uint burn) gl a"
      using agree[OF lists] gl(1) unfolding flds(1) by auto
    have v': "v = verify_v P keccak ?pf txid" unfolding verify_v_def v_def heads by (simp add: pf0_def)
    have w': "w = hashmash1 P keccak ?pf v" by (simp only: hashmash1_def w_def lists)
    have x': "x = challenge_x P keccak z ?pf" by (simp only: challenge_x_def x_def flds(5,6) fields(26,27))
    have mods: "pf_z_A ?pf mod Order = (gr_B rnd * w + gr_A rnd) mod Order" "pf_mu ?pf mod Order = (gr_BS rnd * x + gr_BA rnd) mod Order"
      "pf_s_sk ?pf mod Order = (pf_c ?pf * wt_SecretKey wit + gr_sk rnd) mod Order" "pf_s_r ?pf mod Order = (pf_c ?pf * wt_R wit + gr_r rnd) mod Order"
      "pf_that ?pf mod Order = (dot l0 r0' + t1 * x + t2 * (x * x)) mod Order"
      "pf_s_b ?pf mod Order = ((uint (wt_TransferAmount wit) * mod_exp z 2 Order + uint (wt_Balance wit) * mod_exp z 3 Order) * gl_wPow gl * pf_c ?pf + gr_b rnd) mod Order"
      "pf_s_tau ?pf mod Order = ((gr_T1 rnd * x + gr_T2 rnd * (x * x)) * gl_wPow gl * pf_c ?pf + gr_tau rnd) mod Order"
      by (simp_all only: flds(2,3) raw mod_simps mod_mod_trivial)
    have tm: "t1 mod Order = (dot l0 r1' + dot sL r0') mod Order" "t2 mod Order = dot sL r1' mod Order" by (simp_all only: t1_def t2_def mod_simps mod_mod_trivial)
    have f: "length (pf_f ?pf) = 2 * m" "\<forall>k < 2 * m. pf_f ?pf ! k = ((bit_vec m i0 i1 ! k * w) mod Order + mask_vec rnd m ! k) mod Order"
      using g(2,3) by (simp_all only: flds(1))
    have o2: "o' = reducedhash keccak (ConvertBigIntToByte (pf_c ?pf))" by (simp only: o'_def flds(3))
    have ok2: "InnerProduct_Verify P keccak (pf_ip ?pf) (map (\<lambda>i. g1_ScalarMult P (gp_Hs gp ! i) (yi i)) [0..<128]) (g1_ScalarMult P (gp_H gp) o')
        (ip_statement P (g1_ScalarMult P (gp_H gp) o') (gp_Gs gp) (map (\<lambda>i. g1_ScalarMult P (gp_Hs gp ! i) (yi i)) [0..<128]) l r) o' gp = Inr True"
      by (simp only: flds(4) ok)
    note accepted = verify_accepts[where pf = ?pf and yi = yi and rnd = rnd and hashToPoint = hashToPoint and chainHash = chainHash and assetId = assetId and assetIndex = assetIndex, OF L gpo h i amt bits_def v' w' f heads(4)[unfolded cA_def] heads(5)[unfolded cB_def] mods(1) sup gl(2)
        z_def tau_def gef(3,4) ys_def yi[unfolded gef(5)] heads(2,3) ls lr(1) l[unfolded l0_def] lr(2) r'[unfolded r0'_def r1'_def] x' flds(5) tm(1)[unfolded l0_def r0'_def r1'_def]
        flds(6) tm(2)[unfolded r1'_def] mods(5)[unfolded l0_def r0'_def] mods(2) pt heads(1)[unfolded u] flds(3)[unfolded c_def] mods(3,4,6,7) o2 ok2]
    show ?thesis using run ip accepted by (intro disjI1 exI[of _ ?pf]) simp
  next
    fix inp assume "\<not> coprime (reducedhash keccak inp) Order" "gen_inner_product P keccak gp ge x o' = Inl nil_challenge"
    then show ?thesis using run by (intro disjI2 exI[of _ inp] conjI) simp_all
  qed
qed

text \<open>The random scalars of the example below.\<close>

definition rnd0 :: gen_random where
  "rnd0 = \<lparr>gr_BA = 11, gr_sL = (\<lambda>i. int i), gr_sR = (\<lambda>i. int i + 1), gr_BS = 12, gr_aa = (\<lambda>i. int i + 2), gr_A = 13, gr_B = 14,
     gr_phi = (\<lambda>i. int i + 3), gr_chi = (\<lambda>i. int i + 4), gr_psi = (\<lambda>i. int i + 5), gr_CX = (\<lambda>i. int i + 6), gr_T1 = 15, gr_T2 = 16,
     gr_sk = 17, gr_r = 18, gr_b = 19, gr_tau = 20\<rparr>"

text \<open>
  C3: the ring proof is complete. For a statement whose ciphertexts move the amount, the fee and the burnt value of the
  witness from the sender to the receiver of a ring of \<open>2 ^ m\<close> keys (\<open>0 < m \<le> 28\<close>, sender and receiver at positions
  of different parity, the amounts below \<open>2 ^ 63\<close>, the encrypted balance opening to the balance of the witness),
  every choice of the random scalars gives a proof that \<^verbatim>\<open>Verify\<close> accepts, unless a hash challenge is not
  invertible, in which case \<^verbatim>\<open>GenerateProof\<close> fails on the missing inverse and no proof is returned. In particular the
  prover's own comparison of the two forms of \<open>A_t\<close> never fails. The curve is a parameter with its group laws.
\<close>

theorem ring_proof_complete:
  assumes "g1_laws P" "generators_ok P gp" "honest P s wit burn m"
    and "uint (wt_TransferAmount wit) < 2 ^ 63" "uint (wt_Balance wit) < 2 ^ 63"
    and "hashToPoint (nonce_seed keccak chainHash assetId assetIndex) = Inr point" "u = g1_ScalarMult P point (wt_SecretKey wit)"
  shows "(\<exists>pf. GenerateProof P keccak hashToPoint gp rnd assetId assetIndex chainHash s wit u txid burn = Inr pf \<and>
      Proof_Verify P keccak hashToPoint gp pf assetId assetIndex chainHash s txid burn = Inr True) \<or>
    (\<exists>inp. \<not> coprime (reducedhash keccak inp) Order \<and>
      GenerateProof P keccak hashToPoint gp rnd assetId assetIndex chainHash s wit u txid burn = Inl nil_challenge)"
  using assms by (rule generate_and_verify)

theorem ring_proof_complete_witness:
  "\<exists>s gp wit pf. wt_TransferAmount wit = 7 \<and> wt_Balance wit = 100 \<and> length (st_Publickeylist s) = 2 \<and>
     GenerateProof residue_curve (\<lambda>_. [2]) (\<lambda>_. Inr (residue 9)) gp rnd0 [] 0 [] s wit (residue 27) [] 2 = Inr pf \<and>
     Proof_Verify residue_curve (\<lambda>_. [2]) (\<lambda>_. Inr (residue 9)) gp pf [] 0 [] s [] 2 = Inr True"
proof -
  let ?P = residue_curve
  let ?gp = "\<lparr>gp_G = g1_G ?P, gp_H = g1_H ?P, gp_GSUM = Some (pv_Sum ?P (replicate 128 (residue 5))),
    gp_Gs = replicate 128 (residue 5), gp_Hs = replicate 128 (residue 6)\<rparr>"
  let ?wit = "\<lparr>wt_SecretKey = 3, wt_R = 5, wt_TransferAmount = 7, wt_Balance = 100, wt_Index = [0, 1]\<rparr>"
  let ?s = "\<lparr>st_RingSize = 2, st_CLn = [residue 106, residue 1], st_CRn = [residue 2, residue 3], st_Publickeylist = [residue 3, residue 4],
    st_C = [residue (15 - 10), residue 27], st_D = residue 5, st_Fee = 1\<rparr>"
  have c: "\<not> (\<exists>inp. \<not> coprime (reducedhash (\<lambda>_. [2]) inp) Order)"
    by (simp add: reducedhash_def HashtoNumber_def SetBytes_def Order_def)
  have two: "(\<forall>j < 2. Q j) \<longleftrightarrow> Q 0 \<and> Q 1" for Q :: "nat \<Rightarrow> bool" by (auto simp: numeral_2_eq_2 less_Suc_eq)
  have h: "honest ?P ?s ?wit 2 1"
    by (simp add: honest_def gain_def residue_curve_def residue_int_residue two residue_eq mod_simps)
  have "generators_ok ?P ?gp" by (simp add: generators_ok_def)
  from ring_proof_complete[OF residue_laws this h, of "\<lambda>_. Inr (residue 9)" "\<lambda>_. [2]" "[]" "[]" 0 "residue 9" "residue 27" rnd0 "[]"] c
  show ?thesis by (intro exI[of _ ?s] exI[of _ ?gp] exI[of _ ?wit]) (simp add: residue_curve_def residue_int_residue residue_eq Order_def)
qed

end
