(* ===== verification/Spec2Isabelle.thy ===== *)
theory Spec2Isabelle
  imports Fee_Liquidity Blocks Addresses Polynomials Ledger_Conditional Conditional_Maps Tx_Replay Tx_Received Fourier Ring_Proof
begin

text \<open>
  Pandora Pay, a node of a privacy-preserving proof-of-stake blockchain written in Go (\<^verbatim>\<open>src/\<close>).

  \<^bold>\<open>The program.\<close>  The node keeps its state in a key-value store.  Over the store lie hash maps with
  uncommitted changes (\<^verbatim>\<open>store/hash_map\<close>) and heaps (\<^verbatim>\<open>store/min_max_heap\<close>); out of them the ledger is made
  (\<^verbatim>\<open>blockchain/data_storage\<close>): registrations, plain accounts, encrypted accounts for every asset, assets,
  stakes that wait for their block, conditional payments and offers of fee liquidity.  Transactions
  (\<^verbatim>\<open>blockchain/transactions\<close>) arrive as bytes, are verified (\<^verbatim>\<open>txs_validator\<close>) and are included in the ledger.
  Balances are ElGamal ciphertexts; a private transaction carries a ring proof
  (\<^verbatim>\<open>cryptography/crypto\<close>).  Blocks (\<^verbatim>\<open>blockchain/blocks\<close>) are forged by stake and bind their transactions
  with a Merkle root.

  \<^bold>\<open>How Go is modelled\<close> (\<open>Go_Prelude\<close>).  Unsigned integers are words of their width, so that arithmetic wraps;
  \<^verbatim>\<open>big.Int\<close> is \<open>int\<close>; byte slices and strings are lists of bytes.  A computation is a function from a state to a
  result and the new state (\<open>('s, 'a) go\<close>); the result is a value, an \<open>Error\<close> that the code returns, a \<open>Panic\<close>
  (index out of range, nil pointer, division by zero, a failed type assertion) or \<open>Timeout\<close> when fuel runs
  out.  \<open>gbind\<close>, \<open>gfor\<close>, \<open>gcheck\<close> and \<open>deref\<close> are the sequencing, the loop, the guarded return and the pointer
  access of the code; \<open>rbind\<close>, \<open>rmap\<close>, \<open>rnth\<close> and \<open>rderef\<close> are their counterparts without a state.

  \<^bold>\<open>Theories and sources.\<close>
  \<^item> \<open>Go_Prelude\<close>: the language, shared lemmas, the collections \<open>codec\<close> and others.
  \<^item> \<open>Amounts\<close>, \<open>Float64\<close>, \<open>Big_Numbers\<close>: \<^verbatim>\<open>helpers/safe_uint64.go\<close>, \<^verbatim>\<open>helpers/math_helper.go\<close>, \<^verbatim>\<open>config/*\<close>, the
    floating-point operations and big-number encodings of the standard library that the code uses.
  \<^item> \<open>Buffers\<close>: \<^verbatim>\<open>helpers/advanced_buffers\<close>, with the predicates \<open>writes\<close> and \<open>reads\<close> that all round trips rest on.
  \<^item> \<open>Store_DB\<close>: \<^verbatim>\<open>store/store_db\<close>, the interface of a store transaction and the memory store.
  \<^item> \<open>Hash_Map\<close>, \<open>Hash_Map_Laws\<close>, \<open>Map_Access\<close>: \<^verbatim>\<open>store/hash_map\<close>.  The element type of a map is a record of operations;
    the locales state what an element type promises and prove the map once for all element types.
  \<^item> \<open>Heap\<close>, \<open>Heap_Order\<close>, \<open>Heap_Store\<close>: \<^verbatim>\<open>store/min_max_heap\<close>, the heap over an abstract array, in memory and in the store.
  \<^item> \<open>Elements\<close>, \<open>Accounts\<close>, \<open>Assets\<close>, \<open>Fee_Liquidity\<close>: the element types and collections of \<^verbatim>\<open>blockchain/data_storage\<close>.
  \<^item> \<open>Data_Storage\<close>, \<open>Data_Storage_Blocks\<close>: \<^verbatim>\<open>data_storage.go\<close> and \<^verbatim>\<open>data_storage_extra.go\<close>, the ledger and its operations.
  \<^item> \<open>Ledger\<close>, \<open>Ledger_Maps\<close>, \<open>Ledger_Balances\<close>, \<open>Ledger_Steps\<close>, \<open>Ledger_Conditional\<close>, \<open>Conditional_Maps\<close>: invariants
    and functional properties of the ledger; \<open>Ledger_Steps\<close> has the ledger as a step relation.
  \<^item> \<open>Merkle_Tree\<close>, \<open>Blocks\<close>: \<^verbatim>\<open>cryptography/merkle_tree\<close>, \<^verbatim>\<open>blockchain/blocks/block\<close> with bloom and difficulty.
  \<^item> \<open>Crypto_Algebra\<close>, \<open>Signatures\<close>, \<open>Inner_Product\<close>, \<open>Polynomials\<close>, \<open>Proofs\<close>, \<open>Proof_Verify\<close>: \<^verbatim>\<open>cryptography/crypto\<close>.
  \<^item> \<open>Addresses\<close>: \<^verbatim>\<open>addresses\<close>, keys, addresses with their text form, signatures of registrations.
  \<^item> \<open>Tx_Simple\<close>, \<open>Tx_Registrations\<close>, \<open>Tx_Payload\<close>, \<open>Transactions\<close>: \<^verbatim>\<open>blockchain/transactions/transaction\<close> and the
    worker of \<^verbatim>\<open>txs_validator\<close>; \<open>Tx_Replay\<close>, \<open>Tx_Codec\<close>, \<open>Tx_Received\<close> hold their properties.
\<close>

end
